(* ===== verification/Prelude.thy ===== *)
theory Prelude
  imports Main "HOL-Library.Word"
begin

text \<open>
  Shared vocabulary of the development: bytes and C strings, memory faults as values, the
  C string searches the code uses, and the lemmas on list slices, association lists and
  first-match searches that several components need.

  A byte is a \<open>char\<close>; a C string is the list of its bytes without the closing NUL.  A C
  buffer is the list of all its bytes, so an access past its end is visible and is modelled
  as the error \<open>OutOfBounds\<close>.  \<open>Blocked\<close> is a semaphore \<open>down\<close> that would sleep for ever in a
  sequential run.
\<close>

section \<open>Collections of rewrite rules\<close>

named_theorems cstr_simps \<open>C strings and string searches\<close>
named_theorems slice_simps \<open>reading and overwriting slices of a byte list\<close>
named_theorems search_simps \<open>first-match searches in lists\<close>

section \<open>Types\<close>

type_synonym byte = char
type_synonym u32 = "32 word"

datatype fault = OutOfBounds | Blocked

type_synonym 'a res = "fault + 'a"

text \<open>Sequencing: the first fault ends the computation.\<close>

fun res_bind :: "'a res \<Rightarrow> ('a \<Rightarrow> 'b res) \<Rightarrow> 'b res" where
  "res_bind (Inl f) k = Inl f"
| "res_bind (Inr x) k = k x"

lemma res_bind_Inr_iff: "res_bind m k = Inr y \<longleftrightarrow> (\<exists>x. m = Inr x \<and> k x = Inr y)"
  by (cases m) auto

lemma res_bind_InrE [elim!]:
  assumes "res_bind m k = Inr y"
  obtains x where "m = Inr x" and "k x = Inr y"
  using assms by (auto simp: res_bind_Inr_iff)

lemma res_bind_cong [fundef_cong]:
  assumes "m = m'" and "\<And>x. m' = Inr x \<Longrightarrow> k x = k' x"
  shows "res_bind m k = res_bind m' k'"
  using assms by (cases m') auto

abbreviation NUL :: byte where "NUL \<equiv> CHR 0x00"

definition is_cstr :: "byte list \<Rightarrow> bool" where
  "is_cstr s \<longleftrightarrow> NUL \<notin> set s"

lemma is_cstr_simps [simp, cstr_simps]:
  "is_cstr []"
  "is_cstr (c # s) \<longleftrightarrow> c \<noteq> NUL \<and> is_cstr s"
  "is_cstr (s @ t) \<longleftrightarrow> is_cstr s \<and> is_cstr t"
  by (auto simp: is_cstr_def)

lemma is_cstr_take [simp, intro]: "is_cstr s \<Longrightarrow> is_cstr (take n s)"
  by (auto simp: is_cstr_def dest: in_set_takeD)

lemma is_cstr_drop [simp, intro]: "is_cstr s \<Longrightarrow> is_cstr (drop n s)"
  by (auto simp: is_cstr_def dest: in_set_dropD)

text \<open>\<open>char\<close> is signed on the target (MIPS, gcc): the value a \<open>char\<close> is promoted to.\<close>

definition uchar :: "byte \<Rightarrow> nat" where
  "uchar c = of_char c"

definition schar :: "byte \<Rightarrow> int" where
  "schar c = (if uchar c < 128 then int (uchar c) else int (uchar c) - 256)"

text \<open>\<open>isspace\<close> of the C library.\<close>

definition gisspace :: "byte \<Rightarrow> bool" where
  "gisspace c \<longleftrightarrow> uchar c = 32 \<or> (9 \<le> uchar c \<and> uchar c \<le> 13)"

lemma uchar_less [simp]: "uchar c < 256"
  by (simp add: uchar_def)

lemma uchar_inject [simp]: "uchar a = uchar b \<longleftrightarrow> a = b"
  by (simp add: uchar_def)

lemma schar_mod_256 [simp]: "schar c mod 256 = int (uchar c)"
proof -
  have "int (uchar c) mod 256 = int (uchar c)"
    using uchar_less [of c] by (intro mod_pos_pos_trivial) auto
  then show ?thesis by (simp add: schar_def)
qed

section \<open>Searching a NUL-terminated string in a buffer\<close>

text \<open>
  \<open>strchr p c\<close>: the index of the first \<open>c\<close>, \<open>NotFound\<close> when the terminating NUL comes first,
  \<open>Overrun\<close> when the scan leaves the buffer.  As in C, \<open>strchr p NUL\<close> finds the terminator.
\<close>

datatype scan = Found nat | NotFound | Overrun

fun scan_suc :: "scan \<Rightarrow> scan" where
  "scan_suc (Found k) = Found (Suc k)"
| "scan_suc s = s"

fun strchr :: "byte list \<Rightarrow> byte \<Rightarrow> scan" where
  "strchr [] c = Overrun"
| "strchr (x # xs) c =
     (if x = c then Found 0 else if x = NUL then NotFound else scan_suc (strchr xs c))"

lemma scan_suc_Found [simp]: "scan_suc s = Found k \<longleftrightarrow> (\<exists>j. s = Found j \<and> k = Suc j)"
  by (cases s) auto

lemma scan_suc_NotFound [simp]: "scan_suc s = NotFound \<longleftrightarrow> s = NotFound"
  by (cases s) auto

lemma scan_suc_Overrun [simp]: "scan_suc s = Overrun \<longleftrightarrow> s = Overrun"
  by (cases s) auto

lemma strchr_append [cstr_simps]:
  "is_cstr s \<Longrightarrow> c \<notin> set s \<Longrightarrow> strchr (s @ c # t) c = Found (length s)"
  by (induction s) auto

lemma strchr_terminated [cstr_simps]:
  "is_cstr s \<Longrightarrow> c \<notin> set s \<Longrightarrow> c \<noteq> NUL \<Longrightarrow> strchr (s @ NUL # t) c = NotFound"
  by (induction s) auto

lemma strchr_overrun [cstr_simps]:
  "is_cstr s \<Longrightarrow> c \<notin> set s \<Longrightarrow> strchr s c = Overrun"
  by (induction s) auto

lemma strchr_FoundD:
  "strchr p c = Found k \<Longrightarrow>
     k < length p \<and> p ! k = c \<and> c \<notin> set (take k p) \<and> is_cstr (take k p)"
  by (induction p arbitrary: k) (auto split: if_splits)

lemma strchr_NUL_not_NotFound [simp]: "strchr p NUL \<noteq> NotFound"
  by (induction p) auto

text \<open>\<open>strstr(hay, needle) != NULL\<close> on C strings.\<close>

fun starts_with :: "string \<Rightarrow> string \<Rightarrow> bool" where
  "starts_with [] ys = True"
| "starts_with (x # xs) [] = False"
| "starts_with (x # xs) (y # ys) = (x = y \<and> starts_with xs ys)"

fun has_sub :: "string \<Rightarrow> string \<Rightarrow> bool" where
  "has_sub needle [] = (needle = [])"
| "has_sub needle (y # ys) = (starts_with needle (y # ys) \<or> has_sub needle ys)"

lemma starts_with_iff: "starts_with xs ys \<longleftrightarrow> (\<exists>zs. ys = xs @ zs)"
  by (induction xs ys rule: starts_with.induct) auto

lemma has_sub_iff: "has_sub needle hay \<longleftrightarrow> (\<exists>a b. hay = a @ needle @ b)"
proof (induction hay)
  case Nil
  then show ?case by simp
next
  case (Cons y ys)
  show ?case
  proof
    assume "has_sub needle (y # ys)"
    then consider "starts_with needle (y # ys)" | "has_sub needle ys" by auto
    then show "\<exists>a b. y # ys = a @ needle @ b"
    proof cases
      case 1
      then obtain zs where "y # ys = [] @ needle @ zs" by (auto simp: starts_with_iff)
      then show ?thesis by blast
    next
      case 2
      then obtain a b where "y # ys = (y # a) @ needle @ b" using Cons by auto
      then show ?thesis by blast
    qed
  next
    assume "\<exists>a b. y # ys = a @ needle @ b"
    then obtain a b where e: "y # ys = a @ needle @ b" by blast
    then show "has_sub needle (y # ys)"
    proof (cases a)
      case Nil
      with e have "starts_with needle (y # ys)" by (auto simp: starts_with_iff)
      then show ?thesis by simp
    next
      case (Cons z zs)
      with e have "ys = zs @ needle @ b" by simp
      then have "has_sub needle ys" using Cons.IH by blast
      then show ?thesis by simp
    qed
  qed
qed

section \<open>Slices\<close>

text \<open>\<open>put_slice xs off ys\<close> overwrites \<open>xs\<close> from offset \<open>off\<close> with \<open>ys\<close>, like
  \<open>memcpy(xs + off, ys, length ys)\<close>; \<open>get_slice xs off n\<close> reads \<open>n\<close> bytes from \<open>off\<close>.\<close>

definition put_slice :: "'a list \<Rightarrow> nat \<Rightarrow> 'a list \<Rightarrow> 'a list" where
  "put_slice xs off ys = take off xs @ ys @ drop (off + length ys) xs"

definition get_slice :: "'a list \<Rightarrow> nat \<Rightarrow> nat \<Rightarrow> 'a list" where
  "get_slice xs off n = take n (drop off xs)"

lemma length_put_slice [simp, slice_simps]:
  "off + length ys \<le> length xs \<Longrightarrow> length (put_slice xs off ys) = length xs"
  by (simp add: put_slice_def)

lemma length_get_slice [simp, slice_simps]:
  "off + n \<le> length xs \<Longrightarrow> length (get_slice xs off n) = n"
  by (simp add: get_slice_def)

lemma get_put_same [simp, slice_simps]:
  "off + length ys \<le> length xs \<Longrightarrow> n = length ys \<Longrightarrow> get_slice (put_slice xs off ys) off n = ys"
  by (simp add: put_slice_def get_slice_def)

lemma nth_put_slice [slice_simps]:
  "off + length ys \<le> length xs \<Longrightarrow> i < length xs \<Longrightarrow>
   put_slice xs off ys ! i =
     (if off \<le> i \<and> i < off + length ys then ys ! (i - off) else xs ! i)"
  by (auto simp: put_slice_def nth_append min_def)

lemma nth_get_slice [slice_simps]:
  "off + n \<le> length xs \<Longrightarrow> i < n \<Longrightarrow> get_slice xs off n ! i = xs ! (off + i)"
  by (simp add: get_slice_def)

lemma get_put_disjoint [slice_simps]:
  assumes "off + length ys \<le> length xs" and "o2 + n \<le> length xs"
    and "off + length ys \<le> o2 \<or> o2 + n \<le> off"
  shows "get_slice (put_slice xs off ys) o2 n = get_slice xs o2 n"
proof (rule nth_equalityI)
  show "length (get_slice (put_slice xs off ys) o2 n) = length (get_slice xs o2 n)"
    using assms by simp
next
  fix i assume "i < length (get_slice (put_slice xs off ys) o2 n)"
  then show "get_slice (put_slice xs off ys) o2 n ! i = get_slice xs o2 n ! i"
    using assms by (auto simp: slice_simps)
qed

lemma get_slice_all [simp]: "n = length xs \<Longrightarrow> get_slice xs 0 n = xs"
  by (simp add: get_slice_def)

section \<open>First match\<close>

text \<open>\<open>find_index P xs\<close>: the index of the first element with \<open>P\<close>; the shape of the loops
  \<open>for (i = 0; i < n; i++) if (P(a[i])) return i; return -1;\<close>.\<close>

fun find_index :: "('a \<Rightarrow> bool) \<Rightarrow> 'a list \<Rightarrow> nat option" where
  "find_index P [] = None"
| "find_index P (x # xs) = (if P x then Some 0 else map_option Suc (find_index P xs))"

lemma find_index_None [search_simps]: "find_index P xs = None \<longleftrightarrow> (\<forall>x \<in> set xs. \<not> P x)"
  by (induction xs) auto

lemma find_index_Some [search_simps]:
  "find_index P xs = Some i \<longleftrightarrow> i < length xs \<and> P (xs ! i) \<and> (\<forall>j < i. \<not> P (xs ! j))"
proof (induction xs arbitrary: i)
  case Nil
  then show ?case by simp
next
  case (Cons x xs)
  then show ?case
    by (cases i) (auto simp: less_Suc_eq_0_disj)
qed

lemma find_index_upt [search_simps]:
  "find_index P [0..<n] = Some i \<longleftrightarrow> i < n \<and> P i \<and> (\<forall>j < i. \<not> P j)"
proof -
  have "(\<forall>j < i. \<not> P ([0..<n] ! j)) \<longleftrightarrow> (\<forall>j < i. \<not> P j)" if "i < n"
    using that by (auto simp: nth_upt)
  then show ?thesis by (auto simp: find_index_Some)
qed

lemma find_index_cong [search_simps]:
  "(\<And>x. x \<in> set xs \<Longrightarrow> P x = Q x) \<Longrightarrow> find_index P xs = find_index Q xs"
  by (induction xs) auto

lemma find_index_append:
  "find_index P (xs @ ys) =
     (case find_index P xs of Some i \<Rightarrow> Some i
      | None \<Rightarrow> map_option ((+) (length xs)) (find_index P ys))"
  by (induction xs; cases "find_index P ys") (auto split: option.splits)

section \<open>Association lists with first-match lookup\<close>

text \<open>The shape of the cache: the first pair with the name counts, a new name goes to the end.\<close>

definition assoc_set :: "('k \<times> 'v) list \<Rightarrow> 'k \<Rightarrow> 'v \<Rightarrow> ('k \<times> 'v) list" where
  "assoc_set es k v =
     (case find_index (\<lambda>p. fst p = k) es of
        None \<Rightarrow> es @ [(k, v)]
      | Some i \<Rightarrow> es[i := (k, v)])"

lemma find_index_map_of_None [search_simps]:
  "find_index (\<lambda>p. fst p = k) es = None \<longleftrightarrow> map_of es k = None"
  by (induction es) auto

lemma find_index_map_of_Some [search_simps]:
  "find_index (\<lambda>p. fst p = k) es = Some i \<Longrightarrow> map_of es k = Some (snd (es ! i)) \<and> i < length es"
  by (induction es arbitrary: i) (auto split: if_splits)

lemma map_of_update_first:
  "find_index (\<lambda>p. fst p = k) es = Some i \<Longrightarrow> map_of (es[i := (k, v)]) = (map_of es)(k \<mapsto> v)"
proof (induction es arbitrary: i)
  case Nil
  then show ?case by simp
next
  case (Cons e es)
  show ?case
  proof (cases "fst e = k")
    case True
    with Cons.prems show ?thesis by auto
  next
    case False
    with Cons.prems obtain j where j: "find_index (\<lambda>p. fst p = k) es = Some j" "i = Suc j"
      by auto
    with Cons.IH False show ?thesis by (auto simp: fun_upd_twist)
  qed
qed

lemma map_of_snoc_new: "map_of es k = None \<Longrightarrow> map_of (es @ [(k, v)]) = (map_of es)(k \<mapsto> v)"
  by (induction es) (auto simp: fun_upd_twist split: if_splits)

lemma map_of_assoc_set [simp]: "map_of (assoc_set es k v) = (map_of es)(k \<mapsto> v)"
proof (cases "find_index (\<lambda>p. fst p = k) es")
  case None
  then have "map_of es k = None" by (simp only: find_index_map_of_None)
  then have "map_of (es @ [(k, v)]) = (map_of es)(k \<mapsto> v)" by (rule map_of_snoc_new)
  with None show ?thesis by (simp only: assoc_set_def option.case)
next
  case (Some i)
  then show ?thesis by (simp add: assoc_set_def map_of_update_first)
qed

end
