(* ===== verification/Crc32.thy ===== *)
theory Crc32
  imports Prelude
begin

unbundle bit_operations_syntax

text \<open>
  The CRC-32 of the configuration store: \<open>nv_crc32\<close> of the kernel driver
  (\<open>linux-2.6.21.x/arch/mips/rt2880/nvram.c\<close>), driven by a 256-entry table, and the
  table generator \<open>make_crc_table\<close> of \<open>lib/libnvram/crc32.c\<close>.  The lemmas show that the
  literal table is the generated one, that the unrolled table-driven loop computes the
  bit-serial CRC, and that any change confined to one byte changes the CRC.
\<close>

section \<open>The table\<close>

definition crc_table :: "u32 list" where
  "crc_table = [
    0, 0x77073096, 0xee0e612c, 0x990951ba, 0x76dc419, 0x706af48f,
    0xe963a535, 0x9e6495a3, 0xedb8832, 0x79dcb8a4, 0xe0d5e91e, 0x97d2d988,
    0x9b64c2b, 0x7eb17cbd, 0xe7b82d07, 0x90bf1d91, 0x1db71064, 0x6ab020f2,
    0xf3b97148, 0x84be41de, 0x1adad47d, 0x6ddde4eb, 0xf4d4b551, 0x83d385c7,
    0x136c9856, 0x646ba8c0, 0xfd62f97a, 0x8a65c9ec, 0x14015c4f, 0x63066cd9,
    0xfa0f3d63, 0x8d080df5, 0x3b6e20c8, 0x4c69105e, 0xd56041e4, 0xa2677172,
    0x3c03e4d1, 0x4b04d447, 0xd20d85fd, 0xa50ab56b, 0x35b5a8fa, 0x42b2986c,
    0xdbbbc9d6, 0xacbcf940, 0x32d86ce3, 0x45df5c75, 0xdcd60dcf, 0xabd13d59,
    0x26d930ac, 0x51de003a, 0xc8d75180, 0xbfd06116, 0x21b4f4b5, 0x56b3c423,
    0xcfba9599, 0xb8bda50f, 0x2802b89e, 0x5f058808, 0xc60cd9b2, 0xb10be924,
    0x2f6f7c87, 0x58684c11, 0xc1611dab, 0xb6662d3d, 0x76dc4190, 0x1db7106,
    0x98d220bc, 0xefd5102a, 0x71b18589, 0x6b6b51f, 0x9fbfe4a5, 0xe8b8d433,
    0x7807c9a2, 0xf00f934, 0x9609a88e, 0xe10e9818, 0x7f6a0dbb, 0x86d3d2d,
    0x91646c97, 0xe6635c01, 0x6b6b51f4, 0x1c6c6162, 0x856530d8, 0xf262004e,
    0x6c0695ed, 0x1b01a57b, 0x8208f4c1, 0xf50fc457, 0x65b0d9c6, 0x12b7e950,
    0x8bbeb8ea, 0xfcb9887c, 0x62dd1ddf, 0x15da2d49, 0x8cd37cf3, 0xfbd44c65,
    0x4db26158, 0x3ab551ce, 0xa3bc0074, 0xd4bb30e2, 0x4adfa541, 0x3dd895d7,
    0xa4d1c46d, 0xd3d6f4fb, 0x4369e96a, 0x346ed9fc, 0xad678846, 0xda60b8d0,
    0x44042d73, 0x33031de5, 0xaa0a4c5f, 0xdd0d7cc9, 0x5005713c, 0x270241aa,
    0xbe0b1010, 0xc90c2086, 0x5768b525, 0x206f85b3, 0xb966d409, 0xce61e49f,
    0x5edef90e, 0x29d9c998, 0xb0d09822, 0xc7d7a8b4, 0x59b33d17, 0x2eb40d81,
    0xb7bd5c3b, 0xc0ba6cad, 0xedb88320, 0x9abfb3b6, 0x3b6e20c, 0x74b1d29a,
    0xead54739, 0x9dd277af, 0x4db2615, 0x73dc1683, 0xe3630b12, 0x94643b84,
    0xd6d6a3e, 0x7a6a5aa8, 0xe40ecf0b, 0x9309ff9d, 0xa00ae27, 0x7d079eb1,
    0xf00f9344, 0x8708a3d2, 0x1e01f268, 0x6906c2fe, 0xf762575d, 0x806567cb,
    0x196c3671, 0x6e6b06e7, 0xfed41b76, 0x89d32be0, 0x10da7a5a, 0x67dd4acc,
    0xf9b9df6f, 0x8ebeeff9, 0x17b7be43, 0x60b08ed5, 0xd6d6a3e8, 0xa1d1937e,
    0x38d8c2c4, 0x4fdff252, 0xd1bb67f1, 0xa6bc5767, 0x3fb506dd, 0x48b2364b,
    0xd80d2bda, 0xaf0a1b4c, 0x36034af6, 0x41047a60, 0xdf60efc3, 0xa867df55,
    0x316e8eef, 0x4669be79, 0xcb61b38c, 0xbc66831a, 0x256fd2a0, 0x5268e236,
    0xcc0c7795, 0xbb0b4703, 0x220216b9, 0x5505262f, 0xc5ba3bbe, 0xb2bd0b28,
    0x2bb45a92, 0x5cb36a04, 0xc2d7ffa7, 0xb5d0cf31, 0x2cd99e8b, 0x5bdeae1d,
    0x9b64c2b0, 0xec63f226, 0x756aa39c, 0x26d930a, 0x9c0906a9, 0xeb0e363f,
    0x72076785, 0x5005713, 0x95bf4a82, 0xe2b87a14, 0x7bb12bae, 0xcb61b38,
    0x92d28e9b, 0xe5d5be0d, 0x7cdcefb7, 0xbdbdf21, 0x86d3d2d4, 0xf1d4e242,
    0x68ddb3f8, 0x1fda836e, 0x81be16cd, 0xf6b9265b, 0x6fb077e1, 0x18b74777,
    0x88085ae6, 0xff0f6a70, 0x66063bca, 0x11010b5c, 0x8f659eff, 0xf862ae69,
    0x616bffd3, 0x166ccf45, 0xa00ae278, 0xd70dd2ee, 0x4e048354, 0x3903b3c2,
    0xa7672661, 0xd06016f7, 0x4969474d, 0x3e6e77db, 0xaed16a4a, 0xd9d65adc,
    0x40df0b66, 0x37d83bf0, 0xa9bcae53, 0xdebb9ec5, 0x47b2cf7f, 0x30b5ffe9,
    0xbdbdf21c, 0xcabac28a, 0x53b39330, 0x24b4a3a6, 0xbad03605, 0xcdd70693,
    0x54de5729, 0x23d967bf, 0xb3667a2e, 0xc4614ab8, 0x5d681b02, 0x2a6f2b94,
    0xb40bbe37, 0xc30c8ea1, 0x5a05df1b, 0x2d02ef8d]"

section \<open>The table generator\<close>

text \<open>The terms of the polynomial, and the exclusive-or pattern made from them.\<close>

definition crc_terms :: "nat list" where
  "crc_terms = [0, 1, 2, 4, 5, 7, 8, 10, 11, 12, 16, 22, 23, 26]"

definition crc_poly :: u32 where
  "crc_poly = fold (\<lambda>t poly. poly OR push_bit (31 - t) 1) crc_terms 0"

definition crc_step :: "u32 \<Rightarrow> u32" where
  "crc_step c = (if c AND 1 \<noteq> 0 then crc_poly XOR drop_bit 1 c else drop_bit 1 c)"

definition make_crc_table :: "u32 list" where
  "make_crc_table = map (\<lambda>n. (crc_step ^^ 8) (of_nat n)) [0..<256]"

lemma crc_poly_value [code]: "crc_poly = 0xedb88320"
  by (simp add: crc_poly_def crc_terms_def)

text \<open>
  One step of the shift register is linear over exclusive-or, so the 256 entries follow from
  the eight entries at powers of two: \<open>gen_table k\<close> doubles a table \<open>k\<close> times.
\<close>

lemma crc_step_alt: "crc_step c = (if bit c 0 then crc_poly else 0) XOR drop_bit 1 c"
proof -
  have "c AND 1 = of_bool (bit c 0)"
    by (simp add: bit_0 and_one_eq mod_2_eq_odd)
  then show ?thesis by (simp add: crc_step_def)
qed

lemma crc_step_xor: "crc_step (a XOR b) = crc_step a XOR crc_step b"
  by (auto simp: crc_step_alt bit_xor_iff drop_bit_xor xor.assoc xor.left_commute)

lemma crc_step_pow_xor: "(crc_step ^^ k) (a XOR b) = (crc_step ^^ k) a XOR (crc_step ^^ k) b"
  by (induction k) (simp_all add: crc_step_xor)

fun gen_table :: "nat \<Rightarrow> u32 list" where
  "gen_table 0 = [0]"
| "gen_table (Suc k) = gen_table k @ map ((XOR) ((crc_step ^^ 8) (2 ^ k))) (gen_table k)"

lemma of_nat_add_power_xor:
  assumes "n < 2 ^ k"
  shows "(of_nat (2 ^ k + n) :: u32) = 2 ^ k XOR of_nat n"
proof -
  have n: "n = take_bit k n" using assms by (simp add: take_bit_nat_eq_self)
  have "2 ^ k AND n = 0"
    by (rule bit_eqI, subst n) (auto simp: bit_and_iff bit_exp_iff bit_take_bit_iff)
  then have "(of_nat (2 ^ k + n) :: u32) = of_nat (2 ^ k XOR n)"
    by (simp only: disjunctive_add_eq_xor)
  then show ?thesis by (simp add: of_nat_xor_eq)
qed

lemma upt_double: "[0..<2 * m] = [0..<m] @ map ((+) m) [0..<m]"
  by (rule nth_equalityI) (auto simp: nth_append)

lemma gen_table_eq: "gen_table k = map (\<lambda>n. (crc_step ^^ 8) (of_nat n)) [0..<2 ^ k]"
proof (induction k)
  case 0
  have "(crc_step ^^ 8) 0 = 0"
    by (simp add: numeral_eq_Suc crc_step_alt)
  then show ?case by simp
next
  case (Suc k)
  have "(crc_step ^^ 8) (of_nat (2 ^ k + n)) = (crc_step ^^ 8) (2 ^ k) XOR (crc_step ^^ 8) (of_nat n)"
    if "n < 2 ^ k" for n
    using that by (simp only: of_nat_add_power_xor crc_step_pow_xor)
  then show ?case
    by (simp add: upt_double Suc comp_def)
qed

lemma crc_step8_powers:
  "(crc_step ^^ 8) 1 = 0x77073096" "(crc_step ^^ 8) 2 = 0xee0e612c"
  "(crc_step ^^ 8) 4 = 0x076dc419" "(crc_step ^^ 8) 8 = 0x0edb8832"
  "(crc_step ^^ 8) 16 = 0x1db71064" "(crc_step ^^ 8) 32 = 0x3b6e20c8"
  "(crc_step ^^ 8) 64 = 0x76dc4190" "(crc_step ^^ 8) 128 = 0xedb88320"
  by (simp_all add: funpow_def crc_step_def crc_poly_value)

lemma make_crc_table_eq: "make_crc_table = crc_table"
proof -
  have "make_crc_table = gen_table (Suc (Suc (Suc (Suc (Suc (Suc (Suc (Suc 0))))))))"
    unfolding make_crc_table_def gen_table_eq by simp
  also have "\<dots> = crc_table"
    unfolding crc_table_def by (simp add: crc_step8_powers)
  finally show ?thesis .
qed

lemma length_crc_table [simp]: "length crc_table = 256"
  by (simp flip: make_crc_table_eq add: make_crc_table_def)

lemma crc_table_nth: "n < 256 \<Longrightarrow> crc_table ! n = (crc_step ^^ 8) (of_nat n)"
  by (simp flip: make_crc_table_eq add: make_crc_table_def)

section \<open>The checksum loops\<close>

text \<open>
  \<open>DO1\<close> is the macro of the same name over a (signed) \<open>char\<close> buffer, \<open>DO8\<close> its eightfold
  unrolling; \<open>crc_while8\<close> is the \<open>while (len >= 8)\<close> loop, \<open>crc_tail\<close> the \<open>do ... while (--len)\<close>
  loop.  \<open>nv_crc32\<close> takes the buffer as its \<open>len\<close> bytes, or \<open>None\<close> for a null pointer.
\<close>

definition DO1 :: "byte \<Rightarrow> u32 \<Rightarrow> u32" where
  "DO1 b crc = crc_table ! unat ((crc XOR of_int (schar b)) AND 0xff) XOR drop_bit 8 crc"

definition DO8 :: "byte \<Rightarrow> byte \<Rightarrow> byte \<Rightarrow> byte \<Rightarrow> byte \<Rightarrow> byte \<Rightarrow> byte \<Rightarrow> byte \<Rightarrow> u32 \<Rightarrow> u32" where
  "DO8 b0 b1 b2 b3 b4 b5 b6 b7 crc =
     DO1 b7 (DO1 b6 (DO1 b5 (DO1 b4 (DO1 b3 (DO1 b2 (DO1 b1 (DO1 b0 crc)))))))"

fun crc_while8 :: "u32 \<Rightarrow> byte list \<Rightarrow> u32 \<times> byte list" where
  "crc_while8 crc (b0 # b1 # b2 # b3 # b4 # b5 # b6 # b7 # buf) =
     crc_while8 (DO8 b0 b1 b2 b3 b4 b5 b6 b7 crc) buf"
| "crc_while8 crc buf = (crc, buf)"

fun crc_tail :: "u32 \<Rightarrow> byte list \<Rightarrow> u32" where
  "crc_tail crc [] = crc"
| "crc_tail crc (b # buf) = crc_tail (DO1 b crc) buf"

definition nv_crc32 :: "u32 \<Rightarrow> byte list option \<Rightarrow> u32" where
  "nv_crc32 crc buf =
     (case buf of
        None \<Rightarrow> 0
      | Some bs \<Rightarrow>
          (let (c, rest) = crc_while8 (crc XOR 0xffffffff) bs
           in crc_tail c rest XOR 0xffffffff))"

text \<open>The library's \<open>crc32\<close> is the same loop over an unsigned buffer, with no null check.\<close>

definition DO1_lib :: "byte \<Rightarrow> u32 \<Rightarrow> u32" where
  "DO1_lib b crc = crc_table ! unat ((crc XOR of_nat (uchar b)) AND 0xff) XOR drop_bit 8 crc"

fun crc_loop_lib :: "u32 \<Rightarrow> byte list \<Rightarrow> u32" where
  "crc_loop_lib crc [] = crc"
| "crc_loop_lib crc (b # buf) = crc_loop_lib (DO1_lib b crc) buf"

definition crc32 :: "u32 \<Rightarrow> byte list \<Rightarrow> u32" where
  "crc32 crc buf = crc_loop_lib (crc XOR 0xffffffff) buf XOR 0xffffffff"

text \<open>The reference: one message byte at a time into the low end of the shift register.\<close>

definition crc_byte :: "byte \<Rightarrow> u32 \<Rightarrow> u32" where
  "crc_byte b crc = (crc_step ^^ 8) (crc XOR of_nat (uchar b))"

definition crc32_bitwise :: "u32 \<Rightarrow> byte list \<Rightarrow> u32" where
  "crc32_bitwise crc buf = NOT (fold crc_byte buf (NOT crc))"

lemma low_byte_mask: "(0xff :: u32) = mask 8"
  by (simp add: mask_eq_exp_minus_1)

lemma schar_low_byte: "of_int (schar b) AND (0xff :: u32) = of_nat (uchar b)"
  by (simp add: low_byte_mask and_mask_wi take_bit_eq_mod)

lemma uchar_low_byte: "of_nat (uchar b) AND (0xff :: u32) = of_nat (uchar b)"
  using schar_low_byte [of b] by (metis and.right_idem)

lemma crc_step_low_zero:
  "(\<And>i. i < k \<Longrightarrow> \<not> bit c i) \<Longrightarrow> (crc_step ^^ k) c = drop_bit k c"
proof (induction k arbitrary: c)
  case 0
  then show ?case by simp
next
  case (Suc k)
  from Suc.prems [of 0] have "crc_step c = drop_bit 1 c"
    by (simp add: crc_step_alt)
  moreover have "(crc_step ^^ k) (drop_bit 1 c) = drop_bit k (drop_bit 1 c)"
    using Suc.prems by (intro Suc.IH) (auto simp: bit_drop_bit_eq)
  ultimately show ?case
    by (simp add: funpow_Suc_right del: funpow.simps)
qed


text \<open>The signed and the unsigned macro agree: only the low byte of the operand is used.\<close>

lemma DO1_lib_eq: "DO1_lib b crc = DO1 b crc"
  by (simp add: DO1_lib_def DO1_def bit.conj_xor_distrib2 schar_low_byte uchar_low_byte)

lemma crc_step8_low: "x < 256 \<Longrightarrow> (crc_step ^^ 8) x = crc_table ! unat x"
  using crc_table_nth [of "unat x"] by (simp only: word_less_nat_alt) simp

lemma crc_step8_high: "(crc_step ^^ 8) (push_bit 8 y) = drop_bit 8 (push_bit 8 y)"
  by (rule crc_step_low_zero) (auto simp: bit_simps)

lemma low_byte_less: "x AND 0xff < (256 :: u32)"
  using and_mask_less_size [of 8 x] by (simp add: low_byte_mask word_size)

lemma split_low_byte: "(x :: u32) = (x AND 0xff) XOR push_bit 8 (drop_bit 8 x)"
  by (rule bit_eqI) (auto simp: low_byte_mask bit_simps)

lemma drop_push_drop: "drop_bit 8 (push_bit 8 (drop_bit 8 (x :: u32))) = drop_bit 8 x"
  by (rule bit_eqI) (auto simp: bit_simps dest: bit_imp_le_length)

lemma crc_step8_eq: "(crc_step ^^ 8) x = crc_table ! unat (x AND 0xff) XOR drop_bit 8 x"
proof -
  have "(crc_step ^^ 8) x =
      (crc_step ^^ 8) (x AND 0xff) XOR (crc_step ^^ 8) (push_bit 8 (drop_bit 8 x))"
    by (subst split_low_byte) (rule crc_step_pow_xor)
  then show ?thesis
    by (simp only: crc_step8_low [OF low_byte_less] crc_step8_high drop_push_drop)
qed

lemma DO1_crc_byte: "DO1 b crc = crc_byte b crc"
proof -
  have "drop_bit 8 (of_nat (uchar b) :: u32) = 0"
  proof (rule bit_eqI)
    fix n show "bit (drop_bit 8 (of_nat (uchar b) :: u32)) n \<longleftrightarrow> bit (0 :: u32) n"
      by (subst uchar_low_byte [symmetric]) (auto simp: low_byte_mask bit_simps)
  qed
  then show ?thesis
    by (simp add: crc_byte_def crc_step8_eq drop_bit_xor flip: DO1_lib_eq)
       (simp add: DO1_lib_def)
qed

lemma crc_tail_fold: "crc_tail crc buf = fold crc_byte buf crc"
  by (induction buf arbitrary: crc) (simp_all add: DO1_crc_byte)

lemma crc_while8_fold:
  "crc_while8 crc buf = (c, rest) \<Longrightarrow> fold crc_byte rest c = fold crc_byte buf crc"
  by (induction crc buf rule: crc_while8.induct) (simp_all add: DO8_def DO1_crc_byte)

lemma crc_loop_lib_fold: "crc_loop_lib crc buf = fold crc_byte buf crc"
  by (induction buf arbitrary: crc) (simp_all add: DO1_lib_eq DO1_crc_byte)

lemma xor_all_ones: "(x :: u32) XOR 0xffffffff = NOT x"
proof -
  have "(0xffffffff :: u32) = - 1" by simp
  then show ?thesis by (metis bit.xor_one_right)
qed

lemma nv_crc32_bitwise: "nv_crc32 crc (Some bs) = crc32_bitwise crc bs"
  by (auto simp: nv_crc32_def crc32_bitwise_def xor_all_ones crc_tail_fold
      dest: crc_while8_fold split: prod.splits)

lemma crc32_bitwise_eq: "crc32 crc bs = crc32_bitwise crc bs"
  by (simp add: crc32_def crc32_bitwise_def xor_all_ones crc_loop_lib_fold)

section \<open>Error detection\<close>

lemma xor_left_cancel: "(a :: u32) XOR b = a XOR c \<longleftrightarrow> b = c"
  by (metis bit.xor_left_self)

lemma crc_step_inj: "crc_step a = crc_step b \<Longrightarrow> a = b"
proof -
  assume eq: "crc_step a = crc_step b"
  have top: "bit (crc_step c) 31 = bit c 0" for c
    using bit_imp_le_length [of c 32] by (auto simp: crc_step_alt crc_poly_value bit_simps)
  have "bit a 0 = bit b 0" using eq top by metis
  with eq have "drop_bit 1 a = drop_bit 1 b"
    by (simp add: crc_step_alt xor_left_cancel split: if_splits)
  then have "bit a (Suc n) = bit b (Suc n)" for n
    by (metis bit_drop_bit_eq comp_apply plus_1_eq_Suc)
  with \<open>bit a 0 = bit b 0\<close> show "a = b"
    by (intro bit_eqI) (metis not0_implies_Suc)
qed

lemma crc_step_pow_inj: "(crc_step ^^ k) a = (crc_step ^^ k) b \<Longrightarrow> a = b"
  by (induction k arbitrary: a b) (auto dest: crc_step_inj)

lemma crc_byte_inj: "crc_byte b c = crc_byte b d \<Longrightarrow> c = d"
  by (metis crc_byte_def crc_step_pow_inj xor_left_cancel xor.commute)

lemma crc_byte_inj_byte: "crc_byte a c = crc_byte b c \<Longrightarrow> a = b"
proof -
  assume "crc_byte a c = crc_byte b c"
  then have "(of_nat (uchar a) :: u32) = of_nat (uchar b)"
    unfolding crc_byte_def by (metis crc_step_pow_inj xor_left_cancel)
  then have "uchar a mod 2 ^ 32 = uchar b mod 2 ^ 32"
    by (simp add: word_unat_eq_iff unsigned_of_nat take_bit_eq_mod)
  then show "a = b"
    using uchar_less [of a] uchar_less [of b] by simp
qed

lemma fold_crc_byte_inj: "fold crc_byte bs c = fold crc_byte bs d \<Longrightarrow> c = d"
  by (induction bs arbitrary: c d) (auto dest: crc_byte_inj)

lemma crc32_bitwise_append:
  "crc32_bitwise (crc32_bitwise crc xs) ys = crc32_bitwise crc (xs @ ys)"
  by (simp add: crc32_bitwise_def)

section \<open>Properties\<close>

lemma nv_crc32_single_byte:
  "a \<noteq> b \<Longrightarrow> nv_crc32 crc (Some (pre @ a # post)) \<noteq> nv_crc32 crc (Some (pre @ b # post))"
  by (auto simp: nv_crc32_bitwise crc32_bitwise_def dest!: fold_crc_byte_inj crc_byte_inj_byte)

section \<open>Properties\<close>

text \<open>The 256 literal table entries compiled into the driver are exactly the ones the
  generator \<open>make_crc_table\<close> computes from the CRC-32 polynomial.\<close>

theorem crc_table_is_generated: "crc_table = make_crc_table"
  by (simp add: make_crc_table_eq)

text \<open>C23. The unrolled, table-driven checksum of the kernel driver and the one of the user
  library both compute the bit-serial CRC-32 of the buffer, for every buffer and seed.\<close>

theorem crc32_implementations_agree:
  "nv_crc32 crc (Some bs) = crc32_bitwise crc bs \<and> crc32 crc bs = crc32_bitwise crc bs"
  by (simp add: nv_crc32_bitwise crc32_bitwise_eq)

text \<open>The checksum detects every corruption confined to one byte: changing a byte of the
  block, whatever stands before and after it, changes the CRC.\<close>

theorem nv_crc32_detects_byte_change:
  assumes "a \<noteq> b"
  shows "nv_crc32 crc (Some (pre @ a # post)) \<noteq> nv_crc32 crc (Some (pre @ b # post))"
  using assms by (rule nv_crc32_single_byte)

theorem nv_crc32_detects_byte_change_witness:
  "CHR ''1'' \<noteq> CHR ''3'' \<and>
   nv_crc32 0 (Some (''OperationMode='' @ CHR ''1'' # [NUL]))
     \<noteq> nv_crc32 0 (Some (''OperationMode='' @ CHR ''3'' # [NUL]))"
  using nv_crc32_detects_byte_change [of "CHR ''1''" "CHR ''3''" 0 "''OperationMode=''" "[NUL]"]
  by simp

end
