(* ===== verification/Flash.thy ===== *)
theory Flash
  imports Prelude
begin

unbundle bit_operations_syntax

text \<open>
  The flash partitions under the configuration store.  The chip itself is hardware: it is
  modelled by the documented behaviour of NOR flash (erase sets every bit of whole erase
  blocks, a write can only clear bits, accesses past the end fail), with the result codes of
  the driver entry points \<open>mtd->read\<close>, \<open>mtd->erase\<close>, \<open>mtd->write\<close> as inputs, so that every
  failure branch of the code can be taken.

  On top of it: the kernel helpers \<open>ra_mtd_read_nm\<close> and \<open>ra_mtd_write_nm\<close>
  (\<open>drivers/mtd/maps/ralink-flash.c\<close>), which work on the first erase block of a partition,
  and the read-modify-erase-write loop of \<open>lib/libnvram/flash_api.c\<close>.
  The interface the configuration store relies on is the locale \<open>flash_region\<close>.
\<close>

section \<open>The chip\<close>

record mtd_info =
  mtd_bytes :: "byte list"
  mtd_erasesize :: nat

text \<open>One set of results for the calls a function makes: the error of the device lookup,
  and the return codes of read, erase and write (0 is success).\<close>

record mtd_io =
  io_dev :: "int option"
  io_read :: int
  io_erase :: int
  io_write :: int

definition io_fine :: mtd_io where
  "io_fine = \<lparr>io_dev = None, io_read = 0, io_erase = 0, io_write = 0\<rparr>"

definition E2BIG :: int where "E2BIG = 7"
definition ENOMEM :: int where "ENOMEM = 12"
definition EFAULT :: int where "EFAULT = 14"
definition EINVAL :: int where "EINVAL = 22"

definition nor_and :: "byte \<Rightarrow> byte \<Rightarrow> byte" where
  "nor_and a b = char_of (uchar a AND uchar b)"

definition chip_erase :: "mtd_info \<Rightarrow> nat \<Rightarrow> nat \<Rightarrow> int \<times> mtd_info" where
  "chip_erase m start len =
     (if start mod mtd_erasesize m \<noteq> 0 \<or> len mod mtd_erasesize m \<noteq> 0
         \<or> length (mtd_bytes m) < start + len
      then (- EINVAL, m)
      else (0, m\<lparr>mtd_bytes := put_slice (mtd_bytes m) start (replicate len (CHR 0xFF))\<rparr>))"

definition chip_write :: "mtd_info \<Rightarrow> nat \<Rightarrow> byte list \<Rightarrow> int \<times> mtd_info" where
  "chip_write m start data =
     (if length (mtd_bytes m) < start + length data then (- EINVAL, m)
      else (0, m\<lparr>mtd_bytes := put_slice (mtd_bytes m) start
                 (map2 nor_and (get_slice (mtd_bytes m) start (length data)) data)\<rparr>))"

lemma nor_and_erased [simp]: "nor_and (CHR 0xFF) b = b"
proof -
  have "(255 :: nat) AND uchar b = uchar b"
    using take_bit_eq_mask [of 8 "uchar b"]
    by (simp add: mask_eq_exp_minus_1 and.commute take_bit_eq_mod)
  then show ?thesis by (simp add: nor_and_def uchar_def)
qed

lemma map2_nor_and_erased [simp]:
  "length bs = n \<Longrightarrow> map2 nor_and (replicate n (CHR 0xFF)) bs = bs"
  by (induction bs arbitrary: n) auto

section \<open>Kernel helpers on the first erase block\<close>

text \<open>
  \<open>buf\<close> is the caller's buffer: what the read returns overwrites its front, the rest keeps its
  contents.  More bytes than the buffer holds are an overrun.
\<close>

definition ra_mtd_read_nm ::
  "mtd_io \<Rightarrow> mtd_info \<Rightarrow> nat \<Rightarrow> nat \<Rightarrow> byte list \<Rightarrow> (int \<times> byte list) res" where
  "ra_mtd_read_nm io m from len buf =
     (case io_dev io of
        Some e \<Rightarrow> Inr (e, buf)
      | None \<Rightarrow>
          if io_read io \<noteq> 0 then Inr (io_read io, buf)
          else
            (let data = get_slice (mtd_bytes m) from len
             in if length buf < length data then Inl OutOfBounds
                else Inr (0, put_slice buf 0 data)))"

text \<open>
  \<open>km\<close> is the allocator (\<open>kmalloc\<close>): for a size, a block of that many bytes of unknown
  contents, or \<open>None\<close>.  The copy \<open>memcpy(bak + to, buf, len)\<close> has no bounds check in the
  source; leaving the \<open>erasesize\<close> bytes of \<open>bak\<close> is the fault \<open>OutOfBounds\<close>.
\<close>

definition ra_mtd_write_nm ::
  "mtd_io \<Rightarrow> (nat \<Rightarrow> byte list option) \<Rightarrow> mtd_info \<Rightarrow> nat \<Rightarrow> byte list
     \<Rightarrow> (int \<times> mtd_info) res" where
  "ra_mtd_write_nm io km m to buf =
     (case io_dev io of
        Some e \<Rightarrow> Inr (e, m)
      | None \<Rightarrow>
          if mtd_erasesize m < length buf then Inr (- E2BIG, m)
          else
            (case km (mtd_erasesize m) of
               None \<Rightarrow> Inr (- ENOMEM, m)
             | Some junk \<Rightarrow>
                 if io_read io \<noteq> 0 then Inr (io_read io, m)
                 else
                   (let bak = put_slice junk 0 (get_slice (mtd_bytes m) 0 (mtd_erasesize m))
                    in if length bak < to + length buf then Inl OutOfBounds
                       else
                         (let bak = put_slice bak to buf
                          in if io_erase io \<noteq> 0 then Inr (io_erase io, m)
                             else
                               (case chip_erase m 0 (mtd_erasesize m) of
                                  (er, m1) \<Rightarrow>
                                    if er \<noteq> 0 then Inr (er, m1)
                                    else if io_write io \<noteq> 0 then Inr (io_write io, m1)
                                    else Inr (chip_write m1 0 bak))))))"

text \<open>A partition with at least one erase block, and an allocator that returns blocks of the
  size asked for.\<close>

definition mtd_ok :: "mtd_info \<Rightarrow> bool" where
  "mtd_ok m \<longleftrightarrow> 0 < mtd_erasesize m \<and> mtd_erasesize m \<le> length (mtd_bytes m)"

definition allocs :: "(nat \<Rightarrow> byte list option) \<Rightarrow> bool" where
  "allocs km \<longleftrightarrow> (\<forall>n b. km n = Some b \<longrightarrow> length b = n)"

definition mtd_put :: "mtd_info \<Rightarrow> nat \<Rightarrow> byte list \<Rightarrow> mtd_info" where
  "mtd_put m to buf = m\<lparr>mtd_bytes := put_slice (mtd_bytes m) to buf\<rparr>"

lemma mtd_put_sel [simp]:
  "mtd_bytes (mtd_put m to buf) = put_slice (mtd_bytes m) to buf"
  "mtd_erasesize (mtd_put m to buf) = mtd_erasesize m"
  by (simp_all add: mtd_put_def)

lemma mtd_ok_put [simp]:
  "mtd_ok m \<Longrightarrow> to + length buf \<le> mtd_erasesize m \<Longrightarrow> mtd_ok (mtd_put m to buf)"
  by (simp add: mtd_ok_def)

lemma ra_mtd_read_nm_fine [simp]:
  "from + len \<le> length (mtd_bytes m) \<Longrightarrow> length buf = len \<Longrightarrow>
   ra_mtd_read_nm io_fine m from len buf = Inr (0, get_slice (mtd_bytes m) from len)"
  by (simp add: ra_mtd_read_nm_def io_fine_def Let_def put_slice_def)

lemma drop_take_append_drop: "k \<le> n \<Longrightarrow> n \<le> length xs \<Longrightarrow> drop k (take n xs) @ drop n xs = drop k xs"
  by (metis append_take_drop_id drop_append diff_is_0_eq drop0 length_take min.absorb2)

lemma put_first_block:
  assumes "length b = n" and "n \<le> length xs" and "to + length buf \<le> n"
  shows "put_slice (put_slice xs 0 (replicate n x)) 0
           (put_slice (put_slice b 0 (get_slice xs 0 n)) to buf) = put_slice xs to buf"
  using assms by (simp add: put_slice_def get_slice_def min_def drop_take_append_drop)

lemma ra_mtd_write_nm_fine:
  assumes "mtd_ok m" and "allocs km" and "km (mtd_erasesize m) = Some junk"
    and "to + length buf \<le> mtd_erasesize m"
  shows "ra_mtd_write_nm io_fine km m to buf = Inr (0, mtd_put m to buf)"
proof -
  have l: "length junk = mtd_erasesize m" using assms(2,3) by (auto simp: allocs_def)
  let ?n = "mtd_erasesize m" and ?xs = "mtd_bytes m"
  let ?bak = "put_slice (put_slice junk 0 (get_slice ?xs 0 ?n)) to buf"
  have lb: "length ?bak = ?n" using assms l by (simp add: mtd_ok_def)
  have "chip_write (m\<lparr>mtd_bytes := put_slice ?xs 0 (replicate ?n (CHR 0xFF))\<rparr>) 0 ?bak
      = (0, mtd_put m to buf)"
    using assms l lb by (simp add: chip_write_def mtd_ok_def put_first_block mtd_put_def)
  then show ?thesis
    using assms l
    by (simp add: ra_mtd_write_nm_def io_fine_def Let_def chip_erase_def mtd_ok_def)
qed

lemma ra_mtd_write_nm_geometry:
  assumes "ra_mtd_write_nm io km m to buf = Inr (r, m')" and "allocs km"
  shows "mtd_erasesize m' = mtd_erasesize m \<and> length (mtd_bytes m') = length (mtd_bytes m)"
  using assms
  by (auto simp: ra_mtd_write_nm_def chip_erase_def chip_write_def Let_def allocs_def
      split: option.splits if_splits)

section \<open>The interface of the configuration store\<close>

text \<open>
  What the configuration store needs of the flash below it: reading back what was written,
  and leaving everything else alone.  A record of two adjacent fields saved by two writes (the
  CRC and the data block) can then be loaded, and other regions do not change.
\<close>

locale flash_region =
  fixes rd :: "'m \<Rightarrow> nat \<Rightarrow> nat \<Rightarrow> byte list"
    and wr :: "'m \<Rightarrow> nat \<Rightarrow> byte list \<Rightarrow> 'm"
    and cap :: "'m \<Rightarrow> nat"
  assumes rd_wr_same: "off + length bs \<le> cap m \<Longrightarrow> rd (wr m off bs) off (length bs) = bs"
    and rd_wr_other: "off + length bs \<le> cap m \<Longrightarrow> o2 + n \<le> cap m \<Longrightarrow>
      off + length bs \<le> o2 \<or> o2 + n \<le> off \<Longrightarrow> rd (wr m off bs) o2 n = rd m o2 n"
    and cap_wr: "off + length bs \<le> cap m \<Longrightarrow> cap (wr m off bs) = cap m"
begin

definition save :: "'m \<Rightarrow> nat \<Rightarrow> byte list \<Rightarrow> byte list \<Rightarrow> 'm" where
  "save m off hdr body = wr (wr m off hdr) (off + length hdr) body"

lemma save_header:
  "off + length hdr + length body \<le> cap m \<Longrightarrow> rd (save m off hdr body) off (length hdr) = hdr"
  by (simp add: save_def rd_wr_other rd_wr_same cap_wr)

lemma save_body:
  "off + length hdr + length body \<le> cap m \<Longrightarrow>
   rd (save m off hdr body) (off + length hdr) (length body) = body"
  by (simp add: save_def rd_wr_same cap_wr)

lemma save_other:
  "off + length hdr + length body \<le> cap m \<Longrightarrow> o2 + n \<le> cap m \<Longrightarrow>
   off + length hdr + length body \<le> o2 \<or> o2 + n \<le> off \<Longrightarrow>
   rd (save m off hdr body) o2 n = rd m o2 n"
  by (auto simp: save_def rd_wr_other cap_wr)

lemma save_cap: "off + length hdr + length body \<le> cap m \<Longrightarrow> cap (save m off hdr body) = cap m"
  by (simp add: save_def cap_wr)

end

text \<open>The kernel helpers provide it, on the first erase block of a sound partition.\<close>

definition km_fine :: "nat \<Rightarrow> byte list option" where
  "km_fine n = Some (replicate n NUL)"

definition config_read :: "mtd_info \<Rightarrow> nat \<Rightarrow> nat \<Rightarrow> byte list" where
  "config_read m off n =
     (case ra_mtd_read_nm io_fine m off n (replicate n NUL) of Inr (r, b) \<Rightarrow> b | Inl f \<Rightarrow> [])"

definition config_write :: "mtd_info \<Rightarrow> nat \<Rightarrow> byte list \<Rightarrow> mtd_info" where
  "config_write m off bs =
     (case ra_mtd_write_nm io_fine km_fine m off bs of Inr (r, m') \<Rightarrow> m' | Inl f \<Rightarrow> m)"

definition config_cap :: "mtd_info \<Rightarrow> nat" where
  "config_cap m = (if mtd_ok m then mtd_erasesize m else 0)"

lemma allocs_km_fine [simp]: "allocs km_fine"
  by (simp add: allocs_def km_fine_def)

lemma config_read_eq:
  "mtd_ok m \<Longrightarrow> off + n \<le> mtd_erasesize m \<Longrightarrow> config_read m off n = get_slice (mtd_bytes m) off n"
  by (simp add: config_read_def mtd_ok_def)

lemma config_write_eq:
  "mtd_ok m \<Longrightarrow> off + length bs \<le> mtd_erasesize m \<Longrightarrow> config_write m off bs = mtd_put m off bs"
  by (simp add: config_write_def ra_mtd_write_nm_fine [where junk = "replicate (mtd_erasesize m) NUL"]
      km_fine_def)

lemma config_write_empty_bad:
  "\<not> mtd_ok m \<Longrightarrow> \<not> mtd_ok (config_write m 0 [])"
  using ra_mtd_write_nm_geometry [of io_fine km_fine m 0 "[]"]
  by (auto simp: config_write_def mtd_ok_def split: sum.splits)

lemma config_read_empty [simp]: "config_read m 0 0 = []"
  by (simp add: config_read_def ra_mtd_read_nm_def io_fine_def Let_def get_slice_def put_slice_def)

interpretation config_flash: flash_region config_read config_write config_cap
proof
  fix off m and bs :: "byte list" assume "off + length bs \<le> config_cap m"
  then show "config_read (config_write m off bs) off (length bs) = bs"
    by (cases "mtd_ok m") (auto simp: config_cap_def config_read_eq config_write_eq mtd_ok_def)
next
  fix off m o2 n and bs :: "byte list"
  assume "off + length bs \<le> config_cap m" "o2 + n \<le> config_cap m"
    and "off + length bs \<le> o2 \<or> o2 + n \<le> off"
  then show "config_read (config_write m off bs) o2 n = config_read m o2 n"
    by (cases "mtd_ok m")
      (auto simp: config_cap_def config_read_eq config_write_eq get_put_disjoint mtd_ok_def)
next
  fix off m and bs :: "byte list" assume "off + length bs \<le> config_cap m"
  then show "config_cap (config_write m off bs) = config_cap m"
    by (cases "mtd_ok m")
      (auto simp: config_cap_def config_write_eq config_write_empty_bad)
qed

end
