(* ===== verification/Nvram.thy ===== *)
theory Nvram
  imports Crc32 Flash
begin

text \<open>
  The kernel configuration store (\<open>linux-2.6.21.x/arch/mips/rt2880/nvram.c\<close>): four blocks of
  \<open>name=value\<close> pairs, cached in memory, protected by one semaphore and saved to the \<open>Config\<close>
  flash partition as a CRC followed by the pairs, each closed by a NUL.

  The state \<open>nvram\<close> holds the static array \<open>fb\<close>, the partition, the semaphore (held or not) and
  the access counter.  Every handler is one function from state to result and state; \<open>kenv\<close> gives
  what its environment does during the call: the allocator, which of its calls of \<open>kstrdup\<close> succeed, and the
  outcomes of the (at most two) flash accesses.  Configuration: \<open>CONFIG_DUAL_IMAGE\<close> is not set,
  as in the four RT5350 configurations, so there are four blocks.
\<close>

section \<open>Data\<close>

definition ENV_BLK_SIZE :: nat where "ENV_BLK_SIZE = 0x1000"
definition FLASH_BLOCK_NUM :: nat where "FLASH_BLOCK_NUM = 4"
definition MAX_CACHE_ENTRY :: nat where "MAX_CACHE_ENTRY = 500"
definition MAX_VALUE_LEN :: nat where "MAX_VALUE_LEN = ENV_BLK_SIZE * 5"

record cache_t =
  c_name :: "string option"
  c_value :: "string option"

record block_t =
  blk_name :: string
  env_crc :: u32
  env_data :: "byte list option"
  cache :: "cache_t list"
  flash_offset :: nat
  flash_max_len :: nat
  valid :: bool
  dirty :: bool

record nvram =
  fb :: "block_t list"
  mtd :: mtd_info
  sem_held :: bool
  counter :: u32

record kenv =
  km :: "nat \<Rightarrow> byte list option"
  kdup :: "nat \<Rightarrow> bool"
  io1 :: mtd_io
  io2 :: mtd_io

definition empty_entry :: cache_t where
  "empty_entry = \<lparr>c_name = None, c_value = None\<rparr>"

definition fb_block :: "string \<Rightarrow> nat \<Rightarrow> nat \<Rightarrow> block_t" where
  "fb_block nm off len =
     \<lparr>blk_name = nm, env_crc = 0, env_data = None, cache = replicate MAX_CACHE_ENTRY empty_entry,
      flash_offset = off, flash_max_len = len, valid = False, dirty = False\<rparr>"

definition fb_init :: "block_t list" where
  "fb_init =
     [fb_block ''2860'' 0x2000 (ENV_BLK_SIZE * 4),
      fb_block ''rtdev'' 0x6000 (ENV_BLK_SIZE * 2),
      fb_block ''cert'' 0x8000 (ENV_BLK_SIZE * 2),
      fb_block ''wapi'' 0xa000 (ENV_BLK_SIZE * 5)]"

text \<open>\<open>sizeof(fb[i].env.crc)\<close>: an \<open>unsigned long\<close>, 4 bytes, little-endian on the RT5350.\<close>

definition le32 :: "u32 \<Rightarrow> byte list" where
  "le32 w = map (\<lambda>i. char_of (unat (drop_bit (8 * i) w))) [0, 1, 2, 3]"

definition of_le32 :: "byte list \<Rightarrow> u32" where
  "of_le32 bs = foldr (\<lambda>b w. push_bit 8 w + of_nat (uchar b)) bs 0"

section \<open>Parsing a block\<close>

text \<open>
  The loop of \<open>init_nvram_block\<close>: \<open>n\<close> is the number of cache entries left, the list is the
  block from \<open>p\<close> to its end.  Returns the pairs found and the block as the loop leaves it (each
  \<open>=\<close> found is overwritten by a NUL).  A \<open>strchr\<close> that leaves the block is \<open>OutOfBounds\<close>.
\<close>

fun parse_env :: "nat \<Rightarrow> byte list \<Rightarrow> ((string \<times> string) list \<times> byte list) res" where
  "parse_env 0 p = Inr ([], p)"
| "parse_env (Suc n) p =
     (case strchr p (CHR ''='') of
        Overrun \<Rightarrow> Inl OutOfBounds
      | NotFound \<Rightarrow> Inr ([], p)
      | Found k \<Rightarrow>
          (let name = take k p; rest = drop (Suc k) p
           in case strchr rest NUL of
                Overrun \<Rightarrow> Inl OutOfBounds
              | NotFound \<Rightarrow> Inr ([], name @ NUL # rest)
              | Found m \<Rightarrow>
                  (let val = take m rest; next = drop (Suc m) rest;
                       done = name @ NUL # take (Suc m) rest
                   in if length next \<le> 1 \<or> hd next = NUL then Inr ([(name, val)], done @ next)
                      else res_bind (parse_env n next)
                             (\<lambda>(es, q). Inr ((name, val) # es, done @ q)))))"

text \<open>The \<open>k\<close>-th \<open>kstrdup\<close> of a call; the callers store what it returns without looking at it.\<close>

definition kstrdup :: "kenv \<Rightarrow> nat \<Rightarrow> string \<Rightarrow> string option" where
  "kstrdup e k s = (if kdup e k then Some s else None)"

definition dup_entry :: "kenv \<Rightarrow> nat \<Rightarrow> string \<times> string \<Rightarrow> cache_t" where
  "dup_entry e k nv = \<lparr>c_name = kstrdup e (2 * k) (fst nv), c_value = kstrdup e (2 * k + 1) (snd nv)\<rparr>"

definition dup_entries :: "kenv \<Rightarrow> (string \<times> string) list \<Rightarrow> cache_t list" where
  "dup_entries e es = map (\<lambda>(k, nv). dup_entry e k nv) (enumerate 0 es)"

text \<open>\<open>RANV_CHECK_INDEX\<close>.\<close>

definition index_ok :: "int \<Rightarrow> bool" where
  "index_ok i \<longleftrightarrow> 0 \<le> i \<and> i < int FLASH_BLOCK_NUM"

definition block :: "nvram \<Rightarrow> int \<Rightarrow> block_t" where
  "block s i = fb s ! nat i"

definition set_block :: "int \<Rightarrow> block_t \<Rightarrow> nvram \<Rightarrow> nvram" where
  "set_block i b s = s\<lparr>fb := (fb s)[nat i := b]\<rparr>"

definition init_nvram_block :: "kenv \<Rightarrow> int \<Rightarrow> nvram \<Rightarrow> (int \<times> nvram) res" where
  "init_nvram_block e i s =
     (if \<not> index_ok i then Inr (- 1, s)
      else if valid (block s i) then Inr (- EINVAL, s)
      else
        (let b = block s i; from = flash_offset b in
         res_bind (ra_mtd_read_nm (io1 e) (mtd s) from 4 (le32 (env_crc b))) (\<lambda>(_, crcb).
         (let b = b\<lparr>env_crc := of_le32 crcb\<rparr>; len = flash_max_len b - 4 in
          case km e len of
            None \<Rightarrow> Inr (- ENOMEM, set_block i (b\<lparr>env_data := None\<rparr>) s)
          | Some junk \<Rightarrow>
              res_bind (ra_mtd_read_nm (io2 e) (mtd s) (from + 4) len junk) (\<lambda>(_, data).
              if nv_crc32 0 (Some data) \<noteq> env_crc b then
                Inr (- 1, set_block i (b\<lparr>env_data := Some (replicate len NUL),
                                          valid := True, dirty := False\<rparr>) s)
              else
                res_bind (parse_env MAX_CACHE_ENTRY data) (\<lambda>(es, data').
                Inr (0, set_block i (b\<lparr>env_data := Some data',
                                        cache := put_slice (cache b) 0 (dup_entries e es),
                                        valid := True, dirty := False\<rparr>) s)))))))"

section \<open>The semaphore and the validity check\<close>

definition down :: "nvram \<Rightarrow> nvram res" where
  "down s = (if sem_held s then Inl Blocked else Inr (s\<lparr>sem_held := True\<rparr>))"

definition up :: "nvram \<Rightarrow> nvram" where
  "up s = s\<lparr>sem_held := False\<rparr>"

text \<open>\<open>RANV_CHECK_VALID\<close>: the result of \<open>init_nvram_block\<close> is ignored.\<close>

definition check_valid :: "kenv \<Rightarrow> int \<Rightarrow> nvram \<Rightarrow> nvram res" where
  "check_valid e i s =
     (if valid (block s i) then Inr s
      else res_bind (init_nvram_block e i s) (\<lambda>(_, s'). Inr s'))"

section \<open>Cache operations\<close>

fun cache_scan :: "string \<Rightarrow> cache_t list \<Rightarrow> nat option" where
  "cache_scan name [] = None"
| "cache_scan name (c # cs) =
     (case c_name c of
        None \<Rightarrow> None
      | Some n \<Rightarrow> if n = name then Some 0 else map_option Suc (cache_scan name cs))"

definition cache_idx :: "int \<Rightarrow> string \<Rightarrow> nvram \<Rightarrow> nat option" where
  "cache_idx i name s = cache_scan name (cache (block s i))"

definition nvram_get :: "kenv \<Rightarrow> int \<Rightarrow> string \<Rightarrow> nvram \<Rightarrow> (string option \<times> nvram) res" where
  "nvram_get e i name s =
     (if \<not> index_ok i then Inr (None, s)
      else
        res_bind (down s) (\<lambda>s.
        res_bind (check_valid e i s) (\<lambda>s.
        (let s = s\<lparr>counter := counter s + 1\<rparr> in
         case cache_idx i name s of
           None \<Rightarrow> Inr (None, up s)
         | Some idx \<Rightarrow> Inr (c_value (cache (block s i) ! idx), up s)))))"

definition nvram_set :: "kenv \<Rightarrow> int \<Rightarrow> string \<Rightarrow> string \<Rightarrow> nvram \<Rightarrow> (int \<times> nvram) res" where
  "nvram_set e i name value s =
     (if \<not> index_ok i then Inr (- 1, s)
      else
        res_bind (down s) (\<lambda>s.
        res_bind (check_valid e i s) (\<lambda>s.
        (let s = s\<lparr>counter := counter s + 1\<rparr>; b = block s i; c = cache b in
         case cache_idx i name s of
           None \<Rightarrow>
             (case find_index (\<lambda>x. c_name x = None) c of
                None \<Rightarrow> Inr (- 1, up s)
              | Some idx \<Rightarrow>
                  Inr (0, up (set_block i (b\<lparr>cache := c[idx := dup_entry e 0 (name, value)],
                                              dirty := True\<rparr>) s)))
         | Some idx \<Rightarrow>
             Inr (0, up (set_block i
               (b\<lparr>cache := c[idx := (c ! idx)\<lparr>c_value := kstrdup e 0 value\<rparr>],
                  dirty := True\<rparr>) s))))))"

section \<open>Writing a block\<close>

text \<open>
  The loop of \<open>nvram_commit\<close> and \<open>nvram_getall\<close>: \<open>w\<close> is what has been written from the start of
  the data block (\<open>len\<close> bytes) up to \<open>p\<close>.  The only test of the source compares \<open>p\<close> with
  \<open>flash_max_len\<close> before the pair is printed; a pair that then runs past the block is
  \<open>OutOfBounds\<close>.  The flag is \<open>False\<close> for the error exit.
\<close>

fun put_entries :: "nat \<Rightarrow> nat \<Rightarrow> cache_t list \<Rightarrow> byte list \<Rightarrow> (bool \<times> byte list) res" where
  "put_entries maxlen len [] w = Inr (True, w)"
| "put_entries maxlen len (c # cs) w =
     (case (c_name c, c_value c) of
        (Some n, Some v) \<Rightarrow>
          if maxlen \<le> length w + 2 then Inr (False, w)
          else if len < length w + (length n + length v + 2) then Inl OutOfBounds
          else put_entries maxlen len cs (w @ n @ CHR ''='' # v @ [NUL])
      | _ \<Rightarrow> Inr (True, w))"

text \<open>The block is zeroed before the loop, so it is what was written padded with NULs.\<close>

definition fill_block :: "nat \<Rightarrow> byte list \<Rightarrow> byte list" where
  "fill_block len w = w @ replicate (len - length w) NUL"

definition nvram_commit :: "kenv \<Rightarrow> int \<Rightarrow> nvram \<Rightarrow> (int \<times> nvram) res" where
  "nvram_commit e i s =
     (if \<not> index_ok i then Inr (- 1, s)
      else
        res_bind (down s) (\<lambda>s.
        res_bind (check_valid e i s) (\<lambda>s.
        (let s = s\<lparr>counter := counter s + 1\<rparr>; b = block s i in
         if \<not> dirty b then Inr (0, up s)
         else
           (let maxlen = flash_max_len b; len = maxlen - 4 in
            case (case env_data b of None \<Rightarrow> km e len | Some d \<Rightarrow> Some d) of
              None \<Rightarrow> Inr (- ENOMEM, s)
            | Some _ \<Rightarrow>
                res_bind (put_entries maxlen len (cache b) []) (\<lambda>(ok, w).
                (let b = b\<lparr>env_data := Some (fill_block len w)\<rparr> in
                 if \<not> ok then Inr (- 1, up (set_block i b s))
                 else if len \<le> length w then Inl OutOfBounds
                 else
                   (let crc = nv_crc32 0 (Some (fill_block len w)); to = flash_offset b in
                    res_bind (ra_mtd_write_nm (io1 e) (km e) (mtd s) to (le32 crc)) (\<lambda>(_, m1).
                    res_bind (ra_mtd_write_nm (io2 e) (km e) m1 (to + 4) (fill_block len w)) (\<lambda>(_, m2).
                    Inr (0, up (set_block i (b\<lparr>env_crc := crc, dirty := False\<rparr>)
                                  (s\<lparr>mtd := m2\<rparr>)))))))))))))"

section \<open>Closing, clearing, listing\<close>

definition ra_nvram_close :: "int \<Rightarrow> nvram \<Rightarrow> (int \<times> nvram) res" where
  "ra_nvram_close i s =
     (if \<not> index_ok i then Inr (- 1, s)
      else if \<not> valid (block s i) then Inr (0, s)
      else
        res_bind (down s) (\<lambda>s.
        (let b = block s i in
         Inr (0, up (set_block i (b\<lparr>cache := map (\<lambda>_. empty_entry) (cache b)\<rparr>) s)))))"

definition nvram_clear :: "kenv \<Rightarrow> int \<Rightarrow> nvram \<Rightarrow> (int \<times> nvram) res" where
  "nvram_clear e i s =
     (if \<not> index_ok i then Inr (- 1, s)
      else
        res_bind (ra_nvram_close i s) (\<lambda>(_, s).
        res_bind (down s) (\<lambda>s.
        (let b = block s i; len = flash_max_len b - 4 in
         case (case env_data b of None \<Rightarrow> km e len | Some d \<Rightarrow> Some d) of
           None \<Rightarrow> Inr (- ENOMEM, s)
         | Some _ \<Rightarrow>
             (let data = replicate len (CHR 0xFF); crc = nv_crc32 0 (Some data); to = flash_offset b in
              res_bind (ra_mtd_write_nm (io1 e) (km e) (mtd s) to (le32 crc)) (\<lambda>(_, m1).
              res_bind (ra_mtd_write_nm (io2 e) (km e) m1 (to + 4) data) (\<lambda>(_, m2).
              Inr (0, up (set_block i (b\<lparr>env_data := Some data, env_crc := crc, dirty := False\<rparr>)
                            (s\<lparr>mtd := m2\<rparr>)))))))))) "

text \<open>
  \<open>nvram_getall(index, fb[index].env.data)\<close>, the only call: the caller's buffer is the block's
  own data area, read before the call.  When that pointer is null the loop writes through it.
\<close>

definition nvram_getall :: "kenv \<Rightarrow> int \<Rightarrow> nvram \<Rightarrow> (int \<times> nvram) res" where
  "nvram_getall e i s =
     (if \<not> index_ok i then Inr (- 1, s)
      else
        (let buf = env_data (block s i) in
         res_bind (down s) (\<lambda>s.
         res_bind (check_valid e i s) (\<lambda>s.
         (let b = block s i; maxlen = flash_max_len b; len = maxlen - 4 in
          case (case env_data b of None \<Rightarrow> km e len | Some d \<Rightarrow> Some d) of
            None \<Rightarrow> Inr (- ENOMEM, s)
          | Some _ \<Rightarrow>
              if buf = None then Inl OutOfBounds
              else
                res_bind (put_entries maxlen len (cache b) []) (\<lambda>(ok, w).
                (let b = b\<lparr>env_data := Some (fill_block len w)\<rparr> in
                 if \<not> ok then Inr (- 1, up (set_block i b s))
                 else if len \<le> length w then Inl OutOfBounds
                 else Inr (0, up (set_block i b s)))))))))"

section \<open>The device\<close>

text \<open>
  \<open>ralink_nvram_ioctl\<close>.  \<open>IoGet\<close> copies the value into the user's buffer of \<open>ulen\<close> bytes;
  \<open>IoSet\<close> copies the user's string into a kernel buffer of \<open>MAX_VALUE_LEN\<close> bytes.
  \<open>ucopy_ok\<close> says whether the copies between user and kernel space succeed.  The result is the
  return code, what was copied to the user (if anything) and the state.  \<open>IoGetAll\<close> reads
  \<open>fb[index]\<close> before any check of \<open>index\<close>.
\<close>

datatype ioctl_req =
    IoGet int string nat
  | IoGetAll int
  | IoSet int string string
  | IoCommit int
  | IoClear int
  | IoOther

definition ralink_nvram_ioctl ::
  "kenv \<Rightarrow> bool \<Rightarrow> ioctl_req \<Rightarrow> nvram \<Rightarrow> (int \<times> byte list option \<times> nvram) res" where
  "ralink_nvram_ioctl e ucopy_ok req s =
     (case req of
        IoGet i name ulen \<Rightarrow>
          res_bind (nvram_get e i name s) (\<lambda>(p, s).
          (let p = (case p of None \<Rightarrow> [] | Some v \<Rightarrow> v) in
           if \<not> ucopy_ok then Inr (- EFAULT, None, s)
           else if ulen < length p + 1 then Inl OutOfBounds
           else Inr (0, Some (p @ [NUL]), s)))
      | IoGetAll i \<Rightarrow>
          if \<not> index_ok i then Inl OutOfBounds
          else
            res_bind (nvram_getall e i s) (\<lambda>(r, s).
            if r \<noteq> 0 then Inr (0, None, s)
            else if \<not> ucopy_ok then Inr (- EFAULT, None, s)
            else Inr (0, env_data (block s i), s))
      | IoSet i name value \<Rightarrow>
          (case km e MAX_VALUE_LEN of
             None \<Rightarrow> Inr (- ENOMEM, None, s)
           | Some buf \<Rightarrow>
               if \<not> ucopy_ok then Inr (- EFAULT, None, s)
               else if length buf < length value + 1 then Inl OutOfBounds
               else res_bind (nvram_set e i name value s) (\<lambda>(_, s). Inr (0, None, s)))
      | IoCommit i \<Rightarrow> res_bind (nvram_commit e i s) (\<lambda>(_, s). Inr (0, None, s))
      | IoClear i \<Rightarrow> res_bind (nvram_clear e i s) (\<lambda>(_, s). Inr (0, None, s))
      | IoOther \<Rightarrow> Inr (0, None, s))"

text \<open>\<open>ra_nvram_init\<close>: \<open>r\<close> is the result of registering the character device, \<open>es\<close> the
  environments of the four block initialisations.\<close>

fun init_blocks :: "(nat \<Rightarrow> kenv) \<Rightarrow> nat list \<Rightarrow> nvram \<Rightarrow> nvram res" where
  "init_blocks es [] s = Inr s"
| "init_blocks es (i # is) s =
     res_bind (init_nvram_block (es i) (int i) s) (\<lambda>(_, s). init_blocks es is s)"

definition ra_nvram_init :: "int \<Rightarrow> (nat \<Rightarrow> kenv) \<Rightarrow> nvram \<Rightarrow> (int \<times> nvram) res" where
  "ra_nvram_init r es s =
     (if r < 0 then Inr (r, s)
      else
        (let s = s\<lparr>sem_held := False\<rparr> in
         res_bind (down s) (\<lambda>s.
         res_bind (init_blocks es [0..<FLASH_BLOCK_NUM] s) (\<lambda>s. Inr (0, up s)))))"

definition power_on :: "mtd_info \<Rightarrow> nvram" where
  "power_on m = \<lparr>fb = fb_init, mtd = m, sem_held = False, counter = 0\<rparr>"

fun exit_blocks :: "(nat \<Rightarrow> kenv) \<Rightarrow> nat list \<Rightarrow> nvram \<Rightarrow> nvram res" where
  "exit_blocks es [] s = Inr s"
| "exit_blocks es (i # is) s =
     res_bind (if dirty (block s (int i))
               then res_bind (nvram_commit (es i) (int i) s) (\<lambda>(_, s). Inr s) else Inr s) (\<lambda>s.
     res_bind (ra_nvram_close (int i) s) (\<lambda>(_, s).
     exit_blocks es is
       (set_block (int i) ((block s (int i))\<lparr>valid := False, env_data := None\<rparr>) s)))"

definition ra_nvram_exit :: "(nat \<Rightarrow> kenv) \<Rightarrow> nvram \<Rightarrow> nvram res" where
  "ra_nvram_exit es s = exit_blocks es [0..<FLASH_BLOCK_NUM] s"

section \<open>The cache as an association list\<close>

definition mk_entry :: "string \<times> string \<Rightarrow> cache_t" where
  "mk_entry nv = \<lparr>c_name = Some (fst nv), c_value = Some (snd nv)\<rparr>"

lemma mk_entry_sel [simp]: "c_name (mk_entry nv) = Some (fst nv)" "c_value (mk_entry nv) = Some (snd nv)"
  by (simp_all add: mk_entry_def)

lemma empty_entry_sel [simp]: "c_name empty_entry = None" "c_value empty_entry = None"
  by (simp_all add: empty_entry_def)

fun entries_of :: "cache_t list \<Rightarrow> (string \<times> string) list" where
  "entries_of [] = []"
| "entries_of (c # cs) =
     (case (c_name c, c_value c) of (Some n, Some v) \<Rightarrow> (n, v) # entries_of cs | _ \<Rightarrow> [])"

text \<open>A well-formed cache: the pairs first, then unused entries, all names and values C strings.\<close>

definition layout :: "(string \<times> string) list \<Rightarrow> cache_t list" where
  "layout es = map mk_entry es @ replicate (MAX_CACHE_ENTRY - length es) empty_entry"

definition cstr_pairs :: "(string \<times> string) list \<Rightarrow> bool" where
  "cstr_pairs es \<longleftrightarrow> (\<forall>(n, v) \<in> set es. is_cstr n \<and> is_cstr v)"

definition cache_wf :: "cache_t list \<Rightarrow> bool" where
  "cache_wf c \<longleftrightarrow> (\<exists>es. length es \<le> MAX_CACHE_ENTRY \<and> cstr_pairs es \<and> c = layout es)"

lemma entries_of_append [simp]: "entries_of (map mk_entry es @ cs) = es @ entries_of cs"
  by (induction es) auto

lemma entries_of_replicate [simp]: "entries_of (replicate k empty_entry) = []"
  by (cases k) auto

lemma entries_of_layout [simp]: "entries_of (layout es) = es"
  by (simp add: layout_def)

lemma length_layout [simp]: "length es \<le> MAX_CACHE_ENTRY \<Longrightarrow> length (layout es) = MAX_CACHE_ENTRY"
  by (simp add: layout_def)

lemma cache_wfE:
  assumes "cache_wf c"
  obtains es where "length es \<le> MAX_CACHE_ENTRY" "cstr_pairs es" "c = layout es" "entries_of c = es"
  using assms by (auto simp: cache_wf_def)

lemma cache_wf_layout [simp]:
  "length es \<le> MAX_CACHE_ENTRY \<Longrightarrow> cstr_pairs es \<Longrightarrow> cache_wf (layout es)"
  by (auto simp: cache_wf_def)

lemma layout_nth [simp]: "i < length es \<Longrightarrow> layout es ! i = mk_entry (es ! i)"
  by (simp add: layout_def nth_append)

lemma layout_update:
  "i < length es \<Longrightarrow> (layout es)[i := mk_entry nv] = layout (es[i := nv])"
  by (simp add: layout_def list_update_append map_update)

lemma layout_snoc:
  "length es < MAX_CACHE_ENTRY \<Longrightarrow> (layout es)[length es := mk_entry nv] = layout (es @ [nv])"
proof -
  assume "length es < MAX_CACHE_ENTRY"
  then obtain k where k: "MAX_CACHE_ENTRY - length es = Suc k"
    by (metis Suc_diff_Suc)
  then have "MAX_CACHE_ENTRY - Suc (length es) = k" by simp
  with k show ?thesis
    using list_update_length [of "map mk_entry es"] by (simp add: layout_def)
qed

lemma cache_scan_layout: "cache_scan n (layout es) = find_index (\<lambda>p. fst p = n) es"
proof -
  have "cache_scan n (map mk_entry es @ replicate k empty_entry) = find_index (\<lambda>p. fst p = n) es" for k
    by (induction es) (cases k; auto)+
  then show ?thesis by (simp add: layout_def)
qed

lemma first_free_used: "find_index (\<lambda>x. c_name x = None) (map mk_entry es @ replicate k empty_entry)
    = (if k = 0 then None else Some (length es))"
  by (induction es) (cases k; auto)+

lemma first_free_layout:
  assumes "length es \<le> MAX_CACHE_ENTRY"
  shows "find_index (\<lambda>x. c_name x = None) (layout es)
     = (if length es = MAX_CACHE_ENTRY then None else Some (length es))"
proof -
  have "MAX_CACHE_ENTRY - length es = 0 \<longleftrightarrow> length es = MAX_CACHE_ENTRY" using assms by arith
  then show ?thesis unfolding layout_def by (simp only: first_free_used)
qed

lemma clear_layout [simp]:
  "length es \<le> MAX_CACHE_ENTRY \<Longrightarrow> map (\<lambda>_. empty_entry) (layout es) = layout []"
  by (auto simp: layout_def map_replicate_const simp flip: replicate_add)

section \<open>Serialising and parsing\<close>

definition ser :: "(string \<times> string) list \<Rightarrow> byte list" where
  "ser es = concat (map (\<lambda>(n, v). n @ CHR ''='' # v @ [NUL]) es)"

definition names_ok :: "(string \<times> string) list \<Rightarrow> bool" where
  "names_ok es \<longleftrightarrow> (\<forall>(n, v) \<in> set es. CHR ''='' \<notin> set n)"

lemma ser_simps [simp]:
  "ser [] = []" "ser ((n, v) # es) = n @ CHR ''='' # v @ NUL # ser es"
  by (simp_all add: ser_def)

lemma put_entries_fits:
  "length w + length (ser es) \<le> len \<Longrightarrow> len + 4 = maxlen \<Longrightarrow>
   put_entries maxlen len (map mk_entry es @ replicate k empty_entry) w = Inr (True, w @ ser es)"
proof (induction es arbitrary: w)
  case Nil
  then show ?case by (cases k) auto
next
  case (Cons nv es)
  obtain n v where nv: "nv = (n, v)" by force
  from Cons.prems nv
  have "length (w @ n @ CHR ''='' # v @ [NUL]) + length (ser es) \<le> len" by simp
  from Cons.IH [OF this Cons.prems(2)] Cons.prems nv show ?case by auto
qed

lemma put_entries_overruns:
  "length w \<le> len \<Longrightarrow> len < length w + length (ser es) \<Longrightarrow> len + 4 = maxlen \<Longrightarrow>
   put_entries maxlen len (map mk_entry es @ cs) w = Inl OutOfBounds"
proof (induction es arbitrary: w)
  case Nil
  then show ?case by simp
next
  case (Cons nv es)
  obtain n v where nv: "nv = (n, v)" by force
  show ?case
  proof (cases "len < length w + (length n + length v + 2)")
    case True
    with Cons.prems nv show ?thesis by auto
  next
    case False
    then have "length (w @ n @ CHR ''='' # v @ [NUL]) \<le> len" by simp
    moreover have "len < length (w @ n @ CHR ''='' # v @ [NUL]) + length (ser es)"
      using Cons.prems(2) nv by simp
    ultimately show ?thesis
      using Cons.IH Cons.prems(3) False nv by auto
  qed
qed

lemma hd_ser_not_NUL: "cstr_pairs es \<Longrightarrow> es \<noteq> [] \<Longrightarrow> hd (ser es @ t) \<noteq> NUL"
  by (cases es; cases "fst (hd es)") (auto simp: cstr_pairs_def)

lemma length_ser_ge: "es \<noteq> [] \<Longrightarrow> 2 \<le> length (ser es)"
  by (cases es) auto

lemma parse_ser:
  "cstr_pairs es \<Longrightarrow> names_ok es \<Longrightarrow> length es \<le> n \<Longrightarrow> es \<noteq> [] \<Longrightarrow>
   \<exists>q. parse_env n (ser es @ replicate k NUL) = Inr (es, q) \<and> length q = length (ser es) + k"
proof (induction es arbitrary: n)
  case Nil
  then show ?case by simp
next
  case (Cons e es)
  obtain a v where e: "e = (a, v)" by force
  obtain m where m: "n = Suc m" using Cons.prems(3) by (cases n) auto
  let ?next = "ser es @ replicate k NUL"
  have str: "is_cstr a" "is_cstr v" "CHR ''='' \<notin> set a" "cstr_pairs es" "names_ok es"
    using Cons.prems(1,2) e by (auto simp: cstr_pairs_def names_ok_def)
  have s1: "strchr (a @ CHR ''='' # v @ NUL # ?next) (CHR ''='') = Found (length a)"
    using str by (simp add: strchr_append)
  have s2: "strchr (v @ NUL # ?next) NUL = Found (length v)"
    using str by (simp add: strchr_append is_cstr_def)
  show ?case
  proof (cases "es = []")
    case True
    have "length (replicate k NUL) \<le> 1 \<or> hd (replicate k NUL) = NUL"
      by (cases k) auto
    with True s1 s2 show ?thesis by (auto simp: e m)
  next
    case False
    then have "\<not> length ?next \<le> 1" using length_ser_ge [of es] by simp
    moreover have "hd ?next \<noteq> NUL" using hd_ser_not_NUL str False by blast
    moreover obtain q where "parse_env m ?next = Inr (es, q)" "length q = length (ser es) + k"
      using Cons.IH [OF str(4,5)] Cons.prems(3) m False by auto
    ultimately show ?thesis using s1 s2 by (auto simp: e m)
  qed
qed

lemma parse_env_padding:
  "cstr_pairs es \<Longrightarrow> names_ok es \<Longrightarrow> length es \<le> n \<Longrightarrow> 0 < n \<Longrightarrow> 0 < k \<Longrightarrow>
   \<exists>q. parse_env n (ser es @ replicate k NUL) = Inr (es, q) \<and> length q = length (ser es) + k"
  by (cases "es = []") (cases n; cases k; auto; fail | intro parse_ser; simp)+

lemma parse_env_sound:
  "parse_env n p = Inr (es, q) \<Longrightarrow> cstr_pairs es \<and> length es \<le> n \<and> length q = length p"
proof (induction n p arbitrary: es q rule: parse_env.induct)
  case (1 p)
  then show ?case by (simp add: cstr_pairs_def)
next
  case (2 n p)
  show ?case
  proof (cases "strchr p (CHR ''='')")
    case (Found k)
    let ?rest = "drop (Suc k) p"
    from Found have k: "k < length p" "is_cstr (take k p)" by (auto dest: strchr_FoundD)
    show ?thesis
    proof (cases "strchr ?rest NUL")
      case (Found m)
      let ?next = "drop (Suc m) ?rest"
      from Found have m: "m < length ?rest" "is_cstr (take m ?rest)" by (auto dest: strchr_FoundD)
      note eq = \<open>strchr p (CHR ''='') = scan.Found k\<close> Found
      show ?thesis
      proof (cases "length ?next \<le> 1 \<or> hd ?next = NUL")
        case True
        with "2.prems" eq k m show ?thesis by (auto simp: cstr_pairs_def Let_def)
      next
        case False
        with "2.prems" eq obtain es' q' where r: "parse_env n ?next = Inr (es', q')"
          and es: "es = (take k p, take m ?rest) # es'"
          and q: "q = take k p @ NUL # take (Suc m) ?rest @ q'"
          by (auto simp: Let_def)
        have "cstr_pairs es' \<and> length es' \<le> n \<and> length q' = length ?next"
          using "2.IH" [OF eq(1) refl refl eq(2) refl refl refl] False r by blast
        with es q k m show ?thesis by (auto simp: cstr_pairs_def)
      qed
    qed (use "2.prems" Found in \<open>auto simp: Let_def\<close>)
  qed (use "2.prems" in \<open>auto simp: cstr_pairs_def\<close>)
qed

section \<open>Invariants\<close>

definition geom_ok :: "block_t \<Rightarrow> block_t \<Rightarrow> bool" where
  "geom_ok b g \<longleftrightarrow> flash_offset b = flash_offset g \<and> flash_max_len b = flash_max_len g"

text \<open>\<open>cache_sane\<close>: a cache of 500 entries whose names and values, where they are not null, are C strings; this
  much survives every failure.  A running store has a well-formed cache.\<close>

definition cache_sane :: "cache_t list \<Rightarrow> bool" where
  "cache_sane c \<longleftrightarrow> length c = MAX_CACHE_ENTRY \<and> list_all (\<lambda>x. pred_option is_cstr (c_name x) \<and> pred_option is_cstr (c_value x)) c"

definition data_sane :: "block_t \<Rightarrow> bool" where
  "data_sane b \<longleftrightarrow> (\<forall>d. env_data b = Some d \<longrightarrow> length d = flash_max_len b - 4)"

definition block_sane :: "block_t \<Rightarrow> bool" where
  "block_sane b \<longleftrightarrow> cache_sane (cache b) \<and> data_sane b"

definition block_ok :: "block_t \<Rightarrow> bool" where
  "block_ok b \<longleftrightarrow> cache_wf (cache b) \<and> (\<forall>d. env_data b = Some d \<longrightarrow> length d = flash_max_len b - 4)"

lemma cache_wf_sane: "cache_wf c \<Longrightarrow> cache_sane c"
  by (erule cache_wfE)
    (auto simp: cache_sane_def layout_def list_all_iff cstr_pairs_def)

lemma block_ok_sane: "block_ok b \<Longrightarrow> block_sane b"
  by (simp add: block_ok_def block_sane_def data_sane_def cache_wf_sane)

text \<open>\<open>nv_ok\<close>: the array has its four blocks with their fixed flash regions, every cache is
  sane, and the partition's erase block holds all four regions.  \<open>nv_up\<close>: moreover all
  blocks have been initialised, their caches are well formed, and nobody holds the semaphore.\<close>

definition nv_ok :: "nvram \<Rightarrow> bool" where
  "nv_ok s \<longleftrightarrow>
     length (fb s) = FLASH_BLOCK_NUM
     \<and> (\<forall>i < FLASH_BLOCK_NUM. geom_ok (fb s ! i) (fb_init ! i) \<and> block_sane (fb s ! i))
     \<and> mtd_ok (mtd s) \<and> 0xf000 \<le> mtd_erasesize (mtd s)"

definition nv_up :: "nvram \<Rightarrow> bool" where
  "nv_up s \<longleftrightarrow> nv_ok s \<and> (\<forall>i < FLASH_BLOCK_NUM. valid (fb s ! i) \<and> block_ok (fb s ! i)) \<and> \<not> sem_held s"

definition kstrdup_ok :: "kenv \<Rightarrow> bool" where
  "kstrdup_ok e \<longleftrightarrow> (\<forall>k. kdup e k)"

definition env_fine :: "kenv \<Rightarrow> bool" where
  "env_fine e \<longleftrightarrow> allocs (km e) \<and> (\<forall>n. km e n \<noteq> None) \<and> kstrdup_ok e
     \<and> io1 e = io_fine \<and> io2 e = io_fine"

text \<open>What the store means: one map per block.\<close>

definition store :: "nvram \<Rightarrow> int \<Rightarrow> (string \<rightharpoonup> string)" where
  "store s i = map_of (entries_of (cache (block s i)))"

lemma index_ok_nat: "index_ok i \<Longrightarrow> nat i < FLASH_BLOCK_NUM"
  by (auto simp: index_ok_def)

lemma nv_up_blockD:
  assumes "nv_up s" and "index_ok i"
  shows "nat i < length (fb s)" "valid (block s i)" "block_ok (block s i)"
    "geom_ok (block s i) (fb_init ! nat i)" "\<not> sem_held s"
  using assms index_ok_nat [OF assms(2)] by (auto simp: nv_up_def nv_ok_def block_def)

lemma block_set_block_same [simp]:
  "nat i < length (fb s) \<Longrightarrow> block (set_block i b s) i = b"
  by (simp add: block_def set_block_def)

lemma block_set_block_other [simp]:
  "0 \<le> i \<Longrightarrow> 0 \<le> j \<Longrightarrow> i \<noteq> j \<Longrightarrow> block (set_block i b s) j = block s j"
  by (simp add: block_def set_block_def nat_eq_iff)

lemma set_block_sel [simp]:
  "mtd (set_block i b s) = mtd s" "sem_held (set_block i b s) = sem_held s"
  "counter (set_block i b s) = counter s" "length (fb (set_block i b s)) = length (fb s)"
  by (simp_all add: set_block_def)

lemma block_upd [simp]:
  "block (s\<lparr>counter := c\<rparr>) i = block s i" "block (s\<lparr>sem_held := h\<rparr>) i = block s i"
  "block (s\<lparr>mtd := m\<rparr>) i = block s i" "block (up s) i = block s i"
  by (simp_all add: block_def up_def)

lemma up_sel [simp]: "fb (up s) = fb s" "mtd (up s) = mtd s" "\<not> sem_held (up s)"
  "counter (up s) = counter s"
  by (simp_all add: up_def)

lemma down_free [simp]: "\<not> sem_held s \<Longrightarrow> down s = Inr (s\<lparr>sem_held := True\<rparr>)"
  by (simp add: down_def)

lemma check_valid_id [simp]: "valid (block s i) \<Longrightarrow> check_valid e i s = Inr s"
  by (simp add: check_valid_def)

lemma set_block_self: "nat i < length (fb s) \<Longrightarrow> set_block i (block s i) s = s"
  by (simp add: set_block_def block_def)

lemma nv_up_set_block:
  assumes "nv_up s" and "index_ok i" and "block_ok b" and "geom_ok b (fb_init ! nat i)" and "valid b"
    and "fb s' = (fb s)[nat i := b]" and "mtd_ok (mtd s')" "0xf000 \<le> mtd_erasesize (mtd s')"
    and "\<not> sem_held s'"
  shows "nv_up s'"
  using assms index_ok_nat [OF assms(2)] by (auto simp: nv_up_def nv_ok_def nth_list_update block_ok_sane)

lemma le32_length [simp]: "length (le32 w) = 4"
  by (simp add: le32_def)

lemma of_le32_le32 [simp]: "of_le32 (le32 w) = w"
proof -
  have b: "(of_nat (uchar (char_of (unat x))) :: u32) = take_bit 8 x" for x :: u32
    by (simp add: uchar_def take_bit_eq_mod unat_mod_distrib flip: word_unat_eq_iff)
      (simp add: word_unat_eq_iff unat_mod_distrib unsigned_of_nat take_bit_nat_def)
  have d: "drop_bit 8 (drop_bit 24 w) = (0 :: u32)"
    by (rule bit_eqI) (auto simp: bit_simps dest: bit_imp_le_length)
  have "push_bit 8 (0 :: u32) + take_bit 8 (drop_bit 24 w) = drop_bit 24 w"
    using bits_ident [of 8 "drop_bit 24 w"] d by simp
  then show ?thesis
    using bits_ident [of 8 "drop_bit 16 w"] bits_ident [of 8 "drop_bit 8 w"] bits_ident [of 8 w]
    by (simp add: of_le32_def le32_def b)
qed

section \<open>The operations of a running store\<close>

lemma cache_scan_None_iff: "cache_wf c \<Longrightarrow> cache_scan n c = None \<longleftrightarrow> map_of (entries_of c) n = None"
  by (auto elim!: cache_wfE simp: cache_scan_layout find_index_map_of_None)

lemma cache_scan_SomeD:
  "cache_wf c \<Longrightarrow> cache_scan n c = Some k \<Longrightarrow> c_value (c ! k) = map_of (entries_of c) n"
  by (auto elim!: cache_wfE simp: cache_scan_layout dest!: find_index_map_of_Some)

lemma nvram_get_eq:
  assumes "nv_up s" and "index_ok i"
  shows "nvram_get e i n s = Inr (store s i n, s\<lparr>counter := counter s + 1\<rparr>)"
proof -
  note b = nv_up_blockD [OF assms]
  then have wf: "cache_wf (cache (block s i))" by (simp add: block_ok_def)
  have "s\<lparr>sem_held := False\<rparr> = s" using b(5) by simp
  then show ?thesis
    using b assms(2) cache_scan_None_iff [OF wf] cache_scan_SomeD [OF wf]
    by (auto simp: nvram_get_def cache_idx_def store_def up_def Let_def split: option.splits)
qed

text \<open>The cache after a set, as an operation on pairs.\<close>

definition room :: "(string \<times> string) list \<Rightarrow> string \<Rightarrow> bool" where
  "room es n \<longleftrightarrow> map_of es n \<noteq> None \<or> length es < MAX_CACHE_ENTRY"

lemma length_assoc_set:
  "length (assoc_set es n v) = (if map_of es n = None then Suc (length es) else length es)"
  by (cases "find_index (\<lambda>p. fst p = n) es")
    (auto simp: assoc_set_def dest: find_index_map_of_Some iffD1 [OF find_index_map_of_None])

lemma cstr_pairs_assoc_set:
  "cstr_pairs es \<Longrightarrow> is_cstr n \<Longrightarrow> is_cstr v \<Longrightarrow> cstr_pairs (assoc_set es n v)"
  by (auto simp: assoc_set_def cstr_pairs_def dest!: set_update_subset_insert [THEN subsetD]
      split: option.splits)

lemma nvram_set_layout:
  assumes up: "nv_up s" and i: "index_ok i" and e: "kstrdup_ok e"
    and c: "cache (block s i) = layout es" "length es \<le> MAX_CACHE_ENTRY"
  shows "nvram_set e i n v s =
     (if room es n
      then Inr (0, set_block i ((block s i)\<lparr>cache := layout (assoc_set es n v), dirty := True\<rparr>)
                     (s\<lparr>counter := counter s + 1\<rparr>))
      else Inr (- 1, s\<lparr>counter := counter s + 1\<rparr>))"
proof -
  note b = nv_up_blockD [OF up i]
  have s: "s\<lparr>sem_held := False\<rparr> = s" using b(5) by simp
  have dup: "dup_entry e 0 (n, v) = mk_entry (n, v)" "kstrdup e 0 v = Some v"
    using e by (simp_all add: dup_entry_def mk_entry_def kstrdup_def kstrdup_ok_def)
  have scan: "cache_idx i n (s\<lparr>sem_held := True, counter := counter s + 1\<rparr>)
      = find_index (\<lambda>p. fst p = n) es"
    using c by (simp add: cache_idx_def cache_scan_layout)
  have body: "nvram_set e i n v s =
      (let s1 = s\<lparr>sem_held := True, counter := counter s + 1\<rparr>; b = block s i in
       case find_index (\<lambda>p. fst p = n) es of
         None \<Rightarrow> (case find_index (\<lambda>x. c_name x = None) (layout es) of
            None \<Rightarrow> Inr (- 1, up s1)
          | Some idx \<Rightarrow> Inr (0, up (set_block i (b\<lparr>cache := (layout es)[idx := mk_entry (n, v)],
                                              dirty := True\<rparr>) s1)))
       | Some idx \<Rightarrow> Inr (0, up (set_block i
             (b\<lparr>cache := (layout es)[idx := (layout es ! idx)\<lparr>c_value := Some v\<rparr>],
                dirty := True\<rparr>) s1)))"
    using b i c dup by (simp add: nvram_set_def scan Let_def cong del: option.case_cong_weak)
  have upd: "up (set_block i x (s\<lparr>sem_held := True, counter := counter s + 1\<rparr>))
      = set_block i x (s\<lparr>counter := counter s + 1\<rparr>)" for x
    using b(5) by (simp add: up_def set_block_def)
  have up1: "up (s\<lparr>sem_held := True, counter := counter s + 1\<rparr>) = s\<lparr>counter := counter s + 1\<rparr>"
    using b(5) by (simp add: up_def)
  show ?thesis
  proof (cases "find_index (\<lambda>p. fst p = n) es")
    case None
    then have m: "map_of es n = None" by (simp only: find_index_map_of_None)
    show ?thesis
    proof (cases "length es = MAX_CACHE_ENTRY")
      case True
      then show ?thesis
        unfolding body None first_free_layout [OF c(2)] room_def by (simp add: m up1)
    next
      case False
      then have "length es < MAX_CACHE_ENTRY" using c(2) by simp
      moreover have "assoc_set es n v = es @ [(n, v)]" unfolding assoc_set_def None by simp
      ultimately show ?thesis
        unfolding body None first_free_layout [OF c(2)] room_def by (simp add: m upd layout_snoc)
    qed
  next
    case (Some k)
    then have k: "map_of es n \<noteq> None" "k < length es" "fst (es ! k) = n"
      using find_index_map_of_Some [OF Some] by (auto simp: find_index_Some)
    have "(mk_entry (es ! k))\<lparr>c_value := Some v\<rparr> = mk_entry (n, v)"
      using k by (simp add: mk_entry_def)
    moreover have "assoc_set es n v = es[k := (n, v)]" unfolding assoc_set_def Some by simp
    ultimately show ?thesis
      unfolding body Some room_def using k(1,2) by (simp add: upd layout_update Let_def)
  qed
qed

end
