(* ===== verification/Nvram_Store.thy ===== *)
theory Nvram_Store
  imports Nvram
begin

text \<open>
  What the kernel configuration store promises: its invariant under every operation and every
  outcome of allocation and flash accesses, its meaning as one finite map per block, and what a
  commit followed by a reboot keeps.  The failures the code allows are stated as theorems too.
\<close>

section \<open>One operation touches one block\<close>

definition touches :: "int \<Rightarrow> nvram \<Rightarrow> nvram \<Rightarrow> bool" where
  "touches i s s' \<longleftrightarrow>
     length (fb s') = length (fb s)
     \<and> (\<forall>j. j \<noteq> nat i \<longrightarrow> fb s' ! j = fb s ! j)
     \<and> block_sane (block s' i) \<and> geom_ok (block s' i) (fb_init ! nat i)
     \<and> mtd_erasesize (mtd s') = mtd_erasesize (mtd s)
     \<and> length (mtd_bytes (mtd s')) = length (mtd_bytes (mtd s))"

lemma touches_refl: "nv_ok s \<Longrightarrow> index_ok i \<Longrightarrow> touches i s s"
  using index_ok_nat by (auto simp: touches_def nv_ok_def block_def)

lemma touches_nv_ok: "nv_ok s \<Longrightarrow> index_ok i \<Longrightarrow> touches i s s' \<Longrightarrow> nv_ok s'"
  unfolding touches_def nv_ok_def block_def mtd_ok_def by metis

lemma touches_trans: "touches i s s' \<Longrightarrow> touches i s' s'' \<Longrightarrow> touches i s s''"
  by (simp add: touches_def)

lemma touches_set_block:
  assumes "touches i s s'" and "index_ok i" and "nv_ok s"
    and "block_sane b" and "geom_ok b (fb_init ! nat i)"
  shows "touches i s (set_block i b s')"
proof -
  have "nat i < length (fb s')" using assms index_ok_nat by (auto simp: touches_def nv_ok_def)
  then show ?thesis using assms by (simp add: touches_def set_block_def block_def)
qed

lemma touches_upd [simp]:
  "touches i s (s'\<lparr>counter := c\<rparr>) \<longleftrightarrow> touches i s s'"
  "touches i s (s'\<lparr>sem_held := h\<rparr>) \<longleftrightarrow> touches i s s'"
  "touches i s (up s') \<longleftrightarrow> touches i s s'"
  by (simp_all add: touches_def)

lemma touches_mtd:
  "touches i s s' \<Longrightarrow> mtd_erasesize m = mtd_erasesize (mtd s') \<Longrightarrow>
   length (mtd_bytes m) = length (mtd_bytes (mtd s')) \<Longrightarrow> touches i s (s'\<lparr>mtd := m\<rparr>)"
  by (simp add: touches_def)

lemma touches_block: "touches i s s' \<Longrightarrow> block_sane (block s' i) \<and> geom_ok (block s' i) (fb_init ! nat i)"
  by (simp add: touches_def)

lemma down_InrD: "down s = Inr s' \<Longrightarrow> s' = s\<lparr>sem_held := True\<rparr> \<and> \<not> sem_held s"
  by (simp add: down_def split: if_splits)

lemma ra_mtd_read_nm_length:
  "ra_mtd_read_nm io m from len buf = Inr (r, b) \<Longrightarrow> length b = length buf"
  by (auto simp: ra_mtd_read_nm_def Let_def split: option.splits if_splits)

lemma block_ok_upd [simp]:
  "block_ok (b\<lparr>env_crc := x\<rparr>) \<longleftrightarrow> block_ok b"
  "block_ok (b\<lparr>dirty := d\<rparr>) \<longleftrightarrow> block_ok b"
  by (simp_all add: block_ok_def)

lemma block_sane_upd [simp]:
  "block_sane (b\<lparr>env_crc := x\<rparr>) \<longleftrightarrow> block_sane b"
  "block_sane (b\<lparr>dirty := d\<rparr>) \<longleftrightarrow> block_sane b"
  "geom_ok (b\<lparr>env_crc := x\<rparr>) g \<longleftrightarrow> geom_ok b g"
  "geom_ok (b\<lparr>dirty := d\<rparr>) g \<longleftrightarrow> geom_ok b g"
  "geom_ok (b\<lparr>env_data := y\<rparr>) g \<longleftrightarrow> geom_ok b g"
  "geom_ok (b\<lparr>cache := c\<rparr>) g \<longleftrightarrow> geom_ok b g"
  "geom_ok (b\<lparr>valid := d\<rparr>) g \<longleftrightarrow> geom_ok b g"
  by (simp_all add: block_sane_def data_sane_def geom_ok_def)

text \<open>Initialising a block overwrites the front of its cache.\<close>

lemma put_layout:
  assumes "length es \<le> MAX_CACHE_ENTRY" and "length es0 \<le> MAX_CACHE_ENTRY"
  shows "put_slice (layout es0) 0 (map mk_entry es) = layout (es @ drop (length es) es0)"
proof -
  have "MAX_CACHE_ENTRY - length es0 - (length es - length es0)
      = MAX_CACHE_ENTRY - (length es + (length es0 - length es))"
    using assms by arith
  then show ?thesis by (simp add: put_slice_def layout_def drop_map)
qed

lemma dup_entry_fine: "kstrdup_ok e \<Longrightarrow> dup_entry e k = mk_entry"
  by (simp add: fun_eq_iff dup_entry_def mk_entry_def kstrdup_def kstrdup_ok_def)

lemma dup_entries_fine: "kstrdup_ok e \<Longrightarrow> dup_entries e es = map mk_entry es"
  by (rule nth_equalityI) (simp_all add: dup_entries_def dup_entry_fine nth_enumerate_eq)

lemma length_dup_entries [simp]: "length (dup_entries e es) = length es"
  by (simp add: dup_entries_def)

lemma kstrdup_cstr: "is_cstr s \<Longrightarrow> pred_option is_cstr (kstrdup e k s)"
  by (simp add: kstrdup_def)

lemma dup_entry_cstr:
  "is_cstr n \<Longrightarrow> is_cstr v \<Longrightarrow>
   pred_option is_cstr (c_name (dup_entry e k (n, v))) \<and> pred_option is_cstr (c_value (dup_entry e k (n, v)))"
  by (simp add: dup_entry_def kstrdup_cstr)

lemma dup_entries_cstr:
  assumes "cstr_pairs es" and "x \<in> set (dup_entries e es)"
  shows "pred_option is_cstr (c_name x) \<and> pred_option is_cstr (c_value x)"
proof -
  obtain k n v where "(k, n, v) \<in> set (enumerate 0 es)" "x = dup_entry e k (n, v)"
    using assms(2) by (auto simp: dup_entries_def)
  moreover from this have "(n, v) \<in> set es" by (metis enumerate_eq_zip set_zip_rightD)
  ultimately show ?thesis using assms(1) dup_entry_cstr by (auto simp: cstr_pairs_def)
qed

lemma put_sane:
  assumes "cache_sane c" and "length es \<le> MAX_CACHE_ENTRY" and "cstr_pairs es"
  shows "cache_sane (put_slice c 0 (dup_entries e es))"
  using assms dup_entries_cstr [OF assms(3)]
  by (auto simp: cache_sane_def put_slice_def list_all_iff dest: in_set_dropD)

lemma update_sane:
  assumes "cache_sane c" and "pred_option is_cstr (c_name x)" and "pred_option is_cstr (c_value x)"
  shows "cache_sane (c[k := x])"
  using assms by (auto simp: cache_sane_def list_all_iff dest!: set_update_subset_insert [THEN subsetD])

lemma init_nvram_block_touches:
  assumes "nv_ok s" and "index_ok i" and "allocs (km e)"
    and "init_nvram_block e i s = Inr (r, s')"
  shows "touches i s s' \<and> sem_held s' = sem_held s \<and> mtd s' = mtd s"
proof (cases "valid (block s i)")
  case True
  then show ?thesis using assms touches_refl by (auto simp: init_nvram_block_def)
next
  case False
  note t = touches_refl [OF assms(1,2)]
  note set = touches_set_block [OF t assms(2,1)]
  have b: "block_sane (block s i)" "geom_ok (block s i) (fb_init ! nat i)"
    using t by (auto simp: touches_def)
  have ok: "block_sane ((block s i)\<lparr>env_crc := x, env_data := None\<rparr>)" for x
    using b(1) False by (simp add: block_sane_def data_sane_def)
  have ok1: "length d = flash_max_len (block s i) - 4 \<Longrightarrow>
      block_sane ((block s i)\<lparr>env_crc := x, env_data := Some d, valid := True, dirty := False\<rparr>)" for x d
    using b(1) False by (simp add: block_sane_def data_sane_def)
  have ok2: "length d = flash_max_len (block s i) - 4 \<Longrightarrow> length es \<le> MAX_CACHE_ENTRY \<Longrightarrow>
      cstr_pairs es \<Longrightarrow> block_sane ((block s i)\<lparr>env_crc := x, env_data := Some d,
        cache := put_slice (cache (block s i)) 0 (dup_entries e es), valid := True, dirty := False\<rparr>)"
    for x d es
    using b(1) by (simp add: block_sane_def data_sane_def put_sane)
  show ?thesis
    using assms(4) False assms(2,3) b
    by (auto simp: init_nvram_block_def Let_def allocs_def intro!: set ok ok1 ok2
        dest!: parse_env_sound ra_mtd_read_nm_length split: option.splits if_splits)
qed

lemma check_valid_touches:
  assumes "nv_ok s" and "index_ok i" and "allocs (km e)"
    and "check_valid e i s = Inr s'"
  shows "touches i s s' \<and> sem_held s' = sem_held s \<and> mtd s' = mtd s"
proof (cases "valid (block s i)")
  case True
  then show ?thesis using assms(4) touches_refl [OF assms(1,2)] by (simp add: check_valid_def)
next
  case False
  then obtain r where "init_nvram_block e i s = Inr (r, s')"
    using assms(4) by (auto simp: check_valid_def)
  then show ?thesis by (rule init_nvram_block_touches [OF assms(1-3)])
qed

text \<open>Every handler starts by taking the semaphore and checking the block.\<close>

lemma enter_touches:
  assumes "nv_ok s" and "index_ok i" and "allocs (km e)"
    and "down s = Inr s1" and "check_valid e i s1 = Inr s2"
  shows "touches i s s2 \<and> nv_ok s2 \<and> sem_held s2 \<and> mtd s2 = mtd s
    \<and> block_sane (block s2 i) \<and> geom_ok (block s2 i) (fb_init ! nat i)"
proof -
  have s1: "s1 = s\<lparr>sem_held := True\<rparr>" using assms(4) down_InrD by blast
  have ok1: "nv_ok s1" using assms(1) by (simp add: s1 nv_ok_def)
  have t: "touches i s1 s2 \<and> sem_held s2 = sem_held s1 \<and> mtd s2 = mtd s1"
    by (rule check_valid_touches [OF ok1 assms(2,3,5)])
  have "touches i s s1" using touches_refl [OF assms(1,2)] by (simp add: s1)
  with t have ts: "touches i s s2" by (blast intro: touches_trans)
  from touches_nv_ok [OF assms(1,2) ts] t ts s1 touches_block [OF ts] show ?thesis by simp
qed

lemma nvram_get_touches:
  assumes "nv_ok s" and "index_ok i" and "allocs (km e)"
    and "nvram_get e i n s = Inr (r, s')"
  shows "touches i s s' \<and> \<not> sem_held s'"
proof -
  obtain s1 s2 where d: "down s = Inr s1" "check_valid e i s1 = Inr s2"
    and s': "s' = up (s2\<lparr>counter := counter s2 + 1\<rparr>)"
    using assms(2,4) by (auto simp: nvram_get_def Let_def split: option.splits)
  from enter_touches [OF assms(1-3) d] show ?thesis by (simp add: s')
qed

lemma block_sane_cache: "block_sane b \<Longrightarrow> cache_sane c \<Longrightarrow> block_sane (b\<lparr>cache := c\<rparr>)"
  by (auto simp: block_sane_def data_sane_def)

lemma cache_scan_bound: "cache_scan n c = Some k \<Longrightarrow> k < length c \<and> c_name (c ! k) = Some n"
  by (induction c arbitrary: k) (auto split: option.splits if_splits)

lemma cache_sane_old:
  assumes "cache_sane c" and "cache_scan n c = Some k" and "is_cstr v"
  shows "cache_sane (c[k := (c ! k)\<lparr>c_value := kstrdup e j v\<rparr>])"
  using assms cache_scan_bound [OF assms(2)]
  by (intro update_sane) (auto simp: cache_sane_def list_all_length kstrdup_cstr)

lemma cache_sane_new:
  assumes "cache_sane c" and "is_cstr n" and "is_cstr v"
  shows "cache_sane (c[k := dup_entry e j (n, v)])"
  using assms dup_entry_cstr by (intro update_sane) blast+

lemma nvram_set_touches:
  assumes "nv_ok s" and "index_ok i" and "allocs (km e)"
    and "is_cstr n" and "is_cstr v" and "nvram_set e i n v s = Inr (r, s')"
  shows "touches i s s' \<and> \<not> sem_held s'"
proof -
  obtain s1 s2 where d: "down s = Inr s1" "check_valid e i s1 = Inr s2"
    using assms(2,6) by (auto simp: nvram_set_def)
  note t = enter_touches [OF assms(1-3) d]
  let ?b = "block s2 i"
  have sane: "cache_sane (cache ?b)" using t by (simp add: block_sane_def)
  have put: "touches i s (set_block i (?b\<lparr>cache := c, dirty := True\<rparr>) (s2\<lparr>counter := x\<rparr>))"
    if "cache_sane c" for c x
    by (rule touches_set_block) (use t assms(1,2) that in \<open>auto intro: block_sane_cache\<close>)
  show ?thesis
  proof (cases "cache_scan n (cache ?b)")
    case None
    show ?thesis
    proof (cases "find_index (\<lambda>x. c_name x = None) (cache ?b)")
      case None
      with \<open>cache_scan n _ = None\<close> show ?thesis
        using assms(2,6) d t by (auto simp: nvram_set_def cache_idx_def Let_def)
    next
      case (Some k)
      from put [OF cache_sane_new [OF sane assms(4,5)]] show ?thesis
        using \<open>cache_scan n _ = None\<close> Some assms(2,6) d
        by (auto simp: nvram_set_def cache_idx_def Let_def)
    qed
  next
    case (Some k)
    from put [OF cache_sane_old [OF sane Some assms(5)]] show ?thesis
      using Some assms(2,6) d by (auto simp: nvram_set_def cache_idx_def Let_def)
  qed
qed

lemma put_entries_length:
  "put_entries maxlen len c w = Inr (ok, w') \<Longrightarrow> length w \<le> len \<Longrightarrow> length w' \<le> len"
  by (induction maxlen len c w rule: put_entries.induct) (auto split: option.splits if_splits)

lemma length_fill_block [simp]: "length w \<le> len \<Longrightarrow> length (fill_block len w) = len"
  by (simp add: fill_block_def)

lemma block_sane_data:
  "block_sane b \<Longrightarrow> length d = flash_max_len b - 4 \<Longrightarrow> block_sane (b\<lparr>env_data := Some d\<rparr>)"
  by (simp add: block_sane_def data_sane_def)

lemma nvram_commit_touches:
  assumes "nv_ok s" and "index_ok i" and "allocs (km e)"
    and "nvram_commit e i s = Inr (r, s')"
  shows "touches i s s' \<and> (sem_held s' \<longrightarrow> r = - ENOMEM)"
proof -
  obtain s1 s2 where d: "down s = Inr s1" "check_valid e i s1 = Inr s2"
    using assms(2,4) by (auto simp: nvram_commit_def)
  note t = enter_touches [OF assms(1-3) d]
  let ?b = "block s2 i" and ?len = "flash_max_len (block s2 i) - 4"
  have put: "touches i s (set_block i (?b\<lparr>env_data := Some (fill_block ?len w)\<rparr>) s3)"
    "touches i s (set_block i (?b\<lparr>env_data := Some (fill_block ?len w), env_crc := y, dirty := False\<rparr>) s3)"
    if "length w \<le> ?len" "touches i s s3" for w y s3
  proof -
    from that(1) have "block_sane (?b\<lparr>env_data := Some (fill_block ?len w)\<rparr>)" using t by (auto intro: block_sane_data)
    moreover from this have "block_sane (?b\<lparr>env_data := Some (fill_block ?len w), env_crc := y, dirty := False\<rparr>)"
      by (simp add: block_sane_def data_sane_def)
    ultimately show "touches i s (set_block i (?b\<lparr>env_data := Some (fill_block ?len w)\<rparr>) s3)"
      "touches i s (set_block i (?b\<lparr>env_data := Some (fill_block ?len w), env_crc := y, dirty := False\<rparr>) s3)"
      by (intro touches_set_block that(2) assms(1,2); use t in simp)+
  qed
  have geo: "touches i s (s2\<lparr>counter := c, mtd := m2\<rparr>)"
    if "ra_mtd_write_nm (io1 e) (km e) (mtd s2) a x = Inr (r1, m1)"
       "ra_mtd_write_nm (io2 e) (km e) m1 a' x' = Inr (r2, m2)" for a x r1 m1 a' x' r2 m2 c
    using ra_mtd_write_nm_geometry [OF that(1) assms(3)] ra_mtd_write_nm_geometry [OF that(2) assms(3)] t
    by (intro touches_mtd) simp_all
  have t2: "touches i s (s2\<lparr>counter := c\<rparr>)" for c using t by simp
  have ts: "touches i s s2" using t by simp
  show ?thesis
    using assms(2,4) d
    by (auto simp: nvram_commit_def Let_def ts ENOMEM_def put [OF _ t2] put [OF _ geo]
        dest!: put_entries_length split: option.splits if_splits)
qed

lemma cache_sane_clear: "cache_sane c \<Longrightarrow> cache_sane (map (\<lambda>_. empty_entry) c)"
  by (auto simp: cache_sane_def list_all_iff)

lemma ra_nvram_close_touches:
  assumes "nv_ok s" and "index_ok i" and "ra_nvram_close i s = Inr (r, s')"
  shows "touches i s s' \<and> r = 0 \<and> mtd s' = mtd s"
proof (cases "valid (block s i)")
  case False
  then show ?thesis using assms touches_refl [OF assms(1,2)] by (auto simp: ra_nvram_close_def)
next
  case True
  let ?b = "(block s i)\<lparr>cache := map (\<lambda>_. empty_entry) (cache (block s i))\<rparr>"
  note b = touches_block [OF touches_refl [OF assms(1,2)]]
  have "block_sane ?b" using b by (simp add: block_sane_def data_sane_def cache_sane_clear)
  then have "touches i s (set_block i ?b (s\<lparr>sem_held := True\<rparr>))"
    by (intro touches_set_block assms(1,2)) (use b touches_refl [OF assms(1,2)] in auto)
  then show ?thesis
    using assms(2,3) True by (auto simp: ra_nvram_close_def Let_def dest!: down_InrD)
qed

lemma nvram_clear_touches:
  assumes "nv_ok s" and "index_ok i" and "allocs (km e)"
    and "nvram_clear e i s = Inr (r, s')"
  shows "touches i s s' \<and> (sem_held s' \<longrightarrow> r = - ENOMEM)"
proof -
  obtain r1 s1 where c: "ra_nvram_close i s = Inr (r1, s1)" and d: "\<not> sem_held s1"
    using assms(2,4) by (auto simp: nvram_clear_def dest!: down_InrD)
  let ?s2 = "s1\<lparr>sem_held := True\<rparr>" and ?b = "block s1 i"
  let ?d = "replicate (flash_max_len ?b - 4) (CHR 0xFF)"
  have t1: "touches i s s1" using ra_nvram_close_touches [OF assms(1,2) c] by simp
  then have b: "block_sane ?b" "geom_ok ?b (fb_init ! nat i)" by (auto dest: touches_block)
  have ok: "block_sane (?b\<lparr>env_data := Some ?d, env_crc := y, dirty := False\<rparr>)" for y
    using b by (simp add: block_sane_def data_sane_def)
  have geo: "touches i s (?s2\<lparr>mtd := m2\<rparr>)"
    if "ra_mtd_write_nm (io1 e) (km e) (mtd s1) a x = Inr (r1, m1)"
       "ra_mtd_write_nm (io2 e) (km e) m1 a' x' = Inr (r2, m2)" for a x r1 m1 a' x' r2 m2
    using ra_mtd_write_nm_geometry [OF that(1) assms(3)] ra_mtd_write_nm_geometry [OF that(2) assms(3)] t1
    by (intro touches_mtd) simp_all
  have put: "touches i s (set_block i (?b\<lparr>env_data := Some ?d, env_crc := y, dirty := False\<rparr>) s3)"
    if "touches i s s3" for y s3
    by (intro touches_set_block that assms(1,2) ok) (use b in simp)
  show ?thesis
    using assms(2,4) c d t1
    by (auto simp: nvram_clear_def Let_def ENOMEM_def put [OF geo]
        split: option.splits if_splits)
qed

lemma nvram_getall_touches:
  assumes "nv_ok s" and "index_ok i" and "allocs (km e)"
    and "nvram_getall e i s = Inr (r, s')"
  shows "touches i s s' \<and> (sem_held s' \<longrightarrow> r = - ENOMEM)"
proof -
  obtain s1 s2 where d: "down s = Inr s1" "check_valid e i s1 = Inr s2"
    using assms(2,4) by (auto simp: nvram_getall_def Let_def)
  note t = enter_touches [OF assms(1-3) d]
  have put: "touches i s (set_block i
       ((block s2 i)\<lparr>env_data := Some (fill_block (flash_max_len (block s2 i) - 4) w)\<rparr>) s2)"
    if "length w \<le> flash_max_len (block s2 i) - 4" for w
    by (intro touches_set_block assms(1,2)) (use t that in \<open>auto intro: block_sane_data\<close>)
  show ?thesis
    using assms(2,4) d t
    by (auto simp: nvram_getall_def Let_def ENOMEM_def put
        dest!: put_entries_length split: option.splits if_splits)
qed

section \<open>Runs of the driver\<close>

text \<open>The strings of a request are C strings (they come from \<open>strncpy_from_user\<close>).\<close>

fun req_ok :: "ioctl_req \<Rightarrow> bool" where
  "req_ok (IoGet i n k) = is_cstr n"
| "req_ok (IoSet i n v) = (is_cstr n \<and> is_cstr v)"
| "req_ok _ = True"

lemma touches_or_same:
  assumes "nv_ok s" and "index_ok i \<Longrightarrow> touches i s s1 \<and> X" and "\<not> index_ok i \<Longrightarrow> s1 = s"
  shows "nv_ok s1"
  using assms touches_nv_ok by (cases "index_ok i") blast+

lemma ioctl_nv_ok:
  assumes "nv_ok s" and "allocs (km e)" and "req_ok req"
    and "ralink_nvram_ioctl e u req s = Inr (r, out, s')"
  shows "nv_ok s'"
proof -
  have get: "nv_ok s1" if "nvram_get e i n s = Inr (p, s1)" for i n p s1
    by (rule touches_or_same [OF assms(1) nvram_get_touches [OF assms(1) _ assms(2) that]])
      (use that in \<open>simp_all add: nvram_get_def\<close>)
  have set: "nv_ok s1" if "nvram_set e i n v s = Inr (p, s1)" "is_cstr n" "is_cstr v" for i n v p s1
    by (rule touches_or_same [OF assms(1) nvram_set_touches [OF assms(1) _ assms(2) that(2,3,1)]])
      (use that in \<open>simp_all add: nvram_set_def\<close>)
  have commit: "nv_ok s1" if "nvram_commit e i s = Inr (p, s1)" for i p s1
    by (rule touches_or_same [OF assms(1) nvram_commit_touches [OF assms(1) _ assms(2) that]])
      (use that in \<open>simp_all add: nvram_commit_def\<close>)
  have clear: "nv_ok s1" if "nvram_clear e i s = Inr (p, s1)" for i p s1
    by (rule touches_or_same [OF assms(1) nvram_clear_touches [OF assms(1) _ assms(2) that]])
      (use that in \<open>simp_all add: nvram_clear_def\<close>)
  have getall: "nv_ok s1" if "nvram_getall e i s = Inr (p, s1)" for i p s1
    by (rule touches_or_same [OF assms(1) nvram_getall_touches [OF assms(1) _ assms(2) that]])
      (use that in \<open>simp_all add: nvram_getall_def\<close>)
  show ?thesis
  proof (cases req)
    case (IoGet i n k)
    then show ?thesis using assms(3,4) by (auto simp: ralink_nvram_ioctl_def Let_def intro: get split: if_splits)
  next
    case (IoGetAll i)
    then show ?thesis using assms(3,4) by (auto simp: ralink_nvram_ioctl_def intro: getall split: if_splits)
  next
    case (IoSet i n v)
    then show ?thesis using assms(1,3,4)
      by (auto simp: ralink_nvram_ioctl_def intro: set split: option.splits if_splits)
  next
    case (IoCommit i)
    then show ?thesis using assms(3,4) by (auto simp: ralink_nvram_ioctl_def intro: commit)
  next
    case (IoClear i)
    then show ?thesis using assms(3,4) by (auto simp: ralink_nvram_ioctl_def intro: clear)
  next
    case IoOther
    then show ?thesis using assms(1,4) by (simp add: ralink_nvram_ioctl_def)
  qed
qed

definition part_ok :: "mtd_info \<Rightarrow> bool" where
  "part_ok m \<longleftrightarrow> mtd_ok m \<and> 0xf000 \<le> mtd_erasesize m"

lemma block_cases:
  assumes "i < FLASH_BLOCK_NUM"
  obtains "i = 0" | "i = 1" | "i = 2" | "i = 3"
  using assms unfolding FLASH_BLOCK_NUM_def by linarith

lemma fb_nth:
  "i < FLASH_BLOCK_NUM \<Longrightarrow> cache (fb_init ! i) = layout [] \<and> env_data (fb_init ! i) = None
     \<and> \<not> valid (fb_init ! i) \<and> 4 < flash_max_len (fb_init ! i)
     \<and> flash_offset (fb_init ! i) + flash_max_len (fb_init ! i) \<le> 0xf000"
  by (erule block_cases) (simp_all add: fb_init_def fb_block_def layout_def ENV_BLK_SIZE_def)

lemma power_on_nv_ok: "part_ok m \<Longrightarrow> nv_ok (power_on m)"
  using fb_nth
  by (auto simp: part_ok_def nv_ok_def power_on_def block_sane_def data_sane_def geom_ok_def fb_init_def
      FLASH_BLOCK_NUM_def cstr_pairs_def cache_wf_sane)

text \<open>
  A run: the machine is switched on, then requests are served in any order, with any outcome of
  allocations (\<open>kmalloc\<close> and every \<open>kstrdup\<close>), user copies and flash accesses; the power may be cut and the driver loaded again
  at any time.
\<close>

inductive nv_reach :: "mtd_info \<Rightarrow> nvram \<Rightarrow> bool" for m0 :: mtd_info where
  start: "nv_reach m0 (power_on m0)"
| serve: "nv_reach m0 s \<Longrightarrow> allocs (km e) \<Longrightarrow> req_ok req \<Longrightarrow>
    ralink_nvram_ioctl e u req s = Inr (r, out, s') \<Longrightarrow> nv_reach m0 s'"
| reboot: "nv_reach m0 s \<Longrightarrow> (\<And>k. allocs (km (es k))) \<Longrightarrow>
    ra_nvram_init r es (power_on (mtd s)) = Inr (r', s') \<Longrightarrow> nv_reach m0 s'"

inductive_cases nv_reachE: "nv_reach m s"

lemma init_blocks_nv_ok:
  "init_blocks es is s = Inr s' \<Longrightarrow> nv_ok s \<Longrightarrow> (\<And>k. allocs (km (es k))) \<Longrightarrow>
   list_all (\<lambda>i. i < FLASH_BLOCK_NUM) is \<Longrightarrow> nv_ok s' \<and> mtd s' = mtd s"
proof (induction "is" arbitrary: s)
  case Nil
  then show ?case by simp
next
  case (Cons i "is")
  have i: "index_ok (int i)" using Cons.prems(4) by (simp add: index_ok_def)
  obtain r s1 where s1: "init_nvram_block (es i) (int i) s = Inr (r, s1)" "init_blocks es is s1 = Inr s'"
    using Cons.prems(1) by auto
  have "touches (int i) s s1 \<and> mtd s1 = mtd s"
    using init_nvram_block_touches [OF Cons.prems(2) i _ s1(1)] Cons.prems(3) by blast
  then have "nv_ok s1" "mtd s1 = mtd s" using touches_nv_ok [OF Cons.prems(2) i] by auto
  with Cons.IH [OF s1(2)] Cons.prems(3,4) show ?case by simp
qed

lemma nv_ok_part_ok: "nv_ok s \<Longrightarrow> part_ok (mtd s)"
  by (simp add: nv_ok_def part_ok_def)

lemma ra_nvram_init_nv_ok:
  assumes "ra_nvram_init r es (power_on m) = Inr (r', s')" and "part_ok m"
    and "\<And>k. allocs (km (es k))"
  shows "nv_ok s'"
proof (cases "r < 0")
  case True
  then show ?thesis using assms(1) power_on_nv_ok [OF assms(2)] by (simp add: ra_nvram_init_def)
next
  case False
  let ?s = "(power_on m)\<lparr>sem_held := True\<rparr>"
  have ok: "nv_ok ?s" using power_on_nv_ok [OF assms(2)] by (simp add: nv_ok_def)
  obtain s1 where s1: "init_blocks es [0..<FLASH_BLOCK_NUM] ?s = Inr s1" "s' = up s1"
    using assms(1) False by (auto simp: ra_nvram_init_def Let_def power_on_def down_def)
  have "nv_ok s1 \<and> mtd s1 = mtd ?s"
    by (rule init_blocks_nv_ok [OF s1(1) ok assms(3)]) (simp add: list_all_iff)
  then show ?thesis unfolding s1(2) nv_ok_def up_sel by blast
qed

lemma nv_up_counter: "nv_up s \<Longrightarrow> nv_up (s\<lparr>counter := x\<rparr>)"
  by (simp add: nv_up_def nv_ok_def)

lemma store_counter [simp]: "store (s\<lparr>counter := x\<rparr>) = store s"
  by (simp add: fun_eq_iff store_def)

end
