(* ===== verification/Nvram_Persist.thy ===== *)
theory Nvram_Persist
  imports Nvram_Store
begin

text \<open>
  Persistence of the kernel configuration store: what a block's flash region holds after a
  commit, what a boot makes of it, and what the failure paths of commit, clear and listing lose.
  The flash facts come from the interpretation \<open>config_flash\<close> of the interface \<open>flash_region\<close>.
\<close>

section \<open>Flash images\<close>

definition blk_off :: "int \<Rightarrow> nat" where
  "blk_off i = flash_offset (fb_init ! nat i)"

definition data_len :: "int \<Rightarrow> nat" where
  "data_len i = flash_max_len (fb_init ! nat i) - 4"

text \<open>Pairs that fit block \<open>i\<close> and can be read back.\<close>

definition storable :: "int \<Rightarrow> (string \<times> string) list \<Rightarrow> bool" where
  "storable i es \<longleftrightarrow> cstr_pairs es \<and> names_ok es \<and> length es \<le> MAX_CACHE_ENTRY
     \<and> length (ser es) < data_len i"

definition payload :: "int \<Rightarrow> (string \<times> string) list \<Rightarrow> byte list" where
  "payload i es = fill_block (data_len i) (ser es)"

definition crc_of :: "byte list \<Rightarrow> u32" where
  "crc_of d = nv_crc32 0 (Some d)"

definition flash_image :: "mtd_info \<Rightarrow> int \<Rightarrow> (string \<times> string) list \<Rightarrow> bool" where
  "flash_image m i es \<longleftrightarrow> storable i es
     \<and> config_read m (blk_off i) 4 = le32 (crc_of (payload i es))
     \<and> config_read m (blk_off i + 4) (data_len i) = payload i es"

lemma blk_bounds:
  assumes "index_ok i" and "part_ok m"
  shows "blk_off i + 4 + data_len i \<le> config_cap m" "0 < data_len i"
    "flash_max_len (fb_init ! nat i) = data_len i + 4"
  using fb_nth [OF index_ok_nat [OF assms(1)]] assms(2)
  by (auto simp: blk_off_def data_len_def part_ok_def config_cap_def)

text \<open>The four regions do not overlap.\<close>

lemma blk_disjoint:
  assumes "index_ok i" and "index_ok j" and "i \<noteq> j"
  shows "blk_off i + 4 + data_len i \<le> blk_off j \<or> blk_off j + 4 + data_len j \<le> blk_off i"
proof -
  have "nat i \<noteq> nat j" using assms by (auto simp: index_ok_def)
  then show ?thesis
    using index_ok_nat [OF assms(1)] index_ok_nat [OF assms(2)]
    by (elim block_cases) (simp_all add: blk_off_def data_len_def fb_init_def fb_block_def ENV_BLK_SIZE_def)
qed

lemma length_payload [simp]: "storable i es \<Longrightarrow> length (payload i es) = data_len i"
  by (simp add: payload_def storable_def)

lemma config_cap_part [simp]: "part_ok m \<Longrightarrow> config_cap m = mtd_erasesize m"
  by (simp add: config_cap_def part_ok_def)

text \<open>What a commit writes: the CRC and the data of one block.\<close>

definition write_image :: "mtd_info \<Rightarrow> int \<Rightarrow> (string \<times> string) list \<Rightarrow> mtd_info" where
  "write_image m i es =
     config_flash.save m (blk_off i) (le32 (crc_of (payload i es))) (payload i es)"

lemma write_image_same:
  assumes "index_ok i" and "part_ok m" and "storable i es"
  shows "flash_image (write_image m i es) i es"
proof -
  note b = blk_bounds [OF assms(1,2)]
  have "config_read (write_image m i es) (blk_off i) (length (le32 (crc_of (payload i es))))
      = le32 (crc_of (payload i es))"
    unfolding write_image_def by (rule config_flash.save_header) (use b assms(3) in simp)
  moreover have "config_read (write_image m i es)
      (blk_off i + length (le32 (crc_of (payload i es)))) (length (payload i es)) = payload i es"
    unfolding write_image_def by (rule config_flash.save_body) (use b assms(3) in simp)
  ultimately show ?thesis using assms(3) by (simp add: flash_image_def)
qed

lemma write_image_other:
  assumes "index_ok i" and "part_ok m" and "storable i es" and "o2 + n \<le> mtd_erasesize m"
    and "blk_off i + 4 + data_len i \<le> o2 \<or> o2 + n \<le> blk_off i"
  shows "config_read (write_image m i es) o2 n = config_read m o2 n"
  unfolding write_image_def using blk_bounds [OF assms(1,2)] assms(2-)
  by (intro config_flash.save_other) simp_all

lemma write_image_keeps:
  assumes "index_ok i" and "index_ok j" and "i \<noteq> j" and "part_ok m" and "storable i es"
  shows "flash_image (write_image m i es) j es' \<longleftrightarrow> flash_image m j es'"
  using blk_disjoint [OF assms(1-3)] blk_bounds [OF assms(2,4)] assms(4)
  by (auto simp: flash_image_def write_image_other [OF assms(1,4,5)])

lemma config_write_ok:
  "part_ok m \<Longrightarrow> off + length bs \<le> mtd_erasesize m \<Longrightarrow> part_ok (config_write m off bs)"
  by (simp add: part_ok_def config_write_eq)

lemma write_image_ok:
  assumes "index_ok i" and "part_ok m" and "storable i es"
  shows "part_ok (write_image m i es)"
proof -
  note b = blk_bounds [OF assms(1,2)]
  have "part_ok (config_write m (blk_off i) (le32 (crc_of (payload i es))))"
    by (rule config_write_ok) (use b assms(2) in simp_all)
  moreover have "mtd_erasesize (config_write m (blk_off i) (le32 (crc_of (payload i es)))) = mtd_erasesize m"
    using b assms(2) by (simp add: config_write_eq part_ok_def)
  ultimately show ?thesis
    unfolding write_image_def config_flash.save_def
    by (intro config_write_ok) (use b assms(2,3) in simp_all)
qed

section \<open>Commit\<close>

lemma ra_mtd_write_config:
  assumes "part_ok m" and "env_fine e" and "off + length bs \<le> mtd_erasesize m"
  shows "ra_mtd_write_nm io_fine (km e) m off bs = Inr (0, config_write m off bs)"
proof -
  obtain junk where "km e (mtd_erasesize m) = Some junk" using assms(2) by (auto simp: env_fine_def)
  then show ?thesis
    using assms by (simp add: ra_mtd_write_nm_fine config_write_eq part_ok_def env_fine_def)
qed

lemma geom_okD:
  "geom_ok b (fb_init ! nat i) \<Longrightarrow> flash_offset b = blk_off i \<and> flash_max_len b - 4 = data_len i"
  by (simp add: geom_ok_def blk_off_def data_len_def)

lemma nv_up_part: "nv_up s \<Longrightarrow> part_ok (mtd s)"
  by (simp add: nv_up_def nv_ok_part_ok)

lemma nvram_commit_eq:
  assumes up: "nv_up s" and i: "index_ok i" and e: "env_fine e" and d: "dirty (block s i)"
    and c: "cache (block s i) = layout es" and st: "storable i es"
  shows "nvram_commit e i s = Inr (0, set_block i
     ((block s i)\<lparr>env_data := Some (payload i es), env_crc := crc_of (payload i es), dirty := False\<rparr>)
     (s\<lparr>counter := counter s + 1, mtd := write_image (mtd s) i es\<rparr>))"
proof -
  note b = nv_up_blockD [OF up i]
  note m = nv_up_part [OF up]
  note bb = blk_bounds [OF i m]
  note g = geom_okD [OF b(4)]
  have ml: "flash_max_len (block s i) = data_len i + 4"
    using b(4) bb(3) by (simp add: geom_ok_def)
  have put: "put_entries (data_len i + 4) (data_len i) (layout es) [] = Inr (True, ser es)"
    unfolding layout_def using st
    by (subst put_entries_fits) (simp_all add: storable_def)
  have w1: "ra_mtd_write_nm (io1 e) (km e) (mtd s) (blk_off i) (le32 (crc_of (payload i es)))
      = Inr (0, config_write (mtd s) (blk_off i) (le32 (crc_of (payload i es))))"
    using e m bb by (simp add: ra_mtd_write_config env_fine_def)
  let ?m1 = "config_write (mtd s) (blk_off i) (le32 (crc_of (payload i es)))"
  have m1: "part_ok ?m1" "mtd_erasesize ?m1 = mtd_erasesize (mtd s)"
    using bb m by (simp_all add: config_write_ok) (simp add: config_write_eq part_ok_def)
  have w2: "ra_mtd_write_nm (io2 e) (km e) ?m1 (blk_off i + 4) (payload i es)
      = Inr (0, write_image (mtd s) i es)"
    using e m m1 bb st
    by (simp add: ra_mtd_write_config env_fine_def write_image_def config_flash.save_def)
  obtain x where x: "(case env_data (block s i) of None \<Rightarrow> km e (data_len i) | Some d \<Rightarrow> Some d) = Some x"
    using e by (cases "env_data (block s i)") (auto simp: env_fine_def)
  have upd: "up (set_block i z (s\<lparr>sem_held := True, counter := counter s + 1, mtd := y\<rparr>))
      = set_block i z (s\<lparr>counter := counter s + 1, mtd := y\<rparr>)" for z y
    using b(5) by (simp add: up_def set_block_def)
  have len: "\<not> data_len i \<le> length (ser es)" using st by (simp add: storable_def)
  show ?thesis
    using b i d c x w1 w2 len
    by (simp add: nvram_commit_def ml g Let_def put upd payload_def crc_of_def
        cong del: option.case_cong_weak)
qed

section \<open>Boot\<close>

lemma parse_payload:
  assumes "storable i es"
  shows "\<exists>q. parse_env MAX_CACHE_ENTRY (payload i es) = Inr (es, q) \<and> length q = data_len i"
proof -
  have "0 < MAX_CACHE_ENTRY" by (simp add: MAX_CACHE_ENTRY_def)
  then show ?thesis
    using parse_env_padding [of es MAX_CACHE_ENTRY "data_len i - length (ser es)"] assms
    by (auto simp: payload_def fill_block_def storable_def)
qed

text \<open>A boot's view of one block: present, initialised, with exactly these pairs.\<close>

definition loaded :: "int \<Rightarrow> (string \<times> string) list \<Rightarrow> block_t \<Rightarrow> bool" where
  "loaded i es b \<longleftrightarrow> cache b = layout es \<and> valid b \<and> \<not> dirty b \<and> geom_ok b (fb_init ! nat i)
     \<and> block_ok b \<and> env_data b \<noteq> None"

lemma init_image:
  assumes i: "index_ok i" and e: "env_fine e" and m: "part_ok (mtd s)" and im: "flash_image (mtd s) i es"
    and l: "nat i < length (fb s)" and b: "block s i = fb_init ! nat i"
  shows "\<exists>b. init_nvram_block e i s = Inr (0, set_block i b s) \<and> loaded i es b"
proof -
  note bb = blk_bounds [OF i m]
  note n = fb_nth [OF index_ok_nat [OF i]]
  have st: "storable i es" using im by (simp add: flash_image_def)
  obtain q where q: "parse_env MAX_CACHE_ENTRY (payload i es) = Inr (es, q)" "length q = data_len i"
    using parse_payload [OF st] by blast
  obtain junk where junk: "km e (data_len i) = Some junk" using e unfolding env_fine_def by blast
  then have lj: "length junk = data_len i" using e by (simp add: env_fine_def allocs_def)
  have ok: "mtd_ok (mtd s)" "mtd_erasesize (mtd s) \<le> length (mtd_bytes (mtd s))"
    using m by (auto simp: part_ok_def mtd_ok_def)
  have r1: "ra_mtd_read_nm io_fine (mtd s) (blk_off i) 4 (le32 c)
      = Inr (0, le32 (crc_of (payload i es)))" for c
    using im bb ok m by (simp add: flash_image_def config_read_eq)
  have r2: "ra_mtd_read_nm io_fine (mtd s) (blk_off i + 4) (data_len i) junk = Inr (0, payload i es)"
    using im bb ok m lj by (simp add: flash_image_def config_read_eq)
  have io: "io1 e = io_fine" "io2 e = io_fine" using e by (simp_all add: env_fine_def)
  have g: "flash_offset (fb_init ! nat i) = blk_off i" "flash_max_len (fb_init ! nat i) = data_len i + 4"
    using bb by (simp_all add: blk_off_def)
  have dup: "dup_entries e es = map mk_entry es"
    using e by (simp add: env_fine_def dup_entries_fine)
  have put: "put_slice (layout []) 0 (map mk_entry es) = layout es"
    using put_layout [of es "[]"] st by (simp add: storable_def)
  let ?b = "(fb_init ! nat i)\<lparr>env_crc := crc_of (payload i es), env_data := Some q,
      cache := layout es, valid := True, dirty := False\<rparr>"
  have "init_nvram_block e i s = Inr (0, set_block i ?b s)"
    using i b n r1 r2 junk q
    by (simp add: init_nvram_block_def Let_def g io crc_of_def dup put)
  moreover have "loaded i es ?b"
    using st q g by (simp add: loaded_def block_ok_def geom_ok_def storable_def cache_wf_layout)
  ultimately show ?thesis by blast
qed

lemma block_set_int:
  "block (set_block (int k) b s) (int j) = (if j = k \<and> k < length (fb s) then b else block s (int j))"
  by (cases "k < length (fb s)") (auto simp: block_def set_block_def list_update_beyond)

text \<open>Booting from four good images.\<close>

lemma init_blocks_images:
  assumes "list_all (\<lambda>k. k < FLASH_BLOCK_NUM \<and> flash_image (mtd s) (int k) (img k)
      \<and> block s (int k) = fb_init ! k \<and> env_fine (es k)) ks"
    and "distinct ks" and "part_ok (mtd s)" and "length (fb s) = FLASH_BLOCK_NUM"
  shows "\<exists>s'. init_blocks es ks s = Inr s' \<and> (\<forall>k \<in> set ks. loaded (int k) (img k) (block s' (int k)))
     \<and> (\<forall>k. k \<notin> set ks \<longrightarrow> block s' (int k) = block s (int k)) \<and> mtd s' = mtd s
     \<and> length (fb s') = length (fb s) \<and> sem_held s' = sem_held s"
  using assms
proof (induction ks arbitrary: s)
  case Nil
  then show ?case by simp
next
  case (Cons k ks)
  have i: "index_ok (int k)" using Cons.prems(1) by (simp add: index_ok_def)
  obtain b where b: "init_nvram_block (es k) (int k) s = Inr (0, set_block (int k) b s)"
    "loaded (int k) (img k) b"
    using init_image [OF i, of "es k" s "img k"] Cons.prems by auto
  let ?s = "set_block (int k) b s"
  have prem: "list_all (\<lambda>j. j < FLASH_BLOCK_NUM \<and> flash_image (mtd ?s) (int j) (img j)
      \<and> block ?s (int j) = fb_init ! j \<and> env_fine (es j)) ks"
    using Cons.prems(1,2) by (auto simp: list_all_iff block_set_int)
  obtain s' where s': "init_blocks es ks ?s = Inr s'"
    "\<forall>j \<in> set ks. loaded (int j) (img j) (block s' (int j))"
    "\<forall>j. j \<notin> set ks \<longrightarrow> block s' (int j) = block ?s (int j)" "mtd s' = mtd s"
    "length (fb s') = length (fb s)" "sem_held s' = sem_held s"
    using Cons.IH [OF prem] Cons.prems by auto
  have "block s' (int k) = b" using s'(3) Cons.prems by simp
  with s' b show ?case by auto
qed

lemma boot_images:
  assumes "part_ok m" and "\<And>k. env_fine (es k)" and "\<And>i. index_ok i \<Longrightarrow> flash_image m i (img (nat i))"
  shows "\<exists>s. ra_nvram_init 0 es (power_on m) = Inr (0, s) \<and> nv_up s \<and> mtd s = m
     \<and> (\<forall>i. index_ok i \<longrightarrow> loaded i (img (nat i)) (block s i))"
proof -
  let ?s = "(power_on m)\<lparr>sem_held := True\<rparr>"
  have len: "length (fb ?s) = FLASH_BLOCK_NUM"
    by (simp add: power_on_def fb_init_def FLASH_BLOCK_NUM_def)
  have ix: "index_ok (int k) \<longleftrightarrow> k < FLASH_BLOCK_NUM" for k by (simp add: index_ok_def)
  have "list_all (\<lambda>k. k < FLASH_BLOCK_NUM \<and> flash_image (mtd ?s) (int k) (img k)
      \<and> block ?s (int k) = fb_init ! k \<and> env_fine (es k)) [0..<FLASH_BLOCK_NUM]"
    using assms(2) assms(3) [of "int k" for k] by (auto simp: list_all_iff ix power_on_def block_def)
  then obtain s where s: "init_blocks es [0..<FLASH_BLOCK_NUM] ?s = Inr s"
    "\<forall>k < FLASH_BLOCK_NUM. loaded (int k) (img k) (block s (int k))" "mtd s = m"
    "length (fb s) = FLASH_BLOCK_NUM"
    using init_blocks_images [of ?s img es "[0..<FLASH_BLOCK_NUM]"] assms(1) len
    by (auto simp: power_on_def)
  have all: "loaded i (img (nat i)) (block s i)" if "index_ok i" for i
    using s(2) index_ok_nat [OF that] that by (auto simp: index_ok_def)
  have "nv_ok s"
    using s assms(1) by (auto simp: nv_ok_def part_ok_def loaded_def block_def block_ok_sane)
  moreover have "valid (fb s ! k) \<and> block_ok (fb s ! k)" if "k < FLASH_BLOCK_NUM" for k
    using s(2) that by (simp add: loaded_def block_def)
  ultimately have "nv_up (up s)" by (simp add: nv_up_def nv_ok_def)
  moreover have "ra_nvram_init 0 es (power_on m) = Inr (0, up s)"
    using s(1) by (simp add: ra_nvram_init_def power_on_def Let_def)
  ultimately show ?thesis using all s(3) by auto
qed

section \<open>Boot from a damaged block\<close>

lemma init_reads:
  assumes i: "index_ok i" and e: "env_fine e" and m: "part_ok (mtd s)"
    and b: "block s i = fb_init ! nat i"
  shows "init_nvram_block e i s =
     (let d = config_read (mtd s) (blk_off i + 4) (data_len i);
          crc = of_le32 (config_read (mtd s) (blk_off i) 4); b = (fb_init ! nat i)\<lparr>env_crc := crc\<rparr> in
      if crc_of d \<noteq> crc then
        Inr (- 1, set_block i (b\<lparr>env_data := Some (replicate (data_len i) NUL), valid := True, dirty := False\<rparr>) s)
      else
        res_bind (parse_env MAX_CACHE_ENTRY d) (\<lambda>(es, d').
        Inr (0, set_block i (b\<lparr>env_data := Some d',
           cache := put_slice (layout []) 0 (dup_entries e es), valid := True, dirty := False\<rparr>) s)))"
proof -
  note bb = blk_bounds [OF i m]
  note n = fb_nth [OF index_ok_nat [OF i]]
  obtain junk where junk: "km e (data_len i) = Some junk" using e unfolding env_fine_def by blast
  then have lj: "length junk = data_len i" using e by (simp add: env_fine_def allocs_def)
  have ok: "mtd_ok (mtd s)" "mtd_erasesize (mtd s) \<le> length (mtd_bytes (mtd s))"
    using m by (auto simp: part_ok_def mtd_ok_def)
  have r1: "ra_mtd_read_nm io_fine (mtd s) (blk_off i) 4 (le32 c)
      = Inr (0, config_read (mtd s) (blk_off i) 4)" for c
    using bb ok m by (simp add: config_read_eq)
  have r2: "ra_mtd_read_nm io_fine (mtd s) (blk_off i + 4) (data_len i) junk
      = Inr (0, config_read (mtd s) (blk_off i + 4) (data_len i))"
    using bb ok m lj by (simp add: config_read_eq)
  have io: "io1 e = io_fine" "io2 e = io_fine" using e by (simp_all add: env_fine_def)
  have g: "flash_offset (fb_init ! nat i) = blk_off i" "flash_max_len (fb_init ! nat i) = data_len i + 4"
    using bb by (simp_all add: blk_off_def)
  show ?thesis
    using i b n r1 r2 junk by (simp add: init_nvram_block_def Let_def g io crc_of_def)
qed

lemma parse_erased: "0 < n \<Longrightarrow> parse_env n (replicate len (CHR 0xFF)) = Inl OutOfBounds"
  using strchr_overrun [of "replicate len (CHR 0xFF)" "CHR ''=''"]
  by (cases n) (auto simp: is_cstr_def)

lemma nvram_clear_eq:
  assumes up: "nv_up s" and i: "index_ok i" and e: "env_fine e"
  shows "\<exists>s'. nvram_clear e i s = Inr (0, s')
    \<and> mtd s' = config_flash.save (mtd s) (blk_off i)
        (le32 (crc_of (replicate (data_len i) (CHR 0xFF)))) (replicate (data_len i) (CHR 0xFF))
    \<and> store s' i = Map.empty \<and> \<not> sem_held s'"
proof -
  note b = nv_up_blockD [OF up i]
  note m = nv_up_part [OF up]
  note bb = blk_bounds [OF i m]
  note g = geom_okD [OF b(4)]
  let ?d = "replicate (data_len i) (CHR 0xFF)"
  let ?m1 = "config_write (mtd s) (blk_off i) (le32 (crc_of ?d))"
  have m1: "part_ok ?m1" "mtd_erasesize ?m1 = mtd_erasesize (mtd s)"
    using bb m by (simp_all add: config_write_ok) (simp add: config_write_eq part_ok_def)
  have w1: "ra_mtd_write_nm (io1 e) (km e) (mtd s) (blk_off i) (le32 (crc_of ?d)) = Inr (0, ?m1)"
    using e m bb by (simp add: ra_mtd_write_config env_fine_def)
  have w2: "ra_mtd_write_nm (io2 e) (km e) ?m1 (blk_off i + 4) ?d
      = Inr (0, config_flash.save (mtd s) (blk_off i) (le32 (crc_of ?d)) ?d)"
    using e m1 bb m by (simp add: ra_mtd_write_config env_fine_def config_flash.save_def)
  obtain x where x: "(case env_data (block s i) of None \<Rightarrow> km e (data_len i) | Some d \<Rightarrow> Some d) = Some x"
    using e by (cases "env_data (block s i)") (auto simp: env_fine_def)
  have "entries_of (map (\<lambda>_. empty_entry) c) = []" for c by (cases c) auto
  then show ?thesis
    using b i x w1 w2 g
    by (simp add: nvram_clear_def ra_nvram_close_def Let_def crc_of_def store_def
        cong del: option.case_cong_weak)
qed

lemma save_crc_body:
  assumes "index_ok i" and "part_ok m" and "length d = data_len i"
  shows "config_read (config_flash.save m (blk_off i) (le32 c) d) (blk_off i) 4 = le32 c"
    "config_read (config_flash.save m (blk_off i) (le32 c) d) (blk_off i + 4) (data_len i) = d"
    "part_ok (config_flash.save m (blk_off i) (le32 c) d)"
proof -
  note b = blk_bounds [OF assms(1,2)]
  show "config_read (config_flash.save m (blk_off i) (le32 c) d) (blk_off i) 4 = le32 c"
    using config_flash.save_header [of "blk_off i" "le32 c" d m] b assms by simp
  show "config_read (config_flash.save m (blk_off i) (le32 c) d) (blk_off i + 4) (data_len i) = d"
    using config_flash.save_body [of "blk_off i" "le32 c" d m] b assms by simp
  have m1: "part_ok (config_write m (blk_off i) (le32 c))"
    by (rule config_write_ok) (use b assms(2) in simp_all)
  have "mtd_erasesize (config_write m (blk_off i) (le32 c)) = mtd_erasesize m"
    using b assms(2) by (simp add: config_write_eq part_ok_def)
  with m1 show "part_ok (config_flash.save m (blk_off i) (le32 c) d)"
    unfolding config_flash.save_def by (intro config_write_ok) (use b assms(2,3) in simp_all)
qed

section \<open>A set with room, and a commit followed by a boot\<close>

lemma nvram_set_room:
  assumes "nv_up s" and "index_ok i" and "kstrdup_ok e" and "is_cstr n" and "is_cstr v"
    and c: "cache (block s i) = layout es" and es: "length es \<le> MAX_CACHE_ENTRY" "cstr_pairs es"
    and room: "room es n"
  shows "\<exists>s'. nvram_set e i n v s = Inr (0, s') \<and> nv_up s'
    \<and> cache (block s' i) = layout (assoc_set es n v) \<and> dirty (block s' i)
    \<and> (\<forall>j. index_ok j \<and> j \<noteq> i \<longrightarrow> block s' j = block s j) \<and> mtd s' = mtd s"
proof -
  note b = nv_up_blockD [OF assms(1,2)]
  let ?b = "(block s i)\<lparr>cache := layout (assoc_set es n v), dirty := True\<rparr>"
  let ?s = "set_block i ?b (s\<lparr>counter := counter s + 1\<rparr>)"
  have len: "length (assoc_set es n v) \<le> MAX_CACHE_ENTRY"
    using room es(1) by (auto simp: length_assoc_set room_def)
  have "block_ok ?b"
    using b(3) len cstr_pairs_assoc_set [OF es(2) assms(4,5)] by (simp add: block_ok_def)
  then have "nv_up ?s"
    using assms(1,2) b
    by (intro nv_up_set_block [OF assms(1,2)]) (auto simp: set_block_def nv_up_def nv_ok_def geom_ok_def)
  then show ?thesis
    using nvram_set_layout [OF assms(1-3) c es(1), of n v] room assms(2) b by (auto simp: index_ok_def)
qed

lemma commit_then_boot:
  assumes "nv_up s" and "index_ok i" and "env_fine e" and "\<And>k. env_fine (es k)"
    and "dirty (block s i)" and c: "cache (block s i) = layout ps" and st: "storable i ps"
    and other: "\<And>j. index_ok j \<Longrightarrow> j \<noteq> i \<Longrightarrow> flash_image (mtd s) j (img (nat j))"
  shows "\<exists>s1 s2. nvram_commit e i s = Inr (0, s1)
    \<and> ra_nvram_init 0 es (power_on (mtd s1)) = Inr (0, s2) \<and> nv_up s2
    \<and> (\<forall>j. index_ok j \<longrightarrow> loaded j (if j = i then ps else img (nat j)) (block s2 j))"
proof -
  note m = nv_up_part [OF assms(1)]
  let ?m = "write_image (mtd s) i ps" and ?img = "img(nat i := ps)"
  have ne: "nat j \<noteq> nat i" if "index_ok j" "j \<noteq> i" for j
    using that assms(2) by (simp add: index_ok_def nat_eq_iff)
  have "flash_image ?m j (?img (nat j))" if "index_ok j" for j
  proof (cases "j = i")
    case True
    then show ?thesis using write_image_same [OF assms(2) m st] by simp
  next
    case False
    then show ?thesis using write_image_keeps [OF assms(2) that _ m st] other ne that by simp
  qed
  from boot_images [OF write_image_ok [OF assms(2) m st], of es ?img, OF assms(4) this]
  obtain s2 where s2: "ra_nvram_init 0 es (power_on ?m) = Inr (0, s2)" "nv_up s2"
    "\<forall>j. index_ok j \<longrightarrow> loaded j (?img (nat j)) (block s2 j)" by blast
  have "loaded j (if j = i then ps else img (nat j)) (block s2 j)" if "index_ok j" for j
    using s2(3) [rule_format, OF that] ne [OF that] by (auto split: if_splits)
  then show ?thesis
    using nvram_commit_eq [OF assms(1-3,5) c st] s2(1,2) by (auto cong: rev_conj_cong)
qed

end
