(* ===== verification/Nvram_Properties.thy ===== *)
theory Nvram_Properties
  imports Nvram_Persist
begin

text \<open>
  The properties of the kernel configuration store, over the definitions of \<open>Nvram\<close> and the
  lemmas of \<open>Nvram_Store\<close> and \<open>Nvram_Persist\<close>, with the concrete machine their witnesses use: a
  partition of one 64 KiB erase block holding four empty images.
\<close>

section \<open>A concrete machine\<close>

definition demo_part :: mtd_info where
  "demo_part = \<lparr>mtd_bytes = replicate 0x10000 NUL, mtd_erasesize = 0x10000\<rparr>"

definition demo_flash :: mtd_info where
  "demo_flash = write_image (write_image (write_image (write_image demo_part 0 []) 1 []) 2 []) 3 []"

definition demo_env :: kenv where
  "demo_env = \<lparr>km = km_fine, kdup = (\<lambda>_. True), io1 = io_fine, io2 = io_fine\<rparr>"

definition demo_pairs :: "(string \<times> string) list" where
  "demo_pairs = [(''SSID1'', ''home''), (''Channel'', ''6'')]"

definition demo_state :: nvram where
  "demo_state = set_block 0 ((fb_init ! 0)\<lparr>cache := layout demo_pairs, valid := True, dirty := True\<rparr>)
     ((power_on demo_flash)\<lparr>fb := map (\<lambda>b. b\<lparr>valid := True\<rparr>) fb_init\<rparr>)"

lemma demo_env_fine [simp]: "env_fine demo_env"
  by (simp add: env_fine_def demo_env_def km_fine_def kstrdup_ok_def)

lemma demo_part_ok [simp]: "part_ok demo_part"
  by (simp add: part_ok_def mtd_ok_def demo_part_def)

lemma index_ok_num [simp]: "index_ok 0" "index_ok 1" "index_ok 2" "index_ok 3"
  by (simp_all add: index_ok_def FLASH_BLOCK_NUM_def)

lemma storable_nil [simp]: "index_ok i \<Longrightarrow> storable i []"
  using blk_bounds [of i demo_part]
  by (simp add: storable_def cstr_pairs_def names_ok_def)

lemma demo_flash_images: "part_ok demo_flash" "index_ok i \<Longrightarrow> flash_image demo_flash i []"
proof -
  let ?m1 = "write_image demo_part 0 []" and ?m2 = "write_image (write_image demo_part 0 []) 1 []"
  let ?m3 = "write_image (write_image (write_image demo_part 0 []) 1 []) 2 []"
  have ok: "part_ok ?m1" "part_ok ?m2" "part_ok ?m3" by (simp_all add: write_image_ok)
  then show "part_ok demo_flash" unfolding demo_flash_def by (simp add: write_image_ok)
  show "flash_image demo_flash i []" if "index_ok i"
  proof -
    have "i = 0 \<or> i = 1 \<or> i = 2 \<or> i = 3"
      using that by (auto simp: index_ok_def FLASH_BLOCK_NUM_def)
    then show ?thesis
      unfolding demo_flash_def
      by (elim disjE) (simp_all add: write_image_same write_image_keeps ok)
  qed
qed

lemma layout_nil_fb: "i < FLASH_BLOCK_NUM \<Longrightarrow> cache_wf (cache (fb_init ! i))"
  using fb_nth [of i] by (simp add: cstr_pairs_def)

lemma demo_pairs_storable [simp]: "storable 0 demo_pairs"
  by (simp add: storable_def demo_pairs_def cstr_pairs_def names_ok_def is_cstr_def data_len_def
      fb_init_def fb_block_def ENV_BLK_SIZE_def MAX_CACHE_ENTRY_def)

lemma demo_sel [simp]:
  "block demo_state 0 = (fb_init ! 0)\<lparr>cache := layout demo_pairs, valid := True, dirty := True\<rparr>"
  "mtd demo_state = demo_flash" "\<not> sem_held demo_state"
  "index_ok j \<Longrightarrow> j \<noteq> 0 \<Longrightarrow> block demo_state j = (fb_init ! nat j)\<lparr>valid := True\<rparr>"
proof -
  have len: "length fb_init = 4" by (simp add: fb_init_def)
  then show "block demo_state 0 = (fb_init ! 0)\<lparr>cache := layout demo_pairs, valid := True, dirty := True\<rparr>"
    "mtd demo_state = demo_flash" "\<not> sem_held demo_state"
    by (simp_all add: demo_state_def power_on_def block_def set_block_def)
  show "block demo_state j = (fb_init ! nat j)\<lparr>valid := True\<rparr>" if "index_ok j" "j \<noteq> 0"
    using that len index_ok_nat [of j]
    by (auto simp: demo_state_def power_on_def block_def set_block_def nth_list_update
        FLASH_BLOCK_NUM_def index_ok_def)
qed

lemma demo_up [simp]: "nv_up demo_state"
proof -
  have "fb demo_state = (map (\<lambda>b. b\<lparr>valid := True\<rparr>) fb_init)
      [0 := (fb_init ! 0)\<lparr>cache := layout demo_pairs, valid := True, dirty := True\<rparr>]"
    by (simp add: demo_state_def set_block_def power_on_def)
  moreover have "cache_wf (layout demo_pairs)"
    using demo_pairs_storable by (auto simp: storable_def)
  moreover have "length fb_init = FLASH_BLOCK_NUM" by (simp add: fb_init_def FLASH_BLOCK_NUM_def)
  moreover have "0 < FLASH_BLOCK_NUM" by (simp add: FLASH_BLOCK_NUM_def)
  ultimately show ?thesis
    using demo_flash_images(1) layout_nil_fb fb_nth
    by (auto simp: nv_up_def nv_ok_def part_ok_def nth_list_update block_ok_def block_sane_def data_sane_def cache_wf_sane geom_ok_def)
qed

section \<open>The store is one finite map per block\<close>

text \<open>C3. A set on a running store (all blocks initialised, the semaphore free, every cache a run of pairs), when
  its calls of \<open>kstrdup\<close> find memory, does exactly what it promises: the block's map gets the pair and the block
  becomes dirty, unless the name is new and all 500 cache entries are used, when it answers -1 and the map
  stays; no other block and no flash byte changes, and the store is running afterwards.  (The code does not
  look at the results of \<open>kstrdup\<close>; what a failure leaves is stated in \<open>nvram_set_without_memory\<close>.)\<close>

theorem nvram_set_refines_map:
  assumes "nv_up s" and "index_ok i" and "kstrdup_ok e" and "is_cstr n" and "is_cstr v"
  shows "\<exists>r s'. nvram_set e i n v s = Inr (r, s') \<and> nv_up s'
    \<and> (if store s i n \<noteq> None \<or> length (entries_of (cache (block s i))) < MAX_CACHE_ENTRY
       then r = 0 \<and> store s' i = (store s i)(n \<mapsto> v) \<and> dirty (block s' i)
       else r = - 1 \<and> store s' i = store s i)
    \<and> (\<forall>j. index_ok j \<and> j \<noteq> i \<longrightarrow> block s' j = block s j) \<and> mtd s' = mtd s"
proof -
  obtain es where es: "length es \<le> MAX_CACHE_ENTRY" "cstr_pairs es" "cache (block s i) = layout es"
    using nv_up_blockD(3) [OF assms(1,2)] by (auto simp: block_ok_def elim: cache_wfE)
  show ?thesis
  proof (cases "room es n")
    case False
    then show ?thesis
      using nvram_set_layout [OF assms(1,2,3) es(3,1), of n v] assms(1) es nv_up_counter [OF assms(1)]
      by (auto simp: room_def store_def)
  next
    case True
    from nvram_set_room [OF assms es(3,1,2) True] es(3) True show ?thesis
      by (auto simp: room_def store_def)
  qed
qed

theorem nvram_set_refines_map_witness:
  "\<exists>s'. nvram_set demo_env 0 ''SSID1'' ''guest'' demo_state = Inr (0, s') \<and> nv_up s'
     \<and> store s' 0 ''SSID1'' = Some ''guest''"
proof -
  have "store demo_state 0 ''SSID1'' = Some ''home''" by (simp add: store_def demo_pairs_def)
  then show ?thesis
    using nvram_set_refines_map [of demo_state 0 demo_env "''SSID1''" "''guest''"]
    by (auto simp: demo_env_def is_cstr_def kstrdup_ok_def)
qed

text \<open>A get on a running store returns the map's value for the name, and changes nothing but
  the access counter.\<close>

theorem nvram_get_reads_map:
  assumes "nv_up s" and "index_ok i"
  shows "nvram_get e i n s = Inr (store s i n, s\<lparr>counter := counter s + 1\<rparr>)"
  using assms by (rule nvram_get_eq)

theorem nvram_get_reads_map_witness:
  "nvram_get demo_env 0 ''Channel'' demo_state
     = Inr (Some ''6'', demo_state\<lparr>counter := counter demo_state + 1\<rparr>)"
  using nvram_get_reads_map [of demo_state 0 demo_env "''Channel''"]
  by (simp add: store_def demo_pairs_def)

text \<open>A set without memory for the value: the entry keeps the name and a null value, the block is dirty, and
  the answer is 0; the store's map loses the pair and every pair behind it, which a commit then leaves out.\<close>

lemma nvram_set_without_memory:
  assumes "nv_up s" and "index_ok i" and "cache (block s i) = layout (xs @ (n, u) # ys)" and "n \<notin> fst ` set xs"
    and "length (xs @ (n, u) # ys) \<le> MAX_CACHE_ENTRY" and "\<not> kdup e 0"
  shows "\<exists>s'. nvram_set e i n v s = Inr (0, s') \<and> dirty (block s' i) \<and> store s' i = map_of xs"
proof -
  note b = nv_up_blockD [OF assms(1,2)]
  have "find_index (\<lambda>p. fst p = n) (xs @ (n, u) # ys) = Some (length xs)"
    using assms(4) by (induction xs) auto
  then have idx: "cache_idx i n (s\<lparr>sem_held := True, counter := counter s + 1\<rparr>) = Some (length xs)"
    by (simp add: cache_idx_def assms(3) cache_scan_layout)
  let ?x = "(mk_entry (n, u))\<lparr>c_value := None\<rparr>"
  have "(layout (xs @ (n, u) # ys))[length xs := ?x]
      = map mk_entry xs @ ?x # map mk_entry ys @ replicate (MAX_CACHE_ENTRY - length (xs @ (n, u) # ys)) empty_entry"
    by (simp add: layout_def list_update_append)
  then have "entries_of ((layout (xs @ (n, u) # ys))[length xs := ?x]) = xs" by simp
  moreover have "layout (xs @ (n, u) # ys) ! length xs = mk_entry (n, u)" by simp
  ultimately show ?thesis
    using b assms(2,3,6) idx by (simp add: nvram_set_def kstrdup_def store_def Let_def)
qed

lemma reach_nv_ok: "nv_reach m s \<Longrightarrow> part_ok m \<Longrightarrow> nv_ok s"
proof (induction rule: nv_reach.induct)
  case start
  then show ?case by (rule power_on_nv_ok)
next
  case (serve s e req u r out s')
  then show ?case by (blast intro: ioctl_nv_ok)
next
  case (reboot s es r r' s')
  then show ?case by (blast intro: ra_nvram_init_nv_ok nv_ok_part_ok)
qed


text \<open>The run of the witness: the block cannot be loaded for want of memory and its state is
  ignored, yet a set is accepted; its value could not be copied and is null.\<close>

definition low_env :: kenv where
  "low_env = \<lparr>km = (\<lambda>n. if n = MAX_VALUE_LEN then Some (replicate n NUL) else None),
     kdup = (\<lambda>k. k = 0), io1 = io_fine\<lparr>io_dev := Some (- 19)\<rparr>, io2 = io_fine\<rparr>"

lemma low_run:
  "\<exists>s. nv_reach demo_part s \<and> ralink_nvram_ioctl low_env True (IoSet 0 ''SSID1'' ''home'') (power_on demo_part) = Inr (0, None, s)
     \<and> \<not> valid (block s 0) \<and> dirty (block s 0) \<and> \<not> sem_held s"
proof -
  have "\<exists>s. ralink_nvram_ioctl low_env True (IoSet 0 ''SSID1'' ''home'') (power_on demo_part) = Inr (0, None, s)
      \<and> \<not> valid (block s 0) \<and> dirty (block s 0) \<and> \<not> sem_held s"
    using first_free_used [of "[]" 500] cache_scan_layout [of "''SSID1''" "[]"]
    by (simp add: layout_def ralink_nvram_ioctl_def nvram_set_def low_env_def power_on_def down_def check_valid_def
        init_nvram_block_def MAX_VALUE_LEN_def ENV_BLK_SIZE_def block_def fb_init_def fb_block_def
        ra_mtd_read_nm_def io_fine_def set_block_def Let_def cache_idx_def MAX_CACHE_ENTRY_def up_def
        split: option.splits)
  then obtain s where s: "ralink_nvram_ioctl low_env True (IoSet 0 ''SSID1'' ''home'') (power_on demo_part) = Inr (0, None, s)"
    "\<not> valid (block s 0)" "dirty (block s 0)" "\<not> sem_held s" by blast
  have "nv_reach demo_part s"
    by (rule nv_reach.serve [OF nv_reach.start _ _ s(1)]) (simp_all add: low_env_def allocs_def is_cstr_def split: if_splits)
  with s show ?thesis by blast
qed


section \<open>Persistence\<close>

text \<open>C1. A commit survives a restart: on a running store, when memory can be allocated and the flash accesses
  succeed both now and at the next boot, when the pairs of the changed block fit its region and no name holds an
  equals sign, and when each of the other three regions holds an image as a commit leaves it, the
  commit answers 0, and a machine switched on from that flash comes up with the same map in that block and,
  in every other block, what its region held before.\<close>

theorem nvram_commit_survives_restart:
  assumes "nv_up s" and "index_ok i" and "env_fine e" and "\<And>k. env_fine (es k)"
    and "dirty (block s i)" and "storable i (entries_of (cache (block s i)))"
    and "\<And>j. index_ok j \<Longrightarrow> j \<noteq> i \<Longrightarrow> flash_image (mtd s) j (img (nat j))"
  shows "\<exists>s1 s2. nvram_commit e i s = Inr (0, s1)
    \<and> ra_nvram_init 0 es (power_on (mtd s1)) = Inr (0, s2) \<and> nv_up s2
    \<and> store s2 i = store s i
    \<and> (\<forall>j. index_ok j \<and> j \<noteq> i \<longrightarrow> store s2 j = map_of (img (nat j)))"
proof -
  have c: "cache (block s i) = layout (entries_of (cache (block s i)))"
    using nv_up_blockD(3) [OF assms(1,2)] by (auto simp: block_ok_def elim: cache_wfE)
  obtain s1 s2 where "nvram_commit e i s = Inr (0, s1)"
    "ra_nvram_init 0 es (power_on (mtd s1)) = Inr (0, s2)" "nv_up s2"
    and l: "\<forall>j. index_ok j \<longrightarrow> loaded j (if j = i then entries_of (cache (block s i)) else img (nat j)) (block s2 j)"
    using commit_then_boot [where es = es and img = img, OF assms(1-5) c assms(6,7)] by blast
  moreover have "store s2 j = map_of (if j = i then entries_of (cache (block s i)) else img (nat j))"
    if "index_ok j" for j
    using l [rule_format, OF that] by (simp add: store_def loaded_def)
  ultimately show ?thesis using assms(2) by (auto simp: store_def)
qed

theorem nvram_commit_survives_restart_witness:
  "\<exists>s1 s2. nvram_commit demo_env 0 demo_state = Inr (0, s1)
    \<and> ra_nvram_init 0 (\<lambda>_. demo_env) (power_on (mtd s1)) = Inr (0, s2)
    \<and> store s2 0 ''SSID1'' = Some ''home''"
proof -
  have "store demo_state 0 ''SSID1'' = Some ''home''" by (simp add: store_def demo_pairs_def)
  then show ?thesis
    using nvram_commit_survives_restart [of demo_state 0 demo_env "\<lambda>_. demo_env" "\<lambda>_. []"]
      demo_flash_images(2) by auto
qed

text \<open>The image format round-trips: what the commit loop prints for a non-empty cache, the
  boot parser reads back as the same pairs in the same order, with any padding.\<close>

theorem image_format_round_trip:
  assumes "cstr_pairs es" and "names_ok es" and "length es \<le> MAX_CACHE_ENTRY"
    and "length (ser es) < len"
  shows "\<exists>w q. put_entries (len + 4) len (layout es) [] = Inr (True, w)
    \<and> parse_env MAX_CACHE_ENTRY (fill_block len w) = Inr (es, q)"
proof -
  have "put_entries (len + 4) len (layout es) [] = Inr (True, ser es)"
    unfolding layout_def using assms(4) by (subst put_entries_fits) simp_all
  moreover have "0 < MAX_CACHE_ENTRY" by (simp add: MAX_CACHE_ENTRY_def)
  ultimately show ?thesis
    using parse_env_padding [of es MAX_CACHE_ENTRY "len - length (ser es)"] assms
    by (auto simp: fill_block_def)
qed

theorem image_format_round_trip_witness:
  "\<exists>w q. put_entries 68 64 (layout demo_pairs) [] = Inr (True, w)
    \<and> parse_env MAX_CACHE_ENTRY (fill_block 64 w) = Inr (demo_pairs, q)"
  using image_format_round_trip [of demo_pairs 64]
  by (simp add: demo_pairs_def cstr_pairs_def names_ok_def is_cstr_def MAX_CACHE_ENTRY_def)

section \<open>What the failure paths do\<close>

text \<open>C29. The size check of the commit loop is dead: it compares with the size of the region, not
  of the data block four bytes shorter.  When the pairs of a changed block do not leave room for
  the closing NUL, the commit never answers an error; it writes past its kernel buffer.\<close>

theorem nvram_commit_overruns_full_block:
  assumes "nv_up s" and "index_ok i" and "env_fine e" and "dirty (block s i)"
    and "data_len i \<le> length (ser (entries_of (cache (block s i))))"
  shows "nvram_commit e i s = Inl OutOfBounds"
proof -
  note b = nv_up_blockD [OF assms(1,2)]
  let ?es = "entries_of (cache (block s i))"
  have c: "cache (block s i) = layout ?es"
    using b(3) by (auto simp: block_ok_def elim: cache_wfE)
  note g = geom_okD [OF b(4)]
  have ml: "flash_max_len (block s i) = data_len i + 4"
    using b(4) blk_bounds(3) [OF assms(2) nv_up_part [OF assms(1)]] by (simp add: geom_ok_def)
  obtain x where x: "(case env_data (block s i) of None \<Rightarrow> km e (data_len i) | Some d \<Rightarrow> Some d) = Some x"
    using assms(3) by (cases "env_data (block s i)") (auto simp: env_fine_def)
  have put: "put_entries (data_len i + 4) (data_len i) (cache (block s i)) []
      = (if length (ser ?es) = data_len i then Inr (True, ser ?es) else Inl OutOfBounds)"
    using assms(5) put_entries_fits [of "[]" ?es "data_len i"] put_entries_overruns [of "[]" "data_len i" ?es]
    by (subst c) (auto simp: layout_def)
  show ?thesis
    using b assms(2,4) x
    by (simp add: nvram_commit_def ml Let_def put cong del: option.case_cong_weak)
qed

text \<open>The witness: one value of 8190 bytes in a block whose data area has 8188.\<close>

definition full_pairs :: "(string \<times> string) list" where
  "full_pairs = [(''k'', replicate 8190 (CHR ''x''))]"

definition full_state :: nvram where
  "full_state = set_block 2 ((fb_init ! 2)\<lparr>cache := layout full_pairs, valid := True, dirty := True\<rparr>)
     demo_state"

lemma full_state_up: "nv_up full_state" "dirty (block full_state 2)"
  "entries_of (cache (block full_state 2)) = full_pairs"
proof -
  note b = nv_up_blockD [OF demo_up, of 2]
  let ?b = "(fb_init ! 2)\<lparr>cache := layout full_pairs, valid := True, dirty := True\<rparr>"
  have "cache_wf (layout full_pairs)"
    by (rule cache_wf_layout) (simp_all add: full_pairs_def cstr_pairs_def is_cstr_def MAX_CACHE_ENTRY_def)
  then have "block_ok ?b" using fb_nth [of 2] by (simp add: block_ok_def FLASH_BLOCK_NUM_def)
  then show "nv_up full_state"
    using demo_up
    by (intro nv_up_set_block [OF demo_up, of 2 ?b])
      (auto simp: full_state_def set_block_def geom_ok_def nv_up_def nv_ok_def)
  show "dirty (block full_state 2)" "entries_of (cache (block full_state 2)) = full_pairs"
    using b by (simp_all add: full_state_def)
qed

theorem nvram_commit_overruns_full_block_witness:
  "nvram_commit demo_env 2 full_state = Inl OutOfBounds"
  using nvram_commit_overruns_full_block [of full_state 2 demo_env] full_state_up
  by (simp add: full_pairs_def data_len_def fb_init_def fb_block_def ENV_BLK_SIZE_def)

text \<open>C31. Out of memory, a commit returns -ENOMEM without releasing the semaphore it took: in every state the
  driver can reach in which a block could not be loaded (its initialisation failed for want of memory) and was
  changed all the same, a commit that finds no memory leaves a reachable state in which every later get, set or
  commit on any block blocks for ever; and the process that asked is told the commit succeeded.\<close>

theorem nvram_commit_enomem_deadlocks:
  assumes "nv_reach m s" and "part_ok m" and "index_ok i" and "\<not> valid (block s i)" and "dirty (block s i)" and "\<not> sem_held s"
    and "allocs (km e)" and "km e (data_len i) = None"
  shows "\<exists>s'. nvram_commit e i s = Inr (- ENOMEM, s') \<and> nv_reach m s'
    \<and> ralink_nvram_ioctl e u (IoCommit i) s = Inr (0, None, s')
    \<and> (\<forall>e' j n v. index_ok j \<longrightarrow> nvram_get e' j n s' = Inl Blocked
         \<and> nvram_set e' j n v s' = Inl Blocked \<and> nvram_commit e' j s' = Inl Blocked)"
proof -
  have ok: "nv_ok s" by (rule reach_nv_ok [OF assms(1,2)])
  then have g: "geom_ok (block s i) (fb_init ! nat i)" and l: "nat i < length (fb s)"
    using index_ok_nat [OF assms(3)] by (auto simp: nv_ok_def block_def)
  note g = geom_okD [OF g]
  obtain r c where rd: "ra_mtd_read_nm (io1 e) (mtd s) (flash_offset (block s i)) 4 (le32 (env_crc (block s i))) = Inr (r, c)"
    using that by (cases "io_dev (io1 e)"; cases "io_read (io1 e) = 0") (auto simp: ra_mtd_read_nm_def Let_def get_slice_def)
  let ?b = "(block s i)\<lparr>env_crc := of_le32 c, env_data := None\<rparr>"
  let ?s = "(set_block i ?b (s\<lparr>sem_held := True\<rparr>))\<lparr>counter := counter s + 1\<rparr>"
  have "check_valid e i (s\<lparr>sem_held := True\<rparr>) = Inr (set_block i ?b (s\<lparr>sem_held := True\<rparr>))"
    using assms(3,4,8) rd g by (simp add: check_valid_def init_nvram_block_def Let_def)
  then have c: "nvram_commit e i s = Inr (- ENOMEM, ?s)"
    using assms(3,5,6,8) g l by (simp add: nvram_commit_def Let_def)
  moreover from c have io: "ralink_nvram_ioctl e u (IoCommit i) s = Inr (0, None, ?s)" for u
    by (simp add: ralink_nvram_ioctl_def)
  moreover have "nv_reach m ?s" by (rule nv_reach.serve [OF assms(1,7) _ io]) simp
  ultimately show ?thesis by (auto simp: nvram_get_def nvram_set_def nvram_commit_def down_def)
qed

theorem nvram_commit_enomem_deadlocks_witness:
  "\<exists>s s'. ralink_nvram_ioctl low_env True (IoSet 0 ''SSID1'' ''home'') (power_on demo_part) = Inr (0, None, s)
    \<and> nvram_commit low_env 0 s = Inr (- ENOMEM, s') \<and> nvram_get demo_env 3 ''key'' s' = Inl Blocked"
proof -
  obtain s where s: "nv_reach demo_part s" "ralink_nvram_ioctl low_env True (IoSet 0 ''SSID1'' ''home'') (power_on demo_part) = Inr (0, None, s)"
    "\<not> valid (block s 0)" "dirty (block s 0)" "\<not> sem_held s"
    using low_run by blast
  have "allocs (km low_env)" "km low_env (data_len 0) = None"
    by (simp_all add: low_env_def allocs_def data_len_def fb_init_def fb_block_def ENV_BLK_SIZE_def MAX_VALUE_LEN_def)
  with nvram_commit_enomem_deadlocks [OF s(1) demo_part_ok index_ok_num(1) s(3-5), of low_env True] s(2) show ?thesis by auto
qed

text \<open>Clearing a block does not survive a restart: it fills the region with 0xFF bytes and
  stores the CRC that matches them, so the next boot trusts the region and its search for an
  equals sign runs off the end of the block.\<close>

theorem nvram_clear_breaks_next_boot:
  assumes "nv_up s" and "index_ok i" and "env_fine e" and "env_fine e'"
  shows "\<exists>s1. nvram_clear e i s = Inr (0, s1) \<and> store s1 i = Map.empty
    \<and> init_nvram_block e' i (power_on (mtd s1)) = Inl OutOfBounds"
proof -
  note m = nv_up_part [OF assms(1)]
  let ?d = "replicate (data_len i) (CHR 0xFF)"
  obtain s1 where s1: "nvram_clear e i s = Inr (0, s1)" "store s1 i = Map.empty"
    "mtd s1 = config_flash.save (mtd s) (blk_off i) (le32 (crc_of ?d)) ?d"
    using nvram_clear_eq [OF assms(1-3)] by blast
  have l: "length ?d = data_len i" by simp
  note sv = save_crc_body [OF assms(2) m l, of "crc_of ?d", folded s1(3)]
  have p: "part_ok (mtd (power_on (mtd s1)))" using sv(3) by (simp add: power_on_def)
  have blk: "block (power_on (mtd s1)) i = fb_init ! nat i" by (simp add: power_on_def block_def)
  have "parse_env MAX_CACHE_ENTRY ?d = Inl OutOfBounds"
    by (rule parse_erased) (simp add: MAX_CACHE_ENTRY_def)
  then have "init_nvram_block e' i (power_on (mtd s1)) = Inl OutOfBounds"
    using init_reads [OF assms(2,4) p blk] sv(1,2) by (simp add: power_on_def Let_def)
  with s1 show ?thesis by blast
qed

theorem nvram_clear_breaks_next_boot_witness:
  "\<exists>s1. nvram_clear demo_env 0 demo_state = Inr (0, s1)
    \<and> init_nvram_block demo_env 0 (power_on (mtd s1)) = Inl OutOfBounds"
  using nvram_clear_breaks_next_boot [of demo_state 0 demo_env demo_env] by auto

text \<open>A commit hides flash errors and can lose every block: when the erase before the data
  write succeeds and that write fails, the whole first erase block (CRCs and data of all four
  blocks) is left erased, yet the commit answers 0 and marks the block clean.\<close>

theorem nvram_commit_hides_failed_write:
  assumes "nv_up s" and "index_ok i" and "dirty (block s i)"
    and "storable i (entries_of (cache (block s i)))"
    and "env_fine (e\<lparr>io2 := io_fine\<rparr>)" and "io2 e = io_fine\<lparr>io_write := w\<rparr>" and "w \<noteq> 0"
  shows "\<exists>s'. nvram_commit e i s = Inr (0, s') \<and> \<not> dirty (block s' i)
    \<and> get_slice (mtd_bytes (mtd s')) 0 (mtd_erasesize (mtd s'))
        = replicate (mtd_erasesize (mtd s')) (CHR 0xFF)"
proof -
  note b = nv_up_blockD [OF assms(1,2)]
  note m = nv_up_part [OF assms(1)]
  note bb = blk_bounds [OF assms(2) m]
  note g = geom_okD [OF b(4)]
  let ?es = "entries_of (cache (block s i))"
  have c: "cache (block s i) = layout ?es"
    using b(3) by (auto simp: block_ok_def elim: cache_wfE)
  have ml: "flash_max_len (block s i) = data_len i + 4"
    using b(4) bb(3) by (simp add: geom_ok_def)
  have put: "put_entries (data_len i + 4) (data_len i) (cache (block s i)) [] = Inr (True, ser ?es)"
    by (subst c) (use assms(4) put_entries_fits [of "[]" ?es "data_len i"]
      in \<open>simp add: layout_def storable_def\<close>)
  let ?f = "e\<lparr>io2 := io_fine\<rparr>" and ?crc = "crc_of (payload i ?es)"
  let ?m1 = "config_write (mtd s) (blk_off i) (le32 ?crc)"
  have w1: "ra_mtd_write_nm (io1 e) (km e) (mtd s) (blk_off i) (le32 ?crc) = Inr (0, ?m1)"
    using ra_mtd_write_config [OF m assms(5), of "blk_off i" "le32 ?crc"] assms(5) bb m
    by (simp add: env_fine_def)
  have m1: "part_ok ?m1" "mtd_erasesize ?m1 = mtd_erasesize (mtd s)"
    using bb m by (simp_all add: config_write_ok) (simp add: config_write_eq part_ok_def)
  obtain junk where junk: "km e (mtd_erasesize ?m1) = Some junk" "length junk = mtd_erasesize ?m1"
    using assms(5) by (auto simp: env_fine_def allocs_def) (metis option.exhaust)
  have len: "length (payload i ?es) = data_len i" using assms(4) by simp
  let ?m2 = "?m1\<lparr>mtd_bytes := put_slice (mtd_bytes ?m1) 0 (replicate (mtd_erasesize ?m1) (CHR 0xFF))\<rparr>"
  have fits: "blk_off i + 4 + data_len i \<le> mtd_erasesize ?m1" using bb(1) m m1(2) by simp
  have w2: "ra_mtd_write_nm (io2 e) (km e) ?m1 (blk_off i + 4) (payload i ?es) = Inr (w, ?m2)"
    using junk m1 fits assms(6,7) len
    by (simp add: ra_mtd_write_nm_def io_fine_def chip_erase_def Let_def part_ok_def mtd_ok_def)
  obtain x where x: "(case env_data (block s i) of None \<Rightarrow> km e (data_len i) | Some d \<Rightarrow> Some d) = Some x"
    using assms(5) by (cases "env_data (block s i)") (auto simp: env_fine_def)
  have "\<exists>s'. nvram_commit e i s = Inr (0, s') \<and> \<not> dirty (block s' i) \<and> mtd s' = ?m2"
    using b assms(2,3) x w1 w2 assms(4)
    by (simp add: nvram_commit_def ml g Let_def put crc_of_def payload_def storable_def
        cong del: option.case_cong_weak)
  moreover have "get_slice (mtd_bytes ?m2) 0 (mtd_erasesize ?m2) = replicate (mtd_erasesize ?m2) (CHR 0xFF)"
    using m1(1) by (simp add: part_ok_def mtd_ok_def)
  ultimately show ?thesis by metis
qed

theorem nvram_commit_hides_failed_write_witness:
  "\<exists>s'. nvram_commit (demo_env\<lparr>io2 := io_fine\<lparr>io_write := - 5\<rparr>\<rparr>) 0 demo_state = Inr (0, s')
    \<and> \<not> dirty (block s' 0)"
  using nvram_commit_hides_failed_write
    [of demo_state 0 "demo_env\<lparr>io2 := io_fine\<lparr>io_write := - 5\<rparr>\<rparr>" "- 5"] demo_env_fine
  by (auto simp: demo_env_def)

text \<open>C30. A commit is not atomic: it writes the checksum first and the data in a second erase-write cycle.  On
  a running store with memory, for a dirty block whose pairs fit its region, over a region that holds an image
  as a commit leaves it: when the first write succeeds, the second one does not take place (the power fails, or the device is gone: the commit then even answers 0 and
  marks the block clean) and the new data differ from the stored data in one byte, the flash holds the new
  checksum over the old data, and the next boot answers -1 for the block and comes up with it empty: all
  settings of the block are lost, the old ones included.\<close>

theorem nvram_torn_commit_loses_block:
  assumes "nv_up s" and "index_ok i" and "dirty (block s i)" and "storable i (entries_of (cache (block s i)))"
    and "env_fine (e\<lparr>io2 := io_fine\<rparr>)" and "io_dev (io2 e) = Some x" and "env_fine e'" and "flash_image (mtd s) i old"
    and "payload i old = pre @ a # post" and "payload i (entries_of (cache (block s i))) = pre @ b # post" and "a \<noteq> b"
  shows "\<exists>s1 s2. nvram_commit e i s = Inr (0, s1) \<and> \<not> dirty (block s1 i)
    \<and> config_read (mtd s1) (blk_off i) 4 = le32 (crc_of (payload i (entries_of (cache (block s i)))))
    \<and> config_read (mtd s1) (blk_off i + 4) (data_len i) = payload i old
    \<and> init_nvram_block e' i (power_on (mtd s1)) = Inr (- 1, s2) \<and> store s2 i = Map.empty \<and> valid (block s2 i)"
proof -
  note b = nv_up_blockD [OF assms(1,2)]
  note m = nv_up_part [OF assms(1)]
  note bb = blk_bounds [OF assms(2) m]
  note g = geom_okD [OF b(4)]
  let ?es = "entries_of (cache (block s i))"
  let ?crc = "crc_of (payload i ?es)"
  let ?m1 = "config_write (mtd s) (blk_off i) (le32 ?crc)"
  have c: "cache (block s i) = layout ?es" using b(3) by (auto simp: block_ok_def elim: cache_wfE)
  have ml: "flash_max_len (block s i) = data_len i + 4" using b(4) bb(3) by (simp add: geom_ok_def)
  have put: "put_entries (data_len i + 4) (data_len i) (cache (block s i)) [] = Inr (True, ser ?es)"
    by (subst c) (use assms(4) put_entries_fits [of "[]" ?es "data_len i"] in \<open>simp add: layout_def storable_def\<close>)
  have w1: "ra_mtd_write_nm (io1 e) (km e) (mtd s) (blk_off i) (le32 ?crc) = Inr (0, ?m1)"
    using ra_mtd_write_config [OF m assms(5), of "blk_off i" "le32 ?crc"] assms(5) bb m by (simp add: env_fine_def)
  have w2: "ra_mtd_write_nm (io2 e) (km e) ?m1 (blk_off i + 4) (payload i ?es) = Inr (x, ?m1)"
    using assms(6) by (simp add: ra_mtd_write_nm_def)
  obtain z where z: "(case env_data (block s i) of None \<Rightarrow> km e (data_len i) | Some d \<Rightarrow> Some d) = Some z"
    using assms(5) by (cases "env_data (block s i)") (auto simp: env_fine_def)
  obtain s1 where s1: "nvram_commit e i s = Inr (0, s1)" "\<not> dirty (block s1 i)" "mtd s1 = ?m1"
    using that b assms(2,3) z w1 w2 assms(4)
    by (simp add: nvram_commit_def ml g Let_def put crc_of_def payload_def storable_def cong del: option.case_cong_weak)
  have ok: "part_ok ?m1" by (rule config_write_ok) (use bb m in simp_all)
  have crc: "config_read ?m1 (blk_off i) 4 = le32 ?crc"
    using config_flash.rd_wr_same [of "blk_off i" "le32 ?crc" "mtd s"] bb m by simp
  have "config_read ?m1 (blk_off i + 4) (data_len i) = config_read (mtd s) (blk_off i + 4) (data_len i)"
    by (rule config_flash.rd_wr_other) (use bb m in simp_all)
  then have data: "config_read ?m1 (blk_off i + 4) (data_len i) = payload i old"
    using assms(8) by (simp add: flash_image_def)
  have ne: "crc_of (payload i old) \<noteq> ?crc"
    using nv_crc32_single_byte [OF assms(11), of 0 pre post] assms(9,10) by (simp add: crc_of_def)
  have p: "part_ok (mtd (power_on ?m1))" "block (power_on ?m1) i = fb_init ! nat i"
    using ok by (simp_all add: power_on_def block_def)
  have l: "nat i < length (fb (power_on ?m1))"
    using index_ok_nat [OF assms(2)] by (simp add: power_on_def fb_init_def FLASH_BLOCK_NUM_def)
  have "\<exists>s2. init_nvram_block e' i (power_on ?m1) = Inr (- 1, s2) \<and> store s2 i = Map.empty \<and> valid (block s2 i)"
    using init_reads [OF assms(2,7) p] crc data ne l fb_nth [OF index_ok_nat [OF assms(2)]]
    by (auto simp: power_on_def Let_def store_def)
  with s1 crc data show ?thesis by auto
qed

text \<open>The machine of the witness: the flash holds channel 9 for the pair the cache has as channel 6.\<close>

definition torn_pairs :: "(string \<times> string) list" where
  "torn_pairs = [(''SSID1'', ''home''), (''Channel'', ''9'')]"

definition torn_state :: nvram where
  "torn_state = demo_state\<lparr>mtd := write_image demo_flash 0 torn_pairs\<rparr>"

lemma torn_storable: "storable 0 torn_pairs"
  by (simp add: storable_def torn_pairs_def cstr_pairs_def names_ok_def is_cstr_def data_len_def
      fb_init_def fb_block_def ENV_BLK_SIZE_def MAX_CACHE_ENTRY_def)

lemma torn_state_up: "nv_up torn_state" "block torn_state 0 = block demo_state 0" "flash_image (mtd torn_state) 0 torn_pairs"
proof -
  have "part_ok (write_image demo_flash 0 torn_pairs)"
    using write_image_ok [OF _ demo_flash_images(1) torn_storable] by simp
  then show "nv_up torn_state"
    using demo_up by (simp add: torn_state_def nv_up_def nv_ok_def part_ok_def)
  show "block torn_state 0 = block demo_state 0" by (simp only: torn_state_def block_upd)
  show "flash_image (mtd torn_state) 0 torn_pairs"
    using write_image_same [OF _ demo_flash_images(1) torn_storable] by (simp add: torn_state_def)
qed

theorem nvram_torn_commit_loses_block_witness:
  "\<exists>s1 s2. nvram_commit (demo_env\<lparr>io2 := io_fine\<lparr>io_dev := Some (- 19)\<rparr>\<rparr>) 0 torn_state = Inr (0, s1)
     \<and> init_nvram_block demo_env 0 (power_on (mtd s1)) = Inr (- 1, s2) \<and> store s2 0 = Map.empty"
proof -
  let ?e = "demo_env\<lparr>io2 := io_fine\<lparr>io_dev := Some (- 19)\<rparr>\<rparr>" and ?pre = "''SSID1=home'' @ NUL # ''Channel=''"
  let ?post = "NUL # replicate (data_len 0 - 21) NUL"
  have p: "payload 0 [(''SSID1'', ''home''), (''Channel'', [c])] = ?pre @ c # ?post" for c
    by (simp add: payload_def fill_block_def)
  have e: "env_fine (?e\<lparr>io2 := io_fine\<rparr>)" "io_dev (io2 ?e) = Some (- 19)"
    by (simp_all add: demo_env_def env_fine_def km_fine_def kstrdup_ok_def io_fine_def)
  have c: "dirty (block torn_state 0)" "entries_of (cache (block torn_state 0)) = demo_pairs"
    using torn_state_up(2) by simp_all
  have st: "storable 0 (entries_of (cache (block torn_state 0)))" unfolding c(2) by simp
  have n: "payload 0 (entries_of (cache (block torn_state 0))) = ?pre @ CHR ''6'' # ?post"
    unfolding c(2) demo_pairs_def by (rule p)
  have o: "payload 0 torn_pairs = ?pre @ CHR ''9'' # ?post" unfolding torn_pairs_def by (rule p)
  have "CHR ''9'' \<noteq> CHR ''6''" by simp
  from nvram_torn_commit_loses_block [OF torn_state_up(1) index_ok_num(1) c(1) st e demo_env_fine torn_state_up(3) o n this]
  show ?thesis by blast
qed

end
