(* ===== verification/Lib_Nvram.thy ===== *)
theory Lib_Nvram
  imports Nvram_Properties
begin

text \<open>
  The user library over the kernel store (\<open>lib/libnvram/nvram_env.c\<close>, built with
  \<open>CONFIG_KERNEL_NVRAM\<close>): every process keeps its own cache \<open>lfb\<close>, filled once from the driver by
  \<open>IoGetAll\<close>; reads fetch the value from the driver but look the name up in the process's cache.

  \<open>client\<close> is one process together with the driver it talks to.  \<open>lenv\<close> gives the driver's
  environment, whether the device can be opened, whether the copies between user and kernel
  succeed, and the contents of a fresh \<open>malloc\<close> block.  \<open>malloc\<close> and \<open>strdup\<close> of the library
  are taken to succeed (the source does not test them).  The functions carry the prefix \<open>lib_\<close>
  where the driver has a function of the same name.
\<close>

section \<open>State\<close>

record client =
  kern :: nvram
  lfb :: "block_t list"

record lenv =
  l_kenv :: kenv
  l_open :: bool
  l_copy :: bool
  l_junk :: "nat \<Rightarrow> byte list"

definition lblock :: "client \<Rightarrow> int \<Rightarrow> block_t" where
  "lblock c i = lfb c ! nat i"

definition set_lblock :: "int \<Rightarrow> block_t \<Rightarrow> client \<Rightarrow> client" where
  "set_lblock i b c = c\<lparr>lfb := (lfb c)[nat i := b]\<rparr>"

text \<open>A process that has just started: its static array is the same as the driver's.\<close>

definition new_client :: "nvram \<Rightarrow> client" where
  "new_client k = \<lparr>kern = k, lfb = fb_init\<rparr>"

text \<open>One call of the driver.  The result: the return code (-1 when the device cannot be opened),
  what was copied out, and the driver's state.\<close>

definition call_driver ::
  "lenv \<Rightarrow> ioctl_req \<Rightarrow> client \<Rightarrow> (int \<times> byte list option \<times> client) res" where
  "call_driver e req c =
     (if \<not> l_open e then Inr (- 1, None, c)
      else
        res_bind (ralink_nvram_ioctl (l_kenv e) (l_copy e) req (kern c)) (\<lambda>(r, out, k).
        Inr (r, out, c\<lparr>kern := k\<rparr>)))"

section \<open>Operations\<close>

definition lib_nvram_init :: "lenv \<Rightarrow> int \<Rightarrow> client \<Rightarrow> client res" where
  "lib_nvram_init e i c =
     (if \<not> index_ok i then Inr c
      else if valid (lblock c i) then Inr c
      else
        (let len = flash_max_len (lblock c i) - 4 in
         res_bind (call_driver e (IoGetAll i) c) (\<lambda>(r, out, c).
         if r < 0 then Inr (set_lblock i ((lblock c i)\<lparr>env_data := None\<rparr>) c)
         else
           (let data = (case out of None \<Rightarrow> l_junk e len | Some d \<Rightarrow> put_slice (l_junk e len) 0 d) in
            res_bind (parse_env MAX_CACHE_ENTRY data) (\<lambda>(es, _).
            (let b = lblock c i in
             Inr (set_lblock i (b\<lparr>cache := put_slice (cache b) 0 (map mk_entry es),
                                  valid := True, dirty := False, env_data := None\<rparr>) c)))))))"

definition lib_check_valid :: "lenv \<Rightarrow> int \<Rightarrow> client \<Rightarrow> client res" where
  "lib_check_valid e i c = (if valid (lblock c i) then Inr c else lib_nvram_init e i c)"

definition lib_nvram_commit :: "lenv \<Rightarrow> int \<Rightarrow> client \<Rightarrow> (int \<times> client) res" where
  "lib_nvram_commit e i c =
     (if \<not> index_ok i then Inr (- 1, c)
      else
        res_bind (lib_check_valid e i c) (\<lambda>c.
        res_bind (call_driver e (IoCommit i) c) (\<lambda>(r, _, c).
        if r < 0 then Inr (- 1, c)
        else Inr (0, set_lblock i ((lblock c i)\<lparr>dirty := False\<rparr>) c))))"

definition lib_nvram_close :: "lenv \<Rightarrow> int \<Rightarrow> client \<Rightarrow> client res" where
  "lib_nvram_close e i c =
     (if \<not> index_ok i then Inr c
      else if \<not> valid (lblock c i) then Inr c
      else
        res_bind (if dirty (lblock c i) then res_bind (lib_nvram_commit e i c) (\<lambda>(_, c). Inr c)
                  else Inr c) (\<lambda>c.
        (let b = lblock c i in
         Inr (set_lblock i (b\<lparr>env_data := None, cache := map (\<lambda>_. empty_entry) (cache b),
                              valid := False\<rparr>) c))))"

definition lib_cache_idx :: "int \<Rightarrow> string \<Rightarrow> client \<Rightarrow> nat option" where
  "lib_cache_idx i name c = cache_scan name (cache (lblock c i))"

definition nvram_bufget :: "lenv \<Rightarrow> int \<Rightarrow> string \<Rightarrow> client \<Rightarrow> (string \<times> client) res" where
  "nvram_bufget e i name c =
     (if \<not> index_ok i then Inr ([], c)
      else
        res_bind (lib_check_valid e i c) (\<lambda>c.
        res_bind (call_driver e (IoGet i name MAX_VALUE_LEN) c) (\<lambda>(r, out, c).
        if r < 0 then Inr ([], c)
        else
          (case lib_cache_idx i name c of
             None \<Rightarrow> Inr ([], c)
           | Some idx \<Rightarrow>
               (let b = lblock c i in
                case c_value (cache b ! idx) of
                  None \<Rightarrow> Inr ([], c)
                | Some _ \<Rightarrow>
                    (let v = takeWhile (\<lambda>x. x \<noteq> NUL) (case out of None \<Rightarrow> [] | Some d \<Rightarrow> d) in
                     Inr (v, set_lblock i
                       (b\<lparr>cache := (cache b)[idx := (cache b ! idx)\<lparr>c_value := Some v\<rparr>]\<rparr>) c)))))))"




definition lib_nvram_clear :: "lenv \<Rightarrow> int \<Rightarrow> client \<Rightarrow> (int \<times> client) res" where
  "lib_nvram_clear e i c =
     (if \<not> index_ok i then Inr (- 1, c)
      else
        res_bind (lib_nvram_close e i c) (\<lambda>c.
        res_bind (call_driver e (IoClear i) c) (\<lambda>(r, _, c).
        if r < 0 then Inr (- 1, c)
        else Inr (0, set_lblock i ((lblock c i)\<lparr>dirty := False\<rparr>) c))))"

text \<open>\<open>nvram_buflist\<close>: the pairs printed.\<close>

fun used_entries :: "cache_t list \<Rightarrow> (string \<times> string option) list" where
  "used_entries [] = []"
| "used_entries (c # cs) = (case c_name c of None \<Rightarrow> [] | Some n \<Rightarrow> (n, c_value c) # used_entries cs)"

definition nvram_buflist :: "lenv \<Rightarrow> int \<Rightarrow> client \<Rightarrow> ((string \<times> string option) list \<times> client) res" where
  "nvram_buflist e i c =
     (if \<not> index_ok i then Inr ([], c)
      else res_bind (lib_check_valid e i c) (\<lambda>c. Inr (used_entries (cache (lblock c i)), c)))"

definition getNvramOffset :: "int \<Rightarrow> client \<Rightarrow> nat" where
  "getNvramOffset i c = (if \<not> index_ok i then 0 else flash_offset (lblock c i))"

definition getNvramName :: "int \<Rightarrow> client \<Rightarrow> string option" where
  "getNvramName i c = (if \<not> index_ok i then None else Some (blk_name (lblock c i)))"

definition getNvramBlockSize :: "int \<Rightarrow> client \<Rightarrow> nat" where
  "getNvramBlockSize i c = (if \<not> index_ok i then 0 else flash_max_len (lblock c i))"

text \<open>\<open>getNvramIndex\<close> returns an \<open>unsigned int\<close>, so not found is \<open>2 ^ 32 - 1\<close>.\<close>

definition getNvramIndex :: "string \<Rightarrow> client \<Rightarrow> u32" where
  "getNvramIndex name c =
     (case find_index (\<lambda>b. blk_name b = name) (lfb c) of None \<Rightarrow> - 1 | Some i \<Rightarrow> of_nat i)"

section \<open>The process's cache and the driver\<close>

definition lenv_fine :: "lenv \<Rightarrow> bool" where
  "lenv_fine e \<longleftrightarrow> l_open e \<and> l_copy e \<and> env_fine (l_kenv e) \<and> (\<forall>n. length (l_junk e n) = n)"

text \<open>The names the process knows of a block.\<close>

definition known :: "client \<Rightarrow> int \<Rightarrow> string set" where
  "known c i = fst ` set (entries_of (cache (lblock c i)))"

definition client_ok :: "client \<Rightarrow> bool" where
  "client_ok c \<longleftrightarrow> nv_up (kern c) \<and> length (lfb c) = FLASH_BLOCK_NUM
     \<and> (\<forall>i. index_ok i \<longrightarrow> cache_wf (cache (lblock c i)) \<and> geom_ok (lblock c i) (fb_init ! nat i)
          \<and> (\<not> valid (lblock c i) \<longrightarrow> cache (lblock c i) = layout []))"

text \<open>All values short enough for the buffer of a read.\<close>

definition values_fit :: "nvram \<Rightarrow> bool" where
  "values_fit k \<longleftrightarrow> (\<forall>i n v. index_ok i \<and> store k i n = Some v \<longrightarrow> is_cstr v \<and> length v < MAX_VALUE_LEN)"

lemma lblock_set_lblock_same [simp]:
  "nat i < length (lfb c) \<Longrightarrow> lblock (set_lblock i b c) i = b"
  by (simp add: lblock_def set_lblock_def)

lemma lblock_set_lblock_other [simp]:
  "index_ok i \<Longrightarrow> index_ok j \<Longrightarrow> i \<noteq> j \<Longrightarrow> lblock (set_lblock i b c) j = lblock c j"
  by (simp add: lblock_def set_lblock_def nat_eq_iff index_ok_def)

lemma set_lblock_sel [simp]:
  "kern (set_lblock i b c) = kern c" "length (lfb (set_lblock i b c)) = length (lfb c)"
  by (simp_all add: set_lblock_def)

lemma lblock_kern [simp]: "lblock (c\<lparr>kern := k\<rparr>) i = lblock c i"
  by (simp add: lblock_def)

lemma lenv_fineD:
  "lenv_fine e \<Longrightarrow> l_open e" "lenv_fine e \<Longrightarrow> l_copy e" "lenv_fine e \<Longrightarrow> env_fine (l_kenv e)"
  "lenv_fine e \<Longrightarrow> length (l_junk e n) = n"
  by (auto simp: lenv_fine_def)

text \<open>A read of the driver.\<close>

lemma call_get:
  assumes "lenv_fine e" and "nv_up (kern c)" and "index_ok i"
    and "\<And>v. store (kern c) i n = Some v \<Longrightarrow> length v < m"  and "0 < m"
  shows "call_driver e (IoGet i n m) c =
     Inr (0, Some ((case store (kern c) i n of None \<Rightarrow> [] | Some v \<Rightarrow> v) @ [NUL]),
       c\<lparr>kern := (kern c)\<lparr>counter := counter (kern c) + 1\<rparr>\<rparr>)"
proof -
  have "length (case store (kern c) i n of None \<Rightarrow> [] | Some v \<Rightarrow> v) < m"
    using assms(4,5) by (cases "store (kern c) i n") auto
  then show ?thesis
    using lenv_fineD(1-3) [OF assms(1)] nvram_get_eq [OF assms(2,3)]
    by (simp add: call_driver_def ralink_nvram_ioctl_def Let_def)
qed



lemma store_cstr:
  assumes "nv_up s" and "index_ok i" and "store s i n = Some v"
  shows "is_cstr v"
proof -
  have "(n, v) \<in> set (entries_of (cache (block s i)))"
    using assms(3) by (simp add: store_def map_of_SomeD)
  moreover have "cstr_pairs (entries_of (cache (block s i)))"
    using nv_up_blockD(3) [OF assms(1,2)] by (auto simp: block_ok_def elim: cache_wfE)
  ultimately show ?thesis by (auto simp: cstr_pairs_def)
qed

lemma takeWhile_cstr [simp]: "is_cstr v \<Longrightarrow> takeWhile (\<lambda>x. x \<noteq> NUL) (v @ [NUL]) = v"
  by (induction v) auto

lemma known_layout: "cache (lblock c i) = layout es \<Longrightarrow> known c i = fst ` set es"
  by (simp add: known_def)



lemma new_client_ok: "nv_up k \<Longrightarrow> client_ok (new_client k)"
  using fb_nth index_ok_nat
  by (auto simp: client_ok_def new_client_def lblock_def geom_ok_def fb_init_def FLASH_BLOCK_NUM_def
      cstr_pairs_def)

lemma new_client_sel [simp]: "kern (new_client k) = k" "lblock (new_client k) i = fb_init ! nat i"
  by (simp_all add: new_client_def lblock_def)

lemma bufget_fresh:
  assumes "lenv_fine e" and "client_ok c" and "index_ok i" and "valid (lblock c i)"
    and "\<And>v. store (kern c) i n = Some v \<Longrightarrow> length v < MAX_VALUE_LEN"
  shows "\<exists>c'. nvram_bufget e i n c
     = Inr (if n \<in> known c i then (case store (kern c) i n of None \<Rightarrow> [] | Some v \<Rightarrow> v) else [], c')
    \<and> store (kern c') = store (kern c) \<and> known c' i = known c i"
proof -
  have up: "nv_up (kern c)" and ll: "nat i < length (lfb c)" and wf: "cache_wf (cache (lblock c i))"
    using assms(2,3) index_ok_nat [OF assms(3)] by (auto simp: client_ok_def)
  obtain ls where ls: "length ls \<le> MAX_CACHE_ENTRY" "cache (lblock c i) = layout ls"
    using wf by (auto elim: cache_wfE)
  let ?v = "case store (kern c) i n of None \<Rightarrow> [] | Some v \<Rightarrow> v"
  let ?c = "c\<lparr>kern := (kern c)\<lparr>counter := counter (kern c) + 1\<rparr>\<rparr>"
  have "0 < MAX_VALUE_LEN" by (simp add: MAX_VALUE_LEN_def ENV_BLK_SIZE_def)
  note get = call_get [OF assms(1) up assms(3,5) this]
  have "is_cstr ?v" using store_cstr [OF up assms(3)] by (auto split: option.split)
  then have tw: "takeWhile (\<lambda>x. x \<noteq> NUL) (?v @ [NUL]) = ?v" by simp
  show ?thesis
  proof (cases "find_index (\<lambda>p. fst p = n) ls")
    case None
    then have "n \<notin> known c i" using ls(2) by (auto simp: find_index_None known_layout)
    moreover have "lib_cache_idx i n ?c = None"
      unfolding lib_cache_idx_def lblock_kern ls(2) cache_scan_layout by (rule None)
    ultimately show ?thesis
      using get assms(3,4) by (simp add: nvram_bufget_def lib_check_valid_def known_def)
  next
    case (Some p)
    then have p: "p < length ls" "fst (ls ! p) = n" by (auto simp: find_index_Some)
    then have k: "n \<in> known c i" using ls(2) by (auto simp: known_layout)
    have idx: "lib_cache_idx i n ?c = Some p"
      unfolding lib_cache_idx_def lblock_kern ls(2) cache_scan_layout by (rule Some)
    have e: "(mk_entry (ls ! p))\<lparr>c_value := Some ?v\<rparr> = mk_entry (n, ?v)"
      using p by (simp add: mk_entry_def)
    let ?b = "(lblock c i)\<lparr>cache := layout (ls[p := (n, ?v)])\<rparr>"
    have "nvram_bufget e i n c = Inr (?v, set_lblock i ?b ?c)"
      using get assms(3,4) idx ls(2) p(1) tw
      by (simp add: nvram_bufget_def lib_check_valid_def Let_def e layout_update)
    moreover have "fst ` set (ls[p := (n, ?v)]) = fst ` set ls"
    proof -
      have "map fst (ls[p := (n, ?v)]) = map fst ls"
        using p list_update_id [of "map fst ls" p] by (simp add: map_update)
      then show ?thesis by (metis list.set_map)
    qed
    ultimately show ?thesis
      using k ll ls(2) p by (simp add: known_def)
  qed
qed

section \<open>A concrete process\<close>

definition lib_demo_env :: lenv where
  "lib_demo_env = \<lparr>l_kenv = demo_env, l_open = True, l_copy = True, l_junk = (\<lambda>n. replicate n NUL)\<rparr>"

definition lib_demo :: client where
  "lib_demo = set_lblock 0 ((fb_init ! 0)\<lparr>cache := layout demo_pairs, valid := True\<rparr>) (new_client demo_state)"

lemma lib_demo_env_fine [simp]: "lenv_fine lib_demo_env"
  by (simp add: lenv_fine_def lib_demo_env_def)

lemma fb_init_length [simp]: "length fb_init = FLASH_BLOCK_NUM"
  by (simp add: fb_init_def FLASH_BLOCK_NUM_def)

lemma lib_demo_ok:
  "client_ok lib_demo" "kern lib_demo = demo_state" "valid (lblock lib_demo 0)"
  "cache (lblock lib_demo 0) = layout demo_pairs" "known lib_demo 0 = {''SSID1'', ''Channel''}"
proof -
  let ?b = "(fb_init ! 0)\<lparr>cache := layout demo_pairs, valid := True\<rparr>"
  have b: "lblock lib_demo i = (if i = 0 then ?b else fb_init ! nat i)" if "index_ok i" for i
    using that by (simp add: lib_demo_def lblock_def set_lblock_def new_client_def FLASH_BLOCK_NUM_def index_ok_def)
  have "client_ok (new_client demo_state)" using new_client_ok demo_up by blast
  moreover have "cache_wf (layout demo_pairs)"
    using demo_pairs_storable by (auto simp: storable_def)
  ultimately show "client_ok lib_demo"
    using b by (auto simp: client_ok_def geom_ok_def) (simp_all add: lib_demo_def)
  show "kern lib_demo = demo_state" by (simp add: lib_demo_def)
  show "valid (lblock lib_demo 0)" "cache (lblock lib_demo 0) = layout demo_pairs" using b by simp_all
  then show "known lib_demo 0 = {''SSID1'', ''Channel''}" by (simp add: known_layout demo_pairs_def)
qed

section \<open>Properties\<close>

text \<open>A read returns the driver's current value, not the process's: for a name the process
  knows, whatever other processes have set since; for a name it does not know the answer is the
  empty string even when the driver holds a value (a value set by another process after this one
  loaded the block is never seen).\<close>

theorem bufget_reads_through:
  assumes "lenv_fine e" and "client_ok c" and "index_ok i" and "valid (lblock c i)"
    and "\<And>v. store (kern c) i n = Some v \<Longrightarrow> length v < MAX_VALUE_LEN"
  shows "\<exists>c'. nvram_bufget e i n c
     = Inr (if n \<in> known c i then (case store (kern c) i n of None \<Rightarrow> [] | Some v \<Rightarrow> v) else [], c')
    \<and> store (kern c') = store (kern c) \<and> known c' i = known c i"
  using assms by (rule bufget_fresh)

theorem bufget_reads_through_witness:
  "\<exists>c'. nvram_bufget lib_demo_env 0 ''Channel'' lib_demo = Inr (''6'', c')"
  using bufget_reads_through [of lib_demo_env lib_demo 0 "''Channel''"] lib_demo_ok
  by (auto simp: store_def demo_pairs_def MAX_VALUE_LEN_def ENV_BLK_SIZE_def split: if_splits)



end
