(* ===== verification/Flash_Api.thy ===== *)
theory Flash_Api
  imports Flash
begin

text \<open>
  The flash access library of the programs (\<open>lib/libnvram/flash_api.c\<close>): looking a partition up
  by name, the fixed reads from the \<open>Factory\<close> partition, and the read-modify-erase-write loop of
  \<open>flash_write\<close> and \<open>flash_write_ralink_eeprom\<close>.

  \<open>uflash\<close> is an open MTD device with its file position; the calls on it follow the character
  device: a seek beyond the end is refused, reads and writes stop at the end.  \<open>uio\<close> gives the
  outcomes of the calls a function makes, per turn of the loop.  \<open>to\<close> and \<open>len\<close> are natural
  numbers: \<open>len\<close> is at most the partition's size, so no 32-bit value of the loop wraps unless
  \<open>to\<close> itself lies above 2 GiB.  The erase size is positive, as on every MTD device.
\<close>

section \<open>Devices\<close>

record uflash =
  dev :: mtd_info
  pos :: nat

record uio =
  u_open :: bool
  u_info :: bool
  u_malloc :: "nat \<Rightarrow> byte list option"
  u_read :: "nat \<Rightarrow> bool"
  u_erase :: "nat \<Rightarrow> bool"
  u_write :: "nat \<Rightarrow> bool"

record world =
  proc_mtd :: "(nat option \<times> string) list option"
  devs :: "nat \<Rightarrow> mtd_info"

definition dev_size :: "uflash \<Rightarrow> nat" where
  "dev_size f = length (mtd_bytes (dev f))"

definition seek :: "nat \<Rightarrow> uflash \<Rightarrow> uflash" where
  "seek p f = (if p \<le> dev_size f then f\<lparr>pos := p\<rparr> else f)"

definition dev_read :: "nat \<Rightarrow> uflash \<Rightarrow> byte list \<times> uflash" where
  "dev_read n f =
     (let d = get_slice (mtd_bytes (dev f)) (pos f) n in (d, f\<lparr>pos := pos f + length d\<rparr>))"

definition dev_erase :: "nat \<Rightarrow> nat \<Rightarrow> uflash \<Rightarrow> int \<times> uflash" where
  "dev_erase start len f = (case chip_erase (dev f) start len of (r, m) \<Rightarrow> (r, f\<lparr>dev := m\<rparr>))"

definition dev_write :: "byte list \<Rightarrow> uflash \<Rightarrow> int \<times> uflash" where
  "dev_write data f =
     (if pos f = dev_size f then (- 1, f)
      else
        (let d = take (dev_size f - pos f) data
         in case chip_write (dev f) (pos f) d of
              (r, m) \<Rightarrow> if r \<noteq> 0 then (- 1, f) else (int (length d), f\<lparr>dev := m, pos := pos f + length d\<rparr>)))"

section \<open>Looking a partition up\<close>

text \<open>A line of \<open>/proc/mtd\<close>: the number after \<open>mtd\<close>, when \<open>sscanf\<close> finds one, and the text.
  The first numbered line that contains the name counts.\<close>

fun mtd_scan :: "string \<Rightarrow> (nat option \<times> string) list \<Rightarrow> nat option" where
  "mtd_scan name [] = None"
| "mtd_scan name ((n, line) # ls) =
     (case n of
        Some i \<Rightarrow> if has_sub name line then Some i else mtd_scan name ls
      | None \<Rightarrow> mtd_scan name ls)"

definition mtd_open :: "uio \<Rightarrow> string \<Rightarrow> world \<Rightarrow> nat option" where
  "mtd_open io name w =
     (case proc_mtd w of
        None \<Rightarrow> None
      | Some ls \<Rightarrow>
          (case mtd_scan name ls of
             None \<Rightarrow> None
           | Some i \<Rightarrow> if u_open io then Some i else None))"

section \<open>Reading\<close>

text \<open>The readers of \<open>Factory\<close>: \<open>off\<close> and \<open>n\<close> are the constants of each function; \<open>buf\<close> is the
  caller's buffer (\<open>None\<close> is the null pointer), which must hold what is read.\<close>

definition read_factory ::
  "uio \<Rightarrow> world \<Rightarrow> byte list option \<Rightarrow> nat \<Rightarrow> nat \<Rightarrow> (int \<times> byte list option) res" where
  "read_factory io w buf off n =
     (case buf of
        None \<Rightarrow> Inr (- 1, buf)
      | Some b \<Rightarrow>
          (case mtd_open io ''Factory'' w of
             None \<Rightarrow> Inr (- 1, buf)
           | Some i \<Rightarrow>
               if \<not> u_read io 0 then Inr (- 1, buf)
               else
                 (let (d, _) = dev_read n (seek off \<lparr>dev = devs w i, pos = 0\<rparr>)
                  in if length b < length d then Inl OutOfBounds
                     else Inr (int (length d), Some (put_slice b 0 d)))))"

definition flash_read_sharekey where
  "flash_read_sharekey io w buf = read_factory io w buf 0x5000 8"

definition flash_read_size_eeprom_rf where
  "flash_read_size_eeprom_rf io w buf n = read_factory io w buf 0x5000 n"

definition flash_read_mac where
  "flash_read_mac io w buf = read_factory io w buf 0x2E 6"

definition flash_read_wlan_mac where
  "flash_read_wlan_mac io w buf = read_factory io w buf 0x04 6"

definition flash_read_NicConf where
  "flash_read_NicConf io w buf = read_factory io w buf 0x34 6"

definition flash_read :: "uio \<Rightarrow> world \<Rightarrow> byte list \<Rightarrow> nat \<Rightarrow> nat \<Rightarrow> (int \<times> byte list) res" where
  "flash_read io w buf from len =
     (case mtd_open io ''Config'' w of
        None \<Rightarrow> Inr (- 1, buf)
      | Some i \<Rightarrow>
          if \<not> u_info io then Inr (- 1, buf)
          else if length (mtd_bytes (devs w i)) < len then Inr (- 1, buf)
          else if \<not> u_read io 0 then Inr (- 1, buf)
          else
            (let (d, _) = dev_read len (seek from \<lparr>dev = devs w i, pos = 0\<rparr>)
             in if length buf < length d then Inl OutOfBounds
                else Inr (int (length d), put_slice buf 0 d)))"

section \<open>Writing\<close>

text \<open>
  \<open>to & ~(erasesize - 1)\<close> is written as \<open>to - (to AND (es - 1))\<close>.  The branch \<open>n = 0\<close> of
  \<open>write_loop\<close> serves its termination proof only: with a positive erase size every turn that
  does not fail consumes bytes.

  One turn of the loop with a partial block: the block around \<open>to\<close> is read, patched, erased and
  written back.  The result is the return code (negative: leave with -1), the number of bytes
  consumed, and the device.
\<close>

definition write_piece :: "uio \<Rightarrow> nat \<Rightarrow> byte list \<Rightarrow> nat \<Rightarrow> nat \<Rightarrow> uflash \<Rightarrow> int \<times> nat \<times> uflash" where
  "write_piece io k buf to len f =
     (let es = mtd_erasesize (dev f) in
      case u_malloc io k of
        None \<Rightarrow> (- 1, 0, f)
      | Some junk \<Rightarrow>
          (let bakaddr = to - (to AND (es - 1)); f = seek bakaddr f
           in if \<not> u_read io k then (- 1, 0, f)
              else
                (let (d, f) = dev_read es f;
                     piece = to AND (es - 1);
                     piece_size = min len (es - piece);
                     bak = put_slice (put_slice junk 0 d) piece (take piece_size buf)
                 in if \<not> u_erase io k then (- 1, 0, f)
                    else
                      (let (er, f) = dev_erase bakaddr es f
                       in if er < 0 then (- 1, 0, f)
                          else
                            (let f = seek bakaddr f
                             in if \<not> u_write io k then (- 1, 0, f)
                                else (let (r, f) = dev_write bak f in (r, piece_size, f)))))))"

text \<open>One turn with whole blocks left: no seek before the write.\<close>

definition write_whole :: "uio \<Rightarrow> nat \<Rightarrow> byte list \<Rightarrow> nat \<Rightarrow> uflash \<Rightarrow> int \<times> nat \<times> uflash" where
  "write_whole io k buf to f =
     (let es = mtd_erasesize (dev f)
      in if \<not> u_erase io k then (- 1, 0, f)
         else
           (let (er, f) = dev_erase to es f
            in if er < 0 then (- 1, 0, f)
               else if \<not> u_write io k then (- 1, 0, f)
               else (let (r, f) = dev_write (take es buf) f in (r, es, f))))"

function write_loop :: "uio \<Rightarrow> nat \<Rightarrow> byte list \<Rightarrow> nat \<Rightarrow> nat \<Rightarrow> int \<Rightarrow> uflash \<Rightarrow> int \<times> uflash" where
  "write_loop io k buf to len ret f =
     (if len = 0 then (ret, f)
      else
        (let es = mtd_erasesize (dev f);
             (r, n, f') = (if len AND (es - 1) \<noteq> 0 \<or> len < es then write_piece io k buf to len f
                           else write_whole io k buf to f)
         in if r = - 1 then (- 1, f')
            else if n = 0 then (r, f')
            else write_loop io (Suc k) (drop n buf) (to + n) (len - n) r f'))"
  by pat_completeness auto
termination by (relation "measure (\<lambda>(io, k, buf, to, len, ret, f). len)") auto

declare write_loop.simps [simp del]

definition write_part ::
  "string \<Rightarrow> uio \<Rightarrow> byte list \<Rightarrow> nat \<Rightarrow> nat \<Rightarrow> world \<Rightarrow> int \<times> world" where
  "write_part name io buf to len w =
     (case mtd_open io name w of
        None \<Rightarrow> (- 1, w)
      | Some i \<Rightarrow>
          if \<not> u_info io then (- 1, w)
          else if length (mtd_bytes (devs w i)) < len then (- 1, w)
          else
            (let (r, f) = write_loop io 0 buf to len 0 \<lparr>dev = devs w i, pos = 0\<rparr>
             in (r, w\<lparr>devs := (devs w)(i := dev f)\<rparr>)))"

definition flash_write where
  "flash_write io buf to len w = write_part ''Config'' io buf to len w"

definition flash_write_ralink_eeprom where
  "flash_write_ralink_eeprom io buf to len w = write_part ''Factory'' io buf to len w"

definition flash_write_passkey_ralink where
  "flash_write_passkey_ralink io buf w = flash_write_ralink_eeprom io buf 0x5000 0x1000 w"

section \<open>Patching a block\<close>

lemma put_put_same [slice_simps]:
  "length ys = length zs \<Longrightarrow> off + length zs \<le> length xs \<Longrightarrow>
   put_slice (put_slice xs off ys) off zs = put_slice xs off zs"
  by (rule nth_equalityI) (auto simp: nth_put_slice)

lemma put_slice_block:
  assumes "base + n \<le> length xs" and "p + length d \<le> n"
  shows "put_slice xs base (put_slice (get_slice xs base n) p d) = put_slice xs (base + p) d"
  by (rule nth_equalityI) (use assms in \<open>auto simp: nth_put_slice nth_get_slice\<close>)

lemma put_slice_join:
  assumes "off + length ys + length zs \<le> length xs"
  shows "put_slice (put_slice xs off ys) (off + length ys) zs = put_slice xs off (ys @ zs)"
  by (rule nth_equalityI) (use assms in \<open>auto simp: nth_put_slice nth_append\<close>)

lemma nat_and_mask: "x AND (2 ^ k - Suc 0) = x mod 2 ^ k" for x :: nat
  using take_bit_eq_mask [of k x] by (simp add: mask_eq_exp_minus_1 take_bit_eq_mod)

text \<open>A device whose erase size is a power of two dividing its size, and a machine on which
  nothing fails.\<close>

definition sound_dev :: "mtd_info \<Rightarrow> bool" where
  "sound_dev m \<longleftrightarrow> (\<exists>k. mtd_erasesize m = 2 ^ k) \<and> mtd_erasesize m dvd length (mtd_bytes m)"

definition uio_fine :: "nat \<Rightarrow> uio \<Rightarrow> bool" where
  "uio_fine es io \<longleftrightarrow> u_open io \<and> u_info io \<and> (\<forall>k. \<exists>b. u_malloc io k = Some b \<and> length b = es)
     \<and> (\<forall>k. u_read io k \<and> u_erase io k \<and> u_write io k)"

lemma sound_dev_put [simp]:
  "sound_dev m \<Longrightarrow> off + length d \<le> length (mtd_bytes m) \<Longrightarrow> sound_dev (mtd_put m off d)"
  by (simp add: sound_dev_def)

lemma sound_dev_mask: "sound_dev m \<Longrightarrow> x AND (mtd_erasesize m - Suc 0) = x mod mtd_erasesize m"
  by (auto simp: sound_dev_def nat_and_mask)

lemma sound_dev_pos: "sound_dev m \<Longrightarrow> 0 < mtd_erasesize m"
  by (auto simp: sound_dev_def)

lemma block_in_dev:
  assumes "sound_dev m" and "to < length (mtd_bytes m)"
  shows "to - to mod mtd_erasesize m + mtd_erasesize m \<le> length (mtd_bytes m)"
proof -
  obtain q where q: "length (mtd_bytes m) = mtd_erasesize m * q"
    using assms(1) by (auto simp: sound_dev_def)
  then have "to div mtd_erasesize m < q"
    using assms(2) sound_dev_pos [OF assms(1)] by (simp add: div_less_iff_less_mult mult.commute)
  then have "mtd_erasesize m * Suc (to div mtd_erasesize m) \<le> mtd_erasesize m * q" by (intro mult_le_mono) simp_all
  then show ?thesis by (simp add: q minus_mod_eq_mult_div)
qed

lemma erase_write_block:
  assumes "base mod mtd_erasesize m = 0" and "base + mtd_erasesize m \<le> length (mtd_bytes m)"
    and "length bak = mtd_erasesize m" and "0 < mtd_erasesize m"
  shows "dev_erase base (mtd_erasesize m) \<lparr>dev = m, pos = p\<rparr>
      = (0, \<lparr>dev = mtd_put m base (replicate (mtd_erasesize m) (CHR 0xFF)), pos = p\<rparr>)"
    "dev_write bak \<lparr>dev = mtd_put m base (replicate (mtd_erasesize m) (CHR 0xFF)), pos = base\<rparr>
      = (int (mtd_erasesize m), \<lparr>dev = mtd_put m base bak, pos = base + mtd_erasesize m\<rparr>)"
  using assms
  by (simp_all add: dev_erase_def chip_erase_def mtd_put_def dev_write_def dev_size_def chip_write_def
      Let_def put_put_same)

lemma write_piece_fine:
  assumes m: "sound_dev m" and io: "uio_fine (mtd_erasesize m) io" and to: "to < length (mtd_bytes m)"
    and n: "n = min len (mtd_erasesize m - to mod mtd_erasesize m)" and buf: "n \<le> length buf"
  shows "write_piece io k buf to len \<lparr>dev = m, pos = p\<rparr> = (int (mtd_erasesize m), n,
    \<lparr>dev = mtd_put m to (take n buf), pos = to - to mod mtd_erasesize m + mtd_erasesize m\<rparr>)"
proof -
  let ?es = "mtd_erasesize m"
  let ?base = "to - to mod ?es"
  note es = sound_dev_pos [OF m]
  note bd = block_in_dev [OF m to]
  obtain junk where junk: "u_malloc io k = Some junk" "length junk = ?es"
    using io by (auto simp: uio_fine_def)
  have piece: "to mod ?es + n \<le> ?es" using n mod_less_divisor [OF es, of to] by linarith
  have b0: "?base mod ?es = 0" by (simp add: minus_mod_eq_mult_div)
  have bt: "?base + to mod ?es = to" by simp
  let ?bak = "put_slice (get_slice (mtd_bytes m) ?base ?es) (to mod ?es) (take n buf)"
  have bak: "put_slice junk 0 (get_slice (mtd_bytes m) ?base ?es) = get_slice (mtd_bytes m) ?base ?es"
    using junk bd by (simp add: put_slice_def)
  have lbak: "length ?bak = ?es" using bd piece buf by simp
  have whole: "mtd_put m ?base ?bak = mtd_put m to (take n buf)"
    using put_slice_block [of ?base ?es "mtd_bytes m" "to mod ?es" "take n buf"] bd piece buf bt
    by (simp add: mtd_put_def)
  have sk: "seek ?base \<lparr>dev = m', pos = q\<rparr> = \<lparr>dev = m', pos = ?base\<rparr>"
    if "length (mtd_bytes m') = length (mtd_bytes m)" for m' q
  proof -
    have "?base \<le> length (mtd_bytes m)" using to by linarith
    with that show ?thesis by (simp add: seek_def dev_size_def)
  qed
  have rd: "dev_read ?es \<lparr>dev = m, pos = ?base\<rparr> = (get_slice (mtd_bytes m) ?base ?es, \<lparr>dev = m, pos = ?base + ?es\<rparr>)"
    using bd by (simp add: dev_read_def)
  have ok: "u_read io k" "u_erase io k" "u_write io k" using io by (simp_all add: uio_fine_def)
  note ew = erase_write_block [OF b0 bd lbak es]
  have wr: "dev_write ?bak \<lparr>dev = mtd_put m ?base (replicate ?es (CHR 0xFF)), pos = ?base\<rparr>
      = (int ?es, \<lparr>dev = mtd_put m to (take n buf), pos = ?base + ?es\<rparr>)"
    using ew(2) whole by simp
  show ?thesis
    using junk ok sk bd
    by (simp add: write_piece_def sound_dev_mask [OF m] Let_def rd bak ew(1) wr flip: n)
qed

lemma write_whole_fine:
  assumes m: "sound_dev m" and io: "uio_fine (mtd_erasesize m) io" and to: "to < length (mtd_bytes m)"
    and al: "to mod mtd_erasesize m = 0" and buf: "mtd_erasesize m \<le> length buf"
  shows "write_whole io k buf to \<lparr>dev = m, pos = to\<rparr> = (int (mtd_erasesize m), mtd_erasesize m,
    \<lparr>dev = mtd_put m to (take (mtd_erasesize m) buf), pos = to + mtd_erasesize m\<rparr>)"
proof -
  have bd: "to + mtd_erasesize m \<le> length (mtd_bytes m)" using block_in_dev [OF m to] al by simp
  have l: "length (take (mtd_erasesize m) buf) = mtd_erasesize m" using buf by simp
  have "u_erase io k" "u_write io k" using io by (simp_all add: uio_fine_def)
  then show ?thesis
    using erase_write_block [OF al bd l sound_dev_pos [OF m]]
    by (simp add: write_whole_def Let_def)
qed

section \<open>The loop\<close>

text \<open>The loop works when it starts with a partial block, or with the file position at \<open>to\<close> on a
  block boundary: after a partial block the position is always where the next block starts.\<close>

definition loop_ready :: "mtd_info \<Rightarrow> nat \<Rightarrow> nat \<Rightarrow> nat \<Rightarrow> bool" where
  "loop_ready m to len p \<longleftrightarrow>
     len = 0 \<or> len mod mtd_erasesize m \<noteq> 0 \<or> (to mod mtd_erasesize m = 0 \<and> p = to)"

lemma mtd_put_join:
  "off + length ys + length zs \<le> length (mtd_bytes m) \<Longrightarrow>
   mtd_put (mtd_put m off ys) (off + length ys) zs = mtd_put m off (ys @ zs)"
  by (simp add: mtd_put_def put_slice_join)

lemma mtd_put_take_join:
  assumes "n + l \<le> length buf" and "to + n + l \<le> length (mtd_bytes m)"
  shows "mtd_put (mtd_put m to (take n buf)) (to + n) (take l (drop n buf)) = mtd_put m to (take (n + l) buf)"
  using mtd_put_join [of to "take n buf" "take l (drop n buf)" m] assms
  by (simp add: take_add)

lemma write_loop_correct:
  assumes "sound_dev m" and "uio_fine (mtd_erasesize m) io" and "to + len \<le> length (mtd_bytes m)"
    and "len \<le> length buf" and "loop_ready m to len p"
  shows "\<exists>q. write_loop io k buf to len ret \<lparr>dev = m, pos = p\<rparr>
      = (if len = 0 then ret else int (mtd_erasesize m), \<lparr>dev = mtd_put m to (take len buf), pos = q\<rparr>)"
  using assms
proof (induction len arbitrary: k buf to ret m p rule: less_induct)
  case (less len)
  let ?es = "mtd_erasesize m"
  note m = less.prems(1) and io = less.prems(2)
  note es = sound_dev_pos [OF m]
  show ?case
  proof (cases "len = 0")
    case True
    then show ?thesis by (subst write_loop.simps) (simp add: mtd_put_def put_slice_def)
  next
    case False
    then have to: "to < length (mtd_bytes m)" using less.prems(3) by simp
    have test: "(len AND (?es - 1) \<noteq> 0 \<or> len < ?es) = (len mod ?es \<noteq> 0)"
      using False by (auto simp: sound_dev_mask [OF m])
    define n where "n = (if len mod ?es \<noteq> 0 then min len (?es - to mod ?es) else ?es)"
    have ge: "?es \<le> len" if "len mod ?es = 0" using that False by (auto intro: dvd_imp_le)
    have n: "0 < n" "n \<le> len"
      using es mod_less_divisor [OF es, of to] ge False by (auto simp: n_def)
    obtain q where turn: "(if len mod ?es \<noteq> 0 then write_piece io k buf to len \<lparr>dev = m, pos = p\<rparr>
          else write_whole io k buf to \<lparr>dev = m, pos = p\<rparr>)
        = (int ?es, n, \<lparr>dev = mtd_put m to (take n buf), pos = q\<rparr>)"
      and ready: "loop_ready (mtd_put m to (take n buf)) (to + n) (len - n) q"
    proof (cases "len mod ?es \<noteq> 0")
      case True
      then have nn: "n = min len (?es - to mod ?es)" by (simp add: n_def)
      let ?q = "to - to mod ?es + ?es"
      have "len - n = 0 \<or> ((to + n) mod ?es = 0 \<and> ?q = to + n)"
      proof (cases "n = len")
        case False
        then have "n = ?es - to mod ?es" using nn by (simp add: min_def split: if_splits)
        then have e: "?q = to + n" using mod_less_divisor [OF es, of to] by simp
        have "?q mod ?es = 0" by (simp add: minus_mod_eq_mult_div)
        with e show ?thesis by simp
      qed simp
      with True that [of ?q] write_piece_fine [OF m io to nn] less.prems(4) n show ?thesis
        by (auto simp: loop_ready_def)
    next
      case False
      then have nn: "n = ?es" and al: "to mod ?es = 0" "p = to"
        using less.prems(5) \<open>len \<noteq> 0\<close> by (auto simp: n_def loop_ready_def)
      have "?es \<le> length buf" using ge False less.prems(4) by simp
      from write_whole_fine [OF m io to al(1) this] that [of "to + ?es"] False nn al
      show ?thesis by (auto simp: loop_ready_def)
    qed
    let ?m = "mtd_put m to (take n buf)"
    have fit: "to + length (take n buf) \<le> length (mtd_bytes m)" using n less.prems(3) by simp
    have "sound_dev ?m" "uio_fine (mtd_erasesize ?m) io" "to + n + (len - n) \<le> length (mtd_bytes ?m)"
      "len - n \<le> length (drop n buf)"
      using m io fit n less.prems(3,4) by simp_all
    from less.IH [OF _ this ready, of "Suc k" "int ?es"] n
    obtain r where rest: "write_loop io (Suc k) (drop n buf) (to + n) (len - n) (int ?es) \<lparr>dev = ?m, pos = q\<rparr>
        = (int ?es, \<lparr>dev = mtd_put ?m (to + n) (take (len - n) (drop n buf)), pos = r\<rparr>)"
      by auto
    have "mtd_put ?m (to + n) (take (len - n) (drop n buf)) = mtd_put m to (take len buf)"
      using mtd_put_take_join [of n "len - n" buf to m] n less.prems(3,4) by simp
    then show ?thesis
      using False turn [folded test] rest n by (subst write_loop.simps) (simp add: Let_def)
  qed
qed

lemma write_loop_mtd:
  assumes "sound_dev m" and "uio_fine (mtd_erasesize m) io" and "to + len \<le> length (mtd_bytes m)"
    and "len \<le> length buf" and "loop_ready m to len 0"
  shows "\<exists>f. write_loop io 0 buf to len 0 \<lparr>dev = m, pos = 0\<rparr>
      = (if len = 0 then 0 else int (mtd_erasesize m), f) \<and> dev f = mtd_put m to (take len buf)"
  using write_loop_correct [OF assms, of 0 0] by auto

section \<open>Properties\<close>

definition demo_uio :: "nat \<Rightarrow> uio" where
  "demo_uio es = \<lparr>u_open = True, u_info = True, u_malloc = (\<lambda>_. Some (replicate es NUL)),
     u_read = (\<lambda>_. True), u_erase = (\<lambda>_. True), u_write = (\<lambda>_. True)\<rparr>"

definition demo_world :: "nat \<Rightarrow> nat \<Rightarrow> world" where
  "demo_world es blocks =
     \<lparr>proc_mtd = Some [(None, ''dev: size erasesize name''), (Some 0, ''Bootloader''),
        (Some 1, ''Config''), (Some 2, ''Factory'')],
      devs = (\<lambda>_. \<lparr>mtd_bytes = replicate (blocks * es) NUL, mtd_erasesize = es\<rparr>)\<rparr>"

lemma demo_uio_fine [simp]: "uio_fine es (demo_uio es)"
  by (simp add: uio_fine_def demo_uio_def)

lemma demo_open [simp]:
  "mtd_open (demo_uio es) ''Config'' (demo_world es b) = Some 1"
  "mtd_open (demo_uio es) ''Factory'' (demo_world es b) = Some 2"
  by (simp_all add: mtd_open_def demo_world_def demo_uio_def)

lemma demo_dev [simp]:
  "mtd_erasesize (devs (demo_world es b) i) = es" "length (mtd_bytes (devs (demo_world es b) i)) = b * es"
  by (simp_all add: demo_world_def)

lemma demo_sound [simp]: "sound_dev (devs (demo_world (2 ^ k) b) i)"
  by (auto simp: sound_dev_def)

lemma mtd_open_devs [simp]: "mtd_open io nm (w\<lparr>devs := d\<rparr>) = mtd_open io nm w"
  by (simp add: mtd_open_def)

text \<open>C27. \<open>flash_write\<close> writes what it is asked to write: on a device that does not fail, for any
  range inside the partition that starts at 0 or is not a whole number of erase blocks, it
  answers success, the range holds the buffer's bytes, every other byte and every other partition
  is unchanged, and \<open>flash_read\<close> of the range gives the bytes back.\<close>

theorem flash_write_stores_range:
  assumes "mtd_open io ''Config'' w = Some i" and "sound_dev (devs w i)"
    and "uio_fine (mtd_erasesize (devs w i)) io"
    and "to + len \<le> length (mtd_bytes (devs w i))" and "len \<le> length buf" and "0 < len"
    and "to = 0 \<or> len mod mtd_erasesize (devs w i) \<noteq> 0"
  shows "\<exists>w'. flash_write io buf to len w = (int (mtd_erasesize (devs w i)), w')
    \<and> devs w' = (devs w)(i := mtd_put (devs w i) to (take len buf))
    \<and> (\<forall>b. length b = len \<longrightarrow> flash_read io w' b to len = Inr (int len, take len buf))"
proof -
  have "loop_ready (devs w i) to len 0" using assms(7) by (auto simp: loop_ready_def)
  from write_loop_mtd [OF assms(2-5) this] obtain f where
    f: "write_loop io 0 buf to len 0 \<lparr>dev = devs w i, pos = 0\<rparr> = (int (mtd_erasesize (devs w i)), f)"
      "dev f = mtd_put (devs w i) to (take len buf)"
    using assms(6) by auto
  have "u_info io" "u_read io 0" using assms(3) by (simp_all add: uio_fine_def)
  then show ?thesis
    using f assms(1,4,5)
    by (auto simp: flash_write_def write_part_def flash_read_def dev_read_def seek_def dev_size_def Let_def
        put_slice_def [of "_ :: byte list" 0])
qed

theorem flash_write_stores_range_witness:
  "\<exists>w'. flash_write (demo_uio 16) (replicate 20 (CHR ''x'')) 8 20 (demo_world 16 4) = (16, w')
    \<and> flash_read (demo_uio 16) w' (replicate 20 NUL) 8 20 = Inr (20, replicate 20 (CHR ''x''))"
  using flash_write_stores_range [of "demo_uio 16" "demo_world 16 4" 1 8 20 "replicate 20 (CHR ''x'')"]
    demo_sound [of 4 4 1] by auto

text \<open>C32. Writing one whole, aligned erase block other than the first, on a device that does not fail, goes to
  the wrong place: \<open>flash_write\<close> erases the block at \<open>to\<close> but writes at the file position 0, and still
  answers success.  The block asked for is left erased, and the first block of the partition becomes the
  bitwise AND of its old contents and the data.\<close>

theorem flash_write_whole_block_misplaced:
  assumes "mtd_open io ''Config'' w = Some i" and "sound_dev (devs w i)"
    and "uio_fine (mtd_erasesize (devs w i)) io"
    and "to + mtd_erasesize (devs w i) \<le> length (mtd_bytes (devs w i))"
    and "length buf = mtd_erasesize (devs w i)"
    and "0 < to" and "to mod mtd_erasesize (devs w i) = 0"
  shows "\<exists>w'. flash_write io buf to (mtd_erasesize (devs w i)) w = (int (mtd_erasesize (devs w i)), w')
    \<and> get_slice (mtd_bytes (devs w' i)) to (mtd_erasesize (devs w i))
        = replicate (mtd_erasesize (devs w i)) (CHR 0xFF)
    \<and> get_slice (mtd_bytes (devs w' i)) 0 (mtd_erasesize (devs w i))
        = map2 nor_and (get_slice (mtd_bytes (devs w i)) 0 (mtd_erasesize (devs w i))) buf"
proof -
  let ?m = "devs w i" and ?es = "mtd_erasesize (devs w i)"
  note es = sound_dev_pos [OF assms(2)]
  have ge: "?es \<le> to" using assms(6,7) by (auto intro: dvd_imp_le)
  have ok: "u_info io" "u_erase io 0" "u_write io 0" using assms(3) by (simp_all add: uio_fine_def)
  let ?m1 = "mtd_put ?m to (replicate ?es (CHR 0xFF))"
  let ?d = "map2 nor_and (get_slice (mtd_bytes ?m) 0 ?es) buf"
  have ld: "length ?d = ?es" using assms(4,5) by simp
  have "(?es AND (?es - 1) \<noteq> 0 \<or> ?es < ?es) = False" using sound_dev_mask [OF assms(2)] by simp
  note test = this [simplified]
  have er: "dev_erase to ?es \<lparr>dev = ?m, pos = 0\<rparr> = (0, \<lparr>dev = ?m1, pos = 0\<rparr>)"
    using assms(4,7) by (simp add: dev_erase_def chip_erase_def mtd_put_def)
  have "get_slice (mtd_bytes ?m1) 0 ?es = get_slice (mtd_bytes ?m) 0 ?es"
    using ge assms(4) by (simp add: get_put_disjoint)
  then have wr: "dev_write (take ?es buf) \<lparr>dev = ?m1, pos = 0\<rparr> = (int ?es, \<lparr>dev = mtd_put ?m1 0 ?d, pos = ?es\<rparr>)"
    using assms(4,5) es ge ld
    by (auto simp: dev_write_def dev_size_def chip_write_def Let_def mtd_put_def)
  have "write_whole io 0 buf to \<lparr>dev = ?m, pos = 0\<rparr> = (int ?es, ?es, \<lparr>dev = mtd_put ?m1 0 ?d, pos = ?es\<rparr>)"
    using ok er wr by (simp add: write_whole_def Let_def)
  then have loop: "write_loop io 0 buf to ?es 0 \<lparr>dev = ?m, pos = 0\<rparr>
      = (int ?es, \<lparr>dev = mtd_put ?m1 0 ?d, pos = ?es\<rparr>)"
    using es test by (subst write_loop.simps) (simp add: Let_def write_loop.simps)
  have a: "get_slice (mtd_bytes (mtd_put ?m1 0 ?d)) to ?es = replicate ?es (CHR 0xFF)"
    using ge ld assms(4) by (simp add: get_put_disjoint)
  have b: "get_slice (mtd_bytes (mtd_put ?m1 0 ?d)) 0 ?es = ?d"
    using ge ld assms(4) by simp
  show ?thesis
    using loop a b ok(1) assms(1,4) by (simp add: flash_write_def write_part_def)
qed

theorem flash_write_whole_block_misplaced_witness:
  "\<exists>w'. flash_write (demo_uio 16) (replicate 16 (CHR ''x'')) 32 16 (demo_world 16 4) = (16, w')
    \<and> get_slice (mtd_bytes (devs w' 1)) 32 16 = replicate 16 (CHR 0xFF)"
  using flash_write_whole_block_misplaced [of "demo_uio 16" "demo_world 16 4" 1 32 "replicate 16 (CHR ''x'')"]
    demo_sound [of 4 4 1] by auto

text \<open>The shared key survives: what \<open>flash_write_passkey_ralink\<close> stores in the \<open>Factory\<close>
  partition, \<open>flash_read_sharekey\<close> reads back (its first eight bytes).\<close>

theorem passkey_round_trip:
  assumes "mtd_open io ''Factory'' w = Some i" and "sound_dev (devs w i)"
    and "uio_fine (mtd_erasesize (devs w i)) io" and "0x6000 \<le> length (mtd_bytes (devs w i))"
    and "0x1000 \<le> length buf" and "0x1000 mod mtd_erasesize (devs w i) \<noteq> 0" and "length b = 8"
  shows "\<exists>w'. flash_write_passkey_ralink io buf w = (int (mtd_erasesize (devs w i)), w')
    \<and> flash_read_sharekey io w' (Some b) = Inr (8, Some (take 8 buf))"
proof -
  have "loop_ready (devs w i) 0x5000 0x1000 0" using assms(6) by (auto simp: loop_ready_def)
  from write_loop_mtd [OF assms(2,3) _ assms(5) this] obtain f where
    f: "write_loop io 0 buf 0x5000 0x1000 0 \<lparr>dev = devs w i, pos = 0\<rparr>
          = (int (mtd_erasesize (devs w i)), f)"
      "dev f = mtd_put (devs w i) 0x5000 (take 0x1000 buf)"
    using assms(4) by auto
  have "get_slice (put_slice (mtd_bytes (devs w i)) 0x5000 (take 0x1000 buf)) 0x5000 8 = take 8 buf"
    using assms(4,5) by (intro nth_equalityI) (simp_all add: nth_get_slice nth_put_slice)
  moreover have "u_info io" "u_read io 0" using assms(3) by (simp_all add: uio_fine_def)
  ultimately show ?thesis
    using f assms(1,4,5,7)
    by (auto simp: flash_write_passkey_ralink_def flash_write_ralink_eeprom_def write_part_def
        flash_read_sharekey_def read_factory_def dev_read_def seek_def dev_size_def Let_def
        put_slice_def [of b 0])
qed

theorem passkey_round_trip_witness:
  "\<exists>w'. flash_write_passkey_ralink (demo_uio (2 ^ 16)) (replicate 0x1000 (CHR ''k'')) (demo_world (2 ^ 16) 1)
      = (2 ^ 16, w')
    \<and> flash_read_sharekey (demo_uio (2 ^ 16)) w' (Some (replicate 8 NUL)) = Inr (8, Some (replicate 8 (CHR ''k'')))"
  using passkey_round_trip [of "demo_uio (2 ^ 16)" "demo_world (2 ^ 16) 1" 2 "replicate 0x1000 (CHR ''k'')"
      "replicate 8 NUL"] demo_sound [of 16 1 2] by auto

end
