(* ===== verification/Handle.thy ===== *)
theory Handle
  imports Prelude
begin

text \<open>
  The handle allocator of the web server (\<open>user/goahead/src_tongyong/h.c\<close>): growing arrays of
  pointers addressed by small integers, used by the symbol tables and by the database for its
  tables and rows.

  A map is \<open>None\<close> (the null pointer) or the array with its count of used handles; a null entry is
  \<open>None\<close>.  The array's length is the source's \<open>H_LEN\<close>.  \<open>halloc\<close> says which allocations succeed:
  the first array, growing it, and the entry.  The \<open>a_assert\<close> checks are compiled out, so an access
  through a null map or outside the array is \<open>OutOfBounds\<close>.
\<close>

section \<open>Operations\<close>

record 'a hlist =
  h_used :: nat
  h_slots :: "'a option list"

record halloc =
  a_first :: bool
  a_grow :: bool
  a_entry :: bool

definition H_INCR :: nat where "H_INCR = 16"

definition hAlloc :: "halloc \<Rightarrow> 'a hlist option \<Rightarrow> int \<times> 'a hlist option" where
  "hAlloc e hm =
     (case (case hm of
              None \<Rightarrow> if a_first e then Some \<lparr>h_used = 0, h_slots = replicate H_INCR None\<rparr> else None
            | Some mp \<Rightarrow> Some mp) of
        None \<Rightarrow> (- 1, hm)
      | Some mp \<Rightarrow>
          (case (if h_used mp < length (h_slots mp)
                 then find_index (\<lambda>x. x = None) (h_slots mp) else None) of
             Some handle \<Rightarrow> (int handle, Some (mp\<lparr>h_used := h_used mp + 1\<rparr>))
           | None \<Rightarrow>
               if a_grow e
               then (int (length (h_slots mp)),
                     Some (mp\<lparr>h_slots := h_slots mp @ replicate H_INCR None, h_used := h_used mp + 1\<rparr>))
               else (- 1, Some mp)))"

text \<open>The scan from the top for the greatest handle in use: that handle plus one, or 0.\<close>

fun last_used :: "'a option list \<Rightarrow> nat" where
  "last_used [] = 0"
| "last_used (x # xs) =
     (let k = last_used xs in if 0 < k then Suc k else if x \<noteq> None then 1 else 0)"

definition hFree :: "'a hlist option \<Rightarrow> int \<Rightarrow> (int \<times> 'a hlist option) res" where
  "hFree hm handle =
     (case hm of
        None \<Rightarrow> Inl OutOfBounds
      | Some mp \<Rightarrow>
          if handle < 0 \<or> int (length (h_slots mp)) \<le> handle then Inl OutOfBounds
          else
            (let mp = mp\<lparr>h_slots := (h_slots mp)[nat handle := None], h_used := h_used mp - 1\<rparr>
             in if h_used mp = 0 then Inr (0, None)
                else if h_used mp < length (h_slots mp) then Inr (int (last_used (h_slots mp)), Some mp)
                else Inr (int (length (h_slots mp)) + 1, Some mp)))"

text \<open>\<open>fresh\<close> is the new entry, all its bytes zero; \<open>size_pos\<close> says whether the size asked for is
  positive (with size 0 the slot stays null).\<close>

definition hAllocEntry ::
  "halloc \<Rightarrow> bool \<Rightarrow> 'a \<Rightarrow> 'a hlist option \<Rightarrow> nat \<Rightarrow> (int \<times> 'a hlist option \<times> nat) res" where
  "hAllocEntry e size_pos fresh list mx =
     (case hAlloc e list of
        (hid, list1) \<Rightarrow>
          if hid < 0 then Inr (- 1, list1, mx)
          else if size_pos \<and> \<not> a_entry e then res_bind (hFree list1 hid) (\<lambda>(_, list2). Inr (- 1, list2, mx))
          else
            (let list2 = (if size_pos
               then map_option (\<lambda>mp. mp\<lparr>h_slots := (h_slots mp)[nat hid := Some fresh]\<rparr>) list1 else list1)
             in Inr (hid, list2, if int mx \<le> hid then nat hid + 1 else mx)))"

section \<open>Meaning\<close>

definition hget :: "'a hlist option \<Rightarrow> nat \<Rightarrow> 'a option" where
  "hget hm h =
     (case hm of None \<Rightarrow> None
      | Some mp \<Rightarrow> if h < length (h_slots mp) then h_slots mp ! h else None)"

fun count_used :: "'a option list \<Rightarrow> nat" where
  "count_used [] = 0"
| "count_used (x # xs) = (if x = None then 0 else 1) + count_used xs"

text \<open>A sound map: never an empty array, and the count is the number of entries.\<close>

definition hwf :: "'a hlist option \<Rightarrow> bool" where
  "hwf hm \<longleftrightarrow>
     (case hm of None \<Rightarrow> True
      | Some mp \<Rightarrow> h_used mp = count_used (h_slots mp) \<and> 0 < h_used mp)"

lemma count_used_le: "count_used xs \<le> length xs"
  by (induction xs) auto

lemma count_used_lt: "count_used xs < length xs \<longleftrightarrow> (\<exists>i < length xs. xs ! i = None)"
proof (induction xs)
  case Nil
  then show ?case by simp
next
  case (Cons x xs)
  show ?case
  proof (cases x)
    case None
    then show ?thesis using count_used_le [of xs] by (simp add: less_Suc_eq_le) (rule exI [of _ 0], simp)
  next
    case (Some y)
    then have "(\<exists>i < length (x # xs). (x # xs) ! i = None) \<longleftrightarrow> (\<exists>i < length xs. xs ! i = None)"
      by (simp add: Ex_less_Suc2)
    with Cons Some show ?thesis by simp
  qed
qed

lemma count_used_replicate [simp]: "count_used (replicate n None) = 0"
  by (induction n) auto

lemma count_used_append [simp]: "count_used (xs @ ys) = count_used xs + count_used ys"
  by (induction xs) auto

lemma count_used_set:
  "i < length xs \<Longrightarrow> xs ! i = None \<Longrightarrow> count_used (xs[i := Some x]) = Suc (count_used xs)"
proof (induction xs arbitrary: i)
  case Nil
  then show ?case by simp
next
  case (Cons y ys)
  then show ?case by (cases i) auto
qed

lemma count_used_clear:
  "i < length xs \<Longrightarrow> xs ! i \<noteq> None \<Longrightarrow> Suc (count_used (xs[i := None])) = count_used xs"
proof (induction xs arbitrary: i)
  case Nil
  then show ?case by simp
next
  case (Cons y ys)
  then show ?case by (cases i) auto
qed

lemma count_used_0: "count_used xs = 0 \<longleftrightarrow> (\<forall>i < length xs. xs ! i = None)"
  by (induction xs) (auto simp: less_Suc_eq_0_disj)

lemma last_used_le: "last_used xs \<le> length xs"
  by (induction xs) (auto simp: Let_def)

lemma last_used_top: "0 < last_used xs \<Longrightarrow> xs ! (last_used xs - 1) \<noteq> None"
  by (induction xs) (auto simp: Let_def nth_Cons' split: if_splits)

lemma last_used_above: "last_used xs \<le> i \<Longrightarrow> i < length xs \<Longrightarrow> xs ! i = None"
proof (induction xs arbitrary: i)
  case Nil
  then show ?case by simp
next
  case (Cons x xs)
  then show ?case by (cases i) (auto simp: Let_def split: if_splits)
qed

section \<open>Allocation and release\<close>

definition halloc_fine :: halloc where
  "halloc_fine = \<lparr>a_first = True, a_grow = True, a_entry = True\<rparr>"

text \<open>\<open>r\<close> is an index of the array.\<close>

definition in_array :: "nat \<Rightarrow> 'a hlist option \<Rightarrow> bool" where
  "in_array r hm = (case hm of None \<Rightarrow> False | Some mp \<Rightarrow> r < length (h_slots mp))"

text \<open>An allocation fails and changes nothing, or hands out the first free handle.\<close>

lemma hAlloc_cases:
  fixes hm :: "'a hlist option"
  assumes "hwf hm"
  shows "(hAlloc e hm = (- 1, hm) \<and> \<not> (a_first e \<and> a_grow e))
    \<or> (\<exists>h mp. hAlloc e hm = (int h, Some mp) \<and> h < length (h_slots mp)
      \<and> h_slots mp ! h = None \<and> hget hm h = None \<and> (\<forall>k < h. hget hm k \<noteq> None)
      \<and> h_used mp = Suc (count_used (h_slots mp))
      \<and> (\<forall>k < length (h_slots mp). h_slots mp ! k = hget hm k)
      \<and> (\<forall>k. length (h_slots mp) \<le> k \<longrightarrow> hget hm k = None)
      \<and> (\<forall>k. in_array k hm \<longrightarrow> in_array k (Some mp)))"
proof (cases hm)
  case None
  have "find_index (\<lambda>x. x = None) (replicate H_INCR (None :: 'a option)) = Some 0"
    by (simp add: H_INCR_def eval_nat_numeral)
  then show ?thesis using None by (auto simp: hAlloc_def hget_def in_array_def H_INCR_def)
next
  case (Some mp)
  let ?xs = "h_slots mp"
  have u: "h_used mp = count_used ?xs" using assms Some by (simp add: hwf_def)
  show ?thesis
  proof (cases "h_used mp < length ?xs")
    case True
    then obtain i where i: "i < length ?xs" "?xs ! i = None" using u count_used_lt by fastforce
    then obtain h where h: "find_index (\<lambda>x. x = None) ?xs = Some h"
      by (cases "find_index (\<lambda>x. x = None) ?xs") (use nth_mem [OF i(1)] in \<open>auto simp: find_index_None\<close>)
    then have hh: "h < length ?xs" "?xs ! h = None" "\<forall>k < h. ?xs ! k \<noteq> None"
      by (auto simp: find_index_Some)
    have "hAlloc e hm = (int h, Some (mp\<lparr>h_used := h_used mp + 1\<rparr>))"
      using Some True h by (simp add: hAlloc_def)
    then show ?thesis using hh u Some by (auto simp: hget_def in_array_def)
  next
    case False
    then have full: "\<forall>i < length ?xs. ?xs ! i \<noteq> None" using u count_used_lt by fastforce
    let ?mp = "mp\<lparr>h_slots := ?xs @ replicate H_INCR None, h_used := h_used mp + 1\<rparr>"
    have "hAlloc e hm = (if a_grow e then (int (length ?xs), Some ?mp) else (- 1, hm))"
      using Some False by (simp add: hAlloc_def)
    then show ?thesis using u Some full
      by (auto simp: hget_def H_INCR_def nth_append in_array_def)
  qed
qed

lemma hAllocEntry_cases:
  assumes "hwf hm"
  shows "(\<exists>hm'. hAllocEntry e True x hm mx = Inr (- 1, hm', mx) \<and> hget hm' = hget hm \<and> hwf hm'
      \<and> (\<forall>k. in_array k hm \<longrightarrow> in_array k hm') \<and> e \<noteq> halloc_fine)
    \<or> (\<exists>h hm'. hAllocEntry e True x hm mx = Inr (int h, hm', max mx (Suc h))
      \<and> hget hm h = None \<and> (\<forall>k < h. hget hm k \<noteq> None) \<and> hget hm' = (hget hm)(h \<mapsto> x) \<and> hwf hm'
      \<and> in_array h hm' \<and> (\<forall>k. in_array k hm \<longrightarrow> in_array k hm'))"
  (is "?fail \<or> ?ok")
proof (cases "hAlloc e hm = (- 1, hm) \<and> \<not> (a_first e \<and> a_grow e)")
  case True
  then have ?fail using assms by (auto simp: hAllocEntry_def halloc_fine_def)
  then show ?thesis ..
next
  case False
  then obtain h mp where h: "hAlloc e hm = (int h, Some mp)" "h < length (h_slots mp)"
    "h_slots mp ! h = None" "hget hm h = None" "\<forall>k < h. hget hm k \<noteq> None"
    "h_used mp = Suc (count_used (h_slots mp))"
    "\<forall>k < length (h_slots mp). h_slots mp ! k = hget hm k"
    "\<forall>k. length (h_slots mp) \<le> k \<longrightarrow> hget hm k = None"
    "\<forall>k. in_array k hm \<longrightarrow> in_array k (Some mp)"
    using hAlloc_cases [OF assms, of e] by blast
  show ?thesis
  proof (cases "a_entry e")
    case True
    let ?hm = "Some (mp\<lparr>h_slots := (h_slots mp)[h := Some x]\<rparr>)"
    have "hAllocEntry e True x hm mx = Inr (int h, ?hm, max mx (Suc h))"
      using h(1) True by (simp add: hAllocEntry_def max_def)
    moreover have "hget ?hm = (hget hm)(h \<mapsto> x)"
      using h(2,7,8) by (auto simp: hget_def fun_eq_iff nth_list_update)
    moreover have "hwf ?hm" using h(2,3,6) by (simp add: hwf_def count_used_set)
    moreover have "in_array h ?hm \<and> (\<forall>k. in_array k hm \<longrightarrow> in_array k ?hm)"
      using h(2,9) by (simp add: in_array_def)
    ultimately show ?thesis using h(4,5) by blast
  next
    case False
    have upd: "(h_slots mp)[h := None] = h_slots mp" using h(2,3) list_update_id [of "h_slots mp" h] by simp
    let ?hm = "if count_used (h_slots mp) = 0 then None else Some (mp\<lparr>h_used := count_used (h_slots mp)\<rparr>)"
    have lt: "count_used (h_slots mp) < length (h_slots mp)" using h(2,3) count_used_lt by blast
    have mx: "hAllocEntry e True x hm mx = Inr (- 1, ?hm, mx)"
      using h(1,2,6) False lt by (simp add: hAllocEntry_def hFree_def upd Let_def)
    have g: "hget ?hm = hget hm"
    proof (cases "count_used (h_slots mp) = 0")
      case True
      then have "\<forall>k < length (h_slots mp). h_slots mp ! k = None" by (simp only: count_used_0)
      then show ?thesis using True h(7,8) by (auto simp: hget_def [of None] fun_eq_iff) (metis not_le)
    next
      case False
      then show ?thesis using h(7,8) by (auto simp: hget_def [of "Some _"] fun_eq_iff)
    qed
    have "hwf ?hm" by (simp add: hwf_def)
    moreover have "in_array k ?hm" if "in_array k hm" for k
    proof (cases "count_used (h_slots mp) = 0")
      case True
      have "\<exists>j. hget hm j \<noteq> None"
        using assms that count_used_0 [of "h_slots (the hm)"]
        by (auto simp: hwf_def in_array_def hget_def split: option.splits)
      then obtain j where "hget hm j \<noteq> None" ..
      moreover have "hget hm j = None" using True g by (simp add: fun_eq_iff) (simp add: hget_def [of None])
      ultimately show ?thesis by blast
    next
      case False
      then show ?thesis using h(9) that by (auto simp: in_array_def)
    qed
    ultimately show ?thesis using mx g False by (auto simp: halloc_fine_def)
  qed
qed

lemma hAllocEntry_fine:
  assumes "hwf hm"
  shows "\<exists>h hm'. hAllocEntry halloc_fine True x hm mx = Inr (int h, hm', max mx (Suc h))
    \<and> hget hm h = None \<and> (\<forall>k < h. hget hm k \<noteq> None) \<and> hget hm' = (hget hm)(h \<mapsto> x) \<and> hwf hm'
    \<and> in_array h hm' \<and> (\<forall>k. in_array k hm \<longrightarrow> in_array k hm')"
  using hAllocEntry_cases [OF assms, of halloc_fine x mx] by blast

lemma hFree_ok:
  assumes "hwf hm" and "hget hm h \<noteq> None"
  shows "\<exists>k hm'. hFree hm (int h) = Inr (int k, hm') \<and> hget hm' = (hget hm)(h := None) \<and> hwf hm'
    \<and> (\<forall>j. hget hm' j \<noteq> None \<longrightarrow> j < k) \<and> (0 < k \<longrightarrow> hget hm' (k - 1) \<noteq> None)
    \<and> (\<forall>j < k. in_array j hm')"
proof -
  obtain mp where mp: "hm = Some mp" "h < length (h_slots mp)" "h_slots mp ! h \<noteq> None"
    using assms(2) by (auto simp: hget_def split: option.splits if_splits)
  let ?xs = "(h_slots mp)[h := None]"
  have u: "h_used mp = Suc (count_used ?xs)"
    using assms(1) mp count_used_clear [OF mp(2,3)] by (simp add: hwf_def)
  have lt: "count_used ?xs < length ?xs" using mp(2) count_used_lt [of ?xs] by auto
  show ?thesis
  proof (cases "count_used ?xs = 0")
    case True
    then have "\<forall>k < length ?xs. ?xs ! k = None" by (simp only: count_used_0)
    then have "(hget hm)(h := None) = (\<lambda>_. None)"
      using mp by (auto simp: hget_def fun_eq_iff nth_list_update split: if_splits)
    then show ?thesis
      using True u mp by (auto simp: hFree_def hget_def hwf_def intro!: exI [of _ 0] exI [of _ None])
  next
    case False
    let ?mp = "mp\<lparr>h_slots := ?xs, h_used := count_used ?xs\<rparr>"
    have e: "hFree hm (int h) = Inr (int (last_used ?xs), Some ?mp)"
      using False u mp lt by (simp add: hFree_def Let_def)
    have g: "hget (Some ?mp) = (hget hm)(h := None)"
      using mp by (auto simp: hget_def fun_eq_iff nth_list_update)
    have top: "hget (Some ?mp) (last_used ?xs - 1) \<noteq> None" if "0 < last_used ?xs"
    proof -
      have "last_used ?xs - 1 < length ?xs" using that last_used_le [of ?xs] by linarith
      then show ?thesis using last_used_top [OF that] by (simp add: hget_def)
    qed
    have above: "j < last_used ?xs" if "hget (Some ?mp) j \<noteq> None" for j
    proof (rule ccontr)
      assume "\<not> j < last_used ?xs"
      then have "last_used ?xs \<le> j" by simp
      then show False
        using that last_used_above [of ?xs j] by (simp add: hget_def split: if_splits)
    qed
    have "hwf (Some ?mp)" using False by (simp add: hwf_def)
    with e g top above have "hFree hm (int h) = Inr (int (last_used ?xs), Some ?mp)
      \<and> hget (Some ?mp) = (hget hm)(h := None) \<and> hwf (Some ?mp)
      \<and> (\<forall>j. hget (Some ?mp) j \<noteq> None \<longrightarrow> j < last_used ?xs)
      \<and> (0 < last_used ?xs \<longrightarrow> hget (Some ?mp) (last_used ?xs - 1) \<noteq> None)
      \<and> (\<forall>j < last_used ?xs. in_array j (Some ?mp))"
      using last_used_le [of ?xs] by (auto simp: in_array_def)
    then show ?thesis by (intro exI)
  qed
qed

section \<open>The interface of a handle pool\<close>

text \<open>What the clients (symbol tables, database) rely on: a new entry gets a handle nobody holds,
  everybody else's entries stay, and a released handle names nothing.\<close>

locale handle_pool =
  fixes look :: "'t \<Rightarrow> nat \<Rightarrow> 'a option"
    and put :: "'t \<Rightarrow> 'a \<Rightarrow> nat \<times> 't"
    and del :: "'t \<Rightarrow> nat \<Rightarrow> 't"
    and sound :: "'t \<Rightarrow> bool"
  assumes put_fresh: "sound t \<Longrightarrow> look t (fst (put t x)) = None"
    and put_look: "sound t \<Longrightarrow> look (snd (put t x)) = (look t)(fst (put t x) \<mapsto> x)"
    and put_sound: "sound t \<Longrightarrow> sound (snd (put t x))"
    and del_look: "sound t \<Longrightarrow> look t h \<noteq> None \<Longrightarrow> look (del t h) = (look t)(h := None)"
    and del_sound: "sound t \<Longrightarrow> look t h \<noteq> None \<Longrightarrow> sound (del t h)"
begin

lemma put_keeps: "sound t \<Longrightarrow> look t h = Some y \<Longrightarrow> look (snd (put t x)) h = Some y \<and> fst (put t x) \<noteq> h"
  using put_fresh [of t x] put_look [of t x] by auto

lemma put_then_del: "sound t \<Longrightarrow> look (del (snd (put t x)) (fst (put t x))) = look t"
  by (simp add: del_look put_look put_sound put_fresh fun_upd_idem)

primrec put_all :: "'t \<Rightarrow> 'a list \<Rightarrow> nat list \<times> 't" where
  "put_all t [] = ([], t)"
| "put_all t (x # xs) =
     (let r = put t x; q = put_all (snd r) xs in (fst r # fst q, snd q))"

lemma put_all_keeps:
  "sound t \<Longrightarrow> look t h = Some y \<Longrightarrow> look (snd (put_all t xs)) h = Some y \<and> h \<notin> set (fst (put_all t xs))"
proof (induction xs arbitrary: t)
  case Nil
  then show ?case by simp
next
  case (Cons x xs)
  from put_keeps [OF Cons.prems, of x]
  have "look (snd (put t x)) h = Some y" "fst (put t x) \<noteq> h" by auto
  with Cons.IH [OF put_sound [OF Cons.prems(1)], of x] show ?case by (simp add: Let_def)
qed

lemma put_all_distinct:
  "sound t \<Longrightarrow> distinct (fst (put_all t xs)) \<and> length (fst (put_all t xs)) = length xs
    \<and> map (look (snd (put_all t xs))) (fst (put_all t xs)) = map Some xs"
proof (induction xs arbitrary: t)
  case Nil
  then show ?case by simp
next
  case (Cons x xs)
  have "look (snd (put t x)) (fst (put t x)) = Some x" using put_look [OF Cons.prems, of x] by simp
  from put_all_keeps [OF put_sound [OF Cons.prems] this, of xs] Cons.IH [OF put_sound [OF Cons.prems, of x]]
  show ?case by (simp add: Let_def)
qed

end

definition hput :: "'a hlist option \<Rightarrow> 'a \<Rightarrow> nat \<times> 'a hlist option" where
  "hput hm x = (case hAllocEntry halloc_fine True x hm 0 of
     Inr (h, hm', _) \<Rightarrow> (nat h, hm') | Inl f \<Rightarrow> (0, hm))"

definition hdel :: "'a hlist option \<Rightarrow> nat \<Rightarrow> 'a hlist option" where
  "hdel hm h = (case hFree hm (int h) of Inr (_, hm') \<Rightarrow> hm' | Inl f \<Rightarrow> hm)"

interpretation hpool: handle_pool hget hput hdel hwf
proof
  fix t :: "'a hlist option" and x
  assume t: "hwf t"
  obtain h t' where e: "hAllocEntry halloc_fine True x t 0 = Inr (int h, t', max 0 (Suc h))"
    "hget t h = None" "hget t' = (hget t)(h \<mapsto> x)" "hwf t'"
    using hAllocEntry_fine [OF t, of x 0] by blast
  have p: "hput t x = (h, t')" using e(1) by (simp add: hput_def)
  show "hget t (fst (hput t x)) = None" unfolding p fst_conv by (rule e(2))
  show "hget (snd (hput t x)) = (hget t)(fst (hput t x) \<mapsto> x)" unfolding p fst_conv snd_conv by (rule e(3))
  show "hwf (snd (hput t x))" unfolding p snd_conv by (rule e(4))
next
  fix t :: "'a hlist option" and h
  assume t: "hwf t" "hget t h \<noteq> None"
  obtain k t' where e: "hFree t (int h) = Inr (int k, t')" "hget t' = (hget t)(h := None)" "hwf t'"
    using hFree_ok [OF t] by blast
  have d: "hdel t h = t'" using e(1) by (simp add: hdel_def)
  show "hget (hdel t h) = (hget t)(h := None)" unfolding d by (rule e(2))
  show "hwf (hdel t h)" unfolding d by (rule e(3))
qed

section \<open>Properties\<close>

text \<open>Allocating entries never hands out a handle in use: for any sequence of allocations from
  any sound map, the handles are pairwise distinct, each names its own entry afterwards, and no
  entry that was live before is lost or aliased.\<close>

theorem handles_never_alias:
  assumes "hwf hm" and "hpool.put_all hm xs = (hs, hm')"
  shows "distinct hs \<and> map (hget hm') hs = map Some xs
    \<and> (\<forall>h y. hget hm h = Some y \<longrightarrow> hget hm' h = Some y \<and> h \<notin> set hs)"
  using hpool.put_all_distinct [OF assms(1), of xs] hpool.put_all_keeps [OF assms(1), of _ _ xs] assms(2)
  by simp

theorem handles_never_alias_witness:
  "\<exists>hs hm'. hpool.put_all (None :: nat hlist option) [7, 7, 9] = (hs, hm') \<and> distinct hs
    \<and> map (hget hm') hs = [Some 7, Some 7, Some 9]"
proof -
  obtain hs hm' where e: "hpool.put_all (None :: nat hlist option) [7, 7, 9] = (hs, hm')" by fastforce
  have "hwf (None :: nat hlist option)" by (simp add: hwf_def)
  from handles_never_alias [OF this e] e show ?thesis by auto
qed

text \<open>Releasing a live handle removes exactly that entry, keeps the map sound, and answers the
  number of rows to keep scanning: one more than the greatest handle still in use, 0 for none.\<close>

theorem hFree_answers_new_limit:
  assumes "hwf hm" and "hget hm h \<noteq> None"
  shows "\<exists>k hm'. hFree hm (int h) = Inr (int k, hm') \<and> hwf hm' \<and> hget hm' = (hget hm)(h := None)
    \<and> (\<forall>j. hget hm' j \<noteq> None \<longrightarrow> j < k) \<and> (0 < k \<longrightarrow> hget hm' (k - 1) \<noteq> None)"
  using hFree_ok [OF assms] by blast

definition demo_map :: "nat hlist option" where
  "demo_map = Some \<lparr>h_used = 2, h_slots = [Some 5, None, Some 6, None]\<rparr>"

theorem hFree_answers_new_limit_witness:
  "\<exists>k hm'. hFree demo_map 2 = Inr (int k, hm') \<and> hget hm' 0 = Some 5 \<and> hget hm' 2 = None"
proof -
  have "hwf demo_map" "hget demo_map 2 \<noteq> None" "hget demo_map 0 = Some 5"
    by (simp_all add: demo_map_def hwf_def hget_def)
  with hFree_answers_new_limit [of demo_map 2] show ?thesis by auto
qed

end
