(* ===== verification/Emfdb.thy ===== *)
theory Emfdb
  imports Handle
begin

text \<open>
  The text-file database of the web server (\<open>user/goahead/src_tongyong/emfdb.c\<close>): registered
  tables with typed columns, rows addressed by handle, read and written by column name.

  A cell of the C program is an \<open>int\<close> that holds a number or a string pointer; here it is \<open>CInt n\<close>
  or \<open>CStr s\<close>, with \<open>CInt 0\<close> the null pointer.  Following or freeing a non-null \<open>CInt\<close> is a wild
  pointer and an \<open>OutOfBounds\<close> fault; so is a row index outside the row array.  The entry arrays
  are those of \<open>Handle\<close>, with the outcomes of their allocations in \<open>halloc\<close>; the copies made by
  \<open>bstrdup\<close> are taken to succeed.  The parameter \<open>did\<close> is not used by the source.
\<close>

section \<open>Data\<close>

datatype ctype = T_INT | T_STRING

datatype cell = CInt int | CStr string

type_synonym row = "cell list"

record dbTable =
  t_name :: string
  columnNames :: "string list"
  columnTypes :: "ctype list"
  nRows :: nat
  t_rows :: "row hlist option"

record db =
  dbMaxTables :: nat
  dbListTables :: "dbTable hlist option"
  basicProdDir :: "string option"

definition DB_ERR_COL_NOT_FOUND :: int where "DB_ERR_COL_NOT_FOUND = - 2"
definition DB_ERR_ROW_NOT_FOUND :: int where "DB_ERR_ROW_NOT_FOUND = - 4"
definition DB_ERR_ROW_DELETED :: int where "DB_ERR_ROW_DELETED = - 5"
definition DB_ERR_TABLE_NOT_FOUND :: int where "DB_ERR_TABLE_NOT_FOUND = - 6"
definition DB_ERR_TABLE_DELETED :: int where "DB_ERR_TABLE_DELETED = - 7"
definition DB_ERR_BAD_FORMAT :: int where "DB_ERR_BAD_FORMAT = - 8"
definition DB_CASE_INSENSITIVE :: int where "DB_CASE_INSENSITIVE = 1"

lemmas db_codes = DB_ERR_COL_NOT_FOUND_def DB_ERR_ROW_NOT_FOUND_def DB_ERR_ROW_DELETED_def
  DB_ERR_TABLE_NOT_FOUND_def DB_ERR_TABLE_DELETED_def DB_ERR_BAD_FORMAT_def DB_CASE_INSENSITIVE_def

definition index_int :: "nat option \<Rightarrow> int" where
  "index_int k = (case k of None \<Rightarrow> - 1 | Some i \<Rightarrow> int i)"

text \<open>\<open>bstrdup\<close> of a null pointer is the empty string.\<close>

definition bstrdup :: "string option \<Rightarrow> string" where
  "bstrdup s = (case s of None \<Rightarrow> [] | Some x \<Rightarrow> x)"

text \<open>The string a cell points to, when it is used as a string pointer.\<close>

fun cell_str :: "cell \<Rightarrow> string option res" where
  "cell_str (CStr s) = Inr (Some s)"
| "cell_str (CInt n) = (if n = 0 then Inr None else Inl OutOfBounds)"

definition row_ptr :: "dbTable \<Rightarrow> nat \<Rightarrow> row option res" where
  "row_ptr t r =
     (case t_rows t of
        None \<Rightarrow> Inl OutOfBounds
      | Some mp \<Rightarrow> if r < length (h_slots mp) then Inr (h_slots mp ! r) else Inl OutOfBounds)"

definition set_row :: "nat \<Rightarrow> row \<Rightarrow> dbTable \<Rightarrow> dbTable" where
  "set_row r x t = t\<lparr>t_rows := map_option (\<lambda>mp. mp\<lparr>h_slots := (h_slots mp)[r := Some x]\<rparr>) (t_rows t)\<rparr>"

definition set_table :: "nat \<Rightarrow> dbTable \<Rightarrow> db \<Rightarrow> db" where
  "set_table tid t d = d\<lparr>dbListTables :=
     map_option (\<lambda>mp. mp\<lparr>h_slots := (h_slots mp)[tid := Some t]\<rparr>) (dbListTables d)\<rparr>"

definition table_at :: "db \<Rightarrow> int \<Rightarrow> dbTable option" where
  "table_at d tid = (if 0 \<le> tid \<and> tid < int (dbMaxTables d) then hget (dbListTables d) (nat tid) else None)"

section \<open>Tables\<close>

definition dbOpen :: "db \<Rightarrow> int \<times> db" where
  "dbOpen d = (0, \<lparr>dbMaxTables = 0, dbListTables = None, basicProdDir = None\<rparr>)"

text \<open>The schema is copied; the row data starts empty whatever the argument holds.  When the table
  array cannot be extended the handle is -1 and the write through it is a fault.\<close>

definition dbRegisterDBSchema :: "halloc \<Rightarrow> dbTable \<Rightarrow> db \<Rightarrow> (int \<times> db) res" where
  "dbRegisterDBSchema e reg d =
     res_bind (hAllocEntry e True (reg\<lparr>nRows := 0, t_rows := None\<rparr>) (dbListTables d) (dbMaxTables d))
       (\<lambda>(tid, list, mx).
     if tid < 0 then Inl OutOfBounds
     else Inr (0, d\<lparr>dbListTables := list, dbMaxTables := mx\<rparr>))"

definition dbGetTableId :: "string \<Rightarrow> db \<Rightarrow> int" where
  "dbGetTableId name d = index_int (find_index
     (\<lambda>tid. case hget (dbListTables d) tid of None \<Rightarrow> False | Some t \<Rightarrow> name = t_name t) [0..<dbMaxTables d])"

definition dbGetTableName :: "int \<Rightarrow> db \<Rightarrow> string option" where
  "dbGetTableName tid d = map_option t_name (table_at d tid)"

definition GetColumnIndex :: "int \<Rightarrow> string \<Rightarrow> db \<Rightarrow> int" where
  "GetColumnIndex tid col d =
     (case table_at d tid of None \<Rightarrow> - 1 | Some t \<Rightarrow> index_int (find_index (\<lambda>c. col = c) (columnNames t)))"

text \<open>Freeing the strings of a row.\<close>

fun free_cells :: "ctype list \<Rightarrow> row \<Rightarrow> unit res" where
  "free_cells (ty # tys) (c # cs) =
     (if ty = T_STRING then res_bind (cell_str c) (\<lambda>_. free_cells tys cs) else free_cells tys cs)"
| "free_cells _ _ = Inr ()"

text \<open>\<open>dbZero\<close>: rows are released in order; the row array goes with the last of them.\<close>

fun zero_rows :: "nat list \<Rightarrow> dbTable \<Rightarrow> dbTable res" where
  "zero_rows [] t = Inr t"
| "zero_rows (r # rs) t =
     res_bind (row_ptr t r) (\<lambda>p.
     case p of
       None \<Rightarrow> zero_rows rs t
     | Some x \<Rightarrow>
         res_bind (free_cells (columnTypes t) x) (\<lambda>_.
         res_bind (hFree (t_rows t) (int r)) (\<lambda>(_, rows).
         zero_rows rs (t\<lparr>t_rows := rows\<rparr>))))"

definition zero_table :: "dbTable \<Rightarrow> dbTable res" where
  "zero_table t =
     res_bind (zero_rows [0..<nRows t] t) (\<lambda>t. Inr (t\<lparr>t_rows := None, nRows := 0\<rparr>))"

fun zero_tables :: "nat list \<Rightarrow> db \<Rightarrow> db res" where
  "zero_tables [] d = Inr d"
| "zero_tables (k # ks) d =
     (case hget (dbListTables d) k of
        None \<Rightarrow> zero_tables ks d
      | Some t \<Rightarrow> res_bind (zero_table t) (\<lambda>t. zero_tables ks (set_table k t d)))"

definition dbZero :: "db \<Rightarrow> db res" where
  "dbZero d = zero_tables [0..<dbMaxTables d] d"

fun close_tables :: "nat list \<Rightarrow> dbTable hlist option \<Rightarrow> dbTable hlist option res" where
  "close_tables [] list = Inr list"
| "close_tables (k # ks) list =
     (case list of
        None \<Rightarrow> Inl OutOfBounds
      | Some _ \<Rightarrow>
          (case hget list k of
             None \<Rightarrow> close_tables ks list
           | Some t \<Rightarrow> res_bind (hFree list (int k)) (\<lambda>(_, list). close_tables ks list)))"

definition dbClose :: "db \<Rightarrow> db res" where
  "dbClose d =
     res_bind (dbZero d) (\<lambda>d.
     res_bind (close_tables [0..<dbMaxTables d] (dbListTables d)) (\<lambda>_.
     Inr (d\<lparr>dbListTables := None, dbMaxTables := 0\<rparr>)))"

section \<open>Rows\<close>

text \<open>\<open>gstricmp\<close> (\<open>strcmpci\<close>) compares the lower-cased strings and takes a null argument for equal;
  \<open>gstrcmp\<close> is \<open>strcmp\<close>, which follows the null pointer.\<close>

definition lower :: "byte \<Rightarrow> byte" where
  "lower c = (if 65 \<le> uchar c \<and> uchar c \<le> 90 then char_of (uchar c + 32) else c)"

definition str_match :: "int \<Rightarrow> string \<Rightarrow> string \<Rightarrow> bool" where
  "str_match flags a b = (if flags = DB_CASE_INSENSITIVE then map lower a = map lower b else a = b)"

fun search_rows :: "dbTable \<Rightarrow> nat \<Rightarrow> string option \<Rightarrow> int \<Rightarrow> nat list \<Rightarrow> int res" where
  "search_rows t col v flags [] = Inr (- 1)"
| "search_rows t col v flags (r # rs) =
     res_bind (row_ptr t r) (\<lambda>p.
     case p of
       None \<Rightarrow> search_rows t col v flags rs
     | Some x \<Rightarrow>
         res_bind (cell_str (x ! col)) (\<lambda>s.
         case s of
           None \<Rightarrow> search_rows t col v flags rs
         | Some a \<Rightarrow>
             (case v of
                None \<Rightarrow> if flags = DB_CASE_INSENSITIVE then Inr (int r) else Inl OutOfBounds
              | Some b \<Rightarrow> if str_match flags a b then Inr (int r) else search_rows t col v flags rs)))"

definition dbSearchStr :: "string \<Rightarrow> string \<Rightarrow> string option \<Rightarrow> int \<Rightarrow> db \<Rightarrow> int res" where
  "dbSearchStr table col v flags d =
     (let tid = dbGetTableId table d in
      case table_at d tid of
        None \<Rightarrow> Inr DB_ERR_TABLE_NOT_FOUND
      | Some t \<Rightarrow>
          (let column = GetColumnIndex tid col d
           in if 0 \<le> column then search_rows t (nat column) v flags [0..<nRows t]
              else Inr DB_ERR_COL_NOT_FOUND))"

definition dbAddRow :: "halloc \<Rightarrow> string \<Rightarrow> db \<Rightarrow> (int \<times> db) res" where
  "dbAddRow e table d =
     (let tid = dbGetTableId table d in
      case table_at d tid of
        None \<Rightarrow> Inr (DB_ERR_TABLE_NOT_FOUND, d)
      | Some t \<Rightarrow>
          res_bind (hAllocEntry e (columnNames t \<noteq> []) (replicate (length (columnNames t)) (CInt 0))
                      (t_rows t) (nRows t)) (\<lambda>(r, rows, n).
          Inr (r, set_table (nat tid) (t\<lparr>t_rows := rows, nRows := n\<rparr>) d)))"

definition dbDeleteRow :: "string \<Rightarrow> int \<Rightarrow> db \<Rightarrow> (int \<times> db) res" where
  "dbDeleteRow table r d =
     (let tid = dbGetTableId table d in
      case table_at d tid of
        None \<Rightarrow> Inr (DB_ERR_TABLE_NOT_FOUND, d)
      | Some t \<Rightarrow>
          if 0 \<le> r \<and> r < int (nRows t) then
            res_bind (row_ptr t (nat r)) (\<lambda>p.
            case p of
              None \<Rightarrow> Inr (0, d)
            | Some x \<Rightarrow>
                res_bind (free_cells (columnTypes t) x) (\<lambda>_.
                res_bind (hFree (t_rows t) r) (\<lambda>(n, rows).
                Inr (0, set_table (nat tid) (t\<lparr>t_rows := rows, nRows := nat n\<rparr>) d))))
          else Inr (- 1, d))"

definition dbGetTableNrow :: "string \<Rightarrow> db \<Rightarrow> int" where
  "dbGetTableNrow table d =
     (case table_at d (dbGetTableId table d) of None \<Rightarrow> - 1 | Some t \<Rightarrow> int (nRows t))"

text \<open>The loop of \<open>dbSetTableNrow\<close>, with fuel: \<open>None\<close> is running out of it.  The table is looked up
  again by each \<open>dbAddRow\<close>, the row count is read through the pointer taken before the loop.\<close>

fun grow_rows :: "nat \<Rightarrow> halloc \<Rightarrow> string \<Rightarrow> nat \<Rightarrow> nat \<Rightarrow> db \<Rightarrow> (int \<times> db) res option" where
  "grow_rows fuel e table tid n d =
     (case hget (dbListTables d) tid of
        None \<Rightarrow> Some (Inl OutOfBounds)
      | Some t \<Rightarrow>
          if n \<le> nRows t then Some (Inr (0, d))
          else
            (case fuel of
               0 \<Rightarrow> None
             | Suc fuel' \<Rightarrow>
                 (case dbAddRow e table d of
                    Inl f \<Rightarrow> Some (Inl f)
                  | Inr (r, d') \<Rightarrow>
                      if r < 0 then Some (Inr (- 1, d')) else grow_rows fuel' e table tid n d')))"

declare grow_rows.simps [simp del]

definition dbSetTableNrow :: "halloc \<Rightarrow> string \<Rightarrow> nat \<Rightarrow> db \<Rightarrow> (int \<times> db) res option" where
  "dbSetTableNrow e table n d =
     (let tid = dbGetTableId table d in
      case table_at d tid of
        None \<Rightarrow> Some (Inr (DB_ERR_TABLE_NOT_FOUND, d))
      | Some t \<Rightarrow> if n \<le> nRows t then Some (Inr (0, d)) else grow_rows n e table (nat tid) n d)"

section \<open>Cells\<close>

text \<open>\<open>dbReadInt\<close> and \<open>dbReadStr\<close> (its cast): the code and the cell, when one is read.\<close>

definition dbReadInt :: "string \<Rightarrow> string \<Rightarrow> int \<Rightarrow> db \<Rightarrow> (int \<times> cell option) res" where
  "dbReadInt table col r d =
     (let tid = dbGetTableId table d
      in if tid < 0 then Inr (DB_ERR_TABLE_NOT_FOUND, None)
         else
           (case hget (dbListTables d) (nat tid) of
              None \<Rightarrow> Inr (DB_ERR_TABLE_DELETED, None)
            | Some t \<Rightarrow>
                if 0 \<le> r \<and> r < int (nRows t) then
                  (let ci = GetColumnIndex tid col d
                   in if 0 \<le> ci then
                        res_bind (row_ptr t (nat r)) (\<lambda>p.
                        case p of
                          Some x \<Rightarrow> Inr (0, Some (x ! nat ci))
                        | None \<Rightarrow> Inr (DB_ERR_ROW_DELETED, None))
                      else Inr (DB_ERR_COL_NOT_FOUND, None))
                else Inr (DB_ERR_ROW_NOT_FOUND, None)))"

definition dbReadStr :: "string \<Rightarrow> string \<Rightarrow> int \<Rightarrow> db \<Rightarrow> (int \<times> cell option) res" where
  "dbReadStr table col r d = dbReadInt table col r d"

definition dbWriteInt :: "string \<Rightarrow> string \<Rightarrow> int \<Rightarrow> int \<Rightarrow> db \<Rightarrow> (int \<times> db) res" where
  "dbWriteInt table col r v d =
     (let tid = dbGetTableId table d
      in if tid < 0 then Inr (DB_ERR_TABLE_NOT_FOUND, d)
         else
           (case hget (dbListTables d) (nat tid) of
              None \<Rightarrow> Inr (DB_ERR_TABLE_DELETED, d)
            | Some t \<Rightarrow>
                (let ci = GetColumnIndex tid col d
                 in if 0 \<le> ci then
                      if 0 \<le> r \<and> r < int (nRows t) then
                        res_bind (row_ptr t (nat r)) (\<lambda>p.
                        case p of
                          Some x \<Rightarrow> Inr (0, set_table (nat tid) (set_row (nat r) (x[nat ci := CInt v]) t) d)
                        | None \<Rightarrow> Inr (DB_ERR_ROW_DELETED, d))
                      else Inr (DB_ERR_ROW_NOT_FOUND, d)
                    else Inr (DB_ERR_COL_NOT_FOUND, d))))"

definition dbWriteStr :: "string \<Rightarrow> string \<Rightarrow> int \<Rightarrow> string option \<Rightarrow> db \<Rightarrow> (int \<times> db) res" where
  "dbWriteStr table col r s d =
     (let tid = dbGetTableId table d
      in if tid < 0 then Inr (DB_ERR_TABLE_NOT_FOUND, d)
         else
           (case hget (dbListTables d) (nat tid) of
              None \<Rightarrow> Inr (DB_ERR_TABLE_DELETED, d)
            | Some t \<Rightarrow>
                (let ci = GetColumnIndex tid col d
                 in if ci < 0 then Inr (DB_ERR_COL_NOT_FOUND, d)
                    else if columnTypes t ! nat ci \<noteq> T_STRING then Inr (DB_ERR_BAD_FORMAT, d)
                    else if \<not> (0 \<le> r \<and> r < int (nRows t)) then Inr (DB_ERR_ROW_NOT_FOUND, d)
                    else
                      res_bind (row_ptr t (nat r)) (\<lambda>p.
                      case p of
                        None \<Rightarrow> Inr (DB_ERR_ROW_DELETED, d)
                      | Some x \<Rightarrow>
                          res_bind (cell_str (x ! nat ci)) (\<lambda>_.
                          Inr (0, set_table (nat tid)
                                 (set_row (nat r) (x[nat ci := CStr (bstrdup s)]) t) d))))))"

section \<open>The product directory\<close>

definition basicSetProductDir :: "string \<Rightarrow> db \<Rightarrow> db" where
  "basicSetProductDir dir d = d\<lparr>basicProdDir :=
     Some (if dir \<noteq> [] \<and> last dir = CHR ''/'' then butlast dir else dir)\<rparr>"

definition basicGetProductDir :: "db \<Rightarrow> string" where
  "basicGetProductDir d = (case basicProdDir d of Some p \<Rightarrow> p | None \<Rightarrow> ''.'')"

end
