(* ===== verification/Emfdb_Laws.thy ===== *)
theory Emfdb_Laws
  imports Emfdb
begin

text \<open>
  What the database operations do on a sound database: the invariant \<open>db_wf\<close>, the table a name
  stands for (\<open>tab\<close>), and the effect of each operation on it.
\<close>

section \<open>Soundness\<close>

definition cell_ok :: "ctype \<Rightarrow> cell \<Rightarrow> bool" where
  "cell_ok ty c = (case ty of
     T_STRING \<Rightarrow> (case c of CStr _ \<Rightarrow> True | CInt n \<Rightarrow> n = 0)
   | T_INT \<Rightarrow> (case c of CInt _ \<Rightarrow> True | CStr _ \<Rightarrow> False))"

definition row_wf :: "ctype list \<Rightarrow> row \<Rightarrow> bool" where
  "row_wf tys x \<longleftrightarrow> list_all2 cell_ok tys x"

definition table_wf :: "dbTable \<Rightarrow> bool" where
  "table_wf t \<longleftrightarrow>
     length (columnNames t) = length (columnTypes t) \<and> columnNames t \<noteq> []
     \<and> hwf (t_rows t)
     \<and> (\<forall>r x. hget (t_rows t) r = Some x \<longrightarrow> r < nRows t \<and> row_wf (columnTypes t) x)
     \<and> (\<forall>r < nRows t. in_array r (t_rows t))
     \<and> (0 < nRows t \<longrightarrow> hget (t_rows t) (nRows t - 1) \<noteq> None)"

definition db_wf :: "db \<Rightarrow> bool" where
  "db_wf d \<longleftrightarrow>
     hwf (dbListTables d)
     \<and> (\<forall>k t. hget (dbListTables d) k = Some t \<longrightarrow> k < dbMaxTables d \<and> table_wf t)
     \<and> (\<forall>k k' t t'. hget (dbListTables d) k = Some t \<and> hget (dbListTables d) k' = Some t'
          \<and> t_name t = t_name t' \<longrightarrow> k = k')"

definition tab :: "db \<Rightarrow> string \<Rightarrow> dbTable option" where
  "tab d nm = table_at d (dbGetTableId nm d)"

definition upd_tab :: "db \<Rightarrow> string \<Rightarrow> dbTable \<Rightarrow> db" where
  "upd_tab d nm t = set_table (nat (dbGetTableId nm d)) t d"

lemma index_int_Some [simp]: "index_int (Some i) = int i" "index_int None = - 1"
  by (simp_all add: index_int_def)

lemma index_int_nonneg: "0 \<le> index_int k \<longleftrightarrow> k \<noteq> None"
  by (cases k) auto

lemma in_array_hget: "hget hm r = Some x \<Longrightarrow> in_array r hm"
  by (auto simp: hget_def in_array_def split: option.splits if_splits)

lemma row_ptr_hget: "in_array r (t_rows t) \<Longrightarrow> row_ptr t r = Inr (hget (t_rows t) r)"
  by (auto simp: row_ptr_def in_array_def hget_def split: option.splits)

text \<open>Overwriting an entry in place.\<close>

definition hset :: "nat \<Rightarrow> 'a \<Rightarrow> 'a hlist option \<Rightarrow> 'a hlist option" where
  "hset r x hm = map_option (\<lambda>mp. mp\<lparr>h_slots := (h_slots mp)[r := Some x]\<rparr>) hm"

lemma set_row_hset: "set_row r x t = t\<lparr>t_rows := hset r x (t_rows t)\<rparr>"
  by (simp add: set_row_def hset_def)

lemma set_table_hset: "set_table k t d = d\<lparr>dbListTables := hset k t (dbListTables d)\<rparr>"
  by (simp add: set_table_def hset_def)

lemma hget_hset: "in_array r hm \<Longrightarrow> hget (hset r x hm) = (hget hm)(r \<mapsto> x)"
  by (auto simp: hget_def hset_def in_array_def fun_eq_iff nth_list_update split: option.splits)

lemma count_used_overwrite:
  "xs ! i \<noteq> None \<Longrightarrow> i < length xs \<Longrightarrow> count_used (xs[i := Some x]) = count_used xs"
proof (induction xs arbitrary: i)
  case Nil
  then show ?case by simp
next
  case (Cons y ys)
  then show ?case by (cases i) auto
qed

lemma hwf_hset: "hwf hm \<Longrightarrow> hget hm r \<noteq> None \<Longrightarrow> hwf (hset r x hm)"
  by (auto simp: hwf_def hset_def hget_def count_used_overwrite split: option.splits if_splits)

lemma in_array_hset [simp]: "in_array r (hset k x hm) = in_array r hm"
  by (auto simp: in_array_def hset_def split: option.splits)

section \<open>The table of a name\<close>

lemma table_id_unique:
  assumes "db_wf d" and "hget (dbListTables d) k = Some t" and "t_name t = nm"
  shows "dbGetTableId nm d = int k"
proof -
  let ?P = "\<lambda>tid. case hget (dbListTables d) tid of None \<Rightarrow> False | Some t \<Rightarrow> nm = t_name t"
  have k: "k < dbMaxTables d" using assms by (auto simp: db_wf_def)
  have "find_index ?P [0..<dbMaxTables d] = Some k"
  proof (unfold find_index_Some, intro conjI allI impI)
    show "k < length [0..<dbMaxTables d]" using k by simp
    show "?P ([0..<dbMaxTables d] ! k)" using k assms by simp
    fix j assume j: "j < k"
    show "\<not> ?P ([0..<dbMaxTables d] ! j)"
    proof
      assume "?P ([0..<dbMaxTables d] ! j)"
      then obtain t' where t': "hget (dbListTables d) j = Some t'" "nm = t_name t'"
        using j k by (auto split: option.splits)
      then have "j = k" using assms unfolding db_wf_def by metis
      with j show False by simp
    qed
  qed
  then show ?thesis by (simp add: dbGetTableId_def)
qed

lemma tab_SomeD:
  assumes "tab d nm = Some t"
  shows "\<exists>k. dbGetTableId nm d = int k \<and> hget (dbListTables d) k = Some t \<and> k < dbMaxTables d \<and> t_name t = nm"
proof -
  let ?P = "\<lambda>tid. case hget (dbListTables d) tid of None \<Rightarrow> False | Some t \<Rightarrow> nm = t_name t"
  obtain k where k: "dbGetTableId nm d = int k" "k < dbMaxTables d" "hget (dbListTables d) k = Some t"
    using assms by (auto simp: tab_def table_at_def split: if_splits) (metis zero_le_imp_eq_int of_nat_less_iff nat_int)
  then have "find_index ?P [0..<dbMaxTables d] = Some k"
    by (auto simp: dbGetTableId_def index_int_def split: option.splits)
  then have "?P ([0..<dbMaxTables d] ! k)" by (simp only: find_index_Some)
  then have "?P k" using k(2) by simp
  then have "t_name t = nm" using k(3) by simp
  with k show ?thesis by blast
qed

lemma tab_iff:
  assumes "db_wf d"
  shows "tab d nm = Some t \<longleftrightarrow> (\<exists>k. hget (dbListTables d) k = Some t \<and> t_name t = nm)"
proof
  show "tab d nm = Some t \<Longrightarrow> \<exists>k. hget (dbListTables d) k = Some t \<and> t_name t = nm"
    using tab_SomeD by blast
  assume "\<exists>k. hget (dbListTables d) k = Some t \<and> t_name t = nm"
  then obtain k where k: "hget (dbListTables d) k = Some t" "t_name t = nm" by blast
  moreover have "k < dbMaxTables d" using assms k(1) unfolding db_wf_def by blast
  ultimately show "tab d nm = Some t"
    using table_id_unique [OF assms k] by (simp add: tab_def table_at_def)
qed

lemma tab_wf: "db_wf d \<Longrightarrow> tab d nm = Some t \<Longrightarrow> table_wf t \<and> t_name t = nm"
  using tab_SomeD [of d nm t] by (auto simp: db_wf_def)

text \<open>Replacing a table by one with the same name.\<close>

lemma upd_tab:
  assumes wf: "db_wf d" and t: "tab d nm = Some t" and t': "table_wf t'" "t_name t' = nm"
  shows "db_wf (upd_tab d nm t') \<and> tab (upd_tab d nm t') = (tab d)(nm \<mapsto> t')"
proof -
  obtain k where k: "dbGetTableId nm d = int k" "hget (dbListTables d) k = Some t" "k < dbMaxTables d"
    "t_name t = nm" using tab_SomeD [OF t] by blast
  let ?d = "upd_tab d nm t'"
  have g: "hget (dbListTables ?d) = (hget (dbListTables d))(k \<mapsto> t')"
    using hget_hset [OF in_array_hget [OF k(2)]] by (simp add: upd_tab_def set_table_hset k(1))
  have m: "dbMaxTables ?d = dbMaxTables d" by (simp add: upd_tab_def set_table_hset)
  have h: "hwf (dbListTables ?d)"
    using wf k(2) hwf_hset [of "dbListTables d" k t'] by (simp add: upd_tab_def set_table_hset k(1) db_wf_def)
  have names: "k1 = k2" if "hget (dbListTables ?d) k1 = Some t1" "hget (dbListTables ?d) k2 = Some t2"
    "t_name t1 = t_name t2" for k1 k2 t1 t2
  proof -
    have "\<exists>u. hget (dbListTables d) k1 = Some u \<and> t_name u = t_name t1"
      using that(1) k t' by (auto simp: g split: if_splits)
    moreover have "\<exists>u. hget (dbListTables d) k2 = Some u \<and> t_name u = t_name t2"
      using that(2) k t' by (auto simp: g split: if_splits)
    ultimately show ?thesis using wf that(3) unfolding db_wf_def by metis
  qed
  have "k1 < dbMaxTables ?d \<and> table_wf u" if "hget (dbListTables ?d) k1 = Some u" for k1 u
    using that wf k(3) t'(1) by (auto simp: g m db_wf_def split: if_splits)
  with h names have wf': "db_wf ?d" unfolding db_wf_def by blast
  have "tab ?d nm' = ((tab d)(nm \<mapsto> t')) nm'" for nm'
  proof (cases "nm' = nm")
    case True
    then show ?thesis using tab_iff [OF wf', of nm t'] t'(2) by (auto simp: g)
  next
    case False
    have "hget (dbListTables ?d) j = Some u \<and> t_name u = nm'
        \<longleftrightarrow> hget (dbListTables d) j = Some u \<and> t_name u = nm'" for u j
      using False k(2,4) t'(2) by (auto simp: g)
    then have "tab ?d nm' = Some u \<longleftrightarrow> tab d nm' = Some u" for u
      by (simp only: tab_iff [OF wf'] tab_iff [OF wf])
    then show ?thesis using False by (metis fun_upd_other not_Some_eq)
  qed
  with wf' show ?thesis by blast
qed

section \<open>Operations on a named table\<close>

lemma column_index:
  assumes "tab d nm = Some t"
  shows "GetColumnIndex (dbGetTableId nm d) col d = index_int (find_index (\<lambda>c. col = c) (columnNames t))"
  using assms by (simp add: GetColumnIndex_def tab_def)

text \<open>The column \<open>col\<close> is number \<open>ci\<close>.\<close>

definition is_col :: "dbTable \<Rightarrow> string \<Rightarrow> nat \<Rightarrow> bool" where
  "is_col t col ci \<longleftrightarrow> find_index (\<lambda>c. col = c) (columnNames t) = Some ci"

lemma is_col_less: "is_col t col ci \<Longrightarrow> ci < length (columnNames t)"
  by (simp add: is_col_def find_index_Some)

lemma row_ptr_live: "hget (t_rows t) r = Some x \<Longrightarrow> row_ptr t r = Inr (Some x)"
  using row_ptr_hget [OF in_array_hget, of t r x] by simp

lemma table_wf_row: "table_wf t \<Longrightarrow> hget (t_rows t) r = Some x \<Longrightarrow> r < nRows t \<and> row_wf (columnTypes t) x"
  by (simp add: table_wf_def)

lemma row_wf_cell: "row_wf tys x \<Longrightarrow> i < length tys \<Longrightarrow> cell_ok (tys ! i) (x ! i)"
  by (simp add: row_wf_def list_all2_conv_all_nth)

lemma row_wf_upd: "row_wf tys x \<Longrightarrow> i < length tys \<Longrightarrow> cell_ok (tys ! i) c \<Longrightarrow> row_wf tys (x[i := c])"
  by (auto simp: row_wf_def list_all2_conv_all_nth nth_list_update)

lemma cell_ok_str: "cell_ok T_STRING c \<Longrightarrow> \<exists>s. cell_str c = Inr s"
  by (auto simp: cell_ok_def split: cell.splits)

lemma set_row_wf:
  assumes "table_wf t" and "hget (t_rows t) r = Some x" and "row_wf (columnTypes t) y"
  shows "table_wf (set_row r y t) \<and> hget (t_rows (set_row r y t)) = (hget (t_rows t))(r \<mapsto> y)"
proof -
  have g: "hget (hset r y (t_rows t)) = (hget (t_rows t))(r \<mapsto> y)"
    using hget_hset [OF in_array_hget [OF assms(2)]] by blast
  have "hwf (hset r y (t_rows t))" using hwf_hset [of "t_rows t" r y] assms by (simp add: table_wf_def)
  then show ?thesis
    using assms by (auto simp: table_wf_def set_row_hset g)
qed

lemma set_row_sel [simp]:
  "t_name (set_row r y t) = t_name t" "columnNames (set_row r y t) = columnNames t"
  "columnTypes (set_row r y t) = columnTypes t" "nRows (set_row r y t) = nRows t"
  by (simp_all add: set_row_def)

lemma tid: "tab d nm = Some t \<Longrightarrow> \<exists>k. dbGetTableId nm d = int k \<and> hget (dbListTables d) k = Some t"
  using tab_SomeD by blast

lemma twf: "db_wf d \<Longrightarrow> tab d nm = Some t \<Longrightarrow> table_wf t" "db_wf d \<Longrightarrow> tab d nm = Some t \<Longrightarrow> t_name t = nm"
  using tab_wf by auto

lemma read_cell:
  assumes wf: "db_wf d" and t: "tab d nm = Some t" and "is_col t col ci" and "hget (t_rows t) r = Some x"
  shows "dbReadInt nm col (int r) d = Inr (0, Some (x ! ci))"
  using tid [OF t] column_index [OF t, of col] assms table_wf_row [OF twf(1) [OF wf t] assms(4)]
  by (auto simp: dbReadInt_def is_col_def row_ptr_live)

lemma write_int:
  assumes wf: "db_wf d" and t: "tab d nm = Some t" and "is_col t col ci" and "hget (t_rows t) r = Some x"
  shows "dbWriteInt nm col (int r) v d = Inr (0, upd_tab d nm (set_row r (x[ci := CInt v]) t))"
  using tid [OF t] column_index [OF t, of col] assms table_wf_row [OF twf(1) [OF wf t] assms(4)]
  by (auto simp: dbWriteInt_def is_col_def row_ptr_live upd_tab_def)

lemma write_str:
  assumes wf: "db_wf d" and t: "tab d nm = Some t" and c: "is_col t col ci" and "columnTypes t ! ci = T_STRING" and x: "hget (t_rows t) r = Some x"
  shows "dbWriteStr nm col (int r) v d = Inr (0, upd_tab d nm (set_row r (x[ci := CStr (bstrdup v)]) t))"
proof -
  note w = table_wf_row [OF twf(1) [OF wf t] x]
  have "ci < length (columnTypes t)" using is_col_less [OF c] twf(1) [OF wf t] by (simp add: table_wf_def)
  then obtain s where "cell_str (x ! ci) = Inr s"
    using cell_ok_str row_wf_cell [of "columnTypes t" x ci] w assms(4) by auto
  then show ?thesis
    using tid [OF t] column_index [OF t, of col] assms w
    by (auto simp: dbWriteStr_def is_col_def row_ptr_live upd_tab_def)
qed

lemma str_match_0 [simp]: "str_match 0 a b \<longleftrightarrow> a = b"
  by (simp add: str_match_def DB_CASE_INSENSITIVE_def)

lemma search_rows_eq:
  assumes wf: "db_wf d" and t: "tab d nm = Some t" and "ci < length (columnNames t)" and "columnTypes t ! ci = T_STRING"
  shows "list_all (\<lambda>r. r < nRows t) rs \<Longrightarrow> search_rows t ci (Some v) flags rs
    = Inr (case find_index (\<lambda>r. \<exists>x s. hget (t_rows t) r = Some x \<and> x ! ci = CStr s \<and> str_match flags s v) rs
        of None \<Rightarrow> - 1 | Some k \<Rightarrow> int (rs ! k))"
proof (induction rs)
  case Nil
  then show ?case by simp
next
  case (Cons r rs)
  have p: "row_ptr t r = Inr (hget (t_rows t) r)"
    using Cons.prems twf(1) [OF wf t] by (intro row_ptr_hget) (simp add: table_wf_def)
  show ?case
  proof (cases "hget (t_rows t) r")
    case None
    then show ?thesis using Cons p by (simp split: option.split)
  next
    case (Some x)
    have "ci < length (columnTypes t)" using assms(3) twf(1) [OF wf t] by (simp add: table_wf_def)
    then have "cell_ok T_STRING (x ! ci)"
      using row_wf_cell [of "columnTypes t" x ci] table_wf_row [OF twf(1) [OF wf t] Some] assms(4) by simp
    then show ?thesis using Cons p Some
      by (cases "x ! ci") (auto simp: cell_ok_def split: option.split)
  qed
qed

lemma search:
  assumes wf: "db_wf d" and t: "tab d nm = Some t" and "is_col t col ci" and "columnTypes t ! ci = T_STRING"
  shows "dbSearchStr nm col (Some v) 0 d
    = Inr (index_int (find_index (\<lambda>r. \<exists>x. hget (t_rows t) r = Some x \<and> x ! ci = CStr v) [0..<nRows t]))"
proof -
  let ?P = "\<lambda>r. \<exists>x. hget (t_rows t) r = Some x \<and> x ! ci = CStr v"
  have e: "(\<lambda>r. \<exists>x s. hget (t_rows t) r = Some x \<and> x ! ci = CStr s \<and> str_match 0 s v) = ?P"
    by (auto simp: fun_eq_iff)
  have "search_rows t ci (Some v) 0 [0..<nRows t]
      = Inr (case find_index ?P [0..<nRows t] of None \<Rightarrow> - 1 | Some k \<Rightarrow> int ([0..<nRows t] ! k))"
    using search_rows_eq [OF wf t is_col_less [OF assms(3)] assms(4), of "[0..<nRows t]" v 0]
    unfolding e by (simp add: list_all_iff)
  moreover have "[0..<nRows t] ! k = k" if "find_index ?P [0..<nRows t] = Some k" for k
    using that by (simp add: find_index_Some)
  ultimately have "search_rows t ci (Some v) 0 [0..<nRows t] = Inr (index_int (find_index ?P [0..<nRows t]))"
    by (cases "find_index ?P [0..<nRows t]") auto
  then show ?thesis
    using t column_index [OF t, of col] assms(3) by (simp add: dbSearchStr_def tab_def is_col_def)
qed

definition blank :: "dbTable \<Rightarrow> row" where
  "blank t = replicate (length (columnNames t)) (CInt 0)"

lemma blank_wf: "length (columnNames t) = length (columnTypes t) \<Longrightarrow> row_wf (columnTypes t) (blank t)"
  by (auto simp: blank_def row_wf_def list_all2_conv_all_nth cell_ok_def split: ctype.split)

text \<open>The same table with other rows.\<close>

definition with_rows :: "row hlist option \<Rightarrow> nat \<Rightarrow> dbTable \<Rightarrow> dbTable" where
  "with_rows rows n t = t\<lparr>t_rows := rows, nRows := n\<rparr>"

lemma with_rows_sel [simp]:
  "t_name (with_rows rows n t) = t_name t" "columnNames (with_rows rows n t) = columnNames t"
  "columnTypes (with_rows rows n t) = columnTypes t" "nRows (with_rows rows n t) = n"
  "t_rows (with_rows rows n t) = rows"
  by (simp_all add: with_rows_def)

text \<open>Adding a row: it fails without changing any row, or the lowest free handle gets a row of
  zeros.\<close>

lemma add_row:
  assumes wf: "db_wf d" and t: "tab d nm = Some t"
  shows "(\<exists>rows. dbAddRow e nm d = Inr (- 1, upd_tab d nm (with_rows rows (nRows t) t))
      \<and> hget rows = hget (t_rows t) \<and> table_wf (with_rows rows (nRows t) t) \<and> e \<noteq> halloc_fine)
    \<or> (\<exists>h rows n. dbAddRow e nm d = Inr (int h, upd_tab d nm (with_rows rows n t))
      \<and> hget (t_rows t) h = None \<and> (\<forall>k < h. hget (t_rows t) k \<noteq> None)
      \<and> hget rows = (hget (t_rows t))(h \<mapsto> blank t) \<and> n = max (nRows t) (Suc h)
      \<and> table_wf (with_rows rows n t))"
proof -
  note w = twf(1) [OF wf t]
  obtain k where k: "dbGetTableId nm d = int k" "table_at d (int k) = Some t"
    using tid [OF t] t by (auto simp: tab_def)
  have run: "dbAddRow e nm d = res_bind (hAllocEntry e True (blank t) (t_rows t) (nRows t))
      (\<lambda>(r, rows, n). Inr (r, upd_tab d nm (with_rows rows n t)))"
    using k w by (simp add: dbAddRow_def Let_def blank_def with_rows_def upd_tab_def table_wf_def)
  have hw: "hwf (t_rows t)" using w by (simp add: table_wf_def)
  from hAllocEntry_cases [OF hw, of e "blank t" "nRows t"] show ?thesis
  proof
    assume "\<exists>hm'. hAllocEntry e True (blank t) (t_rows t) (nRows t) = Inr (- 1, hm', nRows t)
      \<and> hget hm' = hget (t_rows t) \<and> hwf hm' \<and> (\<forall>k. in_array k (t_rows t) \<longrightarrow> in_array k hm')
      \<and> e \<noteq> halloc_fine"
    then obtain hm' where h: "hAllocEntry e True (blank t) (t_rows t) (nRows t) = Inr (- 1, hm', nRows t)"
      "hget hm' = hget (t_rows t)" "hwf hm'" "\<forall>k. in_array k (t_rows t) \<longrightarrow> in_array k hm'" "e \<noteq> halloc_fine"
      by blast
    have "table_wf (with_rows hm' (nRows t) t)" using w h(2-4) by (simp add: table_wf_def)
    with run h show ?thesis by auto
  next
    assume "\<exists>h hm'. hAllocEntry e True (blank t) (t_rows t) (nRows t) = Inr (int h, hm', max (nRows t) (Suc h))
      \<and> hget (t_rows t) h = None \<and> (\<forall>k < h. hget (t_rows t) k \<noteq> None)
      \<and> hget hm' = (hget (t_rows t))(h \<mapsto> blank t) \<and> hwf hm' \<and> in_array h hm'
      \<and> (\<forall>k. in_array k (t_rows t) \<longrightarrow> in_array k hm')"
    then obtain h hm' where h:
      "hAllocEntry e True (blank t) (t_rows t) (nRows t) = Inr (int h, hm', max (nRows t) (Suc h))"
      "hget (t_rows t) h = None" "\<forall>k < h. hget (t_rows t) k \<noteq> None"
      "hget hm' = (hget (t_rows t))(h \<mapsto> blank t)" "hwf hm'" "in_array h hm'"
      "\<forall>k. in_array k (t_rows t) \<longrightarrow> in_array k hm'" by blast
    have arr: "in_array k hm'" if k: "k < max (nRows t) (Suc h)" for k
    proof -
      consider "k = h" | "k < h" | "k < nRows t" using k by linarith
      then show ?thesis
      proof cases
        case 1
        then show ?thesis using h(6) by simp
      next
        case 2
        then obtain x where "hget (t_rows t) k = Some x" using h(3) by auto
        then have "in_array k (t_rows t)" by (rule in_array_hget)
        then show ?thesis using h(7) by simp
      next
        case 3
        then show ?thesis using h(7) w by (simp add: table_wf_def)
      qed
    qed
    have "table_wf (with_rows hm' (max (nRows t) (Suc h)) t)"
      using w h(4,5) arr blank_wf [of t] by (auto simp: table_wf_def less_max_iff_disj)
    with run h show ?thesis by auto
  qed
qed

lemma free_cells_ok: "list_all2 cell_ok tys x \<Longrightarrow> free_cells tys x = Inr ()"
proof (induction tys x rule: list_all2_induct)
  case Nil
  then show ?case by simp
next
  case (Cons ty tys c cs)
  then show ?case by (cases ty; cases c) (auto simp: cell_ok_def)
qed

lemma delete_row:
  assumes wf: "db_wf d" and t: "tab d nm = Some t" and x: "hget (t_rows t) r = Some x"
  shows "\<exists>n rows. dbDeleteRow nm (int r) d = Inr (0, upd_tab d nm (with_rows rows n t))
    \<and> hget rows = (hget (t_rows t))(r := None) \<and> table_wf (with_rows rows n t)"
proof -
  note w = twf(1) [OF wf t]
  note xr = table_wf_row [OF w x]
  obtain k where k: "dbGetTableId nm d = int k" "table_at d (int k) = Some t"
    using tid [OF t] t by (auto simp: tab_def)
  have hw: "hwf (t_rows t)" using w by (simp add: table_wf_def)
  have x': "hget (t_rows t) r \<noteq> None" using x by simp
  obtain n rows where h: "hFree (t_rows t) (int r) = Inr (int n, rows)"
    "hget rows = (hget (t_rows t))(r := None)" "hwf rows" "\<forall>j. hget rows j \<noteq> None \<longrightarrow> j < n"
    "\<forall>j < n. in_array j rows" "0 < n \<longrightarrow> hget rows (n - 1) \<noteq> None"
    by (use hFree_ok [OF hw x'] in \<open>elim exE conjE\<close>) blast
  have "free_cells (columnTypes t) x = Inr ()" using xr by (auto simp: row_wf_def intro: free_cells_ok)
  then have "dbDeleteRow nm (int r) d = Inr (0, upd_tab d nm (with_rows rows n t))"
    using k xr h(1) row_ptr_live [OF x] by (simp add: dbDeleteRow_def Let_def with_rows_def upd_tab_def)
  moreover have "table_wf (with_rows rows n t)"
  proof -
    have "j < n \<and> row_wf (columnTypes t) y" if "hget rows j = Some y" for j y
      using that h(2,4) w by (auto simp: table_wf_def split: if_splits)
    then show ?thesis using w h(3,5,6) by (simp add: table_wf_def)
  qed
  ultimately show ?thesis using h(2) by blast
qed

lemma upd_tab_id:
  assumes wf: "db_wf d" and t: "tab d nm = Some t" and t': "table_wf t'" "t_name t' = nm"
  shows "dbGetTableId nm (upd_tab d nm t') = dbGetTableId nm d"
proof -
  obtain k where k: "dbGetTableId nm d = int k" "hget (dbListTables d) k = Some t"
    using tid [OF t] by blast
  have "hget (dbListTables (upd_tab d nm t')) k = Some t'"
    using hget_hset [OF in_array_hget [OF k(2)]] by (simp add: upd_tab_def set_table_hset k(1))
  then show ?thesis using table_id_unique [of "upd_tab d nm t'" k t' nm] upd_tab [OF assms] t'(2) k(1) by simp
qed

text \<open>The loop of \<open>dbSetTableNrow\<close> ends: every turn fills a handle below the wanted count.\<close>

definition live_below :: "nat \<Rightarrow> dbTable \<Rightarrow> nat set" where
  "live_below n t = {k. k < n \<and> hget (t_rows t) k \<noteq> None}"

lemma live_below_finite [simp]: "finite (live_below n t)"
  by (simp add: live_below_def)

lemma card_live_below: "card (live_below n t) \<le> n"
  using card_mono [of "{..<n}" "live_below n t"] by (auto simp: live_below_def)

lemma grow_rows_ends:
  assumes "db_wf d" and "tab d nm = Some t" and "dbGetTableId nm d = int k"
    and "n - card (live_below n t) \<le> fuel"
  shows "\<exists>d' t'. grow_rows fuel halloc_fine nm k n d = Some (Inr (0, d')) \<and> db_wf d'
    \<and> tab d' = (tab d)(nm \<mapsto> t') \<and> n \<le> nRows t'
    \<and> (\<forall>r x. hget (t_rows t) r = Some x \<longrightarrow> hget (t_rows t') r = Some x)"
  using assms
proof (induction fuel arbitrary: d t)
  case (0 d t)
  have g: "hget (dbListTables d) k = Some t" using tid [OF "0.prems"(2)] "0.prems"(3) by auto
  have "card (live_below n t) = n" using 0 card_live_below [of n t] by simp
  then have "live_below n t = {..<n}" by (intro card_subset_eq) (auto simp: live_below_def)
  then have "k < nRows t" if "k < n" for k
    using that twf(1) [OF "0.prems"(1,2)] by (auto simp: live_below_def table_wf_def)
  then have "n \<le> nRows t" using not_less by blast
  moreover have "tab d = (tab d)(nm \<mapsto> t)" using "0.prems"(2) by (simp add: fun_upd_idem)
  ultimately show ?case using g "0.prems"(1) by (subst grow_rows.simps) auto
next
  case (Suc fuel d t)
  note wf = Suc.prems(1) and t = Suc.prems(2)
  note w = twf(1) [OF wf t]
  have g: "hget (dbListTables d) k = Some t" using tid [OF t] Suc.prems(3) by auto
  show ?case
  proof (cases "n \<le> nRows t")
    case True
    moreover have "tab d = (tab d)(nm \<mapsto> t)" using t by (simp add: fun_upd_idem)
    ultimately show ?thesis using g wf by (subst grow_rows.simps) auto
  next
    case False
    obtain h rows m where h: "dbAddRow halloc_fine nm d = Inr (int h, upd_tab d nm (with_rows rows m t))"
      "hget (t_rows t) h = None" "\<forall>k < h. hget (t_rows t) k \<noteq> None"
      "hget rows = (hget (t_rows t))(h \<mapsto> blank t)" "m = max (nRows t) (Suc h)" "table_wf (with_rows rows m t)"
      using add_row [OF wf t, of halloc_fine] by blast
    let ?t = "with_rows rows m t" and ?d = "upd_tab d nm (with_rows rows m t)"
    have nm: "t_name ?t = nm" using twf(2) [OF wf t] by simp
    note u = upd_tab [OF wf t h(6) nm]
    have "h \<le> nRows t"
    proof (rule ccontr)
      assume "\<not> h \<le> nRows t"
      then have "hget (t_rows t) (nRows t) \<noteq> None" using h(3) by simp
      then show False using w by (auto simp: table_wf_def)
    qed
    then have "live_below n ?t = insert h (live_below n t)" "h \<notin> live_below n t"
      using h(2,4) False by (auto simp: live_below_def)
    then have le: "n - card (live_below n ?t) \<le> fuel" using Suc.prems(4) by simp
    have p: "db_wf ?d" "tab ?d nm = Some ?t" "dbGetTableId nm ?d = int k"
      using u upd_tab_id [OF wf t h(6) nm] Suc.prems(3) by simp_all
    from Suc.IH [OF p le, unfolded with_rows_sel] obtain d' t' where r: "grow_rows fuel halloc_fine nm k n ?d = Some (Inr (0, d'))" "db_wf d'"
      "tab d' = (tab ?d)(nm \<mapsto> t')" "n \<le> nRows t'"
      "\<forall>r x. hget rows r = Some x \<longrightarrow> hget (t_rows t') r = Some x" by blast
    have "grow_rows (Suc fuel) halloc_fine nm k n d = Some (Inr (0, d'))"
      using g False h(1) r(1) by (subst grow_rows.simps) simp
    moreover have "tab d' = (tab d)(nm \<mapsto> t')" using r(3) u by simp
    moreover have "hget (t_rows t') r = Some x" if "hget (t_rows t) r = Some x" for r x
    proof -
      have "r \<noteq> h" using that h(2) by auto
      then have "hget rows r = Some x" using that h(4) by simp
      then show ?thesis using r(5) by simp
    qed
    ultimately show ?thesis using r(2,4) by blast
  qed
qed

text \<open>The two writes as steps from table to table.\<close>

definition same_schema :: "dbTable \<Rightarrow> dbTable \<Rightarrow> bool" where
  "same_schema t t' \<longleftrightarrow> columnNames t' = columnNames t \<and> columnTypes t' = columnTypes t"

lemma set_cell_step:
  assumes wf: "db_wf d" and t: "tab d nm = Some t" and ci: "ci < length (columnTypes t)"
    and x: "hget (t_rows t) r = Some x" and c: "cell_ok (columnTypes t ! ci) c"
  shows "db_wf (upd_tab d nm (set_row r (x[ci := c]) t))
    \<and> tab (upd_tab d nm (set_row r (x[ci := c]) t)) = (tab d)(nm \<mapsto> set_row r (x[ci := c]) t)
    \<and> hget (t_rows (set_row r (x[ci := c]) t)) = (hget (t_rows t))(r \<mapsto> x[ci := c])"
proof -
  note w = twf(1) [OF wf t]
  have "row_wf (columnTypes t) (x[ci := c])"
    using table_wf_row [OF w x] ci c by (intro row_wf_upd) simp_all
  note s = set_row_wf [OF w x this]
  have nm: "t_name (set_row r (x[ci := c]) t) = nm" using twf(2) [OF wf t] by simp
  have wt: "table_wf (set_row r (x[ci := c]) t)" using s by simp
  show ?thesis using upd_tab [OF wf t wt nm] s by simp
qed

lemma col_types: "db_wf d \<Longrightarrow> tab d nm = Some t \<Longrightarrow> is_col t col ci \<Longrightarrow> ci < length (columnTypes t)"
  using is_col_less twf(1) by (fastforce simp: table_wf_def)

lemma write_str_step:
  assumes wf: "db_wf d" and t: "tab d nm = Some t" and c: "is_col t col ci" and ty: "columnTypes t ! ci = T_STRING"
    and x: "hget (t_rows t) r = Some x"
  shows "\<exists>d' t'. dbWriteStr nm col (int r) v d = Inr (0, d') \<and> db_wf d' \<and> tab d' = (tab d)(nm \<mapsto> t')
    \<and> same_schema t t' \<and> hget (t_rows t') = (hget (t_rows t))(r \<mapsto> x[ci := CStr (bstrdup v)])"
  using write_str [OF assms, of v] set_cell_step [OF wf t col_types [OF wf t c] x, of "CStr (bstrdup v)"] ty
  by (intro exI [of _ "upd_tab d nm (set_row r (x[ci := CStr (bstrdup v)]) t)"]
      exI [of _ "set_row r (x[ci := CStr (bstrdup v)]) t"]) (simp add: cell_ok_def same_schema_def)

lemma write_int_step:
  assumes wf: "db_wf d" and t: "tab d nm = Some t" and c: "is_col t col ci" and ty: "columnTypes t ! ci = T_INT"
    and x: "hget (t_rows t) r = Some x"
  shows "\<exists>d' t'. dbWriteInt nm col (int r) v d = Inr (0, d') \<and> db_wf d' \<and> tab d' = (tab d)(nm \<mapsto> t')
    \<and> same_schema t t' \<and> hget (t_rows t') = (hget (t_rows t))(r \<mapsto> x[ci := CInt v])"
  using write_int [OF wf t c x, of v] set_cell_step [OF wf t col_types [OF wf t c] x, of "CInt v"] ty
  by (intro exI [of _ "upd_tab d nm (set_row r (x[ci := CInt v]) t)"]
      exI [of _ "set_row r (x[ci := CInt v]) t"]) (simp add: cell_ok_def same_schema_def)

lemma add_row_step:
  assumes wf: "db_wf d" and t: "tab d nm = Some t"
  shows "\<exists>r d' t'. dbAddRow e nm d = Inr (r, d') \<and> db_wf d' \<and> tab d' = (tab d)(nm \<mapsto> t') \<and> same_schema t t'
    \<and> (r = - 1 \<and> hget (t_rows t') = hget (t_rows t) \<and> e \<noteq> halloc_fine
       \<or> (\<exists>h. r = int h \<and> hget (t_rows t) h = None \<and> hget (t_rows t') = (hget (t_rows t))(h \<mapsto> blank t)))"
proof -
  have nm: "t_name (with_rows rows n t) = nm" for rows n using twf(2) [OF wf t] by simp
  from add_row [OF wf t, of e] show ?thesis
    using upd_tab [OF wf t _ nm] by (fastforce simp: same_schema_def)
qed

lemma delete_row_step:
  assumes wf: "db_wf d" and t: "tab d nm = Some t" and x: "hget (t_rows t) r = Some x"
  shows "\<exists>d' t'. dbDeleteRow nm (int r) d = Inr (0, d') \<and> db_wf d' \<and> tab d' = (tab d)(nm \<mapsto> t')
    \<and> same_schema t t' \<and> hget (t_rows t') = (hget (t_rows t))(r := None)"
proof -
  have nm: "t_name (with_rows rows n t) = nm" for rows n using twf(2) [OF wf t] by simp
  from delete_row [OF wf t x] show ?thesis
    using upd_tab [OF wf t _ nm] by (fastforce simp: same_schema_def)
qed

section \<open>Properties\<close>

text \<open>A one-table database for the witnesses.\<close>

definition demo_table :: dbTable where
  "demo_table = \<lparr>t_name = ''users'', columnNames = [''name'', ''prot''], columnTypes = [T_STRING, T_INT],
     nRows = 1, t_rows = Some \<lparr>h_used = 1, h_slots = [Some [CStr ''admin'', CInt 1], None]\<rparr>\<rparr>"

definition demo_db :: db where
  "demo_db = \<lparr>dbMaxTables = 1, dbListTables = Some \<lparr>h_used = 1, h_slots = [Some demo_table, None]\<rparr>,
     basicProdDir = None\<rparr>"

lemma demo_db_wf: "db_wf demo_db" "tab demo_db ''users'' = Some demo_table"
  "hget (t_rows demo_table) 0 = Some [CStr ''admin'', CInt 1]"
  "is_col demo_table ''name'' 0" "columnTypes demo_table ! 0 = T_STRING"
proof -
  have g: "hget (dbListTables demo_db) k = (if k = 0 then Some demo_table else None)" for k
    by (auto simp: demo_db_def hget_def less_Suc_eq_0_disj nth_Cons')
  have r: "hget (t_rows demo_table) k = (if k = 0 then Some [CStr ''admin'', CInt 1] else None)" for k
    by (auto simp: demo_table_def hget_def nth_Cons')
  have "table_wf demo_table"
    unfolding table_wf_def r
    by (simp add: demo_table_def hwf_def row_wf_def cell_ok_def in_array_def)
  then show "db_wf demo_db" unfolding db_wf_def g by (auto simp: demo_db_def hwf_def split: if_splits)
  from tab_iff [OF this, of "''users''" demo_table] show "tab demo_db ''users'' = Some demo_table"
    by (auto simp: g demo_table_def)
  show "hget (t_rows demo_table) 0 = Some [CStr ''admin'', CInt 1]" by (simp add: r)
  show "is_col demo_table ''name'' 0" "columnTypes demo_table ! 0 = T_STRING"
    by (simp_all add: is_col_def demo_table_def)
qed

text \<open>Read after write: writing a string to a live row of a string column answers 0, keeps the
  database sound, makes the cell read back as that string, and changes no other cell of the table
  and no other table.\<close>

theorem dbWriteStr_read_back:
  assumes "db_wf d" and "tab d nm = Some t" and "is_col t col ci" and "columnTypes t ! ci = T_STRING"
    and "hget (t_rows t) r = Some x"
  shows "\<exists>d' t'. dbWriteStr nm col (int r) (Some v) d = Inr (0, d') \<and> db_wf d'
    \<and> dbReadStr nm col (int r) d' = Inr (0, Some (CStr v))
    \<and> tab d' = (tab d)(nm \<mapsto> t') \<and> hget (t_rows t') = (hget (t_rows t))(r \<mapsto> x[ci := CStr v])"
proof -
  obtain d' t' where d': "dbWriteStr nm col (int r) (Some v) d = Inr (0, d')" "db_wf d'"
    "tab d' = (tab d)(nm \<mapsto> t')" "same_schema t t'" "hget (t_rows t') = (hget (t_rows t))(r \<mapsto> x[ci := CStr v])"
    using write_str_step [OF assms, of "Some v"] by (auto simp: bstrdup_def)
  have "length x = length (columnTypes t)"
    using table_wf_row [OF twf(1) [OF assms(1,2)] assms(5)] by (simp add: row_wf_def list_all2_conv_all_nth)
  then have "dbReadStr nm col (int r) d' = Inr (0, Some (CStr v))"
    using read_cell [OF d'(2), of nm t' col ci r "x[ci := CStr v]"] d'(3-5) assms(3)
      col_types [OF assms(1-3)] by (simp add: dbReadStr_def is_col_def same_schema_def)
  with d' show ?thesis by blast
qed

theorem dbWriteStr_read_back_witness:
  "\<exists>d'. dbWriteStr ''users'' ''name'' 0 (Some ''root'') demo_db = Inr (0, d')
    \<and> dbReadStr ''users'' ''name'' 0 d' = Inr (0, Some (CStr ''root''))"
  using dbWriteStr_read_back [of demo_db "''users''" demo_table "''name''" 0 0 _ "''root''"] demo_db_wf by auto

text \<open>A case-sensitive search answers the first live row whose cell holds the string, or -1 when
  there is none; it never faults on a sound database.\<close>

theorem dbSearchStr_first_match:
  assumes "db_wf d" and "tab d nm = Some t" and "is_col t col ci" and "columnTypes t ! ci = T_STRING"
    and "dbSearchStr nm col (Some v) 0 d = res"
  shows "(\<exists>r x. res = Inr (int r) \<and> hget (t_rows t) r = Some x \<and> x ! ci = CStr v
      \<and> (\<forall>k < r. \<forall>y. hget (t_rows t) k = Some y \<longrightarrow> y ! ci \<noteq> CStr v))
    \<or> (res = Inr (- 1) \<and> (\<forall>k y. hget (t_rows t) k = Some y \<longrightarrow> y ! ci \<noteq> CStr v))"
proof -
  let ?P = "\<lambda>r. \<exists>x. hget (t_rows t) r = Some x \<and> x ! ci = CStr v"
  note s = search [OF assms(1-4), of v, unfolded assms(5)]
  note w = twf(1) [OF assms(1,2)]
  show ?thesis
  proof (cases "find_index ?P [0..<nRows t]")
    case None
    then have n: "\<forall>r < nRows t. \<not> ?P r" by (auto simp: find_index_None)
    have "y ! ci \<noteq> CStr v" if "hget (t_rows t) k = Some y" for k y
      using that n table_wf_row [OF w that] by blast
    then show ?thesis using s None by simp
  next
    case (Some r)
    then have r: "r < nRows t" "?P ([0..<nRows t] ! r)" "\<forall>k < r. \<not> ?P ([0..<nRows t] ! k)"
      by (simp_all only: find_index_Some length_upt) auto
    have "\<not> ?P k" if "k < r" for k
    proof -
      have "[0..<nRows t] ! k = k" using that r(1) by simp
      then show ?thesis using r(3) that by metis
    qed
    moreover have "[0..<nRows t] ! r = r" using r(1) by simp
    ultimately show ?thesis using s Some r(2) by auto
  qed
qed

theorem dbSearchStr_first_match_witness:
  "dbSearchStr ''users'' ''name'' (Some ''admin'') 0 demo_db = Inr 0"
proof -
  note w = demo_db_wf(3)
  have "hget (t_rows demo_table) r = Some x \<Longrightarrow> r = 0" for r x
    by (cases r) (auto simp: demo_table_def hget_def nth_Cons' split: if_splits)
  moreover have "\<not> (\<forall>k y. hget (t_rows demo_table) k = Some y \<longrightarrow> y ! 0 \<noteq> CStr ''admin'')"
    using w by (metis nth_Cons_0)
  ultimately show ?thesis
    using dbSearchStr_first_match [OF demo_db_wf(1,2,4,5) refl, of "''admin''"] by auto
qed

text \<open>C33. Growing a table ends: with memory available, \<open>dbSetTableNrow\<close> returns 0 within as many
  turns as rows asked for, whatever rows were deleted before, with at least that many rows and
  every existing row kept.\<close>

theorem dbSetTableNrow_terminates:
  assumes "db_wf d" and "tab d nm = Some t"
  shows "\<exists>d' t'. dbSetTableNrow halloc_fine nm n d = Some (Inr (0, d')) \<and> db_wf d'
    \<and> tab d' = (tab d)(nm \<mapsto> t') \<and> n \<le> nRows t'
    \<and> (\<forall>r x. hget (t_rows t) r = Some x \<longrightarrow> hget (t_rows t') r = Some x)"
proof (cases "n \<le> nRows t")
  case True
  have "tab d = (tab d)(nm \<mapsto> t)" using assms(2) by (simp add: fun_upd_idem)
  then show ?thesis using True assms by (intro exI [of _ d] exI [of _ t]) (simp add: dbSetTableNrow_def tab_def Let_def)
next
  case False
  obtain k where k: "dbGetTableId nm d = int k" using tid [OF assms(2)] by blast
  have "n - card (live_below n t) \<le> n" by simp
  from grow_rows_ends [OF assms k this] False k assms(2) show ?thesis
    by (simp add: dbSetTableNrow_def tab_def Let_def)
qed

theorem dbSetTableNrow_terminates_witness:
  "\<exists>d'. dbSetTableNrow halloc_fine ''users'' 3 demo_db = Some (Inr (0, d'))"
  using dbSetTableNrow_terminates [of demo_db "''users''" demo_table 3] demo_db_wf by blast

end
