(* ===== verification/Um.thy ===== *)
theory Um
  imports Emfdb
begin

unbundle bit_operations_syntax

text \<open>
  The user management of the web server (\<open>user/goahead/src_tongyong/um.c\<close>): users, groups and
  access limits as three tables of the database of \<open>Emfdb\<close>.

  The database handle \<open>didUM\<close> is not used by the database, so the functions work on the database
  alone; \<open>um\<close> adds the module's own variables for opening and closing.  Flags and access methods are
  the C integers.  Strings that may be null pointers are options.  \<open>saveFilename\<close> keeps the name
  given to commit and restore; the file itself is written and read by \<open>dbSave\<close> and \<open>dbLoad\<close>.
  \<open>qHierarchicalAccess\<close> is not defined in this build.
\<close>

section \<open>Names, codes and schemas\<close>

definition UM_USER_TABLENAME :: string where "UM_USER_TABLENAME = ''users''"
definition UM_GROUP_TABLENAME :: string where "UM_GROUP_TABLENAME = ''groups''"
definition UM_ACCESS_TABLENAME :: string where "UM_ACCESS_TABLENAME = ''access''"
definition UM_NAME :: string where "UM_NAME = ''name''"
definition UM_PASS :: string where "UM_PASS = ''password''"
definition UM_GROUP :: string where "UM_GROUP = ''group''"
definition UM_PROT :: string where "UM_PROT = ''prot''"
definition UM_DISABLE :: string where "UM_DISABLE = ''disable''"
definition UM_METHOD :: string where "UM_METHOD = ''method''"
definition UM_PRIVILEGE :: string where "UM_PRIVILEGE = ''priv''"
definition UM_SECURE :: string where "UM_SECURE = ''secure''"

lemmas um_names = UM_USER_TABLENAME_def UM_GROUP_TABLENAME_def UM_ACCESS_TABLENAME_def UM_NAME_def
  UM_PASS_def UM_GROUP_def UM_PROT_def UM_DISABLE_def UM_METHOD_def UM_PRIVILEGE_def UM_SECURE_def

definition UM_XOR_ENCRYPT :: string where
  "UM_XOR_ENCRYPT = ''*j7a(L#yZ98sSd5HfSgGjMj8;Ss;d)(*&^#@$a2s0i3g''"

definition UM_ERR_GENERAL :: int where "UM_ERR_GENERAL = - 1"
definition UM_ERR_NOT_FOUND :: int where "UM_ERR_NOT_FOUND = - 2"
definition UM_ERR_PROTECTED :: int where "UM_ERR_PROTECTED = - 3"
definition UM_ERR_DUPLICATE :: int where "UM_ERR_DUPLICATE = - 4"
definition UM_ERR_IN_USE :: int where "UM_ERR_IN_USE = - 5"
definition UM_ERR_BAD_NAME :: int where "UM_ERR_BAD_NAME = - 6"
definition UM_ERR_BAD_PASSWORD :: int where "UM_ERR_BAD_PASSWORD = - 7"

definition AM_NONE :: int where "AM_NONE = 0"
definition AM_FULL :: int where "AM_FULL = 1"
definition AM_BASIC :: int where "AM_BASIC = 2"
definition AM_DIGEST :: int where "AM_DIGEST = 3"
definition AM_INVALID :: int where "AM_INVALID = 4"

lemmas um_codes = UM_ERR_GENERAL_def UM_ERR_NOT_FOUND_def UM_ERR_PROTECTED_def UM_ERR_DUPLICATE_def
  UM_ERR_IN_USE_def UM_ERR_BAD_NAME_def UM_ERR_BAD_PASSWORD_def AM_NONE_def AM_FULL_def AM_BASIC_def
  AM_DIGEST_def AM_INVALID_def

definition userTable :: dbTable where
  "userTable = \<lparr>t_name = UM_USER_TABLENAME,
     columnNames = [UM_NAME, UM_PASS, UM_GROUP, UM_PROT, UM_DISABLE],
     columnTypes = [T_STRING, T_STRING, T_STRING, T_INT, T_INT], nRows = 0, t_rows = None\<rparr>"

definition groupTable :: dbTable where
  "groupTable = \<lparr>t_name = UM_GROUP_TABLENAME,
     columnNames = [UM_NAME, UM_PRIVILEGE, UM_METHOD, UM_PROT, UM_DISABLE],
     columnTypes = [T_STRING, T_INT, T_INT, T_INT, T_INT], nRows = 0, t_rows = None\<rparr>"

definition accessTable :: dbTable where
  "accessTable = \<lparr>t_name = UM_ACCESS_TABLENAME,
     columnNames = [UM_NAME, UM_METHOD, UM_SECURE, UM_GROUP],
     columnTypes = [T_STRING, T_INT, T_INT, T_STRING], nRows = 0, t_rows = None\<rparr>"

section \<open>Opening and closing\<close>

record um =
  didUM :: int
  saveFilename :: "string option"
  umOpenCount :: int
  um_db :: db

definition umOpen :: "halloc \<Rightarrow> um \<Rightarrow> (int \<times> um) res" where
  "umOpen e s =
     (let s = s\<lparr>umOpenCount := umOpenCount s + 1\<rparr> in
      if umOpenCount s \<noteq> 1 then Inr (didUM s, s)
      else
        res_bind (if didUM s = - 1 then
            (let (did, d) = dbOpen (um_db s) in
             res_bind (dbRegisterDBSchema e userTable d) (\<lambda>(_, d).
             res_bind (dbRegisterDBSchema e groupTable d) (\<lambda>(_, d).
             res_bind (dbRegisterDBSchema e accessTable d) (\<lambda>(_, d).
             Inr (s\<lparr>didUM := did, um_db := d\<rparr>)))))
          else Inr s) (\<lambda>s.
        (let s = (if saveFilename s = None then s\<lparr>saveFilename := Some ''umconfig.txt''\<rparr> else s)
         in Inr (didUM s, s))))"

definition umClose :: "um \<Rightarrow> um res" where
  "umClose s =
     (let s = s\<lparr>umOpenCount := umOpenCount s - 1\<rparr> in
      if 0 < umOpenCount s then Inr s
      else
        res_bind (if didUM s \<noteq> - 1
                  then res_bind (dbClose (um_db s)) (\<lambda>d. Inr (s\<lparr>um_db := d, didUM := - 1\<rparr>))
                  else Inr s) (\<lambda>s.
        Inr (s\<lparr>saveFilename := None\<rparr>)))"

section \<open>Password obfuscation and names\<close>

definition enc_char :: "byte \<Rightarrow> byte \<Rightarrow> byte" where
  "enc_char c m =
     (let enChar = char_of (uchar c XOR uchar m) in
      if enChar \<noteq> NUL \<and> \<not> gisspace enChar then enChar else c)"

fun encrypt_from :: "string \<Rightarrow> string \<Rightarrow> string" where
  "encrypt_from msk [] = []"
| "encrypt_from msk (c # cs) =
     enc_char c (hd msk) # encrypt_from (if tl msk = [] then UM_XOR_ENCRYPT else tl msk) cs"

definition umEncryptString :: "string \<Rightarrow> string" where
  "umEncryptString s = encrypt_from UM_XOR_ENCRYPT s"

definition umCheckName :: "string \<Rightarrow> bool" where
  "umCheckName name \<longleftrightarrow> name \<noteq> [] \<and> list_all (\<lambda>c. \<not> gisspace c) name"

section \<open>Row lookups shared by the functions\<close>

text \<open>\<open>row = dbSearchStr(didUM, table, UM_NAME, key, 0)\<close>.\<close>

definition find_row :: "string \<Rightarrow> string option \<Rightarrow> db \<Rightarrow> int res" where
  "find_row table key d = dbSearchStr table UM_NAME key 0 d"

text \<open>\<open>if (row >= 0) dbReadInt(..., col, row, &v); return v\<close>, with the initial value of \<open>v\<close>.  The
  integer columns hold numbers only, so the pointer case is a fault that does not occur.\<close>

definition get_int :: "string \<Rightarrow> string \<Rightarrow> string option \<Rightarrow> int \<Rightarrow> db \<Rightarrow> int res" where
  "get_int table col key dflt d =
     res_bind (find_row table key d) (\<lambda>row.
     if 0 \<le> row then
       res_bind (dbReadInt table col row d) (\<lambda>(_, c).
       case c of Some (CInt n) \<Rightarrow> Inr n | Some (CStr _) \<Rightarrow> Inl OutOfBounds | None \<Rightarrow> Inr dflt)
     else Inr dflt)"

definition set_int :: "string \<Rightarrow> string \<Rightarrow> string \<Rightarrow> int \<Rightarrow> db \<Rightarrow> (int \<times> db) res" where
  "set_int table col key v d =
     res_bind (find_row table (Some key) d) (\<lambda>row.
     if 0 \<le> row then dbWriteInt table col row v d else Inr (UM_ERR_NOT_FOUND, d))"

text \<open>The same for a string column: the pointer, null when there is no row.\<close>

definition get_str :: "string \<Rightarrow> string \<Rightarrow> string \<Rightarrow> db \<Rightarrow> string option res" where
  "get_str table col key d =
     res_bind (find_row table (Some key) d) (\<lambda>row.
     if 0 \<le> row then
       res_bind (dbReadStr table col row d) (\<lambda>(_, c).
       case c of None \<Rightarrow> Inr None | Some x \<Rightarrow> cell_str x)
     else Inr None)"

definition set_str :: "string \<Rightarrow> string \<Rightarrow> string \<Rightarrow> string option \<Rightarrow> db \<Rightarrow> (int \<times> db) res" where
  "set_str table col key v d =
     res_bind (find_row table (Some key) d) (\<lambda>row.
     if 0 \<le> row then dbWriteStr table col row v d else Inr (UM_ERR_NOT_FOUND, d))"

text \<open>Conversion of an \<open>int\<close> to \<open>short\<close>.\<close>

definition to_short :: "int \<Rightarrow> int" where
  "to_short n = (n + 0x8000) mod 0x10000 - 0x8000"

section \<open>First and next names\<close>

text \<open>The loops read row after row until a row beyond the table; \<open>fuel\<close> bounds the rows read.
  \<open>data\<close> is the variable the reads fill: a deleted row leaves it as it was.\<close>

fun first_data :: "nat \<Rightarrow> string \<Rightarrow> string \<Rightarrow> int \<Rightarrow> string option \<Rightarrow> db \<Rightarrow> string option res" where
  "first_data 0 table col row data d = Inr None"
| "first_data (Suc fuel) table col row data d =
     res_bind (dbReadStr table col row d) (\<lambda>(check, c).
     if check = 0 \<or> check = DB_ERR_ROW_DELETED then
       res_bind (case c of None \<Rightarrow> Inr data | Some x \<Rightarrow> cell_str x) (\<lambda>data.
       if data \<noteq> None \<and> data \<noteq> Some [] then Inr data else first_data fuel table col (row + 1) data d)
     else Inr None)"

definition umGetFirstRowData :: "string \<Rightarrow> string \<Rightarrow> db \<Rightarrow> string option res" where
  "umGetFirstRowData table col d = first_data (Suc (nat (dbGetTableNrow table d))) table col 0 None d"

text \<open>The first loop of \<open>umGetNextRowData\<close>: the key it stops at and the row after it.\<close>

fun skip_to :: "nat \<Rightarrow> string \<Rightarrow> string \<Rightarrow> string \<Rightarrow> int \<Rightarrow> string option \<Rightarrow> db \<Rightarrow> (string option \<times> int) res" where
  "skip_to 0 table col keyLast row key d = Inr (key, row)"
| "skip_to (Suc fuel) table col keyLast row key d =
     res_bind (dbReadStr table col row d) (\<lambda>(check, c).
     res_bind (case c of None \<Rightarrow> Inr key | Some x \<Rightarrow> cell_str x) (\<lambda>key.
     if (check = 0 \<or> check = DB_ERR_ROW_DELETED) \<and> key \<noteq> Some keyLast
     then skip_to fuel table col keyLast (row + 1) key d
     else Inr (key, row + 1)))"

fun next_data :: "nat \<Rightarrow> string \<Rightarrow> string \<Rightarrow> string \<Rightarrow> int \<Rightarrow> string option \<Rightarrow> db \<Rightarrow> string option res" where
  "next_data 0 table col keyLast row key d = Inr None"
| "next_data (Suc fuel) table col keyLast row key d =
     res_bind (dbReadStr table col row d) (\<lambda>(check, c).
     if check = 0 \<or> check = DB_ERR_ROW_DELETED then
       res_bind (case c of None \<Rightarrow> Inr key | Some x \<Rightarrow> cell_str x) (\<lambda>key.
       if key \<noteq> None \<and> key \<noteq> Some [] \<and> key \<noteq> Some keyLast then Inr key
       else next_data fuel table col keyLast (row + 1) key d)
     else Inr None)"

definition umGetNextRowData :: "string \<Rightarrow> string \<Rightarrow> string \<Rightarrow> db \<Rightarrow> string option res" where
  "umGetNextRowData table col keyLast d =
     (let fuel = Suc (nat (dbGetTableNrow table d)) in
      res_bind (skip_to fuel table col keyLast 0 None d) (\<lambda>(key, row).
      if key \<noteq> Some keyLast then Inr None
      else next_data fuel table col keyLast row key d))"

section \<open>Users\<close>

definition umUserExists :: "string \<Rightarrow> db \<Rightarrow> bool res" where
  "umUserExists user d = res_bind (find_row UM_USER_TABLENAME (Some user) d) (\<lambda>row. Inr (0 \<le> row))"

definition umGroupExists :: "string \<Rightarrow> db \<Rightarrow> bool res" where
  "umGroupExists grp d = res_bind (find_row UM_GROUP_TABLENAME (Some grp) d) (\<lambda>row. Inr (0 \<le> row))"

definition umAddUser ::
  "halloc \<Rightarrow> string \<Rightarrow> string \<Rightarrow> string \<Rightarrow> int \<Rightarrow> int \<Rightarrow> db \<Rightarrow> (int \<times> db) res" where
  "umAddUser e user pass grp prot disabled d =
     res_bind (umUserExists user d) (\<lambda>ex.
     if ex then Inr (UM_ERR_DUPLICATE, d)
     else if \<not> umCheckName user then Inr (UM_ERR_BAD_NAME, d)
     else if \<not> umCheckName pass then Inr (UM_ERR_BAD_PASSWORD, d)
     else
       res_bind (umGroupExists grp d) (\<lambda>gex.
       if \<not> gex then Inr (UM_ERR_NOT_FOUND, d)
       else
         res_bind (dbAddRow e UM_USER_TABLENAME d) (\<lambda>(row, d).
         if row < 0 then Inr (UM_ERR_GENERAL, d)
         else
           res_bind (dbWriteStr UM_USER_TABLENAME UM_NAME row (Some user) d) (\<lambda>(r, d).
           if r \<noteq> 0 then Inr (UM_ERR_GENERAL, d)
           else
             res_bind (dbWriteStr UM_USER_TABLENAME UM_PASS row (Some (umEncryptString pass)) d) (\<lambda>(_, d).
             res_bind (dbWriteStr UM_USER_TABLENAME UM_GROUP row (Some grp) d) (\<lambda>(_, d).
             res_bind (dbWriteInt UM_USER_TABLENAME UM_PROT row prot d) (\<lambda>(_, d).
             res_bind (dbWriteInt UM_USER_TABLENAME UM_DISABLE row disabled d) (\<lambda>(_, d).
             Inr (0, d)))))))))"

definition umGetUserProtected :: "string \<Rightarrow> db \<Rightarrow> int res" where
  "umGetUserProtected user d =
     res_bind (get_int UM_USER_TABLENAME UM_PROT (Some user) 0 d) (\<lambda>n. Inr (to_short n))"

definition umDeleteUser :: "string \<Rightarrow> db \<Rightarrow> (int \<times> db) res" where
  "umDeleteUser user d =
     res_bind (umGetUserProtected user d) (\<lambda>p.
     if p \<noteq> 0 then Inr (UM_ERR_PROTECTED, d)
     else
       res_bind (find_row UM_USER_TABLENAME (Some user) d) (\<lambda>row.
       if 0 \<le> row then dbDeleteRow UM_USER_TABLENAME row d else Inr (UM_ERR_NOT_FOUND, d)))"

definition umGetFirstUser :: "db \<Rightarrow> string option res" where
  "umGetFirstUser d = umGetFirstRowData UM_USER_TABLENAME UM_NAME d"

definition umGetNextUser :: "string \<Rightarrow> db \<Rightarrow> string option res" where
  "umGetNextUser userLast d = umGetNextRowData UM_USER_TABLENAME UM_NAME userLast d"

definition umGetUserPassword :: "string \<Rightarrow> db \<Rightarrow> string option res" where
  "umGetUserPassword user d =
     res_bind (find_row UM_USER_TABLENAME (Some user) d) (\<lambda>row.
     if 0 \<le> row then
       res_bind (dbReadStr UM_USER_TABLENAME UM_PASS row d) (\<lambda>(_, c).
       res_bind (case c of None \<Rightarrow> Inr None | Some x \<Rightarrow> cell_str x) (\<lambda>pass.
       Inr (Some (umEncryptString (bstrdup pass)))))
     else Inr None)"

definition umSetUserPassword :: "string \<Rightarrow> string \<Rightarrow> db \<Rightarrow> (int \<times> db) res" where
  "umSetUserPassword user pass d =
     set_str UM_USER_TABLENAME UM_PASS user (Some (umEncryptString pass)) d"

definition umGetUserGroup :: "string \<Rightarrow> db \<Rightarrow> string option res" where
  "umGetUserGroup user d = get_str UM_USER_TABLENAME UM_GROUP user d"

definition umSetUserGroup :: "string \<Rightarrow> string \<Rightarrow> db \<Rightarrow> (int \<times> db) res" where
  "umSetUserGroup user grp d = set_str UM_USER_TABLENAME UM_GROUP user (Some grp) d"

definition umGetUserEnabled :: "string \<Rightarrow> db \<Rightarrow> bool res" where
  "umGetUserEnabled user d =
     res_bind (get_int UM_USER_TABLENAME UM_DISABLE (Some user) 1 d) (\<lambda>n. Inr (n = 0))"

definition umSetUserEnabled :: "string \<Rightarrow> int \<Rightarrow> db \<Rightarrow> (int \<times> db) res" where
  "umSetUserEnabled user enabled d =
     set_int UM_USER_TABLENAME UM_DISABLE user (if enabled = 0 then 1 else 0) d"

definition umSetUserProtected :: "string \<Rightarrow> int \<Rightarrow> db \<Rightarrow> (int \<times> db) res" where
  "umSetUserProtected user protect d = set_int UM_USER_TABLENAME UM_PROT user protect d"

section \<open>Groups\<close>

definition umAddGroup ::
  "halloc \<Rightarrow> string \<Rightarrow> int \<Rightarrow> int \<Rightarrow> int \<Rightarrow> int \<Rightarrow> db \<Rightarrow> (int \<times> db) res" where
  "umAddGroup e grp priv am prot disabled d =
     res_bind (umGroupExists grp d) (\<lambda>ex.
     if ex then Inr (UM_ERR_DUPLICATE, d)
     else if \<not> umCheckName grp then Inr (UM_ERR_BAD_NAME, d)
     else
       res_bind (dbAddRow e UM_GROUP_TABLENAME d) (\<lambda>(row, d).
       if row < 0 then Inr (UM_ERR_GENERAL, d)
       else
         res_bind (dbWriteStr UM_GROUP_TABLENAME UM_NAME row (Some grp) d) (\<lambda>(r, d).
         if r \<noteq> 0 then Inr (UM_ERR_GENERAL, d)
         else
           res_bind (dbWriteInt UM_GROUP_TABLENAME UM_PRIVILEGE row priv d) (\<lambda>(_, d).
           res_bind (dbWriteInt UM_GROUP_TABLENAME UM_METHOD row am d) (\<lambda>(_, d).
           res_bind (dbWriteInt UM_GROUP_TABLENAME UM_PROT row prot d) (\<lambda>(_, d).
           res_bind (dbWriteInt UM_GROUP_TABLENAME UM_DISABLE row disabled d) (\<lambda>(_, d).
           Inr (0, d))))))))"

definition umGetGroupInUse :: "string \<Rightarrow> db \<Rightarrow> bool res" where
  "umGetGroupInUse grp d =
     res_bind (dbSearchStr UM_USER_TABLENAME UM_GROUP (Some grp) 0 d) (\<lambda>row.
     if 0 \<le> row then Inr True
     else res_bind (dbSearchStr UM_ACCESS_TABLENAME UM_GROUP (Some grp) 0 d) (\<lambda>row. Inr (0 \<le> row)))"

definition umGetGroupProtected :: "string \<Rightarrow> db \<Rightarrow> int res" where
  "umGetGroupProtected grp d =
     res_bind (get_int UM_GROUP_TABLENAME UM_PROT (Some grp) 0 d) (\<lambda>n. Inr (to_short n))"

definition umDeleteGroup :: "string \<Rightarrow> db \<Rightarrow> (int \<times> db) res" where
  "umDeleteGroup grp d =
     res_bind (umGetGroupInUse grp d) (\<lambda>u.
     if u then Inr (UM_ERR_IN_USE, d)
     else
       res_bind (umGetGroupProtected grp d) (\<lambda>p.
       if p \<noteq> 0 then Inr (UM_ERR_PROTECTED, d)
       else
         res_bind (find_row UM_GROUP_TABLENAME (Some grp) d) (\<lambda>row.
         if row < 0 then Inr (UM_ERR_NOT_FOUND, d) else dbDeleteRow UM_GROUP_TABLENAME row d)))"

definition umGetFirstGroup :: "db \<Rightarrow> string option res" where
  "umGetFirstGroup d = umGetFirstRowData UM_GROUP_TABLENAME UM_NAME d"

definition umGetNextGroup :: "string \<Rightarrow> db \<Rightarrow> string option res" where
  "umGetNextGroup groupLast d = umGetNextRowData UM_GROUP_TABLENAME UM_NAME groupLast d"

definition umGetGroupAccessMethod :: "string option \<Rightarrow> db \<Rightarrow> int res" where
  "umGetGroupAccessMethod grp d = get_int UM_GROUP_TABLENAME UM_METHOD grp AM_INVALID d"

definition umSetGroupAccessMethod :: "string \<Rightarrow> int \<Rightarrow> db \<Rightarrow> (int \<times> db) res" where
  "umSetGroupAccessMethod grp am d = set_int UM_GROUP_TABLENAME UM_METHOD grp am d"

definition umGetGroupPrivilege :: "string option \<Rightarrow> db \<Rightarrow> int res" where
  "umGetGroupPrivilege grp d =
     res_bind (get_int UM_GROUP_TABLENAME UM_PRIVILEGE grp (- 1) d) (\<lambda>n. Inr (to_short n))"

definition umSetGroupPrivilege :: "string \<Rightarrow> int \<Rightarrow> db \<Rightarrow> (int \<times> db) res" where
  "umSetGroupPrivilege grp privilege d = set_int UM_GROUP_TABLENAME UM_PRIVILEGE grp privilege d"

definition umGetGroupEnabled :: "string option \<Rightarrow> db \<Rightarrow> bool res" where
  "umGetGroupEnabled grp d =
     res_bind (get_int UM_GROUP_TABLENAME UM_DISABLE grp 1 d) (\<lambda>n. Inr (n = 0))"

definition umSetGroupEnabled :: "string \<Rightarrow> int \<Rightarrow> db \<Rightarrow> (int \<times> db) res" where
  "umSetGroupEnabled grp enabled d =
     set_int UM_GROUP_TABLENAME UM_DISABLE grp (if enabled = 0 then 1 else 0) d"

definition umSetGroupProtected :: "string \<Rightarrow> int \<Rightarrow> db \<Rightarrow> (int \<times> db) res" where
  "umSetGroupProtected grp protect d = set_int UM_GROUP_TABLENAME UM_PROT grp protect d"

section \<open>Access limits\<close>

definition umAccessLimitExists :: "string \<Rightarrow> db \<Rightarrow> bool res" where
  "umAccessLimitExists url d = res_bind (find_row UM_ACCESS_TABLENAME (Some url) d) (\<lambda>row. Inr (\<not> row < 0))"

definition umAddAccessLimit ::
  "halloc \<Rightarrow> string \<Rightarrow> int \<Rightarrow> int \<Rightarrow> string option \<Rightarrow> db \<Rightarrow> (int \<times> db) res" where
  "umAddAccessLimit e url am secure grp d =
     res_bind (umAccessLimitExists url d) (\<lambda>ex.
     if ex then Inr (UM_ERR_DUPLICATE, d)
     else
       res_bind (dbAddRow e UM_ACCESS_TABLENAME d) (\<lambda>(row, d).
       if row < 0 then Inr (UM_ERR_GENERAL, d)
       else
         res_bind (dbWriteStr UM_ACCESS_TABLENAME UM_NAME row (Some url) d) (\<lambda>(r, d).
         if r < 0 then Inr (UM_ERR_GENERAL, d)
         else
           res_bind (dbWriteInt UM_ACCESS_TABLENAME UM_METHOD row am d) (\<lambda>(_, d).
           res_bind (dbWriteInt UM_ACCESS_TABLENAME UM_SECURE row secure d) (\<lambda>(_, d).
           res_bind (dbWriteStr UM_ACCESS_TABLENAME UM_GROUP row grp d) (\<lambda>(_, d).
           Inr (0, d)))))))"

definition umDeleteAccessLimit :: "string \<Rightarrow> db \<Rightarrow> (int \<times> db) res" where
  "umDeleteAccessLimit url d =
     res_bind (find_row UM_ACCESS_TABLENAME (Some url) d) (\<lambda>row.
     if row < 0 then Inr (UM_ERR_NOT_FOUND, d) else dbDeleteRow UM_ACCESS_TABLENAME row d)"

definition umGetFirstAccessLimit :: "db \<Rightarrow> string option res" where
  "umGetFirstAccessLimit d = umGetFirstRowData UM_ACCESS_TABLENAME UM_NAME d"

definition umGetNextAccessLimit :: "string \<Rightarrow> db \<Rightarrow> string option res" where
  "umGetNextAccessLimit urlLast d = umGetNextRowData UM_ACCESS_TABLENAME UM_NAME urlLast d"

definition umGetAccessLimitMethod :: "string \<Rightarrow> db \<Rightarrow> int res" where
  "umGetAccessLimitMethod url d = get_int UM_ACCESS_TABLENAME UM_METHOD (Some url) AM_INVALID d"

definition umSetAccessLimitMethod :: "string \<Rightarrow> int \<Rightarrow> db \<Rightarrow> (int \<times> db) res" where
  "umSetAccessLimitMethod url am d = set_int UM_ACCESS_TABLENAME UM_METHOD url am d"

definition umGetAccessLimitSecure :: "string \<Rightarrow> db \<Rightarrow> int res" where
  "umGetAccessLimitSecure url d =
     res_bind (get_int UM_ACCESS_TABLENAME UM_SECURE (Some url) (- 1) d) (\<lambda>n. Inr (to_short n))"

definition umSetAccessLimitSecure :: "string \<Rightarrow> int \<Rightarrow> db \<Rightarrow> (int \<times> db) res" where
  "umSetAccessLimitSecure url secure d = set_int UM_ACCESS_TABLENAME UM_SECURE url secure d"

definition umGetAccessLimitGroup :: "string \<Rightarrow> db \<Rightarrow> string option res" where
  "umGetAccessLimitGroup url d = get_str UM_ACCESS_TABLENAME UM_GROUP url d"

definition umSetAccessLimitGroup :: "string \<Rightarrow> string option \<Rightarrow> db \<Rightarrow> (int \<times> db) res" where
  "umSetAccessLimitGroup url grp d = set_str UM_ACCESS_TABLENAME UM_GROUP url grp d"

text \<open>One step up in \<open>umGetAccessLimit\<close>: the trailing slashes go, then the last component.\<close>

definition is_slash :: "byte \<Rightarrow> bool" where
  "is_slash c \<longleftrightarrow> c = CHR ''/'' \<or> uchar c = 92"

definition strip_while :: "(byte \<Rightarrow> bool) \<Rightarrow> string \<Rightarrow> string" where
  "strip_while P s = rev (dropWhile P (rev s))"

definition url_up :: "string \<Rightarrow> string" where
  "url_up url = strip_while (\<lambda>c. \<not> is_slash c) (strip_while is_slash url)"

lemma length_strip_while: "length (strip_while P s) \<le> length s"
  using length_dropWhile_le [of P "rev s"] by (simp add: strip_while_def)

lemma url_up_shorter: "url \<noteq> [] \<Longrightarrow> length (url_up url) < length url"
proof (cases url rule: rev_exhaust)
  case (snoc xs c)
  show ?thesis
  proof (cases "is_slash c")
    case True
    then have "length (strip_while is_slash url) < length url"
      using length_dropWhile_le [of is_slash "rev xs"] by (simp add: snoc strip_while_def)
    then show ?thesis
      using length_strip_while [of "\<lambda>c. \<not> is_slash c" "strip_while is_slash url"]
      by (simp add: url_up_def)
  next
    case False
    then show ?thesis
      using length_dropWhile_le [of "\<lambda>c. \<not> is_slash c" "rev xs"]
      by (simp add: snoc url_up_def strip_while_def)
  qed
qed simp

function umGetAccessLimit :: "string \<Rightarrow> db \<Rightarrow> string option res" where
  "umGetAccessLimit urlCheck d =
     (if urlCheck = [] then Inr None
      else
        (case umAccessLimitExists urlCheck d of
           Inl f \<Rightarrow> Inl f
         | Inr ex \<Rightarrow> if ex then Inr (Some urlCheck) else umGetAccessLimit (url_up urlCheck) d))"
  by pat_completeness auto
termination by (relation "measure (\<lambda>(u, d). length u)") (auto intro: url_up_shorter)

declare umGetAccessLimit.simps [simp del]

definition umGetAccessMethodForURL :: "string \<Rightarrow> db \<Rightarrow> int res" where
  "umGetAccessMethodForURL url d =
     res_bind (umGetAccessLimit url d) (\<lambda>l.
     case l of
       None \<Rightarrow> Inr AM_FULL
     | Some u \<Rightarrow>
         res_bind (umGetAccessLimitGroup u d) (\<lambda>grp.
         if grp \<noteq> None \<and> grp \<noteq> Some [] then umGetGroupAccessMethod grp d
         else umGetAccessLimitMethod u d))"

definition umUserCanAccessURL :: "string \<Rightarrow> string \<Rightarrow> db \<Rightarrow> bool res" where
  "umUserCanAccessURL user url d =
     res_bind (umUserExists user d) (\<lambda>ex.
     if \<not> ex then Inr False
     else
       res_bind (umGetUserEnabled user d) (\<lambda>en.
       if \<not> en then Inr False
       else
         res_bind (umGetUserGroup user d) (\<lambda>usergroup.
         res_bind (umGetGroupPrivilege usergroup d) (\<lambda>priv.
         if priv = 0 then Inr False
         else
           res_bind (umGetGroupEnabled usergroup d) (\<lambda>gen.
           if \<not> gen then Inr False
           else
             res_bind (umGetGroupAccessMethod usergroup d) (\<lambda>gam.
             if gam = AM_NONE then Inr False
             else
               res_bind (umGetAccessLimit url d) (\<lambda>l.
               case l of
                 None \<Rightarrow> Inr True
               | Some u \<Rightarrow>
                   res_bind (umGetAccessLimitMethod u d) (\<lambda>amURL.
                   res_bind (umGetAccessLimitGroup u d) (\<lambda>grp.
                   if amURL = AM_NONE then Inr False
                   else if grp \<noteq> None \<and> grp \<noteq> Some [] \<and> usergroup \<noteq> None \<and> grp \<noteq> usergroup
                   then Inr False
                   else Inr True)))))))))"

end
