(* ===== verification/Um_Laws.thy ===== *)
theory Um_Laws
  imports Um Emfdb_Laws
begin

text \<open>
  The user database as three finite maps: every table, seen through its unique names, is a map
  from names to rows (\<open>keyed\<close>), and every function of \<open>Um\<close> reads or updates one entry of one map.
  \<open>um_wf\<close> is the invariant: a sound database with the three tables, names unique in each.
\<close>

section \<open>Tables as maps\<close>

definition has_name :: "string \<Rightarrow> row \<Rightarrow> bool" where
  "has_name u x \<longleftrightarrow> x ! 0 = CStr u"

definition look :: "dbTable \<Rightarrow> string \<Rightarrow> row option" where
  "look t u =
     (case find_index (\<lambda>r. \<exists>x. hget (t_rows t) r = Some x \<and> has_name u x) [0..<nRows t] of
        None \<Rightarrow> None | Some r \<Rightarrow> hget (t_rows t) r)"

definition uniq :: "dbTable \<Rightarrow> bool" where
  "uniq t \<longleftrightarrow> (\<forall>r r' x x' u. hget (t_rows t) r = Some x \<and> hget (t_rows t) r' = Some x'
     \<and> has_name u x \<and> has_name u x' \<longrightarrow> r = r')"

definition keyed :: "db \<Rightarrow> string \<Rightarrow> string \<Rightarrow> row option" where
  "keyed d nm u = (case tab d nm of None \<Rightarrow> None | Some t \<Rightarrow> look t u)"

text \<open>Table \<open>nm\<close> is there, with the columns of \<open>p\<close> and unique names.\<close>

definition has_table :: "db \<Rightarrow> string \<Rightarrow> dbTable \<Rightarrow> bool" where
  "has_table d nm p \<longleftrightarrow> (\<exists>t. tab d nm = Some t \<and> same_schema p t \<and> uniq t)"

definition um_wf :: "db \<Rightarrow> bool" where
  "um_wf d \<longleftrightarrow> db_wf d \<and> has_table d UM_USER_TABLENAME userTable
     \<and> has_table d UM_GROUP_TABLENAME groupTable \<and> has_table d UM_ACCESS_TABLENAME accessTable"

lemma look_SomeI:
  assumes "table_wf t" and "uniq t" and "hget (t_rows t) r = Some x" and "has_name u x"
  shows "look t u = Some x"
proof -
  let ?P = "\<lambda>r. \<exists>x. hget (t_rows t) r = Some x \<and> has_name u x"
  have r: "r < nRows t" using assms(1,3) by (simp add: table_wf_def)
  have "\<not> ?P j" if "j < r" for j
    using that assms(2-4) unfolding uniq_def by (metis less_not_refl)
  then have "find_index ?P [0..<nRows t] = Some r"
    using r assms(3,4) by (simp add: find_index_upt)
  then show ?thesis using assms(3) by (simp add: look_def)
qed

lemma look_SomeD:
  assumes "look t u = Some x"
  shows "\<exists>r. find_index (\<lambda>r. \<exists>x. hget (t_rows t) r = Some x \<and> has_name u x) [0..<nRows t] = Some r
    \<and> hget (t_rows t) r = Some x \<and> has_name u x"
proof -
  let ?P = "\<lambda>r. \<exists>x. hget (t_rows t) r = Some x \<and> has_name u x"
  obtain r where r: "find_index ?P [0..<nRows t] = Some r" "hget (t_rows t) r = Some x"
    using assms by (auto simp: look_def split: option.splits)
  from r(1) have "?P r" by (simp only: find_index_upt)
  with r show ?thesis by simp
qed

lemma look_NoneD:
  assumes "table_wf t" and "uniq t" and "look t u = None"
  shows "find_index (\<lambda>r. \<exists>x. hget (t_rows t) r = Some x \<and> has_name u x) [0..<nRows t] = None"
proof (rule ccontr)
  let ?P = "\<lambda>r. \<exists>x. hget (t_rows t) r = Some x \<and> has_name u x"
  assume "find_index ?P [0..<nRows t] \<noteq> None"
  then obtain r where r: "find_index ?P [0..<nRows t] = Some r" by blast
  from r have "?P r" by (simp only: find_index_upt)
  then show False using look_SomeI [OF assms(1,2)] assms(3) by auto
qed

lemma look_iff:
  "table_wf t \<Longrightarrow> uniq t \<Longrightarrow> look t u = Some x \<longleftrightarrow> (\<exists>r. hget (t_rows t) r = Some x \<and> has_name u x)"
  using look_SomeI look_SomeD by blast

text \<open>A map of the rows determines the map of the names.\<close>

lemma look_upd:
  assumes t: "table_wf t" "uniq t" and t': "table_wf t'" "hget (t_rows t') = (hget (t_rows t))(r \<mapsto> y)"
    and old: "hget (t_rows t) r = Some x" and u: "has_name u x" "has_name u y"
  shows "uniq t' \<and> look t' = (look t)(u \<mapsto> y)"
proof -
  have name: "v = u" if "has_name v x \<or> has_name v y" for v using that u by (auto simp: has_name_def)
  have un: "uniq t'"
    unfolding uniq_def
  proof (intro allI impI)
    fix a b z w v
    assume "hget (t_rows t') a = Some z \<and> hget (t_rows t') b = Some w \<and> has_name v z \<and> has_name v w"
    then have "\<exists>z'. hget (t_rows t) a = Some z' \<and> has_name v z'" "\<exists>w'. hget (t_rows t) b = Some w' \<and> has_name v w'"
      using t'(2) old u name by (auto split: if_splits)
    then show "a = b" using t(2) unfolding uniq_def by blast
  qed
  have "look t' v = Some w \<longleftrightarrow> ((look t)(u \<mapsto> y)) v = Some w" for v w
  proof (cases "v = u")
    case True
    then show ?thesis using look_SomeI [OF t'(1) un, of r y u] t'(2) u(2) by auto
  next
    case False
    have "hget (t_rows t') a = Some w \<and> has_name v w \<longleftrightarrow> hget (t_rows t) a = Some w \<and> has_name v w" for a
      using False name t'(2) old by (cases "a = r") auto
    then show ?thesis using False by (simp add: look_iff [OF t'(1) un] look_iff [OF t])
  qed
  then have "look t' v = ((look t)(u \<mapsto> y)) v" for v by (metis not_Some_eq)
  with un show ?thesis by blast
qed

lemma look_del:
  assumes t: "table_wf t" "uniq t" and t': "table_wf t'" "hget (t_rows t') = (hget (t_rows t))(r := None)"
    and old: "hget (t_rows t) r = Some x" and u: "has_name u x"
  shows "uniq t' \<and> look t' = (look t)(u := None)"
proof -
  have sub: "hget (t_rows t) a = Some z \<and> a \<noteq> r" if "hget (t_rows t') a = Some z" for a z
    using that t'(2) by (auto split: if_splits)
  have un: "uniq t'" using t(2) sub unfolding uniq_def by blast
  have "look t' v = Some w \<longleftrightarrow> ((look t)(u := None)) v = Some w" for v w
  proof (cases "v = u")
    case True
    have "\<not> (\<exists>a. hget (t_rows t') a = Some w \<and> has_name u w)"
      using sub old u t(2) unfolding uniq_def by blast
    then show ?thesis using True by (simp add: look_iff [OF t'(1) un])
  next
    case False
    have "hget (t_rows t') a = Some w \<and> has_name v w \<longleftrightarrow> hget (t_rows t) a = Some w \<and> has_name v w" for a
      using False u old t'(2) by (cases "a = r") (auto simp: has_name_def)
    then show ?thesis using False by (simp add: look_iff [OF t'(1) un] look_iff [OF t])
  qed
  then have "look t' v = ((look t)(u := None)) v" for v by (metis not_Some_eq)
  with un show ?thesis by blast
qed

text \<open>A new row whose name nobody has.\<close>

lemma look_new:
  assumes t: "table_wf t" "uniq t" and t': "table_wf t'" "hget (t_rows t') = (hget (t_rows t))(r \<mapsto> y)"
    and fresh: "hget (t_rows t) r = None" "look t u = None" and u: "has_name u y"
  shows "uniq t' \<and> look t' = (look t)(u \<mapsto> y)"
proof -
  have no: "\<not> has_name u z" if "hget (t_rows t) a = Some z" for a z
    using look_SomeI [OF t that] fresh(2) by auto
  have name: "v = u" if "has_name v y" for v using that u by (auto simp: has_name_def)
  have un: "uniq t'"
    unfolding uniq_def
  proof (intro allI impI)
    fix a b z w v
    assume "hget (t_rows t') a = Some z \<and> hget (t_rows t') b = Some w \<and> has_name v z \<and> has_name v w"
    then consider "a = r \<and> b = r"
      | "hget (t_rows t) a = Some z" "hget (t_rows t) b = Some w" "has_name v z" "has_name v w"
      using t'(2) no name by (auto split: if_splits)
    then show "a = b" using t(2) unfolding uniq_def by cases blast+
  qed
  have "look t' v = Some w \<longleftrightarrow> ((look t)(u \<mapsto> y)) v = Some w" for v w
  proof (cases "v = u")
    case True
    then show ?thesis using look_SomeI [OF t'(1) un, of r y u] t'(2) u by auto
  next
    case False
    have "hget (t_rows t') a = Some w \<and> has_name v w \<longleftrightarrow> hget (t_rows t) a = Some w \<and> has_name v w" for a
      using False name t'(2) fresh(1) by (cases "a = r") auto
    then show ?thesis using False by (simp add: look_iff [OF t'(1) un] look_iff [OF t])
  qed
  then have "look t' v = ((look t)(u \<mapsto> y)) v" for v by (metis not_Some_eq)
  with un show ?thesis by blast
qed

section \<open>Reading and writing one entry\<close>

text \<open>The name column of a table with schema \<open>p\<close>.\<close>

definition name_first :: "dbTable \<Rightarrow> bool" where
  "name_first p \<longleftrightarrow> is_col p UM_NAME 0 \<and> columnTypes p ! 0 = T_STRING"

lemma find_row_index:
  assumes wf: "db_wf d" and t: "tab d nm = Some t" "same_schema p t" "uniq t" and p: "name_first p"
  shows "find_row nm (Some u) d
    = Inr (index_int (find_index (\<lambda>r. \<exists>x. hget (t_rows t) r = Some x \<and> has_name u x) [0..<nRows t]))"
  unfolding find_row_def has_name_def
  using p t(2) by (intro search [OF wf t(1)]) (simp_all add: name_first_def is_col_def same_schema_def)

lemma find_row_None:
  assumes "db_wf d" and t: "tab d nm = Some t" "same_schema p t" "uniq t" and "name_first p"
    and n: "look t u = None"
  shows "find_row nm (Some u) d = Inr (- 1)"
  unfolding find_row_index [OF assms(1-5)] look_NoneD [OF twf(1) [OF assms(1) t(1)] t(3) n] by simp

lemma find_row_Some:
  assumes "db_wf d" and t: "tab d nm = Some t" "same_schema p t" "uniq t" and "name_first p"
    and s: "look t u = Some x"
  obtains r where "find_row nm (Some u) d = Inr (int r)" "hget (t_rows t) r = Some x" "has_name u x"
proof -
  obtain r where r: "find_index (\<lambda>r. \<exists>x. hget (t_rows t) r = Some x \<and> has_name u x) [0..<nRows t] = Some r"
    "hget (t_rows t) r = Some x" "has_name u x"
    using look_SomeD [OF s] by blast
  have "find_row nm (Some u) d = Inr (int r)"
    unfolding find_row_index [OF assms(1-5)] r(1) by simp
  then show thesis using r(2,3) by (rule that)
qed

fun num :: "cell \<Rightarrow> int" where
  "num (CInt n) = n"
| "num (CStr s) = 0"

fun txt_of :: "cell \<Rightarrow> string option" where
  "txt_of (CStr s) = Some s"
| "txt_of (CInt n) = None"

lemma row_cell_ok:
  assumes "db_wf d" and "tab d nm = Some t" and "is_col t col ci" and "hget (t_rows t) r = Some x"
  shows "cell_ok (columnTypes t ! ci) (x ! ci)" "length x = length (columnTypes t)"
  using row_wf_cell [of "columnTypes t" x ci] table_wf_row [OF twf(1) [OF assms(1,2)] assms(4)]
    col_types [OF assms(1-3)] by (auto simp: row_wf_def list_all2_conv_all_nth)

lemma get_int_eq:
  assumes wf: "db_wf d" and t: "tab d nm = Some t" "same_schema p t" "uniq t" and p: "name_first p"
    and c: "is_col p col ci" "columnTypes p ! ci = T_INT"
  shows "get_int nm col (Some u) dflt d = Inr (case look t u of None \<Rightarrow> dflt | Some x \<Rightarrow> num (x ! ci))"
proof (cases "look t u")
  case None
  then show ?thesis using find_row_None [OF wf t p None] by (simp add: get_int_def)
next
  case (Some x)
  obtain r where r: "find_row nm (Some u) d = Inr (int r)" "hget (t_rows t) r = Some x" "has_name u x"
    by (rule find_row_Some [OF wf t p Some])
  have ct: "is_col t col ci" "columnTypes t ! ci = T_INT" using c t(2) by (simp_all add: is_col_def same_schema_def)
  obtain n where n: "x ! ci = CInt n"
    using row_cell_ok(1) [OF wf t(1) ct(1) r(2)] ct(2) by (cases "x ! ci") (auto simp: cell_ok_def)
  show ?thesis using Some r n read_cell [OF wf t(1) ct(1) r(2)] by (simp add: get_int_def)
qed

lemma read_str_cell:
  assumes wf: "db_wf d" and t: "tab d nm = Some t" "same_schema p t"
    and c: "is_col p col ci" "columnTypes p ! ci = T_STRING" and r: "hget (t_rows t) r = Some x"
  shows "dbReadStr nm col (int r) d = Inr (0, Some (x ! ci)) \<and> cell_str (x ! ci) = Inr (txt_of (x ! ci))"
proof -
  have ct: "is_col t col ci" "columnTypes t ! ci = T_STRING" using c t(2) by (simp_all add: is_col_def same_schema_def)
  have "cell_str (x ! ci) = Inr (txt_of (x ! ci))"
    using row_cell_ok(1) [OF wf t(1) ct(1) r] ct(2) by (cases "x ! ci") (auto simp: cell_ok_def)
  then show ?thesis using read_cell [OF wf t(1) ct(1) r] by (simp add: dbReadStr_def)
qed

lemma get_str_eq:
  assumes wf: "db_wf d" and t: "tab d nm = Some t" "same_schema p t" "uniq t" and p: "name_first p"
    and c: "is_col p col ci" "columnTypes p ! ci = T_STRING"
  shows "get_str nm col u d = Inr (case look t u of None \<Rightarrow> None | Some x \<Rightarrow> txt_of (x ! ci))"
proof (cases "look t u")
  case None
  then show ?thesis using find_row_None [OF wf t p None] by (simp add: get_str_def)
next
  case (Some x)
  obtain r where r: "find_row nm (Some u) d = Inr (int r)" "hget (t_rows t) r = Some x" "has_name u x"
    by (rule find_row_Some [OF wf t p Some])
  show ?thesis using Some r read_str_cell [OF wf t(1,2) c r(2)] by (simp add: get_str_def)
qed

text \<open>An update of one column, other than the name, of one entry.\<close>

definition updated :: "db \<Rightarrow> string \<Rightarrow> dbTable \<Rightarrow> (string \<Rightarrow> row option) \<Rightarrow> db \<Rightarrow> bool" where
  "updated d nm p f d' \<longleftrightarrow> db_wf d' \<and> (\<exists>t'. tab d' = (tab d)(nm \<mapsto> t') \<and> same_schema p t' \<and> uniq t' \<and> look t' = f)"

lemma same_schema_trans: "same_schema p t \<Longrightarrow> same_schema t t' \<Longrightarrow> same_schema p t'"
  by (simp add: same_schema_def)

lemma step_updated:
  assumes wf: "db_wf d" and t: "tab d nm = Some t" "same_schema p t" "uniq t"
    and d': "db_wf d'" "tab d' = (tab d)(nm \<mapsto> t')" "same_schema t t'"
      "hget (t_rows t') = (hget (t_rows t))(r \<mapsto> x[ci := c])"
    and x: "hget (t_rows t) r = Some x" "has_name u x" and ci: "0 < ci"
  shows "updated d nm p ((look t)(u \<mapsto> x[ci := c])) d'"
proof -
  have w': "table_wf t'" using twf(1) [OF d'(1), of nm t'] d'(2) by simp
  have "has_name u (x[ci := c])" using x(2) ci by (simp add: has_name_def)
  from look_upd [OF twf(1) [OF wf t(1)] t(3) w' d'(4) x this] show ?thesis
    using d'(1,2) same_schema_trans [OF t(2) d'(3)] unfolding updated_def by blast
qed

lemma set_int_eq:
  assumes wf: "db_wf d" and t: "tab d nm = Some t" "same_schema p t" "uniq t" and p: "name_first p"
    and c: "is_col p col ci" "columnTypes p ! ci = T_INT" and ci: "0 < ci"
  shows "(look t u = None \<longrightarrow> set_int nm col u v d = Inr (UM_ERR_NOT_FOUND, d))
    \<and> (\<forall>x. look t u = Some x \<longrightarrow> (\<exists>d'. set_int nm col u v d = Inr (0, d')
          \<and> updated d nm p ((look t)(u \<mapsto> x[ci := CInt v])) d'))"
proof (intro conjI impI allI)
  assume "look t u = None"
  then show "set_int nm col u v d = Inr (UM_ERR_NOT_FOUND, d)"
    using find_row_None [OF wf t p] by (simp add: set_int_def)
next
  fix x assume x: "look t u = Some x"
  obtain r where r: "find_row nm (Some u) d = Inr (int r)" "hget (t_rows t) r = Some x" "has_name u x"
    by (rule find_row_Some [OF wf t p x])
  have ct: "is_col t col ci" "columnTypes t ! ci = T_INT" using c t(2) by (simp_all add: is_col_def same_schema_def)
  obtain d' t' where d': "dbWriteInt nm col (int r) v d = Inr (0, d')" "db_wf d'" "tab d' = (tab d)(nm \<mapsto> t')"
    "same_schema t t'" "hget (t_rows t') = (hget (t_rows t))(r \<mapsto> x[ci := CInt v])"
    using write_int_step [OF wf t(1) ct r(2), of v] by blast
  from step_updated [OF wf t d'(2-5) r(2,3) ci] d'(1) r(1)
  show "\<exists>d'. set_int nm col u v d = Inr (0, d') \<and> updated d nm p ((look t)(u \<mapsto> x[ci := CInt v])) d'"
    by (auto simp: set_int_def)
qed

lemma set_str_eq:
  assumes wf: "db_wf d" and t: "tab d nm = Some t" "same_schema p t" "uniq t" and p: "name_first p"
    and c: "is_col p col ci" "columnTypes p ! ci = T_STRING" and ci: "0 < ci"
  shows "(look t u = None \<longrightarrow> set_str nm col u v d = Inr (UM_ERR_NOT_FOUND, d))
    \<and> (\<forall>x. look t u = Some x \<longrightarrow> (\<exists>d'. set_str nm col u v d = Inr (0, d')
          \<and> updated d nm p ((look t)(u \<mapsto> x[ci := CStr (bstrdup v)])) d'))"
proof (intro conjI impI allI)
  assume "look t u = None"
  then show "set_str nm col u v d = Inr (UM_ERR_NOT_FOUND, d)"
    using find_row_None [OF wf t p] by (simp add: set_str_def)
next
  fix x assume x: "look t u = Some x"
  obtain r where r: "find_row nm (Some u) d = Inr (int r)" "hget (t_rows t) r = Some x" "has_name u x"
    by (rule find_row_Some [OF wf t p x])
  have ct: "is_col t col ci" "columnTypes t ! ci = T_STRING" using c t(2) by (simp_all add: is_col_def same_schema_def)
  obtain d' t' where d': "dbWriteStr nm col (int r) v d = Inr (0, d')" "db_wf d'" "tab d' = (tab d)(nm \<mapsto> t')"
    "same_schema t t'" "hget (t_rows t') = (hget (t_rows t))(r \<mapsto> x[ci := CStr (bstrdup v)])"
    using write_str_step [OF wf t(1) ct r(2), of v] by blast
  from step_updated [OF wf t d'(2-5) r(2,3) ci] d'(1) r(1)
  show "\<exists>d'. set_str nm col u v d = Inr (0, d') \<and> updated d nm p ((look t)(u \<mapsto> x[ci := CStr (bstrdup v)])) d'"
    by (auto simp: set_str_def)
qed

section \<open>Adding and deleting an entry\<close>

lemma delete_named:
  assumes wf: "db_wf d" and t: "tab d nm = Some t" "same_schema p t" "uniq t" and p: "name_first p"
    and x: "look t u = Some x"
  shows "\<exists>r d'. find_row nm (Some u) d = Inr (int r) \<and> dbDeleteRow nm (int r) d = Inr (0, d')
    \<and> updated d nm p ((look t)(u := None)) d'"
proof -
  obtain r where r: "find_row nm (Some u) d = Inr (int r)" "hget (t_rows t) r = Some x" "has_name u x"
    by (rule find_row_Some [OF wf t p x])
  obtain d' t' where d': "dbDeleteRow nm (int r) d = Inr (0, d')" "db_wf d'" "tab d' = (tab d)(nm \<mapsto> t')"
    "same_schema t t'" "hget (t_rows t') = (hget (t_rows t))(r := None)"
    using delete_row_step [OF wf t(1) r(2)] by blast
  have w': "table_wf t'" using twf(1) [OF d'(2), of nm t'] d'(3) by simp
  from look_del [OF twf(1) [OF wf t(1)] t(3) w' d'(5) r(2,3)] r(1) d' same_schema_trans [OF t(2) d'(4)]
  show ?thesis unfolding updated_def by blast
qed

text \<open>The state while a new row \<open>h\<close> is being filled: the other tables as before, the row's name
  and contents as given.\<close>

definition filling :: "db \<Rightarrow> string \<Rightarrow> dbTable \<Rightarrow> (string \<Rightarrow> row option) \<Rightarrow> nat \<Rightarrow> row \<Rightarrow> db \<Rightarrow> bool" where
  "filling d0 nm p f h x d \<longleftrightarrow> db_wf d \<and> (\<exists>t. tab d = (tab d0)(nm \<mapsto> t) \<and> same_schema p t \<and> uniq t
     \<and> look t = f \<and> hget (t_rows t) h = Some x)"

lemma filling_updated: "filling d0 nm p f h x d \<Longrightarrow> updated d0 nm p f d"
  unfolding filling_def updated_def by blast

lemma fill_str:
  assumes f: "filling d0 nm p f h x d" and u: "has_name u x" and ci: "0 < ci"
    and c: "is_col p col ci" "columnTypes p ! ci = T_STRING"
  shows "\<exists>d'. dbWriteStr nm col (int h) v d = Inr (0, d')
    \<and> filling d0 nm p (f(u \<mapsto> x[ci := CStr (bstrdup v)])) h (x[ci := CStr (bstrdup v)]) d'"
proof -
  obtain t where wf: "db_wf d" and t: "tab d = (tab d0)(nm \<mapsto> t)" "same_schema p t" "uniq t" "look t = f"
    "hget (t_rows t) h = Some x" using f unfolding filling_def by blast
  have tn: "tab d nm = Some t" using t(1) by simp
  have ct: "is_col t col ci" "columnTypes t ! ci = T_STRING" using c t(2) by (simp_all add: is_col_def same_schema_def)
  obtain d' t' where d': "dbWriteStr nm col (int h) v d = Inr (0, d')" "db_wf d'" "tab d' = (tab d)(nm \<mapsto> t')"
    "same_schema t t'" "hget (t_rows t') = (hget (t_rows t))(h \<mapsto> x[ci := CStr (bstrdup v)])"
    using write_str_step [OF wf tn ct t(5), of v] by blast
  have w': "table_wf t'" using twf(1) [OF d'(2), of nm t'] d'(3) by simp
  have y: "has_name u (x[ci := CStr (bstrdup v)])" using u ci by (simp add: has_name_def)
  have "tab d' = (tab d0)(nm \<mapsto> t')" using d'(3) t(1) by simp
  moreover note look_upd [OF twf(1) [OF wf tn] t(3) w' d'(5) t(5) u y]
  ultimately show ?thesis
    using d' t(4) same_schema_trans [OF t(2) d'(4)] unfolding filling_def by auto
qed

lemma fill_int:
  assumes f: "filling d0 nm p f h x d" and u: "has_name u x" and ci: "0 < ci"
    and c: "is_col p col ci" "columnTypes p ! ci = T_INT"
  shows "\<exists>d'. dbWriteInt nm col (int h) v d = Inr (0, d')
    \<and> filling d0 nm p (f(u \<mapsto> x[ci := CInt v])) h (x[ci := CInt v]) d'"
proof -
  obtain t where wf: "db_wf d" and t: "tab d = (tab d0)(nm \<mapsto> t)" "same_schema p t" "uniq t" "look t = f"
    "hget (t_rows t) h = Some x" using f unfolding filling_def by blast
  have tn: "tab d nm = Some t" using t(1) by simp
  have ct: "is_col t col ci" "columnTypes t ! ci = T_INT" using c t(2) by (simp_all add: is_col_def same_schema_def)
  obtain d' t' where d': "dbWriteInt nm col (int h) v d = Inr (0, d')" "db_wf d'" "tab d' = (tab d)(nm \<mapsto> t')"
    "same_schema t t'" "hget (t_rows t') = (hget (t_rows t))(h \<mapsto> x[ci := CInt v])"
    using write_int_step [OF wf tn ct t(5), of v] by blast
  have w': "table_wf t'" using twf(1) [OF d'(2), of nm t'] d'(3) by simp
  have y: "has_name u (x[ci := CInt v])" using u ci by (simp add: has_name_def)
  have "tab d' = (tab d0)(nm \<mapsto> t')" using d'(3) t(1) by simp
  moreover note look_upd [OF twf(1) [OF wf tn] t(3) w' d'(5) t(5) u y]
  ultimately show ?thesis
    using d' t(4) same_schema_trans [OF t(2) d'(4)] unfolding filling_def by auto
qed

text \<open>A row is added and named.\<close>

lemma blank_no_name: "columnNames t \<noteq> [] \<Longrightarrow> \<not> has_name v (blank t)"
  by (cases "columnNames t") (simp_all add: has_name_def blank_def)

lemma add_named:
  assumes wf: "db_wf d" and t: "tab d nm = Some t" "same_schema p t" "uniq t" and p: "name_first p"
    and u: "look t u = None"
  shows "(\<exists>d'. dbAddRow e nm d = Inr (- 1, d') \<and> updated d nm p (look t) d' \<and> e \<noteq> halloc_fine)
    \<or> (\<exists>h d1 d2. dbAddRow e nm d = Inr (int h, d1) \<and> dbWriteStr nm UM_NAME (int h) (Some u) d1 = Inr (0, d2)
       \<and> filling d nm p ((look t)(u \<mapsto> (blank p)[0 := CStr u])) h ((blank p)[0 := CStr u]) d2)"
proof -
  note w = twf(1) [OF wf t(1)]
  obtain r d1 t1 where d1: "dbAddRow e nm d = Inr (r, d1)" "db_wf d1" "tab d1 = (tab d)(nm \<mapsto> t1)" "same_schema t t1"
    and cs: "r = - 1 \<and> hget (t_rows t1) = hget (t_rows t) \<and> e \<noteq> halloc_fine
       \<or> (\<exists>h. r = int h \<and> hget (t_rows t) h = None \<and> hget (t_rows t1) = (hget (t_rows t))(h \<mapsto> blank t))"
    using add_row_step [OF wf t(1), of e] by blast
  have t1: "tab d1 nm = Some t1" using d1(3) by simp
  note w1 = twf(1) [OF d1(2) t1]
  note s1 = same_schema_trans [OF t(2) d1(4)]
  have bl: "blank t = blank p" using t(2) by (simp add: blank_def same_schema_def)
  have ne: "columnNames t \<noteq> []" using w by (simp add: table_wf_def)
  from cs show ?thesis
  proof
    assume a: "r = - 1 \<and> hget (t_rows t1) = hget (t_rows t) \<and> e \<noteq> halloc_fine"
    then have un: "uniq t1" using t(3) by (simp add: uniq_def)
    have "look t1 v = Some x \<longleftrightarrow> look t v = Some x" for v x
      using a by (simp add: look_iff [OF w1 un] look_iff [OF w t(3)])
    then have "look t1 v = look t v" for v by (metis not_Some_eq)
    then have "look t1 = look t" by blast
    with a d1 un s1 show ?thesis unfolding updated_def by blast
  next
    assume "\<exists>h. r = int h \<and> hget (t_rows t) h = None \<and> hget (t_rows t1) = (hget (t_rows t))(h \<mapsto> blank t)"
    then obtain h where h: "r = int h" "hget (t_rows t) h = None"
      "hget (t_rows t1) = (hget (t_rows t))(h \<mapsto> blank t)" by blast
    have b1: "hget (t_rows t1) h = Some (blank t)" using h(3) by simp
    have ct: "is_col t1 UM_NAME 0" "columnTypes t1 ! 0 = T_STRING"
      using p s1 by (simp_all add: name_first_def is_col_def same_schema_def)
    obtain d2 t2 where d2: "dbWriteStr nm UM_NAME (int h) (Some u) d1 = Inr (0, d2)" "db_wf d2"
      "tab d2 = (tab d1)(nm \<mapsto> t2)" "same_schema t1 t2"
      "hget (t_rows t2) = (hget (t_rows t1))(h \<mapsto> (blank t)[0 := CStr (bstrdup (Some u))])"
      using write_str_step [OF d1(2) t1 ct b1, of "Some u"] by blast
    let ?y = "(blank p)[0 := CStr u]"
    have y: "hget (t_rows t2) = (hget (t_rows t))(h \<mapsto> ?y)" using d2(5) h(3) bl by (simp add: bstrdup_def)
    have w2: "table_wf t2" using twf(1) [OF d2(2), of nm t2] d2(3) by simp
    have "length (columnNames p) \<noteq> 0" using ne t(2) by (simp add: same_schema_def)
    then have "has_name u ?y" by (simp add: has_name_def blank_def)
    from look_new [OF w t(3) w2 y h(2) u this]
    have "uniq t2 \<and> look t2 = (look t)(u \<mapsto> ?y)" .
    moreover have "tab d2 = (tab d)(nm \<mapsto> t2)" using d2(3) d1(3) by simp
    moreover have "hget (t_rows t2) h = Some ?y" using y by simp
    ultimately have "filling d nm p ((look t)(u \<mapsto> ?y)) h ?y d2"
      using d2(2) same_schema_trans [OF s1 d2(4)] unfolding filling_def by blast
    with d1(1) d2(1) h(1) show ?thesis by blast
  qed
qed

end
