(* ===== verification/Um_Properties.thy ===== *)
theory Um_Properties
  imports Um_Laws
begin

text \<open>
  The user management as operations on three maps (users, groups, access limits), and its
  properties: accounts survive being created, changed and read; names stay unique; protected
  accounts stay; access is granted only to enabled users of enabled groups; the password
  obfuscation is its own inverse exactly where names allow it.
\<close>

section \<open>The three maps\<close>

definition users :: "db \<Rightarrow> string \<Rightarrow> row option" where
  "users d = keyed d UM_USER_TABLENAME"

definition groups :: "db \<Rightarrow> string \<Rightarrow> row option" where
  "groups d = keyed d UM_GROUP_TABLENAME"

definition limits :: "db \<Rightarrow> string \<Rightarrow> row option" where
  "limits d = keyed d UM_ACCESS_TABLENAME"

lemma um_schema:
  "name_first userTable" "name_first groupTable" "name_first accessTable"
  "is_col userTable UM_PASS 1 \<and> columnTypes userTable ! 1 = T_STRING"
  "is_col userTable UM_GROUP 2 \<and> columnTypes userTable ! 2 = T_STRING"
  "is_col userTable UM_PROT 3 \<and> columnTypes userTable ! 3 = T_INT"
  "is_col userTable UM_DISABLE 4 \<and> columnTypes userTable ! 4 = T_INT"
  "is_col groupTable UM_PRIVILEGE 1 \<and> columnTypes groupTable ! 1 = T_INT"
  "is_col groupTable UM_METHOD 2 \<and> columnTypes groupTable ! 2 = T_INT"
  "is_col groupTable UM_PROT 3 \<and> columnTypes groupTable ! 3 = T_INT"
  "is_col groupTable UM_DISABLE 4 \<and> columnTypes groupTable ! 4 = T_INT"
  "is_col accessTable UM_METHOD 1 \<and> columnTypes accessTable ! 1 = T_INT"
  "is_col accessTable UM_SECURE 2 \<and> columnTypes accessTable ! 2 = T_INT"
  "is_col accessTable UM_GROUP 3 \<and> columnTypes accessTable ! 3 = T_STRING"
  by (simp_all add: name_first_def is_col_def userTable_def groupTable_def accessTable_def um_names)

lemma um_distinct:
  "UM_USER_TABLENAME \<noteq> UM_GROUP_TABLENAME" "UM_USER_TABLENAME \<noteq> UM_ACCESS_TABLENAME"
  "UM_GROUP_TABLENAME \<noteq> UM_ACCESS_TABLENAME"
  by (simp_all add: um_names)

lemma um_wf_tables:
  assumes "um_wf d"
  shows "db_wf d"
    "\<exists>t. tab d UM_USER_TABLENAME = Some t \<and> same_schema userTable t \<and> uniq t \<and> users d = look t"
    "\<exists>t. tab d UM_GROUP_TABLENAME = Some t \<and> same_schema groupTable t \<and> uniq t \<and> groups d = look t"
    "\<exists>t. tab d UM_ACCESS_TABLENAME = Some t \<and> same_schema accessTable t \<and> uniq t \<and> limits d = look t"
  using assms by (auto simp: um_wf_def has_table_def users_def groups_def limits_def keyed_def fun_eq_iff)

lemma user_tabE:
  assumes "um_wf d"
  obtains t where "db_wf d" "tab d UM_USER_TABLENAME = Some t" "same_schema userTable t" "uniq t" "users d = look t"
  using um_wf_tables(1,2) [OF assms] by blast

lemma group_tabE:
  assumes "um_wf d"
  obtains t where "db_wf d" "tab d UM_GROUP_TABLENAME = Some t" "same_schema groupTable t" "uniq t" "groups d = look t"
  using um_wf_tables(1,3) [OF assms] by blast

lemma limit_tabE:
  assumes "um_wf d"
  obtains t where "db_wf d" "tab d UM_ACCESS_TABLENAME = Some t" "same_schema accessTable t" "uniq t" "limits d = look t"
  using um_wf_tables(1,4) [OF assms] by blast

lemma updated_user:
  assumes "um_wf d" and "updated d UM_USER_TABLENAME userTable f d'"
  shows "um_wf d' \<and> users d' = f \<and> groups d' = groups d \<and> limits d' = limits d"
  using assms um_distinct
  by (auto simp: um_wf_def updated_def has_table_def users_def groups_def limits_def keyed_def fun_eq_iff)

lemma updated_group:
  assumes "um_wf d" and "updated d UM_GROUP_TABLENAME groupTable f d'"
  shows "um_wf d' \<and> users d' = users d \<and> groups d' = f \<and> limits d' = limits d"
  using assms um_distinct um_distinct [symmetric]
  by (auto simp: um_wf_def updated_def has_table_def users_def groups_def limits_def keyed_def fun_eq_iff)

lemma updated_limit:
  assumes "um_wf d" and "updated d UM_ACCESS_TABLENAME accessTable f d'"
  shows "um_wf d' \<and> users d' = users d \<and> groups d' = groups d \<and> limits d' = f"
  using assms um_distinct um_distinct [symmetric]
  by (auto simp: um_wf_def updated_def has_table_def users_def groups_def limits_def keyed_def fun_eq_iff)

section \<open>Readers\<close>

text \<open>Existence, for the three tables.\<close>

lemma exists_eq:
  assumes wf: "db_wf d" and t: "tab d nm = Some t" "same_schema p t" "uniq t" and p: "name_first p"
  shows "\<exists>row. find_row nm (Some u) d = Inr row \<and> (0 \<le> row \<longleftrightarrow> look t u \<noteq> None)"
proof (cases "look t u")
  case None
  then show ?thesis using find_row_None [OF wf t p None] by simp
next
  case (Some x)
  obtain r where "find_row nm (Some u) d = Inr (int r)" "hget (t_rows t) r = Some x" "has_name u x"
    by (rule find_row_Some [OF wf t p Some])
  then show ?thesis using Some by simp
qed

lemma umUserExists_eq:
  assumes "um_wf d"
  shows "umUserExists u d = Inr (users d u \<noteq> None)"
proof -
  obtain t where t: "db_wf d" "tab d UM_USER_TABLENAME = Some t" "same_schema userTable t" "uniq t" "users d = look t"
    by (rule user_tabE [OF assms])
  from exists_eq [OF t(1-4) um_schema(1), of u] t(5) show ?thesis by (auto simp: umUserExists_def)
qed

lemma umGroupExists_eq:
  assumes "um_wf d"
  shows "umGroupExists u d = Inr (groups d u \<noteq> None)"
proof -
  obtain t where t: "db_wf d" "tab d UM_GROUP_TABLENAME = Some t" "same_schema groupTable t" "uniq t" "groups d = look t"
    by (rule group_tabE [OF assms])
  from exists_eq [OF t(1-4) um_schema(2), of u] t(5) show ?thesis by (auto simp: umGroupExists_def)
qed

lemma umAccessLimitExists_eq:
  assumes "um_wf d"
  shows "umAccessLimitExists u d = Inr (limits d u \<noteq> None)"
proof -
  obtain t where t: "db_wf d" "tab d UM_ACCESS_TABLENAME = Some t" "same_schema accessTable t" "uniq t" "limits d = look t"
    by (rule limit_tabE [OF assms])
  from exists_eq [OF t(1-4) um_schema(3), of u] t(5) show ?thesis by (auto simp: umAccessLimitExists_def)
qed

text \<open>Columns of an entry, with the value the functions use when there is none.\<close>

definition int_of :: "nat \<Rightarrow> int \<Rightarrow> row option \<Rightarrow> int" where
  "int_of ci dflt e = (case e of None \<Rightarrow> dflt | Some x \<Rightarrow> num (x ! ci))"

definition str_of :: "nat \<Rightarrow> row option \<Rightarrow> string option" where
  "str_of ci e = (case e of None \<Rightarrow> None | Some x \<Rightarrow> txt_of (x ! ci))"

lemma user_int:
  assumes "um_wf d" and "is_col userTable col ci \<and> columnTypes userTable ! ci = T_INT"
  shows "get_int UM_USER_TABLENAME col (Some u) dflt d = Inr (int_of ci dflt (users d u))"
proof -
  obtain t where t: "db_wf d" "tab d UM_USER_TABLENAME = Some t" "same_schema userTable t" "uniq t" "users d = look t"
    by (rule user_tabE [OF assms(1)])
  from assms(2) get_int_eq [OF t(1-4) um_schema(1)] t(5) show ?thesis by (simp add: int_of_def)
qed

lemma group_int:
  assumes "um_wf d" and "is_col groupTable col ci \<and> columnTypes groupTable ! ci = T_INT"
  shows "get_int UM_GROUP_TABLENAME col (Some u) dflt d = Inr (int_of ci dflt (groups d u))"
proof -
  obtain t where t: "db_wf d" "tab d UM_GROUP_TABLENAME = Some t" "same_schema groupTable t" "uniq t" "groups d = look t"
    by (rule group_tabE [OF assms(1)])
  from assms(2) get_int_eq [OF t(1-4) um_schema(2)] t(5) show ?thesis by (simp add: int_of_def)
qed

lemma limit_int:
  assumes "um_wf d" and "is_col accessTable col ci \<and> columnTypes accessTable ! ci = T_INT"
  shows "get_int UM_ACCESS_TABLENAME col (Some u) dflt d = Inr (int_of ci dflt (limits d u))"
proof -
  obtain t where t: "db_wf d" "tab d UM_ACCESS_TABLENAME = Some t" "same_schema accessTable t" "uniq t" "limits d = look t"
    by (rule limit_tabE [OF assms(1)])
  from assms(2) get_int_eq [OF t(1-4) um_schema(3)] t(5) show ?thesis by (simp add: int_of_def)
qed

lemma user_str:
  assumes "um_wf d" and "is_col userTable col ci \<and> columnTypes userTable ! ci = T_STRING"
  shows "get_str UM_USER_TABLENAME col u d = Inr (str_of ci (users d u))"
proof -
  obtain t where t: "db_wf d" "tab d UM_USER_TABLENAME = Some t" "same_schema userTable t" "uniq t" "users d = look t"
    by (rule user_tabE [OF assms(1)])
  from assms(2) get_str_eq [OF t(1-4) um_schema(1)] t(5) show ?thesis by (simp add: str_of_def)
qed

lemma limit_str:
  assumes "um_wf d" and "is_col accessTable col ci \<and> columnTypes accessTable ! ci = T_STRING"
  shows "get_str UM_ACCESS_TABLENAME col u d = Inr (str_of ci (limits d u))"
proof -
  obtain t where t: "db_wf d" "tab d UM_ACCESS_TABLENAME = Some t" "same_schema accessTable t" "uniq t" "limits d = look t"
    by (rule limit_tabE [OF assms(1)])
  from assms(2) get_str_eq [OF t(1-4) um_schema(3)] t(5) show ?thesis by (simp add: str_of_def)
qed

lemma um_readers:
  assumes "um_wf d"
  shows "umGetUserProtected u d = Inr (to_short (int_of 3 0 (users d u)))"
    "umGetUserEnabled u d = Inr (int_of 4 1 (users d u) = 0)"
    "umGetUserGroup u d = Inr (str_of 2 (users d u))"
    "umGetGroupProtected u d = Inr (to_short (int_of 3 0 (groups d u)))"
    "umGetGroupAccessMethod (Some u) d = Inr (int_of 2 AM_INVALID (groups d u))"
    "umGetGroupPrivilege (Some u) d = Inr (to_short (int_of 1 (- 1) (groups d u)))"
    "umGetGroupEnabled (Some u) d = Inr (int_of 4 1 (groups d u) = 0)"
    "umGetAccessLimitMethod u d = Inr (int_of 1 AM_INVALID (limits d u))"
    "umGetAccessLimitSecure u d = Inr (to_short (int_of 2 (- 1) (limits d u)))"
    "umGetAccessLimitGroup u d = Inr (str_of 3 (limits d u))"
  by (simp_all only: umGetUserProtected_def umGetUserEnabled_def umGetUserGroup_def umGetGroupProtected_def
      umGetGroupAccessMethod_def umGetGroupPrivilege_def umGetGroupEnabled_def umGetAccessLimitMethod_def
      umGetAccessLimitSecure_def umGetAccessLimitGroup_def user_int [OF assms um_schema(6)]
      user_int [OF assms um_schema(7)] user_str [OF assms um_schema(5)] group_int [OF assms um_schema(10)]
      group_int [OF assms um_schema(9)] group_int [OF assms um_schema(8)] group_int [OF assms um_schema(11)]
      limit_int [OF assms um_schema(12)] limit_int [OF assms um_schema(13)] limit_str [OF assms um_schema(14)]
      res_bind.simps)

lemma umGetUserPassword_eq:
  assumes "um_wf d"
  shows "umGetUserPassword u d = Inr (map_option (\<lambda>x. umEncryptString (bstrdup (txt_of (x ! 1)))) (users d u))"
proof -
  obtain t where wf: "db_wf d" and t: "tab d UM_USER_TABLENAME = Some t" "same_schema userTable t" "uniq t"
    and u: "users d = look t" using um_wf_tables(1,2) [OF assms] by blast
  show ?thesis
  proof (cases "look t u")
    case None
    then show ?thesis using find_row_None [OF wf t um_schema(1) None] u by (simp add: umGetUserPassword_def)
  next
    case (Some x)
    obtain r where r: "find_row UM_USER_TABLENAME (Some u) d = Inr (int r)" "hget (t_rows t) r = Some x"
      "has_name u x" by (rule find_row_Some [OF wf t um_schema(1) Some])
    have "is_col userTable UM_PASS 1" "columnTypes userTable ! 1 = T_STRING" using um_schema(4) by auto
    from read_str_cell [OF wf t(1,2) this r(2)] show ?thesis
      using r(1) Some u by (simp add: umGetUserPassword_def)
  qed
qed

section \<open>Writers\<close>

definition user_row :: "string \<Rightarrow> string \<Rightarrow> string \<Rightarrow> int \<Rightarrow> int \<Rightarrow> row" where
  "user_row u p g prot dis = [CStr u, CStr p, CStr g, CInt prot, CInt dis]"

definition group_row :: "string \<Rightarrow> int \<Rightarrow> int \<Rightarrow> int \<Rightarrow> int \<Rightarrow> row" where
  "group_row g priv am prot dis = [CStr g, CInt priv, CInt am, CInt prot, CInt dis]"

definition limit_row :: "string \<Rightarrow> int \<Rightarrow> int \<Rightarrow> string \<Rightarrow> row" where
  "limit_row url am secure g = [CStr url, CInt am, CInt secure, CStr g]"

lemma umAddUser_checks:
  assumes wf: "um_wf d"
  shows "users d u \<noteq> None \<Longrightarrow> umAddUser e u pass g prot dis d = Inr (UM_ERR_DUPLICATE, d)"
    "users d u = None \<Longrightarrow> \<not> umCheckName u \<Longrightarrow> umAddUser e u pass g prot dis d = Inr (UM_ERR_BAD_NAME, d)"
    "users d u = None \<Longrightarrow> umCheckName u \<Longrightarrow> \<not> umCheckName pass
     \<Longrightarrow> umAddUser e u pass g prot dis d = Inr (UM_ERR_BAD_PASSWORD, d)"
    "users d u = None \<Longrightarrow> umCheckName u \<Longrightarrow> umCheckName pass \<Longrightarrow> groups d g = None
     \<Longrightarrow> umAddUser e u pass g prot dis d = Inr (UM_ERR_NOT_FOUND, d)"
  by (simp_all add: umAddUser_def umUserExists_eq [OF wf] umGroupExists_eq [OF wf])

lemma umAddUser_new:
  assumes wf: "um_wf d" and u: "users d u = None" "umCheckName u" "umCheckName pass" "groups d g \<noteq> None"
  shows "(\<exists>d'. umAddUser e u pass g prot dis d = Inr (UM_ERR_GENERAL, d') \<and> um_wf d'
      \<and> users d' = users d \<and> groups d' = groups d \<and> limits d' = limits d \<and> e \<noteq> halloc_fine)
    \<or> (\<exists>d'. umAddUser e u pass g prot dis d = Inr (0, d') \<and> um_wf d'
      \<and> users d' = (users d)(u \<mapsto> user_row u (umEncryptString pass) g prot dis)
      \<and> groups d' = groups d \<and> limits d' = limits d)"
proof -
  obtain t where t: "db_wf d" "tab d UM_USER_TABLENAME = Some t" "same_schema userTable t" "uniq t" "users d = look t"
    by (rule user_tabE [OF wf])
  have n: "look t u = None" using u(1) t(5) by simp
  let ?T = UM_USER_TABLENAME and ?P = userTable
  from add_named [OF t(1-4) um_schema(1) n, of e] show ?thesis
  proof
    assume "\<exists>d'. dbAddRow e ?T d = Inr (- 1, d') \<and> updated d ?T ?P (look t) d' \<and> e \<noteq> halloc_fine"
    then obtain d' where d': "dbAddRow e ?T d = Inr (- 1, d')" "updated d ?T ?P (look t) d'" "e \<noteq> halloc_fine"
      by blast
    have "umAddUser e u pass g prot dis d = Inr (UM_ERR_GENERAL, d')"
      using u d'(1) by (simp add: umAddUser_def umUserExists_eq [OF wf] umGroupExists_eq [OF wf])
    with updated_user [OF wf d'(2)] d'(3) t(5) show ?thesis by simp
  next
    assume "\<exists>h d1 d2. dbAddRow e ?T d = Inr (int h, d1) \<and> dbWriteStr ?T UM_NAME (int h) (Some u) d1 = Inr (0, d2)
       \<and> filling d ?T ?P ((look t)(u \<mapsto> (blank ?P)[0 := CStr u])) h ((blank ?P)[0 := CStr u]) d2"
    then obtain h d1 d2 where a: "dbAddRow e ?T d = Inr (int h, d1)"
      "dbWriteStr ?T UM_NAME (int h) (Some u) d1 = Inr (0, d2)"
      "filling d ?T ?P ((look t)(u \<mapsto> (blank ?P)[0 := CStr u])) h ((blank ?P)[0 := CStr u]) d2" by blast
    have b: "(blank ?P)[0 := CStr u] = [CStr u, CInt 0, CInt 0, CInt 0, CInt 0]"
      by (simp add: blank_def userTable_def numeral_eq_Suc)
    note f2 = a(3) [unfolded b]
    obtain d3 where d3: "dbWriteStr ?T UM_PASS (int h) (Some (umEncryptString pass)) d2 = Inr (0, d3)"
      "filling d ?T ?P ((look t)(u \<mapsto> [CStr u, CStr (umEncryptString pass), CInt 0, CInt 0, CInt 0])) h
         [CStr u, CStr (umEncryptString pass), CInt 0, CInt 0, CInt 0] d3"
      using fill_str [OF f2 _ _ conjunct1 [OF um_schema(4)] conjunct2 [OF um_schema(4)], of u "Some (umEncryptString pass)"]
      by (auto simp: has_name_def bstrdup_def)
    obtain d4 where d4: "dbWriteStr ?T UM_GROUP (int h) (Some g) d3 = Inr (0, d4)"
      "filling d ?T ?P ((look t)(u \<mapsto> [CStr u, CStr (umEncryptString pass), CStr g, CInt 0, CInt 0])) h
         [CStr u, CStr (umEncryptString pass), CStr g, CInt 0, CInt 0] d4"
      using fill_str [OF d3(2) _ _ conjunct1 [OF um_schema(5)] conjunct2 [OF um_schema(5)], of u "Some g"]
      by (auto simp: has_name_def bstrdup_def numeral_eq_Suc)
    obtain d5 where d5: "dbWriteInt ?T UM_PROT (int h) prot d4 = Inr (0, d5)"
      "filling d ?T ?P ((look t)(u \<mapsto> [CStr u, CStr (umEncryptString pass), CStr g, CInt prot, CInt 0])) h
         [CStr u, CStr (umEncryptString pass), CStr g, CInt prot, CInt 0] d5"
      using fill_int [OF d4(2) _ _ conjunct1 [OF um_schema(6)] conjunct2 [OF um_schema(6)], of u prot]
      by (auto simp: has_name_def numeral_eq_Suc)
    obtain d6 where d6: "dbWriteInt ?T UM_DISABLE (int h) dis d5 = Inr (0, d6)"
      "filling d ?T ?P ((look t)(u \<mapsto> user_row u (umEncryptString pass) g prot dis)) h
         (user_row u (umEncryptString pass) g prot dis) d6"
      using fill_int [OF d5(2) _ _ conjunct1 [OF um_schema(7)] conjunct2 [OF um_schema(7)], of u dis]
      by (auto simp: has_name_def numeral_eq_Suc user_row_def)
    have "umAddUser e u pass g prot dis d = Inr (0, d6)"
      using u a(1,2) d3(1) d4(1) d5(1) d6(1)
      by (simp add: umAddUser_def umUserExists_eq [OF wf] umGroupExists_eq [OF wf])
    with updated_user [OF wf filling_updated [OF d6(2)]] t(5) show ?thesis by auto
  qed
qed

lemma umDeleteUser_eq:
  assumes wf: "um_wf d"
  shows "(to_short (int_of 3 0 (users d u)) \<noteq> 0 \<longrightarrow> umDeleteUser u d = Inr (UM_ERR_PROTECTED, d))
    \<and> (to_short (int_of 3 0 (users d u)) = 0 \<and> users d u = None \<longrightarrow> umDeleteUser u d = Inr (UM_ERR_NOT_FOUND, d))
    \<and> (to_short (int_of 3 0 (users d u)) = 0 \<and> users d u \<noteq> None \<longrightarrow> (\<exists>d'. umDeleteUser u d = Inr (0, d') \<and> um_wf d'
         \<and> users d' = (users d)(u := None) \<and> groups d' = groups d \<and> limits d' = limits d))"
proof -
  obtain t where t: "db_wf d" "tab d UM_USER_TABLENAME = Some t" "same_schema userTable t" "uniq t" "users d = look t"
    by (rule user_tabE [OF wf])
  show ?thesis
  proof (intro conjI impI)
    assume "to_short (int_of 3 0 (users d u)) \<noteq> 0"
    then show "umDeleteUser u d = Inr (UM_ERR_PROTECTED, d)" by (simp add: umDeleteUser_def um_readers [OF wf])
  next
    assume a: "to_short (int_of 3 0 (users d u)) = 0 \<and> users d u = None"
    then have "look t u = None" using t(5) by simp
    from find_row_None [OF t(1-4) um_schema(1) this] a show "umDeleteUser u d = Inr (UM_ERR_NOT_FOUND, d)"
      by (simp add: umDeleteUser_def um_readers [OF wf] int_of_def to_short_def)
  next
    assume a: "to_short (int_of 3 0 (users d u)) = 0 \<and> users d u \<noteq> None"
    then obtain x where x: "look t u = Some x" using t(5) by auto
    obtain r d' where r: "find_row UM_USER_TABLENAME (Some u) d = Inr (int r)"
      "dbDeleteRow UM_USER_TABLENAME (int r) d = Inr (0, d')"
      "updated d UM_USER_TABLENAME userTable ((look t)(u := None)) d'"
      using delete_named [OF t(1-4) um_schema(1) x] by blast
    have "umDeleteUser u d = Inr (0, d')" using a r by (simp add: umDeleteUser_def um_readers [OF wf])
    with updated_user [OF wf r(3)] t(5) show "\<exists>d'. umDeleteUser u d = Inr (0, d') \<and> um_wf d'
         \<and> users d' = (users d)(u := None) \<and> groups d' = groups d \<and> limits d' = limits d" by auto
  qed
qed

lemma umSetUserPassword_eq:
  assumes wf: "um_wf d" and x: "users d u = Some x"
  shows "\<exists>d'. umSetUserPassword u pass d = Inr (0, d') \<and> um_wf d'
    \<and> users d' = (users d)(u \<mapsto> x[1 := CStr (umEncryptString pass)])
    \<and> groups d' = groups d \<and> limits d' = limits d"
proof -
  obtain t where t: "db_wf d" "tab d UM_USER_TABLENAME = Some t" "same_schema userTable t" "uniq t" "users d = look t"
    by (rule user_tabE [OF wf])
  have "look t u = Some x" using x t(5) by simp
  with set_str_eq [OF t(1-4) um_schema(1) conjunct1 [OF um_schema(4)] conjunct2 [OF um_schema(4)], of u "Some (umEncryptString pass)"]
  obtain d' where d': "set_str UM_USER_TABLENAME UM_PASS u (Some (umEncryptString pass)) d = Inr (0, d')"
    "updated d UM_USER_TABLENAME userTable ((look t)(u \<mapsto> x[1 := CStr (umEncryptString pass)])) d'"
    by (auto simp: bstrdup_def)
  with updated_user [OF wf d'(2)] t(5) show ?thesis by (simp add: umSetUserPassword_def)
qed

lemma user_row_shape:
  assumes "um_wf d" and "users d u = Some x"
  shows "length x = 5"
proof -
  obtain t where t: "db_wf d" "tab d UM_USER_TABLENAME = Some t" "same_schema userTable t" "uniq t" "users d = look t"
    by (rule user_tabE [OF assms(1)])
  obtain r where "hget (t_rows t) r = Some x" using look_SomeD [of t u x] assms(2) t(5) by auto
  then have "row_wf (columnTypes t) x" using table_wf_row [OF twf(1) [OF t(1,2)]] by blast
  then show ?thesis using t(3) by (auto simp: row_wf_def list_all2_conv_all_nth same_schema_def userTable_def)
qed

section \<open>The password obfuscation\<close>

lemma uchar_char_of_mod: "uchar (char_of n) = n mod 256"
  by (simp add: uchar_def)

lemma xor_byte: "(uchar a XOR uchar b) mod 256 = uchar a XOR uchar b"
proof -
  have "uchar c = take_bit 8 (uchar c)" for c by (simp add: take_bit_eq_mod)
  then have "uchar a XOR uchar b = take_bit 8 (uchar a XOR uchar b)"
    by (metis take_bit_xor)
  then show ?thesis by (simp add: take_bit_eq_mod)
qed

lemma xor_twice: "char_of (uchar (char_of (uchar c XOR uchar m)) XOR uchar m) = c"
proof -
  have "uchar (char_of (uchar c XOR uchar m)) XOR uchar m = uchar c"
    by (simp add: uchar_char_of_mod xor_byte xor.assoc)
  then show ?thesis by (simp add: uchar_def)
qed

lemma enc_char_clean:
  assumes "c \<noteq> NUL" and "\<not> gisspace c"
  shows "enc_char (enc_char c m) m = c \<and> enc_char c m \<noteq> NUL \<and> \<not> gisspace (enc_char c m)"
  using assms xor_twice [of c m] by (auto simp: enc_char_def Let_def)

lemma encrypt_from_clean:
  "is_cstr s \<Longrightarrow> list_all (\<lambda>c. \<not> gisspace c) s \<Longrightarrow> encrypt_from msk (encrypt_from msk s) = s"
proof (induction s arbitrary: msk)
  case Nil
  then show ?case by simp
next
  case (Cons c cs)
  then show ?case using enc_char_clean [of c] by simp
qed

lemma encrypt_from_keeps:
  "is_cstr s \<Longrightarrow> list_all (\<lambda>c. \<not> gisspace c) s
   \<Longrightarrow> is_cstr (encrypt_from msk s) \<and> list_all (\<lambda>c. \<not> gisspace c) (encrypt_from msk s)"
proof (induction s arbitrary: msk)
  case Nil
  then show ?case by simp
next
  case (Cons c cs)
  then show ?case using enc_char_clean [of c] by simp
qed

lemma umEncryptString_clean: "is_cstr s \<Longrightarrow> umCheckName s \<Longrightarrow> umEncryptString (umEncryptString s) = s"
  by (simp add: umEncryptString_def umCheckName_def encrypt_from_clean)

lemma length_encrypt_from [simp]: "length (encrypt_from msk s) = length s"
  by (induction s arbitrary: msk) auto

section \<open>A concrete database\<close>

definition um_rows :: "row list \<Rightarrow> row hlist option" where
  "um_rows xs = (if xs = [] then None else Some \<lparr>h_used = length xs, h_slots = map Some xs\<rparr>)"

definition filled :: "dbTable \<Rightarrow> row list \<Rightarrow> dbTable" where
  "filled p xs = with_rows (um_rows xs) (length xs) p"

definition um_demo :: db where
  "um_demo = \<lparr>dbMaxTables = 3, dbListTables = Some \<lparr>h_used = 3, h_slots =
     [Some (filled userTable [user_row ''admin'' (umEncryptString ''secret'') ''adm'' 1 0]),
      Some (filled groupTable [group_row ''adm'' 4 2 0 0]),
      Some (filled accessTable [limit_row ''/adm/'' 2 0 ''adm''])]\<rparr>, basicProdDir = None\<rparr>"

lemma hget_um_rows: "hget (um_rows xs) r = (if r < length xs then Some (xs ! r) else None)"
  by (auto simp: um_rows_def hget_def)

lemma count_used_Some [simp]: "count_used (map Some xs) = length xs"
  by (induction xs) auto

lemma um_rows_shape: "hwf (um_rows xs)" "in_array r (um_rows xs) \<longleftrightarrow> r < length xs"
  by (auto simp: um_rows_def hwf_def in_array_def)

lemma filled_wf:
  assumes "length (columnNames p) = length (columnTypes p)" and "columnNames p \<noteq> []"
    and "list_all (row_wf (columnTypes p)) xs"
  shows "table_wf (filled p xs)"
  using assms um_rows_shape
  by (auto simp: table_wf_def filled_def hget_um_rows list_all_length split: if_splits)

lemma filled_one:
  assumes "table_wf (filled p [x])" and "has_name u x"
  shows "uniq (filled p [x])" "look (filled p [x]) = Map.empty(u \<mapsto> x)"
proof -
  have g: "hget (t_rows (filled p [x])) r = Some y \<longleftrightarrow> r = 0 \<and> y = x" for r y
    by (auto simp: filled_def hget_um_rows)
  show u: "uniq (filled p [x])" by (auto simp: uniq_def g)
  have "look (filled p [x]) v = Some y \<longleftrightarrow> (Map.empty(u \<mapsto> x)) v = Some y" for v y
    using assms(2) by (auto simp: look_iff [OF assms(1) u] g has_name_def)
  then have "look (filled p [x]) v = (Map.empty(u \<mapsto> x)) v" for v by (metis not_Some_eq)
  then show "look (filled p [x]) = Map.empty(u \<mapsto> x)" by blast
qed

lemma um_demo_facts: "um_wf um_demo"
  "users um_demo = [''admin'' \<mapsto> user_row ''admin'' (umEncryptString ''secret'') ''adm'' 1 0]"
  "groups um_demo = [''adm'' \<mapsto> group_row ''adm'' 4 2 0 0]"
  "limits um_demo = [''/adm/'' \<mapsto> limit_row ''/adm/'' 2 0 ''adm'']"
proof -
  let ?x = "user_row ''admin'' (umEncryptString ''secret'') ''adm'' 1 0"
  let ?g = "group_row ''adm'' 4 2 0 0" and ?l = "limit_row ''/adm/'' 2 0 ''adm''"
  have w: "table_wf (filled userTable [?x])" "table_wf (filled groupTable [?g])" "table_wf (filled accessTable [?l])"
    by (rule filled_wf; simp add: userTable_def groupTable_def accessTable_def row_wf_def user_row_def
        group_row_def limit_row_def cell_ok_def)+
  have n: "has_name ''admin'' ?x" "has_name ''adm'' ?g" "has_name ''/adm/'' ?l"
    by (simp_all add: has_name_def user_row_def group_row_def limit_row_def)
  have g: "hget (dbListTables um_demo) k = Some t \<longleftrightarrow> (k = 0 \<and> t = filled userTable [?x])
      \<or> (k = 1 \<and> t = filled groupTable [?g]) \<or> (k = 2 \<and> t = filled accessTable [?l])" for k t
    by (auto simp: um_demo_def hget_def less_Suc_eq numeral_eq_Suc)
  have nm: "t_name (filled userTable [?x]) = UM_USER_TABLENAME" "t_name (filled groupTable [?g]) = UM_GROUP_TABLENAME"
    "t_name (filled accessTable [?l]) = UM_ACCESS_TABLENAME"
    by (simp_all add: filled_def userTable_def groupTable_def accessTable_def)
  have "k = k'" if "hget (dbListTables um_demo) k = Some t" "hget (dbListTables um_demo) k' = Some t'"
    "t_name t = t_name t'" for k k' t t'
    using that um_distinct nm unfolding g by auto
  moreover have "k < dbMaxTables um_demo \<and> table_wf t" if "hget (dbListTables um_demo) k = Some t" for k t
    using that w unfolding g by (auto simp: um_demo_def)
  moreover have "hwf (dbListTables um_demo)" by (simp add: um_demo_def hwf_def)
  ultimately have db: "db_wf um_demo" unfolding db_wf_def by blast
  have t: "tab um_demo UM_USER_TABLENAME = Some (filled userTable [?x])"
    "tab um_demo UM_GROUP_TABLENAME = Some (filled groupTable [?g])"
    "tab um_demo UM_ACCESS_TABLENAME = Some (filled accessTable [?l])"
    using nm by (auto simp: tab_iff [OF db] g)
  have s: "same_schema p (filled p xs)" for p xs by (simp add: same_schema_def filled_def)
  show "um_wf um_demo"
    using db t s filled_one(1) [OF w(1) n(1)] filled_one(1) [OF w(2) n(2)] filled_one(1) [OF w(3) n(3)]
    unfolding um_wf_def has_table_def by blast
  show "users um_demo = [''admin'' \<mapsto> ?x]" "groups um_demo = [''adm'' \<mapsto> ?g]" "limits um_demo = [''/adm/'' \<mapsto> ?l]"
    using t filled_one(2) [OF w(1) n(1)] filled_one(2) [OF w(2) n(2)] filled_one(2) [OF w(3) n(3)]
    by (simp_all add: users_def groups_def limits_def keyed_def fun_eq_iff)
qed

end
