(* ===== verification/Um_Access.thy ===== *)
theory Um_Access
  imports Um_Properties
begin

text \<open>
  Access limits and access decisions of the user management (\<open>um.c\<close>): the limit that governs a
  URL, who may use it, groups in use, and the properties of accounts.  \<open>url_chain\<close> lists the names
  \<open>umGetAccessLimit\<close> tries, \<open>covers\<close> is the rule they amount to: a limit governs the URLs that start
  with it, when it is the URL itself or ends with a slash, and the longest such limit counts.
\<close>

section \<open>The limit that governs a URL\<close>

function url_chain :: "string \<Rightarrow> string list" where
  "url_chain url = (if url = [] then [] else url # url_chain (url_up url))"
  by pat_completeness auto
termination by (relation "measure length") (auto intro: url_up_shorter)

declare url_chain.simps [simp del]

lemma url_chain_Nil [simp]: "url_chain [] = []"
  by (simp add: url_chain.simps)

lemma umGetAccessLimit_chain:
  assumes "um_wf d"
  shows "umGetAccessLimit url d = Inr (List.find (\<lambda>u. limits d u \<noteq> None) (url_chain url))"
proof (induction "length url" arbitrary: url rule: less_induct)
  case less
  show ?case
  proof (cases "url = []")
    case True
    then show ?thesis by (simp add: umGetAccessLimit.simps)
  next
    case False
    have "umGetAccessLimit (url_up url) d = Inr (List.find (\<lambda>u. limits d u \<noteq> None) (url_chain (url_up url)))"
      using less url_up_shorter [OF False] by blast
    then show ?thesis
      using False by (simp add: umGetAccessLimit.simps [of url] url_chain.simps [of url] umAccessLimitExists_eq [OF assms])
  qed
qed

lemma strip_while_prefix: "\<exists>t. s = strip_while P s @ t \<and> list_all P t"
proof -
  have "s = strip_while P s @ rev (takeWhile P (rev s))"
    unfolding strip_while_def by (metis rev_append rev_rev_ident takeWhile_dropWhile_id)
  moreover have "list_all P (rev (takeWhile P (rev s)))"
    by (auto simp: list_all_iff dest: set_takeWhileD)
  ultimately show ?thesis by blast
qed

lemma strip_while_last: "strip_while P s = [] \<or> \<not> P (last (strip_while P s))"
proof (cases "dropWhile P (rev s)")
  case Nil
  then show ?thesis by (simp add: strip_while_def)
next
  case (Cons c cs)
  then have "\<not> P c" using hd_dropWhile [of P "rev s"] by simp
  with Cons show ?thesis by (simp add: strip_while_def)
qed

lemma strip_while_append: "list_all P t \<Longrightarrow> strip_while P (s @ t) = strip_while P s"
  using dropWhile_append2 [of "rev t" P "rev s"] by (simp add: strip_while_def list_all_iff)

lemma strip_while_id: "s = [] \<or> \<not> P (last s) \<Longrightarrow> strip_while P s = s"
  by (cases s rule: rev_cases) (auto simp: strip_while_def)

definition covers :: "string \<Rightarrow> string \<Rightarrow> bool" where
  "covers l url \<longleftrightarrow> l \<noteq> [] \<and> (l = url \<or> (is_slash (last l) \<and> (\<exists>t. url = l @ t)))"

lemma covers_trans: "covers a b \<Longrightarrow> covers b c \<Longrightarrow> covers a c"
  by (auto simp: covers_def)

lemma url_up_covers:
  assumes "url_up url \<noteq> []"
  shows "covers (url_up url) url"
proof -
  obtain t where t: "url = strip_while is_slash url @ t" using strip_while_prefix by blast
  obtain t' where "strip_while is_slash url = url_up url @ t'"
    unfolding url_up_def using strip_while_prefix by blast
  with t have "url = url_up url @ t' @ t" by simp
  moreover have "is_slash (last (url_up url))"
    using strip_while_last [of "\<lambda>c. \<not> is_slash c" "strip_while is_slash url"] assms by (auto simp: url_up_def)
  ultimately show ?thesis using assms unfolding covers_def by blast
qed

lemma url_chain_covers: "l \<in> set (url_chain url) \<Longrightarrow> covers l url"
proof (induction "length url" arbitrary: url rule: less_induct)
  case less
  show ?case
  proof (cases "url = []")
    case True
    with less.prems show ?thesis by simp
  next
    case False
    with less.prems have "l = url \<or> l \<in> set (url_chain (url_up url))" by (simp add: url_chain.simps [of url])
    then show ?thesis
    proof
      assume "l = url"
      with False show ?thesis by (simp add: covers_def)
    next
      assume l: "l \<in> set (url_chain (url_up url))"
      then have "url_up url \<noteq> []" by auto
      with less.hyps [OF url_up_shorter [OF False] l] url_up_covers covers_trans show ?thesis by blast
    qed
  qed
qed

text \<open>No two slashes in a row: what \<open>websCondenseMultipleChars\<close> leaves of a request's path.\<close>

fun condensed :: "string \<Rightarrow> bool" where
  "condensed (a # b # s) \<longleftrightarrow> \<not> (is_slash a \<and> is_slash b) \<and> condensed (b # s)"
| "condensed s \<longleftrightarrow> True"

lemma condensed_prefix: "condensed (s @ t) \<Longrightarrow> condensed s"
  by (induction s rule: condensed.induct) auto

lemma condensed_middle: "condensed (s @ a # b # t) \<Longrightarrow> \<not> (is_slash a \<and> is_slash b)"
proof (induction s)
  case Nil
  then show ?case by simp
next
  case (Cons c s)
  then show ?case by (cases s) auto
qed

text \<open>One step up skips no name that covers the URL.\<close>

lemma url_up_next:
  assumes c: "condensed url" and l: "covers l url" "l \<noteq> url"
  shows "covers l (url_up url)"
proof -
  obtain t where t: "url = l @ t" "t \<noteq> []" "is_slash (last l)" "l \<noteq> []" using l by (auto simp: covers_def)
  obtain l0 x where l0: "l = l0 @ [x]" "is_slash x" using t by (cases l rule: rev_cases) auto
  obtain y t0 where y: "t = y # t0" using t(2) by (cases t) auto
  have ny: "\<not> is_slash y" using condensed_middle [of l0 x y t0] c t(1) l0 y by auto
  obtain t1 where t1: "strip_while is_slash url = l @ t1" "t1 \<noteq> []"
  proof (cases "is_slash (last t)")
    case False
    then have "strip_while is_slash url = l @ t" using t strip_while_id [of "l @ t" is_slash] by simp
    with t(2) that show ?thesis by blast
  next
    case True
    then obtain t2 where t2: "t = t2 @ [last t]" using t(2) by (metis append_butlast_last_id)
    have n: "t2 \<noteq> []" using t2 y ny True by (cases t2) auto
    have "\<not> is_slash (last t2)"
      using condensed_middle [of "l @ butlast t2" "last t2" "last t" "[]"] c t(1) t2 n True
      by (metis append.assoc append_Cons append_Nil append_butlast_last_id)
    then have "strip_while is_slash (l @ t2) = l @ t2" using n strip_while_id [of "l @ t2" is_slash] by simp
    moreover have "url = (l @ t2) @ [last t]" using t(1) t2 by simp
    then have "strip_while is_slash url = strip_while is_slash (l @ t2)"
      using strip_while_append [of is_slash "[last t]" "l @ t2"] True by simp
    ultimately show ?thesis using that n by metis
  qed
  have u: "url_up url = strip_while (\<lambda>c. \<not> is_slash c) (l @ t1)" by (simp add: url_up_def t1)
  obtain a b where ab: "l @ t1 = a @ b" "a = url_up url" "list_all (\<lambda>c. \<not> is_slash c) b"
    using strip_while_prefix [of "l @ t1" "\<lambda>c. \<not> is_slash c"] u by metis
  have "length l \<le> length a"
  proof (rule ccontr)
    assume "\<not> length l \<le> length a"
    then obtain b' where "l = a @ b'" "b' \<noteq> []" "\<exists>b''. b = b' @ b''"
      using ab(1) by (auto simp: append_eq_append_conv2)
    then show False using ab(3) t(3) by (auto simp: list_all_iff)
  qed
  then obtain r where "a = l @ r" using ab(1) by (auto simp: append_eq_append_conv2)
  then show ?thesis using ab(2) t(3,4) by (auto simp: covers_def)
qed

lemma condensed_up: "condensed url \<Longrightarrow> condensed (url_up url)"
proof -
  assume c: "condensed url"
  obtain t where "url = strip_while is_slash url @ t" using strip_while_prefix by blast
  moreover obtain t' where "strip_while is_slash url = url_up url @ t'"
    unfolding url_up_def using strip_while_prefix by blast
  ultimately have "url = url_up url @ t' @ t" by simp
  with c condensed_prefix show ?thesis by metis
qed

text \<open>On a condensed URL the first hit is the longest registered name that covers it.\<close>

lemma chain_longest:
  assumes "condensed url"
  shows "(case List.find P (url_chain url) of
      None \<Rightarrow> \<forall>l. P l \<longrightarrow> \<not> covers l url
    | Some m \<Rightarrow> P m \<and> covers m url \<and> (\<forall>l. P l \<and> covers l url \<longrightarrow> length l \<le> length m))"
  using assms
proof (induction "length url" arbitrary: url rule: less_induct)
  case less
  show ?case
  proof (cases "url = []")
    case True
    then show ?thesis by (auto simp: covers_def)
  next
    case False
    show ?thesis
    proof (cases "P url")
      case True
      with False show ?thesis by (auto simp: url_chain.simps [of url] covers_def)
    next
      case np: False
      have e: "List.find P (url_chain url) = List.find P (url_chain (url_up url))"
        using False np by (simp add: url_chain.simps [of url])
      have up: "covers l (url_up url)" if "P l" "covers l url" for l
        using url_up_next [OF less.prems that(2)] that np by blast
      have down: "covers l url" if "covers l (url_up url)" for l
        using that url_up_covers [of url] covers_trans [OF that] by (cases "url_up url = []") (auto simp: covers_def)
      from less.hyps [OF url_up_shorter [OF False] condensed_up [OF less.prems]] show ?thesis
        unfolding e using up down by (auto split: option.splits)
    qed
  qed
qed

section \<open>Accounts\<close>

text \<open>The password obfuscation undoes itself on every password \<open>umAddUser\<close> accepts, keeps its
  length, and its result is again an acceptable, NUL-free password.\<close>

theorem password_obfuscation_inverse:
  assumes "is_cstr s" and "umCheckName s"
  shows "umEncryptString (umEncryptString s) = s \<and> length (umEncryptString s) = length s
    \<and> is_cstr (umEncryptString s) \<and> umCheckName (umEncryptString s)"
proof -
  have k: "is_cstr (umEncryptString s) \<and> list_all (\<lambda>c. \<not> gisspace c) (umEncryptString s)"
    using encrypt_from_keeps [OF assms(1), of UM_XOR_ENCRYPT] assms(2) by (simp add: umCheckName_def umEncryptString_def)
  have l: "length (umEncryptString s) = length s" by (simp add: umEncryptString_def)
  have "umEncryptString s \<noteq> []" using l assms(2) by (cases "umEncryptString s") (auto simp: umCheckName_def)
  with k l umEncryptString_clean [OF assms] show ?thesis by (simp add: umCheckName_def)
qed

theorem password_obfuscation_inverse_witness:
  "umEncryptString (umEncryptString ''admin'') = ''admin''"
  using password_obfuscation_inverse [of "''admin''"] by (simp add: umCheckName_def gisspace_def uchar_def)

text \<open>A new account reads back: with memory available, \<open>umAddUser\<close> of a new, well-formed name
  with a well-formed password into an existing group returns 0; afterwards the user exists with that
  password, that group and that state, and every other user, every group and every access limit is
  what it was.\<close>

theorem umAddUser_round_trip:
  assumes "um_wf d" and "users d u = None" and "umCheckName u" and "is_cstr pass" and "umCheckName pass"
    and "groups d g \<noteq> None"
  shows "\<exists>d'. umAddUser halloc_fine u pass g prot dis d = Inr (0, d') \<and> um_wf d'
    \<and> umUserExists u d' = Inr True \<and> umGetUserPassword u d' = Inr (Some pass)
    \<and> umGetUserGroup u d' = Inr (Some g) \<and> umGetUserEnabled u d' = Inr (dis = 0)
    \<and> umGetUserProtected u d' = Inr (to_short prot)
    \<and> (\<forall>v. v \<noteq> u \<longrightarrow> users d' v = users d v) \<and> groups d' = groups d \<and> limits d' = limits d"
proof -
  obtain d' where d': "umAddUser halloc_fine u pass g prot dis d = Inr (0, d')" "um_wf d'"
    "users d' = (users d)(u \<mapsto> user_row u (umEncryptString pass) g prot dis)"
    "groups d' = groups d" "limits d' = limits d"
    using umAddUser_new [OF assms(1-3,5,6), of halloc_fine prot dis] by blast
  show ?thesis
    using d' umEncryptString_clean [OF assms(4,5)]
    by (intro exI [of _ d']) (simp add: umUserExists_eq umGetUserPassword_eq um_readers user_row_def
        bstrdup_def int_of_def str_of_def numeral_eq_Suc)
qed

theorem umAddUser_round_trip_witness:
  "\<exists>d'. umAddUser halloc_fine ''guest'' ''visit'' ''adm'' 0 1 um_demo = Inr (0, d')
    \<and> umGetUserPassword ''guest'' d' = Inr (Some ''visit'') \<and> umGetUserEnabled ''guest'' d' = Inr False"
proof -
  have "users um_demo ''guest'' = None" "groups um_demo ''adm'' \<noteq> None" by (simp_all add: um_demo_facts(2,3))
  moreover have "umCheckName ''guest''" "is_cstr ''visit''" "umCheckName ''visit''"
    by (simp_all add: umCheckName_def gisspace_def uchar_def)
  ultimately obtain d' where "umAddUser halloc_fine ''guest'' ''visit'' ''adm'' 0 1 um_demo = Inr (0, d')"
    "umGetUserPassword ''guest'' d' = Inr (Some ''visit'')" "umGetUserEnabled ''guest'' d' = Inr ((1::int) = 0)"
    using umAddUser_round_trip [OF um_demo_facts(1), of "''guest''" "''visit''" "''adm''" 0 1] by blast
  then show ?thesis by auto
qed

text \<open>\<open>umAddUser\<close> never faults, and on every error, whatever the allocator does, no account, group
  or limit changes; which error it is follows the order of the code's checks.\<close>

theorem umAddUser_errors:
  assumes "um_wf d"
  shows "\<exists>r d'. umAddUser e u pass g prot dis d = Inr (r, d') \<and> um_wf d'
    \<and> (r \<noteq> 0 \<longrightarrow> users d' = users d \<and> groups d' = groups d \<and> limits d' = limits d)
    \<and> (r = UM_ERR_DUPLICATE \<longleftrightarrow> users d u \<noteq> None)
    \<and> (r = UM_ERR_BAD_NAME \<longleftrightarrow> users d u = None \<and> \<not> umCheckName u)
    \<and> (r = UM_ERR_BAD_PASSWORD \<longleftrightarrow> users d u = None \<and> umCheckName u \<and> \<not> umCheckName pass)
    \<and> (r = UM_ERR_NOT_FOUND \<longleftrightarrow> users d u = None \<and> umCheckName u \<and> umCheckName pass \<and> groups d g = None)"
proof (cases "users d u = None \<and> umCheckName u \<and> umCheckName pass \<and> groups d g \<noteq> None")
  case True
  then have t: "users d u = None" "umCheckName u" "umCheckName pass" "groups d g \<noteq> None" by auto
  from umAddUser_new [OF assms t, of e prot dis] show ?thesis
    using t by (elim disjE exE conjE) (simp_all add: um_codes)
next
  case False
  then consider "users d u \<noteq> None" | "users d u = None" "\<not> umCheckName u"
    | "users d u = None" "umCheckName u" "\<not> umCheckName pass"
    | "users d u = None" "umCheckName u" "umCheckName pass" "groups d g = None" by argo
  then show ?thesis
    using assms by cases (simp_all add: umAddUser_checks [OF assms] um_codes)
qed

theorem umAddUser_errors_witness:
  "\<exists>d'. umAddUser halloc_fine ''admin'' ''x'' ''adm'' 0 0 um_demo = Inr (UM_ERR_DUPLICATE, d')"
proof -
  have "users um_demo ''admin'' \<noteq> None" by (simp add: um_demo_facts(2))
  then show ?thesis
    using umAddUser_errors [OF um_demo_facts(1), of halloc_fine "''admin''" "''x''" "''adm''" 0 0] by metis
qed

text \<open>\<open>umDeleteUser\<close> removes exactly the named account when it is there and not protected (the
  flag is read as a \<open>short\<close>); a protected account stays, and the answer says which.\<close>

theorem umDeleteUser_spares_protected:
  assumes "um_wf d"
  shows "\<exists>r d'. umDeleteUser u d = Inr (r, d') \<and> um_wf d' \<and> groups d' = groups d \<and> limits d' = limits d
    \<and> (case users d u of
         None \<Rightarrow> r = UM_ERR_NOT_FOUND \<and> users d' = users d
       | Some x \<Rightarrow> if to_short (num (x ! 3)) \<noteq> 0 then r = UM_ERR_PROTECTED \<and> users d' = users d
                   else r = 0 \<and> users d' = (users d)(u := None))"
proof (cases "users d u")
  case None
  with umDeleteUser_eq [OF assms, of u] assms show ?thesis by (simp add: int_of_def to_short_def)
next
  case (Some x)
  with umDeleteUser_eq [OF assms, of u] assms show ?thesis by (cases "to_short (num (x ! 3)) = 0") (auto simp: int_of_def)
qed

theorem umDeleteUser_spares_protected_witness: "\<exists>d'. umDeleteUser ''admin'' um_demo = Inr (UM_ERR_PROTECTED, d')"
  using umDeleteUser_spares_protected [OF um_demo_facts(1), of "''admin''"]
  by (auto simp: um_demo_facts(2) user_row_def to_short_def numeral_eq_Suc)

text \<open>Changing a password: the account then reads the doubly obfuscated password, which is the
  given one when it has no white space; \<open>umSetUserPassword\<close> does not check that, and with a space in
  it the stored password is another one.\<close>

theorem umSetUserPassword_read_back:
  assumes "um_wf d" and "users d u \<noteq> None"
  shows "\<exists>d'. umSetUserPassword u pass d = Inr (0, d') \<and> um_wf d'
    \<and> umGetUserPassword u d' = Inr (Some (umEncryptString (umEncryptString pass)))
    \<and> (is_cstr pass \<and> umCheckName pass \<longrightarrow> umGetUserPassword u d' = Inr (Some pass))
    \<and> umGetUserGroup u d' = umGetUserGroup u d \<and> umGetUserEnabled u d' = umGetUserEnabled u d
    \<and> (\<forall>v. v \<noteq> u \<longrightarrow> users d' v = users d v)"
proof -
  obtain x where x: "users d u = Some x" using assms(2) by blast
  obtain d' where d': "umSetUserPassword u pass d = Inr (0, d')" "um_wf d'"
    "users d' = (users d)(u \<mapsto> x[1 := CStr (umEncryptString pass)])"
    using umSetUserPassword_eq [OF assms(1) x] by blast
  have l: "length x = 5" by (rule user_row_shape [OF assms(1) x])
  have c: "umEncryptString (umEncryptString pass) = pass" if "is_cstr pass \<and> umCheckName pass"
    using that umEncryptString_clean by blast
  show ?thesis
    using d' l x c assms(1)
    by (intro exI [of _ d']) (auto simp: umGetUserPassword_eq um_readers bstrdup_def int_of_def str_of_def)
qed

theorem umSetUserPassword_read_back_witness:
  "\<exists>d'. umSetUserPassword ''admin'' ''a b'' um_demo = Inr (0, d')
    \<and> umGetUserPassword ''admin'' d' = Inr (Some ''aJb'')"
proof -
  have "umEncryptString (umEncryptString ''a b'') = ''aJb''" by code_simp
  then show ?thesis
    using umSetUserPassword_read_back [OF um_demo_facts(1), of "''admin''" "''a b''"]
    by (auto simp: um_demo_facts(2))
qed

end
