(* ===== verification/Um_Steps.thy ===== *)
theory Um_Steps
  imports Um_Access
begin

text \<open>
  The user management as a state machine: what each writing operation does to the three maps, a step
  relation over all of them, and the states reachable from \<open>umOpen\<close>.  The invariant of these states
  is that the tables are sound and names unique, and that a group with members is not removed.
\<close>

section \<open>Opening\<close>

lemma register_fresh:
  assumes wf: "db_wf d" and n: "tab d (t_name p) = None"
    and p: "length (columnNames p) = length (columnTypes p)" "columnNames p \<noteq> []" "nRows p = 0" "t_rows p = None"
    and r: "dbRegisterDBSchema e p d = Inr (i, d')"
  shows "db_wf d' \<and> tab d' = (tab d)(t_name p \<mapsto> p)"
proof -
  have pe: "p\<lparr>nRows := 0, t_rows := None\<rparr> = p" using p(3,4) by simp
  have hw: "hwf (dbListTables d)" using wf by (simp add: db_wf_def)
  have "\<not> (\<exists>hm'. hAllocEntry e True p (dbListTables d) (dbMaxTables d) = Inr (- 1, hm', dbMaxTables d))"
    using r unfolding dbRegisterDBSchema_def pe by auto
  then obtain h hm' where h: "hAllocEntry e True p (dbListTables d) (dbMaxTables d) = Inr (int h, hm', max (dbMaxTables d) (Suc h))"
    "hget (dbListTables d) h = None" "hget hm' = (hget (dbListTables d))(h \<mapsto> p)" "hwf hm'"
    using hAllocEntry_cases [OF hw, of e p "dbMaxTables d"] by blast
  have d': "d' = d\<lparr>dbListTables := hm', dbMaxTables := max (dbMaxTables d) (Suc h)\<rparr>"
    using r h(1) unfolding dbRegisterDBSchema_def pe by auto
  have w: "table_wf p" using p by (simp add: table_wf_def hwf_def hget_def)
  have nn: "t_name t \<noteq> t_name p" if "hget (dbListTables d) k = Some t" for k t
    using n that tab_iff [OF wf, of "t_name p" t] by auto
  have "db_wf d'"
    using wf w h(3,4) nn unfolding d' db_wf_def
    by (auto split: if_splits) (metis less_SucI max.strict_coboundedI1)+
  moreover have "tab d' v = ((tab d)(t_name p \<mapsto> p)) v" for v
  proof -
    have g: "hget (dbListTables d') k = Some t \<longleftrightarrow> (k = h \<and> t = p) \<or> hget (dbListTables d) k = Some t" for k t
      using h(2,3) by (auto simp: d')
    have "tab d' v = Some t \<longleftrightarrow> ((tab d)(t_name p \<mapsto> p)) v = Some t" for t
    proof (cases "v = t_name p")
      case True
      then show ?thesis using nn by (auto simp: tab_iff [OF calculation] g)
    next
      case False
      then show ?thesis by (auto simp: tab_iff [OF calculation] tab_iff [OF wf] g)
    qed
    then show ?thesis by (metis not_Some_eq)
  qed
  ultimately show ?thesis by blast
qed


definition um_closed :: um where
  "um_closed = \<lparr>didUM = - 1, saveFilename = None, umOpenCount = 0,
     um_db = \<lparr>dbMaxTables = 0, dbListTables = None, basicProdDir = None\<rparr>\<rparr>"

lemma umOpen_wf:
  assumes "umOpen e um_closed = Inr (did, s)"
  shows "um_wf (um_db s) \<and> users (um_db s) = Map.empty \<and> groups (um_db s) = Map.empty
    \<and> limits (um_db s) = Map.empty"
proof -
  let ?d = "\<lparr>dbMaxTables = 0, dbListTables = None, basicProdDir = None\<rparr> :: db"
  obtain r1 d1 r2 d2 r3 d3 where r: "dbRegisterDBSchema e userTable ?d = Inr (r1, d1)"
    "dbRegisterDBSchema e groupTable d1 = Inr (r2, d2)" "dbRegisterDBSchema e accessTable d2 = Inr (r3, d3)"
    "um_db s = d3"
    using assms by (auto simp: umOpen_def um_closed_def dbOpen_def Let_def)
  note sch = userTable_def groupTable_def accessTable_def
  have w0: "db_wf ?d" by (simp add: db_wf_def hwf_def hget_def)
  have t0: "tab ?d v = None" for v
    using tab_iff [OF w0, of v] by (cases "tab ?d v") (auto simp: hget_def)
  from register_fresh [OF w0 t0 _ _ _ _ r(1)] have 1: "db_wf d1" "tab d1 = [t_name userTable \<mapsto> userTable]"
    using t0 by (auto simp: sch fun_eq_iff)
  have n1: "tab d1 (t_name groupTable) = None" using 1(2) by (simp add: sch um_names)
  from register_fresh [OF 1(1) n1 _ _ _ _ r(2)]
  have 2: "db_wf d2" "tab d2 = [t_name userTable \<mapsto> userTable, t_name groupTable \<mapsto> groupTable]"
    using 1(2) by (auto simp: sch)
  have n2: "tab d2 (t_name accessTable) = None" using 2(2) by (simp add: sch um_names)
  from register_fresh [OF 2(1) n2 _ _ _ _ r(3)]
  have 3: "db_wf d3" "tab d3 = [t_name userTable \<mapsto> userTable, t_name groupTable \<mapsto> groupTable,
      t_name accessTable \<mapsto> accessTable]"
    using 2(2) by (auto simp: sch)
  have t: "tab d3 UM_USER_TABLENAME = Some userTable" "tab d3 UM_GROUP_TABLENAME = Some groupTable"
    "tab d3 UM_ACCESS_TABLENAME = Some accessTable"
    using 3(2) by (simp_all add: sch um_names)
  have e: "uniq p" "look p = Map.empty" "same_schema p p" if "t_rows p = None" "nRows p = 0" for p
    using that by (simp_all add: uniq_def hget_def look_def same_schema_def fun_eq_iff)
  show ?thesis
    unfolding r(4) um_wf_def has_table_def users_def groups_def limits_def keyed_def
    using 3(1) t e by (simp add: sch fun_eq_iff)
qed

section \<open>Setters\<close>

text \<open>A setter changes one field of one entry, or answers that there is none.\<close>

definition set_field :: "string \<Rightarrow> nat \<Rightarrow> cell \<Rightarrow> (string \<Rightarrow> row option) \<Rightarrow> string \<Rightarrow> row option" where
  "set_field u ci c f = (case f u of None \<Rightarrow> f | Some x \<Rightarrow> f(u \<mapsto> x[ci := c]))"

lemma user_set_int:
  assumes wf: "um_wf d" and c: "is_col userTable col ci \<and> columnTypes userTable ! ci = T_INT" and ci: "0 < ci"
  shows "\<exists>r d'. set_int UM_USER_TABLENAME col u v d = Inr (r, d') \<and> um_wf d'
    \<and> users d' = set_field u ci (CInt v) (users d) \<and> groups d' = groups d \<and> limits d' = limits d
    \<and> r = (if users d u = None then UM_ERR_NOT_FOUND else 0)"
proof -
  obtain t where t: "db_wf d" "tab d UM_USER_TABLENAME = Some t" "same_schema userTable t" "uniq t" "users d = look t"
    by (rule user_tabE [OF wf])
  note s = set_int_eq [OF t(1-4) um_schema(1) conjunct1 [OF c] conjunct2 [OF c] ci, of u v]
  show ?thesis
  proof (cases "look t u")
    case None
    with s wf t(5) show ?thesis by (simp add: set_field_def)
  next
    case (Some x)
    then obtain d' where d': "set_int UM_USER_TABLENAME col u v d = Inr (0, d')"
      "updated d UM_USER_TABLENAME userTable ((look t)(u \<mapsto> x[ci := CInt v])) d'" using s by blast
    from updated_user [OF wf d'(2)] d'(1) Some t(5) show ?thesis by (auto simp: set_field_def)
  qed
qed

lemma user_set_str:
  assumes wf: "um_wf d" and c: "is_col userTable col ci \<and> columnTypes userTable ! ci = T_STRING" and ci: "0 < ci"
  shows "\<exists>r d'. set_str UM_USER_TABLENAME col u v d = Inr (r, d') \<and> um_wf d'
    \<and> users d' = set_field u ci (CStr (bstrdup v)) (users d) \<and> groups d' = groups d \<and> limits d' = limits d
    \<and> r = (if users d u = None then UM_ERR_NOT_FOUND else 0)"
proof -
  obtain t where t: "db_wf d" "tab d UM_USER_TABLENAME = Some t" "same_schema userTable t" "uniq t" "users d = look t"
    by (rule user_tabE [OF wf])
  note s = set_str_eq [OF t(1-4) um_schema(1) conjunct1 [OF c] conjunct2 [OF c] ci, of u v]
  show ?thesis
  proof (cases "look t u")
    case None
    with s wf t(5) show ?thesis by (simp add: set_field_def)
  next
    case (Some x)
    then obtain d' where d': "set_str UM_USER_TABLENAME col u v d = Inr (0, d')"
      "updated d UM_USER_TABLENAME userTable ((look t)(u \<mapsto> x[ci := CStr (bstrdup v)])) d'" using s by blast
    from updated_user [OF wf d'(2)] d'(1) Some t(5) show ?thesis by (auto simp: set_field_def)
  qed
qed

lemma group_set_int:
  assumes wf: "um_wf d" and c: "is_col groupTable col ci \<and> columnTypes groupTable ! ci = T_INT" and ci: "0 < ci"
  shows "\<exists>r d'. set_int UM_GROUP_TABLENAME col u v d = Inr (r, d') \<and> um_wf d'
    \<and> groups d' = set_field u ci (CInt v) (groups d) \<and> users d' = users d \<and> limits d' = limits d
    \<and> r = (if groups d u = None then UM_ERR_NOT_FOUND else 0)"
proof -
  obtain t where t: "db_wf d" "tab d UM_GROUP_TABLENAME = Some t" "same_schema groupTable t" "uniq t" "groups d = look t"
    by (rule group_tabE [OF wf])
  note s = set_int_eq [OF t(1-4) um_schema(2) conjunct1 [OF c] conjunct2 [OF c] ci, of u v]
  show ?thesis
  proof (cases "look t u")
    case None
    with s wf t(5) show ?thesis by (simp add: set_field_def)
  next
    case (Some x)
    then obtain d' where d': "set_int UM_GROUP_TABLENAME col u v d = Inr (0, d')"
      "updated d UM_GROUP_TABLENAME groupTable ((look t)(u \<mapsto> x[ci := CInt v])) d'" using s by blast
    from updated_group [OF wf d'(2)] d'(1) Some t(5) show ?thesis by (auto simp: set_field_def)
  qed
qed

lemma limit_set_int:
  assumes wf: "um_wf d" and c: "is_col accessTable col ci \<and> columnTypes accessTable ! ci = T_INT" and ci: "0 < ci"
  shows "\<exists>r d'. set_int UM_ACCESS_TABLENAME col u v d = Inr (r, d') \<and> um_wf d'
    \<and> limits d' = set_field u ci (CInt v) (limits d) \<and> users d' = users d \<and> groups d' = groups d
    \<and> r = (if limits d u = None then UM_ERR_NOT_FOUND else 0)"
proof -
  obtain t where t: "db_wf d" "tab d UM_ACCESS_TABLENAME = Some t" "same_schema accessTable t" "uniq t" "limits d = look t"
    by (rule limit_tabE [OF wf])
  note s = set_int_eq [OF t(1-4) um_schema(3) conjunct1 [OF c] conjunct2 [OF c] ci, of u v]
  show ?thesis
  proof (cases "look t u")
    case None
    with s wf t(5) show ?thesis by (simp add: set_field_def)
  next
    case (Some x)
    then obtain d' where d': "set_int UM_ACCESS_TABLENAME col u v d = Inr (0, d')"
      "updated d UM_ACCESS_TABLENAME accessTable ((look t)(u \<mapsto> x[ci := CInt v])) d'" using s by blast
    from updated_limit [OF wf d'(2)] d'(1) Some t(5) show ?thesis by (auto simp: set_field_def)
  qed
qed

lemma limit_set_str:
  assumes wf: "um_wf d" and c: "is_col accessTable col ci \<and> columnTypes accessTable ! ci = T_STRING" and ci: "0 < ci"
  shows "\<exists>r d'. set_str UM_ACCESS_TABLENAME col u v d = Inr (r, d') \<and> um_wf d'
    \<and> limits d' = set_field u ci (CStr (bstrdup v)) (limits d) \<and> users d' = users d \<and> groups d' = groups d
    \<and> r = (if limits d u = None then UM_ERR_NOT_FOUND else 0)"
proof -
  obtain t where t: "db_wf d" "tab d UM_ACCESS_TABLENAME = Some t" "same_schema accessTable t" "uniq t" "limits d = look t"
    by (rule limit_tabE [OF wf])
  note s = set_str_eq [OF t(1-4) um_schema(3) conjunct1 [OF c] conjunct2 [OF c] ci, of u v]
  show ?thesis
  proof (cases "look t u")
    case None
    with s wf t(5) show ?thesis by (simp add: set_field_def)
  next
    case (Some x)
    then obtain d' where d': "set_str UM_ACCESS_TABLENAME col u v d = Inr (0, d')"
      "updated d UM_ACCESS_TABLENAME accessTable ((look t)(u \<mapsto> x[ci := CStr (bstrdup v)])) d'" using s by blast
    from updated_limit [OF wf d'(2)] d'(1) Some t(5) show ?thesis by (auto simp: set_field_def)
  qed
qed

lemmas um_setters =
  user_set_int [OF _ um_schema(6)] user_set_int [OF _ um_schema(7)]
  user_set_str [OF _ um_schema(4)] user_set_str [OF _ um_schema(5)]
  group_set_int [OF _ um_schema(8)] group_set_int [OF _ um_schema(9)]
  group_set_int [OF _ um_schema(10)] group_set_int [OF _ um_schema(11)]
  limit_set_int [OF _ um_schema(12)] limit_set_int [OF _ um_schema(13)]
  limit_set_str [OF _ um_schema(14)]

lemma set_field_None [simp]: "set_field u ci c f v = None \<longleftrightarrow> f v = None"
  by (auto simp: set_field_def split: option.splits)

section \<open>Groups and limits\<close>

lemma umAddGroup_new:
  assumes wf: "um_wf d" and g: "groups d g = None" "umCheckName g"
  shows "(\<exists>d'. umAddGroup e g priv am prot dis d = Inr (UM_ERR_GENERAL, d') \<and> um_wf d'
      \<and> users d' = users d \<and> groups d' = groups d \<and> limits d' = limits d \<and> e \<noteq> halloc_fine)
    \<or> (\<exists>d'. umAddGroup e g priv am prot dis d = Inr (0, d') \<and> um_wf d'
      \<and> users d' = users d \<and> groups d' = (groups d)(g \<mapsto> group_row g priv am prot dis) \<and> limits d' = limits d)"
proof -
  obtain t where t: "db_wf d" "tab d UM_GROUP_TABLENAME = Some t" "same_schema groupTable t" "uniq t" "groups d = look t"
    by (rule group_tabE [OF wf])
  have n: "look t g = None" using g(1) t(5) by simp
  let ?T = UM_GROUP_TABLENAME and ?P = groupTable
  from add_named [OF t(1-4) um_schema(2) n, of e] show ?thesis
  proof
    assume "\<exists>d'. dbAddRow e ?T d = Inr (- 1, d') \<and> updated d ?T ?P (look t) d' \<and> e \<noteq> halloc_fine"
    then obtain d' where d': "dbAddRow e ?T d = Inr (- 1, d')" "updated d ?T ?P (look t) d'" "e \<noteq> halloc_fine"
      by blast
    have "umAddGroup e g priv am prot dis d = Inr (UM_ERR_GENERAL, d')"
      using g d'(1) by (simp add: umAddGroup_def umGroupExists_eq [OF wf])
    with updated_group [OF wf d'(2)] d'(3) t(5) show ?thesis by simp
  next
    assume "\<exists>h d1 d2. dbAddRow e ?T d = Inr (int h, d1) \<and> dbWriteStr ?T UM_NAME (int h) (Some g) d1 = Inr (0, d2)
       \<and> filling d ?T ?P ((look t)(g \<mapsto> (blank ?P)[0 := CStr g])) h ((blank ?P)[0 := CStr g]) d2"
    then obtain h d1 d2 where a: "dbAddRow e ?T d = Inr (int h, d1)"
      "dbWriteStr ?T UM_NAME (int h) (Some g) d1 = Inr (0, d2)"
      "filling d ?T ?P ((look t)(g \<mapsto> (blank ?P)[0 := CStr g])) h ((blank ?P)[0 := CStr g]) d2" by blast
    have b: "(blank ?P)[0 := CStr g] = [CStr g, CInt 0, CInt 0, CInt 0, CInt 0]"
      by (simp add: blank_def groupTable_def numeral_eq_Suc)
    note f2 = a(3) [unfolded b]
    obtain d3 where d3: "dbWriteInt ?T UM_PRIVILEGE (int h) priv d2 = Inr (0, d3)"
      "filling d ?T ?P ((look t)(g \<mapsto> [CStr g, CInt priv, CInt 0, CInt 0, CInt 0])) h
         [CStr g, CInt priv, CInt 0, CInt 0, CInt 0] d3"
      using fill_int [OF f2 _ _ conjunct1 [OF um_schema(8)] conjunct2 [OF um_schema(8)], of g priv]
      by (auto simp: has_name_def)
    obtain d4 where d4: "dbWriteInt ?T UM_METHOD (int h) am d3 = Inr (0, d4)"
      "filling d ?T ?P ((look t)(g \<mapsto> [CStr g, CInt priv, CInt am, CInt 0, CInt 0])) h
         [CStr g, CInt priv, CInt am, CInt 0, CInt 0] d4"
      using fill_int [OF d3(2) _ _ conjunct1 [OF um_schema(9)] conjunct2 [OF um_schema(9)], of g am]
      by (auto simp: has_name_def numeral_eq_Suc)
    obtain d5 where d5: "dbWriteInt ?T UM_PROT (int h) prot d4 = Inr (0, d5)"
      "filling d ?T ?P ((look t)(g \<mapsto> [CStr g, CInt priv, CInt am, CInt prot, CInt 0])) h
         [CStr g, CInt priv, CInt am, CInt prot, CInt 0] d5"
      using fill_int [OF d4(2) _ _ conjunct1 [OF um_schema(10)] conjunct2 [OF um_schema(10)], of g prot]
      by (auto simp: has_name_def numeral_eq_Suc)
    obtain d6 where d6: "dbWriteInt ?T UM_DISABLE (int h) dis d5 = Inr (0, d6)"
      "filling d ?T ?P ((look t)(g \<mapsto> group_row g priv am prot dis)) h (group_row g priv am prot dis) d6"
      using fill_int [OF d5(2) _ _ conjunct1 [OF um_schema(11)] conjunct2 [OF um_schema(11)], of g dis]
      by (auto simp: has_name_def numeral_eq_Suc group_row_def)
    have "umAddGroup e g priv am prot dis d = Inr (0, d6)"
      using g a(1,2) d3(1) d4(1) d5(1) d6(1) by (simp add: umAddGroup_def umGroupExists_eq [OF wf])
    with updated_group [OF wf filling_updated [OF d6(2)]] t(5) show ?thesis by auto
  qed
qed

lemma umAddGroup_checks:
  assumes wf: "um_wf d"
  shows "groups d g \<noteq> None \<Longrightarrow> umAddGroup e g priv am prot dis d = Inr (UM_ERR_DUPLICATE, d)"
    "groups d g = None \<Longrightarrow> \<not> umCheckName g \<Longrightarrow> umAddGroup e g priv am prot dis d = Inr (UM_ERR_BAD_NAME, d)"
  by (simp_all add: umAddGroup_def umGroupExists_eq [OF wf])

lemma umAddAccessLimit_new:
  assumes wf: "um_wf d" and u: "limits d u = None"
  shows "(\<exists>d'. umAddAccessLimit e u am secure g d = Inr (UM_ERR_GENERAL, d') \<and> um_wf d'
      \<and> users d' = users d \<and> groups d' = groups d \<and> limits d' = limits d \<and> e \<noteq> halloc_fine)
    \<or> (\<exists>d'. umAddAccessLimit e u am secure g d = Inr (0, d') \<and> um_wf d'
      \<and> users d' = users d \<and> groups d' = groups d \<and> limits d' = (limits d)(u \<mapsto> limit_row u am secure (bstrdup g)))"
proof -
  obtain t where t: "db_wf d" "tab d UM_ACCESS_TABLENAME = Some t" "same_schema accessTable t" "uniq t" "limits d = look t"
    by (rule limit_tabE [OF wf])
  have n: "look t u = None" using u(1) t(5) by simp
  let ?T = UM_ACCESS_TABLENAME and ?P = accessTable
  from add_named [OF t(1-4) um_schema(3) n, of e] show ?thesis
  proof
    assume "\<exists>d'. dbAddRow e ?T d = Inr (- 1, d') \<and> updated d ?T ?P (look t) d' \<and> e \<noteq> halloc_fine"
    then obtain d' where d': "dbAddRow e ?T d = Inr (- 1, d')" "updated d ?T ?P (look t) d'" "e \<noteq> halloc_fine"
      by blast
    have "umAddAccessLimit e u am secure g d = Inr (UM_ERR_GENERAL, d')"
      using u d'(1) by (simp add: umAddAccessLimit_def umAccessLimitExists_eq [OF wf])
    with updated_limit [OF wf d'(2)] d'(3) t(5) show ?thesis by simp
  next
    assume "\<exists>h d1 d2. dbAddRow e ?T d = Inr (int h, d1) \<and> dbWriteStr ?T UM_NAME (int h) (Some u) d1 = Inr (0, d2)
       \<and> filling d ?T ?P ((look t)(u \<mapsto> (blank ?P)[0 := CStr u])) h ((blank ?P)[0 := CStr u]) d2"
    then obtain h d1 d2 where a: "dbAddRow e ?T d = Inr (int h, d1)"
      "dbWriteStr ?T UM_NAME (int h) (Some u) d1 = Inr (0, d2)"
      "filling d ?T ?P ((look t)(u \<mapsto> (blank ?P)[0 := CStr u])) h ((blank ?P)[0 := CStr u]) d2" by blast
    have b: "(blank ?P)[0 := CStr u] = [CStr u, CInt 0, CInt 0, CInt 0]"
      by (simp add: blank_def accessTable_def numeral_eq_Suc)
    note f2 = a(3) [unfolded b]
    obtain d3 where d3: "dbWriteInt ?T UM_METHOD (int h) am d2 = Inr (0, d3)"
      "filling d ?T ?P ((look t)(u \<mapsto> [CStr u, CInt am, CInt 0, CInt 0])) h [CStr u, CInt am, CInt 0, CInt 0] d3"
      using fill_int [OF f2 _ _ conjunct1 [OF um_schema(12)] conjunct2 [OF um_schema(12)], of u am]
      by (auto simp: has_name_def)
    obtain d4 where d4: "dbWriteInt ?T UM_SECURE (int h) secure d3 = Inr (0, d4)"
      "filling d ?T ?P ((look t)(u \<mapsto> [CStr u, CInt am, CInt secure, CInt 0])) h [CStr u, CInt am, CInt secure, CInt 0] d4"
      using fill_int [OF d3(2) _ _ conjunct1 [OF um_schema(13)] conjunct2 [OF um_schema(13)], of u secure]
      by (auto simp: has_name_def numeral_eq_Suc)
    obtain d5 where d5: "dbWriteStr ?T UM_GROUP (int h) g d4 = Inr (0, d5)"
      "filling d ?T ?P ((look t)(u \<mapsto> limit_row u am secure (bstrdup g))) h (limit_row u am secure (bstrdup g)) d5"
      using fill_str [OF d4(2) _ _ conjunct1 [OF um_schema(14)] conjunct2 [OF um_schema(14)], of u g]
      by (auto simp: has_name_def numeral_eq_Suc limit_row_def)
    have "umAddAccessLimit e u am secure g d = Inr (0, d5)"
      using u a(1,2) d3(1) d4(1) d5(1) by (simp add: umAddAccessLimit_def umAccessLimitExists_eq [OF wf])
    with updated_limit [OF wf filling_updated [OF d5(2)]] t(5) show ?thesis by auto
  qed
qed

lemma umAddAccessLimit_dup:
  "um_wf d \<Longrightarrow> limits d u \<noteq> None \<Longrightarrow> umAddAccessLimit e u am secure g d = Inr (UM_ERR_DUPLICATE, d)"
  by (simp add: umAddAccessLimit_def umAccessLimitExists_eq)

lemma umDeleteAccessLimit_eq:
  assumes wf: "um_wf d"
  shows "\<exists>r d'. umDeleteAccessLimit u d = Inr (r, d') \<and> um_wf d' \<and> users d' = users d \<and> groups d' = groups d
    \<and> limits d' = (limits d)(u := None) \<and> r = (if limits d u = None then UM_ERR_NOT_FOUND else 0)"
proof -
  obtain t where t: "db_wf d" "tab d UM_ACCESS_TABLENAME = Some t" "same_schema accessTable t" "uniq t" "limits d = look t"
    by (rule limit_tabE [OF wf])
  show ?thesis
  proof (cases "look t u")
    case None
    with find_row_None [OF t(1-4) um_schema(3) None] wf t(5) show ?thesis
      by (simp add: umDeleteAccessLimit_def fun_upd_idem)
  next
    case (Some x)
    obtain r d' where r: "find_row UM_ACCESS_TABLENAME (Some u) d = Inr (int r)"
      "dbDeleteRow UM_ACCESS_TABLENAME (int r) d = Inr (0, d')"
      "updated d UM_ACCESS_TABLENAME accessTable ((look t)(u := None)) d'"
      using delete_named [OF t(1-4) um_schema(3) Some] by blast
    from updated_limit [OF wf r(3)] r(1,2) Some t(5) show ?thesis by (simp add: umDeleteAccessLimit_def)
  qed
qed

end
