(* ===== verification/Um_Invariant.thy ===== *)
theory Um_Invariant
  imports Um_Steps
begin

text \<open>
  The states of the user management reachable from \<open>umOpen\<close> by its writing operations, their
  invariant, and the decision of \<open>umUserCanAccessURL\<close> and \<open>umGetAccessLimit\<close> on them.
\<close>

section \<open>Groups in use\<close>

lemma search_none:
  assumes wf: "db_wf d" and t: "tab d nm = Some t" "same_schema p t"
    and c: "is_col p col ci" "columnTypes p ! ci = T_STRING"
  shows "\<exists>row. dbSearchStr nm col (Some v) 0 d = Inr row \<and> (row < 0 \<longrightarrow> (\<forall>u x. look t u = Some x \<longrightarrow> x ! ci \<noteq> CStr v))"
proof -
  have ct: "is_col t col ci" "columnTypes t ! ci = T_STRING" using c t(2) by (simp_all add: is_col_def same_schema_def)
  let ?P = "\<lambda>r. \<exists>x. hget (t_rows t) r = Some x \<and> x ! ci = CStr v"
  have "x ! ci \<noteq> CStr v" if n: "find_index ?P [0..<nRows t] = None" and l: "look t u = Some x" for u x
  proof -
    obtain r where r: "hget (t_rows t) r = Some x" using look_SomeD [OF l] by blast
    then have "r < nRows t" using twf(1) [OF wf t(1)] by (simp add: table_wf_def)
    with n r show ?thesis by (auto simp: find_index_None)
  qed
  then show ?thesis
    unfolding search [OF wf t(1) ct] by (cases "find_index ?P [0..<nRows t]") auto
qed

lemma umGetGroupInUse_eq:
  assumes "um_wf d"
  shows "\<exists>b. umGetGroupInUse g d = Inr b \<and> (\<not> b \<longrightarrow> (\<forall>u x. users d u = Some x \<longrightarrow> x ! 2 \<noteq> CStr g)
    \<and> (\<forall>l x. limits d l = Some x \<longrightarrow> x ! 3 \<noteq> CStr g))"
proof -
  obtain t where t: "db_wf d" "tab d UM_USER_TABLENAME = Some t" "same_schema userTable t" "users d = look t"
    by (rule user_tabE [OF assms])
  obtain t' where t': "tab d UM_ACCESS_TABLENAME = Some t'" "same_schema accessTable t'" "limits d = look t'"
    by (rule limit_tabE [OF assms])
  obtain r where r: "dbSearchStr UM_USER_TABLENAME UM_GROUP (Some g) 0 d = Inr r"
    "r < 0 \<longrightarrow> (\<forall>u x. look t u = Some x \<longrightarrow> x ! 2 \<noteq> CStr g)"
    using search_none [OF t(1-3) conjunct1 [OF um_schema(5)] conjunct2 [OF um_schema(5)], of g] by blast
  obtain r' where r': "dbSearchStr UM_ACCESS_TABLENAME UM_GROUP (Some g) 0 d = Inr r'"
    "r' < 0 \<longrightarrow> (\<forall>u x. look t' u = Some x \<longrightarrow> x ! 3 \<noteq> CStr g)"
    using search_none [OF t(1) t'(1,2) conjunct1 [OF um_schema(14)] conjunct2 [OF um_schema(14)], of g] by blast
  show ?thesis
  proof (cases "0 \<le> r")
    case True
    then show ?thesis using r(1) by (intro exI [of _ True]) (simp add: umGetGroupInUse_def)
  next
    case False
    then have "umGetGroupInUse g d = Inr (0 \<le> r')" using r(1) r'(1) by (simp add: umGetGroupInUse_def)
    then show ?thesis using False r(2) r'(2) t(4) t'(3) by (auto simp: not_le)
  qed
qed

lemma umDeleteGroup_eq:
  assumes wf: "um_wf d"
  shows "\<exists>r d'. umDeleteGroup g d = Inr (r, d') \<and> um_wf d' \<and> users d' = users d \<and> limits d' = limits d
    \<and> (r \<noteq> 0 \<longrightarrow> groups d' = groups d)
    \<and> (r = 0 \<longrightarrow> groups d g \<noteq> None \<and> groups d' = (groups d)(g := None) \<and> to_short (int_of 3 0 (groups d g)) = 0
         \<and> (\<forall>u x. users d u = Some x \<longrightarrow> x ! 2 \<noteq> CStr g) \<and> (\<forall>l x. limits d l = Some x \<longrightarrow> x ! 3 \<noteq> CStr g))"
proof -
  obtain t where t: "db_wf d" "tab d UM_GROUP_TABLENAME = Some t" "same_schema groupTable t" "uniq t" "groups d = look t"
    by (rule group_tabE [OF wf])
  obtain b where b: "umGetGroupInUse g d = Inr b" "\<not> b \<longrightarrow> (\<forall>u x. users d u = Some x \<longrightarrow> x ! 2 \<noteq> CStr g)
    \<and> (\<forall>l x. limits d l = Some x \<longrightarrow> x ! 3 \<noteq> CStr g)" using umGetGroupInUse_eq [OF wf] by blast
  show ?thesis
  proof (cases "b \<or> to_short (int_of 3 0 (groups d g)) \<noteq> 0")
    case True
    then show ?thesis using b(1) wf by (auto simp: umDeleteGroup_def um_readers [OF wf] um_codes)
  next
    case no: False
    show ?thesis
    proof (cases "look t g")
      case None
      with find_row_None [OF t(1-4) um_schema(2) None] wf t(5) no b(1) show ?thesis
        by (simp add: umDeleteGroup_def um_readers [OF wf] um_codes)
    next
      case (Some x)
      obtain r d' where r: "find_row UM_GROUP_TABLENAME (Some g) d = Inr (int r)"
        "dbDeleteRow UM_GROUP_TABLENAME (int r) d = Inr (0, d')"
        "updated d UM_GROUP_TABLENAME groupTable ((look t)(g := None)) d'"
        using delete_named [OF t(1-4) um_schema(2) Some] by blast
      from updated_group [OF wf r(3)] r(1,2) Some t(5) no b show ?thesis
        by (simp add: umDeleteGroup_def um_readers [OF wf])
    qed
  qed
qed

section \<open>Steps\<close>

text \<open>Every user has a group name, and the user's group is there.\<close>

definition members_ok :: "db \<Rightarrow> bool" where
  "members_ok d \<longleftrightarrow> (\<forall>u x. users d u = Some x \<longrightarrow> (\<exists>g. x ! 2 = CStr g))"

definition member_of :: "db \<Rightarrow> row \<Rightarrow> string \<Rightarrow> bool" where
  "member_of d x g \<longleftrightarrow> x ! 2 = CStr g \<and> groups d g \<noteq> None"

text \<open>What a step keeps: group names, the groups that have members; and whom it adds has a group.\<close>

definition step_ok :: "db \<Rightarrow> db \<Rightarrow> bool" where
  "step_ok d d' \<longleftrightarrow> members_ok d' \<and> (\<forall>u x g. users d u = Some x \<and> member_of d x g \<longrightarrow> groups d' g \<noteq> None)
     \<and> (\<forall>u y. users d u = None \<and> users d' u = Some y \<longrightarrow> (\<exists>g. member_of d' y g))"

text \<open>One call of a writing operation, with any allocator and any arguments.\<close>

inductive um_step :: "db \<Rightarrow> db \<Rightarrow> bool" where
  add_user: "umAddUser e u p g prot dis d = Inr (r, d') \<Longrightarrow> um_step d d'"
| del_user: "umDeleteUser u d = Inr (r, d') \<Longrightarrow> um_step d d'"
| set_password: "umSetUserPassword u p d = Inr (r, d') \<Longrightarrow> um_step d d'"
| set_group: "umSetUserGroup u g d = Inr (r, d') \<Longrightarrow> um_step d d'"
| set_enabled: "umSetUserEnabled u n d = Inr (r, d') \<Longrightarrow> um_step d d'"
| set_protected: "umSetUserProtected u n d = Inr (r, d') \<Longrightarrow> um_step d d'"
| add_group: "umAddGroup e g priv am prot dis d = Inr (r, d') \<Longrightarrow> um_step d d'"
| del_group: "umDeleteGroup g d = Inr (r, d') \<Longrightarrow> um_step d d'"
| group_method: "umSetGroupAccessMethod g n d = Inr (r, d') \<Longrightarrow> um_step d d'"
| group_privilege: "umSetGroupPrivilege g n d = Inr (r, d') \<Longrightarrow> um_step d d'"
| group_enabled: "umSetGroupEnabled g n d = Inr (r, d') \<Longrightarrow> um_step d d'"
| group_protected: "umSetGroupProtected g n d = Inr (r, d') \<Longrightarrow> um_step d d'"
| add_limit: "umAddAccessLimit e u am secure lg d = Inr (r, d') \<Longrightarrow> um_step d d'"
| del_limit: "umDeleteAccessLimit u d = Inr (r, d') \<Longrightarrow> um_step d d'"
| limit_method: "umSetAccessLimitMethod u n d = Inr (r, d') \<Longrightarrow> um_step d d'"
| limit_secure: "umSetAccessLimitSecure u n d = Inr (r, d') \<Longrightarrow> um_step d d'"
| limit_group: "umSetAccessLimitGroup u lg d = Inr (r, d') \<Longrightarrow> um_step d d'"

inductive um_reach :: "db \<Rightarrow> bool" where
  opened: "umOpen e um_closed = Inr (did, s) \<Longrightarrow> um_reach (um_db s)"
| step: "um_reach d \<Longrightarrow> um_step d d' \<Longrightarrow> um_reach d'"

inductive_cases um_stepE: "um_step d d'"

lemma step_same: "members_ok d \<Longrightarrow> users d' = users d \<Longrightarrow> groups d' = groups d \<Longrightarrow> step_ok d d'"
  by (auto simp: members_ok_def step_ok_def member_of_def)

lemma members_set_field:
  "members_ok d \<Longrightarrow> users d' = set_field u ci c (users d) \<Longrightarrow> ci \<noteq> 2 \<Longrightarrow> groups d' = groups d \<Longrightarrow> step_ok d d'"
  by (auto simp: members_ok_def step_ok_def member_of_def set_field_def split: option.splits if_splits)

lemma members_groups:
  "members_ok d \<Longrightarrow> users d' = users d \<Longrightarrow> (\<And>g. groups d g \<noteq> None \<Longrightarrow> groups d' g \<noteq> None) \<Longrightarrow> step_ok d d'"
  by (auto simp: members_ok_def step_ok_def member_of_def)

lemma members_group_field:
  "members_ok d \<Longrightarrow> users d' = users d \<Longrightarrow> groups d' = set_field g ci c (groups d) \<Longrightarrow> step_ok d d'"
  by (rule members_groups) simp_all

lemma user_setters_members:
  assumes "um_wf d" and "members_ok d"
  shows "umSetUserPassword u p d = Inr (r, d') \<Longrightarrow> um_wf d' \<and> step_ok d d'"
    "umSetUserEnabled u n d = Inr (r, d') \<Longrightarrow> um_wf d' \<and> step_ok d d'"
    "umSetUserProtected u n d = Inr (r, d') \<Longrightarrow> um_wf d' \<and> step_ok d d'"
proof -
  note m = members_set_field [OF assms(2)]
  show "umSetUserPassword u p d = Inr (r, d') \<Longrightarrow> um_wf d' \<and> step_ok d d'"
    using um_setters(3) [OF assms(1), of u "Some (umEncryptString p)"] m unfolding umSetUserPassword_def by fastforce
  show "umSetUserEnabled u n d = Inr (r, d') \<Longrightarrow> um_wf d' \<and> step_ok d d'"
    using um_setters(2) [OF assms(1), of u "if n = 0 then 1 else 0"] m [where ci = 4] unfolding umSetUserEnabled_def by fastforce
  show "umSetUserProtected u n d = Inr (r, d') \<Longrightarrow> um_wf d' \<and> step_ok d d'"
    using um_setters(1) [OF assms(1), of u n] m [where ci = 3] unfolding umSetUserProtected_def by fastforce
qed

lemma group_setters_members:
  assumes "um_wf d" and "members_ok d"
  shows "umSetGroupAccessMethod g n d = Inr (r, d') \<Longrightarrow> um_wf d' \<and> step_ok d d'"
    "umSetGroupPrivilege g n d = Inr (r, d') \<Longrightarrow> um_wf d' \<and> step_ok d d'"
    "umSetGroupEnabled g n d = Inr (r, d') \<Longrightarrow> um_wf d' \<and> step_ok d d'"
    "umSetGroupProtected g n d = Inr (r, d') \<Longrightarrow> um_wf d' \<and> step_ok d d'"
proof -
  note m = members_group_field [OF assms(2)]
  show "umSetGroupAccessMethod g n d = Inr (r, d') \<Longrightarrow> um_wf d' \<and> step_ok d d'"
    using um_setters(6) [OF assms(1), of g n] m unfolding umSetGroupAccessMethod_def by fastforce
  show "umSetGroupPrivilege g n d = Inr (r, d') \<Longrightarrow> um_wf d' \<and> step_ok d d'"
    using um_setters(5) [OF assms(1), of g n] m unfolding umSetGroupPrivilege_def by fastforce
  show "umSetGroupEnabled g n d = Inr (r, d') \<Longrightarrow> um_wf d' \<and> step_ok d d'"
    using um_setters(8) [OF assms(1), of g "if n = 0 then 1 else 0"] m unfolding umSetGroupEnabled_def by fastforce
  show "umSetGroupProtected g n d = Inr (r, d') \<Longrightarrow> um_wf d' \<and> step_ok d d'"
    using um_setters(7) [OF assms(1), of g n] m unfolding umSetGroupProtected_def by fastforce
qed

lemma limit_writers_members:
  assumes "um_wf d" and "members_ok d"
  shows "umSetAccessLimitMethod u n d = Inr (r, d') \<Longrightarrow> um_wf d' \<and> step_ok d d'"
    "umSetAccessLimitSecure u n d = Inr (r, d') \<Longrightarrow> um_wf d' \<and> step_ok d d'"
    "umSetAccessLimitGroup u lg d = Inr (r, d') \<Longrightarrow> um_wf d' \<and> step_ok d d'"
    "umDeleteAccessLimit u d = Inr (r, d') \<Longrightarrow> um_wf d' \<and> step_ok d d'"
proof -
  note m = step_same [OF assms(2)]
  show "umSetAccessLimitMethod u n d = Inr (r, d') \<Longrightarrow> um_wf d' \<and> step_ok d d'"
    using um_setters(9) [OF assms(1), of u n] m unfolding umSetAccessLimitMethod_def by fastforce
  show "umSetAccessLimitSecure u n d = Inr (r, d') \<Longrightarrow> um_wf d' \<and> step_ok d d'"
    using um_setters(10) [OF assms(1), of u n] m unfolding umSetAccessLimitSecure_def by fastforce
  show "umSetAccessLimitGroup u lg d = Inr (r, d') \<Longrightarrow> um_wf d' \<and> step_ok d d'"
    using um_setters(11) [OF assms(1), of u lg] m unfolding umSetAccessLimitGroup_def by fastforce
  show "umDeleteAccessLimit u d = Inr (r, d') \<Longrightarrow> um_wf d' \<and> step_ok d d'"
    using umDeleteAccessLimit_eq [OF assms(1), of u] m by fastforce
qed

lemma adders_members:
  assumes "um_wf d" and "members_ok d"
  shows "umAddUser e u p g prot dis d = Inr (r, d') \<Longrightarrow> um_wf d' \<and> step_ok d d'"
    "umAddGroup e g priv am prot dis d = Inr (r, d') \<Longrightarrow> um_wf d' \<and> step_ok d d'"
    "umAddAccessLimit e u am secure lg d = Inr (r, d') \<Longrightarrow> um_wf d' \<and> step_ok d d'"
proof -
  note same = step_same [OF assms(2)] step_same [OF assms(2) refl refl]
  show "um_wf d' \<and> step_ok d d'" if a: "umAddUser e u p g prot dis d = Inr (r, d')"
  proof (cases "users d u = None \<and> umCheckName u \<and> umCheckName p \<and> groups d g \<noteq> None")
    case True
    then have t: "users d u = None" "umCheckName u" "umCheckName p" "groups d g \<noteq> None" by auto
    from umAddUser_new [OF assms(1) t, of e prot dis] a t(4) assms(2) same show ?thesis
      by (auto simp: members_ok_def step_ok_def member_of_def user_row_def numeral_eq_Suc split: if_splits)
  next
    case False
    then consider "users d u \<noteq> None" | "users d u = None" "\<not> umCheckName u"
      | "users d u = None" "umCheckName u" "\<not> umCheckName p"
      | "users d u = None" "umCheckName u" "umCheckName p" "groups d g = None" by argo
    then show ?thesis using a assms same by cases (simp_all add: umAddUser_checks [OF assms(1)])
  qed
  show "um_wf d' \<and> step_ok d d'" if a: "umAddGroup e g priv am prot dis d = Inr (r, d')"
  proof (cases "groups d g = None \<and> umCheckName g")
    case True
    then have t: "groups d g = None" "umCheckName g" by auto
    from umAddGroup_new [OF assms(1) t, of e priv am prot dis] a show ?thesis
      by (auto intro: members_groups [OF assms(2)])
  next
    case False
    then consider "groups d g \<noteq> None" | "groups d g = None" "\<not> umCheckName g" by argo
    then show ?thesis using a assms same by cases (simp_all add: umAddGroup_checks [OF assms(1)])
  qed
  show "um_wf d' \<and> step_ok d d'" if a: "umAddAccessLimit e u am secure lg d = Inr (r, d')"
  proof (cases "limits d u = None")
    case True
    from umAddAccessLimit_new [OF assms(1) True, of e am secure lg] a same show ?thesis by auto
  next
    case False
    then show ?thesis using a assms same umAddAccessLimit_dup [OF assms(1) False] by simp
  qed
qed

lemma removers_members:
  assumes "um_wf d" and "members_ok d"
  shows "umDeleteUser u d = Inr (r, d') \<Longrightarrow> um_wf d' \<and> step_ok d d'"
    "umDeleteGroup g d = Inr (r, d') \<Longrightarrow> um_wf d' \<and> step_ok d d'"
proof -
  note same = step_same [OF assms(2)] step_same [OF assms(2) refl refl]
  show "um_wf d' \<and> step_ok d d'" if a: "umDeleteUser u d = Inr (r, d')"
  proof (cases "to_short (int_of 3 0 (users d u)) = 0 \<and> users d u \<noteq> None")
    case True
    with umDeleteUser_eq [OF assms(1), of u] a assms(2) show ?thesis
      by (auto simp: members_ok_def step_ok_def member_of_def)
  next
    case False
    then have "d' = d" using umDeleteUser_eq [OF assms(1), of u] a
      by (cases "to_short (int_of 3 0 (users d u)) = 0") auto
    with assms(1) same show ?thesis by simp
  qed
  show "um_wf d' \<and> step_ok d d'" if a: "umDeleteGroup g d = Inr (r, d')"
  proof (cases "r = 0")
    case True
    with umDeleteGroup_eq [OF assms(1), of g] a assms(2) show ?thesis
      unfolding members_ok_def step_ok_def member_of_def by fastforce
  next
    case False
    with umDeleteGroup_eq [OF assms(1), of g] a same show ?thesis by auto
  qed
qed

lemma umSetUserGroup_members:
  assumes "um_wf d" and "members_ok d" and a: "umSetUserGroup u g d = Inr (r, d')"
  shows "um_wf d' \<and> step_ok d d'"
proof -
  from um_setters(4) [OF assms(1), of u "Some g"] a
  have d': "um_wf d'" "users d' = set_field u 2 (CStr g) (users d)" "groups d' = groups d"
    by (auto simp: umSetUserGroup_def bstrdup_def)
  have "\<exists>g'. y ! 2 = CStr g'" if v: "users d' v = Some y" for v y
  proof (cases "v = u")
    case True
    then obtain x where x: "users d u = Some x" "y = x[2 := CStr g]"
      using v d'(2) by (auto simp: set_field_def split: option.splits)
    then show ?thesis using user_row_shape [OF assms(1) x(1)] by auto
  next
    case False
    then have "users d v = Some y" using v d'(2) by (auto simp: set_field_def split: option.splits)
    then show ?thesis using assms(2) by (auto simp: members_ok_def)
  qed
  moreover have "users d' v \<noteq> Some y" if "users d v = None" for v y
    using that by (auto simp: d'(2) set_field_def split: option.splits)
  ultimately have "step_ok d d'"
    using d'(3) by (auto simp: step_ok_def members_ok_def member_of_def)
  with d'(1) show ?thesis by simp
qed

lemma um_step_keeps: "um_step d d' \<Longrightarrow> um_wf d \<Longrightarrow> members_ok d \<Longrightarrow> um_wf d' \<and> step_ok d d'"
proof (induction rule: um_step.induct)
  case (set_group u g d r d')
  then show ?case using umSetUserGroup_members by blast
qed (blast dest: adders_members removers_members user_setters_members group_setters_members limit_writers_members)+

lemma um_reach_keeps: "um_reach d \<Longrightarrow> um_wf d \<and> members_ok d"
proof (induction rule: um_reach.induct)
  case (opened e did s)
  from umOpen_wf [OF opened] show ?case by (simp add: members_ok_def)
next
  case (step d d')
  then show ?case using um_step_keeps by (auto simp: step_ok_def)
qed

text \<open>A reachable state with one group, one user and one limit.\<close>

lemma demo_reach:
  "\<exists>d. um_reach d \<and> groups d = [''adm'' \<mapsto> group_row ''adm'' 4 2 0 0]
    \<and> users d = [''admin'' \<mapsto> user_row ''admin'' (umEncryptString ''secret'') ''adm'' 1 0]
    \<and> limits d = [''/adm/'' \<mapsto> limit_row ''/adm/'' 2 0 ''adm'']"
proof -
  have "case umOpen halloc_fine um_closed of Inl _ \<Rightarrow> False | Inr _ \<Rightarrow> True" by code_simp
  then obtain did s where s: "umOpen halloc_fine um_closed = Inr (did, s)"
    by (auto split: sum.splits)
  note o = umOpen_wf [OF s]
  have n: "umCheckName ''adm''" "umCheckName ''admin''" "umCheckName ''secret''"
    by (simp_all add: umCheckName_def gisspace_def uchar_def)
  obtain d1 where d1: "umAddGroup halloc_fine ''adm'' 4 2 0 0 (um_db s) = Inr (0, d1)" "um_wf d1"
    "groups d1 = [''adm'' \<mapsto> group_row ''adm'' 4 2 0 0]" "users d1 = Map.empty" "limits d1 = Map.empty"
    using umAddGroup_new [of "um_db s" "''adm''" halloc_fine 4 2 0 0] o n(1) by auto
  obtain d2 where d2: "umAddUser halloc_fine ''admin'' ''secret'' ''adm'' 1 0 d1 = Inr (0, d2)" "um_wf d2"
    "users d2 = [''admin'' \<mapsto> user_row ''admin'' (umEncryptString ''secret'') ''adm'' 1 0]"
    "groups d2 = groups d1" "limits d2 = Map.empty"
    using umAddUser_new [of d1 "''admin''" "''secret''" "''adm''" halloc_fine 1 0] d1 n(2,3) by auto
  obtain d3 where d3: "umAddAccessLimit halloc_fine ''/adm/'' 2 0 (Some ''adm'') d2 = Inr (0, d3)"
    "users d3 = users d2" "groups d3 = groups d2" "limits d3 = [''/adm/'' \<mapsto> limit_row ''/adm/'' 2 0 ''adm'']"
    using umAddAccessLimit_new [of d2 "''/adm/''" halloc_fine 2 0 "Some ''adm''"] d2 by (auto simp: bstrdup_def)
  have "um_reach d3"
    by (rule um_reach.step [OF um_reach.step [OF um_reach.step [OF um_reach.opened [OF s]
          um_step.add_group [OF d1(1)]] um_step.add_user [OF d2(1)]] um_step.add_limit [OF d3(1)]])
  then show ?thesis using d1(3) d2(3,4) d3 by metis
qed

text \<open>C20. In every state reachable from \<open>umOpen\<close> by the operations that write users, groups and limits, whatever
  their arguments and whatever the table allocations do: the tables are sound (typed rows, names unique), every user has
  a group name, no further operation removes a group while it has a member, and a user an operation adds belongs
  to an existing group.  (Not every user's group exists: \<open>umSetUserGroup\<close> takes any name.)\<close>

theorem um_reach_invariant:
  assumes "um_reach d"
  shows "um_wf d \<and> (\<forall>u x. users d u = Some x \<longrightarrow> (\<exists>g. umGetUserGroup u d = Inr (Some g)))
    \<and> (\<forall>d' u x g. um_step d d' \<and> users d u = Some x \<and> umGetUserGroup u d = Inr (Some g) \<and> umGroupExists g d = Inr True
         \<longrightarrow> umGroupExists g d' = Inr True)
    \<and> (\<forall>d' u y. um_step d d' \<and> users d u = None \<and> users d' u = Some y
         \<longrightarrow> (\<exists>g. umGetUserGroup u d' = Inr (Some g) \<and> umGroupExists g d' = Inr True))"
proof -
  have w: "um_wf d" "members_ok d" using um_reach_keeps [OF assms] by auto
  have grp: "umGetUserGroup u d = Inr (txt_of (x ! 2))" if "um_wf d" "users d u = Some x" for d u x
    using that by (simp add: um_readers(3) str_of_def)
  have tx: "txt_of c = Some g \<longleftrightarrow> c = CStr g" for c g by (cases c) auto
  have step: "um_wf d'" "step_ok d d'" if "um_step d d'" for d' using um_step_keeps [OF that w] by auto
  show ?thesis
  proof (intro conjI allI impI; (elim conjE)?)
    show "\<exists>g. umGetUserGroup u d = Inr (Some g)" if "users d u = Some x" for u x
      using w(2) that grp [OF w(1) that] by (auto simp: members_ok_def tx)
    show "umGroupExists g d' = Inr True"
      if "um_step d d'" "users d u = Some x" "umGetUserGroup u d = Inr (Some g)" "umGroupExists g d = Inr True" for d' u x g
      using step [OF that(1)] that(2-4) grp [OF w(1) that(2)]
      by (auto simp: umGroupExists_eq [OF w(1)] umGroupExists_eq step_ok_def member_of_def tx)
    show "\<exists>g. umGetUserGroup u d' = Inr (Some g) \<and> umGroupExists g d' = Inr True"
      if "um_step d d'" "users d u = None" "users d' u = Some y" for d' u y
      using step [OF that(1)] that(2,3) grp [OF step(1) [OF that(1)] that(3)]
      by (fastforce simp: umGroupExists_eq step_ok_def member_of_def)
  qed (rule w(1))
qed

theorem um_reach_invariant_witness:
  "\<exists>d. um_wf d \<and> users d ''admin'' \<noteq> None \<and> umGetUserGroup ''admin'' d = Inr (Some ''adm'')
    \<and> umGroupExists ''adm'' d = Inr True
    \<and> (\<exists>r d'. umDeleteGroup ''adm'' d = Inr (r, d') \<and> umGroupExists ''adm'' d' = Inr True)"
proof -
  obtain d where d: "um_reach d" "groups d = [''adm'' \<mapsto> group_row ''adm'' 4 2 0 0]"
    "users d = [''admin'' \<mapsto> user_row ''admin'' (umEncryptString ''secret'') ''adm'' 1 0]" using demo_reach by blast
  note i = um_reach_invariant [OF d(1)]
  then have wf: "um_wf d" by simp
  have g: "umGetUserGroup ''admin'' d = Inr (Some ''adm'')" "umGroupExists ''adm'' d = Inr True"
    using d(2,3) wf by (simp_all add: um_readers str_of_def user_row_def numeral_eq_Suc umGroupExists_eq)
  obtain r d' where d': "umDeleteGroup ''adm'' d = Inr (r, d')" using umDeleteGroup_eq [OF wf] by blast
  then have "umGroupExists ''adm'' d' = Inr True"
    using conjunct1 [OF conjunct2 [OF conjunct2 [OF i]], rule_format, of d' "''admin''" _ "''adm''"] um_step.del_group [OF d'] g d(3)
    by simp
  then show ?thesis using wf g d' d(3) by (intro exI [of _ d]) (simp add: exI [of _ r] exI [of _ d'])
qed

section \<open>Decisions\<close>

text \<open>\<open>umGetAccessLimit\<close> ends on every URL.  On a URL without doubled slashes it returns the longest
  registered limit that governs it, null when none does: the limit is the URL itself, or ends with a
  slash and starts the URL.  (A limit \<open>/adm\<close> without a slash therefore does not govern \<open>/adm/x\<close>.)\<close>

theorem umGetAccessLimit_longest:
  assumes "um_wf d" and "condensed url"
  shows "\<exists>l. umGetAccessLimit url d = Inr l \<and> (case l of
      None \<Rightarrow> \<forall>m. limits d m \<noteq> None \<longrightarrow> \<not> covers m url
    | Some m \<Rightarrow> limits d m \<noteq> None \<and> covers m url
        \<and> (\<forall>k. limits d k \<noteq> None \<and> covers k url \<longrightarrow> length k \<le> length m))"
  using umGetAccessLimit_chain [OF assms(1)] chain_longest [OF assms(2), of "\<lambda>u. limits d u \<noteq> None"] by auto

theorem umGetAccessLimit_longest_witness:
  "umGetAccessLimit ''/adm/password.asp'' um_demo = Inr (Some ''/adm/'')
    \<and> umGetAccessLimit ''/adm'' um_demo = Inr None"
proof -
  obtain l where l: "umGetAccessLimit ''/adm/password.asp'' um_demo = Inr l" "case l of
      None \<Rightarrow> \<forall>m. limits um_demo m \<noteq> None \<longrightarrow> \<not> covers m ''/adm/password.asp''
    | Some m \<Rightarrow> limits um_demo m \<noteq> None \<and> covers m ''/adm/password.asp''
        \<and> (\<forall>k. limits um_demo k \<noteq> None \<and> covers k ''/adm/password.asp'' \<longrightarrow> length k \<le> length m)"
    using umGetAccessLimit_longest [OF um_demo_facts(1), of "''/adm/password.asp''"]
    by (auto simp: is_slash_def uchar_def)
  have c: "covers ''/adm/'' ''/adm/password.asp''" by (simp add: covers_def is_slash_def)
  have "l = Some ''/adm/''" using l(2) c by (cases l) (auto simp: um_demo_facts(4) split: if_splits)
  moreover obtain k where k: "umGetAccessLimit ''/adm'' um_demo = Inr k" "case k of
      None \<Rightarrow> \<forall>m. limits um_demo m \<noteq> None \<longrightarrow> \<not> covers m ''/adm''
    | Some m \<Rightarrow> limits um_demo m \<noteq> None \<and> covers m ''/adm''
        \<and> (\<forall>k. limits um_demo k \<noteq> None \<and> covers k ''/adm'' \<longrightarrow> length k \<le> length m)"
    using umGetAccessLimit_longest [OF um_demo_facts(1), of "''/adm''"] by (auto simp: is_slash_def uchar_def)
  moreover have "k = None" using k(2) by (cases k) (auto simp: um_demo_facts(4) covers_def split: if_splits)
  ultimately show ?thesis using l(1) by simp
qed

text \<open>What a group must have, and what a limit asks of a user of group \<open>g\<close>.\<close>

definition group_grants :: "db \<Rightarrow> string \<Rightarrow> bool" where
  "group_grants d g \<longleftrightarrow> (\<exists>y. groups d g = Some y \<and> to_short (num (y ! 1)) \<noteq> 0 \<and> num (y ! 4) = 0 \<and> num (y ! 2) \<noteq> AM_NONE)"

definition limit_admits :: "row \<Rightarrow> string \<Rightarrow> bool" where
  "limit_admits y g \<longleftrightarrow> num (y ! 1) \<noteq> AM_NONE \<and> txt_of (y ! 3) \<in> {None, Some [], Some g}"

lemma chain_find_limit:
  "List.find (\<lambda>u. limits d u \<noteq> None) (url_chain url) = Some l \<Longrightarrow> \<exists>y. limits d l = Some y"
  by (auto simp: find_Some_iff)

lemma umUserCanAccessURL_eq:
  assumes wf: "um_wf d" and x: "users d u = Some x" and g: "x ! 2 = CStr g"
  shows "umUserCanAccessURL u url d = Inr (num (x ! 4) = 0 \<and> group_grants d g \<and>
    (case List.find (\<lambda>u. limits d u \<noteq> None) (url_chain url) of
       None \<Rightarrow> True | Some l \<Rightarrow> limit_admits (the (limits d l)) g))"
proof -
  have ug: "umGetUserGroup u d = Inr (Some g)" using x g by (simp add: um_readers [OF wf] str_of_def)
  show ?thesis
  proof (cases "num (x ! 4) = 0 \<and> group_grants d g")
    case False
    then show ?thesis
      using x ug by (cases "groups d g")
        (auto simp: umUserCanAccessURL_def umUserExists_eq [OF wf] um_readers [OF wf] int_of_def group_grants_def
          to_short_def um_codes)
  next
    case True
    then obtain y where y: "groups d g = Some y" "to_short (num (y ! 1)) \<noteq> 0" "num (y ! 4) = 0" "num (y ! 2) \<noteq> AM_NONE"
      by (auto simp: group_grants_def)
    note simps = umUserCanAccessURL_def umUserExists_eq [OF wf] um_readers [OF wf] int_of_def str_of_def x g y True
      umGetAccessLimit_chain [OF wf, of url]
    show ?thesis
    proof (cases "List.find (\<lambda>u. limits d u \<noteq> None) (url_chain url)")
      case None
      then show ?thesis using y(2-4) True by (simp add: simps)
    next
      case (Some l)
      then obtain z where z: "limits d l = Some z" using chain_find_limit by blast
      show ?thesis
        using y(2-4) True Some z by (simp add: simps limit_admits_def)
    qed
  qed
qed

text \<open>C21. Who may use a URL: in every state reachable from \<open>umOpen\<close> by the operations that write users, groups and
  limits, and for every URL without doubled slashes (the handlers pass condensed paths), \<open>umUserCanAccessURL\<close> does
  not fault and says yes exactly for an existing, enabled user whose group exists, is enabled, has a privilege and an
  access method, provided the limit that governs the URL, if any, has an access method and names no other
  group.\<close>

theorem umUserCanAccessURL_decides:
  assumes "um_reach d" and "condensed url"
  shows "\<exists>b. umUserCanAccessURL u url d = Inr b \<and> (b \<longleftrightarrow>
     (\<exists>x g. users d u = Some x \<and> x ! 2 = CStr g \<and> num (x ! 4) = 0 \<and> group_grants d g
        \<and> (\<forall>l y. limits d l = Some y \<and> covers l url
              \<and> (\<forall>k. limits d k \<noteq> None \<and> covers k url \<longrightarrow> length k \<le> length l) \<longrightarrow> limit_admits y g)))"
proof -
  have wf: "um_wf d" and m: "members_ok d" using um_reach_keeps [OF assms(1)] by auto
  note c = chain_longest [OF assms(2), of "\<lambda>u. limits d u \<noteq> None"]
  show ?thesis
  proof (cases "users d u")
    case None
    then show ?thesis by (intro exI [of _ False]) (simp add: umUserCanAccessURL_def umUserExists_eq [OF wf])
  next
    case (Some x)
    then obtain g where g: "x ! 2 = CStr g" using m by (auto simp: members_ok_def)
    let ?f = "List.find (\<lambda>u. limits d u \<noteq> None) (url_chain url)"
    have "(case ?f of None \<Rightarrow> True | Some l \<Rightarrow> limit_admits (the (limits d l)) g) \<longleftrightarrow>
      (\<forall>l y. limits d l = Some y \<and> covers l url
         \<and> (\<forall>k. limits d k \<noteq> None \<and> covers k url \<longrightarrow> length k \<le> length l) \<longrightarrow> limit_admits y g)"
    proof (cases ?f)
      case None
      with c show ?thesis by auto
    next
      case (Some k)
      then obtain z where z: "limits d k = Some z" using chain_find_limit by blast
      have k: "covers k url" "\<forall>l. limits d l \<noteq> None \<and> covers l url \<longrightarrow> length l \<le> length k"
        using c Some by auto
      have "l = k" if "limits d l = Some y" "covers l url"
        "\<forall>k. limits d k \<noteq> None \<and> covers k url \<longrightarrow> length k \<le> length l" for l y
      proof -
        have cl: "covers l url" by (rule that(2))
        have "length k \<le> length l" using that(3) z k(1) by simp
        moreover have "length l \<le> length k" using k(2) that(1) cl by blast
        ultimately have "length l = length k" by simp
        moreover obtain t where "url = l @ t" using cl unfolding covers_def by blast
        moreover obtain t' where "url = k @ t'" using k(1) unfolding covers_def by blast
        ultimately show ?thesis by simp
      qed
      then have "(\<forall>l y. limits d l = Some y \<and> covers l url
         \<and> (\<forall>k. limits d k \<noteq> None \<and> covers k url \<longrightarrow> length k \<le> length l) \<longrightarrow> limit_admits y g)
         \<longleftrightarrow> limit_admits z g" using z k by (metis option.inject)
      then show ?thesis using Some z by simp
    qed
    then show ?thesis using umUserCanAccessURL_eq [OF wf Some g, of url] Some g by auto
  qed
qed

theorem umUserCanAccessURL_decides_witness:
  "\<exists>d. umUserCanAccessURL ''admin'' ''/adm/x'' d = Inr True \<and> umUserCanAccessURL ''bob'' ''/adm/x'' d = Inr False"
proof -
  obtain d where d: "um_reach d" "groups d = [''adm'' \<mapsto> group_row ''adm'' 4 2 0 0]"
    "users d = [''admin'' \<mapsto> user_row ''admin'' (umEncryptString ''secret'') ''adm'' 1 0]"
    "limits d = [''/adm/'' \<mapsto> limit_row ''/adm/'' 2 0 ''adm'']" using demo_reach by blast
  have c: "condensed ''/adm/x''" by (simp add: is_slash_def uchar_def)
  have "\<exists>x g. users d ''admin'' = Some x \<and> x ! 2 = CStr g \<and> num (x ! 4) = 0 \<and> group_grants d g
        \<and> (\<forall>l y. limits d l = Some y \<and> covers l ''/adm/x''
              \<and> (\<forall>k. limits d k \<noteq> None \<and> covers k ''/adm/x'' \<longrightarrow> length k \<le> length l) \<longrightarrow> limit_admits y g)"
    by (auto simp: d(2-4) user_row_def group_row_def limit_row_def group_grants_def limit_admits_def to_short_def
        um_codes numeral_eq_Suc split: if_splits)
  then show ?thesis
    using umUserCanAccessURL_decides [OF d(1) c, of "''admin''"] umUserCanAccessURL_decides [OF d(1) c, of "''bob''"]
      d(3) by auto
qed

end
