(* ===== verification/Sym.thy ===== *)
theory Sym
  imports Handle
begin

unbundle bit_operations_syntax

text \<open>
  The symbol tables of the web server (\<open>user/goahead/src_tongyong/sym.c\<close>): numbered hash tables with
  daisy chains.  A chain is the list of its \<open>sym_t\<close> in link order; the array \<open>sym\<close> of tables is a
  handle array of \<open>Handle\<close>; \<open>htIndex\<close> and \<open>next\<close> are the module's traversal variables, the pointer
  \<open>next\<close> being the rest of a chain.  The content of a symbol is a parameter (\<open>value_t\<close>); freeing is not
  visible.  Allocation is \<open>halloc\<close> for the handle, a flag for everything else.
\<close>

section \<open>Data\<close>

record 'v sym_t =
  s_name :: string
  s_content :: 'v
  s_arg :: int

record 'v sym_tabent =
  hash_size :: nat
  hash_table :: "'v sym_t list list"

record 'v symtabs =
  sym :: "'v sym_tabent hlist option"
  symMax :: nat
  symOpenCount :: int
  htIndex :: nat
  next_sym :: "'v sym_t list"

section \<open>Hashing\<close>

text \<open>\<open>char\<close> is signed: the character is promoted to \<open>int\<close>, shifted and added to an unsigned sum.  The
  shift counts 0, 7, 14, 21, 4, ... are below \<open>BITS(int) - BITSPERBYTE = 24\<close>.\<close>

fun hash_sum :: "string \<Rightarrow> nat \<Rightarrow> u32 \<Rightarrow> u32" where
  "hash_sum [] i acc = acc"
| "hash_sum (c # cs) i acc = hash_sum cs ((i + 7) mod (32 - 8)) (acc + push_bit i (word_of_int (schar c)))"

definition hashIndex :: "'v sym_tabent \<Rightarrow> string \<Rightarrow> nat" where
  "hashIndex tp name = unat (hash_sum name 0 0) mod hash_size tp"

text \<open>The loop tries the divisors 2 to \<open>n / 2\<close>.\<close>

definition isPrime :: "nat \<Rightarrow> bool" where
  "isPrime n \<longleftrightarrow> list_all (\<lambda>i. n mod i \<noteq> 0) [2..<n div 2 + 1]"

fun calcPrime :: "nat \<Rightarrow> nat" where
  "calcPrime 0 = 1"
| "calcPrime (Suc count) = (if isPrime (Suc count) then Suc count else calcPrime count)"

section \<open>Opening and closing\<close>

definition symSubOpen :: "'v symtabs \<Rightarrow> 'v symtabs" where
  "symSubOpen s =
     (let s = s\<lparr>symOpenCount := symOpenCount s + 1\<rparr> in
      if symOpenCount s = 1 then s\<lparr>symMax := 0, sym := None\<rparr> else s)"

definition symSubClose :: "'v symtabs \<Rightarrow> 'v symtabs" where
  "symSubClose s =
     (let s = s\<lparr>symOpenCount := symOpenCount s - 1\<rparr> in
      if symOpenCount s \<le> 0 then s\<lparr>symOpenCount := 0\<rparr> else s)"

text \<open>\<open>a_entry e\<close>: the table structure is allocated; \<open>tbl_ok\<close>: the hash table is.  A failure of the latter
  is not handled by the code: the \<open>memset\<close> writes through the null pointer.\<close>

definition symOpen :: "halloc \<Rightarrow> bool \<Rightarrow> nat \<Rightarrow> 'v symtabs \<Rightarrow> (int \<times> 'v symtabs) res" where
  "symOpen e tbl_ok sz s =
     (case hAlloc e (sym s) of (sd, tabs) \<Rightarrow>
        if sd < 0 then Inr (- 1, s\<lparr>sym := tabs\<rparr>)
        else if \<not> a_entry e then
          res_bind (hFree tabs sd) (\<lambda>(mx, tabs). Inr (- 1, s\<lparr>sym := tabs, symMax := nat mx\<rparr>))
        else if \<not> tbl_ok then Inl OutOfBounds
        else
          (let p = calcPrime sz;
               tp = \<lparr>hash_size = p, hash_table = replicate p []\<rparr>
           in Inr (sd, s\<lparr>sym := map_option (\<lambda>mp. mp\<lparr>h_slots := (h_slots mp)[nat sd := Some tp]\<rparr>) tabs,
                         symMax := (if int (symMax s) \<le> sd then nat sd + 1 else symMax s)\<rparr>)))"

text \<open>\<open>sym[sd]\<close>; a handle outside the array is a fault, a null entry is an option.\<close>

definition table_of :: "'v symtabs \<Rightarrow> int \<Rightarrow> 'v sym_tabent option res" where
  "table_of s sd =
     (case sym s of
        None \<Rightarrow> Inl OutOfBounds
      | Some mp \<Rightarrow>
          if 0 \<le> sd \<and> nat sd < length (h_slots mp) then Inr (h_slots mp ! nat sd) else Inl OutOfBounds)"

definition open_table :: "'v symtabs \<Rightarrow> int \<Rightarrow> 'v sym_tabent res" where
  "open_table s sd =
     res_bind (table_of s sd) (\<lambda>t. case t of None \<Rightarrow> Inl OutOfBounds | Some tp \<Rightarrow> Inr tp)"

definition put_table :: "int \<Rightarrow> 'v sym_tabent \<Rightarrow> 'v symtabs \<Rightarrow> 'v symtabs" where
  "put_table sd tp s = s\<lparr>sym := map_option (\<lambda>mp. mp\<lparr>h_slots := (h_slots mp)[nat sd := Some tp]\<rparr>) (sym s)\<rparr>"

definition symClose :: "int \<Rightarrow> 'v symtabs \<Rightarrow> 'v symtabs res" where
  "symClose sd s =
     res_bind (open_table s sd) (\<lambda>tp.
     res_bind (hFree (sym s) sd) (\<lambda>(mx, tabs). Inr (s\<lparr>sym := tabs, symMax := nat mx\<rparr>)))"

section \<open>Chains\<close>

text \<open>The name test of the scans is \<open>cp[0] == name[0] && gstrcmp(cp, name) == 0\<close>, which is equality.\<close>

definition chain_find :: "string \<Rightarrow> 'v sym_t list \<Rightarrow> nat option" where
  "chain_find name ch = find_index (\<lambda>sp. s_name sp = name) ch"

text \<open>Enter: update in place, or append; \<open>None\<close> when there is no memory for a new symbol.\<close>

definition chain_enter :: "bool \<Rightarrow> string \<Rightarrow> 'v \<Rightarrow> int \<Rightarrow> 'v sym_t list \<Rightarrow> ('v sym_t \<times> 'v sym_t list) option" where
  "chain_enter ok name v arg ch =
     (case chain_find name ch of
        Some k \<Rightarrow> (let sp = (ch ! k)\<lparr>s_content := v, s_arg := arg\<rparr> in Some (sp, ch[k := sp]))
      | None \<Rightarrow>
          if ok then (let sp = \<lparr>s_name = name, s_content = v, s_arg = arg\<rparr> in Some (sp, ch @ [sp])) else None)"

definition chain_delete :: "string \<Rightarrow> 'v sym_t list \<Rightarrow> 'v sym_t list option" where
  "chain_delete name ch =
     (case chain_find name ch of None \<Rightarrow> None | Some k \<Rightarrow> Some (take k ch @ drop (Suc k) ch))"

text \<open>\<open>tp->hash_table[i]\<close>.\<close>

definition bucket :: "'v sym_tabent \<Rightarrow> nat \<Rightarrow> 'v sym_t list res" where
  "bucket tp i = (if i < length (hash_table tp) then Inr (hash_table tp ! i) else Inl OutOfBounds)"

section \<open>Operations\<close>

definition symLookup :: "int \<Rightarrow> string option \<Rightarrow> 'v symtabs \<Rightarrow> 'v sym_t option res" where
  "symLookup sd name s =
     res_bind (table_of s sd) (\<lambda>t.
     case t of
       None \<Rightarrow> Inr None
     | Some tp \<Rightarrow>
         (case name of
            None \<Rightarrow> Inr None
          | Some n \<Rightarrow>
              if n = [] then Inr None
              else
                res_bind (bucket tp (hashIndex tp n)) (\<lambda>ch.
                Inr (map_option (\<lambda>k. ch ! k) (chain_find n ch)))))"

definition symEnter ::
  "bool \<Rightarrow> int \<Rightarrow> string \<Rightarrow> 'v \<Rightarrow> int \<Rightarrow> 'v symtabs \<Rightarrow> ('v sym_t option \<times> 'v symtabs) res" where
  "symEnter ok sd name v arg s =
     res_bind (open_table s sd) (\<lambda>tp.
     (let hindex = hashIndex tp name in
      res_bind (bucket tp hindex) (\<lambda>ch.
      case chain_enter ok name v arg ch of
        None \<Rightarrow> Inr (None, s)
      | Some (sp, ch') \<Rightarrow>
          Inr (Some sp, put_table sd (tp\<lparr>hash_table := (hash_table tp)[hindex := ch']\<rparr>) s))))"

definition symDelete :: "int \<Rightarrow> string \<Rightarrow> 'v symtabs \<Rightarrow> (int \<times> 'v symtabs) res" where
  "symDelete sd name s =
     res_bind (open_table s sd) (\<lambda>tp.
     (let hindex = hashIndex tp name in
      res_bind (bucket tp hindex) (\<lambda>ch.
      case chain_delete name ch of
        None \<Rightarrow> Inr (- 1, s)
      | Some ch' \<Rightarrow> Inr (0, put_table sd (tp\<lparr>hash_table := (hash_table tp)[hindex := ch']\<rparr>) s))))"

text \<open>Traversal.  Handing out a symbol sets the position of the next one: the rest of the chain, or the
  next bucket, which is read without a check that there is one.\<close>

definition hand_out :: "'v sym_tabent \<Rightarrow> nat \<Rightarrow> 'v sym_t \<Rightarrow> 'v sym_t list \<Rightarrow> 'v symtabs \<Rightarrow> ('v sym_t option \<times> 'v symtabs) res" where
  "hand_out tp i sp forw s =
     (if forw = [] then res_bind (bucket tp (i + 1)) (\<lambda>ch. Inr (Some sp, s\<lparr>htIndex := i + 1, next_sym := ch\<rparr>))
      else Inr (Some sp, s\<lparr>htIndex := i, next_sym := forw\<rparr>))"

fun first_from :: "'v sym_tabent \<Rightarrow> nat list \<Rightarrow> 'v symtabs \<Rightarrow> ('v sym_t option \<times> 'v symtabs) res" where
  "first_from tp [] s = Inr (None, s)"
| "first_from tp (i # is) s =
     res_bind (bucket tp i) (\<lambda>ch.
     case ch of [] \<Rightarrow> first_from tp is s | sp # forw \<Rightarrow> hand_out tp i sp forw s)"

definition symFirst :: "int \<Rightarrow> 'v symtabs \<Rightarrow> ('v sym_t option \<times> 'v symtabs) res" where
  "symFirst sd s = res_bind (open_table s sd) (\<lambda>tp. first_from tp [0..<hash_size tp] s)"

fun next_from :: "'v sym_tabent \<Rightarrow> nat list \<Rightarrow> 'v symtabs \<Rightarrow> ('v sym_t option \<times> 'v symtabs) res" where
  "next_from tp [] s = Inr (None, s)"
| "next_from tp (i # is) s =
     (case next_sym s of
        sp # forw \<Rightarrow> hand_out tp i sp forw s
      | [] \<Rightarrow> res_bind (bucket tp (i + 1)) (\<lambda>ch. next_from tp is (s\<lparr>next_sym := ch\<rparr>)))"

definition symNext :: "int \<Rightarrow> 'v symtabs \<Rightarrow> ('v sym_t option \<times> 'v symtabs) res" where
  "symNext sd s = res_bind (open_table s sd) (\<lambda>tp. next_from tp [htIndex s..<hash_size tp] s)"

section \<open>Chains as maps\<close>

definition chain_map :: "'v sym_t list \<Rightarrow> string \<Rightarrow> 'v sym_t option" where
  "chain_map ch = map_of (map (\<lambda>sp. (s_name sp, sp)) ch)"

lemma chain_find_pairs: "chain_find n ch = find_index (\<lambda>p. fst p = n) (map (\<lambda>sp. (s_name sp, sp)) ch)"
  unfolding chain_find_def by (induction ch) auto

lemma chain_find_None: "chain_find n ch = None \<longleftrightarrow> chain_map ch n = None"
  unfolding chain_find_pairs chain_map_def by (rule find_index_map_of_None)

lemma chain_find_Some: "chain_find n ch = Some k \<Longrightarrow> k < length ch \<and> s_name (ch ! k) = n \<and> chain_map ch n = Some (ch ! k)"
  using find_index_map_of_Some [of n "map (\<lambda>sp. (s_name sp, sp)) ch" k]
    find_index_Some [of "\<lambda>sp. s_name sp = n" ch k]
  unfolding chain_find_pairs [symmetric] chain_map_def [symmetric] by (simp add: chain_find_def)

lemma chain_lookup: "map_option (\<lambda>k. ch ! k) (chain_find n ch) = chain_map ch n"
  using chain_find_None [of n ch] chain_find_Some [of n ch] by (cases "chain_find n ch") auto

lemma chain_enter_map:
  assumes "chain_enter ok name v arg ch = Some (sp, ch')"
  shows "chain_map ch' = (chain_map ch)(name \<mapsto> sp) \<and> s_name sp = name \<and> s_content sp = v \<and> s_arg sp = arg
    \<and> (distinct (map s_name ch) \<longrightarrow> distinct (map s_name ch')) \<and> s_name ` set ch' = insert name (s_name ` set ch)"
proof (cases "chain_find name ch")
  case None
  then have e: "sp = \<lparr>s_name = name, s_content = v, s_arg = arg\<rparr>" "ch' = ch @ [sp]"
    using assms by (auto simp: chain_enter_def Let_def split: if_splits)
  have n: "name \<notin> s_name ` set ch" using None by (auto simp: chain_find_def find_index_None)
  have "chain_map ch' = (chain_map ch)(name \<mapsto> sp)"
    using None map_of_snoc_new [of "map (\<lambda>sp. (s_name sp, sp)) ch" name sp]
    by (simp add: chain_find_None e chain_map_def)
  then show ?thesis using n by (auto simp: e)
next
  case (Some k)
  then have e: "sp = (ch ! k)\<lparr>s_content := v, s_arg := arg\<rparr>" "ch' = ch[k := sp]"
    using assms by (auto simp: chain_enter_def Let_def)
  note k = chain_find_Some [OF Some]
  have "chain_map ch' = (chain_map ch)(name \<mapsto> sp)"
    using map_of_update_first [of name "map (\<lambda>sp. (s_name sp, sp)) ch" k sp] Some k
    by (simp add: chain_find_pairs chain_map_def e map_update)
  moreover have "map s_name ch' = map s_name ch"
    using k by (simp add: e map_update list_update_same_conv)
  moreover have "s_name ` set ch' = s_name ` set ch" using calculation(2) by (metis set_map)
  moreover have "name \<in> s_name ` set ch" using k by auto
  ultimately show ?thesis using k by (auto simp: e(1))
qed

lemma map_of_middle:
  "distinct (map fst (xs @ (n, v) # ys)) \<Longrightarrow> map_of (xs @ ys) = (map_of (xs @ (n, v) # ys))(n := None)"
proof -
  assume "distinct (map fst (xs @ (n, v) # ys))"
  then have "map_of xs n = None" "map_of ys n = None" by (auto simp: map_of_eq_None_iff)
  then show ?thesis by (auto simp: fun_eq_iff map_add_def split: option.splits)
qed

lemma chain_delete_map:
  assumes "chain_delete name ch = Some ch'" and "distinct (map s_name ch)"
  shows "chain_map ch' = (chain_map ch)(name := None) \<and> distinct (map s_name ch') \<and> set ch' \<subseteq> set ch"
proof -
  obtain k where k: "chain_find name ch = Some k" "ch' = take k ch @ drop (Suc k) ch"
    using assms(1) by (auto simp: chain_delete_def split: option.splits)
  note f = chain_find_Some [OF k(1)]
  have ch: "ch = take k ch @ ch ! k # drop (Suc k) ch" using f by (simp add: id_take_nth_drop)
  have d: "distinct (map s_name (take k ch @ ch ! k # drop (Suc k) ch))" using assms(2) ch by simp
  have "chain_map ch' = (chain_map (take k ch @ ch ! k # drop (Suc k) ch))(name := None)"
    using d f unfolding chain_map_def k(2)
    using map_of_middle [of "map (\<lambda>sp. (s_name sp, sp)) (take k ch)" name "ch ! k" "map (\<lambda>sp. (s_name sp, sp)) (drop (Suc k) ch)"]
    by (simp add: o_def)
  then have "chain_map ch' = (chain_map ch)(name := None)" using ch by simp
  moreover have "distinct (map s_name ch')" using d k(2) by auto
  moreover have "set ch' \<subseteq> set ch" using k(2) by (auto dest: in_set_takeD in_set_dropD)
  ultimately show ?thesis by blast
qed

end
