(* ===== verification/Sym_Laws.thy ===== *)
theory Sym_Laws
  imports Sym
begin

text \<open>
  The symbol tables as dictionaries: \<open>syms s sd\<close> is the map a handle \<open>sd\<close> stands for, \<open>tabs_ok\<close> the
  invariant of the tables, \<open>dictionary\<close> the interface the form and variable modules use, with its
  interpretation on \<open>symEnter\<close> and \<open>symDelete\<close>; then the hash function's range, the prime table sizes
  and the traversal.
\<close>

section \<open>Dictionaries\<close>

locale dictionary =
  fixes sound :: "'t \<Rightarrow> bool"
    and get :: "'t \<Rightarrow> string \<Rightarrow> 'v option"
    and put :: "'t \<Rightarrow> string \<Rightarrow> 'v \<Rightarrow> 't"
    and del :: "'t \<Rightarrow> string \<Rightarrow> 't"
  assumes put_sound: "sound t \<Longrightarrow> sound (put t n v)"
    and put_get: "sound t \<Longrightarrow> get (put t n v) = (get t)(n \<mapsto> v)"
    and del_sound: "sound t \<Longrightarrow> sound (del t n)"
    and del_get: "sound t \<Longrightarrow> get (del t n) = (get t)(n := None)"
begin

primrec put_all :: "'t \<Rightarrow> (string \<times> 'v) list \<Rightarrow> 't" where
  "put_all t [] = t"
| "put_all t (p # ps) = put_all (put t (fst p) (snd p)) ps"

lemma put_all_get: "sound t \<Longrightarrow> sound (put_all t ps) \<and> get (put_all t ps) = (get t)(map fst ps [\<mapsto>] map snd ps)"
  by (induction ps arbitrary: t) (auto simp: put_sound put_get)

lemma put_all_keeps: "sound t \<Longrightarrow> n \<notin> fst ` set ps \<Longrightarrow> get (put_all t ps) n = get t n"
  by (simp add: put_all_get)

lemma del_put: "sound t \<Longrightarrow> get t n = None \<Longrightarrow> get (del (put t n v) n) = get t"
  by (simp add: del_get put_get put_sound fun_upd_idem)

end

section \<open>One table\<close>

definition tabent_ok :: "'v sym_tabent \<Rightarrow> bool" where
  "tabent_ok tp \<longleftrightarrow> 0 < hash_size tp \<and> length (hash_table tp) = hash_size tp
     \<and> (\<forall>i < hash_size tp. distinct (map s_name (hash_table tp ! i))
          \<and> (\<forall>sp \<in> set (hash_table tp ! i). hashIndex tp (s_name sp) = i))"

definition tab_map :: "'v sym_tabent \<Rightarrow> string \<Rightarrow> 'v sym_t option" where
  "tab_map tp n = chain_map (hash_table tp ! hashIndex tp n) n"

lemma hashIndex_less: "0 < hash_size tp \<Longrightarrow> hashIndex tp n < hash_size tp"
  by (simp add: hashIndex_def)

lemma hashIndex_table [simp]: "hashIndex (tp\<lparr>hash_table := ht\<rparr>) n = hashIndex tp n"
  by (simp add: hashIndex_def)

lemma bucket_hash: "tabent_ok tp \<Longrightarrow> bucket tp (hashIndex tp n) = Inr (hash_table tp ! hashIndex tp n)"
  using hashIndex_less [of tp n] by (simp add: tabent_ok_def bucket_def)

lemma bucket_upd:
  assumes ok: "tabent_ok tp" and h: "h = hashIndex tp n"
    and ch: "chain_map ch' = (chain_map (hash_table tp ! h))(n := e)" "distinct (map s_name ch')"
      "s_name ` set ch' \<subseteq> insert n (s_name ` set (hash_table tp ! h))"
  shows "tabent_ok (tp\<lparr>hash_table := (hash_table tp)[h := ch']\<rparr>)
    \<and> tab_map (tp\<lparr>hash_table := (hash_table tp)[h := ch']\<rparr>) = (tab_map tp)(n := e)"
proof -
  have hl: "h < hash_size tp" "h < length (hash_table tp)" using ok hashIndex_less [of tp n] h by (auto simp: tabent_ok_def)
  have "tab_map (tp\<lparr>hash_table := (hash_table tp)[h := ch']\<rparr>) m = ((tab_map tp)(n := e)) m" for m
  proof (cases "hashIndex tp m = h")
    case True
    then show ?thesis using hl ch(1) h by (auto simp: tab_map_def)
  next
    case False
    then show ?thesis using h by (auto simp: tab_map_def)
  qed
  moreover have "hashIndex tp (s_name sp) = h" if "sp \<in> set ch'" for sp
  proof -
    have "s_name sp = n \<or> s_name sp \<in> s_name ` set (hash_table tp ! h)" using that ch(3) by auto
    then show ?thesis using ok hl(1) h by (auto simp: tabent_ok_def)
  qed
  ultimately show ?thesis using ok hl ch(2) by (auto simp: tabent_ok_def nth_list_update)
qed

lemma new_table_ok: "0 < p \<Longrightarrow> tabent_ok \<lparr>hash_size = p, hash_table = replicate p []\<rparr>"
  by (simp add: tabent_ok_def)

lemma new_table_map: "0 < p \<Longrightarrow> tab_map \<lparr>hash_size = p, hash_table = replicate p []\<rparr> = Map.empty"
  by (simp add: tab_map_def fun_eq_iff chain_map_def hashIndex_def)

section \<open>All tables\<close>

definition tabs_ok :: "'v symtabs \<Rightarrow> bool" where
  "tabs_ok s \<longleftrightarrow> hwf (sym s) \<and> (\<forall>k tp. hget (sym s) k = Some tp \<longrightarrow> tabent_ok tp)"

definition live :: "int \<Rightarrow> 'v symtabs \<Rightarrow> bool" where
  "live sd s \<longleftrightarrow> 0 \<le> sd \<and> hget (sym s) (nat sd) \<noteq> None"

definition syms :: "'v symtabs \<Rightarrow> int \<Rightarrow> string \<Rightarrow> 'v sym_t option" where
  "syms s sd n = (case hget (sym s) (nat sd) of None \<Rightarrow> None | Some tp \<Rightarrow> tab_map tp n)"

lemma open_live: "live sd s \<Longrightarrow> \<exists>tp. hget (sym s) (nat sd) = Some tp \<and> open_table s sd = Inr tp \<and> table_of s sd = Inr (Some tp)"
  by (auto simp: live_def hget_def open_table_def table_of_def split: option.splits if_splits)

lemma sym_put_table [simp]: "hget (sym s) (nat sd) \<noteq> None \<Longrightarrow> hget (sym (put_table sd tp s)) = (hget (sym s))(nat sd \<mapsto> tp)"
  by (auto simp: put_table_def hget_def fun_eq_iff nth_list_update split: option.splits if_splits)

lemma count_used_over:
  "i < length xs \<Longrightarrow> xs ! i \<noteq> None \<Longrightarrow> count_used (xs[i := Some x]) = count_used xs"
proof (induction xs arbitrary: i)
  case Nil
  then show ?case by simp
next
  case (Cons y ys)
  then show ?case by (cases i) auto
qed

lemma put_table_ok:
  assumes "tabs_ok s" and "live sd s" and "tabent_ok tp"
  shows "tabs_ok (put_table sd tp s) \<and> live sd (put_table sd tp s)
    \<and> syms (put_table sd tp s) sd = tab_map tp \<and> (\<forall>k. 0 \<le> k \<and> k \<noteq> sd \<longrightarrow> syms (put_table sd tp s) k = syms s k)"
proof -
  have n: "hget (sym s) (nat sd) \<noteq> None" using assms(2) by (simp add: live_def)
  have "hwf (sym (put_table sd tp s))"
    using assms(1) n by (auto simp: tabs_ok_def hwf_def put_table_def hget_def count_used_over split: option.splits if_splits)
  moreover have "syms (put_table sd tp s) k = syms s k" if "0 \<le> k" "k \<noteq> sd" for k
  proof -
    have "nat k \<noteq> nat sd" using that assms(2) by (auto simp: live_def)
    then show ?thesis using n by (simp add: syms_def fun_eq_iff)
  qed
  ultimately show ?thesis using assms n
    by (auto simp: tabs_ok_def live_def syms_def fun_eq_iff)
qed

lemma symLookup_eq:
  assumes "tabs_ok s" and "live sd s"
  shows "symLookup sd (Some n) s = Inr (if n = [] then None else syms s sd n)"
proof -
  obtain tp where tp: "hget (sym s) (nat sd) = Some tp" "table_of s sd = Inr (Some tp)"
    using open_live [OF assms(2)] by blast
  have "tabent_ok tp" using assms(1) tp(1) by (simp add: tabs_ok_def)
  then show ?thesis
    using tp by (simp add: symLookup_def bucket_hash chain_lookup syms_def tab_map_def)
qed

lemma symEnter_eq:
  assumes "tabs_ok s" and "live sd s"
  shows "(\<not> ok \<and> syms s sd n = None \<and> symEnter ok sd n v arg s = Inr (None, s))
    \<or> (\<exists>sp s'. symEnter ok sd n v arg s = Inr (Some sp, s') \<and> s_name sp = n \<and> s_content sp = v \<and> s_arg sp = arg
        \<and> tabs_ok s' \<and> live sd s' \<and> syms s' sd = (syms s sd)(n \<mapsto> sp)
        \<and> (\<forall>k. 0 \<le> k \<and> k \<noteq> sd \<longrightarrow> syms s' k = syms s k))"
proof -
  obtain tp where tp: "hget (sym s) (nat sd) = Some tp" "open_table s sd = Inr tp"
    using open_live [OF assms(2)] by blast
  have ok: "tabent_ok tp" using assms(1) tp(1) by (simp add: tabs_ok_def)
  let ?h = "hashIndex tp n"
  let ?ch = "hash_table tp ! ?h"
  show ?thesis
  proof (cases "chain_enter ok n v arg ?ch")
    case None
    then have "\<not> ok \<and> chain_map ?ch n = None"
      by (auto simp: chain_enter_def Let_def chain_find_None split: option.splits if_splits)
    then show ?thesis using None tp ok by (simp add: symEnter_def bucket_hash Let_def syms_def tab_map_def)
  next
    case (Some r)
    obtain sp ch' where r: "r = (sp, ch')" by (cases r)
    note m = chain_enter_map [OF Some [unfolded r]]
    have d: "distinct (map s_name ?ch)" using ok hashIndex_less [of tp n] by (simp add: tabent_ok_def)
    let ?tp = "tp\<lparr>hash_table := (hash_table tp)[?h := ch']\<rparr>"
    have u: "tabent_ok ?tp \<and> tab_map ?tp = (tab_map tp)(n := Some sp)"
      using m d by (intro bucket_upd [OF ok refl]) auto
    have "syms s sd = tab_map tp" using tp(1) by (simp add: syms_def fun_eq_iff)
    with put_table_ok [OF assms conjunct1 [OF u]] u m Some r tp ok show ?thesis
      by (simp add: symEnter_def bucket_hash Let_def)
  qed
qed

lemma symDelete_eq:
  assumes "tabs_ok s" and "live sd s"
  shows "\<exists>s'. symDelete sd n s = Inr (if syms s sd n = None then - 1 else 0, s') \<and> tabs_ok s' \<and> live sd s'
    \<and> syms s' sd = (syms s sd)(n := None) \<and> (\<forall>k. 0 \<le> k \<and> k \<noteq> sd \<longrightarrow> syms s' k = syms s k)"
proof -
  obtain tp where tp: "hget (sym s) (nat sd) = Some tp" "open_table s sd = Inr tp"
    using open_live [OF assms(2)] by blast
  have ok: "tabent_ok tp" using assms(1) tp(1) by (simp add: tabs_ok_def)
  have sy: "syms s sd = tab_map tp" using tp(1) by (simp add: syms_def fun_eq_iff)
  let ?h = "hashIndex tp n"
  let ?ch = "hash_table tp ! ?h"
  show ?thesis
  proof (cases "chain_delete n ?ch")
    case None
    then have "syms s sd n = None"
      by (auto simp: chain_delete_def chain_find_None sy tab_map_def split: option.splits)
    then show ?thesis using None tp ok assms by (simp add: symDelete_def bucket_hash Let_def fun_upd_idem)
  next
    case (Some ch')
    have d: "distinct (map s_name ?ch)" using ok hashIndex_less [of tp n] by (simp add: tabent_ok_def)
    note m = chain_delete_map [OF Some d]
    let ?tp = "tp\<lparr>hash_table := (hash_table tp)[?h := ch']\<rparr>"
    have u: "tabent_ok ?tp \<and> tab_map ?tp = (tab_map tp)(n := None)"
      using m by (intro bucket_upd [OF ok refl]) auto
    have "syms s sd n \<noteq> None" using Some
      by (auto simp: chain_delete_def sy tab_map_def split: option.splits dest: chain_find_Some)
    with put_table_ok [OF assms conjunct1 [OF u]] u sy Some tp ok show ?thesis
      by (simp add: symDelete_def bucket_hash Let_def)
  qed
qed

section \<open>The interface\<close>

definition sym_get :: "int \<Rightarrow> 'v symtabs \<Rightarrow> string \<Rightarrow> ('v \<times> int) option" where
  "sym_get sd s n = map_option (\<lambda>sp. (s_content sp, s_arg sp)) (syms s sd n)"

definition sym_put :: "int \<Rightarrow> 'v symtabs \<Rightarrow> string \<Rightarrow> 'v \<times> int \<Rightarrow> 'v symtabs" where
  "sym_put sd s n v = (case symEnter True sd n (fst v) (snd v) s of Inl _ \<Rightarrow> s | Inr r \<Rightarrow> snd r)"

definition sym_del :: "int \<Rightarrow> 'v symtabs \<Rightarrow> string \<Rightarrow> 'v symtabs" where
  "sym_del sd s n = (case symDelete sd n s of Inl _ \<Rightarrow> s | Inr r \<Rightarrow> snd r)"

interpretation symdict: dictionary "\<lambda>s. tabs_ok s \<and> live sd s" "sym_get sd" "sym_put sd" "sym_del sd" for sd
proof
  fix t :: "'v symtabs" and n and v :: "'v \<times> int"
  assume t: "tabs_ok t \<and> live sd t"
  note e = symEnter_eq [OF conjunct1 [OF t] conjunct2 [OF t], of True n "fst v" "snd v"]
  show "tabs_ok (sym_put sd t n v) \<and> live sd (sym_put sd t n v)" using e by (auto simp: sym_put_def)
  show "sym_get sd (sym_put sd t n v) = (sym_get sd t)(n \<mapsto> v)"
    using e by (auto simp: sym_put_def sym_get_def fun_eq_iff)
next
  fix t :: "'v symtabs" and n
  assume t: "tabs_ok t \<and> live sd t"
  note e = symDelete_eq [OF conjunct1 [OF t] conjunct2 [OF t], of n]
  show "tabs_ok (sym_del sd t n) \<and> live sd (sym_del sd t n)" using e by (auto simp: sym_del_def)
  show "sym_get sd (sym_del sd t n) = (sym_get sd t)(n := None)"
    using e by (auto simp: sym_del_def sym_get_def fun_eq_iff)
qed

section \<open>Table sizes\<close>

lemma isPrime_iff: "2 \<le> n \<Longrightarrow> isPrime n \<longleftrightarrow> (\<forall>k. k dvd n \<longrightarrow> k = 1 \<or> k = n)"
proof -
  assume n: "2 \<le> n"
  have big: "k = n" if "k dvd n" "n div 2 < k" for k
  proof -
    obtain m where m: "n = k * m" using \<open>k dvd n\<close> by blast
    have "m < 2"
    proof (rule ccontr)
      assume "\<not> m < 2"
      then have "k * 2 \<le> n" using m by simp
      then show False using that(2) by simp
    qed
    moreover have "m \<noteq> 0" using m n by (cases m) auto
    ultimately have "m = 1" by simp
    then show ?thesis using m by simp
  qed
  show ?thesis
  proof
    assume p: "isPrime n"
    show "\<forall>k. k dvd n \<longrightarrow> k = 1 \<or> k = n"
    proof (intro allI impI)
      fix k assume k: "k dvd n"
      then have "k \<noteq> 0" using n by (cases k) auto
      moreover have "\<not> (2 \<le> k \<and> k < n div 2 + 1)" using p k by (auto simp: isPrime_def list_all_iff dvd_eq_mod_eq_0)
      ultimately show "k = 1 \<or> k = n" using big [OF k] by linarith
    qed
  next
    assume "\<forall>k. k dvd n \<longrightarrow> k = 1 \<or> k = n"
    then show "isPrime n" by (auto simp: isPrime_def list_all_iff dvd_eq_mod_eq_0)
  qed
qed

lemma calcPrime_pos: "0 < calcPrime n"
  by (induction n) auto

text \<open>For a size of at least 2, \<open>calcPrime\<close> returns the greatest prime not above it, so no table
  is empty and every hash value has a chain.\<close>

theorem calcPrime_greatest:
  assumes "2 \<le> n"
  shows "2 \<le> calcPrime n \<and> calcPrime n \<le> n \<and> (\<forall>k. k dvd calcPrime n \<longrightarrow> k = 1 \<or> k = calcPrime n)
    \<and> (\<forall>m. calcPrime n < m \<and> m \<le> n \<longrightarrow> (\<exists>k. k dvd m \<and> k \<noteq> 1 \<and> k \<noteq> m))"
  using assms
proof (induction n)
  case 0
  then show ?case by simp
next
  case (Suc n)
  show ?case
  proof (cases "isPrime (Suc n)")
    case True
    then show ?thesis using Suc.prems isPrime_iff [OF Suc.prems] by simp
  next
    case False
    have "isPrime 2" by (simp add: isPrime_def)
    then have "2 \<le> n" using False Suc.prems by (cases "n = 1") (auto simp: numeral_2_eq_2)
    note IH = Suc.IH [OF this]
    have "\<exists>k. k dvd m \<and> k \<noteq> 1 \<and> k \<noteq> m" if "calcPrime n < m" "m \<le> Suc n" for m
      using that IH False isPrime_iff [OF Suc.prems] by (cases "m = Suc n") auto
    then show ?thesis using IH False by auto
  qed
qed

theorem calcPrime_greatest_witness: "calcPrime 64 = 61 \<and> 2 \<le> calcPrime 64 \<and> \<not> 7 dvd calcPrime 64"
proof -
  have "calcPrime 64 = 61" by code_simp
  with calcPrime_greatest [of 64] show ?thesis by (auto dest!: spec [of _ 7])
qed

section \<open>Opening a table\<close>

lemma symOpen_eq:
  fixes s :: "'v symtabs"
  assumes "tabs_ok s" and "tbl_ok"
  shows "(\<exists>s'. symOpen e tbl_ok sz s = Inr (- 1, s') \<and> e \<noteq> halloc_fine)
    \<or> (\<exists>h s'. symOpen e tbl_ok sz s = Inr (int h, s') \<and> \<not> live (int h) s \<and> tabs_ok s' \<and> live (int h) s'
        \<and> syms s' (int h) = Map.empty \<and> (\<forall>k. 0 \<le> k \<and> k \<noteq> int h \<longrightarrow> syms s' k = syms s k))"
proof -
  have hw: "hwf (sym s)" using assms(1) by (simp add: tabs_ok_def)
  define tp :: "'v sym_tabent" where "tp = \<lparr>hash_size = calcPrime sz, hash_table = replicate (calcPrime sz) []\<rparr>"
  have tp: "tabent_ok tp" "tab_map tp = Map.empty"
    using new_table_ok new_table_map calcPrime_pos unfolding tp_def by blast+
  obtain sd tabs where a: "hAlloc e (sym s) = (sd, tabs)" by (cases "hAlloc e (sym s)")
  show ?thesis
  proof (cases "a_entry e")
    case True
    from hAllocEntry_cases [OF hw, of e tp "symMax s"] show ?thesis
    proof
      assume "\<exists>hm'. hAllocEntry e True tp (sym s) (symMax s) = Inr (- 1, hm', symMax s) \<and> hget hm' = hget (sym s) \<and> hwf hm'
        \<and> (\<forall>k. in_array k (sym s) \<longrightarrow> in_array k hm') \<and> e \<noteq> halloc_fine"
      then have "sd < 0 \<and> e \<noteq> halloc_fine" using True a by (auto simp: hAllocEntry_def Let_def split: if_splits)
      then show ?thesis using a by (simp add: symOpen_def)
    next
      assume "\<exists>h hm'. hAllocEntry e True tp (sym s) (symMax s) = Inr (int h, hm', max (symMax s) (Suc h))
        \<and> hget (sym s) h = None \<and> (\<forall>k < h. hget (sym s) k \<noteq> None) \<and> hget hm' = (hget (sym s))(h \<mapsto> tp) \<and> hwf hm'
        \<and> in_array h hm' \<and> (\<forall>k. in_array k (sym s) \<longrightarrow> in_array k hm')"
      then obtain h hm' where h: "hAllocEntry e True tp (sym s) (symMax s) = Inr (int h, hm', max (symMax s) (Suc h))"
        "hget (sym s) h = None" "hget hm' = (hget (sym s))(h \<mapsto> tp)" "hwf hm'" by blast
      obtain s' where s': "symOpen e tbl_ok sz s = Inr (int h, s')" "sym s' = hm'"
        using h(1) True assms(2) a
        by (auto simp: hAllocEntry_def symOpen_def Let_def tp_def split: if_splits)
      have "tabs_ok s'" using assms(1) h(3,4) s'(2) tp(1) by (auto simp: tabs_ok_def split: if_splits)
      moreover have "live (int h) s'" "\<not> live (int h) s" using h(2,3) s'(2) by (auto simp: live_def)
      moreover have "syms s' (int h) = Map.empty" using h(3) s'(2) tp(2) by (simp add: syms_def fun_eq_iff)
      moreover have "syms s' k = syms s k" if "0 \<le> k" "k \<noteq> int h" for k
      proof -
        have "nat k \<noteq> h" using that by auto
        then show ?thesis using h(3) s'(2) by (simp add: syms_def fun_eq_iff)
      qed
      ultimately show ?thesis using s'(1) by blast
    qed
  next
    case False
    have "e \<noteq> halloc_fine" using False by (auto simp: halloc_fine_def)
    moreover have "\<exists>s'. symOpen e tbl_ok sz s = Inr (- 1, s')"
    proof (cases "sd < 0")
      case True
      then show ?thesis using a by (simp add: symOpen_def)
    next
      case nn: False
      have "hAllocEntry e True tp (sym s) (symMax s) = res_bind (hFree tabs sd) (\<lambda>(_, list2). Inr (- 1, list2, symMax s))"
        using a nn False by (simp add: hAllocEntry_def)
      moreover have "\<exists>r. hAllocEntry e True tp (sym s) (symMax s) = Inr r"
        using hAllocEntry_cases [OF hw, of e tp "symMax s"] by blast
      ultimately obtain mx list2 where "hFree tabs sd = Inr (mx, list2)" by (cases "hFree tabs sd") auto
      then show ?thesis using a nn False by (simp add: symOpen_def)
    qed
    ultimately show ?thesis by blast
  qed
qed

section \<open>Sequences of operations\<close>

lemma sym_get_lookup:
  "tabs_ok s \<Longrightarrow> live sd s \<Longrightarrow> n \<noteq> [] \<Longrightarrow>
   (symLookup sd (Some n) s = Inr None \<longleftrightarrow> sym_get sd s n = None)
   \<and> (sym_get sd s n = Some (v, a) \<longrightarrow> (\<exists>sp. symLookup sd (Some n) s = Inr (Some sp) \<and> s_content sp = v \<and> s_arg sp = a))"
  by (auto simp: symLookup_eq sym_get_def)

text \<open>C28. A symbol table is a dictionary: entering any list of symbols into an open table, with memory
  available, and looking one up gives the content and the argument it was entered with last; a name not
  entered keeps its meaning; deleting takes a name out and leaves the others.  No call faults.\<close>

theorem symbol_table_is_dictionary:
  assumes "tabs_ok s" and "live sd s"
    and "s' = foldl (\<lambda>s p. sym_put sd s (fst p) (snd p)) s ps"
  shows "tabs_ok s' \<and> live sd s' \<and> (\<forall>n. n \<noteq> [] \<longrightarrow>
      (case map_of (rev ps) n of
         Some (v, a) \<Rightarrow> (\<exists>sp. symLookup sd (Some n) s' = Inr (Some sp) \<and> s_content sp = v \<and> s_arg sp = a)
       | None \<Rightarrow> symLookup sd (Some n) s' = symLookup sd (Some n) s)
      \<and> (\<exists>r s''. symDelete sd n s' = Inr (r, s'') \<and> symLookup sd (Some n) s'' = Inr None
          \<and> (\<forall>m. m \<noteq> n \<longrightarrow> symLookup sd (Some m) s'' = symLookup sd (Some m) s')))"
proof -
  have fold: "foldl (\<lambda>s p. sym_put sd s (fst p) (snd p)) t qs = symdict.put_all sd t qs" for t :: "'a symtabs" and qs
    by (induction qs arbitrary: t) auto
  note pa = symdict.put_all_get [of s sd ps, folded fold, folded assms(3)]
  have ok: "tabs_ok s' \<and> live sd s'" using pa assms(1,2) by blast
  have get: "sym_get sd s' n = (case map_of (rev ps) n of Some v \<Rightarrow> Some v | None \<Rightarrow> sym_get sd s n)" for n
    using pa assms(1,2) by (simp add: map_upds_def zip_map_fst_snd map_add_def split: option.splits)
  have same: "symLookup sd (Some n) s' = symLookup sd (Some n) s" if "map_of (rev ps) n = None" for n
  proof -
    have "syms s' sd n = syms s sd n" if "n \<notin> fst ` set ps"
      using that assms(1,2) unfolding assms(3)
    proof (induction ps arbitrary: s)
      case Nil
      then show ?case by simp
    next
      case (Cons p ps)
      note e = symEnter_eq [OF Cons.prems(2,3), of True "fst p" "fst (snd p)" "snd (snd p)"]
      have "tabs_ok (sym_put sd s (fst p) (snd p)) \<and> live sd (sym_put sd s (fst p) (snd p))"
        and "syms (sym_put sd s (fst p) (snd p)) sd n = syms s sd n"
        using e Cons.prems(1) by (auto simp: sym_put_def)
      with Cons.IH Cons.prems(1) show ?case by simp
    qed
    moreover have "n \<notin> fst ` set ps" using \<open>map_of (rev ps) n = None\<close> by (simp add: map_of_eq_None_iff)
    ultimately show ?thesis using ok assms(1,2) by (simp add: symLookup_eq)
  qed
  have del: "\<exists>r s''. symDelete sd n s' = Inr (r, s'') \<and> symLookup sd (Some n) s'' = Inr None
          \<and> (\<forall>m. m \<noteq> n \<longrightarrow> symLookup sd (Some m) s'' = symLookup sd (Some m) s')" for n
    using symDelete_eq [OF conjunct1 [OF ok] conjunct2 [OF ok], of n] ok by (auto simp: symLookup_eq)
  have look: "\<exists>sp. symLookup sd (Some n) s' = Inr (Some sp) \<and> s_content sp = v \<and> s_arg sp = a"
    if "map_of (rev ps) n = Some (v, a)" "n \<noteq> []" for n v a
    using sym_get_lookup [of s' sd n v a] ok get [of n] that by simp
  show ?thesis using ok del look same by (auto split: option.splits)
qed

definition demo_tabs :: "nat symtabs" where
  "demo_tabs = \<lparr>sym = Some \<lparr>h_used = 1, h_slots = [Some \<lparr>hash_size = 3, hash_table = [[], [], []]\<rparr>]\<rparr>, symMax = 1,
     symOpenCount = 1, htIndex = 0, next_sym = []\<rparr>"

lemma demo_tabs_ok: "tabs_ok demo_tabs" "live 0 demo_tabs"
  by (auto simp: demo_tabs_def tabs_ok_def live_def hwf_def hget_def tabent_ok_def numeral_eq_Suc less_Suc_eq split: if_splits)

theorem symbol_table_is_dictionary_witness:
  "\<exists>sp. symLookup 0 (Some ''b'') (sym_put 0 (sym_put 0 (sym_put 0 demo_tabs ''a'' (1, 0)) ''b'' (2, 0)) ''a'' (3, 0))
     = Inr (Some sp) \<and> s_content sp = 2"
  using symbol_table_is_dictionary [OF demo_tabs_ok refl, of "[(''a'', (1, 0)), (''b'', (2, 0)), (''a'', (3, 0))]"]
  by (auto dest!: spec [of _ "''b''"])

section \<open>Traversal\<close>

text \<open>\<open>symNext\<close> called until it returns null, with \<open>fuel\<close> calls at most.\<close>

fun walk :: "nat \<Rightarrow> int \<Rightarrow> 'v symtabs \<Rightarrow> 'v sym_t list res option" where
  "walk 0 sd s = None"
| "walk (Suc fuel) sd s =
     (case symNext sd s of
        Inl f \<Rightarrow> Some (Inl f)
      | Inr (None, s') \<Rightarrow> Some (Inr [])
      | Inr (Some sp, s') \<Rightarrow>
          map_option (\<lambda>r. case r of Inl f \<Rightarrow> Inl f | Inr xs \<Rightarrow> Inr (sp # xs)) (walk fuel sd s'))"

text \<open>The symbols still to come.\<close>

definition to_come :: "'v sym_tabent \<Rightarrow> 'v symtabs \<Rightarrow> nat" where
  "to_come tp s = length (next_sym s) + length (concat (drop (Suc (htIndex s)) (hash_table tp)))"

lemma next_from_cases:
  assumes tp: "length (hash_table tp) = hash_size tp" and i: "i < hash_size tp"
  shows "next_from tp [i..<hash_size tp] s = Inl OutOfBounds
    \<or> (\<exists>sp j q. next_from tp [i..<hash_size tp] s = Inr (Some sp, s\<lparr>htIndex := j, next_sym := q\<rparr>) \<and> j < hash_size tp
        \<and> length q + length (concat (drop (Suc j) (hash_table tp)))
          < length (next_sym s) + length (concat (drop (Suc i) (hash_table tp))))"
  using i
proof (induction "hash_size tp - i" arbitrary: i s rule: less_induct)
  case less
  have u: "[i..<hash_size tp] = i # [Suc i..<hash_size tp]" using less.prems by (simp add: upt_conv_Cons)
  have nb: "concat (drop (Suc i) (hash_table tp)) = hash_table tp ! Suc i @ concat (drop (Suc (Suc i)) (hash_table tp))"
    if "Suc i < hash_size tp"
    using that tp by (metis Cons_nth_drop_Suc concat.simps(2))
  show ?case
  proof (cases "next_sym s")
    case (Cons sp forw)
    show ?thesis
    proof (cases "forw = [] \<and> Suc i < hash_size tp")
      case True
      then have "next_from tp [i..<hash_size tp] s
          = Inr (Some sp, s\<lparr>htIndex := Suc i, next_sym := hash_table tp ! Suc i\<rparr>)"
        using Cons tp by (simp add: u hand_out_def bucket_def)
      moreover have "length (hash_table tp ! Suc i) + length (concat (drop (Suc (Suc i)) (hash_table tp)))
          < length (next_sym s) + length (concat (drop (Suc i) (hash_table tp)))"
        using Cons nb True by (simp del: length_concat)
      ultimately show ?thesis using True by blast
    next
      case False
      then show ?thesis using Cons tp less.prems by (auto simp: u hand_out_def bucket_def)
    qed
  next
    case Nil
    show ?thesis
    proof (cases "Suc i < hash_size tp")
      case True
      let ?s = "s\<lparr>next_sym := hash_table tp ! Suc i\<rparr>"
      have e: "next_from tp [i..<hash_size tp] s = next_from tp [Suc i..<hash_size tp] ?s"
        using Nil True tp by (simp add: u bucket_def)
      have "hash_size tp - Suc i < hash_size tp - i" using less.prems by simp
      from less.hyps [OF this True, of ?s] show ?thesis
        unfolding e using nb [OF True] Nil by simp
    next
      case False
      then show ?thesis using Nil tp by (simp add: u bucket_def)
    qed
  qed
qed

lemma walk_overruns:
  "hget (sym s) (nat sd) = Some tp \<Longrightarrow> 0 \<le> sd \<Longrightarrow> length (hash_table tp) = hash_size tp \<Longrightarrow> htIndex s < hash_size tp
   \<Longrightarrow> \<exists>fuel. walk fuel sd s = Some (Inl OutOfBounds)"
proof (induction "to_come tp s" arbitrary: s rule: less_induct)
  case less
  have o: "open_table s sd = Inr tp"
    using less.prems(1,2) by (auto simp: open_table_def table_of_def hget_def split: option.splits if_splits)
  from next_from_cases [OF less.prems(3,4), of s] show ?case
  proof
    assume "next_from tp [htIndex s..<hash_size tp] s = Inl OutOfBounds"
    then have "walk 1 sd s = Some (Inl OutOfBounds)" using o by (simp add: symNext_def)
    then show ?thesis by blast
  next
    assume "\<exists>sp j q. next_from tp [htIndex s..<hash_size tp] s = Inr (Some sp, s\<lparr>htIndex := j, next_sym := q\<rparr>) \<and> j < hash_size tp
        \<and> length q + length (concat (drop (Suc j) (hash_table tp)))
          < length (next_sym s) + length (concat (drop (Suc (htIndex s)) (hash_table tp)))"
    then obtain sp j q where n: "next_from tp [htIndex s..<hash_size tp] s = Inr (Some sp, s\<lparr>htIndex := j, next_sym := q\<rparr>)"
      "j < hash_size tp" "to_come tp (s\<lparr>htIndex := j, next_sym := q\<rparr>) < to_come tp s"
      unfolding to_come_def by auto
    obtain fuel where "walk fuel sd (s\<lparr>htIndex := j, next_sym := q\<rparr>) = Some (Inl OutOfBounds)"
      using less.hyps [OF n(3)] less.prems n(2) by auto
    then have "walk (Suc fuel) sd s = Some (Inl OutOfBounds)" using o n(1) by (simp add: symNext_def)
    then show ?thesis by blast
  qed
qed

lemma first_from_cases:
  assumes "length (hash_table tp) = hash_size tp" and "\<forall>i \<in> set is. i < hash_size tp"
  shows "(first_from tp is s = Inr (None, s) \<and> (\<forall>i \<in> set is. hash_table tp ! i = []))
    \<or> first_from tp is s = Inl OutOfBounds
    \<or> (\<exists>sp j q. first_from tp is s = Inr (Some sp, s\<lparr>htIndex := j, next_sym := q\<rparr>) \<and> j < hash_size tp)"
  using assms(2)
proof (induction "is")
  case Nil
  then show ?case by simp
next
  case (Cons i "is")
  show ?case
  proof (cases "hash_table tp ! i")
    case Nil
    then show ?thesis using Cons assms(1) by (simp add: bucket_def)
  next
    case (Cons sp forw)
    then show ?thesis using Cons.prems assms(1) by (cases "Suc i < hash_size tp") (auto simp: bucket_def hand_out_def)
  qed
qed

text \<open>Every traversal of a table with a symbol in it reads past the end of the hash table: either
  \<open>symFirst\<close> does, or the calls of \<open>symNext\<close> that follow it, because the bucket after the last one is
  read as well.  On an empty table \<open>symFirst\<close> returns null.\<close>

theorem traversal_reads_past_table:
  assumes "tabs_ok s" and "live sd s"
  shows "(syms s sd = Map.empty \<longrightarrow> symFirst sd s = Inr (None, s))
    \<and> (syms s sd \<noteq> Map.empty \<longrightarrow> symFirst sd s = Inl OutOfBounds
        \<or> (\<exists>sp s' fuel. symFirst sd s = Inr (Some sp, s') \<and> walk fuel sd s' = Some (Inl OutOfBounds)))"
proof -
  obtain tp where tp: "hget (sym s) (nat sd) = Some tp" "open_table s sd = Inr tp" "0 \<le> sd"
    using open_live [OF assms(2)] assms(2) by (auto simp: live_def)
  have ok: "tabent_ok tp" using assms(1) tp(1) by (simp add: tabs_ok_def)
  then have l: "length (hash_table tp) = hash_size tp" by (simp add: tabent_ok_def)
  have e: "syms s sd = Map.empty \<longleftrightarrow> (\<forall>i < hash_size tp. hash_table tp ! i = [])"
  proof
    assume m: "syms s sd = Map.empty"
    show "\<forall>i < hash_size tp. hash_table tp ! i = []"
    proof (intro allI impI, rule ccontr)
      fix i assume i: "i < hash_size tp" "hash_table tp ! i \<noteq> []"
      then obtain sp ch where ch: "hash_table tp ! i = sp # ch" by (cases "hash_table tp ! i") auto
      then have "hashIndex tp (s_name sp) = i" using ok i(1) by (auto simp: tabent_ok_def)
      then have "syms s sd (s_name sp) = Some sp" using ch tp(1) by (simp add: syms_def tab_map_def chain_map_def)
      with m show False by simp
    qed
  next
    assume "\<forall>i < hash_size tp. hash_table tp ! i = []"
    then show "syms s sd = Map.empty"
      using tp(1) ok hashIndex_less [of tp] by (simp add: syms_def tab_map_def chain_map_def tabent_ok_def fun_eq_iff)
  qed
  have f: "(symFirst sd s = Inr (None, s) \<and> (\<forall>i < hash_size tp. hash_table tp ! i = []))
    \<or> symFirst sd s = Inl OutOfBounds
    \<or> (\<exists>sp j q. symFirst sd s = Inr (Some sp, s\<lparr>htIndex := j, next_sym := q\<rparr>) \<and> j < hash_size tp)"
    using first_from_cases [OF l, of "[0..<hash_size tp]" s] tp(2) by (auto simp: symFirst_def)
  have empty: "first_from tp is s = Inr (None, s)" if "\<forall>i \<in> set is. i < hash_size tp \<and> hash_table tp ! i = []" for "is"
    using that l by (induction "is") (auto simp: bucket_def)
  have w: "\<exists>fuel. walk fuel sd (s\<lparr>htIndex := j, next_sym := q\<rparr>) = Some (Inl OutOfBounds)" if "j < hash_size tp" for j q
    using walk_overruns [of "s\<lparr>htIndex := j, next_sym := q\<rparr>" sd tp] tp l that by simp
  show ?thesis
  proof (intro conjI impI)
    assume "syms s sd = Map.empty"
    then have "\<forall>i \<in> set [0..<hash_size tp]. i < hash_size tp \<and> hash_table tp ! i = []" using e by simp
    from empty [OF this] show "symFirst sd s = Inr (None, s)" using tp(2) by (simp add: symFirst_def)
  next
    assume "syms s sd \<noteq> Map.empty"
    then have "\<not> (\<forall>i < hash_size tp. hash_table tp ! i = [])" using e by simp
    with f consider "symFirst sd s = Inl OutOfBounds"
      | sp j q where "symFirst sd s = Inr (Some sp, s\<lparr>htIndex := j, next_sym := q\<rparr>)" "j < hash_size tp" by blast
    then show "symFirst sd s = Inl OutOfBounds
        \<or> (\<exists>sp s' fuel. symFirst sd s = Inr (Some sp, s') \<and> walk fuel sd s' = Some (Inl OutOfBounds))"
    proof cases
      case 1
      then show ?thesis ..
    next
      case (2 sp j q)
      obtain fuel where "walk fuel sd (s\<lparr>htIndex := j, next_sym := q\<rparr>) = Some (Inl OutOfBounds)"
        using w [OF 2(2), of q] by (elim exE)
      then show ?thesis using 2(1) by (intro disjI2 exI conjI)
    qed
  qed
qed

theorem traversal_reads_past_table_witness:
  "\<exists>s :: nat symtabs. symLookup 0 (Some ''a'') s \<noteq> Inr None \<and> (symFirst 0 s = Inl OutOfBounds
     \<or> (\<exists>sp s' fuel. symFirst 0 s = Inr (Some sp, s') \<and> walk fuel 0 s' = Some (Inl OutOfBounds)))"
proof -
  let ?s = "sym_put 0 demo_tabs ''a'' (1, 0)"
  have ok: "tabs_ok ?s" "live 0 ?s" using symdict.put_sound [of demo_tabs 0] demo_tabs_ok by auto
  have "sym_get 0 ?s ''a'' = Some (1, 0)" using symdict.put_get [of demo_tabs 0] demo_tabs_ok by simp
  then have "symLookup 0 (Some ''a'') ?s \<noteq> Inr None" "syms ?s 0 \<noteq> Map.empty"
    using ok by (auto simp: symLookup_eq sym_get_def fun_eq_iff)
  with traversal_reads_past_table [OF ok] show ?thesis by blast
qed

section \<open>Closing a table\<close>

lemma symClose_eq:
  assumes "tabs_ok s" and "live sd s"
  shows "\<exists>s'. symClose sd s = Inr s' \<and> tabs_ok s' \<and> \<not> live sd s'
    \<and> (\<forall>k. k \<noteq> sd \<longrightarrow> (live k s' \<longleftrightarrow> live k s)) \<and> (\<forall>k. 0 \<le> k \<and> k \<noteq> sd \<longrightarrow> syms s' k = syms s k)"
proof -
  have sd: "0 \<le> sd" "hget (sym s) (nat sd) \<noteq> None" using assms(2) by (auto simp: live_def)
  obtain tp where tp: "open_table s sd = Inr tp" using open_live [OF assms(2)] by blast
  obtain k hm where f: "hFree (sym s) sd = Inr (int k, hm)" "hget hm = (hget (sym s))(nat sd := None)" "hwf hm"
    using hFree_ok [of "sym s" "nat sd"] assms(1) sd by (auto simp: tabs_ok_def)
  have c: "symClose sd s = Inr (s\<lparr>sym := hm, symMax := k\<rparr>)" using tp f(1) by (simp add: symClose_def)
  have o: "nat j \<noteq> nat sd" if "0 \<le> j" "j \<noteq> sd" for j using that sd by auto
  have "tabs_ok (s\<lparr>sym := hm, symMax := k\<rparr>)" using assms(1) f(2,3) by (auto simp: tabs_ok_def split: if_splits)
  moreover have "\<not> live sd (s\<lparr>sym := hm, symMax := k\<rparr>)" using f(2) by (simp add: live_def)
  moreover have "live j (s\<lparr>sym := hm, symMax := k\<rparr>) = live j s" if "j \<noteq> sd" for j
    using that o f(2) by (auto simp: live_def)
  moreover have "syms (s\<lparr>sym := hm, symMax := k\<rparr>) j = syms s j" if "0 \<le> j" "j \<noteq> sd" for j
    using o [OF that] f(2) by (simp add: syms_def fun_eq_iff)
  ultimately show ?thesis using c by blast
qed

lemma symEnter_live:
  assumes "live sd s" and "symEnter ok sd n v arg s = Inr (sp, s')"
  shows "live k s' \<longleftrightarrow> live k s"
proof -
  have "hget (sym s) (nat sd) \<noteq> None" using assms(1) by (simp add: live_def)
  then have "live k (put_table sd tp s) \<longleftrightarrow> live k s" for tp by (simp add: live_def)
  then show ?thesis using assms(2) by (auto simp: symEnter_def Let_def split: option.splits)
qed

end
