(* ===== verification/Url.thy ===== *)
theory Url
  imports Prelude
begin

text \<open>
  The string handling a request's URL goes through in the web server: \<open>websDecodeUrl\<close>, \<open>charCount\<close>
  and \<open>websSafeUrl\<close> of \<open>user/goahead/src_tongyong/webs.c\<close>, and \<open>websCondenseMultipleChars\<close> of
  \<open>handler.c\<close>.  The functions that write through a moving pointer return the characters written;
  a buffer they may leave is modelled by the size they were given and a fault.
\<close>

section \<open>Percent decoding\<close>

definition gisxdigit :: "byte \<Rightarrow> bool" where
  "gisxdigit c \<longleftrightarrow> (48 \<le> uchar c \<and> uchar c \<le> 57) \<or> (65 \<le> uchar c \<and> uchar c \<le> 70)
     \<or> (97 \<le> uchar c \<and> uchar c \<le> 102)"

text \<open>\<open>c = tolower(*ip)\<close> and the value added to \<open>num * 16\<close>.\<close>

definition xdigit_val :: "byte \<Rightarrow> nat" where
  "xdigit_val ch =
     (let c = (if 65 \<le> uchar ch \<and> uchar ch \<le> 90 then uchar ch + 32 else uchar ch)
      in if 97 \<le> c \<and> c \<le> 102 then 10 + c - 97 else c - 48)"

text \<open>The loop; \<open>len\<close> counts the characters written.  Output runs behind input, so decoding in place
  is the same.\<close>

fun websDecodeUrl :: "nat \<Rightarrow> string \<Rightarrow> string" where
  "websDecodeUrl 0 ip = []"
| "websDecodeUrl (Suc len) [] = []"
| "websDecodeUrl (Suc len) (c # ip) =
     (if c = CHR ''+'' then CHR '' '' # websDecodeUrl len ip
      else if c = CHR ''%'' \<and> (case ip of a # b # _ \<Rightarrow> gisxdigit a \<and> gisxdigit b | _ \<Rightarrow> False)
      then char_of (xdigit_val (ip ! 0) * 16 + xdigit_val (ip ! 1)) # websDecodeUrl len (drop 2 ip)
      else c # websDecodeUrl len ip)"

text \<open>The inverse a client applies: every byte as \<open>%\<close> and two hexadecimal digits.\<close>

definition hex_digit :: "nat \<Rightarrow> byte" where
  "hex_digit n = char_of (if n < 10 then 48 + n else 55 + n)"

definition percent :: "byte \<Rightarrow> string" where
  "percent c = [CHR ''%'', hex_digit (uchar c div 16), hex_digit (uchar c mod 16)]"

lemma uchar_hex_digit: "n < 16 \<Longrightarrow> uchar (hex_digit n) = (if n < 10 then 48 + n else 55 + n)"
  by (simp add: hex_digit_def uchar_def)

lemma hex_digit_ok: "n < 16 \<Longrightarrow> gisxdigit (hex_digit n) \<and> xdigit_val (hex_digit n) = n"
  by (auto simp: gisxdigit_def xdigit_val_def uchar_hex_digit Let_def)

lemma decode_percent: "websDecodeUrl (Suc len) (percent c @ s) = c # websDecodeUrl len s"
proof -
  have d: "uchar c div 16 < 16" "uchar c mod 16 < 16" using uchar_less [of c] by (simp_all add: less_mult_imp_div_less)
  have "char_of (uchar c div 16 * 16 + uchar c mod 16) = c" by (simp add: uchar_def)
  then show ?thesis using hex_digit_ok [OF d(1)] hex_digit_ok [OF d(2)] by (simp add: percent_def)
qed

lemma decode_plain:
  "c \<noteq> CHR ''+'' \<Longrightarrow> c \<noteq> CHR ''%'' \<Longrightarrow> websDecodeUrl (Suc len) (c # s) = c # websDecodeUrl len s"
  by simp

text \<open>A mixed encoding: each character plain, as \<open>+\<close>, or as \<open>%nn\<close>.\<close>

inductive encodes :: "string \<Rightarrow> string \<Rightarrow> bool" where
  enc_nil: "encodes [] []"
| enc_plain: "c \<noteq> CHR ''+'' \<Longrightarrow> c \<noteq> CHR ''%'' \<Longrightarrow> encodes s e \<Longrightarrow> encodes (c # s) (c # e)"
| enc_plus: "encodes s e \<Longrightarrow> encodes (CHR '' '' # s) (CHR ''+'' # e)"
| enc_hex: "encodes s e \<Longrightarrow> encodes (c # s) (percent c @ e)"

lemma encodes_decode: "encodes s e \<Longrightarrow> length s \<le> len \<Longrightarrow> websDecodeUrl len e = s"
proof (induction arbitrary: len rule: encodes.induct)
  case enc_nil
  then show ?case by (cases len) auto
next
  case (enc_hex s e c)
  then show ?case by (cases len) (auto simp only: decode_percent list.size)
qed (case_tac len; simp)+

lemma encodes_length: "encodes s e \<Longrightarrow> length s \<le> length e"
  by (induction rule: encodes.induct) (auto simp: percent_def)

lemma encodes_all: "encodes s (concat (map percent s))"
  by (induction s) (auto intro: encodes.intros)

lemma decode_length: "length (websDecodeUrl len s) \<le> len \<and> length (websDecodeUrl len s) \<le> length s"
  by (induction len s rule: websDecodeUrl.induct) (auto split: list.splits)

section \<open>Condensing\<close>

text \<open>\<open>pScan\<close> skips while it and its successor are \<open>cCondense\<close>; the copy writes behind it.\<close>

fun websCondenseMultipleChars :: "byte \<Rightarrow> string \<Rightarrow> string" where
  "websCondenseMultipleChars cc [] = []"
| "websCondenseMultipleChars cc [a] = [a]"
| "websCondenseMultipleChars cc (a # b # s) =
     (if a = cc \<and> b = cc then websCondenseMultipleChars cc (b # s)
      else a # websCondenseMultipleChars cc (b # s))"

fun no_double :: "byte \<Rightarrow> string \<Rightarrow> bool" where
  "no_double cc (a # b # s) \<longleftrightarrow> \<not> (a = cc \<and> b = cc) \<and> no_double cc (b # s)"
| "no_double cc s \<longleftrightarrow> True"

lemma condense_hd: "s \<noteq> [] \<Longrightarrow> websCondenseMultipleChars cc s \<noteq> [] \<and> hd (websCondenseMultipleChars cc s) = hd s"
  by (induction cc s rule: websCondenseMultipleChars.induct) auto

lemma condense_no_double: "no_double cc (websCondenseMultipleChars cc s)"
proof (induction cc s rule: websCondenseMultipleChars.induct)
  case (3 cc a b s)
  have h: "websCondenseMultipleChars cc (b # s) \<noteq> [] \<and> hd (websCondenseMultipleChars cc (b # s)) = b"
    using condense_hd [of "b # s" cc] by simp
  show ?case
  proof (cases "a = cc \<and> b = cc")
    case True
    with 3 show ?thesis by simp
  next
    case False
    with 3 h show ?thesis by (cases "websCondenseMultipleChars cc (b # s)") auto
  qed
qed auto

lemma condense_id: "no_double cc s \<Longrightarrow> websCondenseMultipleChars cc s = s"
  by (induction cc s rule: websCondenseMultipleChars.induct) auto

text \<open>The pieces between the separators stay.\<close>

lemma condense_filter: "filter (\<lambda>c. c \<noteq> cc) (websCondenseMultipleChars cc s) = filter (\<lambda>c. c \<noteq> cc) s"
  by (induction cc s rule: websCondenseMultipleChars.induct) auto

lemma condense_set: "set (websCondenseMultipleChars cc s) = set s"
  by (induction cc s rule: websCondenseMultipleChars.induct) auto

section \<open>URLs in error pages\<close>

fun charCount :: "string option \<Rightarrow> byte \<Rightarrow> nat" where
  "charCount None ch = 0"
| "charCount (Some s) ch = length (filter (\<lambda>c. c = ch) s)"

definition kLessThan :: string where "kLessThan = ''&lt;''"
definition kGreaterThan :: string where "kGreaterThan = ''&gt;''"

text \<open>\<open>room\<close> is what is left of the allocated buffer; \<open>gstrcpy\<close> writes its argument and a NUL.\<close>

fun safe_copy :: "nat \<Rightarrow> string \<Rightarrow> string res" where
  "safe_copy room [] = (if 0 < room then Inr [] else Inl OutOfBounds)"
| "safe_copy room (c # src) =
     (let piece = (if c = CHR ''<'' then kLessThan else if c = CHR ''>'' then kGreaterThan else [c]);
          need = (if c = CHR ''<'' \<or> c = CHR ''>'' then length piece + 1 else 1)
      in if room < need then Inl OutOfBounds
         else res_bind (safe_copy (room - length piece) src) (\<lambda>d. Inr (piece @ d)))"

definition websSafeUrl :: "bool \<Rightarrow> string option \<Rightarrow> string option res" where
  "websSafeUrl alloc_ok url =
     (case url of
        None \<Rightarrow> Inr None
      | Some u \<Rightarrow>
          (let ltCount = charCount url (CHR ''<''); gtCount = charCount url (CHR ''>'') in
           if ltCount = 0 \<and> gtCount = 0 then Inr (Some u)
           else if \<not> alloc_ok then Inr None
           else res_bind (safe_copy (length u + ltCount * 4 + gtCount * 4) u) (\<lambda>d. Inr (Some d))))"

definition html_safe :: "string \<Rightarrow> string" where
  "html_safe s = concat (map (\<lambda>c. if c = CHR ''<'' then kLessThan else if c = CHR ''>'' then kGreaterThan else [c]) s)"

lemma safe_copy_ok:
  "length (html_safe s) < room \<Longrightarrow> safe_copy room s = Inr (html_safe s)"
proof (induction room s rule: safe_copy.induct)
  case (2 room c src)
  then show ?case by (auto simp: html_safe_def kLessThan_def kGreaterThan_def Let_def)
qed (simp add: html_safe_def)

lemma length_html_safe:
  "length (html_safe s) = length s + 3 * charCount (Some s) (CHR ''<'') + 3 * charCount (Some s) (CHR ''>'')"
  by (induction s) (auto simp: html_safe_def kLessThan_def kGreaterThan_def)

lemma html_safe_id: "CHR ''<'' \<notin> set s \<Longrightarrow> CHR ''>'' \<notin> set s \<Longrightarrow> html_safe s = s"
  by (induction s) (auto simp: html_safe_def)

lemma html_safe_clean: "CHR ''<'' \<notin> set (html_safe s) \<and> CHR ''>'' \<notin> set (html_safe s)"
  by (induction s) (auto simp: html_safe_def kLessThan_def kGreaterThan_def)

lemma websSafeUrl_eq: "websSafeUrl True (Some u) = Inr (Some (html_safe u))"
proof (cases "charCount (Some u) (CHR ''<'') = 0 \<and> charCount (Some u) (CHR ''>'') = 0")
  case True
  then have "html_safe u = u" by (intro html_safe_id) (auto simp: filter_empty_conv)
  then show ?thesis using True by (simp add: websSafeUrl_def del: charCount.simps)
next
  case False
  then have "length (html_safe u) < length u + charCount (Some u) (CHR ''<'') * 4 + charCount (Some u) (CHR ''>'') * 4"
    by (simp add: length_html_safe del: charCount.simps) linarith
  from safe_copy_ok [OF this] False show ?thesis by (auto simp: websSafeUrl_def Let_def simp del: charCount.simps)
qed

lemma html_safe_cstr: "is_cstr s \<Longrightarrow> is_cstr (html_safe s)"
  by (induction s) (auto simp: html_safe_def kLessThan_def kGreaterThan_def)

end
