(* ===== verification/Base64.thy ===== *)
theory Base64
  imports Prelude
begin

unbundle bit_operations_syntax

text \<open>
  \<open>user/goahead/src_tongyong/base64.c\<close>: the decoder of the Basic authentication header and its
  encoder.  \<open>shiftbuf\<close> is the 32-bit word of the code.  The output buffer is modelled by its size
  \<open>outlen\<close> and the characters written so far; a write at an index outside it is \<open>OutOfBounds\<close>.
\<close>

section \<open>Tables\<close>

definition map64 :: "int list" where
  "map64 =
  [- 1, - 1, - 1, - 1, - 1, - 1, - 1, - 1, - 1, - 1, - 1, - 1, - 1, - 1, - 1, - 1,
   - 1, - 1, - 1, - 1, - 1, - 1, - 1, - 1, - 1, - 1, - 1, - 1, - 1, - 1, - 1, - 1,
   - 1, - 1, - 1, - 1, - 1, - 1, - 1, - 1, - 1, - 1, - 1, 62, - 1, - 1, - 1, 63,
   52, 53, 54, 55, 56, 57, 58, 59, 60, 61, - 1, - 1, - 1, - 1, - 1, - 1,
   - 1, 0, 1, 2, 3, 4, 5, 6, 7, 8, 9, 10, 11, 12, 13, 14,
   15, 16, 17, 18, 19, 20, 21, 22, 23, 24, 25, - 1, - 1, - 1, - 1, - 1,
   - 1, 26, 27, 28, 29, 30, 31, 32, 33, 34, 35, 36, 37, 38, 39, 40,
   41, 42, 43, 44, 45, 46, 47, 48, 49, 50, 51, - 1, - 1, - 1, - 1, - 1,
   - 1, - 1, - 1, - 1, - 1, - 1, - 1, - 1, - 1, - 1, - 1, - 1, - 1, - 1, - 1, - 1,
   - 1, - 1, - 1, - 1, - 1, - 1, - 1, - 1, - 1, - 1, - 1, - 1, - 1, - 1, - 1, - 1,
   - 1, - 1, - 1, - 1, - 1, - 1, - 1, - 1, - 1, - 1, - 1, - 1, - 1, - 1, - 1, - 1,
   - 1, - 1, - 1, - 1, - 1, - 1, - 1, - 1, - 1, - 1, - 1, - 1, - 1, - 1, - 1, - 1,
   - 1, - 1, - 1, - 1, - 1, - 1, - 1, - 1, - 1, - 1, - 1, - 1, - 1, - 1, - 1, - 1,
   - 1, - 1, - 1, - 1, - 1, - 1, - 1, - 1, - 1, - 1, - 1, - 1, - 1, - 1, - 1, - 1,
   - 1, - 1, - 1, - 1, - 1, - 1, - 1, - 1, - 1, - 1, - 1, - 1, - 1, - 1, - 1, - 1,
   - 1, - 1, - 1, - 1, - 1, - 1, - 1, - 1, - 1, - 1, - 1, - 1, - 1, - 1, - 1, - 1,
   - 1, - 1, - 1, - 1, - 1, - 1, - 1, - 1, - 1, - 1, - 1, - 1, - 1, - 1, - 1, - 1,
   - 1, - 1, - 1, - 1, - 1, - 1, - 1, - 1, - 1, - 1, - 1, - 1, - 1, - 1, - 1, - 1,
   - 1, - 1, - 1, - 1, - 1, - 1, - 1, - 1, - 1, - 1, - 1, - 1, - 1, - 1, - 1, - 1,
   - 1, - 1, - 1, - 1, - 1, - 1, - 1, - 1, - 1, - 1, - 1, - 1, - 1, - 1, - 1, - 1]"

definition alphabet64 :: string where
  "alphabet64 = ''ABCDEFGHIJKLMNOPQRSTUVWXYZabcdefghijklmnopqrstuvwxyz0123456789+/''"

section \<open>Decoding\<close>

text \<open>The inner loop: up to four letters into \<open>shiftbuf\<close>; \<open>None\<close> at a character outside the
  alphabet.  The result is the number of letters taken, \<open>shiftbuf\<close> and the rest of the input.\<close>

fun take4 :: "nat \<Rightarrow> nat \<Rightarrow> u32 \<Rightarrow> string \<Rightarrow> (nat \<times> u32 \<times> string) option" where
  "take4 0 i shiftbuf cp = Some (i, shiftbuf, cp)"
| "take4 (Suc left) i shiftbuf [] = Some (i, shiftbuf, [])"
| "take4 (Suc left) i shiftbuf (x # cp) =
     (if x = CHR ''='' then Some (i, shiftbuf, x # cp)
      else let c = map64 ! uchar x in
        if c = -1 then None
        else take4 left (Suc i) (shiftbuf OR push_bit (18 - 6 * i) (of_int c)) cp)"

lemma take4_rest: "take4 left i sb cp = Some (n, sb', rest) \<Longrightarrow> length rest + n = length cp + i \<and> i \<le> n \<and> n \<le> i + left"
  by (induction left i sb cp rule: take4.induct) (auto simp: Let_def split: if_splits)

lemma take4_first: "x \<noteq> CHR ''='' \<Longrightarrow> take4 4 0 sb (x # cp) = Some (n, sb', rest) \<Longrightarrow> 0 < n"
  by (auto simp: eval_nat_numeral Let_def split: if_splits dest!: take4_rest)

lemma take4_shrinks:
  assumes "x \<noteq> CHR ''=''" and "take4 4 0 sb (x # cp) = Some (n, sb', rest)"
  shows "length rest < Suc (length cp)"
  using take4_first [OF assms] take4_rest [OF assms(2)] by simp

definition out_bytes :: "u32 \<Rightarrow> nat \<Rightarrow> byte list" where
  "out_bytes shiftbuf n = map (\<lambda>j. char_of (unat (drop_bit (8 * (2 - j)) shiftbuf AND 0xff))) [0..<n]"

definition too_big :: string where "too_big = ''String too big''"

text \<open>\<open>dec64 outlen op cp\<close>: the outer loop with \<open>op\<close> written so far; the returned pair is the
  result and the string left in \<open>outbuf\<close>.\<close>

function dec64 :: "nat \<Rightarrow> byte list \<Rightarrow> string \<Rightarrow> (int \<times> byte list) res" where
  "dec64 outlen op [] = Inr (0, op)"
| "dec64 outlen op (x # cp) =
     (if x = CHR ''='' then Inr (0, op)
      else case take4 4 0 0 (x # cp) of
        None \<Rightarrow> Inr (-1, op)
      | Some (n, shiftbuf, rest) \<Rightarrow>
          (let i = n - 1 in
           if outlen \<le> length op + i
           then (if length too_big < outlen then Inr (-1, too_big) else Inl OutOfBounds)
           else dec64 outlen (op @ out_bytes shiftbuf i) rest))"
  by pat_completeness auto
termination
  by (relation "measure (\<lambda>(outlen, op, cp). length cp)") (auto dest: take4_shrinks)

definition websDecode64 :: "string \<Rightarrow> nat \<Rightarrow> (int \<times> byte list) res" where
  "websDecode64 string outlen = (if outlen = 0 then Inl OutOfBounds else dec64 outlen [] string)"

section \<open>Encoding\<close>

text \<open>Up to three characters into \<open>shiftbuf\<close>, from the top byte down.\<close>

fun group24 :: "nat \<Rightarrow> string \<Rightarrow> u32" where
  "group24 0 cp = 0"
| "group24 (Suc j) [] = 0"
| "group24 (Suc j) (c # cp) = push_bit (8 * j) (of_nat (uchar c)) OR group24 j cp"

text \<open>\<open>letters64\<close>: \<open>n\<close> letters from bit \<open>shift\<close> down, written while \<open>op < &outbuf[outlen]\<close>.\<close>

fun letters64 :: "nat \<Rightarrow> u32 \<Rightarrow> nat \<Rightarrow> nat \<Rightarrow> string \<Rightarrow> string" where
  "letters64 outlen shiftbuf 0 shift op = op"
| "letters64 outlen shiftbuf (Suc n) shift op =
     (if length op < outlen
      then letters64 outlen shiftbuf n (shift - 6)
             (op @ [alphabet64 ! unat (drop_bit shift shiftbuf AND 0x3f)])
      else op)"

text \<open>The pads and the closing NUL are written without a check.\<close>

function enc64 :: "nat \<Rightarrow> string \<Rightarrow> string \<Rightarrow> string res" where
  "enc64 outlen op cp =
     (if cp = [] then Inr op
      else let n = min 3 (length cp);
               op1 = letters64 outlen (group24 3 cp) (n + 1) 18 op @ replicate (3 - n) (CHR ''='')
           in if outlen \<le> length op1 then Inl OutOfBounds
              else enc64 outlen op1 (drop 3 cp))"
  by pat_completeness auto
termination
  by (relation "measure (\<lambda>(outlen, op, cp). length cp)") auto

declare enc64.simps [simp del]

definition websEncode64 :: "string \<Rightarrow> nat \<Rightarrow> string res" where
  "websEncode64 string outlen = (if outlen = 0 then Inl OutOfBounds else enc64 outlen [] string)"

section \<open>Correctness\<close>

text \<open>The letters a group stands for: the reference encoding.\<close>

definition letter :: "u32 \<Rightarrow> nat \<Rightarrow> byte" where
  "letter sb k = alphabet64 ! unat (drop_bit (18 - 6 * k) sb AND 0x3f)"

function b64_ref :: "string \<Rightarrow> string" where
  "b64_ref cp =
     (if cp = [] then []
      else map (letter (group24 3 cp)) [0..<min 3 (length cp) + 1] @ replicate (3 - min 3 (length cp)) (CHR ''='')
        @ b64_ref (drop 3 cp))"
  by pat_completeness auto
termination
  by (relation "measure length") auto

declare b64_ref.simps [simp del]

lemma map64_letter: "k < 64 \<Longrightarrow> map64 ! uchar (alphabet64 ! k) = int k \<and> alphabet64 ! k \<noteq> CHR ''='' \<and> alphabet64 ! k \<noteq> NUL"
proof -
  have "\<forall>k \<in> set [0..<64]. map64 ! uchar (alphabet64 ! k) = int k \<and> alphabet64 ! k \<noteq> CHR ''='' \<and> alphabet64 ! k \<noteq> NUL"
    by code_simp
  then show "k < 64 \<Longrightarrow> ?thesis" by simp
qed

lemma three_cases:
  assumes "cp \<noteq> []"
  obtains a where "cp = [a]" | a b where "cp = [a, b]" | a b c rest where "cp = a # b # c # rest"
  using assms by (cases cp; cases "tl cp"; cases "tl (tl cp)") auto

lemma length_b64_ref: "length (b64_ref s) = 4 * ((length s + 2) div 3)"
proof (induction s rule: b64_ref.induct)
  case (1 cp)
  show ?case
  proof (cases "cp = []")
    case False
    then have ih: "length (b64_ref (drop 3 cp)) = 4 * ((length (drop 3 cp) + 2) div 3)" by (rule 1)
    have st: "length (b64_ref cp) = 4 + length (b64_ref (drop 3 cp))"
      using False by (subst b64_ref.simps) auto
    from False ih show ?thesis unfolding st
    proof (cases rule: three_cases)
      case (3 a b c rest)
      have "(length rest + 5) div 3 = (length rest + 2) div 3 + 1" by presburger
      with ih 3 show "4 + length (b64_ref (drop 3 cp)) = 4 * ((length cp + 2) div 3)"
        by (simp add: add.commute)
    qed simp_all
  qed (simp add: b64_ref.simps)
qed

subsection \<open>The encoder\<close>

lemma letters64_eq:
  "letters64 outlen sb n (18 - 6 * k) op = op @ take (outlen - length op) (map (letter sb) [k..<k + n])"
proof (induction n arbitrary: k op)
  case (Suc n)
  have u: "map (letter sb) [k..<k + Suc n] = letter sb k # map (letter sb) [Suc k..<Suc k + n]"
    by (simp add: upt_conv_Cons del: upt_Suc)
  show ?case
  proof (cases "length op < outlen")
    case True
    have e: "18 - 6 * k - 6 = 18 - 6 * Suc k" by simp
    have "letters64 outlen sb (Suc n) (18 - 6 * k) op
        = letters64 outlen sb n (18 - 6 * Suc k) (op @ [letter sb k])"
      using True by (simp only: letters64.simps if_True letter_def e)
    moreover obtain m where "outlen - length op = Suc m" "outlen - Suc (length op) = m"
      using True by (metis Suc_diff_Suc)
    ultimately show ?thesis unfolding Suc.IH u by (simp del: upt_Suc)
  qed simp
qed simp

lemma enc64_eq:
  "length op < outlen \<Longrightarrow>
   enc64 outlen op cp =
     (if length op + length (b64_ref cp) < outlen then Inr (op @ b64_ref cp) else Inl OutOfBounds)"
proof (induction cp arbitrary: op rule: b64_ref.induct)
  case (1 cp)
  show ?case
  proof (cases "cp = []")
    case True
    then show ?thesis using 1 by (simp add: enc64.simps b64_ref.simps)
  next
    case False
    define n where "n = min 3 (length cp)"
    define ls where "ls = map (letter (group24 3 cp)) [0..<n + 1]"
    define op1 where "op1 = op @ take (outlen - length op) ls @ replicate (3 - n) (CHR ''='')"
    have n: "0 < n" "n \<le> 3" using False by (auto simp: n_def)
    have ll: "length ls = n + 1" by (simp add: ls_def)
    have enc: "enc64 outlen op cp = (if outlen \<le> length op1 then Inl OutOfBounds else enc64 outlen op1 (drop 3 cp))"
    proof -
      have "letters64 outlen (group24 3 cp) (n + 1) 18 op = op @ take (outlen - length op) ls"
        using letters64_eq [of outlen "group24 3 cp" "n + 1" 0 op] by (simp add: ls_def del: upt_Suc)
      then show ?thesis using False
        by (subst enc64.simps) (simp only: n_def op1_def Let_def if_False append_assoc)
    qed
    have b: "b64_ref cp = ls @ replicate (3 - n) (CHR ''='') @ b64_ref (drop 3 cp)"
      using False by (subst b64_ref.simps) (simp add: ls_def n_def del: upt_Suc)
    show ?thesis
    proof (cases "length op + 4 < outlen")
      case True
      then have o1: "op1 = op @ ls @ replicate (3 - n) (CHR ''='')"
        using ll n by (simp add: op1_def)
      then have l1: "length op1 = length op + 4" using ll n by simp
      with True have "length op1 < outlen" by simp
      from "1.IH" [OF False this] show ?thesis unfolding enc using l1 True ll n by (simp add: b o1)
    next
      case fits: False
      have "length op1 = length op + min (outlen - length op) (n + 1) + (3 - n)"
        using ll by (simp add: op1_def min.commute)
      with fits n have "outlen \<le> length op1" by linarith
      then show ?thesis unfolding enc using fits ll n by (simp add: b)
    qed
  qed
qed

lemma websEncode64_eq:
  "websEncode64 s outlen =
     (if length (b64_ref s) < outlen then Inr (b64_ref s) else Inl OutOfBounds)"
  by (simp add: websEncode64_def enc64_eq)

subsection \<open>Decoding what was encoded\<close>

abbreviation byte_word :: "byte \<Rightarrow> u32" where "byte_word c \<equiv> of_nat (uchar c)"

lemma bit_uchar: "bit (uchar c) n \<Longrightarrow> n < 8"
proof -
  have "take_bit 8 (uchar c) = uchar c" by (intro take_bit_nat_eq_self) (simp add: uchar_less)
  then show "bit (uchar c) n \<Longrightarrow> n < 8" by (metis bit_take_bit_iff)
qed

lemma bit_byte_word: "bit (byte_word c) n \<longleftrightarrow> n < 8 \<and> bit (uchar c) n"
  by (auto simp: bit_simps dest: bit_uchar)

lemma masks: "(0xff :: u32) = mask 8" "(0x3f :: u32) = mask 6"
  by (simp_all add: mask_eq_exp_minus_1)

lemma byte_word_char: "char_of (unat (byte_word c)) = c"
proof -
  have "uchar c < 2 ^ 32" using uchar_less [of c] by (rule less_trans) simp
  then have "unat (byte_word c) = uchar c" by (simp add: unat_of_nat take_bit_nat_eq_self)
  then show ?thesis by (simp add: uchar_def)
qed

text \<open>Six bits of the group through the alphabet and back.\<close>

definition six :: "u32 \<Rightarrow> nat \<Rightarrow> u32" where
  "six sb k = drop_bit (18 - 6 * k) sb AND 0x3f"

lemma letter_map64: "letter sb k \<noteq> CHR ''=''" "map64 ! uchar (letter sb k) = int (unat (six sb k))"
proof -
  have "six sb k \<le> 0x3f" unfolding six_def by (rule word_and_le1)
  then have "unat (six sb k) \<le> 63" by (simp add: word_le_nat_alt)
  then have "unat (six sb k) < 64" by simp
  from map64_letter [OF this] show "letter sb k \<noteq> CHR ''=''" "map64 ! uchar (letter sb k) = int (unat (six sb k))"
    by (simp_all add: letter_def six_def)
qed

lemma take4_letter:
  "take4 (Suc left) i sh (letter sb k # cp) = take4 left (Suc i) (sh OR push_bit (18 - 6 * i) (six sb k)) cp"
proof -
  have "int (unat (six sb k)) \<noteq> -1" by linarith
  moreover have "(of_int (int (unat (six sb k))) :: u32) = six sb k" by simp
  ultimately show ?thesis by (simp only: take4.simps letter_map64 Let_def if_False)
qed

lemma bit_six: "n < 32 \<Longrightarrow> bit (six sb k) n \<longleftrightarrow> n < 6 \<and> bit sb (18 - 6 * k + n)"
  by (auto simp: six_def masks bit_simps)

text \<open>Byte \<open>j\<close> of a word whose bits agree with the group from bit \<open>8 * (2 - j)\<close> up.\<close>

lemma out_byte:
  fixes w :: u32
  assumes "\<forall>n < 8. bit w (8 * (2 - j) + n) = bit (byte_word c) n" and "j < 3"
  shows "char_of (unat (drop_bit (8 * (2 - j)) w AND 0xff)) = c"
proof -
  have "drop_bit (8 * (2 - j)) w AND 0xff = byte_word c"
  proof (rule bit_word_eqI)
    fix n assume "n < LENGTH(32)"
    then show "bit (drop_bit (8 * (2 - j)) w AND 0xff) n = bit (byte_word c) n"
      using assms by (cases "n < 8") (auto simp: masks bit_simps dest: bit_uchar)
  qed
  then show ?thesis by (simp add: byte_word_char)
qed

lemma group_words:
  "group24 3 [a] = push_bit 16 (byte_word a)"
  "group24 3 [a, b] = push_bit 16 (byte_word a) OR push_bit 8 (byte_word b)"
  "group24 3 (a # b # c # rest) = push_bit 16 (byte_word a) OR (push_bit 8 (byte_word b) OR byte_word c)"
proof -
  have "(3::nat) = Suc (Suc (Suc 0))" by simp
  then show "group24 3 [a] = push_bit 16 (byte_word a)"
    "group24 3 [a, b] = push_bit 16 (byte_word a) OR push_bit 8 (byte_word b)"
    "group24 3 (a # b # c # rest) = push_bit 16 (byte_word a) OR (push_bit 8 (byte_word b) OR byte_word c)"
    by (simp_all only: group24.simps or.right_neutral) simp_all
qed

lemma bit_push: "n < 32 \<Longrightarrow> bit (push_bit k (w :: u32)) n \<longleftrightarrow> k \<le> n \<and> bit w (n - k)"
  by (auto simp: bit_simps)

text \<open>What the letters of a whole group give back.\<close>

lemma take4_four: "take4 4 i sh cp = take4 (Suc (Suc (Suc (Suc 0)))) i sh cp"
proof -
  have "(4::nat) = Suc (Suc (Suc (Suc 0)))" by simp
  then show ?thesis by (simp only:)
qed

lemmas take4_run = take4_four take4_letter take4.simps(1) take4.simps(2)

lemma take4_three:
  "take4 4 0 0 (map (letter sb) [0..<4] @ rest)
     = Some (4, push_bit 18 (six sb 0) OR push_bit 12 (six sb 1) OR push_bit 6 (six sb 2) OR six sb 3, rest)"
proof -
  have u: "[0..<4] = [0, 1, 2, 3::nat]" by (simp add: upt_rec)
  show ?thesis unfolding u list.map append.simps take4_run by (simp add: or.assoc)
qed

lemma take4_stop: "take4 (Suc left) i sh (CHR ''='' # cp) = Some (i, sh, CHR ''='' # cp)"
  by simp

lemma take4_two:
  "take4 4 0 0 (map (letter sb) [0..<3] @ ''='')
     = Some (3, push_bit 18 (six sb 0) OR push_bit 12 (six sb 1) OR push_bit 6 (six sb 2), ''='')"
proof -
  have u: "[0..<3] = [0, 1, 2::nat]" by (simp add: upt_rec)
  show ?thesis unfolding u list.map append.simps take4_run take4_stop by (simp add: or.assoc)
qed

lemma take4_one:
  "take4 4 0 0 (map (letter sb) [0..<2] @ ''=='')
     = Some (2, push_bit 18 (six sb 0) OR push_bit 12 (six sb 1), ''=='')"
proof -
  have u: "[0..<2] = [0, 1::nat]" by (simp add: upt_rec)
  show ?thesis unfolding u list.map append.simps take4_run take4_stop by (simp add: or.assoc)
qed

text \<open>The bytes of a whole and of the two short groups.\<close>

lemma sixes:
  fixes sb :: u32
  assumes "n < 24"
  shows "bit (push_bit 18 (six sb 0)) n = (18 \<le> n \<and> bit sb n)"
    "bit (push_bit 12 (six sb 1)) n = (12 \<le> n \<and> n < 18 \<and> bit sb n)"
    "bit (push_bit 6 (six sb 2)) n = (6 \<le> n \<and> n < 12 \<and> bit sb n)"
    "bit (six sb 3) n = (n < 6 \<and> bit sb n)"
proof -
  have n: "n < 32" using assms by simp
  have p: "bit (push_bit k (six sb i)) n = (k \<le> n \<and> n - k < 6 \<and> bit sb (18 - 6 * i + (n - k)))" for k i
    using n by (subst bit_push) (auto simp: bit_six)
  show "bit (push_bit 18 (six sb 0)) n = (18 \<le> n \<and> bit sb n)"
    unfolding p using assms by auto
  show "bit (push_bit 12 (six sb 1)) n = (12 \<le> n \<and> n < 18 \<and> bit sb n)"
    unfolding p by auto
  show "bit (push_bit 6 (six sb 2)) n = (6 \<le> n \<and> n < 12 \<and> bit sb n)"
    unfolding p by auto
  show "bit (six sb 3) n = (n < 6 \<and> bit sb n)" using n by (simp add: bit_six)
qed

text \<open>The bytes of a whole and of the two short groups.\<close>

lemma three_bytes:
  fixes w :: u32
  assumes w: "\<And>n. n < 24 \<Longrightarrow> 8 * (3 - k) \<le> n \<Longrightarrow> bit w n = bit (group24 3 cp) n"
    and k: "k \<le> 3" "k \<le> length cp"
  shows "out_bytes w k = take k cp"
proof (rule nth_equalityI)
  show "length (out_bytes w k) = length (take k cp)" using k by (simp add: out_bytes_def)
next
  fix j assume "j < length (out_bytes w k)"
  then have j: "j < k" by (simp add: out_bytes_def)
  have b: "bit w (8 * (2 - j) + n) = bit (byte_word (cp ! j)) n" if "n < 8" for n
  proof -
    have "bit w (8 * (2 - j) + n) = bit (group24 3 cp) (8 * (2 - j) + n)"
      using that j k by (intro w) auto
    also have "\<dots> = bit (byte_word (cp ! j)) n"
    proof -
      have "cp \<noteq> []" using k j by auto
      then show ?thesis
      proof (cases rule: three_cases)
        case (1 a)
        with k j have "j = 0" by simp
        with 1 that show ?thesis by (simp add: group_words bit_push)
      next
        case (2 a b)
        with k j have "j = 0 \<or> j = 1" by auto
        with 2 that show ?thesis by (auto simp: group_words bit_push bit_or_iff bit_byte_word)
      next
        case (3 a b c rest)
        with k j have "j = 0 \<or> j = 1 \<or> j = 2" by auto
        with 3 that show ?thesis by (auto simp: group_words bit_push bit_or_iff bit_byte_word)
      qed
    qed
    finally show ?thesis .
  qed
  then have "char_of (unat (drop_bit (8 * (2 - j)) w AND 0xff)) = cp ! j"
    using j k by (intro out_byte) auto
  then show "out_bytes w k ! j = take k cp ! j" using j k by (simp add: out_bytes_def)
qed

lemma byte_bits_top: "n < 32 \<Longrightarrow> n < 16 \<Longrightarrow> \<not> bit (group24 3 [a]) n" 
  "n < 32 \<Longrightarrow> n < 8 \<Longrightarrow> \<not> bit (group24 3 [a, b]) n"
  by (auto simp: group_words bit_push bit_or_iff)

lemma b64_ref_group:
  assumes "cp \<noteq> []" and "min 3 (length cp) + 1 = k" and "3 - min 3 (length cp) = m" and "drop 3 cp = rest"
  shows "b64_ref cp = map (letter (group24 3 cp)) [0..<k] @ replicate m (CHR ''='') @ b64_ref rest"
  using assms by (subst b64_ref.simps) (simp only: if_False)

lemma b64_ref_1: "b64_ref [a] = map (letter (group24 3 [a])) [0..<2] @ ''==''"
  using b64_ref_group [of "[a]" 2 2 "[]"] by (simp add: b64_ref.simps [of "[]"] numeral_2_eq_2)

lemma b64_ref_2: "b64_ref [a, b] = map (letter (group24 3 [a, b])) [0..<3] @ ''=''"
  using b64_ref_group [of "[a, b]" 3 1 "[]"] by (simp add: b64_ref.simps [of "[]"])

lemma b64_ref_3:
  "b64_ref (a # b # c # rest) = map (letter (group24 3 (a # b # c # rest))) [0..<4] @ b64_ref rest"
  using b64_ref_group [of "a # b # c # rest" 4 0 rest] by simp

lemma dec64_unfold:
  assumes "cp \<noteq> []" and "hd cp \<noteq> CHR ''=''" and "take4 4 0 0 cp = Some (Suc i, w, rest)"
    and "length op + i < outlen"
  shows "dec64 outlen op cp = dec64 outlen (op @ out_bytes w i) rest"
  using assms by (cases cp) auto

lemma dec64_b64_ref:
  "length op + length cp < outlen \<Longrightarrow> dec64 outlen op (b64_ref cp) = Inr (0, op @ cp)"
proof (induction cp arbitrary: op rule: b64_ref.induct)
  case (1 cp)
  show ?case
  proof (cases "cp = []")
    case True
    then show ?thesis by (simp add: b64_ref.simps)
  next
    case False
    let ?sb = "group24 3 cp"
    have hd: "map (letter ?sb) [0..<Suc k] @ r \<noteq> []" "hd (map (letter ?sb) [0..<Suc k] @ r) \<noteq> CHR ''=''" for k r
      by (simp_all add: upt_conv_Cons letter_map64 del: upt_Suc)
    have s4: "take4 4 0 0 (map (letter ?sb) [0..<Suc 3] @ r)
        = Some (Suc 3, push_bit 18 (six ?sb 0) OR push_bit 12 (six ?sb 1) OR push_bit 6 (six ?sb 2) OR six ?sb 3, r)" for r
      using take4_three [of ?sb r] by simp
    have s3: "take4 4 0 0 (map (letter ?sb) [0..<Suc 2] @ ''='')
        = Some (Suc 2, push_bit 18 (six ?sb 0) OR push_bit 12 (six ?sb 1) OR push_bit 6 (six ?sb 2), ''='')"
      using take4_two [of ?sb] by simp
    have s2: "take4 4 0 0 (map (letter ?sb) [0..<Suc 1] @ ''=='')
        = Some (Suc 1, push_bit 18 (six ?sb 0) OR push_bit 12 (six ?sb 1), ''=='')"
      using take4_one [of ?sb] by (simp add: numeral_2_eq_2)
    from False show ?thesis
    proof (cases rule: three_cases)
      case (1 a)
      have "dec64 outlen op (map (letter ?sb) [0..<Suc 1] @ ''=='')
          = dec64 outlen (op @ out_bytes (push_bit 18 (six ?sb 0) OR push_bit 12 (six ?sb 1)) 1) ''==''"
        using "1.prems" 1 by (intro dec64_unfold [OF hd s2]) simp
      moreover have "out_bytes (push_bit 18 (six ?sb 0) OR push_bit 12 (six ?sb 1)) 1 = take 1 cp"
        using 1 by (intro three_bytes) (auto simp: bit_or_iff sixes simp del: One_nat_def)
      ultimately show ?thesis using 1 by (simp add: b64_ref_1 numeral_2_eq_2)
    next
      case (2 a b)
      have "dec64 outlen op (map (letter ?sb) [0..<Suc 2] @ ''='')
          = dec64 outlen (op @ out_bytes (push_bit 18 (six ?sb 0) OR push_bit 12 (six ?sb 1) OR push_bit 6 (six ?sb 2)) 2) ''=''"
        using "1.prems" 2 by (intro dec64_unfold [OF hd s3]) simp
      moreover have "out_bytes (push_bit 18 (six ?sb 0) OR push_bit 12 (six ?sb 1) OR push_bit 6 (six ?sb 2)) 2 = take 2 cp"
        using 2 by (intro three_bytes) (auto simp: bit_or_iff sixes simp del: One_nat_def)
      ultimately show ?thesis using 2 by (simp add: b64_ref_2 eval_nat_numeral)
    next
      case (3 a b c rest)
      have "dec64 outlen op (map (letter ?sb) [0..<Suc 3] @ b64_ref rest)
          = dec64 outlen (op @ out_bytes (push_bit 18 (six ?sb 0) OR push_bit 12 (six ?sb 1) OR push_bit 6 (six ?sb 2) OR six ?sb 3) 3) (b64_ref rest)"
        using "1.prems" 3 by (intro dec64_unfold [OF hd s4]) simp
      moreover have "out_bytes (push_bit 18 (six ?sb 0) OR push_bit 12 (six ?sb 1) OR push_bit 6 (six ?sb 2) OR six ?sb 3) 3 = take 3 cp"
        using 3 by (intro three_bytes) (auto simp: bit_or_iff sixes simp del: One_nat_def)
      moreover have "dec64 outlen (op @ take 3 cp) (b64_ref rest) = Inr (0, (op @ take 3 cp) @ rest)"
        using "1.IH" [OF False, of "op @ take 3 cp"] "1.prems" 3 by simp
      ultimately show ?thesis using 3 by (simp add: b64_ref_3 del: upt_Suc)
    qed
  qed
qed

text \<open>C34. What \<open>websEncode64\<close> writes, \<open>websDecode64\<close> reads back: for every C string \<open>s\<close>, encoding
  into a buffer with room for the letters and their NUL gives a string that decodes, into a buffer
  larger than \<open>s\<close>, to exactly \<open>s\<close> with result 0.  In a buffer without that room the encoder writes
  past the end: its check bounds the letters, not the padding and the closing NUL.\<close>

theorem base64_round_trip:
  assumes "is_cstr s" and "length s < outlen"
  shows "(if 4 * ((length s + 2) div 3) < enclen
          then \<exists>e. websEncode64 s enclen = Inr e \<and> length e = 4 * ((length s + 2) div 3)
            \<and> websDecode64 e outlen = Inr (0, s)
          else websEncode64 s enclen = Inl OutOfBounds)"
  using assms by (simp add: websEncode64_eq length_b64_ref websDecode64_def dec64_b64_ref)

theorem base64_round_trip_witness:
  "(if 4 * ((length ''admin'' + 2) div 3) < (9::nat)
    then \<exists>e. websEncode64 ''admin'' 9 = Inr e \<and> length e = 4 * ((length ''admin'' + 2) div 3)
      \<and> websDecode64 e 254 = Inr (0, ''admin'')
    else websEncode64 ''admin'' 9 = Inl OutOfBounds)"
  by (rule base64_round_trip) simp_all

end
