(* ===== verification/Uemf.thy ===== *)
theory Uemf
  imports Prelude
begin

text \<open>
  The text helpers of \<open>user/goahead/src_tongyong/uemf.c\<close>: \<open>strlower\<close>, \<open>strupper\<close> and \<open>stritoa\<close>, and
  the C library functions on strings the web server uses beside them (\<open>atoi\<close>, \<open>strncpy\<close>,
  \<open>strtok\<close>, \<open>strcspn\<close>, \<open>strspn\<close>, \<open>strrchr\<close>), with lemmas on them.
\<close>

section \<open>Case conversion\<close>

definition gtolower :: "byte \<Rightarrow> byte" where
  "gtolower c = (if 65 \<le> uchar c \<and> uchar c \<le> 90 then char_of (uchar c + 32) else c)"

definition gtoupper :: "byte \<Rightarrow> byte" where
  "gtoupper c = (if 97 \<le> uchar c \<and> uchar c \<le> 122 then char_of (uchar c - 32) else c)"

definition strlower :: "string \<Rightarrow> string" where "strlower s = map gtolower s"
definition strupper :: "string \<Rightarrow> string" where "strupper s = map gtoupper s"

lemma uchar_gtolower: "uchar (gtolower c) = (if 65 \<le> uchar c \<and> uchar c \<le> 90 then uchar c + 32 else uchar c)"
  by (auto simp: gtolower_def uchar_def)

lemma uchar_gtoupper: "uchar (gtoupper c) = (if 97 \<le> uchar c \<and> uchar c \<le> 122 then uchar c - 32 else uchar c)"
  by (auto simp: gtoupper_def uchar_def)

lemma gtolower_idem: "gtolower (gtolower c) = gtolower c"
  by (subst uchar_inject [symmetric]) (simp add: uchar_gtolower)

lemma gtolower_gtoupper: "gtolower (gtoupper c) = gtolower c"
  by (subst uchar_inject [symmetric]) (auto simp: uchar_gtolower uchar_gtoupper)

lemma strlower_idem [simp]: "strlower (strlower s) = strlower s"
  by (simp add: strlower_def gtolower_idem)

lemma strlower_strupper [simp]: "strlower (strupper s) = strlower s"
  by (simp add: strlower_def strupper_def gtolower_gtoupper)

section \<open>Numbers\<close>

text \<open>The digits pushed on \<open>buf\<close>, least significant first, while \<open>cp < lim\<close>.\<close>

fun digits_rev :: "nat \<Rightarrow> nat \<Rightarrow> string" where
  "digits_rev 0 n = []"
| "digits_rev (Suc room) n =
     (if 9 < n then char_of (n mod 10 + 48) # digits_rev room (n div 10) else [char_of (n + 48)])"

text \<open>\<open>n\<close> is a 32-bit \<open>int\<close>.  The smallest one is its own negation: it stays negative, so the loop over the digits
  does not run and the one character written is its low byte plus \<open>'0'\<close>, which is \<open>'0'\<close>.\<close>

definition stritoa :: "int \<Rightarrow> nat \<Rightarrow> string" where
  "stritoa n width =
     (if n = - (2 ^ 31) then CHR ''-'' # (if width \<le> 2 then [] else ''0'')
      else if n < 0 then CHR ''-'' # rev (digits_rev (width - 2) (nat (- n)))
      else rev (digits_rev (width - 1) (nat n)))"

text \<open>\<open>atoi\<close> of the C library on a string without leading space.\<close>

definition is_digit :: "byte \<Rightarrow> bool" where "is_digit c \<longleftrightarrow> 48 \<le> uchar c \<and> uchar c \<le> 57"

definition digits_val :: "string \<Rightarrow> nat" where
  "digits_val s = foldl (\<lambda>v c. 10 * v + (uchar c - 48)) 0 s"

definition gatoi :: "string \<Rightarrow> int" where
  "gatoi s =
     (case s of
        [] \<Rightarrow> 0
      | c # cs \<Rightarrow>
          if c = CHR ''-'' then - int (digits_val (takeWhile is_digit cs))
          else if c = CHR ''+'' then int (digits_val (takeWhile is_digit cs))
          else int (digits_val (takeWhile is_digit s)))"

lemma uchar_char_of: "n < 256 \<Longrightarrow> uchar (char_of n) = n"
  by (simp add: uchar_def)

lemma digits_rev_digits: "c \<in> set (digits_rev room n) \<Longrightarrow> is_digit c"
proof (induction room n rule: digits_rev.induct)
  case (2 room n)
  have "n mod 10 < 10" by simp
  with 2 show ?case by (auto simp: is_digit_def uchar_char_of split: if_splits)
qed simp

lemma digits_val_snoc: "digits_val (s @ [c]) = 10 * digits_val s + (uchar c - 48)"
  by (simp add: digits_val_def)

lemma digits_rev_val: "n < 10 ^ room \<Longrightarrow> digits_val (rev (digits_rev room n)) = n"
proof (induction room n rule: digits_rev.induct)
  case (1 n)
  then show ?case by (simp add: digits_val_def)
next
  case (2 room n)
  have u: "uchar (char_of (n mod 10 + 48)) = n mod 10 + 48"
    using mod_less_divisor [of 10 n] by (intro uchar_char_of) linarith
  from 2 show ?case
    by (cases "9 < n") (auto simp: digits_val_snoc u uchar_char_of less_mult_imp_div_less digits_val_def)
qed

lemma digits_rev_length: "length (digits_rev room n) \<le> room"
  by (induction room n rule: digits_rev.induct) auto

lemma digits_rev_nonempty: "0 < room \<Longrightarrow> digits_rev room n \<noteq> []"
  by (cases room) auto

text \<open>A number written with enough room is read back; the text fits the width with its NUL.\<close>

lemma stritoa_gatoi:
  assumes "nat \<bar>n\<bar> < 10 ^ (width - 2)" and "2 < width" and "n \<noteq> - (2 ^ 31)"
  shows "gatoi (stritoa n width) = n"
proof (cases "n < 0")
  case True
  let ?d = "rev (digits_rev (width - 2) (nat (- n)))"
  have "takeWhile is_digit ?d = ?d" by (simp add: takeWhile_eq_all_conv digits_rev_digits)
  moreover have "digits_val ?d = nat (- n)" using assms True by (intro digits_rev_val) simp
  ultimately have "gatoi (CHR ''-'' # ?d) = - int (nat (- n))" by (simp only: gatoi_def list.case refl if_True)
  then show ?thesis using True assms(3) by (simp add: stritoa_def)
next
  case False
  let ?d = "rev (digits_rev (width - 1) (nat n))"
  have d: "?d \<noteq> []" "\<forall>c \<in> set ?d. is_digit c"
    using assms digits_rev_nonempty [of "width - 1" "nat n"] by (auto simp: digits_rev_digits)
  then have "takeWhile is_digit ?d = ?d" by (simp add: takeWhile_eq_all_conv)
  moreover have "hd ?d \<noteq> CHR ''-''" "hd ?d \<noteq> CHR ''+''"
  proof -
    have "is_digit (hd ?d)" using d hd_in_set by blast
    then show "hd ?d \<noteq> CHR ''-''" "hd ?d \<noteq> CHR ''+''" by (auto simp: is_digit_def uchar_def)
  qed
  moreover have "digits_val ?d = nat n"
  proof (rule digits_rev_val)
    have "(10::nat) ^ (width - 2) \<le> 10 ^ (width - 1)" by (rule power_increasing) auto
    moreover have "nat n < 10 ^ (width - 2)" using assms False by simp
    ultimately show "nat n < 10 ^ (width - 1)" by (rule less_le_trans [rotated])
  qed
  ultimately have "gatoi ?d = int (nat n)" using d(1) by (cases ?d) (simp_all only: gatoi_def list.case list.sel if_False, blast)
  then show ?thesis using False by (simp add: stritoa_def)
qed

lemma stritoa_fits: "2 \<le> width \<Longrightarrow> length (stritoa n width) < width"
  using digits_rev_length [of "width - 2" "nat (- n)"] digits_rev_length [of "width - 1" "nat n"]
  by (auto simp: stritoa_def)

text \<open>The limit of file names.\<close>

definition FNAMESIZE :: nat where "FNAMESIZE = 254"

section \<open>C library functions on strings\<close>

text \<open>The \<open>n\<close> bytes \<open>strncpy\<close> writes: no NUL when the source has \<open>n\<close> characters or more.\<close>

definition strncpy_img :: "string \<Rightarrow> nat \<Rightarrow> byte list" where
  "strncpy_img s n = take n s @ replicate (n - length s) NUL"

lemma length_strncpy_img [simp]: "length (strncpy_img s n) = n"
  by (simp add: strncpy_img_def)

definition strcspn :: "string \<Rightarrow> string \<Rightarrow> nat" where
  "strcspn s reject = length (takeWhile (\<lambda>c. c \<notin> set reject) s)"

definition strspn :: "string \<Rightarrow> string \<Rightarrow> nat" where
  "strspn s accept = length (takeWhile (\<lambda>c. c \<in> set accept) s)"

fun strrchr :: "string \<Rightarrow> byte \<Rightarrow> nat option" where
  "strrchr [] c = None"
| "strrchr (x # xs) c =
     (case strrchr xs c of Some k \<Rightarrow> Some (Suc k) | None \<Rightarrow> if x = c then Some 0 else None)"

text \<open>The tokens repeated \<open>strtok\<close> calls give: the maximal runs of non-delimiters.\<close>

function strtok :: "string \<Rightarrow> string \<Rightarrow> string list" where
  "strtok delims s =
     (let t = dropWhile (\<lambda>c. c \<in> set delims) s in
      if t = [] then []
      else takeWhile (\<lambda>c. c \<notin> set delims) t # strtok delims (dropWhile (\<lambda>c. c \<notin> set delims) t))"
  by pat_completeness auto
termination
proof (relation "measure (\<lambda>(d, s). length s)")
  fix delims s t :: string
  assume t: "t = dropWhile (\<lambda>c. c \<in> set delims) s" and ne: "t \<noteq> []"
  then have "hd t \<notin> set delims" using hd_dropWhile by metis
  then have "length (dropWhile (\<lambda>c. c \<notin> set delims) t) < length t"
    using ne length_dropWhile_le [of "\<lambda>c. c \<notin> set delims" "tl t"] by (cases t) auto
  moreover have "length t \<le> length s" using t by (simp add: length_dropWhile_le)
  ultimately show "((delims, dropWhile (\<lambda>c. c \<notin> set delims) t), delims, s) \<in> measure (\<lambda>(d, s). length s)"
    by simp
qed simp

declare strtok.simps [simp del]

lemma strtok_tokens:
  assumes "t \<in> set (strtok delims s)"
  shows "t \<noteq> [] \<and> set t \<inter> set delims = {} \<and> set t \<subseteq> set s"
  using assms
proof (induction delims s rule: strtok.induct)
  case (1 delims s)
  let ?t = "dropWhile (\<lambda>c. c \<in> set delims) s"
  have ne: "?t \<noteq> []" using 1(2) by (auto simp: strtok.simps [of delims s] Let_def split: if_splits)
  then have hd: "hd ?t \<notin> set delims" using hd_dropWhile by metis
  have sub: "set ?t \<subseteq> set s" using set_dropWhileD by fastforce
  from 1(2) ne consider "t = takeWhile (\<lambda>c. c \<notin> set delims) ?t"
    | "t \<in> set (strtok delims (dropWhile (\<lambda>c. c \<notin> set delims) ?t))"
    using strtok.simps [of delims s] unfolding Let_def by (simp only: if_False) (metis set_ConsD)
  then show ?case
  proof cases
    case 1
    have "t \<noteq> []" using 1 ne hd by (cases ?t) auto
    moreover have "set t \<inter> set delims = {}" using 1 by (auto dest: set_takeWhileD)
    moreover have "set t \<subseteq> set s" using 1 sub by (auto dest!: set_takeWhileD)
    ultimately show ?thesis by blast
  next
    case 2
    from "1.IH" [OF refl ne 2] sub show ?thesis by (auto dest: set_dropWhileD)
  qed
qed

end
