(* ===== verification/Block.thy ===== *)
theory Block
  imports Prelude
begin

text \<open>
  A block of memory as the list of its bytes, with the accesses C code makes to it: reading a C string
  at an offset, searching a character from an offset, storing bytes.  An access outside the block is
  \<open>OutOfBounds\<close>.  Used for the block of \<open>websUrlParse\<close>, the header of a request and the ring queues.
\<close>

definition cstr_at :: "byte list \<Rightarrow> nat \<Rightarrow> string res" where
  "cstr_at buf i =
     (case strchr (drop i buf) NUL of
        Found k \<Rightarrow> Inr (take k (drop i buf))
      | _ \<Rightarrow> Inl OutOfBounds)"

definition find_from :: "byte list \<Rightarrow> nat \<Rightarrow> byte \<Rightarrow> nat option res" where
  "find_from buf i c =
     (case strchr (drop i buf) c of
        Found k \<Rightarrow> Inr (Some (i + k)) | NotFound \<Rightarrow> Inr None | Overrun \<Rightarrow> Inl OutOfBounds)"

definition put_at :: "byte list \<Rightarrow> nat \<Rightarrow> byte list \<Rightarrow> byte list res" where
  "put_at buf i bs = (if i + length bs \<le> length buf then Inr (put_slice buf i bs) else Inl OutOfBounds)"

lemma cstr_at_eq: "drop i buf = s @ NUL # rest \<Longrightarrow> is_cstr s \<Longrightarrow> cstr_at buf i = Inr s"
  by (simp add: cstr_at_def strchr_append is_cstr_def)

lemma find_from_hit:
  "drop i buf = a @ c # b \<Longrightarrow> is_cstr a \<Longrightarrow> c \<notin> set a \<Longrightarrow> find_from buf i c = Inr (Some (i + length a))"
  by (simp add: find_from_def strchr_append)

lemma find_from_miss:
  "drop i buf = a @ NUL # b \<Longrightarrow> is_cstr a \<Longrightarrow> c \<notin> set a \<Longrightarrow> c \<noteq> NUL \<Longrightarrow> find_from buf i c = Inr None"
  by (simp add: find_from_def strchr_terminated)

lemma put_at_mid: "i = length a \<Longrightarrow> put_at (a @ x # b) i [y] = Inr (a @ y # b)"
  by (simp add: put_at_def put_slice_def)

end
