(* ===== verification/Url_Parse.thy ===== *)
theory Url_Parse
  imports Url Uemf Block
begin

text \<open>
  \<open>websUrlParse\<close> and \<open>websUrlType\<close> of \<open>user/goahead/src_tongyong/url.c\<close>.  The allocated block
  holds the decoded URL, a copy of the host and a copy of the port; the parser cuts it with NULs and
  hands out pointers into it.  The model keeps that block: \<open>mem\<close> is the (uninitialised) content
  \<open>balloc\<close> gives, a pointer is an offset into the block or a string constant, and an access outside
  the block is \<open>OutOfBounds\<close>.  The lemmas show that for a URL without \<open>http://\<close> the result is the
  one of a short function on strings, \<open>url_fields\<close>.
\<close>

section \<open>Pointers into the block\<close>

datatype cptr = At nat | Lit string

fun deref :: "byte list \<Rightarrow> cptr \<Rightarrow> string res" where
  "deref buf (At i) = cstr_at buf i"
| "deref buf (Lit s) = Inr s"

fun ptr_add :: "cptr \<Rightarrow> nat \<Rightarrow> cptr" where
  "ptr_add (At i) k = At (i + k)"
| "ptr_add (Lit s) k = Lit (drop k s)"

definition MAX_PORT_LEN :: nat where "MAX_PORT_LEN = 10"
definition htmExt :: string where "htmExt = ''.htm''"

record url_parts =
  u_buf :: "byte list"
  u_host :: cptr
  u_path :: cptr
  u_port :: cptr
  u_query :: cptr
  u_proto :: cptr
  u_tag :: cptr
  u_ext :: cptr

section \<open>The parser\<close>

text \<open>\<open>for (cp = tok; *cp; cp++)\<close> of a full URL: the result is the block, the place after the last
  colon and \<open>tok\<close>.  A colon is overwritten, and the character after it is stepped over twice.\<close>

function host_loop :: "byte list \<Rightarrow> nat \<Rightarrow> cptr \<Rightarrow> nat \<Rightarrow> (byte list \<times> cptr \<times> nat) res" where
  "host_loop buf cp port tok =
     (if length buf \<le> cp then Inl OutOfBounds
      else if buf ! cp = NUL \<or> buf ! cp = CHR ''/'' then Inr (buf, port, tok)
      else if buf ! cp = CHR '':'' then host_loop (buf[cp := NUL]) (cp + 2) (At (cp + 1)) (cp + 1)
      else host_loop buf (cp + 1) port tok)"
  by pat_completeness auto
termination
  by (relation "measure (\<lambda>(buf, cp, port, tok). length buf - cp)") auto

declare host_loop.simps [simp del]

text \<open>The branch of a URL that starts with \<open>http://\<close>: block, host, path, port, proto and \<open>tok\<close>.\<close>

definition parse_full ::
  "byte list \<Rightarrow> nat \<Rightarrow> nat \<Rightarrow> nat \<Rightarrow> (byte list \<times> cptr \<times> cptr \<times> cptr \<times> cptr \<times> nat) res" where
  "parse_full buf ulen hostbuf portbuf =
     res_bind (put_at buf 4 [NUL]) (\<lambda>buf.
     res_bind (host_loop buf 7 (At portbuf) 7) (\<lambda>(buf, port, tok).
     res_bind (find_from buf tok (CHR ''/'')) (\<lambda>slash.
       case slash of
         None \<Rightarrow> Inr (buf, At 7, Lit ''/'', port, At 0, tok)
       | Some cp \<Rightarrow>
           res_bind (put_at buf cp [NUL]) (\<lambda>buf.
           res_bind (cstr_at buf 7) (\<lambda>host.
           res_bind (put_at buf hostbuf (strncpy_img host ulen)) (\<lambda>buf.
           res_bind (deref buf port) (\<lambda>ports.
           res_bind (put_at buf portbuf (strncpy_img ports MAX_PORT_LEN)) (\<lambda>buf.
           res_bind (put_at buf cp [CHR ''/'']) (\<lambda>buf.
             Inr (buf, At hostbuf, At cp, At portbuf, At 0, cp))))))))))"

text \<open>The query at \<open>?\<close>: block, query, path and \<open>tok\<close>; then the fragment at \<open>#\<close>.\<close>

definition parse_query :: "byte list \<Rightarrow> cptr \<Rightarrow> nat \<Rightarrow> (byte list \<times> cptr \<times> cptr \<times> nat) res" where
  "parse_query buf path tok =
     res_bind (find_from buf tok (CHR ''?'')) (\<lambda>q.
       case q of
         None \<Rightarrow> Inr (buf, Lit '''', path, tok)
       | Some cp \<Rightarrow> res_bind (put_at buf cp [NUL]) (\<lambda>buf. Inr (buf, At (cp + 1), At tok, cp + 1)))"

definition parse_fragment :: "byte list \<Rightarrow> cptr \<Rightarrow> cptr \<Rightarrow> nat \<Rightarrow> (byte list \<times> cptr) res" where
  "parse_fragment buf query path tok =
     res_bind (find_from buf tok (CHR ''#'')) (\<lambda>h.
       case h of
         None \<Rightarrow> Inr (buf, path)
       | Some cp \<Rightarrow>
           res_bind (put_at buf cp [NUL]) (\<lambda>buf.
           res_bind (deref buf query) (\<lambda>q. Inr (buf, if q = [] then At tok else path))))"

text \<open>The extension: the last dot of the path, when only slashes follow the first slash after it.
  The path is cut at that slash.\<close>

definition parse_ext :: "byte list \<Rightarrow> cptr \<Rightarrow> (byte list \<times> cptr) res" where
  "parse_ext buf path =
     res_bind (deref buf path) (\<lambda>p.
       case strrchr p (CHR ''.'') of
         None \<Rightarrow> Inr (buf, Lit htmExt)
       | Some d \<Rightarrow>
           (let cp = drop d p; garbage = [CHR ''/'', CHR 0x5C];
                len = strcspn cp garbage; garbageLength = strspn (drop len cp) garbage in
            if len + garbageLength = length cp
            then (case ptr_add path d of
                    At i \<Rightarrow> res_bind (put_at buf (i + len) [NUL]) (\<lambda>buf. Inr (buf, At i))
                  | Lit s \<Rightarrow> Inr (buf, Lit (take len s)))
            else Inr (buf, Lit htmExt)))"

definition block_len :: "nat \<Rightarrow> nat" where
  "block_len ulen = ulen * 2 + MAX_PORT_LEN + 3"

text \<open>\<open>mem\<close> is the block, \<open>None\<close> when \<open>balloc\<close> fails; \<open>listen_port\<close> is \<open>websGetPort()\<close>;
  \<open>want_ext\<close> says that the caller asked for the extension.\<close>

definition websUrlParse ::
  "byte list option \<Rightarrow> int \<Rightarrow> string \<Rightarrow> bool \<Rightarrow> (int \<times> url_parts option) res" where
  "websUrlParse mem listen_port url want_ext =
     (let ulen = length url; len = block_len ulen in
      case mem of
        None \<Rightarrow> Inr (-1, None)
      | Some buf \<Rightarrow>
         (let portbuf = len - MAX_PORT_LEN - 1; hostbuf = ulen + 1 in
          res_bind (put_at buf 0 (websDecodeUrl ulen url @ [NUL])) (\<lambda>buf.
          res_bind (put_at buf portbuf (stritoa listen_port MAX_PORT_LEN @ [NUL])) (\<lambda>buf.
          res_bind (if take 7 (takeWhile (\<lambda>c. c \<noteq> NUL) (websDecodeUrl ulen url)) = ''http://''
                    then parse_full buf ulen hostbuf portbuf
                    else Inr (buf, Lit ''localhost'', At 0, At portbuf, Lit ''http'', 0))
            (\<lambda>(buf, host, path, port, proto, tok).
          res_bind (parse_query buf path tok) (\<lambda>(buf, query, path, tok).
          res_bind (parse_fragment buf query path tok) (\<lambda>(buf, path).
          res_bind (if want_ext then parse_ext buf path else Inr (buf, Lit htmExt)) (\<lambda>(buf, ext).
            Inr (0, Some \<lparr>u_buf = buf, u_host = host, u_path = path, u_port = port, u_query = query,
                          u_proto = proto, u_tag = Lit '''', u_ext = ext\<rparr>)))))))))"

text \<open>What follows a cut stays where it was.\<close>

lemma drop_after_cut: "length a < n \<Longrightarrow> drop n (a @ y # b) = drop n (a @ x # b)"
  by (simp add: drop_Cons split: nat.split) 

text \<open>The extension of a path and the path it leaves.\<close>

definition cut_ext :: "string \<Rightarrow> string \<times> string" where
  "cut_ext p =
     (case strrchr p (CHR ''.'') of
        None \<Rightarrow> (p, htmExt)
      | Some d \<Rightarrow>
          (let name = takeWhile (\<lambda>c. c \<noteq> CHR ''/'' \<and> c \<noteq> CHR 0x5C) (drop d p);
               slashes = drop (d + length name) p in
           if \<forall>c \<in> set slashes. c = CHR ''/'' \<or> c = CHR 0x5C then (take d p @ name, name) else (p, htmExt)))"

lemma strrchr_less: "strrchr p c = Some d \<Longrightarrow> d < length p"
  by (induction p c arbitrary: d rule: strrchr.induct) (auto split: option.splits if_splits)

lemma strspn_all: "strspn s acc = length s \<longleftrightarrow> (\<forall>c \<in> set s. c \<in> set acc)"
  by (induction s) (auto simp: strspn_def)

lemma parse_ext_eq:
  assumes buf: "buf = p @ NUL # rest" and p: "is_cstr p" and htm: "cut_ext p = (path, ext)"
  shows "\<exists>buf' e. parse_ext buf (At 0) = Inr (buf', e) \<and> deref buf' (At 0) = Inr path \<and> deref buf' e = Inr ext
    \<and> (\<forall>n > length p. drop n buf' = drop n buf)"
proof (cases "strrchr p (CHR ''.'')")
  case None
  have "deref buf (At 0) = Inr p" using buf p by (simp add: cstr_at_eq)
  then show ?thesis using None htm by (simp add: parse_ext_def cut_ext_def)
next
  case (Some d)
  define cp where "cp = drop d p"
  define name where "name = takeWhile (\<lambda>c. c \<noteq> CHR ''/'' \<and> c \<noteq> CHR 0x5C) cp"
  define slashes where "slashes = drop (length name) cp"
  define Q where "Q \<longleftrightarrow> (\<forall>c \<in> set slashes. c = CHR ''/'' \<or> c = CHR 0x5C)"
  have d: "d < length p" using Some by (rule strrchr_less)
  have cp: "cp = name @ slashes"
    unfolding slashes_def name_def by (simp only: dropWhile_eq_drop [symmetric] takeWhile_dropWhile_id)
  have pd: "p = take d p @ name @ slashes" using append_take_drop_id [of d p] by (simp only: cp [symmetric] cp_def)
  have sl: "drop (d + length name) p = slashes" by (simp add: slashes_def cp_def add.commute)
  have len: "strcspn cp [CHR ''/'', CHR 0x5C] = length name" by (simp add: strcspn_def name_def)
  have deref: "deref buf (At 0) = Inr p" using buf p by (simp add: cstr_at_eq)
  have ok: "length name + strspn slashes [CHR ''/'', CHR 0x5C] = length cp
      \<longleftrightarrow> (Q)"
    using strspn_all [of slashes "[CHR ''/'', CHR 0x5C]"] cp by (simp add: Q_def)
  have run: "parse_ext buf (At 0)
      = (if Q
         then res_bind (put_at buf (d + length name) [NUL]) (\<lambda>buf. Inr (buf, At d)) else Inr (buf, Lit htmExt))"
    unfolding parse_ext_def using deref Some ok len
    by (simp add: cp_def [symmetric] slashes_def [symmetric] Let_def)
  have cut: "cut_ext p = (if Q
      then (take d p @ name, name) else (p, htmExt))"
    using Some by (simp add: cut_ext_def Let_def cp_def [symmetric] name_def [symmetric] sl Q_def)
  show ?thesis
  proof (cases "Q")
    case False
    then show ?thesis using run cut htm deref by simp
  next
    case True
    have "\<exists>x b. slashes @ NUL # rest = x # b" by (cases slashes) auto
    then obtain x b where xb: "slashes @ NUL # rest = x # b" by blast
    have bx: "buf = (take d p @ name) @ x # b"
      using buf xb by (subst (asm) pd) simp
    let ?buf' = "(take d p @ name) @ NUL # b"
    have ln: "d + length name = length (take d p @ name)" using d by simp
    have "parse_ext buf (At 0) = Inr (?buf', At d)"
      unfolding run using True by (simp only: bx put_at_mid [OF ln] if_True res_bind.simps)
    moreover have "is_cstr (take d p @ name)" using p by (subst (asm) pd) simp
    then have "deref ?buf' (At 0) = Inr (take d p @ name)" "deref ?buf' (At d) = Inr name"
      using d by (auto intro!: cstr_at_eq)
    moreover have "drop n ?buf' = drop n buf" if "length p < n" for n
    proof -
      have "length (take d p @ name) \<le> length p" by (subst (2) pd) simp
      with that show ?thesis unfolding bx by (intro drop_after_cut) simp
    qed
    ultimately show ?thesis using True cut htm by (intro exI [of _ ?buf'] exI [of _ "At d"]) auto
  qed
qed

section \<open>The fields of a URL\<close>

text \<open>Path, query and extension of a decoded URL without \<open>http://\<close>.\<close>

definition url_fields :: "string \<Rightarrow> string \<times> string \<times> string" where
  "url_fields d =
     (if CHR ''?'' \<in> set d then
       (let p = takeWhile (\<lambda>c. c \<noteq> CHR ''?'') d; rest = drop (length p + 1) d;
            q = takeWhile (\<lambda>c. c \<noteq> CHR ''#'') rest in
        if CHR ''#'' \<in> set rest \<and> q = [] then ([], [], htmExt)
        else (fst (cut_ext p), q, snd (cut_ext p)))
      else (let p = takeWhile (\<lambda>c. c \<noteq> CHR ''#'') d in (fst (cut_ext p), [], snd (cut_ext p))))"

lemma split_at:
  assumes "c \<in> set d"
  shows "d = takeWhile (\<lambda>x. x \<noteq> c) d @ c # drop (length (takeWhile (\<lambda>x. x \<noteq> c) d) + 1) d"
  using assms by (induction d) auto

lemma takeWhile_none: "c \<notin> set d \<Longrightarrow> takeWhile (\<lambda>x. x \<noteq> c) d = d"
  by (simp add: takeWhile_eq_all_conv) blast

lemma not_in_takeWhile: "c \<notin> set (takeWhile (\<lambda>x. x \<noteq> c) d)"
  by (auto dest: set_takeWhileD)

lemma is_cstr_takeWhile [simp]: "is_cstr s \<Longrightarrow> is_cstr (takeWhile P s)"
  by (auto simp: is_cstr_def dest: set_takeWhileD)

text \<open>Query and fragment without a \<open>?\<close>.\<close>

lemma parse_no_query:
  assumes buf: "buf = d @ NUL # rest" and d: "is_cstr d" "CHR ''?'' \<notin> set d"
    and p: "p = takeWhile (\<lambda>c. c \<noteq> CHR ''#'') d"
  shows "parse_query buf (At 0) 0 = Inr (buf, Lit '''', At 0, 0)"
    and "\<exists>r. parse_fragment buf (Lit '''') (At 0) 0 = Inr (p @ NUL # r, At 0)
           \<and> (\<forall>n > length d. drop n (p @ NUL # r) = drop n buf)"
proof -
  have "find_from buf 0 (CHR ''?'') = Inr None" using buf d by (intro find_from_miss) auto
  then show "parse_query buf (At 0) 0 = Inr (buf, Lit '''', At 0, 0)" by (simp add: parse_query_def)
  show "\<exists>r. parse_fragment buf (Lit '''') (At 0) 0 = Inr (p @ NUL # r, At 0)
           \<and> (\<forall>n > length d. drop n (p @ NUL # r) = drop n buf)"
  proof (cases "CHR ''#'' \<in> set d")
    case False
    then have "find_from buf 0 (CHR ''#'') = Inr None" using buf d by (intro find_from_miss) auto
    then show ?thesis using buf p False by (simp add: parse_fragment_def takeWhile_none)
  next
    case True
    define r where "r = drop (length p + 1) d @ NUL # rest"
    have b: "buf = p @ CHR ''#'' # r" using split_at [OF True] buf by (simp add: p r_def)
    have cp: "is_cstr p" "CHR ''#'' \<notin> set p" using d p not_in_takeWhile by simp_all
    have "find_from buf 0 (CHR ''#'') = Inr (Some (length p))"
      using find_from_hit [of 0 buf p "CHR ''#''" r] b cp by simp
    moreover have "put_at buf (length p) [NUL] = Inr (p @ NUL # r)"
      unfolding b by (rule put_at_mid) simp
    ultimately have "parse_fragment buf (Lit '''') (At 0) 0 = Inr (p @ NUL # r, At 0)"
      by (simp add: parse_fragment_def)
    moreover have "length p \<le> length d" unfolding p by (rule length_takeWhile_le)
    then have "drop n (p @ NUL # r) = drop n buf" if "length d < n" for n
      using that unfolding b by (intro drop_after_cut) simp
    ultimately show ?thesis by blast
  qed
qed

text \<open>With a \<open>?\<close>: the path is cut there, the query at the fragment; an empty query with a fragment
  moves the path onto it.\<close>

lemma parse_with_query:
  assumes buf: "buf = d @ NUL # rest" and d: "is_cstr d" "CHR ''?'' \<in> set d"
    and p: "p = takeWhile (\<lambda>c. c \<noteq> CHR ''?'') d" and qr: "qr = drop (length p + 1) d"
    and q: "q = takeWhile (\<lambda>c. c \<noteq> CHR ''#'') qr"
  shows "\<exists>b1. parse_query buf (At 0) 0 = Inr (b1, At (length p + 1), At 0, length p + 1) \<and>
    (\<exists>r. parse_fragment b1 (At (length p + 1)) (At 0) (length p + 1)
         = Inr (p @ NUL # q @ NUL # r, if CHR ''#'' \<in> set qr \<and> q = [] then At (length p + 1) else At 0)
       \<and> (\<forall>n > length d. drop n (p @ NUL # q @ NUL # r) = drop n buf))"
proof -
  have ds: "d = p @ CHR ''?'' # qr" using split_at [OF d(2)] by (simp add: p qr)
  have cp: "is_cstr p" "CHR ''?'' \<notin> set p" "is_cstr qr" "is_cstr q"
    unfolding q qr unfolding p using d by (simp_all add: not_in_takeWhile)
  have b0: "buf = p @ CHR ''?'' # qr @ NUL # rest" using buf ds by simp
  let ?b1 = "p @ NUL # qr @ NUL # rest"
  have "find_from buf 0 (CHR ''?'') = Inr (Some (length p))"
    using find_from_hit [of 0 buf p "CHR ''?''"] b0 cp by simp
  moreover have "put_at buf (length p) [NUL] = Inr ?b1" unfolding b0 by (rule put_at_mid) simp
  ultimately have pq: "parse_query buf (At 0) 0 = Inr (?b1, At (length p + 1), At 0, length p + 1)"
    by (simp add: parse_query_def)
  have dr: "drop (length p + 1) ?b1 = qr @ NUL # rest" by simp
  have s1: "drop n ?b1 = drop n buf" if "length p < n" for n
    using that unfolding b0 by (rule drop_after_cut)
  have lp: "length p < length d" unfolding ds by simp
  show ?thesis
  proof (cases "CHR ''#'' \<in> set qr")
    case False
    then have "find_from ?b1 (length p + 1) (CHR ''#'') = Inr None"
      using cp by (intro find_from_miss [OF dr]) auto
    moreover have "q = qr" using False by (simp add: q takeWhile_none)
    ultimately show ?thesis using pq False s1 lp by (auto simp: parse_fragment_def)
  next
    case True
    define r where "r = drop (length q + 1) qr @ NUL # rest"
    have qs: "qr @ NUL # rest = q @ CHR ''#'' # r" using split_at [OF True] by (simp add: q r_def)
    have hq: "CHR ''#'' \<notin> set q" unfolding q by (rule not_in_takeWhile)
    let ?b2 = "p @ NUL # q @ NUL # r"
    have "find_from ?b1 (length p + 1) (CHR ''#'') = Inr (Some (length p + 1 + length q))"
      by (rule find_from_hit [OF _ cp(4) hq, of _ _ r]) (simp add: qs)
    moreover have "put_at ?b1 (length p + 1 + length q) [NUL] = Inr ?b2"
    proof -
      have "?b1 = (p @ NUL # q) @ CHR ''#'' # r" by (simp add: qs)
      then show ?thesis using put_at_mid [of "length p + 1 + length q" "p @ NUL # q" "CHR ''#''" r NUL]
        by simp
    qed
    moreover have "cstr_at ?b2 (length p + 1) = Inr q" using cp by (intro cstr_at_eq) auto
    ultimately have "parse_fragment ?b1 (At (length p + 1)) (At 0) (length p + 1)
        = Inr (?b2, if q = [] then At (length p + 1) else At 0)"
      by (simp add: parse_fragment_def)
    moreover have "drop n ?b2 = drop n buf" if n: "length d < n" for n
    proof -
      have "length q < length qr" using True split_at [OF True] q
        by (metis length_append length_Cons less_add_Suc1 add_Suc_right)
      then have "length (p @ NUL # q) < n" using n unfolding ds by simp
      then have "drop n ((p @ NUL # q) @ NUL # r) = drop n ((p @ NUL # q) @ CHR ''#'' # r)"
        by (rule drop_after_cut)
      then show ?thesis using s1 n lp by (simp add: qs)
    qed
    ultimately show ?thesis using pq True by auto
  qed
qed

subsection \<open>The whole parser\<close>

lemma is_cstr_stritoa: "is_cstr (stritoa n width)"
  by (auto simp: is_cstr_def stritoa_def is_digit_def uchar_def dest!: digits_rev_digits)

lemma split_NUL: "\<exists>rest. t @ [NUL] = takeWhile (\<lambda>c. c \<noteq> NUL) t @ NUL # rest"
  by (induction t) auto

lemma parse_start:
  assumes mem: "length buf = block_len (length url)"
    and d: "d = takeWhile (\<lambda>c. c \<noteq> NUL) (websDecodeUrl (length url) url)"
  shows "\<exists>b1 rest. put_at buf 0 (websDecodeUrl (length url) url @ [NUL]) = Inr b1
    \<and> put_at b1 (block_len (length url) - MAX_PORT_LEN - 1) (stritoa lp MAX_PORT_LEN @ [NUL]) = Inr (d @ NUL # rest)
    \<and> (\<exists>r. drop (block_len (length url) - MAX_PORT_LEN - 1) (d @ NUL # rest) = stritoa lp MAX_PORT_LEN @ NUL # r)"
proof -
  let ?u = "length url" and ?t = "websDecodeUrl (length url) url" and ?p = "block_len (length url) - MAX_PORT_LEN - 1"
  have t: "length ?t \<le> ?u" using decode_length [of ?u url] by simp
  have p: "?p = 2 * ?u + 2" by (simp add: block_len_def)
  let ?b1 = "?t @ NUL # drop (length ?t + 1) buf"
  have "put_at buf 0 (?t @ [NUL]) = Inr ?b1"
    using t mem by (simp add: put_at_def put_slice_def block_len_def)
  moreover obtain rest where rest: "?t @ [NUL] = d @ NUL # rest" using split_NUL [of ?t] d by blast
  let ?q = "stritoa lp MAX_PORT_LEN @ [NUL]"
  have q: "length ?q \<le> MAX_PORT_LEN" using stritoa_fits [of MAX_PORT_LEN lp] by (simp add: MAX_PORT_LEN_def)
  have l1: "length ?b1 = length buf" using t mem by (simp add: block_len_def)
  let ?b2 = "take ?p ?b1 @ ?q @ drop (?p + length ?q) ?b1"
  have "put_at ?b1 ?p ?q = Inr ?b2"
    using q l1 mem by (simp add: put_at_def put_slice_def block_len_def)
  moreover have "take ?p ?b1 = d @ NUL # rest @ take (?p - length (?t @ [NUL])) (drop (length ?t + 1) buf)"
  proof -
    have "?b1 = (?t @ [NUL]) @ drop (length ?t + 1) buf" by simp
    then have "take ?p ?b1 = (?t @ [NUL]) @ take (?p - length (?t @ [NUL])) (drop (length ?t + 1) buf)"
      using t p by (simp only: take_append) simp
    then show ?thesis using rest by simp
  qed
  then have "\<exists>r2. ?b2 = d @ NUL # r2" by simp
  moreover have "drop ?p ?b2 = stritoa lp MAX_PORT_LEN @ NUL # drop (?p + length ?q) ?b1"
  proof -
    have "length (take ?p ?b1) = ?p" using l1 mem by (simp add: block_len_def)
    then have "drop ?p ?b2 = ?q @ drop (?p + length ?q) ?b1" by (metis append_eq_conv_conj)
    then show ?thesis by simp
  qed
  ultimately show ?thesis by metis
qed

definition parsed_as :: "url_parts \<Rightarrow> string \<Rightarrow> string \<Rightarrow> string \<Rightarrow> string \<Rightarrow> string \<Rightarrow> string \<Rightarrow> bool" where
  "parsed_as u host path port query proto ext \<longleftrightarrow>
     deref (u_buf u) (u_host u) = Inr host \<and> deref (u_buf u) (u_path u) = Inr path
     \<and> deref (u_buf u) (u_port u) = Inr port \<and> deref (u_buf u) (u_query u) = Inr query
     \<and> deref (u_buf u) (u_proto u) = Inr proto \<and> deref (u_buf u) (u_ext u) = Inr ext"

text \<open>Query, fragment and extension together.\<close>

lemma after_trans:
  assumes "\<forall>n > k. drop n a = drop n b" and "\<forall>n > m. drop n b = drop n c" and "k \<le> m"
  shows "\<forall>n > m. drop n a = drop n c"
proof (intro allI impI)
  fix n assume n: "m < n"
  then have "drop n a = drop n b" using assms(1,3) by (meson le_less_trans)
  also have "\<dots> = drop n c" using assms(2) n by blast
  finally show "drop n a = drop n c" .
qed

lemma parse_tail:
  assumes buf: "buf = d @ NUL # rest" and d: "is_cstr d" and f: "url_fields d = (p, q, e)"
  shows "\<exists>b2 b3 b4 qp pp tok ep.
     parse_query buf (At 0) 0 = Inr (b2, qp, At 0, tok) \<and> parse_fragment b2 qp (At 0) tok = Inr (b3, pp)
     \<and> parse_ext b3 pp = Inr (b4, ep) \<and> deref b4 pp = Inr p \<and> deref b4 qp = Inr q \<and> deref b4 ep = Inr e
     \<and> (\<forall>n > length d. drop n b4 = drop n buf)"
proof (cases "CHR ''?'' \<in> set d")
  case False
  define p0 where "p0 = takeWhile (\<lambda>c. c \<noteq> CHR ''#'') d"
  have f0: "p = fst (cut_ext p0)" "q = []" "e = snd (cut_ext p0)"
    using f False by (simp_all add: url_fields_def p0_def [symmetric] Let_def)
  note pq = parse_no_query [OF buf d False p0_def]
  then obtain r where pf: "parse_fragment buf (Lit '''') (At 0) 0 = Inr (p0 @ NUL # r, At 0)"
    and r: "\<forall>n > length d. drop n (p0 @ NUL # r) = drop n buf" by blast
  have lp: "length p0 \<le> length d" unfolding p0_def by (rule length_takeWhile_le)
  have cp: "is_cstr p0" using d by (simp add: p0_def)
  obtain b4 ep where pe: "parse_ext (p0 @ NUL # r) (At 0) = Inr (b4, ep)" "deref b4 (At 0) = Inr p" "deref b4 ep = Inr e"
    and b4: "\<forall>n > length p0. drop n b4 = drop n (p0 @ NUL # r)"
    using parse_ext_eq [OF refl cp, of p e r] f0 by auto
  have "deref b4 (Lit []) = Inr q" using f0(2) by simp
  moreover have "\<forall>n > length d. drop n b4 = drop n buf" by (rule after_trans [OF b4 r lp])
  ultimately show ?thesis using pq(1) pf pe by - (intro exI conjI, assumption+)
next
  case True
  define p0 where "p0 = takeWhile (\<lambda>c. c \<noteq> CHR ''?'') d"
  define qr where "qr = drop (length p0 + 1) d"
  define q0 where "q0 = takeWhile (\<lambda>c. c \<noteq> CHR ''#'') qr"
  obtain b1 r where pq: "parse_query buf (At 0) 0 = Inr (b1, At (length p0 + 1), At 0, length p0 + 1)"
    and pf: "parse_fragment b1 (At (length p0 + 1)) (At 0) (length p0 + 1)
      = Inr (p0 @ NUL # q0 @ NUL # r, if CHR ''#'' \<in> set qr \<and> q0 = [] then At (length p0 + 1) else At 0)"
    and r: "\<forall>n > length d. drop n (p0 @ NUL # q0 @ NUL # r) = drop n buf"
    using parse_with_query [OF buf d True p0_def qr_def q0_def] by blast
  let ?b3 = "p0 @ NUL # q0 @ NUL # r"
  have lp: "length p0 \<le> length d" unfolding p0_def by (rule length_takeWhile_le)
  have cp: "is_cstr p0" "is_cstr q0" using d by (simp_all add: p0_def q0_def qr_def)
  have qd: "cstr_at b (length p0 + 1) = Inr q0" if "drop (length p0 + 1) b = drop (length p0 + 1) ?b3" for b
    using that cp by (intro cstr_at_eq) auto
  have fq: "(if CHR ''#'' \<in> set qr \<and> q0 = [] then ([], [], htmExt)
      else (fst (cut_ext p0), q0, snd (cut_ext p0))) = (p, q, e)"
    using f by (simp only: url_fields_def Let_def p0_def [symmetric] qr_def [symmetric] q0_def [symmetric] True if_True)
  show ?thesis
  proof (cases "CHR ''#'' \<in> set qr \<and> q0 = []")
    case empty: True
    have f0: "p = []" "q = []" "e = htmExt"
      using fq empty by simp_all
    have "deref ?b3 (At (length p0 + 1)) = Inr []" using qd [of ?b3] empty by simp
    then have "parse_ext ?b3 (At (length p0 + 1)) = Inr (?b3, Lit htmExt)" by (simp add: parse_ext_def)
    with pq pf [unfolded if_P [OF empty]] r \<open>deref ?b3 (At (length p0 + 1)) = Inr []\<close> show ?thesis
      unfolding f0 by - (intro exI conjI, assumption+, (rule refl | simp))
  next
    case False
    have f0: "p = fst (cut_ext p0)" "q = q0" "e = snd (cut_ext p0)"
      using fq unfolding if_not_P [OF False] by auto
    obtain b4 ep where pe: "parse_ext ?b3 (At 0) = Inr (b4, ep)" "deref b4 (At 0) = Inr p" "deref b4 ep = Inr e"
      and b4: "\<forall>n > length p0. drop n b4 = drop n ?b3"
      using parse_ext_eq [OF refl cp(1), of p e "q0 @ NUL # r"] f0 by auto
    have "deref b4 (At (length p0 + 1)) = Inr q" using qd [of b4] b4 f0(2) by simp
    moreover have "\<forall>n > length d. drop n b4 = drop n buf" by (rule after_trans [OF b4 r lp])
    ultimately show ?thesis using pq pf [unfolded if_not_P [OF False]] pe
      by - (intro exI conjI, assumption+)
  qed
qed

lemma websUrlParse_fields:
  assumes mem: "length mem = block_len (length url)"
    and d: "d = takeWhile (\<lambda>c. c \<noteq> NUL) (websDecodeUrl (length url) url)"
    and loc: "take 7 d \<noteq> ''http://''"
  shows "\<exists>u. websUrlParse (Some mem) lp url True = Inr (0, Some u)
    \<and> parsed_as u ''localhost'' (fst (url_fields d)) (stritoa lp MAX_PORT_LEN) (fst (snd (url_fields d))) ''http''
        (snd (snd (url_fields d)))"
proof -
  let ?portbuf = "block_len (length url) - MAX_PORT_LEN - 1"
  obtain b1 rest r where st: "put_at mem 0 (websDecodeUrl (length url) url @ [NUL]) = Inr b1"
    "put_at b1 ?portbuf (stritoa lp MAX_PORT_LEN @ [NUL]) = Inr (d @ NUL # rest)"
    and port: "drop ?portbuf (d @ NUL # rest) = stritoa lp MAX_PORT_LEN @ NUL # r"
    using parse_start [OF mem d, of lp] by blast
  have cd: "is_cstr d" unfolding d is_cstr_def by (rule not_in_takeWhile)
  have "length d \<le> length url"
    unfolding d using length_takeWhile_le [of "\<lambda>c. c \<noteq> NUL"] decode_length [of "length url" url] order_trans by blast
  then have ld: "length d < ?portbuf" by (simp add: block_len_def)
  obtain p q e where f: "url_fields d = (p, q, e)" by (metis prod.exhaust)
  obtain b2 b3 b4 qp pp tok ep where t:
    "parse_query (d @ NUL # rest) (At 0) 0 = Inr (b2, qp, At 0, tok)" "parse_fragment b2 qp (At 0) tok = Inr (b3, pp)"
    "parse_ext b3 pp = Inr (b4, ep)" "deref b4 pp = Inr p" "deref b4 qp = Inr q" "deref b4 ep = Inr e"
    and k: "\<forall>n > length d. drop n b4 = drop n (d @ NUL # rest)"
    using parse_tail [OF refl cd f] by blast
  have "drop ?portbuf b4 = stritoa lp MAX_PORT_LEN @ NUL # r" using k ld port by (simp only:)
  then have "deref b4 (At ?portbuf) = Inr (stritoa lp MAX_PORT_LEN)"
    by (simp add: cstr_at_eq is_cstr_stritoa)
  moreover have "websUrlParse (Some mem) lp url True
      = Inr (0, Some \<lparr>u_buf = b4, u_host = Lit ''localhost'', u_path = pp, u_port = At ?portbuf, u_query = qp,
                      u_proto = Lit ''http'', u_tag = Lit '''', u_ext = ep\<rparr>)"
    using st t loc unfolding websUrlParse_def Let_def d [symmetric]
    by (simp only: option.case res_bind.simps if_False if_True prod.case)
  ultimately show ?thesis using t f by (simp add: parsed_as_def)
qed

text \<open>C35. \<open>websUrlParse\<close> on a URL that does not decode to \<open>http://\<close>...: whatever the allocated block
  held, the parser stays inside it, returns 0, and its pointers read as host \<open>localhost\<close>, the
  listening port in decimal, protocol \<open>http\<close>, and the path, query and extension that \<open>url_fields\<close>
  computes from the percent-decoded URL: the path before the first \<open>?\<close> without the slashes that
  follow its extension, the query up to the \<open>#\<close>.\<close>

theorem websUrlParse_local:
  assumes mem: "length mem = block_len (length url)"
    and d: "d = takeWhile (\<lambda>c. c \<noteq> NUL) (websDecodeUrl (length url) url)"
    and loc: "take 7 d \<noteq> ''http://''"
  shows "\<exists>u. websUrlParse (Some mem) lp url True = Inr (0, Some u)
    \<and> parsed_as u ''localhost'' (fst (url_fields d)) (stritoa lp MAX_PORT_LEN) (fst (snd (url_fields d))) ''http''
        (snd (snd (url_fields d)))"
  by (rule websUrlParse_fields [OF assms])

theorem websUrlParse_local_witness:
  "\<exists>u. websUrlParse (Some (replicate 43 (CHR ''x''))) 80 ''/a%2easp/?k=v#t'' True = Inr (0, Some u)
     \<and> parsed_as u ''localhost'' (fst (url_fields ''/a.asp/?k=v#t'')) (stritoa 80 MAX_PORT_LEN)
         (fst (snd (url_fields ''/a.asp/?k=v#t''))) ''http'' (snd (snd (url_fields ''/a.asp/?k=v#t'')))
     \<and> url_fields ''/a.asp/?k=v#t'' = (''/a.asp'', ''k=v'', ''.asp'') \<and> stritoa 80 MAX_PORT_LEN = ''80''"
proof -
  have d: "''/a.asp/?k=v#t'' = takeWhile (\<lambda>c. c \<noteq> NUL) (websDecodeUrl (length ''/a%2easp/?k=v#t'') ''/a%2easp/?k=v#t'')"
    by code_simp
  have l: "length (replicate 43 (CHR ''x'')) = block_len (length ''/a%2easp/?k=v#t'')"
    by code_simp
  have h: "take 7 ''/a.asp/?k=v#t'' \<noteq> ''http://''" by simp
  have "url_fields ''/a.asp/?k=v#t'' = (''/a.asp'', ''k=v'', ''.asp'')" "stritoa 80 MAX_PORT_LEN = ''80''"
    by code_simp+
  then show ?thesis using websUrlParse_local [OF l d h, of 80] by blast
qed

text \<open>An empty query before a fragment loses the path; a host with a query and no slash becomes the path; a
  port of ten digits is copied without its NUL, so that reading it leaves the block.\<close>

lemma empty_query_loses_path: "url_fields ''/a?#x'' = ('''', '''', ''.htm'')"
  by code_simp

definition path_and_port :: "(int \<times> url_parts option) res \<Rightarrow> (string res \<times> string res) option" where
  "path_and_port r =
     (case r of Inr (_, Some u) \<Rightarrow> Some (deref (u_buf u) (u_path u), deref (u_buf u) (u_port u)) | _ \<Rightarrow> None)"

lemma host_query_becomes_path:
  "path_and_port (websUrlParse (Some (replicate 43 (CHR ''x''))) 80 ''http://host?k=v'' True)
     = Some (Inr ''host'', Inr ''80'')"
  by code_simp

lemma long_port_unterminated:
  "path_and_port (websUrlParse (Some (replicate 53 (CHR ''x''))) 80 ''http://h:0123456789/'' True)
     = Some (Inr ''/'', Inl OutOfBounds)"
  by code_simp

end
