(* ===== verification/Fmt.thy ===== *)
theory Fmt
  imports Uemf
begin

text \<open>
  The formatted output of the web server, \<open>user/goahead/src_tongyong/misc.c\<close>: \<open>fmtAlloc\<close>,
  \<open>fmtValloc\<close>, \<open>fmtStatic\<close> and \<open>fmtRealloc\<close> over \<open>dsnprintf\<close>, with its buffer that grows by
  \<open>STR_INC\<close>.  The block the text is written to is part of the state, with the bytes no store has
  reached yet unknown, and a store outside it is a fault, as is a store through the NULL a failed
  allocation leaves (the code tests neither).  The variable arguments are a list; a directive without
  a matching argument, and a format that ends inside a directive, are faults.  \<open>%n\<close> only consumes its
  argument: the store through the pointer is outside the model.
\<close>

section \<open>The buffer\<close>

definition STR_INC :: int where "STR_INC = 64"

text \<open>\<open>sb_mem\<close> is the block \<open>s\<close> points to, \<open>None\<close> for NULL; a byte of it is \<open>None\<close> until it is
  stored.  \<open>sb_alloc\<close> says which sizes \<open>balloc\<close> and \<open>brealloc\<close> grant: the sizes one call asks for
  increase, so an answer for each size gives every allocator.\<close>

record strbuf =
  sb_mem :: "byte option list option"
  sb_count :: nat
  sb_size :: int
  sb_max :: int
  sb_realloc :: bool
  sb_alloc :: "int \<Rightarrow> bool"

definition sb_store :: "byte \<Rightarrow> strbuf \<Rightarrow> strbuf res" where
  "sb_store c buf =
     (case sb_mem buf of
        None \<Rightarrow> Inl OutOfBounds
      | Some m \<Rightarrow>
          if sb_count buf < length m then
            Inr (buf\<lparr>sb_mem := Some (m[sb_count buf := Some c]),
                     sb_count := (if c = NUL then sb_count buf else Suc (sb_count buf))\<rparr>)
          else Inl OutOfBounds)"

text \<open>\<open>balloc\<close> for a NULL \<open>s\<close>, \<open>brealloc\<close> otherwise.\<close>

definition sb_grow :: "strbuf \<Rightarrow> strbuf" where
  "sb_grow buf =
     (let n = nat (sb_size buf);
          old = (case sb_mem buf of None \<Rightarrow> [] | Some m \<Rightarrow> take n m)
      in buf\<lparr>sb_mem := (if sb_alloc buf (sb_size buf) then Some (old @ replicate (n - length old) None) else None)\<rparr>)"

definition put_char :: "strbuf \<Rightarrow> byte \<Rightarrow> strbuf res" where
  "put_char buf c =
     (if sb_size buf - 1 \<le> int (sb_count buf) then
       (if \<not> sb_realloc buf then Inr buf
        else if sb_max buf < sb_size buf + STR_INC \<and> STR_INC < sb_size buf + STR_INC then Inr buf
        else sb_store c (sb_grow (buf\<lparr>sb_size := sb_size buf + STR_INC\<rparr>)))
      else sb_store c buf)"

fun put_chars :: "strbuf \<Rightarrow> string \<Rightarrow> strbuf res" where
  "put_chars buf [] = Inr buf"
| "put_chars buf (c # s) = res_bind (put_char buf c) (\<lambda>buf. put_chars buf s)"

text \<open>The C string in a block, as the caller reads it.\<close>

fun block_text :: "byte option list \<Rightarrow> string res" where
  "block_text (Some c # m) = (if c = NUL then Inr [] else res_bind (block_text m) (\<lambda>s. Inr (c # s)))"
| "block_text _ = Inl OutOfBounds"

section \<open>Directives\<close>

record fflags =
  flag_minus :: bool
  flag_plus :: bool
  flag_space :: bool
  flag_hash :: bool
  flag_zero :: bool
  flag_short :: bool
  flag_long :: bool

definition flag_none :: fflags where
  "flag_none = \<lparr>flag_minus = False, flag_plus = False, flag_space = False, flag_hash = False,
     flag_zero = False, flag_short = False, flag_long = False\<rparr>"

datatype farg = FInt int | FStr "string option"

text \<open>\<open>put_string\<close>; \<open>len\<close> is negative for a C string.\<close>

definition put_string :: "strbuf \<Rightarrow> string \<Rightarrow> int \<Rightarrow> int \<Rightarrow> int \<Rightarrow> fflags \<Rightarrow> strbuf res" where
  "put_string buf s len width prec f =
     (let n = (if len < 0 then (if 0 \<le> prec then min (length s) (nat prec) else length s)
               else if 0 \<le> prec \<and> prec < len then nat prec else nat len);
          pad = replicate (nat (width - int n)) (CHR '' '')
      in if length s < n then Inl OutOfBounds
         else put_chars buf ((if flag_minus f then [] else pad) @ take n s @ (if flag_minus f then pad else [])))"

definition ULONG_MAX :: nat where "ULONG_MAX = 4294967295"

text \<open>The number of digits and the weight of the first one.  The calls have base 8, 10 or 16 and
  start at weight 1, so the added test of the base and the weight never stops the loop.\<close>

function ulong_scale :: "nat \<Rightarrow> nat \<Rightarrow> nat \<Rightarrow> nat \<Rightarrow> nat \<times> nat" where
  "ulong_scale base value len x =
     (if x < ULONG_MAX div base \<and> 2 \<le> base \<and> 0 < x then
       (let x2 = x * base in if value < x2 then (len, x) else ulong_scale base value (len + 1) x2)
      else (len, x))"
  by pat_completeness auto
termination
proof (relation "measure (\<lambda>(base, value, len, x). ULONG_MAX - x)")
  fix base v len x x2 :: nat
  assume a: "x < ULONG_MAX div base \<and> 2 \<le> base \<and> 0 < x" "x2 = x * base"
  then have "x < ULONG_MAX" using less_le_trans [OF _ div_le_dividend] by blast
  moreover have "x < x2" using a by simp
  ultimately show "((base, v, len + 1, x2), base, v, len, x) \<in> measure (\<lambda>(base, value, len, x). ULONG_MAX - x)"
    by simp
qed simp

definition digit_char :: "bool \<Rightarrow> nat \<Rightarrow> byte" where
  "digit_char upper d = char_of (if d < 10 then 48 + d else if upper then 55 + d else 87 + d)"

function ulong_digits :: "nat \<Rightarrow> bool \<Rightarrow> nat \<Rightarrow> nat \<Rightarrow> string" where
  "ulong_digits base upper value x =
     (if 0 < x \<and> 2 \<le> base then digit_char upper (value div x mod base) # ulong_digits base upper value (x div base)
      else [])"
  by pat_completeness auto
termination by (relation "measure (\<lambda>(base, upper, value, x). x)") auto

declare ulong_scale.simps [simp del] ulong_digits.simps [simp del]

definition put_ulong ::
  "strbuf \<Rightarrow> nat \<Rightarrow> nat \<Rightarrow> bool \<Rightarrow> string \<Rightarrow> int \<Rightarrow> int \<Rightarrow> fflags \<Rightarrow> strbuf res" where
  "put_ulong buf value base upper pre width prec f =
     (case ulong_scale base value 1 1 of (len, x) \<Rightarrow>
       let zeros = nat (prec - int len);
           n = nat (width - int (zeros + len) - int (length pre))
       in put_chars buf
            ((if flag_minus f then [] else replicate n (if flag_zero f then CHR ''0'' else CHR '' ''))
             @ pre @ replicate zeros (CHR ''0'') @ ulong_digits base upper value x
             @ (if flag_minus f then replicate n (CHR '' '') else [])))"

subsection \<open>Reading a directive\<close>

text \<open>Each part gets the format from the character \<open>c\<close> on; an empty rest is the closing NUL, after
  which the main loop would read past the format.\<close>

fun read_flags :: "fflags \<Rightarrow> string \<Rightarrow> (fflags \<times> string) res" where
  "read_flags f [] = Inl OutOfBounds"
| "read_flags f (c # fmt) =
     (if c = CHR ''-'' then read_flags (f\<lparr>flag_minus := True\<rparr>) fmt
      else if c = CHR ''+'' then read_flags (f\<lparr>flag_plus := True\<rparr>) fmt
      else if c = CHR '' '' then read_flags (f\<lparr>flag_space := True\<rparr>) fmt
      else if c = CHR ''#'' then read_flags (f\<lparr>flag_hash := True\<rparr>) fmt
      else if c = CHR ''0'' then read_flags (f\<lparr>flag_zero := True\<rparr>) fmt
      else Inr (f, c # fmt))"

fun read_num :: "int \<Rightarrow> string \<Rightarrow> int \<times> string" where
  "read_num n [] = (n, [])"
| "read_num n (c # fmt) =
     (if is_digit c then read_num (n * 10 + (int (uchar c) - 48)) fmt else (n, c # fmt))"

fun pop_int :: "farg list \<Rightarrow> (int \<times> farg list) res" where
  "pop_int (FInt n # args) = Inr (n, args)"
| "pop_int _ = Inl OutOfBounds"

fun pop_str :: "farg list \<Rightarrow> (string option \<times> farg list) res" where
  "pop_str (FStr s # args) = Inr (s, args)"
| "pop_str _ = Inl OutOfBounds"

definition read_width :: "fflags \<Rightarrow> string \<Rightarrow> farg list \<Rightarrow> (fflags \<times> int \<times> string \<times> farg list) res" where
  "read_width f fmt args =
     (case fmt of
        [] \<Rightarrow> Inl OutOfBounds
      | c # rest \<Rightarrow>
          if c = CHR ''*'' then
            res_bind (pop_int args) (\<lambda>(w, args).
              if w < 0 then Inr (f\<lparr>flag_minus := True\<rparr>, - w, rest, args) else Inr (f, w, rest, args))
          else (case read_num 0 fmt of (w, rest) \<Rightarrow> Inr (f, w, rest, args)))"

definition read_prec :: "fflags \<Rightarrow> string \<Rightarrow> farg list \<Rightarrow> (fflags \<times> int \<times> string \<times> farg list) res" where
  "read_prec f fmt args =
     (case fmt of
        [] \<Rightarrow> Inl OutOfBounds
      | c # rest \<Rightarrow>
          if c \<noteq> CHR ''.'' then Inr (f, - 1, fmt, args)
          else let f = f\<lparr>flag_zero := False\<rparr> in
            case rest of
              [] \<Rightarrow> Inl OutOfBounds
            | d # rest2 \<Rightarrow>
                if d = CHR ''*'' then res_bind (pop_int args) (\<lambda>(p, args). Inr (f, p, rest2, args))
                else (case read_num 0 rest of (p, rest3) \<Rightarrow> Inr (f, p, rest3, args)))"

definition read_size :: "fflags \<Rightarrow> string \<Rightarrow> fflags \<times> string" where
  "read_size f fmt =
     (case fmt of
        [] \<Rightarrow> (f, fmt)
      | c # rest \<Rightarrow>
          if c = CHR ''h'' then (f\<lparr>flag_short := True\<rparr>, rest)
          else if c = CHR ''l'' then (f\<lparr>flag_long := True\<rparr>, rest)
          else (f, fmt))"

text \<open>The conversions.\<close>

definition conv_signed :: "strbuf \<Rightarrow> int \<Rightarrow> int \<Rightarrow> int \<Rightarrow> fflags \<Rightarrow> strbuf res" where
  "conv_signed buf n width prec f =
     (let value = (if flag_short f then (n + 0x8000) mod 0x10000 - 0x8000 else n) in
      if 0 \<le> value then
        put_ulong buf (nat value) 10 False
          (if flag_plus f then ''+'' else if flag_space f then '' '' else []) width prec f
      else put_ulong buf (nat (- value)) 10 False ''-'' width prec f)"

definition conv_unsigned :: "strbuf \<Rightarrow> byte \<Rightarrow> int \<Rightarrow> int \<Rightarrow> int \<Rightarrow> fflags \<Rightarrow> strbuf res" where
  "conv_unsigned buf c n width prec f =
     (let value = nat (n mod (if flag_short f then 0x10000 else 0x100000000));
          hash = (flag_hash f \<and> value \<noteq> 0)
      in if c = CHR ''o'' then put_ulong buf value 8 False (if hash then ''0'' else []) width prec f
         else if c = CHR ''u'' then put_ulong buf value 10 False [] width prec f
         else put_ulong buf value 16 (c = CHR ''X'')
                (if hash then (if c = CHR ''x'' then ''0x'' else ''0X'') else []) width prec f)"

definition conv_string :: "strbuf \<Rightarrow> string option \<Rightarrow> int \<Rightarrow> int \<Rightarrow> fflags \<Rightarrow> strbuf res" where
  "conv_string buf value width prec f =
     (case value of
        None \<Rightarrow> put_string buf ''(null)'' (- 1) width prec f
      | Some v \<Rightarrow>
          if flag_hash f then
            (case v of [] \<Rightarrow> Inl OutOfBounds | l # s \<Rightarrow> put_string buf s (schar l) width prec f)
          else put_string buf v (- 1) width prec f)"

definition convert ::
  "strbuf \<Rightarrow> byte \<Rightarrow> int \<Rightarrow> int \<Rightarrow> fflags \<Rightarrow> farg list \<Rightarrow> (strbuf \<times> farg list) res" where
  "convert buf c width prec f args =
     (if c = CHR ''d'' \<or> c = CHR ''i'' then
        res_bind (pop_int args) (\<lambda>(n, args).
        res_bind (conv_signed buf n width prec f) (\<lambda>buf. Inr (buf, args)))
      else if c = CHR ''o'' \<or> c = CHR ''u'' \<or> c = CHR ''x'' \<or> c = CHR ''X'' then
        res_bind (pop_int args) (\<lambda>(n, args).
        res_bind (conv_unsigned buf c n width prec f) (\<lambda>buf. Inr (buf, args)))
      else if c = CHR ''c'' then
        res_bind (pop_int args) (\<lambda>(n, args).
        res_bind (put_char buf (char_of (nat (n mod 256)))) (\<lambda>buf. Inr (buf, args)))
      else if c = CHR ''s'' \<or> c = CHR ''S'' then
        res_bind (pop_str args) (\<lambda>(v, args).
        res_bind (conv_string buf v width prec f) (\<lambda>buf. Inr (buf, args)))
      else if c = CHR ''p'' then
        res_bind (pop_int args) (\<lambda>(n, args).
        res_bind (put_ulong buf (nat (n mod 0x100000000)) 16 False ''0x'' width prec f) (\<lambda>buf. Inr (buf, args)))
      else if c = CHR ''n'' then res_bind (pop_int args) (\<lambda>(n, args). Inr (buf, args))
      else res_bind (put_char buf c) (\<lambda>buf. Inr (buf, args)))"

text \<open>One directive, from the character after \<open>%\<close>.\<close>

definition directive :: "strbuf \<Rightarrow> string \<Rightarrow> farg list \<Rightarrow> (strbuf \<times> string \<times> farg list) res" where
  "directive buf fmt args =
     res_bind (read_flags flag_none fmt) (\<lambda>(f, fmt).
     res_bind (read_width f fmt args) (\<lambda>(f, width, fmt, args).
     res_bind (read_prec f fmt args) (\<lambda>(f, prec, fmt, args).
     case read_size f fmt of (f, fmt) \<Rightarrow>
       (case fmt of
          [] \<Rightarrow> Inl OutOfBounds
        | c # rest \<Rightarrow> res_bind (convert buf c width prec f args) (\<lambda>(buf, args). Inr (buf, rest, args))))))"

lemma read_flags_rest: "read_flags f fmt = Inr (f', r) \<Longrightarrow> length r \<le> length fmt"
  by (induction f fmt rule: read_flags.induct) (auto split: if_splits)

lemma read_num_rest: "read_num n fmt = (m, r) \<Longrightarrow> length r \<le> length fmt"
  by (induction n fmt rule: read_num.induct) (auto split: if_splits)

lemma read_width_rest: "read_width f fmt args = Inr (f', w, r, a) \<Longrightarrow> length r \<le> length fmt"
  by (auto simp: read_width_def split: list.splits if_splits prod.splits dest!: read_num_rest)

lemma read_prec_rest: "read_prec f fmt args = Inr (f', w, r, a) \<Longrightarrow> length r \<le> length fmt"
  by (auto simp: read_prec_def Let_def split: list.splits if_splits prod.splits dest!: read_num_rest)

lemma read_size_rest: "read_size f fmt = (f', r) \<Longrightarrow> length r \<le> length fmt"
  by (auto simp: read_size_def split: list.splits if_splits)

lemma directive_rest: "directive buf fmt args = Inr (b, r, a) \<Longrightarrow> length r < length fmt"
  unfolding directive_def
  by (auto split: prod.splits list.splits dest!: read_flags_rest read_width_rest read_prec_rest read_size_rest)

section \<open>The main loop\<close>

function fmt_loop :: "strbuf \<Rightarrow> string \<Rightarrow> farg list \<Rightarrow> strbuf res" where
  "fmt_loop buf [] args = Inr buf"
| "fmt_loop buf (c # fmt) args =
     (if c \<noteq> CHR ''%'' then res_bind (put_char buf c) (\<lambda>buf. fmt_loop buf fmt args)
      else case fmt of
        [] \<Rightarrow> Inl OutOfBounds
      | d # rest \<Rightarrow>
          if d = CHR ''%'' then res_bind (put_char buf d) (\<lambda>buf. fmt_loop buf rest args)
          else (case directive buf fmt args of
                  Inl e \<Rightarrow> Inl e
                | Inr (buf, rest, args) \<Rightarrow> fmt_loop buf rest args))"
  by pat_completeness auto
termination
  by (relation "measure (\<lambda>(buf, fmt, args). length fmt)") (auto dest!: directive_rest)

text \<open>\<open>old\<close> is the block \<open>*s\<close> points to on entry, \<open>None\<close> for NULL; the result is the block it points to
  afterwards and the count or, for \<open>msize\<close> not 0, the size.\<close>

definition poke :: "byte option list \<Rightarrow> int \<Rightarrow> byte \<Rightarrow> byte option list res" where
  "poke m i c = (if 0 \<le> i \<and> i < int (length m) then Inr (m[nat i := Some c]) else Inl OutOfBounds)"

definition dsnprintf ::
  "(int \<Rightarrow> bool) \<Rightarrow> byte option list option \<Rightarrow> int \<Rightarrow> string \<Rightarrow> farg list \<Rightarrow> int
    \<Rightarrow> (byte option list option \<times> int) res" where
  "dsnprintf ok old sz fmt args msize =
     (let grow = (old = None \<or> msize \<noteq> 0)
      in res_bind (case old of
                     None \<Rightarrow> Inr 0
                   | Some m \<Rightarrow> if msize \<noteq> 0 then res_bind (block_text m) (\<lambda>s. Inr (length s)) else Inr 0) (\<lambda>count.
         res_bind (fmt_loop \<lparr>sb_mem = old, sb_count = count, sb_size = (if grow then max msize 0 else sz),
                             sb_max = (if grow then sz else 0), sb_realloc = grow, sb_alloc = ok\<rparr> fmt args) (\<lambda>buf.
         res_bind (if sb_mem buf = None then put_char buf NUL else Inr buf) (\<lambda>buf.
         res_bind (case sb_mem buf of
                     None \<Rightarrow> Inr None
                   | Some m \<Rightarrow>
                       if sz \<le> 0 then Inr (Some m)
                       else res_bind (poke m (if int (sb_count buf) < sz then int (sb_count buf) else sb_size buf - 1) NUL)
                              (\<lambda>m. Inr (Some m))) (\<lambda>m.
         Inr (m, if msize \<noteq> 0 then sb_size buf else int (sb_count buf)))))))"

text \<open>The string a caller finds in \<open>*s\<close>; the callers use it without a test for NULL.\<close>

definition read_block :: "byte option list option \<times> int \<Rightarrow> (string \<times> int) res" where
  "read_block r = (case r of (None, n) \<Rightarrow> Inl OutOfBounds
                    | (Some m, n) \<Rightarrow> res_bind (block_text m) (\<lambda>s. Inr (s, n)))"

text \<open>\<open>fmt_alloc ok\<close> is \<open>fmtAlloc\<close> (and \<open>fmtValloc\<close>, with the arguments in a \<open>va_list\<close>) with the allocator
  that grants the sizes of \<open>ok\<close>.  The other components call \<open>fmtAlloc\<close> and \<open>fmtValloc\<close>, with memory
  available.\<close>

definition fmt_alloc :: "(int \<Rightarrow> bool) \<Rightarrow> int \<Rightarrow> string \<Rightarrow> farg list \<Rightarrow> (string \<times> int) res" where
  "fmt_alloc ok n fmt args = res_bind (dsnprintf ok None n fmt args 0) read_block"

definition fmtAlloc :: "int \<Rightarrow> string \<Rightarrow> farg list \<Rightarrow> (string \<times> int) res" where
  "fmtAlloc n fmt args = fmt_alloc (\<lambda>size. True) n fmt args"

definition fmtValloc :: "int \<Rightarrow> string \<Rightarrow> farg list \<Rightarrow> (string \<times> int) res" where
  "fmtValloc n fmt args = fmt_alloc (\<lambda>size. True) n fmt args"

text \<open>\<open>fmtStatic\<close> writes to the caller's array, \<open>fmtRealloc\<close> to the block of an earlier call.\<close>

definition fmtStatic ::
  "byte option list \<Rightarrow> int \<Rightarrow> string \<Rightarrow> farg list \<Rightarrow> (byte option list option \<times> int) res" where
  "fmtStatic s n fmt args =
     (if n \<le> 0 then Inr (Some s, - 1) else dsnprintf (\<lambda>size. False) (Some s) n fmt args 0)"

definition fmtRealloc ::
  "(int \<Rightarrow> bool) \<Rightarrow> byte option list option \<Rightarrow> int \<Rightarrow> int \<Rightarrow> string \<Rightarrow> farg list
    \<Rightarrow> (byte option list option \<times> int) res" where
  "fmtRealloc ok s n msize fmt args = dsnprintf ok (if msize = - 1 then None else s) n fmt args msize"

section \<open>How much text is kept\<close>

text \<open>The largest buffer of a growing string is the greatest multiple of \<open>STR_INC\<close> in the limit, at
  least one increment; one character of it is the NUL.\<close>

definition fmt_cap :: "int \<Rightarrow> nat" where
  "fmt_cap n = nat (STR_INC * max 1 (n div STR_INC) - 1)"

text \<open>The size of the block once \<open>l\<close> characters are stored, and the allocations that lead to it.\<close>

definition fmt_size :: "nat \<Rightarrow> int" where
  "fmt_size l = STR_INC * (int l div STR_INC + 1)"

definition fmt_granted :: "(int \<Rightarrow> bool) \<Rightarrow> nat \<Rightarrow> bool" where
  "fmt_granted ok l \<longleftrightarrow> (\<forall>k \<in> set [0..<l div 64 + 1]. ok (STR_INC * (int k + 1)))"

lemma cap_pos: "int (fmt_cap n) + 1 = STR_INC * max 1 (n div STR_INC)" "63 \<le> fmt_cap n"
  by (auto simp: fmt_cap_def STR_INC_def)

lemma fmt_size_eq: "fmt_size l = 64 * (int (l div 64) + 1)"
  by (simp add: fmt_size_def STR_INC_def zdiv_int)

lemma fmt_size_parts:
  obtains q r where "l = 64 * q + r" "r < 64" "fmt_size l = int (64 * q + 64)" "int l = int (64 * q + r)"
proof
  show "l = 64 * (l div 64) + l mod 64" by simp
  then show "int l = int (64 * (l div 64) + l mod 64)" by simp
  show "fmt_size l = int (64 * (l div 64) + 64)" unfolding fmt_size_eq by (simp add: algebra_simps)
qed simp

lemma fmt_size_less: "int l < fmt_size l"
  by (rule fmt_size_parts [of l]) simp

lemma fmt_size_full:
  assumes "fmt_size l - 1 \<le> int l"
  shows "fmt_size (Suc l) = fmt_size l + 64 \<and> Suc l mod 64 = 0"
proof -
  obtain q r where q: "l = 64 * q + r" "r < 64" "fmt_size l = int (64 * q + 64)" "int l = int (64 * q + r)"
    by (rule fmt_size_parts)
  then have "r = 63" using assms by simp
  then have "Suc l = 64 * Suc q" using q(1) by simp
  then have "Suc l div 64 = Suc q" "Suc l mod 64 = 0" by simp_all
  then show ?thesis unfolding q(3) by (simp add: fmt_size_eq [of "Suc l"])
qed

lemma fmt_size_room:
  assumes "\<not> fmt_size l - 1 \<le> int l"
  shows "fmt_size (Suc l) = fmt_size l \<and> Suc l div 64 = l div 64"
proof -
  obtain q r where q: "l = 64 * q + r" "r < 64" "fmt_size l = int (64 * q + 64)" "int l = int (64 * q + r)"
    by (rule fmt_size_parts)
  then have "r < 63" using assms by simp
  then have "Suc l div 64 = q" "l div 64 = q" using q(1) by simp_all
  then show ?thesis by (simp only: fmt_size_eq)
qed

lemma granted_mono: "fmt_granted ok l \<Longrightarrow> k \<le> l \<Longrightarrow> fmt_granted ok k"
proof -
  assume "fmt_granted ok l" "k \<le> l"
  moreover have "k div 64 \<le> l div 64" using \<open>k \<le> l\<close> by (rule div_le_mono)
  ultimately show ?thesis by (auto simp: fmt_granted_def)
qed

lemma granted_Suc:
  "Suc l mod 64 = 0 \<Longrightarrow> fmt_granted ok (Suc l) \<longleftrightarrow> fmt_granted ok l \<and> ok (fmt_size (Suc l))"
proof -
  assume "Suc l mod 64 = 0"
  then have "64 * (Suc l div 64) = Suc l" by (simp add: dvd_eq_mod_eq_0 [symmetric])
  moreover have "l div 64 = Suc l div 64 - 1"
  proof (rule div_nat_eqI)
    show "64 * (Suc l div 64 - 1) \<le> l" using calculation by simp
    show "l < 64 * Suc (Suc l div 64 - 1)" using calculation by simp
  qed
  ultimately have "Suc l div 64 = Suc (l div 64)" by (cases "Suc l div 64") auto
  then show ?thesis by (auto simp: fmt_granted_def fmt_size_eq STR_INC_def atLeastLessThanSuc)
qed

text \<open>A growing buffer that holds the text \<open>s\<close>: nothing is allocated yet, or the block has the size for
  the text, with the text at its front.\<close>

definition growing :: "(int \<Rightarrow> bool) \<Rightarrow> int \<Rightarrow> string \<Rightarrow> strbuf \<Rightarrow> bool" where
  "growing ok n s buf \<longleftrightarrow> sb_realloc buf \<and> sb_max buf = n \<and> sb_alloc buf = ok \<and> sb_count buf = length s
     \<and> length s \<le> fmt_cap n
     \<and> (case sb_mem buf of
          None \<Rightarrow> s = [] \<and> sb_size buf = 0
        | Some m \<Rightarrow> sb_size buf = fmt_size (length s) \<and> length m = nat (sb_size buf)
            \<and> take (length s) m = map Some s \<and> fmt_granted ok (length s))"

lemma take_update: "l < length m \<Longrightarrow> take (Suc l) (m[l := x]) = take l m @ [x]"
  by (simp add: take_Suc_conv_app_nth)

lemma sb_store_growing:
  assumes "sb_realloc buf" "sb_max buf = n" "sb_alloc buf = ok" "sb_count buf = length s"
    and "sb_mem buf = Some m" "sb_size buf = fmt_size (Suc (length s))" "length m = nat (sb_size buf)"
    and "take (length s) m = map Some s" "fmt_granted ok (Suc (length s))" "length s < fmt_cap n" "c \<noteq> NUL"
  shows "\<exists>b. sb_store c buf = Inr b \<and> growing ok n (s @ [c]) b"
proof -
  have "length s < length m" using assms(6,7) fmt_size_less [of "Suc (length s)"] by linarith
  with assms show ?thesis by (auto simp: sb_store_def growing_def take_update)
qed

lemma put_char_growing:
  assumes g: "growing ok n s buf" and c: "c \<noteq> NUL"
  shows "(\<exists>b. put_char buf c = Inr b \<and> growing ok n (take (fmt_cap n) (s @ [c])) b \<and> sb_mem b \<noteq> None)
    \<or> (put_char buf c = Inl OutOfBounds \<and> length s < fmt_cap n \<and> \<not> fmt_granted ok (Suc (length s)))"
proof (cases "sb_mem buf")
  case None
  then have b: "s = []" "sb_size buf = 0" "sb_count buf = 0" "sb_realloc buf" "sb_alloc buf = ok" "sb_max buf = n"
    using g by (auto simp: growing_def)
  have p: "put_char buf c = sb_store c (sb_grow (buf\<lparr>sb_size := 64\<rparr>))"
    using b by (simp add: put_char_def STR_INC_def)
  have cap: "0 < fmt_cap n" using cap_pos(2) [of n] by linarith
  have gr: "fmt_granted ok (Suc 0) \<longleftrightarrow> ok 64" by (simp add: fmt_granted_def STR_INC_def)
  show ?thesis
  proof (cases "ok 64")
    case True
    have "\<exists>b. sb_store c (sb_grow (buf\<lparr>sb_size := 64\<rparr>)) = Inr b \<and> growing ok n ([] @ [c]) b"
      using b True None gr cap c
      by (intro sb_store_growing [where m = "replicate 64 None"]) (simp_all add: sb_grow_def fmt_size_eq)
    then obtain b2 where "put_char buf c = Inr b2" "growing ok n [c] b2" using p by auto
    moreover have "sb_mem b2 \<noteq> None" using calculation(2) by (cases "sb_mem b2") (auto simp: growing_def)
    moreover have "take (fmt_cap n) [c] = [c]" using cap by simp
    ultimately show ?thesis using b(1) by auto
  next
    case False
    then have "put_char buf c = Inl OutOfBounds" using p b None by (simp add: sb_grow_def sb_store_def Let_def)
    then show ?thesis using b(1) cap gr False by simp
  qed
next
  case (Some m)
  then have b: "sb_size buf = fmt_size (length s)" "length m = nat (sb_size buf)" "take (length s) m = map Some s"
    "fmt_granted ok (length s)" "sb_count buf = length s" "sb_realloc buf" "sb_alloc buf = ok" "sb_max buf = n"
    "length s \<le> fmt_cap n"
    using g by (auto simp: growing_def)
  have nn: "sb_mem b2 \<noteq> None" if "growing ok n (s @ [c]) b2" for b2
    using that by (cases "sb_mem b2") (auto simp: growing_def)
  have tk: "take (fmt_cap n) (s @ [c]) = s @ [c]" if "length s < fmt_cap n" using that by simp
  have cap: "int (fmt_cap n) + 1 = 64 * max 1 (n div 64)" using cap_pos(1) by (simp add: STR_INC_def)
  show ?thesis
  proof (cases "fmt_size (length s) - 1 \<le> int (length s)")
    case False
    from fmt_size_room [OF this] have r: "fmt_size (Suc (length s)) = fmt_size (length s)"
      "fmt_granted ok (Suc (length s))" using b(4) by (auto simp: fmt_granted_def)
    have l: "length s < fmt_cap n"
    proof (rule ccontr)
      assume "\<not> length s < fmt_cap n"
      then have "int (length s) + 1 = 64 * max 1 (n div 64)" using b(9) cap by linarith
      then have "length s + 1 = 64 * nat (max 1 (n div 64))" by linarith
      then have "length s = 64 * (nat (max 1 (n div 64)) - 1) + 63" by linarith
      then have "int (length s) + 1 = 64 * (int (length s div 64) + 1)" by simp
      with False show False unfolding fmt_size_eq by linarith
    qed
    have "put_char buf c = sb_store c buf" using False b by (simp add: put_char_def)
    moreover have "\<exists>b. sb_store c buf = Inr b \<and> growing ok n (s @ [c]) b"
      by (rule sb_store_growing [OF b(6,8,7,5) Some _ b(2,3) r(2) l c]) (simp add: b r)
    ultimately show ?thesis using nn tk [OF l] by auto
  next
    case full: True
    from fmt_size_full [OF this] have f: "fmt_size (Suc (length s)) = fmt_size (length s) + 64" "Suc (length s) mod 64 = 0"
      by auto
    define k where "k = int (length s div 64) + 1"
    have k: "fmt_size (length s) = 64 * k" "1 \<le> k" by (auto simp: k_def fmt_size_eq)
    have lk: "int (length s) + 1 = 64 * k" using full fmt_size_less [of "length s"] k by linarith
    show ?thesis
    proof (cases "n < fmt_size (length s) + 64")
      case True
      then have "max 1 (n div 64) \<le> k" using k by linarith
      then have "length s = fmt_cap n" using lk cap b(9) by linarith
      moreover have "put_char buf c = Inr buf" using True full b k by (simp add: put_char_def STR_INC_def)
      ultimately show ?thesis using g Some by auto
    next
      case big: False
      then have "k + 1 \<le> n div 64" using k by linarith
      then have l: "length s < fmt_cap n" using lk cap by linarith
      let ?g = "sb_grow (buf\<lparr>sb_size := fmt_size (Suc (length s))\<rparr>)"
      have p: "put_char buf c = sb_store c ?g" using big full b f by (simp add: put_char_def STR_INC_def)
      have gr: "fmt_granted ok (Suc (length s)) \<longleftrightarrow> ok (fmt_size (Suc (length s)))"
        using granted_Suc [OF f(2)] b(4) by simp
      show ?thesis
      proof (cases "ok (fmt_size (Suc (length s)))")
        case True
        have len: "length m \<le> nat (fmt_size (Suc (length s)))" using b(1,2) f by linarith
        let ?m = "m @ replicate (nat (fmt_size (Suc (length s))) - length m) None"
        have gm: "?g = buf\<lparr>sb_size := fmt_size (Suc (length s)), sb_mem := Some ?m\<rparr>"
          using True Some b(7) len by (simp add: sb_grow_def Let_def)
        have lm: "length s \<le> length m" using b(1,2) fmt_size_less [of "length s"] by linarith
        have "\<exists>b. sb_store c ?g = Inr b \<and> growing ok n (s @ [c]) b"
          unfolding gm using b gr True len l c lm
          by (intro sb_store_growing [where m = ?m]) simp_all
        then show ?thesis using p nn tk [OF l] by auto
      next
        case False
        then have "put_char buf c = Inl OutOfBounds" using p b(7) by (simp add: sb_grow_def sb_store_def Let_def)
        then show ?thesis using l gr False by simp
      qed
    qed
  qed
qed

lemma put_chars_growing:
  "growing ok n s buf \<Longrightarrow> is_cstr t \<Longrightarrow>
   (\<exists>b. put_chars buf t = Inr b \<and> growing ok n (take (fmt_cap n) (s @ t)) b \<and> (t \<noteq> [] \<longrightarrow> sb_mem b \<noteq> None))
   \<or> (put_chars buf t = Inl OutOfBounds \<and> \<not> fmt_granted ok (min (fmt_cap n) (length (s @ t))))"
proof (induction t arbitrary: buf s)
  case Nil
  then show ?case by (auto simp: growing_def)
next
  case (Cons c t)
  have c: "c \<noteq> NUL" "is_cstr t" using Cons.prems(2) by auto
  let ?s = "take (fmt_cap n) (s @ [c])"
  have tk: "take (fmt_cap n) (?s @ t) = take (fmt_cap n) (s @ c # t)"
    by (cases "fmt_cap n - length s") (simp_all add: min_def)
  have ln: "min (fmt_cap n) (length (?s @ t)) = min (fmt_cap n) (length (s @ c # t))"
    by (cases "length s < fmt_cap n") auto
  from put_char_growing [OF Cons.prems(1) c(1)] show ?case
  proof
    assume "\<exists>b. put_char buf c = Inr b \<and> growing ok n ?s b \<and> sb_mem b \<noteq> None"
    then obtain b where b: "put_char buf c = Inr b" "growing ok n ?s b" "sb_mem b \<noteq> None" by blast
    show ?thesis
    proof (cases "t = []")
      case True
      with b tk show ?thesis by auto
    next
      case False
      from Cons.IH [OF b(2) c(2)] b(1) False show ?thesis unfolding tk ln by auto
    qed
  next
    assume p: "put_char buf c = Inl OutOfBounds \<and> length s < fmt_cap n \<and> \<not> fmt_granted ok (Suc (length s))"
    moreover have "Suc (length s) \<le> min (fmt_cap n) (length (s @ c # t))" using p by simp
    ultimately show ?thesis using granted_mono by auto
  qed
qed

lemma block_text_front:
  "is_cstr s \<Longrightarrow> take (length s) m = map Some s \<Longrightarrow> length s < length m \<Longrightarrow> m ! length s = Some NUL
   \<Longrightarrow> block_text m = Inr s"
proof (induction s arbitrary: m)
  case Nil
  then show ?case by (cases m) auto
next
  case (Cons c s)
  then obtain m2 where "m = Some c # m2" by (cases m) auto
  with Cons show ?case by auto
qed

section \<open>What is printed\<close>

text \<open>Decimal notation, and the text of a format with \<open>%s\<close>, \<open>%d\<close> and \<open>%%\<close>.\<close>

fun dec :: "nat \<Rightarrow> string" where
  "dec n = (if n < 10 then [char_of (48 + n)] else dec (n div 10) @ [char_of (48 + n mod 10)])"

declare dec.simps [simp del]

definition dec_int :: "int \<Rightarrow> string" where
  "dec_int n = (if n < 0 then CHR ''-'' # dec (nat (- n)) else dec (nat n))"

fun render :: "string \<Rightarrow> farg list \<Rightarrow> string option" where
  "render [] args = Some []"
| "render (c # fmt) args =
     (if c \<noteq> CHR ''%'' then map_option ((#) c) (render fmt args)
      else case fmt of
        [] \<Rightarrow> None
      | d # rest \<Rightarrow>
          if d = CHR ''%'' then map_option ((#) d) (render rest args)
          else if d = CHR ''s'' then
            (case args of FStr (Some s) # args2 \<Rightarrow> map_option ((@) s) (render rest args2) | _ \<Rightarrow> None)
          else if d = CHR ''d'' then
            (case args of FInt n # args2 \<Rightarrow> map_option ((@) (dec_int n)) (render rest args2) | _ \<Rightarrow> None)
          else None)"

lemma scale_decimal:
  assumes "v \<le> ULONG_MAX" and "10 ^ k \<le> max 1 v" and "ulong_scale 10 v (Suc k) (10 ^ k) = (len, x)"
  shows "\<exists>m. len = Suc m \<and> x = 10 ^ m \<and> 10 ^ m \<le> max 1 v \<and> v < 10 ^ Suc m"
  using assms(2,3)
proof (induction "ULONG_MAX - 10 ^ k" arbitrary: k rule: less_induct)
  case less
  show ?case
  proof (cases "(10::nat) ^ k < ULONG_MAX div 10")
    case False
    have "9 \<le> k"
    proof (rule ccontr)
      assume "\<not> 9 \<le> k"
      then have "(10::nat) ^ k \<le> 10 ^ 8" by (intro power_increasing) auto
      with False show False by (simp add: ULONG_MAX_def)
    qed
    then have "(10::nat) ^ 10 \<le> 10 ^ Suc k" by (intro power_increasing) auto
    then have "v < 10 ^ Suc k" using assms(1) by (simp add: ULONG_MAX_def)
    moreover have "len = Suc k" "x = 10 ^ k" using less.prems(2) False by (auto simp: ulong_scale.simps)
    ultimately show ?thesis using less.prems(1) by blast
  next
    case True
    show ?thesis
    proof (cases "v < 10 ^ k * 10")
      case stop: True
      then have "len = Suc k" "x = 10 ^ k" using less.prems(2) True by (auto simp: ulong_scale.simps)
      then show ?thesis using less.prems(1) stop by (intro exI [of _ k]) (simp add: mult.commute)
    next
      case False
      have "ulong_scale 10 v (Suc (Suc k)) (10 ^ Suc k) = (len, x)"
        using less.prems(2) True False by (subst (asm) ulong_scale.simps) (simp add: mult.commute)
      moreover have "(10::nat) ^ Suc k \<le> max 1 v" using False by (simp add: mult.commute)
      moreover have "ULONG_MAX - 10 ^ Suc k < ULONG_MAX - 10 ^ k"
        using True by (intro diff_less_mono2) (simp_all add: ULONG_MAX_def)
      ultimately show ?thesis using less.hyps by blast
    qed
  qed
qed

lemma digits_pow:
  "ulong_digits 10 u v (10 ^ Suc k) = digit_char u (v div 10 ^ Suc k mod 10) # ulong_digits 10 u v (10 ^ k)"
  by (subst ulong_digits.simps) simp

lemma digits_snoc:
  "ulong_digits 10 u v (10 ^ Suc k) = ulong_digits 10 u (v div 10) (10 ^ k) @ [digit_char u (v mod 10)]"
proof (induction k)
  case 0
  have "ulong_digits 10 u w 1 = [digit_char u (w mod 10)]" for w
    by (simp add: ulong_digits.simps)
  then show ?case by (simp add: ulong_digits.simps [of 10 u v 10])
next
  case (Suc k)
  have "v div 10 ^ Suc (Suc k) = v div 10 div 10 ^ Suc k"
    using div_mult2_eq [of v 10 "10 ^ Suc k"] by (simp only: power_Suc [of 10 "Suc k"])
  then have "ulong_digits 10 u v (10 ^ Suc (Suc k))
      = digit_char u (v div 10 div 10 ^ Suc k mod 10) # ulong_digits 10 u v (10 ^ Suc k)"
    by (simp only: digits_pow)
  also have "\<dots> = digit_char u (v div 10 div 10 ^ Suc k mod 10) # ulong_digits 10 u (v div 10) (10 ^ k) @ [digit_char u (v mod 10)]"
    by (simp only: Suc.IH)
  also have "\<dots> = ulong_digits 10 u (v div 10) (10 ^ Suc k) @ [digit_char u (v mod 10)]"
    by (simp only: digits_pow append_Cons)
  finally show ?case .
qed

lemma digits_dec:
  "10 ^ m \<le> max 1 v \<Longrightarrow> v < 10 ^ Suc m \<Longrightarrow> ulong_digits 10 False v (10 ^ m) = dec v"
proof (induction m arbitrary: v)
  case 0
  then show ?case by (simp add: ulong_digits.simps dec.simps digit_char_def)
next
  case (Suc m)
  have "10 \<le> max 1 v" by (rule order_trans [OF _ Suc.prems(1)]) simp
  then have mx: "max 1 v = v" "10 \<le> v" by (simp_all add: max_def split: if_splits)
  have v: "10 * 10 ^ m \<le> v" using Suc.prems(1) unfolding mx by simp
  have "10 \<le> v" by (rule mx)
  moreover have "10 ^ m \<le> v div 10" using v by (simp add: less_eq_div_iff_mult_less_eq mult.commute)
  moreover have "v div 10 < 10 ^ Suc m" using Suc.prems(2) by (simp add: less_mult_imp_div_less)
  ultimately show ?case
    using Suc.IH [of "v div 10"] by (simp add: digits_snoc dec.simps [of v] digit_char_def del: power_Suc)
qed

lemma put_ulong_dec:
  assumes "v \<le> ULONG_MAX"
  shows "put_ulong buf v 10 False pre 0 (- 1) flag_none = put_chars buf (pre @ dec v)"
proof -
  obtain len x where s: "ulong_scale 10 v 1 1 = (len, x)" by (metis prod.exhaust)
  then obtain m where "len = Suc m" "x = 10 ^ m" "10 ^ m \<le> max 1 v" "v < 10 ^ Suc m"
    using scale_decimal [OF assms, of 0 len x] by auto
  then have "ulong_digits 10 False v x = dec v" using digits_dec by blast
  with s show ?thesis by (simp add: put_ulong_def flag_none_def Let_def)
qed

lemma res_bind_assoc: "res_bind (res_bind m f) g = res_bind m (\<lambda>x. res_bind (f x) g)"
  by (cases m) auto

lemma put_chars_append: "res_bind (put_chars buf s) (\<lambda>b. put_chars b t) = put_chars buf (s @ t)"
  by (induction s arbitrary: buf) (simp_all add: res_bind_assoc)

lemma put_string_plain: "put_string buf s (- 1) 0 (- 1) flag_none = put_chars buf s"
  by (simp add: put_string_def flag_none_def Let_def)

lemma directive_s:
  "directive buf (CHR ''s'' # fmt) (FStr (Some s) # args) = res_bind (put_chars buf s) (\<lambda>b. Inr (b, fmt, args))"
  by (simp add: res_bind_assoc directive_def read_width_def read_prec_def read_size_def is_digit_def uchar_def convert_def
      conv_string_def put_string_plain) (simp add: flag_none_def)

text \<open>The arguments are 32-bit \<open>int\<close>s and C strings.\<close>

definition args_ok :: "farg list \<Rightarrow> bool" where
  "args_ok args \<longleftrightarrow> list_all (\<lambda>a. case a of FInt n \<Rightarrow> - 0x80000000 \<le> n \<and> n < 0x80000000
     | FStr s \<Rightarrow> (case s of None \<Rightarrow> True | Some t \<Rightarrow> is_cstr t)) args"

lemma directive_d:
  assumes "- 0x80000000 \<le> n" "n < 0x80000000"
  shows "directive buf (CHR ''d'' # fmt) (FInt n # args) = res_bind (put_chars buf (dec_int n)) (\<lambda>b. Inr (b, fmt, args))"
proof -
  have "conv_signed buf n 0 (- 1) flag_none = put_chars buf (dec_int n)"
  proof (cases "0 \<le> n")
    case True
    then have "nat n \<le> ULONG_MAX" using assms by (simp add: ULONG_MAX_def)
    from put_ulong_dec [OF this, of buf "[]"] show ?thesis using True
      by (simp add: conv_signed_def dec_int_def flag_none_def)
  next
    case False
    then have "nat (- n) \<le> ULONG_MAX" using assms by (simp add: ULONG_MAX_def)
    from put_ulong_dec [OF this, of buf "''-''"] show ?thesis using False
      by (simp add: conv_signed_def dec_int_def flag_none_def)
  qed
  then show ?thesis
    by (simp add: res_bind_assoc directive_def read_width_def read_prec_def read_size_def is_digit_def uchar_def convert_def)
qed

lemma fmt_loop_render:
  "render fmt args = Some t \<Longrightarrow> args_ok args \<Longrightarrow> fmt_loop buf fmt args = put_chars buf t"
proof (induction "length fmt" arbitrary: fmt args buf t rule: less_induct)
  case less
  show ?case
  proof (cases fmt)
    case Nil
    then show ?thesis using less.prems by simp
  next
    case (Cons c r)
    show ?thesis
    proof (cases "c = CHR ''%''")
      case False
      then obtain t2 where t2: "render r args = Some t2" "t = c # t2" using less.prems Cons by auto
      have "fmt_loop b r args = put_chars b t2" for b
        using less.hyps [OF _ t2(1) less.prems(2)] Cons by simp
      then show ?thesis using False t2 Cons by simp
    next
      case True
      then obtain d rest where r: "r = d # rest" using less.prems Cons by (cases r) auto
      have ih: "render rest a2 = Some t2 \<Longrightarrow> args_ok a2 \<Longrightarrow> fmt_loop b rest a2 = put_chars b t2" for b a2 t2
        using less.hyps [of rest a2 t2 b] Cons r by simp
      have join: "(case res_bind (put_chars buf s) (\<lambda>b. Inr (b, rest, a2)) of Inl e \<Rightarrow> Inl e
            | Inr (b, rest, args) \<Rightarrow> fmt_loop b rest args) = put_chars buf (s @ t2)"
        if "render rest a2 = Some t2" "args_ok a2" for s a2 t2
        unfolding put_chars_append [symmetric] using ih [OF that] by (cases "put_chars buf s") auto
      consider "d = CHR ''%''" | "d = CHR ''s''" | "d = CHR ''d''"
        using less.prems True Cons r by (auto split: if_splits)
      then show ?thesis
      proof cases
        case 1
        then obtain t2 where "render rest args = Some t2" "t = d # t2" using less.prems True Cons r by auto
        then show ?thesis using ih less.prems Cons r True 1 by simp
      next
        case 2
        then obtain s a2 t2 where a: "args = FStr (Some s) # a2" "render rest a2 = Some t2" "t = s @ t2"
          using less.prems True Cons r by (auto split: list.splits farg.splits option.splits)
        have "args_ok a2" using less.prems(2) a by (simp add: args_ok_def)
        from join [OF a(2) this, of s] show ?thesis using True Cons r 2 a by (simp add: directive_s)
      next
        case 3
        then obtain n a2 t2 where a: "args = FInt n # a2" "render rest a2 = Some t2" "t = dec_int n @ t2"
          using less.prems True Cons r by (auto split: list.splits farg.splits option.splits)
        have ok: "args_ok a2" "- 0x80000000 \<le> n" "n < 0x80000000" using less.prems(2) a by (simp_all add: args_ok_def)
        from join [OF a(2) ok(1), of "dec_int n"] show ?thesis using True Cons r 3 a ok by (simp add: directive_d)
      qed
    qed
  qed
qed

lemma dec_cstr: "is_cstr (dec n)"
proof (induction n rule: dec.induct)
  case (1 n)
  have "char_of (48 + k) \<noteq> NUL" if "k < 10" for k :: nat
  proof
    assume "char_of (48 + k) = NUL"
    then have "uchar (char_of (48 + k)) = 0" by (simp add: uchar_def)
    with that show False by (simp add: uchar_char_of)
  qed
  with 1 show ?case by (subst dec.simps) simp
qed

lemma dec_int_cstr: "is_cstr (dec_int n)"
  by (simp add: dec_int_def dec_cstr)

lemma render_cstr: "render fmt args = Some t \<Longrightarrow> args_ok args \<Longrightarrow> is_cstr fmt \<Longrightarrow> is_cstr t"
proof (induction "length fmt" arbitrary: fmt args t rule: less_induct)
  case less
  show ?case
  proof (cases fmt)
    case Nil
    then show ?thesis using less.prems by simp
  next
    case (Cons c r)
    show ?thesis
    proof (cases "c = CHR ''%''")
      case False
      then obtain t2 where "render r args = Some t2" "t = c # t2" using less.prems Cons by auto
      then show ?thesis using less.hyps [of r args t2] less.prems Cons by simp
    next
      case True
      then obtain d rest where r: "r = d # rest" using less.prems Cons by (cases r) auto
      have ih: "render rest a2 = Some t2 \<Longrightarrow> args_ok a2 \<Longrightarrow> is_cstr t2" for a2 t2
        using less.hyps [of rest a2 t2] less.prems Cons r by simp
      consider "d = CHR ''%''" | "d = CHR ''s''" | "d = CHR ''d''"
        using less.prems True Cons r by (auto split: if_splits)
      then show ?thesis
      proof cases
        case 1
        then obtain t2 where "render rest args = Some t2" "t = d # t2" using less.prems True Cons r by auto
        then show ?thesis using ih less.prems Cons r by simp
      next
        case 2
        then obtain s a2 t2 where "args = FStr (Some s) # a2" "render rest a2 = Some t2" "t = s @ t2"
          using less.prems True Cons r by (auto split: list.splits farg.splits option.splits)
        then show ?thesis using ih less.prems(2) by (simp add: args_ok_def)
      next
        case 3
        then obtain n a2 t2 where "args = FInt n # a2" "render rest a2 = Some t2" "t = dec_int n @ t2"
          using less.prems True Cons r by (auto split: list.splits farg.splits option.splits)
        then show ?thesis using ih less.prems(2) by (simp add: args_ok_def dec_int_cstr)
      qed
    qed
  qed
qed

text \<open>A limit below one increment must leave room for the text: see \<open>fmtAlloc_small_limit\<close>.\<close>

lemma fmt_alloc_cases:
  assumes "render fmt args = Some t" and "args_ok args" and "is_cstr fmt" and "64 \<le> n \<or> int (length t) < n"
  shows "fmt_alloc ok n fmt args
    = (if fmt_granted ok (min (fmt_cap n) (length t)) then Inr (take (fmt_cap n) t, int (min (fmt_cap n) (length t)))
       else Inl OutOfBounds)"
proof -
  let ?b0 = "\<lparr>sb_mem = None, sb_count = 0, sb_size = 0, sb_max = n, sb_realloc = True, sb_alloc = ok\<rparr>"
  let ?l = "min (fmt_cap n) (length t)"
  have g0: "growing ok n [] ?b0" by (simp add: growing_def)
  have t: "is_cstr t" by (rule render_cstr [OF assms(1-3)])
  have run: "fmt_loop ?b0 fmt args = put_chars ?b0 t" by (rule fmt_loop_render [OF assms(1,2)])
  show ?thesis
  proof (cases "t = []")
    case True
    show ?thesis
      using run assms(4) True
      by (auto simp: fmt_alloc_def dsnprintf_def Let_def put_char_def sb_grow_def sb_store_def STR_INC_def
          fmt_granted_def poke_def read_block_def block_text_front [of "[]", simplified])
  next
    case False
    from put_chars_growing [OF g0 t]
    consider b where "put_chars ?b0 t = Inr b" "growing ok n (take (fmt_cap n) t) b" "sb_mem b \<noteq> None"
      | "put_chars ?b0 t = Inl OutOfBounds" "\<not> fmt_granted ok ?l"
      using False by auto
    then show ?thesis
    proof cases
      case 1
      then obtain m where m: "sb_mem b = Some m" by blast
      have b: "sb_count b = ?l" "length m = nat (fmt_size ?l)" "take ?l m = map Some (take (fmt_cap n) t)"
        "fmt_granted ok ?l" using 1(2) m by (auto simp: growing_def min.commute)
      have lm: "?l < length m" using b(2) fmt_size_less [of ?l] by linarith
      have sz: "int ?l < fmt_size ?l" by (rule fmt_size_less)
      have ln: "int ?l < n"
      proof (cases "64 \<le> n")
        case True
        then have "int (fmt_cap n) + 1 \<le> n" using cap_pos(1) [of n] by (simp add: STR_INC_def)
        then show ?thesis by linarith
      next
        case False
        with assms(4) show ?thesis by simp
      qed
      have "block_text (m[?l := Some NUL]) = Inr (take (fmt_cap n) t)"
        using lm b(3) t by (intro block_text_front) (auto simp: min.commute)
      then show ?thesis using run 1(1) m b lm ln sz
        by (simp add: fmt_alloc_def dsnprintf_def Let_def poke_def read_block_def)
    next
      case 2
      then show ?thesis using run by (simp add: fmt_alloc_def dsnprintf_def Let_def)
    qed
  qed
qed

lemma fmt_alloc_text:
  assumes "render fmt args = Some t" and "args_ok args" and "is_cstr fmt" and "64 \<le> n \<or> int (length t) < n"
  shows "fmtAlloc n fmt args = Inr (take (fmt_cap n) t, int (min (fmt_cap n) (length t)))"
proof -
  have "fmt_granted (\<lambda>size. True) l" for l by (simp add: fmt_granted_def)
  with fmt_alloc_cases [OF assms] show ?thesis by (simp add: fmtAlloc_def)
qed

text \<open>C36. For every format of plain text, \<open>%s\<close>, \<open>%d\<close> and \<open>%%\<close> with its arguments, and whatever sizes
  the allocator grants: \<open>fmtAlloc\<close> stores the rendered text, strings in place and numbers in decimal,
  cut to the largest multiple of 64 not above the limit, less one (to 63 for a limit below 64), every
  store and the closing NUL inside the buffer it has allocated, when each of the sizes 64, 128 and so
  on up to the one the text needs is granted; when one of them is refused it stores through NULL.  A
  limit below 64 must be larger than the text.\<close>

theorem fmtAlloc_renders:
  assumes "render fmt args = Some t" and "args_ok args" and "is_cstr fmt" and "64 \<le> n \<or> int (length t) < n"
  shows "fmt_alloc ok n fmt args
    = (if fmt_granted ok (min (fmt_cap n) (length t)) then Inr (take (fmt_cap n) t, int (min (fmt_cap n) (length t)))
       else Inl OutOfBounds)"
  by (rule fmt_alloc_cases [OF assms])

theorem fmtAlloc_renders_witness:
  "fmt_alloc (\<lambda>size. size \<le> 64) 80 ''HTTP/1.1 %d %s'' [FInt 404, FStr (Some ''Not Found'')]
    = Inr (''HTTP/1.1 404 Not Found'', 22)"
proof -
  have "render ''HTTP/1.1 %d %s'' [FInt 404, FStr (Some ''Not Found'')] = Some ''HTTP/1.1 404 Not Found''"
    by code_simp
  then show ?thesis
    using fmtAlloc_renders [of "''HTTP/1.1 %d %s''" "[FInt 404, FStr (Some ''Not Found'')]" _ 80 "\<lambda>size. size \<le> 64"]
    by (simp add: args_ok_def fmt_cap_def STR_INC_def fmt_granted_def)
qed

text \<open>A limit of 80 keeps 63 characters: the limit is rounded down to whole increments.\<close>

lemma fmtAlloc_rounds_limit: "fmt_cap 80 = 63" "fmt_cap 256 = 255" "fmt_cap 1000 = 959"
  by code_simp+

text \<open>With a limit below 64 and a text that does not fit it, the NUL is stored at the end of the first
  increment, behind bytes nothing has stored: the string runs into them.\<close>

lemma fmtAlloc_small_limit: "fmtAlloc 4 ''%s'' [FStr (Some ''abcd'')] = Inl OutOfBounds"
  by code_simp

end
