(* ===== verification/Ringq.thy ===== *)
theory Ringq
  imports Block
begin

text \<open>
  \<open>user/goahead/src_tongyong/ringq.c\<close>: byte queues that grow, the buffers of the sockets and of the
  request header.  \<open>rq_buf\<close> is the buffer (\<open>buflen\<close> is its length), \<open>servp\<close> and \<open>endp\<close> are offsets into
  it.  \<open>mem\<close> is what \<open>balloc\<close> returns for a size: a block of that size with any content, or \<open>None\<close>.
  Sizes stay far below \<open>2 ^ 31\<close>, so they are natural numbers.  A store outside the buffer is
  \<open>OutOfBounds\<close>; a copy loop that cannot make progress, which in C would not end, is \<open>Blocked\<close>.
\<close>

record ringq =
  rq_buf :: "byte list"
  servp :: nat
  endp :: nat
  maxsize :: int
  increment :: nat

abbreviation buflen :: "ringq \<Rightarrow> nat" where "buflen rq \<equiv> length (rq_buf rq)"

type_synonym allocator = "nat \<Rightarrow> byte list option"

definition B_SHIFT :: nat where "B_SHIFT = 4"

section \<open>Sizes\<close>

text \<open>\<open>for (q = 0; size; size >>= 1) q++\<close>\<close>

fun count_bits :: "nat \<Rightarrow> nat" where
  "count_bits n = (if n = 0 then 0 else Suc (count_bits (n div 2)))"

declare count_bits.simps [simp del]

definition getBinBlockSize :: "nat \<Rightarrow> nat" where
  "getBinBlockSize sz = 2 ^ (B_SHIFT + count_bits (sz div 2 ^ B_SHIFT))"

definition ringqLen :: "ringq \<Rightarrow> nat" where
  "ringqLen rq = (if endp rq < servp rq then buflen rq + endp rq - servp rq else endp rq - servp rq)"

definition ringqPutBlkMax :: "ringq \<Rightarrow> nat" where
  "ringqPutBlkMax rq = min (buflen rq - endp rq) (buflen rq - ringqLen rq - 1)"

definition ringqGetBlkMax :: "ringq \<Rightarrow> nat" where
  "ringqGetBlkMax rq = min (buflen rq - servp rq) (ringqLen rq)"

section \<open>Operations\<close>

definition ringqOpen :: "allocator \<Rightarrow> nat \<Rightarrow> int \<Rightarrow> ringq option res" where
  "ringqOpen mem initSize mx =
     (case mem (getBinBlockSize initSize) of
        None \<Rightarrow> Inr None
      | Some b \<Rightarrow>
          res_bind (put_at b 0 [NUL]) (\<lambda>b.
            Inr (Some \<lparr>rq_buf = b, servp = 0, endp = 0, maxsize = mx, increment = getBinBlockSize initSize\<rparr>)))"

definition ringqFlush :: "ringq \<Rightarrow> ringq res" where
  "ringqFlush rq = res_bind (put_at (rq_buf rq) 0 [NUL]) (\<lambda>b. Inr (rq\<lparr>rq_buf := b, servp := 0, endp := 0\<rparr>))"

definition ringqGetc :: "ringq \<Rightarrow> (int \<times> ringq) res" where
  "ringqGetc rq =
     (if servp rq = endp rq then Inr (- 1, rq)
      else if buflen rq \<le> servp rq then Inl OutOfBounds
      else Inr (int (uchar (rq_buf rq ! servp rq)),
                rq\<lparr>servp := (if buflen rq \<le> servp rq + 1 then 0 else servp rq + 1)\<rparr>))"

text \<open>The copy loop of \<open>ringqGetBlk\<close>: the bytes read and the queue.\<close>

function ringqGetBlk :: "ringq \<Rightarrow> nat \<Rightarrow> byte list \<times> ringq" where
  "ringqGetBlk rq sz =
     (if sz = 0 then ([], rq)
      else let this = min (ringqGetBlkMax rq) sz in
        if this = 0 then ([], rq)
        else let s = servp rq + this;
                 (bs, rq') = ringqGetBlk (rq\<lparr>servp := (if buflen rq \<le> s then 0 else s)\<rparr>) (sz - this)
             in (get_slice (rq_buf rq) (servp rq) this @ bs, rq'))"
  by pat_completeness auto
termination by (relation "measure (\<lambda>(rq, sz). sz)") auto

declare ringqGetBlk.simps [simp del]

text \<open>One \<open>memcpy\<close> of \<open>ringqPutBlk\<close> with the update of \<open>endp\<close>.\<close>

definition put_run :: "ringq \<Rightarrow> byte list \<Rightarrow> ringq res" where
  "put_run rq bs =
     res_bind (put_at (rq_buf rq) (endp rq) bs) (\<lambda>b.
       (let e = endp rq + length bs in Inr (rq\<lparr>rq_buf := b, endp := (if buflen rq \<le> e then 0 else e)\<rparr>)))"

text \<open>The copy loop of \<open>ringqPutBlk\<close>, with \<open>ringqGrow\<close> as a parameter because the two call each other;
  the result is the number of bytes put and the queue.\<close>

function put_loop :: "(ringq \<Rightarrow> ringq option res) \<Rightarrow> ringq \<Rightarrow> byte list \<Rightarrow> (nat \<times> ringq) res" where
  "put_loop grow rq bs =
     (if bs = [] then Inr (0, rq)
      else
        res_bind (if 0 < ringqPutBlkMax rq then Inr (Some rq) else grow rq) (\<lambda>g.
        case g of
          None \<Rightarrow> Inr (0, rq)
        | Some rq \<Rightarrow>
            (let this = min (ringqPutBlkMax rq) (length bs) in
             if this = 0 then Inl Blocked
             else case put_run rq (take this bs) of
                 Inl e \<Rightarrow> Inl e
               | Inr rq \<Rightarrow>
                   res_bind (put_loop grow rq (drop this bs)) (\<lambda>(n, rq). Inr (this + n, rq)))))"
  by pat_completeness auto
termination
  by (relation "measure (\<lambda>(grow, rq, bs). length bs)") (auto simp: min_def)

declare put_loop.simps [simp del]

text \<open>\<open>ringqGrow\<close>: \<open>None\<close> when it fails.  The old data is copied to the start of the new buffer and put
  from there into the emptied queue.\<close>

definition ringqGrow :: "allocator \<Rightarrow> ringq \<Rightarrow> ringq option res" where
  "ringqGrow mem rq =
     (if 0 \<le> maxsize rq \<and> maxsize rq \<le> int (buflen rq) then Inr None
      else
        (let len = ringqLen rq in
         case mem (buflen rq + increment rq) of
           None \<Rightarrow> Inr None
         | Some newbuf \<Rightarrow>
             (let (bs, rq') = ringqGetBlk rq len in
              res_bind (put_at newbuf 0 bs) (\<lambda>newbuf.
              res_bind (put_loop (\<lambda>_. Inr None) (rq\<lparr>rq_buf := newbuf, servp := 0, endp := 0\<rparr>) (take len newbuf)) (\<lambda>(n, rq).
                Inr (Some (rq\<lparr>increment := getBinBlockSize (2 * increment rq)\<rparr>)))))))"

definition ringqPutBlk :: "allocator \<Rightarrow> ringq \<Rightarrow> byte list \<Rightarrow> (nat \<times> ringq) res" where
  "ringqPutBlk mem rq bs = put_loop (ringqGrow mem) rq bs"

definition ringqAddNull :: "ringq \<Rightarrow> ringq res" where
  "ringqAddNull rq = res_bind (put_at (rq_buf rq) (endp rq) [NUL]) (\<lambda>b. Inr (rq\<lparr>rq_buf := b\<rparr>))"

definition ringqPutStr :: "allocator \<Rightarrow> ringq \<Rightarrow> string \<Rightarrow> (nat \<times> ringq) res" where
  "ringqPutStr mem rq str =
     res_bind (ringqPutBlk mem rq str) (\<lambda>(rc, rq). res_bind (ringqAddNull rq) (\<lambda>rq. Inr (rc, rq)))"

text \<open>\<open>if (ringqPutBlkMax(rq) < sizeof(char_t) && !ringqGrow(rq)) return -1\<close>\<close>

definition make_room :: "allocator \<Rightarrow> ringq \<Rightarrow> ringq option res" where
  "make_room mem rq = (if ringqPutBlkMax rq < 1 then ringqGrow mem rq else Inr (Some rq))"

definition ringqPutc :: "allocator \<Rightarrow> ringq \<Rightarrow> byte \<Rightarrow> (int \<times> ringq) res" where
  "ringqPutc mem rq c =
     res_bind (make_room mem rq) (\<lambda>g.
     case g of
       None \<Rightarrow> Inr (- 1, rq)
     | Some rq \<Rightarrow> res_bind (put_run rq [c]) (\<lambda>rq. Inr (0, rq)))"

definition ringqInsertc :: "allocator \<Rightarrow> ringq \<Rightarrow> byte \<Rightarrow> (int \<times> ringq) res" where
  "ringqInsertc mem rq c =
     res_bind (make_room mem rq) (\<lambda>g.
     case g of
       None \<Rightarrow> Inr (- 1, rq)
     | Some rq \<Rightarrow>
         (let s = (if servp rq = 0 then buflen rq else servp rq) - 1 in
          res_bind (put_at (rq_buf rq) s [c]) (\<lambda>b. Inr (0, rq\<lparr>rq_buf := b, servp := s\<rparr>))))"

definition ringqPutBlkAdj :: "ringq \<Rightarrow> nat \<Rightarrow> ringq res" where
  "ringqPutBlkAdj rq sz =
     (let e = endp rq + sz; e = (if buflen rq \<le> e then e - buflen rq else e) in
      if buflen rq \<le> e then ringqFlush (rq\<lparr>endp := e\<rparr>) else Inr (rq\<lparr>endp := e\<rparr>))"

definition ringqGetBlkAdj :: "ringq \<Rightarrow> nat \<Rightarrow> ringq res" where
  "ringqGetBlkAdj rq sz =
     (let s = servp rq + sz; s = (if buflen rq \<le> s then s - buflen rq else s) in
      if buflen rq \<le> s then ringqFlush (rq\<lparr>servp := s\<rparr>) else Inr (rq\<lparr>servp := s\<rparr>))"

section \<open>The queue as a list\<close>

definition contents :: "ringq \<Rightarrow> byte list" where
  "contents rq =
     (if endp rq < servp rq then drop (servp rq) (rq_buf rq) @ take (endp rq) (rq_buf rq)
      else get_slice (rq_buf rq) (servp rq) (endp rq - servp rq))"

definition rq_ok :: "ringq \<Rightarrow> bool" where
  "rq_ok rq \<longleftrightarrow> servp rq < buflen rq \<and> endp rq < buflen rq \<and> 0 < increment rq"

definition alloc_ok :: "allocator \<Rightarrow> bool" where
  "alloc_ok mem \<longleftrightarrow> (\<forall>n b. mem n = Some b \<longrightarrow> length b = n)"

lemma length_contents: "rq_ok rq \<Longrightarrow> length (contents rq) = ringqLen rq"
  by (auto simp: contents_def ringqLen_def rq_ok_def)

lemma ringqLen_less: "rq_ok rq \<Longrightarrow> ringqLen rq < buflen rq"
  by (auto simp: ringqLen_def rq_ok_def)

lemma getBinBlockSize_pos: "0 < getBinBlockSize n"
  by (simp add: getBinBlockSize_def)

lemma put_run_ok:
  assumes ok: "rq_ok rq" and n: "length bs \<le> ringqPutBlkMax rq"
  shows "\<exists>rq'. put_run rq bs = Inr rq' \<and> rq_ok rq' \<and> contents rq' = contents rq @ bs
    \<and> buflen rq' = buflen rq \<and> maxsize rq' = maxsize rq \<and> increment rq' = increment rq"
proof -
  let ?e = "endp rq + length bs"
  have e: "?e \<le> buflen rq" using n ok by (auto simp: ringqPutBlkMax_def rq_ok_def)
  let ?b = "put_slice (rq_buf rq) (endp rq) bs"
  let ?rq = "rq\<lparr>rq_buf := ?b, endp := (if buflen rq \<le> ?e then 0 else ?e)\<rparr>"
  have p: "put_run rq bs = Inr ?rq" using e by (simp add: put_run_def put_at_def Let_def)
  have ok': "rq_ok ?rq" using ok e by (auto simp: rq_ok_def)
  have "contents ?rq = contents rq @ bs"
  proof (cases "endp rq < servp rq")
    case True
    have "?e < servp rq" using n ok True by (auto simp: ringqPutBlkMax_def ringqLen_def rq_ok_def)
    then show ?thesis using True ok
      by (auto simp: contents_def put_slice_def rq_ok_def min_def)
  next
    case False
    have s: "?e \<le> buflen rq + servp rq - 1" "servp rq \<le> endp rq"
      using n ok False by (auto simp: ringqPutBlkMax_def ringqLen_def rq_ok_def)
    have d: "drop (servp rq) ?b = get_slice (rq_buf rq) (servp rq) (endp rq - servp rq) @ bs @ drop ?e (rq_buf rq)"
      using s ok by (simp add: put_slice_def get_slice_def rq_ok_def drop_take)
    show ?thesis
    proof (cases "buflen rq \<le> ?e")
      case True
      then have "0 < servp rq" "?e = buflen rq" using s e ok by (auto simp: rq_ok_def)
      then show ?thesis using d s by (simp add: contents_def)
    next
      case in_line: False
      have "get_slice ?b (servp rq) (?e - servp rq) = get_slice (rq_buf rq) (servp rq) (endp rq - servp rq) @ bs"
        using d s ok e by (simp add: get_slice_def rq_ok_def)
      then show ?thesis using in_line s by (simp add: contents_def)
    qed
  qed
  then show ?thesis using p ok' e by simp
qed

text \<open>One copy of \<open>ringqGetBlk\<close>.\<close>

lemma get_run_ok:
  assumes ok: "rq_ok rq" and n: "n \<le> ringqGetBlkMax rq"
  defines "rq' \<equiv> rq\<lparr>servp := (if buflen rq \<le> servp rq + n then 0 else servp rq + n)\<rparr>"
  shows "rq_ok rq'" and "get_slice (rq_buf rq) (servp rq) n @ contents rq' = contents rq"
proof -
  have s: "servp rq + n \<le> buflen rq" "n \<le> ringqLen rq" using n ok by (auto simp: ringqGetBlkMax_def rq_ok_def)
  show "rq_ok rq'" using ok s by (auto simp: rq_ok_def rq'_def)
  show "get_slice (rq_buf rq) (servp rq) n @ contents rq' = contents rq"
  proof (cases "endp rq < servp rq")
    case True
    have "get_slice (rq_buf rq) (servp rq) n @ drop (servp rq + n) (rq_buf rq) = drop (servp rq) (rq_buf rq)"
      by (metis append_take_drop_id drop_drop get_slice_def add.commute)
    then show ?thesis using True s by (auto simp: contents_def rq'_def get_slice_def)
  next
    case False
    then have e: "servp rq + n \<le> endp rq" "endp rq < buflen rq" using s ok by (auto simp: ringqLen_def rq_ok_def)
    then have "endp rq - servp rq = n + (endp rq - (servp rq + n))" by simp
    then have "get_slice (rq_buf rq) (servp rq) (endp rq - servp rq) =
        get_slice (rq_buf rq) (servp rq) n @ get_slice (rq_buf rq) (servp rq + n) (endp rq - (servp rq + n))"
      by (metis add.commute drop_drop get_slice_def take_add)
    then show ?thesis using False e by (simp add: contents_def rq'_def)
  qed
qed

lemma getBlkMax_0: "rq_ok rq \<Longrightarrow> ringqGetBlkMax rq = 0 \<longleftrightarrow> contents rq = []"
  unfolding length_0_conv [symmetric] length_contents by (auto simp: ringqGetBlkMax_def rq_ok_def min_def)

lemma ringqGetBlk_ok:
  "rq_ok rq \<Longrightarrow> rq_ok (snd (ringqGetBlk rq n)) \<and> fst (ringqGetBlk rq n) = take n (contents rq)
     \<and> contents (snd (ringqGetBlk rq n)) = drop n (contents rq) \<and> rq_buf (snd (ringqGetBlk rq n)) = rq_buf rq"
proof (induction rq n rule: ringqGetBlk.induct)
  case (1 rq n)
  let ?k = "min (ringqGetBlkMax rq) n"
  show ?case
  proof (cases "n = 0 \<or> ?k = 0")
    case True
    then show ?thesis using 1(2) getBlkMax_0 [OF 1(2)] by (subst (1 2 3 4) ringqGetBlk.simps) (auto simp: min_def)
  next
    case False
    let ?rq = "rq\<lparr>servp := (if buflen rq \<le> servp rq + ?k then 0 else servp rq + ?k)\<rparr>"
    have le: "?k \<le> ringqGetBlkMax rq" by simp
    have g: "rq_ok ?rq" "get_slice (rq_buf rq) (servp rq) ?k @ contents ?rq = contents rq"
      using get_run_ok [OF 1(2) le] by simp_all
    have len: "length (get_slice (rq_buf rq) (servp rq) ?k) = ?k"
      using 1(2) by (intro length_get_slice) (auto simp: ringqGetBlkMax_def rq_ok_def)
    obtain bs rq' where r: "ringqGetBlk ?rq (n - ?k) = (bs, rq')" by (cases "ringqGetBlk ?rq (n - ?k)")
    have ih: "rq_ok rq' \<and> bs = take (n - ?k) (contents ?rq) \<and> contents rq' = drop (n - ?k) (contents ?rq) \<and> rq_buf rq' = rq_buf rq"
      using 1(1) [OF _ refl _ refl g(1)] False r by simp
    have run: "ringqGetBlk rq n = (get_slice (rq_buf rq) (servp rq) ?k @ bs, rq')"
    proof -
      have "(n = 0) = False" "(?k = 0) = False" using False by simp_all
      then show ?thesis using r by (subst ringqGetBlk.simps) (simp only: Let_def if_False prod.case)
    qed
    have "n = ?k + (n - ?k)" by simp
    then have "take n (contents rq) = get_slice (rq_buf rq) (servp rq) ?k @ take (n - ?k) (contents ?rq)"
      "drop n (contents rq) = drop (n - ?k) (contents ?rq)"
      using g(2) len by (metis append_eq_conv_conj drop_drop add.commute take_add)+
    then show ?thesis using ih run by simp
  qed
qed

text \<open>Putting a block that fits.\<close>

lemma putBlkMax_0: "rq_ok rq \<Longrightarrow> ringqPutBlkMax rq = 0 \<longleftrightarrow> ringqLen rq + 1 = buflen rq"
  using ringqLen_less [of rq] by (auto simp: ringqPutBlkMax_def rq_ok_def)

lemma put_run_servp: "put_run rq bs = Inr rq' \<Longrightarrow> servp rq' = servp rq"
  by (auto simp: put_run_def put_at_def Let_def split: if_splits)

lemma put_loop_fits:
  "rq_ok rq \<Longrightarrow> ringqLen rq + length bs < buflen rq \<Longrightarrow>
   \<exists>rq'. put_loop grow rq bs = Inr (length bs, rq') \<and> rq_ok rq' \<and> contents rq' = contents rq @ bs \<and> buflen rq' = buflen rq
     \<and> maxsize rq' = maxsize rq \<and> increment rq' = increment rq \<and> servp rq' = servp rq"
proof (induction "length bs" arbitrary: rq bs rule: less_induct)
  case less
  show ?case
  proof (cases "bs = []")
    case True
    then show ?thesis using less.prems by (subst put_loop.simps) simp
  next
    case False
    let ?k = "min (ringqPutBlkMax rq) (length bs)"
    have m: "0 < ringqPutBlkMax rq" using putBlkMax_0 [OF less.prems(1)] less.prems(2) False by (cases bs; cases "ringqPutBlkMax rq") auto
    obtain rq1 where r1: "put_run rq (take ?k bs) = Inr rq1" "rq_ok rq1" "contents rq1 = contents rq @ take ?k bs"
      "buflen rq1 = buflen rq" "maxsize rq1 = maxsize rq" "increment rq1 = increment rq"
      using put_run_ok [OF less.prems(1), of "take ?k bs"] by auto
    have s1: "servp rq1 = servp rq" by (rule put_run_servp [OF r1(1)])
    have "length (drop ?k bs) < length bs" using m False by simp
    moreover have "ringqLen rq1 + length (drop ?k bs) < buflen rq1"
      using r1(3,4) less.prems(2) length_contents [OF r1(2)] length_contents [OF less.prems(1)] by simp
    ultimately obtain rq2 where r2: "put_loop grow rq1 (drop ?k bs) = Inr (length (drop ?k bs), rq2)" "rq_ok rq2"
      "contents rq2 = contents rq1 @ drop ?k bs" "buflen rq2 = buflen rq1" "maxsize rq2 = maxsize rq1"
      "increment rq2 = increment rq1" "servp rq2 = servp rq1"
      using less.hyps [OF _ r1(2)] by blast
    have "put_loop grow rq bs = Inr (?k + length (drop ?k bs), rq2)"
      using m False r1(1) r2(1) by (subst put_loop.simps) (simp add: Let_def)
    moreover have "?k + length (drop ?k bs) = length bs" by simp
    moreover have "contents rq2 = contents rq @ bs" using r2(3) r1(3) by (metis append.assoc append_take_drop_id)
    ultimately show ?thesis using r2 r1(4-6) s1 by auto
  qed
qed

text \<open>Growing keeps the data and makes room.\<close>

lemma ringqGrow_ok:
  assumes ok: "rq_ok rq" and m: "alloc_ok mem"
  shows "\<exists>g. ringqGrow mem rq = Inr g \<and> (case g of
      None \<Rightarrow> (0 \<le> maxsize rq \<and> maxsize rq \<le> int (buflen rq)) \<or> mem (buflen rq + increment rq) = None
    | Some rq' \<Rightarrow> rq_ok rq' \<and> contents rq' = contents rq \<and> buflen rq' = buflen rq + increment rq \<and> maxsize rq' = maxsize rq
        \<and> servp rq' = 0 \<and> increment rq' = getBinBlockSize (2 * increment rq))"
proof (cases "(0 \<le> maxsize rq \<and> maxsize rq \<le> int (buflen rq)) \<or> mem (buflen rq + increment rq) = None")
  case True
  then show ?thesis by (auto simp: ringqGrow_def Let_def)
next
  case False
  then obtain nb where nb: "mem (buflen rq + increment rq) = Some nb" by auto
  have ln: "length nb = buflen rq + increment rq" using nb m by (simp add: alloc_ok_def)
  let ?n = "ringqLen rq"
  have n: "?n < buflen rq" by (rule ringqLen_less [OF ok])
  obtain bs rq1 where g: "ringqGetBlk rq ?n = (bs, rq1)" by (cases "ringqGetBlk rq ?n")
  have bs: "bs = contents rq" "length bs = ?n"
    using ringqGetBlk_ok [OF ok, of ?n] g length_contents [OF ok] by auto
  let ?b = "put_slice nb 0 bs"
  let ?rq = "rq\<lparr>rq_buf := ?b, servp := 0, endp := 0\<rparr>"
  have b: "length ?b = buflen rq + increment rq" "take ?n ?b = bs" using ln n bs by (simp_all add: put_slice_def)
  have ok1: "rq_ok ?rq" using ok b(1) by (auto simp: rq_ok_def)
  have "ringqLen ?rq + length bs < buflen ?rq" using n bs b(1) by (simp add: ringqLen_def)
  then obtain rq2 where r2: "put_loop (\<lambda>_. Inr None) ?rq bs = Inr (length bs, rq2)" "rq_ok rq2"
    "contents rq2 = contents ?rq @ bs" "buflen rq2 = buflen ?rq" "maxsize rq2 = maxsize ?rq" "increment rq2 = increment ?rq" "servp rq2 = servp ?rq"
    using put_loop_fits [OF ok1] by blast
  have c0: "contents ?rq = []" by (simp add: contents_def get_slice_def)
  let ?r = "rq2\<lparr>increment := getBinBlockSize (2 * increment rq)\<rparr>"
  have "ringqGrow mem rq = Inr (Some ?r)"
    using False nb g ln n bs b(2) r2(1,6) by (simp add: ringqGrow_def Let_def put_at_def)
  moreover have "rq_ok ?r" "contents ?r = contents rq"
    using r2 c0 bs getBinBlockSize_pos [of "2 * increment rq"] by (simp_all add: rq_ok_def contents_def)
  ultimately show ?thesis using r2 b(1) by auto
qed

section \<open>The queue interface\<close>

text \<open>What a user of a byte queue relies on: each operation is one on the list of bytes it holds.  A
  put may be refused, and then leaves the queue as it was.\<close>

locale byte_queue =
  fixes sound :: "'q \<Rightarrow> bool" and bytes :: "'q \<Rightarrow> byte list"
    and put :: "'q \<Rightarrow> byte \<Rightarrow> (int \<times> 'q) res" and front :: "'q \<Rightarrow> byte \<Rightarrow> (int \<times> 'q) res"
    and get :: "'q \<Rightarrow> (int \<times> 'q) res"
  assumes put_law: "sound q \<Longrightarrow> \<exists>q'. (put q c = Inr (0, q') \<and> sound q' \<and> bytes q' = bytes q @ [c]) \<or> (put q c = Inr (- 1, q) \<and> q' = q)"
    and front_law: "sound q \<Longrightarrow> \<exists>q'. (front q c = Inr (0, q') \<and> sound q' \<and> bytes q' = c # bytes q) \<or> (front q c = Inr (- 1, q) \<and> q' = q)"
    and get_law: "sound q \<Longrightarrow> \<exists>q'. get q = Inr (case bytes q of [] \<Rightarrow> - 1 | c # cs \<Rightarrow> int (uchar c), q') \<and> sound q' \<and> bytes q' = tl (bytes q)"
begin

fun put_many :: "'q \<Rightarrow> byte list \<Rightarrow> (nat \<times> 'q) res" where
  "put_many q [] = Inr (0, q)"
| "put_many q (c # cs) =
     res_bind (put q c) (\<lambda>(r, q). if r < 0 then Inr (0, q) else res_bind (put_many q cs) (\<lambda>(n, q). Inr (n + 1, q)))"

fun get_many :: "'q \<Rightarrow> nat \<Rightarrow> (int list \<times> 'q) res" where
  "get_many q 0 = Inr ([], q)"
| "get_many q (Suc n) =
     res_bind (get q) (\<lambda>(c, q). if c < 0 then Inr ([], q) else res_bind (get_many q n) (\<lambda>(cs, q). Inr (c # cs, q)))"

lemma put_many_law: "sound q \<Longrightarrow> \<exists>n q'. put_many q cs = Inr (n, q') \<and> n \<le> length cs \<and> sound q' \<and> bytes q' = bytes q @ take n cs"
proof (induction cs arbitrary: q)
  case Nil
  then show ?case by auto
next
  case (Cons c cs)
  from put_law [OF Cons.prems, of c] obtain q1 where
    "(put q c = Inr (0, q1) \<and> sound q1 \<and> bytes q1 = bytes q @ [c]) \<or> (put q c = Inr (- 1, q) \<and> q1 = q)" by blast
  then show ?case
  proof
    assume a: "put q c = Inr (0, q1) \<and> sound q1 \<and> bytes q1 = bytes q @ [c]"
    then obtain n q2 where "put_many q1 cs = Inr (n, q2)" "n \<le> length cs" "sound q2" "bytes q2 = bytes q1 @ take n cs"
      using Cons.IH by blast
    then show ?thesis using a by (intro exI [of _ "n + 1"] exI [of _ q2]) simp
  next
    assume "put q c = Inr (- 1, q) \<and> q1 = q"
    then show ?thesis using Cons.prems by (intro exI [of _ 0] exI [of _ q]) simp
  qed
qed

lemma get_many_law: "sound q \<Longrightarrow> \<exists>q'. get_many q n = Inr (map (\<lambda>c. int (uchar c)) (take n (bytes q)), q')
    \<and> sound q' \<and> bytes q' = drop n (bytes q)"
proof (induction n arbitrary: q)
  case 0
  then show ?case by simp
next
  case (Suc n)
  obtain q1 where q1: "get q = Inr (case bytes q of [] \<Rightarrow> - 1 | c # cs \<Rightarrow> int (uchar c), q1)" "sound q1" "bytes q1 = tl (bytes q)"
    using get_law [OF Suc.prems] by blast
  show ?case
  proof (cases "bytes q")
    case Nil
    then show ?thesis using q1 by simp
  next
    case (Cons c cs)
    then show ?thesis using q1 Suc.IH [OF q1(2)] by auto
  qed
qed

text \<open>First in, first out.\<close>

lemma fifo:
  assumes "sound q" and "put_many q cs = Inr (n, q')"
  shows "\<exists>q''. get_many q' (length (bytes q) + n) = Inr (map (\<lambda>c. int (uchar c)) (bytes q @ take n cs), q'') \<and> bytes q'' = []"
proof -
  have q': "sound q'" "bytes q' = bytes q @ take n cs" "n \<le> length cs"
    using put_many_law [OF assms(1), of cs] assms(2) by auto
  then show ?thesis using get_many_law [OF q'(1), of "length (bytes q) + n"] by auto
qed

end

lemma ringqGetc_ok:
  assumes "rq_ok rq"
  shows "\<exists>rq'. ringqGetc rq = Inr (case contents rq of [] \<Rightarrow> - 1 | c # cs \<Rightarrow> int (uchar c), rq') \<and> rq_ok rq' \<and> contents rq' = tl (contents rq)"
proof (cases "ringqLen rq = 0")
  case True
  then have "contents rq = []" "servp rq = endp rq"
    using length_contents [OF assms] assms by (auto simp: ringqLen_def rq_ok_def split: if_splits)
  then show ?thesis using assms by (simp add: ringqGetc_def)
next
  case False
  let ?rq = "rq\<lparr>servp := (if buflen rq \<le> servp rq + 1 then 0 else servp rq + 1)\<rparr>"
  have m: "1 \<le> ringqGetBlkMax rq" using False assms by (auto simp: ringqGetBlkMax_def rq_ok_def)
  have s: "servp rq < buflen rq" using assms by (simp add: rq_ok_def)
  have "get_slice (rq_buf rq) (servp rq) 1 = [rq_buf rq ! servp rq]"
    using s by (simp add: get_slice_def take_Suc hd_drop_conv_nth)
  then have "contents rq = (rq_buf rq ! servp rq) # contents ?rq" "rq_ok ?rq"
    using get_run_ok [OF assms m] by simp_all
  moreover have "servp rq \<noteq> endp rq" using False by (auto simp: ringqLen_def)
  ultimately show ?thesis using s by (simp add: ringqGetc_def)
qed

lemma make_room_ok:
  assumes "rq_ok rq" and "alloc_ok mem"
  shows "\<exists>g. make_room mem rq = Inr g \<and> (case g of None \<Rightarrow> True | Some rq' \<Rightarrow> rq_ok rq' \<and> contents rq' = contents rq
    \<and> 1 \<le> ringqPutBlkMax rq' \<and> (servp rq = 0 \<longrightarrow> servp rq' = 0))"
proof (cases "ringqPutBlkMax rq < 1")
  case False
  then show ?thesis using assms(1) by (simp add: make_room_def)
next
  case True
  have i: "0 < increment rq" using assms(1) by (simp add: rq_ok_def)
  obtain g where g: "ringqGrow mem rq = Inr g" "case g of None \<Rightarrow> True | Some rq' \<Rightarrow> rq_ok rq' \<and> contents rq' = contents rq
    \<and> buflen rq' = buflen rq + increment rq \<and> servp rq' = 0"
    using ringqGrow_ok [OF assms] by (auto split: option.splits)
  show ?thesis
  proof (cases g)
    case None
    then show ?thesis using g True by (simp add: make_room_def)
  next
    case (Some rq')
    then have r: "rq_ok rq'" "contents rq' = contents rq" "buflen rq' = buflen rq + increment rq" "servp rq' = 0" using g(2) by auto
    have "ringqLen rq' = ringqLen rq" using length_contents [OF r(1)] length_contents [OF assms(1)] r(2) by simp
    then have "ringqPutBlkMax rq' \<noteq> 0" using putBlkMax_0 [OF r(1)] ringqLen_less [OF assms(1)] r(3) i by simp
    then show ?thesis using g Some r True by (simp add: make_room_def)
  qed
qed

lemma ringqPutc_ok:
  assumes "rq_ok rq" and "alloc_ok mem"
  shows "\<exists>rq'. (ringqPutc mem rq c = Inr (0, rq') \<and> rq_ok rq' \<and> contents rq' = contents rq @ [c])
    \<or> (ringqPutc mem rq c = Inr (- 1, rq) \<and> rq' = rq)"
proof -
  obtain g where g: "make_room mem rq = Inr g" "case g of None \<Rightarrow> True | Some rq' \<Rightarrow> rq_ok rq' \<and> contents rq' = contents rq \<and> 1 \<le> ringqPutBlkMax rq'"
    using make_room_ok [OF assms] by (auto split: option.splits)
  show ?thesis
  proof (cases g)
    case None
    then show ?thesis using g by (simp add: ringqPutc_def)
  next
    case (Some rq1)
    then have r: "rq_ok rq1" "contents rq1 = contents rq" "length [c] \<le> ringqPutBlkMax rq1" using g(2) by auto
    then obtain rq2 where "put_run rq1 [c] = Inr rq2" "rq_ok rq2" "contents rq2 = contents rq1 @ [c]"
      using put_run_ok [OF r(1,3)] by blast
    then show ?thesis using g(1) Some r(2) by (auto simp: ringqPutc_def)
  qed
qed

lemma ringqInsertc_run:
  assumes ok: "rq_ok rq" and m: "1 \<le> ringqPutBlkMax rq"
  defines "s \<equiv> (if servp rq = 0 then buflen rq else servp rq) - 1"
  shows "\<exists>b. put_at (rq_buf rq) s [c] = Inr b \<and> rq_ok (rq\<lparr>rq_buf := b, servp := s\<rparr>) \<and> contents (rq\<lparr>rq_buf := b, servp := s\<rparr>) = c # contents rq"
proof -
  have l: "ringqLen rq + 1 < buflen rq" using m ringqLen_less [OF ok] by (auto simp: ringqPutBlkMax_def)
  have s: "s < buflen rq" using ok by (auto simp: s_def rq_ok_def)
  let ?b = "put_slice (rq_buf rq) s [c]" and ?rq = "rq\<lparr>rq_buf := put_slice (rq_buf rq) s [c], servp := s\<rparr>"
  have b: "?b = (rq_buf rq)[s := c]" using s by (simp add: put_slice_def upd_conv_take_nth_drop)
  have ne: "endp rq \<noteq> s" using l ok by (auto simp: s_def ringqLen_def rq_ok_def split: if_splits)
  have step: "drop s ?b = c # drop (s + 1) (rq_buf rq)" using s by (simp add: b drop_update_swap Cons_nth_drop_Suc [symmetric])
  have "contents ?rq = c # contents rq"
  proof (cases "endp rq < s")
    case True
    have "take (endp rq) ?b = take (endp rq) (rq_buf rq)" using True by (simp add: b)
    moreover have "endp rq < servp rq \<and> s + 1 = servp rq \<or> servp rq = 0 \<and> s + 1 = buflen rq" using True s by (auto simp: s_def)
    ultimately show ?thesis using True step ok by (auto simp: contents_def get_slice_def rq_ok_def)
  next
    case False
    then have e: "s < endp rq" "s + 1 = servp rq" "servp rq \<le> endp rq" using ne ok by (auto simp: s_def rq_ok_def split: if_splits)
    then have "endp rq - s = Suc (endp rq - servp rq)" by simp
    then have "get_slice ?b s (endp rq - s) = c # get_slice (rq_buf rq) (servp rq) (endp rq - servp rq)"
      using step e(2) by (simp add: get_slice_def)
    then show ?thesis using e by (simp add: contents_def)
  qed
  moreover have "rq_ok ?rq" using ok s by (simp add: rq_ok_def)
  moreover have "put_at (rq_buf rq) s [c] = Inr ?b" using s by (simp add: put_at_def)
  ultimately show ?thesis by blast
qed

lemma ringqInsertc_ok:
  assumes "rq_ok rq" and "alloc_ok mem"
  shows "\<exists>rq'. (ringqInsertc mem rq c = Inr (0, rq') \<and> rq_ok rq' \<and> contents rq' = c # contents rq)
    \<or> (ringqInsertc mem rq c = Inr (- 1, rq) \<and> rq' = rq)"
proof -
  obtain g where g: "make_room mem rq = Inr g" "case g of None \<Rightarrow> True | Some rq' \<Rightarrow> rq_ok rq' \<and> contents rq' = contents rq \<and> 1 \<le> ringqPutBlkMax rq'"
    using make_room_ok [OF assms] by (auto split: option.splits)
  show ?thesis
  proof (cases g)
    case None
    then show ?thesis using g by (simp add: ringqInsertc_def)
  next
    case (Some rq1)
    then have r: "rq_ok rq1" "contents rq1 = contents rq" "1 \<le> ringqPutBlkMax rq1" using g(2) by auto
    from ringqInsertc_run [OF r(1,3), of c] obtain b where
      "put_at (rq_buf rq1) ((if servp rq1 = 0 then buflen rq1 else servp rq1) - 1) [c] = Inr b"
      "rq_ok (rq1\<lparr>rq_buf := b, servp := (if servp rq1 = 0 then buflen rq1 else servp rq1) - 1\<rparr>)"
      "contents (rq1\<lparr>rq_buf := b, servp := (if servp rq1 = 0 then buflen rq1 else servp rq1) - 1\<rparr>) = c # contents rq1" by blast
    then show ?thesis using g(1) Some r(2) by (auto simp: ringqInsertc_def Let_def)
  qed
qed

interpretation rq: byte_queue "\<lambda>rq. alloc_ok mem \<and> rq_ok rq" contents "ringqPutc mem" "ringqInsertc mem" ringqGetc for mem
proof
  fix q c assume "alloc_ok mem \<and> rq_ok q"
  then show "\<exists>q'. (ringqPutc mem q c = Inr (0, q') \<and> (alloc_ok mem \<and> rq_ok q') \<and> contents q' = contents q @ [c])
      \<or> (ringqPutc mem q c = Inr (- 1, q) \<and> q' = q)"
    and "\<exists>q'. (ringqInsertc mem q c = Inr (0, q') \<and> (alloc_ok mem \<and> rq_ok q') \<and> contents q' = c # contents q)
      \<or> (ringqInsertc mem q c = Inr (- 1, q) \<and> q' = q)"
    using ringqPutc_ok ringqInsertc_ok by blast+
next
  fix q assume "alloc_ok mem \<and> rq_ok q"
  then show "\<exists>q'. ringqGetc q = Inr (case contents q of [] \<Rightarrow> - 1 | c # cs \<Rightarrow> int (uchar c), q')
      \<and> (alloc_ok mem \<and> rq_ok q') \<and> contents q' = tl (contents q)"
    using ringqGetc_ok by blast
qed

section \<open>Blocks and strings\<close>

lemma put_loop_ok:
  "alloc_ok mem \<Longrightarrow> rq_ok rq \<Longrightarrow>
   \<exists>n rq'. put_loop (ringqGrow mem) rq bs = Inr (n, rq') \<and> rq_ok rq' \<and> n \<le> length bs \<and> contents rq' = contents rq @ take n bs
     \<and> maxsize rq' = maxsize rq \<and> (servp rq = 0 \<longrightarrow> servp rq' = 0)
     \<and> (n = length bs \<or> (\<exists>k. mem k = None) \<or> (0 \<le> maxsize rq \<and> maxsize rq \<le> int (length (contents rq')) + 1))"
proof (induction "length bs" arbitrary: rq bs rule: less_induct)
  case less
  show ?case
  proof (cases "bs = []")
    case True
    then show ?thesis using less.prems by (subst put_loop.simps) simp
  next
    case False
    obtain g where g: "(if 0 < ringqPutBlkMax rq then Inr (Some rq) else ringqGrow mem rq) = Inr g"
      and gl: "case g of None \<Rightarrow> (0 \<le> maxsize rq \<and> maxsize rq \<le> int (length (contents rq)) + 1) \<or> (\<exists>k. mem k = None)
        | Some rq' \<Rightarrow> rq_ok rq' \<and> contents rq' = contents rq \<and> 0 < ringqPutBlkMax rq' \<and> maxsize rq' = maxsize rq \<and> (servp rq = 0 \<longrightarrow> servp rq' = 0)"
    proof (cases "0 < ringqPutBlkMax rq")
      case True
      then show ?thesis using that [of "Some rq"] less.prems by simp
    next
      case full: False
      obtain g where g: "ringqGrow mem rq = Inr g" and gl: "case g of
          None \<Rightarrow> (0 \<le> maxsize rq \<and> maxsize rq \<le> int (buflen rq)) \<or> mem (buflen rq + increment rq) = None
        | Some rq' \<Rightarrow> rq_ok rq' \<and> contents rq' = contents rq \<and> buflen rq' = buflen rq + increment rq \<and> maxsize rq' = maxsize rq
            \<and> servp rq' = 0 \<and> increment rq' = getBinBlockSize (2 * increment rq)"
        using ringqGrow_ok [OF less.prems(2,1)] by blast
      have "0 < ringqPutBlkMax rq'" if "g = Some rq'" for rq'
      proof -
        have r: "rq_ok rq'" "contents rq' = contents rq" "buflen rq' = buflen rq + increment rq" "0 < increment rq"
          using gl that less.prems(2) by (auto simp: rq_ok_def)
        have "ringqLen rq' < buflen rq" using length_contents [OF r(1)] length_contents [OF less.prems(2)] r(2) ringqLen_less [OF less.prems(2)] by simp
        then show ?thesis using putBlkMax_0 [OF r(1)] r(3,4) by (cases "ringqPutBlkMax rq'") auto
      qed
      moreover have "int (length (contents rq)) + 1 = int (buflen rq)"
        using full putBlkMax_0 [OF less.prems(2)] length_contents [OF less.prems(2)] by simp
      ultimately show ?thesis using that [of g] g gl full by (cases g) auto
    qed
    show ?thesis
    proof (cases g)
      case None
      then have "put_loop (ringqGrow mem) rq bs = Inr (0, rq)" using g False by (subst put_loop.simps) simp
      moreover have "(0 \<le> maxsize rq \<and> maxsize rq \<le> int (length (contents rq)) + 1) \<or> (\<exists>k. mem k = None)" using gl None by simp
      ultimately show ?thesis using less.prems(2) by (intro exI [of _ 0] exI [of _ rq] conjI) (simp, simp, simp, simp, simp, simp, blast)
    next
      case (Some rq1)
      then have r1: "rq_ok rq1" "contents rq1 = contents rq" "0 < ringqPutBlkMax rq1" "maxsize rq1 = maxsize rq" "servp rq = 0 \<longrightarrow> servp rq1 = 0"
        using gl by auto
      let ?k = "min (ringqPutBlkMax rq1) (length bs)"
      have k: "?k \<noteq> 0" using r1(3) False by simp
      obtain rq2 where r2: "put_run rq1 (take ?k bs) = Inr rq2" "rq_ok rq2" "contents rq2 = contents rq1 @ take ?k bs" "maxsize rq2 = maxsize rq1"
        using put_run_ok [OF r1(1), of "take ?k bs"] by auto
      have "length (drop ?k bs) < length bs" using k False by simp
      then obtain n rq3 where r3: "put_loop (ringqGrow mem) rq2 (drop ?k bs) = Inr (n, rq3)" "rq_ok rq3" "n \<le> length (drop ?k bs)"
        "contents rq3 = contents rq2 @ take n (drop ?k bs)" "maxsize rq3 = maxsize rq2" "servp rq2 = 0 \<longrightarrow> servp rq3 = 0"
        "n = length (drop ?k bs) \<or> (\<exists>k. mem k = None) \<or> (0 \<le> maxsize rq2 \<and> maxsize rq2 \<le> int (length (contents rq3)) + 1)"
        using less.hyps [OF _ less.prems(1) r2(2)] by blast
      have "put_loop (ringqGrow mem) rq bs = Inr (?k + n, rq3)"
        using g Some k False r2(1) r3(1) by (subst put_loop.simps) (simp add: Let_def del: min_less_iff_conj)
      moreover have "contents rq3 = contents rq @ take (?k + n) bs"
        using r3(4) r2(3) r1(2) by (simp add: take_add)
      ultimately show ?thesis using r3 r2 r1 put_run_servp [OF r2(1)] by auto
    qed
  qed
qed

lemma ringqPutBlk_ok:
  assumes "alloc_ok mem" and "rq_ok rq"
  shows "\<exists>n rq'. ringqPutBlk mem rq bs = Inr (n, rq') \<and> rq_ok rq' \<and> n \<le> length bs \<and> contents rq' = contents rq @ take n bs
    \<and> maxsize rq' = maxsize rq \<and> (servp rq = 0 \<longrightarrow> servp rq' = 0)
    \<and> (n = length bs \<or> (\<exists>k. mem k = None) \<or> (0 \<le> maxsize rq \<and> maxsize rq \<le> int (length (contents rq')) + 1))"
  unfolding ringqPutBlk_def by (rule put_loop_ok [OF assms])

text \<open>A queue that is only filled: its content is the C string at the start of its buffer.\<close>

definition rq_cstr :: "ringq \<Rightarrow> bool" where
  "rq_cstr rq \<longleftrightarrow> rq_ok rq \<and> servp rq = 0 \<and> is_cstr (contents rq) \<and> rq_buf rq ! endp rq = NUL"

lemma rq_cstr_read: "rq_cstr rq \<Longrightarrow> \<exists>rest. rq_buf rq = contents rq @ NUL # rest"
proof -
  assume c: "rq_cstr rq"
  then have e: "endp rq < buflen rq" "contents rq = take (endp rq) (rq_buf rq)"
    by (simp_all add: rq_cstr_def rq_ok_def contents_def get_slice_def)
  then have "rq_buf rq = contents rq @ (rq_buf rq ! endp rq) # drop (Suc (endp rq)) (rq_buf rq)" by (simp add: id_take_nth_drop)
  then show ?thesis using c by (auto simp: rq_cstr_def)
qed

lemma add_null_ok:
  assumes "rq_ok rq"
  shows "\<exists>rq'. ringqAddNull rq = Inr rq' \<and> rq_ok rq' \<and> contents rq' = contents rq \<and> servp rq' = servp rq \<and> maxsize rq' = maxsize rq
    \<and> rq_buf rq' ! endp rq' = NUL"
proof -
  have e: "endp rq < buflen rq" "servp rq < buflen rq" using assms by (simp_all add: rq_ok_def)
  let ?b = "put_slice (rq_buf rq) (endp rq) [NUL]"
  have b: "?b = (rq_buf rq)[endp rq := NUL]" using e by (simp add: put_slice_def upd_conv_take_nth_drop)
  have "contents (rq\<lparr>rq_buf := ?b\<rparr>) = contents rq"
    unfolding b by (auto simp: contents_def get_slice_def drop_update_swap take_update_swap list_update_beyond)
  moreover have "rq_ok (rq\<lparr>rq_buf := ?b\<rparr>)" using assms by (simp add: b rq_ok_def)
  moreover have "?b ! endp rq = NUL" using e by (simp add: b)
  ultimately show ?thesis using e by (auto simp: ringqAddNull_def put_at_def)
qed

lemma ringqPutStr_ok:
  assumes "alloc_ok mem" and "rq_ok rq"
  shows "\<exists>n rq'. ringqPutStr mem rq str = Inr (n, rq') \<and> rq_ok rq' \<and> n \<le> length str \<and> contents rq' = contents rq @ take n str
    \<and> maxsize rq' = maxsize rq \<and> (servp rq = 0 \<longrightarrow> servp rq' = 0) \<and> rq_buf rq' ! endp rq' = NUL
    \<and> (n = length str \<or> (\<exists>k. mem k = None) \<or> (0 \<le> maxsize rq \<and> maxsize rq \<le> int (length (contents rq')) + 1))"
proof -
  obtain n rq1 where r1: "ringqPutBlk mem rq str = Inr (n, rq1)" "rq_ok rq1" "n \<le> length str" "contents rq1 = contents rq @ take n str"
    "maxsize rq1 = maxsize rq" "servp rq = 0 \<longrightarrow> servp rq1 = 0"
    "n = length str \<or> (\<exists>k. mem k = None) \<or> (0 \<le> maxsize rq \<and> maxsize rq \<le> int (length (contents rq1)) + 1)"
    using ringqPutBlk_ok [OF assms] by blast
  obtain rq2 where "ringqAddNull rq1 = Inr rq2" "rq_ok rq2" "contents rq2 = contents rq1" "servp rq2 = servp rq1" "maxsize rq2 = maxsize rq1"
    "rq_buf rq2 ! endp rq2 = NUL" using add_null_ok [OF r1(2)] by blast
  then show ?thesis using r1 by (auto simp: ringqPutStr_def)
qed

lemma ringqPutStr_cstr:
  assumes "alloc_ok mem" and "rq_cstr rq" and "is_cstr str"
  shows "\<exists>n rq'. ringqPutStr mem rq str = Inr (n, rq') \<and> rq_cstr rq' \<and> n \<le> length str \<and> contents rq' = contents rq @ take n str
    \<and> maxsize rq' = maxsize rq
    \<and> (n = length str \<or> (\<exists>k. mem k = None) \<or> (0 \<le> maxsize rq \<and> maxsize rq \<le> int (length (contents rq')) + 1))"
proof -
  have "rq_ok rq" using assms(2) by (simp add: rq_cstr_def)
  from ringqPutStr_ok [OF assms(1) this, of str] show ?thesis using assms(2,3) by (auto simp: rq_cstr_def)
qed

lemma ringqFlush_ok:
  assumes "rq_ok rq"
  shows "\<exists>rq'. ringqFlush rq = Inr rq' \<and> rq_cstr rq' \<and> contents rq' = [] \<and> maxsize rq' = maxsize rq \<and> buflen rq' = buflen rq"
proof -
  have "0 < buflen rq" using assms by (auto simp: rq_ok_def)
  then show ?thesis using assms
    by (auto simp: ringqFlush_def put_at_def put_slice_def rq_cstr_def rq_ok_def contents_def get_slice_def)
qed

section \<open>Any sequence of operations\<close>

datatype rq_op = OpPutc byte | OpInsertc byte | OpGetc | OpPutBlk "byte list" | OpGetBlk nat | OpFlush
datatype rq_answer = AInt int | ABytes "byte list"

fun rq_step :: "allocator \<Rightarrow> rq_op \<Rightarrow> ringq \<Rightarrow> (rq_answer \<times> ringq) res" where
  "rq_step mem (OpPutc c) rq = res_bind (ringqPutc mem rq c) (\<lambda>(r, rq). Inr (AInt r, rq))"
| "rq_step mem (OpInsertc c) rq = res_bind (ringqInsertc mem rq c) (\<lambda>(r, rq). Inr (AInt r, rq))"
| "rq_step mem OpGetc rq = res_bind (ringqGetc rq) (\<lambda>(r, rq). Inr (AInt r, rq))"
| "rq_step mem (OpPutBlk bs) rq = res_bind (ringqPutBlk mem rq bs) (\<lambda>(n, rq). Inr (AInt (int n), rq))"
| "rq_step mem (OpGetBlk n) rq = (case ringqGetBlk rq n of (bs, rq) \<Rightarrow> Inr (ABytes bs, rq))"
| "rq_step mem OpFlush rq = res_bind (ringqFlush rq) (\<lambda>rq. Inr (AInt 0, rq))"

fun rq_run :: "allocator \<Rightarrow> rq_op list \<Rightarrow> ringq \<Rightarrow> (rq_answer list \<times> ringq) res" where
  "rq_run mem [] rq = Inr ([], rq)"
| "rq_run mem (p # ps) rq =
     res_bind (rq_step mem p rq) (\<lambda>(a, rq). res_bind (rq_run mem ps rq) (\<lambda>(as, rq). Inr (a # as, rq)))"

text \<open>The list after an operation with the given answer; \<open>None\<close> when a queue must not answer so.\<close>

fun list_step :: "rq_op \<Rightarrow> rq_answer \<Rightarrow> byte list \<Rightarrow> byte list option" where
  "list_step (OpPutc c) (AInt r) q = (if r = 0 then Some (q @ [c]) else if r = - 1 then Some q else None)"
| "list_step (OpInsertc c) (AInt r) q = (if r = 0 then Some (c # q) else if r = - 1 then Some q else None)"
| "list_step OpGetc (AInt r) q = (if r = (case q of [] \<Rightarrow> - 1 | c # cs \<Rightarrow> int (uchar c)) then Some (tl q) else None)"
| "list_step (OpPutBlk bs) (AInt n) q = (if 0 \<le> n \<and> n \<le> int (length bs) then Some (q @ take (nat n) bs) else None)"
| "list_step (OpGetBlk n) (ABytes b) q = (if b = take n q then Some (drop n q) else None)"
| "list_step OpFlush (AInt r) q = (if r = 0 then Some [] else None)"
| "list_step p a q = None"

fun list_run :: "rq_op list \<Rightarrow> rq_answer list \<Rightarrow> byte list \<Rightarrow> byte list option" where
  "list_run [] [] q = Some q"
| "list_run (p # ps) (a # as) q = (case list_step p a q of None \<Rightarrow> None | Some q \<Rightarrow> list_run ps as q)"
| "list_run ps as q = None"

lemma rq_step_ok:
  assumes "alloc_ok mem" and "rq_ok rq"
  shows "\<exists>a rq'. rq_step mem p rq = Inr (a, rq') \<and> rq_ok rq' \<and> list_step p a (contents rq) = Some (contents rq')"
proof (cases p)
  case (OpPutc c)
  then show ?thesis using ringqPutc_ok [OF assms(2,1), of c] assms(2) by auto
next
  case (OpInsertc c)
  then show ?thesis using ringqInsertc_ok [OF assms(2,1), of c] assms(2) by auto
next
  case OpGetc
  then show ?thesis using ringqGetc_ok [OF assms(2)] by auto
next
  case (OpPutBlk bs)
  then show ?thesis using ringqPutBlk_ok [OF assms, of bs] by auto
next
  case (OpGetBlk n)
  then show ?thesis using ringqGetBlk_ok [OF assms(2), of n] by (auto split: prod.split)
next
  case OpFlush
  then show ?thesis using ringqFlush_ok [OF assms(2)] by (auto simp: rq_cstr_def)
qed

text \<open>C37. The ring queue is a queue.  For every sequence of operations on a sound queue, whatever the
  memory allocator answers, no access leaves the buffer, every copy loop ends, and the answers and the
  final content are those of the same operations on a list: bytes come out in the order they went in,
  across wrapped pointers and growing buffers, and a refused put leaves the queue as it was.\<close>

theorem ringq_refines_list:
  assumes "alloc_ok mem" and "rq_ok rq"
  shows "\<exists>as rq'. rq_run mem ps rq = Inr (as, rq') \<and> rq_ok rq' \<and> list_run ps as (contents rq) = Some (contents rq')"
  using assms(2)
proof (induction ps arbitrary: rq)
  case Nil
  then show ?case by simp
next
  case (Cons p ps)
  obtain a rq1 where a: "rq_step mem p rq = Inr (a, rq1)" "rq_ok rq1" "list_step p a (contents rq) = Some (contents rq1)"
    using rq_step_ok [OF assms(1) Cons.prems] by blast
  obtain as rq2 where "rq_run mem ps rq1 = Inr (as, rq2)" "rq_ok rq2" "list_run ps as (contents rq1) = Some (contents rq2)"
    using Cons.IH [OF a(2)] by blast
  then show ?case using a by auto
qed

definition demo_mem :: allocator where "demo_mem n = Some (replicate n (CHR ''#''))"

text \<open>A queue with a buffer of 22 bytes whose data wraps around its end.\<close>

definition demo_rq :: ringq where
  "demo_rq = \<lparr>rq_buf = ''hijklmno#######abcdefg'', servp = 15, endp = 8, maxsize = - 1, increment = 16\<rparr>"

theorem ringq_refines_list_witness:
  "\<exists>as rq'. rq_run demo_mem [OpPutBlk ''pqrst'', OpInsertc (CHR ''Z''), OpPutc (CHR ''u''), OpGetBlk 3, OpGetc] demo_rq = Inr (as, rq')
    \<and> as = [AInt 5, AInt 0, AInt 0, ABytes ''Zab'', AInt 99] \<and> contents rq' = ''defghijklmnopqrstu''"
proof -
  have ok: "alloc_ok demo_mem" "rq_ok demo_rq" by (auto simp: alloc_ok_def demo_mem_def demo_rq_def rq_ok_def)
  let ?ps = "[OpPutBlk ''pqrst'', OpInsertc (CHR ''Z''), OpPutc (CHR ''u''), OpGetBlk 3, OpGetc]"
  have run: "(case rq_run demo_mem ?ps demo_rq of Inl _ \<Rightarrow> False | Inr (as, rq') \<Rightarrow> as = [AInt 5, AInt 0, AInt 0, ABytes ''Zab'', AInt 99])"
    by code_simp
  obtain as rq' where r: "rq_run demo_mem ?ps demo_rq = Inr (as, rq')" "list_run ?ps as (contents demo_rq) = Some (contents rq')"
    using ringq_refines_list [OF ok, of ?ps] by blast
  have as: "as = [AInt 5, AInt 0, AInt 0, ABytes ''Zab'', AInt 99]" using run r(1) by simp
  have "contents demo_rq = ''abcdefghijklmno''" by code_simp
  then have "contents rq' = ''defghijklmnopqrstu''" using r(2) as by (simp add: uchar_def)
  then show ?thesis using r(1) as by blast
qed

end
