(* ===== verification/Sock.thy ===== *)
theory Sock
  imports Ringq
begin

unbundle bit_operations_syntax

text \<open>
  The buffered socket input of the web server, \<open>user/goahead/src_tongyong/sock.c\<close> (\<open>socketRead\<close>,
  \<open>socketGets\<close>, \<open>socketEof\<close>, \<open>socketInputBuffered\<close>) over \<open>socketGetInput\<close> of \<open>sockGen.c\<close>.  What the
  network will deliver to \<open>recv\<close> is the list \<open>so_net\<close>: data, a moment with nothing to read, the peer's
  close, a reset or another error; an empty list is a silent peer.
\<close>

datatype net_event = NData "byte list" | NWait | NClose | NReset | NError

record socket =
  so_in :: ringq
  so_line :: ringq
  so_flags :: u32
  so_net :: "net_event list"

definition SOCKET_EOF :: u32 where "SOCKET_EOF = 0x1"
definition SOCKET_BLOCK :: u32 where "SOCKET_BLOCK = 0x80"
definition SOCKET_CONNRESET :: u32 where "SOCKET_CONNRESET = 0x400"

section \<open>Input\<close>

datatype input = Got "byte list" | WouldBlock | Failed

text \<open>\<open>recv(sp->sock, buf, toRead, 0)\<close>\<close>

fun recv :: "nat \<Rightarrow> net_event list \<Rightarrow> (input \<times> bool) \<times> net_event list" where
  "recv n [] = ((WouldBlock, False), [])"
| "recv n (NData bs # es) = ((Got (take n bs), False), if n < length bs then NData (drop n bs) # es else es)"
| "recv n (NWait # es) = ((WouldBlock, False), es)"
| "recv n (NClose # es) = ((Got [], False), NClose # es)"
| "recv n (NReset # es) = ((Got [], True), es)"
| "recv n (NError # es) = ((Failed, False), es)"

text \<open>A reset connection sets a flag and looks like the end of the input.\<close>

definition socketGetInput :: "nat \<Rightarrow> socket \<Rightarrow> input \<times> socket" where
  "socketGetInput n sp =
     (if so_flags sp AND SOCKET_EOF \<noteq> 0 then (Got [], sp)
      else case recv n (so_net sp) of ((r, reset), es) \<Rightarrow>
        (r, sp\<lparr>so_net := es, so_flags := (if reset then so_flags sp OR SOCKET_CONNRESET else so_flags sp)\<rparr>))"

text \<open>The refill of \<open>socketRead\<close>: flush, read straight into the buffer, move \<open>endp\<close>.\<close>

definition refill :: "socket \<Rightarrow> (input \<times> socket) res" where
  "refill sp =
     res_bind (ringqFlush (so_in sp)) (\<lambda>rq.
       case socketGetInput (ringqPutBlkMax rq) (sp\<lparr>so_in := rq\<rparr>) of
         (Got bs, sp) \<Rightarrow>
           if bs = [] then Inr (Got [], sp)
           else res_bind (put_at (rq_buf rq) (endp rq) bs) (\<lambda>b.
                res_bind (ringqPutBlkAdj (rq\<lparr>rq_buf := b\<rparr>) (length bs)) (\<lambda>rq. Inr (Got bs, sp\<lparr>so_in := rq\<rparr>)))
       | (r, sp) \<Rightarrow> Inr (r, sp))"

text \<open>\<open>memcpy(&buf[bytesRead], rq->servp, len); ringqGetBlkAdj(rq, len)\<close>\<close>

definition take_in :: "nat \<Rightarrow> socket \<Rightarrow> (byte list \<times> socket) res" where
  "take_in len sp =
     (if buflen (so_in sp) < servp (so_in sp) + len then Inl OutOfBounds
      else res_bind (ringqGetBlkAdj (so_in sp) len) (\<lambda>rq.
        Inr (get_slice (rq_buf (so_in sp)) (servp (so_in sp)) len, sp\<lparr>so_in := rq\<rparr>)))"

lemma recv_shrinks: "recv n es = ((WouldBlock, b), es') \<Longrightarrow> es \<noteq> [] \<Longrightarrow> length es' < length es"
  by (cases "(n, es)" rule: recv.cases) auto

lemma refill_shrinks:
  assumes "refill sp = Inr (WouldBlock, sp')" and "so_net sp \<noteq> []"
  shows "length (so_net sp') < length (so_net sp)"
proof -
  obtain rq where rq: "ringqFlush (so_in sp) = Inr rq" using assms(1) by (auto simp: refill_def)
  obtain r b es' where r: "recv (ringqPutBlkMax rq) (so_net sp) = ((r, b), es')" by (metis prod.exhaust)
  show ?thesis
  proof (cases r)
    case WouldBlock
    then show ?thesis using assms rq r recv_shrinks [of _ "so_net sp"]
      by (auto simp: refill_def socketGetInput_def split: if_splits)
  qed (use assms(1) rq r in \<open>auto simp: refill_def socketGetInput_def split: if_splits\<close>)
qed

text \<open>The loop of \<open>socketRead\<close>: \<open>acc\<close> is what was read so far, \<open>n\<close> the room left in the caller's buffer.
  In blocking mode the loop waits for data; for a silent peer that is for ever.\<close>

function read_loop :: "socket \<Rightarrow> nat \<Rightarrow> byte list \<Rightarrow> (int \<times> byte list \<times> socket) res" where
  "read_loop sp n acc =
     (if n = 0 then Inr (int (length acc), acc, sp)
      else if 0 < ringqLen (so_in sp) then
        (let len = min (ringqLen (so_in sp)) n in
         case take_in len sp of
           Inl f \<Rightarrow> Inl f
         | Inr (bs, sp) \<Rightarrow> read_loop sp (n - len) (acc @ bs))
      else if so_flags sp AND SOCKET_BLOCK \<noteq> 0 \<and> acc \<noteq> [] then Inr (int (length acc), acc, sp)
      else case refill sp of
          Inl f \<Rightarrow> Inl f
        | Inr (Failed, sp) \<Rightarrow> Inr (- 1, acc, sp)
        | Inr (WouldBlock, sp') \<Rightarrow>
            if so_flags sp' AND SOCKET_BLOCK \<noteq> 0 \<and> acc = []
            then (if so_net sp = [] then Inl Blocked else read_loop sp' n acc)
            else Inr (int (length acc), acc, sp')
        | Inr (Got bs, sp) \<Rightarrow>
            if bs = [] then Inr (int (length acc), acc, if acc = [] then sp\<lparr>so_flags := so_flags sp OR SOCKET_EOF\<rparr> else sp)
            else (let len = min (length bs) n in
                  case take_in len sp of
                    Inl f \<Rightarrow> Inl f
                  | Inr (cs, sp) \<Rightarrow> read_loop sp (n - len) (acc @ cs)))"
  by pat_completeness auto
termination
  by (relation "measures [\<lambda>(sp, n, acc). n, \<lambda>(sp, n, acc). length (so_net sp)]")
    (auto intro: refill_shrinks)

declare read_loop.simps [simp del]

definition socketRead :: "socket \<Rightarrow> nat \<Rightarrow> (int \<times> byte list \<times> socket) res" where
  "socketRead sp bufsize =
     (if so_flags sp AND SOCKET_EOF \<noteq> 0 then Inr (0, [], sp) else read_loop sp bufsize [])"

definition socketEof :: "socket \<Rightarrow> bool" where
  "socketEof sp \<longleftrightarrow> so_flags sp AND SOCKET_EOF \<noteq> 0"

definition socketInputBuffered :: "socket \<Rightarrow> int" where
  "socketInputBuffered sp = (if socketEof sp then - 1 else int (ringqLen (so_line sp)) + int (ringqLen (so_in sp)))"

section \<open>Lines\<close>

text \<open>The characters the network has still to deliver, with one more for each event: more than any
  number of reads \<open>socketGets\<close> makes.\<close>

fun event_size :: "net_event \<Rightarrow> nat" where
  "event_size (NData bs) = length bs + 1"
| "event_size e = 1"

definition pending :: "socket \<Rightarrow> nat" where
  "pending sp = ringqLen (so_in sp) + sum_list (map event_size (so_net sp))"

abbreviation LF :: byte where "LF \<equiv> CHR 0x0A"
abbreviation CR :: byte where "CR \<equiv> CHR 0x0D"

text \<open>\<open>ballocAscToUni((char *) lq->servp, len)\<close> copies \<open>len + 1\<close> bytes and cuts the last.\<close>

definition line_text :: "allocator \<Rightarrow> ringq \<Rightarrow> byte list option res" where
  "line_text mem lq =
     (let len = ringqLen lq in
      if len = 0 \<or> mem (len + 1) = None then Inr None
      else if buflen lq < servp lq + len + 1 then Inl OutOfBounds
      else Inr (Some (get_slice (rq_buf lq) (servp lq) len)))"

fun gets_loop :: "allocator \<Rightarrow> nat \<Rightarrow> socket \<Rightarrow> (int \<times> byte list option \<times> socket) res" where
  "gets_loop mem 0 sp = Inl Blocked"
| "gets_loop mem (Suc k) sp =
     res_bind (socketRead sp 1) (\<lambda>(rc, bs, sp).
       if rc < 0 then Inr (rc, None, sp)
       else if rc = 0 \<and> \<not> (0 < ringqLen (so_line sp) \<and> so_flags sp AND SOCKET_EOF \<noteq> 0) then Inr (- 1, None, sp)
       else
         (let c = (if rc = 0 then LF else hd bs) in
          if c = LF then
            res_bind (line_text mem (so_line sp)) (\<lambda>text.
            res_bind (ringqFlush (so_line sp)) (\<lambda>lq. Inr (int (ringqLen (so_line sp)), text, sp\<lparr>so_line := lq\<rparr>)))
          else if c = CR then gets_loop mem k sp
          else res_bind (ringqPutc mem (so_line sp) c) (\<lambda>(r, lq). gets_loop mem k (sp\<lparr>so_line := lq\<rparr>))))"

definition socketGets :: "allocator \<Rightarrow> socket \<Rightarrow> (int \<times> byte list option \<times> socket) res" where
  "socketGets mem sp = gets_loop mem (pending sp + 2) sp"

section \<open>The input as a stream\<close>

fun lead :: "net_event list \<Rightarrow> byte list" where
  "lead (NData bs # es) = bs @ lead es"
| "lead es = []"

fun after_lead :: "net_event list \<Rightarrow> net_event list" where
  "after_lead (NData bs # es) = after_lead es"
| "after_lead es = es"

definition avail :: "socket \<Rightarrow> byte list" where
  "avail sp = contents (so_in sp) @ lead (so_net sp)"

definition sock_ok :: "socket \<Rightarrow> bool" where
  "sock_ok sp \<longleftrightarrow> rq_ok (so_in sp) \<and> servp (so_in sp) \<le> endp (so_in sp) \<and> 2 \<le> buflen (so_in sp)
     \<and> rq_ok (so_line sp) \<and> servp (so_line sp) = 0 \<and> maxsize (so_line sp) < 0
     \<and> so_flags sp AND SOCKET_BLOCK = 0 \<and> NData [] \<notin> set (so_net sp)"

definition mem_total :: "allocator \<Rightarrow> bool" where
  "mem_total mem \<longleftrightarrow> alloc_ok mem \<and> (\<forall>n. mem n \<noteq> None)"

lemma take_in_ok:
  assumes ok: "sock_ok sp" and n: "n \<le> ringqLen (so_in sp)"
  shows "\<exists>rq. take_in n sp = Inr (take n (contents (so_in sp)), sp\<lparr>so_in := rq\<rparr>) \<and> sock_ok (sp\<lparr>so_in := rq\<rparr>)
    \<and> contents rq = drop n (contents (so_in sp))"
proof -
  let ?q = "so_in sp"
  let ?rq = "?q\<lparr>servp := servp ?q + n\<rparr>"
  have q: "rq_ok ?q" "servp ?q \<le> endp ?q" using ok by (simp_all add: sock_ok_def)
  then have s: "servp ?q + n \<le> endp ?q" "endp ?q < buflen ?q" using n by (auto simp: ringqLen_def rq_ok_def)
  have m: "n \<le> ringqGetBlkMax ?q" using n s by (simp add: ringqGetBlkMax_def)
  have g: "get_slice (rq_buf ?q) (servp ?q) n @ contents ?rq = contents ?q" "rq_ok ?rq"
    using get_run_ok [OF q(1) m] s by simp_all
  have l: "length (get_slice (rq_buf ?q) (servp ?q) n) = n" using s by (intro length_get_slice) simp
  have t: "take n (contents ?q) = get_slice (rq_buf ?q) (servp ?q) n" "drop n (contents ?q) = contents ?rq"
    using g(1) l by (metis append_eq_conv_conj)+
  have "take_in n sp = Inr (take n (contents ?q), sp\<lparr>so_in := ?rq\<rparr>)"
    using s by (simp add: take_in_def ringqGetBlkAdj_def Let_def t(1))
  moreover have "sock_ok (sp\<lparr>so_in := ?rq\<rparr>)" using ok g(2) s by (simp add: sock_ok_def)
  ultimately show ?thesis unfolding t(2) by (intro exI [of _ ?rq] conjI) (simp_all only:)
qed

lemma lead_recv:
  assumes "NData [] \<notin> set es" and "0 < n" and "recv n es = ((Got bs, b), es')" and "bs \<noteq> []"
  shows "lead es = bs @ lead es'" "after_lead es' = after_lead es" "NData [] \<notin> set es'" "b = False" "length bs \<le> n"
proof -
  obtain x r where es: "es = NData x # r" "bs = take n x" "b = False" "es' = (if n < length x then NData (drop n x) # r else r)"
    using assms(3,4) by (cases "(n, es)" rule: recv.cases) auto
  show "lead es = bs @ lead es'" "after_lead es' = after_lead es" "b = False" "length bs \<le> n" using es by auto
  show "NData [] \<notin> set es'" using es assms(1) by auto
qed

lemma recv_lead:
  assumes "NData [] \<notin> set es" and "0 < n"
  shows "lead es \<noteq> [] \<Longrightarrow> \<exists>bs es'. recv n es = ((Got bs, False), es') \<and> bs \<noteq> []"
    and "lead es = [] \<Longrightarrow> recv n es = (case es of [] \<Rightarrow> ((WouldBlock, False), []) | NWait # r \<Rightarrow> ((WouldBlock, False), r)
      | NClose # r \<Rightarrow> ((Got [], False), es) | NReset # r \<Rightarrow> ((Got [], True), r) | NError # r \<Rightarrow> ((Failed, False), r) | _ \<Rightarrow> undefined)"
  using assms by (cases es rule: lead.cases; auto)+

lemma refill_data:
  assumes ok: "sock_ok sp" and e: "so_flags sp AND SOCKET_EOF = 0" and a: "contents (so_in sp) = []" "lead (so_net sp) \<noteq> []"
  shows "\<exists>bs sp'. refill sp = Inr (Got bs, sp') \<and> bs \<noteq> [] \<and> sock_ok sp' \<and> contents (so_in sp') = bs \<and> lead (so_net sp) = bs @ lead (so_net sp')
    \<and> after_lead (so_net sp') = after_lead (so_net sp) \<and> so_line sp' = so_line sp \<and> so_flags sp' = so_flags sp"
proof -
  obtain rq where rq: "ringqFlush (so_in sp) = Inr rq" "rq_cstr rq" "contents rq = []" "buflen rq = buflen (so_in sp)"
    using ringqFlush_ok [of "so_in sp"] ok by (auto simp: sock_ok_def)
  have z: "servp rq = 0" "endp rq = 0" using rq(1) by (auto simp: ringqFlush_def)
  let ?n = "ringqPutBlkMax rq"
  have n: "?n = buflen rq - 1" "0 < ?n" using z rq(4) ok by (auto simp: ringqPutBlkMax_def ringqLen_def sock_ok_def)
  have ne: "NData [] \<notin> set (so_net sp)" using ok by (simp add: sock_ok_def)
  obtain bs es' where r: "recv ?n (so_net sp) = ((Got bs, False), es')" "bs \<noteq> []" using recv_lead(1) [OF ne n(2) a(2)] by blast
  note l = lead_recv [OF ne n(2) r]
  let ?rq = "rq\<lparr>rq_buf := put_slice (rq_buf rq) 0 bs, endp := length bs\<rparr>"
  let ?sp = "sp\<lparr>so_in := ?rq, so_net := es'\<rparr>"
  have lb: "length bs < buflen rq" using l(5) n by simp
  have "refill sp = Inr (Got bs, ?sp)"
    using rq(1) e r z lb by (simp add: refill_def socketGetInput_def put_at_def ringqPutBlkAdj_def Let_def)
  moreover have "contents ?rq = bs" using z lb by (simp add: contents_def get_slice_def put_slice_def)
  moreover have "sock_ok ?sp" using ok rq(2,4) z lb l(3) by (auto simp: sock_ok_def rq_cstr_def rq_ok_def)
  ultimately show ?thesis using r(2) l(1,2) by (intro exI [of _ bs] exI [of _ ?sp]) simp
qed

lemma read_one:
  assumes ok: "sock_ok sp" and e: "so_flags sp AND SOCKET_EOF = 0" and a: "avail sp = c # s"
  shows "\<exists>sp'. socketRead sp 1 = Inr (1, [c], sp') \<and> sock_ok sp' \<and> avail sp' = s \<and> after_lead (so_net sp') = after_lead (so_net sp)
    \<and> so_line sp' = so_line sp \<and> so_flags sp' = so_flags sp"
proof -
  have fin: "read_loop sp' 0 [c] = Inr (1, [c], sp')" for sp' by (simp add: read_loop.simps)
  have b: "so_flags sp AND SOCKET_BLOCK = 0" using ok by (simp add: sock_ok_def)
  have q: "rq_ok (so_in sp)" using ok by (simp add: sock_ok_def)
  show ?thesis
  proof (cases "contents (so_in sp)")
    case (Cons x xs)
    then have l: "1 \<le> ringqLen (so_in sp)" using length_contents [OF q] by simp
    obtain rq where rq: "take_in 1 sp = Inr ([x], sp\<lparr>so_in := rq\<rparr>)" "sock_ok (sp\<lparr>so_in := rq\<rparr>)" "contents rq = xs"
      using take_in_ok [OF ok l] Cons by auto
    have "min (ringqLen (so_in sp)) 1 = 1" using l by simp
    then have "read_loop sp 1 [] = read_loop (sp\<lparr>so_in := rq\<rparr>) 0 [x]" using rq(1) l by (subst read_loop.simps) (simp add: Let_def)
    then show ?thesis using a Cons rq fin e by (auto simp: socketRead_def avail_def)
  next
    case Nil
    then have l: "ringqLen (so_in sp) = 0" "lead (so_net sp) \<noteq> []" using length_contents [OF q] a by (auto simp: avail_def)
    obtain bs sp1 where r: "refill sp = Inr (Got bs, sp1)" "bs \<noteq> []" "sock_ok sp1" "contents (so_in sp1) = bs" "lead (so_net sp) = bs @ lead (so_net sp1)"
      "after_lead (so_net sp1) = after_lead (so_net sp)" "so_line sp1 = so_line sp" "so_flags sp1 = so_flags sp"
      using refill_data [OF ok e Nil l(2)] by blast
    obtain x xs where bs: "bs = x # xs" using r(2) by (cases bs) auto
    have "1 \<le> ringqLen (so_in sp1)" using length_contents [of "so_in sp1"] r(3,4) bs by (simp add: sock_ok_def)
    then obtain rq where rq: "take_in 1 sp1 = Inr ([x], sp1\<lparr>so_in := rq\<rparr>)" "sock_ok (sp1\<lparr>so_in := rq\<rparr>)" "contents rq = xs"
      using take_in_ok [OF r(3), of 1] r(4) bs by auto
    have "min (length bs) 1 = 1" using bs by simp
    then have "read_loop sp 1 [] = read_loop (sp1\<lparr>so_in := rq\<rparr>) 0 [x]"
      using rq(1) l(1) r(1,2) b by (subst read_loop.simps) (simp add: Let_def)
    then show ?thesis using a Nil rq fin e r bs by (auto simp: socketRead_def avail_def)
  qed
qed

text \<open>Nothing available: the next event decides.\<close>

lemma read_none:
  assumes ok: "sock_ok sp" and e: "so_flags sp AND SOCKET_EOF = 0" and a: "avail sp = []" and n: "so_net sp = [] \<or> (\<exists>r. so_net sp = NWait # r)"
  shows "\<exists>sp'. socketRead sp 1 = Inr (0, [], sp') \<and> sock_ok sp' \<and> contents (so_in sp') = [] \<and> so_net sp' = tl (so_net sp)
    \<and> so_line sp' = so_line sp \<and> so_flags sp' = so_flags sp"
proof -
  have q: "rq_ok (so_in sp)" "so_flags sp AND SOCKET_BLOCK = 0" using ok by (simp_all add: sock_ok_def)
  have c: "contents (so_in sp) = []" "ringqLen (so_in sp) = 0" using a length_contents [OF q(1)] by (auto simp: avail_def)
  obtain rq where rq: "ringqFlush (so_in sp) = Inr rq" "rq_cstr rq" "contents rq = []" "buflen rq = buflen (so_in sp)"
    using ringqFlush_ok [OF q(1)] by auto
  have z: "servp rq = 0" "endp rq = 0" using rq(1) by (auto simp: ringqFlush_def)
  let ?sp = "sp\<lparr>so_in := rq, so_net := tl (so_net sp)\<rparr>"
  have "refill sp = Inr (WouldBlock, ?sp)"
    using n rq(1) e by (auto simp: refill_def socketGetInput_def)
  then have "socketRead sp 1 = Inr (0, [], ?sp)" using e c(2) q(2) by (simp add: socketRead_def read_loop.simps)
  moreover have "sock_ok ?sp"
    using ok rq(2,4) z n by (auto simp: sock_ok_def rq_cstr_def dest: list.set_sel)
  ultimately show ?thesis using rq(3) by (intro exI [of _ ?sp]) simp
qed

lemma putc_grows:
  assumes "mem_total mem" and "rq_ok rq" and "servp rq = 0" and "maxsize rq < 0"
  shows "\<exists>rq'. ringqPutc mem rq c = Inr (0, rq') \<and> rq_ok rq' \<and> servp rq' = 0 \<and> maxsize rq' = maxsize rq \<and> contents rq' = contents rq @ [c]"
proof -
  have m: "alloc_ok mem" "\<forall>n. mem n \<noteq> None" using assms(1) by (simp_all add: mem_total_def)
  obtain n rq' where r: "put_loop (ringqGrow mem) rq [c] = Inr (n, rq')" "rq_ok rq'" "contents rq' = contents rq @ take n [c]" "maxsize rq' = maxsize rq"
    "servp rq' = 0" "n = 1"
    using put_loop_ok [OF m(1) assms(2), of "[c]"] assms(3,4) m(2) by auto
  have "ringqPutc mem rq c = Inr (0, rq')"
  proof (cases "ringqPutBlkMax rq < 1")
    case True
    obtain g where g: "ringqGrow mem rq = Inr g" using ringqGrow_ok [OF assms(2) m(1)] by blast
    show ?thesis
      using r(1,6) g True by (subst (asm) put_loop.simps; cases g)
        (auto simp: ringqPutc_def make_room_def put_loop.simps Let_def split: if_splits sum.splits)
  next
    case False
    then have "min (ringqPutBlkMax rq) 1 = 1" "0 < ringqPutBlkMax rq" by auto
    then show ?thesis
      using r(1,6) False by (subst (asm) put_loop.simps)
        (auto simp: ringqPutc_def make_room_def put_loop.simps Let_def split: if_splits sum.splits)
  qed
  then show ?thesis using r by auto
qed

lemma line_text_ok:
  assumes "mem_total mem" and "rq_ok lq" and "servp lq = 0"
  shows "line_text mem lq = Inr (if contents lq = [] then None else Some (contents lq))"
proof -
  have l: "length (contents lq) = ringqLen lq" "ringqLen lq < buflen lq" using length_contents [OF assms(2)] ringqLen_less [OF assms(2)] by auto
  have g: "get_slice (rq_buf lq) 0 (ringqLen lq) = contents lq" using assms(3) by (simp add: contents_def ringqLen_def)
  have z: "(ringqLen lq = 0) = (contents lq = [])" using l(1) by auto
  show ?thesis using assms(1,3) l(2) by (simp add: line_text_def Let_def mem_total_def g z)
qed

text \<open>What a line is when it is read: carriage returns are dropped.\<close>

definition no_cr :: "byte list \<Rightarrow> byte list" where
  "no_cr s = filter (\<lambda>c. c \<noteq> CR) s"

lemma gets_more:
  assumes m: "mem_total mem"
  shows "sock_ok sp \<Longrightarrow> so_flags sp AND SOCKET_EOF = 0 \<Longrightarrow> LF \<notin> set l \<Longrightarrow> avail sp = l @ r \<Longrightarrow>
    \<exists>sp'. gets_loop mem (length l + k) sp = gets_loop mem k sp' \<and> sock_ok sp' \<and> so_flags sp' = so_flags sp \<and> avail sp' = r
      \<and> after_lead (so_net sp') = after_lead (so_net sp) \<and> contents (so_line sp') = contents (so_line sp) @ no_cr l"
proof (induction l arbitrary: sp)
  case Nil
  then show ?case by (auto simp: no_cr_def)
next
  case (Cons c l)
  obtain sp1 where s1: "socketRead sp 1 = Inr (1, [c], sp1)" "sock_ok sp1" "avail sp1 = l @ r" "after_lead (so_net sp1) = after_lead (so_net sp)"
    "so_line sp1 = so_line sp" "so_flags sp1 = so_flags sp"
    using read_one [OF Cons.prems(1,2), of c "l @ r"] Cons.prems(4) by auto
  show ?case
  proof (cases "c = CR")
    case True
    have "gets_loop mem (length (c # l) + k) sp = gets_loop mem (length l + k) sp1" using s1(1) True by simp
    then show ?thesis using Cons.IH [OF s1(2) _ _ s1(3)] Cons.prems(2,3) s1 True by (auto simp: no_cr_def)
  next
    case False
    have lq: "rq_ok (so_line sp1)" "servp (so_line sp1) = 0" "maxsize (so_line sp1) < 0" using s1(2) by (simp_all add: sock_ok_def)
    obtain q where q: "ringqPutc mem (so_line sp1) c = Inr (0, q)" "rq_ok q" "servp q = 0" "maxsize q = maxsize (so_line sp1)" "contents q = contents (so_line sp1) @ [c]"
      using putc_grows [OF m lq] by blast
    let ?sp = "sp1\<lparr>so_line := q\<rparr>"
    have "gets_loop mem (length (c # l) + k) sp = gets_loop mem (length l + k) ?sp" using s1(1) False Cons.prems(3) q(1) by auto
    moreover have "sock_ok ?sp" using s1(2) q lq by (simp add: sock_ok_def)
    moreover have "avail ?sp = l @ r" using s1(3) by (simp add: avail_def)
    ultimately show ?thesis using Cons.IH [of ?sp] Cons.prems(2,3) s1 q False by (auto simp: no_cr_def)
  qed
qed

text \<open>Enough fuel: more than the bytes available.\<close>

lemma lead_size: "length (lead es) \<le> sum_list (map event_size es)"
  by (induction es rule: lead.induct) auto

lemma avail_pending: "sock_ok sp \<Longrightarrow> length (avail sp) \<le> pending sp"
  using lead_size [of "so_net sp"] length_contents [of "so_in sp"] by (simp add: sock_ok_def avail_def pending_def)

lemma gets_line:
  assumes m: "mem_total mem" and ok: "sock_ok sp" and e: "so_flags sp AND SOCKET_EOF = 0" and a: "avail sp = l @ LF # r" "LF \<notin> set l"
  defines "t \<equiv> contents (so_line sp) @ no_cr l"
  shows "\<exists>sp'. socketGets mem sp = Inr (int (length t), if t = [] then None else Some t, sp') \<and> sock_ok sp' \<and> so_flags sp' = so_flags sp
    \<and> avail sp' = r \<and> after_lead (so_net sp') = after_lead (so_net sp) \<and> contents (so_line sp') = []"
proof -
  have "length l + 1 \<le> pending sp" using avail_pending [OF ok] a(1) by simp
  then obtain k where k: "pending sp + 2 = length l + Suc k" using le_Suc_ex by (metis add.assoc add_Suc_right add_2_eq_Suc' le_add_diff_inverse plus_1_eq_Suc)
  obtain sp1 where s1: "gets_loop mem (length l + Suc k) sp = gets_loop mem (Suc k) sp1" "sock_ok sp1" "so_flags sp1 = so_flags sp" "avail sp1 = LF # r"
    "after_lead (so_net sp1) = after_lead (so_net sp)" "contents (so_line sp1) = t"
    using gets_more [OF m ok e a(2,1), of "Suc k"] by (auto simp: t_def simp del: gets_loop.simps)
  obtain sp2 where s2: "socketRead sp1 1 = Inr (1, [LF], sp2)" "sock_ok sp2" "avail sp2 = r" "after_lead (so_net sp2) = after_lead (so_net sp1)"
    "so_line sp2 = so_line sp1" "so_flags sp2 = so_flags sp1"
    using read_one [OF s1(2) _ s1(4)] s1(3) e by auto
  have lq: "rq_ok (so_line sp2)" "servp (so_line sp2) = 0" "maxsize (so_line sp2) < 0" using s2(2) by (simp_all add: sock_ok_def)
  obtain q where q: "ringqFlush (so_line sp2) = Inr q" "rq_cstr q" "contents q = []" "maxsize q = maxsize (so_line sp2)" "buflen q = buflen (so_line sp2)"
    using ringqFlush_ok [OF lq(1)] by blast
  have len: "ringqLen (so_line sp2) = length t" using length_contents [OF lq(1)] s1(6) s2(5) by simp
  have "gets_loop mem (Suc k) sp1 = Inr (int (length t), if t = [] then None else Some t, sp2\<lparr>so_line := q\<rparr>)"
    using s2(1) q(1) line_text_ok [OF m lq(1,2)] len s1(6) s2(5) by simp
  moreover have "sock_ok (sp2\<lparr>so_line := q\<rparr>)" using s2(2) q lq(3) by (simp add: sock_ok_def rq_cstr_def)
  ultimately show ?thesis
    using s1 s2 q(3) k by (intro exI [of _ "sp2\<lparr>so_line := q\<rparr>"]) (simp add: socketGets_def avail_def del: gets_loop.simps)
qed

lemma gets_partial:
  assumes m: "mem_total mem" and ok: "sock_ok sp" and e: "so_flags sp AND SOCKET_EOF = 0" and a: "LF \<notin> set (avail sp)"
    and n: "after_lead (so_net sp) = [] \<or> (\<exists>r. after_lead (so_net sp) = NWait # r)"
  shows "\<exists>sp'. socketGets mem sp = Inr (- 1, None, sp') \<and> sock_ok sp' \<and> so_flags sp' = so_flags sp
    \<and> contents (so_in sp') = [] \<and> so_net sp' = tl (after_lead (so_net sp)) \<and> contents (so_line sp') = contents (so_line sp) @ no_cr (avail sp)"
proof -
  let ?l = "avail sp"
  obtain k where k: "pending sp + 2 = length ?l + Suc k"
    using avail_pending [OF ok] by (metis add_2_eq_Suc' add_Suc_right le_add_diff_inverse)
  obtain sp1 where s1: "gets_loop mem (length ?l + Suc k) sp = gets_loop mem (Suc k) sp1" "sock_ok sp1" "so_flags sp1 = so_flags sp" "avail sp1 = []"
    "after_lead (so_net sp1) = after_lead (so_net sp)" "contents (so_line sp1) = contents (so_line sp) @ no_cr ?l"
    using gets_more [OF m ok e a, of "[]" "Suc k"] by (auto simp del: gets_loop.simps)
  have "so_net sp1 = after_lead (so_net sp1)"
    using s1(2,4) by (cases "so_net sp1" rule: lead.cases) (auto simp: avail_def sock_ok_def)
  then have ns: "so_net sp1 = after_lead (so_net sp)" using s1(5) by simp
  obtain sp2 where s2: "socketRead sp1 1 = Inr (0, [], sp2)" "sock_ok sp2" "contents (so_in sp2) = []" "so_net sp2 = tl (so_net sp1)"
    "so_line sp2 = so_line sp1" "so_flags sp2 = so_flags sp1"
    using read_none [OF s1(2) _ s1(4)] s1(3) e n ns by auto
  have "gets_loop mem (Suc k) sp1 = Inr (- 1, None, sp2)" using s2 s1(3) e by simp
  then show ?thesis using k s1 s2 ns by (simp add: socketGets_def del: gets_loop.simps)
qed

section \<open>A sequence of lines\<close>

fun gets_many :: "allocator \<Rightarrow> nat \<Rightarrow> socket \<Rightarrow> ((int \<times> byte list option) list \<times> socket) res" where
  "gets_many mem 0 sp = Inr ([], sp)"
| "gets_many mem (Suc k) sp =
     res_bind (socketGets mem sp) (\<lambda>(n, t, sp). res_bind (gets_many mem k sp) (\<lambda>(ts, sp). Inr ((n, t) # ts, sp)))"

definition answer :: "byte list \<Rightarrow> int \<times> byte list option" where
  "answer t = (int (length t), if t = [] then None else Some t)"

definition lines_of :: "byte list list \<Rightarrow> byte list" where
  "lines_of ls = concat (map (\<lambda>l. l @ [LF]) ls)"

lemma gets_lines:
  assumes m: "mem_total mem" and p: "LF \<notin> set part"
  shows "sock_ok sp \<Longrightarrow> so_flags sp AND SOCKET_EOF = 0 \<Longrightarrow> contents (so_line sp) = [] \<Longrightarrow> avail sp = lines_of ls @ part \<Longrightarrow>
    list_all (\<lambda>l. LF \<notin> set l) ls \<Longrightarrow> after_lead (so_net sp) = [] \<or> (\<exists>r. after_lead (so_net sp) = NWait # r) \<Longrightarrow>
    \<exists>sp'. gets_many mem (length ls + 1) sp = Inr (map (\<lambda>l. answer (no_cr l)) ls @ [(- 1, None)], sp') \<and> sock_ok sp' \<and> so_flags sp' = so_flags sp
      \<and> contents (so_in sp') = [] \<and> so_net sp' = tl (after_lead (so_net sp)) \<and> contents (so_line sp') = no_cr part"
proof (induction ls arbitrary: sp)
  case Nil
  then show ?case using gets_partial [OF m Nil.prems(1,2) _ Nil.prems(6)] p by (auto simp: lines_of_def)
next
  case (Cons l ls)
  have a: "avail sp = l @ LF # (lines_of ls @ part)" "LF \<notin> set l" "list_all (\<lambda>l. LF \<notin> set l) ls"
    using Cons.prems(4,5) by (simp_all add: lines_of_def)
  obtain sp1 where s1: "socketGets mem sp = Inr (int (length (no_cr l)), if no_cr l = [] then None else Some (no_cr l), sp1)" "sock_ok sp1"
    "so_flags sp1 = so_flags sp" "avail sp1 = lines_of ls @ part" "after_lead (so_net sp1) = after_lead (so_net sp)" "contents (so_line sp1) = []"
    using gets_line [OF m Cons.prems(1,2) a(1,2)] Cons.prems(3) by auto
  obtain sp2 where "gets_many mem (length ls + 1) sp1 = Inr (map (\<lambda>l. answer (no_cr l)) ls @ [(- 1, None)], sp2)" "sock_ok sp2" "so_flags sp2 = so_flags sp1"
    "contents (so_in sp2) = []" "so_net sp2 = tl (after_lead (so_net sp1))" "contents (so_line sp2) = no_cr part"
    using Cons.IH [OF s1(2) _ s1(6,4) a(3)] Cons.prems(2,6) s1(3,5) by auto
  then show ?case using s1 by (auto simp: answer_def)
qed

text \<open>C38. Lines survive any fragmentation.  However the network cuts a text into packets, repeated calls of
  \<open>socketGets\<close> on a non-blocking socket return exactly its lines, in order, without line feeds and
  carriage returns; the call after the last complete line returns -1, and the characters of an
  unfinished line are kept for the next packet.\<close>

theorem socketGets_lines:
  assumes "mem_total mem" and "sock_ok sp" and "so_flags sp AND SOCKET_EOF = 0"
    and "contents (so_in sp) = []" and "contents (so_line sp) = []"
    and "so_net sp = map NData packets" and "concat packets = lines_of ls @ part"
    and "list_all (\<lambda>l. LF \<notin> set l) ls" and "LF \<notin> set part"
  shows "\<exists>sp'. gets_many mem (length ls + 1) sp = Inr (map (\<lambda>l. answer (no_cr l)) ls @ [(- 1, None)], sp')
    \<and> sock_ok sp' \<and> contents (so_line sp') = no_cr part \<and> socketInputBuffered sp' = int (length (no_cr part))"
proof -
  have l: "lead (map NData ps) = concat ps" "after_lead (map NData ps) = []" for ps by (induction ps) auto
  obtain sp' where s: "gets_many mem (length ls + 1) sp = Inr (map (\<lambda>l. answer (no_cr l)) ls @ [(- 1, None)], sp')" "sock_ok sp'"
    "so_flags sp' = so_flags sp" "contents (so_in sp') = []" "contents (so_line sp') = no_cr part"
    using gets_lines [OF assms(1,9,2,3,5) _ assms(8)] assms(4,6,7) l by (auto simp: avail_def)
  have "ringqLen (so_in sp') = 0" "ringqLen (so_line sp') = length (no_cr part)"
    using s(2,4,5) length_contents [of "so_in sp'"] length_contents [of "so_line sp'"] by (auto simp: sock_ok_def)
  then show ?thesis using s assms(3) by (auto simp: socketInputBuffered_def socketEof_def)
qed

definition demo_sock :: "byte list list \<Rightarrow> socket" where
  "demo_sock packets = \<lparr>so_in = \<lparr>rq_buf = replicate 16 NUL, servp = 3, endp = 3, maxsize = 16, increment = 16\<rparr>,
     so_line = \<lparr>rq_buf = replicate 8 NUL, servp = 0, endp = 0, maxsize = - 1, increment = 8\<rparr>, so_flags = 0, so_net = map NData packets\<rparr>"

theorem socketGets_lines_witness:
  "\<exists>sp'. gets_many demo_mem 3 (demo_sock [''GET / HT'', ''TP/1.1'' @ [CR], [LF], ''Host: 10.10.10.254'' @ [CR, LF], ''Acc''])
     = Inr ([answer ''GET / HTTP/1.1'', answer ''Host: 10.10.10.254'', (- 1, None)], sp') \<and> contents (so_line sp') = ''Acc''"
proof -
  let ?ps = "[''GET / HT'', ''TP/1.1'' @ [CR], [LF], ''Host: 10.10.10.254'' @ [CR, LF], ''Acc'']"
  let ?ls = "[''GET / HTTP/1.1'' @ [CR], ''Host: 10.10.10.254'' @ [CR]]"
  have m: "mem_total demo_mem" by (auto simp: mem_total_def alloc_ok_def demo_mem_def)
  have s: "sock_ok (demo_sock ?ps)" by (simp add: sock_ok_def demo_sock_def rq_ok_def SOCKET_BLOCK_def)
  have c: "contents (so_in (demo_sock ?ps)) = []" "contents (so_line (demo_sock ?ps)) = []" "so_net (demo_sock ?ps) = map NData ?ps"
    "so_flags (demo_sock ?ps) AND SOCKET_EOF = 0"
    by (simp_all add: demo_sock_def contents_def get_slice_def)
  have l: "concat ?ps = lines_of ?ls @ ''Acc''" "list_all (\<lambda>l. LF \<notin> set l) ?ls" "LF \<notin> set ''Acc''" by (simp_all add: lines_of_def)
  show ?thesis
    using socketGets_lines [OF m s c(4,1,2,3) l] by (auto simp: no_cr_def numeral_3_eq_3 numeral_2_eq_2 simp del: gets_many.simps)
qed

end
