(* ===== verification/Webs.thy ===== *)
theory Webs
  imports Url Uemf Fmt Sock Sym_Laws Um_Invariant
begin

text \<open>
  The request record and the response functions of the web server,
  \<open>user/goahead/src_tongyong/webs.c\<close>: CGI variables, request path and directory, error pages,
  redirects, and the end of a request.  \<open>webs\<close> is \<open>websRec\<close> with the fields these functions use;
  \<open>server\<close> is the one request in progress (\<open>None\<close> once \<open>websFree\<close> has released it, after which
  \<open>websValid\<close> is false and every use is a fault; \<open>w_docfd\<close> is the document open, with the position
  in it, and \<open>w_writer\<close> says that its background writer is installed) and the module variables: symbol tables, user
  database, statistics, the request's socket, the file with the input of a CGI program and the text
  handed to \<open>socketWrite\<close>.  \<open>env\<close> holds what the outside decides: the date string, the result of
  \<open>socketFlush\<close>, whether memory is available for a new symbol, the memory allocator, the port of the
  listening socket and the name of a temporary file.
\<close>

unbundle bit_operations_syntax

text \<open>\<open>VNull\<close> is a string value that is the null pointer.\<close>

datatype value_t = VInteger int | VString string | VNull

record webs =
  w_cgiVars :: int
  w_ipaddr :: string
  w_ifaddr :: string
  w_type :: string
  w_dir :: "string option"
  w_path :: "string option"
  w_url :: "string option"
  w_lpath :: "string option"
  w_query :: "string option"
  w_password :: "string option"
  w_userName :: "string option"
  w_protoVersion :: "string option"
  w_state :: nat
  w_flags :: u32
  w_header :: ringq
  w_host :: "string option"
  w_protocol :: "string option"
  w_port :: int
  w_authType :: "string option"
  w_userAgent :: "string option"
  w_cookie :: "string option"
  w_clen :: int
  w_cgiStdin :: "string option"
  w_fwClean :: bool
  w_docfd :: "(byte list \<times> nat) option"
  w_numbytes :: int
  w_written :: int
  w_writer :: bool

record server =
  wp :: "webs option"
  tabs :: "value_t symtabs"
  umdb :: db
  st_errors :: nat
  st_redirects :: nat
  st_access :: nat
  st_formHits :: nat
  st_handlerHits :: nat
  st_localHits :: nat
  out :: "string list"
  websHost :: string
  websHostUrl :: "string option"
  websRealm :: string
  websPort :: int
  websDefaultDir :: "string option"
  websDefaultPage :: "string option"
  formSymtab :: int
  websMime :: int
  sock :: socket
  cgi_file :: "byte list"

record env =
  e_date :: "string option"
  e_flush0 :: bool
  e_alloc :: bool
  e_mem :: allocator
  e_port :: int
  e_cgiName :: string

definition WEBS_KEEP_ALIVE :: u32 where "WEBS_KEEP_ALIVE = 0x2"
definition WEBS_LOCAL_REQUEST :: u32 where "WEBS_LOCAL_REQUEST = 0x40"
definition WEBS_HEAD_REQUEST :: u32 where "WEBS_HEAD_REQUEST = 0x200"
definition WEBS_REQUEST_DONE :: u32 where "WEBS_REQUEST_DONE = 0x1000"
definition WEBS_AUTH_DIGEST :: u32 where "WEBS_AUTH_DIGEST = 0x20000"
definition WEBS_HEADER_DONE :: u32 where "WEBS_HEADER_DONE = 0x40000"
definition WEBS_BEGIN :: nat where "WEBS_BEGIN = 0x1"
definition WEBS_PROCESSING :: nat where "WEBS_PROCESSING = 0x10"
definition WEBS_BUFSIZE :: int where "WEBS_BUFSIZE = 1000"
definition WEBS_MAX_URL :: int where "WEBS_MAX_URL = 4096"
definition WEBS_NAME :: string where "WEBS_NAME = ''GoAhead-Webs''"
definition WEBS_VERSION :: string where "WEBS_VERSION = ''2.1.8''"

abbreviation CRLF :: string where "CRLF \<equiv> [CHR 0x0D, CHR 0x0A]"
abbreviation TABS :: string where "TABS \<equiv> [CHR 0x09, CHR 0x09]"

definition websValid :: "server \<Rightarrow> bool" where "websValid s \<longleftrightarrow> wp s \<noteq> None"

definition cur :: "server \<Rightarrow> webs res" where
  "cur s = (case wp s of None \<Rightarrow> Inl OutOfBounds | Some w \<Rightarrow> Inr w)"

definition upd :: "(webs \<Rightarrow> webs) \<Rightarrow> server \<Rightarrow> server" where
  "upd f s = s\<lparr>wp := map_option f (wp s)\<rparr>"

section \<open>CGI variables\<close>

definition websSetVar :: "env \<Rightarrow> string \<Rightarrow> string option \<Rightarrow> server \<Rightarrow> server res" where
  "websSetVar e var val s =
     res_bind (cur s) (\<lambda>w.
     res_bind (symEnter (e_alloc e) (w_cgiVars w) var (VString (bstrdup val)) 0 (tabs s)) (\<lambda>(sp, t).
       Inr (s\<lparr>tabs := t\<rparr>)))"

definition websTestVar :: "string option \<Rightarrow> server \<Rightarrow> bool res" where
  "websTestVar var s =
     res_bind (cur s) (\<lambda>w.
       case var of
         None \<Rightarrow> Inr False
       | Some v \<Rightarrow> if v = [] then Inr False
                   else res_bind (symLookup (w_cgiVars w) (Some v) (tabs s)) (\<lambda>sp. Inr (sp \<noteq> None)))"

fun value_string :: "value_t \<Rightarrow> string res" where
  "value_string (VString s) = Inr s"
| "value_string VNull = Inr []"
| "value_string (VInteger n) = Inl OutOfBounds"

definition websGetVar :: "string \<Rightarrow> string option \<Rightarrow> server \<Rightarrow> string option res" where
  "websGetVar var defaultGetValue s =
     res_bind (cur s) (\<lambda>w.
     res_bind (symLookup (w_cgiVars w) (Some var) (tabs s)) (\<lambda>sp.
       case sp of
         Some p \<Rightarrow> res_bind (value_string (s_content p)) (\<lambda>v. Inr (Some v))
       | None \<Rightarrow> Inr defaultGetValue))"

definition websCompareVar :: "string \<Rightarrow> string \<Rightarrow> server \<Rightarrow> bool res" where
  "websCompareVar var val s =
     res_bind (websGetVar var (Some '' __UNDEF__ '') s) (\<lambda>v. Inr (v = Some val))"

section \<open>Request fields\<close>

definition websGetRequestDir :: "webs \<Rightarrow> string" where
  "websGetRequestDir w = (case w_dir w of None \<Rightarrow> [] | Some d \<Rightarrow> d)"

definition websGetRequestPath :: "webs \<Rightarrow> string" where
  "websGetRequestPath w = (case w_path w of None \<Rightarrow> [] | Some p \<Rightarrow> p)"

definition websSetRequestLpath :: "env \<Rightarrow> string \<Rightarrow> server \<Rightarrow> server res" where
  "websSetRequestLpath e lpath s =
     res_bind (cur s) (\<lambda>w.
       websSetVar e ''PATH_TRANSLATED'' (Some lpath) (upd (\<lambda>w. w\<lparr>w_lpath := Some lpath\<rparr>) s))"

definition websSetRequestPath :: "env \<Rightarrow> string option \<Rightarrow> string option \<Rightarrow> server \<Rightarrow> server res" where
  "websSetRequestPath e dir path s =
     res_bind (cur s) (\<lambda>w.
       (let s = (case dir of None \<Rightarrow> s | Some d \<Rightarrow> upd (\<lambda>w. w\<lparr>w_dir := Some d\<rparr>) s) in
        case path of
          None \<Rightarrow> Inr s
        | Some p \<Rightarrow> websSetVar e ''PATH_INFO'' (Some p) (upd (\<lambda>w. w\<lparr>w_path := Some p\<rparr>) s)))"

section \<open>Output\<close>

definition websErrors :: "(int \<times> string) list" where
  "websErrors =
     [(200, ''Data follows''), (204, ''No Content''), (301, ''Redirect''), (302, ''Redirect''),
      (304, ''Use local copy''), (400, ''Page not found''), (401, ''Unauthorized''), (403, ''Forbidden''),
      (404, ''Site or Page Not Found''), (405, ''Access Denied''), (500, ''Web Error''),
      (501, ''Not Implemented''), (503, ''Site Temporarily Unavailable. Try again.'')]"

definition websErrorMsg :: "int \<Rightarrow> string" where
  "websErrorMsg code = (case map_of websErrors code of None \<Rightarrow> [] | Some m \<Rightarrow> m)"

text \<open>\<open>websWrite\<close>: the formatted text goes to the socket; the callers ignore the result.\<close>

definition websWrite :: "string \<Rightarrow> farg list \<Rightarrow> server \<Rightarrow> server res" where
  "websWrite fmt args s =
     res_bind (cur s) (\<lambda>w.
     res_bind (fmtValloc WEBS_BUFSIZE fmt args) (\<lambda>(t, n). Inr (s\<lparr>out := out s @ [t]\<rparr>)))"

section \<open>The end of a request\<close>

definition websFree :: "server \<Rightarrow> server res" where
  "websFree s =
     res_bind (cur s) (\<lambda>w.
     res_bind (symClose (w_cgiVars w) (tabs s)) (\<lambda>t. Inr (s\<lparr>tabs := t, wp := None\<rparr>)))"

definition websDone :: "env \<Rightarrow> int \<Rightarrow> server \<Rightarrow> server res" where
  "websDone e code s =
     res_bind (cur s) (\<lambda>w.
       (let s = (if code \<noteq> 200 then upd (\<lambda>w. w\<lparr>w_flags := w_flags w AND NOT WEBS_KEEP_ALIVE\<rparr>) s else s);
            flags = (if code \<noteq> 200 then w_flags w AND NOT WEBS_KEEP_ALIVE else w_flags w)
        in if flags AND WEBS_KEEP_ALIVE \<noteq> 0 \<and> e_flush0 e
           then res_bind (ringqFlush (w_header w)) (\<lambda>h.
                  Inr (upd (\<lambda>w. w\<lparr>w_state := WEBS_BEGIN, w_flags := w_flags w OR WEBS_REQUEST_DONE,
                                     w_docfd := None, w_writer := False, w_header := h\<rparr>) s))
           else websFree s))"

section \<open>Responses\<close>

text \<open>The header lines after the status line, in order; \<open>w\<close> is the request.\<close>

definition header_rest :: "env \<Rightarrow> int \<Rightarrow> string option \<Rightarrow> webs \<Rightarrow> server \<Rightarrow> server res" where
  "header_rest e code redirect w s =
     res_bind (websWrite (''Server: %s'' @ CRLF) [FStr (Some WEBS_NAME)] s) (\<lambda>s.
     res_bind (case e_date e of None \<Rightarrow> Inr s | Some d \<Rightarrow> websWrite (''Date: %s'' @ CRLF) [FStr (Some d)] s) (\<lambda>s.
     res_bind (if code = 401 \<and> w_flags w AND WEBS_AUTH_DIGEST = 0
               then websWrite (''WWW-Authenticate: Basic realm='' @ [CHR 0x22] @ ''%s'' @ [CHR 0x22] @ CRLF)
                      [FStr (Some (websRealm s))] s
               else Inr s) (\<lambda>s.
     res_bind (websWrite (''Pragma: no-cache'' @ CRLF @ ''Cache-Control: no-cache'' @ CRLF) [] s) (\<lambda>s.
     res_bind (websWrite (''Content-Type: text/html'' @ CRLF) [] s) (\<lambda>s.
     res_bind (case redirect of None \<Rightarrow> Inr s | Some r \<Rightarrow> websWrite (''Location: %s'' @ CRLF) [FStr (Some r)] s) (\<lambda>s.
       websWrite CRLF [] s))))))"

definition response_header :: "env \<Rightarrow> int \<Rightarrow> string option \<Rightarrow> server \<Rightarrow> server res" where
  "response_header e code redirect s =
     res_bind (cur s) (\<lambda>w.
     res_bind (websWrite ((if redirect \<noteq> None then ''HTTP/1.0 %d %s'' else ''HTTP/1.1 %d %s'') @ CRLF)
                 [FInt code, FStr (Some (websErrorMsg code))] s) (\<lambda>s.
       header_rest e code redirect w s))"

text \<open>\<open>WEBS_KEEP_ALIVE\<close> is cleared first, so its own header line is never written.\<close>

definition websResponse :: "env \<Rightarrow> int \<Rightarrow> string option \<Rightarrow> string option \<Rightarrow> server \<Rightarrow> server res" where
  "websResponse e code message redirect s =
     res_bind (cur s) (\<lambda>w0.
       (let s = upd (\<lambda>w. w\<lparr>w_flags := w_flags w AND NOT WEBS_KEEP_ALIVE\<rparr>) s in
        res_bind (if w_flags w0 AND WEBS_HEADER_DONE = 0
                  then response_header e code redirect
                         (upd (\<lambda>w. w\<lparr>w_flags := w_flags w OR WEBS_HEADER_DONE\<rparr>) s)
                  else Inr s) (\<lambda>s.
        res_bind (cur s) (\<lambda>w.
        res_bind (case message of
                    Some m \<Rightarrow> if w_flags w AND WEBS_HEAD_REQUEST = 0 \<and> m \<noteq> []
                              then websWrite (''%s'' @ CRLF) [FStr (Some m)] s else Inr s
                  | None \<Rightarrow> Inr s) (\<lambda>s.
          websDone e code s)))))"

definition error_page :: string where
  "error_page =
     ''<html><head><title>Document Error: %s</title></head>'' @ CRLF @ TABS
     @ ''<body><h2>Access Error: %s</h2>'' @ CRLF @ TABS @ ''<p>%s</p></body></html>'' @ CRLF"

definition websError :: "env \<Rightarrow> int \<Rightarrow> string \<Rightarrow> farg list \<Rightarrow> server \<Rightarrow> server res" where
  "websError e code fmt args s =
     res_bind (cur s) (\<lambda>w.
     res_bind (websSafeUrl True (w_url w)) (\<lambda>safeUrl.
     (let s = upd (\<lambda>w. w\<lparr>w_url := safeUrl\<rparr>) (s\<lparr>st_errors := st_errors s + 1\<rparr>) in
      res_bind (fmtValloc WEBS_BUFSIZE fmt args) (\<lambda>(userMsg, n).
      res_bind (websSafeUrl True (Some userMsg)) (\<lambda>safeMsg.
      res_bind (fmtAlloc WEBS_BUFSIZE error_page
                  [FStr (Some (websErrorMsg code)), FStr (Some (websErrorMsg code)), FStr safeMsg]) (\<lambda>(buf, n).
        websResponse e code (Some buf) None s))))))"

definition moved_page :: string where
  "moved_page =
     ''<html><head></head><body>'' @ CRLF @ TABS
     @ ''This document has moved to a new <a href='' @ [CHR 0x22] @ ''%s'' @ [CHR 0x22] @ ''>location</a>.'' @ CRLF @ TABS
     @ ''Please update your documents to reflect the new location.'' @ CRLF @ TABS @ ''</body></html>'' @ CRLF"

definition websRedirect :: "env \<Rightarrow> string \<Rightarrow> server \<Rightarrow> server res" where
  "websRedirect e url s =
     (let s = s\<lparr>st_redirects := st_redirects s + 1\<rparr> in
      res_bind (if has_sub ''http://'' url then Inr url
                else
                  (let u = (case url of c # r \<Rightarrow> if c = CHR ''/'' then r else url | [] \<Rightarrow> url) in
                   res_bind (websGetVar ''HTTP_HOST'' (websHostUrl s) s) (\<lambda>h.
                   res_bind (fmtAlloc (WEBS_MAX_URL + 80) ''http://%s/%s'' [FStr h, FStr (Some u)]) (\<lambda>(b, n). Inr b))))
        (\<lambda>url.
      res_bind (fmtAlloc (WEBS_MAX_URL + 80) moved_page [FStr (Some url)]) (\<lambda>(msgbuf, n).
        websResponse e 302 (Some msgbuf) (Some url) s)))"

section \<open>The CGI environment of a request\<close>

text \<open>A decoded part of the query, read as a C string: it ends at the first NUL a \<open>%00\<close> gives.\<close>

definition cdecode :: "string \<Rightarrow> string" where
  "cdecode s = takeWhile (\<lambda>c. c \<noteq> NUL) (websDecodeUrl (length s) s)"

text \<open>One \<open>keyword=value\<close> of the query; the decoded query itself is only kept to be freed.\<close>

definition set_query_var :: "env \<Rightarrow> string \<Rightarrow> server \<Rightarrow> server res" where
  "set_query_var e tok s =
     (let k = takeWhile (\<lambda>c. c \<noteq> CHR ''='') tok;
          (keyword, val) = (if CHR ''='' \<in> set tok then (cdecode k, cdecode (drop (length k + 1) tok)) else (tok, []))
      in if keyword = [] then Inr s
         else res_bind (websGetVar keyword None s) (\<lambda>valCheck.
           case valCheck of
             Some old \<Rightarrow>
               res_bind (fmtAlloc 256 ''%s %s'' [FStr (Some old), FStr (Some val)]) (\<lambda>(valNew, n).
                 websSetVar e keyword (Some valNew) s)
           | None \<Rightarrow> websSetVar e keyword (Some val) s))"

fun set_query_vars :: "env \<Rightarrow> string list \<Rightarrow> server \<Rightarrow> server res" where
  "set_query_vars e [] s = Inr s"
| "set_query_vars e (tok # toks) s = res_bind (set_query_var e tok s) (\<lambda>s. set_query_vars e toks s)"

fun set_vars :: "env \<Rightarrow> (string \<times> string option) list \<Rightarrow> server \<Rightarrow> server res" where
  "set_vars e [] s = Inr s"
| "set_vars e ((var, val) # vs) s = res_bind (websSetVar e var val s) (\<lambda>s. set_vars e vs s)"

definition websSetEnv :: "env \<Rightarrow> server \<Rightarrow> server res" where
  "websSetEnv e s =
     res_bind (cur s) (\<lambda>w.
     res_bind (fmtAlloc (int FNAMESIZE) ''%s/%s'' [FStr (Some WEBS_NAME), FStr (Some WEBS_VERSION)]) (\<lambda>(sw, n).
     res_bind (set_vars e
       [(''QUERY_STRING'', w_query w), (''GATEWAY_INTERFACE'', Some ''CGI/1.1''),
        (''SERVER_HOST'', Some (websHost s)), (''SERVER_NAME'', Some (websHost s)),
        (''SERVER_URL'', websHostUrl s), (''REMOTE_HOST'', Some (w_ipaddr w)), (''REMOTE_ADDR'', Some (w_ipaddr w)),
        (''PATH_INFO'', w_path w), (''SERVER_PORT'', Some (stritoa (websPort s) 8)),
        (''SERVER_ADDR'', Some (w_ifaddr w)), (''SERVER_SOFTWARE'', Some sw),
        (''SERVER_PROTOCOL'', w_protoVersion w)] s) (\<lambda>s.
       set_query_vars e (strtok ''&'' (bstrdup (w_query w))) s)))"

end
