(* ===== verification/Webs_Laws.thy ===== *)
theory Webs_Laws
  imports Webs
begin

text \<open>
  The request record is sound between calls (\<open>server_ok\<close>): the symbol tables are, the request's
  variable table is open, is not the table of forms and holds strings only.  The lemmas show what
  variables, error pages and redirects do to a sound state: no fault, a state that is sound again,
  and an error page or a redirect ends the request.
\<close>

definition str_ok :: "string option \<Rightarrow> bool" where
  "str_ok o' \<longleftrightarrow> (\<forall>s. o' = Some s \<longrightarrow> is_cstr s)"

lemma str_ok_simps [simp]: "str_ok None" "str_ok (Some s) \<longleftrightarrow> is_cstr s"
  by (auto simp: str_ok_def)

definition vars_ok :: "value_t symtabs \<Rightarrow> int \<Rightarrow> bool" where
  "vars_ok t sd \<longleftrightarrow> (\<forall>n p. syms t sd n = Some p \<longrightarrow> (\<exists>v. value_string (s_content p) = Inr v \<and> is_cstr v))"

definition webs_strs :: "webs \<Rightarrow> bool" where
  "webs_strs w \<longleftrightarrow> str_ok (w_url w) \<and> str_ok (w_path w) \<and> str_ok (w_query w) \<and> str_ok (w_protoVersion w)
     \<and> is_cstr (w_ipaddr w) \<and> is_cstr (w_ifaddr w)"

definition request_ok :: "webs \<Rightarrow> server \<Rightarrow> bool" where
  "request_ok w s \<longleftrightarrow> live (w_cgiVars w) (tabs s) \<and> w_cgiVars w \<noteq> formSymtab s \<and> webs_strs w
     \<and> vars_ok (tabs s) (w_cgiVars w)"

definition server_ok :: "server \<Rightarrow> bool" where
  "server_ok s \<longleftrightarrow> tabs_ok (tabs s) \<and> live (formSymtab s) (tabs s) \<and> is_cstr (websRealm s) \<and> is_cstr (websHost s) \<and> str_ok (websHostUrl s)
     \<and> (\<forall>w. wp s = Some w \<longrightarrow> request_ok w s)"

definition env_ok :: "env \<Rightarrow> bool" where
  "env_ok e \<longleftrightarrow> str_ok (e_date e)"

lemma cur_Some [simp]: "wp s = Some w \<Longrightarrow> cur s = Inr w"
  by (simp add: cur_def)

lemma upd_simps [simp]:
  "wp (upd f s) = map_option f (wp s)" "tabs (upd f s) = tabs s" "umdb (upd f s) = umdb s"
  "out (upd f s) = out s" "formSymtab (upd f s) = formSymtab s" "websRealm (upd f s) = websRealm s"
  "websHostUrl (upd f s) = websHostUrl s" "st_access (upd f s) = st_access s" "st_errors (upd f s) = st_errors s"
  "st_formHits (upd f s) = st_formHits s" "st_handlerHits (upd f s) = st_handlerHits s" "websDefaultDir (upd f s) = websDefaultDir s"
  "websHost (upd f s) = websHost s" "websPort (upd f s) = websPort s"
  by (simp_all add: upd_def)

lemma upd_ok:
  assumes "server_ok s" and "\<And>w. w_cgiVars (f w) = w_cgiVars w" and "\<And>w. webs_strs w \<Longrightarrow> webs_strs (f w)"
  shows "server_ok (upd f s)"
  using assms by (auto simp: server_ok_def request_ok_def)

section \<open>Variables\<close>

lemma websSetVar_ok:
  assumes ok: "server_ok s" and w: "wp s = Some w" and v: "str_ok val"
  shows "\<exists>t. websSetVar e var val s = Inr (s\<lparr>tabs := t\<rparr>) \<and> server_ok (s\<lparr>tabs := t\<rparr>)
    \<and> (\<forall>k. 0 \<le> k \<and> k \<noteq> w_cgiVars w \<longrightarrow> syms t k = syms (tabs s) k)
    \<and> (e_alloc e \<longrightarrow> (\<exists>p. s_content p = VString (bstrdup val) \<and>
         syms t (w_cgiVars w) = (syms (tabs s) (w_cgiVars w))(var \<mapsto> p)))"
proof -
  let ?sd = "w_cgiVars w"
  have t: "tabs_ok (tabs s)" "live ?sd (tabs s)" "vars_ok (tabs s) ?sd" using ok w by (auto simp: server_ok_def request_ok_def)
  have c: "is_cstr (bstrdup val)" using v by (cases val) (simp_all add: bstrdup_def)
  from symEnter_eq [OF t(1,2), of "e_alloc e" var "VString (bstrdup val)" 0] show ?thesis
  proof
    assume "\<not> e_alloc e \<and> syms (tabs s) ?sd var = None
      \<and> symEnter (e_alloc e) ?sd var (VString (bstrdup val)) 0 (tabs s) = Inr (None, tabs s)"
    then show ?thesis using w ok by (intro exI [of _ "tabs s"]) (auto simp: websSetVar_def)
  next
    assume "\<exists>sp s'. symEnter (e_alloc e) ?sd var (VString (bstrdup val)) 0 (tabs s) = Inr (Some sp, s') \<and> s_name sp = var
      \<and> s_content sp = VString (bstrdup val) \<and> s_arg sp = 0 \<and> tabs_ok s' \<and> live ?sd s'
      \<and> syms s' ?sd = (syms (tabs s) ?sd)(var \<mapsto> sp) \<and> (\<forall>k. 0 \<le> k \<and> k \<noteq> ?sd \<longrightarrow> syms s' k = syms (tabs s) k)"
    then obtain sp t' where e: "symEnter (e_alloc e) ?sd var (VString (bstrdup val)) 0 (tabs s) = Inr (Some sp, t')"
      "s_content sp = VString (bstrdup val)" "tabs_ok t'" "syms t' ?sd = (syms (tabs s) ?sd)(var \<mapsto> sp)"
      "\<forall>k. 0 \<le> k \<and> k \<noteq> ?sd \<longrightarrow> syms t' k = syms (tabs s) k" by blast
    have lv: "live k t' = live k (tabs s)" for k by (rule symEnter_live [OF t(2) e(1)])
    have "vars_ok t' ?sd" using t(3) e(2,4) c by (auto simp: vars_ok_def)
    then have "server_ok (s\<lparr>tabs := t'\<rparr>)" using ok w e(3) lv by (auto simp: server_ok_def request_ok_def)
    moreover have "websSetVar e var val s = Inr (s\<lparr>tabs := t'\<rparr>)" using w e(1) by (simp add: websSetVar_def)
    ultimately show ?thesis using e by blast
  qed
qed

lemma websGetVar_ok:
  assumes ok: "server_ok s" and w: "wp s = Some w" and d: "str_ok dflt"
  shows "\<exists>r. websGetVar var dflt s = Inr r \<and> str_ok r \<and> (dflt \<noteq> None \<longrightarrow> r \<noteq> None)
    \<and> (case syms (tabs s) (w_cgiVars w) var of None \<Rightarrow> r = dflt
       | Some p \<Rightarrow> var \<noteq> [] \<longrightarrow> value_string (s_content p) = Inr (the r) \<and> r \<noteq> None)"
proof -
  have t: "tabs_ok (tabs s)" "live (w_cgiVars w) (tabs s)" "vars_ok (tabs s) (w_cgiVars w)"
    using ok w by (auto simp: server_ok_def request_ok_def)
  show ?thesis
  proof (cases "syms (tabs s) (w_cgiVars w) var")
    case None
    then show ?thesis using t d w by (simp add: websGetVar_def symLookup_eq)
  next
    case (Some p)
    then obtain v where "value_string (s_content p) = Inr v" "is_cstr v" using t(3) by (auto simp: vars_ok_def)
    then show ?thesis using t d w Some by (auto simp: websGetVar_def symLookup_eq)
  qed
qed

lemma set_vars_ok:
  "server_ok s \<Longrightarrow> wp s = Some w \<Longrightarrow> list_all (\<lambda>p. str_ok (snd p)) vs \<Longrightarrow>
   \<exists>t. set_vars e vs s = Inr (s\<lparr>tabs := t\<rparr>) \<and> server_ok (s\<lparr>tabs := t\<rparr>)
     \<and> (\<forall>k. 0 \<le> k \<and> k \<noteq> w_cgiVars w \<longrightarrow> syms t k = syms (tabs s) k)"
proof (induction vs arbitrary: s)
  case Nil
  then show ?case by (intro exI [of _ "tabs s"]) simp
next
  case (Cons p vs)
  obtain var val where p: "p = (var, val)" by (cases p)
  then have "str_ok val" using Cons.prems by simp
  then obtain t where t: "websSetVar e var val s = Inr (s\<lparr>tabs := t\<rparr>)" "server_ok (s\<lparr>tabs := t\<rparr>)"
    "\<forall>k. 0 \<le> k \<and> k \<noteq> w_cgiVars w \<longrightarrow> syms t k = syms (tabs s) k"
    using websSetVar_ok [OF Cons.prems(1,2), of val e var] by blast
  then obtain t2 where "set_vars e vs (s\<lparr>tabs := t\<rparr>) = Inr (s\<lparr>tabs := t\<rparr>\<lparr>tabs := t2\<rparr>)" "server_ok (s\<lparr>tabs := t\<rparr>\<lparr>tabs := t2\<rparr>)"
    "\<forall>k. 0 \<le> k \<and> k \<noteq> w_cgiVars w \<longrightarrow> syms t2 k = syms (tabs (s\<lparr>tabs := t\<rparr>)) k"
    using Cons.IH [of "s\<lparr>tabs := t\<rparr>"] Cons.prems by auto
  then show ?case using t p by (intro exI [of _ t2]) simp
qed

section \<open>Writing\<close>

lemma fmtValloc_eq: "fmtValloc n fmt args = fmtAlloc n fmt args"
  by (simp add: fmtValloc_def fmtAlloc_def)

text \<open>Formatted text never faults when its directives match.\<close>

lemma fmt_text:
  assumes "render fmt args = Some t" and "args_ok args" and "is_cstr fmt" and "64 \<le> n \<or> int (length t) < n"
  shows "fmtAlloc n fmt args = Inr (take (fmt_cap n) t, int (min (fmt_cap n) (length t))) \<and> is_cstr (take (fmt_cap n) t)"
  using fmt_alloc_text [OF assms] render_cstr [OF assms(1-3)] by simp

lemma websWrite_ok:
  assumes "wp s = Some w" and "render fmt args = Some t" and "args_ok args" and "is_cstr fmt"
  shows "websWrite fmt args s = Inr (s\<lparr>out := out s @ [take 959 t]\<rparr>)"
proof -
  have "fmt_cap WEBS_BUFSIZE = 959" by code_simp
  then show ?thesis using fmt_text [OF assms(2-4), of WEBS_BUFSIZE] assms(1)
    by (simp add: websWrite_def fmtValloc_eq WEBS_BUFSIZE_def)
qed

section \<open>Error pages and redirects end the request\<close>

lemma websErrorMsg_cstr: "is_cstr (websErrorMsg code)"
proof -
  have "list_all (\<lambda>p. is_cstr (snd p)) websErrors" by code_simp
  then have "map_of websErrors code = Some m \<Longrightarrow> is_cstr m" for m
    by (auto simp: list_all_iff dest!: map_of_SomeD)
  then show ?thesis by (simp add: websErrorMsg_def split: option.split)
qed

text \<open>A step that only adds output.\<close>

definition writes :: "server \<Rightarrow> server res \<Rightarrow> bool" where
  "writes s r \<longleftrightarrow> (\<exists>ls. r = Inr (s\<lparr>out := out s @ ls\<rparr>))"

lemma writes_none: "writes s (Inr s)"
  unfolding writes_def by (intro exI [of _ "[]"]) simp

lemma writes_bind:
  assumes "writes s r" and "\<And>ls. writes (s\<lparr>out := out s @ ls\<rparr>) (k (s\<lparr>out := out s @ ls\<rparr>))"
  shows "writes s (res_bind r k)"
proof -
  obtain ls where r: "r = Inr (s\<lparr>out := out s @ ls\<rparr>)" using assms(1) by (auto simp: writes_def)
  then obtain ls2 where "k (s\<lparr>out := out s @ ls\<rparr>) = Inr (s\<lparr>out := out s @ ls @ ls2\<rparr>)"
    using assms(2) [of ls] by (auto simp: writes_def)
  then show ?thesis using r by (auto simp: writes_def intro: exI [of _ "ls @ ls2"])
qed

lemma writes_write:
  assumes "wp s = Some w" and "render fmt args \<noteq> None" and "args_ok args" and "is_cstr fmt"
  shows "writes s (websWrite fmt args s)"
proof -
  obtain t where "render fmt args = Some t" using assms(2) by blast
  from websWrite_ok [OF assms(1) this assms(3,4)] show ?thesis by (auto simp: writes_def)
qed

lemma writes_if: "(P \<Longrightarrow> writes s a) \<Longrightarrow> (\<not> P \<Longrightarrow> writes s b) \<Longrightarrow> writes s (if P then a else b)"
  by simp

lemma writes_option:
  "(o' = None \<Longrightarrow> writes s a) \<Longrightarrow> (\<And>x. o' = Some x \<Longrightarrow> writes s (f x)) \<Longrightarrow> writes s (case o' of None \<Rightarrow> a | Some x \<Rightarrow> f x)"
  by (cases o') auto

text \<open>The status line is the first line of a header.\<close>

definition status_line :: "string option \<Rightarrow> int \<Rightarrow> string" where
  "status_line redirect code =
     (if redirect \<noteq> None then ''HTTP/1.0 '' else ''HTTP/1.1 '') @ dec_int code @ '' '' @ websErrorMsg code @ CRLF"

lemma response_header_ok:
  assumes w: "wp s = Some w" and ok: "server_ok s" and e: "env_ok e" and c: "0 \<le> code" "code < 1000"
    and r: "str_ok redirect"
  shows "\<exists>ls. response_header e code redirect s = Inr (s\<lparr>out := out s @ take 959 (status_line redirect code) # ls\<rparr>)"
proof -
  have re: "is_cstr (websRealm s)" using ok by (simp add: server_ok_def)
  let ?first = "take 959 (status_line redirect code)" and ?s1 = "s\<lparr>out := out s @ [take 959 (status_line redirect code)]\<rparr>"
  have first: "websWrite ((if redirect \<noteq> None then ''HTTP/1.0 %d %s'' else ''HTTP/1.1 %d %s'') @ CRLF)
      [FInt code, FStr (Some (websErrorMsg code))] s = Inr ?s1"
    using c by (intro websWrite_ok [OF w]) (auto simp: args_ok_def websErrorMsg_cstr status_line_def)
  have "writes ?s1 (header_rest e code redirect w ?s1)"
    unfolding header_rest_def
    using w re e r
    by (intro writes_bind writes_option writes_if writes_write writes_none)
      (simp_all add: args_ok_def WEBS_NAME_def env_ok_def)
  then obtain ls where "header_rest e code redirect w ?s1 = Inr (?s1\<lparr>out := out ?s1 @ ls\<rparr>)" unfolding writes_def by blast
  then show ?thesis using w first by (intro exI [of _ ls]) (simp add: response_header_def)
qed

text \<open>\<open>ended s s'\<close>: the request is over; users, forms, counters of hits and settings are as before.\<close>

definition ended :: "server \<Rightarrow> server \<Rightarrow> bool" where
  "ended s s' \<longleftrightarrow> wp s' = None \<and> server_ok s' \<and> umdb s' = umdb s \<and> formSymtab s' = formSymtab s
     \<and> syms (tabs s') (formSymtab s) = syms (tabs s) (formSymtab s) \<and> st_access s' = st_access s
     \<and> st_formHits s' = st_formHits s \<and> websDefaultDir s' = websDefaultDir s"

lemma websFree_ok:
  assumes ok: "server_ok s" and w: "wp s = Some w"
  shows "\<exists>s'. websFree s = Inr s' \<and> ended s s' \<and> out s' = out s \<and> st_errors s' = st_errors s"
proof -
  have t: "tabs_ok (tabs s)" "live (w_cgiVars w) (tabs s)" "w_cgiVars w \<noteq> formSymtab s" "live (formSymtab s) (tabs s)"
    using ok w by (auto simp: server_ok_def request_ok_def)
  obtain t' where t': "symClose (w_cgiVars w) (tabs s) = Inr t'" "tabs_ok t'"
    "\<forall>k. k \<noteq> w_cgiVars w \<longrightarrow> live k t' = live k (tabs s)"
    "\<forall>k. 0 \<le> k \<and> k \<noteq> w_cgiVars w \<longrightarrow> syms t' k = syms (tabs s) k"
    using symClose_eq [OF t(1,2)] by blast
  have "0 \<le> formSymtab s" using t(4) by (simp add: live_def)
  then show ?thesis using ok w t t' by (auto simp: websFree_def ended_def server_ok_def)
qed

lemma keep_alive_cleared:
  "(x AND NOT WEBS_KEEP_ALIVE) AND WEBS_KEEP_ALIVE = 0"
  "((x AND NOT WEBS_KEEP_ALIVE) OR WEBS_HEADER_DONE) AND WEBS_KEEP_ALIVE = 0"
proof -
  have "WEBS_HEADER_DONE AND WEBS_KEEP_ALIVE = 0" by (simp add: WEBS_HEADER_DONE_def WEBS_KEEP_ALIVE_def)
  then show "(x AND NOT WEBS_KEEP_ALIVE) AND WEBS_KEEP_ALIVE = 0"
    "((x AND NOT WEBS_KEEP_ALIVE) OR WEBS_HEADER_DONE) AND WEBS_KEEP_ALIVE = 0"
    by (simp_all add: bit.conj_disj_distrib2 and.assoc)
qed

lemma websDone_ends:
  assumes ok: "server_ok s" and w: "wp s = Some w" and k: "w_flags w AND WEBS_KEEP_ALIVE = 0"
  shows "\<exists>s'. websDone e code s = Inr s' \<and> ended s s' \<and> out s' = out s \<and> st_errors s' = st_errors s"
proof -
  let ?s = "if code \<noteq> 200 then upd (\<lambda>w. w\<lparr>w_flags := w_flags w AND NOT WEBS_KEEP_ALIVE\<rparr>) s else s"
  have fl: "(if code \<noteq> 200 then w_flags w AND NOT WEBS_KEEP_ALIVE else w_flags w) AND WEBS_KEEP_ALIVE = 0"
    using k by (simp add: keep_alive_cleared)
  have "server_ok ?s" using ok by (auto intro: upd_ok simp: webs_strs_def)
  moreover have "wp ?s \<noteq> None" using w by simp
  ultimately obtain s' where s': "websFree ?s = Inr s'" "ended ?s s'" "out s' = out ?s" "st_errors s' = st_errors ?s"
    using websFree_ok [of ?s] by blast
  have "websDone e code s = websFree ?s" using w fl by (simp add: websDone_def Let_def)
  then show ?thesis using s' by (cases "code = 200") (auto simp: ended_def)
qed

lemma websResponse_ok:
  assumes ok: "server_ok s" and w: "wp s = Some w" and e: "env_ok e" and c: "0 \<le> code" "code < 1000"
    and m: "str_ok message" and r: "str_ok redirect"
  shows "\<exists>s' ls. websResponse e code message redirect s = Inr s' \<and> ended s s' \<and> st_errors s' = st_errors s
    \<and> out s' = out s @ (if w_flags w AND WEBS_HEADER_DONE = 0 then [take 959 (status_line redirect code)] else []) @ ls"
proof -
  define s0 where "s0 = upd (\<lambda>w. w\<lparr>w_flags := w_flags w AND NOT WEBS_KEEP_ALIVE\<rparr>) s"
  define s1 where "s1 = (if w_flags w AND WEBS_HEADER_DONE = 0
    then upd (\<lambda>w. w\<lparr>w_flags := w_flags w OR WEBS_HEADER_DONE\<rparr>) s0 else s0)"
  define hd where "hd = (if w_flags w AND WEBS_HEADER_DONE = 0 then [take 959 (status_line redirect code)] else [])"
  have s1: "server_ok s1" using ok by (auto simp: s1_def s0_def intro!: upd_ok simp: webs_strs_def)
  have "\<exists>w1. wp s1 = Some w1 \<and> w_flags w1 AND WEBS_KEEP_ALIVE = 0"
    using w by (simp add: s1_def s0_def keep_alive_cleared)
  then obtain w1 where w1: "wp s1 = Some w1" and k1: "w_flags w1 AND WEBS_KEEP_ALIVE = 0" by blast
  obtain ls where h: "(if w_flags w AND WEBS_HEADER_DONE = 0
      then response_header e code redirect (upd (\<lambda>w. w\<lparr>w_flags := w_flags w OR WEBS_HEADER_DONE\<rparr>) s0)
      else Inr s0) = Inr (s1\<lparr>out := out s1 @ hd @ ls\<rparr>)"
  proof (cases "w_flags w AND WEBS_HEADER_DONE = 0")
    case True
    then show ?thesis using that response_header_ok [OF w1 s1 e c r] by (auto simp: s1_def hd_def)
  next
    case False
    then show ?thesis using that [of "[]"] by (simp add: s1_def hd_def)
  qed
  let ?s2 = "s1\<lparr>out := out s1 @ hd @ ls\<rparr>"
  let ?m = "case message of Some m \<Rightarrow> if w_flags w1 AND WEBS_HEAD_REQUEST = 0 \<and> m \<noteq> []
      then websWrite (''%s'' @ CRLF) [FStr (Some m)] ?s2 else Inr ?s2 | None \<Rightarrow> Inr ?s2"
  have "writes ?s2 ?m"
    using w1 m by (cases message) (auto intro!: writes_write writes_none simp: args_ok_def)
  then obtain l2 where l2: "?m = Inr (s1\<lparr>out := out s1 @ hd @ ls @ l2\<rparr>)" by (auto simp: writes_def)
  let ?s3 = "s1\<lparr>out := out s1 @ hd @ ls @ l2\<rparr>"
  have "server_ok ?s3" using s1 by (simp add: server_ok_def request_ok_def)
  moreover have "wp ?s3 = Some w1" using w1 by simp
  ultimately obtain s' where d: "websDone e code ?s3 = Inr s'" "ended ?s3 s'" "out s' = out ?s3" "st_errors s' = st_errors ?s3"
    using websDone_ends k1 by blast
  have "websResponse e code message redirect s = Inr s'"
    unfolding websResponse_def cur_Some [OF w] res_bind.simps Let_def s0_def [symmetric] h
    using w1 l2 d(1) by simp
  moreover have same: "umdb s1 = umdb s" "formSymtab s1 = formSymtab s" "tabs s1 = tabs s" "st_access s1 = st_access s"
    "st_formHits s1 = st_formHits s" "websDefaultDir s1 = websDefaultDir s" "out s1 = out s" "st_errors s1 = st_errors s"
    by (simp_all add: s1_def s0_def)
  moreover have "ended s s'" using d(2) by (simp add: ended_def same)
  ultimately show ?thesis using d by (auto simp: hd_def)
qed

text \<open>The texts of the error and redirect pages.\<close>

lemma websError_ok:
  assumes ok: "server_ok s" and w: "wp s = Some w" and e: "env_ok e" and c: "0 \<le> code" "code < 1000"
    and m: "render fmt args = Some t" "args_ok args" "is_cstr fmt"
  shows "\<exists>s' ls. websError e code fmt args s = Inr s' \<and> ended s s' \<and> st_errors s' = st_errors s + 1
    \<and> out s' = out s @ (if w_flags w AND WEBS_HEADER_DONE = 0 then [take 959 (status_line None code)] else []) @ ls"
proof -
  have u: "\<exists>u. websSafeUrl True (w_url w) = Inr u \<and> str_ok u"
  proof (cases "w_url w")
    case None
    then show ?thesis by (simp add: websSafeUrl_def)
  next
    case (Some x)
    then have "is_cstr x" using ok w by (auto simp: server_ok_def request_ok_def webs_strs_def)
    then show ?thesis using Some by (simp add: websSafeUrl_eq html_safe_cstr)
  qed
  then obtain u where u: "websSafeUrl True (w_url w) = Inr u" "str_ok u" by blast
  let ?t = "take (fmt_cap WEBS_BUFSIZE) t"
  have f: "fmtValloc WEBS_BUFSIZE fmt args = Inr (?t, int (min (fmt_cap WEBS_BUFSIZE) (length t)))" "is_cstr ?t"
    using fmt_text [OF m, of WEBS_BUFSIZE] by (simp_all add: fmtValloc_eq WEBS_BUFSIZE_def)
  let ?args = "[FStr (Some (websErrorMsg code)), FStr (Some (websErrorMsg code)), FStr (Some (html_safe ?t))]"
  have a: "args_ok ?args" using f(2) by (simp add: args_ok_def websErrorMsg_cstr html_safe_cstr)
  have p: "render error_page ?args \<noteq> None" "is_cstr error_page" by (simp_all add: error_page_def)
  then obtain pg where pg: "render error_page ?args = Some pg" by blast
  obtain b n where b: "fmtAlloc WEBS_BUFSIZE error_page ?args = Inr (b, n)" "is_cstr b"
    using fmt_text [OF pg a p(2), of WEBS_BUFSIZE] by (simp add: WEBS_BUFSIZE_def)
  let ?s = "upd (\<lambda>w. w\<lparr>w_url := u\<rparr>) (s\<lparr>st_errors := st_errors s + 1\<rparr>)"
  have "server_ok (s\<lparr>st_errors := st_errors s + 1\<rparr>)" using ok by (simp add: server_ok_def request_ok_def)
  then have s: "server_ok ?s" using u(2) by (auto intro: upd_ok simp: webs_strs_def)
  have w2: "wp ?s = Some (w\<lparr>w_url := u\<rparr>)" using w by simp
  obtain s' ls where r: "websResponse e code (Some b) None ?s = Inr s'" "ended ?s s'" "st_errors s' = st_errors ?s"
    "out s' = out ?s @ (if w_flags w AND WEBS_HEADER_DONE = 0 then [take 959 (status_line None code)] else []) @ ls"
    using websResponse_ok [OF s w2 e c, of "Some b" None] b(2) by auto
  have "websError e code fmt args s = Inr s'"
    using w u(1) f(1) b(1) r(1) by (simp add: websError_def Let_def websSafeUrl_eq)
  moreover have "ended s s'" using r(2) by (simp add: ended_def)
  ultimately show ?thesis using r(3,4) by auto
qed

lemma websRedirect_ok:
  assumes ok: "server_ok s" and w: "wp s = Some w" and e: "env_ok e" and u: "is_cstr url" and h: "websHostUrl s \<noteq> None"
  shows "\<exists>s'. websRedirect e url s = Inr s' \<and> ended s s' \<and> st_errors s' = st_errors s"
proof -
  let ?s = "s\<lparr>st_redirects := st_redirects s + 1\<rparr>"
  have s: "server_ok ?s" "wp ?s = Some w" using ok w by (simp_all add: server_ok_def request_ok_def)
  define tail where "tail = (case url of c # r \<Rightarrow> if c = CHR ''/'' then r else url | [] \<Rightarrow> url)"
  have tail: "is_cstr tail" using u by (auto simp: tail_def split: list.split)
  have "str_ok (websHostUrl ?s)" using ok by (simp add: server_ok_def)
  from websGetVar_ok [OF s this, of "''HTTP_HOST''"] h
  obtain host where host: "websGetVar ''HTTP_HOST'' (websHostUrl ?s) ?s = Inr (Some host)" "is_cstr host" by auto
  have "render ''http://%s/%s'' [FStr (Some host), FStr (Some tail)] \<noteq> None" by simp
  then obtain t1 where t1: "render ''http://%s/%s'' [FStr (Some host), FStr (Some tail)] = Some t1" by blast
  obtain b n where b: "fmtAlloc (WEBS_MAX_URL + 80) ''http://%s/%s'' [FStr (Some host), FStr (Some tail)] = Inr (b, n)" "is_cstr b"
    using fmt_text [OF t1, of "WEBS_MAX_URL + 80"] host(2) tail by (auto simp: args_ok_def WEBS_MAX_URL_def)
  define url2 where "url2 = (if has_sub ''http://'' url then url else b)"
  have u2: "is_cstr url2" using u b(2) by (simp add: url2_def)
  have "render moved_page [FStr (Some url2)] \<noteq> None" by (simp add: moved_page_def)
  then obtain t2 where t2: "render moved_page [FStr (Some url2)] = Some t2" by blast
  have mp: "is_cstr moved_page" by (simp add: moved_page_def)
  obtain m k where m: "fmtAlloc (WEBS_MAX_URL + 80) moved_page [FStr (Some url2)] = Inr (m, k)" "is_cstr m"
    using fmt_text [OF t2 _ mp, of "WEBS_MAX_URL + 80"] u2 by (auto simp: args_ok_def WEBS_MAX_URL_def)
  obtain s' ls where r: "websResponse e 302 (Some m) (Some url2) ?s = Inr s'" "ended ?s s'" "st_errors s' = st_errors ?s"
    using websResponse_ok [OF s e, of 302 "Some m" "Some url2"] m(2) u2 by auto
  have "websRedirect e url s = Inr s'"
    using host(1) b(1) m(1) r(1) unfolding websRedirect_def Let_def url2_def tail_def by auto
  then show ?thesis using r by (auto simp: ended_def)
qed

section \<open>A small server\<close>

text \<open>Table 0 holds the request's variables, table 1 the forms.\<close>

definition demo_header :: ringq where
  "demo_header = \<lparr>rq_buf = replicate 1024 NUL, servp = 0, endp = 0, maxsize = 5120, increment = 1024\<rparr>"

definition demo_webs :: webs where
  "demo_webs = \<lparr>w_cgiVars = 0, w_ipaddr = ''10.10.10.100'', w_ifaddr = ''10.10.10.254'', w_type = ''text/html'',
     w_dir = Some ''/etc_ro/web'', w_path = Some ''/adm/x.asp'', w_url = Some ''/adm/x.asp'', w_lpath = None,
     w_query = Some [], w_password = None, w_userName = None, w_protoVersion = Some ''HTTP/1.1'',
     w_state = WEBS_PROCESSING, w_flags = 0, w_header = demo_header, w_host = None, w_protocol = None, w_port = 80,
     w_authType = None, w_userAgent = None, w_cookie = None, w_clen = 0, w_cgiStdin = None, w_fwClean = False,
     w_docfd = None, w_numbytes = 0, w_written = 0, w_writer = False\<rparr>"

definition demo_symtabs :: "value_t symtabs" where
  "demo_symtabs = \<lparr>sym = Some \<lparr>h_used = 2, h_slots = [Some \<lparr>hash_size = 1, hash_table = [[]]\<rparr>,
       Some \<lparr>hash_size = 1, hash_table = [[\<lparr>s_name = ''f'', s_content = VInteger 7, s_arg = 0\<rparr>]]\<rparr>]\<rparr>,
     symMax = 2, symOpenCount = 1, htIndex = 0, next_sym = []\<rparr>"

definition demo_server :: server where
  "demo_server = \<lparr>wp = Some demo_webs, tabs = demo_symtabs, umdb = um_demo,
     st_errors = 0, st_redirects = 0, st_access = 0, st_formHits = 0, st_handlerHits = 0, st_localHits = 0, out = [], websHost = ''ap'',
     websHostUrl = Some ''10.10.10.254'', websRealm = ''GoAhead'', websPort = 80, websDefaultDir = Some ''/etc_ro/web'', websDefaultPage = Some ''default.asp'', formSymtab = 1,
     websMime = 2, sock = demo_sock [], cgi_file = []\<rparr>"

definition demo_env :: env where
  "demo_env = \<lparr>e_date = None, e_flush0 = True, e_alloc = True, e_mem = demo_mem, e_port = 80, e_cgiName = ''/tmp/cgi0''\<rparr>"

lemma demo_symtabs_ok: "tabs_ok demo_symtabs" "live 0 demo_symtabs" "live 1 demo_symtabs" "vars_ok demo_symtabs 0"
  by (auto simp: demo_symtabs_def tabs_ok_def live_def hwf_def hget_def tabent_ok_def vars_ok_def syms_def tab_map_def
      chain_map_def hashIndex_def less_Suc_eq split: if_splits)

lemma demo_server_ok: "server_ok demo_server" "env_ok demo_env"
  using demo_symtabs_ok
  by (simp_all add: server_ok_def request_ok_def demo_server_def demo_webs_def env_ok_def demo_env_def webs_strs_def)

section \<open>The environment of a request\<close>

lemma cdecode_cstr [simp]: "is_cstr (cdecode s)"
  by (auto simp: cdecode_def is_cstr_def dest: set_takeWhileD)

lemma set_query_var_ok:
  assumes ok: "server_ok s" and w: "wp s = Some w"
  shows "\<exists>t. set_query_var e tok s = Inr (s\<lparr>tabs := t\<rparr>) \<and> server_ok (s\<lparr>tabs := t\<rparr>)
     \<and> (\<forall>k. 0 \<le> k \<and> k \<noteq> w_cgiVars w \<longrightarrow> syms t k = syms (tabs s) k)"
proof -
  define k where "k = takeWhile (\<lambda>c. c \<noteq> CHR ''='') tok"
  define kw where "kw = (if CHR ''='' \<in> set tok then cdecode k else tok)"
  define v where "v = (if CHR ''='' \<in> set tok then cdecode (drop (length k + 1) tok) else [])"
  have v: "is_cstr v" by (simp add: v_def)
  have run: "set_query_var e tok s = (if kw = [] then Inr s
      else res_bind (websGetVar kw None s) (\<lambda>valCheck.
        case valCheck of
          Some old \<Rightarrow>
            res_bind (fmtAlloc 256 ''%s %s'' [FStr (Some old), FStr (Some v)]) (\<lambda>(valNew, n). websSetVar e kw (Some valNew) s)
        | None \<Rightarrow> websSetVar e kw (Some v) s))"
    by (auto simp: set_query_var_def Let_def k_def kw_def v_def)
  show ?thesis
  proof (cases "kw = []")
    case True
    then show ?thesis using run ok by (intro exI [of _ "tabs s"]) simp
  next
    case False
    obtain r where r: "websGetVar kw None s = Inr r" "str_ok r" using websGetVar_ok [OF ok w, of None kw] by auto
    show ?thesis
    proof (cases r)
      case None
      then show ?thesis using websSetVar_ok [OF ok w, of "Some v" e kw] v run False r by auto
    next
      case (Some old)
      have "render ''%s %s'' [FStr (Some old), FStr (Some v)] = Some (old @ '' '' @ v)" by simp
      from fmt_text [OF this, of 256] obtain b n where b: "fmtAlloc 256 ''%s %s'' [FStr (Some old), FStr (Some v)] = Inr (b, n)" "is_cstr b"
        using r(2) Some v by (auto simp: args_ok_def)
      then show ?thesis using websSetVar_ok [OF ok w, of "Some b" e kw] run False r Some by auto
    qed
  qed
qed

lemma set_query_vars_ok:
  "server_ok s \<Longrightarrow> wp s = Some w \<Longrightarrow>
   \<exists>t. set_query_vars e toks s = Inr (s\<lparr>tabs := t\<rparr>) \<and> server_ok (s\<lparr>tabs := t\<rparr>)
     \<and> (\<forall>k. 0 \<le> k \<and> k \<noteq> w_cgiVars w \<longrightarrow> syms t k = syms (tabs s) k)"
proof (induction toks arbitrary: s)
  case Nil
  then show ?case by (intro exI [of _ "tabs s"]) simp
next
  case (Cons tok toks)
  obtain t where t: "set_query_var e tok s = Inr (s\<lparr>tabs := t\<rparr>)" "server_ok (s\<lparr>tabs := t\<rparr>)"
    "\<forall>k. 0 \<le> k \<and> k \<noteq> w_cgiVars w \<longrightarrow> syms t k = syms (tabs s) k"
    using set_query_var_ok [OF Cons.prems, of e tok] by blast
  then obtain t2 where "set_query_vars e toks (s\<lparr>tabs := t\<rparr>) = Inr (s\<lparr>tabs := t\<rparr>\<lparr>tabs := t2\<rparr>)" "server_ok (s\<lparr>tabs := t\<rparr>\<lparr>tabs := t2\<rparr>)"
    "\<forall>k. 0 \<le> k \<and> k \<noteq> w_cgiVars w \<longrightarrow> syms t2 k = syms (tabs (s\<lparr>tabs := t\<rparr>)) k"
    using Cons.IH [of "s\<lparr>tabs := t\<rparr>"] Cons.prems by auto
  then show ?case using t by (intro exI [of _ t2]) simp
qed

lemma stritoa_cstr: "is_cstr (stritoa n width)"
  by (auto simp: is_cstr_def stritoa_def is_digit_def uchar_def dest!: digits_rev_digits)

lemma websSetEnv_ok:
  assumes ok: "server_ok s" and w: "wp s = Some w"
  shows "\<exists>t. websSetEnv e s = Inr (s\<lparr>tabs := t\<rparr>) \<and> server_ok (s\<lparr>tabs := t\<rparr>)
     \<and> (\<forall>k. 0 \<le> k \<and> k \<noteq> w_cgiVars w \<longrightarrow> syms t k = syms (tabs s) k)"
proof -
  have "render ''%s/%s'' [FStr (Some WEBS_NAME), FStr (Some WEBS_VERSION)] = Some (WEBS_NAME @ ''/'' @ WEBS_VERSION)" by simp
  from fmt_text [OF this, of "int FNAMESIZE"] obtain sw n
    where sw: "fmtAlloc (int FNAMESIZE) ''%s/%s'' [FStr (Some WEBS_NAME), FStr (Some WEBS_VERSION)] = Inr (sw, n)" "is_cstr sw"
    by (auto simp: args_ok_def WEBS_NAME_def WEBS_VERSION_def FNAMESIZE_def)
  let ?vs = "[(''QUERY_STRING'', w_query w), (''GATEWAY_INTERFACE'', Some ''CGI/1.1''),
        (''SERVER_HOST'', Some (websHost s)), (''SERVER_NAME'', Some (websHost s)),
        (''SERVER_URL'', websHostUrl s), (''REMOTE_HOST'', Some (w_ipaddr w)), (''REMOTE_ADDR'', Some (w_ipaddr w)),
        (''PATH_INFO'', w_path w), (''SERVER_PORT'', Some (stritoa (websPort s) 8)),
        (''SERVER_ADDR'', Some (w_ifaddr w)), (''SERVER_SOFTWARE'', Some sw), (''SERVER_PROTOCOL'', w_protoVersion w)]"
  have "list_all (\<lambda>p. str_ok (snd p)) ?vs"
    using ok w sw(2) by (auto simp: server_ok_def request_ok_def webs_strs_def stritoa_cstr)
  then obtain t where t: "set_vars e ?vs s = Inr (s\<lparr>tabs := t\<rparr>)" "server_ok (s\<lparr>tabs := t\<rparr>)"
    "\<forall>k. 0 \<le> k \<and> k \<noteq> w_cgiVars w \<longrightarrow> syms t k = syms (tabs s) k"
    using set_vars_ok [OF ok w] by blast
  obtain t2 where "set_query_vars e (strtok ''&'' (bstrdup (w_query w))) (s\<lparr>tabs := t\<rparr>) = Inr (s\<lparr>tabs := t\<rparr>\<lparr>tabs := t2\<rparr>)"
    "server_ok (s\<lparr>tabs := t\<rparr>\<lparr>tabs := t2\<rparr>)" "\<forall>k. 0 \<le> k \<and> k \<noteq> w_cgiVars w \<longrightarrow> syms t2 k = syms (tabs (s\<lparr>tabs := t\<rparr>)) k"
    using set_query_vars_ok [OF t(2), of w e "strtok ''&'' (bstrdup (w_query w))"] w by auto
  then show ?thesis using t w sw(1) by (intro exI [of _ t2]) (simp add: websSetEnv_def)
qed

end
