(* ===== verification/Default.thy ===== *)
theory Default
  imports Webs_Laws
begin

text \<open>
  \<open>websValidateUrl\<close> of \<open>user/goahead/src_tongyong/default.c\<close>: the local file name of a request, and
  the theorem that it stays below the request's directory.
\<close>

definition kMaxUrlParts :: nat where "kMaxUrlParts = 64"

text \<open>The token loop: the parts kept so far and the sum \<open>len\<close>, which \<open>..\<close> does not reduce.\<close>

fun collect_parts :: "string list \<Rightarrow> nat \<Rightarrow> string list \<Rightarrow> (string list \<times> nat) option" where
  "collect_parts parts len [] = Some (parts, len)"
| "collect_parts parts len (token # toks) =
     (if kMaxUrlParts \<le> length parts then None
      else if token = ''..'' then collect_parts (butlast parts) len toks
      else if token \<noteq> ''.'' then collect_parts (parts @ [token]) (len + length token + 1) toks
      else collect_parts parts len toks)"

definition join_path :: "string \<Rightarrow> string list \<Rightarrow> string" where
  "join_path dir parts = dir @ concat (map (\<lambda>p. CHR ''/'' # p) parts)"

text \<open>\<open>strtok\<close> overwrites delimiters only behind a token, so the tests of \<open>path\<close> after it see \<open>/\<close>
  or the empty string exactly when it was that before.  The copy into \<open>lpath\<close> must fit the
  \<open>gstrlen(dir) + 1 + len + 1\<close> bytes allocated.\<close>

definition websValidateUrl :: "env \<Rightarrow> string \<Rightarrow> server \<Rightarrow> (int \<times> server) res" where
  "websValidateUrl e path s =
     res_bind (cur s) (\<lambda>w.
       (let dir = websGetRequestDir w in
        if dir = [] then Inr (- 1, s)
        else
          (let path = map (\<lambda>c. if c = CHR 0x5C then CHR ''/'' else c) (cdecode path) in
           case collect_parts [] 0 (strtok ''/'' path) of
             None \<Rightarrow> Inr (- 1, s)
           | Some (parts, len) \<Rightarrow>
               if parts \<noteq> [] \<or> path = ''/'' \<or> path = [] then
                 (let lpath = join_path dir parts in
                  if length dir + 1 + len + 1 < length lpath + 1 then Inl OutOfBounds
                  else res_bind (websSetRequestLpath e lpath s) (\<lambda>s. Inr (0, s)))
               else Inr (- 1, s))))"

section \<open>Confinement\<close>

definition plain_part :: "string \<Rightarrow> bool" where
  "plain_part p \<longleftrightarrow> p \<noteq> [] \<and> p \<noteq> ''.'' \<and> p \<noteq> ''..'' \<and> CHR ''/'' \<notin> set p \<and> CHR 0x5C \<notin> set p \<and> NUL \<notin> set p"

lemma join_length: "length (join_path dir parts) = length dir + sum_list (map (\<lambda>p. length p + 1) parts)"
  by (induction parts) (auto simp: join_path_def)

lemma sum_list_butlast: "sum_list (map f (butlast xs)) \<le> (sum_list (map f xs) :: nat)"
  by (induction xs) auto

lemma collect_parts_ok:
  assumes "collect_parts parts len toks = Some (ps, l)"
    and "\<forall>p \<in> set parts. plain_part p" and "\<forall>t \<in> set toks. t = ''.'' \<or> t = ''..'' \<or> plain_part t"
    and "length parts \<le> kMaxUrlParts" and "sum_list (map (\<lambda>p. length p + 1) parts) \<le> len"
  shows "(\<forall>p \<in> set ps. plain_part p) \<and> length ps \<le> kMaxUrlParts \<and> sum_list (map (\<lambda>p. length p + 1) ps) \<le> l"
  using assms
proof (induction parts len toks rule: collect_parts.induct)
  case (2 parts len token toks)
  have n: "\<not> kMaxUrlParts \<le> length parts" using "2.prems"(1) by (auto split: if_splits)
  show ?case
  proof (cases "token = ''..''")
    case True
    have "sum_list (map (\<lambda>p. length p + 1) (butlast parts)) \<le> len"
      using sum_list_butlast [of "\<lambda>p. length p + 1" parts] "2.prems"(5) by linarith
    moreover have "collect_parts (butlast parts) len toks = Some (ps, l)" using "2.prems"(1) n True by simp
    moreover have "\<forall>p \<in> set (butlast parts). plain_part p" using "2.prems"(2) in_set_butlastD by fast
    moreover have "length (butlast parts) \<le> kMaxUrlParts" using n by simp
    ultimately show ?thesis using "2.IH"(1) [OF n True] "2.prems"(3) by simp
  next
    case False
    show ?thesis
    proof (cases "token = ''.''")
      case True
      then show ?thesis using "2.IH"(3) [OF n False] "2.prems" n by simp
    next
      case dot: False
      have "plain_part token" using "2.prems"(3) False dot by simp
      then show ?thesis using "2.IH"(2) [OF n False dot] "2.prems" n False dot by simp
    qed
  qed
qed simp

text \<open>The lexical meaning of a relative path: \<open>.\<close> stays, \<open>..\<close> goes up but not above the start.\<close>

definition walk_up :: "string list \<Rightarrow> string \<Rightarrow> string list" where
  "walk_up parts t = (if t = ''..'' then butlast parts else if t = ''.'' then parts else parts @ [t])"

lemma collect_parts_walk:
  "collect_parts parts len toks = Some (ps, l) \<Longrightarrow> ps = foldl walk_up parts toks"
  by (induction parts len toks rule: collect_parts.induct) (auto simp: walk_up_def split: if_splits)

lemma slash_tokens:
  assumes "t \<in> set (strtok ''/'' (map (\<lambda>c. if c = CHR 0x5C then CHR ''/'' else c) p))" and "is_cstr p"
  shows "t = ''.'' \<or> t = ''..'' \<or> plain_part t"
  using strtok_tokens [OF assms(1)] assms(2) by (auto simp: plain_part_def is_cstr_def split: if_splits)

lemma websSetRequestLpath_ok:
  assumes "server_ok s" and "wp s = Some w" and "is_cstr lpath"
  shows "\<exists>t. websSetRequestLpath e lpath s = Inr (upd (\<lambda>w. w\<lparr>w_lpath := Some lpath\<rparr>) (s\<lparr>tabs := t\<rparr>))
    \<and> server_ok (upd (\<lambda>w. w\<lparr>w_lpath := Some lpath\<rparr>) (s\<lparr>tabs := t\<rparr>))
    \<and> (\<forall>k. 0 \<le> k \<and> k \<noteq> w_cgiVars w \<longrightarrow> syms t k = syms (tabs s) k)"
proof -
  let ?s = "upd (\<lambda>w. w\<lparr>w_lpath := Some lpath\<rparr>) s"
  have "server_ok ?s" using assms(1) by (auto intro: upd_ok simp: webs_strs_def)
  then obtain t where "websSetVar e ''PATH_TRANSLATED'' (Some lpath) ?s = Inr (?s\<lparr>tabs := t\<rparr>)" "server_ok (?s\<lparr>tabs := t\<rparr>)"
    "\<forall>k. 0 \<le> k \<and> k \<noteq> w_cgiVars w \<longrightarrow> syms t k = syms (tabs s) k"
    using websSetVar_ok [of ?s _ "Some lpath" e "''PATH_TRANSLATED''"] assms(2,3) by auto
  moreover have "?s\<lparr>tabs := t\<rparr> = upd (\<lambda>w. w\<lparr>w_lpath := Some lpath\<rparr>) (s\<lparr>tabs := t\<rparr>)" by (simp add: upd_def)
  ultimately show ?thesis using assms(2) by (auto simp: websSetRequestLpath_def)
qed

text \<open>The parts of the local name that a path stands for.\<close>

definition path_parts :: "string \<Rightarrow> string list" where
  "path_parts path = foldl walk_up [] (strtok ''/'' (map (\<lambda>c. if c = CHR 0x5C then CHR ''/'' else c) (cdecode path)))"

definition validated :: "string \<Rightarrow> server \<Rightarrow> value_t symtabs \<Rightarrow> server" where
  "validated lpath s t = upd (\<lambda>w. w\<lparr>w_lpath := Some lpath\<rparr>) (s\<lparr>tabs := t\<rparr>)"

lemma websValidateUrl_cases:
  assumes ok: "server_ok s" and w: "wp s = Some w" and d: "is_cstr (websGetRequestDir w)"
  shows "websValidateUrl e path s = Inr (- 1, s) \<or>
    (\<exists>t. websValidateUrl e path s = Inr (0, validated (join_path (websGetRequestDir w) (path_parts path)) s t)
       \<and> server_ok (validated (join_path (websGetRequestDir w) (path_parts path)) s t)
       \<and> (\<forall>k. 0 \<le> k \<and> k \<noteq> w_cgiVars w \<longrightarrow> syms t k = syms (tabs s) k)
       \<and> websGetRequestDir w \<noteq> [] \<and> length (path_parts path) \<le> 64 \<and> list_all plain_part (path_parts path))"
proof -
  let ?dir = "websGetRequestDir w"
  let ?p = "map (\<lambda>c. if c = CHR 0x5C then CHR ''/'' else c) (cdecode path)"
  show ?thesis
  proof (cases "?dir = [] \<or> collect_parts [] 0 (strtok ''/'' ?p) = None")
    case True
    then show ?thesis using w ok by (auto simp: websValidateUrl_def Let_def)
  next
    case False
    then obtain ps l where c: "collect_parts [] 0 (strtok ''/'' ?p) = Some (ps, l)" by auto
    have "\<forall>t \<in> set (strtok ''/'' ?p). t = ''.'' \<or> t = ''..'' \<or> plain_part t"
      using slash_tokens [of _ "cdecode path"] by simp
    from collect_parts_ok [OF c _ this]
    have ps: "\<forall>p \<in> set ps. plain_part p" "length ps \<le> kMaxUrlParts" "sum_list (map (\<lambda>p. length p + 1) ps) \<le> l"
      by auto
    have fit: "\<not> length ?dir + 1 + l + 1 < length (join_path ?dir ps) + 1" using ps(3) by (simp add: join_length)
    have lp: "is_cstr (join_path ?dir ps)"
      using d ps(1) by (auto simp: join_path_def is_cstr_def plain_part_def)
    show ?thesis
    proof (cases "ps \<noteq> [] \<or> ?p = ''/'' \<or> ?p = []")
      case no: False
      then show ?thesis using w ok c False by (auto simp: websValidateUrl_def Let_def)
    next
      case True
      obtain t where t: "websSetRequestLpath e (join_path ?dir ps) s = Inr (upd (\<lambda>w. w\<lparr>w_lpath := Some (join_path ?dir ps)\<rparr>) (s\<lparr>tabs := t\<rparr>))"
        "server_ok (upd (\<lambda>w. w\<lparr>w_lpath := Some (join_path ?dir ps)\<rparr>) (s\<lparr>tabs := t\<rparr>))"
        "\<forall>k. 0 \<le> k \<and> k \<noteq> w_cgiVars w \<longrightarrow> syms t k = syms (tabs s) k"
        using websSetRequestLpath_ok [OF ok w lp, of e] by blast
      let ?s' = "upd (\<lambda>w. w\<lparr>w_lpath := Some (join_path ?dir ps)\<rparr>) (s\<lparr>tabs := t\<rparr>)"
      have "websValidateUrl e path s = Inr (0, ?s')"
        using w c False True fit t(1) by (simp add: websValidateUrl_def Let_def)
      moreover have "ps = path_parts path" using collect_parts_walk [OF c] by (simp add: path_parts_def)
      ultimately show ?thesis using t(2,3) ps False
        by (auto simp: list_all_iff kMaxUrlParts_def validated_def)
    qed
  qed
qed

text \<open>C11. \<open>websValidateUrl\<close> confines every request to its directory: for any path a client sends it
  returns \<open>-1\<close> and changes nothing, or 0 with the local path \<open>dir/p1/.../pn\<close> where the \<open>pi\<close> are what
  \<open>.\<close> and \<open>..\<close> leave of the decoded path (\<open>..\<close> never goes above the directory), at most 64, none of
  them empty, \<open>.\<close> or \<open>..\<close>, none containing a slash, a backslash or a NUL; the copy fits its buffer.\<close>

theorem websValidateUrl_confined:
  assumes ok: "server_ok s" and w: "wp s = Some w" and d: "is_cstr (websGetRequestDir w)"
  shows "\<exists>r s'. websValidateUrl e path s = Inr (r, s') \<and> server_ok s' \<and>
    (r = - 1 \<and> s' = s \<or>
     r = 0 \<and> (\<exists>w' parts. wp s' = Some w' \<and> w_lpath w' = Some (join_path (websGetRequestDir w) parts)
       \<and> parts = foldl walk_up [] (strtok ''/'' (map (\<lambda>c. if c = CHR 0x5C then CHR ''/'' else c) (cdecode path)))
       \<and> length parts \<le> 64 \<and> list_all plain_part parts))"
proof -
  from websValidateUrl_cases [OF assms, of e path] show ?thesis
  proof
    assume "websValidateUrl e path s = Inr (- 1, s)"
    then show ?thesis using ok by blast
  next
    assume "\<exists>t. websValidateUrl e path s = Inr (0, validated (join_path (websGetRequestDir w) (path_parts path)) s t)
       \<and> server_ok (validated (join_path (websGetRequestDir w) (path_parts path)) s t)
       \<and> (\<forall>k. 0 \<le> k \<and> k \<noteq> w_cgiVars w \<longrightarrow> syms t k = syms (tabs s) k)
       \<and> websGetRequestDir w \<noteq> [] \<and> length (path_parts path) \<le> 64 \<and> list_all plain_part (path_parts path)"
    then show ?thesis using w by (auto simp: validated_def path_parts_def)
  qed
qed

theorem websValidateUrl_confined_witness:
  "\<exists>r s' parts. websValidateUrl demo_env ''/a/%2e%2e/..%5cb.asp'' demo_server = Inr (r, s')
     \<and> parts = foldl walk_up [] (strtok ''/'' (map (\<lambda>c. if c = CHR 0x5C then CHR ''/'' else c) (cdecode ''/a/%2e%2e/..%5cb.asp'')))
     \<and> join_path (websGetRequestDir demo_webs) parts = ''/etc_ro/web/b.asp''"
proof -
  have "foldl walk_up [] (strtok ''/'' (map (\<lambda>c. if c = CHR 0x5C then CHR ''/'' else c) (cdecode ''/a/%2e%2e/..%5cb.asp''))) = [''b.asp'']"
    "join_path (websGetRequestDir demo_webs) [''b.asp''] = ''/etc_ro/web/b.asp''" "is_cstr (websGetRequestDir demo_webs)"
    by code_simp+
  then show ?thesis
    using websValidateUrl_confined [OF demo_server_ok(1), of demo_webs demo_env "''/a/%2e%2e/..%5cb.asp''"]
    by (auto simp: demo_server_def)
qed

end
