(* ===== verification/Security.thy ===== *)
theory Security
  imports Webs_Laws
begin

unbundle bit_operations_syntax

text \<open>
  \<open>user/goahead/src_tongyong/security.c\<close>: \<open>websSecurityHandler\<close> decides whether a request is
  honoured, from the access limits and accounts of the user management.  The build has no SSL and no
  digest authentication, and \<open>debugSecurity\<close> is 0.  The handler answers 0 to let the other handlers
  run and 1 after it has sent an error page.  The lines it traces after two of the error pages read
  strings the error page has released; they are not part of the model.
\<close>

text \<open>The paths the vendor lets through without a check: any path that contains one of these.\<close>

definition open_paths :: "string list" where
  "open_paths = [''/goform/App'', ''/goform/setAccess'', ''/cgi-bin/Ass1auto.cgi'', ''/about.html'', ''/print.asp'',
     ''/cgi-bin/getvcode.cgi'', ''/images/'']"

definition deny :: "env \<Rightarrow> int \<Rightarrow> string \<Rightarrow> server \<Rightarrow> (int \<times> server) res" where
  "deny e code msg s = res_bind (websError e code msg [] s) (\<lambda>s. Inr (1, s))"

abbreviation NL :: string where "NL \<equiv> [CHR 0x0A]"

definition websSecurityHandler :: "env \<Rightarrow> string \<Rightarrow> server \<Rightarrow> (int \<times> server) res" where
  "websSecurityHandler e path s =
     res_bind (cur s) (\<lambda>w.
     res_bind (umGetAccessLimit path (umdb s)) (\<lambda>al.
     case al of
       None \<Rightarrow> Inr (0, s)
     | Some accessLimit \<Rightarrow>
       if (case w_path w of None \<Rightarrow> False | Some p \<Rightarrow> list_ex (\<lambda>b. has_sub b p) open_paths) then Inr (0, s)
       else
         res_bind (umGetAccessMethodForURL accessLimit (umdb s)) (\<lambda>am.
         if w_flags w AND WEBS_LOCAL_REQUEST \<noteq> 0 then Inr (0, s)
         else if am = AM_NONE then deny e 404 ''Page Not Found'' (s\<lparr>st_access := st_access s + 1\<rparr>)
         else if w_userName w \<noteq> None \<and> w_userName w \<noteq> Some [] then
           (let userid = the (w_userName w) in
            res_bind (umUserExists userid (umdb s)) (\<lambda>ex.
            if \<not> ex then deny e 401 (''Access Denied'' @ NL @ ''Unknown User'') (s\<lparr>st_access := st_access s + 1\<rparr>)
            else res_bind (umUserCanAccessURL userid accessLimit (umdb s)) (\<lambda>can.
            if \<not> can then deny e 403 (''Access Denied'' @ NL @ ''Prohibited User'') (s\<lparr>st_access := st_access s + 1\<rparr>)
            else if w_password w \<noteq> None \<and> w_password w \<noteq> Some [] then
              res_bind (umGetUserPassword userid (umdb s)) (\<lambda>userpass.
              case userpass of
                None \<Rightarrow> Inr (0, s)
              | Some p \<Rightarrow>
                  if the (w_password w) \<noteq> p
                  then deny e 401 (''Access Denied'' @ NL @ ''Wrong Password'') (s\<lparr>st_access := st_access s + 1\<rparr>)
                  else Inr (0, s))
            else deny e 401 ''Access to this document requires a password'' (s\<lparr>st_errors := st_errors s + 1\<rparr>))))
         else if am \<noteq> AM_FULL then
           deny e 401 ''Access to this document requires a User ID'' (s\<lparr>st_errors := st_errors s + 1\<rparr>)
         else Inr (0, s))))"

section \<open>The server password\<close>

text \<open>\<open>websPassword[WEBS_MAX_PASS]\<close>: a copy by \<open>strncpy\<close>, read back as a C string.\<close>

definition WEBS_MAX_PASS :: nat where "WEBS_MAX_PASS = 32"

definition websSetPassword :: "string \<Rightarrow> byte list" where
  "websSetPassword password = strncpy_img password WEBS_MAX_PASS"

definition websGetPassword :: "byte list \<Rightarrow> string res" where
  "websGetPassword buf = (case strchr buf NUL of Found k \<Rightarrow> Inr (take k buf) | _ \<Rightarrow> Inl OutOfBounds)"

lemma password_buffer:
  assumes "is_cstr p"
  shows "websGetPassword (websSetPassword p) = (if length p < 32 then Inr p else Inl OutOfBounds)"
proof (cases "length p < 32")
  case True
  then obtain k where "32 - length p = Suc k" by (cases "32 - length p") auto
  then have "websSetPassword p = p @ NUL # replicate k NUL"
    by (simp add: websSetPassword_def WEBS_MAX_PASS_def strncpy_img_def)
  moreover have "strchr (p @ NUL # replicate k NUL) NUL = Found (length p)"
    using assms by (intro strchr_append) (simp_all add: is_cstr_def)
  ultimately show ?thesis using True by (simp add: websGetPassword_def)
next
  case False
  then have "websSetPassword p = take 32 p" by (simp add: websSetPassword_def WEBS_MAX_PASS_def strncpy_img_def)
  moreover have "strchr (take 32 p) NUL = Overrun"
    using assms by (intro strchr_overrun) (auto simp: is_cstr_def dest: in_set_takeD)
  ultimately show ?thesis using False by (simp add: websGetPassword_def)
qed

section \<open>The decision\<close>

text \<open>When the handler lets a request through, in terms of limits and accounts.\<close>

definition bypassed :: "webs \<Rightarrow> bool" where
  "bypassed w \<longleftrightarrow> (\<exists>p b. w_path w = Some p \<and> b \<in> set open_paths \<and> has_sub b p)"

lemma bypassed_iff:
  "(case w_path w of None \<Rightarrow> False | Some p \<Rightarrow> list_ex (\<lambda>b. has_sub b p) open_paths) \<longleftrightarrow> bypassed w"
  by (auto simp: bypassed_def list_ex_iff split: option.split)

lemma deny_ok:
  assumes ok: "server_ok s" and w: "wp s = Some w" and e: "env_ok e" and c: "0 \<le> code" "code < 1000"
    and m: "is_cstr msg" "CHR ''%'' \<notin> set msg"
  shows "\<exists>s' ls. deny e code msg s = Inr (1, s') \<and> ended s s'
    \<and> out s' = out s @ (if w_flags w AND WEBS_HEADER_DONE = 0 then [take 959 (status_line None code)] else []) @ ls"
proof -
  have r: "render msg [] = Some msg" using m(2) by (induction msg) auto
  obtain s' ls where "websError e code msg [] s = Inr s'" "ended s s'"
    "out s' = out s @ (if w_flags w AND WEBS_HEADER_DONE = 0 then [take 959 (status_line None code)] else []) @ ls"
    using websError_ok [OF ok w e c r _ m(1)] by (auto simp: args_ok_def)
  then show ?thesis by (auto simp: deny_def)
qed

text \<open>The limit that governs a path, its access method, and a user with the right password.\<close>

definition governing :: "db \<Rightarrow> string \<Rightarrow> string option" where
  "governing d path = List.find (\<lambda>u. limits d u \<noteq> None) (url_chain path)"

definition access_method :: "db \<Rightarrow> string \<Rightarrow> int" where
  "access_method d l =
     (case str_of 3 (limits d l) of
        None \<Rightarrow> int_of 1 AM_INVALID (limits d l)
      | Some g \<Rightarrow> if g = [] then int_of 1 AM_INVALID (limits d l) else int_of 2 AM_INVALID (groups d g))"

definition user_admitted :: "db \<Rightarrow> string \<Rightarrow> string \<Rightarrow> string \<Rightarrow> bool" where
  "user_admitted d l u p \<longleftrightarrow> (\<exists>x g y. users d u = Some x \<and> x ! 2 = CStr g \<and> num (x ! 4) = 0 \<and> group_grants d g
     \<and> limits d l = Some y \<and> limit_admits y g \<and> p \<noteq> [] \<and> p = umEncryptString (bstrdup (txt_of (x ! 1))))"

definition admitted :: "db \<Rightarrow> webs \<Rightarrow> string \<Rightarrow> bool" where
  "admitted d w path \<longleftrightarrow> bypassed w \<or> w_flags w AND WEBS_LOCAL_REQUEST \<noteq> 0 \<or>
     (case governing d path of
        None \<Rightarrow> True
      | Some l \<Rightarrow> access_method d l \<noteq> AM_NONE \<and>
          (if w_userName w \<in> {None, Some []} then access_method d l = AM_FULL
           else \<exists>u p. w_userName w = Some u \<and> w_password w = Some p \<and> user_admitted d l u p))"

lemma governing_limit:
  assumes "governing d path = Some l"
  shows "\<exists>y. limits d l = Some y" and "l \<noteq> []"
proof -
  have l: "limits d l \<noteq> None" "l \<in> set (url_chain path)"
    using assms unfolding governing_def by (auto simp: find_Some_iff)
  then show "\<exists>y. limits d l = Some y" by blast
  have "[] \<notin> set (url_chain p)" for p
    by (induction p rule: url_chain.induct) (subst url_chain.simps, auto)
  then show "l \<noteq> []" using l(2) by metis
qed

lemma governing_self: "limits d l \<noteq> None \<Longrightarrow> l \<noteq> [] \<Longrightarrow> List.find (\<lambda>u. limits d u \<noteq> None) (url_chain l) = Some l"
  by (simp add: url_chain.simps)

lemma method_eq:
  assumes "um_wf d" and "limits d l \<noteq> None" and "l \<noteq> []"
  shows "umGetAccessMethodForURL l d = Inr (access_method d l)"
proof -
  have "umGetAccessLimit l d = Inr (Some l)"
    unfolding umGetAccessLimit_chain [OF assms(1)] governing_self [OF assms(2,3)] ..
  then show ?thesis
    by (simp add: umGetAccessMethodForURL_def um_readers [OF assms(1)] access_method_def split: option.split)
qed

lemma can_access_eq:
  assumes "um_wf d" and "members_ok d" and "limits d l = Some y" and "l \<noteq> []" and "users d u = Some x"
  shows "\<exists>g. x ! 2 = CStr g \<and> umUserCanAccessURL u l d = Inr (num (x ! 4) = 0 \<and> group_grants d g \<and> limit_admits y g)"
proof -
  obtain g where g: "x ! 2 = CStr g" using assms(2,5) by (auto simp: members_ok_def)
  have "limits d l \<noteq> None" using assms(3) by simp
  from umUserCanAccessURL_eq [OF assms(1,5) g, of l] governing_self [OF this assms(4)] show ?thesis
    using g assms(3) by simp
qed

text \<open>The error code of a refused request.\<close>

definition refusal :: "db \<Rightarrow> webs \<Rightarrow> string \<Rightarrow> int" where
  "refusal d w l =
     (if access_method d l = AM_NONE then 404
      else if w_userName w \<in> {None, Some []} then 401
      else case users d (the (w_userName w)) of
        None \<Rightarrow> 401
      | Some x \<Rightarrow>
          (if \<exists>g y. x ! 2 = CStr g \<and> num (x ! 4) = 0 \<and> group_grants d g \<and> limits d l = Some y \<and> limit_admits y g
           then 401 else 403))"

text \<open>The answer to a refused request: its status line, when no header was sent before.\<close>

definition refused :: "server \<Rightarrow> webs \<Rightarrow> int \<Rightarrow> server \<Rightarrow> bool" where
  "refused s w code s' \<longleftrightarrow> wp s' = None \<and> server_ok s' \<and> umdb s' = umdb s \<and> formSymtab s' = formSymtab s
     \<and> syms (tabs s') (formSymtab s) = syms (tabs s) (formSymtab s) \<and> st_formHits s' = st_formHits s
     \<and> (w_flags w AND WEBS_HEADER_DONE = 0 \<longrightarrow> (\<exists>ls. out s' = out s @ take 959 (status_line None code) # ls))"

lemma deny_refused:
  assumes "server_ok s" and "wp s = Some w" and "env_ok e" and "0 \<le> code" "code < 1000" and "is_cstr msg" "CHR ''%'' \<notin> set msg"
  shows "\<exists>s'. deny e code msg (s\<lparr>st_access := n\<rparr>) = Inr (1, s') \<and> refused s w code s'"
    and "\<exists>s'. deny e code msg (s\<lparr>st_errors := n\<rparr>) = Inr (1, s') \<and> refused s w code s'"
proof -
  have ok: "server_ok (s\<lparr>st_access := n\<rparr>)" "server_ok (s\<lparr>st_errors := n\<rparr>)"
    using assms(1) by (simp_all add: server_ok_def request_ok_def)
  have w: "wp (s\<lparr>st_access := n\<rparr>) = Some w" "wp (s\<lparr>st_errors := n\<rparr>) = Some w" using assms(2) by simp_all
  show "\<exists>s'. deny e code msg (s\<lparr>st_access := n\<rparr>) = Inr (1, s') \<and> refused s w code s'"
    using deny_ok [OF ok(1) w(1) assms(3-7)] by (auto simp: refused_def ended_def)
  show "\<exists>s'. deny e code msg (s\<lparr>st_errors := n\<rparr>) = Inr (1, s') \<and> refused s w code s'"
    using deny_ok [OF ok(2) w(2) assms(3-7)] by (auto simp: refused_def ended_def)
qed

text \<open>The part of the handler behind the limit, the open paths and local requests.\<close>

lemma guarded_request:
  assumes ok: "server_ok s" and w: "wp s = Some w" and e: "env_ok e" and d: "um_wf (umdb s)" "members_ok (umdb s)"
    and l: "governing (umdb s) path = Some l" and nb: "\<not> bypassed w" and nl: "w_flags w AND WEBS_LOCAL_REQUEST = 0"
  shows "\<exists>r s'. websSecurityHandler e path s = Inr (r, s') \<and>
    (r = 0 \<and> s' = s \<and> admitted (umdb s) w path \<or> r = 1 \<and> \<not> admitted (umdb s) w path \<and> refused s w (refusal (umdb s) w l) s')"
proof -
  let ?d = "umdb s" and ?am = "access_method (umdb s) l"
  obtain y where y: "limits ?d l = Some y" "l \<noteq> []" using governing_limit [OF l] by blast
  note no = deny_refused [OF ok w e]
  have al: "umGetAccessLimit path ?d = Inr (Some l)" using l unfolding governing_def umGetAccessLimit_chain [OF d(1)] by simp
  have am: "umGetAccessMethodForURL l ?d = Inr ?am" using y method_eq [OF d(1)] by simp
  note run = websSecurityHandler_def cur_Some [OF w] res_bind.simps al option.case bypassed_iff am
  have adm: "admitted ?d w path \<longleftrightarrow> ?am \<noteq> AM_NONE \<and>
      (if w_userName w \<in> {None, Some []} then ?am = AM_FULL
       else \<exists>u p. w_userName w = Some u \<and> w_password w = Some p \<and> user_admitted ?d l u p)"
    using nb nl l by (simp add: admitted_def)
  consider "?am = AM_NONE" | "?am \<noteq> AM_NONE" "w_userName w \<in> {None, Some []}"
    | u where "?am \<noteq> AM_NONE" "w_userName w = Some u" "u \<noteq> []" by (cases "w_userName w") auto
  then show ?thesis
  proof cases
    case 1
    then show ?thesis using nb nl adm no(1) [of 404 "''Page Not Found''" "st_access s + 1"]
      by (auto simp: run refusal_def)
  next
    case 2
    then show ?thesis using nb nl adm no(2) [of 401 "''Access to this document requires a User ID''" "st_errors s + 1"]
      by (auto simp: run refusal_def)
  next
    case (3 u)
    show ?thesis
    proof (cases "users ?d u")
      case None
      then show ?thesis using 3 nb nl adm no(1) [of 401 "''Access Denied'' @ NL @ ''Unknown User''" "st_access s + 1"]
        by (auto simp: run refusal_def umUserExists_eq [OF d(1)] user_admitted_def)
    next
      case (Some x)
      obtain g where g: "x ! 2 = CStr g" "umUserCanAccessURL u l ?d = Inr (num (x ! 4) = 0 \<and> group_grants ?d g \<and> limit_admits y g)"
        using can_access_eq [OF d y Some] by blast
      let ?can = "num (x ! 4) = 0 \<and> group_grants ?d g \<and> limit_admits y g"
      have rf: "refusal ?d w l = (if ?can then 401 else 403)" using 3 Some g(1) y(1) by (simp add: refusal_def)
      have pw: "umGetUserPassword u ?d = Inr (Some (umEncryptString (bstrdup (txt_of (x ! 1)))))"
        using Some by (simp add: umGetUserPassword_eq [OF d(1)])
      have ua: "user_admitted ?d l u p \<longleftrightarrow> ?can \<and> p \<noteq> [] \<and> p = umEncryptString (bstrdup (txt_of (x ! 1)))" for p
        using Some g(1) y(1) by (auto simp: user_admitted_def)
      have ex: "umUserExists u ?d = Inr True" using Some by (simp add: umUserExists_eq [OF d(1)])
      show ?thesis
        using 3 nb nl adm no(1) [of 403 "''Access Denied'' @ NL @ ''Prohibited User''" "st_access s + 1"]
          no(1) [of 401 "''Access Denied'' @ NL @ ''Wrong Password''" "st_access s + 1"]
          no(2) [of 401 "''Access to this document requires a password''" "st_errors s + 1"]
        by (cases ?can; cases "w_password w") (auto simp: run rf ex g(2) pw ua Let_def)
    qed
  qed
qed

lemma security_answers:
  assumes ok: "server_ok s" and w: "wp s = Some w" and e: "env_ok e" and d: "um_wf (umdb s)" "members_ok (umdb s)"
  shows "\<exists>r s'. websSecurityHandler e path s = Inr (r, s') \<and>
    (r = 0 \<and> s' = s \<and> admitted (umdb s) w path \<or>
     r = 1 \<and> \<not> admitted (umdb s) w path \<and> (\<exists>l. governing (umdb s) path = Some l \<and> refused s w (refusal (umdb s) w l) s'))"
proof (cases "governing (umdb s) path")
  case None
  then have "umGetAccessLimit path (umdb s) = Inr None"
    unfolding governing_def umGetAccessLimit_chain [OF d(1)] by simp
  then show ?thesis using w None by (simp add: websSecurityHandler_def admitted_def)
next
  case (Some l)
  obtain y where y: "limits (umdb s) l = Some y" "l \<noteq> []" using governing_limit [OF Some] by blast
  have al: "umGetAccessLimit path (umdb s) = Inr (Some l)"
    using Some unfolding governing_def umGetAccessLimit_chain [OF d(1)] by simp
  have am: "umGetAccessMethodForURL l (umdb s) = Inr (access_method (umdb s) l)" using y method_eq [OF d(1)] by simp
  show ?thesis
  proof (cases "bypassed w \<or> w_flags w AND WEBS_LOCAL_REQUEST \<noteq> 0")
    case True
    then have "admitted (umdb s) w path" by (auto simp: admitted_def)
    then show ?thesis using True w al am by (auto simp: websSecurityHandler_def bypassed_iff)
  next
    case False
    then show ?thesis using guarded_request [OF ok w e d Some] Some by auto
  qed
qed

text \<open>C8. The access decision in full.  On every reachable user database \<open>websSecurityHandler\<close> returns 0
  and touches nothing exactly for an admitted request: a path with an open substring, a local
  request, a path no limit governs, or one whose limit has an access method and is either open to
  everybody (\<open>AM_FULL\<close>, no user named) or asked for by an existing, enabled user of an enabled group
  the limit accepts, with the password of the account.  Every other request is refused: it is
  answered with the status 401, 403 or 404 that \<open>refusal\<close> says, its record is released, and no
  account, form or table changes.\<close>

theorem websSecurityHandler_decides:
  assumes "server_ok s" and "wp s = Some w" and "env_ok e" and "um_reach (umdb s)"
  shows "\<exists>r s'. websSecurityHandler e path s = Inr (r, s') \<and>
    (r = 0 \<and> s' = s \<and> admitted (umdb s) w path \<or>
     r = 1 \<and> \<not> admitted (umdb s) w path \<and> (\<exists>l. governing (umdb s) path = Some l \<and> refused s w (refusal (umdb s) w l) s'))"
  using security_answers [OF assms(1-3)] um_reach_keeps [OF assms(4)] by blast

lemma demo_governing:
  assumes "limits d = [''/adm/'' \<mapsto> limit_row ''/adm/'' 2 0 ''adm'']"
  shows "governing d ''/adm/x.asp'' = Some ''/adm/''"
proof -
  have "url_chain ''/adm/x.asp'' = [''/adm/x.asp'', ''/adm/'', ''/'']" by code_simp
  then show ?thesis by (simp add: governing_def assms)
qed

lemma demo_server_db: "server_ok (demo_server\<lparr>umdb := d\<rparr>)" "wp (demo_server\<lparr>umdb := d\<rparr>) = Some demo_webs"
  using demo_server_ok(1) by (simp_all add: server_ok_def request_ok_def demo_server_def)

theorem websSecurityHandler_decides_witness:
  "\<exists>d s'. websSecurityHandler demo_env ''/adm/x.asp'' (demo_server\<lparr>umdb := d\<rparr>) = Inr (1, s')
     \<and> refused (demo_server\<lparr>umdb := d\<rparr>) demo_webs 401 s' \<and> limits d = [''/adm/'' \<mapsto> limit_row ''/adm/'' 2 0 ''adm'']"
proof -
  obtain d where d: "um_reach d" "groups d = [''adm'' \<mapsto> group_row ''adm'' 4 2 0 0]"
    "limits d = [''/adm/'' \<mapsto> limit_row ''/adm/'' 2 0 ''adm'']" using demo_reach by blast
  have g: "governing d ''/adm/x.asp'' = Some ''/adm/''" by (rule demo_governing [OF d(3)])
  have am: "access_method d ''/adm/'' = 2"
    by (simp add: access_method_def d(2,3) str_of_def int_of_def limit_row_def group_row_def numeral_eq_Suc)
  have "\<not> bypassed demo_webs" by (auto simp: bypassed_def demo_webs_def open_paths_def)
  then have "\<not> admitted d demo_webs ''/adm/x.asp''"
    by (simp add: admitted_def g am um_codes demo_webs_def)
  moreover have "refusal d demo_webs ''/adm/'' = 401" by (simp add: refusal_def am um_codes demo_webs_def)
  ultimately show ?thesis
    using websSecurityHandler_decides [OF demo_server_db demo_server_ok(2), of d "''/adm/x.asp''"] d g by auto
qed

end
