(* ===== verification/Form.thy ===== *)
theory Form
  imports Webs_Laws
begin

text \<open>
  \<open>user/goahead/src_tongyong/form.c\<close>: the table of C form functions and the handler for \<open>/goform\<close>.
  A form function is the integer stored in the table; \<open>forms\<close> says what calling it with the form
  name and the query does.  \<open>formBuf\<close> is kept as its 254 bytes.
\<close>

definition WEBS_SYM_INIT :: nat where "WEBS_SYM_INIT = 64"

definition websFormOpen :: "halloc \<Rightarrow> bool \<Rightarrow> server \<Rightarrow> server res" where
  "websFormOpen a tbl_ok s =
     res_bind (symOpen a tbl_ok WEBS_SYM_INIT (tabs s)) (\<lambda>(sd, t). Inr (s\<lparr>formSymtab := sd, tabs := t\<rparr>))"

definition websFormClose :: "server \<Rightarrow> server res" where
  "websFormClose s =
     (if formSymtab s \<noteq> - 1
      then res_bind (symClose (formSymtab s) (tabs s)) (\<lambda>t. Inr (s\<lparr>tabs := t, formSymtab := - 1\<rparr>))
      else Inr s)"

definition websFormDefine :: "env \<Rightarrow> string \<Rightarrow> int \<Rightarrow> server \<Rightarrow> (int \<times> server) res" where
  "websFormDefine e name fn s =
     (if fn = 0 then Inr (- 1, s)
      else res_bind (symEnter (e_alloc e) (formSymtab s) name (VInteger fn) 0 (tabs s)) (\<lambda>(sp, t). Inr (0, s\<lparr>tabs := t\<rparr>)))"

text \<open>The form name in \<open>formBuf\<close>: \<open>None\<close> when there is no second slash.\<close>

definition form_name :: "string \<Rightarrow> string option res" where
  "form_name path =
     (let formBuf = strncpy_img path FNAMESIZE in
      case strchr (drop 1 formBuf) (CHR ''/'') of
        Overrun \<Rightarrow> Inl OutOfBounds
      | NotFound \<Rightarrow> Inr None
      | Found k \<Rightarrow>
          (let formName = drop (k + 2) formBuf in
           case strchr formName (CHR ''/'') of
             Found j \<Rightarrow> Inr (Some (take j formName))
           | Overrun \<Rightarrow> Inl OutOfBounds
           | NotFound \<Rightarrow>
               (case strchr formName NUL of Found j \<Rightarrow> Inr (Some (take j formName)) | _ \<Rightarrow> Inl OutOfBounds)))"

fun value_integer :: "value_t \<Rightarrow> int res" where
  "value_integer (VInteger n) = Inr n"
| "value_integer VNull = Inr 0"
| "value_integer (VString s) = Inl OutOfBounds"

type_synonym form_fn = "int \<Rightarrow> string \<Rightarrow> string \<Rightarrow> server \<Rightarrow> server res"

definition websFormHandler :: "env \<Rightarrow> form_fn \<Rightarrow> string \<Rightarrow> string \<Rightarrow> server \<Rightarrow> (int \<times> server) res" where
  "websFormHandler e forms path query s =
     (let s = s\<lparr>st_formHits := st_formHits s + 1\<rparr> in
      res_bind (form_name path) (\<lambda>name.
      case name of
        None \<Rightarrow> res_bind (websError e 200 ''Missing form name'' [] s) (\<lambda>s. Inr (1, s))
      | Some formName \<Rightarrow>
          res_bind (symLookup (formSymtab s) (Some formName) (tabs s)) (\<lambda>sp.
          case sp of
            None \<Rightarrow> res_bind (websError e 200 ''Form %s is not defined'' [FStr (Some formName)] s) (\<lambda>s. Inr (1, s))
          | Some p \<Rightarrow>
              res_bind (value_integer (s_content p)) (\<lambda>fn.
                if fn \<noteq> 0 then res_bind (forms fn formName query s) (\<lambda>s. Inr (1, s)) else Inr (1, s)))))"

section \<open>Form names\<close>

lemma strchr_hit: "is_cstr a \<Longrightarrow> c \<notin> set a \<Longrightarrow> strchr (a @ c # b) c = Found (length a)"
  by (rule strchr_append)

lemma strncpy_split: "length s < n \<Longrightarrow> \<exists>k. strncpy_img s n = s @ NUL # replicate k NUL"
proof -
  assume "length s < n"
  then obtain k where "n - length s = Suc k" by (cases "n - length s") auto
  then have "strncpy_img s n = s @ NUL # replicate k NUL" by (simp add: strncpy_img_def)
  then show ?thesis by blast
qed

text \<open>A path \<open>/prefix/name\<close> that fits the buffer, with or without more after the name.\<close>

lemma form_name_eq:
  assumes "length (CHR ''/'' # pre @ CHR ''/'' # name @ rest) < FNAMESIZE"
    and "is_cstr pre" "CHR ''/'' \<notin> set pre" "is_cstr name" "CHR ''/'' \<notin> set name" "is_cstr rest"
    and "rest = [] \<or> (\<exists>r. rest = CHR ''/'' # r)"
  shows "form_name (CHR ''/'' # pre @ CHR ''/'' # name @ rest) = Inr (Some name)"
proof -
  let ?path = "CHR ''/'' # pre @ CHR ''/'' # name @ rest"
  obtain k where k: "strncpy_img ?path FNAMESIZE = ?path @ NUL # replicate k NUL" using strncpy_split [OF assms(1)] by blast
  let ?tail = "name @ rest @ NUL # replicate k NUL"
  have first: "strchr (drop 1 (strncpy_img ?path FNAMESIZE)) (CHR ''/'') = Found (length pre)"
    unfolding k using strchr_hit [OF assms(2,3), of ?tail] by simp
  have d: "drop (length pre + 2) (strncpy_img ?path FNAMESIZE) = ?tail" unfolding k by simp
  show ?thesis
  proof (cases rest)
    case Nil
    have "strchr ?tail (CHR ''/'') = NotFound" using strchr_terminated [OF assms(4,5), of "replicate k NUL"] Nil by simp
    moreover have "strchr ?tail NUL = Found (length name)"
      using strchr_hit [of name NUL] assms(4) Nil by (simp add: is_cstr_def)
    ultimately show ?thesis unfolding form_name_def Let_def first scan.case d by simp
  next
    case (Cons c r)
    then have "rest = CHR ''/'' # r" using assms(7) by auto
    then have "strchr ?tail (CHR ''/'') = Found (length name)"
      using strchr_hit [OF assms(4,5), of "r @ NUL # replicate k NUL"] by simp
    then show ?thesis unfolding form_name_def Let_def first scan.case d by simp
  qed
qed

text \<open>A form name that runs to the end of the buffer leaves it unterminated.\<close>

lemma form_name_overrun:
  assumes "FNAMESIZE \<le> length pre + length name + 2" and "length pre + 2 \<le> FNAMESIZE"
    and "is_cstr pre" "CHR ''/'' \<notin> set pre" "is_cstr name" "CHR ''/'' \<notin> set name"
  shows "form_name (CHR ''/'' # pre @ CHR ''/'' # name) = Inl OutOfBounds"
proof -
  let ?path = "CHR ''/'' # pre @ CHR ''/'' # name" and ?nm = "take (FNAMESIZE - length pre - 2) name"
  have n: "FNAMESIZE = Suc (length pre + Suc (FNAMESIZE - length pre - 2))" using assms(2) by simp
  have "take FNAMESIZE ?path = CHR ''/'' # pre @ CHR ''/'' # ?nm" by (subst n) simp
  moreover have "FNAMESIZE - length ?path = 0" using assms(1) by simp
  ultimately have t: "strncpy_img ?path FNAMESIZE = CHR ''/'' # pre @ CHR ''/'' # ?nm" by (simp only: strncpy_img_def) simp
  have "strchr (drop 1 (strncpy_img ?path FNAMESIZE)) (CHR ''/'') = Found (length pre)"
    unfolding t using strchr_hit [OF assms(3,4)] by simp
  moreover have "strchr ?nm (CHR ''/'') = Overrun"
    using assms(5,6) by (intro strchr_overrun) (auto dest: in_set_takeD)
  ultimately show ?thesis by (simp add: form_name_def Let_def t)
qed

end
