(* ===== verification/Handler.thy ===== *)
theory Handler
  imports Default Security Form "HOL-Library.Multiset"
begin

unbundle bit_operations_syntax

text \<open>
  \<open>user/goahead/src_tongyong/handler.c\<close>: the list of URL handlers and the loop that offers a request
  to them, with the handlers \<open>initWebs\<close> of \<open>goahead.c\<close> installs.  \<open>qsort\<close> of the C library is a
  parameter with its documented contract \<open>qsort_ok\<close>.  A handler is a name of the type \<open>hid\<close>;
  \<open>webs_call\<close> maps the names to the handlers, the CGI and the file handler being parameters.
\<close>

section \<open>The list\<close>

datatype hid = SecurityHandler | FormHandler | CgiHandler | DefaultHandler | HomePageHandler | PublishHandler

record handler_entry =
  hd_handler :: "hid option"
  hd_webDir :: string
  hd_urlPrefix :: string
  hd_len :: nat
  hd_arg :: int
  hd_flags :: u32

record htab =
  websUrlHandler :: "handler_entry list option"
  websUrlHandlerMax :: nat
  urlHandlerOpenCount :: int

definition WEBS_HANDLER_FIRST :: u32 where "WEBS_HANDLER_FIRST = 0x1"
definition WEBS_HANDLER_LAST :: u32 where "WEBS_HANDLER_LAST = 0x2"

definition websUrlHandlerOpen :: "htab \<Rightarrow> htab" where
  "websUrlHandlerOpen h =
     (let h = h\<lparr>urlHandlerOpenCount := urlHandlerOpenCount h + 1\<rparr> in
      if urlHandlerOpenCount h = 1 then h\<lparr>websUrlHandler := None, websUrlHandlerMax := 0\<rparr> else h)"

text \<open>Closing frees the list but keeps the pointer; only the count is reset.\<close>

definition websUrlHandlerClose :: "htab \<Rightarrow> htab" where
  "websUrlHandlerClose h =
     (let h = h\<lparr>urlHandlerOpenCount := urlHandlerOpenCount h - 1\<rparr> in
      if urlHandlerOpenCount h \<le> 0 then h\<lparr>websUrlHandlerMax := 0\<rparr> else h)"

fun gstrcmp :: "string \<Rightarrow> string \<Rightarrow> int" where
  "gstrcmp [] [] = 0"
| "gstrcmp [] (b # bs) = - 1"
| "gstrcmp (a # as) [] = 1"
| "gstrcmp (a # as) (b # bs) =
     (if a = b then gstrcmp as bs else if uchar a < uchar b then - 1 else 1)"

definition websUrlHandlerSort :: "handler_entry \<Rightarrow> handler_entry \<Rightarrow> int" where
  "websUrlHandlerSort s1 s2 =
     (if hd_flags s1 AND WEBS_HANDLER_FIRST \<noteq> 0 \<or> hd_flags s2 AND WEBS_HANDLER_LAST \<noteq> 0 then - 1
      else if hd_flags s2 AND WEBS_HANDLER_FIRST \<noteq> 0 \<or> hd_flags s1 AND WEBS_HANDLER_LAST \<noteq> 0 then 1
      else let rc = gstrcmp (hd_urlPrefix s1) (hd_urlPrefix s2) in
        if rc = 0 \<and> hd_len s1 < hd_len s2 then 1
        else if rc = 0 \<and> hd_len s2 < hd_len s1 then - 1
        else - rc)"

type_synonym qsort = "(handler_entry \<Rightarrow> handler_entry \<Rightarrow> int) \<Rightarrow> handler_entry list \<Rightarrow> handler_entry list"

text \<open>A failed \<open>brealloc\<close> has already overwritten the list with NULL.\<close>

definition websUrlHandlerDefine ::
  "qsort \<Rightarrow> bool \<Rightarrow> string \<Rightarrow> string option \<Rightarrow> int \<Rightarrow> hid \<Rightarrow> u32 \<Rightarrow> htab \<Rightarrow> int \<times> htab" where
  "websUrlHandlerDefine qs mem_ok urlPrefix webDir arg handler flags h =
     (if \<not> mem_ok then (- 1, h\<lparr>websUrlHandler := None\<rparr>)
      else
        (let sp = \<lparr>hd_handler = Some handler, hd_webDir = bstrdup webDir, hd_urlPrefix = urlPrefix,
                   hd_len = length urlPrefix, hd_arg = arg, hd_flags = flags\<rparr>;
             old = (case websUrlHandler h of None \<Rightarrow> [] | Some xs \<Rightarrow> take (websUrlHandlerMax h) xs)
         in (0, h\<lparr>websUrlHandler := Some (qs websUrlHandlerSort (old @ [sp])), websUrlHandlerMax := websUrlHandlerMax h + 1\<rparr>)))"

text \<open>The loops over the list; a null list with a positive count is a fault.\<close>

definition handlers :: "htab \<Rightarrow> handler_entry list res" where
  "handlers h =
     (case websUrlHandler h of
        None \<Rightarrow> if websUrlHandlerMax h = 0 then Inr [] else Inl OutOfBounds
      | Some xs \<Rightarrow> if length xs < websUrlHandlerMax h then Inl OutOfBounds else Inr (take (websUrlHandlerMax h) xs))"

definition websUrlHandlerDelete :: "hid \<Rightarrow> htab \<Rightarrow> (int \<times> htab) res" where
  "websUrlHandlerDelete handler h =
     res_bind (handlers h) (\<lambda>xs.
       case find_index (\<lambda>sp. hd_handler sp = Some handler) xs of
         None \<Rightarrow> Inr (- 1, h)
       | Some i \<Rightarrow> Inr (0, h\<lparr>websUrlHandler := Some (xs[i := (xs ! i)\<lparr>hd_handler := None\<rparr>])\<rparr>))"

definition websPublish :: "qsort \<Rightarrow> bool \<Rightarrow> string \<Rightarrow> string \<Rightarrow> htab \<Rightarrow> int \<times> htab" where
  "websPublish qs mem_ok urlPrefix path h = websUrlHandlerDefine qs mem_ok urlPrefix (Some path) 0 PublishHandler 0 h"

definition websGetPublishDir :: "string \<Rightarrow> htab \<Rightarrow> (string \<times> string) option res" where
  "websGetPublishDir path h =
     res_bind (handlers h) (\<lambda>xs.
       Inr (map_option (\<lambda>sp. (hd_webDir sp, hd_urlPrefix sp))
         (List.find (\<lambda>sp. hd_urlPrefix sp \<noteq> [] \<and> hd_handler sp \<noteq> None \<and> starts_with (hd_urlPrefix sp) path) xs)))"

section \<open>Handlers\<close>

text \<open>\<open>&path[len]\<close> is inside the path only when the path has a character after the prefix.\<close>

definition websPublishHandler :: "env \<Rightarrow> string \<Rightarrow> string \<Rightarrow> string \<Rightarrow> server \<Rightarrow> (int \<times> server) res" where
  "websPublishHandler e urlPrefix webDir path s =
     (let len = length urlPrefix + 1 in
      if length path < len then Inl OutOfBounds
      else res_bind (websSetRequestPath e (Some webDir) (Some (drop len path)) s) (\<lambda>s. Inr (0, s)))"

definition websHomePageHandler :: "env \<Rightarrow> string \<Rightarrow> server \<Rightarrow> (int \<times> server) res" where
  "websHomePageHandler e url s =
     (if url = [] \<or> url = ''/'' then res_bind (websRedirect e ''home.asp'' s) (\<lambda>s. Inr (1, s)) else Inr (0, s))"

type_synonym other_fn = "hid \<Rightarrow> string \<Rightarrow> string \<Rightarrow> string \<Rightarrow> server \<Rightarrow> (int \<times> server) res"

definition webs_call ::
  "env \<Rightarrow> form_fn \<Rightarrow> other_fn \<Rightarrow> hid \<Rightarrow> string \<Rightarrow> string \<Rightarrow> string \<Rightarrow> string \<Rightarrow> string \<Rightarrow> server \<Rightarrow> (int \<times> server) res" where
  "webs_call e forms others h urlPrefix webDir url path query s =
     (case h of
        SecurityHandler \<Rightarrow> websSecurityHandler e path s
      | FormHandler \<Rightarrow> websFormHandler e forms path query s
      | HomePageHandler \<Rightarrow> websHomePageHandler e url s
      | PublishHandler \<Rightarrow> websPublishHandler e urlPrefix webDir path s
      | CgiHandler \<Rightarrow> others h url path query s
      | DefaultHandler \<Rightarrow> others h url path query s)"

section \<open>A request\<close>

text \<open>The loop; \<open>first\<close> says that the environment is still to be set.  The result is \<open>None\<close> when no
  handler took the request.\<close>

fun try_handlers ::
  "env \<Rightarrow> form_fn \<Rightarrow> other_fn \<Rightarrow> handler_entry list \<Rightarrow> bool \<Rightarrow> server \<Rightarrow> (bool \<times> server) res" where
  "try_handlers e forms others [] first s = Inr (False, s)"
| "try_handlers e forms others (sp # sps) first s =
     res_bind (cur s) (\<lambda>w.
     case (hd_handler sp, w_path w) of
       (None, _) \<Rightarrow> try_handlers e forms others sps first s
     | (Some h, None) \<Rightarrow> Inl OutOfBounds
     | (Some h, Some path) \<Rightarrow>
         if \<not> starts_with (hd_urlPrefix sp) path then try_handlers e forms others sps first s
         else
           res_bind (if first then websSetEnv e s else Inr s) (\<lambda>s.
           res_bind (cur s) (\<lambda>w.
           res_bind (webs_call e forms others h (hd_urlPrefix sp) (hd_webDir sp)
                       (bstrdup (w_url w)) (websGetRequestPath w) (bstrdup (w_query w)) s) (\<lambda>(r, s).
             if r \<noteq> 0 then Inr (True, s)
             else if \<not> websValid s then Inr (True, s)
             else try_handlers e forms others sps False s))))"

definition condense_opt :: "string option \<Rightarrow> string option" where
  "condense_opt o' = map_option (websCondenseMultipleChars (CHR ''/'')) o'"

definition websUrlHandlerRequest :: "env \<Rightarrow> form_fn \<Rightarrow> other_fn \<Rightarrow> htab \<Rightarrow> server \<Rightarrow> (int \<times> server) res" where
  "websUrlHandlerRequest e forms others h s =
     res_bind (cur s) (\<lambda>w.
       (let s = upd (\<lambda>w. w\<lparr>w_state := WEBS_PROCESSING\<rparr>) (s\<lparr>st_handlerHits := st_handlerHits s + 1\<rparr>) in
        res_bind (websSetRequestPath e (websDefaultDir s) None s) (\<lambda>s.
        (let s = upd (\<lambda>w. w\<lparr>w_path := condense_opt (w_path w), w_url := condense_opt (w_url w)\<rparr>) s in
         res_bind (handlers h) (\<lambda>xs.
         res_bind (try_handlers e forms others xs True s) (\<lambda>(handled, s).
           if handled then Inr (1, s)
           else res_bind (websError e 200 ''No handler for this URL'' [] s) (\<lambda>s. Inr (0, s))))))))"

text \<open>The handlers of \<open>initWebs\<close>, in the order of its calls.\<close>

definition initWebs_handlers :: "qsort \<Rightarrow> htab \<Rightarrow> htab" where
  "initWebs_handlers qs h =
     (let h = snd (websUrlHandlerDefine qs True '''' None 0 SecurityHandler WEBS_HANDLER_FIRST h);
          h = snd (websUrlHandlerDefine qs True ''/goform'' None 0 FormHandler 0 h);
          h = snd (websUrlHandlerDefine qs True ''/cgi-bin'' None 0 CgiHandler 0 h);
          h = snd (websUrlHandlerDefine qs True '''' None 0 DefaultHandler WEBS_HANDLER_LAST h)
      in snd (websUrlHandlerDefine qs True ''/'' None 0 HomePageHandler 0 h))"

end
