(* ===== verification/Handler_Laws.thy ===== *)
theory Handler_Laws
  imports Handler
begin

unbundle bit_operations_syntax

text \<open>
  Properties of the handler list: what \<open>initWebs\<close> leaves in it for every \<open>qsort\<close> that sorts, that a
  request the security handler refuses reaches no other handler, and that an open path reaches the
  form handler without authentication.
\<close>

section \<open>Sorting\<close>

text \<open>The contract of \<open>qsort\<close>: when the comparison orders the elements at distinct positions
  consistently, the result is a sorted permutation.\<close>

definition consistent :: "('a \<Rightarrow> 'a \<Rightarrow> int) \<Rightarrow> 'a multiset \<Rightarrow> bool" where
  "consistent cmp M \<longleftrightarrow> (\<forall>a b. {#a, b#} \<subseteq># M \<longrightarrow> (cmp a b < 0 \<longleftrightarrow> 0 < cmp b a))
     \<and> (\<forall>a b c. {#a, b, c#} \<subseteq># M \<longrightarrow> cmp a b \<le> 0 \<longrightarrow> cmp b c \<le> 0 \<longrightarrow> cmp a c \<le> 0)"

definition qsort_ok :: "qsort \<Rightarrow> bool" where
  "qsort_ok qs \<longleftrightarrow> (\<forall>cmp xs. consistent cmp (mset xs) \<longrightarrow>
     mset (qs cmp xs) = mset xs \<and> sorted_wrt (\<lambda>a b. cmp a b \<le> 0) (qs cmp xs))"

lemma consistent_subset: "consistent cmp M \<Longrightarrow> N \<subseteq># M \<Longrightarrow> consistent cmp N"
  unfolding consistent_def by (meson subset_mset.order_trans)

text \<open>The contract can be met: insertion sort.\<close>

fun insert_by :: "('a \<Rightarrow> 'a \<Rightarrow> int) \<Rightarrow> 'a \<Rightarrow> 'a list \<Rightarrow> 'a list" where
  "insert_by cmp x [] = [x]"
| "insert_by cmp x (y # ys) = (if cmp x y \<le> 0 then x # y # ys else y # insert_by cmp x ys)"

definition isort_by :: "('a \<Rightarrow> 'a \<Rightarrow> int) \<Rightarrow> 'a list \<Rightarrow> 'a list" where
  "isort_by cmp xs = foldr (insert_by cmp) xs []"

lemma mset_insert_by [simp]: "mset (insert_by cmp x ys) = add_mset x (mset ys)"
  by (induction ys) auto

lemma set_insert_by [simp]: "set (insert_by cmp x ys) = insert x (set ys)"
  by (induction ys) auto

lemma pair_sub: "y \<in> set ys \<Longrightarrow> {#x, y#} \<subseteq># mset (x # ys)"
  by simp

lemma insert_by_sorted:
  "sorted_wrt (\<lambda>a b. cmp a b \<le> 0) ys \<Longrightarrow> consistent cmp (mset (x # ys)) \<Longrightarrow>
   sorted_wrt (\<lambda>a b. cmp a b \<le> 0) (insert_by cmp x ys)"
proof (induction ys)
  case (Cons y ys)
  have c: "consistent cmp (mset (x # ys))" by (rule consistent_subset [OF Cons.prems(2)]) simp
  show ?case
  proof (cases "cmp x y \<le> 0")
    case True
    have "cmp x z \<le> 0" if "z \<in> set ys" for z
    proof -
      have "{#x, y, z#} \<subseteq># mset (x # y # ys)" using that by simp
      moreover have "cmp y z \<le> 0" using Cons.prems(1) that by simp
      ultimately show ?thesis using Cons.prems(2) True unfolding consistent_def by blast
    qed
    then show ?thesis using True Cons.prems(1) by simp
  next
    case False
    have "{#y, x#} \<subseteq># mset (x # y # ys)" by simp
    then have "cmp y x \<le> 0" using False Cons.prems(2) unfolding consistent_def by (meson less_le_not_le linorder_not_le)
    then show ?thesis using False Cons c by simp
  qed
qed simp

lemma isort_qsort: "qsort_ok isort_by"
proof -
  have "mset (isort_by cmp xs) = mset xs \<and> sorted_wrt (\<lambda>a b. cmp a b \<le> 0) (isort_by cmp xs)"
    if "consistent cmp (mset xs)" for cmp :: "handler_entry \<Rightarrow> handler_entry \<Rightarrow> int" and xs
    using that
  proof (induction xs)
    case Nil
    then show ?case by (simp add: isort_by_def)
  next
    case (Cons x xs)
    have "consistent cmp (mset xs)" by (rule consistent_subset [OF Cons.prems]) simp
    then have ih: "mset (isort_by cmp xs) = mset xs" "sorted_wrt (\<lambda>a b. cmp a b \<le> 0) (isort_by cmp xs)"
      using Cons.IH by auto
    have "isort_by cmp (x # xs) = insert_by cmp x (isort_by cmp xs)" by (simp add: isort_by_def)
    then show ?case using ih insert_by_sorted [OF ih(2)] Cons.prems by simp
  qed
  then show ?thesis by (simp add: qsort_ok_def)
qed

text \<open>A sorted permutation is unique when no two elements are in both orders.\<close>

lemma sorted_unique:
  "mset xs = mset ys \<Longrightarrow> sorted_wrt P xs \<Longrightarrow> sorted_wrt P ys \<Longrightarrow>
   (\<And>a b. a \<in> set xs \<Longrightarrow> b \<in> set xs \<Longrightarrow> P a b \<Longrightarrow> P b a \<Longrightarrow> a = b) \<Longrightarrow> xs = ys"
proof (induction xs arbitrary: ys)
  case Nil
  then show ?case by simp
next
  case (Cons x xs)
  then obtain y zs where ys: "ys = y # zs" by (cases ys) auto
  have set_eq: "set ys = set (x # xs)" using Cons.prems(1) by (metis set_mset_mset)
  have "x = y"
  proof (rule ccontr)
    assume n: "x \<noteq> y"
    then have m: "x \<in> set zs" "y \<in> set xs" using set_eq ys by auto
    then have "P y x" "P x y" using Cons.prems(2,3) ys by auto
    then show False using Cons.prems(4) [of x y] m n by auto
  qed
  moreover have "xs = zs" using Cons ys \<open>x = y\<close> by auto
  ultimately show ?case using ys by simp
qed

section \<open>The handlers of the server\<close>

definition entry :: "string \<Rightarrow> hid \<Rightarrow> u32 \<Rightarrow> handler_entry" where
  "entry prefix h flags = \<lparr>hd_handler = Some h, hd_webDir = [], hd_urlPrefix = prefix, hd_len = length prefix, hd_arg = 0, hd_flags = flags\<rparr>"

definition webs_handlers :: "handler_entry list" where
  "webs_handlers = [entry '''' SecurityHandler WEBS_HANDLER_FIRST, entry ''/goform'' FormHandler 0, entry ''/cgi-bin'' CgiHandler 0,
     entry ''/'' HomePageHandler 0, entry '''' DefaultHandler WEBS_HANDLER_LAST]"

lemma webs_handlers_order:
  "list_all (\<lambda>a. list_all (\<lambda>b. a \<noteq> b \<longrightarrow> (websUrlHandlerSort a b < 0) = (0 < websUrlHandlerSort b a)) webs_handlers) webs_handlers"
  "list_all (\<lambda>a. list_all (\<lambda>b. list_all (\<lambda>c. websUrlHandlerSort a b \<le> 0 \<longrightarrow> websUrlHandlerSort b c \<le> 0 \<longrightarrow> a \<noteq> c
     \<longrightarrow> websUrlHandlerSort a c \<le> 0) webs_handlers) webs_handlers) webs_handlers"
  "distinct webs_handlers" "sorted_wrt (\<lambda>a b. websUrlHandlerSort a b \<le> 0) webs_handlers"
  "list_all (\<lambda>a. list_all (\<lambda>b. websUrlHandlerSort a b \<le> 0 \<longrightarrow> websUrlHandlerSort b a \<le> 0 \<longrightarrow> a = b) webs_handlers) webs_handlers"
  by code_simp+

lemma distinct_sub:
  assumes "distinct xs" and "add_mset a (add_mset b N) \<subseteq># mset xs"
  shows "a \<noteq> b" "a \<in> set xs" "b \<in> set xs"
proof -
  have sub: "set_mset (add_mset a (add_mset b N)) \<subseteq> set xs" using set_mset_mono [OF assms(2)] by simp
  then show "a \<in> set xs" "b \<in> set xs" by auto
  have le: "count (add_mset a (add_mset b N)) a \<le> 1"
    using mset_subset_eq_count [OF assms(2), of a] assms(1) distinct_count_atmost_1 [of xs] by (simp split: if_splits)
  then show "a \<noteq> b" by (auto split: if_splits)
qed

lemma webs_handlers_consistent: "consistent websUrlHandlerSort (mset webs_handlers)"
  unfolding consistent_def
proof (intro conjI allI impI)
  fix a b assume "{#a, b#} \<subseteq># mset webs_handlers"
  from distinct_sub [OF webs_handlers_order(3) this] webs_handlers_order(1)
  show "(websUrlHandlerSort a b < 0) = (0 < websUrlHandlerSort b a)" by (auto simp: list_all_iff)
next
  fix a b c assume m: "{#a, b, c#} \<subseteq># mset webs_handlers" and s: "websUrlHandlerSort a b \<le> 0" "websUrlHandlerSort b c \<le> 0"
  have "a \<noteq> c" "a \<in> set webs_handlers" "b \<in> set webs_handlers" "c \<in> set webs_handlers"
  proof -
    have "{#a, c#} \<subseteq># {#a, b, c#}" by simp
    then have "{#a, c#} \<subseteq># mset webs_handlers" using m by (rule subset_mset.order_trans)
    from distinct_sub [OF webs_handlers_order(3) this] show "a \<noteq> c" "a \<in> set webs_handlers" "c \<in> set webs_handlers" by auto
    from distinct_sub [OF webs_handlers_order(3) m] show "b \<in> set webs_handlers" by auto
  qed
  then show "websUrlHandlerSort a c \<le> 0" using s webs_handlers_order(2) unfolding list_all_iff by blast
qed

lemma define_step:
  assumes q: "qsort_ok qs" and h: "handlers h = Inr xs" "websUrlHandlerMax h = length xs"
    and m: "mset (xs @ [entry p hh f]) \<subseteq># mset webs_handlers"
    and h': "h' = snd (websUrlHandlerDefine qs True p None 0 hh f h)"
  shows "\<exists>ys. handlers h' = Inr ys \<and> websUrlHandlerMax h' = length ys \<and> mset ys = mset (xs @ [entry p hh f])
    \<and> sorted_wrt (\<lambda>a b. websUrlHandlerSort a b \<le> 0) ys"
proof -
  have old: "(case websUrlHandler h of None \<Rightarrow> [] | Some xs \<Rightarrow> take (websUrlHandlerMax h) xs) = xs"
    using h by (auto simp: handlers_def split: option.splits if_splits)
  let ?ys = "qs websUrlHandlerSort (xs @ [entry p hh f])"
  have "consistent websUrlHandlerSort (mset (xs @ [entry p hh f]))"
    by (rule consistent_subset [OF webs_handlers_consistent m])
  then have y: "mset ?ys = mset (xs @ [entry p hh f])" "sorted_wrt (\<lambda>a b. websUrlHandlerSort a b \<le> 0) ?ys"
    using q unfolding qsort_ok_def by blast+
  then have "length ?ys = length xs + 1" by (metis length_append_singleton size_mset add.commute plus_1_eq_Suc)
  moreover have "h' = h\<lparr>websUrlHandler := Some ?ys, websUrlHandlerMax := websUrlHandlerMax h + 1\<rparr>"
    unfolding h' websUrlHandlerDefine_def old by (simp add: Let_def entry_def bstrdup_def)
  ultimately show ?thesis using h y by (auto simp: handlers_def)
qed

lemma initWebs_handlers_eq:
  assumes q: "qsort_ok qs" and h: "handlers h = Inr []" "websUrlHandlerMax h = 0"
  shows "handlers (initWebs_handlers qs h) = Inr webs_handlers"
proof -
  define h1 where "h1 = snd (websUrlHandlerDefine qs True '''' None 0 SecurityHandler WEBS_HANDLER_FIRST h)"
  define h2 where "h2 = snd (websUrlHandlerDefine qs True ''/goform'' None 0 FormHandler 0 h1)"
  define h3 where "h3 = snd (websUrlHandlerDefine qs True ''/cgi-bin'' None 0 CgiHandler 0 h2)"
  define h4 where "h4 = snd (websUrlHandlerDefine qs True '''' None 0 DefaultHandler WEBS_HANDLER_LAST h3)"
  define h5 where "h5 = snd (websUrlHandlerDefine qs True ''/'' None 0 HomePageHandler 0 h4)"
  have e: "initWebs_handlers qs h = h5" by (simp add: initWebs_handlers_def Let_def h5_def h4_def h3_def h2_def h1_def)
  note all = webs_handlers_def
  obtain y1 where y1: "handlers h1 = Inr y1" "websUrlHandlerMax h1 = length y1" "mset y1 = mset (take 1 webs_handlers)"
    using define_step [OF q h(1) _ _ h1_def] h(2) by (auto simp: all)
  obtain y2 where y2: "handlers h2 = Inr y2" "websUrlHandlerMax h2 = length y2" "mset y2 = mset (take 2 webs_handlers)"
    using define_step [OF q y1(1,2) _ h2_def] y1(3) by (auto simp: all)
  obtain y3 where y3: "handlers h3 = Inr y3" "websUrlHandlerMax h3 = length y3" "mset y3 = mset (take 3 webs_handlers)"
    using define_step [OF q y2(1,2) _ h3_def] y2(3) by (auto simp: all)
  obtain y4 where y4: "handlers h4 = Inr y4" "websUrlHandlerMax h4 = length y4"
      "mset y4 = mset (take 3 webs_handlers @ [entry '''' DefaultHandler WEBS_HANDLER_LAST])"
    using define_step [OF q y3(1,2) _ h4_def] y3(3) by (auto simp: all)
  obtain y5 where y5: "handlers h5 = Inr y5" "mset y5 = mset webs_handlers" "sorted_wrt (\<lambda>a b. websUrlHandlerSort a b \<le> 0) y5"
    using define_step [OF q y4(1,2) _ h5_def] y4(3) by (auto simp: all)
  have "y5 = webs_handlers"
  proof (rule sorted_unique [OF y5(2,3) webs_handlers_order(4)])
    have s: "set y5 = set webs_handlers" using y5(2) by (metis set_mset_mset)
    fix a b assume "a \<in> set y5" "b \<in> set y5" "websUrlHandlerSort a b \<le> 0" "websUrlHandlerSort b a \<le> 0"
    then show "a = b" using webs_handlers_order(5) s unfolding list_all_iff by blast
  qed
  then show ?thesis using e y5(1) by simp
qed

section \<open>Requests\<close>

definition request_webs :: "server \<Rightarrow> webs \<Rightarrow> webs" where
  "request_webs s w = w\<lparr>w_state := WEBS_PROCESSING,
     w_dir := (case websDefaultDir s of None \<Rightarrow> w_dir w | Some d \<Rightarrow> Some d),
     w_path := condense_opt (w_path w), w_url := condense_opt (w_url w)\<rparr>"

definition request_start :: "server \<Rightarrow> server" where
  "request_start s = (s\<lparr>st_handlerHits := st_handlerHits s + 1, wp := map_option (request_webs s) (wp s)\<rparr>)"

lemma condense_cstr: "is_cstr s \<Longrightarrow> is_cstr (websCondenseMultipleChars c s)"
  by (simp add: is_cstr_def condense_set)

lemma request_start_ok:
  assumes "server_ok s"
  shows "server_ok (request_start s)"
proof -
  have "webs_strs w \<Longrightarrow> webs_strs (request_webs s w)" for w
    by (auto simp: webs_strs_def request_webs_def condense_opt_def str_ok_def condense_cstr)
  moreover have "w_cgiVars (request_webs s w) = w_cgiVars w" for w by (simp add: request_webs_def)
  ultimately show ?thesis using assms by (auto simp: server_ok_def request_ok_def request_start_def)
qed

lemma websUrlHandlerRequest_eq:
  assumes w: "wp s = Some w" and h: "handlers h = Inr xs"
  shows "websUrlHandlerRequest e forms others h s =
    res_bind (try_handlers e forms others xs True (request_start s)) (\<lambda>(handled, s).
      if handled then Inr (1, s) else res_bind (websError e 200 ''No handler for this URL'' [] s) (\<lambda>s. Inr (0, s)))"
  using w h
  by (cases "websDefaultDir s")
    (simp_all add: websUrlHandlerRequest_def websSetRequestPath_def upd_def cur_def Let_def request_start_def request_webs_def)

text \<open>A handler whose prefix matches is called; one whose prefix does not is skipped.\<close>

lemma try_match:
  assumes w: "wp s = Some w" and p: "w_path w = Some p" and m: "starts_with (hd_urlPrefix sp) p"
    and h: "hd_handler sp = Some h" and s2: "(if first then websSetEnv e s else Inr s) = Inr s2" and w2: "wp s2 = Some w2"
  shows "try_handlers e forms others (sp # sps) first s =
    res_bind (webs_call e forms others h (hd_urlPrefix sp) (hd_webDir sp) (bstrdup (w_url w2)) (websGetRequestPath w2)
                (bstrdup (w_query w2)) s2) (\<lambda>(r, s).
      if r \<noteq> 0 \<or> \<not> websValid s then Inr (True, s) else try_handlers e forms others sps False s)"
proof -
  have "(\<lambda>(r :: int, s). if r \<noteq> 0 then Inr (True, s) else if \<not> websValid s then Inr (True, s)
      else try_handlers e forms others sps False s)
    = (\<lambda>(r, s). if r \<noteq> 0 \<or> \<not> websValid s then Inr (True, s) else try_handlers e forms others sps False s)"
    by auto
  then show ?thesis using w p m h s2 w2 by simp
qed

lemma try_skip:
  assumes "wp s = Some w" and "w_path w = Some p" and "\<not> starts_with (hd_urlPrefix sp) p"
  shows "try_handlers e forms others (sp # sps) first s = try_handlers e forms others sps first s"
  using assms by (cases "hd_handler sp") simp_all

text \<open>The security handler sees every request first.\<close>

lemma security_first:
  assumes ok: "server_ok s" and w: "wp s = Some w" and p: "w_path w = Some p"
  shows "\<exists>t. try_handlers e forms others webs_handlers True s =
      res_bind (websSecurityHandler e p (s\<lparr>tabs := t\<rparr>)) (\<lambda>(r, s).
        if r \<noteq> 0 \<or> \<not> websValid s then Inr (True, s) else try_handlers e forms others (tl webs_handlers) False s)
    \<and> server_ok (s\<lparr>tabs := t\<rparr>) \<and> syms t (formSymtab s) = syms (tabs s) (formSymtab s)"
proof -
  obtain t where t: "websSetEnv e s = Inr (s\<lparr>tabs := t\<rparr>)" "server_ok (s\<lparr>tabs := t\<rparr>)"
    "\<forall>k. 0 \<le> k \<and> k \<noteq> w_cgiVars w \<longrightarrow> syms t k = syms (tabs s) k"
    using websSetEnv_ok [OF ok w, of e] by blast
  have f: "0 \<le> formSymtab s" "formSymtab s \<noteq> w_cgiVars w" using ok w by (auto simp: server_ok_def request_ok_def live_def)
  have sp: "webs_handlers = entry [] SecurityHandler WEBS_HANDLER_FIRST # tl webs_handlers" by (simp add: webs_handlers_def)
  have w2: "wp (s\<lparr>tabs := t\<rparr>) = Some w" using w by simp
  have "try_handlers e forms others webs_handlers True s =
      res_bind (websSecurityHandler e p (s\<lparr>tabs := t\<rparr>)) (\<lambda>(r, s).
        if r \<noteq> 0 \<or> \<not> websValid s then Inr (True, s) else try_handlers e forms others (tl webs_handlers) False s)"
    by (subst sp, subst try_match [OF w p _ _ _ w2, of _ SecurityHandler])
      (simp_all add: entry_def t(1) webs_call_def websGetRequestPath_def p)
  then show ?thesis using t f by blast
qed

lemma admitted_fields:
  assumes "w_path w = w_path w'" and "w_flags w = w_flags w'" and "w_userName w = w_userName w'" and "w_password w = w_password w'"
  shows "admitted d w p = admitted d w' p"
  unfolding admitted_def bypassed_def assms ..

text \<open>After \<open>initWebs\<close>, whatever sorting algorithm \<open>qsort\<close> uses, the handler list is: security, forms,
  CGI, home page, files.  The security handler is first although its prefix is the shortest, a
  longer prefix comes before its own prefix \<open>/\<close>, and the file handler is last.\<close>

theorem initWebs_handler_order:
  assumes "qsort_ok qs" and "urlHandlerOpenCount h = 0"
  shows "handlers (initWebs_handlers qs (websUrlHandlerOpen h)) = Inr webs_handlers"
  using assms by (intro initWebs_handlers_eq) (simp_all add: websUrlHandlerOpen_def handlers_def)

definition demo_htab :: htab where
  "demo_htab = \<lparr>websUrlHandler = None, websUrlHandlerMax = 0, urlHandlerOpenCount = 0\<rparr>"

theorem initWebs_handler_order_witness:
  "handlers (initWebs_handlers isort_by (websUrlHandlerOpen demo_htab)) = Inr webs_handlers
    \<and> map hd_handler webs_handlers = [Some SecurityHandler, Some FormHandler, Some CgiHandler, Some HomePageHandler, Some DefaultHandler]"
  using initWebs_handler_order [OF isort_qsort, of demo_htab]
  by (simp add: demo_htab_def webs_handlers_def entry_def)

lemma handlers_installed: "qsort_ok qs \<Longrightarrow> urlHandlerOpenCount h = 0 \<Longrightarrow>
   handlers (initWebs_handlers qs (websUrlHandlerOpen h)) = Inr webs_handlers"
  by (intro initWebs_handlers_eq) (simp_all add: websUrlHandlerOpen_def handlers_def)

lemma refused_request:
  assumes "qsort_ok qs" and "urlHandlerOpenCount h = 0"
    and "server_ok s" and "wp s = Some w" and "env_ok e" and "um_reach (umdb s)" and "w_path w = Some p"
    and "p' = websCondenseMultipleChars (CHR ''/'') p" and "\<not> admitted (umdb s) (w\<lparr>w_path := Some p'\<rparr>) p'"
    and "w_flags w AND WEBS_HEADER_DONE = 0"
  shows "\<exists>s' l ls. websUrlHandlerRequest e forms others (initWebs_handlers qs (websUrlHandlerOpen h)) s = Inr (1, s')
    \<and> governing (umdb s) p' = Some l \<and> wp s' = None \<and> server_ok s' \<and> umdb s' = umdb s \<and> st_formHits s' = st_formHits s
    \<and> out s' = out s @ take 959 (status_line None (refusal (umdb s) w l)) # ls"
proof -
  let ?s = "request_start s" and ?w = "request_webs s w"
  have ok: "server_ok ?s" by (rule request_start_ok [OF assms(3)])
  have w: "wp ?s = Some ?w" "w_path ?w = Some p'" "w_flags ?w = w_flags w"
    using assms(4,7,8) by (simp_all add: request_start_def request_webs_def condense_opt_def)
  have st: "umdb ?s = umdb s" "out ?s = out s" "formSymtab ?s = formSymtab s" "st_formHits ?s = st_formHits s"
    by (simp_all add: request_start_def)
  obtain t where t: "try_handlers e forms others webs_handlers True ?s =
      res_bind (websSecurityHandler e p' (?s\<lparr>tabs := t\<rparr>)) (\<lambda>(r, s).
        if r \<noteq> 0 \<or> \<not> websValid s then Inr (True, s) else try_handlers e forms others (tl webs_handlers) False s)"
    "server_ok (?s\<lparr>tabs := t\<rparr>)"
    using security_first [OF ok w(1,2), of e forms others] by blast
  have a: "admitted d ?w p' = admitted d (w\<lparr>w_path := Some p'\<rparr>) p'" "refusal d ?w l = refusal d w l" for d l
  proof -
    show "admitted d ?w p' = admitted d (w\<lparr>w_path := Some p'\<rparr>) p'"
      using admitted_fields [of ?w "w\<lparr>w_path := Some p'\<rparr>"] w(2) by (simp add: request_webs_def)
    show "refusal d ?w l = refusal d w l" by (simp add: refusal_def request_webs_def)
  qed
  have d: "um_wf (umdb (?s\<lparr>tabs := t\<rparr>))" "members_ok (umdb (?s\<lparr>tabs := t\<rparr>))"
    using um_reach_keeps [OF assms(6)] st by simp_all
  have w2: "wp (?s\<lparr>tabs := t\<rparr>) = Some ?w" using w by simp
  obtain s' l where s': "websSecurityHandler e p' (?s\<lparr>tabs := t\<rparr>) = Inr (1, s')"
    "governing (umdb s) p' = Some l" "refused (?s\<lparr>tabs := t\<rparr>) ?w (refusal (umdb s) w l) s'"
    using security_answers [OF t(2) w2 assms(5) d, of p'] assms(9) a st by auto
  have "websUrlHandlerRequest e forms others (initWebs_handlers qs (websUrlHandlerOpen h)) s = Inr (1, s')"
    using websUrlHandlerRequest_eq [OF assms(4) handlers_installed [OF assms(1,2)], of e forms others] t(1) s'(1) by simp
  then show ?thesis using s'(2,3) st w(3) assms(10) by (auto simp: refused_def)
qed

text \<open>C9. A refused request runs nothing.  With the handlers of \<open>initWebs\<close>, for every request whose
  condensed path is not admitted, and whatever the form functions and the CGI and file handlers would
  do: the request is answered with the refusal's status line and released, \<open>websUrlHandlerRequest\<close>
  returns 1, no form is counted and no account changes.\<close>

theorem refused_requests_run_nothing:
  assumes "qsort_ok qs" and "urlHandlerOpenCount h = 0"
    and "server_ok s" and "wp s = Some w" and "env_ok e" and "um_reach (umdb s)" and "w_path w = Some p"
    and "p' = websCondenseMultipleChars (CHR ''/'') p" and "\<not> admitted (umdb s) (w\<lparr>w_path := Some p'\<rparr>) p'"
    and "w_flags w AND WEBS_HEADER_DONE = 0"
  shows "\<exists>s' l ls. websUrlHandlerRequest e forms others (initWebs_handlers qs (websUrlHandlerOpen h)) s = Inr (1, s')
    \<and> governing (umdb s) p' = Some l \<and> wp s' = None \<and> server_ok s' \<and> umdb s' = umdb s \<and> st_formHits s' = st_formHits s
    \<and> out s' = out s @ take 959 (status_line None (refusal (umdb s) w l)) # ls"
  by (rule refused_request [OF assms])

theorem refused_requests_run_nothing_witness:
  "\<exists>d s' ls. websUrlHandlerRequest demo_env (\<lambda>fn name query s. Inr s) (\<lambda>h url path query s. Inr (1, s))
      (initWebs_handlers isort_by (websUrlHandlerOpen demo_htab)) (demo_server\<lparr>umdb := d\<rparr>) = Inr (1, s')
    \<and> wp s' = None \<and> umdb s' = d \<and> out s' = take 959 (status_line None 401) # ls
    \<and> limits d = [''/adm/'' \<mapsto> limit_row ''/adm/'' 2 0 ''adm'']"
proof -
  obtain d where d: "um_reach d" "groups d = [''adm'' \<mapsto> group_row ''adm'' 4 2 0 0]"
    "limits d = [''/adm/'' \<mapsto> limit_row ''/adm/'' 2 0 ''adm'']" using demo_reach by blast
  let ?w = "demo_webs\<lparr>w_path := Some ''/adm/x.asp''\<rparr>"
  have g: "governing d ''/adm/x.asp'' = Some ''/adm/''" by (rule demo_governing [OF d(3)])
  have am: "access_method d ''/adm/'' = 2"
    by (simp add: access_method_def d(2,3) str_of_def int_of_def limit_row_def group_row_def numeral_eq_Suc)
  have "\<not> bypassed ?w" by (auto simp: bypassed_def demo_webs_def open_paths_def)
  then have na: "\<not> admitted (umdb (demo_server\<lparr>umdb := d\<rparr>)) ?w ''/adm/x.asp''"
    by (simp add: admitted_def g am um_codes demo_webs_def)
  have c: "''/adm/x.asp'' = websCondenseMultipleChars (CHR ''/'') ''/adm/x.asp''" by code_simp
  have f: "w_path demo_webs = Some ''/adm/x.asp''" "w_flags demo_webs AND WEBS_HEADER_DONE = 0"
    by (simp_all add: demo_webs_def)
  have "refusal d demo_webs ''/adm/'' = 401" by (simp add: refusal_def am um_codes demo_webs_def)
  then show ?thesis
    using refused_requests_run_nothing [OF isort_qsort _ demo_server_db demo_server_ok(2) _ f(1) c na f(2), of demo_htab
        "\<lambda>fn name query s. Inr s" "\<lambda>h url path query s. Inr (1, s)"] d g
    by (auto simp: demo_htab_def demo_server_def)
qed

section \<open>Open paths\<close>

text \<open>The path \<open>/goform/\<close>f\<open>/images/\<close> contains an open path and names the form f.\<close>

definition images_path :: "string \<Rightarrow> string" where
  "images_path f = ''/goform/'' @ f @ ''/images/''"

lemma no_double_plain: "c \<notin> set xs \<Longrightarrow> no_double c (xs @ c # ys) = no_double c (c # ys)"
  by (induction xs rule: no_double.induct) auto

lemma condense_images_path:
  assumes "f \<noteq> []" and "CHR ''/'' \<notin> set f"
  shows "websCondenseMultipleChars (CHR ''/'') (images_path f) = images_path f"
proof (rule condense_id)
  obtain a g where f: "f = a # g" using assms(1) by (cases f) auto
  have "no_double (CHR ''/'') (f @ ''/images/'')" using no_double_plain [OF assms(2), of "''images/''"] by simp
  then show "no_double (CHR ''/'') (images_path f)" using assms(2) by (auto simp: images_path_def f)
qed

lemma images_path_open: "w_path w = Some (images_path f) \<Longrightarrow> bypassed w"
proof -
  assume w: "w_path w = Some (images_path f)"
  have "has_sub ''/images/'' (images_path f)"
    unfolding has_sub_iff images_path_def by (intro exI [of _ "''/goform/'' @ f"] exI [of _ "[]"]) simp
  then show ?thesis using w by (auto simp: bypassed_def open_paths_def)
qed

lemma images_path_form:
  assumes "f \<noteq> []" and "is_cstr f" and "CHR ''/'' \<notin> set f" and "length f < 238"
  shows "form_name (images_path f) = Inr (Some f)"
  using form_name_eq [of "''goform''" f "''/images/''"] assms by (simp add: images_path_def FNAMESIZE_def is_cstr_def)

lemma form_first:
  assumes w: "wp s = Some w" and p: "w_path w = Some (images_path f)"
  shows "try_handlers e forms others (tl webs_handlers) False s =
    res_bind (websFormHandler e forms (images_path f) (bstrdup (w_query w)) s) (\<lambda>(r, s).
      if r \<noteq> 0 \<or> \<not> websValid s then Inr (True, s) else try_handlers e forms others (drop 2 webs_handlers) False s)"
proof -
  have sp: "tl webs_handlers = entry ''/goform'' FormHandler 0 # drop 2 webs_handlers" by (simp add: webs_handlers_def)
  have "starts_with (hd_urlPrefix (entry ''/goform'' FormHandler 0)) (images_path f)" by (simp add: entry_def images_path_def)
  from try_match [OF w p this _ _ w, of FormHandler False e forms others "drop 2 webs_handlers"] show ?thesis
    by (simp add: sp entry_def webs_call_def websGetRequestPath_def p bstrdup_def)
qed

lemma form_runs:
  assumes ok: "server_ok s" and f: "f \<noteq> []" "is_cstr f" "CHR ''/'' \<notin> set f" "length f < 238"
    and sp: "syms (tabs s) (formSymtab s) f = Some sp" "s_content sp = VInteger n" "n \<noteq> 0"
  shows "websFormHandler e forms (images_path f) query s =
    res_bind (forms n f query (s\<lparr>st_formHits := st_formHits s + 1\<rparr>)) (\<lambda>s. Inr (1, s))"
proof -
  have t: "tabs_ok (tabs s)" "live (formSymtab s) (tabs s)" using ok by (simp_all add: server_ok_def)
  have look: "symLookup (formSymtab s) (Some f) (tabs s) = Inr (Some sp)" using symLookup_eq [OF t] f(1) sp(1) by simp
  show ?thesis
    by (simp add: websFormHandler_def images_path_form [OF f] look sp)
qed

text \<open>C10. The list of open paths is matched anywhere in the path, so every form of the server can be run
  without an account: a request for \<open>/goform/\<close>f\<open>/images/\<close>, with no credentials and whatever access
  limits the user database holds, calls the function registered for the form f.\<close>

theorem open_path_runs_any_form:
  assumes "qsort_ok qs" and "urlHandlerOpenCount h = 0"
    and "server_ok s" and "wp s = Some w" and "env_ok e" and "um_reach (umdb s)" and "w_path w = Some (images_path f)"
    and "f \<noteq> []" and "is_cstr f" and "CHR ''/'' \<notin> set f" and "length f < 238"
    and "syms (tabs s) (formSymtab s) f = Some sp" and "s_content sp = VInteger n" and "n \<noteq> 0"
  shows "\<exists>s1. websUrlHandlerRequest e forms others (initWebs_handlers qs (websUrlHandlerOpen h)) s
      = res_bind (forms n f (bstrdup (w_query w)) s1) (\<lambda>s. Inr (1, s))
    \<and> server_ok s1 \<and> umdb s1 = umdb s \<and> st_formHits s1 = st_formHits s + 1 \<and> out s1 = out s"
proof -
  let ?s = "request_start s" and ?w = "request_webs s w" and ?p = "images_path f"
  have ok: "server_ok ?s" by (rule request_start_ok [OF assms(3)])
  have w: "wp ?s = Some ?w" "w_path ?w = Some ?p" "w_query ?w = w_query w"
    using assms(4,7) condense_images_path [OF assms(8,10)]
    by (simp_all add: request_start_def request_webs_def condense_opt_def)
  have st: "umdb ?s = umdb s" "out ?s = out s" "formSymtab ?s = formSymtab s" "st_formHits ?s = st_formHits s" "tabs ?s = tabs s"
    by (simp_all add: request_start_def)
  obtain t where t: "try_handlers e forms others webs_handlers True ?s =
      res_bind (websSecurityHandler e ?p (?s\<lparr>tabs := t\<rparr>)) (\<lambda>(r, s).
        if r \<noteq> 0 \<or> \<not> websValid s then Inr (True, s) else try_handlers e forms others (tl webs_handlers) False s)"
    "server_ok (?s\<lparr>tabs := t\<rparr>)" "syms t (formSymtab ?s) = syms (tabs ?s) (formSymtab ?s)"
    using security_first [OF ok w(1,2), of e forms others] by blast
  let ?s1 = "?s\<lparr>tabs := t\<rparr>"
  have w2: "wp ?s1 = Some ?w" using w by simp
  have d: "um_wf (umdb ?s1)" "members_ok (umdb ?s1)" using um_reach_keeps [OF assms(6)] st by simp_all
  have "admitted (umdb ?s1) ?w ?p" using images_path_open [OF w(2)] by (simp add: admitted_def)
  then have "websSecurityHandler e ?p ?s1 = Inr (0, ?s1)" using security_answers [OF t(2) w2 assms(5) d, of ?p] by blast
  then have r: "try_handlers e forms others webs_handlers True ?s = try_handlers e forms others (tl webs_handlers) False ?s1"
    using t(1) w2 by (simp add: websValid_def)
  have run: "websFormHandler e forms ?p (bstrdup (w_query w)) ?s1 =
      res_bind (forms n f (bstrdup (w_query w)) (?s1\<lparr>st_formHits := st_formHits ?s1 + 1\<rparr>)) (\<lambda>s. Inr (1, s))"
    by (rule form_runs [OF t(2) assms(8-11) _ assms(13,14)]) (use t(3) st assms(12) in simp)
  have fin: "websUrlHandlerRequest e forms others (initWebs_handlers qs (websUrlHandlerOpen h)) s =
      res_bind (forms n f (bstrdup (w_query w)) (?s1\<lparr>st_formHits := st_formHits ?s1 + 1\<rparr>)) (\<lambda>s. Inr (1, s))"
    unfolding websUrlHandlerRequest_eq [OF assms(4) handlers_installed [OF assms(1,2)]] r form_first [OF w2 w(2)] w(3) run
    by (cases "forms n f (bstrdup (w_query w)) (?s1\<lparr>st_formHits := st_formHits ?s1 + 1\<rparr>)") simp_all
  have "server_ok (?s1\<lparr>st_formHits := st_formHits ?s1 + 1\<rparr>)" using t(2) by (simp add: server_ok_def request_ok_def)
  with fin show ?thesis using st by (intro exI [of _ "?s1\<lparr>st_formHits := st_formHits ?s1 + 1\<rparr>"]) simp
qed

theorem open_path_runs_any_form_witness:
  "\<exists>d s1. websUrlHandlerRequest demo_env (\<lambda>fn name query s. if fn = 7 then Inr (s\<lparr>st_errors := 99\<rparr>) else Inl OutOfBounds)
      (\<lambda>h url path query s. Inr (1, s)) (initWebs_handlers isort_by (websUrlHandlerOpen demo_htab))
      (demo_server\<lparr>umdb := d, wp := Some (demo_webs\<lparr>w_path := Some ''/goform/f/images/''\<rparr>)\<rparr>) = Inr (1, s1\<lparr>st_errors := 99\<rparr>)
    \<and> st_formHits s1 = 1 \<and> limits d = [''/adm/'' \<mapsto> limit_row ''/adm/'' 2 0 ''adm'']"
proof -
  obtain d where d: "um_reach d" "limits d = [''/adm/'' \<mapsto> limit_row ''/adm/'' 2 0 ''adm'']" using demo_reach by blast
  let ?w = "demo_webs\<lparr>w_path := Some ''/goform/f/images/''\<rparr>"
  let ?s = "demo_server\<lparr>umdb := d, wp := Some ?w\<rparr>"
  have ok: "server_ok ?s"
    using demo_symtabs_ok by (simp add: server_ok_def request_ok_def demo_server_def demo_webs_def webs_strs_def)
  have p: "w_path ?w = Some (images_path ''f'')" by (simp add: images_path_def)
  have sp: "syms (tabs ?s) (formSymtab ?s) ''f'' = Some \<lparr>s_name = ''f'', s_content = VInteger 7, s_arg = 0\<rparr>"
    by (simp add: demo_server_def demo_symtabs_def syms_def hget_def tab_map_def chain_map_def hashIndex_def)
  obtain s1 where "websUrlHandlerRequest demo_env (\<lambda>fn name query s. if fn = 7 then Inr (s\<lparr>st_errors := 99\<rparr>) else Inl OutOfBounds)
      (\<lambda>h url path query s. Inr (1, s)) (initWebs_handlers isort_by (websUrlHandlerOpen demo_htab)) ?s
      = Inr (1, s1\<lparr>st_errors := 99\<rparr>)" "st_formHits s1 = st_formHits ?s + 1"
    using open_path_runs_any_form [OF isort_qsort _ ok _ demo_server_ok(2) _ p _ _ _ _ sp, of demo_htab 7
        "\<lambda>fn name query s. if fn = 7 then Inr (s\<lparr>st_errors := 99\<rparr>) else Inl OutOfBounds" "\<lambda>h url path query s. Inr (1, s)"] d(1)
    by (auto simp: demo_htab_def is_cstr_def)
  then show ?thesis using d(2) by (intro exI [of _ d] exI [of _ s1]) (simp add: demo_server_def)
qed

end
