(* ===== verification/Goahead.thy ===== *)
theory Goahead
  imports Handler_Laws
begin

unbundle bit_operations_syntax

text \<open>
  \<open>user/goahead/src_tongyong/goahead.c\<close>: the accounts \<open>initWebs\<close> creates from the configuration
  (\<open>Login\<close>, \<open>Password\<close>, \<open>SuperName\<close>, \<open>SuperPwd\<close>; \<open>None\<close> is a null pointer), and who is let in with
  them.  Two groups and one access limit, for the path \<open>/\<close>, are created; the results of the calls are
  ignored, as in the code.
\<close>

section \<open>Accounts\<close>

definition given :: "string option \<Rightarrow> bool" where
  "given s \<longleftrightarrow> s \<noteq> None \<and> s \<noteq> Some []"

definition add_account :: "halloc \<Rightarrow> string option \<Rightarrow> string option \<Rightarrow> string \<Rightarrow> db \<Rightarrow> db res" where
  "add_account e u p grp d =
     (if given u \<and> given p then res_bind (umAddUser e (the u) (the p) grp 0 0 d) (\<lambda>(r, d). Inr d) else Inr d)"

definition initWebs_um ::
  "halloc \<Rightarrow> string option \<Rightarrow> string option \<Rightarrow> string option \<Rightarrow> string option \<Rightarrow> um \<Rightarrow> um res" where
  "initWebs_um e admu admp superu superp s =
     res_bind (umOpen e s) (\<lambda>(did, s).
     res_bind (umAddGroup e ''adm'' 7 AM_DIGEST 0 0 (um_db s)) (\<lambda>(r, d).
     res_bind (umAddGroup e ''sup'' 7 AM_DIGEST 0 0 d) (\<lambda>(r, d).
     res_bind (umAddAccessLimit e ''/'' AM_DIGEST 0 None d) (\<lambda>(r, d).
     res_bind (add_account e superu superp ''sup'' d) (\<lambda>d.
     res_bind (add_account e admu admp ''adm'' d) (\<lambda>d.
       Inr (s\<lparr>um_db := d\<rparr>)))))))"

section \<open>What the calls leave\<close>

text \<open>A usable account: a name and a password, both without white space.\<close>

definition account :: "string option \<Rightarrow> string option \<Rightarrow> (string \<times> string) option" where
  "account u p = (if given u \<and> given p \<and> umCheckName (the u) \<and> umCheckName (the p) then Some (the u, the p) else None)"

definition account_map :: "string option \<Rightarrow> string option \<Rightarrow> string \<Rightarrow> (string \<rightharpoonup> row) \<Rightarrow> (string \<rightharpoonup> row)" where
  "account_map u p g m =
     (case account u p of
        None \<Rightarrow> m
      | Some (a, b) \<Rightarrow> if m a = None then m(a \<mapsto> user_row a (umEncryptString b) g 0 0) else m)"

lemma add_account_ok:
  assumes r: "um_reach d" and g: "groups d g \<noteq> None"
  shows "\<exists>d'. add_account halloc_fine u p g d = Inr d' \<and> um_reach d' \<and> users d' = account_map u p g (users d)
    \<and> groups d' = groups d \<and> limits d' = limits d"
proof (cases "given u \<and> given p")
  case False
  then show ?thesis using r by (auto simp: add_account_def account_map_def account_def)
next
  case True
  then obtain a b where ab: "u = Some a" "p = Some b" by (auto simp: given_def)
  have wf: "um_wf d" using um_reach_keeps [OF r] by simp
  show ?thesis
  proof (cases "users d a = None \<and> umCheckName a \<and> umCheckName b")
    case new: True
    obtain d' where d': "umAddUser halloc_fine a b g 0 0 d = Inr (0, d')"
      "users d' = (users d)(a \<mapsto> user_row a (umEncryptString b) g 0 0)" "groups d' = groups d" "limits d' = limits d"
      using umAddUser_new [OF wf _ _ _ g, of a b halloc_fine 0 0] new by auto
    then show ?thesis
      using True new um_reach.step [OF r um_step.add_user [OF d'(1)]]
      by (auto simp: add_account_def account_map_def account_def ab)
  next
    case old: False
    then have "\<exists>r. umAddUser halloc_fine a b g 0 0 d = Inr (r, d)" using umAddUser_checks [OF wf] g by metis
    then show ?thesis using True old r by (auto simp: add_account_def account_map_def account_def ab)
  qed
qed

lemma initWebs_um_ok:
  "\<exists>s. initWebs_um halloc_fine admu admp superu superp um_closed = Inr s \<and> um_reach (um_db s)
    \<and> users (um_db s) = account_map admu admp ''adm'' (account_map superu superp ''sup'' Map.empty)
    \<and> groups (um_db s) = [''adm'' \<mapsto> group_row ''adm'' 7 AM_DIGEST 0 0, ''sup'' \<mapsto> group_row ''sup'' 7 AM_DIGEST 0 0]
    \<and> limits (um_db s) = [''/'' \<mapsto> limit_row ''/'' AM_DIGEST 0 []]"
proof -
  have "case umOpen halloc_fine um_closed of Inl _ \<Rightarrow> False | Inr _ \<Rightarrow> True" by code_simp
  then obtain did s where s: "umOpen halloc_fine um_closed = Inr (did, s)" by (auto split: sum.splits)
  note o = umOpen_wf [OF s]
  have n: "umCheckName ''adm''" "umCheckName ''sup''" by (simp_all add: umCheckName_def gisspace_def uchar_def)
  obtain d1 where d1: "umAddGroup halloc_fine ''adm'' 7 AM_DIGEST 0 0 (um_db s) = Inr (0, d1)" "um_wf d1"
    "groups d1 = [''adm'' \<mapsto> group_row ''adm'' 7 AM_DIGEST 0 0]" "users d1 = Map.empty" "limits d1 = Map.empty"
    using umAddGroup_new [of "um_db s" "''adm''" halloc_fine 7 AM_DIGEST 0 0] o n(1) by auto
  obtain d2 where d2: "umAddGroup halloc_fine ''sup'' 7 AM_DIGEST 0 0 d1 = Inr (0, d2)" "um_wf d2"
    "groups d2 = [''adm'' \<mapsto> group_row ''adm'' 7 AM_DIGEST 0 0, ''sup'' \<mapsto> group_row ''sup'' 7 AM_DIGEST 0 0]"
    "users d2 = Map.empty" "limits d2 = Map.empty"
    using umAddGroup_new [of d1 "''sup''" halloc_fine 7 AM_DIGEST 0 0] d1 n(2) by auto
  obtain d3 where d3: "umAddAccessLimit halloc_fine ''/'' AM_DIGEST 0 None d2 = Inr (0, d3)" "users d3 = Map.empty"
    "groups d3 = groups d2" "limits d3 = [''/'' \<mapsto> limit_row ''/'' AM_DIGEST 0 []]"
    using umAddAccessLimit_new [of d2 "''/''" halloc_fine AM_DIGEST 0 None] d2 by (auto simp: bstrdup_def)
  have r3: "um_reach d3"
    by (rule um_reach.step [OF um_reach.step [OF um_reach.step [OF um_reach.opened [OF s]
          um_step.add_group [OF d1(1)]] um_step.add_group [OF d2(1)]] um_step.add_limit [OF d3(1)]])
  obtain d4 where d4: "add_account halloc_fine superu superp ''sup'' d3 = Inr d4" "um_reach d4"
    "users d4 = account_map superu superp ''sup'' Map.empty" "groups d4 = groups d2" "limits d4 = limits d3"
    using add_account_ok [OF r3, of "''sup''" superu superp] d3(2,3) d2(3) by auto
  obtain d5 where d5: "add_account halloc_fine admu admp ''adm'' d4 = Inr d5" "um_reach d5"
    "users d5 = account_map admu admp ''adm'' (users d4)" "groups d5 = groups d2" "limits d5 = limits d3"
    using add_account_ok [OF d4(2), of "''adm''" admu admp] d4(4,5) d2(3) by auto
  have "initWebs_um halloc_fine admu admp superu superp um_closed = Inr (s\<lparr>um_db := d5\<rparr>)"
    by (simp add: initWebs_um_def s d1(1) d2(1) d3(1) d4(1) d5(1))
  then show ?thesis using d5 d4(3) d3(4) d2(3) by simp
qed

section \<open>Which paths the limit covers\<close>

text \<open>The limit \<open>/\<close> governs a path when it starts with a slash and no slash or backslash follows.\<close>

fun rooted :: "string \<Rightarrow> bool" where
  "rooted (a # b # s) \<longleftrightarrow> a = CHR ''/'' \<and> \<not> is_slash b"
| "rooted s \<longleftrightarrow> s = ''/''"

lemma strip_slash_keep: "\<not> is_slash b \<Longrightarrow> \<exists>s'. strip_while is_slash (a # b # s) = a # b # s'"
proof -
  assume b: "\<not> is_slash b"
  obtain t where t: "a # b # s = strip_while is_slash (a # b # s) @ t" "list_all is_slash t"
    using strip_while_prefix by blast
  show ?thesis
  proof (cases "strip_while is_slash (a # b # s)")
    case Nil
    then show ?thesis using t b by (cases t) auto
  next
    case (Cons x xs)
    then show ?thesis using t b by (cases xs) auto
  qed
qed

lemma rooted_up:
  assumes "rooted p" and "p \<noteq> ''/''"
  shows "rooted (url_up p)"
proof -
  obtain b s where p: "p = CHR ''/'' # b # s" "\<not> is_slash b" using assms by (cases p rule: rooted.cases) auto
  obtain s' where s': "strip_while is_slash p = CHR ''/'' # b # s'" using strip_slash_keep [OF p(2)] p(1) by blast
  let ?u = "url_up p"
  obtain t where t: "CHR ''/'' # b # s' = ?u @ t" "list_all (\<lambda>c. \<not> is_slash c) t"
    unfolding url_up_def s' using strip_while_prefix by blast
  have "is_slash (CHR ''/'')" by (simp add: is_slash_def)
  with t obtain u' where u': "?u = CHR ''/'' # u'" "b # s' = u' @ t" by (cases ?u) auto
  then show ?thesis using p(2) by (cases u') auto
qed

lemma chain_root: "''/'' \<in> set (url_chain p) \<longleftrightarrow> rooted p"
proof
  show "rooted p \<Longrightarrow> ''/'' \<in> set (url_chain p)"
  proof (induction "length p" arbitrary: p rule: less_induct)
    case less
    have n: "p \<noteq> []" using less.prems by auto
    show ?case
    proof (cases "p = ''/''")
      case False
      then show ?thesis
        using less.hyps [OF url_up_shorter [OF n]] rooted_up [OF less.prems False] n by (simp add: url_chain.simps [of p])
    qed (simp add: url_chain.simps)
  qed
  show "''/'' \<in> set (url_chain p) \<Longrightarrow> rooted p"
  proof (induction "length p" arbitrary: p rule: less_induct)
    case less
    then have n: "p \<noteq> []" by auto
    show ?case
    proof (cases "p = ''/''")
      case False
      then have m: "''/'' \<in> set (url_chain (url_up p))" using less.prems n by (simp add: url_chain.simps [of p])
      then have r: "rooted (url_up p)" using less.hyps [OF url_up_shorter [OF n]] by simp
      obtain t where t: "p = strip_while is_slash p @ t" using strip_while_prefix by blast
      obtain t' where t': "strip_while is_slash p = url_up p @ t'" "list_all (\<lambda>c. \<not> is_slash c) t'"
        unfolding url_up_def using strip_while_prefix by blast
      have "url_up p = ''/'' \<Longrightarrow> t' \<noteq> []"
      proof
        assume "url_up p = ''/''" "t' = []"
        then have "strip_while is_slash p = ''/''" using t' by simp
        then show False using strip_while_last [of is_slash p] by (simp add: is_slash_def)
      qed
      then show ?thesis using r t t' by (cases "url_up p" rule: rooted.cases; cases t') auto
    qed simp
  qed
qed

section \<open>Who is let in\<close>

text \<open>The credentials the server accepts: the super user's, and the administrator's unless the super
  user has the same name.\<close>

definition login_ok ::
  "string option \<Rightarrow> string option \<Rightarrow> string option \<Rightarrow> string option \<Rightarrow> string \<Rightarrow> string \<Rightarrow> bool" where
  "login_ok admu admp superu superp u p \<longleftrightarrow> account superu superp = Some (u, p) \<or>
     (account admu admp = Some (u, p) \<and> (\<forall>q. account superu superp \<noteq> Some (u, q)))"

lemma root_governing:
  assumes "limits d = [''/'' \<mapsto> y]"
  shows "governing d p = (if rooted p then Some ''/'' else None)"
proof (cases "rooted p")
  case True
  then obtain x where x: "List.find (\<lambda>u. limits d u \<noteq> None) (url_chain p) = Some x"
    using chain_root [of p] assms by (cases "List.find (\<lambda>u. limits d u \<noteq> None) (url_chain p)") (auto simp: find_None_iff)
  then have "limits d x \<noteq> None" by (auto simp: find_Some_iff)
  then show ?thesis using x True assms by (simp add: governing_def split: if_splits)
next
  case False
  then show ?thesis using chain_root [of p] assms by (auto simp: governing_def find_None_iff)
qed

lemma account_map_cases:
  "account_map admu admp ''adm'' (account_map superu superp ''sup'' Map.empty) u = Some x \<longleftrightarrow>
   (\<exists>p. account superu superp = Some (u, p) \<and> x = user_row u (umEncryptString p) ''sup'' 0 0) \<or>
   (\<exists>p. account admu admp = Some (u, p) \<and> (\<forall>q. account superu superp \<noteq> Some (u, q))
      \<and> x = user_row u (umEncryptString p) ''adm'' 0 0)"
  by (cases "account superu superp"; cases "account admu admp") (auto simp: account_map_def split: if_splits)

lemma row_parts: "user_row u p g a b ! Suc 0 = CStr p" "user_row u p g a b ! 2 = CStr g" "user_row u p g a b ! 4 = CInt b"
  by (simp_all add: user_row_def numeral_eq_Suc)

lemma account_good: "account u p = Some (a, b) \<Longrightarrow> a \<noteq> [] \<and> b \<noteq> [] \<and> umCheckName b \<and> p = Some b"
  by (auto simp: account_def given_def split: if_splits)

lemma initWebs_admits:
  assumes s: "initWebs_um halloc_fine admu admp superu superp um_closed = Inr s" and c: "str_ok admp" "str_ok superp"
    and w: "\<not> bypassed w" "w_flags w AND WEBS_LOCAL_REQUEST = 0" and p: "rooted p"
  shows "admitted (um_db s) w p \<longleftrightarrow>
    (\<exists>u q. w_userName w = Some u \<and> w_password w = Some q \<and> login_ok admu admp superu superp u q)"
proof -
  let ?d = "um_db s"
  have f: "users ?d = account_map admu admp ''adm'' (account_map superu superp ''sup'' Map.empty)"
    "groups ?d = [''adm'' \<mapsto> group_row ''adm'' 7 AM_DIGEST 0 0, ''sup'' \<mapsto> group_row ''sup'' 7 AM_DIGEST 0 0]"
    "limits ?d = [''/'' \<mapsto> limit_row ''/'' AM_DIGEST 0 []]"
    using initWebs_um_ok [of admu admp superu superp] s by auto
  have g: "governing ?d p = Some ''/''" using root_governing [OF f(3)] p by simp
  have am: "access_method ?d ''/'' = AM_DIGEST"
    by (simp add: access_method_def f(3) str_of_def int_of_def limit_row_def numeral_eq_Suc)
  have gg: "group_grants ?d ''adm''" "group_grants ?d ''sup''"
    by (auto simp: group_grants_def f(2) group_row_def numeral_eq_Suc to_short_def um_codes)
  have la: "limit_admits (limit_row ''/'' AM_DIGEST 0 []) x" for x
    by (simp add: limit_admits_def limit_row_def numeral_eq_Suc um_codes)
  have enc: "umEncryptString (umEncryptString b) = b" if "account u' p' = Some (a, b)" "str_ok p'" for u' p' a b
    using account_good [OF that(1)] that(2) umEncryptString_clean by (auto simp: str_ok_def)
  have ua: "user_admitted ?d ''/'' u q \<longleftrightarrow> login_ok admu admp superu superp u q" for u q
  proof
    assume "user_admitted ?d ''/'' u q"
    then obtain x where x: "users ?d u = Some x" "q = umEncryptString (bstrdup (txt_of (x ! 1)))"
      by (auto simp: user_admitted_def)
    from x(1) [unfolded f(1) account_map_cases] x(2) enc c show "login_ok admu admp superu superp u q"
      by (auto simp: login_ok_def row_parts bstrdup_def)
  next
    assume l: "login_ok admu admp superu superp u q"
    then obtain x where x: "users ?d u = Some x" "x = user_row u (umEncryptString q) ''sup'' 0 0 \<or> x = user_row u (umEncryptString q) ''adm'' 0 0"
      unfolding f(1) account_map_cases login_ok_def by blast
    have q: "q \<noteq> []" "umEncryptString (umEncryptString q) = q" using l account_good enc c by (auto simp: login_ok_def)
    show "user_admitted ?d ''/'' u q"
      using x gg la q by (auto simp: user_admitted_def f(3) row_parts bstrdup_def)
  qed
  have ne: "\<not> login_ok admu admp superu superp [] q" for q by (auto simp: login_ok_def dest: account_good)
  show ?thesis using w ne by (cases "w_userName w") (auto simp: admitted_def g am ua um_codes)
qed

text \<open>Who may use the router.  After \<open>initWebs\<close> has read the two accounts from the configuration, a
  request for a path that starts with a single slash, that contains none of the open paths and does
  not come from the router itself, passes the access control exactly when it carries the name and the
  password of one of the accounts.  An account is usable when its name and password are given and
  free of white space; when both accounts have the same name only the super user's password counts.
  In particular, with no usable account nobody is let in.\<close>

theorem initWebs_login:
  assumes "str_ok admp" and "str_ok superp"
  shows "\<exists>s. initWebs_um halloc_fine admu admp superu superp um_closed = Inr s \<and> um_reach (um_db s)
    \<and> (\<forall>w p. rooted p \<and> \<not> bypassed w \<and> w_flags w AND WEBS_LOCAL_REQUEST = 0 \<longrightarrow>
         (admitted (um_db s) w p \<longleftrightarrow>
          (\<exists>u q. w_userName w = Some u \<and> w_password w = Some q \<and> login_ok admu admp superu superp u q)))"
proof -
  obtain s where s: "initWebs_um halloc_fine admu admp superu superp um_closed = Inr s" "um_reach (um_db s)"
    using initWebs_um_ok by blast
  then show ?thesis using initWebs_admits [OF s(1) assms] by blast
qed

theorem initWebs_login_witness:
  "\<exists>s. initWebs_um halloc_fine (Some ''admin'') (Some ''secret'') None None um_closed = Inr s
    \<and> \<not> admitted (um_db s) demo_webs ''/adm/x.asp''
    \<and> admitted (um_db s) (demo_webs\<lparr>w_userName := Some ''admin'', w_password := Some ''secret''\<rparr>) ''/adm/x.asp''
    \<and> \<not> admitted (um_db s) (demo_webs\<lparr>w_userName := Some ''admin'', w_password := Some ''Secret''\<rparr>) ''/adm/x.asp''"
proof -
  obtain s where s: "initWebs_um halloc_fine (Some ''admin'') (Some ''secret'') None None um_closed = Inr s"
    "\<forall>w p. rooted p \<and> \<not> bypassed w \<and> w_flags w AND WEBS_LOCAL_REQUEST = 0 \<longrightarrow>
         (admitted (um_db s) w p \<longleftrightarrow> (\<exists>u q. w_userName w = Some u \<and> w_password w = Some q
            \<and> login_ok (Some ''admin'') (Some ''secret'') None None u q))"
    using initWebs_login [of "Some ''secret''" None "Some ''admin''" None] by (auto simp: str_ok_def is_cstr_def)
  have l: "login_ok (Some ''admin'') (Some ''secret'') None None u q \<longleftrightarrow> u = ''admin'' \<and> q = ''secret''" for u q
    by (auto simp: login_ok_def account_def given_def umCheckName_def gisspace_def uchar_def)
  have b: "\<not> bypassed demo_webs" "\<not> bypassed (demo_webs\<lparr>w_userName := a, w_password := c\<rparr>)" for a c
    by (auto simp: bypassed_def demo_webs_def open_paths_def)
  have r: "rooted ''/adm/x.asp''" by (simp add: is_slash_def uchar_def)
  show ?thesis using s b r by (intro exI [of _ s]) (simp add: l demo_webs_def)
qed

end
