(* ===== verification/Request.thy ===== *)
theory Request
  imports Handler_Laws Base64 Url_Parse
begin

unbundle bit_operations_syntax

text \<open>
  Reading a request, \<open>user/goahead/src_tongyong/webs.c\<close>: \<open>websParseFirst\<close> (the request line),
  \<open>websParseRequest\<close> (the header fields), \<open>websGetInput\<close> and the state machine of \<open>websReadEvent\<close>;
  \<open>websUrlType\<close> of \<open>url.c\<close>.  The header lines are collected in the ring queue \<open>w_header\<close> and parsed in
  place: \<open>strtok\<close> cuts that buffer with NULs and a key is put in lower case there, so the loop works on
  the bytes of the buffer and sees what it has written.
\<close>

definition WEBS_COOKIE :: u32 where "WEBS_COOKIE = 0x8"
definition WEBS_POST_REQUEST :: u32 where "WEBS_POST_REQUEST = 0x20"
definition WEBS_ASP :: u32 where "WEBS_ASP = 0x100"
definition WEBS_CLEN :: u32 where "WEBS_CLEN = 0x400"
definition WEBS_POST_DATA :: u32 where "WEBS_POST_DATA = 0x2000"
definition WEBS_CGI_REQUEST :: u32 where "WEBS_CGI_REQUEST = 0x4000"
definition WEBS_AUTH_BASIC :: u32 where "WEBS_AUTH_BASIC = 0x10000"
definition WEBS_CGI_UPLOAD :: u32 where "WEBS_CGI_UPLOAD = 0x80000"
definition WEBS_CGI_FIRMWARE_UPLOAD :: u32 where "WEBS_CGI_FIRMWARE_UPLOAD = 0x100000"
definition WEBS_HEADER :: nat where "WEBS_HEADER = 0x2"
definition WEBS_POST :: nat where "WEBS_POST = 0x4"
definition WEBS_POST_CLEN :: nat where "WEBS_POST_CLEN = 0x8"
definition WEBS_SOCKET_BUFSIZ :: nat where "WEBS_SOCKET_BUFSIZ = 256"
definition CGI_BIN :: string where "CGI_BIN = ''cgi-bin''"
definition CGI_UPLOAD :: string where "CGI_UPLOAD = ''upload''"
definition CGI_FIRMWARE_UPLOAD :: string where "CGI_FIRMWARE_UPLOAD = ''upload.cgi''"

section \<open>The type of a document\<close>

text \<open>\<open>websUrlType\<close> into a buffer of \<open>charCnt\<close> characters; \<open>strncpy\<close> does not end a type that fills it.\<close>

definition websUrlType :: "env \<Rightarrow> string \<Rightarrow> nat \<Rightarrow> server \<Rightarrow> string res" where
  "websUrlType e url charCnt s =
     (if url = [] then Inr ''text/plain''
      else res_bind (websUrlParse (e_mem e (block_len (length url))) (websPort s) url True) (\<lambda>(rc, parts).
        case parts of
          None \<Rightarrow> Inr ''text/plain''
        | Some p \<Rightarrow>
            res_bind (deref (u_buf p) (u_ext p)) (\<lambda>ext.
            res_bind (symLookup (websMime s) (Some (strlower ext)) (tabs s)) (\<lambda>sp.
              case sp of
                None \<Rightarrow> Inr ''text/plain''
              | Some y \<Rightarrow>
                  res_bind (value_string (s_content y)) (\<lambda>t.
                    if charCnt \<le> length t then Inl OutOfBounds else Inr t)))))"

section \<open>The request line\<close>

text \<open>One call of \<open>strtok\<close> on the text that is left: the token and the new rest.\<close>

definition strtok1 :: "string \<Rightarrow> string \<Rightarrow> string option \<times> string" where
  "strtok1 delims s =
     (let t = dropWhile (\<lambda>c. c \<in> set delims) s; tok = takeWhile (\<lambda>c. c \<notin> set delims) t in
      if t = [] then (None, []) else (Some tok, drop (length tok + 1) t))"

abbreviation TAB :: byte where "TAB \<equiv> CHR 0x09"

definition set_flags :: "u32 \<Rightarrow> server \<Rightarrow> server" where
  "set_flags f s = upd (\<lambda>w. w\<lparr>w_flags := w_flags w OR f\<rparr>) s"

text \<open>The flags of a CGI request, and the name of the file its input goes to.\<close>

definition cgi_flags :: "env \<Rightarrow> string \<Rightarrow> server \<Rightarrow> server" where
  "cgi_flags e url s =
     (if \<not> has_sub CGI_BIN url then s
      else
        (let s = set_flags WEBS_CGI_REQUEST s;
             s = (if has_sub CGI_FIRMWARE_UPLOAD url then set_flags WEBS_CGI_FIRMWARE_UPLOAD s else s);
             s = upd (\<lambda>w. if w_flags w AND WEBS_POST_REQUEST \<noteq> 0 then w\<lparr>w_cgiStdin := Some (e_cgiName e)\<rparr> else w) s
         in if has_sub CGI_UPLOAD url then set_flags WEBS_CGI_UPLOAD s else s))"

text \<open>From the URL on, with the rest of the line.\<close>

definition parse_url :: "env \<Rightarrow> string \<Rightarrow> server \<Rightarrow> (int \<times> server) res" where
  "parse_url e rest s =
     (case strtok1 ('' '' @ [TAB, LF]) rest of
        (None, rest) \<Rightarrow> res_bind (websError e 400 ''Bad HTTP request'' [] s) (\<lambda>s. Inr (- 1, s))
      | (Some url, rest) \<Rightarrow>
          (let protoVer = fst (strtok1 ('' '' @ [TAB, LF]) rest) in
           res_bind (websUrlParse (e_mem e (block_len (length url))) (websPort s) url True) (\<lambda>(rc, parts).
           case parts of
             None \<Rightarrow> res_bind (websError e 400 ''Bad URL format'' [] s) (\<lambda>s. Inr (- 1, s))
           | Some p \<Rightarrow>
               res_bind (deref (u_buf p) (u_query p)) (\<lambda>query.
               res_bind (deref (u_buf p) (u_host p)) (\<lambda>host.
               res_bind (deref (u_buf p) (u_path p)) (\<lambda>path.
               res_bind (deref (u_buf p) (u_proto p)) (\<lambda>proto.
               res_bind (deref (u_buf p) (u_port p)) (\<lambda>port.
               res_bind (deref (u_buf p) (u_ext p)) (\<lambda>ext.
               (let s = cgi_flags e url (upd (\<lambda>w. w\<lparr>w_url := Some url\<rparr>) s);
                    s = upd (\<lambda>w. w\<lparr>w_query := Some query, w_host := Some host, w_path := Some path,
                                   w_protocol := Some proto, w_protoVersion := Some (bstrdup protoVer),
                                   w_port := (if 0 \<le> e_port e then e_port e else gatoi port)\<rparr>) s;
                    s = (if ext = ''.asp'' then set_flags WEBS_ASP s else s)
                in res_bind (websUrlType e url 64 s) (\<lambda>ty.
                   res_bind (cur s) (\<lambda>w.
                   res_bind (ringqFlush (w_header w)) (\<lambda>h.
                     Inr (0, upd (\<lambda>w. w\<lparr>w_type := ty, w_header := h\<rparr>) s))))))))))))))"

definition websParseFirst :: "env \<Rightarrow> string \<Rightarrow> server \<Rightarrow> (int \<times> server) res" where
  "websParseFirst e text s =
     (case strtok1 ('' '' @ [TAB]) text of
        (None, rest) \<Rightarrow> res_bind (websError e 400 ''Bad HTTP request'' [] s) (\<lambda>s. Inr (- 1, s))
      | (Some op, rest) \<Rightarrow>
          if op \<noteq> ''GET'' \<and> op \<noteq> ''POST'' \<and> op \<noteq> ''HEAD''
          then res_bind (websError e 400 ''Bad request type'' [] s) (\<lambda>s. Inr (- 1, s))
          else
            (let s = (if op = ''POST'' then set_flags WEBS_POST_REQUEST s
                      else if op = ''HEAD'' then set_flags WEBS_HEAD_REQUEST s else s) in
             res_bind (websSetVar e ''REQUEST_METHOD'' (Some op) s) (parse_url e rest)))"

section \<open>Header fields\<close>

text \<open>\<open>skip_at P buf i\<close>: the first place from \<open>i\<close> on that holds a NUL or a character outside \<open>P\<close>.\<close>

fun skip_list :: "(byte \<Rightarrow> bool) \<Rightarrow> byte list \<Rightarrow> nat res" where
  "skip_list P [] = Inl OutOfBounds"
| "skip_list P (c # cs) = (if c = NUL \<or> \<not> P c then Inr 0 else res_bind (skip_list P cs) (\<lambda>n. Inr (Suc n)))"

definition skip_at :: "(byte \<Rightarrow> bool) \<Rightarrow> byte list \<Rightarrow> nat \<Rightarrow> nat res" where
  "skip_at P buf i = res_bind (skip_list P (drop i buf)) (\<lambda>n. Inr (i + n))"

text \<open>\<open>strtok\<close> on a buffer, from \<open>pos\<close>: the token's place, where the next call goes on, and the buffer
  with the token cut off.\<close>

definition strtok_at :: "string \<Rightarrow> byte list \<Rightarrow> nat \<Rightarrow> (nat option \<times> nat \<times> byte list) res" where
  "strtok_at delims buf pos =
     res_bind (skip_at (\<lambda>c. c \<in> set delims) buf pos) (\<lambda>p.
       if buf ! p = NUL then Inr (None, p, buf)
       else res_bind (skip_at (\<lambda>c. c \<notin> set delims) buf p) (\<lambda>q.
         if buf ! q = NUL then Inr (Some p, q, buf) else Inr (Some p, q + 1, buf[q := NUL])))"

definition gisalpha :: "byte \<Rightarrow> bool" where
  "gisalpha c \<longleftrightarrow> (65 \<le> uchar c \<and> uchar c \<le> 90) \<or> (97 \<le> uchar c \<and> uchar c \<le> 122)"

text \<open>The decoded credentials, a C string in \<open>userAuth\<close>; the decoder's result is not looked at.\<close>

definition decode_auth :: "string \<Rightarrow> string res" where
  "decode_auth value = res_bind (websDecode64 value FNAMESIZE) (\<lambda>(rc, bytes). Inr (takeWhile (\<lambda>c. c \<noteq> NUL) bytes))"

definition split_auth :: "string \<Rightarrow> string \<times> string" where
  "split_auth userAuth =
     (if CHR '':'' \<in> set userAuth
      then (takeWhile (\<lambda>c. c \<noteq> CHR '':'') userAuth, tl (dropWhile (\<lambda>c. c \<noteq> CHR '':'') userAuth))
      else ([], []))"

text \<open>The \<open>authorization\<close> field.  The returned number is the place of the first blank in the value, which
  the code overwrites with a NUL.\<close>

definition authorization :: "string \<Rightarrow> server \<Rightarrow> (nat option \<times> server) res" where
  "authorization value s =
     (let authType = takeWhile gisalpha value;
          s = upd (\<lambda>w. w\<lparr>w_authType := Some authType\<rparr>) s
      in if strlower authType \<noteq> ''basic'' then Inr (None, s)
         else
           (let sp = find_index (\<lambda>c. c = CHR '' '') value;
                s = (case sp of None \<Rightarrow> s | Some k \<Rightarrow> upd (\<lambda>w. w\<lparr>w_authType := Some (take k value)\<rparr>) s)
            in res_bind (decode_auth (case sp of None \<Rightarrow> value | Some k \<Rightarrow> drop (k + 1) value)) (\<lambda>userAuth.
                 (let (u, p) = split_auth userAuth in
                  Inr (sp, set_flags WEBS_AUTH_BASIC (upd (\<lambda>w. w\<lparr>w_userName := Some u, w_password := Some p\<rparr>) s))))))"

definition http_name :: "string \<Rightarrow> string res" where
  "http_name key =
     res_bind (fmtAlloc (int (length key) + 6) ''HTTP_%s'' [FStr (Some key)]) (\<lambda>(t, n).
       Inr (strupper (map (\<lambda>c. if c = CHR ''-'' then CHR ''_'' else c) t)))"

text \<open>What one field does to the request; \<open>key\<close> is in lower case.\<close>

definition header_field :: "env \<Rightarrow> string \<Rightarrow> string \<Rightarrow> server \<Rightarrow> (nat option \<times> server) res" where
  "header_field e key value s =
     res_bind (http_name key) (\<lambda>upperKey.
     res_bind (websSetVar e upperKey (Some value) s) (\<lambda>s.
       if key = ''user-agent'' then Inr (None, upd (\<lambda>w. w\<lparr>w_userAgent := Some value\<rparr>) s)
       else if key = ''authorization'' then authorization value s
       else if key = ''content-length'' then
         (let clen = gatoi value in
          if 0 < clen
          then res_bind (websSetVar e ''CONTENT_LENGTH'' (Some value) (set_flags WEBS_CLEN (upd (\<lambda>w. w\<lparr>w_clen := clen\<rparr>) s)))
                 (\<lambda>s. Inr (None, s))
          else Inr (None, upd (\<lambda>w. w\<lparr>w_clen := 0\<rparr>) s))
       else if key = ''content-type'' then res_bind (websSetVar e ''CONTENT_TYPE'' (Some value) s) (\<lambda>s. Inr (None, s))
       else if key = ''cookie'' then Inr (None, upd (\<lambda>w. w\<lparr>w_cookie := Some value\<rparr>) (set_flags WEBS_COOKIE s))
       else Inr (None, s)))"

text \<open>One pass of the loop at the line that starts at \<open>cp\<close>.\<close>

definition header_line :: "env \<Rightarrow> byte list \<Rightarrow> nat \<Rightarrow> server \<Rightarrow> (byte list \<times> server) res" where
  "header_line e buf cp s =
     res_bind (strtok_at ('': '' @ [TAB, LF]) buf cp) (\<lambda>(key, save, buf).
     case key of
       None \<Rightarrow> Inr (buf, s)
     | Some k \<Rightarrow>
         res_bind (strtok_at [LF] buf save) (\<lambda>(val, save, buf).
         res_bind (case val of None \<Rightarrow> Inr None | Some v \<Rightarrow> res_bind (skip_at gisspace buf v) (\<lambda>v. Inr (Some v))) (\<lambda>val.
         res_bind (cstr_at buf k) (\<lambda>key.
         res_bind (put_at buf k (strlower key)) (\<lambda>buf.
         res_bind (case val of None \<Rightarrow> Inr [] | Some v \<Rightarrow> cstr_at buf v) (\<lambda>value.
         res_bind (header_field e (strlower key) value s) (\<lambda>(cut, s).
           case (val, cut) of
             (Some v, Some c) \<Rightarrow> res_bind (put_at buf (v + c) [NUL]) (\<lambda>buf. Inr (buf, s))
           | _ \<Rightarrow> Inr (buf, s))))))))"

lemma put_at_length: "put_at buf i bs = Inr buf' \<Longrightarrow> length buf' = length buf"
  by (auto simp: put_at_def split: if_splits)

lemma strtok_at_length: "strtok_at d buf i = Inr (p, q, buf') \<Longrightarrow> length buf' = length buf"
  by (auto simp: strtok_at_def split: if_splits)

lemma header_line_length: "header_line e buf cp s = Inr (buf', s') \<Longrightarrow> length buf' = length buf"
  unfolding header_line_def
  by (auto split: option.splits prod.splits dest!: put_at_length strtok_at_length)

text \<open>The loop over the lines; \<open>lp\<close> is set to the next line before the current one is cut.\<close>

function header_loop :: "env \<Rightarrow> byte list \<Rightarrow> nat \<Rightarrow> server \<Rightarrow> server res" where
  "header_loop e buf lp s =
     (if length buf \<le> lp then Inl OutOfBounds
      else if buf ! lp = NUL then Inr s
      else res_bind (find_from buf lp LF) (\<lambda>nl.
           case header_line e buf lp s of
             Inl f \<Rightarrow> Inl f
           | Inr (buf', s) \<Rightarrow> (case nl of None \<Rightarrow> Inr s | Some k \<Rightarrow> header_loop e buf' (k + 1) s)))"
  by pat_completeness auto
termination
proof (relation "measure (\<lambda>(e, buf, lp, s). length buf - lp)", goal_cases)
  case (2 e buf lp s nl r buf' s' k)
  then have "length buf' = length buf" by (auto dest: header_line_length)
  moreover have "lp \<le> k" using 2 by (auto simp: find_from_def split: scan.splits)
  ultimately show ?case using 2 by simp
qed simp

declare header_loop.simps [simp del]

definition websParseRequest :: "env \<Rightarrow> server \<Rightarrow> server res" where
  "websParseRequest e s =
     res_bind (websSetVar e ''HTTP_AUTHORIZATION'' (Some []) s) (\<lambda>s.
     res_bind (cur s) (\<lambda>w. header_loop e (rq_buf (w_header w)) (servp (w_header w)) s))"

section \<open>Input of a request\<close>

text \<open>A text from the socket is a C string followed by its NUL; bytes after an embedded NUL are not seen
  through it, but \<open>nbytes\<close> counts them.\<close>

definition text_of :: "byte list \<Rightarrow> string" where
  "text_of bs = takeWhile (\<lambda>c. c \<noteq> NUL) bs"

record input_result =
  i_rc :: int
  i_text :: "byte list option"
  i_bytes :: int

abbreviation no_input :: "int \<Rightarrow> input_result" where
  "no_input rc \<equiv> \<lparr>i_rc = rc, i_text = None, i_bytes = 0\<rparr>"


definition read_body :: "env \<Rightarrow> nat \<Rightarrow> server \<Rightarrow> (input_result \<times> server) res" where
  "read_body e len s =
     res_bind (socketRead (sock s) len) (\<lambda>(nbytes, bs, sp).
       (let s = s\<lparr>sock := sp\<rparr> in
        if nbytes < 0 then res_bind (websDone e 0 s) (\<lambda>s. Inr (no_input (- 1), s))
        else if nbytes = 0 then Inr (no_input (- 1), s)
        else if e_mem e (nat nbytes + 1) = None
        then res_bind (websError e 503 ''Insufficient memory'' [] s) (\<lambda>s. Inr (no_input (- 1), s))
        else Inr (\<lparr>i_rc = 1, i_text = Some bs, i_bytes = nbytes\<rparr>, s)))"

text \<open>The empty line that ends the header.\<close>

definition header_done :: "env \<Rightarrow> form_fn \<Rightarrow> other_fn \<Rightarrow> htab \<Rightarrow> server \<Rightarrow> (input_result \<times> server) res" where
  "header_done e forms others h s =
     res_bind (websParseRequest e s) (\<lambda>s.
     res_bind (cur s) (\<lambda>w.
       if w_flags w AND WEBS_POST_REQUEST \<noteq> 0 then
         (let clen_given = (w_flags w AND WEBS_CLEN \<noteq> 0);
              s = upd (\<lambda>w. w\<lparr>w_state := (if clen_given then WEBS_POST_CLEN else WEBS_POST)\<rparr>) s
          in Inr (no_input (if 0 < (if clen_given then w_clen w else 1) then 0 else 1), s))
       else res_bind (websUrlHandlerRequest e forms others h s) (\<lambda>(r, s). Inr (no_input (- 1), s))))"

definition websGetInput :: "env \<Rightarrow> form_fn \<Rightarrow> other_fn \<Rightarrow> htab \<Rightarrow> server \<Rightarrow> (input_result \<times> server) res" where
  "websGetInput e forms others h s =
     res_bind (cur s) (\<lambda>w.
       (let len = (if w_state w = WEBS_POST_CLEN then min WEBS_SOCKET_BUFSIZ (nat (w_clen w)) else 0) in
        if 0 < len then read_body e len s
        else
          res_bind (socketGets (e_mem e) (sock s)) (\<lambda>(nbytes, text, sp).
            (let s = s\<lparr>sock := sp\<rparr> in
             if nbytes < 0 then
               (if socketEof sp then
                  (if w_state w = WEBS_POST
                   then res_bind (websUrlHandlerRequest e forms others h s) (\<lambda>(r, s). Inr (no_input (- 1), s))
                   else res_bind (websDone e 0 s) (\<lambda>s. Inr (no_input (- 1), s)))
                else Inr (no_input (- 1), s))
             else if nbytes = 0 then
               (if w_state w = WEBS_HEADER then header_done e forms others h s else Inr (no_input (- 1), s))
             else Inr (\<lparr>i_rc = 1, i_text = text, i_bytes = nbytes\<rparr>, s)))))"

section \<open>The state machine\<close>

text \<open>A file written from offset \<open>off\<close>.\<close>

definition file_write :: "byte list \<Rightarrow> nat \<Rightarrow> byte list \<Rightarrow> byte list" where
  "file_write f off bs = take off (f @ replicate (off - length f) NUL) @ bs @ drop (off + length bs) f"

text \<open>\<open>wp->query\<close> with a text added.  \<open>None\<close> for the text is a null pointer.\<close>

definition add_query :: "string option \<Rightarrow> u32 \<Rightarrow> string option \<Rightarrow> string option res" where
  "add_query query flags text =
     (case query of
        None \<Rightarrow> Inr (Some (bstrdup text))
      | Some q \<Rightarrow>
          if q \<noteq> [] \<and> flags AND WEBS_POST_DATA = 0
          then (case text of None \<Rightarrow> Inl OutOfBounds | Some t \<Rightarrow> Inr (Some (q @ CHR ''&'' # t)))
          else Inr (Some (q @ bstrdup text)))"

text \<open>State \<open>WEBS_POST_CLEN\<close>: the flag says that the event is over.\<close>

definition post_clen ::
  "env \<Rightarrow> form_fn \<Rightarrow> other_fn \<Rightarrow> htab \<Rightarrow> input_result \<Rightarrow> server \<Rightarrow> (bool \<times> server) res" where
  "post_clen e forms others h i s =
     res_bind (cur s) (\<lambda>w.
     res_bind (if w_flags w AND WEBS_CGI_REQUEST \<noteq> 0
               then (case i_text i of
                       None \<Rightarrow> if i_bytes i = 0 then Inr s else Inl OutOfBounds
                     | Some bs \<Rightarrow> Inr (upd (\<lambda>w. w\<lparr>w_fwClean := w_fwClean w \<or> w_flags w AND WEBS_CGI_FIRMWARE_UPLOAD \<noteq> 0\<rparr>)
                                     (s\<lparr>cgi_file := cgi_file s @ take (nat (i_bytes i)) bs\<rparr>)))
               else res_bind (add_query (w_query w) (w_flags w) (map_option text_of (i_text i))) (\<lambda>q.
                      Inr (upd (\<lambda>w. w\<lparr>w_query := q\<rparr>) s))) (\<lambda>s.
       (let s = set_flags WEBS_POST_DATA (upd (\<lambda>w. w\<lparr>w_clen := w_clen w - i_bytes i\<rparr>) s);
            clen = w_clen w - i_bytes i
        in if 0 < clen then Inr (i_bytes i \<le> 0, s)
           else res_bind (websUrlHandlerRequest e forms others h s) (\<lambda>(r, s). Inr (True, s)))))"

text \<open>State \<open>WEBS_POST\<close>: one line per event.  The file is opened without \<open>O_APPEND\<close>, so each event writes
  from its start; the query of an earlier line is replaced.\<close>

definition post_line :: "input_result \<Rightarrow> server \<Rightarrow> (bool \<times> server) res" where
  "post_line i s =
     res_bind (cur s) (\<lambda>w.
     res_bind (if w_flags w AND WEBS_CGI_REQUEST \<noteq> 0
               then (case i_text i of
                       None \<Rightarrow> Inl OutOfBounds
                     | Some bs \<Rightarrow> Inr (s\<lparr>cgi_file := file_write (cgi_file s) 0 (text_of bs @ [LF])\<rparr>))
               else if w_query w \<noteq> None \<and> w_query w \<noteq> Some [] \<and> w_flags w AND WEBS_POST_DATA = 0
               then res_bind (add_query (w_query w) (w_flags w) (map_option text_of (i_text i))) (\<lambda>q.
                      Inr (upd (\<lambda>w. w\<lparr>w_query := q\<rparr>) s))
               else Inr (upd (\<lambda>w. w\<lparr>w_query := Some (bstrdup (map_option text_of (i_text i)))\<rparr>) s)) (\<lambda>s.
       Inr (True, set_flags WEBS_POST_DATA s)))"

text \<open>State \<open>WEBS_HEADER\<close>: the lines are collected with line feeds between them.\<close>

definition header_text :: "env \<Rightarrow> input_result \<Rightarrow> server \<Rightarrow> (bool \<times> server) res" where
  "header_text e i s =
     res_bind (cur s) (\<lambda>w.
     res_bind (if 0 < ringqLen (w_header w) then ringqPutStr (e_mem e) (w_header w) [LF] else Inr (0, w_header w)) (\<lambda>(n, h).
     case i_text i of
       None \<Rightarrow> Inl OutOfBounds
     | Some bs \<Rightarrow>
         res_bind (ringqPutStr (e_mem e) h (text_of bs)) (\<lambda>(n, h).
           Inr (False, upd (\<lambda>w. w\<lparr>w_header := h\<rparr>) s))))"

definition event_step ::
  "env \<Rightarrow> form_fn \<Rightarrow> other_fn \<Rightarrow> htab \<Rightarrow> input_result \<Rightarrow> server \<Rightarrow> (bool \<times> server) res" where
  "event_step e forms others h i s =
     res_bind (cur s) (\<lambda>w.
       if w_state w = WEBS_BEGIN then
         (case i_text i of
            None \<Rightarrow> Inl OutOfBounds
          | Some bs \<Rightarrow>
              res_bind (websParseFirst e (text_of bs) s) (\<lambda>(rc, s).
                if rc < 0 then Inr (True, s) else Inr (False, upd (\<lambda>w. w\<lparr>w_state := WEBS_HEADER\<rparr>) s)))
       else if w_state w = WEBS_HEADER then header_text e i s
       else if w_state w = WEBS_POST_CLEN then post_clen e forms others h i s
       else if w_state w = WEBS_POST then post_line i s
       else res_bind (websError e 404 ''Bad state'' [] s) (\<lambda>s. Inr (True, s)))"

text \<open>\<open>while ((rc = websGetInput(wp, &text, &nbytes)) == 0)\<close>: a 0 only comes from the end of a header, after
  which the state is another one, so two calls are always enough.\<close>

definition get_input :: "env \<Rightarrow> form_fn \<Rightarrow> other_fn \<Rightarrow> htab \<Rightarrow> server \<Rightarrow> (input_result \<times> server) res" where
  "get_input e forms others h s =
     res_bind (websGetInput e forms others h s) (\<lambda>(i, s).
       if i_rc i = 0 then res_bind (websGetInput e forms others h s) (\<lambda>(i, s).
         if i_rc i = 0 then Inl Blocked else Inr (i, s))
       else Inr (i, s))"

text \<open>The loop; the fuel bounds the number of texts handled in one event.\<close>

fun read_event :: "env \<Rightarrow> form_fn \<Rightarrow> other_fn \<Rightarrow> htab \<Rightarrow> nat \<Rightarrow> server \<Rightarrow> server res" where
  "read_event e forms others h 0 s = Inl Blocked"
| "read_event e forms others h (Suc k) s =
     res_bind (get_input e forms others h s) (\<lambda>(i, s).
       if i_rc i < 0 then Inr s
       else res_bind (event_step e forms others h i s) (\<lambda>(finished, s).
         if finished then Inr s else read_event e forms others h k s))"

definition websReadEvent :: "env \<Rightarrow> form_fn \<Rightarrow> other_fn \<Rightarrow> htab \<Rightarrow> server \<Rightarrow> server res" where
  "websReadEvent e forms others h s = read_event e forms others h (pending (sock s) + ringqLen (so_line (sock s)) + 2) s"

end
