(* ===== verification/Request_Laws.thy ===== *)
theory Request_Laws
  imports Request
begin

unbundle bit_operations_syntax

text \<open>
  Properties of reading a request: the header parser stays inside its buffer for every header a client
  can send, and on a header of well-formed lines it does what a plain loop over the fields does.
\<close>

section \<open>Moving through a terminated buffer\<close>

lemma skip_list_ok:
  "e < length l \<Longrightarrow> l ! e = NUL \<Longrightarrow> \<exists>p. skip_list P l = Inr p \<and> p \<le> e \<and> (l ! p = NUL \<or> \<not> P (l ! p))"
proof (induction l arbitrary: e)
  case (Cons c l)
  show ?case
  proof (cases "c = NUL \<or> \<not> P c")
    case False
    then obtain d where d: "e = Suc d" using Cons.prems by (cases e) auto
    then obtain p where "skip_list P l = Inr p" "p \<le> d" "l ! p = NUL \<or> \<not> P (l ! p)" using Cons by auto
    then show ?thesis using False d by auto
  qed auto
qed simp

lemma skip_at_ok:
  assumes "i \<le> e" and "e < length buf" and "buf ! e = NUL"
  shows "\<exists>p. skip_at P buf i = Inr p \<and> i \<le> p \<and> p \<le> e \<and> (buf ! p = NUL \<or> \<not> P (buf ! p))"
proof -
  have "e - i < length (drop i buf)" "drop i buf ! (e - i) = NUL" using assms by auto
  from skip_list_ok [OF this, of P] obtain p where "skip_list P (drop i buf) = Inr p" "p \<le> e - i" "drop i buf ! p = NUL \<or> \<not> P (drop i buf ! p)" by blast
  then show ?thesis using assms by (intro exI [of _ "i + p"]) (auto simp: skip_at_def)
qed

lemma strtok_at_ok:
  assumes "i \<le> e" and "e < length buf" and "buf ! e = NUL"
  shows "\<exists>r q buf'. strtok_at d buf i = Inr (r, q, buf') \<and> length buf' = length buf \<and> buf' ! e = NUL \<and> q \<le> e
    \<and> (\<forall>p. r = Some p \<longrightarrow> i \<le> p \<and> p \<le> q \<and> p < e)"
proof -
  obtain p where p: "skip_at (\<lambda>c. c \<in> set d) buf i = Inr p" "i \<le> p" "p \<le> e" using skip_at_ok [OF assms] by blast
  show ?thesis
  proof (cases "buf ! p = NUL")
    case True
    then show ?thesis using p assms by (simp add: strtok_at_def)
  next
    case False
    then have "p < e" using p assms by (cases "p = e") auto
    obtain q where q: "skip_at (\<lambda>c. c \<notin> set d) buf p = Inr q" "p \<le> q" "q \<le> e"
      using skip_at_ok [OF p(3) assms(2,3)] by blast
    show ?thesis
    proof (cases "buf ! q = NUL")
      case True
      then show ?thesis using p q \<open>p < e\<close> False assms by (simp add: strtok_at_def)
    next
      case ne: False
      then have "q < e" using q assms by (cases "q = e") auto
      then show ?thesis using p q \<open>p < e\<close> False ne assms by (auto simp: strtok_at_def)
    qed
  qed
qed

lemma strchr_before:
  "e < length l \<Longrightarrow> l ! e = NUL \<Longrightarrow> (\<exists>k. strchr l c = Found k \<and> k \<le> e \<and> is_cstr (take k l)) \<or> strchr l c = NotFound"
proof (induction l arbitrary: e)
  case (Cons x l)
  then show ?case by (cases e) (fastforce split: if_splits)+
qed simp

lemma cstr_at_ok:
  assumes "i \<le> e" and "e < length buf" and "buf ! e = NUL"
  shows "\<exists>s. cstr_at buf i = Inr s \<and> is_cstr s \<and> i + length s \<le> e"
proof -
  have "e - i < length (drop i buf)" "drop i buf ! (e - i) = NUL" using assms by auto
  from strchr_before [OF this, of NUL] obtain k where "strchr (drop i buf) NUL = Found k" "k \<le> e - i" "is_cstr (take k (drop i buf))" by auto
  then show ?thesis using assms by (auto simp: cstr_at_def)
qed

lemma find_from_ok:
  assumes "i \<le> e" and "e < length buf" and "buf ! e = NUL" and "c \<noteq> NUL"
  shows "\<exists>r. find_from buf i c = Inr r \<and> (\<forall>k. r = Some k \<longrightarrow> i \<le> k \<and> k < e)"
proof -
  have d: "e - i < length (drop i buf)" "drop i buf ! (e - i) = NUL" using assms by auto
  from strchr_before [OF d, of c] show ?thesis
  proof
    assume "strchr (drop i buf) c = NotFound"
    then show ?thesis by (simp add: find_from_def)
  next
    assume "\<exists>k. strchr (drop i buf) c = Found k \<and> k \<le> e - i \<and> is_cstr (take k (drop i buf))"
    then obtain k where k: "strchr (drop i buf) c = Found k" "k \<le> e - i" by blast
    have "drop i buf ! k = c" using strchr_FoundD [OF k(1)] by simp
    then have "k \<noteq> e - i" using d(2) assms(4) by auto
    then show ?thesis using k assms by (auto simp: find_from_def)
  qed
qed

section \<open>What a header field may change\<close>

definition keeps_request :: "webs \<Rightarrow> webs \<Rightarrow> bool" where
  "keeps_request w w' \<longleftrightarrow> w_cgiVars w' = w_cgiVars w \<and> w_path w' = w_path w \<and> w_url w' = w_url w \<and> w_query w' = w_query w
     \<and> w_dir w' = w_dir w \<and> w_protoVersion w' = w_protoVersion w \<and> w_ipaddr w' = w_ipaddr w \<and> w_ifaddr w' = w_ifaddr w
     \<and> w_state w' = w_state w \<and> w_header w' = w_header w \<and> w_type w' = w_type w
     \<and> w_flags w' AND WEBS_LOCAL_REQUEST = w_flags w AND WEBS_LOCAL_REQUEST
     \<and> w_flags w' AND WEBS_HEADER_DONE = w_flags w AND WEBS_HEADER_DONE
     \<and> w_flags w' AND WEBS_POST_REQUEST = w_flags w AND WEBS_POST_REQUEST"

definition header_frame :: "server \<Rightarrow> server \<Rightarrow> bool" where
  "header_frame s s' \<longleftrightarrow> server_ok s' \<and> (\<exists>w w'. wp s = Some w \<and> wp s' = Some w' \<and> keeps_request w w')
     \<and> formSymtab s' = formSymtab s \<and> syms (tabs s') (formSymtab s) = syms (tabs s) (formSymtab s)
     \<and> umdb s' = umdb s \<and> out s' = out s \<and> sock s' = sock s \<and> st_formHits s' = st_formHits s
     \<and> websDefaultDir s' = websDefaultDir s \<and> cgi_file s' = cgi_file s \<and> websPort s' = websPort s \<and> websMime s' = websMime s"

lemma header_frame_trans: "header_frame s s' \<Longrightarrow> header_frame s' s'' \<Longrightarrow> header_frame s s''"
  unfolding header_frame_def keeps_request_def by (elim conjE exE) simp

lemma header_frame_refl: "server_ok s \<Longrightarrow> wp s = Some w \<Longrightarrow> header_frame s s"
  by (simp add: header_frame_def keeps_request_def)

lemma header_frame_set:
  assumes ok: "server_ok s" and w: "wp s = Some w" and v: "is_cstr v"
  shows "\<exists>s'. websSetVar e var (Some v) s = Inr s' \<and> header_frame s s'"
proof -
  obtain t where t: "websSetVar e var (Some v) s = Inr (s\<lparr>tabs := t\<rparr>)" "server_ok (s\<lparr>tabs := t\<rparr>)"
    "\<forall>k. 0 \<le> k \<and> k \<noteq> w_cgiVars w \<longrightarrow> syms t k = syms (tabs s) k"
    using websSetVar_ok [OF ok w, of "Some v" e var] v by auto
  have "0 \<le> formSymtab s" "formSymtab s \<noteq> w_cgiVars w" using ok w by (auto simp: server_ok_def request_ok_def live_def)
  then show ?thesis using t w by (auto simp: header_frame_def keeps_request_def)
qed

text \<open>Updates of the fields a header may set.\<close>

lemma header_frame_upd:
  assumes "server_ok s" and "wp s = Some w" and "\<And>w. keeps_request w (f w)"
  shows "header_frame s (upd f s)"
proof -
  have "server_ok (upd f s)"
    using assms(1) by (rule upd_ok) (use assms(3) in \<open>auto simp: keeps_request_def webs_strs_def\<close>)
  then show ?thesis using assms(2,3) by (simp add: header_frame_def) (simp add: upd_def)
qed

lemma or_and_disjoint: "f AND g = 0 \<Longrightarrow> (x OR f) AND g = x AND (g :: u32)"
  by (simp add: bit.conj_disj_distrib2)

lemmas request_flags =
  WEBS_COOKIE_def WEBS_POST_REQUEST_def WEBS_ASP_def WEBS_CLEN_def WEBS_POST_DATA_def WEBS_CGI_REQUEST_def
  WEBS_AUTH_BASIC_def WEBS_CGI_UPLOAD_def WEBS_CGI_FIRMWARE_UPLOAD_def WEBS_LOCAL_REQUEST_def WEBS_HEADER_DONE_def
  WEBS_HEAD_REQUEST_def

lemma header_frame_flags:
  assumes "server_ok s" and "wp s = Some w" and "f \<in> {WEBS_COOKIE, WEBS_CLEN, WEBS_AUTH_BASIC}"
  shows "header_frame s (set_flags f s)"
proof -
  have "f AND WEBS_LOCAL_REQUEST = 0" "f AND WEBS_HEADER_DONE = 0" "f AND WEBS_POST_REQUEST = 0"
    using assms(3) by (auto simp: request_flags)
  then show ?thesis
    unfolding set_flags_def by (intro header_frame_upd [OF assms(1,2)]) (simp add: keeps_request_def or_and_disjoint)
qed

section \<open>One field\<close>

lemma gtolower_NUL [simp]: "gtolower c = NUL \<longleftrightarrow> c = NUL"
proof -
  have "uchar (gtolower c) = uchar NUL \<longleftrightarrow> uchar c = uchar NUL" using uchar_gtolower [of c] by (simp add: uchar_def [of NUL])
  then show ?thesis by (simp only: uchar_inject)
qed

lemma strlower_simps [simp]: "is_cstr (strlower s) \<longleftrightarrow> is_cstr s" "length (strlower s) = length s"
  by (induction s) (simp_all add: strlower_def)

lemma dec64_answers: "length too_big < outlen \<Longrightarrow> \<exists>r. dec64 outlen op cp = Inr r"
  by (induction outlen op cp rule: dec64.induct) (auto simp: Let_def split: option.splits)

lemma decode_auth_answers: "\<exists>t. decode_auth v = Inr t \<and> is_cstr t"
proof -
  have "length too_big < FNAMESIZE" by (simp add: too_big_def FNAMESIZE_def)
  from dec64_answers [OF this, of "[]" v] obtain rc bs where "websDecode64 v FNAMESIZE = Inr (rc, bs)"
    by (auto simp: websDecode64_def FNAMESIZE_def)
  then show ?thesis by (simp add: decode_auth_def is_cstr_def) (metis (mono_tags, lifting) set_takeWhileD)
qed

lemma keeps_credentials [simp]:
  "keeps_request w (w\<lparr>w_authType := a\<rparr>)" "keeps_request w (w\<lparr>w_userName := a, w_password := b\<rparr>)"
  "keeps_request w (w\<lparr>w_userAgent := a\<rparr>)" "keeps_request w (w\<lparr>w_clen := n\<rparr>)" "keeps_request w (w\<lparr>w_cookie := a\<rparr>)"
  by (simp_all add: keeps_request_def)

lemma header_frameD: "header_frame s s' \<Longrightarrow> server_ok s' \<and> (\<exists>w. wp s' = Some w)"
  by (auto simp: header_frame_def)

lemma authorization_ok:
  assumes "server_ok s" and "wp s = Some w"
  shows "\<exists>cut s'. authorization v s = Inr (cut, s') \<and> header_frame s s' \<and> (\<forall>k. cut = Some k \<longrightarrow> k < length v)"
proof -
  let ?a = "upd (\<lambda>w. w\<lparr>w_authType := Some (takeWhile gisalpha v)\<rparr>) s"
  let ?sp = "find_index (\<lambda>c. c = CHR '' '') v"
  let ?b = "case ?sp of None \<Rightarrow> ?a | Some k \<Rightarrow> upd (\<lambda>w. w\<lparr>w_authType := Some (take k v)\<rparr>) ?a"
  have a: "header_frame s ?a" using assms by (rule header_frame_upd) simp
  then obtain wa where wa: "server_ok ?a" "wp ?a = Some wa" using header_frameD by blast
  have "header_frame ?a ?b"
    by (cases ?sp) (use wa in \<open>auto intro: header_frame_refl header_frame_upd\<close>)
  then have b: "header_frame s ?b" using a header_frame_trans by blast
  then obtain wb where wb: "server_ok ?b" "wp ?b = Some wb" using header_frameD by blast
  obtain t where t: "decode_auth (case ?sp of None \<Rightarrow> v | Some k \<Rightarrow> drop (k + 1) v) = Inr t" using decode_auth_answers by blast
  obtain u p where up: "split_auth t = (u, p)" by (cases "split_auth t")
  let ?c = "upd (\<lambda>w. w\<lparr>w_userName := Some u, w_password := Some p\<rparr>) ?b"
  have c: "header_frame s ?c" using header_frame_trans [OF b] header_frame_upd [OF wb] by simp
  then obtain wc where wc: "server_ok ?c" "wp ?c = Some wc" using header_frameD by blast
  have d: "header_frame s (set_flags WEBS_AUTH_BASIC ?c)"
    using header_frame_trans [OF c] header_frame_flags [OF wc] by simp
  have k: "k < length v" if "?sp = Some k" for k using that by (simp add: find_index_Some)
  show ?thesis
  proof (cases "strlower (takeWhile gisalpha v) = ''basic''")
    case True
    then have "authorization v s = Inr (?sp, set_flags WEBS_AUTH_BASIC ?c)"
      unfolding authorization_def Let_def t by (simp add: up)
    then show ?thesis using d k by blast
  qed (use a in \<open>simp add: authorization_def Let_def\<close>)
qed

lemma http_name_answers: "is_cstr key \<Longrightarrow> \<exists>t. http_name key = Inr t"
proof -
  assume k: "is_cstr key"
  have "render ''HTTP_%s'' [FStr (Some key)] = Some (''HTTP_'' @ key)" by simp
  from fmt_text [OF this, of "int (length key) + 6"] k show ?thesis by (simp add: http_name_def args_ok_def)
qed

lemma five_cases:
  "(x = a \<Longrightarrow> P) \<Longrightarrow> (x = b \<Longrightarrow> P) \<Longrightarrow> (x = c \<Longrightarrow> P) \<Longrightarrow> (x = d \<Longrightarrow> P) \<Longrightarrow> (x = f \<Longrightarrow> P)
   \<Longrightarrow> (x \<notin> {a, b, c, d, f} \<Longrightarrow> P) \<Longrightarrow> P"
  by blast

lemma header_field_ok:
  assumes ok: "server_ok s" and w: "wp s = Some w" and key: "is_cstr key" and v: "is_cstr v"
  shows "\<exists>cut s'. header_field e key v s = Inr (cut, s') \<and> header_frame s s' \<and> (\<forall>k. cut = Some k \<longrightarrow> k < length v)"
proof -
  obtain t where t: "http_name key = Inr t" using http_name_answers [OF key] by blast
  obtain s1 where s1: "websSetVar e t (Some v) s = Inr s1" "header_frame s s1" using header_frame_set [OF ok w v] by blast
  obtain w1 where w1: "server_ok s1" "wp s1 = Some w1" using header_frameD [OF s1(2)] by blast
  note go = header_frame_trans [OF s1(2)]
  let ?r = "header_field e key v s"
  have upd: "header_frame s (upd f s1)" if "\<And>w. keeps_request w (f w)" for f
    using header_frame_upd [OF w1 that] go by blast
  have set: "\<exists>s'. websSetVar e x (Some v) s2 = Inr s' \<and> header_frame s s'" if s2: "header_frame s s2" for x s2
  proof -
    obtain w2 where "server_ok s2" "wp s2 = Some w2" using header_frameD [OF s2] by blast
    then show ?thesis using header_frame_set [OF _ _ v, of s2 w2 e x] header_frame_trans [OF s2] by blast
  qed
  have flags: "header_frame s (set_flags f s2)" if s2: "header_frame s s2" and f: "f \<in> {WEBS_COOKIE, WEBS_CLEN, WEBS_AUTH_BASIC}" for f s2
  proof -
    obtain w2 where "server_ok s2" "wp s2 = Some w2" using header_frameD [OF s2] by blast
    then show ?thesis using header_frame_flags [OF _ _ f, of s2 w2] header_frame_trans [OF s2] by blast
  qed
  consider "key = ''user-agent''" | "key = ''authorization''" | "key = ''content-length''" | "key = ''content-type''"
    | "key = ''cookie''" | "key \<notin> {''user-agent'', ''authorization'', ''content-length'', ''content-type'', ''cookie''}"
    by (rule five_cases)
  then show ?thesis
  proof cases
    case 1
    then have "?r = Inr (None, upd (\<lambda>w. w\<lparr>w_userAgent := Some v\<rparr>) s1)" using t s1 by (simp add: header_field_def)
    then show ?thesis using upd [of "\<lambda>w. w\<lparr>w_userAgent := Some v\<rparr>"] by simp
  next
    case 2
    then have "?r = authorization v s1" using t s1 by (simp add: header_field_def)
    then show ?thesis using authorization_ok [OF w1, of v] go by auto
  next
    case 3
    let ?s2 = "set_flags WEBS_CLEN (upd (\<lambda>w. w\<lparr>w_clen := gatoi v\<rparr>) s1)"
    have "header_frame s ?s2" by (intro flags upd) simp_all
    then obtain s3 where "websSetVar e ''CONTENT_LENGTH'' (Some v) ?s2 = Inr s3" "header_frame s s3" using set by blast
    then have "?r = (if 0 < gatoi v then Inr (None, s3) else Inr (None, upd (\<lambda>w. w\<lparr>w_clen := 0\<rparr>) s1))"
      using 3 t s1 by (simp add: header_field_def Let_def)
    then show ?thesis using \<open>header_frame s s3\<close> upd [of "\<lambda>w. w\<lparr>w_clen := 0\<rparr>"] by simp
  next
    case 4
    obtain s3 where "websSetVar e ''CONTENT_TYPE'' (Some v) s1 = Inr s3" "header_frame s s3" using set [OF s1(2)] by blast
    moreover have "?r = res_bind (websSetVar e ''CONTENT_TYPE'' (Some v) s1) (\<lambda>s. Inr (None, s))"
      using 4 t s1 by (simp add: header_field_def)
    ultimately show ?thesis by simp
  next
    case 5
    let ?s2 = "set_flags WEBS_COOKIE s1"
    have f: "header_frame s ?s2" by (rule flags [OF s1(2)]) simp
    then obtain w2 where "server_ok ?s2" "wp ?s2 = Some w2" using header_frameD by blast
    from header_frame_trans [OF f header_frame_upd [OF this, of "\<lambda>w. w\<lparr>w_cookie := Some v\<rparr>"]]
    have "header_frame s (upd (\<lambda>w. w\<lparr>w_cookie := Some v\<rparr>) ?s2)" by simp
    moreover have "?r = Inr (None, upd (\<lambda>w. w\<lparr>w_cookie := Some v\<rparr>) ?s2)" using 5 t s1 by (simp add: header_field_def)
    ultimately show ?thesis by simp
  next
    case 6
    then have "?r = Inr (None, s1)" using t s1 by (simp add: header_field_def)
    then show ?thesis using s1(2) by simp
  qed
qed

section \<open>The parser never leaves its buffer\<close>

lemma put_at_ok: "i + length bs \<le> e \<Longrightarrow> e < length buf \<Longrightarrow> \<exists>buf'. put_at buf i bs = Inr buf' \<and> length buf' = length buf \<and> buf' ! e = buf ! e"
  by (auto simp: put_at_def put_slice_def nth_append)

lemma header_line_ok:
  assumes e: "cp \<le> e" "e < length buf" "buf ! e = NUL" and ok: "server_ok s" "wp s = Some w"
  shows "\<exists>buf' s'. header_line en buf cp s = Inr (buf', s') \<and> length buf' = length buf \<and> buf' ! e = NUL \<and> header_frame s s'"
proof -
  obtain r q b1 where 1: "strtok_at ('': '' @ [TAB, LF]) buf cp = Inr (r, q, b1)" "length b1 = length buf" "b1 ! e = NUL" "q \<le> e"
    "\<forall>p. r = Some p \<longrightarrow> cp \<le> p \<and> p \<le> q \<and> p < e" using strtok_at_ok [OF e] by blast
  show ?thesis
  proof (cases r)
    case None
    then show ?thesis using 1 header_frame_refl [OF ok] by (simp add: header_line_def)
  next
    case (Some k)
    have b1: "q \<le> e" "e < length b1" "b1 ! e = NUL" using 1 e by auto
    obtain val q2 b2 where 2: "strtok_at [LF] b1 q = Inr (val, q2, b2)" "length b2 = length b1" "b2 ! e = NUL"
      "\<forall>p. val = Some p \<longrightarrow> q \<le> p \<and> p \<le> q2 \<and> p < e" using strtok_at_ok [OF b1] by blast
    have b2: "e < length b2" "b2 ! e = NUL" using 1 2 e by auto
    obtain val' where 3: "(case val of None \<Rightarrow> Inr None | Some v \<Rightarrow> res_bind (skip_at gisspace b2 v) (\<lambda>v. Inr (Some v))) = Inr val'"
      "\<forall>p. val' = Some p \<longrightarrow> p \<le> e"
    proof (cases val)
      case (Some v)
      then have "v \<le> e" using 2 by auto
      from skip_at_ok [OF this b2, of gisspace] show ?thesis using that Some by auto
    qed (use that in auto)
    have "k \<le> e" using Some 1 by auto
    from cstr_at_ok [OF this b2] obtain key where key: "cstr_at b2 k = Inr key" "is_cstr key" "k + length key \<le> e" by blast
    have low: "is_cstr (strlower key)" "length (strlower key) = length key" using key(2) by simp_all
    then obtain b3 where b3: "put_at b2 k (strlower key) = Inr b3" "length b3 = length b2" "b3 ! e = NUL"
      using put_at_ok [of k "strlower key" e b2] key(3) b2 by auto
    obtain vl where vl: "(case val' of None \<Rightarrow> Inr [] | Some v \<Rightarrow> cstr_at b3 v) = Inr vl" "is_cstr vl"
      "\<forall>v. val' = Some v \<longrightarrow> v + length vl \<le> e"
    proof (cases val')
      case (Some v)
      then have "v \<le> e" using 3 by auto
      from cstr_at_ok [OF this _ b3(3)] show ?thesis using that Some b3(2) b2 by auto
    qed (use that in auto)
    obtain cut s' where f: "header_field en (strlower key) vl s = Inr (cut, s')" "header_frame s s'" "\<forall>k. cut = Some k \<longrightarrow> k < length vl"
      using header_field_ok [OF ok low(1) vl(2)] by blast
    have "\<exists>b4. put_at b3 (v + c) [NUL] = Inr b4 \<and> length b4 = length b3 \<and> b4 ! e = b3 ! e" if "val' = Some v" "cut = Some c" for v c
      using that vl(3) f(3) b3 b2 by (intro put_at_ok) fastforce+
    then obtain b4 where "(case (val', cut) of (Some v, Some c) \<Rightarrow> res_bind (put_at b3 (v + c) [NUL]) (\<lambda>buf. Inr (buf, s')) | _ \<Rightarrow> Inr (b3, s'))
        = Inr (b4, s')" "length b4 = length b3" "b4 ! e = b3 ! e" by (cases val'; cases cut) fastforce+
    then have "header_line en buf cp s = Inr (b4, s') \<and> length b4 = length buf \<and> b4 ! e = NUL"
      using 1(1-3) 2(1-3) 3(1) key(1) b3 vl(1) f(1) Some by (simp add: header_line_def)
    then show ?thesis using f(2) by blast
  qed
qed

lemma header_loop_ok:
  "lp \<le> e \<Longrightarrow> e < length buf \<Longrightarrow> buf ! e = NUL \<Longrightarrow> server_ok s \<Longrightarrow> wp s = Some w
   \<Longrightarrow> \<exists>s'. header_loop en buf lp s = Inr s' \<and> header_frame s s'"
proof (induction "length buf - lp" arbitrary: buf lp s w rule: less_induct)
  case less
  show ?case
  proof (cases "buf ! lp = NUL")
    case True
    then show ?thesis using less.prems header_frame_refl by (subst header_loop.simps) auto
  next
    case False
    obtain nl where nl: "find_from buf lp LF = Inr nl" "\<forall>k. nl = Some k \<longrightarrow> lp \<le> k \<and> k < e"
      using find_from_ok [of lp e buf LF] less.prems by auto
    obtain buf' s' where l: "header_line en buf lp s = Inr (buf', s')" "length buf' = length buf" "buf' ! e = NUL" "header_frame s s'"
      using header_line_ok [OF less.prems] by blast
    show ?thesis
    proof (cases nl)
      case None
      then show ?thesis using less.prems False nl l by (subst header_loop.simps) auto
    next
      case (Some k)
      obtain w' where w': "server_ok s'" "wp s' = Some w'" using header_frameD [OF l(4)] by blast
      have "length buf' - (k + 1) < length buf - lp" "k + 1 \<le> e" "e < length buf'" using Some nl l less.prems by auto
      from less.hyps [OF this l(3) w'] obtain s2 where "header_loop en buf' (k + 1) s' = Inr s2" "header_frame s' s2" by blast
      then show ?thesis using Some less.prems False nl l header_frame_trans [OF l(4)] by (subst header_loop.simps) auto
    qed
  qed
qed

section \<open>Well-formed lines\<close>

abbreviation field_delims :: string where "field_delims \<equiv> '': '' @ [TAB, LF]"

text \<open>The name and the value of a line, and the lines on which the parser agrees: something follows the
  character after the name.\<close>

definition line_key :: "string \<Rightarrow> string" where
  "line_key l = takeWhile (\<lambda>c. c \<notin> set field_delims) (dropWhile (\<lambda>c. c \<in> set field_delims) l)"

definition line_rest :: "string \<Rightarrow> string" where
  "line_rest l = drop (length (line_key l) + 1) (dropWhile (\<lambda>c. c \<in> set field_delims) l)"

definition line_field :: "string \<Rightarrow> string \<times> string" where
  "line_field l = (strlower (line_key l), dropWhile gisspace (line_rest l))"

definition proper_line :: "string \<Rightarrow> bool" where
  "proper_line l \<longleftrightarrow> is_cstr l \<and> LF \<notin> set l \<and> line_key l \<noteq> [] \<and> line_rest l \<noteq> []"

fun join_lines :: "string list \<Rightarrow> string" where
  "join_lines [] = []"
| "join_lines [l] = l"
| "join_lines (l # ls) = l @ LF # join_lines ls"

fun header_fields :: "env \<Rightarrow> (string \<times> string) list \<Rightarrow> server \<Rightarrow> server res" where
  "header_fields e [] s = Inr s"
| "header_fields e ((k, v) # fs) s = res_bind (header_field e k v s) (\<lambda>(cut, s). header_fields e fs s)"

lemma skip_list_hit: "\<forall>c \<in> set a. c \<noteq> NUL \<and> P c \<Longrightarrow> x = NUL \<or> \<not> P x \<Longrightarrow> skip_list P (a @ x # b) = Inr (length a)"
  by (induction a) auto

lemma skip_at_hit:
  "drop i buf = a @ x # b \<Longrightarrow> \<forall>c \<in> set a. c \<noteq> NUL \<and> P c \<Longrightarrow> x = NUL \<or> \<not> P x \<Longrightarrow> skip_at P buf i = Inr (i + length a)"
  by (simp add: skip_at_def skip_list_hit)

lemma nth_split: "drop i buf = a @ x # b \<Longrightarrow> buf ! (i + length a) = x"
proof -
  assume d: "drop i buf = a @ x # b"
  then have "i \<le> length buf" by (metis append_is_Nil_conv drop_eq_Nil list.distinct(1) nat_le_linear)
  then have "buf ! (i + length a) = drop i buf ! length a" by simp
  then show ?thesis using d by simp
qed

lemma strtok_at_token:
  assumes d: "drop pos buf = p @ k @ d # rest" and k: "k \<noteq> []" and nul: "is_cstr p" "is_cstr k"
    and p: "set p \<subseteq> set D" and kD: "set k \<inter> set D = {}" and dD: "d = NUL \<or> d \<in> set D"
  shows "strtok_at D buf pos = (if d = NUL then Inr (Some (pos + length p), pos + length p + length k, buf)
    else Inr (Some (pos + length p), pos + length p + length k + 1, buf[pos + length p + length k := NUL]))"
proof -
  obtain c k' where ck: "k = c # k'" using k by (cases k) auto
  have c: "c \<noteq> NUL" "c \<notin> set D" using nul kD ck by auto
  have 1: "skip_at (\<lambda>c. c \<in> set D) buf pos = Inr (pos + length p)"
    using c nul p d ck by (intro skip_at_hit [of _ _ _ c]) (auto simp: is_cstr_def)
  have 2: "buf ! (pos + length p) = c" using nth_split [of pos buf p c] d ck by simp
  have "drop (pos + length p) buf = k @ d # rest" using d by (metis add.commute append_eq_conv_conj drop_drop)
  then have 3: "skip_at (\<lambda>c. c \<notin> set D) buf (pos + length p) = Inr (pos + length p + length k)"
    "buf ! (pos + length p + length k) = d"
    using nul kD dD by (intro skip_at_hit [of _ _ _ d], auto simp: is_cstr_def intro: nth_split)
  show ?thesis using 1 2 3 c by (simp add: strtok_at_def)
qed

lemma split_key:
  fixes Q :: "'a \<Rightarrow> bool"
  defines "t l \<equiv> dropWhile Q l" and "k l \<equiv> takeWhile (\<lambda>c. \<not> Q c) (dropWhile Q l)"
  shows "\<exists>p u. l = p @ k l @ u \<and> (\<forall>c \<in> set p. Q c) \<and> (\<forall>c \<in> set (k l). \<not> Q c) \<and> (u = [] \<or> Q (hd u))
    \<and> drop (length (k l) + 1) (t l) = drop 1 u"
proof -
  let ?u = "dropWhile (\<lambda>c. \<not> Q c) (t l)"
  have t: "t l = k l @ ?u" by (simp add: k_def t_def)
  then have r: "drop (length (k l) + 1) (t l) = drop 1 ?u" by (metis append_eq_conv_conj drop_drop add.commute)
  have u: "?u = [] \<or> Q (hd ?u)" using hd_dropWhile [of "\<lambda>c. \<not> Q c" "t l"] by blast
  have l: "l = takeWhile Q l @ k l @ ?u" using t by (metis t_def takeWhile_dropWhile_id)
  have p: "\<forall>c \<in> set (takeWhile Q l). Q c" by (meson set_takeWhileD)
  have k: "\<forall>c \<in> set (k l). \<not> Q c" unfolding k_def by (auto dest: set_takeWhileD)
  show ?thesis by (intro exI conjI) (rule l p k u r)+
qed

lemmas split_line = split_key [where Q = "\<lambda>c. c \<in> set field_delims", folded line_key_def, folded line_rest_def]

lemma proper_lineD:
  assumes "proper_line l"
  obtains p d where "l = p @ line_key l @ d # line_rest l" and "set p \<subseteq> set field_delims" and "is_cstr p" and "d \<in> set field_delims"
    and "d \<noteq> NUL" and "line_key l \<noteq> []" and "line_rest l \<noteq> []" and "is_cstr (line_key l)" and "is_cstr (line_rest l)"
    and "LF \<notin> set (line_rest l)" and "set (line_key l) \<inter> set field_delims = {}"
proof -
  have l: "is_cstr l" "LF \<notin> set l" "line_key l \<noteq> []" "line_rest l \<noteq> []" using assms by (auto simp: proper_line_def)
  from split_line [of l] obtain p u where pu: "l = p @ line_key l @ u" "\<forall>c \<in> set p. c \<in> set field_delims"
    "\<forall>c \<in> set (line_key l). c \<notin> set field_delims" "u = [] \<or> hd u \<in> set field_delims" "line_rest l = drop 1 u" by blast
  then obtain d where u: "u = d # line_rest l" using l(4) by (cases u) auto
  have pd: "l = p @ line_key l @ d # line_rest l" "d \<in> set field_delims" using pu(1,4) unfolding u by simp_all
  have "is_cstr (p @ line_key l @ d # line_rest l)" "LF \<notin> set (p @ line_key l @ d # line_rest l)" using l(1,2) pd(1) by simp_all
  then have c: "is_cstr p" "d \<noteq> NUL" "is_cstr (line_key l)" "is_cstr (line_rest l)" "LF \<notin> set (line_rest l)" by simp_all
  show ?thesis by (rule that [OF pd(1) _ c(1) pd(2) c(2) l(3,4) c(3-5)]) (use pu(2,3) in blast)+
qed

lemma drop_put: "put_at buf i bs = Inr buf' \<Longrightarrow> i + length bs \<le> n \<Longrightarrow> drop n buf' = drop n buf"
  by (auto simp: put_at_def put_slice_def split: if_splits)

lemma cut_at: "i = length a \<Longrightarrow> (a @ x # b)[i := y] = a @ y # b"
  by simp

lemma cut_words:
  assumes "line_key l \<noteq> []" and "line_rest l \<noteq> []" and "is_cstr (line_key l)" and "is_cstr (line_rest l)"
    and "LF \<notin> set (line_rest l)" and "set (line_key l) \<inter> set field_delims = {}" and "set p \<subseteq> set field_delims" and "is_cstr p"
    and "d \<in> set field_delims" and "d \<noteq> NUL" and "x = LF \<or> x = NUL"
    and buf: "buf = A @ p @ line_key l @ d # line_rest l @ x # R" and "cp = length A"
    and K: "K = cp + length p" and V: "V = K + length (line_key l) + 1"
  shows "strtok_at field_delims buf cp = Inr (Some K, V, A @ p @ line_key l @ NUL # line_rest l @ x # R)"
    and "\<exists>q. strtok_at [LF] (A @ p @ line_key l @ NUL # line_rest l @ x # R) V
      = Inr (Some V, q, A @ p @ line_key l @ NUL # line_rest l @ NUL # R)"
proof -
  let ?b1 = "A @ p @ line_key l @ NUL # line_rest l @ x # R"
  have "drop cp buf = p @ line_key l @ d # line_rest l @ x # R" using assms by simp
  from strtok_at_token [OF this assms(1,8,3,7,6)] assms(9,10)
  have 1: "strtok_at field_delims buf cp = Inr (Some K, V, buf[K + length (line_key l) := NUL])" by (simp add: K V)
  have "buf[K + length (line_key l) := NUL] = ?b1"
    unfolding buf using cut_at [of "K + length (line_key l)" "A @ p @ line_key l" d "line_rest l @ x # R" NUL] assms by simp
  then show "strtok_at field_delims buf cp = Inr (Some K, V, ?b1)" using 1 by simp
  have "drop V ?b1 = [] @ line_rest l @ x # R" using assms by simp
  from strtok_at_token [OF this assms(2) _ assms(4), of "[LF]"] assms(5,11)
  have 2: "strtok_at [LF] ?b1 V = (if x = NUL then Inr (Some V, V + length (line_rest l), ?b1)
    else Inr (Some V, V + length (line_rest l) + 1, ?b1[V + length (line_rest l) := NUL]))" by auto
  have "?b1[V + length (line_rest l) := NUL] = A @ p @ line_key l @ NUL # line_rest l @ NUL # R"
    using cut_at [of "V + length (line_rest l)" "A @ p @ line_key l @ NUL # line_rest l" x R NUL] assms by simp
  then show "\<exists>q. strtok_at [LF] ?b1 V = Inr (Some V, q, A @ p @ line_key l @ NUL # line_rest l @ NUL # R)"
    using 2 by (cases "x = NUL") auto
qed

lemma header_line_words:
  assumes t1: "strtok_at field_delims buf cp = Inr (Some (length P), q1, b1)"
    and t2: "strtok_at [LF] b1 q1 = Inr (Some V, q2, P @ k @ NUL # M @ r @ NUL # R)"
    and V: "V = length P + length k + 1 + length M" and nul: "is_cstr k" "is_cstr r" and ok: "server_ok s" "wp s = Some w"
  shows "\<exists>cut s' buf'. header_field e (strlower k) (dropWhile gisspace r) s = Inr (cut, s') \<and> header_frame s s'
    \<and> header_line e buf cp s = Inr (buf', s') \<and> drop (V + length r + 1) buf' = R
    \<and> (cut = None \<longrightarrow> buf' = P @ strlower k @ NUL # M @ r @ NUL # R)"
proof -
  let ?b2 = "P @ k @ NUL # M @ r @ NUL # R" and ?b3 = "P @ strlower k @ NUL # M @ r @ NUL # R"
  let ?sp = "takeWhile gisspace r" and ?v = "dropWhile gisspace r"
  let ?W = "V + length ?sp"
  have r: "r @ NUL # R = ?sp @ ?v @ NUL # R" by (metis append.assoc takeWhile_dropWhile_id)
  have v: "is_cstr ?v" using nul(2) by (auto simp: is_cstr_def dest: set_dropWhileD)
  have "drop V ?b2 = r @ NUL # R" using V by simp
  then have dV: "drop V ?b2 = ?sp @ ?v @ NUL # R" using r by metis
  have skip: "skip_at gisspace ?b2 V = Inr ?W"
  proof (cases ?v)
    case Nil
    then show ?thesis using dV nul(2) by (intro skip_at_hit [of _ _ _ NUL R]) (auto simp: is_cstr_def dest: set_takeWhileD)
  next
    case (Cons c v')
    then have "\<not> gisspace c" using hd_dropWhile [of gisspace r] by fastforce
    then show ?thesis using dV Cons nul(2)
      by (intro skip_at_hit [of _ _ _ c "v' @ NUL # R"]) (auto simp: is_cstr_def dest: set_takeWhileD)
  qed
  have key: "cstr_at ?b2 (length P) = Inr k" using nul by (intro cstr_at_eq) simp_all
  have low: "put_at ?b2 (length P) (strlower k) = Inr ?b3" by (simp add: put_at_def put_slice_def)
  have "drop ?W ?b3 = ?v @ NUL # R"
  proof -
    have 1: "drop ?W ?b3 = drop (length ?sp) (r @ NUL # R)" using V by simp
    have "drop (length ?sp) (?sp @ ?v @ NUL # R) = ?v @ NUL # R" by (metis append_eq_conv_conj)
    then show ?thesis using 1 r by metis
  qed
  then have val: "cstr_at ?b3 ?W = Inr ?v" using v by (intro cstr_at_eq) simp_all
  obtain c s' where hf: "header_field e (strlower k) ?v s = Inr (c, s')" "header_frame s s'" "\<forall>j. c = Some j \<longrightarrow> j < length ?v"
    using header_field_ok [OF ok, of "strlower k" ?v e] v nul(1) by auto
  have R: "drop (V + length r + 1) ?b3 = R" using V by simp
  have vr: "length ?sp + length ?v = length r" by (metis length_append takeWhile_dropWhile_id)
  obtain b4 where b4: "(case c of Some c \<Rightarrow> res_bind (put_at ?b3 (?W + c) [NUL]) (\<lambda>buf. Inr (buf, s')) | None \<Rightarrow> Inr (?b3, s')) = Inr (b4, s')"
    "drop (V + length r + 1) b4 = R" "c = None \<longrightarrow> b4 = ?b3"
  proof (cases c)
    case (Some j)
    then have j: "?W + j < V + length r + 1" using hf(3) vr by auto
    then obtain b4 where "put_at ?b3 (?W + j) [NUL] = Inr b4" using V by (simp add: put_at_def)
    then show ?thesis using that j Some drop_put [of ?b3 "?W + j" "[NUL]" b4 "V + length r + 1"] R by simp
  qed (use that R in simp)
  have "header_line e buf cp s = Inr (b4, s')"
    unfolding header_line_def using t1 t2 skip key low val hf(1) b4(1) by (cases c) simp_all
  then show ?thesis using hf b4(2,3) by blast
qed

lemma at_least: "drop cp buf = l @ x # R \<Longrightarrow> cp = length (take cp buf) \<and> buf = take cp buf @ l @ x # R"
proof -
  assume d: "drop cp buf = l @ x # R"
  then have "cp \<le> length buf" by (metis append_is_Nil_conv drop_eq_Nil list.distinct(1) nat_le_linear)
  then show ?thesis using d by (metis append_take_drop_id length_take min.absorb2)
qed

lemma header_line_proper:
  assumes l: "proper_line l" and d: "drop cp buf = l @ x # R" and x: "x = LF \<or> x = NUL" and ok: "server_ok s" "wp s = Some w"
    and f: "line_field l = (key, v)"
  shows "\<exists>cut s' buf'. header_field e key v s = Inr (cut, s') \<and> header_frame s s' \<and> header_line e buf cp s = Inr (buf', s')
    \<and> drop (cp + length l + 1) buf' = R"
proof -
  from l obtain p dl where pd: "l = p @ line_key l @ dl # line_rest l" "set p \<subseteq> set field_delims" "is_cstr p" "dl \<in> set field_delims"
    "dl \<noteq> NUL" "line_key l \<noteq> []" "line_rest l \<noteq> []" "is_cstr (line_key l)" "is_cstr (line_rest l)"
    "LF \<notin> set (line_rest l)" "set (line_key l) \<inter> set field_delims = {}" by (rule proper_lineD)
  let ?k = "line_key l" and ?r = "line_rest l" and ?A = "take cp buf"
  let ?K = "cp + length p" let ?V = "?K + length ?k + 1"
  note A = at_least [OF d]
  have buf: "buf = ?A @ p @ ?k @ dl # ?r @ x # R" using pd(1) A by (metis append.assoc append_Cons)
  note cut = cut_words [OF pd(6-11,2,3-5) x buf conjunct1 [OF A] refl refl]
  obtain q where q: "strtok_at [LF] (?A @ p @ ?k @ NUL # ?r @ x # R) ?V = Inr (Some ?V, q, (?A @ p) @ ?k @ NUL # [] @ ?r @ NUL # R)"
    using cut(2) by auto
  have P: "length (?A @ p) = ?K" using A by simp
  have len: "length l = length p + length ?k + 1 + length ?r" using arg_cong [OF pd(1), of length] by simp
  then have eq: "cp + length l + 1 = ?V + length ?r + 1" by simp
  have V: "?V = length (?A @ p) + length ?k + 1 + length []" using P by simp
  from header_line_words [OF cut(1) [folded P] q [folded P] V [folded P] pd(8,9) ok, of e]
  obtain c s' b' where "header_field e (strlower ?k) (dropWhile gisspace ?r) s = Inr (c, s')" "header_frame s s'"
    "header_line e buf cp s = Inr (b', s')" "drop (?V + length ?r + 1) b' = R" unfolding P by blast
  then show ?thesis unfolding eq using f by (auto simp: line_field_def)
qed

lemma header_loop_step:
  assumes "drop lp buf = l @ x # R" and "l \<noteq> []" and "is_cstr l" and "LF \<notin> set l" and "x = LF \<or> x = NUL"
    and "header_line e buf lp s = Inr (buf', s')"
  shows "header_loop e buf lp s = (if x = LF then header_loop e buf' (lp + length l + 1) s' else Inr s')"
proof -
  obtain c l' where c: "l = c # l'" "c \<noteq> NUL" using assms(2,3) by (cases l) auto
  have "lp < length buf" using assms(1) by (metis append_is_Nil_conv drop_eq_Nil list.distinct(1) not_le)
  moreover have "buf ! lp = c" using nth_split [of lp buf "[]" c "l' @ x # R"] assms(1) c by simp
  moreover have "find_from buf lp LF = Inr (if x = LF then Some (lp + length l) else None)"
    using find_from_hit [OF assms(1,3)] find_from_miss [of lp buf l R LF] assms by auto
  ultimately show ?thesis using c(2) assms(6) by (subst header_loop.simps) auto
qed

lemma proper_line_text: "proper_line l \<Longrightarrow> l \<noteq> [] \<and> is_cstr l \<and> LF \<notin> set l"
  by (auto simp: proper_line_def line_key_def)

lemma header_loop_fields:
  "\<forall>l \<in> set ls. proper_line l \<Longrightarrow> drop lp buf = join_lines ls @ NUL # R \<Longrightarrow> server_ok s \<Longrightarrow> wp s = Some w
   \<Longrightarrow> \<exists>s'. header_loop e buf lp s = Inr s' \<and> header_fields e (map line_field ls) s = Inr s' \<and> header_frame s s'"
proof (induction ls arbitrary: lp buf s w rule: join_lines.induct)
  case 1
  then have "buf ! lp = NUL" using nth_split [of lp buf "[]" NUL R] by simp
  moreover have "lp < length buf" using 1 by (metis append_Nil join_lines.simps(1) drop_eq_Nil list.distinct(1) not_le)
  ultimately show ?case using header_frame_refl [OF 1(3,4)] by (subst header_loop.simps) simp
next
  case (2 l)
  obtain k v where f: "line_field l = (k, v)" by (cases "line_field l")
  have l: "proper_line l" "drop lp buf = l @ NUL # R" using 2 by auto
  from header_line_proper [OF l _ 2(3,4) f] obtain c s' buf' where h: "header_field e k v s = Inr (c, s')" "header_frame s s'"
    "header_line e buf lp s = Inr (buf', s')" by blast
  then show ?case using header_loop_step [OF l(2) _ _ _ _ h(3)] proper_line_text [OF l(1)] f by simp
next
  case (3 l l2 ls)
  obtain k v where f: "line_field l = (k, v)" by (cases "line_field l")
  have l: "proper_line l" "drop lp buf = l @ LF # (join_lines (l2 # ls) @ NUL # R)" using 3 by auto
  from header_line_proper [OF l _ 3(4,5) f] obtain c s1 buf' where h: "header_field e k v s = Inr (c, s1)" "header_frame s s1"
    "header_line e buf lp s = Inr (buf', s1)" "drop (lp + length l + 1) buf' = join_lines (l2 # ls) @ NUL # R" by blast
  obtain w1 where w1: "server_ok s1" "wp s1 = Some w1" using header_frameD [OF h(2)] by blast
  from 3(1) [OF _ h(4) w1] 3(2) obtain s2 where "header_loop e buf' (lp + length l + 1) s1 = Inr s2"
    "header_fields e (map line_field (l2 # ls)) s1 = Inr s2" "header_frame s1 s2" by auto
  then show ?case using header_loop_step [OF l(2) _ _ _ _ h(3)] proper_line_text [OF l(1)] f h(1) header_frame_trans [OF h(2)] by simp
qed

section \<open>An empty value\<close>

text \<open>A line with a name and nothing, or only the character after the name, behind it.\<close>

definition empty_value :: "string \<Rightarrow> bool" where
  "empty_value l \<longleftrightarrow> is_cstr l \<and> LF \<notin> set l \<and> line_key l \<noteq> [] \<and> line_rest l = []"

lemma empty_valueD:
  assumes "empty_value l"
  obtains p ds where "l = p @ line_key l @ ds" and "set p \<subseteq> set field_delims" and "is_cstr p" and "is_cstr (line_key l)"
    and "line_key l \<noteq> []" and "set (line_key l) \<inter> set field_delims = {}"
    and "ds = [] \<or> (\<exists>d. ds = [d] \<and> d \<in> set field_delims \<and> d \<noteq> NUL \<and> d \<noteq> LF)"
proof -
  have l: "is_cstr l" "LF \<notin> set l" "line_key l \<noteq> []" "line_rest l = []" using assms by (auto simp: empty_value_def)
  from split_line [of l] obtain p u where pu: "l = p @ line_key l @ u" "\<forall>c \<in> set p. c \<in> set field_delims"
    "\<forall>c \<in> set (line_key l). c \<notin> set field_delims" "u = [] \<or> hd u \<in> set field_delims" "line_rest l = drop 1 u" by blast
  have "is_cstr (p @ line_key l @ u)" "LF \<notin> set (p @ line_key l @ u)" using l(1,2) pu(1) by simp_all
  then have c: "is_cstr p" "is_cstr (line_key l)" "is_cstr u" "LF \<notin> set u" by simp_all
  have "u = [] \<or> (\<exists>d. u = [d] \<and> d \<in> set field_delims \<and> d \<noteq> NUL \<and> d \<noteq> LF)"
  proof (cases u)
    case (Cons d v)
    moreover have "v = []" using pu(5) l(4) Cons by simp
    moreover have "d \<noteq> NUL" "d \<noteq> LF" using c(3,4) Cons by auto
    moreover have "d \<in> set field_delims" using pu(4) Cons by (metis list.distinct(1) list.sel(1))
    ultimately show ?thesis by blast
  qed blast
  from that [OF pu(1) _ c(1,2) l(3) _ this] show ?thesis using pu(2,3) by blast
qed

lemma empty_value_text: "empty_value l \<Longrightarrow> is_cstr (line_key l) \<and> l \<noteq> [] \<and> is_cstr l \<and> LF \<notin> set l"
proof (intro conjI)
  assume e: "empty_value l"
  then show "is_cstr l" "LF \<notin> set l" "l \<noteq> []" by (auto simp: empty_value_def line_key_def)
  show "is_cstr (line_key l)" using e by (rule empty_valueD)
qed

text \<open>The second \<open>strtok\<close> looks for the value of an empty line in the next line, and cuts that one: the loop then
  finds no line feed behind the next line and stops there.\<close>

lemma empty_words:
  assumes e: "empty_value l" and l2: "proper_line l2" and d: "drop cp buf = l @ LF # l2 @ x # R" and x: "x = LF \<or> x = NUL"
  obtains P M b1 q1 q2 where "strtok_at field_delims buf cp = Inr (Some (length P), q1, b1)"
    and "strtok_at [LF] b1 q1 = Inr (Some (cp + length l + 1), q2, P @ line_key l @ NUL # M @ l2 @ NUL # R)"
    and "cp + length l + 1 = length P + length (line_key l) + 1 + length M"
proof -
  let ?A = "take cp buf"
  note A = at_least [OF d]
  have l2': "l2 \<noteq> []" "is_cstr l2" "set l2 \<inter> set [LF] = {}" using proper_line_text [OF l2] by auto
  from e obtain p ds where p: "l = p @ line_key l @ ds" "set p \<subseteq> set field_delims" "is_cstr p" "is_cstr (line_key l)" "line_key l \<noteq> []"
    "set (line_key l) \<inter> set field_delims = {}" "ds = [] \<or> (\<exists>d. ds = [d] \<and> d \<in> set field_delims \<and> d \<noteq> NUL \<and> d \<noteq> LF)"
    by (rule empty_valueD)
  let ?k = "line_key l" and ?P = "?A @ p"
  let ?K = "cp + length p + length ?k"
  have len: "length l = length p + length ?k + length ds" using arg_cong [OF p(1), of length] by simp
  have P: "length ?P = cp + length p" using A by simp
  obtain c M where c: "ds @ LF # l2 @ x # R = c # M @ l2 @ x # R" "c \<in> set field_delims" "c \<noteq> NUL" "length ds = length M" "set M \<subseteq> {LF}"
  proof (cases ds)
    case Nil
    then show ?thesis using that [of LF "[]"] by simp
  next
    case (Cons d ds')
    then have "ds = [d]" "d \<in> set field_delims" "d \<noteq> NUL" using p(7) by auto
    then show ?thesis using that [of d "[LF]"] by simp
  qed
  have t: "drop cp buf = p @ ?k @ c # M @ l2 @ x # R" using d p(1) c(1) by (metis append.assoc)
  from strtok_at_token [OF t p(5,3,4,2,6)] c(2,3)
  have 1: "strtok_at field_delims buf cp = Inr (Some (cp + length p), ?K + 1, buf[?K := NUL])" by simp
  have "buf = (?P @ ?k) @ c # M @ l2 @ x # R" using A t by (metis append.assoc append_take_drop_id)
  then have b1: "buf[?K := NUL] = (?P @ ?k) @ NUL # M @ l2 @ x # R" using cut_at [of ?K "?P @ ?k" c _ NUL] P by (metis length_append)
  have "drop (?K + 1) ((?P @ ?k) @ NUL # M @ l2 @ x # R) = M @ l2 @ x # R" using P by simp
  note 2 = strtok_at_token [OF this l2'(1) _ l2'(2), of "[LF]"]
  let ?b1 = "(?P @ ?k) @ NUL # M @ l2 @ x # R" and ?V = "?K + 1 + length M"
  have M: "is_cstr M" "set M \<subseteq> set [LF]" "x = NUL \<or> x \<in> set [LF]" using c(5) x by (auto simp: is_cstr_def)
  have "?b1[?V + length l2 := NUL] = ?P @ ?k @ NUL # M @ l2 @ NUL # R"
    using cut_at [of "?V + length l2" "?P @ ?k @ NUL # M @ l2" x R NUL] P by simp
  then have "\<exists>q2. strtok_at [LF] ?b1 (?K + 1) = Inr (Some ?V, q2, ?P @ ?k @ NUL # M @ l2 @ NUL # R)"
    using 2 [OF M(1,2) l2'(3) M(3)] by (cases "x = NUL") simp_all
  then obtain q2 where "strtok_at [LF] ?b1 (?K + 1) = Inr (Some ?V, q2, ?P @ ?k @ NUL # M @ l2 @ NUL # R)" by blast
  then show ?thesis using that [of ?P "?K + 1" "(?P @ ?k) @ NUL # M @ l2 @ x # R" q2 M] 1 b1 P len c(4) by simp
qed

lemma header_field_no_cut:
  assumes "header_field e k v s = Inr (c, s')" and "k \<noteq> ''authorization''"
  shows "c = None"
  using assms unfolding header_field_def Let_def by (auto split: if_splits)

lemma header_loop_empty_value:
  assumes l: "empty_value l" and l2: "proper_line l2" and d: "drop lp buf = l @ LF # l2 @ x # R" and x: "x = LF \<or> x = NUL"
    and k: "strlower (line_key l) \<noteq> ''authorization''" and ok: "server_ok s" "wp s = Some w"
  shows "\<exists>s'. header_loop e buf lp s = Inr s' \<and> header_frame s s'
    \<and> header_fields e [(strlower (line_key l), dropWhile gisspace l2), line_field l2] s = Inr s'"
proof -
  obtain P M b1 q1 q2 where t: "strtok_at field_delims buf lp = Inr (Some (length P), q1, b1)"
    "strtok_at [LF] b1 q1 = Inr (Some (lp + length l + 1), q2, P @ line_key l @ NUL # M @ l2 @ NUL # R)"
    "lp + length l + 1 = length P + length (line_key l) + 1 + length M" by (rule empty_words [OF l l2 d x])
  have c: "is_cstr (line_key l)" "is_cstr l2" "l \<noteq> []" "is_cstr l" "LF \<notin> set l"
    using empty_value_text [OF l] proper_line_text [OF l2] by auto
  from header_line_words [OF t c(1,2) ok, of e] obtain c1 s1 b2 where h: "header_field e (strlower (line_key l)) (dropWhile gisspace l2) s = Inr (c1, s1)"
    "header_frame s s1" "header_line e buf lp s = Inr (b2, s1)"
    "c1 = None \<longrightarrow> b2 = P @ strlower (line_key l) @ NUL # M @ l2 @ NUL # R" by blast
  have b2: "b2 = P @ strlower (line_key l) @ NUL # M @ l2 @ NUL # R" using h(4) header_field_no_cut [OF h(1) k] by simp
  have d2: "drop (lp + length l + 1) b2 = l2 @ NUL # R" unfolding b2 t(3) by simp
  obtain w1 where w1: "server_ok s1" "wp s1 = Some w1" using header_frameD [OF h(2)] by blast
  obtain k2 v2 where f: "line_field l2 = (k2, v2)" by (cases "line_field l2")
  from header_line_proper [OF l2 d2 _ w1 f, of e] obtain c2 s2 b3 where h2: "header_field e k2 v2 s1 = Inr (c2, s2)" "header_frame s1 s2"
    "header_line e b2 (lp + length l + 1) s1 = Inr (b3, s2)" by blast
  have "header_loop e buf lp s = header_loop e b2 (lp + length l + 1) s1"
    using header_loop_step [OF d c(3-5) _ h(3)] by simp
  also have "\<dots> = Inr s2"
    using header_loop_step [OF d2 _ _ _ _ h2(3)] proper_line_text [OF l2] by simp
  finally show ?thesis using h(1) h2(1) f header_frame_trans [OF h(2) h2(2)] by simp
qed

section \<open>The whole header\<close>

text \<open>The parser starts with an empty \<open>HTTP_AUTHORIZATION\<close>.\<close>

definition no_authorization :: "env \<Rightarrow> server \<Rightarrow> server res" where
  "no_authorization e s = websSetVar e ''HTTP_AUTHORIZATION'' (Some []) s"

definition header_bytes :: "webs \<Rightarrow> byte list" where
  "header_bytes w = drop (servp (w_header w)) (rq_buf (w_header w))"

lemma header_start:
  assumes "server_ok s" and "wp s = Some w"
  obtains s1 w1 where "no_authorization e s = Inr s1" and "header_frame s s1" and "server_ok s1" and "wp s1 = Some w1"
    and "w_header w1 = w_header w"
    and "websParseRequest e s = header_loop e (rq_buf (w_header w)) (servp (w_header w)) s1"
proof -
  obtain s1 where s1: "websSetVar e ''HTTP_AUTHORIZATION'' (Some []) s = Inr s1" "header_frame s s1"
    using header_frame_set [OF assms, of "[]" e "''HTTP_AUTHORIZATION''"] by auto
  then obtain w1 where "server_ok s1" "wp s1 = Some w1" "w_header w1 = w_header w"
    using assms(2) by (auto simp: header_frame_def keeps_request_def)
  then show ?thesis using that s1 by (simp add: no_authorization_def websParseRequest_def)
qed

text \<open>C39. Whatever bytes a client has put into the header, parsing them neither reads nor writes outside the header's
  buffer, uses no null pointer and ends; the path, the URL, the query, the state of the request, its POST and local flags,
  the user database, the forms and the output are as before.\<close>

theorem websParseRequest_safe:
  assumes "server_ok s" and "wp s = Some w" and "NUL \<in> set (header_bytes w)"
  shows "\<exists>s'. websParseRequest e s = Inr s' \<and> header_frame s s'"
proof -
  obtain s1 w1 where s1: "header_frame s s1" "server_ok s1" "wp s1 = Some w1"
    "websParseRequest e s = header_loop e (rq_buf (w_header w)) (servp (w_header w)) s1"
    using header_start [OF assms(1,2), of e] by metis
  obtain i where "i < length (header_bytes w)" "header_bytes w ! i = NUL" using assms(3) by (auto simp: in_set_conv_nth)
  then have "servp (w_header w) \<le> servp (w_header w) + i" "servp (w_header w) + i < length (rq_buf (w_header w))"
    "rq_buf (w_header w) ! (servp (w_header w) + i) = NUL" by (auto simp: header_bytes_def)
  from header_loop_ok [OF this s1(2,3)] show ?thesis using s1(1,4) header_frame_trans by metis
qed

lemma parse_request_fields:
  assumes "server_ok s" and "wp s = Some w" and "\<forall>l \<in> set ls. proper_line l" and "header_bytes w = join_lines ls @ NUL # R"
  shows "websParseRequest e s = res_bind (no_authorization e s) (header_fields e (map line_field ls))
    \<and> (\<exists>s'. websParseRequest e s = Inr s' \<and> header_frame s s')"
proof -
  obtain s1 w1 where s1: "no_authorization e s = Inr s1" "header_frame s s1" "server_ok s1" "wp s1 = Some w1"
    "websParseRequest e s = header_loop e (rq_buf (w_header w)) (servp (w_header w)) s1"
    using header_start [OF assms(1,2), of e] by metis
  from header_loop_fields [OF assms(3) assms(4) [unfolded header_bytes_def] s1(3,4), of e]
  obtain s' where "header_loop e (rq_buf (w_header w)) (servp (w_header w)) s1 = Inr s'"
    "header_fields e (map line_field ls) s1 = Inr s'" "header_frame s1 s'" by blast
  then show ?thesis using s1 header_frame_trans [OF s1(2)] by simp
qed

text \<open>C40. On a header whose lines have a name, a separator and something behind it, the in-place parser does what a loop
  over the fields does: each line's name in lower case and its value without leading blanks, in order.\<close>

theorem websParseRequest_fields:
  assumes "server_ok s" and "wp s = Some w" and "\<forall>l \<in> set ls. proper_line l" and "header_bytes w = join_lines ls @ NUL # R"
  shows "websParseRequest e s = res_bind (no_authorization e s) (header_fields e (map line_field ls))
    \<and> (\<exists>s'. websParseRequest e s = Inr s' \<and> header_frame s s')"
  by (rule parse_request_fields [OF assms])

text \<open>A line with a name and an empty value takes the following line as its value, and everything behind that line is
  ignored: the request is the same whatever the rest of the header holds, credentials and content length included.\<close>

theorem empty_value_hides_rest:
  assumes "server_ok s" and "wp s = Some w" and "empty_value l" and "proper_line l2" and "strlower (line_key l) \<noteq> ''authorization''"
    and "header_bytes w = l @ LF # l2 @ LF # R"
  shows "websParseRequest e s = res_bind (no_authorization e s)
    (header_fields e [(strlower (line_key l), dropWhile gisspace l2), line_field l2])"
proof -
  obtain s1 w1 where s1: "no_authorization e s = Inr s1" "server_ok s1" "wp s1 = Some w1"
    "websParseRequest e s = header_loop e (rq_buf (w_header w)) (servp (w_header w)) s1"
    using header_start [OF assms(1,2), of e] by metis
  from header_loop_empty_value [OF assms(3,4) assms(6) [unfolded header_bytes_def] _ assms(5) s1(2,3), of e]
  show ?thesis using s1 by auto
qed

section \<open>Credentials\<close>

lemma decode_auth_encoded:
  assumes "websEncode64 t n = Inr x" and "is_cstr t" and "length t < FNAMESIZE"
  shows "decode_auth x = Inr t"
proof -
  have "x = b64_ref t" using assms(1) by (simp add: websEncode64_eq split: if_splits)
  then have "websDecode64 x FNAMESIZE = Inr (0, t)" using dec64_b64_ref [of "[]" t FNAMESIZE] assms(3)
    by (simp add: websDecode64_def FNAMESIZE_def)
  moreover have "takeWhile (\<lambda>c. c \<noteq> NUL) t = t" using assms(2) by (auto simp: takeWhile_eq_all_conv is_cstr_def)
  ultimately show ?thesis by (simp add: decode_auth_def)
qed

lemma split_auth_colon: "CHR '':'' \<notin> set u \<Longrightarrow> split_auth (u @ CHR '':'' # p) = (u, p)"
proof -
  assume u: "CHR '':'' \<notin> set u"
  have "takeWhile (\<lambda>c. c \<noteq> CHR '':'') (u @ CHR '':'' # p) = u" "dropWhile (\<lambda>c. c \<noteq> CHR '':'') (u @ CHR '':'' # p) = CHR '':'' # p"
    using u by (induction u) auto
  then show ?thesis by (simp add: split_auth_def)
qed

lemma upd_upd: "upd f (upd g s) = upd (f \<circ> g) s"
  by (cases "wp s") (simp_all add: upd_def)

text \<open>The scheme, and the first blank behind it.\<close>

lemma basic_scheme:
  "takeWhile gisalpha (''Basic '' @ x) = ''Basic''" "strlower ''Basic'' = ''basic''"
  "find_index (\<lambda>c. c = CHR '' '') (''Basic '' @ x) = Some 5" "take 5 (''Basic '' @ x) = ''Basic''" "drop 6 (''Basic '' @ x) = x"
  by (simp_all add: gisalpha_def uchar_def) code_simp

lemma authorization_basic:
  assumes "decode_auth x = Inr t"
  shows "authorization (''Basic '' @ x) s = Inr (Some 5, set_flags WEBS_AUTH_BASIC
    (upd (\<lambda>w. w\<lparr>w_authType := Some ''Basic'', w_userName := Some (fst (split_auth t)), w_password := Some (snd (split_auth t))\<rparr>) s))"
proof -
  have "upd (\<lambda>w. w\<lparr>w_userName := Some u, w_password := Some p\<rparr>)
      (upd (\<lambda>w. w\<lparr>w_authType := Some ''Basic''\<rparr>) (upd (\<lambda>w. w\<lparr>w_authType := Some ''Basic''\<rparr>) s))
    = upd (\<lambda>w. w\<lparr>w_authType := Some ''Basic'', w_userName := Some u, w_password := Some p\<rparr>) s" for u p
    by (simp add: upd_upd comp_def)
  then show ?thesis using assms
    unfolding authorization_def Let_def basic_scheme by (simp add: basic_scheme(5) case_prod_unfold)
qed

text \<open>A client that sends the name and the password \<open>websEncode64\<close> encodes is recorded with exactly that name
  and that password, for every name without a colon and every password (colons in it included) that fit the
  decoder's buffer.\<close>

theorem basic_authorization_round_trip:
  assumes "websEncode64 (u @ CHR '':'' # p) n = Inr x" and "is_cstr u" and "is_cstr p" and "CHR '':'' \<notin> set u"
    and "length u + length p + 1 < FNAMESIZE"
  shows "authorization (''Basic '' @ x) s = Inr (Some 5, set_flags WEBS_AUTH_BASIC
    (upd (\<lambda>w. w\<lparr>w_authType := Some ''Basic'', w_userName := Some u, w_password := Some p\<rparr>) s))"
proof -
  have "decode_auth x = Inr (u @ CHR '':'' # p)" by (rule decode_auth_encoded [OF assms(1)]) (use assms in simp_all)
  then show ?thesis using authorization_basic split_auth_colon [OF assms(4)] by simp
qed

theorem basic_authorization_round_trip_witness:
  "authorization (''Basic '' @ ''YWRtOmE6Yg=='') demo_server = Inr (Some 5, set_flags WEBS_AUTH_BASIC
    (upd (\<lambda>w. w\<lparr>w_authType := Some ''Basic'', w_userName := Some ''adm'', w_password := Some ''a:b''\<rparr>) demo_server))"
proof -
  have "websEncode64 (''adm'' @ CHR '':'' # ''a:b'') 20 = Inr ''YWRtOmE6Yg==''" by code_simp
  then show ?thesis by (rule basic_authorization_round_trip) (simp_all add: FNAMESIZE_def)
qed

section \<open>Headers of a small server\<close>

definition demo_with_header :: "string \<Rightarrow> server" where
  "demo_with_header t = demo_server\<lparr>wp := Some (demo_webs\<lparr>w_header := demo_header\<lparr>rq_buf := t @ [NUL], endp := length t\<rparr>\<rparr>)\<rparr>"

lemma demo_with_header_ok:
  "server_ok (demo_with_header t)"
  "wp (demo_with_header t) = Some (demo_webs\<lparr>w_header := demo_header\<lparr>rq_buf := t @ [NUL], endp := length t\<rparr>\<rparr>)"
  using demo_server_ok by (auto simp: demo_with_header_def server_ok_def request_ok_def webs_strs_def demo_server_def demo_webs_def)

lemma demo_header_bytes: "header_bytes (demo_webs\<lparr>w_header := demo_header\<lparr>rq_buf := t @ [NUL], endp := length t\<rparr>\<rparr>) = t @ [NUL]"
  by (simp add: header_bytes_def demo_header_def)

theorem websParseRequest_safe_witness:
  "\<exists>s'. websParseRequest demo_env (demo_with_header ''::'') = Inr s' \<and> header_frame (demo_with_header ''::'') s'"
  by (rule websParseRequest_safe [OF demo_with_header_ok]) (simp only: demo_header_bytes, simp)

theorem websParseRequest_fields_witness:
  "websParseRequest demo_env (demo_with_header (''Host: ap'' @ LF # ''Cookie:a=b''))
     = res_bind (no_authorization demo_env (demo_with_header (''Host: ap'' @ LF # ''Cookie:a=b'')))
         (header_fields demo_env (map line_field [''Host: ap'', ''Cookie:a=b'']))
   \<and> (\<exists>s'. websParseRequest demo_env (demo_with_header (''Host: ap'' @ LF # ''Cookie:a=b'')) = Inr s'
        \<and> header_frame (demo_with_header (''Host: ap'' @ LF # ''Cookie:a=b'')) s')"
  by (rule websParseRequest_fields [OF demo_with_header_ok, of _ _ "[]"])
    (simp add: proper_line_def line_key_def line_rest_def, simp only: demo_header_bytes, simp)

theorem empty_value_hides_rest_witness:
  "websParseRequest demo_env (demo_with_header (''Referer:'' @ LF # ''Host: ap'' @ LF # ''Content-Length: 9''))
     = res_bind (no_authorization demo_env (demo_with_header (''Referer:'' @ LF # ''Host: ap'' @ LF # ''Content-Length: 9'')))
         (header_fields demo_env [(strlower (line_key ''Referer:''), dropWhile gisspace ''Host: ap''), line_field ''Host: ap''])"
proof -
  have "empty_value ''Referer:''" by (simp add: empty_value_def line_key_def line_rest_def)
  moreover have "proper_line ''Host: ap''" by (simp add: proper_line_def line_key_def line_rest_def)
  moreover have "strlower (line_key ''Referer:'') \<noteq> ''authorization''" by code_simp
  ultimately show ?thesis
    by (rule empty_value_hides_rest [OF demo_with_header_ok, where R = "''Content-Length: 9'' @ [NUL]"]) (simp only: demo_header_bytes, simp)
qed

end
