(* ===== verification/Request_First.thy ===== *)
theory Request_First
  imports Request_Laws Goahead
begin

unbundle bit_operations_syntax

text \<open>
  The request line: what \<open>websParseFirst\<close> makes of a line with a known method and a URL of this server.
\<close>

section \<open>The words of the line\<close>

definition first_words :: "string \<Rightarrow> string option \<times> string option" where
  "first_words t =
     (let (op, rest) = strtok1 ('' '' @ [TAB]) t; (url, rest) = strtok1 ('' '' @ [TAB, LF]) rest in (op, url))"

definition http_ops :: "string set" where "http_ops = {''GET'', ''POST'', ''HEAD''}"

lemma strtok1_cstr:
  assumes "strtok1 D t = (r, rest)" and "is_cstr t"
  shows "is_cstr rest" and "r = Some a \<Longrightarrow> is_cstr a \<and> a \<noteq> []"
proof -
  let ?t = "dropWhile (\<lambda>c. c \<in> set D) t"
  have c: "is_cstr ?t" "is_cstr (takeWhile (\<lambda>c. c \<notin> set D) ?t)"
    using assms(2) by (auto simp: is_cstr_def dest!: set_takeWhileD set_dropWhileD)
  have e: "(r, rest) = (if ?t = [] then (None, []) else (Some (takeWhile (\<lambda>c. c \<notin> set D) ?t), drop (length (takeWhile (\<lambda>c. c \<notin> set D) ?t) + 1) ?t))"
    using assms(1) by (simp add: strtok1_def Let_def)
  then show "is_cstr rest" using c(1) by (auto split: if_splits)
  assume r: "r = Some a"
  then have n: "?t \<noteq> []" and a: "a = takeWhile (\<lambda>c. c \<notin> set D) ?t" using e by (auto split: if_splits)
  have "hd ?t \<notin> set D" using hd_dropWhile [of "\<lambda>c. c \<in> set D" t] n by simp
  then have "a \<noteq> []" unfolding a using n by (cases ?t) auto
  then show "is_cstr a \<and> a \<noteq> []" using c(2) a by simp
qed

section \<open>The type table\<close>

text \<open>The table of document types holds texts that fit the request's \<open>type\<close> field, and is not the table of the
  request's variables.\<close>

definition mime_ok :: "server \<Rightarrow> bool" where
  "mime_ok s \<longleftrightarrow> live (websMime s) (tabs s) \<and> (\<forall>w. wp s = Some w \<longrightarrow> websMime s \<noteq> w_cgiVars w)
     \<and> (\<forall>n y. syms (tabs s) (websMime s) n = Some y \<longrightarrow> (\<exists>t. s_content y = VString t \<and> length t < 64 \<and> is_cstr t))"

lemma websSetVar_mime:
  assumes "server_ok s" and "wp s = Some w" and "str_ok v" and "websSetVar e var v s = Inr s'" and "mime_ok s"
  shows "mime_ok s'"
proof -
  obtain t where t: "s' = s\<lparr>tabs := t\<rparr>" "\<forall>k. 0 \<le> k \<and> k \<noteq> w_cgiVars w \<longrightarrow> syms t k = syms (tabs s) k"
    using websSetVar_ok [OF assms(1-3), of e var] assms(4) by auto
  have lv: "live (w_cgiVars w) (tabs s)" using assms(1,2) by (auto simp: server_ok_def request_ok_def)
  obtain sp b where b: "symEnter (e_alloc e) (w_cgiVars w) var (VString (bstrdup v)) 0 (tabs s) = Inr (sp, b)" "s' = s\<lparr>tabs := b\<rparr>"
    using assms(2,4) by (auto simp: websSetVar_def)
  have "b = tabs s'" "t = tabs s'" using b(2) by simp (use t(1) in simp)
  then have "live k t = live k (tabs s)" for k using symEnter_live [OF lv b(1)] by simp
  moreover have "0 \<le> websMime s" "websMime s \<noteq> w_cgiVars w" using assms(2,5) by (auto simp: mime_ok_def live_def)
  ultimately show ?thesis using assms(2,5) t by (simp add: mime_ok_def)
qed

lemma websUrlType_ok:
  assumes s: "server_ok s" "mime_ok s" and m: "mem_total (e_mem e)" and loc: "take 7 (cdecode url) \<noteq> ''http://''"
  shows "\<exists>t. websUrlType e url 64 s = Inr t"
proof (cases "url = []")
  case False
  obtain mem where mem: "e_mem e (block_len (length url)) = Some mem" "length mem = block_len (length url)"
    using m by (fastforce simp: mem_total_def alloc_ok_def)
  obtain u ext where u: "websUrlParse (Some mem) (websPort s) url True = Inr (0, Some u)" "deref (u_buf u) (u_ext u) = Inr ext"
    using websUrlParse_fields [OF mem(2) refl loc [unfolded cdecode_def], of "websPort s"] by (auto simp: parsed_as_def)
  have "tabs_ok (tabs s)" "live (websMime s) (tabs s)" using s by (auto simp: server_ok_def mime_ok_def)
  note l = symLookup_eq [OF this, of "strlower ext"]
  show ?thesis
  proof (cases "if strlower ext = [] then None else syms (tabs s) (websMime s) (strlower ext)")
    case None
    then show ?thesis using False u mem(1) l by (simp add: websUrlType_def)
  next
    case (Some y)
    then obtain t where "s_content y = VString t" "length t < 64" using s(2) by (simp add: mime_ok_def split: if_splits) blast
    then show ?thesis using False u mem(1) l Some by (simp add: websUrlType_def)
  qed
qed (simp add: websUrlType_def)

section \<open>The request after its first line\<close>

text \<open>The bits later stages look at.\<close>

definition guard_bits :: u32 where
  "guard_bits = WEBS_LOCAL_REQUEST OR WEBS_HEADER_DONE OR WEBS_CLEN OR WEBS_AUTH_BASIC OR WEBS_POST_DATA"

lemma or_keeps: "m AND g = 0 \<Longrightarrow> n AND g = 0 \<Longrightarrow> (m OR n) AND g = (0 :: u32)"
  by (simp add: bit.conj_disj_distrib2)

lemma cut_ext_cstr: "is_cstr p \<Longrightarrow> is_cstr (fst (cut_ext p))"
  by (auto simp: cut_ext_def Let_def split: option.splits)

lemma url_fields_cstr: "is_cstr d \<Longrightarrow> is_cstr (fst (url_fields d)) \<and> is_cstr (fst (snd (url_fields d)))"
  by (simp add: url_fields_def Let_def cut_ext_cstr)

lemma set_flags_Some: "wp s = Some w \<Longrightarrow> set_flags m s = s\<lparr>wp := Some (w\<lparr>w_flags := w_flags w OR m\<rparr>)\<rparr>"
  by (simp add: set_flags_def upd_def)

lemma upd_Some: "wp s = Some w \<Longrightarrow> upd f s = s\<lparr>wp := Some (f w)\<rparr>"
  by (simp add: upd_def)

lemma cgi_marks:
  "WEBS_CGI_REQUEST AND guard_bits = 0" "WEBS_CGI_FIRMWARE_UPLOAD AND guard_bits = 0" "WEBS_CGI_UPLOAD AND guard_bits = 0"
  "WEBS_ASP AND guard_bits = 0" "WEBS_HEAD_REQUEST AND guard_bits = 0" "WEBS_POST_REQUEST AND guard_bits = 0"
  by (simp_all add: guard_bits_def request_flags)

lemma cgi_not_post:
  "WEBS_CGI_REQUEST AND WEBS_POST_REQUEST = 0" "WEBS_CGI_FIRMWARE_UPLOAD AND WEBS_POST_REQUEST = 0" "WEBS_CGI_UPLOAD AND WEBS_POST_REQUEST = 0"
  "WEBS_ASP AND WEBS_POST_REQUEST = 0" "WEBS_HEAD_REQUEST AND WEBS_POST_REQUEST = 0"
  "WEBS_POST_REQUEST \<noteq> 0"
  by (simp_all add: request_flags)

lemma cgi_flags_ok:
  assumes "wp s = Some w"
  shows "\<exists>m c. cgi_flags e url s = s\<lparr>wp := Some (w\<lparr>w_flags := w_flags w OR m, w_cgiStdin := c\<rparr>)\<rparr> \<and> m AND guard_bits = 0
    \<and> m AND WEBS_POST_REQUEST = 0"
proof (cases "has_sub CGI_BIN url")
  case False
  then show ?thesis using assms by (intro exI [of _ 0] exI [of _ "w_cgiStdin w"]) (simp add: cgi_flags_def)
next
  case True
  let ?a = "WEBS_CGI_REQUEST OR (if has_sub CGI_FIRMWARE_UPLOAD url then WEBS_CGI_FIRMWARE_UPLOAD else 0)"
  let ?m = "?a OR (if has_sub CGI_UPLOAD url then WEBS_CGI_UPLOAD else 0)"
  let ?c = "if (w_flags w OR ?a) AND WEBS_POST_REQUEST \<noteq> 0 then Some (e_cgiName e) else w_cgiStdin w"
  have "?m AND guard_bits = 0" "?m AND WEBS_POST_REQUEST = 0" by (auto intro!: or_keeps cgi_marks cgi_not_post)
  moreover have "cgi_flags e url s = s\<lparr>wp := Some (w\<lparr>w_flags := w_flags w OR ?m, w_cgiStdin := ?c\<rparr>)\<rparr>"
    using assms True by (simp add: cgi_flags_def Let_def set_flags_Some upd_Some or.assoc)
  ultimately show ?thesis by blast
qed

lemma method_mark:
  assumes "wp s = Some w"
  shows "\<exists>f. (if op = ''POST'' then set_flags WEBS_POST_REQUEST s else if op = ''HEAD'' then set_flags WEBS_HEAD_REQUEST s else s)
      = s\<lparr>wp := Some (w\<lparr>w_flags := w_flags w OR f\<rparr>)\<rparr> \<and> f AND guard_bits = 0 \<and> (f AND WEBS_POST_REQUEST = 0 \<longleftrightarrow> op \<noteq> ''POST'')"
proof -
  let ?f = "if op = ''POST'' then WEBS_POST_REQUEST else if op = ''HEAD'' then WEBS_HEAD_REQUEST else 0"
  have "?f AND guard_bits = 0" "?f AND WEBS_POST_REQUEST = 0 \<longleftrightarrow> op \<noteq> ''POST''" by (simp_all add: cgi_marks cgi_not_post)
  then show ?thesis using assms by (intro exI [of _ ?f]) (simp add: set_flags_Some)
qed

lemma websParseFirst_local:
  assumes ok: "server_ok s" "wp s = Some w" "mime_ok s" and m: "mem_total (e_mem e)"
    and t: "is_cstr text" "first_words text = (Some op, Some url)" "op \<in> http_ops"
    and loc: "take 7 (cdecode url) \<noteq> ''http://''" and h: "rq_ok (w_header w)"
  shows "\<exists>t' m c pv pt ty hq. websParseFirst e text s = Inr (0, s\<lparr>tabs := t', wp := Some (w\<lparr>w_url := Some url, w_cgiStdin := c,
        w_query := Some (fst (snd (url_fields (cdecode url)))), w_host := Some ''localhost'',
        w_path := Some (fst (url_fields (cdecode url))), w_protocol := Some ''http'', w_protoVersion := Some pv, w_port := pt,
        w_flags := w_flags w OR m, w_type := ty, w_header := hq\<rparr>)\<rparr>)
    \<and> m AND guard_bits = 0 \<and> (m AND WEBS_POST_REQUEST = 0 \<longleftrightarrow> op \<noteq> ''POST'') \<and> is_cstr pv \<and> is_cstr url
    \<and> rq_cstr hq \<and> contents hq = [] \<and> maxsize hq = maxsize (w_header w)
    \<and> server_ok (s\<lparr>tabs := t'\<rparr>) \<and> mime_ok (s\<lparr>tabs := t'\<rparr>)
    \<and> syms t' (formSymtab s) = syms (tabs s) (formSymtab s)"
proof -
  obtain r1 r2 where w1: "strtok1 ('' '' @ [TAB]) text = (Some op, r1)" "strtok1 ('' '' @ [TAB, LF]) r1 = (Some url, r2)"
    using t(2) by (auto simp: first_words_def split: prod.splits)
  have c1: "is_cstr op" "is_cstr r1" using strtok1_cstr [OF w1(1) t(1)] by auto
  have c2: "is_cstr url" "is_cstr r2" using strtok1_cstr [OF w1(2) c1(2)] by auto
  obtain f where f: "(if op = ''POST'' then set_flags WEBS_POST_REQUEST s else if op = ''HEAD'' then set_flags WEBS_HEAD_REQUEST s else s)
      = s\<lparr>wp := Some (w\<lparr>w_flags := w_flags w OR f\<rparr>)\<rparr>" "f AND guard_bits = 0" "f AND WEBS_POST_REQUEST = 0 \<longleftrightarrow> op \<noteq> ''POST''"
    using method_mark [OF ok(2)] by blast
  let ?w1 = "w\<lparr>w_flags := w_flags w OR f\<rparr>" let ?s1 = "s\<lparr>wp := Some ?w1\<rparr>"
  have ok1: "server_ok ?s1" "mime_ok ?s1" using ok by (auto simp: server_ok_def request_ok_def webs_strs_def mime_ok_def)
  obtain t' where t': "websSetVar e ''REQUEST_METHOD'' (Some op) ?s1 = Inr (?s1\<lparr>tabs := t'\<rparr>)" "server_ok (?s1\<lparr>tabs := t'\<rparr>)"
    "\<forall>k. 0 \<le> k \<and> k \<noteq> w_cgiVars w \<longrightarrow> syms t' k = syms (tabs s) k"
    using websSetVar_ok [OF ok1(1), of ?w1 "Some op" e "''REQUEST_METHOD''"] c1(1) by auto
  have mime: "mime_ok (?s1\<lparr>tabs := t'\<rparr>)" using websSetVar_mime [OF ok1(1) _ _ t'(1) ok1(2)] c1(1) by simp
  obtain mem where mem: "e_mem e (block_len (length url)) = Some mem" "length mem = block_len (length url)"
    using m by (fastforce simp: mem_total_def alloc_ok_def)
  obtain u where u: "websUrlParse (Some mem) (websPort s) url True = Inr (0, Some u)"
    "parsed_as u ''localhost'' (fst (url_fields (cdecode url))) (stritoa (websPort s) MAX_PORT_LEN)
       (fst (snd (url_fields (cdecode url)))) ''http'' (snd (snd (url_fields (cdecode url))))"
    using websUrlParse_fields [OF mem(2) cdecode_def loc, of "websPort s"] by blast
  then have ds: "deref (u_buf u) (u_query u) = Inr (fst (snd (url_fields (cdecode url))))" "deref (u_buf u) (u_host u) = Inr ''localhost''"
    "deref (u_buf u) (u_path u) = Inr (fst (url_fields (cdecode url)))" "deref (u_buf u) (u_proto u) = Inr ''http''"
    "deref (u_buf u) (u_port u) = Inr (stritoa (websPort s) MAX_PORT_LEN)"
    "deref (u_buf u) (u_ext u) = Inr (snd (snd (url_fields (cdecode url))))" by (simp_all add: parsed_as_def)
  obtain pv r3 where pv: "strtok1 ('' '' @ [TAB, LF]) r2 = (pv, r3)" by (cases "strtok1 ('' '' @ [TAB, LF]) r2")
  have pvc: "is_cstr (bstrdup pv)" using strtok1_cstr(2) [OF pv c2(2)] by (cases pv) (auto simp: bstrdup_def)
  let ?w2 = "?w1\<lparr>w_url := Some url\<rparr>" let ?s2 = "?s1\<lparr>tabs := t', wp := Some ?w2\<rparr>"
  obtain m2 c where m2: "cgi_flags e url ?s2 = ?s2\<lparr>wp := Some (?w2\<lparr>w_flags := w_flags ?w2 OR m2, w_cgiStdin := c\<rparr>)\<rparr>"
    "m2 AND guard_bits = 0" "m2 AND WEBS_POST_REQUEST = 0" using cgi_flags_ok [of ?s2 ?w2 e url] by auto
  let ?a = "if snd (snd (url_fields (cdecode url))) = ''.asp'' then WEBS_ASP else 0"
  let ?pt = "if 0 \<le> e_port e then e_port e else gatoi (stritoa (websPort s) MAX_PORT_LEN)"
  let ?m = "f OR m2 OR ?a"
  let ?w5 = "w\<lparr>w_url := Some url, w_cgiStdin := c, w_query := Some (fst (snd (url_fields (cdecode url)))),
    w_host := Some ''localhost'', w_path := Some (fst (url_fields (cdecode url))), w_protocol := Some ''http'',
    w_protoVersion := Some (bstrdup pv), w_port := ?pt, w_flags := w_flags w OR ?m\<rparr>"
  let ?s5 = "s\<lparr>tabs := t', wp := Some ?w5\<rparr>"
  have strs: "is_cstr (fst (url_fields (cdecode url)))" "is_cstr (fst (snd (url_fields (cdecode url))))"
    using url_fields_cstr [of "cdecode url"] by simp_all
  have ok5: "server_ok ?s5" "mime_ok ?s5" "server_ok (s\<lparr>tabs := t'\<rparr>)" "mime_ok (s\<lparr>tabs := t'\<rparr>)"
    using t'(2) mime strs pvc c2(1) ok(2) by (auto simp: server_ok_def request_ok_def webs_strs_def mime_ok_def)
  obtain ty where ty: "websUrlType e url 64 ?s5 = Inr ty" using websUrlType_ok [OF ok5(1,2) m loc] by blast
  obtain hq where hq: "ringqFlush (w_header w) = Inr hq" "rq_cstr hq" "contents hq = []" "maxsize hq = maxsize (w_header w)"
    using ringqFlush_ok [OF h] by blast
  have "?m AND guard_bits = 0" using m2(2) f(2) by (intro or_keeps) (auto intro: cgi_marks)
  moreover have "?m AND WEBS_POST_REQUEST = 0 \<longleftrightarrow> op \<noteq> ''POST''"
    using m2(3) f(3) by (simp add: bit.conj_disj_distrib2 cgi_not_post)
  moreover have "websParseFirst e text s = Inr (0, s\<lparr>tabs := t', wp := Some (?w5\<lparr>w_type := ty, w_header := hq\<rparr>)\<rparr>)"
  proof -
    have g: "op = ''GET'' \<or> op = ''POST'' \<or> op = ''HEAD''" using t(3) by (simp add: http_ops_def)
    have 1: "websParseFirst e text s = res_bind (websSetVar e ''REQUEST_METHOD'' (Some op) ?s1) (parse_url e r1)"
      using g w1(1) f(1) by (auto simp: websParseFirst_def Let_def)
    have fp: "fst (strtok1 ('' '' @ [TAB, LF]) r2) = pv" using pv by simp
    have c2': "cgi_flags e url (upd (\<lambda>w. w\<lparr>w_url := Some url\<rparr>) (?s1\<lparr>tabs := t'\<rparr>))
      = ?s2\<lparr>wp := Some (?w2\<lparr>w_flags := w_flags ?w2 OR m2, w_cgiStdin := c\<rparr>)\<rparr>" using m2(1) by (simp add: upd_Some)
    have pt: "websPort (?s1\<lparr>tabs := t'\<rparr>) = websPort s" by simp
    define a where "a = ?a"
    have asp: "(if snd (snd (url_fields (cdecode url))) = ''.asp'' then set_flags WEBS_ASP x else x)
      = x\<lparr>wp := Some (v\<lparr>w_flags := w_flags v OR a\<rparr>)\<rparr>" if "wp x = Some v" for x v
      using that by (simp add: set_flags_Some a_def)
    have "parse_url e r1 (?s1\<lparr>tabs := t'\<rparr>) = Inr (0, s\<lparr>tabs := t', wp := Some (?w5\<lparr>w_type := ty, w_header := hq\<rparr>)\<rparr>)"
      using ty unfolding parse_url_def w1(2) fp Let_def option.case prod.case mem(1) pt u(1) res_bind.simps ds c2' a_def [symmetric]
      by (simp add: upd_Some asp hq(1) or.assoc)
    then show ?thesis using 1 t'(1) by simp
  qed
  moreover have "syms t' (formSymtab s) = syms (tabs s) (formSymtab s)"
    using t'(3) ok by (auto simp: server_ok_def request_ok_def live_def)
  ultimately show ?thesis using pvc c2(1) hq(2-4) ok5(3,4)
    by (intro exI [of _ t'] exI [of _ ?m] exI [of _ c] exI [of _ "bstrdup pv"] exI [of _ ?pt] exI [of _ ty] exI [of _ hq] conjI) simp_all
qed

section \<open>Credentials in the fields\<close>

lemma websSetVar_frame: "websSetVar e var v s = Inr s' \<Longrightarrow> wp s' = wp s"
  by (auto simp: websSetVar_def)

text \<open>The name and the password a field brings.\<close>

definition field_login :: "string \<times> string \<Rightarrow> (string \<times> string) option" where
  "field_login f =
     (let v = snd f in
      if fst f = ''authorization'' \<and> strlower (takeWhile gisalpha v) = ''basic''
      then (case decode_auth (case find_index (\<lambda>c. c = CHR '' '') v of None \<Rightarrow> v | Some k \<Rightarrow> drop (k + 1) v) of
              Inl _ \<Rightarrow> None | Inr t \<Rightarrow> Some (split_auth t))
      else None)"

fun sent_login :: "(string \<times> string) list \<Rightarrow> (string \<times> string) option \<Rightarrow> (string \<times> string) option" where
  "sent_login [] l = l"
| "sent_login (f # fs) l = sent_login fs (case field_login f of None \<Rightarrow> l | Some x \<Rightarrow> Some x)"

definition login_of :: "webs \<Rightarrow> (string \<times> string) option \<Rightarrow> bool" where
  "login_of w l \<longleftrightarrow> w_userName w = map_option fst l \<and> w_password w = map_option snd l"

lemma authorization_login:
  assumes "authorization v s = Inr (c, s')" and "wp s = Some w" and "login_of w l"
  shows "\<exists>w'. wp s' = Some w' \<and> login_of w' (case field_login (''authorization'', v) of None \<Rightarrow> l | Some x \<Rightarrow> Some x)"
proof -
  let ?t = "case find_index (\<lambda>c. c = CHR '' '') v of None \<Rightarrow> v | Some k \<Rightarrow> drop (k + 1) v"
  obtain t where t: "decode_auth ?t = Inr t" using decode_auth_answers by blast
  show ?thesis
    using assms t by (cases "find_index (\<lambda>c. c = CHR '' '') v"; cases "split_auth t")
      (auto simp: authorization_def Let_def field_login_def set_flags_def login_of_def split: if_splits)
qed

lemma header_field_login:
  assumes f: "header_field e k v s = Inr (c, s')" and w: "wp s = Some w" "login_of w l"
  shows "\<exists>w'. wp s' = Some w' \<and> login_of w' (case field_login (k, v) of None \<Rightarrow> l | Some x \<Rightarrow> Some x)"
proof -
  obtain t s1 where s1: "websSetVar e t (Some v) s = Inr s1" "http_name k = Inr t" using f by (auto simp: header_field_def)
  then have w1: "wp s1 = Some w" using websSetVar_frame w(1) by metis
  show ?thesis
  proof (cases "k = ''authorization''")
    case True
    then have "authorization v s1 = Inr (c, s')" using f s1 by (simp add: header_field_def)
    from authorization_login [OF this w1 w(2)] True show ?thesis by simp
  next
    case False
    then have "field_login (k, v) = None" by (simp add: field_login_def)
    moreover have "\<exists>w'. wp s' = Some w' \<and> login_of w' l"
      using f s1 False w1 w(2) unfolding header_field_def Let_def
      by (auto simp: login_of_def set_flags_def dest!: websSetVar_frame split: if_splits)
    ultimately show ?thesis by simp
  qed
qed

lemma header_fields_login:
  "header_fields e fs s = Inr s' \<Longrightarrow> wp s = Some w \<Longrightarrow> login_of w l \<Longrightarrow> \<exists>w'. wp s' = Some w' \<and> login_of w' (sent_login fs l)"
proof (induction fs arbitrary: s w l)
  case (Cons f fs)
  obtain k v where f: "f = (k, v)" by (cases f)
  obtain c s1 where s1: "header_field e k v s = Inr (c, s1)" "header_fields e fs s1 = Inr s'" using Cons.prems(1) f by auto
  obtain w1 where "wp s1 = Some w1" "login_of w1 (case field_login (k, v) of None \<Rightarrow> l | Some x \<Rightarrow> Some x)"
    using header_field_login [OF s1(1) Cons.prems(2,3)] by blast
  from Cons.IH [OF s1(2) this] f show ?case by simp
qed simp

section \<open>Collecting the header\<close>

lemma join_lines_snoc: "ts \<noteq> [] \<Longrightarrow> join_lines (ts @ [b]) = join_lines ts @ LF # b"
  by (induction ts rule: join_lines.induct) auto

lemma join_lines_mono: "length (join_lines ts) \<le> length (join_lines (ts @ us))"
proof (induction us rule: rev_induct)
  case (snoc u us)
  moreover have "length (join_lines (ts @ us)) \<le> length (join_lines ((ts @ us) @ [u]))"
    using join_lines_snoc [of "ts @ us" u] by (cases "ts @ us = []") auto
  ultimately show ?case by simp
qed simp

lemma text_of_cstr: "is_cstr b \<Longrightarrow> text_of b = b"
  by (auto simp: text_of_def is_cstr_def takeWhile_eq_all_conv)

definition fits :: "ringq \<Rightarrow> nat \<Rightarrow> bool" where
  "fits rq n \<longleftrightarrow> maxsize rq < 0 \<or> int n + 1 < maxsize rq"

lemma put_fits:
  assumes "mem_total mem" and "rq_cstr rq" and "is_cstr str" and "fits rq (length (contents rq) + length str)"
  shows "\<exists>rq'. ringqPutStr mem rq str = Inr (length str, rq') \<and> rq_cstr rq' \<and> contents rq' = contents rq @ str \<and> maxsize rq' = maxsize rq"
proof -
  have m: "alloc_ok mem" "\<not> (\<exists>k. mem k = None)" using assms(1) by (auto simp: mem_total_def)
  obtain n rq' where r: "ringqPutStr mem rq str = Inr (n, rq')" "rq_cstr rq'" "n \<le> length str" "contents rq' = contents rq @ take n str"
    "maxsize rq' = maxsize rq" "n = length str \<or> (0 \<le> maxsize rq \<and> maxsize rq \<le> int (length (contents rq')) + 1)"
    using ringqPutStr_cstr [OF m(1) assms(2,3)] m(2) by blast
  then have "n = length str" using assms(4) by (auto simp: fits_def)
  then show ?thesis using r by auto
qed

lemma header_text_ok:
  assumes w: "wp s = Some w" and m: "mem_total (e_mem e)" and h: "rq_cstr (w_header w)" "contents (w_header w) = join_lines ts"
    and ts: "[] \<notin> set ts" and b: "is_cstr b" and f: "fits (w_header w) (length (join_lines (ts @ [b])))"
  shows "\<exists>hq. header_text e \<lparr>i_rc = 1, i_text = Some b, i_bytes = n\<rparr> s = Inr (False, s\<lparr>wp := Some (w\<lparr>w_header := hq\<rparr>)\<rparr>)
    \<and> rq_cstr hq \<and> contents hq = join_lines (ts @ [b]) \<and> maxsize hq = maxsize (w_header w)"
proof -
  let ?q = "w_header w"
  have l: "ringqLen ?q = length (join_lines ts)" using length_contents [of ?q] h by (simp add: rq_cstr_def)
  show ?thesis
  proof (cases "ts = []")
    case True
    then have "ringqLen ?q = 0" "contents ?q = []" using l h(2) by simp_all
    moreover obtain hq where "ringqPutStr (e_mem e) ?q b = Inr (length b, hq)" "rq_cstr hq" "contents hq = contents ?q @ b" "maxsize hq = maxsize ?q"
      using put_fits [OF m h(1) b] f True calculation by auto
    ultimately show ?thesis using w True text_of_cstr [OF b] by (intro exI [of _ hq]) (simp add: header_text_def upd_Some)
  next
    case False
    then have n: "0 < ringqLen ?q" using l ts by (cases ts rule: join_lines.cases) auto
    have len: "length (join_lines (ts @ [b])) = length (contents ?q) + 1 + length b" using join_lines_snoc [OF False] h(2) by simp
    obtain q1 where q1: "ringqPutStr (e_mem e) ?q [LF] = Inr (length [LF], q1)" "rq_cstr q1" "contents q1 = contents ?q @ [LF]" "maxsize q1 = maxsize ?q"
      using put_fits [OF m h(1), of "[LF]"] f len by (auto simp: fits_def)
    obtain q2 where q2: "ringqPutStr (e_mem e) q1 b = Inr (length b, q2)" "rq_cstr q2" "contents q2 = contents q1 @ b" "maxsize q2 = maxsize q1"
      using put_fits [OF m q1(2) b] f len q1 by (auto simp: fits_def)
    then show ?thesis using w q1 n h(2) join_lines_snoc [OF False] text_of_cstr [OF b]
      by (intro exI [of _ q2]) (simp add: header_text_def upd_Some)
  qed
qed

section \<open>Lines from the network\<close>

text \<open>A socket with whole lines to read, and nothing collected of a line.\<close>

definition clean_sock :: "socket \<Rightarrow> byte list \<Rightarrow> bool" where
  "clean_sock sp input \<longleftrightarrow> sock_ok sp \<and> so_flags sp AND SOCKET_EOF = 0 \<and> contents (so_line sp) = [] \<and> avail sp = input"

lemma clean_gets:
  assumes "mem_total mem" and "clean_sock sp (l @ LF # r)" and "LF \<notin> set l"
  shows "\<exists>sp'. socketGets mem sp = Inr (int (length (no_cr l)), if no_cr l = [] then None else Some (no_cr l), sp') \<and> clean_sock sp' r"
proof -
  have s: "sock_ok sp" "so_flags sp AND SOCKET_EOF = 0" "avail sp = l @ LF # r" "contents (so_line sp) = []"
    using assms(2) by (simp_all add: clean_sock_def)
  from gets_line [OF assms(1) s(1,2,3) assms(3)] s(4) show ?thesis by (auto simp: clean_sock_def s(2))
qed

lemma get_text:
  assumes w: "wp s = Some w" "w_state w \<noteq> WEBS_POST_CLEN" and m: "mem_total (e_mem e)"
    and sp: "clean_sock (sock s) (l @ LF # r)" "LF \<notin> set l" "no_cr l \<noteq> []"
  shows "\<exists>sp. get_input e forms others h s
      = Inr (\<lparr>i_rc = 1, i_text = Some (no_cr l), i_bytes = int (length (no_cr l))\<rparr>, s\<lparr>sock := sp\<rparr>) \<and> clean_sock sp r"
proof -
  obtain sp' where "socketGets (e_mem e) (sock s) = Inr (int (length (no_cr l)), Some (no_cr l), sp')" "clean_sock sp' r"
    using clean_gets [OF m sp(1,2)] sp(3) by auto
  then show ?thesis using w sp(3) by (auto simp: get_input_def websGetInput_def)
qed

lemma read_headers:
  assumes m: "mem_total (e_mem e)"
  shows "wp s = Some w \<Longrightarrow> w_state w = WEBS_HEADER \<Longrightarrow> rq_cstr (w_header w) \<Longrightarrow> contents (w_header w) = join_lines ts \<Longrightarrow> [] \<notin> set ts
    \<Longrightarrow> clean_sock (sock s) (lines_of hs @ r) \<Longrightarrow> \<forall>l \<in> set hs. LF \<notin> set l \<and> no_cr l \<noteq> [] \<and> is_cstr l
    \<Longrightarrow> fits (w_header w) (length (join_lines (ts @ map no_cr hs)))
    \<Longrightarrow> \<exists>sp hq. read_event e forms others h (length hs + k) s = read_event e forms others h k (s\<lparr>sock := sp, wp := Some (w\<lparr>w_header := hq\<rparr>)\<rparr>)
      \<and> clean_sock sp r \<and> rq_cstr hq \<and> contents hq = join_lines (ts @ map no_cr hs)"
proof (induction hs arbitrary: s w ts)
  case Nil
  have "s\<lparr>sock := sock s, wp := Some (w\<lparr>w_header := w_header w\<rparr>)\<rparr> = s" using Nil(1) by (cases s) simp
  then have "read_event e forms others h (length [] + k) s
      = read_event e forms others h k (s\<lparr>sock := sock s, wp := Some (w\<lparr>w_header := w_header w\<rparr>)\<rparr>)" by simp
  then show ?case by (intro exI conjI) (use Nil in \<open>simp_all add: lines_of_def\<close>)
next
  case (Cons l hs)
  have l: "LF \<notin> set l" "no_cr l \<noteq> []" "is_cstr l" using Cons.prems(7) by simp_all
  have st: "w_state w \<noteq> WEBS_POST_CLEN" "w_state w \<noteq> WEBS_BEGIN" using Cons.prems(2) by (simp_all add: WEBS_HEADER_def WEBS_POST_CLEN_def WEBS_BEGIN_def)
  have "clean_sock (sock s) (l @ LF # lines_of hs @ r)" using Cons.prems(6) by (simp add: lines_of_def)
  from get_text [OF Cons.prems(1) st(1) m this l(1,2), of forms others h] obtain sp1 where
    g: "get_input e forms others h s = Inr (\<lparr>i_rc = 1, i_text = Some (no_cr l), i_bytes = int (length (no_cr l))\<rparr>, s\<lparr>sock := sp1\<rparr>)"
      "clean_sock sp1 (lines_of hs @ r)" by blast
  have c: "is_cstr (no_cr l)" using l(3) by (auto simp: no_cr_def is_cstr_def)
  have "length (join_lines (ts @ [no_cr l])) \<le> length (join_lines (ts @ map no_cr (l # hs)))" using join_lines_mono [of "ts @ [no_cr l]"] by simp
  then have f: "fits (w_header w) (length (join_lines (ts @ [no_cr l])))" using Cons.prems(8) by (auto simp: fits_def)
  have w1: "wp (s\<lparr>sock := sp1\<rparr>) = Some w" using Cons.prems(1) by simp
  obtain hq where hq: "header_text e \<lparr>i_rc = 1, i_text = Some (no_cr l), i_bytes = int (length (no_cr l))\<rparr> (s\<lparr>sock := sp1\<rparr>)
      = Inr (False, s\<lparr>sock := sp1, wp := Some (w\<lparr>w_header := hq\<rparr>)\<rparr>)" "rq_cstr hq" "contents hq = join_lines (ts @ [no_cr l])"
      "maxsize hq = maxsize (w_header w)"
    using header_text_ok [OF w1 m Cons.prems(3,4,5) c f, of "int (length (no_cr l))"] by blast
  let ?s = "s\<lparr>sock := sp1, wp := Some (w\<lparr>w_header := hq\<rparr>)\<rparr>"
  have step: "read_event e forms others h (length (l # hs) + k) s = read_event e forms others h (length hs + k) ?s"
    using g(1) hq(1) w1 Cons.prems(2) st by (simp add: event_step_def)
  have "\<exists>sp hq'. read_event e forms others h (length hs + k) ?s
      = read_event e forms others h k (?s\<lparr>sock := sp, wp := Some (w\<lparr>w_header := hq, w_header := hq'\<rparr>)\<rparr>)
      \<and> clean_sock sp r \<and> rq_cstr hq' \<and> contents hq' = join_lines ((ts @ [no_cr l]) @ map no_cr hs)"
    using Cons.prems(2,5,7,8) hq(2-4) g(2) l(2) by (intro Cons.IH) (simp_all add: fits_def)
  then show ?case using step by auto
qed

section \<open>A whole request\<close>

text \<open>The end of the header: an empty line on a request that is not a POST.\<close>

lemma read_end:
  assumes w: "wp s = Some w" "w_state w = WEBS_HEADER" and m: "mem_total (e_mem e)" and sp: "clean_sock (sock s) (l @ LF # r)" "LF \<notin> set l" "no_cr l = []"
    and p: "\<And>sp. clean_sock sp r \<Longrightarrow> \<exists>s1 w1. websParseRequest e (s\<lparr>sock := sp\<rparr>) = Inr s1 \<and> wp s1 = Some w1 \<and> w_flags w1 AND WEBS_POST_REQUEST = 0"
  shows "\<exists>sp s1. websParseRequest e (s\<lparr>sock := sp\<rparr>) = Inr s1 \<and> clean_sock sp r
    \<and> read_event e forms others h (Suc k) s = res_bind (websUrlHandlerRequest e forms others h s1) (\<lambda>(n, s). Inr s)"
proof -
  obtain sp' where g: "socketGets (e_mem e) (sock s) = Inr (0, None, sp')" "clean_sock sp' r" using clean_gets [OF m sp(1,2)] sp(3) by auto
  obtain s1 w1 where s1: "websParseRequest e (s\<lparr>sock := sp'\<rparr>) = Inr s1" "wp s1 = Some w1" "w_flags w1 AND WEBS_POST_REQUEST = 0" using p [OF g(2)] by blast
  have st: "WEBS_HEADER \<noteq> WEBS_POST_CLEN" by (simp add: WEBS_HEADER_def WEBS_POST_CLEN_def)
  have "websGetInput e forms others h s = res_bind (websUrlHandlerRequest e forms others h s1) (\<lambda>(n, s). Inr (no_input (- 1), s))"
    using g(1) s1 w st by (simp add: websGetInput_def header_done_def)
  then have "read_event e forms others h (Suc k) s = res_bind (websUrlHandlerRequest e forms others h s1) (\<lambda>(n, s). Inr s)"
    by (cases "websUrlHandlerRequest e forms others h s1") (auto simp: get_input_def)
  then show ?thesis using s1(1) g(2) by blast
qed

lemma server_ok_sock [simp]: "server_ok (s\<lparr>sock := sp\<rparr>) = server_ok s" "mime_ok (s\<lparr>sock := sp\<rparr>) = mime_ok s"
  by (simp_all add: server_ok_def request_ok_def mime_ok_def)

lemma state_codes: "WEBS_BEGIN \<noteq> WEBS_POST_CLEN" "WEBS_HEADER \<noteq> WEBS_POST_CLEN" "WEBS_HEADER \<noteq> WEBS_BEGIN"
  by (simp_all add: WEBS_HEADER_def WEBS_POST_CLEN_def WEBS_BEGIN_def)

text \<open>A request as it arrives: the request line, header lines that \<open>strtok\<close> can split, an empty line.\<close>

definition request_text :: "byte list \<Rightarrow> byte list list \<Rightarrow> byte list \<Rightarrow> string \<Rightarrow> string \<Rightarrow> bool" where
  "request_text l0 hs lE op url \<longleftrightarrow> (\<forall>l \<in> set (l0 # hs @ [lE]). LF \<notin> set l \<and> is_cstr l) \<and> no_cr lE = []
     \<and> (\<forall>l \<in> set hs. proper_line (no_cr l)) \<and> first_words (no_cr l0) = (Some op, Some url) \<and> op \<in> http_ops
     \<and> take 7 (cdecode url) \<noteq> ''http://''"

text \<open>A connection \<open>websAccept\<close> has just set up.\<close>

definition accepted :: "env \<Rightarrow> server \<Rightarrow> webs \<Rightarrow> bool" where
  "accepted e s w \<longleftrightarrow> server_ok s \<and> mime_ok s \<and> mem_total (e_mem e) \<and> wp s = Some w \<and> w_state w = WEBS_BEGIN
     \<and> w_flags w AND guard_bits = 0 \<and> w_flags w AND WEBS_POST_REQUEST = 0 \<and> w_userName w = None \<and> w_password w = None \<and> rq_ok (w_header w)"

lemma exE7: "\<exists>a b c d e f g. P a b c d e f g \<Longrightarrow> (\<And>a b c d e f g. P a b c d e f g \<Longrightarrow> thesis) \<Longrightarrow> thesis"
  by blast

lemma bit_of: "x AND g = 0 \<Longrightarrow> g AND b = b \<Longrightarrow> x AND b = (0 :: u32)"
proof -
  assume g: "x AND g = 0" "g AND b = b"
  have "x AND b = x AND (g AND b)" using g(2) by simp
  also have "\<dots> = (x AND g) AND b" by (simp only: and.assoc)
  finally show ?thesis using g(1) by simp
qed

lemma guarded: "guard_bits AND WEBS_LOCAL_REQUEST = WEBS_LOCAL_REQUEST" "guard_bits AND WEBS_HEADER_DONE = WEBS_HEADER_DONE"
  by (simp_all add: guard_bits_def request_flags)

lemma lines_length: "length ls \<le> length (lines_of ls)"
  by (induction ls) (simp_all add: lines_of_def)

lemma read_request:
  assumes a: "accepted e s w" and t: "request_text l0 hs lE op url" "op \<noteq> ''POST''"
    and sp: "clean_sock (sock s) (lines_of (l0 # hs @ [lE]) @ r)" and f: "fits (w_header w) (length (join_lines (map no_cr hs)))"
  shows "\<exists>s1 w1. websReadEvent e forms others h s = res_bind (websUrlHandlerRequest e forms others h s1) (\<lambda>(n, s). Inr s)
    \<and> server_ok s1 \<and> wp s1 = Some w1 \<and> w_path w1 = Some (fst (url_fields (cdecode url))) \<and> w_url w1 = Some url
    \<and> w_query w1 = Some (fst (snd (url_fields (cdecode url)))) \<and> login_of w1 (sent_login (map (line_field \<circ> no_cr) hs) None)
    \<and> w_flags w1 AND WEBS_LOCAL_REQUEST = 0 \<and> w_flags w1 AND WEBS_HEADER_DONE = 0
    \<and> umdb s1 = umdb s \<and> out s1 = out s \<and> st_formHits s1 = st_formHits s \<and> formSymtab s1 = formSymtab s
    \<and> syms (tabs s1) (formSymtab s) = syms (tabs s) (formSymtab s) \<and> websDefaultDir s1 = websDefaultDir s"
proof -
  note a' = a [unfolded accepted_def] and t' = t(1) [unfolded request_text_def]
  have m: "mem_total (e_mem e)" and w: "wp s = Some w" "w_state w = WEBS_BEGIN" using a' by simp_all
  let ?p = "fst (url_fields (cdecode url))" and ?q = "fst (snd (url_fields (cdecode url)))" and ?ts = "map no_cr hs"
  \<comment> \<open>the fuel\<close>
  have "sock_ok (sock s)" "avail (sock s) = lines_of (l0 # hs @ [lE]) @ r" using sp by (simp_all add: clean_sock_def)
  then have "length (l0 # hs @ [lE]) \<le> pending (sock s)"
    using avail_pending [of "sock s"] lines_length [of "l0 # hs @ [lE]"] by simp
  then have "\<exists>k. pending (sock s) + ringqLen (so_line (sock s)) + 2 = Suc (length hs + Suc k)"
    by (intro exI [of _ "pending (sock s) + ringqLen (so_line (sock s)) - length hs"]) simp
  then obtain k where k: "pending (sock s) + ringqLen (so_line (sock s)) + 2 = Suc (length hs + Suc k)" by blast
  \<comment> \<open>the request line\<close>
  have l0: "clean_sock (sock s) (l0 @ LF # lines_of hs @ lE @ LF # r)" "LF \<notin> set l0" "no_cr l0 \<noteq> []" "is_cstr (no_cr l0)"
  proof -
    show "clean_sock (sock s) (l0 @ LF # lines_of hs @ lE @ LF # r)" using sp by (simp add: lines_of_def)
    show "LF \<notin> set l0" using t' by simp
    show "no_cr l0 \<noteq> []" using t' by (auto simp: first_words_def strtok1_def)
    show "is_cstr (no_cr l0)" using t' by (auto simp: no_cr_def is_cstr_def)
  qed
  have st0: "w_state w \<noteq> WEBS_POST_CLEN" using w(2) state_codes by simp
  obtain sp1 where g: "get_input e forms others h s
      = Inr (\<lparr>i_rc = 1, i_text = Some (no_cr l0), i_bytes = int (length (no_cr l0))\<rparr>, s\<lparr>sock := sp1\<rparr>)"
    "clean_sock sp1 (lines_of hs @ lE @ LF # r)" using get_text [OF w(1) st0 m l0(1-3)] by blast
  have ok1: "server_ok (s\<lparr>sock := sp1\<rparr>)" "wp (s\<lparr>sock := sp1\<rparr>) = Some w" "mime_ok (s\<lparr>sock := sp1\<rparr>)" using a' by simp_all
  have fw: "first_words (no_cr l0) = (Some op, Some url)" "op \<in> http_ops" "take 7 (cdecode url) \<noteq> ''http://''" "rq_ok (w_header w)"
    using t' a' by simp_all
  obtain tb mk c pv pt ty hq where pf: "websParseFirst e (no_cr l0) (s\<lparr>sock := sp1\<rparr>) = Inr (0, s\<lparr>sock := sp1, tabs := tb, wp := Some (w\<lparr>w_url := Some url,
        w_cgiStdin := c, w_query := Some ?q, w_host := Some ''localhost'', w_path := Some ?p, w_protocol := Some ''http'',
        w_protoVersion := Some pv, w_port := pt, w_flags := w_flags w OR mk, w_type := ty, w_header := hq\<rparr>)\<rparr>)"
    and pr: "mk AND guard_bits = 0" "mk AND WEBS_POST_REQUEST = 0 \<longleftrightarrow> op \<noteq> ''POST''" "is_cstr pv" "is_cstr url"
      "rq_cstr hq" "contents hq = []" "maxsize hq = maxsize (w_header w)" "server_ok (s\<lparr>sock := sp1, tabs := tb\<rparr>)"
      "mime_ok (s\<lparr>sock := sp1, tabs := tb\<rparr>)" "syms tb (formSymtab (s\<lparr>sock := sp1\<rparr>)) = syms (tabs (s\<lparr>sock := sp1\<rparr>)) (formSymtab (s\<lparr>sock := sp1\<rparr>))"
    by (rule exE7 [OF websParseFirst_local [OF ok1 m l0(4) fw(1,2,3,4)]], elim conjE) (rule that)
  define w1 where "w1 = w\<lparr>w_url := Some url, w_cgiStdin := c, w_query := Some ?q, w_host := Some ''localhost'', w_path := Some ?p,
    w_protocol := Some ''http'', w_protoVersion := Some pv, w_port := pt, w_flags := w_flags w OR mk, w_type := ty, w_header := hq,
    w_state := WEBS_HEADER\<rparr>"
  let ?s1 = "s\<lparr>sock := sp1, tabs := tb, wp := Some w1\<rparr>"
  have step1: "read_event e forms others h (Suc n) s = read_event e forms others h n ?s1" for n
    using g(1) pf w text_of_cstr [OF l0(4)] by (simp add: event_step_def upd_Some w1_def)
  \<comment> \<open>the header\<close>
  have w1: "wp ?s1 = Some w1" "w_state w1 = WEBS_HEADER" "rq_cstr (w_header w1)" "contents (w_header w1) = join_lines []"
    "clean_sock (sock ?s1) (lines_of hs @ lE @ LF # r)" "fits (w_header w1) (length (join_lines ([] @ map no_cr hs)))"
    using pr f g(2) by (simp_all add: w1_def fits_def)
  have hs: "\<forall>l \<in> set hs. LF \<notin> set l \<and> no_cr l \<noteq> [] \<and> is_cstr l" using t' proper_line_text by auto
  obtain sp2 hq2 where h2: "read_event e forms others h (length hs + Suc k) ?s1 = read_event e forms others h (Suc k) (?s1\<lparr>sock := sp2, wp := Some (w1\<lparr>w_header := hq2\<rparr>)\<rparr>)"
    "clean_sock sp2 (lE @ LF # r)" "rq_cstr hq2" "contents hq2 = join_lines (map no_cr hs)"
    using read_headers [OF m w1(1-4) _ w1(5) hs w1(6), of forms others h "Suc k"] by auto
  define w2 where "w2 = w1\<lparr>w_header := hq2\<rparr>"
  let ?s2 = "s\<lparr>sock := sp2, tabs := tb, wp := Some w2\<rparr>"
  have s2: "?s1\<lparr>sock := sp2, wp := Some (w1\<lparr>w_header := hq2\<rparr>)\<rparr> = ?s2" by (simp add: w2_def)
  have ok2: "server_ok ?s2"
    using pr(3,4,8) url_fields_cstr [of "cdecode url"] w(1) by (auto simp: server_ok_def request_ok_def webs_strs_def w2_def w1_def)
  have hb: "header_bytes w2 = join_lines ?ts @ NUL # drop (length (join_lines ?ts) + 1) (rq_buf hq2)"
  proof -
    obtain rest where "rq_buf hq2 = join_lines ?ts @ NUL # rest" using rq_cstr_read [OF h2(3)] h2(4) by metis
    moreover have "servp hq2 = 0" using h2(3) by (simp add: rq_cstr_def)
    ultimately show ?thesis by (simp add: header_bytes_def w2_def)
  qed
  have prp: "\<forall>l \<in> set ?ts. proper_line l" using t' by simp
  have parse: "\<exists>s3. websParseRequest e (?s2\<lparr>sock := sp\<rparr>) = Inr s3 \<and> header_frame (?s2\<lparr>sock := sp\<rparr>) s3
      \<and> websParseRequest e (?s2\<lparr>sock := sp\<rparr>) = res_bind (no_authorization e (?s2\<lparr>sock := sp\<rparr>)) (header_fields e (map line_field ?ts))" for sp
  proof -
    have "server_ok (?s2\<lparr>sock := sp\<rparr>)" "wp (?s2\<lparr>sock := sp\<rparr>) = Some w2" using ok2 by (simp_all only: server_ok_sock) simp
    from parse_request_fields [OF this prp hb, of e] show ?thesis by blast
  qed
  have post: "w_flags w2 AND WEBS_POST_REQUEST = 0" using a' pr(2) t(2) by (simp add: w2_def w1_def bit.conj_disj_distrib2)
  have "LF \<notin> set lE" "no_cr lE = []" using t' by simp_all
  moreover have "\<exists>s3 w3. websParseRequest e (?s2\<lparr>sock := sp\<rparr>) = Inr s3 \<and> wp s3 = Some w3 \<and> w_flags w3 AND WEBS_POST_REQUEST = 0" for sp
  proof -
    obtain s3 where "websParseRequest e (?s2\<lparr>sock := sp\<rparr>) = Inr s3" "header_frame (?s2\<lparr>sock := sp\<rparr>) s3" using parse by blast
    then show ?thesis using post by (auto simp: header_frame_def keeps_request_def)
  qed
  ultimately obtain sp3 s3 where e3: "websParseRequest e (?s2\<lparr>sock := sp3\<rparr>) = Inr s3"
    "read_event e forms others h (Suc k) ?s2 = res_bind (websUrlHandlerRequest e forms others h s3) (\<lambda>(n, s). Inr s)"
    using read_end [of ?s2 w2 e lE r forms others h k] m h2(2) w1(2) by (auto simp: w2_def)
  have fr: "header_frame (?s2\<lparr>sock := sp3\<rparr>) s3" using parse [of sp3] e3(1) by simp
  have "websReadEvent e forms others h s = res_bind (websUrlHandlerRequest e forms others h s3) (\<lambda>(n, s). Inr s)"
    unfolding websReadEvent_def k step1 h2(1) s2 e3(2) ..
  moreover obtain w3 where w3: "wp s3 = Some w3" "login_of w3 (sent_login (map line_field ?ts) None)"
  proof -
    obtain sa where sa: "no_authorization e (?s2\<lparr>sock := sp3\<rparr>) = Inr sa" "header_fields e (map line_field ?ts) sa = Inr s3"
    proof -
      have "res_bind (no_authorization e (?s2\<lparr>sock := sp3\<rparr>)) (header_fields e (map line_field ?ts)) = Inr s3"
        using parse [of sp3] e3(1) by metis
      then show ?thesis using that by (cases "no_authorization e (?s2\<lparr>sock := sp3\<rparr>)") simp_all
    qed
    then have "wp sa = Some w2" using websSetVar_frame by (fastforce simp: no_authorization_def)
    moreover have "login_of w2 None" using a' by (simp add: login_of_def w2_def w1_def)
    ultimately show ?thesis using that header_fields_login [OF sa(2)] by blast
  qed
  moreover have "w_flags w2 AND WEBS_LOCAL_REQUEST = 0" "w_flags w2 AND WEBS_HEADER_DONE = 0"
  proof -
    have "w_flags w2 AND guard_bits = 0" using a' pr(1) by (simp add: w2_def w1_def bit.conj_disj_distrib2)
    then show "w_flags w2 AND WEBS_LOCAL_REQUEST = 0" "w_flags w2 AND WEBS_HEADER_DONE = 0" using bit_of guarded by blast+
  qed
  ultimately show ?thesis using fr pr(10)
    by (intro exI [of _ s3] exI [of _ w3]) (auto simp: header_frame_def keeps_request_def w2_def w1_def)
qed

end
