(* ===== verification/Remote.thy ===== *)
theory Remote
  imports Request_First
begin

unbundle bit_operations_syntax

text \<open>
  Requests from the network to the handlers: the parts of the web server put together, from the bytes a socket
  delivers over the request line, the header and the accounts of the configuration to the answer.
\<close>

section \<open>A small server on the network\<close>

definition net_symtabs :: "value_t symtabs" where
  "net_symtabs = \<lparr>sym = Some \<lparr>h_used = 3, h_slots = [Some \<lparr>hash_size = 1, hash_table = [[]]\<rparr>,
       Some \<lparr>hash_size = 1, hash_table = [[\<lparr>s_name = ''f'', s_content = VInteger 7, s_arg = 0\<rparr>]]\<rparr>,
       Some \<lparr>hash_size = 1, hash_table = [[\<lparr>s_name = ''.asp'', s_content = VString ''text/html'', s_arg = 0\<rparr>]]\<rparr>]\<rparr>,
     symMax = 3, symOpenCount = 1, htIndex = 0, next_sym = []\<rparr>"

definition net_webs :: webs where "net_webs = demo_webs\<lparr>w_state := WEBS_BEGIN\<rparr>"

definition net_server :: "db \<Rightarrow> byte list list \<Rightarrow> server" where
  "net_server d packets = demo_server\<lparr>tabs := net_symtabs, umdb := d, sock := demo_sock packets, wp := Some net_webs\<rparr>"

lemma net_symtabs_ok: "tabs_ok net_symtabs" "live 0 net_symtabs" "live 1 net_symtabs" "live 2 net_symtabs" "vars_ok net_symtabs 0"
  by (auto simp: net_symtabs_def tabs_ok_def live_def hwf_def hget_def tabent_ok_def vars_ok_def syms_def tab_map_def
      chain_map_def hashIndex_def less_Suc_eq split: if_splits)

lemma net_types: "syms net_symtabs 2 n = (if n = ''.asp'' then Some \<lparr>s_name = ''.asp'', s_content = VString ''text/html'', s_arg = 0\<rparr> else None)"
  by (simp add: net_symtabs_def syms_def hget_def tab_map_def chain_map_def hashIndex_def)

lemma net_server_accepted: "accepted demo_env (net_server d packets) net_webs"
proof -
  have "server_ok (net_server d packets)" using net_symtabs_ok
    by (simp add: server_ok_def request_ok_def net_server_def net_webs_def demo_server_def demo_webs_def webs_strs_def)
  moreover have "mime_ok (net_server d packets)" using net_symtabs_ok(4)
    by (simp add: mime_ok_def net_server_def net_webs_def demo_server_def demo_webs_def net_types)
  moreover have "mem_total (e_mem demo_env)" by (auto simp: mem_total_def alloc_ok_def demo_mem_def demo_env_def)
  ultimately show ?thesis by (simp add: accepted_def net_server_def net_webs_def demo_webs_def demo_header_def rq_ok_def)
qed

lemma net_server_sock:
  assumes "[] \<notin> set packets"
  shows "clean_sock (sock (net_server d packets)) (concat packets)"
proof -
  have "lead (map NData ps) = concat ps" for ps by (induction ps) auto
  then show ?thesis using assms
    by (auto simp: clean_sock_def net_server_def demo_sock_def sock_ok_def rq_ok_def avail_def contents_def get_slice_def)
qed

section \<open>Dispatch\<close>

text \<open>C7. A GET or HEAD request on a freshly accepted connection whose header lines all have a name and a
  value and fit the header buffer, and whose URL does not start with \<open>http://\<close>, is dispatched exactly
  once, whatever packets it arrives in and as long as memory can be allocated: reading it from the
  socket ends, leaves every buffer intact, and hands to \<open>websUrlHandlerRequest\<close> the request with the
  path and the query of the decoded URL and with the credentials of the last usable authorization line;
  accounts, forms and output are as before.\<close>

theorem websReadEvent_dispatches:
  assumes "accepted e s w" and "request_text l0 hs lE op url" and "op \<noteq> ''POST''"
    and "clean_sock (sock s) (lines_of (l0 # hs @ [lE]) @ r)" and "fits (w_header w) (length (join_lines (map no_cr hs)))"
  shows "\<exists>s1 w1. websReadEvent e forms others h s = res_bind (websUrlHandlerRequest e forms others h s1) (\<lambda>(n, s). Inr s)
    \<and> server_ok s1 \<and> wp s1 = Some w1 \<and> w_path w1 = Some (fst (url_fields (cdecode url))) \<and> w_url w1 = Some url
    \<and> w_query w1 = Some (fst (snd (url_fields (cdecode url)))) \<and> login_of w1 (sent_login (map (line_field \<circ> no_cr) hs) None)
    \<and> umdb s1 = umdb s \<and> out s1 = out s \<and> st_formHits s1 = st_formHits s"
  using read_request [OF assms, of forms others h] by blast

section \<open>Who is let in\<close>

lemma refusal_codes: "refusal d w l \<in> {401, 403, 404}"
  by (simp add: refusal_def split: option.split)

text \<open>C5. Nobody uses the router without the password.  The accounts are those \<open>initWebs\<close> takes from the
  configuration, with memory for them available; the request is a GET or HEAD from the network, in any
  packets, on a freshly accepted connection, whose header lines all have a name and a value and fit the
  header buffer, whose URL does not start with \<open>http://\<close>, and whose decoded path begins with a slash that
  is not followed by a backslash (\<open>rooted\<close>) and contains none of the open paths.  If its last usable
  authorization line does not carry the name and the password of one of the accounts, then, as long as
  memory can be allocated, it is answered with an error status and the connection's request is released:
  no form runs, no handler after the access control runs, no account changes.\<close>

theorem remote_request_needs_login:
  assumes "initWebs_um halloc_fine admu admp superu superp um_closed = Inr u" and "str_ok admp" and "str_ok superp"
    and "qsort_ok qs" and "urlHandlerOpenCount h = 0" and "env_ok e"
    and "accepted e s w" and "umdb s = um_db u" and "request_text l0 hs lE op url" and "op \<noteq> ''POST''"
    and "clean_sock (sock s) (lines_of (l0 # hs @ [lE]) @ r)" and "fits (w_header w) (length (join_lines (map no_cr hs)))"
    and "p = websCondenseMultipleChars (CHR ''/'') (fst (url_fields (cdecode url)))" and "rooted p"
    and "\<forall>b \<in> set open_paths. \<not> has_sub b p"
    and "\<forall>n q. sent_login (map (line_field \<circ> no_cr) hs) None = Some (n, q) \<longrightarrow> \<not> login_ok admu admp superu superp n q"
  shows "\<exists>s' code ls. websReadEvent e forms others (initWebs_handlers qs (websUrlHandlerOpen h)) s = Inr s'
    \<and> wp s' = None \<and> umdb s' = umdb s \<and> st_formHits s' = st_formHits s
    \<and> code \<in> {401, 403, 404} \<and> out s' = out s @ take 959 (status_line None code) # ls"
proof -
  let ?h = "initWebs_handlers qs (websUrlHandlerOpen h)"
  from read_request [OF assms(7,9,10,11,12), of forms others ?h] obtain s1 w1 where
    r: "websReadEvent e forms others ?h s = res_bind (websUrlHandlerRequest e forms others ?h s1) (\<lambda>(n, s). Inr s)"
    and s1: "server_ok s1" "wp s1 = Some w1" "w_path w1 = Some (fst (url_fields (cdecode url)))"
      "login_of w1 (sent_login (map (line_field \<circ> no_cr) hs) None)" "w_flags w1 AND WEBS_LOCAL_REQUEST = 0"
      "w_flags w1 AND WEBS_HEADER_DONE = 0" "umdb s1 = umdb s" "out s1 = out s" "st_formHits s1 = st_formHits s" by blast
  have reach: "um_reach (umdb s1)" using initWebs_um_ok [of admu admp superu superp] assms(1,8) s1(7) by auto
  let ?w = "w1\<lparr>w_path := Some p\<rparr>"
  have b: "\<not> bypassed ?w" "w_flags ?w AND WEBS_LOCAL_REQUEST = 0" using assms(15) s1(5) by (auto simp: bypassed_def)
  have "\<not> (\<exists>n q. w_userName ?w = Some n \<and> w_password ?w = Some q \<and> login_ok admu admp superu superp n q)"
    using s1(4) assms(16) by (auto simp: login_of_def)
  then have n: "\<not> admitted (umdb s1) ?w p"
    using initWebs_admits [OF assms(1-3) b assms(14)] s1(7) assms(8) by simp
  from refused_request [OF assms(4,5) s1(1,2) assms(6) reach s1(3) assms(13) n s1(6), of forms others]
  obtain s' l ls where "websUrlHandlerRequest e forms others ?h s1 = Inr (1, s')" "wp s' = None" "umdb s' = umdb s1"
    "st_formHits s' = st_formHits s1" "out s' = out s1 @ take 959 (status_line None (refusal (umdb s1) w1 l)) # ls" by blast
  then show ?thesis using r s1(7-9) refusal_codes by (intro exI [of _ s'] exI [of _ "refusal (umdb s1) w1 l"] exI [of _ ls]) simp
qed

section \<open>Paths without a slash\<close>

text \<open>Such a path matches only the empty prefixes: access control, which finds no limit for it, and the file handler.\<close>

lemma slashless_dispatch:
  assumes q: "qsort_ok qs" "urlHandlerOpenCount h = 0" and ok: "server_ok s" "wp s = Some w" "env_ok e" "um_reach (umdb s)"
    and l: "limits (umdb s) = [''/'' \<mapsto> y]" and p: "w_path w = Some p" "p' = websCondenseMultipleChars (CHR ''/'') p" "\<not> starts_with ''/'' p'"
  shows "\<exists>s1 w1. websUrlHandlerRequest e forms others (initWebs_handlers qs (websUrlHandlerOpen h)) s
      = res_bind (others DefaultHandler (bstrdup (w_url w1)) p' (bstrdup (w_query w)) s1) (\<lambda>(r, s).
          if r \<noteq> 0 \<or> \<not> websValid s then Inr (1, s) else res_bind (websError e 200 ''No handler for this URL'' [] s) (\<lambda>s. Inr (0, s)))
    \<and> wp s1 = Some w1 \<and> w_path w1 = Some p' \<and> w_userName w1 = w_userName w \<and> server_ok s1 \<and> out s1 = out s \<and> umdb s1 = umdb s"
proof -
  let ?s = "request_start s" and ?w = "request_webs s w"
  have ok': "server_ok ?s" by (rule request_start_ok [OF ok(1)])
  have w: "wp ?s = Some ?w" "w_path ?w = Some p'" "w_query ?w = w_query w" "w_userName ?w = w_userName w"
    using ok(2) p by (simp_all add: request_start_def request_webs_def condense_opt_def)
  have st: "umdb ?s = umdb s" "out ?s = out s" by (simp_all add: request_start_def)
  obtain t where t: "try_handlers e forms others webs_handlers True ?s =
      res_bind (websSecurityHandler e p' (?s\<lparr>tabs := t\<rparr>)) (\<lambda>(r, s).
        if r \<noteq> 0 \<or> \<not> websValid s then Inr (True, s) else try_handlers e forms others (tl webs_handlers) False s)"
    "server_ok (?s\<lparr>tabs := t\<rparr>)"
    using security_first [OF ok' w(1,2), of e forms others] by blast
  let ?s1 = "?s\<lparr>tabs := t\<rparr>"
  have w2: "wp ?s1 = Some ?w" using w by simp
  have d: "um_wf (umdb ?s1)" "members_ok (umdb ?s1)" using um_reach_keeps [OF ok(4)] st by simp_all
  have "\<not> rooted p'" using p(3) by (cases p' rule: rooted.cases) auto
  then have "governing (umdb s) p' = None" using root_governing [OF l] by simp
  then have "admitted (umdb ?s1) ?w p'" using st by (simp add: admitted_def)
  then have sec: "websSecurityHandler e p' ?s1 = Inr (0, ?s1)" using security_answers [OF t(2) w2 ok(3) d, of p'] by blast
  have ns: "\<not> starts_with ''/goform'' p'" "\<not> starts_with ''/cgi-bin'' p'" "\<not> starts_with ''/'' p'"
    using p(3) by (cases p'; simp)+
  have "try_handlers e forms others (tl webs_handlers) False ?s1 = try_handlers e forms others [entry '''' DefaultHandler WEBS_HANDLER_LAST] False ?s1"
  proof -
    have tl: "tl webs_handlers = [entry ''/goform'' FormHandler 0, entry ''/cgi-bin'' CgiHandler 0, entry ''/'' HomePageHandler 0,
      entry '''' DefaultHandler WEBS_HANDLER_LAST]" by (simp add: webs_handlers_def)
    have u: "\<not> starts_with (hd_urlPrefix (entry ''/goform'' FormHandler 0)) p'" "\<not> starts_with (hd_urlPrefix (entry ''/cgi-bin'' CgiHandler 0)) p'"
      "\<not> starts_with (hd_urlPrefix (entry ''/'' HomePageHandler 0)) p'" using ns by (simp_all add: entry_def)
    show ?thesis unfolding tl try_skip [OF w2 w(2) u(1)] try_skip [OF w2 w(2) u(2)] try_skip [OF w2 w(2) u(3)] ..
  qed
  also have "\<dots> = res_bind (others DefaultHandler (bstrdup (w_url ?w)) p' (bstrdup (w_query w)) ?s1) (\<lambda>(r, s).
      if r \<noteq> 0 \<or> \<not> websValid s then Inr (True, s) else Inr (False, s))"
  proof -
    have sw: "starts_with (hd_urlPrefix (entry '''' DefaultHandler WEBS_HANDLER_LAST)) p'" by (simp add: entry_def)
    have nil: "(\<lambda>(r :: int, s). if r \<noteq> 0 \<or> \<not> websValid s then Inr (True, s) else try_handlers e forms others [] False s)
      = (\<lambda>(r, s). if r \<noteq> 0 \<or> \<not> websValid s then Inr (True, s) else Inr (False, s))" by auto
    have "hd_handler (entry '''' DefaultHandler WEBS_HANDLER_LAST) = Some DefaultHandler" by (simp add: entry_def)
    from try_match [OF w2 w(2) sw this _ w2, of False e forms others "[]", unfolded nil] show ?thesis
      by (simp add: webs_call_def websGetRequestPath_def w(2,3) del: try_handlers.simps)
  qed
  finally have r: "try_handlers e forms others webs_handlers True ?s
      = res_bind (others DefaultHandler (bstrdup (w_url ?w)) p' (bstrdup (w_query w)) ?s1) (\<lambda>(r, s).
          if r \<noteq> 0 \<or> \<not> websValid s then Inr (True, s) else Inr (False, s))"
    using t(1) sec w2 by (simp add: websValid_def)
  have "websUrlHandlerRequest e forms others (initWebs_handlers qs (websUrlHandlerOpen h)) s
      = res_bind (others DefaultHandler (bstrdup (w_url ?w)) p' (bstrdup (w_query w)) ?s1) (\<lambda>(r, s).
          if r \<noteq> 0 \<or> \<not> websValid s then Inr (1, s) else res_bind (websError e 200 ''No handler for this URL'' [] s) (\<lambda>s. Inr (0, s)))"
    unfolding websUrlHandlerRequest_eq [OF ok(2) handlers_installed [OF q]] r
    by (cases "others DefaultHandler (bstrdup (w_url ?w)) p' (bstrdup (w_query w)) ?s1") (auto split: prod.split)
  then show ?thesis using w2 w t(2) st by (intro exI [of _ ?s1] exI [of _ ?w] conjI) simp_all
qed

lemma forget_answer:
  "res_bind (res_bind x (\<lambda>(n :: int, s). if n \<noteq> 0 \<or> \<not> websValid s then Inr (1 :: int, s) else res_bind (f s) (\<lambda>s. Inr (0, s)))) (\<lambda>(n, s). Inr s)
    = res_bind x (\<lambda>(n, s). if n \<noteq> 0 \<or> \<not> websValid s then Inr s else f s)"
proof (cases x)
  case (Inr b)
  then show ?thesis by (cases b; cases "f (snd b)") auto
qed simp

text \<open>C6. The only access limit of the server is \<open>/\<close>, and it covers only paths that begin with a slash; but the file
  handler has the empty prefix and takes every path.  So a request whose URL has no slash in front (\<open>GET home.asp\<close>)
  passes the access control whatever credentials it brings, none included, and the file handler runs on it.\<close>

theorem slashless_path_needs_no_login:
  assumes "initWebs_um halloc_fine admu admp superu superp um_closed = Inr u"
    and "qsort_ok qs" and "urlHandlerOpenCount h = 0" and "env_ok e"
    and "accepted e s w" and "umdb s = um_db u" and "request_text l0 hs lE op url" and "op \<noteq> ''POST''"
    and "clean_sock (sock s) (lines_of (l0 # hs @ [lE]) @ r)" and "fits (w_header w) (length (join_lines (map no_cr hs)))"
    and "p = websCondenseMultipleChars (CHR ''/'') (fst (url_fields (cdecode url)))" and "\<not> starts_with ''/'' p"
  shows "\<exists>s1 w1 u. websReadEvent e forms others (initWebs_handlers qs (websUrlHandlerOpen h)) s
      = res_bind (others DefaultHandler u p (fst (snd (url_fields (cdecode url)))) s1) (\<lambda>(n, s).
          if n \<noteq> 0 \<or> \<not> websValid s then Inr s else websError e 200 ''No handler for this URL'' [] s)
    \<and> wp s1 = Some w1 \<and> w_path w1 = Some p \<and> w_userName w1 = map_option fst (sent_login (map (line_field \<circ> no_cr) hs) None)
    \<and> server_ok s1 \<and> out s1 = out s \<and> umdb s1 = umdb s"
proof -
  let ?h = "initWebs_handlers qs (websUrlHandlerOpen h)" and ?q = "fst (snd (url_fields (cdecode url)))"
  from read_request [OF assms(5,7-10), of forms others ?h] obtain s1 w1 where
    r: "websReadEvent e forms others ?h s = res_bind (websUrlHandlerRequest e forms others ?h s1) (\<lambda>(n, s). Inr s)"
    and s1: "server_ok s1" "wp s1 = Some w1" "w_path w1 = Some (fst (url_fields (cdecode url)))" "w_query w1 = Some ?q"
      "login_of w1 (sent_login (map (line_field \<circ> no_cr) hs) None)" "umdb s1 = umdb s" "out s1 = out s" by blast
  have i: "um_reach (umdb s1)" "limits (umdb s1) = [''/'' \<mapsto> limit_row ''/'' AM_DIGEST 0 []]"
    using initWebs_um_ok [of admu admp superu superp] assms(1,6) s1(6) by auto
  from slashless_dispatch [OF assms(2,3) s1(1,2) assms(4) i s1(3) assms(11,12), of forms others] obtain s2 w2 where
    d: "websUrlHandlerRequest e forms others ?h s1 = res_bind (others DefaultHandler (bstrdup (w_url w2)) p (bstrdup (w_query w1)) s2) (\<lambda>(r, s).
          if r \<noteq> 0 \<or> \<not> websValid s then Inr (1, s) else res_bind (websError e 200 ''No handler for this URL'' [] s) (\<lambda>s. Inr (0, s)))"
    "wp s2 = Some w2" "w_path w2 = Some p" "w_userName w2 = w_userName w1" "server_ok s2" "out s2 = out s1" "umdb s2 = umdb s1" by blast
  have "websReadEvent e forms others ?h s = res_bind (others DefaultHandler (bstrdup (w_url w2)) p ?q s2) (\<lambda>(n, s).
      if n \<noteq> 0 \<or> \<not> websValid s then Inr s else websError e 200 ''No handler for this URL'' [] s)"
    unfolding r d(1) s1(4) forget_answer by (simp add: bstrdup_def)
  then show ?thesis using d(2-7) s1(5-7) by (intro exI [of _ s2] exI [of _ w2]) (auto simp: login_of_def)
qed

section \<open>Requests to the small server\<close>

definition demo_get :: "string \<Rightarrow> byte list list" where
  "demo_get url = [''GET '' @ url, '' HTTP/1.1'' @ [CR, LF], ''Host: ap'' @ [CR, LF] @ ''Authori'', ''zation: Basic YWRtaW46U2VjcmV0'' @ [CR],
     [LF, CR, LF]]"

abbreviation demo_lines :: "byte list list" where
  "demo_lines \<equiv> [''Host: ap'' @ [CR], ''Authorization: Basic YWRtaW46U2VjcmV0'' @ [CR]]"

lemma demo_get_lines: "concat (demo_get url) = lines_of ((''GET '' @ url @ '' HTTP/1.1'' @ [CR]) # demo_lines @ [[CR]]) @ []"
  by (simp add: demo_get_def lines_of_def)

lemma demo_login: "sent_login (map (line_field \<circ> no_cr) demo_lines) None = Some (''admin'', ''Secret'')"
  by code_simp

lemma demo_request_text:
  "request_text (''GET '' @ ''/adm/x.asp'' @ '' HTTP/1.1'' @ [CR]) demo_lines [CR] ''GET'' ''/adm/x.asp''"
  "request_text (''GET '' @ ''home.asp'' @ '' HTTP/1.1'' @ [CR]) demo_lines [CR] ''GET'' ''home.asp''"
  by (simp_all add: request_text_def no_cr_def proper_line_def line_key_def line_rest_def first_words_def strtok1_def http_ops_def
      cdecode_def del: websDecodeUrl.simps) code_simp+

lemma demo_packets: "[] \<notin> set (demo_get url)"
  by (simp add: demo_get_def)

lemma demo_clean:
  "clean_sock (sock (net_server d (demo_get url))) (lines_of ((''GET '' @ url @ '' HTTP/1.1'' @ [CR]) # demo_lines @ [[CR]]) @ [])"
  using net_server_sock [OF demo_packets, of d url] by (simp only: demo_get_lines)

lemma demo_fits: "fits (w_header net_webs) (length (join_lines (map no_cr demo_lines)))"
  by (simp add: fits_def net_webs_def demo_webs_def demo_header_def no_cr_def)

lemma demo_fields: "url_fields (cdecode ''/adm/x.asp'') = (''/adm/x.asp'', [], ''.asp'')" "url_fields (cdecode ''home.asp'') = (''home.asp'', [], ''.asp'')"
  by code_simp+

lemma demo_paths:
  "''/adm/x.asp'' = websCondenseMultipleChars (CHR ''/'') (fst (url_fields (cdecode ''/adm/x.asp'')))"
  "''home.asp'' = websCondenseMultipleChars (CHR ''/'') (fst (url_fields (cdecode ''home.asp'')))"
  unfolding demo_fields by code_simp+

theorem websReadEvent_dispatches_witness:
  "\<exists>s1 w1. websReadEvent demo_env (\<lambda>fn name query s. Inr s) (\<lambda>h url path query s. Inr (1, s)) demo_htab (net_server um_demo (demo_get ''/adm/x.asp''))
      = res_bind (websUrlHandlerRequest demo_env (\<lambda>fn name query s. Inr s) (\<lambda>h url path query s. Inr (1, s)) demo_htab s1) (\<lambda>(n, s). Inr s)
    \<and> wp s1 = Some w1 \<and> w_path w1 = Some ''/adm/x.asp'' \<and> w_userName w1 = Some ''admin'' \<and> w_password w1 = Some ''Secret''"
proof -
  have "\<exists>s1 w1. websReadEvent demo_env (\<lambda>fn name query s. Inr s) (\<lambda>h url path query s. Inr (1, s)) demo_htab (net_server um_demo (demo_get ''/adm/x.asp''))
      = res_bind (websUrlHandlerRequest demo_env (\<lambda>fn name query s. Inr s) (\<lambda>h url path query s. Inr (1, s)) demo_htab s1) (\<lambda>(n, s). Inr s)
    \<and> server_ok s1 \<and> wp s1 = Some w1 \<and> w_path w1 = Some (fst (url_fields (cdecode ''/adm/x.asp''))) \<and> w_url w1 = Some ''/adm/x.asp''
    \<and> w_query w1 = Some (fst (snd (url_fields (cdecode ''/adm/x.asp'')))) \<and> login_of w1 (sent_login (map (line_field \<circ> no_cr) demo_lines) None)
    \<and> umdb s1 = umdb (net_server um_demo (demo_get ''/adm/x.asp'')) \<and> out s1 = out (net_server um_demo (demo_get ''/adm/x.asp''))
    \<and> st_formHits s1 = st_formHits (net_server um_demo (demo_get ''/adm/x.asp''))"
    by (rule websReadEvent_dispatches [OF net_server_accepted demo_request_text(1) _ demo_clean demo_fits]) simp
  then show ?thesis unfolding demo_login demo_fields by (auto simp: login_of_def)
qed

theorem remote_request_needs_login_witness:
  "\<exists>d s' code ls. websReadEvent demo_env (\<lambda>fn name query s. Inl OutOfBounds) (\<lambda>h url path query s. Inl OutOfBounds)
      (initWebs_handlers isort_by (websUrlHandlerOpen demo_htab)) (net_server d (demo_get ''/adm/x.asp'')) = Inr s'
    \<and> users d ''admin'' \<noteq> None \<and> wp s' = None \<and> code \<in> {401, 403, 404} \<and> out s' = take 959 (status_line None code) # ls"
proof -
  have c: "str_ok (Some ''secret'')" "str_ok None" by (simp_all add: is_cstr_def)
  obtain u where u: "initWebs_um halloc_fine (Some ''admin'') (Some ''secret'') None None um_closed = Inr u" "users (um_db u) ''admin'' \<noteq> None"
    using initWebs_um_ok [of "Some ''admin''" "Some ''secret''" None None]
    by (auto simp: account_map_def account_def given_def umCheckName_def gisspace_def uchar_def)
  have b: "\<forall>b \<in> set open_paths. \<not> has_sub b ''/adm/x.asp''" by (simp add: open_paths_def)
  have r: "rooted ''/adm/x.asp''" by (simp add: is_slash_def uchar_def)
  have l: "\<forall>n q. sent_login (map (line_field \<circ> no_cr) demo_lines) None = Some (n, q) \<longrightarrow> \<not> login_ok (Some ''admin'') (Some ''secret'') None None n q"
    unfolding demo_login by (simp add: login_ok_def account_def)
  have "umdb (net_server (um_db u) (demo_get ''/adm/x.asp'')) = um_db u" "''GET'' \<noteq> ''POST''" "urlHandlerOpenCount demo_htab = 0"
    by (simp_all add: net_server_def demo_htab_def)
  from remote_request_needs_login [OF u(1) c isort_qsort this(3) demo_server_ok(2) net_server_accepted this(1) demo_request_text(1) this(2)
      demo_clean demo_fits demo_paths(1) r b l]
  have "\<exists>s' code ls. websReadEvent demo_env (\<lambda>fn name query s. Inl OutOfBounds) (\<lambda>h url path query s. Inl OutOfBounds)
      (initWebs_handlers isort_by (websUrlHandlerOpen demo_htab)) (net_server (um_db u) (demo_get ''/adm/x.asp'')) = Inr s'
    \<and> wp s' = None \<and> code \<in> {401, 403, 404} \<and> out s' = out (net_server (um_db u) (demo_get ''/adm/x.asp'')) @ take 959 (status_line None code) # ls"
    by blast
  moreover have "out (net_server (um_db u) (demo_get ''/adm/x.asp'')) = []" by (simp add: net_server_def demo_server_def)
  ultimately show ?thesis using u(2) by (intro exI [of _ "um_db u"]) simp
qed

theorem slashless_path_needs_no_login_witness:
  "\<exists>d s1. users d ''admin'' \<noteq> None \<and> limits d ''/'' \<noteq> None
    \<and> websReadEvent demo_env (\<lambda>fn name query s. Inl OutOfBounds)
      (\<lambda>h url path query s. if h = DefaultHandler \<and> path = ''home.asp'' then Inr (1, s\<lparr>st_errors := 99\<rparr>) else Inl OutOfBounds)
      (initWebs_handlers isort_by (websUrlHandlerOpen demo_htab)) (net_server d (demo_get ''home.asp'')) = Inr (s1\<lparr>st_errors := 99\<rparr>)"
proof -
  obtain u where u: "initWebs_um halloc_fine (Some ''admin'') (Some ''secret'') None None um_closed = Inr u" "users (um_db u) ''admin'' \<noteq> None"
    "limits (um_db u) ''/'' \<noteq> None"
    using initWebs_um_ok [of "Some ''admin''" "Some ''secret''" None None]
    by (auto simp: account_map_def account_def given_def umCheckName_def gisspace_def uchar_def)
  have "umdb (net_server (um_db u) (demo_get ''home.asp'')) = um_db u" "''GET'' \<noteq> ''POST''" "urlHandlerOpenCount demo_htab = 0"
    "\<not> starts_with ''/'' ''home.asp''" by (simp_all add: net_server_def demo_htab_def)
  from slashless_path_needs_no_login [OF u(1) isort_qsort this(3) demo_server_ok(2) net_server_accepted this(1) demo_request_text(2) this(2)
      demo_clean demo_fits demo_paths(2) this(4), of "\<lambda>fn name query s. Inl OutOfBounds"
      "\<lambda>h url path query s. if h = DefaultHandler \<and> path = ''home.asp'' then Inr (1, s\<lparr>st_errors := 99\<rparr>) else Inl OutOfBounds"]
  show ?thesis using u(2,3) by auto
qed

end
