(* ===== verification/Misc.thy ===== *)
theory Misc
  imports Fmt
begin

text \<open>
  The remaining string functions of \<open>user/goahead/src_tongyong/misc.c\<close>: reading hexadecimal and
  decimal numbers and the directory part of a path.  \<open>basename\<close> is not compiled under Linux.
\<close>

section \<open>Numbers\<close>

fun hex_digits :: "u32 \<Rightarrow> string \<Rightarrow> u32" where
  "hex_digits v [] = v"
| "hex_digits v (c # cs) =
     (if 48 \<le> uchar c \<and> uchar c \<le> 57 then hex_digits (v * 16 + of_nat (uchar c - 48)) cs
      else if 97 \<le> uchar c \<and> uchar c \<le> 102 then hex_digits (v * 16 + of_nat (uchar c - 97 + 10)) cs
      else if 65 \<le> uchar c \<and> uchar c \<le> 70 then hex_digits (v * 16 + of_nat (uchar c - 65 + 10)) cs
      else v)"

definition hex_prefix :: "string \<Rightarrow> bool" where
  "hex_prefix s \<longleftrightarrow> starts_with ''0x'' s \<or> starts_with ''0X'' s"

definition hextoi :: "string \<Rightarrow> u32" where
  "hextoi s = hex_digits 0 (if hex_prefix s then drop 2 s else s)"

definition gstrtoi :: "string \<Rightarrow> u32" where
  "gstrtoi s = (if hex_prefix s then hextoi (drop 2 s) else word_of_int (gatoi s))"

text \<open>A number printed with \<open>%d\<close> is read back, on the whole range of \<open>int\<close>.\<close>

lemma dec_digits: "c \<in> set (dec n) \<Longrightarrow> is_digit c"
proof (induction n rule: dec.induct)
  case (1 n)
  have d: "is_digit (char_of (48 + k))" if "k < 10" for k :: nat
    using that by (simp add: is_digit_def uchar_char_of)
  from 1 show ?case using d by (subst (asm) dec.simps) (auto split: if_splits)
qed

lemma dec_val: "digits_val (dec n) = n"
proof (induction n rule: dec.induct)
  case (1 n)
  have "digits_val [char_of (48 + k)] = k" if "k < 10" for k :: nat
    using that by (simp add: digits_val_def uchar_char_of)
  with 1 show ?case by (subst dec.simps) (auto simp: digits_val_snoc uchar_char_of)
qed

lemma dec_nonempty [simp]: "dec n \<noteq> []"
  by (subst dec.simps) simp

lemma digit_not_sign: "is_digit c \<Longrightarrow> c \<noteq> CHR ''-'' \<and> c \<noteq> CHR ''+'' \<and> c \<noteq> CHR ''x'' \<and> c \<noteq> CHR ''X''"
  by (auto simp: is_digit_def uchar_def)

lemma gatoi_dec_int: "gatoi (dec_int n) = n"
proof -
  have tw: "takeWhile is_digit (dec k) = dec k" for k by (simp add: takeWhile_eq_all_conv dec_digits)
  show ?thesis
  proof (cases "n < 0")
    case True
    then show ?thesis by (simp add: dec_int_def gatoi_def tw dec_val)
  next
    case False
    obtain c cs where c: "dec (nat n) = c # cs" by (cases "dec (nat n)") auto
    then have "c \<noteq> CHR ''-'' \<and> c \<noteq> CHR ''+''" using dec_digits [of c "nat n"] digit_not_sign by simp
    then have "gatoi (dec (nat n)) = int (digits_val (takeWhile is_digit (dec (nat n))))"
      by (simp add: gatoi_def c)
    then show ?thesis using False by (simp add: dec_int_def tw dec_val)
  qed
qed

lemma dec_int_chars: "c \<in> set (dec_int n) \<Longrightarrow> is_digit c \<or> c = CHR ''-''"
  using dec_digits by (auto simp: dec_int_def split: if_splits)

lemma gstrtoi_dec_int:
  assumes "- 0x80000000 \<le> n" "n < 0x80000000"
  shows "sint (gstrtoi (dec_int n)) = n"
proof -
  have "\<not> hex_prefix (dec_int n)"
  proof
    assume "hex_prefix (dec_int n)"
    then have "CHR ''x'' \<in> set (dec_int n) \<or> CHR ''X'' \<in> set (dec_int n)"
      by (auto simp: hex_prefix_def starts_with_iff)
    then show False using dec_int_chars digit_not_sign by fastforce
  qed
  then have "gstrtoi (dec_int n) = word_of_int n" by (simp add: gstrtoi_def gatoi_dec_int)
  then show ?thesis using assms by (simp add: signed_of_int signed_take_bit_int_eq_self)
qed

text \<open>Hexadecimal digits wrap around at 32 bits.\<close>

lemma hextoi_examples:
  "hextoi ''0x1F;'' = 31" "hextoi ''fffffffff'' = 0xFFFFFFFF" "gstrtoi ''0x0x10'' = 16" "gstrtoi ''-1'' = 0xFFFFFFFF"
  by code_simp+

section \<open>Directory part\<close>

text \<open>The bytes \<open>dirname\<close> leaves in a buffer of \<open>bufsize\<close> bytes and the string it holds.\<close>

definition dirname :: "byte list \<Rightarrow> string \<Rightarrow> nat \<Rightarrow> byte list res" where
  "dirname buf name bufsize =
     (case strrchr name (CHR ''/'') of
        None \<Rightarrow> if 2 \<le> length buf then Inr (put_slice buf 0 [CHR ''.'', NUL]) else Inl OutOfBounds
      | Some cp \<Rightarrow>
          if cp + 1 = length name \<and> cp = 0 then
            (if length buf < max 2 bufsize then Inl OutOfBounds
             else Inr (put_slice (put_slice buf 0 (strncpy_img ''.'' bufsize)) 0 [CHR ''.'', NUL]))
          else if cp < bufsize then
            (if cp < length buf then Inr (put_slice buf 0 (strncpy_img name cp @ [NUL])) else Inl OutOfBounds)
          else
            (if length buf < bufsize \<or> bufsize = 0 then Inl OutOfBounds
             else Inr ((put_slice buf 0 (strncpy_img name bufsize))[bufsize - 1 := NUL])))"

section \<open>The length of a printed number\<close>

definition int32 :: "int \<Rightarrow> bool" where
  "int32 n \<longleftrightarrow> - 0x80000000 \<le> n \<and> n < 0x80000000"

lemma dec_length: "k < 10 ^ m \<Longrightarrow> 0 < m \<Longrightarrow> length (dec k) \<le> m"
proof (induction k arbitrary: m rule: dec.induct)
  case (1 k)
  show ?case
  proof (cases "k < 10")
    case True
    then show ?thesis using 1 by (subst dec.simps) simp
  next
    case False
    then obtain j where j: "m = Suc j" "0 < j" using "1.prems" by (cases m; cases "m - 1") auto
    then have "length (dec (k div 10)) \<le> j" using "1.IH" [OF False, of j] "1.prems" by auto
    then show ?thesis using False j by (subst dec.simps) simp
  qed
qed

lemma print_int_length: "int32 n \<Longrightarrow> length (dec_int n) \<le> 12"
  using dec_length [of "nat n" 11] dec_length [of "nat (- n)" 11]
  by (auto simp: dec_int_def int32_def nat_less_iff)

end
