(* ===== verification/Emfdb_File.thy ===== *)
theory Emfdb_File
  imports Emfdb Misc
begin

text \<open>
  The persistent text file of the database (\<open>dbSave\<close>, \<open>dbLoad\<close>, \<open>crack\<close> and \<open>trim\<close> of
  \<open>user/goahead/src_tongyong/emfdb.c\<close>): one \<open>KEY=value\<close> line per table, row and cell.

  The file system is a map from paths to contents; a record gives the outcome of each call that can
  fail, the bytes taken by each \<open>write\<close> included.  \<open>gstrtok\<close> splits the buffer up to its first NUL.
  The address of a string printed as a number is outside the model and an \<open>OutOfBounds\<close> fault.
\<close>

section \<open>Files\<close>

type_synonym files = "string \<Rightarrow> string option"

text \<open>\<open>fe_buf\<close> is the allocation of the buffer \<open>dbLoad\<close> reads the file into.  \<open>fe_write k\<close> is what the \<open>k\<close>-th \<open>write\<close> of the call takes at most, or \<open>None\<close> when it fails.\<close>

record fsenv =
  fe_open :: bool
  fe_write :: "nat \<Rightarrow> nat option"
  fe_rename :: bool
  fe_stat :: bool
  fe_read :: bool
  fe_buf :: bool

definition BUF_MAX :: int where "BUF_MAX = 4096"
definition KEYWORD_TABLE :: string where "KEYWORD_TABLE = ''TABLE''"
definition KEYWORD_ROW :: string where "KEYWORD_ROW = ''ROW''"
definition LF :: byte where "LF = CHR 0x0A"
definition CR :: byte where "CR = CHR 0x0D"

definition db_path :: "db \<Rightarrow> string option \<Rightarrow> string res" where
  "db_path d filename =
     res_bind (fmtAlloc (int FNAMESIZE) ''%s/%s'' [FStr (Some (basicGetProductDir d)), FStr filename])
       (\<lambda>(path, _). Inr path)"

section \<open>Saving\<close>

text \<open>The state of a save: the number of writes made and the text of the temporary file.\<close>

type_synonym save_state = "nat \<times> string"

definition dbWriteKeyValue :: "fsenv \<Rightarrow> string \<Rightarrow> string option \<Rightarrow> save_state \<Rightarrow> (int \<times> save_state) res" where
  "dbWriteKeyValue e key v st =
     res_bind (fmtAlloc BUF_MAX (''%s=%s'' @ [LF]) [FStr (Some key), FStr v]) (\<lambda>(line, _).
     case st of (k, out) \<Rightarrow>
       (case fe_write e k of
          None \<Rightarrow> Inr (- 1, (Suc k, out))
        | Some m \<Rightarrow> Inr (int (min m (length line)), (Suc k, out @ take m line))))"

fun cell_int :: "cell \<Rightarrow> int res" where
  "cell_int (CInt n) = Inr n"
| "cell_int (CStr s) = Inl OutOfBounds"

text \<open>The loop over the columns, from the result \<open>rc\<close> of the write before.\<close>

fun save_cells ::
  "fsenv \<Rightarrow> int \<Rightarrow> string list \<Rightarrow> ctype list \<Rightarrow> row \<Rightarrow> save_state \<Rightarrow> (int \<times> save_state) res" where
  "save_cells e rc [] tys cs st = Inr (rc, st)"
| "save_cells e rc (n # ns) (ty # tys) (c # cs) st =
     (if rc < 0 then Inr (rc, st)
      else
        res_bind (if ty = T_STRING then
            res_bind (cell_str c) (\<lambda>s. dbWriteKeyValue e n s st)
          else
            res_bind (cell_int c) (\<lambda>i.
            res_bind (fmtAlloc 20 ''%d'' [FInt i]) (\<lambda>(tmpNum, _).
            dbWriteKeyValue e n (Some tmpNum) st))) (\<lambda>(rc, st).
        save_cells e rc ns tys cs st))"
| "save_cells e rc (n # ns) _ _ st = (if rc < 0 then Inr (rc, st) else Inl OutOfBounds)"

text \<open>A row is skipped when its first cell is null or points to an empty string.\<close>

definition row_skipped :: "row option \<Rightarrow> bool res" where
  "row_skipped p =
     (case p of
        None \<Rightarrow> Inr True
      | Some [] \<Rightarrow> Inl OutOfBounds
      | Some (c # cs) \<Rightarrow>
          if c = CInt 0 then Inr True
          else res_bind (cell_str c) (\<lambda>s. Inr (s = Some [])))"

fun save_rows :: "fsenv \<Rightarrow> dbTable \<Rightarrow> nat list \<Rightarrow> save_state \<Rightarrow> (int \<times> save_state) res" where
  "save_rows e t [] st = Inr (0, st)"
| "save_rows e t (r # rs) st =
     res_bind (row_ptr t r) (\<lambda>p.
     res_bind (row_skipped p) (\<lambda>skip.
     if skip then save_rows e t rs st
     else
       res_bind (fmtAlloc 20 ''%d'' [FInt (int r)]) (\<lambda>(tmpNum, _).
       res_bind (dbWriteKeyValue e KEYWORD_ROW (Some tmpNum) st) (\<lambda>(rc, st).
       res_bind (save_cells e rc (columnNames t) (columnTypes t) (the p) st) (\<lambda>(rc, st).
       if rc < 0 then Inr (- 1, st) else save_rows e t rs st)))))"

text \<open>The result of writing the \<open>TABLE\<close> line is not looked at.\<close>

fun save_tables :: "fsenv \<Rightarrow> db \<Rightarrow> nat list \<Rightarrow> save_state \<Rightarrow> (int \<times> save_state) res" where
  "save_tables e d [] st = Inr (0, st)"
| "save_tables e d (tid # tids) st =
     (case hget (dbListTables d) tid of
        None \<Rightarrow> save_tables e d tids st
      | Some t \<Rightarrow>
          res_bind (dbWriteKeyValue e KEYWORD_TABLE (Some (t_name t)) st) (\<lambda>(_, st).
          res_bind (save_rows e t [0..<nRows t] st) (\<lambda>(nRet, st).
          if nRet = - 1 then Inr (- 1, st) else save_tables e d tids st)))"

definition dbSave :: "fsenv \<Rightarrow> string option \<Rightarrow> db \<Rightarrow> files \<Rightarrow> (int \<times> files) res" where
  "dbSave e filename d fs =
     res_bind (fmtAlloc (int FNAMESIZE) ''%s/data.tmp'' [FStr (Some (basicGetProductDir d))]) (\<lambda>(tmpFile, _).
     if \<not> fe_open e then Inr (- 1, fs)
     else
       res_bind (save_tables e d [0..<dbMaxTables d] (0, [])) (\<lambda>(nRet, (_, out)).
       let fs = fs(tmpFile \<mapsto> out) in
       if nRet \<noteq> 0 then Inr (nRet, fs)
       else
         res_bind (db_path d filename) (\<lambda>path.
         let fs = fs(path := None) in
         if fe_rename e \<and> fs tmpFile \<noteq> None then Inr (0, (fs(tmpFile := None))(path := fs tmpFile))
         else Inr (- 1, fs))))"

section \<open>Loading\<close>

definition trim :: "string \<Rightarrow> string" where
  "trim s = dropWhile gisspace s"

definition crack :: "string \<Rightarrow> (string \<times> string) option" where
  "crack buf =
     (let buf = (case strrchr buf LF of
            Some i \<Rightarrow> take i buf
          | None \<Rightarrow> (case strrchr buf CR of Some i \<Rightarrow> take i buf | None \<Rightarrow> buf));
          key = takeWhile (\<lambda>c. c \<noteq> CHR ''='') buf
      in if key = buf then None else Some (trim key, trim (drop (Suc (length key)) buf)))"

record loader =
  ld_name :: "string option"
  ld_tid :: int
  ld_row :: int
  ld_db :: db

text \<open>One line.  \<open>None\<close> is running out of fuel in \<open>dbSetTableNrow\<close>.\<close>

definition load_column :: "string \<Rightarrow> string \<Rightarrow> loader \<Rightarrow> loader res" where
  "load_column keyword v s =
     (let nColumn = GetColumnIndex (ld_tid s) keyword (ld_db s) in
      case table_at (ld_db s) (ld_tid s) of
        None \<Rightarrow> Inr s
      | Some t \<Rightarrow>
          if nColumn < 0 then Inr s
          else
            (case ld_name s of
               None \<Rightarrow> Inl OutOfBounds
             | Some tablename \<Rightarrow>
                 res_bind (if columnTypes t ! nat nColumn = T_STRING
                           then dbWriteStr tablename keyword (ld_row s) (Some v) (ld_db s)
                           else dbWriteInt tablename keyword (ld_row s) (sint (gstrtoi v)) (ld_db s))
                   (\<lambda>(_, d). Inr (s\<lparr>ld_db := d\<rparr>))))"

definition load_line :: "halloc \<Rightarrow> string \<Rightarrow> loader \<Rightarrow> loader res option" where
  "load_line e line s =
     (case crack line of
        None \<Rightarrow> Some (Inr s)
      | Some (keyword, v) \<Rightarrow>
          if keyword = KEYWORD_TABLE then
            Some (Inr (s\<lparr>ld_name := Some v, ld_tid := dbGetTableId v (ld_db s)\<rparr>))
          else if keyword = KEYWORD_ROW then
            (if ld_tid s < 0 then Some (Inr s)
             else
               (case ld_name s of
                  None \<Rightarrow> Some (Inl OutOfBounds)
                | Some tablename \<Rightarrow>
                    (let n = dbGetTableNrow tablename (ld_db s) in
                     case dbSetTableNrow e tablename (nat (n + 1)) (ld_db s) of
                       None \<Rightarrow> None
                     | Some (Inl f) \<Rightarrow> Some (Inl f)
                     | Some (Inr (rc, d)) \<Rightarrow>
                         Some (Inr (if rc = 0 then s\<lparr>ld_row := n, ld_db := d\<rparr> else s\<lparr>ld_db := d\<rparr>)))))
          else if ld_row s \<noteq> - 1 then Some (load_column keyword v s)
          else Some (Inr s))"

fun load_lines :: "(nat \<Rightarrow> halloc) \<Rightarrow> string list \<Rightarrow> loader \<Rightarrow> loader res option" where
  "load_lines e [] s = Some (Inr s)"
| "load_lines e (l # ls) s =
     (case load_line (e 0) l s of
        None \<Rightarrow> None
      | Some (Inl f) \<Rightarrow> Some (Inl f)
      | Some (Inr s) \<Rightarrow> load_lines (\<lambda>k. e (Suc k)) ls s)"

text \<open>\<open>h k\<close> are the outcomes of the allocations for a row that the line \<open>k\<close> asks for.  The source does
  not test the buffer: without memory the read into NULL fails and \<open>bfree\<close> looks for a header in front
  of NULL.  A file without a token hands a null pointer to \<open>crack\<close>.\<close>

definition dbLoad :: "fsenv \<Rightarrow> (nat \<Rightarrow> halloc) \<Rightarrow> string option \<Rightarrow> db \<Rightarrow> files \<Rightarrow> (int \<times> db) res option" where
  "dbLoad e h filename d fs =
     (case db_path d filename of
        Inl f \<Rightarrow> Some (Inl f)
      | Inr path \<Rightarrow>
          (case fs path of
             None \<Rightarrow> Some (Inr (- 1, d))
           | Some text \<Rightarrow>
               if \<not> fe_stat e then Some (Inr (- 1, d))
               else if \<not> fe_open e then Some (Inr (- 1, d))
               else if text = [] then Some (Inr (- 1, d))
               else if \<not> fe_buf e then Some (Inl OutOfBounds)
               else if \<not> fe_read e then Some (Inr (- 1, d))
               else
                 (case strtok [LF] (takeWhile (\<lambda>c. c \<noteq> NUL) text) of
                    [] \<Rightarrow> Some (Inl OutOfBounds)
                  | tokens \<Rightarrow>
                      map_option (map_sum id (\<lambda>s. (0, ld_db s)))
                        (load_lines h tokens \<lparr>ld_name = None, ld_tid = - 1, ld_row = - 1, ld_db = d\<rparr>))))"

end
