(* ===== verification/Emfdb_File_Laws.thy ===== *)
theory Emfdb_File_Laws
  imports Emfdb_File Emfdb_Laws
begin

text \<open>
  What \<open>dbSave\<close> writes and what \<open>dbLoad\<close> makes of it.  \<open>db_lines\<close> is the text of a database as a
  list of lines; saving produces it, splitting gives it back, and loading it rebuilds the kept rows.
\<close>

section \<open>Lines\<close>

text \<open>A value that survives \<open>crack\<close>: no line break, no NUL, no leading white space.\<close>

definition plain :: "string \<Rightarrow> bool" where
  "plain v \<longleftrightarrow> is_cstr v \<and> LF \<notin> set v \<and> CR \<notin> set v \<and> (v = [] \<or> \<not> gisspace (hd v))"

definition keyword_ok :: "string \<Rightarrow> bool" where
  "keyword_ok k \<longleftrightarrow> plain k \<and> CHR ''='' \<notin> set k"

definition pair_line :: "string \<Rightarrow> string \<Rightarrow> string" where
  "pair_line k v = k @ CHR ''='' # v"

definition short_pair :: "string \<Rightarrow> string \<Rightarrow> bool" where
  "short_pair k v \<longleftrightarrow> length k + length v + 2 \<le> 4095"

definition joined :: "string list \<Rightarrow> string" where
  "joined ls = concat (map (\<lambda>l. l @ [LF]) ls)"

lemma joined_simps [simp]: "joined [] = []" "joined (l # ls) = l @ LF # joined ls"
  "joined (ls @ ms) = joined ls @ joined ms"
  by (simp_all add: joined_def)

lemma strtok_LF: "strtok [LF] (LF # s) = strtok [LF] s"
  by (subst (1 2) strtok.simps) simp

lemma strtok_line:
  assumes "l \<noteq> []" and "LF \<notin> set l"
  shows "strtok [LF] (l @ LF # s) = l # strtok [LF] s"
proof -
  have "dropWhile (\<lambda>c. c \<in> set [LF]) (l @ LF # s) = l @ LF # s"
    using assms by (cases l) auto
  moreover have "takeWhile (\<lambda>c. c \<notin> set [LF]) (l @ LF # s) = l"
    using assms(2) by (auto simp: takeWhile_append)
  moreover have "dropWhile (\<lambda>c. c \<notin> set [LF]) (l @ LF # s) = LF # s"
    using assms(2) by (auto simp: dropWhile_append)
  ultimately have "strtok [LF] (l @ LF # s) = l # strtok [LF] (LF # s)"
    by (simp only: strtok.simps [of "[LF]" "l @ LF # s"] Let_def) simp
  then show ?thesis by (simp add: strtok_LF)
qed

lemma strtok_joined:
  assumes "\<And>l. l \<in> set ls \<Longrightarrow> l \<noteq> [] \<and> LF \<notin> set l"
  shows "strtok [LF] (joined ls) = ls"
  using assms by (induction ls) (simp_all add: strtok_line strtok.simps [of "[LF]" "[]"])

lemma strrchr_none: "c \<notin> set s \<Longrightarrow> strrchr s c = None"
  by (induction s) auto

lemma trim_plain: "plain v \<Longrightarrow> trim v = v"
  by (cases v) (auto simp: plain_def trim_def)

lemma crack_pair:
  assumes "keyword_ok k" and "plain v"
  shows "crack (pair_line k v) = Some (k, v)"
proof -
  have "strrchr (pair_line k v) LF = None" "strrchr (pair_line k v) CR = None"
    using assms by (auto simp: keyword_ok_def plain_def pair_line_def LF_def CR_def intro!: strrchr_none)
  moreover have "takeWhile (\<lambda>c. c \<noteq> CHR ''='') (pair_line k v) = k"
    using assms(1) by (auto simp: keyword_ok_def pair_line_def takeWhile_append)
  moreover have "k \<noteq> pair_line k v" by (simp add: pair_line_def)
  ultimately show ?thesis
    using assms by (simp add: crack_def trim_plain keyword_ok_def) (simp add: pair_line_def trim_plain)
qed

lemma keywords_ok [simp]: "keyword_ok KEYWORD_TABLE" "keyword_ok KEYWORD_ROW"
  by (simp_all add: keyword_ok_def plain_def KEYWORD_TABLE_def KEYWORD_ROW_def gisspace_def uchar_def LF_def CR_def)

lemma plain_dec_int: "plain (dec_int n)"
proof -
  have c: "\<not> gisspace c \<and> c \<noteq> LF \<and> c \<noteq> CR" if "c \<in> set (dec_int n)" for c
    using dec_int_chars [OF that] by (auto simp: is_digit_def gisspace_def uchar_def LF_def CR_def)
  then show ?thesis using dec_int_cstr [of n] hd_in_set [of "dec_int n"] by (auto simp: plain_def)
qed

section \<open>What is saved\<close>

text \<open>Every call of the file system succeeds and every write takes its whole line.\<close>

definition fe_fine :: "fsenv \<Rightarrow> bool" where
  "fe_fine e \<longleftrightarrow> fe_open e \<and> fe_rename e \<and> fe_stat e \<and> fe_read e \<and> fe_buf e
     \<and> (\<forall>k. \<exists>m \<ge> 4095. fe_write e k = Some m)"

definition cell_text :: "cell \<Rightarrow> string" where
  "cell_text c = (case c of CInt n \<Rightarrow> dec_int n | CStr s \<Rightarrow> s)"

text \<open>A cell of column \<open>n\<close> with type \<open>ty\<close> that is written as it is, and one that is read back.\<close>

definition cell_writable :: "string \<Rightarrow> ctype \<Rightarrow> cell \<Rightarrow> bool" where
  "cell_writable n ty c \<longleftrightarrow> short_pair n (cell_text c) \<and>
     (case c of CInt i \<Rightarrow> ty = T_INT \<and> int32 i | CStr s \<Rightarrow> ty = T_STRING \<and> is_cstr s)"

definition cell_savable :: "string \<Rightarrow> ctype \<Rightarrow> cell \<Rightarrow> bool" where
  "cell_savable n ty c \<longleftrightarrow> cell_writable n ty c \<and> plain (cell_text c)"

definition row_writable :: "dbTable \<Rightarrow> row \<Rightarrow> bool" where
  "row_writable t x \<longleftrightarrow> length x = length (columnNames t)
     \<and> list_all (\<lambda>(n, ty, c). cell_writable n ty c) (zip (columnNames t) (zip (columnTypes t) x))"

definition row_savable :: "dbTable \<Rightarrow> row \<Rightarrow> bool" where
  "row_savable t x \<longleftrightarrow> length x = length (columnNames t)
     \<and> list_all (\<lambda>(n, ty, c). cell_savable n ty c) (zip (columnNames t) (zip (columnTypes t) x))"

definition cell_lines :: "string list \<Rightarrow> row \<Rightarrow> string list" where
  "cell_lines ns x = map (\<lambda>(n, c). pair_line n (cell_text c)) (zip ns x)"

definition row_lines :: "dbTable \<Rightarrow> nat \<Rightarrow> row \<Rightarrow> string list" where
  "row_lines t r x = pair_line KEYWORD_ROW (dec_int (int r)) # cell_lines (columnNames t) x"

text \<open>The rows \<open>dbSave\<close> writes out.\<close>

definition written :: "row option \<Rightarrow> bool" where
  "written p = (case p of None \<Rightarrow> False | Some x \<Rightarrow> hd x \<noteq> CInt 0 \<and> hd x \<noteq> CStr [])"

definition kept :: "dbTable \<Rightarrow> nat list" where
  "kept t = filter (\<lambda>r. written (hget (t_rows t) r)) [0..<nRows t]"

definition table_lines :: "dbTable \<Rightarrow> string list" where
  "table_lines t = pair_line KEYWORD_TABLE (t_name t)
     # concat (map (\<lambda>r. row_lines t r (the (hget (t_rows t) r))) (kept t))"

definition live_tables :: "db \<Rightarrow> dbTable list" where
  "live_tables d = List.map_filter (hget (dbListTables d)) [0..<dbMaxTables d]"

definition db_lines :: "db \<Rightarrow> string list" where
  "db_lines d = concat (map table_lines (live_tables d))"

definition table_writable :: "dbTable \<Rightarrow> bool" where
  "table_writable t \<longleftrightarrow> is_cstr (t_name t) \<and> short_pair KEYWORD_TABLE (t_name t) \<and> int32 (int (nRows t))
     \<and> hd (columnTypes t) = T_STRING \<and> list_all is_cstr (columnNames t)
     \<and> (\<forall>r \<in> set (kept t). row_writable t (the (hget (t_rows t) r)))"

definition table_savable :: "dbTable \<Rightarrow> bool" where
  "table_savable t \<longleftrightarrow> table_writable t \<and> plain (t_name t) \<and> distinct (columnNames t)
     \<and> (\<forall>n \<in> set (columnNames t). keyword_ok n \<and> n \<noteq> [] \<and> n \<noteq> KEYWORD_TABLE \<and> n \<noteq> KEYWORD_ROW)
     \<and> (\<forall>r \<in> set (kept t). row_savable t (the (hget (t_rows t) r)))"

definition db_savable :: "db \<Rightarrow> bool" where
  "db_savable d \<longleftrightarrow> live_tables d \<noteq> [] \<and> list_all table_savable (live_tables d)"

lemma line_text:
  assumes "is_cstr k" and "is_cstr v" and "short_pair k v"
  shows "fmtAlloc BUF_MAX (''%s=%s'' @ [LF]) [FStr (Some k), FStr (Some v)]
    = Inr (pair_line k v @ [LF], int (length (pair_line k v @ [LF])))"
proof -
  let ?l = "pair_line k v @ [LF]"
  have fmt: "render (''%s=%s'' @ [LF]) [FStr (Some k), FStr (Some v)] = Some ?l"
    by (simp add: pair_line_def LF_def)
  have "fmtAlloc BUF_MAX (''%s=%s'' @ [LF]) [FStr (Some k), FStr (Some v)]
      = Inr (take (fmt_cap BUF_MAX) ?l, int (min (fmt_cap BUF_MAX) (length ?l)))"
    by (rule fmt_alloc_text [OF fmt]) (use assms in \<open>simp_all add: args_ok_def BUF_MAX_def LF_def\<close>)
  moreover have "fmt_cap BUF_MAX = 4095" by (simp add: fmt_cap_def BUF_MAX_def STR_INC_def)
  moreover have "length ?l \<le> 4095" using assms(3) by (simp add: pair_line_def short_pair_def)
  ultimately show ?thesis by simp
qed

lemma write_pair:
  assumes "fe_fine e" and "is_cstr k" and "is_cstr v" and "short_pair k v"
  shows "\<exists>n' rc. dbWriteKeyValue e k (Some v) (n, out) = Inr (rc, (n', out @ joined [pair_line k v])) \<and> 0 \<le> rc"
proof -
  obtain m where m: "4095 \<le> m" "fe_write e n = Some m" using assms(1) by (auto simp: fe_fine_def)
  then have "take m (pair_line k v @ [LF]) = pair_line k v @ [LF]"
    using assms(4) by (intro take_all) (simp add: pair_line_def short_pair_def)
  then show ?thesis using line_text [OF assms(2-4)] m(2) by (simp add: dbWriteKeyValue_def)
qed

lemma print_int: "int32 n \<Longrightarrow> \<exists>w. fmtAlloc 20 ''%d'' [FInt n] = Inr (dec_int n, w)"
proof -
  assume n: "int32 n"
  have "fmtAlloc 20 ''%d'' [FInt n]
      = Inr (take (fmt_cap 20) (dec_int n), int (min (fmt_cap 20) (length (dec_int n))))"
    by (rule fmt_alloc_text) (use n print_int_length [OF n] in \<open>simp_all add: args_ok_def int32_def\<close>)
  moreover have "fmt_cap 20 = 63" by (simp add: fmt_cap_def STR_INC_def)
  ultimately show ?thesis using print_int_length [OF n] by simp
qed

lemma save_cell:
  assumes e: "fe_fine e" and k: "is_cstr n" and c: "cell_writable n ty c"
  shows "\<exists>n' rc. (if ty = T_STRING then res_bind (cell_str c) (\<lambda>s. dbWriteKeyValue e n s (m, out))
      else res_bind (cell_int c) (\<lambda>i. res_bind (fmtAlloc 20 ''%d'' [FInt i]) (\<lambda>(tmpNum, _).
        dbWriteKeyValue e n (Some tmpNum) (m, out))))
    = Inr (rc, (n', out @ joined [pair_line n (cell_text c)])) \<and> 0 \<le> rc"
proof -
  show ?thesis
  proof (cases c)
    case (CInt i)
    then have i: "ty = T_INT" "int32 i" "short_pair n (dec_int i)" using c by (simp_all add: cell_writable_def cell_text_def)
    obtain w where "fmtAlloc 20 ''%d'' [FInt i] = Inr (dec_int i, w)" using print_int [OF i(2)] by blast
    then show ?thesis
      using write_pair [OF e k dec_int_cstr i(3), of m out] CInt i(1) by (simp add: cell_text_def)
  next
    case (CStr v)
    then have v: "ty = T_STRING" "is_cstr v" "short_pair n v" using c by (simp_all add: cell_writable_def cell_text_def)
    then show ?thesis using write_pair [OF e k v(2,3), of m out] CStr by (simp add: cell_text_def)
  qed
qed

lemma save_cells_lines:
  assumes "length ns = length tys" and "length tys = length cs" and "fe_fine e" and "0 \<le> rc"
    and "list_all is_cstr ns"
    and "list_all (\<lambda>(n, ty, c). cell_writable n ty c) (zip ns (zip tys cs))"
  shows "\<exists>n' rc'. save_cells e rc ns tys cs (n, out) = Inr (rc', (n', out @ joined (cell_lines ns cs))) \<and> 0 \<le> rc'"
  using assms
proof (induction ns tys cs arbitrary: rc n out rule: list_induct3)
  case Nil
  then show ?case by (simp add: cell_lines_def)
next
  case (Cons k ns ty tys c cs)
  have p: "is_cstr k" "cell_writable k ty c" using Cons.prems by simp_all
  obtain n1 rc1 where w: "(if ty = T_STRING then res_bind (cell_str c) (\<lambda>s. dbWriteKeyValue e k s (n, out))
      else res_bind (cell_int c) (\<lambda>i. res_bind (fmtAlloc 20 ''%d'' [FInt i]) (\<lambda>(tmpNum, _).
        dbWriteKeyValue e k (Some tmpNum) (n, out))))
    = Inr (rc1, (n1, out @ joined [pair_line k (cell_text c)]))" "0 \<le> rc1"
    using save_cell [OF Cons.prems(1) p, of n out] by blast
  have run: "save_cells e rc (k # ns) (ty # tys) (c # cs) (n, out)
      = save_cells e rc1 ns tys cs (n1, out @ joined [pair_line k (cell_text c)])"
    using Cons.prems(2) by (simp only: save_cells.simps w(1)) simp
  show ?case
    unfolding run using Cons.IH [of rc1 n1 "out @ joined [pair_line k (cell_text c)]"] Cons.prems w(2)
    by (simp add: cell_lines_def)
qed

lemma save_rows_lines:
  assumes e: "fe_fine e" and t: "table_wf t" "table_writable t" and "\<forall>r \<in> set rs. r < nRows t"
  shows "\<exists>n'. save_rows e t rs (n, out) = Inr (0, (n', out @ joined (concat
    (map (\<lambda>r. row_lines t r (the (hget (t_rows t) r))) (filter (\<lambda>r. written (hget (t_rows t) r)) rs)))))"
  using assms(4)
proof (induction rs arbitrary: n out)
  case Nil
  then show ?case by simp
next
  case (Cons r rs)
  have r: "r < nRows t" using Cons.prems by simp
  have p: "row_ptr t r = Inr (hget (t_rows t) r)" using row_ptr_hget r t(1) by (simp add: table_wf_def)
  show ?case
  proof (cases "written (hget (t_rows t) r)")
    case False
    have "row_skipped (hget (t_rows t) r) = Inr True"
    proof (cases "hget (t_rows t) r")
      case (Some x)
      have "columnTypes t \<noteq> []" using t(1) by (auto simp: table_wf_def)
      then obtain c cs where "x = c # cs"
        using table_wf_row [OF t(1) Some] by (cases x) (auto simp: row_wf_def)
      then show ?thesis using False Some by (auto simp: row_skipped_def written_def)
    qed (simp add: row_skipped_def)
    then show ?thesis using p False Cons by simp
  next
    case True
    then obtain x where x: "hget (t_rows t) r = Some x" "hd x \<noteq> CInt 0" "hd x \<noteq> CStr []"
      by (auto simp: written_def split: option.splits)
    have "r \<in> set (kept t)" using True r by (simp add: kept_def)
    then have sv: "row_writable t x" using t(2) x(1) by (auto simp: table_writable_def)
    have "columnTypes t \<noteq> []" using t(1) by (auto simp: table_wf_def)
    then obtain c cs where c: "x = c # cs" "cell_ok T_STRING c"
      using table_wf_row [OF t(1) x(1)] t(2)
      by (cases x; cases "columnTypes t") (auto simp: row_wf_def table_writable_def)
    then have skip: "row_skipped (Some x) = Inr False"
      using x(2,3) by (cases c) (auto simp: row_skipped_def cell_ok_def)
    have "int32 (int r)" using t(2) r by (simp add: table_writable_def int32_def)
    then obtain w where num: "fmtAlloc 20 ''%d'' [FInt (int r)] = Inr (dec_int (int r), w)" using print_int by blast
    have "length (dec_int (int r)) \<le> 12"
      using print_int_length [OF \<open>int32 (int r)\<close>] .
    then have "short_pair KEYWORD_ROW (dec_int (int r))" by (simp add: short_pair_def KEYWORD_ROW_def)
    moreover have "is_cstr KEYWORD_ROW" using keywords_ok by (simp add: keyword_ok_def plain_def)
    ultimately obtain n1 rc1 where w1: "dbWriteKeyValue e KEYWORD_ROW (Some (dec_int (int r))) (n, out)
        = Inr (rc1, (n1, out @ joined [pair_line KEYWORD_ROW (dec_int (int r))]))" "0 \<le> rc1"
      using write_pair [OF e _ dec_int_cstr] by blast
    let ?out1 = "out @ joined [pair_line KEYWORD_ROW (dec_int (int r))]"
    have "length (columnNames t) = length (columnTypes t)" "length (columnTypes t) = length x"
      using t(1) sv by (simp_all add: table_wf_def row_writable_def)
    then obtain n2 rc2 where w2: "save_cells e rc1 (columnNames t) (columnTypes t) x (n1, ?out1)
        = Inr (rc2, (n2, ?out1 @ joined (cell_lines (columnNames t) x)))" "0 \<le> rc2"
      using save_cells_lines [OF _ _ e w1(2), of "columnNames t" "columnTypes t" x n1 ?out1] t(2) sv
      by (auto simp: table_writable_def row_writable_def)
    have "save_rows e t (r # rs) (n, out) = save_rows e t rs (n2, ?out1 @ joined (cell_lines (columnNames t) x))"
      using p x(1) skip num w1(1) w2 by simp
    then show ?thesis
      using Cons.IH [of n2 "?out1 @ joined (cell_lines (columnNames t) x)"] Cons.prems True x(1)
      by (simp add: row_lines_def)
  qed
qed

lemma save_tables_lines:
  assumes e: "fe_fine e" and wf: "db_wf d" and "list_all table_writable (List.map_filter (hget (dbListTables d)) tids)"
  shows "\<exists>n'. save_tables e d tids (n, out) = Inr (0, (n', out @ joined (concat (map table_lines
    (List.map_filter (hget (dbListTables d)) tids)))))"
  using assms(3)
proof (induction tids arbitrary: n out)
  case Nil
  then show ?case by (simp add: List.map_filter_simps)
next
  case (Cons tid tids)
  show ?case
  proof (cases "hget (dbListTables d) tid")
    case None
    then show ?thesis using Cons by (simp add: List.map_filter_simps)
  next
    case (Some t)
    then have t: "table_wf t" "table_writable t" "list_all table_writable (List.map_filter (hget (dbListTables d)) tids)"
      using wf Cons.prems by (auto simp: db_wf_def List.map_filter_simps)
    have "is_cstr KEYWORD_TABLE" "is_cstr (t_name t)" "short_pair KEYWORD_TABLE (t_name t)"
      using keywords_ok t(2) by (simp_all add: keyword_ok_def plain_def table_writable_def)
    then obtain n1 rc1 where w1: "dbWriteKeyValue e KEYWORD_TABLE (Some (t_name t)) (n, out)
        = Inr (rc1, (n1, out @ joined [pair_line KEYWORD_TABLE (t_name t)]))"
      using write_pair [OF e] by blast
    obtain n2 where w2: "save_rows e t [0..<nRows t] (n1, out @ joined [pair_line KEYWORD_TABLE (t_name t)])
        = Inr (0, (n2, out @ joined (table_lines t)))"
      using save_rows_lines [OF e t(1,2), of "[0..<nRows t]" n1 "out @ joined [pair_line KEYWORD_TABLE (t_name t)]"]
      by (auto simp: table_lines_def kept_def)
    have "save_tables e d (tid # tids) (n, out) = save_tables e d tids (n2, out @ joined (table_lines t))"
      using Some w1 w2 by simp
    then show ?thesis using Cons.IH [OF t(3), of n2 "out @ joined (table_lines t)"] Some
      by (simp add: List.map_filter_simps)
  qed
qed

text \<open>The path of a data file, as \<open>fmtAlloc\<close> cuts it.\<close>

definition data_path :: "db \<Rightarrow> string \<Rightarrow> string" where
  "data_path d name = take 191 (basicGetProductDir d @ ''/'' @ name)"

lemma db_path_text:
  assumes "is_cstr (basicGetProductDir d)" and "is_cstr name"
  shows "db_path d (Some name) = Inr (data_path d name)"
proof -
  have "fmtAlloc (int FNAMESIZE) ''%s/%s'' [FStr (Some (basicGetProductDir d)), FStr (Some name)]
    = Inr (take (fmt_cap (int FNAMESIZE)) (basicGetProductDir d @ ''/'' @ name),
           int (min (fmt_cap (int FNAMESIZE)) (length (basicGetProductDir d @ ''/'' @ name))))"
    by (rule fmt_alloc_text) (use assms in \<open>simp_all add: args_ok_def FNAMESIZE_def\<close>)
  then show ?thesis by (simp add: db_path_def data_path_def fmt_cap_def FNAMESIZE_def STR_INC_def)
qed

lemma tmp_path_text:
  assumes "is_cstr (basicGetProductDir d)"
  shows "\<exists>w. fmtAlloc (int FNAMESIZE) ''%s/data.tmp'' [FStr (Some (basicGetProductDir d))] = Inr (data_path d ''data.tmp'', w)"
proof -
  have "fmtAlloc (int FNAMESIZE) ''%s/data.tmp'' [FStr (Some (basicGetProductDir d))]
    = Inr (take (fmt_cap (int FNAMESIZE)) (basicGetProductDir d @ ''/data.tmp''),
           int (min (fmt_cap (int FNAMESIZE)) (length (basicGetProductDir d @ ''/data.tmp''))))"
    by (rule fmt_alloc_text) (use assms in \<open>simp_all add: args_ok_def FNAMESIZE_def\<close>)
  then show ?thesis by (simp add: data_path_def fmt_cap_def FNAMESIZE_def STR_INC_def)
qed

lemma save_text:
  assumes e: "fe_fine e" and wf: "db_wf d" and s: "list_all table_writable (live_tables d)"
    and p: "is_cstr (basicGetProductDir d)" "is_cstr name" and ne: "data_path d name \<noteq> data_path d ''data.tmp''"
  shows "dbSave e (Some name) d fs
    = Inr (0, (fs(data_path d ''data.tmp'' := None))(data_path d name \<mapsto> joined (db_lines d)))"
proof -
  obtain w where tmp: "fmtAlloc (int FNAMESIZE) ''%s/data.tmp'' [FStr (Some (basicGetProductDir d))]
      = Inr (data_path d ''data.tmp'', w)" using tmp_path_text [OF p(1)] by blast
  obtain n where t: "save_tables e d [0..<dbMaxTables d] (0, []) = Inr (0, (n, joined (db_lines d)))"
    using save_tables_lines [OF e wf, of "[0..<dbMaxTables d]" 0 "[]"] s
    by (auto simp: db_lines_def live_tables_def)
  have "fe_open e" "fe_rename e" using e by (simp_all add: fe_fine_def)
  then show ?thesis
    using tmp t db_path_text [OF p] ne
    by (simp add: dbSave_def Let_def fun_upd_twist [of "data_path d name"])
qed

section \<open>What is loaded\<close>

lemma load_lines_append:
  "load_lines e (ls @ ms) s = (case load_lines e ls s of
     None \<Rightarrow> None | Some (Inl f) \<Rightarrow> Some (Inl f) | Some (Inr s) \<Rightarrow> load_lines (\<lambda>k. e (length ls + k)) ms s)"
  by (induction ls arbitrary: e s) (simp_all split: option.splits sum.splits)

text \<open>The table holds the rows \<open>xs\<close> at the handles from 0 on and nothing else.\<close>

definition rows_are :: "dbTable \<Rightarrow> row list \<Rightarrow> bool" where
  "rows_are t xs \<longleftrightarrow> nRows t = length xs \<and> hget (t_rows t) = (\<lambda>i. if i < length xs then Some (xs ! i) else None)"

text \<open>The loader is inside table \<open>nm\<close>.\<close>

definition loader_in :: "loader \<Rightarrow> string \<Rightarrow> dbTable \<Rightarrow> bool" where
  "loader_in s nm t \<longleftrightarrow> db_wf (ld_db s) \<and> tab (ld_db s) nm = Some t \<and> ld_name s = Some nm
     \<and> ld_tid s = dbGetTableId nm (ld_db s)"

text \<open>From state \<open>s\<close> in table \<open>nm\<close> the loader gets to a state in the same table, which is now \<open>t'\<close>.\<close>

definition loads :: "string list \<Rightarrow> loader \<Rightarrow> string \<Rightarrow> dbTable \<Rightarrow> loader \<Rightarrow> dbTable \<Rightarrow> bool" where
  "loads ls s nm t s' t' \<longleftrightarrow> load_lines (\<lambda>_. halloc_fine) ls s = Some (Inr s') \<and> loader_in s' nm t'
     \<and> tab (ld_db s') = (tab (ld_db s))(nm \<mapsto> t') \<and> same_schema t t'"

lemma loads_trans:
  "loads ls s nm t s1 t1 \<Longrightarrow> loads ms s1 nm t1 s2 t2 \<Longrightarrow> loads (ls @ ms) s nm t s2 t2"
  by (simp add: loads_def load_lines_append same_schema_def)

lemma loads_Nil: "loader_in s nm t \<Longrightarrow> loads [] s nm t s t"
  by (simp add: loads_def loader_in_def same_schema_def fun_upd_idem)

text \<open>A new row: the table has no hole, so the new handle is its row count.\<close>

lemma set_nrow_next:
  assumes wf: "db_wf d" and t: "tab d nm = Some t" and r: "rows_are t xs"
  shows "\<exists>d' t'. dbSetTableNrow halloc_fine nm (Suc (length xs)) d = Some (Inr (0, d')) \<and> db_wf d'
    \<and> tab d' = (tab d)(nm \<mapsto> t') \<and> dbGetTableId nm d' = dbGetTableId nm d \<and> same_schema t t'
    \<and> rows_are t' (xs @ [blank t])"
proof -
  obtain k where k: "dbGetTableId nm d = int k" "hget (dbListTables d) k = Some t" "k < dbMaxTables d"
    using tab_SomeD [OF t] by blast
  obtain h rows n where h: "dbAddRow halloc_fine nm d = Inr (int h, upd_tab d nm (with_rows rows n t))"
    "hget (t_rows t) h = None" "\<forall>k < h. hget (t_rows t) k \<noteq> None"
    "hget rows = (hget (t_rows t))(h \<mapsto> blank t)" "n = max (nRows t) (Suc h)" "table_wf (with_rows rows n t)"
    using add_row [OF wf t, of halloc_fine] by blast
  have "\<not> h < length xs" using h(2) r by (auto simp: rows_are_def)
  moreover have "\<not> length xs < h" using h(3) r by (auto simp: rows_are_def dest: spec [of _ "length xs"])
  ultimately have hx: "h = length xs" by simp
  let ?t = "with_rows rows n t" and ?d = "upd_tab d nm (with_rows rows n t)"
  have nm: "t_name ?t = nm" using twf(2) [OF wf t] by simp
  note u = upd_tab [OF wf t h(6) nm] upd_tab_id [OF wf t h(6) nm]
  have n: "n = Suc (length xs)" using h(5) hx r by (simp add: rows_are_def)
  have g: "hget (dbListTables ?d) k = Some ?t"
    using u tab_SomeD [of ?d nm ?t] k(1) by auto
  have stop: "grow_rows m halloc_fine nm k (Suc (length xs)) ?d = Some (Inr (0, ?d))" for m
    using g n by (subst grow_rows.simps) simp
  have "grow_rows (Suc (length xs)) halloc_fine nm k (Suc (length xs)) d = Some (Inr (0, ?d))"
    using k(2) r h(1) stop by (subst grow_rows.simps) (simp add: rows_are_def)
  then have "dbSetTableNrow halloc_fine nm (Suc (length xs)) d = Some (Inr (0, ?d))"
    using k r t by (simp add: dbSetTableNrow_def Let_def tab_def rows_are_def)
  moreover have "rows_are ?t (xs @ [blank t])"
    using h(4) hx n r by (auto simp: rows_are_def fun_eq_iff nth_append)
  ultimately show ?thesis using u by (auto simp: same_schema_def)
qed

lemma load_row_line:
  assumes "loader_in s nm t" and r: "rows_are t xs" and v: "plain v"
  shows "\<exists>s' t'. loads [pair_line KEYWORD_ROW v] s nm t s' t' \<and> ld_row s' = int (length xs)
    \<and> rows_are t' (xs @ [blank t])"
proof -
  note l = assms(1) [unfolded loader_in_def]
  obtain d' t' where d: "dbSetTableNrow halloc_fine nm (Suc (length xs)) (ld_db s) = Some (Inr (0, d'))" "db_wf d'"
    "tab d' = (tab (ld_db s))(nm \<mapsto> t')" "dbGetTableId nm d' = dbGetTableId nm (ld_db s)" "same_schema t t'"
    "rows_are t' (xs @ [blank t])"
    using set_nrow_next [of "ld_db s" nm t xs] l r by blast
  obtain k where k: "dbGetTableId nm (ld_db s) = int k" using tid [of "ld_db s" nm t] l by blast
  have n: "dbGetTableNrow nm (ld_db s) = int (length xs)"
    using l r by (simp add: dbGetTableNrow_def tab_def rows_are_def)
  have kw: "KEYWORD_ROW \<noteq> KEYWORD_TABLE" by (simp add: KEYWORD_ROW_def KEYWORD_TABLE_def)
  have "nat (int (length xs) + 1) = Suc (length xs)" by simp
  then have "load_line halloc_fine (pair_line KEYWORD_ROW v) s
      = Some (Inr (s\<lparr>ld_row := int (length xs), ld_db := d'\<rparr>))"
    using l k n d(1) kw crack_pair [OF keywords_ok(2) v] by (simp add: load_line_def Let_def)
  then show ?thesis using d l
    by (intro exI [of _ "s\<lparr>ld_row := int (length xs), ld_db := d'\<rparr>"] exI [of _ t'])
      (simp add: loads_def loader_in_def)
qed

definition columns_ok :: "dbTable \<Rightarrow> bool" where
  "columns_ok t \<longleftrightarrow> distinct (columnNames t)
     \<and> (\<forall>n \<in> set (columnNames t). keyword_ok n \<and> n \<noteq> KEYWORD_TABLE \<and> n \<noteq> KEYWORD_ROW)"

lemma find_index_middle:
  "distinct (ns @ n # ms) \<Longrightarrow> find_index (\<lambda>c. n = c) (ns @ n # ms) = Some (length ns)"
  by (auto simp: find_index_Some nth_append)

text \<open>One cell line writes the cell of its column in the row of the loader.\<close>

lemma load_cell_line:
  assumes l: "loader_in s nm t" and c: "columns_ok t" "is_col t n ci" and r: "ld_row s = int r" "hget (t_rows t) r = Some x"
    and v: "cell_savable n (columnTypes t ! ci) v"
  shows "\<exists>s' t'. loads [pair_line n (cell_text v)] s nm t s' t' \<and> ld_row s' = int r \<and> nRows t' = nRows t
    \<and> hget (t_rows t') = (hget (t_rows t))(r \<mapsto> x[ci := v])"
proof -
  note l' = l [unfolded loader_in_def]
  have wf: "db_wf (ld_db s)" and t: "tab (ld_db s) nm = Some t" using l' by simp_all
  have n: "n \<in> set (columnNames t)" using c(2) by (auto simp: is_col_def find_index_Some)
  then have k: "keyword_ok n" "n \<noteq> KEYWORD_TABLE" "n \<noteq> KEYWORD_ROW" using c(1) by (auto simp: columns_ok_def)
  have pl: "plain (cell_text v)"
    using v by (simp add: cell_savable_def)
  have ci: "GetColumnIndex (ld_tid s) n (ld_db s) = int ci"
    using column_index [OF t, of n] c(2) l' by (simp add: is_col_def)
  have tat: "table_at (ld_db s) (ld_tid s) = Some t" using l' by (simp add: tab_def)
  let ?t = "set_row r (x[ci := v]) t"
  let ?s = "s\<lparr>ld_db := upd_tab (ld_db s) nm ?t\<rparr>"
  have "load_column n (cell_text v) s = Inr ?s"
  proof (cases v)
    case (CInt i)
    then have i: "columnTypes t ! ci = T_INT" "int32 i" using v by (simp_all add: cell_savable_def cell_writable_def)
    have "sint (gstrtoi (dec_int i)) = i" using gstrtoi_dec_int i(2) by (simp add: int32_def)
    then show ?thesis
      using write_int [OF wf t c(2) r(2), of i] ci tat l' i(1) r(1) CInt
      by (simp add: load_column_def cell_text_def)
  next
    case (CStr w)
    then have "columnTypes t ! ci = T_STRING" using v by (simp add: cell_savable_def cell_writable_def)
    then show ?thesis
      using write_str [OF wf t c(2) _ r(2), of "Some w"] ci tat l' r(1) CStr
      by (simp add: load_column_def cell_text_def bstrdup_def)
  qed
  then have run: "load_line halloc_fine (pair_line n (cell_text v)) s = Some (Inr ?s)"
    using k crack_pair [OF k(1) pl] r(1) by (simp add: load_line_def)
  have ok: "cell_ok (columnTypes t ! ci) v"
    using v by (auto simp: cell_savable_def cell_writable_def cell_ok_def split: cell.splits)
  have st: "table_wf ?t" "hget (t_rows ?t) = (hget (t_rows t))(r \<mapsto> x[ci := v])"
    using set_row_wf [OF twf(1) [OF wf t] r(2), of "x[ci := v]"]
      row_wf_upd [OF _ col_types [OF wf t c(2)] ok] table_wf_row [OF twf(1) [OF wf t] r(2)] by blast+
  have nm: "t_name ?t = nm" using twf(2) [OF wf t] by simp
  note u = upd_tab [OF wf t st(1) nm] upd_tab_id [OF wf t st(1) nm]
  have "loads [pair_line n (cell_text v)] s nm t ?s ?t"
    using run u l' by (simp add: loads_def loader_in_def same_schema_def)
  then show ?thesis using st(2) r(1) by (intro exI [of _ ?s] exI [of _ ?t]) simp
qed

lemma load_cell_lines:
  assumes "loader_in s nm t" and "columns_ok t" and "columnNames t = ms @ ns" and "columnTypes t = us @ tys"
    and "length ms = length us" and "length ms = length bs" and "length ns = length tys" and "length ns = length cs"
    and "length os = length ns"
    and "list_all (\<lambda>(n, ty, c). cell_savable n ty c) (zip ns (zip tys cs))"
    and "ld_row s = int r" and "hget (t_rows t) r = Some (bs @ os)"
  shows "\<exists>s' t'. loads (cell_lines ns cs) s nm t s' t' \<and> nRows t' = nRows t
    \<and> hget (t_rows t') = (hget (t_rows t))(r \<mapsto> bs @ cs)"
  using assms
proof (induction ns arbitrary: s t ms us tys bs cs os)
  case Nil
  then show ?case
    using loads_Nil [of s nm t] by (intro exI [of _ s] exI [of _ t]) (simp add: cell_lines_def fun_upd_idem)
next
  case (Cons n ns)
  from Cons.prems(7-9) obtain ty tys' c cs' p os' where e: "tys = ty # tys'" "cs = c # cs'" "os = p # os'"
    by (cases tys; cases cs; cases os) auto
  have ci: "is_col t n (length ms)"
    using Cons.prems(2,3) find_index_middle [of ms n ns] by (simp add: is_col_def columns_ok_def)
  have ty: "columnTypes t ! length ms = ty" using Cons.prems(4,5) e(1) by simp
  have v: "cell_savable n (columnTypes t ! length ms) c" unfolding ty using Cons.prems(10) e by simp
  obtain s1 t1 where l1: "loads [pair_line n (cell_text c)] s nm t s1 t1" "ld_row s1 = int r" "nRows t1 = nRows t"
    "hget (t_rows t1) = (hget (t_rows t))(r \<mapsto> (bs @ os)[length ms := c])"
    using load_cell_line [OF Cons.prems(1,2) ci Cons.prems(11,12) v] by blast
  have row: "(bs @ os)[length ms := c] = (bs @ [c]) @ os'"
    using Cons.prems(6) e(3) by (simp add: list_update_append)
  have sc: "columnNames t1 = columnNames t" "columnTypes t1 = columnTypes t" "loader_in s1 nm t1"
    using l1(1) by (simp_all add: loads_def same_schema_def)
  have "\<exists>s' t'. loads (cell_lines ns cs') s1 nm t1 s' t' \<and> nRows t' = nRows t1
    \<and> hget (t_rows t') = (hget (t_rows t1))(r \<mapsto> (bs @ [c]) @ cs')"
  proof (rule Cons.IH [of s1 t1 "ms @ [n]" "us @ [ty]" tys' "bs @ [c]" cs' os', OF sc(3)])
    show "columns_ok t1" using Cons.prems(2) sc(1) by (simp add: columns_ok_def)
    show "list_all (\<lambda>(n, ty, c). cell_savable n ty c) (zip ns (zip tys' cs'))" using Cons.prems(10) e by simp
    show "hget (t_rows t1) r = Some ((bs @ [c]) @ os')" using l1(4) row by simp
  qed (use Cons.prems e sc l1(2) in simp_all)
  then obtain s2 t2 where l2: "loads (cell_lines ns cs') s1 nm t1 s2 t2" "nRows t2 = nRows t1"
    "hget (t_rows t2) = (hget (t_rows t1))(r \<mapsto> (bs @ [c]) @ cs')" by blast
  have "loads (cell_lines (n # ns) cs) s nm t s2 t2"
    using loads_trans [OF l1(1) l2(1)] e(2) by (simp add: cell_lines_def)
  then show ?case using l1(3,4) l2(2,3) e(2) by (intro exI [of _ s2] exI [of _ t2]) simp
qed

lemma load_row:
  assumes "loader_in s nm t" and "columns_ok t" and r: "rows_are t xs" and x: "row_savable t x"
  shows "\<exists>s' t'. loads (row_lines t k x) s nm t s' t' \<and> rows_are t' (xs @ [x])"
proof -
  obtain s1 t1 where l1: "loads [pair_line KEYWORD_ROW (dec_int (int k))] s nm t s1 t1" "ld_row s1 = int (length xs)"
    "rows_are t1 (xs @ [blank t])"
    using load_row_line [OF assms(1) r plain_dec_int] by blast
  have sc: "columnNames t1 = columnNames t" "columnTypes t1 = columnTypes t" "loader_in s1 nm t1"
    using l1(1) by (simp_all add: loads_def same_schema_def)
  have ty: "length (columnNames t) = length (columnTypes t)"
    using assms(1) twf(1) [of "ld_db s" nm t] by (simp add: loader_in_def table_wf_def)
  have "\<exists>s' t'. loads (cell_lines (columnNames t) x) s1 nm t1 s' t' \<and> nRows t' = nRows t1
    \<and> hget (t_rows t') = (hget (t_rows t1))(length xs \<mapsto> [] @ x)"
  proof (rule load_cell_lines [of s1 nm t1 "[]" "columnNames t" "[]" "columnTypes t" "[]" x "blank t", OF sc(3)])
    show "columns_ok t1" using assms(2) sc(1) by (simp add: columns_ok_def)
    show "hget (t_rows t1) (length xs) = Some ([] @ blank t)" using l1(3) by (simp add: rows_are_def)
  qed (use sc ty x l1(2) in \<open>simp_all add: row_savable_def blank_def\<close>)
  then obtain s2 t2 where l2: "loads (cell_lines (columnNames t) x) s1 nm t1 s2 t2" "nRows t2 = nRows t1"
    "hget (t_rows t2) = (hget (t_rows t1))(length xs \<mapsto> x)" by auto
  have "rows_are t2 (xs @ [x])"
    using l1(3) l2(2,3) by (auto simp: rows_are_def fun_eq_iff nth_append)
  moreover have "loads (row_lines t k x) s nm t s2 t2"
    using loads_trans [OF l1(1) l2(1)] by (simp add: row_lines_def)
  ultimately show ?thesis by blast
qed

lemma load_rows:
  assumes "loader_in s nm t" and "columns_ok t" and "rows_are t xs" and "list_all (\<lambda>(k, x). row_savable t x) ys"
  shows "\<exists>s' t'. loads (concat (map (\<lambda>(k, x). row_lines t k x) ys)) s nm t s' t' \<and> rows_are t' (xs @ map snd ys)"
  using assms
proof (induction ys arbitrary: s t xs)
  case Nil
  then show ?case using loads_Nil [of s nm t] by auto
next
  case (Cons y ys)
  obtain k x where y: "y = (k, x)" by (cases y)
  obtain s1 t1 where l1: "loads (row_lines t k x) s nm t s1 t1" "rows_are t1 (xs @ [x])"
    using load_row [OF Cons.prems(1-3), of x k] Cons.prems(4) y by auto
  have sc: "columnNames t1 = columnNames t" "columnTypes t1 = columnTypes t" "loader_in s1 nm t1"
    using l1(1) by (simp_all add: loads_def same_schema_def)
  have eq: "row_lines t1 = row_lines t" "row_savable t1 = row_savable t"
    using sc by (simp_all add: fun_eq_iff row_lines_def row_savable_def)
  have "columns_ok t1" using Cons.prems(2) sc(1) by (simp add: columns_ok_def)
  then obtain s2 t2 where l2: "loads (concat (map (\<lambda>(k, x). row_lines t k x) ys)) s1 nm t1 s2 t2"
    "rows_are t2 ((xs @ [x]) @ map snd ys)"
    using Cons.IH [OF sc(3) _ l1(2)] Cons.prems(4) unfolding eq by auto
  show ?case using loads_trans [OF l1(1) l2(1)] l2(2) y by auto
qed

text \<open>A whole table, from an empty one with the same columns.\<close>

definition kept_rows :: "dbTable \<Rightarrow> row list" where
  "kept_rows t = map (\<lambda>r. the (hget (t_rows t) r)) (kept t)"

lemma savable_columns: "table_savable t \<Longrightarrow> columns_ok t"
  by (simp add: table_savable_def columns_ok_def)

lemma load_table:
  assumes wf: "db_wf (ld_db s)" and t0: "tab (ld_db s) (t_name t) = Some t0" "same_schema t t0" "rows_are t0 []"
    and t: "table_savable t"
  shows "\<exists>s' t'. load_lines (\<lambda>_. halloc_fine) (table_lines t) s = Some (Inr s') \<and> db_wf (ld_db s')
    \<and> tab (ld_db s') = (tab (ld_db s))(t_name t \<mapsto> t') \<and> same_schema t t' \<and> rows_are t' (kept_rows t)"
proof -
  let ?ys = "map (\<lambda>r. (r, the (hget (t_rows t) r))) (kept t)"
  let ?s = "s\<lparr>ld_name := Some (t_name t), ld_tid := dbGetTableId (t_name t) (ld_db s)\<rparr>"
  have pl: "plain (t_name t)" using t by (simp add: table_savable_def)
  have hd: "load_line halloc_fine (pair_line KEYWORD_TABLE (t_name t)) s = Some (Inr ?s)"
    using crack_pair [OF keywords_ok(1) pl] by (simp add: load_line_def)
  have l: "loader_in ?s (t_name t) t0" using wf t0(1) by (simp add: loader_in_def)
  have eq: "row_lines t0 = row_lines t" "row_savable t0 = row_savable t" "columns_ok t0"
    using t0(2) savable_columns [OF t]
    by (simp_all add: fun_eq_iff row_lines_def row_savable_def columns_ok_def same_schema_def)
  have "list_all (\<lambda>(k, x). row_savable t0 x) ?ys"
    using t by (simp add: table_savable_def eq list_all_iff)
  then obtain s' t' where s': "loads (concat (map (\<lambda>(k, x). row_lines t0 k x) ?ys)) ?s (t_name t) t0 s' t'"
    "rows_are t' ([] @ map snd ?ys)"
    using load_rows [OF l eq(3) t0(3)] by blast
  have "table_lines t = pair_line KEYWORD_TABLE (t_name t) # concat (map (\<lambda>(k, x). row_lines t0 k x) ?ys)"
    by (simp add: table_lines_def eq comp_def)
  then have "load_lines (\<lambda>_. halloc_fine) (table_lines t) s = Some (Inr s')"
    using hd s'(1) by (simp add: loads_def)
  then show ?thesis
    using s' t0(2) by (intro exI [of _ s'] exI [of _ t'])
      (simp add: loads_def loader_in_def same_schema_def kept_rows_def comp_def)
qed

text \<open>The table of \<open>d'\<close> with this name holds the kept rows of \<open>t\<close>, compacted.\<close>

definition reloaded :: "db \<Rightarrow> dbTable \<Rightarrow> bool" where
  "reloaded d' t \<longleftrightarrow> (\<exists>t'. tab d' (t_name t) = Some t' \<and> same_schema t t' \<and> rows_are t' (kept_rows t))"

lemma load_tables:
  assumes "db_wf (ld_db s)" and "distinct (map t_name ts)" and "list_all table_savable ts"
    and "\<forall>t \<in> set ts. \<exists>t0. tab (ld_db s) (t_name t) = Some t0 \<and> same_schema t t0 \<and> rows_are t0 []"
  shows "\<exists>s'. load_lines (\<lambda>_. halloc_fine) (concat (map table_lines ts)) s = Some (Inr s') \<and> db_wf (ld_db s')
    \<and> list_all (reloaded (ld_db s')) ts
    \<and> (\<forall>nm. nm \<notin> t_name ` set ts \<longrightarrow> tab (ld_db s') nm = tab (ld_db s) nm)"
  using assms
proof (induction ts arbitrary: s)
  case Nil
  then show ?case by simp
next
  case (Cons t ts)
  obtain t0 where t0: "tab (ld_db s) (t_name t) = Some t0" "same_schema t t0" "rows_are t0 []"
    using Cons.prems(4) by auto
  have t: "table_savable t" using Cons.prems(3) by simp
  obtain s1 t1 where l1: "load_lines (\<lambda>_. halloc_fine) (table_lines t) s = Some (Inr s1)" "db_wf (ld_db s1)"
    "tab (ld_db s1) = (tab (ld_db s))(t_name t \<mapsto> t1)" "same_schema t t1" "rows_are t1 (kept_rows t)"
    using load_table [OF Cons.prems(1) t0 t] by blast
  have other: "t_name u \<noteq> t_name t" if "u \<in> set ts" for u
    using that Cons.prems(2) by (simp, metis imageI)
  have "\<forall>u \<in> set ts. \<exists>t0. tab (ld_db s1) (t_name u) = Some t0 \<and> same_schema u t0 \<and> rows_are t0 []"
    using Cons.prems(4) other by (simp add: l1(3))
  then obtain s2 where l2: "load_lines (\<lambda>_. halloc_fine) (concat (map table_lines ts)) s1 = Some (Inr s2)" "db_wf (ld_db s2)"
    "list_all (reloaded (ld_db s2)) ts" "\<forall>nm. nm \<notin> t_name ` set ts \<longrightarrow> tab (ld_db s2) nm = tab (ld_db s1) nm"
    using Cons.IH [OF l1(2)] Cons.prems(2,3) by auto
  have "tab (ld_db s2) (t_name t) = Some t1" proof -
    have "t_name t \<notin> t_name ` set ts" using other by fastforce
    then have "tab (ld_db s2) (t_name t) = tab (ld_db s1) (t_name t)" using l2(4) by blast
    then show ?thesis by (simp add: l1(3))
  qed
  then have "reloaded (ld_db s2) t" using l1(4,5) by (auto simp: reloaded_def)
  then show ?case
    using l1(1,3) l2 by (auto simp: load_lines_append)
qed

section \<open>Emptying the database\<close>

lemma zero_rows_ends:
  assumes "hwf (t_rows u)" and "\<forall>j x. hget (t_rows u) j = Some x \<longrightarrow> list_all2 cell_ok (columnTypes u) x"
    and "r < n \<longrightarrow> (\<forall>j < n. in_array j (t_rows u)) \<and> hget (t_rows u) (n - 1) \<noteq> None"
  shows "\<exists>rows. zero_rows [r..<n] u = Inr (u\<lparr>t_rows := rows\<rparr>)"
  using assms
proof (induction "n - r" arbitrary: r u)
  case 0
  then show ?case by (intro exI [of _ "t_rows u"]) simp
next
  case (Suc m)
  then have r: "r < n" "m = n - Suc r" by simp_all
  then have up: "[r..<n] = r # [Suc r..<n]" by (simp add: upt_rec)
  have p: "row_ptr u r = Inr (hget (t_rows u) r)" using Suc.prems(3) r by (intro row_ptr_hget) simp
  show ?case
  proof (cases "hget (t_rows u) r")
    case None
    have "\<exists>rows. zero_rows [Suc r..<n] u = Inr (u\<lparr>t_rows := rows\<rparr>)"
      using Suc.prems r by (intro Suc.hyps(1)) simp_all
    then show ?thesis using p None up by simp
  next
    case (Some x)
    then have fc: "free_cells (columnTypes u) x = Inr ()" using Suc.prems(2) by (auto intro: free_cells_ok)
    have live: "hget (t_rows u) r \<noteq> None" using Some by simp
    obtain k rows where f: "hFree (t_rows u) (int r) = Inr (int k, rows)" "hget rows = (hget (t_rows u))(r := None)"
      "hwf rows" "\<forall>j. hget rows j \<noteq> None \<longrightarrow> j < k" "\<forall>j < k. in_array j rows"
      by (use hFree_ok [OF Suc.prems(1) live] in \<open>elim exE conjE\<close>) blast
    let ?u = "u\<lparr>t_rows := rows\<rparr>"
    have last: "hget rows (n - 1) \<noteq> None" if "Suc r < n" using that Suc.prems(3) f(2) by auto
    have "\<exists>rows'. zero_rows [Suc r..<n] ?u = Inr (?u\<lparr>t_rows := rows'\<rparr>)"
    proof (rule Suc.hyps(1))
      show "m = n - Suc r" by (rule r(2))
      show "hwf (t_rows ?u)" using f(3) by simp
      show "\<forall>j x. hget (t_rows ?u) j = Some x \<longrightarrow> list_all2 cell_ok (columnTypes ?u) x"
        using Suc.prems(2) f(2) by simp
      show "Suc r < n \<longrightarrow> (\<forall>j < n. in_array j (t_rows ?u)) \<and> hget (t_rows ?u) (n - 1) \<noteq> None"
      proof
        assume n: "Suc r < n"
        have "n - 1 < k" using last [OF n] f(4) by blast
        then show "(\<forall>j < n. in_array j (t_rows ?u)) \<and> hget (t_rows ?u) (n - 1) \<noteq> None"
          using last [OF n] f(5) by simp
      qed
    qed
    then show ?thesis using p Some up fc f(1) by simp
  qed
qed

lemma zero_table_eq: "table_wf t \<Longrightarrow> zero_table t = Inr (with_rows None 0 t)"
proof -
  assume w: "table_wf t"
  have "\<exists>rows. zero_rows [0..<nRows t] t = Inr (t\<lparr>t_rows := rows\<rparr>)"
    using w by (intro zero_rows_ends) (auto simp: table_wf_def row_wf_def)
  then show ?thesis by (auto simp: zero_table_def with_rows_def)
qed

lemma empty_table_wf: "table_wf t \<Longrightarrow> table_wf (with_rows None 0 t)"
  by (simp add: table_wf_def hwf_def hget_def)

lemma zero_tables_eq:
  assumes "db_wf d" and "distinct ks"
  shows "\<exists>d'. zero_tables ks d = Inr d' \<and> db_wf d' \<and> dbMaxTables d' = dbMaxTables d \<and> basicProdDir d' = basicProdDir d
    \<and> hget (dbListTables d') = (\<lambda>k. if k \<in> set ks then map_option (with_rows None 0) (hget (dbListTables d) k)
        else hget (dbListTables d) k)"
  using assms
proof (induction ks arbitrary: d)
  case Nil
  then show ?case by simp
next
  case (Cons k ks)
  show ?case
  proof (cases "hget (dbListTables d) k")
    case None
    obtain d' where d': "zero_tables ks d = Inr d'" "db_wf d'" "dbMaxTables d' = dbMaxTables d"
      "basicProdDir d' = basicProdDir d" "hget (dbListTables d') = (\<lambda>k. if k \<in> set ks
        then map_option (with_rows None 0) (hget (dbListTables d) k) else hget (dbListTables d) k)"
      using Cons by auto
    then show ?thesis using None by (auto simp: fun_eq_iff)
  next
    case (Some t)
    have t: "table_wf t" "tab d (t_name t) = Some t" "dbGetTableId (t_name t) d = int k"
      using Cons.prems(1) Some tab_iff [OF Cons.prems(1), of "t_name t" t] table_id_unique [OF Cons.prems(1) Some refl]
      by (auto simp: db_wf_def)
    let ?t = "with_rows None 0 t" and ?d = "set_table k (with_rows None 0 t) d"
    have up: "?d = upd_tab d (t_name t) ?t" by (simp add: upd_tab_def t(3))
    have wf: "db_wf ?d"
      using upd_tab [OF Cons.prems(1) t(2) empty_table_wf [OF t(1)]] by (simp add: up)
    have g: "hget (dbListTables ?d) = (hget (dbListTables d))(k \<mapsto> ?t)"
      using hget_hset [OF in_array_hget [OF Some]] by (simp add: set_table_hset)
    obtain d' where d': "zero_tables ks ?d = Inr d'" "db_wf d'" "dbMaxTables d' = dbMaxTables ?d"
      "basicProdDir d' = basicProdDir ?d" "hget (dbListTables d') = (\<lambda>k. if k \<in> set ks
        then map_option (with_rows None 0) (hget (dbListTables ?d) k) else hget (dbListTables ?d) k)"
      using Cons.IH [OF wf] Cons.prems(2) by auto
    have "zero_tables (k # ks) d = Inr d'" using Some zero_table_eq [OF t(1)] d'(1) by simp
    then show ?thesis using d' g Some Cons.prems(2)
      by (intro exI [of _ d']) (auto simp: fun_eq_iff set_table_hset)
  qed
qed

lemma dbZero_eq:
  assumes wf: "db_wf d"
  shows "\<exists>d'. dbZero d = Inr d' \<and> db_wf d' \<and> basicProdDir d' = basicProdDir d
    \<and> (\<forall>nm. tab d' nm = map_option (with_rows None 0) (tab d nm))"
proof -
  obtain d' where d': "dbZero d = Inr d'" "db_wf d'" "dbMaxTables d' = dbMaxTables d" "basicProdDir d' = basicProdDir d"
    "hget (dbListTables d') = (\<lambda>k. if k \<in> set [0..<dbMaxTables d]
        then map_option (with_rows None 0) (hget (dbListTables d) k) else hget (dbListTables d) k)"
    using zero_tables_eq [OF wf, of "[0..<dbMaxTables d]"] by (auto simp: dbZero_def)
  have g: "hget (dbListTables d') k = map_option (with_rows None 0) (hget (dbListTables d) k)" for k
    using wf by (cases "hget (dbListTables d) k") (auto simp: d'(5) db_wf_def)
  have "tab d' nm = Some t \<longleftrightarrow> map_option (with_rows None 0) (tab d nm) = Some t" for nm t
  proof
    assume t: "tab d' nm = Some t"
    obtain k where k: "hget (dbListTables d') k = Some t" "t_name t = nm"
      using iffD1 [OF tab_iff [OF d'(2)] t] by blast
    obtain u where u: "hget (dbListTables d) k = Some u" "t = with_rows None 0 u" "t_name u = nm"
      using k(1) [unfolded g] k(2) by (cases "hget (dbListTables d) k", simp_all) (metis with_rows_sel(1))
    have "tab d nm = Some u" by (rule iffD2 [OF tab_iff [OF wf]]) (use u(1,3) in blast)
    then show "map_option (with_rows None 0) (tab d nm) = Some t" using u(2) by simp
  next
    assume "map_option (with_rows None 0) (tab d nm) = Some t"
    then obtain u where u: "tab d nm = Some u" "t = with_rows None 0 u" by auto
    obtain k where k: "hget (dbListTables d) k = Some u" "t_name u = nm" using iffD1 [OF tab_iff [OF wf] u(1)] by blast
    have "hget (dbListTables d') k = Some t \<and> t_name t = nm" using k u(2) by (simp add: g)
    then show "tab d' nm = Some t" by (intro iffD2 [OF tab_iff [OF d'(2)]]) blast
  qed
  then have "tab d' nm = map_option (with_rows None 0) (tab d nm)" for nm by (metis not_None_eq)
  with d' show ?thesis by blast
qed

section \<open>Saving and loading\<close>

lemma in_live_tables: "t \<in> set (live_tables d) \<longleftrightarrow> (\<exists>k < dbMaxTables d. hget (dbListTables d) k = Some t)"
  by (auto simp: live_tables_def List.map_filter_def image_iff)

lemma live_names_distinct:
  assumes "db_wf d"
  shows "distinct (map t_name (live_tables d))"
proof -
  have "distinct (map t_name (List.map_filter (hget (dbListTables d)) ks))" if "distinct ks" for ks
    using that
  proof (induction ks)
    case Nil
    then show ?case by (simp add: List.map_filter_simps)
  next
    case (Cons k ks)
    show ?case
    proof (cases "hget (dbListTables d) k")
      case None
      then show ?thesis using Cons by (simp add: List.map_filter_simps)
    next
      case (Some t)
      have "t_name u \<noteq> t_name t" if u: "u \<in> set (List.map_filter (hget (dbListTables d)) ks)" for u
      proof
        assume n: "t_name u = t_name t"
        obtain j where j: "j \<in> set ks" "hget (dbListTables d) j = Some u"
          using u by (auto simp: List.map_filter_def)
        have "j = k" using assms j(2) Some n unfolding db_wf_def by blast
        then show False using j(1) Cons.prems by simp
      qed
      then have "t_name t \<notin> t_name ` set (List.map_filter (hget (dbListTables d)) ks)" by fastforce
      then show ?thesis using Cons Some by (simp add: List.map_filter_simps)
    qed
  qed
  then show ?thesis unfolding live_tables_def by simp
qed

lemma row_savable_cell:
  assumes "row_savable t x" and "length (columnNames t) = length (columnTypes t)"
    and "(n, c) \<in> set (zip (columnNames t) x)"
  shows "\<exists>ty. cell_savable n ty c"
proof -
  obtain i where i: "i < length (columnNames t)" "i < length x" "n = columnNames t ! i" "c = x ! i"
    using assms(3) by (auto simp: set_zip)
  then have "(n, columnTypes t ! i, c) \<in> set (zip (columnNames t) (zip (columnTypes t) x))"
    using assms(2) by (auto simp: set_zip intro!: exI [of _ i])
  then show ?thesis using assms(1) by (auto simp: row_savable_def list_all_iff)
qed

lemma db_line_ok:
  assumes "db_wf d" and "list_all table_savable (live_tables d)" and "l \<in> set (db_lines d)"
  shows "l \<noteq> [] \<and> LF \<notin> set l \<and> is_cstr l"
proof -
  have pair: "pair_line k v \<noteq> [] \<and> LF \<notin> set (pair_line k v) \<and> is_cstr (pair_line k v)"
    if "keyword_ok k" "plain v" for k v
    using that by (auto simp: keyword_ok_def plain_def pair_line_def LF_def)
  obtain t where lt: "t \<in> set (live_tables d)" "l \<in> set (table_lines t)"
    using assms(3) by (auto simp: db_lines_def)
  have t: "table_savable t" "table_wf t"
    using lt(1) assms(1,2) by (auto simp: list_all_iff in_live_tables db_wf_def)
  consider "l = pair_line KEYWORD_TABLE (t_name t)"
    | r where "r \<in> set (kept t)" "l \<in> set (row_lines t r (the (hget (t_rows t) r)))"
    using lt(2) by (auto simp: table_lines_def)
  then show ?thesis
  proof cases
    case 1
    then show ?thesis using pair [OF keywords_ok(1)] t(1) by (simp add: table_savable_def)
  next
    case 2
    let ?x = "the (hget (t_rows t) r)"
    have sv: "row_savable t ?x" using t(1) 2(1) by (simp add: table_savable_def)
    consider "l = pair_line KEYWORD_ROW (dec_int (int r))"
      | n c where "(n, c) \<in> set (zip (columnNames t) ?x)" "l = pair_line n (cell_text c)"
      using 2(2) by (auto simp: row_lines_def cell_lines_def)
    then show ?thesis
    proof cases
      case 1
      then show ?thesis using pair [OF keywords_ok(2) plain_dec_int] by simp
    next
      case (2 n c)
      have "keyword_ok n" using t(1) set_zip_leftD [OF 2(1)] by (simp add: table_savable_def)
      moreover have "plain (cell_text c)"
        using row_savable_cell [OF sv _ 2(1)] t(2) by (auto simp: table_wf_def cell_savable_def)
      ultimately show ?thesis using pair 2(2) by simp
    qed
  qed
qed

text \<open>The tables of \<open>c\<close> are those of \<open>d\<close>, with whatever rows.\<close>

definition schema_of :: "db \<Rightarrow> db \<Rightarrow> bool" where
  "schema_of d c \<longleftrightarrow> list_all (\<lambda>t. \<exists>t0. tab c (t_name t) = Some t0 \<and> same_schema t t0) (live_tables d)"

lemma load_text:
  assumes e: "fe_fine e" and wf: "db_wf d" "db_wf c" and s: "db_savable d"
    and c: "list_all (\<lambda>t. \<exists>t0. tab c (t_name t) = Some t0 \<and> same_schema t t0 \<and> rows_are t0 []) (live_tables d)"
    and p: "is_cstr (basicGetProductDir c)" "is_cstr name" and f: "fs (data_path c name) = Some (joined (db_lines d))"
  shows "\<exists>d'. dbLoad e (\<lambda>_. halloc_fine) (Some name) c fs = Some (Inr (0, d')) \<and> db_wf d'
    \<and> list_all (reloaded d') (live_tables d)
    \<and> (\<forall>nm. nm \<notin> t_name ` set (live_tables d) \<longrightarrow> tab d' nm = tab c nm)"
proof -
  let ?s = "\<lparr>ld_name = None, ld_tid = - 1, ld_row = - 1, ld_db = c\<rparr>"
  have sv: "list_all table_savable (live_tables d)" using s by (simp add: db_savable_def)
  note ok = db_line_ok [OF wf(1) sv]
  obtain s' where s': "load_lines (\<lambda>_. halloc_fine) (db_lines d) ?s = Some (Inr s')" "db_wf (ld_db s')"
    "list_all (reloaded (ld_db s')) (live_tables d)"
    "\<forall>nm. nm \<notin> t_name ` set (live_tables d) \<longrightarrow> tab (ld_db s') nm = tab c nm"
    using load_tables [of ?s "live_tables d"] wf(2) live_names_distinct [OF wf(1)] sv c
    unfolding list_all_iff db_lines_def by auto
  have "is_cstr (joined (db_lines d))"
    using ok by (auto simp: joined_def is_cstr_def LF_def)
  then have nul: "takeWhile (\<lambda>c. c \<noteq> NUL) (joined (db_lines d)) = joined (db_lines d)"
    by (auto simp: is_cstr_def takeWhile_eq_all_conv)
  have tok: "strtok [LF] (joined (db_lines d)) = db_lines d" using ok by (intro strtok_joined) blast
  obtain l ls where ne: "db_lines d = l # ls"
    using s by (cases "live_tables d") (auto simp: db_savable_def db_lines_def table_lines_def)
  then have "joined (db_lines d) \<noteq> []" by simp
  moreover have "fe_open e" "fe_stat e" "fe_read e" "fe_buf e" using e by (simp_all add: fe_fine_def)
  moreover have "db_path c (Some name) = Inr (data_path c name)" by (rule db_path_text [OF p])
  ultimately have "dbLoad e (\<lambda>_. halloc_fine) (Some name) c fs = Some (Inr (0, ld_db s'))"
    using f s'(1) ne
    by (simp add: dbLoad_def nul [unfolded ne] tok [unfolded ne] del: load_lines.simps joined_simps)
  then show ?thesis using s' by blast
qed

lemma save_zero_load:
  assumes e: "fe_fine e" and wf: "db_wf d" "db_wf c" and s: "db_savable d" and c: "schema_of d c"
    and dir: "basicGetProductDir c = basicGetProductDir d"
    and p: "is_cstr (basicGetProductDir d)" "is_cstr name" and ne: "data_path d name \<noteq> data_path d ''data.tmp''"
  shows "\<exists>fs' c0 d'. dbSave e (Some name) d fs = Inr (0, fs') \<and> dbZero c = Inr c0
    \<and> dbLoad e (\<lambda>_. halloc_fine) (Some name) c0 fs' = Some (Inr (0, d')) \<and> db_wf d'
    \<and> list_all (reloaded d') (live_tables d)
    \<and> (\<forall>nm. nm \<notin> t_name ` set (live_tables d) \<longrightarrow> tab d' nm = map_option (with_rows None 0) (tab c nm))"
proof -
  let ?fs = "(fs(data_path d ''data.tmp'' := None))(data_path d name \<mapsto> joined (db_lines d))"
  have sv: "list_all table_writable (live_tables d)"
    using s by (auto simp: db_savable_def table_savable_def list_all_iff)
  obtain c0 where c0: "dbZero c = Inr c0" "db_wf c0" "basicProdDir c0 = basicProdDir c"
    "\<forall>nm. tab c0 nm = map_option (with_rows None 0) (tab c nm)"
    using dbZero_eq [OF wf(2)] by blast
  have d0: "basicGetProductDir c0 = basicGetProductDir d" using c0(3) dir by (simp add: basicGetProductDir_def)
  then have f: "?fs (data_path c0 name) = Some (joined (db_lines d))" by (simp add: data_path_def)
  have "list_all (\<lambda>t. \<exists>t0. tab c0 (t_name t) = Some t0 \<and> same_schema t t0 \<and> rows_are t0 []) (live_tables d)"
    using c c0(4) by (fastforce simp: schema_of_def list_all_iff same_schema_def rows_are_def hget_def)
  moreover have "is_cstr (basicGetProductDir c0)" using d0 p(1) by simp
  ultimately obtain d' where "dbLoad e (\<lambda>_. halloc_fine) (Some name) c0 ?fs = Some (Inr (0, d'))" "db_wf d'"
    "list_all (reloaded d') (live_tables d)"
    "\<forall>nm. nm \<notin> t_name ` set (live_tables d) \<longrightarrow> tab d' nm = tab c0 nm"
    using load_text [of e d c0 name ?fs] e wf(1) c0(2) s p(2) f by blast
  then show ?thesis using c0(1,4) save_text [OF e wf(1) sv p ne, of fs] by auto
qed

section \<open>Properties\<close>

text \<open>C24. Saving a sound database and loading the file into the same tables, emptied, works and
  rebuilds in each table exactly the rows that were written, compacted to the first handles, when
  every string is free of line breaks, NULs and leading white space, every number fits an \<open>int\<close> and
  every line fits the 4095 characters of its buffer; tables the file does not name end up empty.\<close>

theorem dbSave_dbLoad_round_trip:
  assumes "fe_fine e" and "db_wf d" and "db_wf c" and "db_savable d" and "schema_of d c"
    and "basicGetProductDir c = basicGetProductDir d"
    and "is_cstr (basicGetProductDir d)" and "is_cstr name" and "data_path d name \<noteq> data_path d ''data.tmp''"
  shows "\<exists>fs' c0 d'. dbSave e (Some name) d fs = Inr (0, fs') \<and> dbZero c = Inr c0
    \<and> dbLoad e (\<lambda>_. halloc_fine) (Some name) c0 fs' = Some (Inr (0, d')) \<and> db_wf d'
    \<and> list_all (reloaded d') (live_tables d)
    \<and> (\<forall>nm. nm \<notin> t_name ` set (live_tables d) \<longrightarrow> tab d' nm = map_option (with_rows None 0) (tab c nm))"
  by (rule save_zero_load [OF assms])

definition fs_env :: fsenv where
  "fs_env = \<lparr>fe_open = True, fe_write = (\<lambda>_. Some 4095), fe_rename = True, fe_stat = True, fe_read = True, fe_buf = True\<rparr>"

lemma fs_env_fine: "fe_fine fs_env"
  by (auto simp: fe_fine_def fs_env_def)

lemma demo_db_file:
  "live_tables demo_db = [demo_table]" "db_savable demo_db" "data_path demo_db ''db.txt'' = ''./db.txt''"
  "data_path demo_db ''data.tmp'' = ''./data.tmp''" "kept_rows demo_table = [[CStr ''admin'', CInt 1]]"
  by code_simp+

lemma demo_schema: "schema_of demo_db demo_db"
  using demo_db_wf(2) by (auto simp: schema_of_def demo_db_file same_schema_def demo_table_def)

theorem dbSave_dbLoad_round_trip_witness:
  "\<exists>fs' c0 d' t'. dbSave fs_env (Some ''db.txt'') demo_db Map.empty = Inr (0, fs') \<and> dbZero demo_db = Inr c0
    \<and> dbLoad fs_env (\<lambda>_. halloc_fine) (Some ''db.txt'') c0 fs' = Some (Inr (0, d'))
    \<and> tab d' ''users'' = Some t' \<and> hget (t_rows t') 0 = Some [CStr ''admin'', CInt 1] \<and> nRows t' = 1"
proof -
  have "is_cstr (basicGetProductDir demo_db)" "is_cstr ''db.txt''" by code_simp+
  then obtain fs' c0 d' where r: "dbSave fs_env (Some ''db.txt'') demo_db Map.empty = Inr (0, fs')"
    "dbZero demo_db = Inr c0" "dbLoad fs_env (\<lambda>_. halloc_fine) (Some ''db.txt'') c0 fs' = Some (Inr (0, d'))"
    "list_all (reloaded d') (live_tables demo_db)"
    using dbSave_dbLoad_round_trip [OF fs_env_fine demo_db_wf(1) demo_db_wf(1) demo_db_file(2) demo_schema refl,
      of "''db.txt''" Map.empty] demo_db_file(3,4) by auto
  have "t_name demo_table = ''users''" by code_simp
  with r show ?thesis by (auto simp: demo_db_file reloaded_def rows_are_def)
qed

text \<open>C26. When a save does not report success and the final rename is not what failed, no file but
  the temporary one is changed: the last saved file survives a failed open and a failed write.\<close>

theorem dbSave_failure_keeps_file:
  assumes "dbSave e (Some name) d fs = Inr (rc, fs')" and "rc \<noteq> 0" and "fe_rename e"
    and "is_cstr (basicGetProductDir d)" and "is_cstr name" and "p \<noteq> data_path d ''data.tmp''"
    and "data_path d name \<noteq> data_path d ''data.tmp''"
  shows "fs' p = fs p"
proof -
  obtain w where tmp: "fmtAlloc (int FNAMESIZE) ''%s/data.tmp'' [FStr (Some (basicGetProductDir d))]
      = Inr (data_path d ''data.tmp'', w)" using tmp_path_text [OF assms(4)] by blast
  show ?thesis
    using assms(1-3,6,7) tmp db_path_text [OF assms(4,5)]
    by (auto simp: dbSave_def Let_def split: if_splits)
qed

theorem dbSave_failure_keeps_file_witness:
  "\<exists>fs'. dbSave (fs_env\<lparr>fe_write := (\<lambda>k. if k = 2 then None else Some 4095)\<rparr>) (Some ''db.txt'') demo_db
      [''./db.txt'' \<mapsto> ''old''] = Inr (- 1, fs') \<and> fs' ''./db.txt'' = Some ''old''"
proof -
  let ?e = "fs_env\<lparr>fe_write := (\<lambda>k. if k = 2 then None else Some 4095)\<rparr>"
  let ?old = "[''./db.txt'' \<mapsto> ''old'']"
  have p: "short_pair KEYWORD_TABLE ''users''" "short_pair KEYWORD_ROW ''0''" "short_pair ''name'' ''admin''"
    "is_cstr KEYWORD_TABLE" "is_cstr ''users''" "is_cstr KEYWORD_ROW" "is_cstr ''0''" "is_cstr ''name''"
    "is_cstr ''admin''" "t_name demo_table = ''users''" "nRows demo_table = 1" "dbMaxTables demo_db = 1"
    "columnNames demo_table = [''name'', ''prot'']" "columnTypes demo_table = [T_STRING, T_INT]"
    "hget (dbListTables demo_db) 0 = Some demo_table" "row_ptr demo_table 0 = Inr (Some [CStr ''admin'', CInt 1])"
    "dec_int 0 = ''0''" "basicGetProductDir demo_db = ''.''"
    by code_simp+
  obtain w where num: "fmtAlloc 20 ''%d'' [FInt 0] = Inr (''0'', w)"
    using print_int [of 0] p(17) by (auto simp: int32_def)
  note lines = line_text [OF p(4,5,1)] line_text [OF p(6,7,2)] line_text [OF p(8,9,3)]
  have "\<exists>st. save_tables ?e demo_db [0..<dbMaxTables demo_db] (0, []) = Inr (- 1, st)"
    using lines num p by (simp add: dbWriteKeyValue_def row_skipped_def fs_env_def)
  moreover obtain v where "fmtAlloc (int FNAMESIZE) ''%s/data.tmp'' [FStr (Some ''.'')] = Inr (''./data.tmp'', v)"
    using tmp_path_text [of demo_db] demo_db_file(4) p(18) by auto
  ultimately obtain fs' where r: "dbSave ?e (Some ''db.txt'') demo_db ?old = Inr (- 1, fs')"
    using p(18) by (auto simp: dbSave_def fs_env_def)
  have c: "is_cstr (basicGetProductDir demo_db)" "is_cstr ''db.txt''" by code_simp+
  have "fs' ''./db.txt'' = [''./db.txt'' \<mapsto> ''old''] ''./db.txt''"
    by (rule dbSave_failure_keeps_file [OF r _ _ c]) (simp_all add: demo_db_file fs_env_def)
  with r show ?thesis by simp
qed

text \<open>The old file is unlinked before the rename, so a failed rename leaves neither.\<close>

lemma dbSave_failed_rename_loses_file:
  assumes "save_tables e d [0..<dbMaxTables d] (0, []) = Inr (0, st)" and "fe_open e" and "\<not> fe_rename e"
    and "is_cstr (basicGetProductDir d)" and "is_cstr name"
  shows "\<exists>fs'. dbSave e (Some name) d fs = Inr (- 1, fs') \<and> fs' (data_path d name) = None"
  using assms tmp_path_text [OF assms(4)] db_path_text [OF assms(4,5)]
  by (cases st) (auto simp: dbSave_def Let_def)

end
