(* ===== verification/Emfdb_Load.thy ===== *)
theory Emfdb_Load
  imports Emfdb_File_Laws
begin

text \<open>
  \<open>dbLoad\<close> on any file: whatever the text and whichever allocations of rows fail, no line makes the
  loader fault, every cell keeps the type of its column, and the schema stays.
\<close>

section \<open>Loading any file\<close>

text \<open>The schema of a database: the columns of each table.\<close>

definition schema :: "db \<Rightarrow> string \<Rightarrow> (string list \<times> ctype list) option" where
  "schema d nm = map_option (\<lambda>t. (columnNames t, columnTypes t)) (tab d nm)"

lemma schema_upd: "tab d nm = Some t \<Longrightarrow> tab d' = (tab d)(nm \<mapsto> t') \<Longrightarrow> same_schema t t' \<Longrightarrow> schema d' = schema d"
  by (auto simp: schema_def fun_eq_iff same_schema_def)

text \<open>A step of the loader stays in its table, if it has one, and keeps the types.\<close>

definition loader_ok :: "loader \<Rightarrow> bool" where
  "loader_ok s \<longleftrightarrow> db_wf (ld_db s) \<and> - 1 \<le> ld_row s \<and>
     (ld_tid s = - 1 \<or> (\<exists>nm t. loader_in s nm t))"

lemma loader_inI:
  "db_wf d \<Longrightarrow> tab d nm = Some t \<Longrightarrow> ld_name s = Some nm \<Longrightarrow> ld_tid s = dbGetTableId nm d \<Longrightarrow> loader_in (s\<lparr>ld_db := d\<rparr>) nm t"
  by (simp add: loader_in_def)

lemma upd_table_step:
  assumes wf: "db_wf d" and t: "tab d nm = Some t" and t': "table_wf t'" "t_name t' = nm" "same_schema t t'"
  shows "db_wf (upd_tab d nm t') \<and> tab (upd_tab d nm t') nm = Some t'
    \<and> dbGetTableId nm (upd_tab d nm t') = dbGetTableId nm d \<and> schema (upd_tab d nm t') = schema d"
  using upd_tab [OF wf t t'(1,2)] upd_tab_id [OF wf t t'(1,2)] schema_upd [OF t _ t'(3)] by auto

text \<open>A write to any row of any column of the table, whatever its outcome.\<close>

definition harmless :: "string \<Rightarrow> db \<Rightarrow> db \<Rightarrow> bool" where
  "harmless nm d d' \<longleftrightarrow> db_wf d' \<and> (\<exists>t. tab d' nm = Some t) \<and> dbGetTableId nm d' = dbGetTableId nm d
     \<and> schema d' = schema d"

lemma harmless_refl: "db_wf d \<Longrightarrow> tab d nm = Some t \<Longrightarrow> harmless nm d d"
  by (auto simp: harmless_def)

lemma harmless_cell:
  assumes wf: "db_wf d" and t: "tab d nm = Some t" and x: "hget (t_rows t) r = Some x"
    and c: "ci < length (columnTypes t)" "cell_ok (columnTypes t ! ci) c"
  shows "harmless nm d (upd_tab d nm (set_row r (x[ci := c]) t))"
proof -
  let ?t = "set_row r (x[ci := c]) t"
  have "table_wf ?t"
    using set_row_wf [OF twf(1) [OF wf t] x, of "x[ci := c]"] row_wf_upd [OF _ c]
      table_wf_row [OF twf(1) [OF wf t] x] by blast
  moreover have "t_name ?t = nm" using twf(2) [OF wf t] by simp
  moreover have "same_schema t ?t" by (simp add: same_schema_def)
  ultimately show ?thesis using upd_table_step [OF wf t] by (auto simp: harmless_def)
qed

lemma any_row:
  assumes "db_wf d" and "tab d nm = Some t" and "0 \<le> r" "r < int (nRows t)"
  shows "row_ptr t (nat r) = Inr (hget (t_rows t) (nat r))"
  using assms twf(1) [OF assms(1,2)] by (intro row_ptr_hget) (simp add: table_wf_def)

lemma write_any:
  assumes wf: "db_wf d" and t: "tab d nm = Some t" and c: "is_col t col ci"
  shows "\<exists>rc d'. dbWriteStr nm col r v d = Inr (rc, d') \<and> harmless nm d d'"
    and "columnTypes t ! ci \<noteq> T_STRING \<Longrightarrow> \<exists>rc d'. dbWriteInt nm col r n d = Inr (rc, d') \<and> harmless nm d d'"
proof -
  obtain k where k: "dbGetTableId nm d = int k" "hget (dbListTables d) k = Some t" using tid [OF t] by blast
  have ci: "GetColumnIndex (int k) col d = int ci" using column_index [OF t, of col] c k(1) by (simp add: is_col_def)
  have len: "ci < length (columnTypes t)" by (rule col_types [OF wf t c])
  note re = harmless_refl [OF wf t]
  have range: "\<not> (0 \<le> r \<and> r < int (nRows t)) \<or> (\<exists>m. r = int m \<and> (hget (t_rows t) m = None \<or> (\<exists>x. hget (t_rows t) m = Some x)))"
    by (metis not_None_eq zero_le_imp_eq_int)
  show "\<exists>rc d'. dbWriteStr nm col r v d = Inr (rc, d') \<and> harmless nm d d'"
  proof (cases "columnTypes t ! ci = T_STRING")
    case ty: True
    show ?thesis
    proof (cases "0 \<le> r \<and> r < int (nRows t)")
      case False
      then show ?thesis using k ci ty re by (auto simp: dbWriteStr_def Let_def)
    next
      case True
      then obtain m where m: "r = int m" "int m < int (nRows t)" by (metis zero_le_imp_eq_int)
      show ?thesis
      proof (cases "hget (t_rows t) m")
        case None
        then show ?thesis using k ci ty re m any_row [OF wf t, of r] by (simp add: dbWriteStr_def Let_def)
      next
        case (Some x)
        have "cell_ok (columnTypes t ! ci) (CStr (bstrdup v))" using ty by (simp add: cell_ok_def)
        from harmless_cell [OF wf t Some len this] write_str [OF wf t c ty Some, of v] m(1)
        show ?thesis by blast
      qed
    qed
  next
    case False
    then show ?thesis using k ci re by (simp add: dbWriteStr_def Let_def)
  qed
  assume ty: "columnTypes t ! ci \<noteq> T_STRING"
  show "\<exists>rc d'. dbWriteInt nm col r n d = Inr (rc, d') \<and> harmless nm d d'"
  proof (cases "0 \<le> r \<and> r < int (nRows t)")
    case False
    then show ?thesis using k ci re by (auto simp: dbWriteInt_def Let_def)
  next
    case True
    then obtain m where m: "r = int m" "int m < int (nRows t)" by (metis zero_le_imp_eq_int)
    show ?thesis
    proof (cases "hget (t_rows t) m")
      case None
      then show ?thesis using k ci re m any_row [OF wf t, of r] by (simp add: dbWriteInt_def Let_def)
    next
      case (Some x)
      have "cell_ok (columnTypes t ! ci) (CInt n)" using ty by (cases "columnTypes t ! ci") (simp_all add: cell_ok_def)
      from harmless_cell [OF wf t Some len this] write_int [OF wf t c Some, of n] m(1)
      show ?thesis by blast
    qed
  qed
qed

lemma grow_any:
  assumes "db_wf d" and "tab d nm = Some t" and "dbGetTableId nm d = int k"
    and "n - card (live_below n t) \<le> fuel"
  shows "\<exists>rc d'. grow_rows fuel e nm k n d = Some (Inr (rc, d')) \<and> harmless nm d d'"
  using assms
proof (induction fuel arbitrary: d t)
  case (0 d t)
  have g: "hget (dbListTables d) k = Some t" using tid [OF "0.prems"(2)] "0.prems"(3) by auto
  have "card (live_below n t) = n" using 0 card_live_below [of n t] by simp
  then have "live_below n t = {..<n}" by (intro card_subset_eq) (auto simp: live_below_def)
  then have "k < nRows t" if "k < n" for k
    using that twf(1) [OF "0.prems"(1,2)] by (auto simp: live_below_def table_wf_def)
  then have "n \<le> nRows t" using not_less by blast
  then show ?case using g harmless_refl [OF "0.prems"(1,2)] by (subst grow_rows.simps) auto
next
  case (Suc fuel d t)
  note wf = Suc.prems(1) and t = Suc.prems(2)
  note w = twf(1) [OF wf t]
  have g: "hget (dbListTables d) k = Some t" using tid [OF t] Suc.prems(3) by auto
  show ?case
  proof (cases "n \<le> nRows t")
    case True
    then show ?thesis using g harmless_refl [OF wf t] by (subst grow_rows.simps) auto
  next
    case False
    have sch: "same_schema t (with_rows rows m t)" "t_name (with_rows rows m t) = nm" for rows m
      using twf(2) [OF wf t] by (simp_all add: same_schema_def)
    from add_row [OF wf t, of e] show ?thesis
    proof
      assume "\<exists>rows. dbAddRow e nm d = Inr (- 1, upd_tab d nm (with_rows rows (nRows t) t))
        \<and> hget rows = hget (t_rows t) \<and> table_wf (with_rows rows (nRows t) t) \<and> e \<noteq> halloc_fine"
      then obtain rows where f: "dbAddRow e nm d = Inr (- 1, upd_tab d nm (with_rows rows (nRows t) t))"
        "table_wf (with_rows rows (nRows t) t)" by blast
      have "harmless nm d (upd_tab d nm (with_rows rows (nRows t) t))"
        using upd_table_step [OF wf t f(2) sch(2,1)] by (simp add: harmless_def)
      then show ?thesis using g False f(1) by (subst grow_rows.simps) simp
    next
      assume "\<exists>h rows m. dbAddRow e nm d = Inr (int h, upd_tab d nm (with_rows rows m t))
        \<and> hget (t_rows t) h = None \<and> (\<forall>k < h. hget (t_rows t) k \<noteq> None)
        \<and> hget rows = (hget (t_rows t))(h \<mapsto> blank t) \<and> m = max (nRows t) (Suc h)
        \<and> table_wf (with_rows rows m t)"
      then obtain h rows m where h: "dbAddRow e nm d = Inr (int h, upd_tab d nm (with_rows rows m t))"
        "hget (t_rows t) h = None" "\<forall>k < h. hget (t_rows t) k \<noteq> None"
        "hget rows = (hget (t_rows t))(h \<mapsto> blank t)" "table_wf (with_rows rows m t)" by blast
      let ?t = "with_rows rows m t" and ?d = "upd_tab d nm (with_rows rows m t)"
      note u = upd_table_step [OF wf t h(5) sch(2,1)]
      have "h \<le> nRows t"
      proof (rule ccontr)
        assume "\<not> h \<le> nRows t"
        then have "hget (t_rows t) (nRows t) \<noteq> None" using h(3) by simp
        then show False using w by (auto simp: table_wf_def)
      qed
      then have "live_below n ?t = insert h (live_below n t)" "h \<notin> live_below n t"
        using h(2,4) False by (auto simp: live_below_def)
      then have "n - card (live_below n ?t) \<le> fuel" using Suc.prems(4) by simp
      then obtain rc d' where "grow_rows fuel e nm k n ?d = Some (Inr (rc, d'))" "harmless nm ?d d'"
        using Suc.IH [of ?d ?t] u Suc.prems(3) by auto
      moreover have "harmless nm d d'" using calculation(2) u by (simp add: harmless_def)
      ultimately show ?thesis using g False h(1) by (subst grow_rows.simps) auto
    qed
  qed
qed

lemma load_line_any:
  assumes ok: "loader_ok s"
  shows "\<exists>s'. load_line e ln s = Some (Inr s') \<and> loader_ok s' \<and> schema (ld_db s') = schema (ld_db s)"
proof (cases "crack ln")
  case None
  then show ?thesis using ok by (simp add: load_line_def)
next
  case (Some kv)
  obtain kw v where kv: "kv = (kw, v)" by (cases kv)
  have wf: "db_wf (ld_db s)" using ok by (simp add: loader_ok_def)
  have step: "loader_ok (s\<lparr>ld_row := r, ld_db := d'\<rparr>)" if "loader_in s nm t" "harmless nm (ld_db s) d'" "- 1 \<le> r" for nm t d' r
    using that by (auto simp: loader_ok_def loader_in_def harmless_def)
  have step0: "loader_ok (s\<lparr>ld_db := d'\<rparr>)" if "loader_in s nm t" "harmless nm (ld_db s) d'" for nm t d'
    using that ok unfolding loader_ok_def loader_in_def harmless_def by auto
  consider (table) "kw = KEYWORD_TABLE" | (row) "kw \<noteq> KEYWORD_TABLE" "kw = KEYWORD_ROW"
    | (col) "kw \<noteq> KEYWORD_TABLE" "kw \<noteq> KEYWORD_ROW" by blast
  then show ?thesis
  proof cases
    case table
    let ?s = "s\<lparr>ld_name := Some v, ld_tid := dbGetTableId v (ld_db s)\<rparr>"
    have "dbGetTableId v (ld_db s) = - 1 \<or> (\<exists>t. tab (ld_db s) v = Some t)"
    proof (cases "tab (ld_db s) v")
      case None
      have "dbGetTableId v (ld_db s) = - 1"
      proof (rule ccontr)
        assume "dbGetTableId v (ld_db s) \<noteq> - 1"
        then obtain j where j: "dbGetTableId v (ld_db s) = int j" "find_index (\<lambda>tid. case hget (dbListTables (ld_db s)) tid of
            None \<Rightarrow> False | Some t \<Rightarrow> v = t_name t) [0..<dbMaxTables (ld_db s)] = Some j"
          by (auto simp: dbGetTableId_def index_int_def split: option.splits)
        then have "j < dbMaxTables (ld_db s) \<and> hget (dbListTables (ld_db s)) j \<noteq> None"
          by (auto simp: find_index_Some split: option.splits)
        then show False using None j(1) by (simp add: tab_def table_at_def)
      qed
      then show ?thesis ..
    qed simp
    then have "loader_ok ?s" using ok by (auto simp: loader_ok_def loader_in_def)
    then show ?thesis using Some kv table by (simp add: load_line_def)
  next
    case row
    show ?thesis
    proof (cases "ld_tid s = - 1")
      case True
      then show ?thesis using Some kv row ok by (simp add: load_line_def)
    next
      case False
      then obtain nm t where i: "loader_in s nm t" using ok by (auto simp: loader_ok_def)
      note l = i [unfolded loader_in_def]
      obtain k where k: "dbGetTableId nm (ld_db s) = int k" using tid [of "ld_db s" nm t] l by blast
      have n: "dbGetTableNrow nm (ld_db s) = int (nRows t)" using l by (simp add: dbGetTableNrow_def tab_def)
      obtain rc d' where g: "grow_rows (Suc (nRows t)) e nm k (Suc (nRows t)) (ld_db s) = Some (Inr (rc, d'))"
        "harmless nm (ld_db s) d'"
        using grow_any [of "ld_db s" nm t k "Suc (nRows t)" "Suc (nRows t)" e] l k by auto
      have "nat (int (nRows t) + 1) = Suc (nRows t)" by simp
      then have "dbSetTableNrow e nm (nat (dbGetTableNrow nm (ld_db s) + 1)) (ld_db s) = Some (Inr (rc, d'))"
        using g(1) k l unfolding n by (simp add: dbSetTableNrow_def Let_def tab_def)
      then have "load_line e ln s = Some (Inr (if rc = 0 then s\<lparr>ld_row := int (nRows t), ld_db := d'\<rparr> else s\<lparr>ld_db := d'\<rparr>))"
        using Some kv row l k n by (simp add: load_line_def Let_def)
      moreover have "loader_ok (s\<lparr>ld_db := d'\<rparr>)" by (rule step0 [OF i g(2)])
      moreover have "loader_ok (s\<lparr>ld_row := int (nRows t), ld_db := d'\<rparr>)" using step [OF i g(2)] by simp
      ultimately show ?thesis using g(2) by (auto simp: harmless_def)
    qed
  next
    case col
    show ?thesis
    proof (cases "ld_row s = - 1 \<or> ld_tid s = - 1")
      case True
      then show ?thesis using Some kv col ok by (auto simp: load_line_def load_column_def table_at_def Let_def)
    next
      case False
      then obtain nm t where i: "loader_in s nm t" using ok by (auto simp: loader_ok_def)
      note l = i [unfolded loader_in_def]
      have tat: "table_at (ld_db s) (ld_tid s) = Some t" using l by (simp add: tab_def)
      have run: "load_line e ln s = Some (load_column kw v s)" using Some kv col False by (simp add: load_line_def)
      show ?thesis
      proof (cases "find_index (\<lambda>c. kw = c) (columnNames t)")
        case None
        then have "GetColumnIndex (ld_tid s) kw (ld_db s) < 0" using column_index [of "ld_db s" nm t kw] l by simp
        then show ?thesis using run tat ok by (simp add: load_column_def Let_def)
      next
        case (Some ci)
        then have c: "is_col t kw ci" by (simp add: is_col_def)
        have ci: "GetColumnIndex (ld_tid s) kw (ld_db s) = int ci" using column_index [of "ld_db s" nm t kw] l Some by simp
        have "\<exists>rc d'. (if columnTypes t ! ci = T_STRING then dbWriteStr nm kw (ld_row s) (Some v) (ld_db s)
            else dbWriteInt nm kw (ld_row s) (sint (gstrtoi v)) (ld_db s)) = Inr (rc, d') \<and> harmless nm (ld_db s) d'"
          using write_any [of "ld_db s" nm t kw ci] c l by auto
        then obtain rc d' where w: "(if columnTypes t ! ci = T_STRING then dbWriteStr nm kw (ld_row s) (Some v) (ld_db s)
            else dbWriteInt nm kw (ld_row s) (sint (gstrtoi v)) (ld_db s)) = Inr (rc, d')" "harmless nm (ld_db s) d'" by blast
        then have "load_column kw v s = Inr (s\<lparr>ld_db := d'\<rparr>)" using tat ci l by (simp add: load_column_def Let_def)
        moreover have "loader_ok (s\<lparr>ld_db := d'\<rparr>)" by (rule step0 [OF i w(2)])
        ultimately show ?thesis using run w(2) by (simp add: harmless_def)
      qed
    qed
  qed
qed

lemma load_lines_any:
  "loader_ok s \<Longrightarrow> \<exists>s'. load_lines e ls s = Some (Inr s') \<and> loader_ok s' \<and> schema (ld_db s') = schema (ld_db s)"
proof (induction ls arbitrary: s e)
  case (Cons l ls)
  obtain s1 where s1: "load_line (e 0) l s = Some (Inr s1)" "loader_ok s1" "schema (ld_db s1) = schema (ld_db s)"
    using load_line_any [OF Cons.prems] by blast
  then show ?case using Cons.IH [OF s1(2)] by simp
qed simp

section \<open>Property\<close>

text \<open>C25. Loading any file into a sound database, whatever its text, the outcomes of the file
  calls and, line by line, those of the allocations for new rows, ends without a fault and answers 0 or
  -1; the schema stays, and every row of every table is well typed: string columns hold strings or null,
  number columns hold numbers.  The file buffer gets its memory, as do the path and the copies of the
  strings, which the code does not test.  The one file left out has no token at all (only line feeds, or
  a NUL first): the code dereferences a null pointer on it.\<close>

theorem dbLoad_keeps_types:
  assumes "db_wf d" and "is_cstr (basicGetProductDir d)" and "is_cstr name" and "fe_buf e"
    and "\<And>body. fs (data_path d name) = Some body \<Longrightarrow> body = [] \<or> strtok [LF] (takeWhile (\<lambda>c. c \<noteq> NUL) body) \<noteq> []"
  shows "\<exists>rc d'. dbLoad e h (Some name) d fs = Some (Inr (rc, d')) \<and> rc \<in> {0, - 1} \<and> db_wf d' \<and> schema d' = schema d
    \<and> (\<forall>nm t r x. tab d' nm = Some t \<and> hget (t_rows t) r = Some x \<longrightarrow> list_all2 cell_ok (columnTypes t) x)"
proof -
  let ?s = "\<lparr>ld_name = None, ld_tid = - 1, ld_row = - 1, ld_db = d\<rparr>"
  have ok: "loader_ok ?s" using assms(1) by (simp add: loader_ok_def)
  have "\<exists>rc d'. dbLoad e h (Some name) d fs = Some (Inr (rc, d')) \<and> rc \<in> {0, - 1} \<and> db_wf d' \<and> schema d' = schema d"
  proof (cases "fs (data_path d name)")
    case None
    then show ?thesis using db_path_text [OF assms(2,3)] assms(1) by (simp add: dbLoad_def)
  next
    case (Some body)
    let ?tok = "strtok [LF] (takeWhile (\<lambda>c. c \<noteq> NUL) body)"
    show ?thesis
    proof (cases "fe_stat e \<and> fe_open e \<and> body \<noteq> [] \<and> fe_read e")
      case False
      then show ?thesis using Some db_path_text [OF assms(2,3)] assms(1,4) by (auto simp: dbLoad_def)
    next
      case True
      then have tok: "?tok \<noteq> []" using assms(5) [OF Some] by blast
      obtain s' where s': "load_lines h ?tok ?s = Some (Inr s')" "loader_ok s'" "schema (ld_db s') = schema d"
        using load_lines_any [OF ok, of h ?tok] by auto
      have "dbLoad e h (Some name) d fs = map_option (map_sum id (\<lambda>s. (0, ld_db s))) (load_lines h ?tok ?s)"
        using True Some db_path_text [OF assms(2,3)] tok assms(4)
        by (cases ?tok) (simp_all add: dbLoad_def del: load_lines.simps)
      then show ?thesis using s' by (simp add: loader_ok_def)
    qed
  qed
  then show ?thesis
    using twf(1) table_wf_row by (fastforce simp: row_wf_def)
qed

text \<open>A torn file: an unknown table, a cell before any row, a number column with text, half a line.\<close>

definition torn_file :: string where
  "torn_file = joined [''TABLE=nobody'', ''name=x'', ''TABLE=users'', ''prot=9'', ''ROW=7'', ''name=bob'', ''prot=12ab'', ''na'']"

lemma fs_env_buf: "fe_buf fs_env"
  by (simp add: fs_env_def)

theorem dbLoad_keeps_types_witness:
  "\<exists>rc d'. dbLoad fs_env (\<lambda>_. halloc_fine) (Some ''db.txt'') demo_db [''./db.txt'' \<mapsto> torn_file] = Some (Inr (rc, d'))
    \<and> schema d' ''users'' = Some ([''name'', ''prot''], [T_STRING, T_INT])"
proof -
  have "strtok [LF] (takeWhile (\<lambda>c. c \<noteq> NUL) torn_file) \<noteq> []" by code_simp
  moreover have "is_cstr (basicGetProductDir demo_db)" "is_cstr ''db.txt''" by code_simp+
  moreover have "schema demo_db ''users'' = Some ([''name'', ''prot''], [T_STRING, T_INT])"
    using demo_db_wf(2) by (simp add: schema_def demo_table_def)
  ultimately show ?thesis
    using dbLoad_keeps_types [OF demo_db_wf(1), of "''db.txt''" fs_env "[''./db.txt'' \<mapsto> torn_file]" "\<lambda>_. halloc_fine"]
      demo_db_file(3) fs_env_buf by (auto split: if_splits)
qed

text \<open>The exception: \<open>gstrtok\<close> finds no token and \<open>crack\<close> gets its null pointer.\<close>

lemma dbLoad_blank_file_faults:
  assumes "fe_fine e" and "is_cstr (basicGetProductDir d)" and "is_cstr name"
    and "fs (data_path d name) = Some [LF]"
  shows "dbLoad e h (Some name) d fs = Some (Inl OutOfBounds)"
proof -
  have "strtok [LF] (takeWhile (\<lambda>c. c \<noteq> NUL) [LF]) = []" by code_simp
  then show ?thesis
    using assms(1,4) db_path_text [OF assms(2,3)] by (simp add: dbLoad_def fe_fine_def)
qed

end
