(* ===== verification/Um_File.thy ===== *)
theory Um_File
  imports Emfdb_File_Laws Um_Invariant
begin

text \<open>
  Saving and restoring the user database: \<open>umCommit\<close> and \<open>umRestore\<close> of
  \<open>user/goahead/src_tongyong/um.c\<close> over \<open>dbSave\<close>, \<open>dbZero\<close> and \<open>dbLoad\<close>.  What \<open>dbZero\<close> and the
  table writes inside \<open>dbLoad\<close> return is not looked at by the source.
\<close>

definition set_save_name :: "string option \<Rightarrow> um \<Rightarrow> um" where
  "set_save_name filename s =
     (case filename of
        Some (c # cs) \<Rightarrow> s\<lparr>saveFilename := Some (c # cs)\<rparr>
      | _ \<Rightarrow> s)"

definition umCommit :: "fsenv \<Rightarrow> string option \<Rightarrow> files \<Rightarrow> um \<Rightarrow> (int \<times> files \<times> um) res" where
  "umCommit e filename fs s =
     (let s = set_save_name filename s in
      res_bind (dbSave e (saveFilename s) (um_db s) fs) (\<lambda>(rc, fs). Inr (rc, fs, s)))"

definition umRestore :: "fsenv \<Rightarrow> (nat \<Rightarrow> halloc) \<Rightarrow> string option \<Rightarrow> files \<Rightarrow> um \<Rightarrow> (int \<times> um) res option" where
  "umRestore e h filename fs s =
     (let s = set_save_name filename s in
      case dbZero (um_db s) of
        Inl f \<Rightarrow> Some (Inl f)
      | Inr d \<Rightarrow> map_option (map_sum id (\<lambda>(rc, d). (rc, s\<lparr>um_db := d\<rparr>))) (dbLoad e h (saveFilename s) d fs))"

section \<open>The maps after a reload\<close>

lemma kept_row:
  assumes w: "table_wf t"
  shows "x \<in> set (kept_rows t) \<longleftrightarrow> (\<exists>r. hget (t_rows t) r = Some x \<and> written (Some x))"
proof
  assume "x \<in> set (kept_rows t)"
  then obtain r where "written (hget (t_rows t) r)" "x = the (hget (t_rows t) r)"
    by (auto simp: kept_rows_def kept_def)
  then show "\<exists>r. hget (t_rows t) r = Some x \<and> written (Some x)"
    by (cases "hget (t_rows t) r") (auto simp: written_def)
next
  assume "\<exists>r. hget (t_rows t) r = Some x \<and> written (Some x)"
  then obtain r where r: "hget (t_rows t) r = Some x" "written (Some x)" by blast
  then have "r \<in> set (kept t)" using w by (auto simp: kept_def table_wf_def)
  then show "x \<in> set (kept_rows t)" using r(1) by (force simp: kept_rows_def)
qed

lemma reload_look:
  assumes w: "table_wf t" "uniq t" "table_wf t'" and r: "rows_are t' (kept_rows t)" and e: "look t [] = None"
  shows "uniq t' \<and> look t' = look t"
proof -
  have g: "hget (t_rows t') j = Some x \<longleftrightarrow> j < length (kept t) \<and> x = the (hget (t_rows t) (kept t ! j))" for j x
    using r by (auto simp: rows_are_def kept_rows_def)
  have k: "hget (t_rows t) (kept t ! j) \<noteq> None" if "j < length (kept t)" for j
    using nth_mem [OF that] by (auto simp: kept_def written_def split: option.splits)
  have un: "uniq t'"
    unfolding uniq_def
  proof (intro allI impI)
    fix a b x y v
    assume h: "hget (t_rows t') a = Some x \<and> hget (t_rows t') b = Some y \<and> has_name v x \<and> has_name v y"
    then have "hget (t_rows t) (kept t ! a) = Some x" "hget (t_rows t) (kept t ! b) = Some y"
      using g k by auto
    then have "kept t ! a = kept t ! b" using w(2) h unfolding uniq_def by blast
    moreover have "distinct (kept t)" by (simp add: kept_def)
    ultimately show "a = b" using h g by (auto simp: nth_eq_iff_index_eq)
  qed
  have "look t' u = Some x \<longleftrightarrow> look t u = Some x" for u x
  proof -
    have "look t' u = Some x \<longleftrightarrow> x \<in> set (kept_rows t) \<and> has_name u x"
      using r by (auto simp: look_iff [OF w(3) un] rows_are_def in_set_conv_nth) 
    also have "\<dots> \<longleftrightarrow> (\<exists>r. hget (t_rows t) r = Some x) \<and> has_name u x \<and> written (Some x)"
      using kept_row [OF w(1)] by blast
    also have "\<dots> \<longleftrightarrow> (\<exists>r. hget (t_rows t) r = Some x) \<and> has_name u x"
    proof -
      have "written (Some x)" if "hget (t_rows t) r = Some x" "has_name u x" for r
      proof -
        have "columnTypes t \<noteq> []" using w(1) by (auto simp: table_wf_def)
        then have "x \<noteq> []" using table_wf_row [OF w(1) that(1)] by (auto simp: row_wf_def)
        then have "hd x = CStr u" using that(2) by (simp add: has_name_def hd_conv_nth)
        moreover have "u \<noteq> []" using look_SomeI [OF w(1,2) that] e by auto
        ultimately show ?thesis by (simp add: written_def)
      qed
      then show ?thesis by blast
    qed
    also have "\<dots> \<longleftrightarrow> look t u = Some x" by (auto simp: look_iff [OF w(1,2)])
    finally show ?thesis .
  qed
  then have "look t' u = look t u" for u by (metis not_None_eq)
  with un show ?thesis by blast
qed

lemma live_table: "tab d nm = Some t \<Longrightarrow> t \<in> set (live_tables d)"
  using tab_SomeD [of d nm t] by (auto simp: in_live_tables)

lemma reload_keyed:
  assumes wf: "db_wf d" "db_wf d'" and re: "list_all (reloaded d') (live_tables d)"
    and t: "has_table d nm p" and e: "keyed d nm [] = None"
  shows "has_table d' nm p \<and> keyed d' nm = keyed d nm"
proof -
  obtain t where t: "tab d nm = Some t" "same_schema p t" "uniq t" using t by (auto simp: has_table_def)
  have nm: "t_name t = nm" by (rule twf(2) [OF wf(1) t(1)])
  obtain t' where t': "tab d' nm = Some t'" "same_schema t t'" "rows_are t' (kept_rows t)"
    using re live_table [OF t(1)] nm by (auto simp: list_all_iff reloaded_def)
  have "uniq t' \<and> look t' = look t"
    using e t(1) by (intro reload_look [OF twf(1) [OF wf(1) t(1)] t(3) twf(1) [OF wf(2) t'(1)] t'(3)]) (simp add: keyed_def)
  moreover have "same_schema p t'" using t(2) t'(2) by (simp add: same_schema_def)
  ultimately show ?thesis using t t' by (auto simp: has_table_def keyed_def fun_eq_iff)
qed

lemma reload_um:
  assumes "um_wf d" and "db_wf d'" and "list_all (reloaded d') (live_tables d)"
    and "users d [] = None" "groups d [] = None" "limits d [] = None"
  shows "um_wf d' \<and> users d' = users d \<and> groups d' = groups d \<and> limits d' = limits d"
  using assms reload_keyed [of d d' UM_USER_TABLENAME userTable] reload_keyed [of d d' UM_GROUP_TABLENAME groupTable]
    reload_keyed [of d d' UM_ACCESS_TABLENAME accessTable]
  by (simp add: um_wf_def users_def groups_def limits_def)

text \<open>The decision on a URL depends on the three maps only.\<close>

lemma decisions_from_maps:
  assumes wf: "um_wf d" "um_wf d'" and m: "members_ok d"
    and eq: "users d' = users d" "groups d' = groups d" "limits d' = limits d"
  shows "umUserCanAccessURL u url d' = umUserCanAccessURL u url d"
proof (cases "users d u")
  case None
  then show ?thesis by (simp add: umUserCanAccessURL_def umUserExists_eq [OF wf(1)] umUserExists_eq [OF wf(2)] eq)
next
  case (Some x)
  then obtain g where g: "x ! 2 = CStr g" using m by (auto simp: members_ok_def)
  have "users d' u = Some x" using Some eq(1) by simp
  from umUserCanAccessURL_eq [OF wf(2) this g, of url] umUserCanAccessURL_eq [OF wf(1) Some g, of url]
  show ?thesis unfolding group_grants_def eq by (rule trans [OF _ sym])
qed

section \<open>Commit and restore\<close>

text \<open>C22. \<open>umCommit\<close> then \<open>umRestore\<close>, in the same process or after a restart, bring back the same
  users, groups and access limits, and with them the same decision on every user and URL, when the
  texts are free of line breaks and leading white space and no name is empty.\<close>

theorem umRestore_brings_back_users:
  assumes "fe_fine e" and "um_wf (um_db s)" and "members_ok (um_db s)" and "um_wf (um_db r)"
    and "db_savable (um_db s)" and "schema_of (um_db s) (um_db r)"
    and "users (um_db s) [] = None" and "groups (um_db s) [] = None" and "limits (um_db s) [] = None"
    and "basicGetProductDir (um_db r) = basicGetProductDir (um_db s)"
    and "is_cstr (basicGetProductDir (um_db s))" and "is_cstr name" and "name \<noteq> []"
    and "data_path (um_db s) name \<noteq> data_path (um_db s) ''data.tmp''"
  shows "\<exists>fs' s' r'. umCommit e (Some name) fs s = Inr (0, fs', s')
    \<and> umRestore e (\<lambda>_. halloc_fine) (Some name) fs' r = Some (Inr (0, r')) \<and> um_wf (um_db r')
    \<and> users (um_db r') = users (um_db s) \<and> groups (um_db r') = groups (um_db s)
    \<and> limits (um_db r') = limits (um_db s)
    \<and> (\<forall>u url. umUserCanAccessURL u url (um_db r') = umUserCanAccessURL u url (um_db s))"
proof -
  have wf: "db_wf (um_db s)" "db_wf (um_db r)" using assms(2,4) by (simp_all add: um_wf_def)
  obtain fs' c d' where r: "dbSave e (Some name) (um_db s) fs = Inr (0, fs')" "dbZero (um_db r) = Inr c"
    "dbLoad e (\<lambda>_. halloc_fine) (Some name) c fs' = Some (Inr (0, d'))" "db_wf d'"
    "list_all (reloaded d') (live_tables (um_db s))"
    using save_zero_load [OF assms(1) wf assms(5,6,10,11,12,14)] by blast
  have n: "set_save_name (Some name) q = q\<lparr>saveFilename := Some name\<rparr>" for q
    using assms(13) by (cases name) (simp_all add: set_save_name_def)
  note m = reload_um [OF assms(2) r(4,5) assms(7-9)]
  let ?s = "s\<lparr>saveFilename := Some name\<rparr>" and ?r = "r\<lparr>saveFilename := Some name, um_db := d'\<rparr>"
  have "umCommit e (Some name) fs s = Inr (0, fs', ?s)" using r(1) by (simp add: umCommit_def n)
  moreover have "umRestore e (\<lambda>_. halloc_fine) (Some name) fs' r = Some (Inr (0, ?r))"
    using r(2,3) by (simp add: umRestore_def n)
  moreover have "umUserCanAccessURL u url d' = umUserCanAccessURL u url (um_db s)" for u url
    using m by (intro decisions_from_maps [OF assms(2) _ assms(3)]) auto
  ultimately show ?thesis using m by (intro exI [of _ fs'] exI [of _ ?s] exI [of _ ?r]) simp
qed

definition um_sample :: um where
  "um_sample = \<lparr>didUM = 0, saveFilename = None, umOpenCount = 1, um_db = um_demo\<rparr>"

lemma um_demo_file:
  "db_savable um_demo" "data_path um_demo ''u.txt'' = ''./u.txt''" "data_path um_demo ''data.tmp'' = ''./data.tmp''"
  "is_cstr (basicGetProductDir um_demo)" "is_cstr ''u.txt''"
  by code_simp+

lemma schema_of_self: "db_wf d \<Longrightarrow> schema_of d d"
  unfolding schema_of_def list_all_iff
proof
  fix t assume "db_wf d" "t \<in> set (live_tables d)"
  then have "tab d (t_name t) = Some t" using tab_iff [of d "t_name t" t] by (auto simp: in_live_tables)
  then show "\<exists>t0. tab d (t_name t) = Some t0 \<and> same_schema t t0" by (simp add: same_schema_def)
qed

theorem umRestore_brings_back_users_witness:
  "\<exists>fs' s' r'. umCommit fs_env (Some ''u.txt'') Map.empty um_sample = Inr (0, fs', s')
    \<and> umRestore fs_env (\<lambda>_. halloc_fine) (Some ''u.txt'') fs' um_sample = Some (Inr (0, r'))
    \<and> umGetUserPassword ''admin'' (um_db r') = Inr (Some ''secret'')"
proof -
  have db: "um_db um_sample = um_demo" by (simp add: um_sample_def)
  have m: "members_ok um_demo" using um_demo_facts by (auto simp: members_ok_def user_row_def)
  have sc: "schema_of um_demo um_demo" using um_demo_facts(1) by (intro schema_of_self) (simp add: um_wf_def)
  obtain fs' s' r' where r: "umCommit fs_env (Some ''u.txt'') Map.empty um_sample = Inr (0, fs', s')"
    "umRestore fs_env (\<lambda>_. halloc_fine) (Some ''u.txt'') fs' um_sample = Some (Inr (0, r'))" "um_wf (um_db r')"
    "users (um_db r') = users um_demo"
    using umRestore_brings_back_users [of fs_env um_sample um_sample "''u.txt''" Map.empty] fs_env_fine um_demo_facts m
      sc um_demo_file unfolding db by auto
  have "umEncryptString (umEncryptString ''secret'') = ''secret''" by code_simp
  then have "umGetUserPassword ''admin'' (um_db r') = Inr (Some ''secret'')"
    using r(4) um_demo_facts(2) by (simp add: umGetUserPassword_eq [OF r(3)] user_row_def bstrdup_def)
  with r show ?thesis by blast
qed

text \<open>A line break in a password, which \<open>umSetUserPassword\<close> takes, splits its line in the file.\<close>

definition line_break_db :: db where
  "line_break_db = um_demo\<lparr>dbListTables := Some \<lparr>h_used = 3, h_slots =
     [Some (filled userTable [user_row ''admin'' (umEncryptString (LF # ''secret'')) ''adm'' 1 0]),
      Some (filled groupTable [group_row ''adm'' 4 2 0 0]),
      Some (filled accessTable [limit_row ''/adm/'' 2 0 ''adm''])]\<rparr>\<rparr>"

definition reloaded_password :: "db \<Rightarrow> string option res" where
  "reloaded_password d =
     (case dbZero d of
        Inl f \<Rightarrow> Inl f
      | Inr c \<Rightarrow>
          (case load_lines (\<lambda>_. halloc_fine) (strtok [LF] (joined (db_lines d)))
              \<lparr>ld_name = None, ld_tid = - 1, ld_row = - 1, ld_db = c\<rparr> of
             Some (Inr s) \<Rightarrow> umGetUserPassword ''admin'' (ld_db s)
           | _ \<Rightarrow> Inl Blocked))"

lemma line_break_facts:
  "umSetUserPassword ''admin'' (LF # ''secret'') um_demo = Inr (0, line_break_db)"
  "umGetUserPassword ''admin'' line_break_db = Inr (Some (LF # ''secret''))"
  "list_all table_writable (live_tables line_break_db)"
  "takeWhile (\<lambda>c. c \<noteq> NUL) (joined (db_lines line_break_db)) = joined (db_lines line_break_db)"
  "strtok [LF] (joined (db_lines line_break_db)) \<noteq> []" "joined (db_lines line_break_db) \<noteq> []"
  "reloaded_password line_break_db = Inr (Some [])"
  "basicGetProductDir line_break_db = ''.''"
  by code_simp+

text \<open>A password that begins with a line break is accepted and reads back, but after
  \<open>umCommit\<close> and \<open>umRestore\<close>, both reporting success, the account has the empty password: the value
  is written as it is, so its line ends after \<open>password=\<close>.\<close>

theorem umCommit_empties_line_break_password:
  "\<exists>d fs' s' r'. umSetUserPassword ''admin'' (LF # ''secret'') um_demo = Inr (0, d)
    \<and> umGetUserPassword ''admin'' d = Inr (Some (LF # ''secret''))
    \<and> umCommit fs_env (Some ''u.txt'') Map.empty (um_sample\<lparr>um_db := d\<rparr>) = Inr (0, fs', s')
    \<and> umRestore fs_env (\<lambda>_. halloc_fine) (Some ''u.txt'') fs' s' = Some (Inr (0, r'))
    \<and> umGetUserPassword ''admin'' (um_db r') = Inr (Some [])"
proof -
  let ?d = line_break_db and ?s = "um_sample\<lparr>um_db := line_break_db, saveFilename := Some ''u.txt''\<rparr>"
  let ?fs = "[''./u.txt'' \<mapsto> joined (db_lines line_break_db)]"
  obtain x where "users um_demo ''admin'' = Some x" using um_demo_facts(2) by simp
  then have wf: "db_wf ?d"
    using umSetUserPassword_eq [OF um_demo_facts(1), of "''admin''" x "LF # ''secret''"] line_break_facts(1)
    by (auto simp: um_wf_def)
  have p: "is_cstr (basicGetProductDir ?d)" "is_cstr ''u.txt''"
    "data_path ?d ''u.txt'' = ''./u.txt''" "data_path ?d ''data.tmp'' = ''./data.tmp''"
    by (simp_all add: data_path_def line_break_facts(8))
  have "(Map.empty(''./data.tmp'' := None))(''./u.txt'' \<mapsto> joined (db_lines ?d)) = ?fs" by auto
  then have save: "dbSave fs_env (Some ''u.txt'') ?d Map.empty = Inr (0, ?fs)"
    using save_text [OF fs_env_fine wf line_break_facts(3) p(1,2), of Map.empty] p(3,4) by simp
  obtain c where c: "dbZero ?d = Inr c" "basicProdDir c = basicProdDir ?d" using dbZero_eq [OF wf] by blast
  obtain q where q: "load_lines (\<lambda>_. halloc_fine) (strtok [LF] (joined (db_lines ?d)))
      \<lparr>ld_name = None, ld_tid = - 1, ld_row = - 1, ld_db = c\<rparr> = Some (Inr q)"
    "umGetUserPassword ''admin'' (ld_db q) = Inr (Some [])"
    using line_break_facts(7) c(1) by (auto simp: reloaded_password_def split: option.splits sum.splits)
  have dir: "basicGetProductDir c = ''.''" using c(2) line_break_facts(8) by (simp add: basicGetProductDir_def)
  then have path: "db_path c (Some ''u.txt'') = Inr ''./u.txt''"
    using db_path_text [of c "''u.txt''"] by (simp add: data_path_def)
  obtain l ls where tok: "strtok [LF] (joined (db_lines ?d)) = l # ls"
    using line_break_facts(5) by (cases "strtok [LF] (joined (db_lines ?d))") auto
  have load: "dbLoad fs_env (\<lambda>_. halloc_fine) (Some ''u.txt'') c ?fs = Some (Inr (0, ld_db q))"
    using path q(1) [unfolded tok] line_break_facts(6)
    by (simp add: dbLoad_def line_break_facts(4) tok fs_env_def del: load_lines.simps)
  have n: "set_save_name (Some ''u.txt'') x = x\<lparr>saveFilename := Some ''u.txt''\<rparr>" for x
    by (simp add: set_save_name_def)
  have "umCommit fs_env (Some ''u.txt'') Map.empty (um_sample\<lparr>um_db := ?d\<rparr>) = Inr (0, ?fs, ?s)"
    using save by (simp add: umCommit_def n)
  moreover have "umRestore fs_env (\<lambda>_. halloc_fine) (Some ''u.txt'') ?fs ?s = Some (Inr (0, ?s\<lparr>um_db := ld_db q\<rparr>))"
    using c(1) load by (simp add: umRestore_def n)
  ultimately show ?thesis using line_break_facts(1,2) q(2)
    by (intro exI [of _ ?d] exI [of _ ?fs] exI [of _ ?s] exI [of _ "?s\<lparr>um_db := ld_db q\<rparr>"]) simp
qed

end
