(* ===== verification/Page.thy ===== *)
theory Page
  imports Request
begin

unbundle bit_operations_syntax

text \<open>
  The file handler: \<open>websDefaultHandler\<close> and its background writer \<open>websDefaultWriteEvent\<close> of
  \<open>user/goahead/src_tongyong/default.c\<close> over the page functions of \<open>page.c\<close>, and
  \<open>websWriteDataNonBlock\<close> of \<open>webs.c\<close>.

  The document tree is a map from local names to nodes; \<open>pages\<close> also says whether opening and the
  second \<open>stat\<close> succeed.  \<open>writer\<close> gives the result of each \<open>socketWrite\<close> of one write event, from
  its number and the bytes offered (the bytes taken, negative on an error).  The handler of pages with scripts (\<open>asp.c\<close>, in \<open>Asp\<close>) is a parameter.
  Opening a directory is not reached: directories are redirected first.
\<close>

datatype node = Dir | Doc "byte list" "string option"

text \<open>A document is its bytes and the text of its modification date.\<close>

record pages =
  pg_node :: "string \<Rightarrow> node option"
  pg_open :: bool
  pg_stat :: bool

type_synonym writer = "nat \<Rightarrow> nat \<Rightarrow> int"

type_synonym asp_fn = "string \<Rightarrow> server \<Rightarrow> (int \<times> server) res"

definition PAGE_READ_BUFSIZE :: nat where "PAGE_READ_BUFSIZE = 512"

section \<open>Pages\<close>

definition websPageIsDirectory :: "pages \<Rightarrow> string \<Rightarrow> bool" where
  "websPageIsDirectory f lpath \<longleftrightarrow> pg_node f lpath = Some Dir"

definition websPageOpen :: "pages \<Rightarrow> string \<Rightarrow> server \<Rightarrow> (int \<times> server) res" where
  "websPageOpen f lpath s =
     res_bind (cur s) (\<lambda>w.
       case pg_node f lpath of
         Some (Doc c d) \<Rightarrow>
           if pg_open f then Inr (0, upd (\<lambda>w. w\<lparr>w_docfd := Some (c, 0)\<rparr>) s)
           else Inr (- 1, upd (\<lambda>w. w\<lparr>w_docfd := None\<rparr>) s)
       | _ \<Rightarrow> Inr (- 1, upd (\<lambda>w. w\<lparr>w_docfd := None\<rparr>) s))"

definition websPageClose :: "server \<Rightarrow> server res" where
  "websPageClose s = res_bind (cur s) (\<lambda>w. Inr (upd (\<lambda>w. w\<lparr>w_docfd := None\<rparr>) s))"

definition websPageStat :: "pages \<Rightarrow> string \<Rightarrow> (nat \<times> string option) option" where
  "websPageStat f lpath =
     (if \<not> pg_stat f then None
      else case pg_node f lpath of
        None \<Rightarrow> None
      | Some Dir \<Rightarrow> Some (0, None)
      | Some (Doc c d) \<Rightarrow> Some (length c, d))"

definition websPageReadData :: "nat \<Rightarrow> server \<Rightarrow> (int \<times> byte list \<times> server) res" where
  "websPageReadData n s =
     res_bind (cur s) (\<lambda>w.
       case w_docfd w of
         None \<Rightarrow> Inr (- 1, [], s)
       | Some (c, p) \<Rightarrow>
           (let data = take n (drop p c) in
            Inr (int (length data), data, upd (\<lambda>w. w\<lparr>w_docfd := Some (c, p + length data)\<rparr>) s)))"

definition websPageSeek :: "int \<Rightarrow> server \<Rightarrow> server res" where
  "websPageSeek offset s =
     res_bind (cur s) (\<lambda>w.
       Inr (case w_docfd w of
              None \<Rightarrow> s
            | Some (c, p) \<Rightarrow>
                if 0 \<le> int p + offset then upd (\<lambda>w. w\<lparr>w_docfd := Some (c, nat (int p + offset))\<rparr>) s else s))"

definition websWriteDataNonBlock :: "int \<Rightarrow> byte list \<Rightarrow> server \<Rightarrow> (int \<times> server) res" where
  "websWriteDataNonBlock r buf s =
     res_bind (cur s) (\<lambda>w. Inr (r, s\<lparr>out := out s @ [take (nat r) buf]\<rparr>))"

section \<open>Settings\<close>

definition websGetDefaultPage :: "server \<Rightarrow> string option" where
  "websGetDefaultPage s = websDefaultPage s"

definition websSetDefaultPage :: "string \<Rightarrow> server \<Rightarrow> server" where
  "websSetDefaultPage page s = s\<lparr>websDefaultPage := Some page\<rparr>"

definition websGetDefaultDir :: "server \<Rightarrow> string option" where
  "websGetDefaultDir s = websDefaultDir s"

definition websSetDefaultDir :: "string \<Rightarrow> server \<Rightarrow> server" where
  "websSetDefaultDir dir s = s\<lparr>websDefaultDir := Some dir\<rparr>"

definition websDefaultClose :: "server \<Rightarrow> server" where
  "websDefaultClose s = s\<lparr>websDefaultPage := None, websDefaultDir := None\<rparr>"

section \<open>The handler\<close>

text \<open>The response header, and the number of bytes it announces.\<close>

definition page_header :: "env \<Rightarrow> nat \<Rightarrow> string option \<Rightarrow> server \<Rightarrow> server res" where
  "page_header e sz date s =
     res_bind (cur s) (\<lambda>w.
     (let flags = w_flags w; bytes = (if flags AND WEBS_ASP \<noteq> 0 then 0 else sz) in
      res_bind (case e_date e of
                  None \<Rightarrow> Inr s
                | Some d \<Rightarrow>
                    res_bind (websWrite (''HTTP/1.0 200 OK'' @ CRLF @ ''Date: %s'' @ CRLF) [FStr (Some d)] s) (\<lambda>s.
                      websWrite (''Server: %s'' @ CRLF) [FStr (Some WEBS_NAME)] s)) (\<lambda>s.
      res_bind (if flags AND WEBS_ASP \<noteq> 0
                then websWrite (''Pragma: no-cache'' @ CRLF @ ''Cache-Control: no-cache'' @ CRLF) [] s
                else (case date of
                        None \<Rightarrow> Inr s
                      | Some d \<Rightarrow> websWrite (''Last-modified: %s'' @ CRLF) [FStr (Some d)] s)) (\<lambda>s.
      res_bind (if bytes \<noteq> 0
                then res_bind (websWrite (''Content-length: %d'' @ CRLF) [FInt (int bytes)] s) (\<lambda>s.
                       Inr (upd (\<lambda>w. w\<lparr>w_numbytes := int bytes\<rparr>) s))
                else Inr s) (\<lambda>s.
      res_bind (websWrite (''Content-type: %s'' @ CRLF) [FStr (Some (w_type w))] s) (\<lambda>s.
      res_bind (if flags AND WEBS_KEEP_ALIVE \<noteq> 0 \<and> flags AND WEBS_ASP = 0
                then websWrite (''Connection: keep-alive'' @ CRLF) [] s else Inr s) (\<lambda>s.
        websWrite CRLF [] s)))))))"

definition serve_page ::
  "env \<Rightarrow> asp_fn \<Rightarrow> string \<Rightarrow> nat \<Rightarrow> string option \<Rightarrow> server \<Rightarrow> (int \<times> server) res" where
  "serve_page e asp lpath sz date s =
     res_bind (cur s) (\<lambda>w.
     (let flags = w_flags w in
      res_bind (page_header e sz date (s\<lparr>st_localHits := st_localHits s + 1\<rparr>)) (\<lambda>s.
        if flags AND WEBS_HEAD_REQUEST \<noteq> 0 then res_bind (websDone e 200 s) (\<lambda>s. Inr (1, s))
        else if flags AND WEBS_ASP \<noteq> 0 then
          res_bind (asp lpath s) (\<lambda>(r, s).
            if r < 0 then Inr (1, s) else res_bind (websDone e 200 s) (\<lambda>s. Inr (1, s)))
        else Inr (1, upd (\<lambda>w. w\<lparr>w_writer := True\<rparr>) s))))"

definition is_sep :: "byte \<Rightarrow> bool" where
  "is_sep c \<longleftrightarrow> c = CHR ''/'' \<or> c = CHR 0x5C"

definition cut_sep :: "string \<Rightarrow> string" where
  "cut_sep p = (if is_sep (last p) then butlast p else p)"

definition redirect_directory :: "env \<Rightarrow> string \<Rightarrow> server \<Rightarrow> (int \<times> server) res" where
  "redirect_directory e path s =
     (if path = [] then Inl OutOfBounds
      else
        (let path = cut_sep path; s = upd (\<lambda>w. w\<lparr>w_path := Some path\<rparr>) s in
         case websDefaultPage s of
           None \<Rightarrow> Inl OutOfBounds
         | Some page \<Rightarrow>
             res_bind (fmtAlloc (int (length path + (length page + 2))) ''%s/%s'' [FStr (Some path), FStr (Some page)]) (\<lambda>(tmp, _).
             res_bind (websRedirect e tmp s) (\<lambda>s. Inr (1, s)))))"

text \<open>\<open>lpath[gstrlen(lpath) - 1]\<close> of an empty name would be a fault; so is a null path.\<close>

definition websDefaultHandler :: "env \<Rightarrow> pages \<Rightarrow> asp_fn \<Rightarrow> string \<Rightarrow> server \<Rightarrow> (int \<times> server) res" where
  "websDefaultHandler e f asp path s =
     res_bind (websValidateUrl e path s) (\<lambda>(rc, s).
       if rc < 0 then res_bind (websError e 500 ''Invalid URL'' [] s) (\<lambda>s. Inr (1, s))
       else
         res_bind (cur s) (\<lambda>w.
         (let lpath = bstrdup (w_lpath w) in
          if lpath = [] then Inl OutOfBounds
          else
            (let lpath = cut_sep lpath; s = upd (\<lambda>w. w\<lparr>w_lpath := Some lpath\<rparr>) s in
             if websPageIsDirectory f lpath then redirect_directory e path s
             else
               res_bind (websPageOpen f lpath s) (\<lambda>(fd, s).
                 if fd < 0 then res_bind (websError e 404 ''Cannot open URL'' [] s) (\<lambda>s. Inr (1, s))
                 else
                   (case websPageStat f lpath of
                      None \<Rightarrow> res_bind (websError e 400 ''Cannot stat page for URL'' [] s) (\<lambda>s. Inr (1, s))
                    | Some (sz, date) \<Rightarrow> serve_page e asp lpath sz date s))))))"

section \<open>The background writer\<close>

definition remaining :: "server \<Rightarrow> nat" where
  "remaining s = (case wp s of None \<Rightarrow> 0 | Some w \<Rightarrow> (case w_docfd w of None \<Rightarrow> 0 | Some (c, p) \<Rightarrow> length c - p))"

lemma read_shrinks:
  assumes "websPageReadData n s = Inr (len, buf, s')" and "0 < len"
  shows "remaining s' < remaining s"
  using assms
  by (cases "wp s") (auto simp: websPageReadData_def remaining_def cur_def upd_def Let_def split: option.splits)

lemma write_remaining [simp]: "remaining (s\<lparr>out := x\<rparr>) = remaining s"
  by (simp add: remaining_def)

text \<open>The loop; \<open>k\<close> counts the writes of this event.  The result is the last \<open>wrote\<close>, the last
  \<open>len\<close> and \<open>written\<close>.\<close>

function send_loop :: "writer \<Rightarrow> nat \<Rightarrow> int \<Rightarrow> int \<Rightarrow> server \<Rightarrow> (int \<times> int \<times> int \<times> server) res" where
  "send_loop acc k wrote written s =
     (case websPageReadData PAGE_READ_BUFSIZE s of
        Inl flt \<Rightarrow> Inl flt
      | Inr (len, buf, s) \<Rightarrow>
          if len \<le> 0 then Inr (wrote, len, written, s)
          else
            (case websWriteDataNonBlock (acc k (length buf)) buf s of
               Inl flt \<Rightarrow> Inl flt
             | Inr (wrote, s) \<Rightarrow>
                 if wrote < 0 then Inr (wrote, len, written, s)
                 else if wrote \<noteq> len then
                   res_bind (websPageSeek (- (len - wrote)) s) (\<lambda>s. Inr (wrote, len, written + wrote, s))
                 else send_loop acc (Suc k) wrote (written + wrote) s))"
  by pat_completeness auto
termination
proof (relation "measure (\<lambda>(acc, k, wrote, written, s). remaining s)", goal_cases)
  case 1
  then show ?case by simp
next
  case (2 acc k wrote written s r len rest buf s1 r2 wrote2 s2)
  then have "websPageReadData PAGE_READ_BUFSIZE s = Inr (len, buf, s1)" "0 < len" by simp_all
  then have "remaining s1 < remaining s" by (rule read_shrinks)
  moreover have "remaining s2 = remaining s1"
    using 2 by (cases "wp s1") (auto simp: websWriteDataNonBlock_def cur_def)
  ultimately show ?case by simp
qed

declare send_loop.simps [simp del]

text \<open>\<open>mem\<close> says whether the read buffer was allocated.  After the error page the request is gone,
  and storing \<open>written\<close> in it is a fault.\<close>

definition websDefaultWriteEvent :: "env \<Rightarrow> bool \<Rightarrow> writer \<Rightarrow> server \<Rightarrow> server res" where
  "websDefaultWriteEvent e mem acc s =
     res_bind (cur s) (\<lambda>w.
     res_bind (if w_flags w AND WEBS_ASP \<noteq> 0 then Inr (0, 0, w_written w, s)
               else if \<not> mem then
                 res_bind (websError e 200 ''Can't get memory'' [] s) (\<lambda>s. Inr (0, w_numbytes w, w_written w, s))
               else
                 res_bind (send_loop acc 0 0 (w_written w) s) (\<lambda>(wrote, len, written, s).
                   Inr (wrote, w_numbytes w, if len = 0 then w_numbytes w else written, s)))
       (\<lambda>(wrote, bytes, written, s).
     res_bind (cur s) (\<lambda>_.
       (let s = upd (\<lambda>w. w\<lparr>w_written := written\<rparr>) s in
        if wrote < 0 \<or> bytes \<le> written then websDone e 200 s else Inr s))))"

end
