(* ===== verification/Page_Laws.thy ===== *)
theory Page_Laws
  imports Page Request_Laws Misc
begin

unbundle bit_operations_syntax

text \<open>
  What the file handler sends: the header and then, over any number of write events, the bytes of the
  document in order, each once.
\<close>

section \<open>One write event\<close>

text \<open>\<open>socketWrite\<close> takes at most what it is offered.\<close>

definition writer_ok :: "writer \<Rightarrow> bool" where
  "writer_ok acc \<longleftrightarrow> (\<forall>k n. acc k n \<le> int n)"

definition at_pos :: "server \<Rightarrow> webs \<Rightarrow> byte list \<Rightarrow> nat \<Rightarrow> byte list list \<Rightarrow> server" where
  "at_pos s w c q ls = s\<lparr>wp := Some (w\<lparr>w_docfd := Some (c, q)\<rparr>), out := out s @ ls\<rparr>"

lemma at_pos_sel [simp]: "wp (at_pos s w c q ls) = Some (w\<lparr>w_docfd := Some (c, q)\<rparr>)" "out (at_pos s w c q ls) = out s @ ls"
  by (simp_all add: at_pos_def)

lemma at_pos_twice [simp]: "at_pos (at_pos s w c q ls) (w\<lparr>w_docfd := Some (c, q)\<rparr>) c r ms = at_pos s w c r (ls @ ms)"
  by (simp add: at_pos_def)

text \<open>The loop from position \<open>p\<close>: the bytes up to \<open>q\<close> go out; the position is \<open>q\<close> unless a write failed.\<close>

lemma send_loop_sends:
  assumes "writer_ok acc" and "wp s = Some w" and "w_docfd w = Some (c, p)" and "p \<le> length c"
  shows "\<exists>wr len q r ls. send_loop acc k wr0 (int p) s = Inr (wr, len, int q, at_pos s w c r ls)
    \<and> p \<le> q \<and> q \<le> length c \<and> concat ls = take (q - p) (drop p c)
    \<and> (len = 0 \<longrightarrow> q = length c) \<and> (0 \<le> wr0 \<and> 0 \<le> wr \<longrightarrow> r = q)
    \<and> (0 \<le> wr0 \<and> (\<forall>k n. 0 \<le> acc k n) \<longrightarrow> 0 \<le> wr)
    \<and> (p < length c \<and> 0 \<le> wr0 \<and> 0 \<le> wr \<and> (\<forall>n. 0 < n \<longrightarrow> 0 < acc k n) \<longrightarrow> p < q)"
  using assms
proof (induction "length c - p" arbitrary: k wr0 p s w rule: less_induct)
  case less
  define data where "data = take PAGE_READ_BUFSIZE (drop p c)"
  let ?s1 = "at_pos s w c (p + length data) []"
  have rd: "websPageReadData PAGE_READ_BUFSIZE s = Inr (int (length data), data, ?s1)"
    using less.prems by (simp add: websPageReadData_def Let_def at_pos_def upd_def data_def)
  show ?case
  proof (cases "p = length c")
    case True
    then have "send_loop acc k wr0 (int p) s = Inr (wr0, 0, int p, ?s1)"
      using rd by (subst send_loop.simps) (simp add: data_def)
    then show ?thesis using True data_def
      by (intro exI [of _ wr0] exI [of _ 0] exI [of _ p] exI [of _ p] exI [of _ "[]"]) simp
  next
    case False
    then have pl: "0 < length data" using less.prems(4) by (simp add: PAGE_READ_BUFSIZE_def data_def)
    have dt: "data = take (length data) (drop p c)" by (simp add: data_def min_def)
    let ?a = "acc k (length data)"
    let ?s2 = "at_pos s w c (p + length data) [take (nat ?a) data]"
    have wd: "websWriteDataNonBlock ?a data ?s1 = Inr (?a, ?s2)"
      by (simp add: websWriteDataNonBlock_def at_pos_def)
    have le: "?a \<le> int (length data)" using less.prems(1) by (simp add: writer_ok_def)
    have end_le: "p + length data \<le> length c" using less.prems(4) by (simp add: data_def)
    consider "?a < 0" | "0 \<le> ?a" "?a \<noteq> int (length data)" | "?a = int (length data)" by linarith
    then show ?thesis
    proof cases
      case 1
      have "send_loop acc k wr0 (int p) s = Inr (?a, int (length data), int p, ?s2)"
        using rd wd 1 pl by (subst send_loop.simps) (auto simp: min_def)
      moreover have "\<not> (\<forall>k n. 0 \<le> acc k n)"
      proof
        assume "\<forall>k n. 0 \<le> acc k n"
        then have "0 \<le> ?a" by blast
        then show False using 1 by simp
      qed
      moreover have "\<not> 0 \<le> ?a" "int (length data) \<noteq> 0" "concat [take (nat ?a) data] = take (p - p) (drop p c)"
        using 1 pl by simp_all
      ultimately show ?thesis using less.prems(4) by blast
    next
      case 2
      define q where "q = p + nat ?a"
      have q: "int q = int p + ?a" "q < p + length data" "p \<le> q" using 2 le unfolding q_def by linarith+
      have pos: "int (p + length data) + - (int (length data) - ?a) = int q" using q(1) by simp
      have sk: "websPageSeek (- (int (length data) - ?a)) ?s2 = Inr (at_pos s w c q [take (nat ?a) data])"
        using pos by (simp add: websPageSeek_def) (simp add: at_pos_def upd_def)
      have run: "send_loop acc k wr0 (int p) s
          = Inr (?a, int (length data), int q, at_pos s w c q [take (nat ?a) data])"
        using rd wd 2 pl sk q(1) by (subst send_loop.simps) simp
      have "take (nat ?a) data = take (q - p) (drop p c)"
        using q(2) by (subst dt) (simp add: q_def min_def)
      then show ?thesis using run 2 q end_le pl
        by (intro exI [of _ ?a] exI [of _ "int (length data)"] exI [of _ q] exI [of _ q]
            exI [of _ "[take (nat ?a) data]"]) (auto simp: q_def)
    next
      case 3
      let ?p = "p + length data"
      have run: "send_loop acc k wr0 (int p) s = send_loop acc (Suc k) ?a (int ?p) ?s2"
        using rd wd 3 pl by (subst send_loop.simps) simp
      have lt: "length c - ?p < length c - p" using end_le pl by linarith
      have dc: "w_docfd (w\<lparr>w_docfd := Some (c, ?p)\<rparr>) = Some (c, ?p)" by simp
      obtain wr len q r ls where ih: "send_loop acc (Suc k) ?a (int ?p) ?s2
          = Inr (wr, len, int q, at_pos ?s2 (w\<lparr>w_docfd := Some (c, ?p)\<rparr>) c r ls)"
        "?p \<le> q" "q \<le> length c" "concat ls = take (q - ?p) (drop ?p c)" "len = 0 \<longrightarrow> q = length c"
        "0 \<le> ?a \<and> 0 \<le> wr \<longrightarrow> r = q" "0 \<le> ?a \<and> (\<forall>k n. 0 \<le> acc k n) \<longrightarrow> 0 \<le> wr"
        using less.hyps [OF lt less.prems(1) at_pos_sel(1) [of s w c ?p "[take (nat ?a) data]"] dc end_le, of "Suc k" ?a]
        by (elim exE conjE) (rule that)
      have "data @ take (q - ?p) (drop ?p c) = take (q - p) (drop p c)"
      proof -
        have "q - p = length data + (q - ?p)" using ih(2) by simp
        then have "take (q - p) (drop p c) = take (length data) (drop p c) @ take (q - ?p) (drop (length data) (drop p c))"
          by (simp only: take_add)
        then show ?thesis using dt by (simp add: add.commute)
      qed
      moreover have "take (nat ?a) data = data" using 3 by simp
      ultimately have cat: "concat ([take (nat ?a) data] @ ls) = take (q - p) (drop p c)" using ih(4) by simp
      have "send_loop acc k wr0 (int p) s = Inr (wr, len, int q, at_pos s w c r ([take (nat ?a) data] @ ls))"
        using run ih(1) by simp
      moreover have "p \<le> q" "p < q" "0 \<le> ?a" using ih(2) pl 3 by linarith+
      ultimately show ?thesis using cat ih(3,5-7) by blast
    qed
  qed
qed

section \<open>The events\<close>

text \<open>The request is sending document \<open>c\<close> and has sent its first \<open>p\<close> bytes.\<close>

definition sending :: "byte list \<Rightarrow> nat \<Rightarrow> server \<Rightarrow> bool" where
  "sending c p s \<longleftrightarrow> server_ok s \<and> p \<le> length c \<and>
     (\<exists>w. wp s = Some w \<and> w_docfd w = Some (c, p) \<and> w_written w = int p \<and> w_numbytes w = int (length c)
        \<and> w_flags w AND WEBS_ASP = 0 \<and> w_flags w AND WEBS_KEEP_ALIVE = 0)"

lemma at_pos_ok: "server_ok s \<Longrightarrow> wp s = Some w \<Longrightarrow> server_ok (at_pos s w c q ls)"
  by (auto simp: server_ok_def request_ok_def at_pos_def webs_strs_def)

lemma at_pos_state: "umdb (at_pos s w c q ls) = umdb s" "tabs (at_pos s w c q ls) = tabs s"
  "formSymtab (at_pos s w c q ls) = formSymtab s" "st_access (at_pos s w c q ls) = st_access s"
  "st_formHits (at_pos s w c q ls) = st_formHits s" "websDefaultDir (at_pos s w c q ls) = websDefaultDir s"
  by (simp_all add: at_pos_def)

lemma ended_at_pos: "ended (at_pos s w c q ls) s' \<Longrightarrow> ended s s'"
  by (simp add: ended_def at_pos_state)

definition same_rest :: "server \<Rightarrow> server \<Rightarrow> bool" where
  "same_rest s s' \<longleftrightarrow> umdb s' = umdb s \<and> formSymtab s' = formSymtab s \<and> tabs s' = tabs s \<and> st_access s' = st_access s
     \<and> st_formHits s' = st_formHits s \<and> websDefaultDir s' = websDefaultDir s"

lemma same_rest_ended: "same_rest s s' \<Longrightarrow> ended s' x \<Longrightarrow> ended s x"
  by (simp add: same_rest_def ended_def)

lemma same_rest_trans: "same_rest a b \<Longrightarrow> same_rest b c \<Longrightarrow> same_rest a c"
  by (simp add: same_rest_def)

lemma write_event:
  assumes s: "sending c p s" and acc: "writer_ok acc"
  shows "\<exists>s' ls q. websDefaultWriteEvent e True acc s = Inr s' \<and> out s' = out s @ ls \<and> p \<le> q \<and> q \<le> length c
    \<and> concat ls = take (q - p) (drop p c) \<and> umdb s' = umdb s
    \<and> (ended s s' \<and> ((\<forall>k n. 0 \<le> acc k n) \<longrightarrow> q = length c)
       \<or> sending c q s' \<and> same_rest s s' \<and> q < length c \<and> ((\<forall>n. 0 < n \<longrightarrow> 0 < acc 0 n) \<longrightarrow> p < q))"
proof -
  obtain w where w: "wp s = Some w" "w_docfd w = Some (c, p)" "w_written w = int p" "w_numbytes w = int (length c)"
    "w_flags w AND WEBS_ASP = 0" "w_flags w AND WEBS_KEEP_ALIVE = 0" and ok: "server_ok s" "p \<le> length c"
    using s by (auto simp: sending_def)
  obtain wr len q r ls where l: "send_loop acc 0 0 (int p) s = Inr (wr, len, int q, at_pos s w c r ls)"
    "p \<le> q" "q \<le> length c" "concat ls = take (q - p) (drop p c)" "len = 0 \<longrightarrow> q = length c"
    "0 \<le> (0::int) \<and> 0 \<le> wr \<longrightarrow> r = q" "0 \<le> (0::int) \<and> (\<forall>k n. 0 \<le> acc k n) \<longrightarrow> 0 \<le> wr"
    "p < length c \<and> 0 \<le> (0::int) \<and> 0 \<le> wr \<and> (\<forall>n. 0 < n \<longrightarrow> 0 < acc 0 n) \<longrightarrow> p < q"
    using send_loop_sends [OF acc w(1,2) ok(2), of 0 0] by (elim exE conjE) (rule that)
  let ?w = "w\<lparr>w_docfd := Some (c, r), w_written := int q\<rparr>"
  let ?s1 = "s\<lparr>wp := Some ?w, out := out s @ ls\<rparr>"
  have u: "upd (\<lambda>w. w\<lparr>w_written := n\<rparr>) (at_pos s w c r ls)
      = s\<lparr>wp := Some (w\<lparr>w_docfd := Some (c, r), w_written := n\<rparr>), out := out s @ ls\<rparr>" for n
    by (simp add: upd_def at_pos_def)
  have ev: "websDefaultWriteEvent e True acc s = (if wr < 0 \<or> int (length c) \<le> int q then websDone e 200 ?s1 else Inr ?s1)"
  proof -
    let ?v = "if len = 0 then int (length c) else int q"
    have v: "?v = int q" using l(5) by simp
    have "websDefaultWriteEvent e True acc s = (let s = upd (\<lambda>w. w\<lparr>w_written := ?v\<rparr>) (at_pos s w c r ls)
        in if wr < 0 \<or> int (length c) \<le> ?v then websDone e 200 s else Inr s)"
      using w l(1) by (simp add: websDefaultWriteEvent_def Let_def)
    then show ?thesis unfolding v u Let_def .
  qed
  have ok1: "server_ok ?s1" using ok(1) w(1) by (auto simp: server_ok_def request_ok_def webs_strs_def)
  have k1: "w_flags ?w AND WEBS_KEEP_ALIVE = 0" using w(6) by simp
  show ?thesis
  proof (cases "wr < 0 \<or> int (length c) \<le> int q")
    case True
    have w1: "wp ?s1 = Some ?w" by simp
    obtain s' where s': "websDone e 200 ?s1 = Inr s'" "ended ?s1 s'" "out s' = out s @ ls"
      using websDone_ends [OF ok1 w1 k1, of e 200] by auto
    have "websDefaultWriteEvent e True acc s = Inr s'" using ev True s'(1) by simp
    moreover have "ended s s'" "umdb s' = umdb s" using s'(2) by (simp_all add: ended_def)
    moreover have "q = length c" if "\<forall>k n. 0 \<le> acc k n" using that True l(3,7) by auto
    ultimately show ?thesis using s'(3) l(2-4) by blast
  next
    case False
    then have "r = q" using l(6) by simp
    then have "sending c q ?s1" using ok1 w l(3) by (simp add: sending_def)
    moreover have "same_rest s ?s1" by (simp add: same_rest_def)
    moreover have "websDefaultWriteEvent e True acc s = Inr ?s1" using ev False by simp
    moreover have "q < length c" using False l(3) by simp
    moreover have "p < q" if "\<forall>n. 0 < n \<longrightarrow> 0 < acc 0 n" using that l(2,8) False \<open>q < length c\<close> by auto
    ultimately show ?thesis using l(2,4)
      by (intro exI [of _ ?s1] exI [of _ ls] exI [of _ q]) simp
  qed
qed

text \<open>The socket becomes writable \<open>n\<close> times; a request that has ended has no handler.\<close>

fun write_events :: "env \<Rightarrow> (nat \<Rightarrow> writer) \<Rightarrow> nat \<Rightarrow> server \<Rightarrow> server res" where
  "write_events e accs 0 s = Inr s"
| "write_events e accs (Suc n) s =
     res_bind (write_events e accs n s) (\<lambda>s.
       if websValid s then websDefaultWriteEvent e True (accs n) s else Inr s)"

text \<open>A writer that makes progress: no error, and at least one byte of the first block is taken.\<close>

definition progress :: "writer \<Rightarrow> bool" where
  "progress acc \<longleftrightarrow> writer_ok acc \<and> (\<forall>k n. 0 \<le> acc k n) \<and> (\<forall>n. 0 < n \<longrightarrow> 0 < acc 0 n)"

lemma write_events_send:
  assumes s: "sending c 0 s" and acc: "\<forall>i. progress (accs i)"
  shows "\<exists>s' ls. write_events e accs n s = Inr s' \<and> out s' = out s @ ls \<and> umdb s' = umdb s
    \<and> (ended s s' \<and> concat ls = c \<or> (\<exists>p. sending c p s' \<and> same_rest s s' \<and> n \<le> p \<and> (0 < n \<longrightarrow> p < length c)
         \<and> concat ls = take p c))"
proof (induction n)
  case 0
  show ?case using s by (intro exI [of _ s] exI [of _ "[]"]) (auto simp: same_rest_def intro!: exI [of _ 0])
next
  case (Suc n)
  obtain s1 ls where s1: "write_events e accs n s = Inr s1" "out s1 = out s @ ls" "umdb s1 = umdb s"
    "ended s s1 \<and> concat ls = c \<or> (\<exists>p. sending c p s1 \<and> same_rest s s1 \<and> n \<le> p \<and> (0 < n \<longrightarrow> p < length c)
      \<and> concat ls = take p c)"
    using Suc by blast
  from s1(4) show ?case
  proof
    assume d: "ended s s1 \<and> concat ls = c"
    then have "\<not> websValid s1" by (simp add: ended_def websValid_def)
    then show ?thesis using s1(1-3) d by (intro exI [of _ s1] exI [of _ ls]) simp
  next
    assume "\<exists>p. sending c p s1 \<and> same_rest s s1 \<and> n \<le> p \<and> (0 < n \<longrightarrow> p < length c) \<and> concat ls = take p c"
    then obtain p where p: "sending c p s1" "n \<le> p" "concat ls = take p c" "same_rest s s1" by blast
    have a: "writer_ok (accs n)" "\<forall>k m. 0 \<le> accs n k m" "\<forall>m. 0 < m \<longrightarrow> 0 < accs n 0 m"
      using acc by (auto simp: progress_def)
    obtain s2 l2 q where e: "websDefaultWriteEvent e True (accs n) s1 = Inr s2" "out s2 = out s1 @ l2" "p \<le> q" "q \<le> length c"
      "concat l2 = take (q - p) (drop p c)" "umdb s2 = umdb s1"
      "ended s1 s2 \<and> q = length c \<or> sending c q s2 \<and> same_rest s1 s2 \<and> q < length c \<and> p < q"
      using write_event [OF p(1) a(1), of e] a(2,3) by blast
    have v: "websValid s1" using p(1) by (auto simp: sending_def websValid_def)
    have cat: "concat (ls @ l2) = take q c"
      using p(3) e(3,5) by (simp add: take_add [symmetric])
    show ?thesis
      using e(7)
    proof
      assume d: "ended s1 s2 \<and> q = length c"
      then show ?thesis using s1(1-3) e(1,2,6) v cat same_rest_ended [OF p(4)]
        by (intro exI [of _ s2] exI [of _ "ls @ l2"]) simp
    next
      assume d: "sending c q s2 \<and> same_rest s1 s2 \<and> q < length c \<and> p < q"
      then show ?thesis using s1(1-3) e(1,2,6) v cat p(2) same_rest_trans [OF p(4)]
        by (intro exI [of _ s2] exI [of _ "ls @ l2"]) (auto intro!: exI [of _ q])
    qed
  qed
qed

section \<open>The header\<close>

definition counted :: "nat \<Rightarrow> webs \<Rightarrow> webs" where
  "counted sz w = (if sz \<noteq> 0 then w\<lparr>w_numbytes := int sz\<rparr> else w)"

definition length_line :: "nat \<Rightarrow> string" where
  "length_line sz = ''Content-length: '' @ dec_int (int sz) @ CRLF"

lemma length_line_sent:
  assumes "wp s = Some w" and "sz < 0x80000000"
  shows "websWrite (''Content-length: %d'' @ CRLF) [FInt (int sz)] s = Inr (s\<lparr>out := out s @ [length_line sz]\<rparr>)"
proof -
  have "length (length_line sz) \<le> 959"
    using print_int_length [of "int sz"] assms(2) by (simp add: length_line_def int32_def)
  then show ?thesis
    using websWrite_ok [OF assms(1), of "''Content-length: %d'' @ CRLF" "[FInt (int sz)]" "length_line sz"] assms(2)
    by (simp add: args_ok_def length_line_def)
qed

lemma page_header_ok:
  assumes w: "wp s = Some w" and e: "env_ok e" and ty: "is_cstr (w_type w)" and sz: "sz < 0x80000000" and d: "str_ok d"
    and asp: "w_flags w AND WEBS_ASP = 0"
  shows "\<exists>ls. page_header e sz d s = Inr (s\<lparr>wp := Some (counted sz w), out := out s @ ls\<rparr>)
    \<and> (sz \<noteq> 0 \<longrightarrow> length_line sz \<in> set ls)"
proof -
  let ?A = "case e_date e of None \<Rightarrow> Inr s
    | Some d \<Rightarrow> res_bind (websWrite (''HTTP/1.0 200 OK'' @ CRLF @ ''Date: %s'' @ CRLF) [FStr (Some d)] s) (\<lambda>s.
        websWrite (''Server: %s'' @ CRLF) [FStr (Some WEBS_NAME)] s)"
  have "writes s ?A"
    using w e by (intro writes_option writes_none writes_bind writes_write) (simp_all add: args_ok_def WEBS_NAME_def env_ok_def)
  then obtain l1 where A: "?A = Inr (s\<lparr>out := out s @ l1\<rparr>)" by (auto simp: writes_def)
  define s1 where "s1 = s\<lparr>out := out s @ l1\<rparr>"
  have w1: "wp s1 = Some w" using w by (simp add: s1_def)
  let ?B = "case d of None \<Rightarrow> Inr s1 | Some d \<Rightarrow> websWrite (''Last-modified: %s'' @ CRLF) [FStr (Some d)] s1"
  have "writes s1 ?B"
    using w1 d by (intro writes_option writes_none writes_write) (simp_all add: args_ok_def)
  then obtain l2 where B: "?B = Inr (s1\<lparr>out := out s1 @ l2\<rparr>)" by (auto simp: writes_def)
  define s2 where "s2 = s1\<lparr>out := out s1 @ l2\<rparr>"
  have w2: "wp s2 = Some w" using w1 by (simp add: s2_def)
  have "\<exists>l3. (if sz \<noteq> 0 then res_bind (websWrite (''Content-length: %d'' @ CRLF) [FInt (int sz)] s2) (\<lambda>s.
        Inr (upd (\<lambda>w. w\<lparr>w_numbytes := int sz\<rparr>) s)) else Inr s2)
      = Inr (s2\<lparr>wp := Some (counted sz w), out := out s2 @ l3\<rparr>) \<and> (sz \<noteq> 0 \<longrightarrow> length_line sz \<in> set l3)"
  proof (cases "sz = 0")
    case True
    then show ?thesis using w2 by (intro exI [of _ "[]"]) (simp add: counted_def)
  next
    case False
    then show ?thesis using length_line_sent [OF w2 sz] w2
      by (intro exI [of _ "[length_line sz]"]) (simp add: counted_def upd_def)
  qed
  then obtain l3 where C: "(if sz \<noteq> 0 then res_bind (websWrite (''Content-length: %d'' @ CRLF) [FInt (int sz)] s2) (\<lambda>s.
        Inr (upd (\<lambda>w. w\<lparr>w_numbytes := int sz\<rparr>) s)) else Inr s2)
      = Inr (s2\<lparr>wp := Some (counted sz w), out := out s2 @ l3\<rparr>)" "sz \<noteq> 0 \<longrightarrow> length_line sz \<in> set l3" by blast
  define s3 where "s3 = s2\<lparr>wp := Some (counted sz w), out := out s2 @ l3\<rparr>"
  have w3: "wp s3 = Some (counted sz w)" by (simp add: s3_def)
  let ?D = "\<lambda>s. res_bind (websWrite (''Content-type: %s'' @ CRLF) [FStr (Some (w_type w))] s) (\<lambda>s.
      res_bind (if w_flags w AND WEBS_KEEP_ALIVE \<noteq> 0 \<and> w_flags w AND WEBS_ASP = 0
                then websWrite (''Connection: keep-alive'' @ CRLF) [] s else Inr s) (\<lambda>s.
        websWrite CRLF [] s))"
  have "writes s3 (?D s3)"
    using w3 ty by (intro writes_bind writes_if writes_none writes_write) (simp_all add: args_ok_def)
  then obtain l4 where D: "?D s3 = Inr (s3\<lparr>out := out s3 @ l4\<rparr>)" by (auto simp: writes_def)
  have "page_header e sz d s = res_bind ?A (\<lambda>s. res_bind (case d of None \<Rightarrow> Inr s
      | Some d \<Rightarrow> websWrite (''Last-modified: %s'' @ CRLF) [FStr (Some d)] s) (\<lambda>s.
    res_bind (if sz \<noteq> 0 then res_bind (websWrite (''Content-length: %d'' @ CRLF) [FInt (int sz)] s) (\<lambda>s.
        Inr (upd (\<lambda>w. w\<lparr>w_numbytes := int sz\<rparr>) s)) else Inr s) ?D))"
    using w asp by (simp add: page_header_def Let_def)
  then have "page_header e sz d s = Inr (s3\<lparr>out := out s3 @ l4\<rparr>)"
    by (simp only: A s1_def [symmetric] B s2_def [symmetric] C(1) s3_def [symmetric] D res_bind.simps)
  then show ?thesis
    using C(2) by (intro exI [of _ "l1 @ l2 @ l3 @ l4"]) (auto simp: s3_def s2_def s1_def)
qed

section \<open>The handler on a document\<close>

definition path_tokens :: "string \<Rightarrow> string list" where
  "path_tokens path = strtok ''/'' (map (\<lambda>c. if c = CHR 0x5C then CHR ''/'' else c) (cdecode path))"

lemma collect_parts_limit: "length parts + length toks \<le> kMaxUrlParts \<Longrightarrow> collect_parts parts len toks \<noteq> None"
proof (induction parts len toks rule: collect_parts.induct)
  case (2 parts len token toks)
  have n: "\<not> kMaxUrlParts \<le> length parts" using "2.prems" by simp
  show ?case
  proof (cases "token = ''..''")
    case True
    then show ?thesis using "2.IH"(1) [OF n True] "2.prems" n by simp
  next
    case False
    then show ?thesis using "2.IH"(2,3) [OF n False] "2.prems" n by simp
  qed
qed simp

lemma websValidateUrl_accepts:
  assumes ok: "server_ok s" and w: "wp s = Some w" and d: "is_cstr (websGetRequestDir w)" "websGetRequestDir w \<noteq> []"
    and n: "length (path_tokens path) \<le> 64" and p: "path_parts path \<noteq> []"
  shows "\<exists>t. websValidateUrl e path s = Inr (0, validated (join_path (websGetRequestDir w) (path_parts path)) s t)
       \<and> server_ok (validated (join_path (websGetRequestDir w) (path_parts path)) s t) \<and> list_all plain_part (path_parts path)
       \<and> (\<forall>k. 0 \<le> k \<and> k \<noteq> w_cgiVars w \<longrightarrow> syms t k = syms (tabs s) k)"
proof -
  have "collect_parts [] 0 (path_tokens path) \<noteq> None"
    by (rule collect_parts_limit) (use n in \<open>simp add: kMaxUrlParts_def\<close>)
  then obtain ps l where c: "collect_parts [] 0 (path_tokens path) = Some (ps, l)" by auto
  have "ps = path_parts path" using collect_parts_walk [OF c] by (simp add: path_parts_def path_tokens_def)
  then have "websValidateUrl e path s \<noteq> Inr (- 1, s)"
    using w c p d(2) by (auto simp: websValidateUrl_def Let_def path_tokens_def)
  then show ?thesis using websValidateUrl_cases [OF ok w d(1), of e path] by blast
qed

lemma cut_sep_join:
  assumes "list_all plain_part parts" and "parts \<noteq> []"
  shows "cut_sep (join_path dir parts) = join_path dir parts"
proof -
  obtain ps p where p: "parts = ps @ [p]" using assms(2) by (cases parts rule: rev_cases) auto
  then have pp: "plain_part p" using assms(1) by simp
  then have "last (join_path dir parts) = last p" using p by (simp add: join_path_def plain_part_def)
  moreover have "last p \<in> set p" using pp by (simp add: plain_part_def)
  moreover have "c \<in> set p \<Longrightarrow> \<not> is_sep c" for c using pp by (auto simp: is_sep_def plain_part_def)
  ultimately have "\<not> is_sep (last (join_path dir parts))" by simp
  then show ?thesis by (simp add: cut_sep_def)
qed

text \<open>The request while its document is being sent.\<close>

definition opened :: "string \<Rightarrow> byte list \<Rightarrow> webs \<Rightarrow> webs" where
  "opened lpath c w = counted (length c) (w\<lparr>w_lpath := Some lpath, w_docfd := Some (c, 0)\<rparr>)\<lparr>w_writer := True\<rparr>"

text \<open>Up to the response: the path is accepted, the document opened and its size known.\<close>

lemma page_reached:
  assumes ok: "server_ok s" and w: "wp s = Some w"
    and d: "is_cstr (websGetRequestDir w)" "websGetRequestDir w \<noteq> []"
    and n: "length (path_tokens path) \<le> 64" "path_parts path \<noteq> []"
    and f: "pg_node f (join_path (websGetRequestDir w) (path_parts path)) = Some (Doc c dt)" "pg_open f" "pg_stat f"
  obtains t w' where "w' = w\<lparr>w_lpath := Some (join_path (websGetRequestDir w) (path_parts path)), w_docfd := Some (c, 0)\<rparr>"
    and "websDefaultHandler e f asp path s
      = serve_page e asp (join_path (websGetRequestDir w) (path_parts path)) (length c) dt (s\<lparr>tabs := t, wp := Some w'\<rparr>)"
    and "server_ok (s\<lparr>tabs := t, wp := Some w'\<rparr>)"
    and "\<And>k. 0 \<le> k \<Longrightarrow> k \<noteq> w_cgiVars w \<Longrightarrow> syms t k = syms (tabs s) k"
proof -
  define lp where "lp = join_path (websGetRequestDir w) (path_parts path)"
  obtain t where t: "websValidateUrl e path s = Inr (0, validated lp s t)" "server_ok (validated lp s t)"
    "list_all plain_part (path_parts path)" "\<forall>k. 0 \<le> k \<and> k \<noteq> w_cgiVars w \<longrightarrow> syms t k = syms (tabs s) k"
    using websValidateUrl_accepts [OF ok w d n, of e] unfolding lp_def by blast
  have lp: "cut_sep lp = lp" "lp \<noteq> []"
    using cut_sep_join [OF t(3) n(2)] d(2) by (simp_all add: lp_def join_path_def)
  let ?w = "w\<lparr>w_lpath := Some lp, w_docfd := Some (c, 0)\<rparr>"
  have v: "validated lp s t = s\<lparr>tabs := t, wp := Some (w\<lparr>w_lpath := Some lp\<rparr>)\<rparr>"
    using w by (simp add: validated_def upd_def)
  have op: "websPageOpen f lp (s\<lparr>tabs := t, wp := Some (w\<lparr>w_lpath := Some lp\<rparr>)\<rparr>) = Inr (0, s\<lparr>tabs := t, wp := Some ?w\<rparr>)"
    using f lp_def by (simp add: websPageOpen_def upd_def)
  have st: "websPageStat f lp = Some (length c, dt)" "\<not> websPageIsDirectory f lp"
    using f lp_def by (simp_all add: websPageStat_def websPageIsDirectory_def)
  have "websDefaultHandler e f asp path s = serve_page e asp lp (length c) dt (s\<lparr>tabs := t, wp := Some ?w\<rparr>)"
    using t(1) lp op st by (simp add: websDefaultHandler_def v Let_def bstrdup_def upd_def)
  moreover have "server_ok (s\<lparr>tabs := t, wp := Some ?w\<rparr>)"
    using t(2) by (auto simp: v server_ok_def request_ok_def webs_strs_def)
  ultimately show thesis using that [of ?w t] t(4) by (simp add: lp_def)
qed

lemma page_start:
  assumes ok: "server_ok s" and w: "wp s = Some w" and e: "env_ok e"
    and d: "is_cstr (websGetRequestDir w)" "websGetRequestDir w \<noteq> []"
    and n: "length (path_tokens path) \<le> 64" "path_parts path \<noteq> []"
    and f: "pg_node f (join_path (websGetRequestDir w) (path_parts path)) = Some (Doc c dt)" "pg_open f" "pg_stat f"
      "str_ok dt" "length c < 0x80000000"
    and ty: "is_cstr (w_type w)" and fl: "w_flags w AND WEBS_ASP = 0" "w_flags w AND WEBS_HEAD_REQUEST = 0"
  shows "\<exists>s1 ls. websDefaultHandler e f asp path s = Inr (1, s1) \<and> server_ok s1
    \<and> wp s1 = Some (opened (join_path (websGetRequestDir w) (path_parts path)) c w)
    \<and> out s1 = out s @ ls \<and> umdb s1 = umdb s \<and> (c \<noteq> [] \<longrightarrow> length_line (length c) \<in> set ls)"
proof -
  define lp where "lp = join_path (websGetRequestDir w) (path_parts path)"
  obtain t w' where t: "w' = w\<lparr>w_lpath := Some lp, w_docfd := Some (c, 0)\<rparr>"
    "websDefaultHandler e f asp path s = serve_page e asp lp (length c) dt (s\<lparr>tabs := t, wp := Some w'\<rparr>)"
    "server_ok (s\<lparr>tabs := t, wp := Some w'\<rparr>)"
    by (rule page_reached [OF ok w d n f(1-3), of e asp]) (simp add: lp_def)
  let ?s = "s\<lparr>tabs := t, wp := Some w', st_localHits := st_localHits s + 1\<rparr>"
  obtain ls where h: "page_header e (length c) dt ?s = Inr (?s\<lparr>wp := Some (counted (length c) w'), out := out ?s @ ls\<rparr>)"
    "length c \<noteq> 0 \<longrightarrow> length_line (length c) \<in> set ls"
    using page_header_ok [of ?s w' e "length c" dt] e ty f fl t(1) by auto
  let ?s1 = "?s\<lparr>wp := Some (opened lp c w), out := out s @ ls\<rparr>"
  have "websDefaultHandler e f asp path s = Inr (1, ?s1)"
    using h(1) fl unfolding t(2) by (simp add: serve_page_def Let_def upd_def opened_def t(1))
  moreover have "server_ok ?s1"
    using t(1,3) by (auto simp: server_ok_def request_ok_def webs_strs_def opened_def counted_def)
  ultimately show ?thesis using h(2) unfolding lp_def [symmetric] by (intro exI [of _ ?s1] exI [of _ ls]) simp
qed

text \<open>C13. The file handler delivers a document byte for byte: for a fresh request (no byte sent or counted
  yet) that is neither \<open>HEAD\<close> nor keep-alive nor marked as a script page, a path of at most 64 pieces
  that leaves a name under the request's directory, and a document there of less than 2 GB that can be
  opened and inspected, it answers the request with a header (which announces the length of a document
  that is not empty) and then, when each write event takes at least one byte without an error, the
  following write events send the bytes of the document in order, each once, and end the request after
  at most one event per byte and one more, however the socket splits the writes.\<close>

theorem page_served:
  assumes "server_ok s" and "wp s = Some w" and "env_ok e"
    and "is_cstr (websGetRequestDir w)" and "websGetRequestDir w \<noteq> []"
    and "length (path_tokens path) \<le> 64" and "path_parts path \<noteq> []"
    and "pg_node f (join_path (websGetRequestDir w) (path_parts path)) = Some (Doc c dt)" and "pg_open f" and "pg_stat f"
    and "str_ok dt" and "length c < 0x80000000" and "is_cstr (w_type w)"
    and fl: "w_flags w AND WEBS_ASP = 0" "w_flags w AND WEBS_HEAD_REQUEST = 0" "w_flags w AND WEBS_KEEP_ALIVE = 0"
    and nw: "w_numbytes w = 0" "w_written w = 0" and acc: "\<forall>i. progress (accs i)"
  shows "\<exists>s1 hdr s2 ls. websDefaultHandler e f asp path s = Inr (1, s1) \<and> out s1 = out s @ hdr
    \<and> (c \<noteq> [] \<longrightarrow> length_line (length c) \<in> set hdr)
    \<and> write_events e accs (Suc (length c)) s1 = Inr s2 \<and> wp s2 = None
    \<and> out s2 = out s1 @ ls \<and> concat ls = c \<and> umdb s2 = umdb s"
proof -
  obtain s1 hdr where s1: "websDefaultHandler e f asp path s = Inr (1, s1)" "server_ok s1"
    "wp s1 = Some (opened (join_path (websGetRequestDir w) (path_parts path)) c w)"
    "out s1 = out s @ hdr" "umdb s1 = umdb s" "c \<noteq> [] \<longrightarrow> length_line (length c) \<in> set hdr"
    using page_start [OF assms(1-15), of asp] by blast
  have "sending c 0 s1" using s1(2,3) fl nw by (simp add: sending_def opened_def counted_def)
  from write_events_send [OF this acc, of e "Suc (length c)"] s1 show ?thesis
    by (fastforce simp: ended_def)
qed

section \<open>The handler on any path\<close>

lemma is_cstr_cut_sep: "is_cstr p \<Longrightarrow> is_cstr (cut_sep p)"
  by (auto simp: cut_sep_def is_cstr_def dest: in_set_butlastD)

lemma redirect_ends:
  assumes ok: "server_ok s" and w: "wp s = Some w" and e: "env_ok e" and h: "websHostUrl s \<noteq> None"
    and p: "path \<noteq> []" "is_cstr path" and pg: "websDefaultPage s = Some pg" "is_cstr pg"
  shows "\<exists>s'. redirect_directory e path s = Inr (1, s') \<and> ended s s'"
proof -
  let ?p = "cut_sep path" and ?s = "upd (\<lambda>w. w\<lparr>w_path := Some (cut_sep path)\<rparr>) s"
  have c: "is_cstr ?p" using p(2) by (rule is_cstr_cut_sep)
  have "render ''%s/%s'' [FStr (Some ?p), FStr (Some pg)] = Some (?p @ ''/'' @ pg)" by simp
  from fmt_text [OF this, of "int (length ?p + (length pg + 2))"]
  obtain b n where b: "fmtAlloc (int (length ?p + (length pg + 2))) ''%s/%s'' [FStr (Some ?p), FStr (Some pg)] = Inr (b, n)"
    "is_cstr b"
    using c pg(2) by (auto simp: args_ok_def)
  have "server_ok ?s" using ok c by (auto intro: upd_ok simp: webs_strs_def)
  moreover have "wp ?s = Some (w\<lparr>w_path := Some ?p\<rparr>)" "websHostUrl ?s \<noteq> None" using w h by simp_all
  ultimately obtain s' where s': "websRedirect e b ?s = Inr s'" "ended ?s s'"
    using websRedirect_ok [OF _ _ e b(2)] by blast
  have "websDefaultPage ?s = Some pg" using pg(1) by (simp add: upd_def)
  then have "redirect_directory e path s = Inr (1, s')"
    using p(1) b(1) s'(1) by (simp add: redirect_directory_def Let_def)
  then show ?thesis using s'(2) by (auto simp: ended_def)
qed

lemma serve_page_ok:
  assumes ok: "server_ok s" and w: "wp s = Some w" and e: "env_ok e"
    and sz: "sz < 0x80000000" "str_ok dt" "is_cstr (w_type w)"
    and fl: "w_flags w AND WEBS_ASP = 0" "w_flags w AND WEBS_KEEP_ALIVE = 0"
  shows "\<exists>s'. serve_page e asp lp sz dt s = Inr (1, s')
    \<and> (ended s s' \<or> wp s' = Some (counted sz w\<lparr>w_writer := True\<rparr>) \<and> umdb s' = umdb s)"
proof -
  let ?s = "s\<lparr>st_localHits := st_localHits s + 1\<rparr>"
  obtain ls where h: "page_header e sz dt ?s = Inr (?s\<lparr>wp := Some (counted sz w), out := out ?s @ ls\<rparr>)"
    using page_header_ok [of ?s w e sz dt] w e sz fl(1) by auto
  let ?s1 = "?s\<lparr>wp := Some (counted sz w), out := out s @ ls\<rparr>"
  show ?thesis
  proof (cases "w_flags w AND WEBS_HEAD_REQUEST = 0")
    case True
    then have "serve_page e asp lp sz dt s = Inr (1, upd (\<lambda>w. w\<lparr>w_writer := True\<rparr>) ?s1)"
      using w h fl(1) by (simp add: serve_page_def Let_def)
    then show ?thesis by (intro exI [of _ "upd (\<lambda>w. w\<lparr>w_writer := True\<rparr>) ?s1"]) simp
  next
    case False
    have "server_ok ?s1" using ok w by (auto simp: server_ok_def request_ok_def webs_strs_def counted_def)
    moreover have "w_flags (counted sz w) AND WEBS_KEEP_ALIVE = 0" using fl(2) by (simp add: counted_def)
    ultimately obtain s' where s': "websDone e 200 ?s1 = Inr s'" "ended ?s1 s'"
      using websDone_ends [of ?s1 "counted sz w" e 200] by auto
    then have "serve_page e asp lp sz dt s = Inr (1, s')"
      using w h False by (simp add: serve_page_def Let_def)
    moreover have "ended s s'" using s'(2) by (simp add: ended_def)
    ultimately show ?thesis by blast
  qed
qed

text \<open>Every document: a length that an \<open>int\<close> holds and a date without NUL.\<close>

definition pages_ok :: "pages \<Rightarrow> bool" where
  "pages_ok f \<longleftrightarrow> (\<forall>p c d. pg_node f p = Some (Doc c d) \<longrightarrow> length c < 0x80000000 \<and> str_ok d)"

lemma websError_ends:
  assumes "server_ok s" and "wp s = Some w" and "env_ok e" and "0 \<le> code" "code < 1000" and "is_cstr m" "render m [] = Some t"
  shows "\<exists>s'. websError e code m [] s = Inr s' \<and> ended s s'"
  using websError_ok [OF assms(1-5,7) _ assms(6)] by (auto simp: args_ok_def)

text \<open>Opening the named file: the request ends, or the file is a document and is being sent.\<close>

lemma open_page:
  assumes ok: "server_ok s" and w: "wp s = Some w" and e: "env_ok e" and f: "pages_ok f" and ty: "is_cstr (w_type w)"
    and fl: "w_flags w AND WEBS_ASP = 0" "w_flags w AND WEBS_KEEP_ALIVE = 0"
  shows "\<exists>s'. res_bind (websPageOpen f lp s) (\<lambda>(fd, s).
                 if fd < 0 then res_bind (websError e 404 ''Cannot open URL'' [] s) (\<lambda>s. Inr (1, s))
                 else
                   (case websPageStat f lp of
                      None \<Rightarrow> res_bind (websError e 400 ''Cannot stat page for URL'' [] s) (\<lambda>s. Inr (1, s))
                    | Some (sz, date) \<Rightarrow> serve_page e asp lp sz date s)) = Inr (1, s')
    \<and> (ended s s' \<or> (\<exists>c d. pg_node f lp = Some (Doc c d) \<and> umdb s' = umdb s
          \<and> wp s' = Some (counted (length c) (w\<lparr>w_docfd := Some (c, 0)\<rparr>)\<lparr>w_writer := True\<rparr>)))"
proof (cases "\<exists>c d. pg_node f lp = Some (Doc c d) \<and> pg_open f")
  case False
  let ?s = "upd (\<lambda>w. w\<lparr>w_docfd := None\<rparr>) s"
  have op: "websPageOpen f lp s = Inr (- 1, ?s)"
    using False w by (auto simp: websPageOpen_def split: option.split node.split)
  have "server_ok ?s" using ok by (auto intro: upd_ok simp: webs_strs_def)
  moreover have "wp ?s = Some (w\<lparr>w_docfd := None\<rparr>)" using w by simp
  ultimately obtain s' where "websError e 404 ''Cannot open URL'' [] ?s = Inr s'" "ended ?s s'"
    using websError_ends [of ?s _ e 404 "''Cannot open URL''"] e by auto
  then show ?thesis using op by (auto simp: ended_def)
next
  case True
  then obtain c d where c: "pg_node f lp = Some (Doc c d)" "pg_open f" by blast
  let ?s = "upd (\<lambda>w. w\<lparr>w_docfd := Some (c, 0)\<rparr>) s" and ?w = "w\<lparr>w_docfd := Some (c, 0)\<rparr>"
  have op: "websPageOpen f lp s = Inr (0, ?s)" using c w by (simp add: websPageOpen_def)
  have s: "server_ok ?s" "wp ?s = Some ?w" using ok w by (auto intro: upd_ok simp: webs_strs_def)
  show ?thesis
  proof (cases "pg_stat f")
    case False
    obtain s' where "websError e 400 ''Cannot stat page for URL'' [] ?s = Inr s'" "ended ?s s'"
      using websError_ends [OF s e, of 400 "''Cannot stat page for URL''"] by auto
    then show ?thesis using op False by (auto simp: ended_def websPageStat_def)
  next
    case st: True
    have "length c < 0x80000000" "str_ok d" using f c(1) by (auto simp: pages_ok_def)
    then obtain s' where s': "serve_page e asp lp (length c) d ?s = Inr (1, s')"
      "ended ?s s' \<or> wp s' = Some (counted (length c) ?w\<lparr>w_writer := True\<rparr>) \<and> umdb s' = umdb ?s"
      using serve_page_ok [OF s e, of "length c" d asp lp] ty fl by auto
    have "websPageStat f lp = Some (length c, d)" using c(1) st by (simp add: websPageStat_def)
    then show ?thesis using op s' c(1) by (auto simp: ended_def)
  qed
qed

text \<open>C12. The file handler opens only documents below its directory: on a server with a host URL and a
  default page, for every request that is not marked as a script page and asks for no keep-alive, any
  path that is not empty, any document tree (lengths an \<open>int\<close> holds, dates that can be printed) and any
  outcome of opening and inspecting, it returns 1 without a memory fault and either the request has
  ended (an error page, the redirect of a directory, a \<open>HEAD\<close> answer), or it is sending the document
  whose name is the request's directory followed by plain parts (no \<open>..\<close>, no separator inside).  (The
  empty path makes the handler fault.)\<close>

theorem websDefaultHandler_confined:
  assumes ok: "server_ok s" and w: "wp s = Some w" and e: "env_ok e" and f: "pages_ok f"
    and d: "is_cstr (websGetRequestDir w)" and p: "path \<noteq> []" "is_cstr path" and ty: "is_cstr (w_type w)"
    and h: "websHostUrl s \<noteq> None" and pg: "websDefaultPage s = Some pg" "is_cstr pg"
    and fl: "w_flags w AND WEBS_ASP = 0" "w_flags w AND WEBS_KEEP_ALIVE = 0"
  shows "\<exists>s'. websDefaultHandler e f asp path s = Inr (1, s') \<and> umdb s' = umdb s \<and>
    (wp s' = None \<and> server_ok s' \<or>
     (\<exists>parts c dt. list_all plain_part parts \<and> length parts \<le> 64
        \<and> pg_node f (cut_sep (join_path (websGetRequestDir w) parts)) = Some (Doc c dt)
        \<and> wp s' = Some (opened (cut_sep (join_path (websGetRequestDir w) parts)) c w)))"
  using websValidateUrl_cases [OF ok w d, of e path]
proof
  assume "websValidateUrl e path s = Inr (- 1, s)"
  moreover obtain s' where "websError e 500 ''Invalid URL'' [] s = Inr s'" "ended s s'"
    using websError_ends [OF ok w e, of 500 "''Invalid URL''"] by auto
  ultimately show ?thesis by (intro exI [of _ s']) (simp add: websDefaultHandler_def ended_def)
next
  define lp where "lp = join_path (websGetRequestDir w) (path_parts path)"
  assume "\<exists>t. websValidateUrl e path s = Inr (0, validated (join_path (websGetRequestDir w) (path_parts path)) s t)
       \<and> server_ok (validated (join_path (websGetRequestDir w) (path_parts path)) s t)
       \<and> (\<forall>k. 0 \<le> k \<and> k \<noteq> w_cgiVars w \<longrightarrow> syms t k = syms (tabs s) k)
       \<and> websGetRequestDir w \<noteq> [] \<and> length (path_parts path) \<le> 64 \<and> list_all plain_part (path_parts path)"
  then obtain t where t: "websValidateUrl e path s = Inr (0, validated lp s t)" "server_ok (validated lp s t)"
    "websGetRequestDir w \<noteq> []" "length (path_parts path) \<le> 64" "list_all plain_part (path_parts path)"
    unfolding lp_def by blast
  have lp: "lp \<noteq> []" using t(3) by (simp add: lp_def join_path_def)
  let ?lp = "cut_sep lp"
  let ?w = "w\<lparr>w_lpath := Some ?lp\<rparr>" and ?s = "s\<lparr>tabs := t, wp := Some (w\<lparr>w_lpath := Some ?lp\<rparr>)\<rparr>"
  have v: "validated lp s t = s\<lparr>tabs := t, wp := Some (w\<lparr>w_lpath := Some lp\<rparr>)\<rparr>"
    using w by (simp add: validated_def upd_def)
  have s: "server_ok ?s" "wp ?s = Some ?w" using t(2) by (auto simp: v server_ok_def request_ok_def webs_strs_def)
  have ended: "umdb s' = umdb s \<and> wp s' = None \<and> server_ok s'" if "ended ?s s'" for s' using that by (simp add: ended_def)
  have run: "websDefaultHandler e f asp path s = (if websPageIsDirectory f ?lp then redirect_directory e path ?s
      else res_bind (websPageOpen f ?lp ?s) (\<lambda>(fd, s).
                 if fd < 0 then res_bind (websError e 404 ''Cannot open URL'' [] s) (\<lambda>s. Inr (1, s))
                 else
                   (case websPageStat f ?lp of
                      None \<Rightarrow> res_bind (websError e 400 ''Cannot stat page for URL'' [] s) (\<lambda>s. Inr (1, s))
                    | Some (sz, date) \<Rightarrow> serve_page e asp ?lp sz date s)))"
    using t(1) lp by (simp add: websDefaultHandler_def v Let_def bstrdup_def upd_def)
  show ?thesis
  proof (cases "websPageIsDirectory f ?lp")
    case True
    obtain s' where "redirect_directory e path ?s = Inr (1, s')" "ended ?s s'"
      using redirect_ends [OF s e _ p, of pg] h pg by auto
    then show ?thesis using run True ended by auto
  next
    case False
    obtain s' where s': "websDefaultHandler e f asp path s = Inr (1, s')"
      "ended ?s s' \<or> (\<exists>c d. pg_node f ?lp = Some (Doc c d) \<and> umdb s' = umdb ?s
          \<and> wp s' = Some (counted (length c) (?w\<lparr>w_docfd := Some (c, 0)\<rparr>)\<lparr>w_writer := True\<rparr>))"
      using open_page [OF s e f, of ?lp asp] ty fl run False by auto
    from s'(2) show ?thesis
    proof
      assume "ended ?s s'"
      then show ?thesis using s'(1) ended by blast
    next
      assume "\<exists>c d. pg_node f ?lp = Some (Doc c d) \<and> umdb s' = umdb ?s
          \<and> wp s' = Some (counted (length c) (?w\<lparr>w_docfd := Some (c, 0)\<rparr>)\<lparr>w_writer := True\<rparr>)"
      then show ?thesis using s'(1) t(4,5) unfolding opened_def lp_def by (auto simp: opened_def)
    qed
  qed
qed

section \<open>A small tree\<close>

definition demo_pages :: pages where
  "demo_pages = \<lparr>pg_node = [''/etc_ro/web/b.htm'' \<mapsto> Doc ''<html>'' (Some ''Thu Jan 01''), ''/etc_ro/web/adm'' \<mapsto> Dir],
     pg_open = True, pg_stat = True\<rparr>"

definition one_byte :: writer where
  "one_byte k n = int (min 1 n)"

lemma one_byte_progress: "progress one_byte"
  by (auto simp: progress_def writer_ok_def one_byte_def)

definition demo_asp :: asp_fn where
  "demo_asp lpath s = Inr (0, s)"

lemma demo_request:
  "wp demo_server = Some demo_webs" "is_cstr (websGetRequestDir demo_webs)" "websGetRequestDir demo_webs \<noteq> []" "is_cstr (w_type demo_webs)"
  "w_flags demo_webs AND WEBS_ASP = 0" "w_flags demo_webs AND WEBS_HEAD_REQUEST = 0" "w_flags demo_webs AND WEBS_KEEP_ALIVE = 0"
  "w_numbytes demo_webs = 0" "w_written demo_webs = 0"
  by (simp add: demo_server_def, code_simp+)

lemma demo_document:
  "length (path_tokens ''/x/%2e%2e/b.htm'') \<le> 64" "path_parts ''/x/%2e%2e/b.htm'' \<noteq> []"
  "pg_node demo_pages (join_path (websGetRequestDir demo_webs) (path_parts ''/x/%2e%2e/b.htm'')) = Some (Doc ''<html>'' (Some ''Thu Jan 01''))"
  by code_simp+

lemma demo_date: "pg_open demo_pages" "pg_stat demo_pages" "str_ok (Some ''Thu Jan 01'')" "length ''<html>'' < 0x80000000"
  by (simp_all add: demo_pages_def is_cstr_def)

theorem page_served_witness:
  "\<exists>s1 hdr s2 ls. websDefaultHandler demo_env demo_pages demo_asp ''/x/%2e%2e/b.htm'' demo_server = Inr (1, s1)
    \<and> out s1 = out demo_server @ hdr \<and> length_line 6 \<in> set hdr
    \<and> write_events demo_env (\<lambda>i. one_byte) 7 s1 = Inr s2 \<and> wp s2 = None \<and> out s2 = out s1 @ ls \<and> concat ls = ''<html>''"
proof -
  have l: "length ''<html>'' = 6" "Suc 6 = (7::nat)" and n: "''<html>'' \<noteq> []" by simp_all
  have p: "\<forall>i. progress one_byte" using one_byte_progress by simp
  from page_served [OF demo_server_ok(1) demo_request(1) demo_server_ok(2) demo_request(2,3) demo_document demo_date demo_request(4-9) p,
      where asp = demo_asp] n
  show ?thesis unfolding l by blast
qed

lemma demo_pages_ok: "pages_ok demo_pages"
  by (auto simp: pages_ok_def demo_pages_def)

theorem websDefaultHandler_confined_witness:
  "\<exists>s'. websDefaultHandler demo_env demo_pages demo_asp ''/adm'' demo_server = Inr (1, s') \<and>
    (wp s' = None \<and> server_ok s' \<or>
     (\<exists>parts c dt. list_all plain_part parts
        \<and> pg_node demo_pages (cut_sep (join_path (websGetRequestDir demo_webs) parts)) = Some (Doc c dt)))"
proof -
  have "websHostUrl demo_server \<noteq> None" "websDefaultPage demo_server = Some ''default.asp''" "is_cstr ''default.asp''" "is_cstr ''/adm''"
    by (simp_all add: demo_server_def)
  then show ?thesis
    using websDefaultHandler_confined [OF demo_server_ok(1) demo_request(1) demo_server_ok(2) demo_pages_ok demo_request(2) _ _
        demo_request(4) _ _ _ demo_request(5,7), of "''/adm''" "''default.asp''" demo_asp] by blast
qed

end
