(* ===== verification/Ejlex.thy ===== *)
theory Ejlex
  imports Request
begin

text \<open>
  The lexical analyser of the page scripts: \<open>user/goahead/src_tongyong/ejlex.c\<close> and the data of
  \<open>ejIntrn.h\<close>.  The script and the current token are byte queues of \<open>Ringq\<close>; \<open>mem\<close> is the memory
  allocator.  A character is an \<open>int\<close>, \<open>-1\<close> at the end of the script.  A saved input state shares the
  buffers of its queues with the current one: restoring moves the positions back in the buffers as
  they are now, and is a fault when a buffer has been replaced meanwhile (the next token would be
  written into freed memory).

  \<open>'w\<close> is what the functions called from scripts work on.  The tables of variables and functions are
  those of \<open>sym.c\<close>; \<open>ej_variables\<close> holds table numbers, \<open>None\<close> being the result of a failed \<open>symOpen\<close>.
\<close>

section \<open>Data\<close>

definition EJ_INC :: nat where "EJ_INC = 110"
definition EJ_SCRIPT_INC :: nat where "EJ_SCRIPT_INC = 1023"
definition E_MAX_ERROR :: int where "E_MAX_ERROR = 4096"

datatype tok = TOK_ERR | TOK_LPAREN | TOK_RPAREN | TOK_IF | TOK_ELSE | TOK_LBRACE | TOK_RBRACE | TOK_LOGICAL
  | TOK_EXPR | TOK_SEMI | TOK_LITERAL | TOK_FUNCTION | TOK_NEWLINE | TOK_ID | TOK_EOF | TOK_COMMA | TOK_VAR
  | TOK_ASSIGNMENT | TOK_FOR | TOK_INC_DEC | TOK_RETURN

datatype pstate = STATE_ERR | STATE_EOF | STATE_COND | STATE_COND_DONE | STATE_RELEXP | STATE_RELEXP_DONE
  | STATE_EXPR | STATE_EXPR_DONE | STATE_STMT | STATE_STMT_DONE | STATE_STMT_BLOCK_DONE | STATE_ARG_LIST
  | STATE_ARG_LIST_DONE | STATE_DEC_LIST | STATE_DEC_LIST_DONE | STATE_DEC | STATE_DEC_DONE | STATE_RET

definition EXPR_LESS :: int where "EXPR_LESS = 1"
definition EXPR_LESSEQ :: int where "EXPR_LESSEQ = 2"
definition EXPR_GREATER :: int where "EXPR_GREATER = 3"
definition EXPR_GREATEREQ :: int where "EXPR_GREATEREQ = 4"
definition EXPR_EQ :: int where "EXPR_EQ = 5"
definition EXPR_NOTEQ :: int where "EXPR_NOTEQ = 6"
definition EXPR_PLUS :: int where "EXPR_PLUS = 7"
definition EXPR_MINUS :: int where "EXPR_MINUS = 8"
definition EXPR_DIV :: int where "EXPR_DIV = 9"
definition EXPR_MOD :: int where "EXPR_MOD = 10"
definition EXPR_LSHIFT :: int where "EXPR_LSHIFT = 11"
definition EXPR_RSHIFT :: int where "EXPR_RSHIFT = 12"
definition EXPR_MUL :: int where "EXPR_MUL = 13"
definition EXPR_INC :: int where "EXPR_INC = 15"
definition EXPR_DEC :: int where "EXPR_DEC = 16"
definition EXPR_BOOL_COMP :: int where "EXPR_BOOL_COMP = 17"
definition COND_AND :: int where "COND_AND = 1"
definition COND_OR :: int where "COND_OR = 2"

lemmas operator_codes = EXPR_LESS_def EXPR_LESSEQ_def EXPR_GREATER_def EXPR_GREATEREQ_def EXPR_EQ_def EXPR_NOTEQ_def
  EXPR_PLUS_def EXPR_MINUS_def EXPR_DIV_def EXPR_MOD_def EXPR_LSHIFT_def EXPR_RSHIFT_def EXPR_MUL_def EXPR_INC_def
  EXPR_DEC_def EXPR_BOOL_COMP_def COND_AND_def COND_OR_def

record ejfunc =
  fc_fname :: string
  fc_args :: "string list"

text \<open>\<open>ip_putBackTokenId\<close> is \<open>None\<close> for 0; \<open>ip_line\<close> is the buffer of the current line.\<close>

record ejinput =
  ip_tokbuf :: ringq
  ip_script :: ringq
  ip_putBackToken :: "string option"
  ip_putBackTokenId :: "tok option"
  ip_line :: "byte list option"
  ip_lineLength :: int
  ip_lineNumber :: int
  ip_lineColumn :: int

record 'w ej =
  ej_input :: "ejinput option"
  ej_functions :: int
  ej_variables :: "int hlist option"
  ej_variableMax :: nat
  ej_func :: "ejfunc option"
  ej_result :: "string option"
  ej_error :: "string option"
  ej_token :: string
  ej_tid :: tok
  ej_own_variables :: bool
  ej_own_functions :: bool
  ej_tabs :: "value_t symtabs"
  ej_world :: 'w

definition the_input :: "'w ej \<Rightarrow> ejinput res" where
  "the_input ep = (case ej_input ep of None \<Rightarrow> Inl OutOfBounds | Some ip \<Rightarrow> Inr ip)"

definition put_input :: "ejinput \<Rightarrow> 'w ej \<Rightarrow> 'w ej" where
  "put_input ip ep = ep\<lparr>ej_input := Some ip\<rparr>"

section \<open>Errors\<close>

definition line_str :: "ejinput \<Rightarrow> string option res" where
  "line_str ip = (case ip_line ip of None \<Rightarrow> Inr None | Some b \<Rightarrow> res_bind (cstr_at b 0) (\<lambda>s. Inr (Some s)))"

definition ejError :: "string \<Rightarrow> farg list \<Rightarrow> 'w ej \<Rightarrow> 'w ej res" where
  "ejError fmt args ep =
     res_bind (fmtValloc E_MAX_ERROR fmt args) (\<lambda>(msg, _).
       case ej_input ep of
         None \<Rightarrow> Inr ep
       | Some ip \<Rightarrow>
           res_bind (line_str ip) (\<lambda>line.
           res_bind (fmtAlloc E_MAX_ERROR (''%s'' @ [LF] @ '' At line %d, line => '' @ [LF, LF] @ ''%s'' @ [LF])
                       [FStr (Some msg), FInt (ip_lineNumber ip), FStr line]) (\<lambda>(err, _).
             Inr (ep\<lparr>ej_error := Some err\<rparr>))))"

section \<open>Characters\<close>

definition to_char :: "int \<Rightarrow> byte" where
  "to_char c = char_of (nat (c mod 256))"

definition code :: "byte \<Rightarrow> int" where
  "code c = int (uchar c)"

definition is_dig :: "int \<Rightarrow> bool" where
  "is_dig c \<longleftrightarrow> 48 \<le> c \<and> c \<le> 57"

definition is_alnum :: "int \<Rightarrow> bool" where
  "is_alnum c \<longleftrightarrow> is_dig c \<or> (65 \<le> c \<and> c \<le> 90) \<or> (97 \<le> c \<and> c \<le> 122)"

text \<open>A store into the buffer of the current line.\<close>

definition line_put :: "int \<Rightarrow> byte \<Rightarrow> ejinput \<Rightarrow> ejinput res" where
  "line_put i c ip =
     (case ip_line ip of
        None \<Rightarrow> Inl OutOfBounds
      | Some b \<Rightarrow> if i < 0 then Inl OutOfBounds
                  else res_bind (put_at b (nat i) [c]) (\<lambda>b. Inr (ip\<lparr>ip_line := Some b\<rparr>)))"

definition grow_line :: "allocator \<Rightarrow> ejinput \<Rightarrow> ejinput" where
  "grow_line mem ip =
     (let n = ip_lineLength ip + int EJ_INC;
          old = (case ip_line ip of None \<Rightarrow> [] | Some b \<Rightarrow> b)
      in ip\<lparr>ip_lineLength := n, ip_line := map_option (\<lambda>b. old @ drop (length old) b) (mem (nat n))\<rparr>)"

definition in_getc :: "allocator \<Rightarrow> ejinput \<Rightarrow> (int \<times> ejinput) res" where
  "in_getc mem ip =
     (if ringqLen (ip_script ip) = 0 then Inr (- 1, ip)
      else
        res_bind (ringqGetc (ip_script ip)) (\<lambda>(c, q).
          (let ip = ip\<lparr>ip_script := q\<rparr> in
           if c = code LF then Inr (c, ip\<lparr>ip_lineNumber := ip_lineNumber ip + 1, ip_lineColumn := 0\<rparr>)
           else
             (let ip = (if ip_lineLength ip \<le> ip_lineColumn ip + 2 then grow_line mem ip else ip) in
              res_bind (line_put (ip_lineColumn ip) (to_char c) ip) (\<lambda>ip.
              res_bind (line_put (ip_lineColumn ip + 1) NUL ip) (\<lambda>ip.
                Inr (c, ip\<lparr>ip_lineColumn := ip_lineColumn ip + 1\<rparr>)))))))"

definition in_putback :: "allocator \<Rightarrow> int \<Rightarrow> ejinput \<Rightarrow> ejinput res" where
  "in_putback mem c ip =
     res_bind (ringqInsertc mem (ip_script ip) (to_char c)) (\<lambda>(r, q).
       (let n = ip_lineColumn ip - 1 in line_put n NUL (ip\<lparr>ip_script := q, ip_lineColumn := n\<rparr>)))"

definition inputGetc :: "allocator \<Rightarrow> 'w ej \<Rightarrow> (int \<times> 'w ej) res" where
  "inputGetc mem ep =
     res_bind (the_input ep) (\<lambda>ip. res_bind (in_getc mem ip) (\<lambda>(c, ip). Inr (c, put_input ip ep)))"

definition inputPutback :: "allocator \<Rightarrow> int \<Rightarrow> 'w ej \<Rightarrow> 'w ej res" where
  "inputPutback mem c ep =
     res_bind (the_input ep) (\<lambda>ip. res_bind (in_putback mem c ip) (\<lambda>ip. Inr (put_input ip ep)))"

text \<open>The token is the C string at the start of its queue.\<close>

definition token_str :: "ringq \<Rightarrow> string res" where
  "token_str q = cstr_at (rq_buf q) (servp q)"

definition tokenAddChar :: "allocator \<Rightarrow> int \<Rightarrow> 'w ej \<Rightarrow> (int \<times> 'w ej) res" where
  "tokenAddChar mem c ep =
     res_bind (the_input ep) (\<lambda>ip.
     res_bind (ringqPutc mem (ip_tokbuf ip) (to_char c)) (\<lambda>(r, q).
       if r < 0 then res_bind (ejError ''Token too big'' [] ep) (\<lambda>ep. Inr (- 1, ep))
       else
         res_bind (ringqAddNull q) (\<lambda>q.
         res_bind (token_str q) (\<lambda>t.
           Inr (0, put_input (ip\<lparr>ip_tokbuf := q\<rparr>) (ep\<lparr>ej_token := t\<rparr>))))))"

fun charConvert :: "allocator \<Rightarrow> int \<Rightarrow> nat \<Rightarrow> int \<Rightarrow> 'w ej \<Rightarrow> (int \<times> 'w ej) res" where
  "charConvert mem base 0 lval ep = Inr (lval, ep)"
| "charConvert mem base (Suc k) lval ep =
     res_bind (inputGetc mem ep) (\<lambda>(c, ep).
       if c < 0 then Inr (lval, ep)
       else
         (let convChar = (if is_dig c then c - 48 else if 97 \<le> c \<and> c \<le> 102 then c - 97 + 10
                          else if 65 \<le> c \<and> c \<le> 70 then c - 65 + 10 else base) in
          if base \<le> convChar then res_bind (inputPutback mem c ep) (\<lambda>ep. Inr (lval, ep))
          else charConvert mem base k (lval * base + convChar) ep))"

section \<open>Tokens\<close>

text \<open>The loops run on fuel: the bytes left in the script bound them.\<close>

definition input_left :: "'w ej \<Rightarrow> nat" where
  "input_left ep = (case ej_input ep of None \<Rightarrow> 0 | Some ip \<Rightarrow> ringqLen (ip_script ip))"

definition syntax_error :: "string \<Rightarrow> 'w ej \<Rightarrow> (tok \<times> 'w ej) res" where
  "syntax_error msg ep = res_bind (ejError msg [] ep) (\<lambda>ep. Inr (TOK_ERR, ep))"

definition add_tok :: "allocator \<Rightarrow> int \<Rightarrow> tok \<Rightarrow> 'w ej \<Rightarrow> (tok \<times> 'w ej) res" where
  "add_tok mem c t ep = res_bind (tokenAddChar mem c ep) (\<lambda>(r, ep). Inr (t, ep))"

definition is_blank :: "int \<Rightarrow> bool" where
  "is_blank c \<longleftrightarrow> c = 32 \<or> c = 9 \<or> c = 13"

text \<open>\<open>do { if ((c = inputGetc(ep)) < 0) break; } while (P c)\<close>\<close>

fun skip_chars :: "allocator \<Rightarrow> (int \<Rightarrow> bool) \<Rightarrow> nat \<Rightarrow> 'w ej \<Rightarrow> (int \<times> 'w ej) res" where
  "skip_chars mem P 0 ep = Inl Blocked"
| "skip_chars mem P (Suc n) ep =
     res_bind (inputGetc mem ep) (\<lambda>(c, ep). if 0 \<le> c \<and> P c then skip_chars mem P n ep else Inr (c, ep))"

text \<open>The rest of a comment; false when the script ends inside it.\<close>

fun skip_comment :: "allocator \<Rightarrow> int \<Rightarrow> nat \<Rightarrow> 'w ej \<Rightarrow> (bool \<times> 'w ej) res" where
  "skip_comment mem style 0 ep = Inl Blocked"
| "skip_comment mem style (Suc n) ep =
     res_bind (inputGetc mem ep) (\<lambda>(c, ep).
       if c < 0 then Inr (False, ep)
       else if c = code LF \<and> style = code (CHR ''/'') then Inr (True, ep)
       else if c = code (CHR ''*'') then
         res_bind (inputGetc mem ep) (\<lambda>(c, ep).
           if style = code (CHR ''/'') then if c = code LF then Inr (True, ep) else skip_comment mem style n ep
           else if c = code (CHR ''/'') then Inr (True, ep) else skip_comment mem style n ep)
       else skip_comment mem style n ep)"

text \<open>The character of an escape sequence, \<open>None\<close> when it is invalid.\<close>

definition escape_char :: "allocator \<Rightarrow> 'w ej \<Rightarrow> (int option \<times> 'w ej) res" where
  "escape_char mem ep =
     res_bind (inputGetc mem ep) (\<lambda>(c, ep).
       if is_dig c then
         res_bind (inputPutback mem c ep) (\<lambda>ep.
         res_bind (charConvert mem 8 3 0 ep) (\<lambda>(v, ep). Inr (Some v, ep)))
       else if c = code (CHR ''n'') then Inr (Some 10, ep)
       else if c = code (CHR ''b'') then Inr (Some 8, ep)
       else if c = code (CHR ''f'') then Inr (Some 12, ep)
       else if c = code (CHR ''r'') then Inr (Some 13, ep)
       else if c = code (CHR ''t'') then Inr (Some 9, ep)
       else if c = code (CHR ''x'') then res_bind (charConvert mem 16 2 0 ep) (\<lambda>(v, ep). Inr (Some v, ep))
       else if c = code (CHR ''u'') then
         res_bind (charConvert mem 16 2 0 ep) (\<lambda>(v, ep).
         res_bind (charConvert mem 16 2 0 ep) (\<lambda>(u, ep). Inr (Some (v * 16 + u), ep)))
       else if c = code (CHR 0x27) \<or> c = code (CHR 0x22) \<or> c = code (CHR 0x5C) then Inr (Some c, ep)
       else Inr (None, ep))"

fun string_loop :: "allocator \<Rightarrow> int \<Rightarrow> nat \<Rightarrow> int \<Rightarrow> 'w ej \<Rightarrow> (tok \<times> 'w ej) res" where
  "string_loop mem quote 0 c ep = Inl Blocked"
| "string_loop mem quote (Suc n) c ep =
     (if c = quote then Inr (TOK_LITERAL, ep)
      else
        res_bind (if c = code (CHR 0x5C) then escape_char mem ep else Inr (Some c, ep)) (\<lambda>(d, ep).
          case d of
            None \<Rightarrow> syntax_error ''Invalid Escape Sequence'' ep
          | Some d \<Rightarrow>
              res_bind (tokenAddChar mem d ep) (\<lambda>(r, ep).
                if r < 0 then Inr (TOK_ERR, ep)
                else
                  res_bind (inputGetc mem ep) (\<lambda>(c, ep).
                    if c < 0 then syntax_error ''Unmatched Quote'' ep else string_loop mem quote n c ep))))"

fun digit_loop :: "allocator \<Rightarrow> nat \<Rightarrow> int \<Rightarrow> 'w ej \<Rightarrow> (tok \<times> 'w ej) res" where
  "digit_loop mem 0 c ep = Inl Blocked"
| "digit_loop mem (Suc n) c ep =
     res_bind (tokenAddChar mem c ep) (\<lambda>(r, ep).
       if r < 0 then Inr (TOK_ERR, ep)
       else
         res_bind (inputGetc mem ep) (\<lambda>(c, ep).
           if 0 \<le> c \<and> is_dig c then digit_loop mem n c ep
           else res_bind (inputPutback mem c ep) (\<lambda>ep. Inr (TOK_LITERAL, ep))))"

text \<open>The characters of an identifier; the result is the character behind it.\<close>

fun ident_loop :: "allocator \<Rightarrow> nat \<Rightarrow> int \<Rightarrow> 'w ej \<Rightarrow> (int \<times> 'w ej) res" where
  "ident_loop mem 0 c ep = Inl Blocked"
| "ident_loop mem (Suc n) c ep =
     res_bind (if c = code (CHR 0x5C) then Inr (0, ep) else tokenAddChar mem c ep) (\<lambda>(r, ep).
       if r < 0 then Inr (c, ep)
       else
         res_bind (inputGetc mem ep) (\<lambda>(c, ep).
           if c < 0 \<or> \<not> is_alnum c \<and> c \<noteq> code (CHR ''$'') \<and> c \<noteq> code (CHR ''_'') \<and> c \<noteq> code (CHR 0x5C) then Inr (c, ep)
           else ident_loop mem n c ep))"

text \<open>The first character of the token, read from its queue.\<close>

definition ident_start :: "ejinput \<Rightarrow> bool res" where
  "ident_start ip =
     (let q = ip_tokbuf ip in
      if buflen q \<le> servp q then Inl OutOfBounds
      else (let c = rq_buf q ! servp q in Inr (gisalpha c \<or> c = CHR ''$'' \<or> c = CHR ''_'')))"

definition lex_identifier :: "allocator \<Rightarrow> pstate \<Rightarrow> int \<Rightarrow> 'w ej \<Rightarrow> (tok \<times> 'w ej) res" where
  "lex_identifier mem state c ep =
     res_bind (ident_loop mem (Suc (input_left ep)) c ep) (\<lambda>(c, ep).
     res_bind (the_input ep) (\<lambda>ip.
     res_bind (ident_start ip) (\<lambda>good.
       if \<not> good then
         res_bind (token_str (ip_tokbuf ip)) (\<lambda>t.
         res_bind (ejError ''Invalid identifier %s'' [FStr (Some t)] ep) (\<lambda>ep. Inr (TOK_ERR, ep)))
       else if state = STATE_STMT \<and> ej_token ep = ''if'' then Inr (TOK_IF, ep)
       else if state = STATE_STMT \<and> ej_token ep = ''else'' then Inr (TOK_ELSE, ep)
       else if state = STATE_STMT \<and> ej_token ep = ''var'' then Inr (TOK_VAR, ep)
       else if state = STATE_STMT \<and> ej_token ep = ''for'' then Inr (TOK_FOR, ep)
       else if state = STATE_STMT \<and> ej_token ep = ''return'' then
         res_bind (if c = code (CHR '';'') \<or> c = code (CHR ''('') then inputPutback mem c ep else Inr ep) (\<lambda>ep.
           Inr (TOK_RETURN, ep))
       else
         res_bind (if is_blank c \<or> c = code LF
                   then skip_chars mem (\<lambda>c. is_blank c \<or> c = code LF) (Suc (input_left ep)) ep else Inr (c, ep)) (\<lambda>(c, ep).
         res_bind (inputPutback mem c ep) (\<lambda>ep.
           Inr (if c = code (CHR ''('') then TOK_FUNCTION else TOK_ID, ep))))))"

text \<open>The operators that may have a second character.\<close>

definition lex_double :: "allocator \<Rightarrow> int \<Rightarrow> 'w ej \<Rightarrow> (tok \<times> 'w ej) res" where
  "lex_double mem first ep =
     res_bind (inputGetc mem ep) (\<lambda>(c, ep).
       if c < 0 then syntax_error ''Syntax Error'' ep
       else if first = code (CHR ''+'') then
         if c \<noteq> code (CHR ''+'') then res_bind (inputPutback mem c ep) (add_tok mem EXPR_PLUS TOK_EXPR)
         else add_tok mem EXPR_INC TOK_INC_DEC ep
       else if first = code (CHR ''-'') then
         if c \<noteq> code (CHR ''-'') then res_bind (inputPutback mem c ep) (add_tok mem EXPR_MINUS TOK_EXPR)
         else add_tok mem EXPR_DEC TOK_INC_DEC ep
       else if first = code (CHR ''<'') then
         if c = code (CHR ''<'') then add_tok mem EXPR_LSHIFT TOK_EXPR ep
         else if c = code (CHR ''='') then add_tok mem EXPR_LESSEQ TOK_EXPR ep
         else res_bind (tokenAddChar mem EXPR_LESS ep) (\<lambda>(r, ep). res_bind (inputPutback mem c ep) (\<lambda>ep. Inr (TOK_EXPR, ep)))
       else if first = code (CHR ''>'') then
         if c = code (CHR ''>'') then add_tok mem EXPR_RSHIFT TOK_EXPR ep
         else if c = code (CHR ''='') then add_tok mem EXPR_GREATEREQ TOK_EXPR ep
         else res_bind (tokenAddChar mem EXPR_GREATER ep) (\<lambda>(r, ep). res_bind (inputPutback mem c ep) (\<lambda>ep. Inr (TOK_EXPR, ep)))
       else if first = code (CHR ''='') then
         if c = code (CHR ''='') then add_tok mem EXPR_EQ TOK_EXPR ep
         else res_bind (inputPutback mem c ep) (\<lambda>ep. Inr (TOK_ASSIGNMENT, ep))
       else if first = code (CHR ''!'') then
         if c = code (CHR ''='') then add_tok mem EXPR_NOTEQ TOK_EXPR ep
         else res_bind (inputPutback mem c ep) (add_tok mem EXPR_BOOL_COMP TOK_EXPR)
       else if first = code (CHR ''|'') then
         if c \<noteq> code (CHR ''|'') then syntax_error ''Syntax Error'' ep else add_tok mem COND_OR TOK_LOGICAL ep
       else
         if c \<noteq> code (CHR ''&'') then syntax_error ''Syntax Error'' ep else add_tok mem COND_AND TOK_LOGICAL ep)"

definition is_double :: "int \<Rightarrow> bool" where
  "is_double c \<longleftrightarrow> c \<in> code ` set ''+-<>=!|&''"

text \<open>The switch over the first character; white space and comments go round.\<close>

fun lex_loop :: "allocator \<Rightarrow> nat \<Rightarrow> pstate \<Rightarrow> int \<Rightarrow> 'w ej \<Rightarrow> (tok \<times> 'w ej) res" where
  "lex_loop mem 0 state c ep = Inl Blocked"
| "lex_loop mem (Suc n) state c ep =
     (if c = - 1 then Inr (TOK_EOF, ep)
      else if is_blank c then
        res_bind (skip_chars mem is_blank (Suc (input_left ep)) ep) (\<lambda>(c, ep). lex_loop mem n state c ep)
      else if c = code LF then Inr (TOK_NEWLINE, ep)
      else if c = code (CHR ''('') then add_tok mem c TOK_LPAREN ep
      else if c = code (CHR '')'') then add_tok mem c TOK_RPAREN ep
      else if c = code (CHR ''{'') then add_tok mem c TOK_LBRACE ep
      else if c = code (CHR ''}'') then add_tok mem c TOK_RBRACE ep
      else if is_double c then lex_double mem c ep
      else if c = code (CHR ''*'') then add_tok mem EXPR_MUL TOK_EXPR ep
      else if c = code (CHR ''%'') then add_tok mem EXPR_MOD TOK_EXPR ep
      else if c = code (CHR ''/'') then
        res_bind (inputGetc mem ep) (\<lambda>(c, ep).
          if c < 0 then syntax_error ''Syntax Error'' ep
          else if c \<noteq> code (CHR ''*'') \<and> c \<noteq> code (CHR ''/'') then
            res_bind (inputPutback mem c ep) (add_tok mem EXPR_DIV TOK_EXPR)
          else
            res_bind (skip_comment mem c (Suc (input_left ep)) ep) (\<lambda>(closed, ep).
              if \<not> closed then syntax_error ''Syntax Error'' ep
              else
                res_bind (inputGetc mem ep) (\<lambda>(c, ep).
                  if c < 0 then Inr (TOK_EOF, ep) else lex_loop mem n state c ep)))
      else if c = code (CHR '';'') then add_tok mem c TOK_SEMI ep
      else if c = code (CHR '','') then add_tok mem c TOK_COMMA ep
      else if c = code (CHR 0x22) \<or> c = code (CHR 0x27) then
        res_bind (inputGetc mem ep) (\<lambda>(d, ep).
          if d < 0 then syntax_error ''Syntax Error'' ep else string_loop mem c (Suc (Suc (input_left ep))) d ep)
      else if is_dig c then digit_loop mem (Suc (input_left ep)) c ep
      else lex_identifier mem state c ep)"

definition getLexicalToken :: "allocator \<Rightarrow> pstate \<Rightarrow> 'w ej \<Rightarrow> (tok \<times> 'w ej) res" where
  "getLexicalToken mem state ep =
     res_bind (the_input ep) (\<lambda>ip.
     res_bind (ringqFlush (ip_tokbuf ip)) (\<lambda>q.
       (let ep = ep\<lparr>ej_tid := TOK_ERR, ej_token := []\<rparr>; ip = ip\<lparr>ip_tokbuf := q\<rparr> in
        case ip_putBackTokenId ip of
          Some t \<Rightarrow>
            if t \<noteq> TOK_ERR then
              (case ip_putBackToken ip of
                 None \<Rightarrow> Inl OutOfBounds
               | Some str \<Rightarrow>
                   res_bind (ringqPutStr mem q str) (\<lambda>(r, q).
                   res_bind (token_str q) (\<lambda>txt.
                     Inr (t, put_input (ip\<lparr>ip_tokbuf := q, ip_putBackTokenId := None\<rparr>) (ep\<lparr>ej_token := txt\<rparr>)))))
            else
              res_bind (inputGetc mem (put_input ip ep)) (\<lambda>(c, ep).
                if c < 0 then Inr (TOK_EOF, ep) else lex_loop mem (Suc (Suc (input_left ep))) state c ep)
        | None \<Rightarrow>
            res_bind (inputGetc mem (put_input ip ep)) (\<lambda>(c, ep).
              if c < 0 then Inr (TOK_EOF, ep) else lex_loop mem (Suc (Suc (input_left ep))) state c ep))))"

definition ejLexGetToken :: "allocator \<Rightarrow> pstate \<Rightarrow> 'w ej \<Rightarrow> (tok \<times> 'w ej) res" where
  "ejLexGetToken mem state ep = res_bind (getLexicalToken mem state ep) (\<lambda>(t, ep). Inr (t, ep\<lparr>ej_tid := t\<rparr>))"

definition ejLexPutbackToken :: "tok \<Rightarrow> string \<Rightarrow> 'w ej \<Rightarrow> 'w ej res" where
  "ejLexPutbackToken t str ep =
     res_bind (the_input ep) (\<lambda>ip.
       Inr (put_input (ip\<lparr>ip_putBackTokenId := Some t, ip_putBackToken := Some str\<rparr>) ep))"

section \<open>Scripts and input states\<close>

text \<open>\<open>blk\<close>: the block of the input state is allocated.  The queues of a state whose buffers could not
  be allocated are null: every use is a fault.\<close>

definition no_queue :: ringq where
  "no_queue = \<lparr>rq_buf = [], servp = 0, endp = 0, maxsize = 0, increment = 0\<rparr>"

definition new_input :: ejinput where
  "new_input = \<lparr>ip_tokbuf = no_queue, ip_script = no_queue, ip_putBackToken = None, ip_putBackTokenId = None,
     ip_line = None, ip_lineLength = 0, ip_lineNumber = 0, ip_lineColumn = 0\<rparr>"

definition ejLexOpenScript :: "allocator \<Rightarrow> bool \<Rightarrow> string \<Rightarrow> 'w ej \<Rightarrow> (int \<times> 'w ej) res" where
  "ejLexOpenScript mem blk script ep =
     (if \<not> blk then Inr (- 1, ep\<lparr>ej_input := None\<rparr>)
      else
        res_bind (ringqOpen mem EJ_INC (- 1)) (\<lambda>t.
        case t of
          None \<Rightarrow> Inr (- 1, put_input new_input ep)
        | Some t \<Rightarrow>
            res_bind (ringqOpen mem EJ_SCRIPT_INC (- 1)) (\<lambda>q.
            case q of
              None \<Rightarrow> Inr (- 1, put_input (new_input\<lparr>ip_tokbuf := t\<rparr>) ep)
            | Some q \<Rightarrow>
                res_bind (ringqPutStr mem q script) (\<lambda>(r, q).
                  Inr (0, put_input (new_input\<lparr>ip_tokbuf := t, ip_script := q, ip_lineNumber := 1\<rparr>) ep)))))"

definition ejLexCloseScript :: "'w ej \<Rightarrow> 'w ej res" where
  "ejLexCloseScript ep = res_bind (the_input ep) (\<lambda>ip. Inr (ep\<lparr>ej_input := None\<rparr>))"

definition ejLexSaveInputState :: "'w ej \<Rightarrow> ejinput res" where
  "ejLexSaveInputState ep = the_input ep"

text \<open>The queue \<open>now\<close> with the positions of \<open>old\<close>: the two share a buffer, unless it grew.\<close>

definition rewind :: "ringq \<Rightarrow> ringq \<Rightarrow> ringq res" where
  "rewind now old = (if buflen now = buflen old then Inr (old\<lparr>rq_buf := rq_buf now\<rparr>) else Inl OutOfBounds)"

definition ejLexRestoreInputState :: "ejinput \<Rightarrow> 'w ej \<Rightarrow> 'w ej res" where
  "ejLexRestoreInputState st ep =
     res_bind (the_input ep) (\<lambda>ip.
     res_bind (rewind (ip_tokbuf ip) (ip_tokbuf st)) (\<lambda>t.
     res_bind (rewind (ip_script ip) (ip_script st)) (\<lambda>q.
       if ip_putBackToken st = None \<and> ip_putBackToken ip \<noteq> None then Inl OutOfBounds
       else
         Inr (put_input (ip\<lparr>ip_tokbuf := t, ip_script := q, ip_putBackTokenId := ip_putBackTokenId st,
                            ip_putBackToken := ip_putBackToken st\<rparr>) ep))))"

definition ejLexFreeInputState :: "ejinput \<Rightarrow> ejinput" where
  "ejLexFreeInputState st = st\<lparr>ip_putBackToken := None\<rparr>"

end
