(* ===== verification/Ejlex_Laws.thy ===== *)
theory Ejlex_Laws
  imports Ejlex Misc Webs_Laws
begin

text \<open>
  The lexical analyser on its state: which texts are which tokens, that it always ends and stays inside
  its buffers on scripts of one line, and that it does not on others.
\<close>

section \<open>The state\<close>

lemma to_char_code [simp]: "to_char (code c) = c"
  by (simp add: to_char_def code_def uchar_def)

lemma code_bounds [simp]: "0 \<le> code c" "code c < 256" "code c \<noteq> - 1" "- 1 \<noteq> code c"
  using uchar_less [of c] by (simp_all add: code_def)

lemma code_inject [simp]: "code c = code d \<longleftrightarrow> c = d"
  by (simp add: code_def)

lemma code_not_neg [simp]: "\<not> code c < 0"
  by (simp add: code_def)

definition tok_ok :: "ringq \<Rightarrow> bool" where
  "tok_ok q \<longleftrightarrow> rq_ok q \<and> servp q = 0 \<and> rq_buf q ! endp q = NUL \<and> maxsize q < 0"

definition line_ok :: "ejinput \<Rightarrow> bool" where
  "line_ok ip \<longleftrightarrow> 0 \<le> ip_lineColumn ip \<and> 0 \<le> ip_lineNumber ip \<and> ip_lineNumber ip < 0x80000000 \<and>
     (case ip_line ip of
        None \<Rightarrow> ip_lineLength ip = 0 \<and> ip_lineColumn ip = 0
      | Some b \<Rightarrow> int (length b) = ip_lineLength ip \<and> ip_lineColumn ip < ip_lineLength ip \<and> NUL \<in> set b)"

definition in_ok :: "ejinput \<Rightarrow> bool" where
  "in_ok ip \<longleftrightarrow> rq_ok (ip_script ip) \<and> maxsize (ip_script ip) < 0 \<and> tok_ok (ip_tokbuf ip) \<and> line_ok ip"

type_synonym pending = "tok option \<times> string option"

text \<open>\<open>lexing ep cs k ts p\<close>: the script left is \<open>cs\<close>, the column \<open>k\<close>, the bytes of the token \<open>ts\<close>, and \<open>p\<close> the
  token put back.\<close>

definition lexing :: "'w ej \<Rightarrow> byte list \<Rightarrow> int \<Rightarrow> byte list \<Rightarrow> pending \<Rightarrow> bool" where
  "lexing ep cs k ts p \<longleftrightarrow> (\<exists>ip. ej_input ep = Some ip \<and> in_ok ip \<and> contents (ip_script ip) = cs \<and> ip_lineColumn ip = k
     \<and> contents (ip_tokbuf ip) = ts \<and> (ip_putBackTokenId ip, ip_putBackToken ip) = p)"

text \<open>What reading tokens leaves alone.\<close>

definition engine :: "'w ej \<Rightarrow> 'w ej" where
  "engine ep = ep\<lparr>ej_input := None, ej_token := [], ej_tid := TOK_ERR, ej_error := None\<rparr>"

lemma engine_simps [simp]:
  "engine (put_input ip ep) = engine ep" "engine (ep\<lparr>ej_token := t\<rparr>) = engine ep" "engine (ep\<lparr>ej_tid := i\<rparr>) = engine ep"
  "engine (ep\<lparr>ej_error := e\<rparr>) = engine ep" "engine (ep\<lparr>ej_input := j\<rparr>) = engine ep"
  by (simp_all add: engine_def put_input_def)

lemma lexing_put_input [simp]:
  "lexing (put_input ip ep) cs k ts p \<longleftrightarrow> in_ok ip \<and> contents (ip_script ip) = cs \<and> ip_lineColumn ip = k
     \<and> contents (ip_tokbuf ip) = ts \<and> (ip_putBackTokenId ip, ip_putBackToken ip) = p"
  by (simp add: lexing_def put_input_def)

lemma lexing_other [simp]:
  "lexing (ep\<lparr>ej_token := t\<rparr>) cs k ts p = lexing ep cs k ts p" "lexing (ep\<lparr>ej_tid := i\<rparr>) cs k ts p = lexing ep cs k ts p"
  "lexing (ep\<lparr>ej_error := e\<rparr>) cs k ts p = lexing ep cs k ts p" "lexing (ep\<lparr>ej_result := r\<rparr>) cs k ts p = lexing ep cs k ts p"
  by (simp_all add: lexing_def)

lemma put_input_sel [simp]: "ej_token (put_input ip ep) = ej_token ep" "ej_input (put_input ip ep) = Some ip"
  "ej_error (put_input ip ep) = ej_error ep" "ej_result (put_input ip ep) = ej_result ep"
  by (simp_all add: put_input_def)

lemma lexing_col: "lexing ep cs k ts p \<Longrightarrow> 0 \<le> k"
  by (auto simp: lexing_def in_ok_def line_ok_def)

lemma lexing_left: "lexing ep cs k ts p \<Longrightarrow> input_left ep = length cs"
  by (auto simp: lexing_def input_left_def in_ok_def length_contents)

section \<open>Queues that grow\<close>

lemma make_room_total:
  assumes "rq_ok rq" and "mem_total mem" and "maxsize rq < 0"
  shows "\<exists>rq'. make_room mem rq = Inr (Some rq') \<and> rq_ok rq' \<and> contents rq' = contents rq \<and> 1 \<le> ringqPutBlkMax rq'
    \<and> maxsize rq' = maxsize rq \<and> (servp rq = 0 \<longrightarrow> servp rq' = 0)"
proof (cases "ringqPutBlkMax rq < 1")
  case False
  then show ?thesis using assms by (simp add: make_room_def)
next
  case True
  have m: "alloc_ok mem" "mem (buflen rq + increment rq) \<noteq> None" using assms(2) by (simp_all add: mem_total_def)
  obtain g where g: "ringqGrow mem rq = Inr g" "case g of None \<Rightarrow> (0 \<le> maxsize rq \<and> maxsize rq \<le> int (buflen rq)) \<or> mem (buflen rq + increment rq) = None
      | Some rq' \<Rightarrow> maxsize rq' = maxsize rq"
    using ringqGrow_ok [OF assms(1) m(1)] by (auto split: option.splits)
  then obtain rq' where "g = Some rq'" using assms(3) m(2) by (cases g) auto
  then show ?thesis using make_room_ok [OF assms(1) m(1)] g True by (auto simp: make_room_def)
qed

lemma ringqInsertc_total:
  assumes "rq_ok rq" and "mem_total mem" and "maxsize rq < 0"
  shows "\<exists>rq'. ringqInsertc mem rq c = Inr (0, rq') \<and> rq_ok rq' \<and> contents rq' = c # contents rq \<and> maxsize rq' < 0"
proof -
  obtain rq1 where r: "make_room mem rq = Inr (Some rq1)" "rq_ok rq1" "contents rq1 = contents rq" "1 \<le> ringqPutBlkMax rq1" "maxsize rq1 = maxsize rq"
    using make_room_total [OF assms] by blast
  from ringqInsertc_run [OF r(2,4), of c] r assms(3) show ?thesis by (auto simp: ringqInsertc_def Let_def)
qed

lemma ringqPutc_total:
  assumes "tok_ok rq" and "mem_total mem"
  shows "\<exists>rq' rq''. ringqPutc mem rq c = Inr (0, rq') \<and> ringqAddNull rq' = Inr rq'' \<and> tok_ok rq'' \<and> contents rq'' = contents rq @ [c]"
proof -
  have ok: "rq_ok rq" "maxsize rq < 0" "servp rq = 0" using assms(1) by (simp_all add: tok_ok_def)
  obtain rq1 where r: "make_room mem rq = Inr (Some rq1)" "rq_ok rq1" "contents rq1 = contents rq" "1 \<le> ringqPutBlkMax rq1"
    "maxsize rq1 = maxsize rq" "servp rq1 = 0"
    using make_room_total [OF ok(1) assms(2) ok(2)] ok(3) by blast
  obtain rq2 where p: "put_run rq1 [c] = Inr rq2" "rq_ok rq2" "contents rq2 = contents rq1 @ [c]" "maxsize rq2 = maxsize rq1"
    using put_run_ok [OF r(2), of "[c]"] r(4) by auto
  have s: "servp rq2 = 0" using put_run_servp [OF p(1)] r(6) by simp
  obtain rq3 where "ringqAddNull rq2 = Inr rq3" "rq_ok rq3" "contents rq3 = contents rq2" "servp rq3 = servp rq2" "maxsize rq3 = maxsize rq2"
    "rq_buf rq3 ! endp rq3 = NUL" using add_null_ok [OF p(2)] by blast
  then show ?thesis using r p s ok(2) by (auto simp: ringqPutc_def tok_ok_def)
qed

definition cstr_part :: "byte list \<Rightarrow> string" where
  "cstr_part ts = takeWhile (\<lambda>c. c \<noteq> NUL) ts"

lemma cstr_part_cstr [simp]: "is_cstr (cstr_part ts)"
  by (auto simp: cstr_part_def is_cstr_def dest: set_takeWhileD)

lemma cstr_part_id [simp]: "is_cstr ts \<Longrightarrow> cstr_part ts = ts"
  by (auto simp: cstr_part_def is_cstr_def takeWhile_eq_all_conv)

lemma token_str_ok:
  assumes "tok_ok q"
  shows "token_str q = Inr (cstr_part (contents q))"
proof -
  have e: "endp q < buflen q" "contents q = take (endp q) (rq_buf q)" "servp q = 0"
    using assms by (simp_all add: tok_ok_def rq_ok_def contents_def get_slice_def)
  let ?t = "contents q" and ?r = "drop (Suc (endp q)) (rq_buf q)"
  have b: "rq_buf q = ?t @ NUL # ?r" using assms e id_take_nth_drop [OF e(1)] by (metis tok_ok_def)
  have "\<exists>rest. ?t @ NUL # ?r = cstr_part ?t @ NUL # rest"
  proof (cases "is_cstr ?t")
    case True
    then show ?thesis by simp
  next
    case False
    then have "dropWhile (\<lambda>c. c \<noteq> NUL) ?t \<noteq> []" by (auto simp: is_cstr_def)
    then obtain y ys where y: "dropWhile (\<lambda>c. c \<noteq> NUL) ?t = y # ys" by (cases "dropWhile (\<lambda>c. c \<noteq> NUL) ?t") auto
    then have "y = NUL" using hd_dropWhile [of "\<lambda>c. c \<noteq> NUL" ?t] by simp
    then have "?t = cstr_part ?t @ NUL # ys" using y takeWhile_dropWhile_id [of "\<lambda>c. c \<noteq> NUL" ?t] by (simp add: cstr_part_def)
    then have "?t @ NUL # ?r = (cstr_part ?t @ NUL # ys) @ NUL # ?r" by (rule arg_cong)
    then show ?thesis by (intro exI [of _ "ys @ NUL # ?r"]) simp
  qed
  then obtain rest where "rq_buf q = cstr_part ?t @ NUL # rest" using b by metis
  then show ?thesis using e(3) by (simp add: token_str_def cstr_at_eq)
qed

section \<open>Single characters\<close>

lemma inputGetc_end: "lexing ep [] k ts p \<Longrightarrow> inputGetc mem ep = Inr (- 1, ep)"
proof -
  assume "lexing ep [] k ts p"
  then obtain ip where ip: "ej_input ep = Some ip" "in_ok ip" "contents (ip_script ip) = []" by (auto simp: lexing_def)
  then have "ringqLen (ip_script ip) = 0" using length_contents [of "ip_script ip"] by (simp add: in_ok_def)
  then show ?thesis using ip(1) by (simp add: inputGetc_def the_input_def in_getc_def put_input_def)
qed

lemma line_put_ok: "ip_line ip = Some b \<Longrightarrow> 0 \<le> i \<Longrightarrow> i < int (length b) \<Longrightarrow>
    line_put i c ip = Inr (ip\<lparr>ip_line := Some (b[nat i := c])\<rparr>)"
  by (simp add: line_put_def put_at_def put_slice_def upd_conv_take_nth_drop)

lemma grow_line_ok:
  assumes "line_ok ip" and "mem_total mem" and "ip_lineLength ip \<le> ip_lineColumn ip + 2"
  shows "\<exists>b. ip_line (grow_line mem ip) = Some b \<and> ip_lineColumn ip + 1 < int (length b) \<and> ip_lineLength (grow_line mem ip) = int (length b)"
proof -
  let ?n = "ip_lineLength ip + int EJ_INC"
  have n: "0 \<le> ip_lineLength ip" "ip_lineColumn ip \<le> ip_lineLength ip" using assms(1) by (auto simp: line_ok_def split: option.splits)
  have m: "mem (nat ?n) \<noteq> None" "alloc_ok mem" using assms(2) by (simp_all add: mem_total_def)
  then obtain b where b: "mem (nat ?n) = Some b" "length b = nat ?n" by (auto simp: alloc_ok_def)
  let ?old = "case ip_line ip of None \<Rightarrow> [] | Some b \<Rightarrow> b"
  have o: "int (length ?old) = ip_lineLength ip" using assms(1) by (auto simp: line_ok_def split: option.splits)
  have "length (?old @ drop (length ?old) b) = nat ?n" using b(2) o n(1) by (simp add: EJ_INC_def)
  then show ?thesis using b(1) n by (simp add: grow_line_def Let_def EJ_INC_def)
qed

lemma grow_line_frame [simp]: "ip_script (grow_line mem ip) = ip_script ip" "ip_tokbuf (grow_line mem ip) = ip_tokbuf ip"
  "ip_lineColumn (grow_line mem ip) = ip_lineColumn ip" "ip_lineNumber (grow_line mem ip) = ip_lineNumber ip"
  "ip_putBackToken (grow_line mem ip) = ip_putBackToken ip" "ip_putBackTokenId (grow_line mem ip) = ip_putBackTokenId ip"
  by (simp_all add: grow_line_def Let_def)

lemma in_getc_char:
  assumes ok: "in_ok ip" and m: "mem_total mem" and cs: "contents (ip_script ip) = c # cs" and c: "c \<noteq> LF"
  shows "\<exists>q b. in_getc mem ip = Inr (code c, ip\<lparr>ip_script := q, ip_line := Some b, ip_lineLength := int (length b), ip_lineColumn := ip_lineColumn ip + 1\<rparr>)
    \<and> rq_ok q \<and> contents q = cs \<and> maxsize q < 0 \<and> ip_lineColumn ip + 1 < int (length b) \<and> NUL \<in> set b"
proof -
  obtain q where q: "ringqGetc (ip_script ip) = Inr (code c, q)" "rq_ok q" "contents q = cs"
    using ringqGetc_ok [of "ip_script ip"] ok cs by (auto simp: in_ok_def code_def)
  have mq: "maxsize q < 0" using q(1) ok by (auto simp: ringqGetc_def in_ok_def split: if_splits)
  have n: "ringqLen (ip_script ip) \<noteq> 0" using length_contents [of "ip_script ip"] ok cs by (simp add: in_ok_def)
  let ?k = "ip_lineColumn ip"
  define ip1 where "ip1 = (if ip_lineLength ip \<le> ?k + 2 then grow_line mem (ip\<lparr>ip_script := q\<rparr>) else ip\<lparr>ip_script := q\<rparr>)"
  have lo: "line_ok (ip\<lparr>ip_script := q\<rparr>)" "0 \<le> ?k" using ok by (auto simp: in_ok_def line_ok_def split: option.splits)
  obtain b where b: "ip_line ip1 = Some b" "?k + 1 < int (length b)" "ip_lineLength ip1 = int (length b)"
  proof (cases "ip_lineLength ip \<le> ?k + 2")
    case True
    then show ?thesis using that grow_line_ok [OF lo(1) m] by (auto simp: ip1_def)
  next
    case False
    then show ?thesis using that lo by (auto simp: ip1_def line_ok_def split: option.splits)
  qed
  have f: "ip1 = ip\<lparr>ip_script := q, ip_line := Some b, ip_lineLength := int (length b)\<rparr>"
    using b(1,3) by (auto simp: ip1_def grow_line_def Let_def split: if_splits)
  let ?b = "b[nat ?k := c, nat (?k + 1) := NUL]"
  have "in_getc mem ip = Inr (code c, ip\<lparr>ip_script := q, ip_line := Some ?b, ip_lineLength := int (length ?b), ip_lineColumn := ?k + 1\<rparr>)"
    using n q(1) c b lo(2) unfolding in_getc_def
    by (simp add: Let_def ip1_def [symmetric] f line_put_ok)
  moreover have "NUL \<in> set ?b" using b(2) lo(2) by (intro set_update_memI) simp
  ultimately show ?thesis using q(2,3) mq b(2) by (intro exI [of _ q] exI [of _ ?b]) simp
qed

lemma inputGetc_char:
  assumes "lexing ep (c # cs) k ts p" and "mem_total mem" and "c \<noteq> LF"
  shows "\<exists>ep'. inputGetc mem ep = Inr (code c, ep') \<and> lexing ep' cs (k + 1) ts p \<and> engine ep' = engine ep \<and> ej_token ep' = ej_token ep"
proof -
  obtain ip where ip: "ej_input ep = Some ip" "in_ok ip" "contents (ip_script ip) = c # cs" "ip_lineColumn ip = k"
    "contents (ip_tokbuf ip) = ts" "(ip_putBackTokenId ip, ip_putBackToken ip) = p" using assms(1) by (auto simp: lexing_def)
  obtain q b where g: "in_getc mem ip = Inr (code c, ip\<lparr>ip_script := q, ip_line := Some b, ip_lineLength := int (length b), ip_lineColumn := k + 1\<rparr>)"
    "rq_ok q" "contents q = cs" "maxsize q < 0" "k + 1 < int (length b)" "NUL \<in> set b"
    using in_getc_char [OF ip(2) assms(2) ip(3) assms(3)] unfolding ip(4) by blast
  let ?ip = "ip\<lparr>ip_script := q, ip_line := Some b, ip_lineLength := int (length b), ip_lineColumn := k + 1\<rparr>"
  have "in_ok ?ip" using ip(2,4) g(2,4-6) unfolding in_ok_def line_ok_def by simp
  then have "lexing (put_input ?ip ep) cs (k + 1) ts p" using g(3) ip by simp
  moreover have "inputGetc mem ep = Inr (code c, put_input ?ip ep)" using ip(1) g(1) by (simp add: inputGetc_def the_input_def)
  ultimately show ?thesis by (intro exI [of _ "put_input ?ip ep"]) simp
qed

lemma inputPutback_ok:
  assumes "lexing ep cs k ts p" and "mem_total mem" and "0 < k"
  shows "\<exists>ep'. inputPutback mem c ep = Inr ep' \<and> lexing ep' (to_char c # cs) (k - 1) ts p \<and> engine ep' = engine ep \<and> ej_token ep' = ej_token ep"
proof -
  obtain ip where ip: "ej_input ep = Some ip" "in_ok ip" "contents (ip_script ip) = cs" "ip_lineColumn ip = k"
    "contents (ip_tokbuf ip) = ts" "(ip_putBackTokenId ip, ip_putBackToken ip) = p" using assms(1) by (auto simp: lexing_def)
  obtain q where q: "ringqInsertc mem (ip_script ip) (to_char c) = Inr (0, q)" "rq_ok q" "contents q = to_char c # contents (ip_script ip)" "maxsize q < 0"
    using ringqInsertc_total [OF _ assms(2)] ip(2) by (fastforce simp: in_ok_def)
  obtain b where b: "ip_line ip = Some b" "k < int (length b)" "int (length b) = ip_lineLength ip"
    using ip(2,4) assms(3) by (auto simp: in_ok_def line_ok_def split: option.splits)
  let ?ip = "ip\<lparr>ip_script := q, ip_lineColumn := k - 1, ip_line := Some (b[nat (k - 1) := NUL])\<rparr>"
  have "in_putback mem c ip = Inr ?ip" using q(1) b ip(4) assms(3) by (simp add: in_putback_def Let_def line_put_ok)
  then have "inputPutback mem c ep = Inr (put_input ?ip ep)" using ip(1) by (simp add: inputPutback_def the_input_def)
  moreover have "NUL \<in> set (b[nat (k - 1) := NUL])" using b(2) assms(3) by (intro set_update_memI) simp
  then have "in_ok ?ip" using ip(2,4) q(2,4) b assms(3) by (auto simp: in_ok_def line_ok_def)
  ultimately show ?thesis using ip q(3) by (intro exI [of _ "put_input ?ip ep"]) simp
qed

lemma tokenAddChar_ok:
  assumes "lexing ep cs k ts p" and "mem_total mem"
  shows "\<exists>ep'. tokenAddChar mem c ep = Inr (0, ep') \<and> lexing ep' cs k (ts @ [to_char c]) p \<and> engine ep' = engine ep
    \<and> ej_token ep' = cstr_part (ts @ [to_char c])"
proof -
  obtain ip where ip: "ej_input ep = Some ip" "in_ok ip" "contents (ip_script ip) = cs" "ip_lineColumn ip = k"
    "contents (ip_tokbuf ip) = ts" "(ip_putBackTokenId ip, ip_putBackToken ip) = p" using assms(1) by (auto simp: lexing_def)
  obtain q1 q where q: "ringqPutc mem (ip_tokbuf ip) (to_char c) = Inr (0, q1)" "ringqAddNull q1 = Inr q" "tok_ok q"
    "contents q = contents (ip_tokbuf ip) @ [to_char c]"
    using ringqPutc_total [OF _ assms(2), of "ip_tokbuf ip" "to_char c"] ip(2) by (auto simp: in_ok_def)
  let ?ep = "put_input (ip\<lparr>ip_tokbuf := q\<rparr>) (ep\<lparr>ej_token := cstr_part (ts @ [to_char c])\<rparr>)"
  have "tokenAddChar mem c ep = Inr (0, ?ep)"
    using ip(1,5) q(1,2,4) token_str_ok [OF q(3)] by (simp add: tokenAddChar_def the_input_def)
  moreover have "in_ok (ip\<lparr>ip_tokbuf := q\<rparr>)" using ip(2) q(3) by (simp add: in_ok_def line_ok_def split: option.splits)
  ultimately show ?thesis using ip q(4) by (intro exI [of _ ?ep]) simp
qed

lemma strchr_NUL_found: "NUL \<in> set b \<Longrightarrow> \<exists>k. strchr b NUL = Found k"
proof (induction b)
  case (Cons x xs)
  then show ?case by (cases "x = NUL") auto
qed simp

lemma line_str_ok:
  assumes "in_ok ip" and "ip_line ip = Some b"
  shows "\<exists>l. line_str ip = Inr (Some l) \<and> is_cstr l"
proof -
  have n: "NUL \<in> set b" using assms by (simp add: in_ok_def line_ok_def)
  then obtain k where k: "strchr b NUL = Found k" using strchr_NUL_found by blast
  then have "is_cstr (take k b)" using strchr_FoundD by blast
  then show ?thesis using assms(2) k by (simp add: line_str_def cstr_at_def)
qed

lemma ejError_ok:
  assumes l: "lexing ep cs k ts p" and k: "0 < k" and m: "render fmt args = Some t" "args_ok args" "is_cstr fmt"
  shows "\<exists>ep'. ejError fmt args ep = Inr ep' \<and> lexing ep' cs k ts p \<and> engine ep' = engine ep \<and> ej_token ep' = ej_token ep \<and> ej_error ep' \<noteq> None"
proof -
  obtain ip where ip: "ej_input ep = Some ip" "in_ok ip" "ip_lineColumn ip = k" using l by (auto simp: lexing_def)
  then obtain b where b: "ip_line ip = Some b" using k by (auto simp: in_ok_def line_ok_def split: option.splits)
  obtain l where l2: "line_str ip = Inr (Some l)" "is_cstr l" using line_str_ok [OF ip(2) b] by blast
  have m0: "64 \<le> E_MAX_ERROR" by (simp add: E_MAX_ERROR_def)
  let ?m = "take (fmt_cap E_MAX_ERROR) t"
  have 1: "fmtValloc E_MAX_ERROR fmt args = Inr (?m, int (min (fmt_cap E_MAX_ERROR) (length t)))" "is_cstr ?m"
    using fmt_text [OF m, of E_MAX_ERROR] m0 by (simp_all add: fmtValloc_eq)
  let ?f = "''%s'' @ [LF] @ '' At line %d, line => '' @ [LF, LF] @ ''%s'' @ [LF]" and ?a = "[FStr (Some ?m), FInt (ip_lineNumber ip), FStr (Some l)]"
  have "render ?f ?a \<noteq> None" by simp
  then obtain t2 where t2: "render ?f ?a = Some t2" by blast
  have "args_ok ?a" using 1(2) l2(2) ip(2) by (simp add: args_ok_def in_ok_def line_ok_def)
  then have "\<exists>e n. fmtAlloc E_MAX_ERROR ?f ?a = Inr (e, n)" using fmt_text [OF t2, of E_MAX_ERROR] m0 by simp
  then obtain e n where "fmtAlloc E_MAX_ERROR ?f ?a = Inr (e, n)" by blast
  then have "ejError fmt args ep = Inr (ep\<lparr>ej_error := Some e\<rparr>)" using ip(1) 1(1) l2(1) by (simp add: ejError_def)
  then show ?thesis using l by (intro exI [of _ "ep\<lparr>ej_error := Some e\<rparr>"]) simp
qed

section \<open>Opening a script\<close>

lemma ringqOpen_tok:
  assumes "mem_total mem"
  shows "\<exists>q. ringqOpen mem n (- 1) = Inr (Some q) \<and> tok_ok q \<and> contents q = []"
proof -
  obtain b where b: "mem (getBinBlockSize n) = Some b" "length b = getBinBlockSize n"
    using assms by (fastforce simp: mem_total_def alloc_ok_def)
  have "0 < getBinBlockSize n" by (rule getBinBlockSize_pos)
  then show ?thesis using b
    by (auto simp: ringqOpen_def put_at_def put_slice_def tok_ok_def rq_ok_def contents_def get_slice_def)
qed

lemma put_token_back:
  assumes "tok_ok q" and "mem_total mem"
  shows "\<exists>n q'. ringqPutStr mem q str = Inr (n, q') \<and> tok_ok q' \<and> contents q' = contents q @ str"
proof -
  have q: "rq_ok q" "maxsize q < 0" "servp q = 0" "alloc_ok mem" "\<forall>k. mem k \<noteq> None" using assms by (simp_all add: tok_ok_def mem_total_def)
  obtain n q' where r: "ringqPutStr mem q str = Inr (n, q')" "rq_ok q'" "n \<le> length str" "contents q' = contents q @ take n str" "maxsize q' = maxsize q"
    "servp q = 0 \<longrightarrow> servp q' = 0" "rq_buf q' ! endp q' = NUL"
    "n = length str \<or> (\<exists>k. mem k = None) \<or> (0 \<le> maxsize q \<and> maxsize q \<le> int (length (contents q')) + 1)"
    using ringqPutStr_ok [OF q(4,1), of str] by (elim exE conjE) (rule that)
  then have "n = length str" using q(2,5) by auto
  then show ?thesis using r q(2,3) by (auto simp: tok_ok_def)
qed

lemma ejLexOpenScript_ok:
  assumes "mem_total mem"
  obtains ep' where "ejLexOpenScript mem True script ep = Inr (0, ep')" and "lexing ep' script 0 [] (None, None)" and "engine ep' = engine ep"
proof -
  obtain t where t: "ringqOpen mem EJ_INC (- 1) = Inr (Some t)" "tok_ok t" "contents t = []" using ringqOpen_tok [OF assms] by blast
  obtain q where q: "ringqOpen mem EJ_SCRIPT_INC (- 1) = Inr (Some q)" "tok_ok q" "contents q = []" using ringqOpen_tok [OF assms] by blast
  obtain n q' where p: "ringqPutStr mem q script = Inr (n, q')" "tok_ok q'" "contents q' = script" using put_token_back [OF q(2) assms, of script] q(3) by auto
  let ?ip = "new_input\<lparr>ip_tokbuf := t, ip_script := q', ip_lineNumber := 1\<rparr>"
  have "in_ok ?ip" using t(2) p(2) by (simp add: in_ok_def tok_ok_def line_ok_def new_input_def)
  then have "lexing (put_input ?ip ep) script 0 [] (None, None)" using t(3) p(3) by (simp add: new_input_def)
  moreover have "ejLexOpenScript mem True script ep = Inr (0, put_input ?ip ep)" using t(1) q(1) p(1) by (simp add: ejLexOpenScript_def)
  ultimately show thesis using that by simp
qed

lemma a_script:
  obtains ep :: "unit ej" and mem where "mem_total mem" and "lexing ep script 0 [] (None, None)"
proof -
  have m: "mem_total demo_mem" by (auto simp: mem_total_def alloc_ok_def demo_mem_def)
  obtain ep :: "unit ej" where "lexing ep script 0 [] (None, None)" using ejLexOpenScript_ok [OF m] by blast
  then show thesis using that m by blast
qed

end
