(* ===== verification/Ejlex_Safe.thy ===== *)
theory Ejlex_Safe
  imports Ejlex_Laws
begin

text \<open>
  The lexical analyser on a script of one line: it never leaves its buffers, always ends, and touches
  nothing of the engine but the input and the token.
\<close>

section \<open>Runs that return\<close>

definition returns :: "'a res \<Rightarrow> ('a \<Rightarrow> bool) \<Rightarrow> bool" where
  "returns m Q \<longleftrightarrow> (\<exists>x. m = Inr x \<and> Q x)"

lemma returns_Inr [simp]: "returns (Inr x) Q = Q x"
  by (simp add: returns_def)

lemma returns_bind: "returns m R \<Longrightarrow> (\<And>x. R x \<Longrightarrow> returns (f x) Q) \<Longrightarrow> returns (res_bind m f) Q"
  by (auto simp: returns_def)

lemma returns_weaken: "returns m R \<Longrightarrow> (\<And>x. R x \<Longrightarrow> Q x) \<Longrightarrow> returns m Q"
  by (auto simp: returns_def)

lemma returns_if [intro]: "(b \<Longrightarrow> returns x Q) \<Longrightarrow> (\<not> b \<Longrightarrow> returns y Q) \<Longrightarrow> returns (if b then x else y) Q"
  by simp

section \<open>A script of one line\<close>

text \<open>At most \<open>n\<close> bytes are left and the column is \<open>k\<close> at least; the rest of the engine is that of \<open>e\<close>.\<close>

definition on_line :: "'w ej \<Rightarrow> pending \<Rightarrow> nat \<Rightarrow> int \<Rightarrow> 'w ej \<Rightarrow> bool" where
  "on_line e p n k ep \<longleftrightarrow> engine ep = engine e \<and> (\<exists>cs j ts. lexing ep cs j ts p \<and> LF \<notin> set cs \<and> length cs \<le> n \<and> k \<le> j)"

lemma on_line_left: "on_line e p n k ep \<Longrightarrow> input_left ep \<le> n"
  by (auto simp: on_line_def lexing_left)

lemma on_lineI: "engine ep = engine e \<Longrightarrow> lexing ep cs j ts p \<Longrightarrow> LF \<notin> set cs \<Longrightarrow> length cs \<le> n \<Longrightarrow> k \<le> j \<Longrightarrow> on_line e p n k ep"
  by (auto simp: on_line_def)

lemma on_line_exact: "on_line e p n k ep \<Longrightarrow> on_line e p (input_left ep) k ep"
  unfolding on_line_def by (metis lexing_left order_refl)

lemma on_line_weaken: "on_line e p n k ep \<Longrightarrow> n \<le> m \<Longrightarrow> j \<le> k \<Longrightarrow> on_line e p m j ep"
  unfolding on_line_def by (meson order_trans)

lemma on_line_lf: "to_char (- 1) \<noteq> LF"
  by (simp add: to_char_def) code_simp

lemma to_char_lf: "0 \<le> c \<Longrightarrow> c < 256 \<Longrightarrow> to_char c = LF \<longleftrightarrow> c = code LF"
proof -
  assume c: "0 \<le> c" "c < 256"
  then have "to_char c = char_of (nat c)" by (simp add: to_char_def)
  moreover have "nat c < 256" using c by simp
  then have "uchar (char_of (nat c)) = nat c" by (simp add: uchar_char_of)
  ultimately show ?thesis using c uchar_inject [of "to_char c" LF] by (auto simp: code_def)
qed

text \<open>The character read: the end of the script, or one of its bytes.\<close>

definition got :: "'w ej \<Rightarrow> pending \<Rightarrow> nat \<Rightarrow> int \<Rightarrow> int \<times> 'w ej \<Rightarrow> bool" where
  "got e p n k = (\<lambda>(c, ep). to_char c \<noteq> LF \<and> (if c < 0 then c = - 1 \<and> on_line e p n k ep
     else c < 256 \<and> c \<noteq> code LF \<and> 0 < n \<and> on_line e p (n - 1) (k + 1) ep))"

lemma inputGetc_returns:
  assumes "on_line e p n k ep" and "mem_total mem"
  shows "returns (inputGetc mem ep) (got e p n k)"
proof -
  obtain cs j ts where l: "engine ep = engine e" "lexing ep cs j ts p" "LF \<notin> set cs" "length cs \<le> n" "k \<le> j"
    using assms(1) by (auto simp: on_line_def)
  show ?thesis
  proof (cases cs)
    case Nil
    then have "inputGetc mem ep = Inr (- 1, ep)" using inputGetc_end l(2) by simp
    then show ?thesis using assms(1) by (simp add: got_def on_line_lf)
  next
    case (Cons c cs')
    then obtain ep' where "inputGetc mem ep = Inr (code c, ep')" "lexing ep' cs' (j + 1) ts p" "engine ep' = engine ep"
      using inputGetc_char [of ep c cs' j ts p mem] l(2,3) assms(2) by auto
    then show ?thesis using l Cons by (auto simp: got_def intro!: on_lineI [of _ _ cs' "j + 1" ts])
  qed
qed

lemma inputPutback_returns:
  assumes "on_line e p n k ep" and "mem_total mem" and "0 < k" and "to_char c \<noteq> LF"
  shows "returns (inputPutback mem c ep) (on_line e p (Suc n) (k - 1))"
proof -
  obtain cs j ts where l: "engine ep = engine e" "lexing ep cs j ts p" "LF \<notin> set cs" "length cs \<le> n" "k \<le> j"
    using assms(1) by (auto simp: on_line_def)
  then obtain ep' where "inputPutback mem c ep = Inr ep'" "lexing ep' (to_char c # cs) (j - 1) ts p" "engine ep' = engine ep"
    using inputPutback_ok [OF l(2) assms(2), of c] assms(3) by auto
  then show ?thesis using l assms(4) by (auto intro!: on_lineI [of _ _ "to_char c # cs" "j - 1" ts])
qed

lemma tokenAddChar_returns:
  assumes "on_line e p n k ep" and "mem_total mem"
  shows "returns (tokenAddChar mem c ep) (\<lambda>(r, ep'). r = 0 \<and> on_line e p n k ep')"
proof -
  obtain cs j ts where l: "engine ep = engine e" "lexing ep cs j ts p" "LF \<notin> set cs" "length cs \<le> n" "k \<le> j"
    using assms(1) by (auto simp: on_line_def)
  then obtain ep' where "tokenAddChar mem c ep = Inr (0, ep')" "lexing ep' cs j (ts @ [to_char c]) p" "engine ep' = engine ep"
    using tokenAddChar_ok [OF l(2) assms(2), of c] by auto
  then show ?thesis using l by (auto intro!: on_lineI [of _ _ cs j])
qed

lemma ejError_returns:
  assumes "on_line e p n k ep" and "0 < k" and "render fmt args = Some t" "args_ok args" "is_cstr fmt"
  shows "returns (ejError fmt args ep) (on_line e p n k)"
proof -
  obtain cs j ts where l: "engine ep = engine e" "lexing ep cs j ts p" "LF \<notin> set cs" "length cs \<le> n" "k \<le> j"
    using assms(1) by (auto simp: on_line_def)
  then obtain ep' where "ejError fmt args ep = Inr ep'" "lexing ep' cs j ts p" "engine ep' = engine ep"
    using ejError_ok [OF l(2) _ assms(3-5)] assms(2) by auto
  then show ?thesis using l by (auto intro!: on_lineI [of _ _ cs j])
qed

abbreviation token_got :: "'w ej \<Rightarrow> pending \<Rightarrow> nat \<Rightarrow> tok \<times> 'w ej \<Rightarrow> bool" where
  "token_got e p n \<equiv> (\<lambda>(t, ep). on_line e p n 0 ep)"

lemma add_tok_returns:
  assumes "on_line e p n k ep" and "mem_total mem" and "0 \<le> k"
  shows "returns (add_tok mem c t ep) (token_got e p n)"
  unfolding add_tok_def
  by (rule returns_bind [OF tokenAddChar_returns [OF assms(1,2)]]) (auto intro: on_line_weaken [OF _ order_refl assms(3)])

lemma syntax_error_returns:
  assumes "on_line e p n k ep" and "0 < k" and "render msg [] = Some msg" "is_cstr msg"
  shows "returns (syntax_error msg ep) (token_got e p n)"
  unfolding syntax_error_def
  by (rule returns_bind [OF ejError_returns [OF assms(1,2,3) _ assms(4)]])
    (use assms(2) in \<open>auto intro: on_line_weaken simp: args_ok_def\<close>)

section \<open>The loops\<close>

lemma charConvert_returns:
  assumes m: "mem_total mem" and k: "0 \<le> k"
  shows "on_line e p n k ep \<Longrightarrow> returns (charConvert mem base i v ep) (\<lambda>(v, ep'). on_line e p n k ep')"
proof (induction i arbitrary: v ep n)
  case (Suc i)
  have put_back: "returns (res_bind (inputPutback mem c ep') (\<lambda>ep. Inr (v, ep))) (\<lambda>(v, ep'). on_line e p n k ep')"
    and more: "returns (charConvert mem base i v' ep') (\<lambda>(v, ep'). on_line e p n k ep')"
    if g: "got e p n k (c, ep')" "\<not> c < 0" for c ep' and v v' :: int
  proof -
    have g': "to_char c \<noteq> LF" "0 < n" "on_line e p (n - 1) (k + 1) ep'" using g by (simp_all add: got_def)
    show "returns (res_bind (inputPutback mem c ep') (\<lambda>ep. Inr (v, ep))) (\<lambda>(v, ep'). on_line e p n k ep')"
      by (rule returns_bind [OF inputPutback_returns [OF g'(3) m _ g'(1)]]) (use g'(2) k in auto)
    show "returns (charConvert mem base i v' ep') (\<lambda>(v, ep'). on_line e p n k ep')"
      by (rule Suc.IH [OF on_line_weaken [OF g'(3)]]) simp_all
  qed
  have stop: "on_line e p n k ep'" if "got e p n k (c, ep')" "c < 0" for c ep' using that by (simp add: got_def)
  show ?case unfolding charConvert.simps Let_def
    apply (rule returns_bind [OF inputGetc_returns [OF Suc.prems m]], clarify)
    subgoal for c ep' using put_back [of c ep'] more [of c ep'] stop [of c ep'] by (cases "c < 0") simp_all
    done
qed simp

text \<open>What the loops leave: the next character, read, with its column forgotten.\<close>

definition ahead :: "'w ej \<Rightarrow> pending \<Rightarrow> nat \<Rightarrow> int \<Rightarrow> int \<times> 'w ej \<Rightarrow> bool" where
  "ahead e p n k = (\<lambda>(c, ep). to_char c \<noteq> LF \<and> c \<noteq> code LF \<and> (if c < 0 then c = - 1 \<and> on_line e p n k ep
     else c < 256 \<and> 0 < n \<and> on_line e p (n - 1) k ep))"

lemma got_ahead: "got e p n k r \<Longrightarrow> ahead e p n k r"
  by (cases r) (auto simp: got_def ahead_def code_def intro: on_line_weaken split: if_splits)

lemma ahead_weaken: "ahead e p n k r \<Longrightarrow> n \<le> m \<Longrightarrow> ahead e p m k r"
  by (cases r) (auto simp: ahead_def intro: on_line_weaken split: if_splits)

lemma ahead_line: "ahead e p n k (c, ep) \<Longrightarrow> on_line e p n k ep"
  by (auto simp: ahead_def intro: on_line_weaken split: if_splits)

lemma ahead_next:
  assumes "ahead e p n k (c, ep)" and "\<not> c < 0"
  obtains m where "m < n" and "on_line e p m k ep" and "to_char c \<noteq> LF"
  using assms that [of "n - 1"] by (simp add: ahead_def)

lemma ahead_getc: "on_line e p n k ep \<Longrightarrow> mem_total mem \<Longrightarrow> returns (inputGetc mem ep) (ahead e p n k)"
  by (blast intro: returns_weaken inputGetc_returns got_ahead)

lemma ahead_putback:
  assumes "ahead e p n k (c, ep)" and "mem_total mem" and "0 < k"
  shows "returns (inputPutback mem c ep) (on_line e p (Suc n) 0)"
proof -
  have "on_line e p n k ep" "to_char c \<noteq> LF" using assms(1) by (auto simp: ahead_line ahead_def)
  show ?thesis
    by (rule returns_weaken [OF inputPutback_returns [OF \<open>on_line e p n k ep\<close> assms(2,3) \<open>to_char c \<noteq> LF\<close>]])
      (use assms(3) in \<open>auto intro: on_line_weaken\<close>)
qed

lemma skip_chars_returns:
  assumes m: "mem_total mem"
  shows "on_line e p n k ep \<Longrightarrow> n < f \<Longrightarrow> returns (skip_chars mem P f ep) (ahead e p n k)"
proof (induction f arbitrary: n ep)
  case (Suc f)
  have more: "returns (skip_chars mem P f ep') (ahead e p n k)" if a: "ahead e p n k (c, ep')" "0 \<le> c" for c ep'
  proof -
    obtain j where j: "j < n" "on_line e p j k ep'" by (rule ahead_next [OF a(1)]) (use a(2) in auto)
    show ?thesis
      by (intro returns_weaken [OF Suc.IH [OF j(2)]]) (use Suc.prems(2) j(1) in \<open>auto intro: ahead_weaken\<close>)
  qed
  show ?case unfolding skip_chars.simps
    by (rule returns_bind [OF ahead_getc [OF Suc.prems(1) m]]) (auto intro: more)
qed simp

lemma skip_comment_returns:
  assumes m: "mem_total mem"
  shows "on_line e p n k ep \<Longrightarrow> n < f \<Longrightarrow> returns (skip_comment mem s f ep) (\<lambda>(b, ep'). on_line e p n k ep')"
proof (induction f arbitrary: n ep)
  case (Suc f)
  have rec: "returns (skip_comment mem s f ep') (\<lambda>(b, ep'). on_line e p n k ep')" if a: "on_line e p j k ep'" "j < n" for ep' j
    by (rule returns_weaken [OF Suc.IH [OF a(1)]]) (use Suc.prems(2) a(2) in \<open>auto intro: on_line_weaken\<close>)
  have two: "returns (res_bind (inputGetc mem ep') (\<lambda>(c, ep).
      if s = code (CHR ''/'') then if c = code LF then Inr (True, ep) else skip_comment mem s f ep
      else if c = code (CHR ''/'') then Inr (True, ep) else skip_comment mem s f ep)) (\<lambda>(b, ep'). on_line e p n k ep')"
    if a: "on_line e p j k ep'" "j < n" for ep' j
    apply (rule returns_bind [OF ahead_getc [OF a(1) m]], clarify)
    subgoal for c ep2 using ahead_line [of e p j k c ep2] rec [of j ep2] on_line_weaken [of e p j k ep2 n k] a(2) by auto
    done
  show ?case unfolding skip_comment.simps
  proof (rule returns_bind [OF ahead_getc [OF Suc.prems(1) m]], clarify)
    fix c ep' assume a: "ahead e p n k (c, ep')"
    show "returns (if c < 0 then Inr (False, ep') else if c = code LF \<and> s = code (CHR ''/'') then Inr (True, ep')
       else if c = code (CHR ''*'') then res_bind (inputGetc mem ep') (\<lambda>(c, ep).
           if s = code (CHR ''/'') then if c = code LF then Inr (True, ep) else skip_comment mem s f ep
           else if c = code (CHR ''/'') then Inr (True, ep) else skip_comment mem s f ep)
       else skip_comment mem s f ep') (\<lambda>(b, ep'). on_line e p n k ep')"
    proof (cases "c < 0")
      case True
      then show ?thesis using ahead_line [OF a] by simp
    next
      case False
      then obtain j where "j < n" "on_line e p j k ep'" using ahead_next [OF a] by blast
      then show ?thesis using False ahead_line [OF a] by (auto intro: rec two)
    qed
  qed
qed simp

lemma got_real:
  assumes "got e p n k (c, ep)" and "\<not> c < 0"
  obtains m where "m < n" and "on_line e p m (k + 1) ep" and "to_char c \<noteq> LF"
  using assms that [of "n - 1"] by (simp add: got_def)

lemma escape_char_returns:
  assumes m: "mem_total mem" and k: "0 \<le> k" and l: "on_line e p n k ep"
  shows "returns (escape_char mem ep) (\<lambda>(d, ep'). on_line e p n k ep')"
  unfolding escape_char_def
proof (rule returns_bind [OF inputGetc_returns [OF l m]], clarify)
  fix c ep' assume g: "got e p n k (c, ep')"
  have l': "on_line e p n k ep'" using ahead_line [OF got_ahead [OF g]] .
  have conv: "returns (res_bind (charConvert mem b i 0 ep2) (\<lambda>(v, ep). Inr (Some v, ep))) (\<lambda>(d, ep'). on_line e p n k ep')"
    if "on_line e p n k ep2" for b i ep2
    by (rule returns_bind [OF charConvert_returns [OF m k that]]) auto
  have oct: "returns (res_bind (inputPutback mem c ep') (\<lambda>ep. res_bind (charConvert mem 8 3 0 ep) (\<lambda>(v, ep). Inr (Some v, ep))))
      (\<lambda>(d, ep'). on_line e p n k ep')" if "is_dig c"
  proof -
    have "\<not> c < 0" using that by (simp add: is_dig_def)
    then obtain j where j: "j < n" "on_line e p j (k + 1) ep'" "to_char c \<noteq> LF" using got_real [OF g] by blast
    show ?thesis
      by (rule returns_bind [OF inputPutback_returns [OF j(2) m _ j(3)]])
        (use k j(1) in \<open>auto intro!: conv intro: on_line_weaken\<close>)
  qed
  have two: "returns (res_bind (charConvert mem 16 2 0 ep') (\<lambda>(v, ep). res_bind (charConvert mem 16 2 0 ep) (\<lambda>(u, ep). Inr (Some (v * 16 + u), ep))))
      (\<lambda>(d, ep'). on_line e p n k ep')"
    by (rule returns_bind [OF charConvert_returns [OF m k l']], clarify, rule returns_bind [OF charConvert_returns [OF m k]]) auto
  show "returns (if is_dig c then res_bind (inputPutback mem c ep') (\<lambda>ep. res_bind (charConvert mem 8 3 0 ep) (\<lambda>(v, ep). Inr (Some v, ep)))
       else if c = code (CHR ''n'') then Inr (Some 10, ep')
       else if c = code (CHR ''b'') then Inr (Some 8, ep')
       else if c = code (CHR ''f'') then Inr (Some 12, ep')
       else if c = code (CHR ''r'') then Inr (Some 13, ep')
       else if c = code (CHR ''t'') then Inr (Some 9, ep')
       else if c = code (CHR ''x'') then res_bind (charConvert mem 16 2 0 ep') (\<lambda>(v, ep). Inr (Some v, ep))
       else if c = code (CHR ''u'') then res_bind (charConvert mem 16 2 0 ep') (\<lambda>(v, ep).
         res_bind (charConvert mem 16 2 0 ep) (\<lambda>(u, ep). Inr (Some (v * 16 + u), ep)))
       else if c = code (CHR 0x27) \<or> c = code (CHR 0x22) \<or> c = code (CHR 0x5C) then Inr (Some c, ep')
       else Inr (None, ep')) (\<lambda>(d, ep'). on_line e p n k ep')"
    by (intro returns_if oct two conv l') (simp_all add: l')
qed

lemma quote_errors: "render ''Invalid Escape Sequence'' [] = Some ''Invalid Escape Sequence''" "render ''Unmatched Quote'' [] = Some ''Unmatched Quote''"
  "render ''Syntax Error'' [] = Some ''Syntax Error''"
  "is_cstr ''Invalid Escape Sequence''" "is_cstr ''Unmatched Quote''" "is_cstr ''Syntax Error''"
  by simp_all

lemma string_loop_returns:
  assumes m: "mem_total mem" and k: "0 < k"
  shows "on_line e p n k ep \<Longrightarrow> n < f \<Longrightarrow> returns (string_loop mem quote f c ep) (token_got e p n)"
proof (induction f arbitrary: n ep c)
  case (Suc f)
  have rec: "returns (string_loop mem quote f c ep') (token_got e p n)" if a: "on_line e p j k ep'" "j < n" for ep' j c
    by (rule returns_weaken [OF Suc.IH [OF a(1)]]) (use Suc.prems(2) a(2) in \<open>auto intro: on_line_weaken\<close>)
  have next_char: "returns (res_bind (inputGetc mem ep') (\<lambda>(c, ep).
      if c < 0 then syntax_error ''Unmatched Quote'' ep else string_loop mem quote f c ep)) (token_got e p n)"
    if l: "on_line e p n k ep'" for ep'
    apply (rule returns_bind [OF ahead_getc [OF l m]], clarify)
    subgoal for c ep2
      using ahead_line [of e p n k c ep2] syntax_error_returns [of e p n k ep2 "''Unmatched Quote''"] k
      by (auto simp: quote_errors elim!: ahead_next intro: rec)
    done
  have bad: "returns (syntax_error ''Invalid Escape Sequence'' ep') (token_got e p n)" if "on_line e p n k ep'" for ep'
    using syntax_error_returns [OF that k] by (simp add: quote_errors)
  have add: "returns (res_bind (tokenAddChar mem d ep') (\<lambda>(r, ep).
      if r < 0 then Inr (TOK_ERR, ep)
      else res_bind (inputGetc mem ep) (\<lambda>(c, ep).
        if c < 0 then syntax_error ''Unmatched Quote'' ep else string_loop mem quote f c ep))) (token_got e p n)"
    if l: "on_line e p n k ep'" for d ep'
    by (rule returns_bind [OF tokenAddChar_returns [OF l m]]) (auto intro: next_char)
  have char: "returns (if c = code (CHR 0x5C) then escape_char mem ep else Inr (Some c, ep)) (\<lambda>(d, ep'). on_line e p n k ep')"
    by (intro returns_if escape_char_returns [OF m _ Suc.prems(1)]) (use Suc.prems(1) k in simp_all)
  have stop: "on_line e p n 0 ep" by (rule on_line_weaken [OF Suc.prems(1) order_refl]) (use k in simp)
  have body: "returns (res_bind (if c = code (CHR 0x5C) then escape_char mem ep else Inr (Some c, ep)) (\<lambda>(d, ep).
      case d of
        None \<Rightarrow> syntax_error ''Invalid Escape Sequence'' ep
      | Some d \<Rightarrow> res_bind (tokenAddChar mem d ep) (\<lambda>(r, ep).
          if r < 0 then Inr (TOK_ERR, ep)
          else res_bind (inputGetc mem ep) (\<lambda>(c, ep).
            if c < 0 then syntax_error ''Unmatched Quote'' ep else string_loop mem quote f c ep)))) (token_got e p n)"
    by (rule returns_bind [OF char]) (auto split: option.split intro: bad add)
  show ?case unfolding string_loop.simps by (intro returns_if body) (simp add: stop)
qed simp

lemma digit_loop_returns:
  assumes m: "mem_total mem" and k: "0 < k"
  shows "on_line e p n k ep \<Longrightarrow> n < f \<Longrightarrow> returns (digit_loop mem f c ep) (token_got e p (Suc n))"
proof (induction f arbitrary: n ep c)
  case (Suc f)
  have rec: "returns (digit_loop mem f c ep') (token_got e p (Suc n))" if a: "on_line e p j k ep'" "j < n" for ep' j c
    by (rule returns_weaken [OF Suc.IH [OF a(1)]]) (use Suc.prems(2) a(2) in \<open>auto intro: on_line_weaken\<close>)
  have next_char: "returns (res_bind (inputGetc mem ep') (\<lambda>(c, ep).
      if 0 \<le> c \<and> is_dig c then digit_loop mem f c ep
      else res_bind (inputPutback mem c ep) (\<lambda>ep. Inr (TOK_LITERAL, ep)))) (token_got e p (Suc n))"
    if l: "on_line e p n k ep'" for ep'
    apply (rule returns_bind [OF ahead_getc [OF l m]], clarify)
    subgoal for c ep2
      using returns_bind [OF ahead_putback [OF _ m k, of e p n c ep2], of "\<lambda>ep. Inr (TOK_LITERAL, ep)" "token_got e p (Suc n)"]
      by (auto elim!: ahead_next intro: rec)
    done
  have stop: "on_line e p (Suc n) 0 ep'" if "on_line e p n k ep'" for ep' by (rule on_line_weaken [OF that]) (use k in simp_all)
  show ?case unfolding digit_loop.simps
    by (rule returns_bind [OF tokenAddChar_returns [OF Suc.prems(1) m]]) (auto intro: next_char)
qed simp

lemma ident_loop_returns:
  assumes m: "mem_total mem" and k: "0 < k"
  shows "on_line e p n k ep \<Longrightarrow> n < f \<Longrightarrow> returns (ident_loop mem f c ep) (ahead e p n k)"
proof (induction f arbitrary: n ep c)
  case (Suc f)
  have rec: "returns (ident_loop mem f c ep') (ahead e p n k)" if a: "on_line e p j k ep'" "j < n" for ep' j c
    by (rule returns_weaken [OF Suc.IH [OF a(1)]]) (use Suc.prems(2) a(2) in \<open>auto intro: ahead_weaken\<close>)
  have next_char: "returns (res_bind (inputGetc mem ep') (\<lambda>(c, ep).
      if c < 0 \<or> \<not> is_alnum c \<and> c \<noteq> code (CHR ''$'') \<and> c \<noteq> code (CHR ''_'') \<and> c \<noteq> code (CHR 0x5C) then Inr (c, ep)
      else ident_loop mem f c ep)) (ahead e p n k)" if l: "on_line e p n k ep'" for ep'
    apply (rule returns_bind [OF ahead_getc [OF l m]], clarify)
    subgoal for c ep2 by (auto elim!: ahead_next intro: rec)
    done
  have add: "returns (if c = code (CHR 0x5C) then Inr (0, ep) else tokenAddChar mem c ep) (\<lambda>(r, ep'). r = 0 \<and> on_line e p n k ep')"
    by (intro returns_if tokenAddChar_returns [OF Suc.prems(1) m]) (simp add: Suc.prems(1))
  show ?case unfolding ident_loop.simps by (rule returns_bind [OF add]) (auto intro: next_char)
qed simp

section \<open>Tokens\<close>

lemma the_input_returns:
  assumes "on_line e p n k ep"
  shows "returns (the_input ep) (\<lambda>ip. ej_input ep = Some ip \<and> in_ok ip)"
  using assms by (auto simp: on_line_def lexing_def the_input_def)

lemma ident_start_returns: "in_ok ip \<Longrightarrow> returns (ident_start ip) (\<lambda>_. True)"
  by (auto simp: in_ok_def tok_ok_def rq_ok_def ident_start_def Let_def)

lemma token_str_returns: "in_ok ip \<Longrightarrow> returns (token_str (ip_tokbuf ip)) is_cstr"
  by (simp add: in_ok_def token_str_ok)

lemma identifier_error_returns:
  assumes "on_line e p n k ep" and "0 < k" and "is_cstr t"
  shows "returns (ejError ''Invalid identifier %s'' [FStr (Some t)] ep) (on_line e p n k)"
  by (rule ejError_returns [OF assms(1,2), where t = "''Invalid identifier '' @ t"]) (simp_all add: assms(3) args_ok_def)

lemma lex_identifier_returns:
  assumes m: "mem_total mem" and k: "0 < k" and l: "on_line e p n k ep"
  shows "returns (lex_identifier mem state c ep) (token_got e p (Suc n))"
  unfolding lex_identifier_def
proof (rule returns_bind [OF ident_loop_returns [OF m k on_line_exact [OF l]]], simp, clarify)
  fix c ep1 assume "ahead e p (input_left ep) k (c, ep1)"
  then have a: "ahead e p n k (c, ep1)" by (rule ahead_weaken) (use on_line_left [OF l] in simp)
  have l1: "on_line e p n k ep1" using ahead_line [OF a] .
  have give: "on_line e p (Suc n) 0 ep1" by (rule on_line_weaken [OF l1]) (use k in simp_all)
  have pb: "returns (inputPutback mem c ep2) (on_line e p (Suc n) 0)" if "ahead e p n k (c, ep2)" for c ep2
    using ahead_putback [OF that m k] .
  have skip: "returns (if is_blank c \<or> c = code LF
      then skip_chars mem (\<lambda>c. is_blank c \<or> c = code LF) (Suc (input_left ep1)) ep1 else Inr (c, ep1)) (ahead e p n k)"
    by (intro returns_if returns_weaken [OF skip_chars_returns [OF m on_line_exact [OF l1]]])
      (use on_line_left [OF l1] a in \<open>auto intro: ahead_weaken\<close>)
  have word: "returns (res_bind (if is_blank c \<or> c = code LF
        then skip_chars mem (\<lambda>c. is_blank c \<or> c = code LF) (Suc (input_left ep1)) ep1 else Inr (c, ep1)) (\<lambda>(c, ep).
      res_bind (inputPutback mem c ep) (\<lambda>ep. Inr (if c = code (CHR ''('') then TOK_FUNCTION else TOK_ID, ep)))) (token_got e p (Suc n))"
    by (rule returns_bind [OF skip], clarify, rule returns_bind [OF pb]) auto
  have ret: "returns (res_bind (if c = code (CHR '';'') \<or> c = code (CHR ''('') then inputPutback mem c ep1 else Inr ep1) (\<lambda>ep. Inr (TOK_RETURN, ep)))
      (token_got e p (Suc n))"
    by (rule returns_bind [of _ "on_line e p (Suc n) 0"], intro returns_if pb a) (use give in simp_all)
  have bad: "returns (res_bind (token_str (ip_tokbuf ip)) (\<lambda>t.
      res_bind (ejError ''Invalid identifier %s'' [FStr (Some t)] ep1) (\<lambda>ep. Inr (TOK_ERR, ep)))) (token_got e p (Suc n))" if "in_ok ip" for ip
    by (rule returns_bind [OF token_str_returns [OF that]], rule returns_bind [OF identifier_error_returns [OF l1 k]])
      (use k in \<open>auto intro: on_line_weaken\<close>)
  show "returns (res_bind (the_input ep1) (\<lambda>ip. res_bind (ident_start ip) (\<lambda>good.
       if \<not> good then res_bind (token_str (ip_tokbuf ip)) (\<lambda>t.
         res_bind (ejError ''Invalid identifier %s'' [FStr (Some t)] ep1) (\<lambda>ep. Inr (TOK_ERR, ep)))
       else if state = STATE_STMT \<and> ej_token ep1 = ''if'' then Inr (TOK_IF, ep1)
       else if state = STATE_STMT \<and> ej_token ep1 = ''else'' then Inr (TOK_ELSE, ep1)
       else if state = STATE_STMT \<and> ej_token ep1 = ''var'' then Inr (TOK_VAR, ep1)
       else if state = STATE_STMT \<and> ej_token ep1 = ''for'' then Inr (TOK_FOR, ep1)
       else if state = STATE_STMT \<and> ej_token ep1 = ''return'' then
         res_bind (if c = code (CHR '';'') \<or> c = code (CHR ''('') then inputPutback mem c ep1 else Inr ep1) (\<lambda>ep. Inr (TOK_RETURN, ep))
       else res_bind (if is_blank c \<or> c = code LF
           then skip_chars mem (\<lambda>c. is_blank c \<or> c = code LF) (Suc (input_left ep1)) ep1 else Inr (c, ep1)) (\<lambda>(c, ep).
         res_bind (inputPutback mem c ep) (\<lambda>ep. Inr (if c = code (CHR ''('') then TOK_FUNCTION else TOK_ID, ep)))))) (token_got e p (Suc n))"
    by (rule returns_bind [OF the_input_returns [OF l1]], rule returns_bind [OF ident_start_returns], simp, intro returns_if word ret bad)
      (simp_all add: give split del: if_split)
qed

lemma lex_double_returns:
  assumes m: "mem_total mem" and k: "0 < k" and l: "on_line e p n k ep"
  shows "returns (lex_double mem first ep) (token_got e p n)"
  unfolding lex_double_def
proof (rule returns_bind [OF inputGetc_returns [OF l m]], clarify)
  fix c ep1 assume g: "got e p n k (c, ep1)"
  have l1: "on_line e p n k ep1" using ahead_line [OF got_ahead [OF g]] .
  have add: "returns (add_tok mem x t ep2) (token_got e p n)" if "on_line e p n k ep2" for x t ep2
    using add_tok_returns [OF that m] k by simp
  have bad: "returns (syntax_error ''Syntax Error'' ep1) (token_got e p n)"
    using syntax_error_returns [OF l1 k] by (simp add: quote_errors)
  show "returns (if c < 0 then syntax_error ''Syntax Error'' ep1
       else if first = code (CHR ''+'') then
         if c \<noteq> code (CHR ''+'') then res_bind (inputPutback mem c ep1) (add_tok mem EXPR_PLUS TOK_EXPR)
         else add_tok mem EXPR_INC TOK_INC_DEC ep1
       else if first = code (CHR ''-'') then
         if c \<noteq> code (CHR ''-'') then res_bind (inputPutback mem c ep1) (add_tok mem EXPR_MINUS TOK_EXPR)
         else add_tok mem EXPR_DEC TOK_INC_DEC ep1
       else if first = code (CHR ''<'') then
         if c = code (CHR ''<'') then add_tok mem EXPR_LSHIFT TOK_EXPR ep1
         else if c = code (CHR ''='') then add_tok mem EXPR_LESSEQ TOK_EXPR ep1
         else res_bind (tokenAddChar mem EXPR_LESS ep1) (\<lambda>(r, ep). res_bind (inputPutback mem c ep) (\<lambda>ep. Inr (TOK_EXPR, ep)))
       else if first = code (CHR ''>'') then
         if c = code (CHR ''>'') then add_tok mem EXPR_RSHIFT TOK_EXPR ep1
         else if c = code (CHR ''='') then add_tok mem EXPR_GREATEREQ TOK_EXPR ep1
         else res_bind (tokenAddChar mem EXPR_GREATER ep1) (\<lambda>(r, ep). res_bind (inputPutback mem c ep) (\<lambda>ep. Inr (TOK_EXPR, ep)))
       else if first = code (CHR ''='') then
         if c = code (CHR ''='') then add_tok mem EXPR_EQ TOK_EXPR ep1
         else res_bind (inputPutback mem c ep1) (\<lambda>ep. Inr (TOK_ASSIGNMENT, ep))
       else if first = code (CHR ''!'') then
         if c = code (CHR ''='') then add_tok mem EXPR_NOTEQ TOK_EXPR ep1
         else res_bind (inputPutback mem c ep1) (add_tok mem EXPR_BOOL_COMP TOK_EXPR)
       else if first = code (CHR ''|'') then
         if c \<noteq> code (CHR ''|'') then syntax_error ''Syntax Error'' ep1 else add_tok mem COND_OR TOK_LOGICAL ep1
       else if c \<noteq> code (CHR ''&'') then syntax_error ''Syntax Error'' ep1 else add_tok mem COND_AND TOK_LOGICAL ep1) (token_got e p n)"
  proof (cases "c < 0")
    case True
    then show ?thesis using bad by simp
  next
    case False
    then obtain j where j: "j < n" "on_line e p j (k + 1) ep1" "to_char c \<noteq> LF" using got_real [OF g] by blast
    have pb: "returns (inputPutback mem c ep2) (on_line e p n k)" if "on_line e p j (k + 1) ep2" for ep2
      by (rule returns_weaken [OF inputPutback_returns [OF that m _ j(3)]]) (use k j(1) in \<open>auto intro: on_line_weaken\<close>)
    have put: "returns (res_bind (inputPutback mem c ep2) f) (token_got e p n)"
      if "on_line e p j (k + 1) ep2" "\<And>ep. on_line e p n k ep \<Longrightarrow> returns (f ep) (token_got e p n)" for ep2 and f :: "'a ej \<Rightarrow> (tok \<times> 'a ej) res"
      by (rule returns_bind [OF pb [OF that(1)] that(2)])
    have done_: "on_line e p n 0 ep2" if "on_line e p n k ep2" for ep2 by (rule on_line_weaken [OF that]) (use k in simp_all)
    have two: "returns (res_bind (tokenAddChar mem x ep1) (\<lambda>(r, ep). res_bind (inputPutback mem c ep) (\<lambda>ep. Inr (TOK_EXPR, ep)))) (token_got e p n)" for x
      by (rule returns_bind [OF tokenAddChar_returns [OF j(2) m]]) (auto intro!: put done_)
    show ?thesis
      by (intro returns_if two add l1 bad put j(2)) (use False done_ in simp_all)
  qed
qed

text \<open>The skipping loops run on what is left.\<close>

lemma blanks_return:
  assumes "mem_total mem" and "on_line e p n k ep"
  shows "returns (skip_chars mem P (Suc (input_left ep)) ep) (ahead e p n k)"
  by (rule returns_weaken [OF skip_chars_returns [OF assms(1) on_line_exact [OF assms(2)]]])
    (use on_line_left [OF assms(2)] in \<open>auto intro: ahead_weaken\<close>)

lemma comment_returns:
  assumes "mem_total mem" and "on_line e p n k ep"
  shows "returns (skip_comment mem s (Suc (input_left ep)) ep) (\<lambda>(b, ep'). on_line e p n k ep')"
  by (rule returns_weaken [OF skip_comment_returns [OF assms(1) on_line_exact [OF assms(2)]]])
    (use on_line_left [OF assms(2)] in \<open>auto intro: on_line_weaken\<close>)

lemma string_returns:
  assumes "mem_total mem" and "0 < k" and "on_line e p n k ep"
  shows "returns (string_loop mem q (Suc (Suc (input_left ep))) c ep) (token_got e p n)"
  by (rule returns_weaken [OF string_loop_returns [OF assms(1,2) on_line_exact [OF assms(3)]]])
    (use on_line_left [OF assms(3)] in \<open>auto intro: on_line_weaken\<close>)

lemma digits_return:
  assumes "mem_total mem" and "0 < k" and "on_line e p n k ep"
  shows "returns (digit_loop mem (Suc (input_left ep)) c ep) (token_got e p (Suc n))"
  by (rule returns_weaken [OF digit_loop_returns [OF assms(1,2) on_line_exact [OF assms(3)]]])
    (use on_line_left [OF assms(3)] in \<open>auto intro: on_line_weaken\<close>)

lemma lex_loop_returns:
  assumes m: "mem_total mem" and k: "0 < k"
  shows "on_line e p n k ep \<Longrightarrow> Suc n < f \<Longrightarrow> c \<noteq> code LF \<Longrightarrow> returns (lex_loop mem f state c ep) (token_got e p (Suc n))"
proof (induction f arbitrary: n ep c)
  case (Suc f)
  note l = Suc.prems(1)
  have give: "on_line e p (Suc n) 0 ep2" if "on_line e p n k ep2" for ep2 by (rule on_line_weaken [OF that]) (use k in simp_all)
  have more: "on_line e p (Suc n) 0 ep2" if "on_line e p n 0 ep2" for ep2 by (rule on_line_weaken [OF that]) simp_all
  have add: "returns (add_tok mem x t ep2) (token_got e p (Suc n))" if "on_line e p n k ep2" for x t ep2
    by (rule returns_weaken [OF add_tok_returns [OF that m]]) (use k more in auto)
  have bad: "returns (syntax_error ''Syntax Error'' ep2) (token_got e p (Suc n))" if "on_line e p n k ep2" for ep2
    by (rule returns_weaken [OF syntax_error_returns [OF that k]]) (use more in \<open>auto simp: quote_errors\<close>)
  have rec: "returns (lex_loop mem f state c ep2) (token_got e p (Suc n))" if a: "ahead e p n k (c, ep2)" for c ep2
  proof (cases "c < 0")
    case True
    then have "c = - 1" "on_line e p n k ep2" using a by (auto simp: ahead_def)
    then show ?thesis using give Suc.prems(2) by (cases f) auto
  next
    case False
    obtain j where j: "j < n" "on_line e p j k ep2" by (rule ahead_next [OF a False])
    show ?thesis
      by (rule returns_weaken [OF Suc.IH [OF j(2)]]) (use Suc.prems(2) j(1) a in \<open>auto simp: ahead_def intro: on_line_weaken\<close>)
  qed
  have blank: "returns (res_bind (skip_chars mem is_blank (Suc (input_left ep)) ep) (\<lambda>(c, ep). lex_loop mem f state c ep)) (token_got e p (Suc n))"
    by (rule returns_bind [OF blanks_return [OF m l]]) (auto intro: rec)
  have after: "returns (res_bind (inputGetc mem ep2) (\<lambda>(c, ep). if c < 0 then Inr (TOK_EOF, ep) else lex_loop mem f state c ep)) (token_got e p (Suc n))"
    if "on_line e p n k ep2" for ep2
    apply (rule returns_bind [OF ahead_getc [OF that m]], clarify)
    subgoal for c ep3 using rec [of c ep3] give [of ep3] ahead_line [of e p n k c ep3] by simp
    done
  have comment: "returns (res_bind (skip_comment mem c (Suc (input_left ep2)) ep2) (\<lambda>(closed, ep).
      if \<not> closed then syntax_error ''Syntax Error'' ep
      else res_bind (inputGetc mem ep) (\<lambda>(c, ep). if c < 0 then Inr (TOK_EOF, ep) else lex_loop mem f state c ep))) (token_got e p (Suc n))"
    if "on_line e p n k ep2" for c ep2
    by (rule returns_bind [OF comment_returns [OF m that]]) (auto intro: bad after)
  have slash: "returns (res_bind (inputGetc mem ep) (\<lambda>(c, ep).
          if c < 0 then syntax_error ''Syntax Error'' ep
          else if c \<noteq> code (CHR ''*'') \<and> c \<noteq> code (CHR ''/'') then
            res_bind (inputPutback mem c ep) (add_tok mem EXPR_DIV TOK_EXPR)
          else
            res_bind (skip_comment mem c (Suc (input_left ep)) ep) (\<lambda>(closed, ep).
              if \<not> closed then syntax_error ''Syntax Error'' ep
              else
                res_bind (inputGetc mem ep) (\<lambda>(c, ep).
                  if c < 0 then Inr (TOK_EOF, ep) else lex_loop mem f state c ep)))) (token_got e p (Suc n))"
    apply (rule returns_bind [OF inputGetc_returns [OF l m]], clarify)
    subgoal premises g for c ep2
    proof (cases "c < 0")
      case True
      then show ?thesis using bad [OF ahead_line [OF got_ahead [OF g]]] by simp
    next
      case False
      then obtain j where j: "j < n" "on_line e p j (k + 1) ep2" "to_char c \<noteq> LF" using got_real [OF g] by blast
      have "returns (inputPutback mem c ep2) (on_line e p n k)"
        by (rule returns_weaken [OF inputPutback_returns [OF j(2) m _ j(3)]]) (use k j(1) in \<open>auto intro: on_line_weaken\<close>)
      then have "returns (res_bind (inputPutback mem c ep2) (add_tok mem EXPR_DIV TOK_EXPR)) (token_got e p (Suc n))"
        by (rule returns_bind) (rule add)
      then show ?thesis using False comment [OF ahead_line [OF got_ahead [OF g]]] by simp
    qed
    done
  have quote: "returns (res_bind (inputGetc mem ep) (\<lambda>(d, ep).
          if d < 0 then syntax_error ''Syntax Error'' ep else string_loop mem c (Suc (Suc (input_left ep))) d ep)) (token_got e p (Suc n))"
    apply (rule returns_bind [OF ahead_getc [OF l m]], clarify)
    subgoal for d ep2
      using bad [of ep2] returns_weaken [OF string_returns [OF m k, of e p n ep2 c d], of "token_got e p (Suc n)"] ahead_line [of e p n k d ep2] more
      by auto
    done
  have double: "returns (lex_double mem c ep) (token_got e p (Suc n))"
    by (rule returns_weaken [OF lex_double_returns [OF m k l]]) (use more in auto)
  show ?case unfolding lex_loop.simps
    by (intro returns_if blank add l double slash quote digits_return [OF m k l] lex_identifier_returns [OF m k l])
      (simp_all add: give l Suc.prems(3))
qed simp

lemma flush_tok:
  assumes "tok_ok q"
  shows "\<exists>q'. ringqFlush q = Inr q' \<and> tok_ok q' \<and> contents q' = []"
proof -
  have "rq_ok q" "maxsize q < 0" using assms by (simp_all add: tok_ok_def)
  then show ?thesis using ringqFlush_ok [of q] by (auto simp: tok_ok_def rq_cstr_def)
qed

text \<open>A pending token has its text.\<close>

definition pending_ok :: "pending \<Rightarrow> bool" where
  "pending_ok p \<longleftrightarrow> (\<forall>t. fst p = Some t \<longrightarrow> t \<noteq> TOK_ERR \<and> snd p \<noteq> None)"

lemma getLexicalToken_returns:
  assumes m: "mem_total mem" and l: "lexing ep cs k ts p" and lf: "LF \<notin> set cs" and p: "pending_ok p"
  shows "returns (getLexicalToken mem state ep) (\<lambda>(t, ep'). on_line ep (None, snd p) (max 1 (length cs)) 0 ep')"
proof -
  obtain ip where ip: "ej_input ep = Some ip" "in_ok ip" "contents (ip_script ip) = cs" "ip_lineColumn ip = k"
    "contents (ip_tokbuf ip) = ts" "(ip_putBackTokenId ip, ip_putBackToken ip) = p" using l by (auto simp: lexing_def)
  obtain q where q: "ringqFlush (ip_tokbuf ip) = Inr q" "tok_ok q" "contents q = []" using flush_tok ip(2) by (auto simp: in_ok_def)
  have in2: "in_ok (ip\<lparr>ip_tokbuf := q'\<rparr>)" if "tok_ok q'" for q' using ip(2) that by (simp add: in_ok_def line_ok_def split: option.splits)
  have k: "0 \<le> k" using lexing_col [OF l] .
  show ?thesis
  proof (cases "ip_putBackTokenId ip")
    case (Some t)
    then obtain str where t: "t \<noteq> TOK_ERR" "ip_putBackToken ip = Some str" using p ip(6) by (auto simp: pending_ok_def)
    obtain n q' where q': "ringqPutStr mem q str = Inr (n, q')" "tok_ok q'" using put_token_back [OF q(2) m] by blast
    let ?ip = "ip\<lparr>ip_tokbuf := q', ip_putBackTokenId := None\<rparr>"
    have "in_ok ?ip" using in2 [OF q'(2)] by (simp add: in_ok_def line_ok_def split: option.splits)
    then have "lexing (put_input ?ip ep2) cs k (contents q') (None, snd p)" for ep2 using ip by auto
    then have "on_line ep (None, snd p) (max 1 (length cs)) 0 (put_input ?ip (ep\<lparr>ej_tid := TOK_ERR, ej_token := [], ej_token := x\<rparr>))" for x
      using k lf by (intro on_lineI [where cs = cs and j = k and ts = "contents q'"]) simp_all
    then show ?thesis using ip(1) q(1) q'(1) t Some
      by (simp add: getLexicalToken_def the_input_def Let_def token_str_ok [OF q'(2)])
  next
    case None
    define ep0 where "ep0 = put_input (ip\<lparr>ip_tokbuf := q\<rparr>) (ep\<lparr>ej_tid := TOK_ERR, ej_token := []\<rparr>)"
    have "lexing ep0 cs k [] p" using ip in2 [OF q(2)] q(3) by (auto simp: ep0_def)
    then have l0: "on_line ep p (length cs) 0 ep0" by (intro on_lineI [where cs = cs and j = k]) (use lf k in \<open>simp_all add: ep0_def\<close>)
    have e: "getLexicalToken mem state ep = res_bind (inputGetc mem ep0) (\<lambda>(c, ep).
        if c < 0 then Inr (TOK_EOF, ep) else lex_loop mem (Suc (Suc (input_left ep))) state c ep)"
      using ip(1) q(1) None by (simp add: getLexicalToken_def the_input_def Let_def ep0_def)
    have pp: "p = (None, snd p)" using ip(6) None by auto
    have "returns (getLexicalToken mem state ep) (\<lambda>(t, ep'). on_line ep p (max 1 (length cs)) 0 ep')" unfolding e
      apply (rule returns_bind [OF inputGetc_returns [OF l0 m]], clarify)
      subgoal premises g for c ep1
      proof (cases "c < 0")
        case True
        then show ?thesis using ahead_line [OF got_ahead [OF g]] by (auto intro: on_line_weaken)
      next
        case False
        then have c: "c \<noteq> code LF" "0 < length cs" "on_line ep p (length cs - 1) 1 ep1" using g by (simp_all add: got_def)
        have "returns (lex_loop mem (Suc (Suc (input_left ep1))) state c ep1) (token_got ep p (Suc (input_left ep1)))"
          by (rule lex_loop_returns [OF m _ on_line_exact [OF c(3)]]) (simp_all add: c(1))
        then have "returns (lex_loop mem (Suc (Suc (input_left ep1))) state c ep1) (token_got ep p (max 1 (length cs)))"
          by (rule returns_weaken) (use on_line_left [OF c(3)] c(2) in \<open>auto intro: on_line_weaken\<close>)
        then show ?thesis using False by simp
      qed
      done
    then show ?thesis using pp by simp
  qed
qed

text \<open>C15. The lexical analyser is safe and ends on every script of one line, as long as memory can be
  allocated: whatever its bytes (unfinished strings and comments, invalid escapes and characters
  included), asking for a token returns one, stays inside the script, line and token buffers, leaves a
  state from which the next token can be read in the same way, and changes nothing of the engine but its
  input, token and error message.  (Without memory the analyser writes through the null pointer of a
  failed \<open>brealloc\<close>.)\<close>

theorem ejLexGetToken_safe:
  assumes "mem_total mem" and "lexing ep cs k ts p" and "LF \<notin> set cs" and "pending_ok p"
  shows "\<exists>t ep' cs' k' ts'. ejLexGetToken mem state ep = Inr (t, ep') \<and> lexing ep' cs' k' ts' (None, snd p)
    \<and> LF \<notin> set cs' \<and> length cs' \<le> max 1 (length cs) \<and> engine ep' = engine ep"
proof -
  obtain t ep' where "getLexicalToken mem state ep = Inr (t, ep')" "on_line ep (None, snd p) (max 1 (length cs)) 0 ep'"
    using getLexicalToken_returns [OF assms, of state] by (auto simp: returns_def)
  then show ?thesis by (auto simp: ejLexGetToken_def on_line_def)
qed

theorem ejLexGetToken_safe_witness:
  "\<exists>mem (ep :: unit ej). mem_total mem \<and> lexing ep (''x = '' @ [CHR 0x27]) 0 [] (None, None)
    \<and> (\<exists>t ep' cs' k' ts'. ejLexGetToken mem STATE_STMT ep = Inr (t, ep') \<and> lexing ep' cs' k' ts' (None, snd (None :: tok option, None))
       \<and> LF \<notin> set cs' \<and> length cs' \<le> max 1 (length (''x = '' @ [CHR 0x27])) \<and> engine ep' = engine ep)"
proof -
  obtain ep :: "unit ej" and mem where s: "mem_total mem" "lexing ep (''x = '' @ [CHR 0x27]) 0 [] (None, None)" by (rule a_script)
  have "LF \<notin> set (''x = '' @ [CHR 0x27])" "pending_ok (None, None)" by (simp_all add: pending_ok_def)
  from ejLexGetToken_safe [OF s this, of STATE_STMT] s show ?thesis by blast
qed

end
