(* ===== verification/Ejlex_Text.thy ===== *)
theory Ejlex_Text
  imports Ejlex_Safe
begin

text \<open>
  Which text is which token: a quoted string is read back as a literal, digits are a literal, and a number
  directly before a line feed makes the analyser write before the buffer of the line.
\<close>

section \<open>The first character\<close>

lemma first_char:
  assumes m: "mem_total mem" and l: "lexing ep (c # cs) k ts (None, b)" and c: "c \<noteq> LF"
  obtains ep1 where "getLexicalToken mem state ep = lex_loop mem (Suc (Suc (length cs))) state (code c) ep1"
    and "lexing ep1 cs (k + 1) [] (None, b)" and "engine ep1 = engine ep" and "ej_token ep1 = []"
proof -
  obtain ip where ip: "ej_input ep = Some ip" "in_ok ip" "contents (ip_script ip) = c # cs" "ip_lineColumn ip = k"
    "ip_putBackTokenId ip = None" "ip_putBackToken ip = b" using l by (auto simp: lexing_def)
  obtain q where q: "ringqFlush (ip_tokbuf ip) = Inr q" "tok_ok q" "contents q = []" using flush_tok ip(2) by (auto simp: in_ok_def)
  define ep0 where "ep0 = put_input (ip\<lparr>ip_tokbuf := q\<rparr>) (ep\<lparr>ej_tid := TOK_ERR, ej_token := []\<rparr>)"
  have "in_ok (ip\<lparr>ip_tokbuf := q\<rparr>)" using ip(2) q(2) by (simp add: in_ok_def line_ok_def split: option.splits)
  then have "lexing ep0 (c # cs) k [] (None, b)" using ip q(3) by (simp add: ep0_def)
  then obtain ep1 where e: "inputGetc mem ep0 = Inr (code c, ep1)" "lexing ep1 cs (k + 1) [] (None, b)" "engine ep1 = engine ep0" "ej_token ep1 = ej_token ep0"
    using inputGetc_char [OF _ m c] by blast
  have "getLexicalToken mem state ep = res_bind (inputGetc mem ep0) (\<lambda>(c, ep).
      if c < 0 then Inr (TOK_EOF, ep) else lex_loop mem (Suc (Suc (input_left ep))) state c ep)"
    using ip(1,5) q(1) by (simp add: getLexicalToken_def the_input_def Let_def ep0_def)
  then show thesis using that [of ep1] e lexing_left [OF e(2)] by (simp add: ep0_def del: lex_loop.simps)
qed

lemma add_char:
  assumes m: "mem_total mem" and l: "lexing ep cs k ts p" and t: "is_cstr ts" "c \<noteq> NUL"
  obtains ep1 where "tokenAddChar mem (code c) ep = Inr (0, ep1)" and "lexing ep1 cs k (ts @ [c]) p"
    and "engine ep1 = engine ep" and "ej_token ep1 = ts @ [c]"
proof -
  have "is_cstr (ts @ [c])" using t by simp
  then show thesis using that tokenAddChar_ok [OF l m, of "code c"] by auto
qed

section \<open>Strings\<close>

fun quoted :: "string \<Rightarrow> string" where
  "quoted [] = []"
| "quoted (c # cs) = (if c = CHR 0x22 \<or> c = CHR 0x5C then [CHR 0x5C, c] else [c]) @ quoted cs"

lemma quoted_lf [simp]: "LF \<in> set (quoted s) \<longleftrightarrow> LF \<in> set s"
  by (induction s) auto

lemma escape_char_self:
  assumes m: "mem_total mem" and l: "lexing ep (c # cs) k ts p" and c: "c = CHR 0x22 \<or> c = CHR 0x5C"
  obtains ep1 where "escape_char mem ep = Inr (Some (code c), ep1)" and "lexing ep1 cs (k + 1) ts p"
    and "engine ep1 = engine ep" and "ej_token ep1 = ej_token ep"
proof -
  have "c \<noteq> LF" using c by auto
  then obtain ep1 where "inputGetc mem ep = Inr (code c, ep1)" "lexing ep1 cs (k + 1) ts p" "engine ep1 = engine ep" "ej_token ep1 = ej_token ep"
    using inputGetc_char [OF l m] by blast
  moreover have "\<not> is_dig (code c)" using c by (auto simp: is_dig_def code_def uchar_def)
  ultimately show thesis using that [of ep1] c by (auto simp: escape_char_def)
qed

lemma string_loop_reads:
  assumes m: "mem_total mem"
  shows "quoted s @ CHR 0x22 # cs = c # w \<Longrightarrow> lexing ep w k ts p \<Longrightarrow> length w < f \<Longrightarrow> is_cstr (ts @ s) \<Longrightarrow> LF \<notin> set s \<Longrightarrow> ej_token ep = ts \<Longrightarrow>
    \<exists>ep' k'. string_loop mem (code (CHR 0x22)) f (code c) ep = Inr (TOK_LITERAL, ep') \<and> lexing ep' cs k' (ts @ s) p
      \<and> k \<le> k' \<and> engine ep' = engine ep \<and> ej_token ep' = ts @ s"
proof (induction s arbitrary: c w ep k ts f)
  case Nil
  then show ?case by (cases f) auto
next
  case (Cons d s)
  then obtain g where f: "f = Suc g" by (cases f) auto
  let ?q = "CHR 0x22"
  have d: "d \<noteq> NUL" "d \<noteq> LF" "is_cstr ts" "is_cstr ((ts @ [d]) @ s)" "LF \<notin> set s" using Cons.prems(4,5) by auto
  obtain c' w' where w': "quoted s @ ?q # cs = c' # w'" by (cases "quoted s") auto
  have c': "c' \<noteq> LF" using w' d(5) quoted_lf [of s] by (cases "quoted s") auto
  have "\<exists>ep1 j. (if code c = code (CHR 0x5C) then escape_char mem ep else Inr (Some (code c), ep)) = Inr (Some (code d), ep1)
      \<and> lexing ep1 (c' # w') j ts p \<and> k \<le> j \<and> engine ep1 = engine ep \<and> ej_token ep1 = ts \<and> code c \<noteq> code ?q"
  proof (cases "d = CHR 0x22 \<or> d = CHR 0x5C")
    case True
    then have w: "c = CHR 0x5C" "w = d # c' # w'" using Cons.prems(1) w' by auto
    then obtain ep1 where "escape_char mem ep = Inr (Some (code d), ep1)" "lexing ep1 (c' # w') (k + 1) ts p"
      "engine ep1 = engine ep" "ej_token ep1 = ej_token ep" using escape_char_self [OF m _ True] Cons.prems(2) by blast
    then show ?thesis using w Cons.prems(6) by (intro exI [of _ ep1] exI [of _ "k + 1"]) simp
  next
    case False
    then have w: "c = d" "w = c' # w'" using Cons.prems(1) w' by auto
    then show ?thesis using False Cons.prems(2,6) by (intro exI [of _ ep] exI [of _ k]) simp
  qed
  then obtain ep1 j where e1: "(if code c = code (CHR 0x5C) then escape_char mem ep else Inr (Some (code c), ep)) = Inr (Some (code d), ep1)"
    "lexing ep1 (c' # w') j ts p" "k \<le> j" "engine ep1 = engine ep" "ej_token ep1 = ts" "code c \<noteq> code ?q" by blast
  obtain ep2 where e2: "tokenAddChar mem (code d) ep1 = Inr (0, ep2)" "lexing ep2 (c' # w') j (ts @ [d]) p" "engine ep2 = engine ep1" "ej_token ep2 = ts @ [d]"
    using add_char [OF m e1(2) d(3,1)] .
  obtain ep3 where e3: "inputGetc mem ep2 = Inr (code c', ep3)" "lexing ep3 w' (j + 1) (ts @ [d]) p" "engine ep3 = engine ep2" "ej_token ep3 = ej_token ep2"
    using inputGetc_char [OF e2(2) m c'] by blast
  have "length w' < g"
  proof -
    have "length (c' # w') = length (quoted s @ ?q # cs)" using w' by simp
    then have "length (c' # w') \<le> length w" using Cons.prems(1) by (auto split: if_splits)
    then show ?thesis using Cons.prems(3) f by simp
  qed
  then obtain ep' k' where "string_loop mem (code ?q) g (code c') ep3 = Inr (TOK_LITERAL, ep')" "lexing ep' cs k' ((ts @ [d]) @ s) p"
    "j + 1 \<le> k'" "engine ep' = engine ep3" "ej_token ep' = (ts @ [d]) @ s"
    using Cons.IH [OF w' e3(2) _ d(4,5)] e3(4) e2(4) by fastforce
  then show ?case using e1 e2 e3 unfolding f by (intro exI [of _ ep'] exI [of _ k']) simp
qed

lemma string_literal_token:
  assumes m: "mem_total mem" and s: "is_cstr s" "LF \<notin> set s"
    and l: "lexing ep (CHR 0x22 # quoted s @ CHR 0x22 # cs) k ts (None, b)"
  obtains ep' k' where "ejLexGetToken mem state ep = Inr (TOK_LITERAL, ep')" and "ej_token ep' = s" and "lexing ep' cs k' s (None, b)"
    and "engine ep' = engine ep"
proof -
  obtain ep1 where e1: "getLexicalToken mem state ep = lex_loop mem (Suc (Suc (length (quoted s @ CHR 0x22 # cs)))) state (code (CHR 0x22)) ep1"
    "lexing ep1 (quoted s @ CHR 0x22 # cs) (k + 1) [] (None, b)" "engine ep1 = engine ep" "ej_token ep1 = []"
    using first_char [OF m l] by auto
  obtain c w where w: "quoted s @ CHR 0x22 # cs = c # w" by (cases "quoted s") auto
  have c: "c \<noteq> LF" using w s(2) quoted_lf [of s] by (cases "quoted s") auto
  obtain ep2 where e2: "inputGetc mem ep1 = Inr (code c, ep2)" "lexing ep2 w (k + 1 + 1) [] (None, b)" "engine ep2 = engine ep1" "ej_token ep2 = ej_token ep1"
    using inputGetc_char [OF _ m c] e1(2) w by metis
  obtain ep' k' where r: "string_loop mem (code (CHR 0x22)) (Suc (Suc (length w))) (code c) ep2 = Inr (TOK_LITERAL, ep')" "lexing ep' cs k' s (None, b)"
    "engine ep' = engine ep2" "ej_token ep' = s"
    using string_loop_reads [OF m w e2(2), of "Suc (Suc (length w))"] s e1(4) e2(4) by (auto simp del: string_loop.simps)
  have n: "\<not> is_blank (code (CHR 0x22))" "\<not> is_double (code (CHR 0x22))"
    by (simp_all add: is_blank_def is_double_def code_def uchar_def)
  have "lex_loop mem (Suc (Suc (length (quoted s @ CHR 0x22 # cs)))) state (code (CHR 0x22)) ep1 =
      res_bind (inputGetc mem ep1) (\<lambda>(d, ep).
        if d < 0 then syntax_error ''Syntax Error'' ep else string_loop mem (code (CHR 0x22)) (Suc (Suc (input_left ep))) d ep)"
    using n by simp
  then have "getLexicalToken mem state ep = Inr (TOK_LITERAL, ep')"
    using e1(1) e2(1) r(1) lexing_left [OF e2(2)] by (simp del: lex_loop.simps string_loop.simps)
  then show thesis using that [of "ep'\<lparr>ej_tid := TOK_LITERAL\<rparr>" k'] r e1(3) e2(3) by (simp add: ejLexGetToken_def)
qed

text \<open>C18. A quoted string is read back: the double-quoted text of any C string without line feed, with its quotes
  and backslashes escaped, is one literal token whose text is the string; what stands behind the closing
  quote is left in the script.\<close>

theorem string_literal_round_trip:
  assumes m: "mem_total mem" and s: "is_cstr s" "LF \<notin> set s"
    and l: "lexing ep (CHR 0x22 # quoted s @ CHR 0x22 # cs) k ts (None, b)"
  shows "\<exists>ep' k'. ejLexGetToken mem state ep = Inr (TOK_LITERAL, ep') \<and> ej_token ep' = s \<and> lexing ep' cs k' s (None, b)
    \<and> engine ep' = engine ep"
  using string_literal_token [OF m s l, of state] by blast

theorem string_literal_round_trip_witness:
  "\<exists>mem (ep :: unit ej). mem_total mem \<and> lexing ep (CHR 0x22 # quoted [CHR ''a'', CHR 0x5C, CHR 0x22] @ CHR 0x22 # '';'') 0 [] (None, None)
    \<and> (\<exists>ep' k'. ejLexGetToken mem STATE_EXPR ep = Inr (TOK_LITERAL, ep') \<and> ej_token ep' = [CHR ''a'', CHR 0x5C, CHR 0x22]
       \<and> lexing ep' '';'' k' [CHR ''a'', CHR 0x5C, CHR 0x22] (None, None) \<and> engine ep' = engine ep)"
proof -
  let ?s = "[CHR ''a'', CHR 0x5C, CHR 0x22]"
  obtain ep :: "unit ej" and mem where s: "mem_total mem" "lexing ep (CHR 0x22 # quoted ?s @ CHR 0x22 # '';'') 0 [] (None, None)" by (rule a_script)
  have "is_cstr ?s" "LF \<notin> set ?s" by simp_all
  from string_literal_round_trip [OF s(1) this s(2), of STATE_EXPR] s show ?thesis by blast
qed

section \<open>Numbers\<close>

lemma digit_code: "is_digit c \<longleftrightarrow> is_dig (code c)"
  by (simp add: is_digit_def is_dig_def code_def)

lemma digit_plain: "is_digit c \<Longrightarrow> c \<noteq> LF \<and> c \<noteq> NUL"
  by (auto simp: is_digit_def uchar_def)

lemma digit_loop_reads:
  assumes m: "mem_total mem" and c: "\<not> is_digit c"
  shows "lexing ep (ds @ c # cs) k ts p \<Longrightarrow> list_all is_digit (d # ds) \<Longrightarrow> length ds < f \<Longrightarrow> is_cstr ts \<Longrightarrow>
    \<exists>ep'. digit_loop mem f (code d) ep = res_bind (inputGetc mem ep') (\<lambda>(x, ep).
          if 0 \<le> x \<and> is_dig x then digit_loop mem (f - Suc (length ds)) x ep
          else res_bind (inputPutback mem x ep) (\<lambda>ep. Inr (TOK_LITERAL, ep)))
      \<and> lexing ep' (c # cs) (k + int (length ds)) (ts @ d # ds) p \<and> engine ep' = engine ep \<and> ej_token ep' = ts @ d # ds"
proof (induction ds arbitrary: d ep k ts f)
  case Nil
  then have d: "d \<noteq> NUL" using digit_plain by simp
  obtain g where f: "f = Suc g" using Nil(3) by (cases f) auto
  obtain ep1 where "tokenAddChar mem (code d) ep = Inr (0, ep1)" "lexing ep1 ([] @ c # cs) k (ts @ [d]) p" "engine ep1 = engine ep" "ej_token ep1 = ts @ [d]"
    using add_char [OF m Nil(1) Nil(4) d] by metis
  then show ?case unfolding f by (intro exI [of _ ep1]) (simp cong: if_cong)
next
  case (Cons e ds)
  then have d: "d \<noteq> NUL" "e \<noteq> LF" "is_dig (code e)" using digit_plain digit_code by auto
  obtain g where f: "f = Suc g" using Cons.prems(3) by (cases f) auto
  obtain ep1 where e1: "tokenAddChar mem (code d) ep = Inr (0, ep1)" "lexing ep1 ((e # ds) @ c # cs) k (ts @ [d]) p" "engine ep1 = engine ep" "ej_token ep1 = ts @ [d]"
    using add_char [OF m Cons.prems(1) Cons.prems(4) d(1)] by metis
  obtain ep2 where e2: "inputGetc mem ep1 = Inr (code e, ep2)" "lexing ep2 (ds @ c # cs) (k + 1) (ts @ [d]) p" "engine ep2 = engine ep1"
    using inputGetc_char [OF _ m d(2)] e1(2) by (metis append_Cons)
  have "digit_loop mem f (code d) ep = digit_loop mem g (code e) ep2" using e1(1) e2(1) d(3) by (simp add: f)
  moreover obtain ep' where "digit_loop mem g (code e) ep2 = res_bind (inputGetc mem ep') (\<lambda>(x, ep).
          if 0 \<le> x \<and> is_dig x then digit_loop mem (g - Suc (length ds)) x ep
          else res_bind (inputPutback mem x ep) (\<lambda>ep. Inr (TOK_LITERAL, ep)))"
      "lexing ep' (c # cs) (k + 1 + int (length ds)) ((ts @ [d]) @ e # ds) p" "engine ep' = engine ep2" "ej_token ep' = (ts @ [d]) @ e # ds"
    using Cons.IH [OF e2(2), of e g] Cons.prems(2-4) d(1) f by auto
  ultimately show ?case using e1(3) e2(3) f by (intro exI [of _ ep']) (simp add: ac_simps cong: if_cong)
qed

lemma number_start:
  assumes m: "mem_total mem" and c: "\<not> is_digit c" and d: "list_all is_digit (d # ds)"
    and l: "lexing ep (d # ds @ c # cs) k ts (None, b)"
  obtains ep' f where "getLexicalToken mem state ep = res_bind (inputGetc mem ep') (\<lambda>(x, ep).
      if 0 \<le> x \<and> is_dig x then digit_loop mem f x ep else res_bind (inputPutback mem x ep) (\<lambda>ep. Inr (TOK_LITERAL, ep)))"
    and "lexing ep' (c # cs) (k + 1 + int (length ds)) (d # ds) (None, b)" and "engine ep' = engine ep" and "ej_token ep' = d # ds"
proof -
  have dd: "d \<noteq> LF" "is_dig (code d)" using d digit_plain digit_code by auto
  obtain ep1 where e1: "getLexicalToken mem state ep = lex_loop mem (Suc (Suc (length (ds @ c # cs)))) state (code d) ep1"
    "lexing ep1 (ds @ c # cs) (k + 1) [] (None, b)" "engine ep1 = engine ep"
    using first_char [OF m l dd(1)] by auto
  have n: "48 \<le> code d" "code d \<le> 57" using dd(2) by (simp_all add: is_dig_def)
  have "\<not> is_blank (code d)" "\<not> is_double (code d)" using n by (auto simp: is_blank_def is_double_def code_def uchar_def)
  moreover have "code d \<notin> {code LF, code (CHR ''(''), code (CHR '')''), code (CHR ''{''), code (CHR ''}''), code (CHR ''*''), code (CHR ''%''),
      code (CHR ''/''), code (CHR '';''), code (CHR '',''), code (CHR 0x22), code (CHR 0x27)}"
    using n by (simp add: code_def uchar_def)
  ultimately have "lex_loop mem (Suc (Suc (length (ds @ c # cs)))) state (code d) ep1 = digit_loop mem (Suc (input_left ep1)) (code d) ep1"
    using dd(2) by (simp del: digit_loop.simps code_inject)
  then have "getLexicalToken mem state ep = digit_loop mem (Suc (length (ds @ c # cs))) (code d) ep1"
    using e1(1) lexing_left [OF e1(2)] by simp
  then show thesis using that digit_loop_reads [OF m c e1(2) d, of "Suc (length (ds @ c # cs))"] e1(3) by auto
qed

lemma line_feed_back:
  assumes l: "lexing ep (LF # cs) k ts p" and m: "mem_total mem"
  obtains ep' where "inputGetc mem ep = Inr (code LF, ep')" and "inputPutback mem (code LF) ep' = Inl OutOfBounds"
proof -
  obtain ip where ip: "ej_input ep = Some ip" "in_ok ip" "contents (ip_script ip) = LF # cs" using l by (auto simp: lexing_def)
  obtain q where q: "ringqGetc (ip_script ip) = Inr (code LF, q)" "rq_ok q"
    using ringqGetc_ok [of "ip_script ip"] ip(2,3) by (auto simp: in_ok_def code_def)
  have mq: "maxsize q < 0" using q(1) ip(2) by (auto simp: ringqGetc_def in_ok_def split: if_splits)
  have n: "ringqLen (ip_script ip) \<noteq> 0" using length_contents [of "ip_script ip"] ip(2,3) by (simp add: in_ok_def)
  obtain q' where q': "ringqInsertc mem q LF = Inr (0, q')" using ringqInsertc_total [OF q(2) m mq] by blast
  let ?ip = "ip\<lparr>ip_script := q, ip_lineNumber := ip_lineNumber ip + 1, ip_lineColumn := 0\<rparr>"
  have "inputGetc mem ep = Inr (code LF, put_input ?ip ep)" using ip(1) n q(1) by (simp add: inputGetc_def the_input_def in_getc_def Let_def)
  moreover have "inputPutback mem (code LF) (put_input ?ip ep) = Inl OutOfBounds"
    using q' by (simp add: inputPutback_def the_input_def in_putback_def Let_def line_put_def split: option.split)
  ultimately show thesis by (rule that)
qed

text \<open>C19. A number in front of a line feed is an error in the analyser: having read the line feed to see where
  the number ends, it puts it back at column 0 and stores a null byte before the start of the line buffer.\<close>

theorem number_before_line_feed_overruns:
  assumes m: "mem_total mem" and d: "list_all is_digit (d # ds)" and l: "lexing ep (d # ds @ LF # cs) k ts (None, b)"
  shows "ejLexGetToken mem state ep = Inl OutOfBounds"
proof -
  have lf: "\<not> is_digit LF" by (simp add: is_digit_def uchar_def)
  obtain ep' f where g: "getLexicalToken mem state ep = res_bind (inputGetc mem ep') (\<lambda>(x, ep).
      if 0 \<le> x \<and> is_dig x then digit_loop mem f x ep else res_bind (inputPutback mem x ep) (\<lambda>ep. Inr (TOK_LITERAL, ep)))"
    "lexing ep' (LF # cs) (k + 1 + int (length ds)) (d # ds) (None, b)" "engine ep' = engine ep" "ej_token ep' = d # ds"
    by (rule number_start [OF m lf d l])
  obtain ep2 where e: "inputGetc mem ep' = Inr (code LF, ep2)" "inputPutback mem (code LF) ep2 = Inl OutOfBounds"
    using line_feed_back [OF g(2) m] .
  then show ?thesis using g(1) lf by (simp add: ejLexGetToken_def digit_code)
qed

theorem number_before_line_feed_overruns_witness:
  "\<exists>mem (ep :: unit ej). mem_total mem \<and> lexing ep (''42'' @ [LF]) 0 [] (None, None) \<and> ejLexGetToken mem STATE_EXPR ep = Inl OutOfBounds"
proof -
  obtain ep :: "unit ej" and mem where s: "mem_total mem" "lexing ep (''42'' @ [LF]) 0 [] (None, None)" by (rule a_script)
  have "list_all is_digit ''42''" by (simp add: is_digit_def uchar_def)
  from number_before_line_feed_overruns [OF s(1) this, of ep "[]" 0 "[]" None STATE_EXPR] s show ?thesis by auto
qed

text \<open>In front of any other character the number is a literal.\<close>

lemma number_literal:
  assumes m: "mem_total mem" and c: "\<not> is_digit c" "c \<noteq> LF" and d: "list_all is_digit (d # ds)"
    and l: "lexing ep (d # ds @ c # cs) k ts (None, b)"
  obtains ep' k' where "ejLexGetToken mem state ep = Inr (TOK_LITERAL, ep')" and "ej_token ep' = d # ds"
    and "lexing ep' (c # cs) k' (d # ds) (None, b)" and "engine ep' = engine ep"
proof -
  obtain ep1 f where g: "getLexicalToken mem state ep = res_bind (inputGetc mem ep1) (\<lambda>(x, ep).
      if 0 \<le> x \<and> is_dig x then digit_loop mem f x ep else res_bind (inputPutback mem x ep) (\<lambda>ep. Inr (TOK_LITERAL, ep)))"
    "lexing ep1 (c # cs) (k + 1 + int (length ds)) (d # ds) (None, b)" "engine ep1 = engine ep" "ej_token ep1 = d # ds" by (rule number_start [OF m c(1) d l])
  obtain ep2 where e2: "inputGetc mem ep1 = Inr (code c, ep2)" "lexing ep2 cs (k + 1 + int (length ds) + 1) (d # ds) (None, b)"
    "engine ep2 = engine ep1" "ej_token ep2 = ej_token ep1" using inputGetc_char [OF g(2) m c(2)] by blast
  have "0 \<le> k" using lexing_col [OF l] .
  then obtain ep3 where e3: "inputPutback mem (code c) ep2 = Inr ep3" "lexing ep3 (c # cs) (k + 1 + int (length ds) + 1 - 1) (d # ds) (None, b)"
    "engine ep3 = engine ep2" "ej_token ep3 = ej_token ep2" using inputPutback_ok [OF e2(2) m, of "code c"] by auto
  have "getLexicalToken mem state ep = Inr (TOK_LITERAL, ep3)" using g(1) e2(1) e3(1) c(1) by (simp add: digit_code)
  then show thesis using that [of "ep3\<lparr>ej_tid := TOK_LITERAL\<rparr>"] e3 e2(3,4) g(3,4) by (simp add: ejLexGetToken_def)
qed

end
