(* ===== verification/Ejparse.thy ===== *)
theory Ejparse
  imports Ejlex Misc
begin

unbundle bit_operations_syntax

text \<open>
  The page script engine: \<open>user/goahead/src_tongyong/ejparse.c\<close>, a recursive descent parser that
  evaluates while it parses.  \<open>ejenv\<close> holds the memory allocator, whether there is memory for a symbol,
  the outcome of the handle allocations, and the C functions registered as script functions, by the
  integer in the function table; such a function gets the arguments and the engine.

  The functions of the parser call each other through \<open>parse\<close>; each is defined over the recursive call
  \<open>P\<close> and a bound \<open>k\<close> for its own loops, and \<open>parse\<close> ties the knot with fuel.  \<open>Blocked\<close> is a run that needs more.
  \<open>exe\<close> is the flag \<open>FLAGS_EXE\<close>.
\<close>

record 'w ejenv =
  en_mem :: allocator
  en_sym :: bool
  en_halloc :: halloc
  en_fn :: "int \<Rightarrow> string list \<Rightarrow> 'w ej \<Rightarrow> (int \<times> 'w ej) res"

type_synonym 'w parser = "pstate \<Rightarrow> bool \<Rightarrow> 'w ej \<Rightarrow> (pstate \<times> 'w ej) res"

section \<open>Results and variables\<close>

definition set_result :: "string option \<Rightarrow> 'w ej \<Rightarrow> 'w ej" where
  "set_result s ep = ep\<lparr>ej_result := Some (bstrdup s)\<rparr>"

definition the_result :: "'w ej \<Rightarrow> string res" where
  "the_result ep = (case ej_result ep of None \<Rightarrow> Inl OutOfBounds | Some r \<Rightarrow> Inr r)"

text \<open>\<open>ep->variables[i] - EJ_OFFSET\<close>\<close>

definition frame_sd :: "nat \<Rightarrow> 'w ej \<Rightarrow> int res" where
  "frame_sd i ep =
     (case ej_variables ep of
        None \<Rightarrow> Inl OutOfBounds
      | Some vs \<Rightarrow>
          if length (h_slots vs) \<le> i then Inl OutOfBounds
          else Inr (case h_slots vs ! i of Some sd \<Rightarrow> sd | None \<Rightarrow> - 1))"

definition top_frame :: "'w ej \<Rightarrow> int res" where
  "top_frame ep = (if ej_variableMax ep = 0 then Inl OutOfBounds else frame_sd (ej_variableMax ep - 1) ep)"

definition string_value :: "string option \<Rightarrow> value_t" where
  "string_value v = (case v of None \<Rightarrow> VNull | Some s \<Rightarrow> VString s)"

definition enter_var :: "'w ejenv \<Rightarrow> int \<Rightarrow> string \<Rightarrow> string option \<Rightarrow> 'w ej \<Rightarrow> 'w ej res" where
  "enter_var en sd var value ep =
     res_bind (symEnter (en_sym en) sd var (string_value value) 0 (ej_tabs ep)) (\<lambda>(sp, t). Inr (ep\<lparr>ej_tabs := t\<rparr>))"

definition ejSetLocalVar :: "'w ejenv \<Rightarrow> string \<Rightarrow> string option \<Rightarrow> 'w ej \<Rightarrow> 'w ej res" where
  "ejSetLocalVar en var value ep = res_bind (top_frame ep) (\<lambda>sd. enter_var en sd var value ep)"

definition ejSetVar :: "'w ejenv \<Rightarrow> string \<Rightarrow> string option \<Rightarrow> 'w ej \<Rightarrow> 'w ej res" where
  "ejSetVar en var value ep = res_bind (top_frame ep) (\<lambda>sd. enter_var en sd var value ep)"

definition ejSetGlobalVar :: "'w ejenv \<Rightarrow> string \<Rightarrow> string option \<Rightarrow> 'w ej \<Rightarrow> 'w ej res" where
  "ejSetGlobalVar en var value ep = res_bind (frame_sd 0 ep) (\<lambda>sd. enter_var en sd var value ep)"

text \<open>The string of a symbol's value; a number is not a pointer.\<close>

fun string_of :: "value_t \<Rightarrow> string option res" where
  "string_of (VString s) = Inr (Some s)"
| "string_of VNull = Inr None"
| "string_of (VInteger n) = Inl OutOfBounds"

text \<open>The frame found (\<open>-1\<close> for none) and the value.\<close>

definition ejGetVar :: "string \<Rightarrow> 'w ej \<Rightarrow> (int \<times> string option) res" where
  "ejGetVar var ep =
     res_bind (top_frame ep) (\<lambda>sd.
     res_bind (symLookup sd (Some var) (ej_tabs ep)) (\<lambda>sp.
     case sp of
       Some p \<Rightarrow> res_bind (string_of (s_content p)) (\<lambda>v. Inr (int (ej_variableMax ep) - 1, v))
     | None \<Rightarrow>
         res_bind (frame_sd 0 ep) (\<lambda>sd.
         res_bind (symLookup sd (Some var) (ej_tabs ep)) (\<lambda>sp.
         case sp of
           Some p \<Rightarrow> res_bind (string_of (s_content p)) (\<lambda>v. Inr (0, v))
         | None \<Rightarrow> Inr (- 1, None)))))"

text \<open>\<open>if (ejVarType > 0) ejSetLocalVar(...) else ejSetGlobalVar(...)\<close>\<close>

definition assign_var :: "'w ejenv \<Rightarrow> int \<Rightarrow> string \<Rightarrow> 'w ej \<Rightarrow> 'w ej res" where
  "assign_var en kind var ep =
     (if 0 < kind then ejSetLocalVar en var (ej_result ep) ep else ejSetGlobalVar en var (ej_result ep) ep)"

section \<open>Operations\<close>

text \<open>\<open>int\<close> has 32 bits and wraps.  \<open>atoi\<close> of the C library saturates; it sees only digits here.  The
  processor takes the low 5 bits of a shift count.\<close>

definition wrap32 :: "int \<Rightarrow> int" where
  "wrap32 n = (n + 0x80000000) mod 0x100000000 - 0x80000000"

definition num_of :: "string \<Rightarrow> int" where
  "num_of s = min (gatoi s) 0x7FFFFFFF"

definition numeric :: "string \<Rightarrow> bool" where
  "numeric s \<longleftrightarrow> list_all is_digit s"

definition b2i :: "bool \<Rightarrow> int" where
  "b2i b = (if b then 1 else 0)"

text \<open>\<open>lval\<close> for numbers, \<open>None\<close> for a bad operator.\<close>

definition num_op :: "int \<Rightarrow> int \<Rightarrow> int \<Rightarrow> int option" where
  "num_op rel l r =
     (if rel = EXPR_PLUS then Some (wrap32 (l + r))
      else if rel = EXPR_INC then Some (wrap32 (l + 1))
      else if rel = EXPR_MINUS then Some (wrap32 (l - r))
      else if rel = EXPR_DEC then Some (wrap32 (l - 1))
      else if rel = EXPR_MUL then Some (wrap32 (l * r))
      else if rel = EXPR_DIV then Some (if r \<noteq> 0 then l div r else 0)
      else if rel = EXPR_MOD then Some (if r \<noteq> 0 then l mod r else 0)
      else if rel = EXPR_LSHIFT then Some (wrap32 (l * 2 ^ nat (r mod 32)))
      else if rel = EXPR_RSHIFT then Some (l div 2 ^ nat (r mod 32))
      else if rel = EXPR_EQ then Some (b2i (l = r))
      else if rel = EXPR_NOTEQ then Some (b2i (l \<noteq> r))
      else if rel = EXPR_LESS then Some (b2i (l < r))
      else if rel = EXPR_LESSEQ then Some (b2i (l \<le> r))
      else if rel = EXPR_GREATER then Some (b2i (r < l))
      else if rel = EXPR_GREATEREQ then Some (b2i (r \<le> l))
      else if rel = EXPR_BOOL_COMP then Some (b2i (r = 0))
      else None)"

text \<open>\<open>strcmp\<close> compares unsigned characters.\<close>

fun str_less :: "string \<Rightarrow> string \<Rightarrow> bool" where
  "str_less [] [] = False"
| "str_less [] (d # ds) = True"
| "str_less (c # cs) [] = False"
| "str_less (c # cs) (d # ds) = (uchar c < uchar d \<or> (c = d \<and> str_less cs ds))"

definition str_op :: "int \<Rightarrow> string \<Rightarrow> string \<Rightarrow> int option" where
  "str_op rel l r =
     (if rel = EXPR_LESS then Some (b2i (str_less l r))
      else if rel = EXPR_LESSEQ then Some (b2i (\<not> str_less r l))
      else if rel = EXPR_GREATER then Some (b2i (str_less r l))
      else if rel = EXPR_GREATEREQ then Some (b2i (\<not> str_less l r))
      else if rel = EXPR_EQ then Some (b2i (l = r))
      else if rel = EXPR_NOTEQ then Some (b2i (l \<noteq> r))
      else None)"

definition evalExpr :: "string option \<Rightarrow> int \<Rightarrow> string option \<Rightarrow> 'w ej \<Rightarrow> (int \<times> 'w ej) res" where
  "evalExpr lhs rel rhs ep =
     (case (lhs, rhs) of
        (Some l, Some r) \<Rightarrow>
          if numeric l \<and> numeric r then
            (case num_op rel (num_of l) (num_of r) of
               None \<Rightarrow> res_bind (ejError ''Bad operator %d'' [FInt rel] ep) (\<lambda>ep. Inr (- 1, ep))
             | Some lval \<Rightarrow> Inr (0, set_result (Some (stritoa lval 16)) ep))
          else if rel = EXPR_PLUS then Inr (0, set_result (Some (l @ r)) ep)
          else
            (case str_op rel l r of
               None \<Rightarrow> res_bind (ejError ''Bad operator'' [] ep) (\<lambda>ep. Inr (- 1, ep))
             | Some lval \<Rightarrow> Inr (0, set_result (Some (stritoa lval 16)) ep))
      | _ \<Rightarrow> Inl OutOfBounds)"

definition first_digit :: "string \<Rightarrow> bool" where
  "first_digit s \<longleftrightarrow> (case s of [] \<Rightarrow> False | c # cs \<Rightarrow> is_digit c)"

definition evalCond :: "string option \<Rightarrow> int \<Rightarrow> string option \<Rightarrow> 'w ej \<Rightarrow> (int \<times> 'w ej) res" where
  "evalCond lhs rel rhs ep =
     (case (lhs, rhs) of
        (Some l, Some r) \<Rightarrow>
          if first_digit l \<and> first_digit r then
            (if rel = COND_AND then Inr (0, set_result (Some (stritoa (b2i (num_of l \<noteq> 0 \<and> num_of r \<noteq> 0)) 16)) ep)
             else if rel = COND_OR then Inr (0, set_result (Some (stritoa (b2i (num_of l \<noteq> 0 \<or> num_of r \<noteq> 0)) 16)) ep)
             else res_bind (ejError ''Bad operator %d'' [FInt rel] ep) (\<lambda>ep. Inr (- 1, ep)))
          else
            res_bind (ejError ''Conditional must be numeric'' [FStr (Some (if \<not> first_digit l then l else r))] ep) (\<lambda>ep.
              Inr (0, set_result (Some (stritoa 0 16)) ep))
      | _ \<Rightarrow> Inl OutOfBounds)"

text \<open>\<open>(int) *ep->token\<close>\<close>

definition rel_of :: "string \<Rightarrow> int" where
  "rel_of t = (case t of [] \<Rightarrow> 0 | c # cs \<Rightarrow> schar c)"

definition evalFunction :: "'w ejenv \<Rightarrow> 'w ej \<Rightarrow> (int \<times> 'w ej) res" where
  "evalFunction en ep =
     (case ej_func ep of
        None \<Rightarrow> Inl OutOfBounds
      | Some fc \<Rightarrow>
          res_bind (symLookup (ej_functions ep) (Some (fc_fname fc)) (ej_tabs ep)) (\<lambda>sp.
          case sp of
            None \<Rightarrow> res_bind (ejError ''Undefined procedure %s'' [FStr (Some (fc_fname fc))] ep) (\<lambda>ep. Inr (- 1, ep))
          | Some p \<Rightarrow>
              res_bind (value_integer (s_content p)) (\<lambda>fn.
                if fn = 0 then res_bind (ejError ''Undefined procedure %s'' [FStr (Some (fc_fname fc))] ep) (\<lambda>ep. Inr (- 1, ep))
                else en_fn en fn (fc_args fc) ep)))"

section \<open>Statements\<close>

abbreviation get_tok :: "'w ejenv \<Rightarrow> pstate \<Rightarrow> 'w ej \<Rightarrow> (tok \<times> 'w ej) res" where
  "get_tok en \<equiv> ejLexGetToken (en_mem en)"

abbreviation unget :: "tok \<Rightarrow> 'w ej \<Rightarrow> 'w ej res" where
  "unget t ep \<equiv> ejLexPutbackToken t (ej_token ep) ep"

definition fail_parse :: "'w ej \<Rightarrow> (pstate \<times> 'w ej) res" where
  "fail_parse ep = Inr (STATE_ERR, ep)"

text \<open>The token must be \<open>t\<close>.\<close>

definition expect :: "'w ejenv \<Rightarrow> pstate \<Rightarrow> tok \<Rightarrow> ('w ej \<Rightarrow> (pstate \<times> 'w ej) res) \<Rightarrow> 'w ej \<Rightarrow> (pstate \<times> 'w ej) res" where
  "expect en state t go ep =
     res_bind (get_tok en state ep) (\<lambda>(u, ep). if u \<noteq> t then fail_parse ep else go ep)"

text \<open>The recursive call must end in \<open>fin\<close>.\<close>

definition parse_to :: "'w parser \<Rightarrow> pstate \<Rightarrow> bool \<Rightarrow> pstate \<Rightarrow> ('w ej \<Rightarrow> (pstate \<times> 'w ej) res) \<Rightarrow> 'w ej \<Rightarrow> (pstate \<times> 'w ej) res" where
  "parse_to P state exe fin go ep =
     res_bind (P state exe ep) (\<lambda>(r, ep). if r \<noteq> fin then fail_parse ep else go ep)"

fun ejRemoveNewlines :: "'w ejenv \<Rightarrow> nat \<Rightarrow> pstate \<Rightarrow> 'w ej \<Rightarrow> 'w ej res" where
  "ejRemoveNewlines en 0 state ep = Inl Blocked"
| "ejRemoveNewlines en (Suc k) state ep =
     res_bind (get_tok en state ep) (\<lambda>(t, ep). if t = TOK_NEWLINE then ejRemoveNewlines en k state ep else unget t ep)"

fun stmt_result :: "pstate \<Rightarrow> pstate" where
  "stmt_result STATE_STMT = STATE_STMT_DONE"
| "stmt_result STATE_DEC = STATE_DEC_DONE"
| "stmt_result STATE_EXPR = STATE_EXPR_DONE"
| "stmt_result STATE_EOF = STATE_EOF"
| "stmt_result _ = STATE_ERR"

text \<open>The end of \<open>parseStmt\<close> behind its loop.\<close>

definition finish :: "'w ejenv \<Rightarrow> nat \<Rightarrow> pstate \<Rightarrow> bool \<Rightarrow> 'w ej \<Rightarrow> (pstate \<times> 'w ej) res" where
  "finish en k state semi ep =
     (if semi then
        res_bind (get_tok en state ep) (\<lambda>(t, ep).
          if t \<noteq> TOK_SEMI \<and> t \<noteq> TOK_NEWLINE then fail_parse ep
          else res_bind (ejRemoveNewlines en k state ep) (\<lambda>ep. Inr (stmt_result state, ep)))
      else Inr (stmt_result state, ep))"

text \<open>An identifier: an assignment, \<open>++\<close> or \<open>--\<close>, a declaration or the value of a variable.
  The boolean is false when the loop of \<open>parseStmt\<close> goes on in the error state.\<close>

definition stmt_assign :: "'w ejenv \<Rightarrow> 'w parser \<Rightarrow> nat \<Rightarrow> pstate \<Rightarrow> bool \<Rightarrow> string \<Rightarrow> 'w ej \<Rightarrow> (pstate \<times> 'w ej) res" where
  "stmt_assign en P k state exe identifier =
     parse_to P STATE_RELEXP exe STATE_RELEXP_DONE (\<lambda>ep.
       res_bind (if exe then
                   if state = STATE_DEC then ejSetLocalVar en identifier (ej_result ep) ep
                   else res_bind (ejGetVar identifier ep) (\<lambda>(kind, v). assign_var en kind identifier ep)
                 else Inr ep) (finish en k state (state = STATE_STMT)))"

definition stmt_inc_dec :: "'w ejenv \<Rightarrow> ('w ej \<Rightarrow> (pstate \<times> 'w ej) res) \<Rightarrow> nat \<Rightarrow> pstate \<Rightarrow> bool \<Rightarrow> string \<Rightarrow> 'w ej \<Rightarrow> (pstate \<times> 'w ej) res" where
  "stmt_inc_dec en again k state exe identifier ep =
     (if \<not> exe then finish en k state (state = STATE_STMT) ep
      else
        res_bind (ejGetVar identifier ep) (\<lambda>(kind, value).
          if kind < 0 then res_bind (ejError (''Undefined variable %s'' @ [LF]) [FStr (Some identifier)] ep) fail_parse
          else
            res_bind (evalExpr value (rel_of (ej_token ep)) (Some ''1'') (set_result value ep)) (\<lambda>(r, ep).
              if r < 0 then again ep
              else res_bind (assign_var en kind identifier ep) (finish en k state (state = STATE_STMT)))))"

definition stmt_name :: "'w ejenv \<Rightarrow> nat \<Rightarrow> pstate \<Rightarrow> bool \<Rightarrow> string \<Rightarrow> tok \<Rightarrow> 'w ej \<Rightarrow> (pstate \<times> 'w ej) res" where
  "stmt_name en k state exe identifier t ep =
     (let rest = (\<lambda>value ep. res_bind (unget t (set_result value ep)) (finish en k state (state = STATE_STMT))) in
      if state = STATE_DEC then
        res_bind (ejGetVar identifier ep) (\<lambda>(kind, value).
          if 0 < kind then res_bind (ejError ''Variable already declared'' [FStr (Some identifier)] ep) fail_parse
          else res_bind (ejSetLocalVar en identifier None ep) (rest value))
      else if exe then
        res_bind (ejGetVar identifier ep) (\<lambda>(kind, value).
          if kind < 0 then res_bind (ejError (''Undefined variable %s'' @ [LF]) [FStr (Some identifier)] ep) fail_parse
          else rest value ep)
      else rest None ep)"

definition stmt_id :: "'w ejenv \<Rightarrow> 'w parser \<Rightarrow> ('w ej \<Rightarrow> (pstate \<times> 'w ej) res) \<Rightarrow> nat \<Rightarrow> pstate \<Rightarrow> bool \<Rightarrow> 'w ej \<Rightarrow> (pstate \<times> 'w ej) res" where
  "stmt_id en P again k state exe ep =
     (let identifier = ej_token ep in
      res_bind (get_tok en state ep) (\<lambda>(t, ep).
        if t = TOK_ASSIGNMENT then stmt_assign en P k state exe identifier ep
        else if t = TOK_INC_DEC then stmt_inc_dec en again k state exe identifier ep
        else stmt_name en k state exe identifier t ep))"

text \<open>A function call.  \<open>saveFunc\<close> is only set when \<open>ep->func\<close> is not null, which gives the same value.\<close>

definition stmt_call :: "'w ejenv \<Rightarrow> 'w parser \<Rightarrow> nat \<Rightarrow> pstate \<Rightarrow> bool \<Rightarrow> 'w ej \<Rightarrow> (pstate \<times> 'w ej) res" where
  "stmt_call en P k state exe ep =
     (let saveFunc = ej_func ep;
          ep = set_result (Some []) (ep\<lparr>ej_func := Some \<lparr>fc_fname = ej_token ep, fc_args = []\<rparr>\<rparr>) in
      expect en state TOK_LPAREN (\<lambda>ep.
        res_bind (P STATE_ARG_LIST exe ep) (\<lambda>(r, ep).
          if r \<noteq> STATE_ARG_LIST_DONE then fail_parse (ep\<lparr>ej_func := saveFunc\<rparr>)
          else
            res_bind (if exe then evalFunction en ep else Inr (0, ep)) (\<lambda>(n, ep).
              if n < 0 then fail_parse (ep\<lparr>ej_func := saveFunc\<rparr>)
              else expect en state TOK_RPAREN (finish en k state (state = STATE_STMT)) (ep\<lparr>ej_func := saveFunc\<rparr>)))) ep)"

text \<open>\<open>*ep->result == c\<close>\<close>

definition result_is :: "byte \<Rightarrow> 'w ej \<Rightarrow> bool res" where
  "result_is c ep = res_bind (the_result ep) (\<lambda>r. Inr (hd (r @ [NUL]) = c))"

text \<open>A branch of a conditional: a \<open>return\<close> ends the statement.\<close>

definition branch :: "'w parser \<Rightarrow> bool \<Rightarrow> ('w ej \<Rightarrow> (pstate \<times> 'w ej) res) \<Rightarrow> 'w ej \<Rightarrow> (pstate \<times> 'w ej) res" where
  "branch P exe go ep =
     res_bind (P STATE_STMT exe ep) (\<lambda>(r, ep).
       if r = STATE_RET then Inr (STATE_RET, ep) else if r \<noteq> STATE_STMT_DONE then fail_parse ep else go ep)"

definition stmt_if :: "'w ejenv \<Rightarrow> 'w parser \<Rightarrow> nat \<Rightarrow> pstate \<Rightarrow> bool \<Rightarrow> 'w ej \<Rightarrow> (pstate \<times> 'w ej) res" where
  "stmt_if en P k state exe ep =
     (if state \<noteq> STATE_STMT then fail_parse ep
      else
        expect en state TOK_LPAREN (parse_to P STATE_COND exe STATE_COND_DONE (expect en state TOK_RPAREN (\<lambda>ep.
          res_bind (result_is (CHR ''1'') ep) (\<lambda>yes.
            branch P (exe \<and> yes) (\<lambda>ep.
              res_bind (ejRemoveNewlines en k state ep) (\<lambda>ep.
              res_bind (get_tok en state ep) (\<lambda>(t, ep).
                if t \<noteq> TOK_ELSE then res_bind (unget t ep) (finish en k state False)
                else branch P (exe \<and> \<not> yes) (finish en k state False) ep))) ep)))) ep)"

fun for_loop :: "'w parser \<Rightarrow> nat \<Rightarrow> ejinput \<Rightarrow> ejinput \<Rightarrow> ejinput \<Rightarrow> bool \<Rightarrow> ('w ej \<Rightarrow> (pstate \<times> 'w ej) res) \<Rightarrow> 'w ej \<Rightarrow> (pstate \<times> 'w ej) res" where
  "for_loop P 0 condScript incrScript bodyScript cond go ep = Inl Blocked"
| "for_loop P (Suc k) condScript incrScript bodyScript cond go ep =
     (if \<not> cond then go ep
      else
        res_bind (ejLexRestoreInputState bodyScript ep) (branch P True (\<lambda>ep.
        res_bind (ejLexRestoreInputState incrScript ep) (parse_to P STATE_EXPR True STATE_EXPR_DONE (\<lambda>ep.
        res_bind (ejLexRestoreInputState condScript ep) (parse_to P STATE_COND True STATE_COND_DONE (\<lambda>ep.
        res_bind (result_is (CHR ''0'') ep) (\<lambda>no.
          for_loop P k condScript incrScript bodyScript (\<not> no) go ep))))))))"

definition stmt_for :: "'w ejenv \<Rightarrow> 'w parser \<Rightarrow> nat \<Rightarrow> pstate \<Rightarrow> bool \<Rightarrow> 'w ej \<Rightarrow> (pstate \<times> 'w ej) res" where
  "stmt_for en P k state exe ep =
     (if state \<noteq> STATE_STMT then fail_parse ep
      else
        expect en state TOK_LPAREN (parse_to P STATE_EXPR exe STATE_EXPR_DONE (expect en state TOK_SEMI (\<lambda>ep.
        res_bind (ejLexSaveInputState ep) (\<lambda>condScript.
        parse_to P STATE_COND exe STATE_COND_DONE (\<lambda>ep.
        res_bind (result_is (CHR ''0'') ep) (\<lambda>no.
        expect en state TOK_SEMI (\<lambda>ep.
        res_bind (ejLexSaveInputState ep) (\<lambda>incrScript.
        parse_to P STATE_EXPR False STATE_EXPR_DONE (expect en state TOK_RPAREN (\<lambda>ep.
        res_bind (ejLexSaveInputState ep) (\<lambda>bodyScript.
        parse_to P STATE_STMT False STATE_STMT_DONE (\<lambda>ep.
        res_bind (ejLexSaveInputState ep) (\<lambda>endScript.
          for_loop P k condScript incrScript bodyScript (\<not> no \<and> exe) (\<lambda>ep.
            res_bind (ejLexRestoreInputState endScript ep) (finish en k state False)) ep)) ep))) ep)) ep)) ep)))) ep)"

fun block_loop :: "'w parser \<Rightarrow> nat \<Rightarrow> bool \<Rightarrow> 'w ej \<Rightarrow> (pstate \<times> 'w ej) res" where
  "block_loop P 0 exe ep = Inl Blocked"
| "block_loop P (Suc k) exe ep =
     res_bind (P STATE_STMT exe ep) (\<lambda>(r, ep). if r = STATE_STMT_DONE then block_loop P k exe ep else Inr (r, ep))"

definition stmt_block :: "'w ejenv \<Rightarrow> 'w parser \<Rightarrow> nat \<Rightarrow> pstate \<Rightarrow> bool \<Rightarrow> 'w ej \<Rightarrow> (pstate \<times> 'w ej) res" where
  "stmt_block en P k state exe ep =
     (if state \<noteq> STATE_STMT then fail_parse ep
      else
        res_bind (block_loop P k exe ep) (\<lambda>(r, ep).
          if r = STATE_RET then Inr (STATE_RET, ep)
          else expect en r TOK_RBRACE (\<lambda>ep. Inr (STATE_STMT_DONE, ep)) ep))"

fun skip_to_end :: "'w ejenv \<Rightarrow> nat \<Rightarrow> pstate \<Rightarrow> 'w ej \<Rightarrow> 'w ej res" where
  "skip_to_end en 0 state ep = Inl Blocked"
| "skip_to_end en (Suc k) state ep =
     res_bind (get_tok en state ep) (\<lambda>(t, ep). if t = TOK_EOF then Inr ep else skip_to_end en k state ep)"

text \<open>The loop of \<open>parseStmt\<close>.\<close>

fun stmt_loop :: "'w ejenv \<Rightarrow> 'w parser \<Rightarrow> nat \<Rightarrow> pstate \<Rightarrow> bool \<Rightarrow> 'w ej \<Rightarrow> (pstate \<times> 'w ej) res" where
  "stmt_loop en P 0 state exe ep = Inl Blocked"
| "stmt_loop en P (Suc k) state exe ep =
     res_bind (get_tok en state ep) (\<lambda>(t, ep).
       case t of
         TOK_ERR \<Rightarrow> finish en k STATE_ERR False ep
       | TOK_EOF \<Rightarrow> finish en k STATE_EOF False ep
       | TOK_NEWLINE \<Rightarrow> stmt_loop en P k state exe ep
       | TOK_SEMI \<Rightarrow> res_bind (if state \<noteq> STATE_STMT then unget t ep else Inr ep) (finish en k state False)
       | TOK_ID \<Rightarrow> stmt_id en P (stmt_loop en P k STATE_ERR exe) k state exe ep
       | TOK_LITERAL \<Rightarrow> finish en k state (state = STATE_STMT) (set_result (Some (ej_token ep)) ep)
       | TOK_FUNCTION \<Rightarrow> stmt_call en P k state exe ep
       | TOK_IF \<Rightarrow> stmt_if en P k state exe ep
       | TOK_FOR \<Rightarrow> stmt_for en P k state exe ep
       | TOK_VAR \<Rightarrow> parse_to P STATE_DEC_LIST exe STATE_DEC_LIST_DONE (finish en k state False) ep
       | TOK_LPAREN \<Rightarrow>
           if state = STATE_EXPR then
             parse_to P STATE_RELEXP exe STATE_RELEXP_DONE (expect en state TOK_RPAREN (\<lambda>ep. Inr (STATE_EXPR_DONE, ep))) ep
           else finish en k state False ep
       | TOK_RPAREN \<Rightarrow> res_bind (unget t ep) (\<lambda>ep. Inr (STATE_EXPR_DONE, ep))
       | TOK_LBRACE \<Rightarrow> stmt_block en P k state exe ep
       | TOK_RBRACE \<Rightarrow>
           if state = STATE_STMT then res_bind (unget t ep) (\<lambda>ep. Inr (STATE_STMT_BLOCK_DONE, ep)) else fail_parse ep
       | TOK_RETURN \<Rightarrow>
           parse_to P STATE_RELEXP exe STATE_RELEXP_DONE (\<lambda>ep.
             if exe then res_bind (skip_to_end en k state ep) (\<lambda>ep. Inr (STATE_RET, ep))
             else stmt_loop en P k state exe ep) ep
       | _ \<Rightarrow> res_bind (unget TOK_EXPR ep) (finish en k state False))"

section \<open>Lists and expressions\<close>

fun parseDeclaration :: "'w ejenv \<Rightarrow> 'w parser \<Rightarrow> nat \<Rightarrow> bool \<Rightarrow> 'w ej \<Rightarrow> (pstate \<times> 'w ej) res" where
  "parseDeclaration en P 0 exe ep = Inl Blocked"
| "parseDeclaration en P (Suc k) exe ep =
     expect en STATE_DEC_LIST TOK_ID (\<lambda>ep.
       res_bind (unget TOK_ID ep) (parse_to P STATE_DEC exe STATE_DEC_DONE (\<lambda>ep.
       res_bind (get_tok en STATE_DEC_LIST ep) (\<lambda>(t, ep).
         if t = TOK_SEMI then Inr (STATE_DEC_LIST_DONE, ep)
         else if t \<noteq> TOK_COMMA then fail_parse ep
         else parseDeclaration en P k exe ep)))) ep"

definition add_arg :: "'w ej \<Rightarrow> 'w ej res" where
  "add_arg ep =
     (case ej_func ep of
        None \<Rightarrow> Inl OutOfBounds
      | Some fc \<Rightarrow> Inr (ep\<lparr>ej_func := Some (fc\<lparr>fc_args := fc_args fc @ [bstrdup (ej_result ep)]\<rparr>)\<rparr>))"

fun parseArgs :: "'w ejenv \<Rightarrow> 'w parser \<Rightarrow> nat \<Rightarrow> bool \<Rightarrow> 'w ej \<Rightarrow> (pstate \<times> 'w ej) res" where
  "parseArgs en P 0 exe ep = Inl Blocked"
| "parseArgs en P (Suc k) exe ep =
     res_bind (P STATE_RELEXP exe ep) (\<lambda>(state, ep).
       if state = STATE_EOF \<or> state = STATE_ERR then Inr (state, ep)
       else
         res_bind (if state = STATE_RELEXP_DONE then add_arg ep else Inr ep) (\<lambda>ep.
         res_bind (get_tok en state ep) (\<lambda>(t, ep).
           if t = TOK_COMMA then parseArgs en P k exe ep
           else
             res_bind (unget t ep) (\<lambda>ep.
               Inr (if t \<noteq> TOK_RPAREN \<and> state \<noteq> STATE_RELEXP_DONE then STATE_ERR else STATE_ARG_LIST_DONE, ep)))))"

text \<open>\<open>lhs\<close> is the result so far, \<open>rel\<close> the last operator (0 before the first).\<close>

fun cond_loop :: "'w ejenv \<Rightarrow> 'w parser \<Rightarrow> nat \<Rightarrow> bool \<Rightarrow> string option \<Rightarrow> int \<Rightarrow> 'w ej \<Rightarrow> (pstate \<times> 'w ej) res" where
  "cond_loop en P 0 exe lhs rel ep = Inl Blocked"
| "cond_loop en P (Suc k) exe lhs rel ep =
     parse_to P STATE_RELEXP exe STATE_RELEXP_DONE (\<lambda>ep.
       res_bind (if 0 < rel then evalCond lhs rel (Some (bstrdup (ej_result ep))) ep else Inr (0, ep)) (\<lambda>(r, ep).
         if r < 0 then fail_parse ep
         else
           (let lhs = Some (bstrdup (ej_result ep)) in
            res_bind (get_tok en STATE_RELEXP_DONE ep) (\<lambda>(t, ep).
              if t = TOK_LOGICAL then cond_loop en P k exe lhs (rel_of (ej_token ep)) ep
              else if t = TOK_RPAREN \<or> t = TOK_SEMI then res_bind (unget t ep) (\<lambda>ep. Inr (STATE_COND_DONE, ep))
              else res_bind (unget t ep) (\<lambda>ep. cond_loop en P k exe lhs rel ep))))) ep"

definition parseCond :: "'w ejenv \<Rightarrow> 'w parser \<Rightarrow> nat \<Rightarrow> bool \<Rightarrow> 'w ej \<Rightarrow> (pstate \<times> 'w ej) res" where
  "parseCond en P k exe ep = cond_loop en P k exe None 0 (set_result (Some []) ep)"

text \<open>One round parses the right operand and applies the operator; \<open>logical\<close>: it is \<open>&&\<close> or \<open>||\<close>.\<close>

fun expr_loop :: "'w ejenv \<Rightarrow> 'w parser \<Rightarrow> nat \<Rightarrow> bool \<Rightarrow> string option \<Rightarrow> int \<Rightarrow> bool \<Rightarrow> 'w ej \<Rightarrow> (pstate \<times> 'w ej) res" where
  "expr_loop en P 0 exe lhs rel logical ep = Inl Blocked"
| "expr_loop en P (Suc k) exe lhs rel logical ep =
     parse_to P (if logical then STATE_RELEXP else STATE_EXPR) exe (if logical then STATE_RELEXP_DONE else STATE_EXPR_DONE) (\<lambda>ep.
       (let state = (if logical then STATE_RELEXP_DONE else STATE_EXPR_DONE); rhs = Some (bstrdup (ej_result ep)) in
        res_bind (if 0 < rel then if logical then evalCond lhs rel rhs ep else evalExpr lhs rel rhs ep else Inr (0, ep)) (\<lambda>(r, ep).
          if r < 0 then fail_parse ep
          else
            (let lhs = Some (bstrdup (ej_result ep)) in
             res_bind (get_tok en state ep) (\<lambda>(t, ep).
               if t = TOK_EXPR \<or> t = TOK_INC_DEC \<or> t = TOK_LOGICAL then
                 (if state = STATE_EXPR_DONE then expr_loop en P k exe lhs (rel_of (ej_token ep)) (t = TOK_LOGICAL) ep
                  else Inr (state, ep))
               else res_bind (unget t ep) (\<lambda>ep. Inr (STATE_RELEXP_DONE, ep))))))) ep"

definition parseExpr :: "'w ejenv \<Rightarrow> 'w parser \<Rightarrow> nat \<Rightarrow> bool \<Rightarrow> 'w ej \<Rightarrow> (pstate \<times> 'w ej) res" where
  "parseExpr en P k exe ep = expr_loop en P k exe None 0 False (set_result (Some []) ep)"

section \<open>The parser\<close>

definition allowed :: "pstate \<Rightarrow> pstate set \<Rightarrow> pstate" where
  "allowed r S = (if r \<in> S then r else STATE_ERR)"

definition parse_step :: "'w ejenv \<Rightarrow> 'w parser \<Rightarrow> nat \<Rightarrow> 'w parser" where
  "parse_step en P k state exe ep =
     res_bind
       (case state of
          STATE_STMT \<Rightarrow> res_bind (stmt_loop en P k state exe ep) (\<lambda>(r, ep).
            Inr (allowed r {STATE_STMT_DONE, STATE_EOF, STATE_STMT_BLOCK_DONE, STATE_RET}, ep))
        | STATE_DEC \<Rightarrow> res_bind (stmt_loop en P k state exe ep) (\<lambda>(r, ep). Inr (allowed r {STATE_DEC_DONE, STATE_EOF}, ep))
        | STATE_EXPR \<Rightarrow> res_bind (stmt_loop en P k state exe ep) (\<lambda>(r, ep). Inr (allowed r {STATE_EXPR_DONE, STATE_EOF}, ep))
        | STATE_DEC_LIST \<Rightarrow> parseDeclaration en P k exe ep
        | STATE_ARG_LIST \<Rightarrow> parseArgs en P k exe ep
        | STATE_COND \<Rightarrow> parseCond en P k exe ep
        | STATE_RELEXP \<Rightarrow> parseExpr en P k exe ep
        | _ \<Rightarrow> Inr (state, ep))
       (\<lambda>(r, ep).
         if r = STATE_ERR \<and> ej_error ep = None then res_bind (ejError ''Syntax error'' [] ep) (\<lambda>ep. Inr (r, ep))
         else Inr (r, ep))"

primrec parse :: "'w ejenv \<Rightarrow> nat \<Rightarrow> 'w parser" where
  "parse en 0 = (\<lambda>state exe ep. Inl Blocked)"
| "parse en (Suc k) = parse_step en (parse en k) k"

section \<open>Scripts\<close>

text \<open>\<open>seen\<close> is the position of the script queue after the previous round, \<open>same\<close> counts the rounds that
  did not move it.\<close>

fun eval_loop :: "'w ejenv \<Rightarrow> nat \<Rightarrow> nat \<Rightarrow> nat option \<Rightarrow> nat \<Rightarrow> 'w ej \<Rightarrow> (pstate \<times> 'w ej) res" where
  "eval_loop en 0 fuel seen same ep = Inl Blocked"
| "eval_loop en (Suc k) fuel seen same ep =
     res_bind (parse en fuel STATE_STMT True ep) (\<lambda>(state, ep).
     res_bind (the_input ep) (\<lambda>ip.
       (let state = (if state = STATE_RET then STATE_EOF else state); here = servp (ip_script ip) in
        res_bind
          (if seen = Some here then
             if 10 < same then res_bind (ejError ''Syntax error'' [] ep) (\<lambda>ep. Inr (STATE_ERR, seen, same + 1, ep))
             else Inr (state, seen, same + 1, ep)
           else Inr (state, Some here, 0, ep))
          (\<lambda>(state, seen, same, ep).
            if state = STATE_EOF \<or> state = STATE_ERR then Inr (state, ep) else eval_loop en k fuel seen same ep))))"

text \<open>The result and the error message, \<open>None\<close> for the null pointer.\<close>

definition ejEval :: "'w ejenv \<Rightarrow> nat \<Rightarrow> bool \<Rightarrow> string \<Rightarrow> 'w ej \<Rightarrow> (string option \<times> string option \<times> 'w ej) res" where
  "ejEval en fuel blk script ep =
     (let oldBlock = ej_input ep; ep = set_result (Some []) ep in
      res_bind (ejLexOpenScript (en_mem en) blk script ep) (\<lambda>(r, ep).
      res_bind (eval_loop en fuel fuel None 0 ep) (\<lambda>(state, ep).
      res_bind (ejLexCloseScript ep) (\<lambda>ep.
        (let ep = ep\<lparr>ej_input := oldBlock\<rparr> in
         if state = STATE_ERR then Inr (None, Some (bstrdup (ej_error ep)), ep)
         else Inr (ej_result ep, None, ep))))))"

section \<open>Engines and blocks\<close>

definition new_frame :: "'w ejenv \<Rightarrow> 'w ej \<Rightarrow> int \<times> 'w ej" where
  "new_frame en ep =
     (case hAlloc (en_halloc en) (ej_variables ep) of
        (vid, vs) \<Rightarrow>
          (vid, ep\<lparr>ej_variables := vs,
                   ej_variableMax := (if int (ej_variableMax ep) \<le> vid then nat vid + 1 else ej_variableMax ep)\<rparr>))"

definition set_frame :: "int \<Rightarrow> int \<Rightarrow> 'w ej \<Rightarrow> 'w ej" where
  "set_frame vid sd ep =
     ep\<lparr>ej_variables := map_option (\<lambda>m. m\<lparr>h_slots := (h_slots m)[nat vid := (if sd < 0 then None else Some sd)]\<rparr>) (ej_variables ep)\<rparr>"

definition ejOpenBlock :: "'w ejenv \<Rightarrow> 'w ej \<Rightarrow> (int \<times> 'w ej) res" where
  "ejOpenBlock en ep =
     (case new_frame en ep of
        (vid, ep) \<Rightarrow>
          if vid < 0 then Inr (- 1, ep)
          else
            res_bind (symOpen (en_halloc en) (en_sym en) 64 (ej_tabs ep)) (\<lambda>(sd, t).
              Inr (vid, set_frame vid sd (ep\<lparr>ej_tabs := t\<rparr>))))"

definition ejCloseBlock :: "int \<Rightarrow> 'w ej \<Rightarrow> (int \<times> 'w ej) res" where
  "ejCloseBlock vid ep =
     (if vid < 0 then Inl OutOfBounds
      else
        res_bind (frame_sd (nat vid) ep) (\<lambda>sd.
        res_bind (symClose sd (ej_tabs ep)) (\<lambda>t.
        res_bind (hFree (ej_variables ep) vid) (\<lambda>(mx, vs).
          Inr (0, ep\<lparr>ej_tabs := t, ej_variables := vs, ej_variableMax := nat mx\<rparr>)))))"

definition ejEvalBlock :: "'w ejenv \<Rightarrow> nat \<Rightarrow> bool \<Rightarrow> string \<Rightarrow> 'w ej \<Rightarrow> (string option \<times> string option \<times> 'w ej) res" where
  "ejEvalBlock en fuel blk script ep =
     res_bind (ejOpenBlock en ep) (\<lambda>(vid, ep).
     res_bind (ejEval en fuel blk script ep) (\<lambda>(r, msg, ep).
     res_bind (ejCloseBlock vid ep) (\<lambda>(n, ep). Inr (r, msg, ep))))"

end
