(* ===== verification/Ejparse_Laws.thy ===== *)
theory Ejparse_Laws
  imports Ejparse Ejlex_Text
begin

text \<open>
  What the script engine leaves alone: reading tokens changes the input, the token and the error only, and
  code that is parsed without being executed calls no function.
\<close>

section \<open>What holds if a run returns\<close>

definition ensures :: "'a res \<Rightarrow> ('a \<Rightarrow> bool) \<Rightarrow> bool" where
  "ensures m Q \<longleftrightarrow> (\<forall>x. m = Inr x \<longrightarrow> Q x)"

lemma ensures_Inr [simp]: "ensures (Inr x) Q = Q x"
  by (simp add: ensures_def)

lemma ensures_Inl [simp]: "ensures (Inl e) Q"
  by (simp add: ensures_def)

lemma ensuresD: "ensures m Q \<Longrightarrow> m = Inr x \<Longrightarrow> Q x"
  by (simp add: ensures_def)

lemma ensures_bind: "ensures m R \<Longrightarrow> (\<And>x. R x \<Longrightarrow> ensures (f x) Q) \<Longrightarrow> ensures (res_bind m f) Q"
  by (auto simp: ensures_def res_bind_Inr_iff)

lemma ensures_bind_pair: "ensures m R \<Longrightarrow> (\<And>a b. R (a, b) \<Longrightarrow> ensures (f a b) Q) \<Longrightarrow> ensures (res_bind m (\<lambda>(a, b). f a b)) Q"
  by (auto simp: ensures_def res_bind_Inr_iff)

lemma ensures_any: "ensures m (\<lambda>_. True)"
  by (simp add: ensures_def)

lemma ensures_if: "(b \<Longrightarrow> ensures x Q) \<Longrightarrow> (\<not> b \<Longrightarrow> ensures y Q) \<Longrightarrow> ensures (if b then x else y) Q"
  by simp

lemma ensures_option: "(x = None \<Longrightarrow> ensures a Q) \<Longrightarrow> (\<And>y. x = Some y \<Longrightarrow> ensures (f y) Q) \<Longrightarrow>
    ensures (case x of None \<Rightarrow> a | Some y \<Rightarrow> f y) Q"
  by (cases x) simp_all

section \<open>Reading tokens\<close>

text \<open>The same engine but for what \<open>engine\<close> forgets.\<close>

abbreviation like :: "'w ej \<Rightarrow> 'w ej \<Rightarrow> bool" where
  "like e ep \<equiv> engine ep = engine e"

abbreviation like2 :: "'w ej \<Rightarrow> 'a \<times> 'w ej \<Rightarrow> bool" where
  "like2 e \<equiv> (\<lambda>(x, ep). engine ep = engine e)"

named_theorems keeps \<open>operations of the lexical analyser that keep the engine\<close>

lemma ejError_keeps [keeps]: "like e ep \<Longrightarrow> ensures (ejError fmt args ep) (like e)"
  by (auto simp: ensures_def ejError_def res_bind_Inr_iff split: option.splits)

lemma inputGetc_keeps [keeps]: "like e ep \<Longrightarrow> ensures (inputGetc mem ep) (like2 e)"
  by (auto simp: ensures_def inputGetc_def res_bind_Inr_iff)

lemma inputPutback_keeps [keeps]: "like e ep \<Longrightarrow> ensures (inputPutback mem c ep) (like e)"
  by (auto simp: ensures_def inputPutback_def res_bind_Inr_iff)

lemma tokenAddChar_keeps [keeps]: "like e ep \<Longrightarrow> ensures (tokenAddChar mem c ep) (like2 e)"
  unfolding tokenAddChar_def
  by (intro ensures_bind [OF ensures_any] ensures_bind_pair [OF ensures_any] ensures_if ensures_bind [OF ejError_keeps]) simp_all

lemma charConvert_keeps [keeps]: "like e ep \<Longrightarrow> ensures (charConvert mem base i v ep) (like2 e)"
proof (induction i arbitrary: v ep)
  case (Suc i)
  show ?case unfolding charConvert.simps Let_def
    by (intro ensures_bind_pair [OF inputGetc_keeps] ensures_if ensures_bind [OF inputPutback_keeps] Suc.IH) (use Suc.prems in simp_all)
qed simp

lemma syntax_error_keeps [keeps]: "like e ep \<Longrightarrow> ensures (syntax_error msg ep) (like2 e)"
  unfolding syntax_error_def by (rule ensures_bind [OF ejError_keeps]) simp_all

lemma add_tok_keeps [keeps]: "like e ep \<Longrightarrow> ensures (add_tok mem c t ep) (like2 e)"
  unfolding add_tok_def by (rule ensures_bind_pair [OF tokenAddChar_keeps]) simp_all

lemma skip_chars_keeps [keeps]: "like e ep \<Longrightarrow> ensures (skip_chars mem P f ep) (like2 e)"
proof (induction f arbitrary: ep)
  case (Suc f)
  show ?case unfolding skip_chars.simps
    by (intro ensures_bind_pair [OF inputGetc_keeps] ensures_if Suc.IH) (use Suc.prems in simp_all)
qed simp

lemma skip_comment_keeps [keeps]: "like e ep \<Longrightarrow> ensures (skip_comment mem s f ep) (like2 e)"
proof (induction f arbitrary: ep)
  case (Suc f)
  show ?case unfolding skip_comment.simps
    by (intro ensures_bind_pair [OF inputGetc_keeps] ensures_if Suc.IH) (use Suc.prems in simp_all)
qed simp

lemma escape_char_keeps [keeps]: "like e ep \<Longrightarrow> ensures (escape_char mem ep) (like2 e)"
  unfolding escape_char_def
  by (intro ensures_bind_pair [OF inputGetc_keeps] ensures_if ensures_bind [OF inputPutback_keeps] ensures_bind_pair [OF charConvert_keeps]) simp_all

lemma string_loop_keeps [keeps]: "like e ep \<Longrightarrow> ensures (string_loop mem q f c ep) (like2 e)"
proof (induction f arbitrary: c ep)
  case (Suc f)
  have char: "ensures (if c = code (CHR 0x5C) then escape_char mem ep else Inr (Some c, ep)) (like2 e)"
    by (intro ensures_if escape_char_keeps) (use Suc.prems in simp_all)
  have rest: "ensures (res_bind (tokenAddChar mem d ep) (\<lambda>(r, ep).
      if r < 0 then Inr (TOK_ERR, ep)
      else res_bind (inputGetc mem ep) (\<lambda>(c, ep).
        if c < 0 then syntax_error ''Unmatched Quote'' ep else string_loop mem q f c ep))) (like2 e)" if "like e ep" for d ep
    by (intro ensures_bind_pair [OF tokenAddChar_keeps] ensures_if ensures_bind_pair [OF inputGetc_keeps] syntax_error_keeps Suc.IH)
      (use that in simp_all)
  show ?case unfolding string_loop.simps
    by (intro ensures_if ensures_bind_pair [OF char]) (use Suc.prems in \<open>auto split: option.split intro: syntax_error_keeps rest\<close>)
qed simp

lemma digit_loop_keeps [keeps]: "like e ep \<Longrightarrow> ensures (digit_loop mem f c ep) (like2 e)"
proof (induction f arbitrary: c ep)
  case (Suc f)
  show ?case unfolding digit_loop.simps
    by (intro ensures_bind_pair [OF tokenAddChar_keeps] ensures_if ensures_bind_pair [OF inputGetc_keeps]
        ensures_bind [OF inputPutback_keeps] Suc.IH) (use Suc.prems in simp_all)
qed simp

lemma ident_loop_keeps [keeps]: "like e ep \<Longrightarrow> ensures (ident_loop mem f c ep) (like2 e)"
proof (induction f arbitrary: c ep)
  case (Suc f)
  have add: "ensures (if c = code (CHR 0x5C) then Inr (0, ep) else tokenAddChar mem c ep) (like2 e)"
    by (intro ensures_if tokenAddChar_keeps) (use Suc.prems in simp_all)
  show ?case unfolding ident_loop.simps
    by (intro ensures_bind_pair [OF add] ensures_if ensures_bind_pair [OF inputGetc_keeps] Suc.IH) simp_all
qed simp

lemma lex_identifier_keeps [keeps]: "like e ep \<Longrightarrow> ensures (lex_identifier mem state c ep) (like2 e)"
proof -
  assume l: "like e ep"
  have ret: "ensures (if x then inputPutback mem c ep else Inr ep) (like e)" if "like e ep" for x c and ep
    by (intro ensures_if inputPutback_keeps) (use that in simp_all)
  have blank: "ensures (if x then skip_chars mem P (Suc (input_left ep)) ep else Inr (c, ep)) (like2 e)" if "like e ep" for x P c and ep
    by (intro ensures_if skip_chars_keeps) (use that in simp_all)
  show ?thesis unfolding lex_identifier_def
    by (intro ensures_bind_pair [OF ident_loop_keeps] ensures_bind [OF ensures_any] ensures_if ensures_bind [OF ejError_keeps]
        ensures_bind [OF ret] ensures_bind_pair [OF blank] ensures_bind [OF inputPutback_keeps]) (use l in simp_all)
qed

lemma lex_double_keeps [keeps]: "like e ep \<Longrightarrow> ensures (lex_double mem first ep) (like2 e)"
  unfolding lex_double_def
  by (intro ensures_bind_pair [OF inputGetc_keeps] ensures_if syntax_error_keeps ensures_bind [OF inputPutback_keeps] add_tok_keeps
      ensures_bind_pair [OF tokenAddChar_keeps]) simp_all

lemma lex_loop_keeps [keeps]: "like e ep \<Longrightarrow> ensures (lex_loop mem f state c ep) (like2 e)"
proof (induction f arbitrary: c ep)
  case (Suc f)
  show ?case unfolding lex_loop.simps
    by (intro ensures_if ensures_bind_pair [OF skip_chars_keeps] ensures_bind_pair [OF skip_comment_keeps] ensures_bind_pair [OF inputGetc_keeps]
        add_tok_keeps lex_double_keeps syntax_error_keeps ensures_bind [OF inputPutback_keeps] string_loop_keeps digit_loop_keeps
        lex_identifier_keeps Suc.IH) (use Suc.prems in simp_all)
qed simp

lemma getLexicalToken_keeps [keeps]: "like e ep \<Longrightarrow> ensures (getLexicalToken mem state ep) (like2 e)"
proof -
  assume l: "like e ep"
  have new: "ensures (res_bind (inputGetc mem ep) (\<lambda>(c, ep).
      if c < 0 then Inr (TOK_EOF, ep) else lex_loop mem (Suc (Suc (input_left ep))) state c ep)) (like2 e)" if "like e ep" for ep
    by (intro ensures_bind_pair [OF inputGetc_keeps] ensures_if lex_loop_keeps) (use that in simp_all)
  show ?thesis unfolding getLexicalToken_def Let_def
    by (intro ensures_bind [OF ensures_any] ensures_option ensures_if new ensures_bind_pair [OF ensures_any]) (use l in simp_all)
qed

lemma ejLexGetToken_keeps [keeps]: "like e ep \<Longrightarrow> ensures (ejLexGetToken mem state ep) (like2 e)"
  unfolding ejLexGetToken_def by (rule ensures_bind_pair [OF getLexicalToken_keeps]) simp_all

lemma ejLexPutbackToken_keeps [keeps]: "like e ep \<Longrightarrow> ensures (ejLexPutbackToken t str ep) (like e)"
  unfolding ejLexPutbackToken_def by (rule ensures_bind [OF ensures_any]) simp

lemma ejLexRestoreInputState_keeps [keeps]: "like e ep \<Longrightarrow> ensures (ejLexRestoreInputState st ep) (like e)"
  unfolding ejLexRestoreInputState_def by (intro ensures_bind [OF ensures_any] ensures_if) simp_all

section \<open>Code that is not executed\<close>

text \<open>The world of the functions, the handle of the function table, the frames of variables, and the contents of
  every symbol table but that of the innermost frame, into which \<open>var\<close> declares.\<close>

definition other_tables :: "'w ej \<Rightarrow> int \<Rightarrow> value_t sym_tabent res" where
  "other_tables ep = (\<lambda>sd. if top_frame ep = Inr sd then Inl Blocked else open_table (ej_tabs ep) sd)"

definition outside :: "'w ej \<Rightarrow> 'w \<times> int \<times> int hlist option \<times> nat \<times> (int \<Rightarrow> value_t sym_tabent res)" where
  "outside ep = (ej_world ep, ej_functions ep, ej_variables ep, ej_variableMax ep, other_tables ep)"

lemma symEnter_other:
  assumes "symEnter ok sd n v a s = Inr (sp, t)" and "k \<noteq> sd"
  shows "open_table t k = open_table s k"
proof -
  obtain tp where tp: "open_table s sd = Inr tp" using assms(1) by (auto simp: symEnter_def)
  then have sd: "0 \<le> sd" by (auto simp: open_table_def table_of_def split: option.splits if_splits)
  have "open_table (put_table sd q s) k = open_table s k" for q
  proof (cases "0 \<le> k")
    case True
    then have "nat k \<noteq> nat sd" using sd assms(2) by simp
    then show ?thesis by (auto simp: open_table_def table_of_def put_table_def split: option.splits)
  qed (auto simp: open_table_def table_of_def put_table_def split: option.splits)
  then show ?thesis using assms(1) by (auto simp: symEnter_def Let_def split: option.splits)
qed

abbreviation still :: "'w ej \<Rightarrow> 'w ej \<Rightarrow> bool" where
  "still e ep \<equiv> outside ep = outside e"

abbreviation still2 :: "'w ej \<Rightarrow> 'a \<times> 'w ej \<Rightarrow> bool" where
  "still2 e \<equiv> (\<lambda>(x, ep). outside ep = outside e)"

lemma outside_eqI:
  assumes "ej_world ep = ej_world e" "ej_functions ep = ej_functions e" "ej_variables ep = ej_variables e"
    "ej_variableMax ep = ej_variableMax e"
    and "\<And>sd. top_frame e \<noteq> Inr sd \<Longrightarrow> open_table (ej_tabs ep) sd = open_table (ej_tabs e) sd"
  shows "outside ep = outside e"
proof -
  have "top_frame ep = top_frame e" using assms(3,4) by (simp add: top_frame_def frame_sd_def)
  then have "other_tables ep = other_tables e" using assms(5) by (auto simp: other_tables_def fun_eq_iff)
  then show ?thesis using assms(1-4) by (simp add: outside_def)
qed

lemma like_still: "like e ep \<Longrightarrow> still e ep"
  by (rule outside_eqI) (auto simp: engine_def dest: arg_cong [where f = ej_world] arg_cong [where f = ej_functions]
      arg_cong [where f = ej_variables] arg_cong [where f = ej_variableMax] arg_cong [where f = ej_tabs])

lemma outside_simps [simp]: "outside (set_result r ep) = outside ep" "outside (ep\<lparr>ej_func := f\<rparr>) = outside ep"
  by (rule outside_eqI; simp add: set_result_def)+

lemma get_tok_still: "still e ep \<Longrightarrow> ensures (get_tok en state ep) (still2 e)"
  using ejLexGetToken_keeps [of ep ep "en_mem en" state] like_still by (fastforce simp: ensures_def)

lemma ejError_still: "still e ep \<Longrightarrow> ensures (ejError fmt args ep) (still e)"
  using ejError_keeps [of ep ep fmt args] like_still by (fastforce simp: ensures_def)

lemma unget_still: "still e ep \<Longrightarrow> ensures (ejLexPutbackToken t str ep) (still e)"
  using ejLexPutbackToken_keeps [of ep ep t str] like_still by (fastforce simp: ensures_def)

lemma restore_still: "still e ep \<Longrightarrow> ensures (ejLexRestoreInputState st ep) (still e)"
  using ejLexRestoreInputState_keeps [of ep ep st] like_still by (fastforce simp: ensures_def)

lemma declare_still: "still e ep \<Longrightarrow> ensures (ejSetLocalVar en var v ep) (still e)"
proof -
  have "still ep ep'" if "ejSetLocalVar en var v ep = Inr ep'" for ep'
  proof -
    obtain sd sp t where t: "top_frame ep = Inr sd" "symEnter (en_sym en) sd var (string_value v) 0 (ej_tabs ep) = Inr (sp, t)"
      "ep' = ep\<lparr>ej_tabs := t\<rparr>" using \<open>ejSetLocalVar en var v ep = Inr ep'\<close> by (auto simp: ejSetLocalVar_def enter_var_def)
    show ?thesis using symEnter_other [OF t(2)] t(1) by (intro outside_eqI) (auto simp: t(3))
  qed
  then show "still e ep \<Longrightarrow> ensures (ejSetLocalVar en var v ep) (still e)" by (auto simp: ensures_def)
qed

lemma evalExpr_still: "still e ep \<Longrightarrow> ensures (evalExpr l rel r ep) (still2 e)"
  unfolding evalExpr_def
  by (cases l; cases r) (simp_all, intro ensures_if conjI impI ensures_option ensures_bind [OF ejError_still], simp_all)

lemma evalCond_still: "still e ep \<Longrightarrow> ensures (evalCond l rel r ep) (still2 e)"
  unfolding evalCond_def
  by (cases l; cases r) (simp_all, intro ensures_if conjI impI ensures_bind [OF ejError_still], simp_all)

lemma fail_still: "still e ep \<Longrightarrow> ensures (fail_parse ep) (still2 e)"
  by (simp add: fail_parse_def)

lemma expect_still:
  "still e ep \<Longrightarrow> (\<And>ep. still e ep \<Longrightarrow> ensures (go ep) (still2 e)) \<Longrightarrow> ensures (expect en state t go ep) (still2 e)"
  unfolding expect_def by (intro ensures_bind_pair [OF get_tok_still] ensures_if fail_still) simp_all

lemma ejRemoveNewlines_still: "still e ep \<Longrightarrow> ensures (ejRemoveNewlines en k state ep) (still e)"
proof (induction k arbitrary: ep)
  case (Suc k)
  show ?case unfolding ejRemoveNewlines.simps
    by (intro ensures_bind_pair [OF get_tok_still] ensures_if Suc.IH unget_still) (use Suc.prems in simp_all)
qed simp

lemma finish_still: "still e ep \<Longrightarrow> ensures (finish en k state semi ep) (still2 e)"
  unfolding finish_def
  by (intro ensures_if ensures_bind_pair [OF get_tok_still] fail_still ensures_bind [OF ejRemoveNewlines_still]) simp_all

text \<open>A parser that is quiet on skipped code.\<close>

definition quiet :: "'w parser \<Rightarrow> bool" where
  "quiet P \<longleftrightarrow> (\<forall>state ep. ensures (P state False ep) (still2 ep))"

lemma quiet_still: "quiet P \<Longrightarrow> still e ep \<Longrightarrow> ensures (P state False ep) (still2 e)"
  unfolding quiet_def ensures_def by fastforce

lemma parse_to_still:
  "quiet P \<Longrightarrow> still e ep \<Longrightarrow> (\<And>ep. still e ep \<Longrightarrow> ensures (go ep) (still2 e)) \<Longrightarrow> ensures (parse_to P state False fin go ep) (still2 e)"
  unfolding parse_to_def by (intro ensures_bind_pair [OF quiet_still] ensures_if fail_still) simp_all

lemma branch_still:
  "quiet P \<Longrightarrow> still e ep \<Longrightarrow> (\<And>ep. still e ep \<Longrightarrow> ensures (go ep) (still2 e)) \<Longrightarrow> ensures (branch P False go ep) (still2 e)"
  unfolding branch_def by (intro ensures_bind_pair [OF quiet_still] ensures_if fail_still) simp_all

lemma stmt_id_still:
  assumes "quiet P" and "still e ep"
  shows "ensures (stmt_id en P again k state False ep) (still2 e)"
  unfolding stmt_id_def stmt_assign_def stmt_inc_dec_def stmt_name_def Let_def if_False res_bind.simps not_False_eq_True if_True
  by (intro ensures_bind_pair [OF get_tok_still] ensures_if parse_to_still ensures_bind_pair [OF ensures_any]
      finish_still ensures_bind [OF unget_still] ensures_bind [OF ejError_still] ensures_bind [OF declare_still] fail_still)
    (use assms in simp_all)

lemma stmt_call_still:
  assumes "quiet P" and "still e ep"
  shows "ensures (stmt_call en P k state False ep) (still2 e)"
  unfolding stmt_call_def Let_def if_False
  by (intro expect_still ensures_bind_pair [OF quiet_still] ensures_if fail_still ensures_bind_pair [of _ "still2 e"] finish_still)
    (use assms in simp_all)

lemma stmt_if_still:
  assumes "quiet P" and "still e ep"
  shows "ensures (stmt_if en P k state False ep) (still2 e)"
  unfolding stmt_if_def simp_thms
  by (intro expect_still ensures_if fail_still parse_to_still ensures_bind [OF ensures_any] branch_still
      ensures_bind [OF ejRemoveNewlines_still] ensures_bind_pair [OF get_tok_still] ensures_bind [OF unget_still] finish_still)
    (use assms in simp_all)

lemma for_loop_stop: "ensures (for_loop P k c i b False go ep) (still2 e)" if "ensures (go ep) (still2 e)"
  using that by (cases k) simp_all

lemma stmt_for_still:
  assumes "quiet P" and "still e ep"
  shows "ensures (stmt_for en P k state False ep) (still2 e)"
  unfolding stmt_for_def simp_thms
  by (intro expect_still ensures_if fail_still parse_to_still ensures_bind [OF ensures_any] for_loop_stop ensures_bind [OF restore_still] finish_still)
    (use assms in simp_all)

lemma stmt_block_still:
  assumes "quiet P" and "still e ep"
  shows "ensures (stmt_block en P k state False ep) (still2 e)"
proof -
  have loop: "ensures (block_loop P j False ep2) (still2 e)" if "still e ep2" for j ep2
    using that
  proof (induction j arbitrary: ep2)
    case (Suc j)
    show ?case unfolding block_loop.simps
      by (intro ensures_bind_pair [OF quiet_still [OF assms(1)]] ensures_if Suc.IH) (use Suc.prems in simp_all)
  qed simp
  show ?thesis unfolding stmt_block_def
    by (intro ensures_if fail_still ensures_bind_pair [OF loop] expect_still) (use assms(2) in simp_all)
qed

lemma stmt_loop_still:
  assumes "quiet P"
  shows "still e ep \<Longrightarrow> ensures (stmt_loop en P k state False ep) (still2 e)"
proof (induction k arbitrary: state ep)
  case (Suc k)
  have done_: "ensures (res_bind (ejLexPutbackToken t s ep) (\<lambda>ep. Inr (r, ep))) (still2 e)"
    "ensures (res_bind (ejLexPutbackToken t s ep) (finish en k st semi)) (still2 e)" if "still e ep" for t s ep st semi and r :: pstate
    by (intro ensures_bind [OF unget_still] finish_still; use that in simp)+
  have tok: "ensures (case t of
         TOK_ERR \<Rightarrow> finish en k STATE_ERR False ep
       | TOK_EOF \<Rightarrow> finish en k STATE_EOF False ep
       | TOK_NEWLINE \<Rightarrow> stmt_loop en P k state False ep
       | TOK_SEMI \<Rightarrow> res_bind (if state \<noteq> STATE_STMT then unget t ep else Inr ep) (finish en k state False)
       | TOK_ID \<Rightarrow> stmt_id en P (stmt_loop en P k STATE_ERR False) k state False ep
       | TOK_LITERAL \<Rightarrow> finish en k state (state = STATE_STMT) (set_result (Some (ej_token ep)) ep)
       | TOK_FUNCTION \<Rightarrow> stmt_call en P k state False ep
       | TOK_IF \<Rightarrow> stmt_if en P k state False ep
       | TOK_FOR \<Rightarrow> stmt_for en P k state False ep
       | TOK_VAR \<Rightarrow> parse_to P STATE_DEC_LIST False STATE_DEC_LIST_DONE (finish en k state False) ep
       | TOK_LPAREN \<Rightarrow>
           if state = STATE_EXPR then
             parse_to P STATE_RELEXP False STATE_RELEXP_DONE (expect en state TOK_RPAREN (\<lambda>ep. Inr (STATE_EXPR_DONE, ep))) ep
           else finish en k state False ep
       | TOK_RPAREN \<Rightarrow> res_bind (unget t ep) (\<lambda>ep. Inr (STATE_EXPR_DONE, ep))
       | TOK_LBRACE \<Rightarrow> stmt_block en P k state False ep
       | TOK_RBRACE \<Rightarrow>
           if state = STATE_STMT then res_bind (unget t ep) (\<lambda>ep. Inr (STATE_STMT_BLOCK_DONE, ep)) else fail_parse ep
       | TOK_RETURN \<Rightarrow>
           parse_to P STATE_RELEXP False STATE_RELEXP_DONE (\<lambda>ep.
             if False then res_bind (skip_to_end en k state ep) (\<lambda>ep. Inr (STATE_RET, ep))
             else stmt_loop en P k state False ep) ep
       | _ \<Rightarrow> res_bind (unget TOK_EXPR ep) (finish en k state False)) (still2 e)" if l: "still e ep" for t ep
    using l
    by (cases t) (simp_all add: finish_still done_ stmt_id_still [OF assms] stmt_call_still [OF assms] stmt_if_still [OF assms]
        stmt_for_still [OF assms] stmt_block_still [OF assms] Suc.IH parse_to_still [OF assms] expect_still fail_still)
  show ?case unfolding stmt_loop.simps by (rule ensures_bind_pair [OF get_tok_still [OF Suc.prems]]) (rule tok, simp)
qed simp

lemma parseDeclaration_still:
  assumes "quiet P"
  shows "still e ep \<Longrightarrow> ensures (parseDeclaration en P k False ep) (still2 e)"
proof (induction k arbitrary: ep)
  case (Suc k)
  show ?case unfolding parseDeclaration.simps
    by (intro expect_still ensures_bind [OF unget_still] parse_to_still [OF assms] ensures_bind_pair [OF get_tok_still] ensures_if fail_still Suc.IH)
      (use Suc.prems in simp_all)
qed simp

lemma add_arg_still: "still e ep \<Longrightarrow> ensures (add_arg ep) (still e)"
  unfolding add_arg_def by (cases "ej_func ep") simp_all

lemma parseArgs_still:
  assumes "quiet P"
  shows "still e ep \<Longrightarrow> ensures (parseArgs en P k False ep) (still2 e)"
proof (induction k arbitrary: ep)
  case (Suc k)
  have arg: "ensures (if b then add_arg ep else Inr ep) (still e)" if "still e ep" for b ep
    using that by (cases b) (simp_all add: add_arg_still)
  show ?case unfolding parseArgs.simps
    by (intro ensures_bind_pair [OF quiet_still [OF assms]] ensures_bind [OF arg] ensures_bind_pair [OF get_tok_still] ensures_if
        ensures_bind [OF unget_still] Suc.IH) (use Suc.prems in simp_all)
qed simp

lemma cond_loop_still:
  assumes "quiet P"
  shows "still e ep \<Longrightarrow> ensures (cond_loop en P k False lhs rel ep) (still2 e)"
proof (induction k arbitrary: lhs rel ep)
  case (Suc k)
  have op: "ensures (if b then evalCond lhs rel rhs ep else Inr (0, ep)) (still2 e)" if "still e ep" for b rhs ep
    using that by (cases b) (simp_all add: evalCond_still)
  show ?case unfolding cond_loop.simps Let_def
    by (intro parse_to_still [OF assms] ensures_bind_pair [OF op] ensures_if fail_still ensures_bind_pair [OF get_tok_still]
        ensures_bind [OF unget_still] Suc.IH) (use Suc.prems in simp_all)
qed simp

lemma expr_loop_still:
  assumes "quiet P"
  shows "still e ep \<Longrightarrow> ensures (expr_loop en P k False lhs rel logical ep) (still2 e)"
proof (induction k arbitrary: lhs rel logical ep)
  case (Suc k)
  have op: "ensures (if b then if c then evalCond lhs rel rhs ep else evalExpr lhs rel rhs ep else Inr (0, ep)) (still2 e)"
    if "still e ep" for b c rhs ep
    using that by (cases b; cases c) (simp_all add: evalCond_still evalExpr_still)
  show ?case unfolding expr_loop.simps Let_def
    by (intro parse_to_still [OF assms] ensures_bind_pair [OF op] ensures_if fail_still ensures_bind_pair [OF get_tok_still]
        ensures_bind [OF unget_still] Suc.IH) (use Suc.prems in simp_all)
qed simp

lemma parse_quiet: "quiet (parse en k)"
proof (induction k)
  case 0
  then show ?case by (simp add: quiet_def)
next
  case (Suc k)
  have loop: "ensures (res_bind (stmt_loop en (parse en k) k state False ep) (\<lambda>(r, ep). Inr (allowed r S, ep))) (still2 ep)" for state S ep
    by (intro ensures_bind_pair [OF stmt_loop_still [OF Suc.IH]]) simp_all
  have body: "ensures (case state of
          STATE_STMT \<Rightarrow> res_bind (stmt_loop en (parse en k) k state False ep) (\<lambda>(r, ep).
            Inr (allowed r {STATE_STMT_DONE, STATE_EOF, STATE_STMT_BLOCK_DONE, STATE_RET}, ep))
        | STATE_DEC \<Rightarrow> res_bind (stmt_loop en (parse en k) k state False ep) (\<lambda>(r, ep). Inr (allowed r {STATE_DEC_DONE, STATE_EOF}, ep))
        | STATE_EXPR \<Rightarrow> res_bind (stmt_loop en (parse en k) k state False ep) (\<lambda>(r, ep). Inr (allowed r {STATE_EXPR_DONE, STATE_EOF}, ep))
        | STATE_DEC_LIST \<Rightarrow> parseDeclaration en (parse en k) k False ep
        | STATE_ARG_LIST \<Rightarrow> parseArgs en (parse en k) k False ep
        | STATE_COND \<Rightarrow> parseCond en (parse en k) k False ep
        | STATE_RELEXP \<Rightarrow> parseExpr en (parse en k) k False ep
        | _ \<Rightarrow> Inr (state, ep)) (still2 ep)" for state ep
    by (cases state) (simp_all add: loop parseDeclaration_still [OF Suc.IH] parseArgs_still [OF Suc.IH] parseCond_def cond_loop_still [OF Suc.IH]
        parseExpr_def expr_loop_still [OF Suc.IH])
  show ?case unfolding quiet_def parse.simps parse_step_def
    by (intro allI ensures_bind_pair [OF body] ensures_if ensures_bind [OF ejError_still]) simp_all
qed

text \<open>C16. Code that is not executed calls nothing: parsing the branch not taken, the body of a loop not entered
  or the arguments in them calls none of the functions of the page (the world they work on, whatever it is, is
  the same afterwards), opens and closes no frame of variables, and changes no symbol table, the table of
  functions included, other than the table of the innermost frame of variables, for every script and every amount
  of fuel with which the parser returns.  (That one table can change: a skipped \<open>var\<close> still declares its variable and
  overwrites one of the same name, lemma \<open>skipped_declaration_erases\<close>.)\<close>

theorem skipped_code_calls_nothing:
  assumes "parse en fuel state False ep = Inr (r, ep')"
  shows "ej_world ep' = ej_world ep \<and> ej_functions ep' = ej_functions ep \<and> ej_variables ep' = ej_variables ep
    \<and> ej_variableMax ep' = ej_variableMax ep
    \<and> (\<forall>sd. top_frame ep \<noteq> Inr sd \<longrightarrow> open_table (ej_tabs ep') sd = open_table (ej_tabs ep) sd)"
proof -
  have o: "outside ep' = outside ep" using parse_quiet [of en fuel] ensuresD [OF _ assms] unfolding quiet_def by fastforce
  then have f: "ej_world ep' = ej_world ep" "ej_functions ep' = ej_functions ep" "ej_variables ep' = ej_variables ep"
    "ej_variableMax ep' = ej_variableMax ep" "other_tables ep' = other_tables ep" by (simp_all add: outside_def)
  have "top_frame ep' = top_frame ep" using f(3,4) by (simp add: top_frame_def frame_sd_def)
  then have "open_table (ej_tabs ep') sd = open_table (ej_tabs ep) sd" if "top_frame ep \<noteq> Inr sd" for sd
    using fun_cong [OF f(5), of sd] that by (simp add: other_tables_def)
  with f show ?thesis by blast
qed

section \<open>Examples\<close>

text \<open>An engine with a variable \<open>x\<close> and a function \<open>f\<close> that clears the world, before a script.\<close>

definition demo_queue :: "nat \<Rightarrow> string \<Rightarrow> ringq" where
  "demo_queue n s = \<lparr>rq_buf = s @ replicate (n - length s) NUL, servp = 0, endp = length s, maxsize = - 1, increment = 16\<rparr>"

definition demo_engine :: "string \<Rightarrow> nat ej" where
  "demo_engine s = \<lparr>ej_input = Some \<lparr>ip_tokbuf = demo_queue 16 [], ip_script = demo_queue 32 s, ip_putBackToken = None, ip_putBackTokenId = None,
       ip_line = None, ip_lineLength = 0, ip_lineNumber = 1, ip_lineColumn = 0\<rparr>,
     ej_functions = 1, ej_variables = Some \<lparr>h_used = 1, h_slots = [Some 0]\<rparr>, ej_variableMax = 1, ej_func = None, ej_result = None,
     ej_error = None, ej_token = [], ej_tid = TOK_ERR, ej_own_variables = False, ej_own_functions = False,
     ej_tabs = \<lparr>sym = Some \<lparr>h_used = 2, h_slots = [Some \<lparr>hash_size = 1, hash_table = [[\<lparr>s_name = ''x'', s_content = VString ''1'', s_arg = 0\<rparr>]]\<rparr>,
         Some \<lparr>hash_size = 1, hash_table = [[\<lparr>s_name = ''f'', s_content = VInteger 7, s_arg = 0\<rparr>]]\<rparr>]\<rparr>,
       symMax = 2, symOpenCount = 1, htIndex = 0, next_sym = []\<rparr>, ej_world = 5\<rparr>"

definition demo_ejenv :: "nat ejenv" where
  "demo_ejenv = \<lparr>en_mem = demo_mem, en_sym = True, en_halloc = \<lparr>a_first = True, a_grow = True, a_entry = True\<rparr>,
     en_fn = (\<lambda>fn args ep. Inr (0, ep\<lparr>ej_world := 0\<rparr>))\<rparr>"

theorem skipped_code_calls_nothing_witness:
  "\<exists>r ep'. parse demo_ejenv 8 STATE_STMT False (demo_engine ''f();'') = Inr (r, ep') \<and> ej_world ep' = 5"
proof -
  have "case parse demo_ejenv 8 STATE_STMT False (demo_engine ''f();'') of Inr p \<Rightarrow> True | Inl e \<Rightarrow> False" by code_simp
  then obtain r ep' where p: "parse demo_ejenv 8 STATE_STMT False (demo_engine ''f();'') = Inr (r, ep')" by (auto split: sum.splits)
  then show ?thesis using skipped_code_calls_nothing [OF p] by (simp add: demo_engine_def)
qed

text \<open>Declarations are not skipped: \<open>var x;\<close> in a branch that is not taken erases the variable of that name
  (at the top level of a page the local frame is frame 0, for which \<open>already declared\<close> is not detected).\<close>

lemma skipped_declaration_erases:
  "ejGetVar ''x'' (demo_engine ''var x;'') = Inr (0, Some ''1'') \<and>
   (case parse demo_ejenv 8 STATE_STMT False (demo_engine ''var x;'') of
      Inr (r, ep') \<Rightarrow> r = STATE_STMT_DONE \<and> ejGetVar ''x'' ep' = Inr (0, None) | Inl e \<Rightarrow> False)"
  by code_simp

end
