(* ===== verification/Ejengine.thy ===== *)
theory Ejengine
  imports Ejparse
begin

text \<open>
  Script engines and their registered functions: the rest of \<open>user/goahead/src_tongyong/ejparse.c\<close>.  The
  array of engines (\<open>ejHandles\<close>) is not visible: an engine is passed by its record, \<open>ent\<close> says whether it was
  allocated.  The user handle of an engine is the world its functions work on.
\<close>

section \<open>Opening and closing\<close>

definition EJ_OFFSET :: int where "EJ_OFFSET = 1"

definition blank_ej :: "value_t symtabs \<Rightarrow> 'w \<Rightarrow> 'w ej" where
  "blank_ej t w =
     \<lparr>ej_input = None, ej_functions = 0, ej_variables = None, ej_variableMax = 0, ej_func = None, ej_result = None,
      ej_error = None, ej_token = [], ej_tid = TOK_ERR, ej_own_variables = False, ej_own_functions = False, ej_tabs = t, ej_world = w\<rparr>"

text \<open>\<open>variables\<close> and \<open>functions\<close> are \<open>-1\<close> for tables of the engine's own.\<close>

definition open_variables :: "'w ejenv \<Rightarrow> int \<Rightarrow> int \<Rightarrow> 'w ej \<Rightarrow> 'w ej res" where
  "open_variables en vid variables ep =
     (if variables = - 1 then
        res_bind (symOpen (en_halloc en) (en_sym en) 64 (ej_tabs ep)) (\<lambda>(sd, t).
          Inr (set_frame vid sd (ep\<lparr>ej_tabs := t, ej_own_variables := True\<rparr>)))
      else Inr (set_frame vid variables ep))"

definition open_functions :: "'w ejenv \<Rightarrow> int \<Rightarrow> 'w ej \<Rightarrow> 'w ej res" where
  "open_functions en functions ep =
     (if functions = - 1 then
        res_bind (symOpen (en_halloc en) (en_sym en) 64 (ej_tabs ep)) (\<lambda>(sd, t).
          Inr (ep\<lparr>ej_tabs := t, ej_functions := sd, ej_own_functions := True\<rparr>))
      else Inr (ep\<lparr>ej_functions := functions\<rparr>))"

definition ejOpenEngine :: "'w ejenv \<Rightarrow> bool \<Rightarrow> int \<Rightarrow> int \<Rightarrow> value_t symtabs \<Rightarrow> 'w \<Rightarrow> 'w ej option res" where
  "ejOpenEngine en ent variables functions t w =
     (if \<not> ent then Inr None
      else
        (case new_frame en (blank_ej t w) of
           (vid, ep) \<Rightarrow>
             if vid < 0 then Inr None
             else
               res_bind (open_variables en vid variables ep) (\<lambda>ep.
               res_bind (open_functions en functions ep) (\<lambda>ep.
               res_bind (ejSetGlobalVar en ''null'' None ep) (\<lambda>ep. Inr (Some ep))))))"

text \<open>\<open>for (i = ep->variableMax - 1; i >= 0; i--)\<close>; \<open>n\<close> is \<open>i + 1\<close>.\<close>

fun close_frames :: "nat \<Rightarrow> 'w ej \<Rightarrow> 'w ej res" where
  "close_frames 0 ep = Inr ep"
| "close_frames (Suc i) ep =
     res_bind (if ej_own_variables ep
               then res_bind (frame_sd i ep) (\<lambda>sd. res_bind (symClose sd (ej_tabs ep)) (\<lambda>t. Inr (ep\<lparr>ej_tabs := t\<rparr>)))
               else Inr ep) (\<lambda>ep.
     res_bind (hFree (ej_variables ep) (int i)) (\<lambda>(mx, vs).
       close_frames i (ep\<lparr>ej_variables := vs, ej_variableMax := nat mx\<rparr>)))"

text \<open>What is left of a closed engine are the tables and the world.\<close>

definition ejCloseEngine :: "'w ej \<Rightarrow> 'w ej res" where
  "ejCloseEngine ep =
     res_bind (close_frames (ej_variableMax ep) (ep\<lparr>ej_error := None, ej_result := None\<rparr>)) (\<lambda>ep.
       if ej_own_functions ep
       then res_bind (symClose (ej_functions ep) (ej_tabs ep)) (\<lambda>t. Inr (ep\<lparr>ej_tabs := t\<rparr>))
       else Inr ep)"

section \<open>Functions and variables\<close>

definition ejSetGlobalFunctionDirect :: "bool \<Rightarrow> int \<Rightarrow> string \<Rightarrow> int \<Rightarrow> value_t symtabs \<Rightarrow> (int \<times> value_t symtabs) res" where
  "ejSetGlobalFunctionDirect ok functions name fn t =
     res_bind (symEnter ok functions name (VInteger fn) 0 t) (\<lambda>(sp, t). Inr (if sp = None then - 1 else 0, t))"

definition ejSetGlobalFunction :: "'w ejenv \<Rightarrow> string \<Rightarrow> int \<Rightarrow> 'w ej \<Rightarrow> (int \<times> 'w ej) res" where
  "ejSetGlobalFunction en name fn ep =
     res_bind (ejSetGlobalFunctionDirect (en_sym en) (ej_functions ep) name fn (ej_tabs ep)) (\<lambda>(r, t).
       Inr (r, ep\<lparr>ej_tabs := t\<rparr>))"

definition ejRemoveGlobalFunction :: "string \<Rightarrow> 'w ej \<Rightarrow> (int \<times> 'w ej) res" where
  "ejRemoveGlobalFunction name ep =
     res_bind (symDelete (ej_functions ep) name (ej_tabs ep)) (\<lambda>(r, t). Inr (r, ep\<lparr>ej_tabs := t\<rparr>))"

text \<open>0 is the null pointer.\<close>

definition ejGetGlobalFunction :: "string \<Rightarrow> 'w ej \<Rightarrow> int res" where
  "ejGetGlobalFunction name ep =
     res_bind (symLookup (ej_functions ep) (Some name) (ej_tabs ep)) (\<lambda>sp.
       case sp of None \<Rightarrow> Inr 0 | Some p \<Rightarrow> value_integer (s_content p))"

definition ejSetResult :: "string option \<Rightarrow> 'w ej \<Rightarrow> 'w ej" where
  "ejSetResult s ep = set_result s ep"

definition ejGetResult :: "'w ej \<Rightarrow> string option" where
  "ejGetResult ep = ej_result ep"

definition ejGetLineNumber :: "'w ej \<Rightarrow> int res" where
  "ejGetLineNumber ep = res_bind (the_input ep) (\<lambda>ip. Inr (ip_lineNumber ip))"

text \<open>The entry of the array as it is, with \<open>EJ_OFFSET\<close> still added.\<close>

definition ejGetVariableTable :: "'w ej \<Rightarrow> int res" where
  "ejGetVariableTable ep = res_bind (frame_sd 0 ep) (\<lambda>sd. Inr (sd + EJ_OFFSET))"

definition ejGetFunctionTable :: "'w ej \<Rightarrow> int" where
  "ejGetFunctionTable ep = ej_functions ep"

section \<open>Arguments\<close>

text \<open>The argument array grows by \<open>H_INCR\<close> entries; \<open>None\<close> is a null entry.\<close>

definition arg_slots :: "string list \<Rightarrow> string option list" where
  "arg_slots args = map Some args @ replicate ((H_INCR - length args mod H_INCR) mod H_INCR) None"

datatype ejarg = ArgInt int | ArgStr string | ArgNone

text \<open>The loop stops at a null entry; nothing else marks the end of the array.  An unknown conversion
  takes an argument and stores nothing.\<close>

fun args_loop :: "string option list \<Rightarrow> nat \<Rightarrow> string \<Rightarrow> ejarg list res" where
  "args_loop argv argn [] = Inr []"
| "args_loop argv argn (c # cs) =
     (if length argv \<le> argn then Inl OutOfBounds
      else
        (case argv ! argn of
           None \<Rightarrow> Inr []
         | Some a \<Rightarrow>
             if c \<noteq> CHR ''%'' then args_loop argv argn cs
             else
               (let v = (if cs \<noteq> [] \<and> hd cs = CHR ''d'' then ArgInt (gatoi a)
                         else if cs \<noteq> [] \<and> hd cs = CHR ''s'' then ArgStr a else ArgNone) in
                res_bind (args_loop argv (Suc argn) cs) (\<lambda>vs. Inr (v # vs)))))"

text \<open>\<open>argv\<close> is the null pointer when there are no arguments.\<close>

definition ejArgs :: "string list \<Rightarrow> string \<Rightarrow> (int \<times> ejarg list) res" where
  "ejArgs args fmt =
     (if args = [] then Inr (0, [])
      else res_bind (args_loop (arg_slots args) 0 fmt) (\<lambda>vs. Inr (int (length vs), vs)))"

end
