(* ===== verification/Ejexpr.thy ===== *)
theory Ejexpr
  imports Ejparse_Laws
begin

text \<open>
  The value of an expression of numbers: \<open>parseExpr\<close> applies the operators from left to right, whatever they
  are, on the texts of the numbers.
\<close>

section \<open>One operator\<close>

text \<open>What \<open>evalExpr\<close> makes of two texts, \<open>None\<close> for \<open>Bad operator\<close>.\<close>

definition expr_op :: "int \<Rightarrow> string \<Rightarrow> string \<Rightarrow> string option" where
  "expr_op rel l r =
     (if numeric l \<and> numeric r then map_option (\<lambda>n. stritoa n 16) (num_op rel (num_of l) (num_of r))
      else if rel = EXPR_PLUS then Some (l @ r)
      else map_option (\<lambda>n. stritoa n 16) (str_op rel l r))"

lemma evalExpr_value: "expr_op rel l r = Some v \<Longrightarrow> evalExpr (Some l) rel (Some r) ep = Inr (0, set_result (Some v) ep)"
  by (auto simp: expr_op_def evalExpr_def split: if_splits)

definition op_code :: "byte \<Rightarrow> int option" where
  "op_code c = map_of [(CHR ''+'', EXPR_PLUS), (CHR ''-'', EXPR_MINUS), (CHR ''*'', EXPR_MUL), (CHR ''/'', EXPR_DIV), (CHR ''%'', EXPR_MOD),
     (CHR ''<'', EXPR_LESS), (CHR ''>'', EXPR_GREATER)] c"

lemma op_code_cases:
  assumes "op_code c = Some rel"
  obtains "c = CHR ''+''" "rel = 7" | "c = CHR ''-''" "rel = 8" | "c = CHR ''*''" "rel = 13" | "c = CHR ''/''" "rel = 9" | "c = CHR ''%''" "rel = 10"
    | "c = CHR ''<''" "rel = 1" | "c = CHR ''>''" "rel = 3"
  using assms by (auto simp: op_code_def operator_codes split: if_splits)

lemma add_code:
  assumes m: "mem_total mem" and l: "lexing ep cs k [] p" and r: "0 < rel" "rel < 16"
  obtains ep1 where "tokenAddChar mem rel ep = Inr (0, ep1)" and "lexing ep1 cs k [to_char rel] p" and "engine ep1 = engine ep"
    and "ej_token ep1 = [to_char rel]"
proof -
  have u: "uchar (to_char rel) = nat rel" using r by (simp add: to_char_def uchar_char_of)
  then have "to_char rel \<noteq> NUL" using r by (auto simp: uchar_def)
  then show thesis using that tokenAddChar_ok [OF l m, of rel] by (auto simp: cstr_part_def)
qed

lemma rel_of_code: "0 < rel \<Longrightarrow> rel < 16 \<Longrightarrow> rel_of [to_char rel] = rel"
  by (simp add: rel_of_def to_char_def schar_def uchar_char_of)

lemma engine_result: "engine ep = engine e \<Longrightarrow> ej_result ep = ej_result e"
  by (drule arg_cong [where f = ej_result]) (simp add: engine_def)

lemma blank_code [simp]: "is_blank (code c) \<longleftrightarrow> c = CHR '' '' \<or> c = CHR 0x09 \<or> c = CHR 0x0D"
proof -
  have "32 = code (CHR '' '')" "9 = code (CHR 0x09)" "13 = code (CHR 0x0D)" by (simp_all add: code_def uchar_def)
  then show ?thesis by (simp only: is_blank_def code_inject)
qed

lemma double_code [simp]: "is_double (code c) \<longleftrightarrow> c \<in> set ''+-<>=!|&''"
  by (auto simp: is_double_def simp del: set_simps list.set)

lemma operator_token:
  assumes m: "mem_total mem" and c: "op_code c = Some rel" and d: "is_digit d" and l: "lexing ep (c # d # cs) k ts (None, b)"
  obtains ep' k' where "ejLexGetToken mem state ep = Inr (TOK_EXPR, ep')" and "ej_token ep' = [to_char rel]"
    and "lexing ep' (d # cs) k' [to_char rel] (None, b)" and "engine ep' = engine ep" and "ej_result ep' = ej_result ep"
proof -
  have cl: "c \<noteq> LF" "0 < rel" "rel < 16" using c by (auto elim: op_code_cases)
  obtain ep1 where e1: "getLexicalToken mem state ep = lex_loop mem (Suc (Suc (length (d # cs)))) state (code c) ep1"
    "lexing ep1 (d # cs) (k + 1) [] (None, b)" "engine ep1 = engine ep"
    using first_char [OF m l cl(1)] by blast
  have dl: "d \<noteq> LF" "is_dig (code d)" using d digit_plain digit_code by auto
  have n: "48 \<le> code d" "code d \<le> 57" using dl(2) by (simp_all add: is_dig_def)
  have dc: "code d \<notin> {code (CHR ''+''), code (CHR ''-''), code (CHR ''<''), code (CHR ''=''), code (CHR ''>''), code (CHR ''*''), code (CHR ''/'')}"
    using n by (simp add: code_def uchar_def)
  obtain ep2 where e2: "inputGetc mem ep1 = Inr (code d, ep2)" "lexing ep2 cs (k + 1 + 1) [] (None, b)" "engine ep2 = engine ep1"
    using inputGetc_char [OF e1(2) m dl(1)] by blast
  have k: "0 < k + 1 + 1" using lexing_col [OF l] by simp
  obtain ep3 where e3: "inputPutback mem (code d) ep2 = Inr ep3" "lexing ep3 (d # cs) (k + 1) [] (None, b)" "engine ep3 = engine ep2"
    using inputPutback_ok [OF e2(2) m k, of "code d"] by (auto simp: ac_simps)
  obtain ep4 where e4: "tokenAddChar mem rel ep3 = Inr (0, ep4)" "lexing ep4 (d # cs) (k + 1) [to_char rel] (None, b)" "engine ep4 = engine ep3"
    "ej_token ep4 = [to_char rel]" using add_code [OF m e3(2) cl(2,3)] .
  obtain ep5 where e5: "tokenAddChar mem rel ep1 = Inr (0, ep5)" "lexing ep5 (d # cs) (k + 1) [to_char rel] (None, b)" "engine ep5 = engine ep1"
    "ej_token ep5 = [to_char rel]" using add_code [OF m e1(2) cl(2,3)] .
  obtain ep6 where e6: "tokenAddChar mem rel ep2 = Inr (0, ep6)" "lexing ep6 cs (k + 1 + 1) [to_char rel] (None, b)" "engine ep6 = engine ep2"
    "ej_token ep6 = [to_char rel]" using add_code [OF m e2(2) cl(2,3)] .
  obtain ep7 where e7: "inputPutback mem (code d) ep6 = Inr ep7" "lexing ep7 (d # cs) (k + 1) [to_char rel] (None, b)" "engine ep7 = engine ep6"
    "ej_token ep7 = ej_token ep6" using inputPutback_ok [OF e6(2) m k, of "code d"] by (auto simp: ac_simps)
  have "\<exists>ep'. lex_loop mem (Suc (Suc (length (d # cs)))) state (code c) ep1 = Inr (TOK_EXPR, ep') \<and> ej_token ep' = [to_char rel]
      \<and> lexing ep' (d # cs) (k + 1) [to_char rel] (None, b) \<and> engine ep' = engine ep"
    using c dc e1(3) e2(1,3) e3(1,3) e4 e5 e6 e7
    by (elim op_code_cases) (simp_all add: lex_double_def add_tok_def operator_codes)
  then obtain ep' where r: "lex_loop mem (Suc (Suc (length (d # cs)))) state (code c) ep1 = Inr (TOK_EXPR, ep')" "ej_token ep' = [to_char rel]"
    "lexing ep' (d # cs) (k + 1) [to_char rel] (None, b)" "engine ep' = engine ep" by blast
  show thesis by (rule that [of "ep'\<lparr>ej_tid := TOK_EXPR\<rparr>" "k + 1"]) (use r e1(1) engine_result [of ep' ep] in \<open>simp_all add: ejLexGetToken_def del: lex_loop.simps\<close>)
qed

section \<open>Expressions\<close>

definition char_tokens :: "(byte \<times> tok) list" where
  "char_tokens = [(CHR ''('', TOK_LPAREN), (CHR '')'', TOK_RPAREN), (CHR ''{'', TOK_LBRACE), (CHR ''}'', TOK_RBRACE), (CHR '';'', TOK_SEMI), (CHR '','', TOK_COMMA)]"

lemma char_token:
  assumes m: "mem_total mem" and c: "map_of char_tokens c = Some t" and l: "lexing ep (c # cs) k ts (None, b)"
  obtains ep' where "ejLexGetToken mem state ep = Inr (t, ep')" and "ej_token ep' = [c]"
    and "lexing ep' cs (k + 1) [c] (None, b)" and "engine ep' = engine ep"
proof -
  have n: "c \<noteq> LF" "c \<noteq> NUL" using c by (auto simp: char_tokens_def split: if_splits)
  obtain ep1 where e1: "getLexicalToken mem state ep = lex_loop mem (Suc (Suc (length cs))) state (code c) ep1"
    "lexing ep1 cs (k + 1) [] (None, b)" "engine ep1 = engine ep" "ej_token ep1 = []"
    using first_char [OF m l n(1)] by auto
  obtain ep2 where e2: "tokenAddChar mem (code c) ep1 = Inr (0, ep2)" "lexing ep2 cs (k + 1) ([] @ [c]) (None, b)"
    "engine ep2 = engine ep1" "ej_token ep2 = [] @ [c]" using add_char [OF m e1(2) _ n(2)] by auto
  have "lex_loop mem (Suc (Suc (length cs))) state (code c) ep1 = add_tok mem (code c) t ep1"
    using c by (auto simp: char_tokens_def split: if_splits)
  then have "getLexicalToken mem state ep = Inr (t, ep2)" using e1(1) e2(1) by (simp add: add_tok_def del: lex_loop.simps)
  then show thesis using that [of "ep2\<lparr>ej_tid := t\<rparr>"] e2 e1(3) by (simp add: ejLexGetToken_def)
qed

lemma char_token_simps [simp]: "map_of char_tokens (CHR ''('') = Some TOK_LPAREN" "map_of char_tokens (CHR '')'') = Some TOK_RPAREN"
  "map_of char_tokens (CHR '';'') = Some TOK_SEMI"
  by (simp_all add: char_tokens_def)

lemma lexing_set_result [simp]: "lexing (set_result r ep) cs k ts p = lexing ep cs k ts p"
  by (simp add: set_result_def)

lemma set_result_value [simp]: "ej_result (set_result r ep) = Some (bstrdup r)" "bstrdup (Some s) = s"
  by (simp_all add: set_result_def bstrdup_def)

lemma number_operand:
  assumes m: "mem_total (en_mem en)" and c: "\<not> is_digit c" "c \<noteq> LF" and d: "list_all is_digit ds" "ds \<noteq> []"
    and l: "lexing ep (ds @ c # cs) k ts (None, b)"
  obtains ep' k' where "parse en (Suc (Suc j)) STATE_EXPR exe ep = Inr (STATE_EXPR_DONE, ep')" and "ej_result ep' = Some ds"
    and "lexing ep' (c # cs) k' ds (None, b)" and "outside ep' = outside ep"
proof -
  obtain d1 ds1 where ds: "ds = d1 # ds1" using d(2) by (cases ds) auto
  obtain ep1 k1 where e1: "ejLexGetToken (en_mem en) STATE_EXPR ep = Inr (TOK_LITERAL, ep1)" "ej_token ep1 = ds" "lexing ep1 (c # cs) k1 ds (None, b)"
    "engine ep1 = engine ep" using number_literal [OF m c, of d1 ds1 ep cs k ts b STATE_EXPR] d(1) l unfolding ds by auto
  have "parse en (Suc (Suc j)) STATE_EXPR exe ep = Inr (STATE_EXPR_DONE, set_result (Some ds) ep1)"
    using e1(1,2) by (simp add: parse_step_def finish_def allowed_def)
  then show thesis using that e1(3) like_still [OF e1(4)] by simp
qed

text \<open>What an operator between two texts should give: arithmetic on the numbers, in 32 bits and with 0 for a division
  by zero, when both are written in digits alone; otherwise \<open>+\<close> joins the texts and the comparisons compare them.\<close>

definition text_op :: "byte \<Rightarrow> string \<Rightarrow> string \<Rightarrow> string option" where
  "text_op c l r =
     (if list_all is_digit l \<and> list_all is_digit r then
        (let x = num_of l; y = num_of r in
         if c = CHR ''+'' then Some (stritoa (wrap32 (x + y)) 16)
         else if c = CHR ''-'' then Some (stritoa (wrap32 (x - y)) 16)
         else if c = CHR ''*'' then Some (stritoa (wrap32 (x * y)) 16)
         else if c = CHR ''/'' then Some (stritoa (if y = 0 then 0 else x div y) 16)
         else if c = CHR ''%'' then Some (stritoa (if y = 0 then 0 else x mod y) 16)
         else if c = CHR ''<'' then Some (if x < y then ''1'' else ''0'')
         else if c = CHR ''>'' then Some (if y < x then ''1'' else ''0'')
         else None)
      else if c = CHR ''+'' then Some (l @ r)
      else if c = CHR ''<'' then Some (if str_less l r then ''1'' else ''0'')
      else if c = CHR ''>'' then Some (if str_less r l then ''1'' else ''0'')
      else None)"

lemma print_bit: "stritoa (b2i b) 16 = (if b then ''1'' else ''0'')"
proof -
  have "stritoa 1 16 = ''1''" "stritoa 0 16 = ''0''" by code_simp+
  then show ?thesis by (simp add: b2i_def)
qed

lemma text_op_code:
  assumes "text_op c l r = Some v"
  obtains rel where "op_code c = Some rel" and "expr_op rel l r = Some v"
proof -
  have n: "numeric t = list_all is_digit t" for t by (simp add: numeric_def)
  from assms show thesis unfolding text_op_def Let_def
    by (auto simp: op_code_def expr_op_def n num_op_def str_op_def operator_codes print_bit intro!: that split: if_splits)
qed

text \<open>The value of a number followed by operators and numbers.\<close>

fun expr_val :: "string \<Rightarrow> (byte \<times> string) list \<Rightarrow> string option" where
  "expr_val l [] = Some l"
| "expr_val l ((c, r) # xs) = (case text_op c l r of None \<Rightarrow> None | Some v \<Rightarrow> expr_val v xs)"

fun expr_text :: "(byte \<times> string) list \<Rightarrow> string" where
  "expr_text [] = []"
| "expr_text ((c, r) # xs) = c # r @ expr_text xs"

abbreviation numbers :: "(byte \<times> string) list \<Rightarrow> bool" where
  "numbers xs \<equiv> list_all (\<lambda>(c, r). list_all is_digit r \<and> r \<noteq> []) xs"

text \<open>One round of the loop: the operand, the operator before it, and the token behind it.\<close>

definition operate :: "string option \<Rightarrow> int \<Rightarrow> string \<Rightarrow> string option" where
  "operate lhs rel r = (if 0 < rel then (case lhs of None \<Rightarrow> None | Some l \<Rightarrow> expr_op rel l r) else Some r)"

lemma op_not_digit: "op_code c = Some rel \<Longrightarrow> \<not> is_digit c \<and> c \<noteq> LF \<and> 0 < rel \<and> rel < 16"
  by (elim op_code_cases) (simp_all add: is_digit_def uchar_def)

lemma put_back:
  assumes "lexing ep cs k ts p"
  obtains ep' where "ejLexPutbackToken t str ep = Inr ep'" and "lexing ep' cs k ts (Some t, Some str)" and "engine ep' = engine ep"
proof -
  obtain ip where ip: "ej_input ep = Some ip" "in_ok ip" "contents (ip_script ip) = cs" "ip_lineColumn ip = k" "contents (ip_tokbuf ip) = ts"
    using assms by (auto simp: lexing_def)
  have "in_ok (ip\<lparr>ip_putBackTokenId := Some t, ip_putBackToken := Some str\<rparr>)" using ip(2) by (simp add: in_ok_def line_ok_def split: option.splits)
  then show thesis using that ip by (simp add: ejLexPutbackToken_def the_input_def)
qed

lemma operate_step:
  assumes "operate lhs rel r = Some l" and "ej_result ep = Some r"
  obtains ep' where "(if 0 < rel then if False then evalCond lhs rel (Some (bstrdup (ej_result ep))) ep
        else evalExpr lhs rel (Some (bstrdup (ej_result ep))) ep else Inr (0, ep)) = Inr (0, ep')"
    and "ej_result ep' = Some l" and "outside ep' = outside ep" and "\<forall>cs k ts p. lexing ep' cs k ts p = lexing ep cs k ts p"
proof (cases "0 < rel")
  case True
  then obtain t where "lhs = Some t" "expr_op rel t r = Some l" using assms(1) by (auto simp: operate_def split: option.splits)
  then show thesis using that [of "set_result (Some l) ep"] True assms(2) by (simp add: evalExpr_value)
next
  case False
  then show thesis using that [of ep] assms by (simp add: operate_def)
qed

lemma expr_loop_value:
  assumes m: "mem_total (en_mem en)"
  shows "lexing ep (r @ expr_text xs @ CHR '';'' # cs) k ts (None, b) \<Longrightarrow> list_all is_digit r \<Longrightarrow> r \<noteq> [] \<Longrightarrow> numbers xs \<Longrightarrow>
    operate lhs rel r = Some l \<Longrightarrow> expr_val l xs = Some v \<Longrightarrow> length xs < f \<Longrightarrow>
    \<exists>ep' k'. expr_loop en (parse en (Suc (Suc j))) f exe lhs rel False ep = Inr (STATE_RELEXP_DONE, ep') \<and> ej_result ep' = Some v
      \<and> lexing ep' cs k' '';'' (Some TOK_SEMI, Some '';'') \<and> outside ep' = outside ep"
proof (induction xs arbitrary: ep r k ts lhs rel l f)
  case Nil
  then obtain g where f: "f = Suc g" by (cases f) auto
  have sc: "\<not> is_digit (CHR '';'')" "CHR '';'' \<noteq> LF" by (simp_all add: is_digit_def uchar_def)
  obtain ep1 k1 where e1: "parse en (Suc (Suc j)) STATE_EXPR exe ep = Inr (STATE_EXPR_DONE, ep1)" "ej_result ep1 = Some r"
    "lexing ep1 (CHR '';'' # cs) k1 r (None, b)" "outside ep1 = outside ep"
    by (rule number_operand [OF m sc Nil.prems(2,3)]) (use Nil.prems(1) in simp)
  obtain ep2 where e2: "(if 0 < rel then if False then evalCond lhs rel (Some (bstrdup (ej_result ep1))) ep1
      else evalExpr lhs rel (Some (bstrdup (ej_result ep1))) ep1 else Inr (0, ep1)) = Inr (0, ep2)"
    "ej_result ep2 = Some l" "outside ep2 = outside ep1" "\<forall>cs k ts p. lexing ep2 cs k ts p = lexing ep1 cs k ts p"
    by (rule operate_step [OF Nil.prems(5) e1(2)])
  obtain ep3 where e3: "get_tok en STATE_EXPR_DONE ep2 = Inr (TOK_SEMI, ep3)" "ej_token ep3 = '';''" "lexing ep3 cs (k1 + 1) '';'' (None, b)"
    "engine ep3 = engine ep2" using char_token [OF m char_token_simps(3), of ep2] e1(3) e2(4) by metis
  obtain ep4 where e4: "ejLexPutbackToken TOK_SEMI '';'' ep3 = Inr ep4" "lexing ep4 cs (k1 + 1) '';'' (Some TOK_SEMI, Some '';'')" "engine ep4 = engine ep3"
    using put_back [OF e3(3)] .
  have "expr_loop en (parse en (Suc (Suc j))) f exe lhs rel False ep = Inr (STATE_RELEXP_DONE, ep4)"
    using e1(1) e2(1) e3(1,2) e4(1) by (simp add: f parse_to_def Let_def del: parse.simps)
  moreover have "ej_result ep4 = Some v" using engine_result [OF e4(3)] engine_result [OF e3(4)] e2(2) Nil.prems(6) by simp
  moreover have "outside ep4 = outside ep" using like_still [OF e4(3)] like_still [OF e3(4)] e2(3) e1(4) by simp
  ultimately show ?case using e4(2) by blast
next
  case (Cons x xs)
  obtain c s where x: "x = (c, s)" by (cases x)
  obtain rel' l' where o: "op_code c = Some rel'" "expr_op rel' l s = Some l'" "expr_val l' xs = Some v"
    using Cons.prems(6) by (auto simp: x split: option.splits elim: text_op_code)
  have s: "list_all is_digit s" "s \<noteq> []" "numbers xs" using Cons.prems(4) by (simp_all add: x)
  obtain d ss where ds: "s = d # ss" "is_digit d" using s(1,2) by (cases s) auto
  note oc = op_not_digit [OF o(1)]
  obtain g where f: "f = Suc g" "length xs < g" using Cons.prems(7) by (cases f) auto
  have l0: "lexing ep (r @ c # s @ expr_text xs @ CHR '';'' # cs) k ts (None, b)" using Cons.prems(1) by (simp add: x)
  obtain ep1 k1 where e1: "parse en (Suc (Suc j)) STATE_EXPR exe ep = Inr (STATE_EXPR_DONE, ep1)" "ej_result ep1 = Some r"
    "lexing ep1 (c # s @ expr_text xs @ CHR '';'' # cs) k1 r (None, b)" "outside ep1 = outside ep"
    by (rule number_operand [OF m _ _ Cons.prems(2,3) l0]) (use oc in auto)
  obtain ep2 where e2: "(if 0 < rel then if False then evalCond lhs rel (Some (bstrdup (ej_result ep1))) ep1
      else evalExpr lhs rel (Some (bstrdup (ej_result ep1))) ep1 else Inr (0, ep1)) = Inr (0, ep2)"
    "ej_result ep2 = Some l" "outside ep2 = outside ep1" "\<forall>cs k ts p. lexing ep2 cs k ts p = lexing ep1 cs k ts p"
    by (rule operate_step [OF Cons.prems(5) e1(2)])
  have l2: "lexing ep2 (c # d # ss @ expr_text xs @ CHR '';'' # cs) k1 r (None, b)" using e1(3) e2(4) ds by simp
  obtain ep3 k3 where e3: "get_tok en STATE_EXPR_DONE ep2 = Inr (TOK_EXPR, ep3)" "ej_token ep3 = [to_char rel']"
    "lexing ep3 (d # ss @ expr_text xs @ CHR '';'' # cs) k3 [to_char rel'] (None, b)" "engine ep3 = engine ep2" "ej_result ep3 = ej_result ep2"
    by (rule operator_token [OF m o(1) ds(2) l2])
  have l3: "lexing ep3 (s @ expr_text xs @ CHR '';'' # cs) k3 [to_char rel'] (None, b)" using e3(3) ds by simp
  have "operate (Some l) rel' s = Some l'" using o(2) oc by (simp add: operate_def)
  from Cons.IH [OF l3 s(1,2,3) this o(3) f(2)] obtain ep' k' where r: "expr_loop en (parse en (Suc (Suc j))) g exe (Some l) rel' False ep3 = Inr (STATE_RELEXP_DONE, ep')"
    "ej_result ep' = Some v" "lexing ep' cs k' '';'' (Some TOK_SEMI, Some '';'')" "outside ep' = outside ep3" by blast
  have "expr_loop en (parse en (Suc (Suc j))) f exe lhs rel False ep = Inr (STATE_RELEXP_DONE, ep')"
    using e1(1) e2(1,2) e3(1,2,5) r(1) oc rel_of_code [of rel'] by (simp add: f parse_to_def Let_def del: parse.simps)
  moreover have "outside ep' = outside ep" using r(4) like_still [OF e3(4)] e2(3) e1(4) by simp
  ultimately show ?case using r(2,3) by blast
qed

text \<open>C17. Expressions are evaluated from left to right without precedence, on the texts of the operands: when
  memory can be allocated, a number followed by any operators of \<open>+ - * / % < >\<close> and numbers and then a
  semicolon is the operators applied one after the other, each to the text the previous one printed,
  whenever each of them has a value there (\<open>expr_val\<close>).  Two texts of digits are calculated with in 32
  bits.  A text with a minus sign is not a number: \<open>+\<close> joins it to what follows, \<open><\<close> and \<open>>\<close> compare
  the texts, and the other operators have no value on it (the theorem does not speak of them).  So
  \<open>1+2*3\<close> is 9 and \<open>3-5+4\<close> is \<open>-24\<close>.  Fuel of three more than the number of operators is enough.\<close>

theorem expressions_left_to_right:
  assumes "mem_total (en_mem en)" and "lexing ep (r @ expr_text xs @ CHR '';'' # cs) k ts (None, b)"
    and "list_all is_digit r" "r \<noteq> []" and "numbers xs" and "expr_val r xs = Some v" and "length xs + 2 < fuel"
  shows "\<exists>ep' k'. parse en fuel STATE_RELEXP exe ep = Inr (STATE_RELEXP_DONE, ep') \<and> ej_result ep' = Some v
    \<and> lexing ep' cs k' '';'' (Some TOK_SEMI, Some '';'') \<and> ej_world ep' = ej_world ep"
proof -
  obtain j where f: "fuel = Suc (Suc (Suc j))" "length xs < Suc (Suc j)"
    using assms(7) by (intro that [of "fuel - 3"]) simp_all
  have "lexing (set_result (Some []) ep) (r @ expr_text xs @ CHR '';'' # cs) k ts (None, b)" using assms(2) by simp
  moreover have "operate None 0 r = Some r" by (simp add: operate_def)
  ultimately obtain ep' k' where "expr_loop en (parse en (Suc (Suc j))) (Suc (Suc j)) exe None 0 False (set_result (Some []) ep) = Inr (STATE_RELEXP_DONE, ep')"
    "ej_result ep' = Some v" "lexing ep' cs k' '';'' (Some TOK_SEMI, Some '';'')" "outside ep' = outside (set_result (Some []) ep)"
    using expr_loop_value [OF assms(1) _ assms(3-5) _ assms(6) f(2)] by blast
  moreover have "parse en fuel = parse_step en (parse en (Suc (Suc j))) (Suc (Suc j))" by (simp only: f(1) parse.simps)
  ultimately show ?thesis
    by (intro exI [of _ ep'] exI [of _ k']) (simp add: parse_step_def parseExpr_def outside_def set_result_def del: expr_loop.simps parse.simps)
qed

theorem expressions_left_to_right_witness:
  "\<exists>en (ep :: unit ej). lexing ep ''3-5+4;'' 0 [] (None, None)
    \<and> (\<exists>ep' k'. parse en 5 STATE_RELEXP True ep = Inr (STATE_RELEXP_DONE, ep') \<and> ej_result ep' = Some ''-24''
       \<and> lexing ep' [] k' '';'' (Some TOK_SEMI, Some '';'') \<and> ej_world ep' = ej_world ep)"
proof -
  obtain ep :: "unit ej" and mem where s: "mem_total mem" "lexing ep ''3-5+4;'' 0 [] (None, None)" by (rule a_script)
  obtain en :: "unit ejenv" where en: "en_mem en = mem" by (metis ejenv.select_convs(1))
  let ?xs = "[(CHR ''-'', ''5''), (CHR ''+'', ''4'')]"
  have "mem_total (en_mem en)" using s(1) by (simp add: en)
  moreover have "lexing ep (''3'' @ expr_text ?xs @ CHR '';'' # []) 0 [] (None, None)" using s(2) by simp
  moreover have "list_all is_digit ''3''" "''3'' \<noteq> []" "numbers ?xs" by (simp_all add: is_digit_def uchar_def)
  moreover have "expr_val ''3'' ?xs = Some ''-24''" by code_simp
  moreover have "length ?xs + 2 < 5" by simp
  ultimately show ?thesis using s(2) expressions_left_to_right [of en ep "''3''" ?xs "[]" 0 "[]" None "''-24''" 5 True] by blast
qed

end
