(* ===== verification/Ejcall.thy ===== *)
theory Ejcall
  imports Ejexpr
begin

text \<open>
  A script that calls a function: \<open>name("text");\<close> runs the C function registered under the name exactly once,
  with the text, and nothing else.
\<close>

section \<open>More tokens\<close>

text \<open>What only assignments and calls change.\<close>

definition held :: "'w ej \<Rightarrow> 'w \<times> value_t symtabs \<times> int \<times> int hlist option \<times> nat \<times> bool \<times> bool" where
  "held ep = (ej_world ep, ej_tabs ep, ej_functions ep, ej_variables ep, ej_variableMax ep, ej_own_variables ep, ej_own_functions ep)"

lemma engine_held: "engine ep = engine e \<Longrightarrow> held ep = held e \<and> ej_func ep = ej_func e \<and> ej_result ep = ej_result e"
  by (auto simp: held_def engine_def dest: arg_cong [where f = ej_world] arg_cong [where f = ej_functions] arg_cong [where f = ej_tabs]
      arg_cong [where f = ej_variables] arg_cong [where f = ej_variableMax] arg_cong [where f = ej_func] arg_cong [where f = ej_own_variables] arg_cong [where f = ej_own_functions] arg_cong [where f = ej_result])

lemma held_simps [simp]: "held (set_result r ep) = held ep" "held (ep\<lparr>ej_func := f\<rparr>) = held ep" "held (ep\<lparr>ej_input := i\<rparr>) = held ep"
  "ej_func (set_result r ep) = ej_func ep"
  by (simp_all add: held_def set_result_def)

lemma lexing_func [simp]: "lexing (ep\<lparr>ej_func := f\<rparr>) cs k ts p = lexing ep cs k ts p"
  by (simp add: lexing_def)

lemma pending_token:
  assumes m: "mem_total mem" and l: "lexing ep cs k ts (Some t, Some str)" and t: "t \<noteq> TOK_ERR" "is_cstr str"
  obtains ep' where "ejLexGetToken mem state ep = Inr (t, ep')" and "ej_token ep' = str" and "lexing ep' cs k str (None, Some str)"
    and "engine ep' = engine ep"
proof -
  obtain ip where ip: "ej_input ep = Some ip" "in_ok ip" "contents (ip_script ip) = cs" "ip_lineColumn ip = k"
    "ip_putBackTokenId ip = Some t" "ip_putBackToken ip = Some str" using l by (auto simp: lexing_def)
  obtain q where q: "ringqFlush (ip_tokbuf ip) = Inr q" "tok_ok q" "contents q = []" using flush_tok ip(2) by (auto simp: in_ok_def)
  obtain n q' where q': "ringqPutStr mem q str = Inr (n, q')" "tok_ok q'" "contents q' = str" using put_token_back [OF q(2) m, of str] q(3) by auto
  let ?ip = "ip\<lparr>ip_tokbuf := q', ip_putBackTokenId := None\<rparr>"
  have "in_ok ?ip" using ip(2) q'(2) by (simp add: in_ok_def line_ok_def split: option.splits)
  then have "lexing (put_input ?ip ep2) cs k str (None, Some str)" for ep2 using ip q'(3) by auto
  then show thesis
    using that [of "put_input ?ip (ep\<lparr>ej_tid := TOK_ERR, ej_token := [], ej_token := str\<rparr>)\<lparr>ej_tid := t\<rparr>"] ip q(1) q'(1,3) t
    by (simp add: ejLexGetToken_def getLexicalToken_def the_input_def Let_def token_str_ok [OF q'(2)])
qed

lemma eof_token:
  assumes l: "lexing ep [] k ts (None, b)"
  obtains ep' where "ejLexGetToken mem state ep = Inr (TOK_EOF, ep')" and "ej_token ep' = []" and "lexing ep' [] k [] (None, b)"
    and "engine ep' = engine ep"
proof -
  obtain ip where ip: "ej_input ep = Some ip" "in_ok ip" "contents (ip_script ip) = []" "ip_lineColumn ip = k"
    "ip_putBackTokenId ip = None" "ip_putBackToken ip = b" using l by (auto simp: lexing_def)
  obtain q where q: "ringqFlush (ip_tokbuf ip) = Inr q" "tok_ok q" "contents q = []" using flush_tok ip(2) by (auto simp: in_ok_def)
  define ep0 where "ep0 = put_input (ip\<lparr>ip_tokbuf := q\<rparr>) (ep\<lparr>ej_tid := TOK_ERR, ej_token := []\<rparr>)"
  have "in_ok (ip\<lparr>ip_tokbuf := q\<rparr>)" using ip(2) q(2) by (simp add: in_ok_def line_ok_def split: option.splits)
  then have l0: "lexing ep0 [] k [] (None, b)" using ip q(3) by (simp add: ep0_def)
  have "getLexicalToken mem state ep = res_bind (inputGetc mem ep0) (\<lambda>(c, ep).
      if c < 0 then Inr (TOK_EOF, ep) else lex_loop mem (Suc (Suc (input_left ep))) state c ep)"
    using ip(1,5) q(1) by (simp add: getLexicalToken_def the_input_def Let_def ep0_def)
  then have "getLexicalToken mem state ep = Inr (TOK_EOF, ep0)" using inputGetc_end [OF l0] by simp
  then show thesis using that [of "ep0\<lparr>ej_tid := TOK_EOF\<rparr>"] l0 by (simp add: ejLexGetToken_def ep0_def)
qed

definition word_char :: "byte \<Rightarrow> bool" where
  "word_char c \<longleftrightarrow> is_alnum (code c)"

lemma word_char_plain: "word_char c \<Longrightarrow> c \<noteq> LF \<and> c \<noteq> NUL \<and> c \<noteq> CHR 0x5C"
  by (auto simp: word_char_def is_alnum_def is_dig_def code_def uchar_def)

lemma ident_loop_reads:
  assumes m: "mem_total mem" and c: "c \<noteq> LF" "\<not> word_char c" "c \<noteq> CHR ''$''" "c \<noteq> CHR ''_''" "c \<noteq> CHR 0x5C"
  shows "lexing ep (w @ c # cs) k ts p \<Longrightarrow> list_all word_char (d # w) \<Longrightarrow> is_cstr ts \<Longrightarrow> length w < f \<Longrightarrow>
    \<exists>ep'. ident_loop mem f (code d) ep = Inr (code c, ep') \<and> lexing ep' cs (k + int (length w) + 1) (ts @ d # w) p
      \<and> engine ep' = engine ep \<and> ej_token ep' = ts @ d # w"
proof (induction w arbitrary: d ep k ts f)
  case Nil
  then have d: "d \<noteq> NUL" "d \<noteq> CHR 0x5C" using word_char_plain by auto
  obtain g where f: "f = Suc g" using Nil(4) by (cases f) auto
  obtain ep1 where e1: "tokenAddChar mem (code d) ep = Inr (0, ep1)" "lexing ep1 (c # cs) k (ts @ [d]) p" "engine ep1 = engine ep" "ej_token ep1 = ts @ [d]"
    using add_char [OF m Nil(1) Nil(3) d(1)] by auto
  obtain ep2 where e2: "inputGetc mem ep1 = Inr (code c, ep2)" "lexing ep2 cs (k + 1) (ts @ [d]) p" "engine ep2 = engine ep1" "ej_token ep2 = ej_token ep1"
    using inputGetc_char [OF e1(2) m c(1)] by blast
  show ?case using e1 e2 c d by (intro exI [of _ ep2]) (simp add: f word_char_def)
next
  case (Cons e w)
  then have d: "d \<noteq> NUL" "d \<noteq> CHR 0x5C" "e \<noteq> LF" using word_char_plain by auto
  obtain g where f: "f = Suc g" using Cons.prems(4) by (cases f) auto
  obtain ep1 where e1: "tokenAddChar mem (code d) ep = Inr (0, ep1)" "lexing ep1 (e # w @ c # cs) k (ts @ [d]) p" "engine ep1 = engine ep" "ej_token ep1 = ts @ [d]"
    using add_char [OF m Cons.prems(1) Cons.prems(3) d(1)] by auto
  obtain ep2 where e2: "inputGetc mem ep1 = Inr (code e, ep2)" "lexing ep2 (w @ c # cs) (k + 1) (ts @ [d]) p" "engine ep2 = engine ep1"
    using inputGetc_char [OF e1(2) m d(3)] by blast
  have "is_cstr (ts @ [d])" using Cons.prems(3) d(1) by simp
  then obtain ep' where r: "ident_loop mem g (code e) ep2 = Inr (code c, ep')" "lexing ep' cs (k + 1 + int (length w) + 1) ((ts @ [d]) @ e # w) p"
    "engine ep' = engine ep2" "ej_token ep' = (ts @ [d]) @ e # w"
    using Cons.IH [OF e2(2), of e g] Cons.prems(2,4) f by auto
  have "is_alnum (code e)" using Cons.prems(2) by (simp add: word_char_def)
  then have "ident_loop mem f (code d) ep = Inr (code c, ep')" using e1(1) e2(1) r(1) d by (simp add: f)
  then show ?case using r(2-4) e1(3) e2(3) by (intro exI [of _ ep']) (simp add: ac_simps)
qed

definition script_words :: "string list" where
  "script_words = [''if'', ''else'', ''var'', ''for'', ''return'']"

lemma contents_first: "tok_ok q \<Longrightarrow> contents q = d # w \<Longrightarrow> servp q < buflen q \<and> rq_buf q ! servp q = d"
proof -
  assume q: "tok_ok q" "contents q = d # w"
  then have "take (endp q) (rq_buf q) = d # w" by (simp add: tok_ok_def rq_ok_def contents_def get_slice_def)
  then have "rq_buf q ! 0 = d" by (metis nth_Cons_0 nth_take length_greater_0_conv list.distinct(1) take_eq_Nil neq0_conv)
  then show ?thesis using q(1) by (auto simp: tok_ok_def rq_ok_def)
qed

lemma alpha_char:
  assumes "gisalpha d"
  shows "lex_loop mem (Suc f) state (code d) ep = lex_identifier mem state (code d) ep"
proof -
  have "d \<notin> {CHR '' '', CHR 0x09, CHR 0x0D, LF, CHR ''('', CHR '')'', CHR ''{'', CHR ''}'', CHR ''+'', CHR ''-'', CHR ''<'', CHR ''>'', CHR ''='',
      CHR ''!'', CHR ''|'', CHR ''&'', CHR ''*'', CHR ''%'', CHR ''/'', CHR '';'', CHR '','', CHR 0x22, CHR 0x27}"
    using assms by (auto simp: gisalpha_def uchar_def)
  moreover have "\<not> is_dig (code d)" using assms by (auto simp: gisalpha_def is_dig_def code_def)
  ultimately show ?thesis by simp
qed

text \<open>A name directly before a parenthesis is a function.\<close>

lemma function_token:
  assumes m: "mem_total mem" and n: "list_all word_char (d # w)" "gisalpha d" "d # w \<notin> set script_words"
    and l: "lexing ep (d # w @ CHR ''('' # cs) k ts (None, b)"
  obtains ep' k' where "ejLexGetToken mem state ep = Inr (TOK_FUNCTION, ep')" and "ej_token ep' = d # w"
    and "lexing ep' (CHR ''('' # cs) k' (d # w) (None, b)" and "engine ep' = engine ep"
proof -
  let ?p = "CHR ''(''"
  have d: "d \<noteq> LF" using n(1) word_char_plain by simp
  obtain ep1 where e1: "getLexicalToken mem state ep = lex_loop mem (Suc (Suc (length (w @ ?p # cs)))) state (code d) ep1"
    "lexing ep1 (w @ ?p # cs) (k + 1) [] (None, b)" "engine ep1 = engine ep"
    using first_char [OF m l d] by auto
  have p: "?p \<noteq> LF" "\<not> word_char ?p" "?p \<noteq> CHR ''$''" "?p \<noteq> CHR ''_''" "?p \<noteq> CHR 0x5C"
    by (simp_all add: word_char_def is_alnum_def is_dig_def code_def uchar_def)
  obtain ep2 where e2: "ident_loop mem (Suc (length (w @ ?p # cs))) (code d) ep1 = Inr (code ?p, ep2)"
    "lexing ep2 cs (k + 1 + int (length w) + 1) (d # w) (None, b)" "engine ep2 = engine ep1" "ej_token ep2 = d # w"
    using ident_loop_reads [OF m p e1(2) n(1), of "Suc (length (w @ ?p # cs))"] by auto
  have k: "0 < k + 1 + int (length w) + 1" using lexing_col [OF l] by simp
  obtain ep3 where e3: "inputPutback mem (code ?p) ep2 = Inr ep3" "lexing ep3 (?p # cs) (k + 1 + int (length w) + 1 - 1) (d # w) (None, b)"
    "engine ep3 = engine ep2" "ej_token ep3 = ej_token ep2" using inputPutback_ok [OF e2(2) m k, of "code ?p"] by auto
  obtain ip where ip: "ej_input ep2 = Some ip" "in_ok ip" "contents (ip_tokbuf ip) = d # w" using e2(2) by (auto simp: lexing_def)
  have "tok_ok (ip_tokbuf ip)" using ip(2) by (simp add: in_ok_def)
  then have "servp (ip_tokbuf ip) < buflen (ip_tokbuf ip)" "rq_buf (ip_tokbuf ip) ! servp (ip_tokbuf ip) = d"
    using ip(3) contents_first by blast+
  then have st: "ident_start ip = Inr True" using n(2) by (simp add: ident_start_def Let_def)
  have "lex_identifier mem state (code d) ep1 = Inr (TOK_FUNCTION, ep3)"
    using e2(1,4) e3(1) ip(1) st n(3) lexing_left [OF e1(2)] by (simp add: lex_identifier_def the_input_def script_words_def)
  moreover have "lex_loop mem (Suc (Suc (length (w @ ?p # cs)))) state (code d) ep1 = lex_identifier mem state (code d) ep1"
    by (rule alpha_char [OF n(2)])
  ultimately have "getLexicalToken mem state ep = Inr (TOK_FUNCTION, ep3)" using e1(1) by simp
  then show thesis using that [of "ep3\<lparr>ej_tid := TOK_FUNCTION\<rparr>"] e3(2-4) e2(3,4) e1(3) by (simp add: ejLexGetToken_def)
qed

section \<open>The call\<close>

lemma parse_Suc: "parse en (Suc k) = parse_step en (parse en k) k"
  by simp

lemma text_operand:
  assumes m: "mem_total (en_mem en)" and s: "is_cstr s" "LF \<notin> set s"
    and l: "lexing ep (CHR 0x22 # quoted s @ CHR 0x22 # cs) k ts (None, b)"
  obtains ep' k' where "parse en (Suc (Suc j)) STATE_EXPR exe ep = Inr (STATE_EXPR_DONE, ep')" and "ej_result ep' = Some s"
    and "lexing ep' cs k' s (None, b)" and "held ep' = held ep" and "ej_func ep' = ej_func ep"
proof -
  obtain ep1 k1 where e1: "ejLexGetToken (en_mem en) STATE_EXPR ep = Inr (TOK_LITERAL, ep1)" "ej_token ep1 = s" "lexing ep1 cs k1 s (None, b)"
    "engine ep1 = engine ep" using string_literal_token [OF m s l] .
  have "parse en (Suc (Suc j)) STATE_EXPR exe ep = Inr (STATE_EXPR_DONE, set_result (Some s) ep1)"
    using e1(1,2) by (simp add: parse_step_def finish_def allowed_def)
  then show thesis using that e1(3) engine_held [OF e1(4)] by (simp add: set_result_def held_def)
qed

text \<open>One string as the whole argument list: the argument is the string, and the parenthesis is put back.\<close>

lemma text_argument:
  assumes m: "mem_total (en_mem en)" and s: "is_cstr s" "LF \<notin> set s"
    and l: "lexing ep (CHR 0x22 # quoted s @ CHR 0x22 # CHR '')'' # cs) k ts (None, b)"
    and f: "ej_func ep = Some fc" "fc_args fc = []"
  obtains ep' k' where "parse en (Suc (Suc (Suc (Suc j)))) STATE_ARG_LIST exe ep = Inr (STATE_ARG_LIST_DONE, ep')"
    and "ej_func ep' = Some (fc\<lparr>fc_args := [s]\<rparr>)" and "lexing ep' cs k' '')'' (Some TOK_RPAREN, Some '')'')"
    and "held ep' = held ep" and "ej_result ep' = Some s"
proof -
  have l0: "lexing (set_result (Some []) ep) (CHR 0x22 # quoted s @ CHR 0x22 # CHR '')'' # cs) k ts (None, b)" using l by simp
  obtain ep1 k1 where e1: "parse en (Suc (Suc j)) STATE_EXPR exe (set_result (Some []) ep) = Inr (STATE_EXPR_DONE, ep1)" "ej_result ep1 = Some s"
    "lexing ep1 (CHR '')'' # cs) k1 s (None, b)" "held ep1 = held (set_result (Some []) ep)" "ej_func ep1 = ej_func (set_result (Some []) ep)"
    by (rule text_operand [OF m s l0])
  obtain ep2 where e2: "get_tok en STATE_EXPR_DONE ep1 = Inr (TOK_RPAREN, ep2)" "ej_token ep2 = '')''" "lexing ep2 cs (k1 + 1) '')'' (None, b)"
    "engine ep2 = engine ep1" using char_token [OF m char_token_simps(2) e1(3)] .
  obtain ep3 where e3: "ejLexPutbackToken TOK_RPAREN '')'' ep2 = Inr ep3" "lexing ep3 cs (k1 + 1) '')'' (Some TOK_RPAREN, Some '')'')" "engine ep3 = engine ep2"
    using put_back [OF e2(3)] .
  have r3: "ej_result ep3 = Some s" "ej_func ep3 = Some fc" "held ep3 = held ep"
    using engine_held [OF e3(3)] engine_held [OF e2(4)] e1(2,4,5) f(1) by simp_all
  have p: "parse en (Suc (Suc (Suc j))) STATE_RELEXP exe ep = Inr (STATE_RELEXP_DONE, ep3)"
    using e1(1,2) e2(1,2) e3(1) by (simp add: parse_Suc parse_step_def parseExpr_def parse_to_def Let_def del: parse.simps)
  define ep4 where "ep4 = ep3\<lparr>ej_func := Some (fc\<lparr>fc_args := [s]\<rparr>)\<rparr>"
  have "lexing ep4 cs (k1 + 1) '')'' (Some TOK_RPAREN, Some '')'')" using e3(2) by (simp add: ep4_def)
  from pending_token [OF m this] obtain ep5 where e5: "get_tok en STATE_RELEXP_DONE ep4 = Inr (TOK_RPAREN, ep5)" "ej_token ep5 = '')''"
    "lexing ep5 cs (k1 + 1) '')'' (None, Some '')'')" "engine ep5 = engine ep4" by auto
  obtain ep6 where e6: "ejLexPutbackToken TOK_RPAREN '')'' ep5 = Inr ep6" "lexing ep6 cs (k1 + 1) '')'' (Some TOK_RPAREN, Some '')'')" "engine ep6 = engine ep5"
    using put_back [OF e5(3)] .
  have "parse en (Suc (Suc (Suc (Suc j)))) STATE_ARG_LIST exe ep = Inr (STATE_ARG_LIST_DONE, ep6)"
    using p r3(1,2) f(2) e5(1,2) e6(1)
    by (simp add: parse_Suc [of en "Suc (Suc (Suc j))"] parse_step_def add_arg_def ep4_def [symmetric] del: parse.simps)
  then show thesis using that e6(2) engine_held [OF e6(3)] engine_held [OF e5(4)] r3 by (simp add: ep4_def held_def)
qed

text \<open>\<open>runs en fn args ep W T\<close>: called on the world and tables of \<open>ep\<close>, the function leaves \<open>W\<close> and \<open>T\<close> and succeeds.\<close>

definition runs :: "'w ejenv \<Rightarrow> int \<Rightarrow> string list \<Rightarrow> 'w ej \<Rightarrow> 'w \<Rightarrow> value_t symtabs \<Rightarrow> bool" where
  "runs en fn args ep W T \<longleftrightarrow>
     (\<forall>ep'. held ep' = held ep \<longrightarrow> (\<exists>n. 0 \<le> n \<and> en_fn en fn args ep' = Inr (n, ep'\<lparr>ej_world := W, ej_tabs := T\<rparr>)))"

definition registered :: "string \<Rightarrow> int \<Rightarrow> 'w ej \<Rightarrow> bool" where
  "registered name fn ep \<longleftrightarrow> fn \<noteq> 0 \<and> (\<exists>p. symLookup (ej_functions ep) (Some name) (ej_tabs ep) = Inr (Some p) \<and> s_content p = VInteger fn)"

definition call_text :: "string \<Rightarrow> string \<Rightarrow> string" where
  "call_text name s = name @ ''('' @ CHR 0x22 # quoted s @ CHR 0x22 # '');''"

definition function_name :: "string \<Rightarrow> bool" where
  "function_name name \<longleftrightarrow> name \<noteq> [] \<and> list_all word_char name \<and> gisalpha (hd name) \<and> name \<notin> set script_words"

lemma lexing_world [simp]: "lexing (ep\<lparr>ej_world := W\<rparr>) cs k ts p = lexing ep cs k ts p" "lexing (ep\<lparr>ej_tabs := T\<rparr>) cs k ts p = lexing ep cs k ts p"
  by (simp_all add: lexing_def)

lemma call_statement:
  assumes m: "mem_total (en_mem en)" and nm: "function_name name" and s: "is_cstr s" "LF \<notin> set s"
    and l: "lexing ep (call_text name s) k ts (None, b)" and reg: "registered name fn ep" and run: "runs en fn [s] ep W T"
  obtains ep' k' where "parse en (Suc (Suc (Suc (Suc (Suc j))))) STATE_STMT True ep = Inr (STATE_STMT_DONE, ep')"
    and "lexing ep' [] k' [] (Some TOK_EOF, Some [])" and "held ep' = held (ep\<lparr>ej_world := W, ej_tabs := T\<rparr>)" and "ej_result ep' = Some s"
proof -
  let ?g = "Suc (Suc (Suc j))" and ?P = "parse en (Suc (Suc (Suc (Suc j))))"
  obtain d w where dw: "name = d # w" using nm by (cases name) (auto simp: function_name_def)
  have n: "list_all word_char (d # w)" "gisalpha d" "d # w \<notin> set script_words" using nm by (auto simp: dw function_name_def)
  have l0: "lexing ep (d # w @ CHR ''('' # CHR 0x22 # quoted s @ CHR 0x22 # CHR '')'' # '';'') k ts (None, b)" using l by (simp add: call_text_def dw)
  obtain ep1 k1 where e1: "get_tok en STATE_STMT ep = Inr (TOK_FUNCTION, ep1)" "ej_token ep1 = name"
    "lexing ep1 (CHR ''('' # CHR 0x22 # quoted s @ CHR 0x22 # CHR '')'' # '';'') k1 (d # w) (None, b)" "engine ep1 = engine ep"
    using function_token [OF m n l0] unfolding dw .
  define ep2 where "ep2 = set_result (Some []) (ep1\<lparr>ej_func := Some \<lparr>fc_fname = name, fc_args = []\<rparr>\<rparr>)"
  have "lexing ep2 (CHR ''('' # CHR 0x22 # quoted s @ CHR 0x22 # CHR '')'' # '';'') k1 (d # w) (None, b)" using e1(3) by (simp add: ep2_def)
  from char_token [OF m char_token_simps(1) this] obtain ep3 where e3: "get_tok en STATE_STMT ep2 = Inr (TOK_LPAREN, ep3)"
    "lexing ep3 (CHR 0x22 # quoted s @ CHR 0x22 # CHR '')'' # '';'') (k1 + 1) ''('' (None, b)" "engine ep3 = engine ep2" by metis
  have f3: "ej_func ep3 = Some \<lparr>fc_fname = name, fc_args = []\<rparr>" "fc_args \<lparr>fc_fname = name, fc_args = []\<rparr> = []" "held ep3 = held ep"
    using engine_held [OF e3(3)] engine_held [OF e1(4)] by (simp_all add: ep2_def)
  obtain ep4 k4 where e4: "?P STATE_ARG_LIST True ep3 = Inr (STATE_ARG_LIST_DONE, ep4)" "ej_func ep4 = Some (\<lparr>fc_fname = name, fc_args = []\<rparr>\<lparr>fc_args := [s]\<rparr>)"
    "lexing ep4 '';'' k4 '')'' (Some TOK_RPAREN, Some '')'')" "held ep4 = held ep3" "ej_result ep4 = Some s"
    by (rule text_argument [OF m s e3(2) f3(1,2)])
  have h4: "held ep4 = held ep" using e4(4) f3(3) by simp
  then obtain i where i: "0 \<le> i" "en_fn en fn [s] ep4 = Inr (i, ep4\<lparr>ej_world := W, ej_tabs := T\<rparr>)" using run by (auto simp: runs_def)
  have ev: "evalFunction en ep4 = Inr (i, ep4\<lparr>ej_world := W, ej_tabs := T\<rparr>)"
    using reg h4 e4(2) i(2) by (auto simp: registered_def held_def evalFunction_def)
  define ep6 where "ep6 = ep4\<lparr>ej_world := W, ej_tabs := T, ej_func := ej_func ep1\<rparr>"
  have "lexing ep6 '';'' k4 '')'' (Some TOK_RPAREN, Some '')'')" using e4(3) by (simp add: ep6_def)
  from pending_token [OF m this] obtain ep7 where e7: "get_tok en STATE_STMT ep6 = Inr (TOK_RPAREN, ep7)" "lexing ep7 '';'' k4 '')'' (None, Some '')'')"
    "engine ep7 = engine ep6" by auto
  obtain ep8 where e8: "get_tok en STATE_STMT ep7 = Inr (TOK_SEMI, ep8)" "lexing ep8 [] (k4 + 1) '';'' (None, Some '')'')" "engine ep8 = engine ep7"
    using char_token [OF m char_token_simps(3) e7(2)] by metis
  obtain ep9 where e9: "get_tok en STATE_STMT ep8 = Inr (TOK_EOF, ep9)" "ej_token ep9 = []" "lexing ep9 [] (k4 + 1) [] (None, Some '')'')" "engine ep9 = engine ep8"
    using eof_token [OF e8(2)] .
  obtain ep10 where e10: "ejLexPutbackToken TOK_EOF [] ep9 = Inr ep10" "lexing ep10 [] (k4 + 1) [] (Some TOK_EOF, Some [])" "engine ep10 = engine ep9"
    using put_back [OF e9(3)] .
  have fin: "finish en ?g STATE_STMT True ep7 = Inr (STATE_STMT_DONE, ep10)"
    using e8(1) e9(1,2) e10(1) by (simp add: finish_def)
  have "stmt_call en ?P ?g STATE_STMT True ep1 = Inr (STATE_STMT_DONE, ep10)"
    using e3(1) e4(1) ev i(1) e7(1) fin e1(2) by (simp add: stmt_call_def expect_def Let_def ep2_def ep6_def del: parse.simps)
  then have "parse en (Suc (Suc (Suc (Suc (Suc j))))) STATE_STMT True ep = Inr (STATE_STMT_DONE, ep10)"
    using e1(1) by (simp add: parse_Suc [of en "Suc (Suc (Suc (Suc j)))"] parse_step_def allowed_def del: parse.simps)
  moreover have "held ep10 = held ep6 \<and> ej_result ep10 = Some s"
    using engine_held [OF e10(3)] engine_held [OF e9(4)] engine_held [OF e8(3)] engine_held [OF e7(3)] e4(5) by (simp add: ep6_def)
  moreover have "held ep6 = held (ep\<lparr>ej_world := W, ej_tabs := T\<rparr>)" using h4 by (simp add: ep6_def held_def)
  ultimately show thesis using that e10(2) by simp
qed

text \<open>The whole script.\<close>

lemma call_script:
  assumes m: "mem_total (en_mem en)" and nm: "function_name name" and s: "is_cstr s" "LF \<notin> set s"
    and reg: "registered name fn ep" and run: "runs en fn [s] ep W T" and fuel: "5 \<le> fuel"
  obtains ep' where "ejEval en fuel True (call_text name s) ep = Inr (Some s, None, ep')" and "held ep' = held (ep\<lparr>ej_world := W, ej_tabs := T\<rparr>)"
    and "ej_input ep' = ej_input ep" and "ej_result ep' = Some s"
proof -
  obtain j where f: "fuel = Suc (Suc (Suc (Suc (Suc j))))" using fuel by (intro that [of "fuel - 5"]) simp
  define ep0 where "ep0 = set_result (Some []) ep"
  obtain ep1 where e1: "ejLexOpenScript (en_mem en) True (call_text name s) ep0 = Inr (0, ep1)" "lexing ep1 (call_text name s) 0 [] (None, None)" "engine ep1 = engine ep0"
    using ejLexOpenScript_ok [OF m] by blast
  have h1: "held ep1 = held ep" using engine_held [OF e1(3)] by (simp add: ep0_def)
  then have "registered name fn ep1" "runs en fn [s] ep1 W T" using reg run by (simp_all add: registered_def runs_def held_def)
  from call_statement [OF m nm s e1(2) this] obtain ep2 k2 where e2: "parse en fuel STATE_STMT True ep1 = Inr (STATE_STMT_DONE, ep2)"
    "lexing ep2 [] k2 [] (Some TOK_EOF, Some [])" "held ep2 = held (ep1\<lparr>ej_world := W, ej_tabs := T\<rparr>)" "ej_result ep2 = Some s" unfolding f by metis
  obtain ep3 where e3: "get_tok en STATE_STMT ep2 = Inr (TOK_EOF, ep3)" "lexing ep3 [] k2 [] (None, Some [])" "engine ep3 = engine ep2"
    using pending_token [OF m e2(2)] by auto
  have p3: "parse en fuel STATE_STMT True ep2 = Inr (STATE_EOF, ep3)"
    using e3(1) by (simp add: f parse_Suc [of en "Suc (Suc (Suc (Suc j)))"] parse_step_def finish_def allowed_def del: parse.simps)
  obtain ip2 ip3 where ip: "ej_input ep2 = Some ip2" "ej_input ep3 = Some ip3" using e2(2) e3(2) by (auto simp: lexing_def)
  have "\<exists>st. eval_loop en fuel fuel None 0 ep1 = Inr (STATE_EOF, ep3)"
    using e2(1) p3 ip by (simp add: f the_input_def Let_def del: parse.simps)
  then have ev: "eval_loop en fuel fuel None 0 ep1 = Inr (STATE_EOF, ep3)" by simp
  have h3: "held ep3 = held (ep\<lparr>ej_world := W, ej_tabs := T\<rparr>)" "ej_result ep3 = Some s"
    using engine_held [OF e3(3)] e2(3,4) h1 by (simp_all add: held_def)
  have "ejEval en fuel True (call_text name s) ep = Inr (Some s, None, ep3\<lparr>ej_input := None, ej_input := ej_input ep\<rparr>)"
    using e1(1) ev ip(2) h3(2) by (simp add: ejEval_def Let_def ep0_def ejLexCloseScript_def the_input_def set_result_def del: parse.simps eval_loop.simps)
  then show thesis using that h3 by simp
qed

end
