(* ===== verification/Asp.thy ===== *)
theory Asp
  imports Ejengine Page
begin

text \<open>
  Pages with scripts: \<open>user/goahead/src_tongyong/asp.c\<close>, with \<open>scriptEval\<close> of \<open>websuemf.c\<close> and
  \<open>websWriteBlock\<close> of \<open>webs.c\<close>.

  \<open>aspenv\<close> says which allocations succeed and how writing a block ends: \<open>ae_fail out n\<close> is \<open>None\<close> when all \<open>n\<close>
  bytes are taken by the socket (the loop of \<open>websWriteBlock\<close> spins until they are), \<open>Some k\<close> when the socket
  fails behind \<open>k\<close> of them.  The world of an engine is the server; its symbol tables are those of the engine while a
  script runs.
\<close>

record aspenv =
  ae_engine :: bool
  ae_rbuf :: bool
  ae_buf :: bool
  ae_script :: bool
  ae_fail :: "string list \<Rightarrow> nat \<Rightarrow> nat option"
  ae_fuel :: nat

section \<open>The server behind an engine\<close>

definition server_of :: "server ej \<Rightarrow> server" where
  "server_of ep = (ej_world ep)\<lparr>tabs := ej_tabs ep\<rparr>"

definition put_server :: "server \<Rightarrow> server ej \<Rightarrow> server ej" where
  "put_server s ep = ep\<lparr>ej_world := s, ej_tabs := tabs s\<rparr>"

definition on_server :: "(server \<Rightarrow> (int \<times> server) res) \<Rightarrow> server ej \<Rightarrow> (int \<times> server ej) res" where
  "on_server f ep = res_bind (f (server_of ep)) (\<lambda>(r, s). Inr (r, put_server s ep))"

definition write_fmt :: "string \<Rightarrow> farg list \<Rightarrow> server ej \<Rightarrow> server ej res" where
  "write_fmt fmt args ep = res_bind (websWrite fmt args (server_of ep)) (\<lambda>s. Inr (put_server s ep))"

section \<open>Writing\<close>

definition websWriteBlock :: "aspenv \<Rightarrow> byte list \<Rightarrow> server \<Rightarrow> (int \<times> server) res" where
  "websWriteBlock a buf s =
     res_bind (cur s) (\<lambda>w.
       if buf = [] then Inr (0, s)
       else
         Inr (case ae_fail a (out s) (length buf) of
                None \<Rightarrow> (int (length buf), s\<lparr>out := out s @ [buf]\<rparr>)
              | Some k \<Rightarrow> (- 1, s\<lparr>out := out s @ [take k buf]\<rparr>)))"

text \<open>Two bytes are written between arguments: the blank and the null behind it.\<close>

fun websAspWrite :: "aspenv \<Rightarrow> string list \<Rightarrow> server \<Rightarrow> (int \<times> server) res" where
  "websAspWrite a [] s = Inr (0, s)"
| "websAspWrite a (arg # args) s =
     res_bind (websWriteBlock a arg s) (\<lambda>(r, s).
       if r < 0 then Inr (- 1, s)
       else if args = [] then Inr (0, s)
       else res_bind (websWriteBlock a [CHR '' '', NUL] s) (\<lambda>(r, s). if r < 0 then Inr (- 1, s) else websAspWrite a args s))"

text \<open>The functions of the pages: \<open>websAspWrite\<close> by its address, and \<open>others\<close>.\<close>

definition ASP_WRITE :: int where "ASP_WRITE = 1"

definition asp_functions ::
  "aspenv \<Rightarrow> (int \<Rightarrow> string list \<Rightarrow> server \<Rightarrow> (int \<times> server) res) \<Rightarrow> int \<Rightarrow> string list \<Rightarrow> server ej \<Rightarrow> (int \<times> server ej) res" where
  "asp_functions a others fn args = on_server ((if fn = ASP_WRITE then websAspWrite a else others fn) args)"

section \<open>The module\<close>

record aspmod =
  aspOpenCount :: int
  websAspFunctions :: int

definition websAspDefine :: "bool \<Rightarrow> string \<Rightarrow> int \<Rightarrow> aspmod \<Rightarrow> value_t symtabs \<Rightarrow> (int \<times> value_t symtabs) res" where
  "websAspDefine ok name fn m t = ejSetGlobalFunctionDirect ok (websAspFunctions m) name fn t"

definition websAspOpen :: "halloc \<Rightarrow> bool \<Rightarrow> aspmod \<Rightarrow> value_t symtabs \<Rightarrow> (aspmod \<times> value_t symtabs) res" where
  "websAspOpen h ok m t =
     (let m = m\<lparr>aspOpenCount := aspOpenCount m + 1\<rparr> in
      if aspOpenCount m = 1 then
        res_bind (symOpen h ok (WEBS_SYM_INIT * 2) t) (\<lambda>(sd, t).
          (let m = m\<lparr>websAspFunctions := sd\<rparr> in
           res_bind (websAspDefine ok ''write'' ASP_WRITE m t) (\<lambda>(r, t). Inr (m, t))))
      else Inr (m, t))"

definition websAspClose :: "aspmod \<Rightarrow> value_t symtabs \<Rightarrow> (aspmod \<times> value_t symtabs) res" where
  "websAspClose m t =
     (let m = m\<lparr>aspOpenCount := aspOpenCount m - 1\<rparr> in
      if aspOpenCount m \<le> 0 \<and> websAspFunctions m \<noteq> - 1
      then res_bind (symClose (websAspFunctions m) t) (\<lambda>t. Inr (m\<lparr>websAspFunctions := - 1\<rparr>, t))
      else Inr (m, t))"

section \<open>Finding the scripts\<close>

definition skipWhite :: "string \<Rightarrow> string" where
  "skipWhite s = dropWhile gisspace s"

fun after_ci :: "string \<Rightarrow> string \<Rightarrow> string option" where
  "after_ci s [] = Some s"
| "after_ci [] (d # ds) = None"
| "after_ci (c # cs) (d # ds) = (if gtolower c = gtolower d then after_ci cs ds else None)"

definition strtokcmp :: "string \<Rightarrow> string \<Rightarrow> string option" where
  "strtokcmp s1 s2 = after_ci (skipWhite s1) s2"

definition skip_language :: "string \<Rightarrow> string" where
  "skip_language p =
     (case strtokcmp p ''language'' of
        None \<Rightarrow> p
      | Some lang \<Rightarrow> (case strtokcmp lang ''=javascript'' of Some cp \<Rightarrow> cp | None \<Rightarrow> p))"

text \<open>\<open>strstr\<close>: what is before the first occurrence and what is behind it.\<close>

fun cut_at :: "string \<Rightarrow> string \<Rightarrow> (string \<times> string) option" where
  "cut_at pat [] = None"
| "cut_at pat (c # cs) =
     (if starts_with pat (c # cs) then Some ([], drop (length pat) (c # cs))
      else map_option (\<lambda>(a, b). (c # a, b)) (cut_at pat cs))"

definition is_nl :: "byte \<Rightarrow> bool" where
  "is_nl c \<longleftrightarrow> c = CHR 0x0D \<or> c = LF"

text \<open>A backslash and the line ends behind it become blanks.\<close>

fun join_lines_from :: "bool \<Rightarrow> string \<Rightarrow> string" where
  "join_lines_from b [] = []"
| "join_lines_from b (c # cs) =
     (if b \<and> is_nl c then CHR '' '' # join_lines_from True cs
      else if c = CHR 0x5C \<and> cs \<noteq> [] \<and> is_nl (hd cs) then CHR '' '' # join_lines_from True cs
      else c # join_lines_from False cs)"

lemma cut_at_split: "cut_at pat s = Some (a, b) \<Longrightarrow> s = a @ pat @ b"
proof (induction s arbitrary: a)
  case (Cons c cs)
  then show ?case by (auto simp: starts_with_iff split: if_splits)
qed simp

lemma after_ci_shorter: "after_ci s t = Some r \<Longrightarrow> length r \<le> length s"
  by (induction s t rule: after_ci.induct) (auto split: if_splits)

lemma skipWhite_shorter: "length (skipWhite s) \<le> length s"
  by (simp add: skipWhite_def length_dropWhile_le)

lemma skip_language_shorter: "length (skip_language s) \<le> length s"
  using skipWhite_shorter by (auto simp: skip_language_def strtokcmp_def split: option.split dest!: after_ci_shorter intro: order_trans)

section \<open>Requests\<close>

text \<open>\<open>EMF_SCRIPT_EJSCRIPT\<close> is the only engine \<open>websAspRequest\<close> asks for.\<close>

definition scriptEval :: "server ejenv \<Rightarrow> aspenv \<Rightarrow> string \<Rightarrow> server ej \<Rightarrow> (int \<times> string option \<times> server ej) res" where
  "scriptEval en a cmd ep =
     res_bind (ejEval en (ae_fuel a) (ae_script a) cmd ep) (\<lambda>(r, msg, ep). Inr (if r = None then - 1 else 0, msg, ep))"

text \<open>The error report of a script; the request may be gone.\<close>

definition script_error :: "string option \<Rightarrow> string \<Rightarrow> server ej \<Rightarrow> (int \<times> server ej) res" where
  "script_error msg script ep =
     (if wp (server_of ep) = None then Inr (- 1, ep)
      else
        res_bind (case msg of
                    Some m \<Rightarrow> res_bind (write_fmt (''<h2><b>ASP Error: %s</b></h2>'' @ [LF]) [FStr (Some m)] ep)
                                (write_fmt (''<pre>%s</pre>'') [FStr (Some script)])
                  | None \<Rightarrow> write_fmt (''<h2><b>ASP Error</b></h2>'' @ [LF] @ ''%s'' @ [LF]) [FStr (Some script)] ep) (\<lambda>ep.
        res_bind (write_fmt (''</body></html>'' @ [LF]) [] ep) (\<lambda>ep. Inr (0, ep))))"

definition asp_error :: "env \<Rightarrow> string \<Rightarrow> farg list \<Rightarrow> server ej \<Rightarrow> (int \<times> server ej) res" where
  "asp_error e fmt args ep = res_bind (websError e 200 fmt args (server_of ep)) (\<lambda>s. Inr (- 1, put_server s ep))"

text \<open>The loop over the scripts and the text behind the last one.\<close>

function asp_loop :: "env \<Rightarrow> server ejenv \<Rightarrow> aspenv \<Rightarrow> string \<Rightarrow> string \<Rightarrow> server ej \<Rightarrow> (int \<times> server ej) res" where
  "asp_loop e en a lpath p ep =
     (case cut_at ''<%'' p of
        None \<Rightarrow>
          if p = [] then Inr (0, ep) else res_bind (on_server (websWriteBlock a p) ep) (\<lambda>(r, ep). Inr (0, ep))
      | Some (before, rest) \<Rightarrow>
          res_bind (on_server (websWriteBlock a before) ep) (\<lambda>(r, ep).
            case cut_at ''%>'' (skip_language (skipWhite rest)) of
              None \<Rightarrow> asp_error e (''Unterminated script in %s: '' @ [LF]) [FStr (Some lpath)] ep
            | Some (script, tail) \<Rightarrow>
                (let script = join_lines_from False (skipWhite script) in
                 if script = [] then asp_loop e en a lpath tail ep
                 else
                   res_bind (scriptEval en a script ep) (\<lambda>(rc, msg, ep).
                     if rc < 0 then script_error msg script ep else asp_loop e en a lpath tail ep))))"
  by pat_completeness auto
termination
proof (relation "measure (\<lambda>(e, en, a, lpath, p, ep). length p)", goal_cases)
  have less: "length (tail :: string) < length p"
    if "cut_at ''<%'' p = Some (before, rest)" "cut_at ''%>'' (skip_language (skipWhite rest)) = Some (script, tail)" for p before rest script tail
  proof -
    have "length tail \<le> length (skip_language (skipWhite rest))" by (subst cut_at_split [OF that(2)]) simp
    also have "\<dots> \<le> length rest" using skip_language_shorter [of "skipWhite rest"] skipWhite_shorter [of rest] by linarith
    also have "\<dots> < length p" by (subst cut_at_split [OF that(1)]) simp
    finally show ?thesis .
  qed
  {
    case 2
    then show ?case by (auto intro: less)
  next
    case 3
    then show ?case by (auto intro: less)
  }
qed simp

declare asp_loop.simps [simp del]

text \<open>The exit: the engine of a request that is gone is not closed.\<close>

definition asp_done :: "int \<times> server ej \<Rightarrow> (int \<times> server) res" where
  "asp_done r =
     (case r of (rc, ep) \<Rightarrow>
        if wp (server_of ep) = None then Inr (rc, server_of ep)
        else
          res_bind (websPageClose (server_of ep)) (\<lambda>s.
          res_bind (ejCloseEngine (put_server s ep)) (\<lambda>ep. Inr (rc, server_of ep))))"

definition asp_page :: "env \<Rightarrow> pages \<Rightarrow> server ejenv \<Rightarrow> aspenv \<Rightarrow> string \<Rightarrow> server ej \<Rightarrow> (int \<times> server ej) res" where
  "asp_page e f en a lpath ep =
     (case websPageStat f lpath of
        None \<Rightarrow> asp_error e ''Can't stat %s'' [FStr (Some lpath)] ep
      | Some (len, d) \<Rightarrow>
          if \<not> ae_rbuf a then asp_error e ''Can't get memory'' [] ep
          else
            res_bind (websPageReadData len (server_of ep)) (\<lambda>(n, data, s).
              (let ep = put_server s ep in
               if n \<noteq> int len then asp_error e ''Cant read %s'' [FStr (Some lpath)] ep
               else
                 res_bind (websPageClose (server_of ep)) (\<lambda>s.
                   (let ep = put_server s ep in
                    if \<not> ae_buf a then asp_error e ''Can't get memory'' [] ep
                    else asp_loop e en a lpath (takeWhile (\<lambda>c. c \<noteq> NUL) data) ep)))))"

definition websAspRequest :: "env \<Rightarrow> pages \<Rightarrow> server ejenv \<Rightarrow> aspenv \<Rightarrow> aspmod \<Rightarrow> asp_fn" where
  "websAspRequest e f en a m lpath s =
     res_bind (cur s) (\<lambda>w.
       (let s = upd (\<lambda>w. w\<lparr>w_flags := w_flags w OR WEBS_HEADER_DONE\<rparr>) s in
        res_bind (ejOpenEngine en (ae_engine a) (w_cgiVars w) (websAspFunctions m) (tabs s) s) (\<lambda>g.
          case g of
            None \<Rightarrow>
              res_bind (websError e 200 ''Can't create Ejscript engine'' [] s) (\<lambda>s.
                if wp s = None then Inr (- 1, s) else res_bind (websPageClose s) (\<lambda>s. Inr (- 1, s)))
          | Some ep \<Rightarrow> res_bind (asp_page e f en a lpath ep) asp_done)))"

end
