(* ===== verification/Asp_Laws.thy ===== *)
theory Asp_Laws
  imports Asp Ejcall
begin

text \<open>
  Pages are expanded: the text around the scripts is sent as it is, and \<open>write("...")\<close> sends its argument.
\<close>

section \<open>Writing\<close>

definition put_block :: "byte list \<Rightarrow> server \<Rightarrow> server" where
  "put_block b s = (if b = [] then s else s\<lparr>out := out s @ [b]\<rparr>)"

definition socket_fine :: "aspenv \<Rightarrow> bool" where
  "socket_fine a \<longleftrightarrow> (\<forall>o' n. ae_fail a o' n = None)"

lemma put_block_simps [simp]: "tabs (put_block b s) = tabs s" "wp (put_block b s) = wp s" "concat (out (put_block b s)) = concat (out s) @ b"
  "put_block [] s = s" "(put_block b s)\<lparr>tabs := t\<rparr> = put_block b (s\<lparr>tabs := t\<rparr>)"
  by (simp_all add: put_block_def)

lemma websWriteBlock_fine: "socket_fine a \<Longrightarrow> wp s \<noteq> None \<Longrightarrow> websWriteBlock a b s = Inr (int (length b), put_block b s)"
  by (auto simp: websWriteBlock_def socket_fine_def put_block_def)

fun joined :: "string list \<Rightarrow> string" where
  "joined [] = []"
| "joined [t] = t"
| "joined (t # ts) = t @ [CHR '' '', NUL] @ joined ts"

text \<open>The page function \<open>write\<close> sends its arguments in order, separated by two bytes, a blank and a null
  byte (the block written between them is a one-character string of which two characters are sent), and
  changes nothing of the server but the output.\<close>

lemma websAspWrite_joins:
  assumes "socket_fine a" and "wp s \<noteq> None"
  shows "\<exists>bs. websAspWrite a args s = Inr (0, s\<lparr>out := out s @ bs\<rparr>) \<and> concat bs = joined args"
  using assms(2)
proof (induction args arbitrary: s)
  case Nil
  show ?case by (intro exI [of _ "[]"]) simp
next
  case (Cons t ts)
  have one: "\<exists>b. put_block t s = s\<lparr>out := out s @ b\<rparr> \<and> concat b = t" for s
    by (cases t) (auto simp: put_block_def intro: exI [of _ "[]"] exI [of _ "[t]"])
  obtain b where b: "put_block t s = s\<lparr>out := out s @ b\<rparr>" "concat b = t" using one by blast
  show ?case
  proof (cases ts)
    case Nil
    then show ?thesis using websWriteBlock_fine [OF assms(1) Cons.prems] b by (intro exI [of _ b]) simp
  next
    case (Cons u us)
    have wb: "websWriteBlock a [CHR '' '', NUL] (s\<lparr>out := out s @ b\<rparr>) = Inr (2, s\<lparr>out := out s @ b @ [[CHR '' '', NUL]]\<rparr>)"
      using websWriteBlock_fine [OF assms(1), of "s\<lparr>out := out s @ b\<rparr>" "[CHR '' '', NUL]"] Cons.prems by (simp add: put_block_def)
    obtain bs where r: "websAspWrite a ts (s\<lparr>out := out s @ b @ [[CHR '' '', NUL]]\<rparr>) = Inr (0, s\<lparr>out := out s @ b @ [[CHR '' '', NUL]], out := out (s\<lparr>out := out s @ b @ [[CHR '' '', NUL]]\<rparr>) @ bs\<rparr>)"
      "concat bs = joined ts" using Cons.IH [of "s\<lparr>out := out s @ b @ [[CHR '' '', NUL]]\<rparr>"] Cons.prems by auto
    show ?thesis
      using websWriteBlock_fine [OF assms(1) Cons.prems] b wb r Cons
      by (intro exI [of _ "b @ [[CHR '' '', NUL]] @ bs"]) simp
  qed
qed

section \<open>One script\<close>

lemma starts_two: "starts_with [x, y] s \<longleftrightarrow> (\<exists>r. s = x # y # r)"
  by (auto simp: starts_with_iff)

lemma cut_at_first:
  assumes "x \<noteq> y"
  shows "\<not> has_sub [x, y] t \<Longrightarrow> cut_at [x, y] (t @ x # y # r) = Some (t, r)"
proof (induction t)
  case (Cons c t)
  have "\<not> has_sub [x, y] t" using Cons.prems by (auto simp: has_sub_iff) (metis append_Cons)
  moreover have "\<not> starts_with [x, y] (c # t @ x # y # r)"
  proof
    assume "starts_with [x, y] (c # t @ x # y # r)"
    then obtain q where "c # t @ x # y # r = x # y # q" unfolding starts_two by blast
    then have "c = x" "\<exists>q. t @ x # y # r = y # q" by auto
    then have "\<exists>t'. t = y # t'" using assms by (cases t) auto
    then show False using Cons.prems \<open>c = x\<close> by auto
  qed
  ultimately show ?case using Cons.IH by simp
qed simp

lemma cut_at_none: "\<not> has_sub pat t \<Longrightarrow> pat \<noteq> [] \<Longrightarrow> cut_at pat t = None"
proof (induction t)
  case (Cons c t)
  have "\<not> has_sub pat t" using Cons.prems(1) by (auto simp: has_sub_iff) (metis append_Cons)
  moreover have "\<not> starts_with pat (c # t)" using Cons.prems(1) by (auto simp: has_sub_iff starts_with_iff) (metis append_Nil)
  ultimately show ?case using Cons by simp
qed simp

lemma join_lines_id: "list_all (\<lambda>c. \<not> is_nl c) s \<Longrightarrow> join_lines_from False s = s"
proof (induction s)
  case (Cons c s)
  then show ?case by (cases s) auto
qed simp

text \<open>What the scripts need: memory, the functions of the page, the request and \<open>write\<close>.\<close>

definition scripting :: "server ejenv \<Rightarrow> aspenv \<Rightarrow> server ej \<Rightarrow> bool" where
  "scripting en a ep \<longleftrightarrow> mem_total (en_mem en) \<and> (\<exists>others. en_fn en = asp_functions a others) \<and> socket_fine a \<and> ae_script a \<and> 5 \<le> ae_fuel a
     \<and> wp (server_of ep) \<noteq> None \<and> registered ''write'' ASP_WRITE ep"

definition frames :: "'w ej \<Rightarrow> int \<times> int hlist option \<times> nat \<times> bool \<times> bool" where
  "frames ep = (ej_functions ep, ej_variables ep, ej_variableMax ep, ej_own_variables ep, ej_own_functions ep)"

definition write_ok :: "string \<Rightarrow> bool" where
  "write_ok s \<longleftrightarrow> is_cstr s \<and> LF \<notin> set s \<and> CHR 0x0D \<notin> set s \<and> \<not> has_sub ''%>'' (call_text ''write'' s)"

lemma server_put [simp]: "server_of (put_server s ep) = s" "ej_tabs (put_server s ep) = tabs s" "frames (put_server s ep) = frames ep"
  "ej_functions (put_server s ep) = ej_functions ep"
  by (simp_all add: server_of_def put_server_def frames_def)

lemma tabs_server [simp]: "tabs (server_of ep) = ej_tabs ep"
  by (simp add: server_of_def)

lemma scripting_put: "scripting en a ep \<Longrightarrow> scripting en a (put_server (put_block b (server_of ep)) ep)"
  by (simp add: scripting_def registered_def)

lemma write_runs:
  assumes "scripting en a ep"
  shows "runs en ASP_WRITE [t] ep (put_block t (server_of ep)) (ej_tabs ep)"
proof -
  obtain others where o: "en_fn en = asp_functions a others" "socket_fine a" "wp (server_of ep) \<noteq> None" using assms by (auto simp: scripting_def)
  show ?thesis unfolding runs_def
  proof (intro allI impI)
    fix ep' assume "held ep' = held ep"
    then have "server_of ep' = server_of ep" "ej_tabs ep' = ej_tabs ep" by (simp_all add: held_def server_of_def)
    then show "\<exists>n\<ge>0. en_fn en ASP_WRITE [t] ep' = Inr (n, ep'\<lparr>ej_world := put_block t (server_of ep), ej_tabs := ej_tabs ep\<rparr>)"
      using websWriteBlock_fine [OF o(2,3), of t] by (intro exI [of _ 0]) (simp add: o(1) asp_functions_def on_server_def put_server_def)
  qed
qed

lemma quoted_chars: "c \<in> set (quoted s) \<Longrightarrow> c \<in> set s \<or> c = CHR 0x5C"
  by (induction s) (auto split: if_splits)

lemma write_script:
  assumes "scripting en a ep" and "write_ok t"
  obtains ep' where "scriptEval en a (call_text ''write'' t) ep = Inr (0, None, ep')" and "server_of ep' = put_block t (server_of ep)"
    and "frames ep' = frames ep"
proof -
  have s: "mem_total (en_mem en)" "5 \<le> ae_fuel a" "registered ''write'' ASP_WRITE ep" "ae_script a" "is_cstr t" "LF \<notin> set t"
    using assms by (auto simp: scripting_def write_ok_def)
  have "function_name ''write''"
    by (simp add: function_name_def word_char_def is_alnum_def is_dig_def code_def uchar_def gisalpha_def script_words_def)
  from call_script [OF s(1) this s(5,6,3) write_runs [OF assms(1)] s(2)] obtain ep' where
    e: "ejEval en (ae_fuel a) True (call_text ''write'' t) ep = Inr (Some t, None, ep')"
    "held ep' = held (ep\<lparr>ej_world := put_block t (server_of ep), ej_tabs := ej_tabs ep\<rparr>)" by metis
  have "server_of ep' = put_block t (server_of ep)" "frames ep' = frames ep"
    using e(2) by (simp_all add: held_def server_of_def frames_def)
  then show thesis using that e(1) s(4) by (simp add: scriptEval_def)
qed

lemma write_text_plain:
  assumes "write_ok t"
  shows "skip_language (skipWhite (call_text ''write'' t @ r)) = call_text ''write'' t @ r" "skipWhite (call_text ''write'' t) = call_text ''write'' t"
    "join_lines_from False (call_text ''write'' t) = call_text ''write'' t" "call_text ''write'' t \<noteq> []"
proof -
  have w: "\<not> gisspace (CHR ''w'')" "gtolower (CHR ''w'') \<noteq> gtolower (CHR ''l'')" by (simp_all add: gisspace_def uchar_def gtolower_def)
  then show "skip_language (skipWhite (call_text ''write'' t @ r)) = call_text ''write'' t @ r" "skipWhite (call_text ''write'' t) = call_text ''write'' t"
    by (simp_all add: call_text_def skipWhite_def skip_language_def strtokcmp_def)
  have "\<forall>c \<in> set (quoted t). \<not> is_nl c" using assms quoted_chars by (fastforce simp: write_ok_def is_nl_def)
  then show "join_lines_from False (call_text ''write'' t) = call_text ''write'' t"
    by (intro join_lines_id) (simp add: call_text_def list_all_iff is_nl_def)
  show "call_text ''write'' t \<noteq> []" by (simp add: call_text_def)
qed

section \<open>Whole pages\<close>

text \<open>A page of texts and scripts: each script writes one string.\<close>

fun page_text :: "(string \<times> string) list \<Rightarrow> string \<Rightarrow> string" where
  "page_text [] tail = tail"
| "page_text ((t, s) # xs) tail = t @ ''<%'' @ call_text ''write'' s @ ''%>'' @ page_text xs tail"

fun expanded :: "(string \<times> string) list \<Rightarrow> string \<Rightarrow> string" where
  "expanded [] tail = tail"
| "expanded ((t, s) # xs) tail = t @ s @ expanded xs tail"

definition pieces_ok :: "(string \<times> string) list \<Rightarrow> string \<Rightarrow> bool" where
  "pieces_ok xs tail \<longleftrightarrow> list_all (\<lambda>(t, s). \<not> has_sub ''<%'' t \<and> is_cstr t \<and> write_ok s) xs \<and> \<not> has_sub ''<%'' tail \<and> is_cstr tail"

text \<open>The server with more output.\<close>

definition wrote :: "string \<Rightarrow> server \<Rightarrow> server \<Rightarrow> bool" where
  "wrote t s s' \<longleftrightarrow> (\<exists>bs. s' = s\<lparr>out := out s @ bs\<rparr> \<and> concat bs = t)"

lemma wrote_block [simp]: "wrote b s (put_block b s)"
  by (cases "b = []") (auto simp: wrote_def put_block_def intro: exI [of _ "[]"] exI [of _ "[b]"])

lemma wrote_trans: "wrote t s s1 \<Longrightarrow> wrote u s1 s2 \<Longrightarrow> wrote (t @ u) s s2"
proof -
  assume "wrote t s s1" "wrote u s1 s2"
  then obtain bs cs where "s1 = s\<lparr>out := out s @ bs\<rparr>" "concat bs = t" "s2 = s1\<lparr>out := out s1 @ cs\<rparr>" "concat cs = u" by (auto simp: wrote_def)
  then show ?thesis unfolding wrote_def by (intro exI [of _ "bs @ cs"]) simp
qed

lemma on_server_block:
  "scripting en a ep \<Longrightarrow> on_server (websWriteBlock a b) ep = Inr (int (length b), put_server (put_block b (server_of ep)) ep)"
  by (simp add: scripting_def on_server_def websWriteBlock_fine)

lemma scripting_same:
  "scripting en a ep \<Longrightarrow> server_of ep' = put_block t (server_of ep) \<Longrightarrow> frames ep' = frames ep \<Longrightarrow> scripting en a ep'"
proof -
  assume s: "scripting en a ep" "server_of ep' = put_block t (server_of ep)" "frames ep' = frames ep"
  then have "ej_tabs ep' = ej_tabs ep" by (metis put_block_simps(1) tabs_server)
  then show ?thesis using s by (simp add: scripting_def registered_def frames_def)
qed

lemma asp_loop_expands:
  "scripting en a ep \<Longrightarrow> pieces_ok xs tail \<Longrightarrow>
   \<exists>ep'. asp_loop e en a lpath (page_text xs tail) ep = Inr (0, ep') \<and> wrote (expanded xs tail) (server_of ep) (server_of ep') \<and> frames ep' = frames ep"
proof (induction xs arbitrary: ep)
  case Nil
  then have "cut_at ''<%'' tail = None" by (intro cut_at_none) (simp_all add: pieces_ok_def)
  then show ?case using on_server_block [OF Nil(1), of tail]
    by (cases "tail = []") (auto simp: asp_loop.simps wrote_def intro: exI [of _ "[]"] wrote_block [unfolded wrote_def])
next
  case (Cons x xs)
  obtain t s where x: "x = (t, s)" by (cases x)
  have ok: "\<not> has_sub ''<%'' t" "write_ok s" "pieces_ok xs tail" using Cons.prems(2) by (simp_all add: x pieces_ok_def)
  let ?rest = "page_text xs tail" and ?c = "call_text ''write'' s"
  have c1: "cut_at ''<%'' (page_text (x # xs) tail) = Some (t, ?c @ ''%>'' @ ?rest)"
    using cut_at_first [OF _ ok(1), of "?c @ ''%>'' @ ?rest"] by (simp add: x)
  have c2: "cut_at ''%>'' (skip_language (skipWhite (?c @ ''%>'' @ ?rest))) = Some (?c, ?rest)"
    unfolding write_text_plain(1) [OF ok(2)] using cut_at_first [of "CHR ''%''" "CHR ''>''" ?c ?rest] ok(2) by (simp add: write_ok_def)
  define ep1 where "ep1 = put_server (put_block t (server_of ep)) ep"
  have s1: "scripting en a ep1" using scripting_put [OF Cons.prems(1)] by (simp add: ep1_def)
  obtain ep2 where e2: "scriptEval en a ?c ep1 = Inr (0, None, ep2)" "server_of ep2 = put_block s (server_of ep1)" "frames ep2 = frames ep1"
    by (rule write_script [OF s1 ok(2)])
  obtain ep' where r: "asp_loop e en a lpath ?rest ep2 = Inr (0, ep')" "wrote (expanded xs tail) (server_of ep2) (server_of ep')" "frames ep' = frames ep2"
    using Cons.IH [OF scripting_same [OF s1 e2(2,3)] ok(3)] by blast
  have "asp_loop e en a lpath (page_text (x # xs) tail) ep = asp_loop e en a lpath ?rest ep2"
    using c1 c2 e2(1) on_server_block [OF Cons.prems(1), of t] write_text_plain(2-4) [OF ok(2)]
    by (subst asp_loop.simps) (simp add: ep1_def Let_def)
  moreover have "wrote t (server_of ep) (server_of ep1)" "wrote s (server_of ep1) (server_of ep2)" by (simp_all add: ep1_def e2(2))
  then have "wrote (t @ s @ expanded xs tail) (server_of ep) (server_of ep')" by (rule wrote_trans [OF _ wrote_trans [OF _ r(2)]])
  ultimately show ?case using r(1,3) e2(3) by (simp add: x ep1_def)
qed

section \<open>Requests\<close>

text \<open>An engine over the tables of the request and of the pages.\<close>

definition one_frame :: "int \<Rightarrow> int hlist option" where
  "one_frame sd = Some \<lparr>h_used = 1, h_slots = (replicate H_INCR None)[0 := Some sd]\<rparr>"

lemma frame_one: "ej_variables ep = Some \<lparr>h_used = 1, h_slots = (replicate H_INCR None)[0 := Some sd]\<rparr> \<Longrightarrow> frame_sd 0 ep = Inr sd"
  by (simp add: frame_sd_def H_INCR_def)

lemma ejOpenEngine_tables:
  assumes h: "a_first (en_halloc en)" and t: "tabs_ok t" "live v t" and f: "fns \<noteq> - 1" "fns \<noteq> v" "0 \<le> fns"
  obtains ep where "ejOpenEngine en True v fns t s = Inr (Some ep)" and "ej_world ep = s" and "frames ep = (fns, one_frame v, 1, False, False)"
    and "tabs_ok (ej_tabs ep)" and "\<And>k. 0 \<le> k \<Longrightarrow> k \<noteq> v \<Longrightarrow> syms (ej_tabs ep) k = syms t k" and "\<And>k. live k (ej_tabs ep) \<longleftrightarrow> live k t"
    and "vars_ok t v \<Longrightarrow> vars_ok (ej_tabs ep) v"
proof -
  have v: "0 \<le> v" using t(2) by (simp add: live_def)
  define ep1 where "ep1 = (blank_ej t s)\<lparr>ej_variables := one_frame v, ej_variableMax := 1, ej_functions := fns\<rparr>"
  have nf: "new_frame en (blank_ej t s) = (0, (blank_ej t s)\<lparr>ej_variables := Some \<lparr>h_used = 1, h_slots = replicate H_INCR None\<rparr>, ej_variableMax := 1\<rparr>)"
    using h by (simp add: new_frame_def blank_ej_def hAlloc_def H_INCR_def eval_nat_numeral)
  have open1: "ejOpenEngine en True v fns t s = res_bind (ejSetGlobalVar en ''null'' None ep1) (\<lambda>ep. Inr (Some ep))"
    using nf v f(1) by (simp add: ejOpenEngine_def open_variables_def open_functions_def set_frame_def ep1_def one_frame_def blank_ej_def)
  have fr: "frame_sd 0 ep1 = Inr v" by (rule frame_one) (simp add: ep1_def one_frame_def)
  have e1: "ej_tabs ep1 = t" "ej_world ep1 = s" "frames ep1 = (fns, one_frame v, 1, False, False)" by (simp_all add: ep1_def blank_ej_def frames_def)
  have "\<exists>sp t'. symEnter (en_sym en) v ''null'' VNull 0 t = Inr (sp, t') \<and> tabs_ok t' \<and> (\<forall>k. 0 \<le> k \<and> k \<noteq> v \<longrightarrow> syms t' k = syms t k)
      \<and> (vars_ok t v \<longrightarrow> vars_ok t' v)"
    using symEnter_eq [OF t, of "en_sym en" "''null''" VNull 0] t(1) by (elim disjE exE conjE) (auto simp: vars_ok_def)
  then obtain sp t' where t': "symEnter (en_sym en) v ''null'' VNull 0 t = Inr (sp, t')" "tabs_ok t'" "\<forall>k. 0 \<le> k \<and> k \<noteq> v \<longrightarrow> syms t' k = syms t k"
    "vars_ok t v \<longrightarrow> vars_ok t' v" by blast
  have "ejSetGlobalVar en ''null'' None ep1 = Inr (ep1\<lparr>ej_tabs := t'\<rparr>)"
    using fr t'(1) e1(1) by (simp add: ejSetGlobalVar_def enter_var_def string_value_def)
  then show thesis using that [of "ep1\<lparr>ej_tabs := t'\<rparr>"] open1 e1(2,3) t'(2-4) symEnter_live [OF t(2) t'(1)] by (simp add: frames_def)
qed

lemma ejCloseEngine_one:
  assumes "frames ep = (fns, one_frame v, 1, False, False)"
  obtains ep' where "ejCloseEngine ep = Inr ep'" and "server_of ep' = server_of ep"
proof -
  have f: "ej_variables ep = one_frame v" "ej_variableMax ep = Suc 0" "\<not> ej_own_variables ep" "\<not> ej_own_functions ep" using assms by (simp_all add: frames_def)
  have "hFree (one_frame v) 0 = Inr (0, None)" by (simp add: hFree_def one_frame_def H_INCR_def)
  then have "ejCloseEngine ep = Inr (ep\<lparr>ej_error := None, ej_result := None, ej_variables := None, ej_variableMax := 0\<rparr>)"
    using f by (simp add: ejCloseEngine_def)
  then show thesis using that by (simp add: server_of_def)
qed

lemma quoted_cstr: "is_cstr s \<Longrightarrow> is_cstr (quoted s)"
  using quoted_chars [of NUL s] by (auto simp: is_cstr_def)

lemma page_text_cstr: "pieces_ok xs tail \<Longrightarrow> is_cstr (page_text xs tail)"
proof (induction xs)
  case (Cons x xs)
  then show ?case by (cases x) (simp add: pieces_ok_def call_text_def write_ok_def quoted_cstr)
qed (simp add: pieces_ok_def)

text \<open>What \<open>websAspRequest\<close> needs to run: its allocations, a first array of frames, \<open>write\<close> among the functions
  of the pages, and a socket that takes what it is given.\<close>

definition asp_ready :: "server ejenv \<Rightarrow> aspenv \<Rightarrow> aspmod \<Rightarrow> int \<Rightarrow> server \<Rightarrow> bool" where
  "asp_ready en a m v s \<longleftrightarrow> ae_engine a \<and> ae_rbuf a \<and> ae_buf a \<and> ae_script a \<and> 5 \<le> ae_fuel a \<and> socket_fine a \<and> mem_total (en_mem en)
     \<and> a_first (en_halloc en) \<and> (\<exists>others. en_fn en = asp_functions a others)
     \<and> live (websAspFunctions m) (tabs s) \<and> websAspFunctions m \<noteq> v
     \<and> (\<exists>p. syms (tabs s) (websAspFunctions m) ''write'' = Some p \<and> s_content p = VInteger ASP_WRITE)"

lemma asp_ready_other: "asp_ready en a m v s \<Longrightarrow> websAspFunctions m \<noteq> sd \<Longrightarrow> live (websAspFunctions m) (tabs s') \<Longrightarrow>
    syms (tabs s') (websAspFunctions m) = syms (tabs s) (websAspFunctions m) \<Longrightarrow> asp_ready en a m v s'"
  by (simp add: asp_ready_def)

lemma websAspRequest_expands:
  assumes ok: "server_ok s" and w: "wp s = Some w" and d: "w_docfd w = Some (page_text xs tail, 0)"
    and f: "pg_node f lpath = Some (Doc (page_text xs tail) dt)" "pg_stat f" and p: "pieces_ok xs tail"
    and r: "asp_ready en a m (w_cgiVars w) s"
  obtains t bs where "websAspRequest e f en a m lpath s = Inr (0, s\<lparr>tabs := t, wp := Some (w\<lparr>w_flags := w_flags w OR WEBS_HEADER_DONE, w_docfd := None\<rparr>), out := out s @ bs\<rparr>)"
    and "concat bs = expanded xs tail" and "tabs_ok t" and "\<And>k. live k t \<longleftrightarrow> live k (tabs s)" and "vars_ok t (w_cgiVars w)"
proof -
  let ?v = "w_cgiVars w" and ?fn = "websAspFunctions m" and ?page = "page_text xs tail"
  have t: "tabs_ok (tabs s)" "live ?v (tabs s)" "vars_ok (tabs s) ?v" using ok w by (auto simp: server_ok_def request_ok_def)
  have a: "ae_engine a" "ae_rbuf a" "ae_buf a" "ae_script a" "5 \<le> ae_fuel a" "socket_fine a" "mem_total (en_mem en)" "a_first (en_halloc en)"
    "\<exists>others. en_fn en = asp_functions a others" "live ?fn (tabs s)" "?fn \<noteq> ?v" "0 \<le> ?fn" "?fn \<noteq> - 1"
    using r by (auto simp: asp_ready_def live_def)
  obtain q where q: "syms (tabs s) ?fn ''write'' = Some q" "s_content q = VInteger ASP_WRITE" using r by (auto simp: asp_ready_def)
  let ?w = "w\<lparr>w_flags := w_flags w OR WEBS_HEADER_DONE\<rparr>" and ?w2 = "w\<lparr>w_flags := w_flags w OR WEBS_HEADER_DONE, w_docfd := None\<rparr>"
  define s0 where "s0 = upd (\<lambda>w. w\<lparr>w_flags := w_flags w OR WEBS_HEADER_DONE\<rparr>) s"
  obtain ep where ep: "ejOpenEngine en True ?v ?fn (tabs s) s0 = Inr (Some ep)" "ej_world ep = s0" "frames ep = (?fn, one_frame ?v, 1, False, False)"
    "tabs_ok (ej_tabs ep)" "\<And>k. 0 \<le> k \<Longrightarrow> k \<noteq> ?v \<Longrightarrow> syms (ej_tabs ep) k = syms (tabs s) k" "\<And>k. live k (ej_tabs ep) \<longleftrightarrow> live k (tabs s)"
    "vars_ok (tabs s) ?v \<Longrightarrow> vars_ok (ej_tabs ep) ?v"
    by (rule ejOpenEngine_tables [OF a(8) t(1,2) a(13,11,12)]) blast
  define t' where "t' = ej_tabs ep"
  define s1 where "s1 = s\<lparr>tabs := t', wp := Some ?w2\<rparr>"
  have s0: "server_of ep = s\<lparr>tabs := t', wp := Some ?w\<rparr>" using w by (simp add: server_of_def ep(2) s0_def t'_def upd_def)
  define ep1 where "ep1 = put_server s1 ep"
  define s2 where "s2 = s\<lparr>tabs := t', wp := Some (?w\<lparr>w_docfd := Some (?page, length ?page)\<rparr>)\<rparr>"
  have rd: "websPageReadData (length ?page) (server_of ep) = Inr (int (length ?page), ?page, s2)"
    using d by (simp add: s0 websPageReadData_def upd_def s2_def)
  have cl1: "websPageClose s2 = Inr s1" by (simp add: websPageClose_def upd_def s2_def s1_def)
  have pp: "put_server s1 (put_server s2 ep) = ep1" by (simp add: ep1_def put_server_def)
  have tk: "takeWhile (\<lambda>c. c \<noteq> NUL) ?page = ?page" using page_text_cstr [OF p] by (auto simp: takeWhile_eq_all_conv is_cstr_def)
  have st: "websPageStat f lpath = Some (length ?page, dt)" using f by (simp add: websPageStat_def)
  have lp: "asp_page e f en a lpath ep = asp_loop e en a lpath ?page ep1"
    using a(2,3) by (simp add: asp_page_def st rd cl1 pp tk Let_def)
  have "registered ''write'' ASP_WRITE ep1"
    using q ep(4,5,6,3) a(10,11,12) symLookup_eq [of "ej_tabs ep" ?fn "''write''"]
    by (simp add: registered_def ep1_def put_server_def s1_def t'_def frames_def ASP_WRITE_def)
  then have "scripting en a ep1" using a by (simp add: scripting_def ep1_def s1_def)
  from asp_loop_expands [OF this p] obtain ep2 where e2: "asp_loop e en a lpath ?page ep1 = Inr (0, ep2)" "wrote (expanded xs tail) s1 (server_of ep2)"
    "frames ep2 = frames ep" by (auto simp: ep1_def)
  obtain bs where bs: "server_of ep2 = s1\<lparr>out := out s1 @ bs\<rparr>" "concat bs = expanded xs tail" using e2(2) by (auto simp: wrote_def)
  have cl: "websPageClose (server_of ep2) = Inr (server_of ep2)" by (simp add: bs(1) s1_def websPageClose_def upd_def)
  obtain ep3 where e3: "ejCloseEngine (put_server (server_of ep2) ep2) = Inr ep3" "server_of ep3 = server_of ep2"
    using ejCloseEngine_one [of "put_server (server_of ep2) ep2" ?fn ?v] e2(3) ep(3) by auto
  have "wp (server_of ep2) \<noteq> None" by (simp add: bs(1) s1_def)
  then have dn: "asp_done (0, ep2) = Inr (0, server_of ep2)" using cl e3 by (simp add: asp_done_def)
  have "websAspRequest e f en a m lpath s = Inr (0, server_of ep2)"
    using w ep(1) a(1) lp e2(1) dn by (simp add: websAspRequest_def Let_def s0_def)
  then show thesis using that [of bs t'] bs ep(4,6) ep(7) [OF t(3)] by (simp add: s1_def t'_def)
qed

end
