(* ===== verification/Asp_Page.thy ===== *)
theory Asp_Page
  imports Asp_Laws Page_Laws
begin

text \<open>
  Requests for pages with scripts, from the file handler over the script engine to the end of the request.
\<close>

lemma syms_live: "syms t k n = Some p \<Longrightarrow> 0 \<le> k \<Longrightarrow> live k t"
  by (auto simp: syms_def live_def split: option.splits)

lemma asp_ready_tabs:
  assumes "asp_ready en a m v s" and "syms (tabs s') (websAspFunctions m) = syms (tabs s) (websAspFunctions m)"
  shows "asp_ready en a m v s'"
  using assms syms_live [of "tabs s'" "websAspFunctions m" "''write''"] by (auto simp: asp_ready_def live_def)

lemma asp_header:
  assumes w: "wp s = Some w" and e: "env_ok e" and ty: "is_cstr (w_type w)" and asp: "w_flags w AND WEBS_ASP \<noteq> 0"
  obtains hdr where "page_header e sz d s = Inr (s\<lparr>out := out s @ hdr\<rparr>)"
proof -
  have "writes s (page_header e sz d s)"
    using w e ty asp unfolding page_header_def Let_def
    by (simp, intro writes_option writes_none writes_bind writes_if writes_write) (simp_all add: args_ok_def WEBS_NAME_def env_ok_def)
  then show thesis using that by (auto simp: writes_def)
qed

text \<open>C14. Pages with scripts are expanded and delivered: for a request marked as a script page, neither
  \<open>HEAD\<close> nor keep-alive, on a server where \<open>write\<close> is registered, when memory can be allocated and the
  socket takes what is written, and for a document that is text with any number of scripts
  \<open>write("...");\<close> between script marks (the strings any C strings without line ends and without the
  closing mark, quotes and backslashes escaped), the file handler answers with a header and then, in
  order, the text as it is with each script replaced by its string, reports no error, and ends the
  request with the server sound.  Five units of fuel are enough for each script.\<close>

theorem asp_page_expanded:
  assumes "server_ok s" and "wp s = Some w" and "env_ok e"
    and "is_cstr (websGetRequestDir w)" and "websGetRequestDir w \<noteq> []"
    and "length (path_tokens path) \<le> 64" and "path_parts path \<noteq> []"
    and "pg_node f (join_path (websGetRequestDir w) (path_parts path)) = Some (Doc (page_text xs tail) dt)" and "pg_open f" and "pg_stat f"
    and "is_cstr (w_type w)" and "w_flags w AND WEBS_ASP \<noteq> 0" and "w_flags w AND WEBS_HEAD_REQUEST = 0"
    and "(w_flags w OR WEBS_HEADER_DONE) AND WEBS_KEEP_ALIVE = 0"
    and "pieces_ok xs tail" and "asp_ready en a m (w_cgiVars w) s"
  shows "\<exists>s' hdr body. websDefaultHandler e f (websAspRequest e f en a m) path s = Inr (1, s') \<and> wp s' = None \<and> server_ok s'
    \<and> out s' = out s @ hdr @ body \<and> concat body = expanded xs tail \<and> st_errors s' = st_errors s"
proof -
  define lp where "lp = join_path (websGetRequestDir w) (path_parts path)"
  let ?asp = "websAspRequest e f en a m" and ?page = "page_text xs tail" and ?v = "w_cgiVars w"
  obtain t w' where t: "w' = w\<lparr>w_lpath := Some lp, w_docfd := Some (?page, 0)\<rparr>"
    "websDefaultHandler e f ?asp path s = serve_page e ?asp lp (length ?page) dt (s\<lparr>tabs := t, wp := Some w'\<rparr>)"
    "server_ok (s\<lparr>tabs := t, wp := Some w'\<rparr>)" "\<And>k. 0 \<le> k \<Longrightarrow> k \<noteq> ?v \<Longrightarrow> syms t k = syms (tabs s) k"
    by (rule page_reached [OF assms(1,2,4-10), of e ?asp]) (simp add: lp_def)
  let ?s = "s\<lparr>tabs := t, wp := Some w', st_localHits := st_localHits s + 1\<rparr>"
  have wf: "wp ?s = Some w'" "is_cstr (w_type w')" "w_flags w' AND WEBS_ASP \<noteq> 0" using assms(11,12) t(1) by simp_all
  obtain hdr where h: "page_header e (length ?page) dt ?s = Inr (?s\<lparr>out := out ?s @ hdr\<rparr>)"
    by (rule asp_header [OF wf(1) assms(3) wf(2,3)])
  let ?s1 = "?s\<lparr>out := out s @ hdr\<rparr>"
  have ok1: "server_ok ?s1" "wp ?s1 = Some w'" using t(3) by (simp_all add: server_ok_def request_ok_def)
  have d1: "w_docfd w' = Some (?page, 0)" by (simp add: t(1))
  have n1: "pg_node f lp = Some (Doc ?page dt)" using assms(8) by (simp add: lp_def)
  have fn: "0 \<le> websAspFunctions m" "websAspFunctions m \<noteq> ?v" using assms(16) by (auto simp: asp_ready_def live_def)
  have r1: "asp_ready en a m (w_cgiVars w') ?s1"
    using asp_ready_tabs [OF assms(16), of ?s1] t(4) [OF fn] by (simp add: t(1))
  obtain t2 body where a: "?asp lp ?s1 = Inr (0, ?s1\<lparr>tabs := t2, wp := Some (w'\<lparr>w_flags := w_flags w' OR WEBS_HEADER_DONE, w_docfd := None\<rparr>), out := out ?s1 @ body\<rparr>)"
    "concat body = expanded xs tail" "tabs_ok t2" "\<And>k. live k t2 \<longleftrightarrow> live k (tabs ?s1)" "vars_ok t2 (w_cgiVars w')"
    by (rule websAspRequest_expands [OF ok1 d1 n1 assms(10,15) r1, of e]) blast
  let ?s2 = "?s1\<lparr>tabs := t2, wp := Some (w'\<lparr>w_flags := w_flags w' OR WEBS_HEADER_DONE, w_docfd := None\<rparr>), out := out ?s1 @ body\<rparr>"
  have ok2: "server_ok ?s2" "wp ?s2 = Some (w'\<lparr>w_flags := w_flags w' OR WEBS_HEADER_DONE, w_docfd := None\<rparr>)"
    using ok1 a(3,4,5) by (auto simp: server_ok_def request_ok_def webs_strs_def)
  have "w_flags (w'\<lparr>w_flags := w_flags w' OR WEBS_HEADER_DONE, w_docfd := None\<rparr>) AND WEBS_KEEP_ALIVE = 0" using assms(14) t(1) by simp
  from websDone_ends [OF ok2 this, of e 200] obtain s' where s': "websDone e 200 ?s2 = Inr s'" "ended ?s2 s'" "out s' = out ?s2" "st_errors s' = st_errors ?s2"
    by blast
  have "serve_page e ?asp lp (length ?page) dt (s\<lparr>tabs := t, wp := Some w'\<rparr>) = Inr (1, s')"
    using h a(1) s'(1) assms(12,13) t(1) by (simp add: serve_page_def Let_def)
  then show ?thesis using t(2) s'(2-4) a(2) by (intro exI [of _ s'] exI [of _ hdr] exI [of _ body]) (simp add: ended_def)
qed

section \<open>An example\<close>

definition asp_tabs :: "value_t symtabs" where
  "asp_tabs = \<lparr>sym = Some \<lparr>h_used = 3, h_slots = [Some \<lparr>hash_size = 1, hash_table = [[]]\<rparr>, Some \<lparr>hash_size = 1, hash_table = [[]]\<rparr>,
       Some \<lparr>hash_size = 1, hash_table = [[\<lparr>s_name = ''write'', s_content = VInteger ASP_WRITE, s_arg = 0\<rparr>]]\<rparr>]\<rparr>,
     symMax = 3, symOpenCount = 1, htIndex = 0, next_sym = []\<rparr>"

definition asp_server :: server where
  "asp_server = demo_server\<lparr>tabs := asp_tabs, wp := Some (demo_webs\<lparr>w_flags := WEBS_ASP\<rparr>)\<rparr>"

definition asp_env :: aspenv where
  "asp_env = \<lparr>ae_engine = True, ae_rbuf = True, ae_buf = True, ae_script = True, ae_fail = (\<lambda>o' n. None), ae_fuel = 5\<rparr>"

definition asp_en :: "server ejenv" where
  "asp_en = \<lparr>en_mem = demo_mem, en_sym = True, en_halloc = \<lparr>a_first = True, a_grow = True, a_entry = True\<rparr>,
     en_fn = asp_functions asp_env (\<lambda>fn args s. Inr (0, s))\<rparr>"

definition asp_doc :: "byte list" where
  "asp_doc = page_text [(''<p>'', ''hi'')] ''</p>''"

definition asp_pages :: pages where
  "asp_pages = \<lparr>pg_node = [''/etc_ro/web/b.htm'' \<mapsto> Doc asp_doc None], pg_open = True, pg_stat = True\<rparr>"

lemma asp_tabs_ok: "tabs_ok asp_tabs" "live 0 asp_tabs" "live 1 asp_tabs" "live 2 asp_tabs" "vars_ok asp_tabs 0"
  by (auto simp: asp_tabs_def tabs_ok_def live_def hwf_def hget_def tabent_ok_def vars_ok_def syms_def tab_map_def
      chain_map_def hashIndex_def less_Suc_eq nth_Cons' split: if_splits)

lemma asp_server_ok: "server_ok asp_server"
  using asp_tabs_ok demo_server_ok(1)
  by (auto simp: asp_server_def server_ok_def request_ok_def webs_strs_def demo_server_def demo_webs_def)

lemma asp_ready_example: "asp_ready asp_en asp_env \<lparr>aspOpenCount = 1, websAspFunctions = 2\<rparr> 0 asp_server"
  using asp_tabs_ok(4)
  by (auto simp: asp_ready_def asp_en_def asp_env_def asp_server_def socket_fine_def mem_total_def alloc_ok_def demo_mem_def syms_def hget_def asp_tabs_def
      tab_map_def chain_map_def hashIndex_def live_def)

lemma asp_pieces_ok: "pieces_ok [(''<p>'', ''hi'')] ''</p>''"
  by (simp add: pieces_ok_def write_ok_def call_text_def)

lemma asp_flags: "w_flags (demo_webs\<lparr>w_flags := WEBS_ASP\<rparr>) AND WEBS_ASP \<noteq> 0" "w_flags (demo_webs\<lparr>w_flags := WEBS_ASP\<rparr>) AND WEBS_HEAD_REQUEST = 0"
  "(w_flags (demo_webs\<lparr>w_flags := WEBS_ASP\<rparr>) OR WEBS_HEADER_DONE) AND WEBS_KEEP_ALIVE = 0"
  by code_simp+

theorem asp_page_expanded_witness:
  "\<exists>s' hdr body. websDefaultHandler demo_env asp_pages (websAspRequest demo_env asp_pages asp_en asp_env \<lparr>aspOpenCount = 1, websAspFunctions = 2\<rparr>)
      ''/x/%2e%2e/b.htm'' asp_server = Inr (1, s') \<and> wp s' = None \<and> server_ok s'
    \<and> out s' = out asp_server @ hdr @ body \<and> concat body = ''<p>hi</p>'' \<and> st_errors s' = st_errors asp_server"
proof -
  let ?w = "demo_webs\<lparr>w_flags := WEBS_ASP\<rparr>"
  have w: "wp asp_server = Some ?w" "websGetRequestDir ?w = websGetRequestDir demo_webs" "w_type ?w = w_type demo_webs" "w_cgiVars ?w = 0"
    by (simp_all add: asp_server_def websGetRequestDir_def demo_webs_def)
  have n: "pg_node asp_pages (join_path (websGetRequestDir ?w) (path_parts ''/x/%2e%2e/b.htm'')) = Some (Doc (page_text [(''<p>'', ''hi'')] ''</p>'') None)"
    unfolding w(2) by (simp only: asp_pages_def asp_doc_def [symmetric] pages.select_convs) code_simp
  have p: "pg_open asp_pages" "pg_stat asp_pages" by (simp_all add: asp_pages_def)
  have d: "is_cstr (websGetRequestDir ?w)" "websGetRequestDir ?w \<noteq> []" "is_cstr (w_type ?w)" using demo_request(2-4) w(2,3) by simp_all
  have r: "asp_ready asp_en asp_env \<lparr>aspOpenCount = 1, websAspFunctions = 2\<rparr> (w_cgiVars ?w) asp_server" using asp_ready_example w(4) by simp
  from asp_page_expanded [OF asp_server_ok w(1) demo_server_ok(2) d(1,2) demo_document(1,2) n p d(3) asp_flags asp_pieces_ok r]
  show ?thesis by simp
qed

end
