(* ===== verification/Spec2Isabelle.thy ===== *)
theory Spec2Isabelle
  imports Crc32 Flash Nvram Nvram_Store Nvram_Persist Nvram_Properties Lib_Nvram Flash_Api
    Handle Emfdb Emfdb_Laws Um Um_Laws Um_Properties Um_Access Um_Steps Um_Invariant Sym Sym_Laws
    Url Base64 Uemf Url_Parse Fmt Webs Webs_Laws Default Security Form Handler Handler_Laws
    Block Goahead Ringq Sock Request Request_Laws Request_First Remote
    Misc Emfdb_File Emfdb_File_Laws Emfdb_Load Um_File Page Page_Laws
    Ejlex Ejlex_Laws Ejlex_Safe Ejlex_Text Ejparse Ejparse_Laws Ejengine Ejexpr Ejcall Asp Asp_Laws Asp_Page
begin

text \<open>
  The configuration store and the web-administration core of the RT5350 router firmware
  (\<open>src/ra5350/lktos_sdk/source/\<close>, called \<open>S\<close> below; the web server is \<open>S/user/goahead/src_tongyong\<close>,
  called \<open>G\<close>).

  \<^bold>\<open>How the parts interact.\<close>  The settings of the router live in one flash partition.  The kernel driver
  (\<open>S/linux-2.6.21.x/arch/mips/rt2880/nvram.c\<close>) parses it at boot into a cache of name/value pairs, answers
  ioctls and writes the cache back with a checksum, through the flash helpers of \<open>ralink-flash.c\<close>.
  \<open>S/lib/libnvram\<close> is the user side: a cache per process over the ioctls (\<open>nvram_env.c\<close>) and access to the
  other flash partitions (\<open>flash_api.c\<close>).  At start the web server reads the administrator's name and
  password from that store and enters them into its user database (\<open>um.c\<close> over \<open>emfdb.c\<close> over \<open>h.c\<close>).  A
  request arrives on a socket (\<open>sock.c\<close>, \<open>sockGen.c\<close>, \<open>ringq.c\<close>), is parsed (\<open>webs.c\<close>, \<open>url.c\<close>, \<open>base64.c\<close>), goes
  through the handlers of its URL prefix (\<open>handler.c\<close>): first access control (\<open>security.c\<close>), then forms
  (\<open>form.c\<close>) or files (\<open>default.c\<close>); variables of the request and the forms are symbol tables (\<open>sym.c\<close>).

  \<^bold>\<open>Theories.\<close>
  \<^item> \<open>Prelude\<close>: results (\<open>fault + 'a\<close>), C strings, signed and unsigned characters, scans that may leave a
    buffer, allocators; the hints and lemmas the other theories share.  \<open>Block\<close>: offsets into one block of
    memory.
  \<^item> \<open>Crc32\<close>: \<open>nv_crc32\<close> of the kernel and \<open>crc32\<close> of \<open>S/lib/libnvram/crc32.c\<close>, the bit-level definition both
    implement.
  \<^item> \<open>Flash\<close>: \<open>ra_mtd_read_nm\<close> and \<open>ra_mtd_write_nm\<close> over an erase block, with the outcome of each device
    operation as a parameter.
  \<^item> \<open>Nvram\<close>: the driver's state (\<open>fb\<close>, the semaphore, the flash) as a record and all its operations;
    \<open>Nvram_Store\<close> its invariant and its refinement to maps from names to values; \<open>Nvram_Persist\<close> the image in
    flash and what a restart reads; \<open>Nvram_Properties\<close> the properties, with the paths on which the driver
    loses data, blocks or leaves a buffer: a failed \<open>kstrdup\<close> (an entry without a value), a full block, a write that
    does not take place, a commit without memory.
  \<^item> \<open>Lib_Nvram\<close>: the library's cache over the driver's ioctl, for one client.  \<open>Flash_Api\<close>: MTD devices with a
    file position and the functions of \<open>flash_api.c\<close>.
  \<^item> \<open>Handle\<close>: \<open>h.c\<close>, arrays of pointers that grow.  \<open>Emfdb\<close>, \<open>Emfdb_Laws\<close>: the text-file database, tables of
    typed columns, rows that may be deleted.  \<open>Um\<close>: users, groups and access limits as its tables;
    \<open>Um_Laws\<close>, \<open>Um_Properties\<close> the abstraction of a table to a map, \<open>Um_Access\<close> the searches and the password
    obfuscation, \<open>Um_Steps\<close> and \<open>Um_Invariant\<close> the operations as a step relation and its invariant (a
    user's group is a string but need not be a group of the table: \<open>umSetUserGroup\<close> does not check it).
  \<^item> \<open>Sym\<close>, \<open>Sym_Laws\<close>: the hash tables, as dictionaries.
  \<^item> \<open>Url\<close>, \<open>Url_Parse\<close>, \<open>Base64\<close>, \<open>Uemf\<close>, \<open>Fmt\<close>: URL decoding and escaping, \<open>websUrlParse\<close> with its single
    block of memory, Base64, case conversion and number printing, formatted output with the memory of its
    growing buffer.
  \<^item> \<open>Ringq\<close>: the byte queues as bytes and two offsets, refined to lists.  \<open>Sock\<close>: the input side of a
    connection over a stream of network events; lines.
  \<^item> \<open>Webs\<close>, \<open>Webs_Laws\<close>: the request record, the CGI variables, responses, \<open>websSetEnv\<close>.  \<open>Default\<close>: the mapping
    of a path to a file.  \<open>Security\<close>, \<open>Form\<close>, \<open>Handler\<close>, \<open>Handler_Laws\<close>: access control, forms, dispatch.
    \<open>Goahead\<close>: the accounts \<open>initWebs\<close> creates.  \<open>Request\<close>, \<open>Request_Laws\<close>: the state machine that reads a
    request; \<open>Request_First\<close>: its first line and its lines up to dispatch; \<open>Remote\<close>: the parts put together,
    from the bytes of a socket to the answer.
  \<^item> \<open>Misc\<close>: the number and path functions of \<open>misc.c\<close>.  \<open>Emfdb_File\<close>: \<open>dbSave\<close> and \<open>dbLoad\<close> over a map from
    file names to texts, with the outcome of every file call as a parameter (\<open>fsenv\<close>); \<open>Emfdb_File_Laws\<close>: what is
    saved is loaded again, and a failed save keeps the old file; \<open>Emfdb_Load\<close>: any file leaves well-typed tables.
    \<open>Um_File\<close>: \<open>umCommit\<close> and \<open>umRestore\<close> and what they do to the decisions of access control.
  \<^item> \<open>Page\<close>: the file handler, the page functions and the background writer; the document tree is a map, the
    results of \<open>socketWrite\<close> are a parameter (\<open>writer\<close>).  \<open>Page_Laws\<close>: it opens only documents below its
    directory and delivers them byte for byte.
  \<^item> \<open>Ejlex\<close>: the scanner of the script language (\<open>ejlex.c\<close>): the input record of \<open>ejIntrn.h\<close> with its two byte
    queues, its line buffer and the saved input; \<open>Ejlex_Laws\<close> the invariant of an input and the single steps,
    \<open>Ejlex_Safe\<close> safety and termination of \<open>ejLexGetToken\<close>, \<open>Ejlex_Text\<close> the tokens of string and number literals.
    \<open>Ejparse\<close>: parser and evaluator (\<open>ejparse.c\<close>) with the functions of other modules as a parameter (\<open>ejenv\<close>);
    \<open>Ejengine\<close>: opening and closing an engine, its tables of functions and variables, \<open>ejArgs\<close>; \<open>Ejparse_Laws\<close>:
    skipped code calls nothing; \<open>Ejexpr\<close>: the value of an expression; \<open>Ejcall\<close>: a script that is one call.
  \<^item> \<open>Asp\<close>: pages with scripts (\<open>asp.c\<close>), \<open>scriptEval\<close> and \<open>websWriteBlock\<close>, with the engine above them; \<open>Asp_Laws\<close> the
    text functions and the loop over a page; \<open>Asp_Page\<close>: the request for a page, expanded and answered.

  \<^bold>\<open>How code is represented.\<close>  A C function becomes a function from its arguments and the state to its result
  and the new state.  \<open>fault + 'a\<close> separates what C leaves undefined: \<open>Inl OutOfBounds\<close> is an access outside an
  object or through a null pointer, \<open>Inl Blocked\<close> a wait that never ends; error codes are ordinary values.
  Text is a list of 8-bit characters, and \<open>char\<close> is signed as on this target.  Allocation is a parameter
  (\<open>halloc\<close>, \<open>allocator\<close>, \<open>kenv\<close>, \<open>env\<close>, the sizes granted in \<open>Fmt\<close>): it may fail and hands out memory with any
  contents; for the driver each call of \<open>kstrdup\<close> has its own outcome (\<open>kdup\<close>), for \<open>dbLoad\<close> each line of the
  file.  Two allocations of the web server always succeed in the model, because the code tests neither: the
  copies of strings (\<open>bstrdup\<close>) and, outside \<open>Fmt\<close>, the buffers of \<open>fmtAlloc\<close> and \<open>fmtValloc\<close>.  The theorems on
  the web server are to be read with that condition.  The network, the flash chip and the functions registered
  as forms and handlers by other modules are parameters too.

  \<^bold>\<open>Bounds and fuel.\<close>  Loops are structural or have a \<open>termination\<close> proof, except: \<open>parse_env\<close> (at most
  \<open>MAX_CACHE_ENTRY\<close> rounds, the bound of the code), the formatted output, \<open>gets_loop\<close> (one byte per round; fuel is
  the number of bytes and events outstanding, \<open>pending\<close>) and \<open>read_event\<close> (one line or piece per round, the same
  measure).  The loops of the scanner get one more than the bytes left in the script and the byte put back, every
  round but the last takes one (\<open>Ejlex_Safe\<close> proves that this is enough for every token of a script of one line); the
  parser and evaluator descend with fuel, because scripts may loop for ever (\<open>for (;;)\<close>): \<open>Inl Blocked\<close> is the
  value of one that has not returned, and the theorems on scripts say which fuel gives the result (5 levels for a
  call statement, three more than the operands for an expression).  Erase blocks and partitions have the sizes of \<open>nvram.h\<close>.

  \<^bold>\<open>Not modelled.\<close>  The page functions of the configuration pages and their shell commands and CGI processes,
  because they are input and output around the parts above; of the script engine \<open>ejEvalFile\<close>, which no other file
  calls, and the array of engine handles, because every page opens one engine and closes it; TLS and digest authentication, which the build
  switches off; output to sockets and the event loop; the vendored kernel, C library and programs of the SDK.
\<close>

end
